(* ===== verification/Prelude.thy ===== *)
theory Prelude imports Main "HOL-Library.Word" "HOL-Library.Monad_Syntax" begin

text \<open>
  The vocabulary every component of the firmware model shares: the fixed-width integer
  types of \<^verbatim>\<open>tbox_type.h\<close>, checked access to C arrays (\<open>None\<close> is undefined behaviour: an
  access outside the array), counted \<^verbatim>\<open>for\<close> loops over an explicit state, and the error
  codes of \<^verbatim>\<open>tbox_type.h\<close>.
\<close>

unbundle bit_operations_syntax

section \<open>Integers\<close>

type_synonym u8 = "8 word"
type_synonym u16 = "16 word"
type_synonym u32 = "32 word"
type_synonym u64 = "64 word"

section \<open>Hint collections\<close>

named_theorems mem_simps
  "rewrite rules for checked array access"
named_theorems loop_rules
  "rules for counted loops"

section \<open>Checked access to arrays\<close>

definition rd :: "'a list \<Rightarrow> nat \<Rightarrow> 'a option" where
  "rd xs i = (if i < length xs then Some (xs ! i) else None)"

definition wr :: "'a list \<Rightarrow> nat \<Rightarrow> 'a \<Rightarrow> 'a list option" where
  "wr xs i v = (if i < length xs then Some (xs[i := v]) else None)"

text \<open>\<open>blit dst at ys\<close> overwrites the elements of \<open>dst\<close> from position \<open>at\<close> with \<open>ys\<close>.\<close>

definition blit :: "'a list \<Rightarrow> nat \<Rightarrow> 'a list \<Rightarrow> 'a list" where
  "blit dst off ys = take off dst @ ys @ drop (off + length ys) dst"

text \<open>\<open>memcpy (dst + doff) (src + soff) n\<close>, checked on both arrays.\<close>

definition memcpy :: "'a list \<Rightarrow> nat \<Rightarrow> 'a list \<Rightarrow> nat \<Rightarrow> nat \<Rightarrow> 'a list option" where
  "memcpy dst doff src soff n =
     (if doff + n \<le> length dst \<and> soff + n \<le> length src
      then Some (blit dst doff (take n (drop soff src))) else None)"

lemma rd_Some_iff [mem_simps]: "rd xs i = Some v \<longleftrightarrow> i < length xs \<and> xs ! i = v"
  by (auto simp: rd_def)

lemma wr_Some_iff [mem_simps]: "wr xs i v = Some ys \<longleftrightarrow> i < length xs \<and> ys = xs[i := v]"
  by (auto simp: wr_def)

lemma rd_in [simp]: "i < length xs \<Longrightarrow> rd xs i = Some (xs ! i)"
  by (simp add: rd_def)

lemma wr_in [simp]: "i < length xs \<Longrightarrow> wr xs i v = Some (xs[i := v])"
  by (simp add: wr_def)

lemma memcpy_in [simp]:
  "doff + n \<le> length dst \<Longrightarrow> soff + n \<le> length src
   \<Longrightarrow> memcpy dst doff src soff n = Some (blit dst doff (take n (drop soff src)))"
  by (simp add: memcpy_def)

lemma length_blit [simp]: "off + length ys \<le> length dst \<Longrightarrow> length (blit dst off ys) = length dst"
  by (simp add: blit_def)

lemma blit_Nil [simp]: "blit dst off [] = dst"
  by (simp add: blit_def)

lemma blit_all: "length ys = length dst \<Longrightarrow> blit dst 0 ys = ys"
  by (simp add: blit_def)

lemma nth_blit:
  "off + length ys \<le> length dst \<Longrightarrow> i < length dst \<Longrightarrow>
   blit dst off ys ! i =
     (if i < off then dst ! i else if i < off + length ys then ys ! (i - off) else dst ! i)"
  by (auto simp: blit_def nth_append min_def)

lemma blit_adjacent:
  "off + length xs + length ys \<le> length dst \<Longrightarrow>
   blit (blit dst off xs) (off + length xs) ys = blit dst off (xs @ ys)"
  by (rule nth_equalityI) (auto simp: nth_blit nth_append)

section \<open>Counted loops\<close>

text \<open>
  \<open>for_up i n body s\<close> runs \<open>body i, body (i + 1), \<dots>\<close> for \<open>n\<close> rounds on the state \<open>s\<close>
  and stops at the first undefined step.
\<close>

fun for_up :: "nat \<Rightarrow> nat \<Rightarrow> (nat \<Rightarrow> 's \<Rightarrow> 's option) \<Rightarrow> 's \<Rightarrow> 's option" where
  "for_up i 0 body s = Some s"
| "for_up i (Suc n) body s = do { s' \<leftarrow> body i s; for_up (Suc i) n body s' }"

lemma for_up_inv [loop_rules]:
  assumes "I i s"
    and "\<And>j t. i \<le> j \<Longrightarrow> j < i + n \<Longrightarrow> I j t \<Longrightarrow> \<exists>t'. body j t = Some t' \<and> I (Suc j) t'"
  shows "\<exists>s'. for_up i n body s = Some s' \<and> I (i + n) s'"
  using assms
proof (induction n arbitrary: i s)
  case 0
  then show ?case by simp
next
  case (Suc n)
  from Suc.prems(2)[of i s] Suc.prems(1) obtain s1
    where s1: "body i s = Some s1" "I (Suc i) s1" by auto
  have "\<exists>s'. for_up (Suc i) n body s1 = Some s' \<and> I (Suc i + n) s'"
    by (rule Suc.IH) (use s1 Suc.prems(2) in auto)
  with s1 show ?case by simp
qed

lemma for_up_append:
  "for_up i (m + n) body s = do { s' \<leftarrow> for_up i m body s; for_up (i + m) n body s' }"
  by (induction m arbitrary: i s) (auto split: Option.bind_splits)

lemma for_up_total: "for_up i n (\<lambda>j s. Some (f j s)) s = Some (fold f [i..<i + n] s)"
  by (induction n arbitrary: i s) (auto simp: upt_rec)

section \<open>Arithmetic of machine words\<close>

lemma unat_less_size [simp]: "unat (x :: 'a::len word) < 2 ^ LENGTH('a)"
  by (rule unsigned_less)

lemma unat_u8_lt: "unat (x :: u8) < 256"
  using unsigned_less [of x, where ?'a = nat] by simp

lemma unat_u16_lt: "unat (x :: u16) < 65536"
  using unsigned_less [of x, where ?'a = nat] by simp

lemma unat_u32_lt: "unat (x :: u32) < 4294967296"
  using unsigned_less [of x, where ?'a = nat] by simp

lemma unat_ucast_up [simp]:
  assumes "LENGTH('a) \<le> LENGTH('b)"
  shows "unat (ucast (x :: 'a::len word) :: 'b::len word) = unat x"
proof -
  have "unat x < 2 ^ LENGTH('b)"
    using assms unsigned_less [of x, where ?'a = nat]
    by (meson less_le_trans one_le_numeral power_increasing)
  then show ?thesis by (simp add: unsigned_ucast_eq take_bit_nat_eq_self)
qed

lemma funpow_8: "(f ^^ 8) x = f (f (f (f (f (f (f (f x)))))))"
  by (simp add: numeral_eq_Suc)

lemma unat_plus_if_fits:
  "unat x + unat y < 2 ^ LENGTH('a) \<Longrightarrow> unat (x + y :: 'a::len word) = unat x + unat y"
  by (simp add: unat_word_ariths)

lemma xor_right_cancel [simp]: "x XOR z = y XOR z \<longleftrightarrow> x = (y :: 'a::len word)"
  by (metis xor.assoc xor.right_neutral xor_self_eq)

lemma xor_left_cancel [simp]: "z XOR x = z XOR y \<longleftrightarrow> x = (y :: 'a::len word)"
  by (metis xor.assoc xor.left_neutral xor_self_eq)

lemma unat_minus_le: "y \<le> x \<Longrightarrow> unat (x - y :: 'a::len word) = unat x - unat y"
  by (rule unat_sub)

lemma unat_drop_bit: "unat (drop_bit n i :: 'a::len word) = unat i div 2 ^ n"
  by (metis drop_bit_eq_div unsigned_drop_bit_eq unat_less_size take_bit_nat_eq_self_iff div_le_dividend le_less_trans)

lemma and_not_mask: "(x :: 'a::len word) AND NOT (mask k) = push_bit k (drop_bit k x)"
  by (rule bit_word_eqI) (auto simp: bit_simps)

lemma unat_align_down:
  "unat ((x :: 'a::len word) AND NOT (mask k)) = unat x div 2 ^ k * 2 ^ k"
proof -
  have "unat x div 2 ^ k * 2 ^ k \<le> unat x" by (simp add: div_times_less_eq_dividend)
  then have fits: "unat (drop_bit k x) * 2 ^ k < 2 ^ LENGTH('a)"
    using unat_less_size [of x] unfolding unat_drop_bit by (rule le_less_trans)
  have "unat (push_bit k (drop_bit k x)) = unat (drop_bit k x) * 2 ^ k"
    by (subst unsigned_push_bit_eq)
      (use fits in \<open>simp only: push_bit_eq_mult take_bit_nat_eq_self\<close>)
  then show ?thesis unfolding and_not_mask unat_drop_bit .
qed

end
