(* ===== verification/Checksum.thy ===== *)
theory Checksum imports Prelude begin

text \<open>
  \<^verbatim>\<open>src/common/checksum.c\<close>: the Fletcher-16, XOR and sum checksums, CRC-32 (table driven,
  polynomial \<open>0x04c11db7\<close>, no reflection) and CRC-16 (bitwise, polynomial \<open>0x1021\<close>). A
  buffer with its length is the list of its bytes. The lemmas show what a receiver relies
  on: the check value makes the verification pass, errors of the promised kind are
  detected, and the CRC-32 table agrees with the division by the polynomial.
\<close>

unbundle bit_operations_syntax

section \<open>Definitions\<close>

definition crc32_table :: "u32 list" where
  "crc32_table =
    [0x00000000, 0x04c11db7, 0x09823b6e, 0x0d4326d9, 0x130476dc, 0x17c56b6b, 0x1a864db2, 0x1e475005,
     0x2608edb8, 0x22c9f00f, 0x2f8ad6d6, 0x2b4bcb61, 0x350c9b64, 0x31cd86d3, 0x3c8ea00a, 0x384fbdbd,
     0x4c11db70, 0x48d0c6c7, 0x4593e01e, 0x4152fda9, 0x5f15adac, 0x5bd4b01b, 0x569796c2, 0x52568b75,
     0x6a1936c8, 0x6ed82b7f, 0x639b0da6, 0x675a1011, 0x791d4014, 0x7ddc5da3, 0x709f7b7a, 0x745e66cd,
     0x9823b6e0, 0x9ce2ab57, 0x91a18d8e, 0x95609039, 0x8b27c03c, 0x8fe6dd8b, 0x82a5fb52, 0x8664e6e5,
     0xbe2b5b58, 0xbaea46ef, 0xb7a96036, 0xb3687d81, 0xad2f2d84, 0xa9ee3033, 0xa4ad16ea, 0xa06c0b5d,
     0xd4326d90, 0xd0f37027, 0xddb056fe, 0xd9714b49, 0xc7361b4c, 0xc3f706fb, 0xceb42022, 0xca753d95,
     0xf23a8028, 0xf6fb9d9f, 0xfbb8bb46, 0xff79a6f1, 0xe13ef6f4, 0xe5ffeb43, 0xe8bccd9a, 0xec7dd02d,
     0x34867077, 0x30476dc0, 0x3d044b19, 0x39c556ae, 0x278206ab, 0x23431b1c, 0x2e003dc5, 0x2ac12072,
     0x128e9dcf, 0x164f8078, 0x1b0ca6a1, 0x1fcdbb16, 0x018aeb13, 0x054bf6a4, 0x0808d07d, 0x0cc9cdca,
     0x7897ab07, 0x7c56b6b0, 0x71159069, 0x75d48dde, 0x6b93dddb, 0x6f52c06c, 0x6211e6b5, 0x66d0fb02,
     0x5e9f46bf, 0x5a5e5b08, 0x571d7dd1, 0x53dc6066, 0x4d9b3063, 0x495a2dd4, 0x44190b0d, 0x40d816ba,
     0xaca5c697, 0xa864db20, 0xa527fdf9, 0xa1e6e04e, 0xbfa1b04b, 0xbb60adfc, 0xb6238b25, 0xb2e29692,
     0x8aad2b2f, 0x8e6c3698, 0x832f1041, 0x87ee0df6, 0x99a95df3, 0x9d684044, 0x902b669d, 0x94ea7b2a,
     0xe0b41de7, 0xe4750050, 0xe9362689, 0xedf73b3e, 0xf3b06b3b, 0xf771768c, 0xfa325055, 0xfef34de2,
     0xc6bcf05f, 0xc27dede8, 0xcf3ecb31, 0xcbffd686, 0xd5b88683, 0xd1799b34, 0xdc3abded, 0xd8fba05a,
     0x690ce0ee, 0x6dcdfd59, 0x608edb80, 0x644fc637, 0x7a089632, 0x7ec98b85, 0x738aad5c, 0x774bb0eb,
     0x4f040d56, 0x4bc510e1, 0x46863638, 0x42472b8f, 0x5c007b8a, 0x58c1663d, 0x558240e4, 0x51435d53,
     0x251d3b9e, 0x21dc2629, 0x2c9f00f0, 0x285e1d47, 0x36194d42, 0x32d850f5, 0x3f9b762c, 0x3b5a6b9b,
     0x0315d626, 0x07d4cb91, 0x0a97ed48, 0x0e56f0ff, 0x1011a0fa, 0x14d0bd4d, 0x19939b94, 0x1d528623,
     0xf12f560e, 0xf5ee4bb9, 0xf8ad6d60, 0xfc6c70d7, 0xe22b20d2, 0xe6ea3d65, 0xeba91bbc, 0xef68060b,
     0xd727bbb6, 0xd3e6a601, 0xdea580d8, 0xda649d6f, 0xc423cd6a, 0xc0e2d0dd, 0xcda1f604, 0xc960ebb3,
     0xbd3e8d7e, 0xb9ff90c9, 0xb4bcb610, 0xb07daba7, 0xae3afba2, 0xaafbe615, 0xa7b8c0cc, 0xa379dd7b,
     0x9b3660c6, 0x9ff77d71, 0x92b45ba8, 0x9675461f, 0x8832161a, 0x8cf30bad, 0x81b02d74, 0x857130c3,
     0x5d8a9099, 0x594b8d2e, 0x5408abf7, 0x50c9b640, 0x4e8ee645, 0x4a4ffbf2, 0x470cdd2b, 0x43cdc09c,
     0x7b827d21, 0x7f436096, 0x7200464f, 0x76c15bf8, 0x68860bfd, 0x6c47164a, 0x61043093, 0x65c52d24,
     0x119b4be9, 0x155a565e, 0x18197087, 0x1cd86d30, 0x029f3d35, 0x065e2082, 0x0b1d065b, 0x0fdc1bec,
     0x3793a651, 0x3352bbe6, 0x3e119d3f, 0x3ad08088, 0x2497d08d, 0x2056cd3a, 0x2d15ebe3, 0x29d4f654,
     0xc5a92679, 0xc1683bce, 0xcc2b1d17, 0xc8ea00a0, 0xd6ad50a5, 0xd26c4d12, 0xdf2f6bcb, 0xdbee767c,
     0xe3a1cbc1, 0xe760d676, 0xea23f0af, 0xeee2ed18, 0xf0a5bd1d, 0xf464a0aa, 0xf9278673, 0xfde69bc4,
     0x89b8fd09, 0x8d79e0be, 0x803ac667, 0x84fbdbd0, 0x9abc8bd5, 0x9e7d9662, 0x933eb0bb, 0x97ffad0c,
     0xafb010b1, 0xab710d06, 0xa6322bdf, 0xa2f33668, 0xbcb4666d, 0xb8757bda, 0xb5365d03, 0xb1f740b4]"

text \<open>The loop both Fletcher functions share: the two running sums, modulo 256.\<close>

fun fletcher16_sums :: "u8 list \<Rightarrow> u8 \<Rightarrow> u8 \<Rightarrow> u8 \<times> u8" where
  "fletcher16_sums [] c1 c2 = (c1, c2)"
| "fletcher16_sums (b # bs) c1 c2 =
     (let c1' = c1 + b; c2' = c2 + c1' in fletcher16_sums bs c1' c2')"

definition fletcher16_checksum :: "u8 list \<Rightarrow> u16" where
  "fletcher16_checksum data =
     (let (c1, c2) = fletcher16_sums data 0 0;
          c2 = c2 + c1;
          c2 = c2 + c1;
          checksum = (ucast (c1 - c2 :: u8) :: u16)
      in checksum OR push_bit 8 (ucast (c2 - 2 * c1 :: u8)))"

definition fletcher16_verify :: "u8 list \<Rightarrow> u16" where
  "fletcher16_verify data =
     (let (c1, c2) = fletcher16_sums data 0 0 in ucast c1 + ucast c2)"

fun xor_checksum_from :: "u8 \<Rightarrow> u8 list \<Rightarrow> u8" where
  "xor_checksum_from acc [] = acc"
| "xor_checksum_from acc (b # bs) = xor_checksum_from (acc XOR b) bs"

definition xor_checksum :: "u8 list \<Rightarrow> u8" where
  "xor_checksum data = xor_checksum_from 0 data"

fun sum_checksum_from :: "u8 \<Rightarrow> u8 list \<Rightarrow> u8" where
  "sum_checksum_from acc [] = acc"
| "sum_checksum_from acc (b # bs) = sum_checksum_from (acc + b) bs"

definition sum_checksum :: "u8 list \<Rightarrow> u8" where
  "sum_checksum data = sum_checksum_from 0 data"

definition crc32_step :: "u32 \<Rightarrow> u8 \<Rightarrow> u32" where
  "crc32_step crc b =
     push_bit 8 crc XOR crc32_table ! unat ((drop_bit 24 crc XOR ucast b) AND 255)"

fun crc32 :: "u8 list \<Rightarrow> u32 \<Rightarrow> u32" where
  "crc32 [] crc = crc"
| "crc32 (b # bs) crc = crc32 bs (crc32_step crc b)"

text \<open>One round of the inner \<^verbatim>\<open>do ... while (--i)\<close> loop of \<^verbatim>\<open>crc16\<close>.\<close>

definition crc16_bit :: "u16 \<Rightarrow> u16" where
  "crc16_bit crc = (if crc AND 0x8000 \<noteq> 0 then push_bit 1 crc XOR 0x1021 else push_bit 1 crc)"

definition crc16_step :: "u16 \<Rightarrow> u8 \<Rightarrow> u16" where
  "crc16_step crc b = (crc16_bit ^^ 8) (crc XOR push_bit 8 (ucast b))"

fun crc16_from :: "u16 \<Rightarrow> u8 list \<Rightarrow> u16" where
  "crc16_from crc [] = crc"
| "crc16_from crc (b # bs) = crc16_from (crc16_step crc b) bs"

definition crc16 :: "u8 list \<Rightarrow> u16" where
  "crc16 data = crc16_from 0 data"

section \<open>Fletcher-16\<close>

text \<open>The two check bytes in the order a little-endian write of the checksum puts them.\<close>

definition le_bytes16 :: "u16 \<Rightarrow> u8 list" where
  "le_bytes16 w = [ucast w, ucast (drop_bit 8 w)]"

lemma le_bytes16_OR:
  "le_bytes16 (ucast (a :: u8) OR push_bit 8 (ucast (b :: u8))) = [a, b]"
proof -
  have "\<not> bit a (8 + n)" for n
    using bit_imp_le_length [of a "8 + n"] by auto
  then show ?thesis
    by (auto simp: le_bytes16_def bit_simps intro!: bit_word_eqI)
qed

text \<open>The weight of a byte in the second sum is its distance to the end of the data.\<close>

fun weighted_sum :: "u8 list \<Rightarrow> u8" where
  "weighted_sum [] = 0"
| "weighted_sum (b # bs) = of_nat (length (b # bs)) * b + weighted_sum bs"

lemma fletcher16_sums_closed:
  "fletcher16_sums xs c1 c2 =
     (c1 + sum_list xs, c2 + of_nat (length xs) * c1 + weighted_sum xs)"
  by (induction xs arbitrary: c1 c2) (auto simp: Let_def algebra_simps)

lemma weighted_sum_append:
  "weighted_sum (xs @ ys) = weighted_sum xs + of_nat (length ys) * sum_list xs + weighted_sum ys"
  by (induction xs) (auto simp: algebra_simps)

lemma ucast_add_eq_0: "(ucast (a :: u8) + ucast b :: u16) = 0 \<longleftrightarrow> a = 0 \<and> b = (0 :: u8)"
proof -
  have "unat (ucast a + ucast b :: u16) = unat a + unat b"
    using unat_u8_lt [of a] unat_u8_lt [of b]
    by (simp add: unat_word_ariths unsigned_ucast_eq take_bit_nat_eq_self)
  then show ?thesis
    by (metis add_is_0 unat_eq_zero)
qed

lemma fletcher16_verify_0:
  "fletcher16_verify xs = 0 \<longleftrightarrow> sum_list xs = 0 \<and> weighted_sum xs = 0"
  by (simp add: fletcher16_verify_def fletcher16_sums_closed ucast_add_eq_0)

lemma fletcher16_check_bytes:
  "le_bytes16 (fletcher16_checksum data) =
     [- sum_list data - weighted_sum data, weighted_sum data]"
  by (simp add: fletcher16_checksum_def fletcher16_sums_closed Let_def le_bytes16_OR
      algebra_simps)

text \<open>Data followed by its Fletcher-16 check bytes passes the verification.\<close>

theorem fletcher16_roundtrip:
  "fletcher16_verify (data @ le_bytes16 (fletcher16_checksum data)) = 0"
  by (simp add: fletcher16_verify_0 fletcher16_check_bytes weighted_sum_append)

lemma sum_list_update_word:
  "i < length xs \<Longrightarrow> sum_list (xs[i := b]) = sum_list xs + (b - xs ! i :: u8)"
  by (induction xs arbitrary: i) (auto split: nat.splits)

lemma weighted_sum_update:
  "i < length xs \<Longrightarrow>
   weighted_sum (xs[i := b]) = weighted_sum xs + of_nat (length xs - i) * (b - xs ! i)"
  by (induction xs arbitrary: i) (auto simp: algebra_simps split: nat.splits)

text \<open>
  On data that passes the verification, replacing one byte by another value, or
  exchanging two different neighbouring bytes, makes the verification fail.
\<close>

theorem fletcher16_detects:
  assumes "fletcher16_verify xs = 0" and "i < length xs"
  shows "(b \<noteq> xs ! i \<longrightarrow> fletcher16_verify (xs[i := b]) \<noteq> 0) \<and>
         (Suc i < length xs \<longrightarrow> xs ! i \<noteq> xs ! Suc i \<longrightarrow>
           fletcher16_verify (xs[i := xs ! Suc i, Suc i := xs ! i]) \<noteq> 0)"
proof (intro conjI impI)
  assume "b \<noteq> xs ! i"
  with assms show "fletcher16_verify (xs[i := b]) \<noteq> 0"
    by (simp add: fletcher16_verify_0 sum_list_update_word)
next
  assume i: "Suc i < length xs" and ne: "xs ! i \<noteq> xs ! Suc i"
  let ?ys = "xs[i := xs ! Suc i, Suc i := xs ! i]" and ?d = "xs ! Suc i - xs ! i"
  have "weighted_sum ?ys =
      weighted_sum xs + (of_nat (length xs - i) * ?d - of_nat (length xs - Suc i) * ?d)"
    using i by (simp add: weighted_sum_update algebra_simps)
  also have "length xs - i = Suc (length xs - Suc i)"
    using i by simp
  finally have "weighted_sum ?ys = weighted_sum xs + ?d"
    by (simp only: of_nat_Suc algebra_simps) simp
  with assms(1) ne show "fletcher16_verify ?ys \<noteq> 0"
    by (simp add: fletcher16_verify_0)
qed

theorem fletcher16_detects_witness:
  "fletcher16_verify [1, 2, 249, 4] = 0 \<and> fletcher16_verify [1, 249, 2, 4] \<noteq> 0"
proof -
  have ok: "fletcher16_verify [1, 2, 249, 4] = 0"
    by (simp add: fletcher16_verify_0)
  have "fletcher16_verify ([1, 2, 249, 4][1 := 249, Suc 1 := 2]) \<noteq> 0"
    using fletcher16_detects [OF ok, of 1 0] by simp
  with ok show ?thesis by simp
qed

section \<open>CRC-16\<close>

lemma crc16_bit_XOR: "crc16_bit (x XOR y) = crc16_bit x XOR crc16_bit y"
proof -
  have msb: "(w AND 0x8000 \<noteq> 0) = bit w 15" for w :: u16
    using and_exp_eq_0_iff_not_bit [of w 15] by simp
  show ?thesis
    by (auto simp: crc16_bit_def msb bit_simps intro!: bit_word_eqI)
qed

lemma crc16_bit_inj: "inj crc16_bit"
proof (rule injI)
  fix x y
  assume "crc16_bit x = crc16_bit y"
  then have z: "crc16_bit (x XOR y) = 0"
    by (simp add: crc16_bit_XOR)
  have xy: "x XOR y = 0"
  proof (cases "(x XOR y) AND 0x8000 = 0")
    case True
    with z have p: "push_bit 1 (x XOR y) = 0" by (simp add: crc16_bit_def)
    have "\<not> bit (x XOR y) n" if "n < 16" for n
    proof (cases "n = 15")
      case True
      then show ?thesis
        using \<open>(x XOR y) AND 0x8000 = 0\<close> and_exp_eq_0_iff_not_bit [of "x XOR y" 15] by simp
    next
      case False
      with that have "Suc n < 16" by simp
      have "bit (push_bit 1 (x XOR y)) (Suc n) = bit (0 :: u16) (Suc n)"
        by (simp only: p)
      with \<open>Suc n < 16\<close> show ?thesis unfolding bit_push_bit_iff by simp
    qed
    then show ?thesis by (auto intro!: bit_word_eqI)
  next
    case False
    with z have "push_bit 1 (x XOR y) XOR 0x1021 = 0"
      unfolding crc16_bit_def by simp
    then have "bit (push_bit 1 (x XOR y) XOR 0x1021) 0 = bit (0 :: u16) 0"
      by (simp only:)
    then have False unfolding bit_xor_iff bit_push_bit_iff by simp
    then show ?thesis ..
  qed
  have "x = (x XOR y) XOR y" by (simp add: xor.assoc)
  then show "x = y" by (simp add: xy)
qed

lemma crc16_bit_pow_XOR: "(crc16_bit ^^ n) (x XOR y) = (crc16_bit ^^ n) x XOR (crc16_bit ^^ n) y"
  by (induction n) (simp_all add: crc16_bit_XOR)

lemma crc16_bit_pow_inj: "(crc16_bit ^^ n) x = (crc16_bit ^^ n) y \<longleftrightarrow> x = y"
  using crc16_bit_inj by (metis inj_eq inj_fn)

text \<open>A value without set bits in the upper byte only moves up during eight rounds.\<close>

lemma crc16_bit_pow_low: "n \<le> 8 \<Longrightarrow> (crc16_bit ^^ n) (ucast (b :: u8)) = push_bit n (ucast b)"
proof (induction n)
  case 0
  then show ?case by simp
next
  case (Suc n)
  then have "\<not> bit (push_bit n (ucast b :: u16)) 15"
    using bit_imp_le_length [of b "15 - n"] by (auto simp: bit_simps)
  then have "push_bit n (ucast b :: u16) AND 0x8000 = 0"
    using and_exp_eq_0_iff_not_bit [of "push_bit n (ucast b :: u16)" 15] by simp
  with Suc show ?case
    by (simp add: crc16_bit_def push_bit_push_bit)
qed

text \<open>Two bytes at a time: sixteen rounds on the state combined with the big-endian pair.\<close>

lemma crc16_step_pair:
  "crc16_step (crc16_step crc a) b = (crc16_bit ^^ 16) (crc XOR (push_bit 8 (ucast a) XOR ucast b))"
proof -
  have eight: "(crc16_bit ^^ 8) (ucast b) = push_bit 8 (ucast b :: u16)"
    by (rule crc16_bit_pow_low) simp
  have "(crc16_bit ^^ 16) x = (crc16_bit ^^ 8) ((crc16_bit ^^ 8) x)" for x
    by (simp add: funpow_add [symmetric] flip: funpow_add comp_apply [of "crc16_bit ^^ 8"])
  then show ?thesis
    by (simp add: crc16_step_def crc16_bit_pow_XOR flip: eight xor.assoc)
qed

lemma crc16_from_append: "crc16_from crc (xs @ ys) = crc16_from (crc16_from crc xs) ys"
  by (induction xs arbitrary: crc) simp_all

lemma crc16_from_inj: "crc16_from x bs = crc16_from y bs \<longleftrightarrow> x = y"
  by (induction bs arbitrary: x y) (simp_all add: crc16_step_def crc16_bit_pow_inj)

definition be_bytes16 :: "u16 \<Rightarrow> u8 list" where
  "be_bytes16 w = [ucast (drop_bit 8 w), ucast w]"

lemma be_pair_bytes:
  fixes a b :: u8
  assumes "w = push_bit 8 (ucast a) XOR (ucast b :: u16)"
  shows "ucast (drop_bit 8 w) = a" and "ucast w = b"
proof -
  have "\<not> bit b (8 + n)" for n
    using bit_imp_le_length [of b "8 + n"] by auto
  then show "ucast (drop_bit 8 w) = a" and "ucast w = b"
    by (auto simp: assms bit_simps intro!: bit_word_eqI)
qed

lemma be_bytes16_combine:
  fixes w :: u16
  shows "push_bit 8 (ucast (ucast (drop_bit 8 w) :: u8)) XOR ucast (ucast w :: u8) = w"
    (is "?v = w")
proof (rule bit_word_eqI)
  fix n
  assume "n < LENGTH(16)"
  then show "bit ?v n = bit w n"
    by (cases "n < 8") (auto simp: bit_simps)
qed

lemma crc16_zero: "(crc16_bit ^^ n) 0 = 0"
  by (induction n) (simp_all add: crc16_bit_def)

text \<open>
  Appending the CRC-16 of the data in big-endian order gives a message whose CRC-16
  is 0, and a corruption confined to two neighbouring bytes always changes the CRC-16.
\<close>

theorem crc16_detects:
  "crc16 (data @ be_bytes16 (crc16 data)) = 0 \<and>
   (crc16 (xs @ [a, b] @ ys) = crc16 (xs @ [a', b'] @ ys) \<longleftrightarrow> a = a' \<and> b = b')"
proof
  show "crc16 (data @ be_bytes16 (crc16 data)) = 0"
    by (simp add: crc16_def crc16_from_append be_bytes16_def crc16_step_pair
        be_bytes16_combine crc16_zero)
  have pair: "(push_bit 8 (ucast a) XOR ucast b :: u16) = push_bit 8 (ucast a') XOR ucast b'
     \<Longrightarrow> a = a' \<and> b = b'" for a b a' b' :: u8
    by (metis be_pair_bytes)
  show "crc16 (xs @ [a, b] @ ys) = crc16 (xs @ [a', b'] @ ys) \<longleftrightarrow> a = a' \<and> b = b'"
    by (auto simp: crc16_def crc16_from_append crc16_from_inj crc16_step_pair crc16_bit_pow_inj
        dest!: pair)
qed

section \<open>CRC-32\<close>

text \<open>Reference: division by the polynomial, one bit at a time, most significant bit first.\<close>

definition crc32_bit :: "u32 \<Rightarrow> u32" where
  "crc32_bit crc = (if bit crc 31 then push_bit 1 crc XOR 0x04c11db7 else push_bit 1 crc)"

definition crc32_ref_step :: "u32 \<Rightarrow> u8 \<Rightarrow> u32" where
  "crc32_ref_step crc b = (crc32_bit ^^ 8) (crc XOR push_bit 24 (ucast b))"

fun crc32_ref :: "u8 list \<Rightarrow> u32 \<Rightarrow> u32" where
  "crc32_ref [] crc = crc"
| "crc32_ref (b # bs) crc = crc32_ref bs (crc32_ref_step crc b)"

lemma crc32_bit_XOR: "crc32_bit (x XOR y) = crc32_bit x XOR crc32_bit y"
  by (auto simp: crc32_bit_def bit_simps intro!: bit_word_eqI)

lemma crc32_bit_pow_XOR: "(crc32_bit ^^ n) (x XOR y) = (crc32_bit ^^ n) x XOR (crc32_bit ^^ n) y"
  by (induction n) (simp_all add: crc32_bit_XOR)

lemma crc32_bit_pow_low:
  "n \<le> 8 \<Longrightarrow> (\<And>k. 24 \<le> k \<Longrightarrow> \<not> bit w k) \<Longrightarrow> (crc32_bit ^^ n) w = push_bit n w"
proof (induction n)
  case 0
  then show ?case by simp
next
  case (Suc n)
  then have "\<not> bit (push_bit n w) 31"
    by (auto simp: bit_push_bit_iff)
  with Suc show ?case
    by (simp add: crc32_bit_def push_bit_push_bit)
qed

lemma length_crc32_table: "length crc32_table = 256"
  by (simp add: crc32_table_def)

text \<open>
  The table is correct when each even entry is one bit step of the entry at half the index
  and each odd entry differs from its even neighbour by the polynomial.
\<close>

fun crc32_pairs_ok :: "u32 list \<Rightarrow> u32 list \<Rightarrow> bool" where
  "crc32_pairs_ok (t # ts) (a # b # us) \<longleftrightarrow>
     a = crc32_bit t \<and> b = crc32_bit t XOR 0x04c11db7 \<and> crc32_pairs_ok ts us"
| "crc32_pairs_ok ts us \<longleftrightarrow> ts = [] \<and> us = []"

lemma crc32_pairs_ok_nth:
  "crc32_pairs_ok ts us \<Longrightarrow> i < length ts \<Longrightarrow>
   us ! (2 * i) = crc32_bit (ts ! i) \<and> us ! Suc (2 * i) = crc32_bit (ts ! i) XOR 0x04c11db7"
  by (induction ts us arbitrary: i rule: crc32_pairs_ok.induct)
     (auto simp: nth_Cons split: nat.splits)

lemma crc32_table_pairs: "crc32_pairs_ok (take 128 crc32_table) crc32_table"
  by (simp add: crc32_table_def crc32_bit_def)

lemma crc32_table_eq:
  "i < 256 \<Longrightarrow> crc32_table ! i = (crc32_bit ^^ 8) (push_bit 24 (word_of_nat i))"
proof (induction i rule: less_induct)
  case (less i)
  let ?w = "\<lambda>i. push_bit 24 (word_of_nat i) :: u32"
  show ?case
  proof (cases "i = 0")
    case True
    then show ?thesis by (simp add: crc32_table_def crc32_bit_def funpow_8)
  next
    case False
    define j where "j = i div 2"
    have j: "j < i" "j < 128" and i: "i = 2 * j \<or> i = Suc (2 * j)"
      using False less.prems by (auto simp: j_def)
    have half: "(crc32_bit ^^ 8) (?w (2 * j)) = crc32_bit (crc32_table ! j)"
    proof -
      have "\<not> bit (?w j) 31"
        using j(2) unfolding bit_push_bit_iff by (simp add: bit_of_nat_iff) (simp add: bit_nat_def)
      then have "crc32_bit (?w j) = ?w (2 * j)"
        by (simp add: crc32_bit_def push_bit_eq_mult)
      then have "(crc32_bit ^^ 8) (?w (2 * j)) = (crc32_bit ^^ 8) (crc32_bit (?w j))"
        by simp
      also have "\<dots> = crc32_bit ((crc32_bit ^^ 8) (?w j))"
        by (rule funpow_swap1 [symmetric])
      finally show ?thesis using less.IH [OF j(1)] j(2) by simp
    qed
    have odd: "?w (Suc (2 * j)) = ?w (2 * j) XOR ?w 1"
    proof -
      have "(word_of_nat (Suc (2 * j)) :: u32) = word_of_nat (2 * j) XOR word_of_nat 1"
        by (simp add: xor_one_eq)
      then show ?thesis by (simp only: push_bit_xor)
    qed
    have one: "(crc32_bit ^^ 8) (?w 1) = 0x04c11db7"
      by (simp add: crc32_bit_def funpow_8)
    have p: "crc32_table ! (2 * j) = crc32_bit (crc32_table ! j)"
      "crc32_table ! Suc (2 * j) = crc32_bit (crc32_table ! j) XOR 0x04c11db7"
      using crc32_pairs_ok_nth [OF crc32_table_pairs, of j] j(2)
      by (simp_all add: length_crc32_table)
    from i show ?thesis
    proof
      assume "i = 2 * j"
      then show ?thesis by (simp only: p(1) half)
    next
      assume "i = Suc (2 * j)"
      then show ?thesis by (simp only: p(2) odd crc32_bit_pow_XOR half one)
    qed
  qed
qed

lemma crc32_step_ref: "crc32_step crc b = crc32_ref_step crc b"
proof -
  define u where "u = (ucast (drop_bit 24 crc) XOR b :: u8)"
  have t: "drop_bit 24 crc XOR ucast b = (ucast u :: u32)"
    using bit_imp_le_length [of crc] by (force simp: u_def bit_simps intro!: bit_word_eqI)
  have m: "ucast u AND 255 = (ucast u :: u32)"
  proof -
    have "ucast u AND 255 = take_bit 8 (ucast u :: u32)"
      by (simp add: take_bit_eq_mask mask_eq_exp_minus_1)
    also have "\<dots> = ucast u"
      using bit_imp_le_length [of u] by (force simp: bit_simps intro!: bit_word_eqI)
    finally show ?thesis .
  qed
  have tab: "crc32_table ! unat u = (crc32_bit ^^ 8) (push_bit 24 (ucast u))"
    using unat_u8_lt [of u] crc32_table_eq [of "unat u"] by simp
  have "crc XOR push_bit 24 (ucast b) = take_bit 24 crc XOR push_bit 24 (ucast u)"
    unfolding t [symmetric] by (auto simp: bit_simps intro!: bit_word_eqI)
  moreover have "(crc32_bit ^^ 8) (take_bit 24 crc) = push_bit 8 (take_bit 24 crc)"
    by (rule crc32_bit_pow_low) (auto simp: bit_simps)
  moreover have "push_bit 8 (take_bit 24 crc) = push_bit 8 crc"
    by (auto simp: bit_simps intro!: bit_word_eqI)
  ultimately show ?thesis
    by (simp add: crc32_step_def crc32_ref_step_def crc32_bit_pow_XOR t m tab)
qed

text \<open>
  C26: the table-driven CRC-32 computes the bitwise polynomial division, for every buffer
  and every start value.
\<close>

theorem crc32_correct: "crc32 data init = crc32_ref data init"
  by (induction data arbitrary: init) (simp_all add: crc32_step_ref)

end
