(* ===== verification/Cobs.thy ===== *)
theory Cobs imports Prelude begin

text \<open>
  \<^verbatim>\<open>src/common/cobs.c\<close>: consistent overhead byte stuffing. The output buffer is the list of
  bytes written so far, and the encoder's \<^verbatim>\<open>code_ptr\<close> is an index into it: a block is opened
  by reserving the position of its code byte, which is written when the block is closed.
  The lemmas show that the encoded form has no zero byte, a bounded length, and decodes to
  the data, and that the decoder never writes more bytes than it reads, on any input.
\<close>

section \<open>Encoder\<close>

definition start_block :: "u8 list \<Rightarrow> u8 list \<times> nat \<times> u8" where
  "start_block dst = (dst @ [0], length dst, 1)"

definition finish_block :: "u8 list \<Rightarrow> nat \<Rightarrow> u8 \<Rightarrow> u8 list" where
  "finish_block dst code_ptr code = dst[code_ptr := code]"

text \<open>The loop \<^verbatim>\<open>while(src < end)\<close>: a full block is closed without consuming a byte.\<close>

function cobs_encode_loop :: "u8 list \<Rightarrow> u8 list \<Rightarrow> nat \<Rightarrow> u8 \<Rightarrow> u8 list" where
  "cobs_encode_loop [] dst code_ptr code = finish_block dst code_ptr code"
| "cobs_encode_loop (c # src) dst code_ptr code =
     (if code \<noteq> 0xFF \<and> c \<noteq> 0
      then cobs_encode_loop src (dst @ [c]) code_ptr (code + 1)
      else let (dst', code_ptr', code') = start_block (finish_block dst code_ptr code)
           in cobs_encode_loop (if code \<noteq> 0xFF then src else c # src) dst' code_ptr' code')"
  by pat_completeness auto
termination
  by (relation "measures [\<lambda>(src, _, _, code). length src, \<lambda>(src, _, _, code). if code = 0xFF then 1 else 0]")
     (auto simp: start_block_def)

definition cobs_encode :: "u8 list \<Rightarrow> u8 list" where
  "cobs_encode src =
     (let (dst, code_ptr, code) = start_block [] in cobs_encode_loop src dst code_ptr code)"

section \<open>Decoder\<close>

text \<open>\<^verbatim>\<open>copy\<close> counts down the bytes left in the block; a zero code byte ends the loop.\<close>

fun cobs_decode_loop :: "u8 list \<Rightarrow> u8 list \<Rightarrow> u8 \<Rightarrow> u8 \<Rightarrow> u8 list" where
  "cobs_decode_loop [] dst code copy = dst"
| "cobs_decode_loop (s # src) dst code copy =
     (if copy \<noteq> 0
      then cobs_decode_loop src (dst @ [s]) code (copy - 1)
      else let dst' = (if code \<noteq> 0xFF then dst @ [0] else dst)
           in if s = 0 then dst' else cobs_decode_loop src dst' s (s - 1))"

definition cobs_decode :: "u8 list \<Rightarrow> u8 list" where
  "cobs_decode src = cobs_decode_loop src [] 0xFF 0"

section \<open>The encoding, block by block\<close>

text \<open>
  \<open>cobs_blocks src b\<close> is the encoded form from an open block with contents \<open>b\<close> on, without
  the buffer and the pointer into it.
\<close>

function cobs_blocks :: "u8 list \<Rightarrow> u8 list \<Rightarrow> u8 list" where
  "cobs_blocks [] b = of_nat (Suc (length b)) # b"
| "cobs_blocks (c # src) b =
     (if length b < 254
      then if c \<noteq> 0 then cobs_blocks src (b @ [c])
           else of_nat (Suc (length b)) # b @ cobs_blocks src []
      else of_nat (Suc (length b)) # b @ cobs_blocks (c # src) [])"
  by pat_completeness auto
termination
  by (relation "measures [\<lambda>(src, b). length src, \<lambda>(src, b). length b]") auto

declare cobs_encode_loop.simps(2) [simp del] cobs_blocks.simps(2) [simp del]

lemma of_nat_u8_inj: "m < 256 \<Longrightarrow> n < 256 \<Longrightarrow> (of_nat m :: u8) = of_nat n \<longleftrightarrow> m = n"
  by (simp add: word_of_nat_eq_iff take_bit_nat_eq_self)

lemma code_full_iff: "length b \<le> 254 \<Longrightarrow> (of_nat (Suc (length b)) :: u8) = 0xFF \<longleftrightarrow> length b = 254"
  using of_nat_u8_inj [of "Suc (length b)" 255] by auto

lemma code_not_0: "length b \<le> 254 \<Longrightarrow> (of_nat (Suc (length b)) :: u8) \<noteq> 0"
  using of_nat_u8_inj [of "Suc (length b)" 0] by auto

lemma cobs_encode_loop_blocks:
  assumes "length b \<le> 254"
  shows "cobs_encode_loop src (d @ [x] @ b) (length d) (of_nat (Suc (length b))) =
         d @ cobs_blocks src b"
  using assms
proof (induction src b arbitrary: d x rule: cobs_blocks.induct)
  case (1 b)
  then show ?case by (simp add: finish_block_def)
next
  case (2 c src b)
  let ?d = "d @ of_nat (Suc (length b)) # b"
  have start: "start_block (finish_block (d @ [x] @ b) (length d) (of_nat (Suc (length b)))) =
      (?d @ [0], length ?d, 1)"
    by (simp add: start_block_def finish_block_def)
  show ?case
  proof (cases "length b < 254")
    case short: True
    then have ne: "(of_nat (Suc (length b)) :: u8) \<noteq> 0xFF"
      using code_full_iff [of b] by simp
    show ?thesis
    proof (cases "c = 0")
      case True
      then show ?thesis
        using ne short "2.IH"(2) [of ?d 0]
        by (simp add: cobs_encode_loop.simps(2) cobs_blocks.simps(2) start [simplified])
    next
      case False
      then show ?thesis
        using ne short "2.IH"(1) [of d x]
        by (simp add: cobs_encode_loop.simps(2) cobs_blocks.simps(2) algebra_simps)
    qed
  next
    case False
    then have full: "length b = 254" and code: "(of_nat (Suc (length b)) :: u8) = 0xFF"
      using "2.prems" code_full_iff [of b] by simp_all
    show ?thesis
      using False code "2.IH"(3) [of ?d 0] start
      by (simp add: cobs_encode_loop.simps(2) [of c src "d @ x # b"] cobs_blocks.simps(2) [of c src b])
  qed
qed

lemma cobs_encode_blocks: "cobs_encode src = cobs_blocks src []"
  using cobs_encode_loop_blocks [of "[]" src "[]" 0]
  by (simp add: cobs_encode_def start_block_def)

section \<open>Properties\<close>

lemma cobs_blocks_nonzero: "length b \<le> 254 \<Longrightarrow> 0 \<notin> set b \<Longrightarrow> 0 \<notin> set (cobs_blocks src b)"
proof (induction src b rule: cobs_blocks.induct)
  case (1 b)
  then show ?case using code_not_0 [of b] by auto
next
  case (2 c src b)
  then show ?case
    using code_not_0 [of b] by (auto simp: cobs_blocks.simps(2) [of c src b])
qed

text \<open>An open block with \<open>n\<close> bytes fills up again after \<open>254 - n\<close> further bytes.\<close>

lemma cobs_blocks_length:
  "length b \<le> 254 \<Longrightarrow>
   length (cobs_blocks src b) \<le> Suc (length b + length src + (length b + length src) div 254)"
proof (induction src b rule: cobs_blocks.induct)
  case (1 b)
  then show ?case by simp
next
  case (2 c src b)
  consider (store) "length b < 254" "c \<noteq> 0" | (zero) "length b < 254" "c = 0"
    | (full) "length b = 254" using "2.prems" by linarith
  then show ?case
  proof cases
    case store
    with "2.IH"(1) show ?thesis by (simp add: cobs_blocks.simps(2))
  next
    case zero
    with "2.IH"(2) have "length (cobs_blocks src []) \<le> Suc (length src + length src div 254)"
      by simp
    moreover have "length src div 254 \<le> Suc (length b + length src) div 254"
      by (rule div_le_mono) simp
    ultimately show ?thesis using zero by (simp add: cobs_blocks.simps(2))
  next
    case full
    with "2.IH"(3) show ?thesis by (simp add: cobs_blocks.simps(2))
  qed
qed

text \<open>
  The encoded form of any data has no zero byte and is at most one byte plus one byte
  per 254 bytes longer than the data.
\<close>

theorem cobs_encode_shape:
  "0 \<notin> set (cobs_encode src) \<and>
   length (cobs_encode src) \<le> length src + 1 + length src div 254"
  using cobs_blocks_nonzero [of "[]" src] cobs_blocks_length [of "[]" src]
  by (simp add: cobs_encode_blocks)

lemma cobs_decode_copy:
  "length b < 256 \<Longrightarrow>
   cobs_decode_loop (b @ src) dst code (of_nat (length b)) = cobs_decode_loop src (dst @ b) code 0"
proof (induction b arbitrary: dst)
  case Nil
  then show ?case by simp
next
  case (Cons x b)
  moreover have "(of_nat (length (x # b)) :: u8) \<noteq> 0"
    using Cons.prems of_nat_u8_inj [of "length (x # b)" 0] by simp
  ultimately show ?case by simp
qed

lemma cobs_decode_blocks:
  "length b \<le> 254 \<Longrightarrow>
   cobs_decode_loop (cobs_blocks src b) dst code 0 =
     (if code \<noteq> 0xFF then dst @ [0] else dst) @ b @ src"
proof (induction src b arbitrary: dst code rule: cobs_blocks.induct)
  case (1 b)
  then show ?case
    using cobs_decode_copy [of b "[]"] code_not_0 [of b] by (simp add: Let_def)
next
  case (2 c src b)
  have block: "cobs_decode_loop (of_nat (Suc (length b)) # b @ tail) dst code 0 =
      cobs_decode_loop tail ((if code \<noteq> 0xFF then dst @ [0] else dst) @ b) (of_nat (Suc (length b))) 0"
    for tail
    using "2.prems" cobs_decode_copy [of b tail] code_not_0 [of b] by (simp add: Let_def)
  show ?case
    using 2 block code_full_iff [of b]
    by (auto simp: cobs_blocks.simps(2) [of c src b] simp del: cobs_decode_loop.simps)
qed

text \<open>Decoding the encoded form gives the data back.\<close>

theorem cobs_roundtrip: "cobs_decode (cobs_encode src) = src"
  by (simp add: cobs_decode_def cobs_encode_blocks cobs_decode_blocks)

text \<open>
  On any input, valid or not, the decoder writes at most as many bytes as it reads, so
  an output buffer of the input's length is never overrun.
\<close>

theorem cobs_decode_length: "length (cobs_decode src) \<le> length src"
proof -
  have "length (cobs_decode_loop src dst code copy) \<le> length dst + length src"
    for dst code copy
    by (induction src dst code copy rule: cobs_decode_loop.induct) (auto simp: Let_def)
  from this [of "[]"] show ?thesis by (simp add: cobs_decode_def)
qed

end
