(* ===== verification/Ring.thy ===== *)
theory Ring imports Prelude begin

text \<open>
  What the ring buffers of the firmware have in common (\<^verbatim>\<open>cqueue\<close>, \<^verbatim>\<open>data_queue\<close> and the
  \<^verbatim>\<open>list_*\<close> macros of the J1939 stack): the contents of a ring as a list, how writing at the
  end and copying in two pieces change it, and the contracts their users rely on, as
  locales.
\<close>

section \<open>Contents of a ring\<close>

text \<open>\<open>ring_read buf n s k\<close>: the \<open>k\<close> elements from position \<open>s\<close> on, positions modulo \<open>n\<close>.\<close>

definition ring_read :: "'a list \<Rightarrow> nat \<Rightarrow> nat \<Rightarrow> nat \<Rightarrow> 'a list" where
  "ring_read buf n s k = map (\<lambda>i. buf ! ((s + i) mod n)) [0..<k]"

lemma length_ring_read [simp]: "length (ring_read buf n s k) = k"
  by (simp add: ring_read_def)

lemma nth_ring_read [simp]: "i < k \<Longrightarrow> ring_read buf n s k ! i = buf ! ((s + i) mod n)"
  by (simp add: ring_read_def)

lemma ring_read_0 [simp]: "ring_read buf n s 0 = []"
  by (simp add: ring_read_def)

lemma ring_read_mod: "ring_read buf n (s mod n) k = ring_read buf n s k"
  by (simp add: ring_read_def mod_add_left_eq)

lemma ring_read_cong_mod: "s mod n = t mod n \<Longrightarrow> ring_read buf n s k = ring_read buf n t k"
  by (metis ring_read_mod)

lemma ring_read_add: "ring_read buf n s (j + k) = ring_read buf n s j @ ring_read buf n (s + j) k"
  by (rule nth_equalityI) (auto simp: nth_append)

lemma ring_read_Suc: "ring_read buf n s (Suc k) = ring_read buf n s k @ [buf ! ((s + k) mod n)]"
  by (simp add: ring_read_def)

lemma ring_read_Cons: "ring_read buf n s (Suc k) = buf ! (s mod n) # ring_read buf n (Suc s) k"
  using ring_read_add [of buf n s 1 k] by (simp add: ring_read_def)

lemma take_ring_read: "take m (ring_read buf n s k) = ring_read buf n s (min m k)"
  by (rule nth_equalityI) auto

lemma drop_ring_read: "drop m (ring_read buf n s k) = ring_read buf n (s + m) (k - m)"
  by (rule nth_equalityI) (auto simp: add.assoc)

lemma mod_add_wrap:
  fixes s i n :: nat
  assumes "i < n"
  shows "(s + i) mod n = (if s mod n + i < n then s mod n + i else s mod n + i - n)"
proof -
  define r where "r = s mod n"
  have r: "r < n" using assms by (simp add: r_def)
  have "(s + i) mod n = (r + i) mod n"
    by (simp add: r_def mod_add_left_eq)
  also have "\<dots> = (if r + i < n then r + i else r + i - n)"
    using assms r by (simp add: le_mod_geq)
  finally show ?thesis by (simp add: r_def)
qed

text \<open>Two offsets below the size reach the same position only if they are equal.\<close>

lemma mod_add_cancel_less:
  "i < n \<Longrightarrow> j < n \<Longrightarrow> (s + i) mod n = (s + j) mod n \<longleftrightarrow> i = (j::nat)"
  by (auto simp: mod_add_wrap split: if_splits)

section \<open>Writing\<close>

text \<open>One element at the end of the contents.\<close>

lemma ring_read_put:
  assumes "k < n" and "n \<le> length buf"
  shows "ring_read (buf[(s + k) mod n := v]) n s (Suc k) = ring_read buf n s k @ [v]"
proof (rule nth_equalityI)
  fix i
  assume "i < length (ring_read (buf[(s + k) mod n := v]) n s (Suc k))"
  then have i: "i < Suc k" by simp
  have lt: "(s + j) mod n < length buf" for j
  proof -
    have "(s + j) mod n < n" using assms(1) by simp
    then show ?thesis using assms(2) by simp
  qed
  show "ring_read (buf[(s + k) mod n := v]) n s (Suc k) ! i = (ring_read buf n s k @ [v]) ! i"
  proof (cases "i = k")
    case True
    then show ?thesis using lt by (simp add: nth_append)
  next
    case False
    with i assms have "(s + k) mod n \<noteq> (s + i) mod n"
      by (simp add: mod_add_cancel_less)
    with False i show ?thesis by (simp add: nth_append)
  qed
qed simp

text \<open>
  Copying \<open>ys\<close> in two pieces: up to the end of the buffer, the rest to its start. This is
  the pair of \<^verbatim>\<open>memcpy\<close> calls of \<^verbatim>\<open>cqueue_put\<close>.
\<close>

definition ring_blit :: "'a list \<Rightarrow> nat \<Rightarrow> nat \<Rightarrow> 'a list \<Rightarrow> 'a list" where
  "ring_blit buf n p ys =
     (let l = min (length ys) (n - p mod n) in blit (blit buf (p mod n) (take l ys)) 0 (drop l ys))"

lemma length_ring_blit:
  assumes "0 < n" and "length ys \<le> n" and "n \<le> length buf"
  shows "length (ring_blit buf n p ys) = length buf"
proof -
  have "p mod n < n" using assms by simp
  with assms show ?thesis by (simp add: ring_blit_def Let_def min_def)
qed

lemma nth_ring_blit:
  assumes n: "0 < n" "length ys \<le> n" "n \<le> length buf" and i: "i < n"
  shows "ring_blit buf n p ys ! ((p + i) mod n) =
     (if i < length ys then ys ! i else buf ! ((p + i) mod n))"
proof -
  define r where "r = p mod n"
  have r: "r < n" using n by (simp add: r_def)
  define l where "l = min (length ys) (n - r)"
  have l: "l \<le> length ys" "r + l \<le> n" "l = length ys \<or> l = n - r"
    using r by (auto simp: l_def)
  have idx: "(p + i) mod n = (if r + i < n then r + i else r + i - n)"
    using mod_add_wrap [OF i, of p] by (simp add: r_def)
  have one: "length (blit buf r (take l ys)) = length buf"
    using l n by simp
  have eq: "ring_blit buf n p ys = blit (blit buf r (take l ys)) 0 (drop l ys)"
    by (simp add: ring_blit_def Let_def l_def r_def)
  show ?thesis
    unfolding eq idx using n i r l one
    by (auto simp: nth_blit)
qed

lemma ring_read_blit:
  assumes n: "k + length ys \<le> n" "0 < n" "n \<le> length buf"
  shows "ring_read (ring_blit buf n (s + k) ys) n s (k + length ys) = ring_read buf n s k @ ys"
proof (rule nth_equalityI)
  fix i
  assume "i < length (ring_read (ring_blit buf n (s + k) ys) n s (k + length ys))"
  then have i: "i < k + length ys" by simp
  show "ring_read (ring_blit buf n (s + k) ys) n s (k + length ys) ! i =
        (ring_read buf n s k @ ys) ! i"
  proof (cases "i < k")
    case True
    \<comment> \<open>the old contents lie, seen from the write position, at offsets past the new data\<close>
    have "(s + i) mod n = (s + k + (n - k + i)) mod n"
    proof -
      have "s + k + (n - k + i) = s + i + n" using True n by simp
      then show ?thesis by (simp only: mod_add_self2)
    qed
    moreover have "n - k + i < n" "\<not> n - k + i < length ys"
      using True n by simp_all
    ultimately show ?thesis
      using True n nth_ring_blit [of n ys buf "n - k + i" "s + k"]
      by (simp add: nth_append)
  next
    case False
    then obtain j where j: "i = k + j" "j < length ys"
      using i by (metis add_less_cancel_left le_add_diff_inverse not_less)
    then show ?thesis
      using n nth_ring_blit [of n ys buf j "s + k"] by (simp add: nth_append add.assoc)
  qed
qed simp

text \<open>Reading in the same two pieces, the pair of \<^verbatim>\<open>memcpy\<close> calls of \<^verbatim>\<open>cqueue_get\<close>.\<close>

lemma ring_read_pieces:
  assumes "k \<le> n" and "0 < n" and "n \<le> length buf"
  shows "take (min k (n - s mod n)) (drop (s mod n) buf) @ take (k - min k (n - s mod n)) buf =
         ring_read buf n s k"
proof -
  define r where "r = s mod n"
  have r: "r < n" using assms by (simp add: r_def)
  have idx: "(s + i) mod n = (if r + i < n then r + i else r + i - n)" if "i < n" for i
    using mod_add_wrap [OF that, of s] by (simp add: r_def)
  show ?thesis
  proof (cases "k \<le> n - r")
    case True
    have "take k (drop r buf) = ring_read buf n s k"
      by (rule nth_equalityI) (use True r assms idx in auto)
    with True show ?thesis by (simp flip: r_def)
  next
    case False
    have "take (n - r) (drop r buf) @ take (k - (n - r)) buf = ring_read buf n s k"
    proof (rule nth_equalityI)
      show "length (take (n - r) (drop r buf) @ take (k - (n - r)) buf) =
          length (ring_read buf n s k)"
        using False r assms by simp
      fix i
      assume "i < length (take (n - r) (drop r buf) @ take (k - (n - r)) buf)"
      then have "i < k" using False r assms by simp
      then show "(take (n - r) (drop r buf) @ take (k - (n - r)) buf) ! i =
          ring_read buf n s k ! i"
        using False r assms(1,3) idx [of i] by (auto simp: nth_append add.commute)
    qed
    with False show ?thesis by (simp flip: r_def)
  qed
qed

section \<open>Indices masked to a power of two\<close>

lemma unat_pow2: "k < 32 \<Longrightarrow> unat (2 ^ k :: u32) = 2 ^ k"
proof -
  assume "k < 32"
  then have "(2::nat) ^ k < 2 ^ 32" by (intro power_strict_increasing) simp_all
  moreover have "(2 ^ k :: u32) = of_nat (2 ^ k)" by simp
  ultimately show ?thesis by (simp only: unat_of_nat) simp
qed

lemma mask_mod: "unat (x AND (2 ^ k - 1) :: u32) = unat x mod 2 ^ k"
proof -
  have eq: "x AND (2 ^ k - 1) = take_bit k x"
    by (simp only: take_bit_eq_mask mask_eq_exp_minus_1)
  show ?thesis unfolding eq unsigned_take_bit_eq by (rule take_bit_eq_mod)
qed

lemma add_mod_pow2:
  assumes "k \<le> 32"
  shows "unat (x + y :: u32) mod 2 ^ k = (unat x + unat y) mod 2 ^ k"
proof -
  have "(2::nat) ^ k dvd 2 ^ 32" using assms by (rule le_imp_power_dvd)
  then show ?thesis by (simp add: unat_word_ariths mod_mod_cancel)
qed

section \<open>The contract of a byte stream buffer\<close>

text \<open>
  A run of a producer and a consumer on one buffer: \<open>Inl xs\<close> offers \<open>xs\<close>, \<open>Inr n\<close> asks for
  \<open>n\<close> elements. The result is the final state, everything accepted and everything taken out.
\<close>

fun stream_run :: "('q \<Rightarrow> 'a list \<Rightarrow> ('q \<times> nat) option) \<Rightarrow> ('q \<Rightarrow> nat \<Rightarrow> ('q \<times> 'a list) option) \<Rightarrow>
    'q \<Rightarrow> ('a list + nat) list \<Rightarrow> ('q \<times> 'a list \<times> 'a list) option" where
  "stream_run put get q [] = Some (q, [], [])"
| "stream_run put get q (Inl xs # ops) =
     do { (q', n) \<leftarrow> put q xs; (q'', ins, outs) \<leftarrow> stream_run put get q' ops;
          Some (q'', take n xs @ ins, outs) }"
| "stream_run put get q (Inr n # ops) =
     do { (q', ys) \<leftarrow> get q n; (q'', ins, outs) \<leftarrow> stream_run put get q' ops;
          Some (q'', ins, ys @ outs) }"

text \<open>All requests of a run are shorter than \<open>lim\<close>.\<close>

definition requests_below :: "nat \<Rightarrow> ('a list + nat) list \<Rightarrow> bool" where
  "requests_below lim ops \<longleftrightarrow> list_all (case_sum (\<lambda>xs. length xs < lim) (\<lambda>n. n < lim)) ops"

text \<open>
  A buffer of limited room: \<open>put\<close> accepts as much of the data as fits and says how much,
  \<open>get\<close> takes out as much as there is, up to the requested length. Requests are shorter
  than \<open>lim\<close>, the range of the length argument.
\<close>

locale stream_buffer =
  fixes inv :: "'q \<Rightarrow> bool" and contents :: "'q \<Rightarrow> 'a list" and cap :: "'q \<Rightarrow> nat"
    and lim :: nat
    and put :: "'q \<Rightarrow> 'a list \<Rightarrow> ('q \<times> nat) option"
    and get :: "'q \<Rightarrow> nat \<Rightarrow> ('q \<times> 'a list) option"
  assumes put_ok: "inv q \<Longrightarrow> length xs < lim \<Longrightarrow> put q xs = Some (q', n) \<Longrightarrow>
        inv q' \<and> cap q' = cap q \<and> n = min (length xs) (cap q - length (contents q)) \<and>
        contents q' = contents q @ take n xs"
    and put_defined: "inv q \<Longrightarrow> length xs < lim \<Longrightarrow> put q xs \<noteq> None"
    and get_ok: "inv q \<Longrightarrow> n < lim \<Longrightarrow> get q n = Some (q', ys) \<Longrightarrow>
        inv q' \<and> cap q' = cap q \<and> ys = take n (contents q) \<and> contents q' = drop n (contents q)"
    and get_defined: "inv q \<Longrightarrow> n < lim \<Longrightarrow> get q n \<noteq> None"
    and contents_cap: "inv q \<Longrightarrow> length (contents q) \<le> cap q"
begin

text \<open>Nothing is lost, invented or reordered.\<close>

lemma stream_run_ok:
  "inv q \<Longrightarrow> requests_below lim ops \<Longrightarrow>
   \<exists>q' ins outs. stream_run put get q ops = Some (q', ins, outs) \<and> inv q' \<and> cap q' = cap q \<and>
     contents q @ ins = outs @ contents q'"
proof (induction ops arbitrary: q)
  case Nil
  then show ?case by simp
next
  case (Cons op ops)
  have rest: "requests_below lim ops"
    using Cons.prems(2) by (simp add: requests_below_def)
  show ?case
  proof (cases op)
    case (Inl xs)
    then have lim: "length xs < lim" using Cons.prems(2) by (simp add: requests_below_def)
    then obtain q1 n where p: "put q xs = Some (q1, n)"
      using put_defined Cons.prems(1) by fastforce
    note ok = put_ok [OF Cons.prems(1) lim p]
    from Cons.IH [of q1] ok rest obtain q' ins outs
      where "stream_run put get q1 ops = Some (q', ins, outs)" "inv q'" "cap q' = cap q1"
        "contents q1 @ ins = outs @ contents q'" by auto
    with p ok Inl show ?thesis by simp
  next
    case (Inr n)
    then have lim: "n < lim" using Cons.prems(2) by (simp add: requests_below_def)
    then obtain q1 ys where g: "get q n = Some (q1, ys)"
      using get_defined Cons.prems(1) by fastforce
    note ok = get_ok [OF Cons.prems(1) lim g]
    from Cons.IH [of q1] ok rest obtain q' ins outs
      where r: "stream_run put get q1 ops = Some (q', ins, outs)" "inv q'" "cap q' = cap q1"
        "contents q1 @ ins = outs @ contents q'" by auto
    have "contents q @ ins = ys @ contents q1 @ ins"
      using ok by (metis append_assoc append_take_drop_id)
    with r g ok Inr show ?thesis by simp
  qed
qed

end

section \<open>The contract of a queue of elements\<close>

text \<open>
  A run of a producer and a consumer on one queue: \<open>Some x\<close> offers \<open>x\<close>, which the queue may
  refuse, \<open>None\<close> asks for the next element. The result is the final state, everything
  accepted and everything delivered.
\<close>

fun fifo_run :: "('q \<Rightarrow> 'a \<Rightarrow> ('q \<times> bool) option) \<Rightarrow> ('q \<Rightarrow> ('q \<times> 'a option) option) \<Rightarrow>
    'q \<Rightarrow> 'a option list \<Rightarrow> ('q \<times> 'a list \<times> 'a list) option" where
  "fifo_run put get q [] = Some (q, [], [])"
| "fifo_run put get q (Some x # ops) =
     do { (q', ok) \<leftarrow> put q x; (q'', ins, outs) \<leftarrow> fifo_run put get q' ops;
          Some (q'', (if ok then x # ins else ins), outs) }"
| "fifo_run put get q (None # ops) =
     do { (q', r) \<leftarrow> get q; (q'', ins, outs) \<leftarrow> fifo_run put get q' ops;
          Some (q'', ins, (case r of None \<Rightarrow> outs | Some x \<Rightarrow> x # outs)) }"

text \<open>
  \<open>holds q xs\<close>: the queue is well formed and holds the elements \<open>xs\<close>. An offer is accepted
  exactly when there is room, and then goes to the end; a refused offer and a request of an
  empty queue change nothing.
\<close>

locale element_queue =
  fixes holds :: "'q \<Rightarrow> 'a list \<Rightarrow> bool"
    and is_element :: "'q \<Rightarrow> 'a \<Rightarrow> bool"
    and room :: "'q \<Rightarrow> 'a list \<Rightarrow> 'a \<Rightarrow> bool"
    and put :: "'q \<Rightarrow> 'a \<Rightarrow> ('q \<times> bool) option"
    and get :: "'q \<Rightarrow> ('q \<times> 'a option) option"
  assumes put_law: "holds q xs \<Longrightarrow> is_element q x \<Longrightarrow>
      \<exists>q'. put q x = Some (q', room q xs x) \<and> holds q' (if room q xs x then xs @ [x] else xs) \<and>
        is_element q' = is_element q"
    and get_law: "holds q xs \<Longrightarrow>
      \<exists>q'. get q = Some (q', case xs of [] \<Rightarrow> None | x # _ \<Rightarrow> Some x) \<and> holds q' (tl xs) \<and>
        is_element q' = is_element q"
begin

lemma fifo_run_ok:
  "holds q xs \<Longrightarrow> (\<And>x. Some x \<in> set ops \<Longrightarrow> is_element q x) \<Longrightarrow>
   \<exists>q' ys ins outs. fifo_run put get q ops = Some (q', ins, outs) \<and> holds q' ys \<and>
     xs @ ins = outs @ ys"
proof (induction ops arbitrary: q xs)
  case Nil
  then show ?case by auto
next
  case (Cons op ops)
  show ?case
  proof (cases op)
    case None
    obtain q1 where q1: "get q = Some (q1, case xs of [] \<Rightarrow> None | x # _ \<Rightarrow> Some x)"
        "holds q1 (tl xs)" "is_element q1 = is_element q"
      using get_law [OF Cons.prems(1)] by blast
    obtain q' ys ins outs where "fifo_run put get q1 ops = Some (q', ins, outs)" "holds q' ys"
        "tl xs @ ins = outs @ ys"
      using Cons.IH [OF q1(2)] Cons.prems(2) q1(3) by auto
    with q1(1) None show ?thesis by (cases xs) auto
  next
    case (Some x)
    then have "is_element q x" using Cons.prems(2) by simp
    then obtain q1 where q1: "put q x = Some (q1, room q xs x)"
        "holds q1 (if room q xs x then xs @ [x] else xs)" "is_element q1 = is_element q"
      using put_law [OF Cons.prems(1)] by blast
    obtain q' ys ins outs where "fifo_run put get q1 ops = Some (q', ins, outs)" "holds q' ys"
        "(if room q xs x then xs @ [x] else xs) @ ins = outs @ ys"
      using Cons.IH [OF q1(2)] Cons.prems(2) q1(3) by auto
    with q1(1) Some show ?thesis by (cases "room q xs x") auto
  qed
qed

text \<open>A queue that is emptied after a run has delivered exactly what it accepted.\<close>

lemma fifo_run_emptied:
  assumes "holds q []" and "\<And>x. Some x \<in> set ops \<Longrightarrow> is_element q x"
    and "fifo_run put get q ops = Some (q', ins, outs)" and "\<And>ys. holds q' ys \<Longrightarrow> ys = []"
  shows "outs = ins"
  using fifo_run_ok [OF assms(1,2)] assms(3,4) by fastforce

end

end
