(* ===== verification/CQueue.thy ===== *)
theory CQueue imports Ring begin

text \<open>
  \<^verbatim>\<open>src/common/cqueue.c\<close>: the byte queue under the UART, logging and task message code. The
  indices \<^verbatim>\<open>in\<close> and \<^verbatim>\<open>out\<close> count bytes since the start modulo \<open>2 ^ 32\<close> and are masked on
  access, so the size has to be a power of two. The lemmas show that under the invariant
  \<^verbatim>\<open>cqueue_init\<close> sets up, no access leaves the buffer and the operations are those of a
  bounded first-in first-out stream, also when the indices wrap around.
\<close>

unbundle bit_operations_syntax

section \<open>Definitions\<close>

record cqueue_t =
  cq_buffer :: "u8 list"
  cq_size :: u32
  cq_in :: u32
  cq_out :: u32

definition cq_min :: "u32 \<Rightarrow> u32 \<Rightarrow> u32" where
  "cq_min a b = (if a < b then a else b)"

text \<open>\<^verbatim>\<open>while (power > val) power >>= 1\<close>; which also ends for \<open>val = 0\<close>.\<close>

function align_loop :: "u32 \<Rightarrow> u32 \<Rightarrow> u32" where
  "align_loop pow val = (if val < pow then align_loop (drop_bit 1 pow) val else pow)"
  by pat_completeness auto
termination
proof (relation "measure (\<lambda>(pow, _). unat pow)")
  fix pow val :: u32
  assume "val < pow"
  then have "0 < unat pow" by (metis not_gr_zero unat_eq_zero word_not_simps(1))
  then show "((drop_bit 1 pow, val), pow, val) \<in> measure (\<lambda>(pow, _). unat pow)"
    by (simp only: in_measure prod.case unat_drop_bit_eq) (simp add: drop_bit_eq_div)
qed simp

definition align_to_power :: "u32 \<Rightarrow> u32" where
  "align_to_power val = align_loop 0x80000000 val"

definition cqueue_put :: "cqueue_t \<Rightarrow> u8 list \<Rightarrow> u32 \<Rightarrow> (cqueue_t \<times> u32) option" where
  "cqueue_put q src len =
     (let len = cq_min len (cq_size q - cq_in q + cq_out q);
          at = cq_in q AND (cq_size q - 1);
          l = cq_min len (cq_size q - at)
      in do {
        buf \<leftarrow> memcpy (cq_buffer q) (unat at) src 0 (unat l);
        buf \<leftarrow> memcpy buf 0 src (unat l) (unat (len - l));
        Some (q\<lparr>cq_buffer := buf, cq_in := cq_in q + len\<rparr>, len)
      })"

definition cqueue_peek :: "cqueue_t \<Rightarrow> u8 list \<Rightarrow> u32 \<Rightarrow> (u8 list \<times> u32) option" where
  "cqueue_peek q dst len =
     (let len = cq_min len (cq_in q - cq_out q);
          at = cq_out q AND (cq_size q - 1);
          l = cq_min len (cq_size q - at)
      in do {
        dst \<leftarrow> memcpy dst 0 (cq_buffer q) (unat at) (unat l);
        dst \<leftarrow> memcpy dst (unat l) (cq_buffer q) 0 (unat (len - l));
        Some (dst, len)
      })"

definition cqueue_get :: "cqueue_t \<Rightarrow> u8 list \<Rightarrow> u32 \<Rightarrow> (cqueue_t \<times> u8 list \<times> u32) option" where
  "cqueue_get q dst len = do {
     (dst, len) \<leftarrow> cqueue_peek q dst len;
     Some (q\<lparr>cq_out := cq_out q + len\<rparr>, dst, len)
   }"

definition cqueue_read :: "cqueue_t \<Rightarrow> u8 list \<Rightarrow> u32 \<Rightarrow> (u8 list \<times> u32) option" where
  "cqueue_read q dst len = cqueue_peek q dst len"

definition cqueue_discard :: "cqueue_t \<Rightarrow> u32 \<Rightarrow> cqueue_t \<times> u32" where
  "cqueue_discard q len =
     (let len = cq_min len (cq_in q - cq_out q)
      in (q\<lparr>cq_out := cq_out q + len\<rparr>, len))"

definition cqueue_surplus :: "cqueue_t \<Rightarrow> u32" where
  "cqueue_surplus q = cq_size q - cq_in q + cq_out q"

definition cqueue_datalen :: "cqueue_t \<Rightarrow> u32" where
  "cqueue_datalen q = cq_in q - cq_out q"

text \<open>A size of 0 leaves the queue as it was and returns 0.\<close>

definition cqueue_init :: "cqueue_t \<Rightarrow> u8 list \<Rightarrow> u32 \<Rightarrow> cqueue_t \<times> u32" where
  "cqueue_init q buf sz =
     (if sz = 0 then (q, 0)
      else (q\<lparr>cq_buffer := buf, cq_size := align_to_power sz, cq_in := 0, cq_out := 0\<rparr>,
            align_to_power sz))"

section \<open>Invariant and contents\<close>

definition cq_inv :: "cqueue_t \<Rightarrow> bool" where
  "cq_inv q \<longleftrightarrow>
     (\<exists>k<32. cq_size q = 2 ^ k) \<and> unat (cq_size q) \<le> length (cq_buffer q) \<and>
     unat (cq_in q - cq_out q) \<le> unat (cq_size q)"

definition cq_contents :: "cqueue_t \<Rightarrow> u8 list" where
  "cq_contents q =
     ring_read (cq_buffer q) (unat (cq_size q)) (unat (cq_out q)) (unat (cq_in q - cq_out q))"

lemma cq_min_unat: "unat (cq_min a b) = min (unat a) (unat b)"
  by (simp add: cq_min_def min_def word_less_nat_alt)

text \<open>What the invariant says of the numbers the operations compute.\<close>

lemma cq_inv_facts:
  assumes "cq_inv q"
  defines "n \<equiv> unat (cq_size q)" and "k \<equiv> unat (cq_in q - cq_out q)"
  shows "0 < n" and "n \<le> length (cq_buffer q)" and "k \<le> n"
    and "unat (cqueue_surplus q) = n - k"
    and "unat (cq_in q AND (cq_size q - 1)) = (unat (cq_out q) + k) mod n"
    and "unat (cq_out q AND (cq_size q - 1)) = unat (cq_out q) mod n"
    and "unat (cq_size q - (x AND (cq_size q - 1))) = n - unat (x AND (cq_size q - 1))"
proof -
  obtain e where e: "e < 32" "cq_size q = 2 ^ e"
    using assms(1) by (auto simp: cq_inv_def)
  then have n: "n = 2 ^ e" by (simp add: n_def unat_pow2)
  show "0 < n" by (simp add: n)
  show "n \<le> length (cq_buffer q)" and kn: "k \<le> n"
    using assms(1) by (simp_all add: cq_inv_def n_def k_def)
  have "cqueue_surplus q = cq_size q - (cq_in q - cq_out q)"
    by (simp add: cqueue_surplus_def)
  then show "unat (cqueue_surplus q) = n - k"
    using kn by (simp add: unat_minus_le word_le_nat_alt n_def k_def)
  have "unat (cq_in q AND (cq_size q - 1)) = unat (cq_out q + (cq_in q - cq_out q)) mod n"
    unfolding e(2) mask_mod n by simp
  then show "unat (cq_in q AND (cq_size q - 1)) = (unat (cq_out q) + k) mod n"
    unfolding n k_def using add_mod_pow2 [of e "cq_out q" "cq_in q - cq_out q"] e(1) by simp
  show "unat (cq_out q AND (cq_size q - 1)) = unat (cq_out q) mod n"
    unfolding e(2) mask_mod n by simp
  have "unat (x AND (cq_size q - 1)) < n"
    unfolding e(2) mask_mod n by simp
  then show "unat (cq_size q - (x AND (cq_size q - 1))) = n - unat (x AND (cq_size q - 1))"
    by (simp add: unat_minus_le word_le_nat_alt n_def)
qed

lemma cq_contents_length: "length (cq_contents q) = unat (cq_in q - cq_out q)"
  by (simp add: cq_contents_def)

lemma cqueue_put_blit:
  assumes "cq_inv q" and len: "unat len \<le> length src"
  defines "m \<equiv> cq_min len (cqueue_surplus q)"
  shows "cqueue_put q src len =
     Some (q\<lparr>cq_buffer := ring_blit (cq_buffer q) (unat (cq_size q))
               (unat (cq_out q) + unat (cq_in q - cq_out q)) (take (unat m) src),
             cq_in := cq_in q + m\<rparr>, m)"
proof -
  note f = cq_inv_facts [OF assms(1)]
  let ?n = "unat (cq_size q)" and ?at = "cq_in q AND (cq_size q - 1)"
  let ?l = "cq_min m (cq_size q - ?at)"
  have r: "unat ?at < ?n" using f(1,5) by simp
  have m: "unat m \<le> length src" "unat m \<le> ?n"
    using len f(4) by (simp_all add: m_def cq_min_unat min.coboundedI1 min.coboundedI2)
  have l: "unat ?l = min (unat m) (?n - unat ?at)"
    by (simp add: cq_min_unat f(7))
  have rest: "unat (m - ?l) = unat m - unat ?l"
    by (rule unat_minus_le) (simp add: word_le_nat_alt l)
  have pieces: "take (unat ?l) (take (unat m) src) = take (unat ?l) src"
    "take (unat m - unat ?l) (drop (unat ?l) src) = drop (unat ?l) (take (unat m) src)"
    by (simp_all add: l min_def drop_take)
  have eq: "blit (blit (cq_buffer q) (unat ?at) (take (unat ?l) src)) 0
        (take (unat m - unat ?l) (drop (unat ?l) src)) =
      ring_blit (cq_buffer q) ?n (unat (cq_out q) + unat (cq_in q - cq_out q)) (take (unat m) src)"
    unfolding ring_blit_def f(5) [symmetric] pieces
    using m(1) by (simp add: Let_def l pieces min_def)
  show ?thesis
    using eq m r f(2) l
    by (simp add: cqueue_put_def Let_def flip: cqueue_surplus_def m_def) (auto simp: rest)
qed

lemma cq_in_advance:
  assumes "cq_inv q" and "unat m \<le> unat (cqueue_surplus q)"
  shows "unat (cq_in q + m - cq_out q) = unat (cq_in q - cq_out q) + unat m"
proof -
  note f = cq_inv_facts [OF assms(1)]
  obtain e where e: "e < 32" "unat (cq_size q) = 2 ^ e"
    using assms(1) by (auto simp: cq_inv_def unat_pow2)
  have "unat (cq_in q - cq_out q) + unat m \<le> 2 ^ e"
    using assms(2) f(3,4) e(2) by simp
  also have "(2::nat) ^ e < 2 ^ 32" using e(1) by (intro power_strict_increasing) simp_all
  finally have "unat ((cq_in q - cq_out q) + m) = unat (cq_in q - cq_out q) + unat m"
    by (intro unat_plus_if_fits) simp
  then show ?thesis by (simp add: algebra_simps)
qed

lemma cq_out_advance:
  assumes "m \<le> cq_in q - cq_out q"
  shows "unat (cq_in q - (cq_out q + m)) = unat (cq_in q - cq_out q) - unat m"
  using unat_minus_le [OF assms] by (simp add: algebra_simps)

lemma cqueue_put_ok:
  assumes "cq_inv q" and "unat len \<le> length src"
  shows "\<exists>q' m. cqueue_put q src len = Some (q', m) \<and> cq_inv q' \<and> cq_size q' = cq_size q \<and>
      unat m = min (unat len) (unat (cq_size q) - length (cq_contents q)) \<and>
      cq_contents q' = cq_contents q @ take (unat m) src"
proof -
  note f = cq_inv_facts [OF assms(1)]
  let ?n = "unat (cq_size q)" and ?k = "unat (cq_in q - cq_out q)"
  let ?m = "cq_min len (cqueue_surplus q)"
  let ?buf = "ring_blit (cq_buffer q) ?n (unat (cq_out q) + ?k) (take (unat ?m) src)"
  let ?q = "q\<lparr>cq_buffer := ?buf, cq_in := cq_in q + ?m\<rparr>"
  have m: "unat ?m = min (unat len) (?n - ?k)" "unat ?m \<le> length src"
    using assms(2) by (simp_all add: cq_min_unat f(4))
  have adv: "unat (cq_in q + ?m - cq_out q) = ?k + unat ?m"
    by (rule cq_in_advance [OF assms(1)]) (simp add: cq_min_unat)
  have len: "length ?buf = length (cq_buffer q)"
    using f(1-3) m by (intro length_ring_blit) auto
  have "cq_inv ?q"
  proof -
    have "?k + unat ?m \<le> ?n" using m(1) f(3) by simp
    then show ?thesis
      using assms(1) unfolding cq_inv_def by (simp add: adv len)
  qed
  moreover have "cq_contents ?q = cq_contents q @ take (unat ?m) src"
    using ring_read_blit [of ?k "take (unat ?m) src" ?n "cq_buffer q" "unat (cq_out q)"] m f(1-3)
    by (simp add: cq_contents_def adv min_absorb2)
  ultimately show ?thesis
    using cqueue_put_blit [OF assms] m by (simp add: cq_contents_length)
qed

lemma cqueue_peek_correct:
  assumes "cq_inv q" and "unat len \<le> length dst"
  defines "m \<equiv> cq_min len (cq_in q - cq_out q)"
  shows "cqueue_peek q dst len = Some (blit dst 0 (take (unat m) (cq_contents q)), m)"
proof -
  note f = cq_inv_facts [OF assms(1)]
  let ?n = "unat (cq_size q)" and ?at = "cq_out q AND (cq_size q - 1)"
  let ?l = "cq_min m (cq_size q - ?at)"
  have r: "unat ?at < ?n" using f(1,6) by simp
  have m: "unat m \<le> length dst" "unat m \<le> ?n" "unat m \<le> unat (cq_in q - cq_out q)"
    using assms(2) f(3) by (simp_all add: m_def cq_min_unat min.coboundedI1 min.coboundedI2)
  have l: "unat ?l = min (unat m) (?n - unat ?at)"
    by (simp add: cq_min_unat f(7))
  have rest: "unat (m - ?l) = unat m - unat ?l"
    by (rule unat_minus_le) (simp add: word_le_nat_alt l)
  have "take (unat ?l) (drop (unat ?at) (cq_buffer q)) @ take (unat m - unat ?l) (cq_buffer q) =
      ring_read (cq_buffer q) ?n (unat (cq_out q)) (unat m)"
    unfolding l f(6) using m(2) f(1,2) by (rule ring_read_pieces)
  also have "\<dots> = take (unat m) (cq_contents q)"
    using m(3) by (simp add: cq_contents_def take_ring_read min_absorb1)
  finally have pieces: "take (unat ?l) (drop (unat ?at) (cq_buffer q)) @
      take (unat m - unat ?l) (cq_buffer q) = take (unat m) (cq_contents q)" .
  have ll: "unat ?l \<le> unat m" "unat ?at + unat ?l \<le> ?n"
    using l r by simp_all
  have "length (take (unat ?l) (drop (unat ?at) (cq_buffer q))) = unat ?l"
    using ll f(2) by simp
  with blit_adjacent [of 0 "take (unat ?l) (drop (unat ?at) (cq_buffer q))"
      "take (unat m - unat ?l) (cq_buffer q)" dst]
  have "blit (blit dst 0 (take (unat ?l) (drop (unat ?at) (cq_buffer q)))) (unat ?l)
      (take (unat m - unat ?l) (cq_buffer q)) = blit dst 0 (take (unat m) (cq_contents q))"
    using m ll f(2) by (simp add: pieces)
  then show ?thesis
    using m r f(2) ll by (simp add: cqueue_peek_def Let_def rest flip: m_def)
qed

lemma cqueue_get_ok:
  assumes "cq_inv q" and "unat len \<le> length dst"
  shows "\<exists>q' m. unat m = min (unat len) (length (cq_contents q)) \<and>
      cqueue_get q dst len = Some (q', blit dst 0 (take (unat m) (cq_contents q)), m) \<and>
      cqueue_read q dst len = Some (blit dst 0 (take (unat m) (cq_contents q)), m) \<and>
      cq_inv q' \<and> cq_size q' = cq_size q \<and> cq_contents q' = drop (unat m) (cq_contents q)"
proof -
  note f = cq_inv_facts [OF assms(1)]
  let ?m = "cq_min len (cq_in q - cq_out q)"
  let ?q = "q\<lparr>cq_out := cq_out q + ?m\<rparr>"
  obtain e where e: "e < 32" "cq_size q = 2 ^ e"
    using assms(1) by (auto simp: cq_inv_def)
  have m: "unat ?m = min (unat len) (length (cq_contents q))"
    by (simp add: cq_min_unat cq_contents_length)
  have adv: "unat (cq_in q - (cq_out q + ?m)) = unat (cq_in q - cq_out q) - unat ?m"
    by (rule cq_out_advance) (simp add: word_le_nat_alt cq_min_unat)
  have "cq_inv ?q"
    using assms(1) adv by (auto simp: cq_inv_def)
  moreover have "cq_contents ?q = drop (unat ?m) (cq_contents q)"
    using add_mod_pow2 [of e "cq_out q" ?m] e
    by (auto simp: cq_contents_def adv drop_ring_read unat_pow2 intro!: ring_read_cong_mod)
  ultimately show ?thesis
    using cqueue_peek_correct [OF assms] m
    by (intro exI [of _ ?q] exI [of _ ?m]) (simp add: cqueue_get_def cqueue_read_def)
qed

text \<open>Discarding removes the oldest bytes; the two size queries agree with the contents.\<close>

lemma cqueue_discard_correct:
  assumes "cq_inv q" and "cqueue_discard q len = (q', m)"
  shows "cq_inv q'" and "unat m = min (unat len) (length (cq_contents q))"
    and "cq_contents q' = drop (unat m) (cq_contents q)"
proof -
  have "unat len \<le> length (replicate (unat len) (0 :: u8))" by simp
  from cqueue_get_ok [OF assms(1) this] obtain q1 m1 where g:
    "unat m1 = min (unat len) (length (cq_contents q))" "cq_inv q1"
    "cqueue_get q (replicate (unat len) 0) len =
       Some (q1, blit (replicate (unat len) 0) 0 (take (unat m1) (cq_contents q)), m1)"
    "cq_contents q1 = drop (unat m1) (cq_contents q)" by blast
  have "q1 = q' \<and> m1 = m"
    using g(3) assms(2)
    by (auto simp: cqueue_get_def cqueue_peek_def cqueue_discard_def Let_def
        split: Option.bind_splits)
  with g show "cq_inv q'" and "unat m = min (unat len) (length (cq_contents q))"
    and "cq_contents q' = drop (unat m) (cq_contents q)" by auto
qed

lemma cqueue_sizes:
  "cq_inv q \<Longrightarrow> unat (cqueue_datalen q) = length (cq_contents q) \<and>
     unat (cqueue_surplus q) = unat (cq_size q) - length (cq_contents q)"
  by (simp add: cqueue_datalen_def cq_contents_length cq_inv_facts(4))

section \<open>Initialisation\<close>

declare align_loop.simps [simp del]

lemma align_loop_pow2:
  "k < 32 \<Longrightarrow> 0 < unat val \<Longrightarrow> unat val < 2 ^ Suc k \<Longrightarrow>
   \<exists>j\<le>k. align_loop (2 ^ k) val = 2 ^ j \<and> 2 ^ j \<le> unat val \<and> unat val < 2 ^ Suc j"
proof (induction k)
  case 0
  then show ?case by (subst align_loop.simps) (simp add: word_less_nat_alt)
next
  case (Suc k)
  show ?case
  proof (cases "unat val < 2 ^ Suc k")
    case True
    have "drop_bit 1 (2 ^ Suc k :: u32) = 2 ^ k"
      using Suc.prems(1) by (auto simp: bit_simps intro!: bit_word_eqI)
    moreover have "val < 2 ^ Suc k"
      using True Suc.prems(1) unat_pow2 [of "Suc k"] by (simp add: word_less_nat_alt)
    ultimately have "align_loop (2 ^ Suc k) val = align_loop (2 ^ k) val"
      by (subst align_loop.simps) simp
    with Suc.IH Suc.prems True show ?thesis
      by (metis Suc_lessD le_SucI)
  next
    case False
    then have "\<not> val < 2 ^ Suc k"
      using Suc.prems(1) unat_pow2 [of "Suc k"] by (simp add: word_less_nat_alt)
    then have "align_loop (2 ^ Suc k) val = 2 ^ Suc k"
      by (subst align_loop.simps) simp
    with False Suc.prems show ?thesis by (intro exI [of _ "Suc k"]) simp
  qed
qed

lemma cqueue_init_ok:
  assumes "sz \<noteq> 0" and "unat sz \<le> length buf"
  shows "\<exists>q' cap. cqueue_init q buf sz = (q', cap) \<and> cq_inv q' \<and> cq_contents q' = [] \<and>
     cq_size q' = cap \<and> unat cap \<le> unat sz \<and> unat sz < 2 * unat cap"
proof -
  have pos: "0 < unat sz" using assms(1) by (simp add: unat_gt_0)
  have "unat sz < 2 ^ Suc 31" using unat_u32_lt [of sz] by simp
  from align_loop_pow2 [OF _ pos this] obtain j where j: "j \<le> 31"
    "align_loop (2 ^ 31) sz = 2 ^ j" "2 ^ j \<le> unat sz" "unat sz < 2 ^ Suc j" by auto
  have "align_to_power sz = 2 ^ j" using j(2) by (simp add: align_to_power_def)
  with j assms show ?thesis
    by (auto simp: cqueue_init_def cq_inv_def cq_contents_def unat_pow2
        intro: exI [of _ j] le_imp_less_Suc)
qed

section \<open>The queue as a byte stream\<close>

text \<open>The calls as their users make them: with the length of the array at hand.\<close>

definition cq_offer :: "cqueue_t \<Rightarrow> u8 list \<Rightarrow> (cqueue_t \<times> nat) option" where
  "cq_offer q xs = map_option (\<lambda>(q', m). (q', unat m)) (cqueue_put q xs (of_nat (length xs)))"

definition cq_take :: "cqueue_t \<Rightarrow> nat \<Rightarrow> (cqueue_t \<times> u8 list) option" where
  "cq_take q n =
     map_option (\<lambda>(q', dst, m). (q', take (unat m) dst)) (cqueue_get q (replicate n 0) (of_nat n))"

lemma unat_of_nat_u32: "n < 2 ^ 32 \<Longrightarrow> unat (of_nat n :: u32) = n"
  by (simp add: unat_of_nat)

interpretation cq: stream_buffer cq_inv cq_contents "\<lambda>q. unat (cq_size q)" "2 ^ 32" cq_offer cq_take
proof unfold_locales
  fix q xs q' n
  assume q: "cq_inv q" and xs: "length (xs :: u8 list) < 2 ^ 32"
  from xs have len: "unat (of_nat (length xs) :: u32) = length xs" by (rule unat_of_nat_u32)
  note p = cqueue_put_ok [OF q, of "of_nat (length xs)" xs, unfolded len, OF order_refl]
  then show "cq_offer q xs \<noteq> None" by (auto simp: cq_offer_def)
  assume "cq_offer q xs = Some (q', n)"
  with p show "cq_inv q' \<and> unat (cq_size q') = unat (cq_size q) \<and>
      n = min (length xs) (unat (cq_size q) - length (cq_contents q)) \<and>
      cq_contents q' = cq_contents q @ take n xs"
    by (auto simp: cq_offer_def)
next
  fix q n q' ys
  assume q: "cq_inv q" and n: "(n :: nat) < 2 ^ 32"
  from n have len: "unat (of_nat n :: u32) = n" by (rule unat_of_nat_u32)
  note g = cqueue_get_ok [OF q, of "of_nat n" "replicate n 0", unfolded len length_replicate,
      OF order_refl]
  then show "cq_take q n \<noteq> None" by (auto simp: cq_take_def)
  assume "cq_take q n = Some (q', ys)"
  with g show "cq_inv q' \<and> unat (cq_size q') = unat (cq_size q) \<and>
      ys = take n (cq_contents q) \<and> cq_contents q' = drop n (cq_contents q)"
    by (auto simp: cq_take_def blit_def min_def split: if_splits)
next
  fix q
  assume "cq_inv q"
  then show "length (cq_contents q) \<le> unat (cq_size q)"
    by (simp add: cq_contents_length cq_inv_facts(3))
qed

section \<open>Properties\<close>

text \<open>
  Under the invariant, for a source of at least \<open>len\<close> bytes, \<open>cqueue_put\<close> stays inside
  both arrays, keeps the invariant, accepts as much as there is room for and appends
  exactly that to the contents.
\<close>

theorem cqueue_put_correct:
  assumes "cq_inv q" and "unat len \<le> length src"
  shows "\<exists>q' m. cqueue_put q src len = Some (q', m) \<and> cq_inv q' \<and> cq_size q' = cq_size q \<and>
      unat m = min (unat len) (unat (cq_size q) - length (cq_contents q)) \<and>
      cq_contents q' = cq_contents q @ take (unat m) src"
  using assms by (rule cqueue_put_ok)

text \<open>
  Under the invariant, for a destination of at least \<open>len\<close> bytes, \<open>cqueue_get\<close> copies
  the oldest bytes to the destination and removes exactly them, and \<open>cqueue_read\<close> copies
  the same bytes and leaves the queue as it is.
\<close>

theorem cqueue_get_correct:
  assumes "cq_inv q" and "unat len \<le> length dst"
  shows "\<exists>q' m. unat m = min (unat len) (length (cq_contents q)) \<and>
      cqueue_get q dst len = Some (q', blit dst 0 (take (unat m) (cq_contents q)), m) \<and>
      cqueue_read q dst len = Some (blit dst 0 (take (unat m) (cq_contents q)), m) \<and>
      cq_inv q' \<and> cq_size q' = cq_size q \<and> cq_contents q' = drop (unat m) (cq_contents q)"
  using assms by (rule cqueue_get_ok)

text \<open>
  \<open>cqueue_init\<close> returns the largest power of two not above the size of the buffer as
  the capacity, and whatever the order and sizes of the calls of a producer and a consumer
  then, the queue delivers exactly the bytes it accepted, in their order: what was taken out
  followed by what is still in the queue is what was put in, and the queue never holds more
  than the capacity.
\<close>

theorem cqueue_stream:
  assumes "sz \<noteq> 0" and "unat sz \<le> length buf" and "requests_below (2 ^ 32) ops"
  shows "\<exists>q0 cap q' ins outs. cqueue_init q buf sz = (q0, cap) \<and> unat cap \<le> unat sz \<and>
      unat sz < 2 * unat cap \<and> stream_run cq_offer cq_take q0 ops = Some (q', ins, outs) \<and>
      ins = outs @ cq_contents q' \<and> length (cq_contents q') \<le> unat cap"
proof -
  obtain q0 cap where i: "cqueue_init q buf sz = (q0, cap)" "cq_inv q0" "cq_contents q0 = []"
      "cq_size q0 = cap" "unat cap \<le> unat sz" "unat sz < 2 * unat cap"
    using cqueue_init_ok [OF assms(1,2), of q] by auto
  then show ?thesis
    using cq.stream_run_ok [of q0 ops] assms(3) cq.contents_cap by fastforce
qed

section \<open>Concrete runs\<close>

definition cq_demo :: cqueue_t where
  "cq_demo = \<lparr>cq_buffer = [1, 2, 3, 4], cq_size = 4, cq_in = 1, cq_out = 0xFFFFFFFF\<rparr>"

lemma cq_demo_inv: "cq_inv cq_demo"
  by (simp add: cq_demo_def cq_inv_def exI [of _ 2])

lemma cq_demo_contents: "cq_contents cq_demo = [4, 1]"
  by (simp add: cq_demo_def cq_contents_def ring_read_def upt_rec)

lemma cq_demo_size: "cq_size cq_demo = 4"
  by (simp add: cq_demo_def)

theorem cqueue_put_correct_witness:
  "\<exists>q' m. cqueue_put cq_demo [7, 8, 9] 3 = Some (q', m) \<and> unat m = 2 \<and> cq_contents q' = [4, 1, 7, 8]"
  using cqueue_put_correct [OF cq_demo_inv, of 3 "[7, 8, 9]"] cq_demo_contents
  by (auto simp: cq_demo_size)

theorem cqueue_get_correct_witness:
  "\<exists>q' m. cqueue_get cq_demo [0, 0, 0] 3 = Some (q', [4, 1, 0], m) \<and> cq_contents q' = []"
  using cqueue_get_correct [OF cq_demo_inv, of 3 "[0, 0, 0]"] cq_demo_contents
  by (auto simp: blit_def)

theorem cqueue_stream_witness:
  "\<exists>q0 cap q' ins outs. cqueue_init cq_demo (replicate 4 0) 4 = (q0, cap) \<and>
      stream_run cq_offer cq_take q0 [Inl [1, 2, 3], Inr 2, Inl [4, 5, 6, 7], Inr 9] =
        Some (q', ins, outs) \<and> ins = outs @ cq_contents q'"
  using cqueue_stream [of 4 "replicate 4 0" "[Inl [1, 2, 3], Inr 2, Inl [4, 5, 6, 7], Inr 9]" cq_demo]
  by (auto simp: requests_below_def)

end
