(* ===== verification/NodeLists.thy ===== *)
theory NodeLists imports Prelude begin

text \<open>
  The interface of the intrusive lists: what the memory pool and the timer wheel rely on when
  they keep their nodes in a family of lists that live in one store. \<open>at h d xs\<close> says that the
  list with head \<open>d\<close> holds the nodes \<open>xs\<close>, and \<open>same h h' p\<close> that \<open>p\<close> is untouched between
  two stores. The lemmas lift insertion, deletion and moving of a node from one list to the
  family, so that a client never argues about aliasing itself.
\<close>

definition family :: "('h \<Rightarrow> 'a \<Rightarrow> 'a list \<Rightarrow> bool) \<Rightarrow> 'h \<Rightarrow> 'a set \<Rightarrow> ('a \<Rightarrow> 'a list) \<Rightarrow> bool" where
  "family at h D L \<longleftrightarrow> (\<forall>d\<in>D. at h d (L d)) \<and>
     (\<forall>d\<in>D. \<forall>d'\<in>D. d \<noteq> d' \<longrightarrow> set (d # L d) \<inter> set (d' # L d') = {})"

lemma familyD: "family at h D L \<Longrightarrow> d \<in> D \<Longrightarrow> at h d (L d)"
  by (simp add: family_def)

lemma family_disjoint:
  "family at h D L \<Longrightarrow> d \<in> D \<Longrightarrow> d' \<in> D \<Longrightarrow> p \<in> set (d # L d) \<Longrightarrow> p \<in> set (d' # L d') \<Longrightarrow> d = d'"
  unfolding family_def by blast

locale node_lists =
  fixes at :: "'h \<Rightarrow> 'a \<Rightarrow> 'a list \<Rightarrow> bool"
    and same :: "'h \<Rightarrow> 'h \<Rightarrow> 'a \<Rightarrow> bool"
    and is_node :: "'a \<Rightarrow> bool"
    and add :: "'h \<Rightarrow> 'a \<Rightarrow> 'a \<Rightarrow> 'h option"
    and del :: "'h \<Rightarrow> 'a \<Rightarrow> 'h option"
    and place :: "'a \<Rightarrow> 'a list \<Rightarrow> 'a list"
  assumes frame: "at h d xs \<Longrightarrow> (\<And>p. p \<in> set (d # xs) \<Longrightarrow> same h h' p) \<Longrightarrow> at h' d xs"
    and nodes: "at h d xs \<Longrightarrow> distinct (d # xs) \<and> (\<forall>p\<in>set (d # xs). is_node p)"
    and same_trans: "same h h' p \<Longrightarrow> same h' h'' p \<Longrightarrow> same h h'' p"
    and set_place: "set (place n xs) = insert n (set xs)"
    and add_ok: "at h d xs \<Longrightarrow> is_node n \<Longrightarrow> n \<notin> set (d # xs) \<Longrightarrow>
      \<exists>h'. add h n d = Some h' \<and> at h' d (place n xs) \<and> (\<forall>p. p \<notin> set (n # d # xs) \<longrightarrow> same h h' p)"
    and del_ok: "at h d (xs @ e # ys) \<Longrightarrow>
      \<exists>h'. del h e = Some h' \<and> at h' d (xs @ ys) \<and> (\<forall>p. p \<notin> set (d # xs @ ys) \<longrightarrow> same h h' p)"
begin

text \<open>A change inside the footprint of one list leaves the rest of the family as it was.\<close>

lemma family_update:
  assumes fam: "family at h D L" and d: "d \<in> D" and new: "at h' d ys"
    and same: "\<And>p. p \<notin> set (d # L d) \<union> set ys \<Longrightarrow> same h h' p"
    and fresh: "\<And>p d'. p \<in> set ys \<Longrightarrow> p \<notin> set (L d) \<Longrightarrow> d' \<in> D \<Longrightarrow> p \<notin> set (d' # L d')"
  shows "family at h' D (L(d := ys))"
proof -
  have sep: "set (d # ys) \<inter> set (d' # L d') = {}" if "d' \<in> D" "d' \<noteq> d" for d'
    using family_disjoint [OF fam d that(1)] fresh [OF _ _ that(1)] that(2) by auto
  have "at h' d' (L d')" if "d' \<in> D" "d' \<noteq> d" for d'
  proof (rule frame [OF familyD [OF fam that(1)]])
    fix p
    assume p: "p \<in> set (d' # L d')"
    then have "p \<notin> set (d # L d)" using family_disjoint [OF fam that(1) d] that(2) by blast
    moreover have "p \<notin> set ys" using sep [OF that] p by auto
    ultimately show "same h h' p" using same by blast
  qed
  then show ?thesis
    using new sep fam by (auto simp: family_def)
qed

lemma family_add:
  assumes fam: "family at h D L" and d: "d \<in> D" and n: "is_node n"
    and fresh: "\<And>d'. d' \<in> D \<Longrightarrow> n \<notin> set (d' # L d')"
  shows "\<exists>h'. add h n d = Some h' \<and> family at h' D (L(d := place n (L d))) \<and>
     (\<forall>p. p \<notin> set (n # d # L d) \<longrightarrow> same h h' p)"
proof -
  obtain h' where h': "add h n d = Some h'" "at h' d (place n (L d))"
      "\<And>p. p \<notin> set (n # d # L d) \<Longrightarrow> same h h' p"
    using add_ok [OF familyD [OF fam d] n fresh [OF d]] by blast
  have "family at h' D (L(d := place n (L d)))"
    by (rule family_update [OF fam d h'(2)]) (use h'(3) fresh in \<open>auto simp: set_place\<close>)
  then show ?thesis using h' by blast
qed

lemma family_del:
  assumes fam: "family at h D L" and d: "d \<in> D" and e: "L d = xs @ e # ys"
  shows "\<exists>h'. del h e = Some h' \<and> family at h' D (L(d := xs @ ys)) \<and>
     (\<forall>p. p \<notin> set (d # xs @ ys) \<longrightarrow> same h h' p)"
proof -
  have "at h d (xs @ e # ys)" using familyD [OF fam d] e by simp
  then obtain h' where h': "del h e = Some h'" "at h' d (xs @ ys)"
      "\<And>p. p \<notin> set (d # xs @ ys) \<Longrightarrow> same h h' p"
    using del_ok by blast
  have "family at h' D (L(d := xs @ ys))"
    by (rule family_update [OF fam d h'(2)]) (use h'(3) e in auto)
  then show ?thesis using h' by blast
qed

lemma family_del_fresh:
  assumes fam: "family at h D L" and d: "d \<in> D" and e: "L d = xs @ e # ys" and d': "d' \<in> D"
  shows "e \<notin> set (d' # (L(d := xs @ ys)) d')"
proof (cases "d' = d")
  case True
  then show ?thesis using nodes [OF familyD [OF fam d]] e by auto
next
  case False
  then show ?thesis using family_disjoint [OF fam d d', of e] e by auto
qed

text \<open>A node moves from its list to another one, or to another place of its own list.\<close>

lemma family_move:
  assumes fam: "family at h D L" and d: "d \<in> D" "d2 \<in> D" and e: "L d = xs @ e # ys"
  shows "\<exists>h1 h2. del h e = Some h1 \<and> add h1 e d2 = Some h2 \<and>
     family at h2 D (let L1 = L(d := xs @ ys) in L1(d2 := place e (L1 d2))) \<and>
     (\<forall>p. p \<notin> set (d # L d) \<union> set (d2 # L d2) \<longrightarrow> same h h2 p)"
proof -
  let ?L1 = "L(d := xs @ ys)"
  obtain h1 where h1: "del h e = Some h1" "family at h1 D ?L1"
      "\<And>p. p \<notin> set (d # xs @ ys) \<Longrightarrow> same h h1 p"
    using family_del [OF fam d(1) e] by blast
  have "is_node e" using nodes [OF familyD [OF fam d(1)]] e by auto
  then obtain h2 where h2: "add h1 e d2 = Some h2" "family at h2 D (?L1(d2 := place e (?L1 d2)))"
      "\<And>p. p \<notin> set (e # d2 # ?L1 d2) \<Longrightarrow> same h1 h2 p"
    using family_add [OF h1(2) d(2) _ family_del_fresh [OF fam d(1) e]] by blast
  have "same h h2 p" if "p \<notin> set (d # L d) \<union> set (d2 # L d2)" for p
    by (rule same_trans [OF h1(3) h2(3)]) (use that e in \<open>auto split: if_splits\<close>)
  then show ?thesis using h1 h2 by (auto simp: Let_def)
qed

end

end
