(* ===== verification/DList.thy ===== *)
theory DList imports Prelude NodeLists begin

text \<open>
  \<^verbatim>\<open>src/common/tbox_dlist.c\<close>: the intrusive circular doubly linked lists under the memory
  pool and the timer wheel. Memory is an explicit store from addresses to nodes, so
  aliasing and stale links are as in the code; dereferencing \<^verbatim>\<open>NULL\<close> and loops that never
  come back to the list head are the value \<open>None\<close>. \<open>dlist_at h d xs\<close> says that in store \<open>h\<close>
  the list with head \<open>d\<close> holds the nodes \<open>xs\<close>; the lemmas show what every operation does to
  that list and that it touches no other memory.
\<close>

section \<open>The store\<close>

type_synonym addr = nat

definition NULL :: addr where
  "NULL = 0"

record dlist_node =
  prev :: addr
  nxt :: addr

type_synonym dheap = "addr \<Rightarrow> dlist_node"

definition st_next :: "dheap \<Rightarrow> addr \<Rightarrow> addr \<Rightarrow> dheap option" where
  "st_next h p v = (if p = NULL then None else Some (h(p := (h p)\<lparr>nxt := v\<rparr>)))"

definition st_prev :: "dheap \<Rightarrow> addr \<Rightarrow> addr \<Rightarrow> dheap option" where
  "st_prev h p v = (if p = NULL then None else Some (h(p := (h p)\<lparr>prev := v\<rparr>)))"

section \<open>Operations\<close>

definition dlist_init :: "dheap \<Rightarrow> addr \<Rightarrow> dheap option" where
  "dlist_init h dlist =
     (if dlist = NULL then Some h
      else do { h \<leftarrow> st_next h dlist dlist; st_prev h dlist dlist })"

definition dlist_empty :: "dheap \<Rightarrow> addr \<Rightarrow> bool" where
  "dlist_empty h dlist \<longleftrightarrow>
     (if dlist = NULL \<or> nxt (h dlist) = NULL \<or> prev (h dlist) = NULL then True
      else nxt (h dlist) = dlist \<or> prev (h dlist) = dlist)"

definition dlist_add_head :: "dheap \<Rightarrow> addr \<Rightarrow> addr \<Rightarrow> dheap option" where
  "dlist_add_head h new dlist =
     (if new = NULL \<or> dlist = NULL \<or> nxt (h dlist) = NULL \<or> prev (h dlist) = NULL then Some h
      else do {
        h \<leftarrow> st_next h new (nxt (h dlist));
        h \<leftarrow> st_prev h new dlist;
        h \<leftarrow> st_prev h (nxt (h dlist)) new;
        st_next h dlist new
      })"

definition dlist_add_tail :: "dheap \<Rightarrow> addr \<Rightarrow> addr \<Rightarrow> dheap option" where
  "dlist_add_tail h new dlist =
     (if new = NULL \<or> dlist = NULL \<or> nxt (h dlist) = NULL \<or> prev (h dlist) = NULL then Some h
      else do {
        h \<leftarrow> st_prev h new (prev (h dlist));
        h \<leftarrow> st_next h new dlist;
        h \<leftarrow> st_next h (prev (h dlist)) new;
        st_prev h dlist new
      })"

definition dlist_del_entry :: "dheap \<Rightarrow> addr \<Rightarrow> dheap option" where
  "dlist_del_entry h entry =
     (if entry = NULL \<or> nxt (h entry) = NULL \<or> prev (h entry) = NULL then Some h
      else do {
        h \<leftarrow> st_next h (prev (h entry)) (nxt (h entry));
        st_prev h (nxt (h entry)) (prev (h entry))
      })"

definition dlist_replace :: "dheap \<Rightarrow> addr \<Rightarrow> addr \<Rightarrow> dheap option" where
  "dlist_replace h old new =
     (if old = NULL \<or> new = NULL then Some h
      else do {
        h \<leftarrow> st_next h new (nxt (h old));
        h \<leftarrow> st_prev h (nxt (h new)) new;
        h \<leftarrow> st_prev h new (prev (h old));
        st_next h (prev (h new)) new
      })"

definition dlist_move :: "dheap \<Rightarrow> addr \<Rightarrow> addr \<Rightarrow> dheap option" where
  "dlist_move h entry dlist =
     (if entry = NULL \<or> dlist = NULL \<or> nxt (h dlist) = NULL \<or> prev (h dlist) = NULL then Some h
      else do { h \<leftarrow> dlist_del_entry h entry; dlist_add_head h entry dlist })"

definition dlist_move_tail :: "dheap \<Rightarrow> addr \<Rightarrow> addr \<Rightarrow> dheap option" where
  "dlist_move_tail h entry dlist =
     (if entry = NULL \<or> dlist = NULL \<or> nxt (h dlist) = NULL \<or> prev (h dlist) = NULL then Some h
      else do { h \<leftarrow> dlist_del_entry h entry; dlist_add_tail h entry dlist })"

text \<open>The loop of \<^verbatim>\<open>dlist_count\<close>; the counter is a \<^verbatim>\<open>UINT32\<close>.\<close>

partial_function (option) dlist_count_loop :: "dheap \<Rightarrow> addr \<Rightarrow> addr \<Rightarrow> u32 \<Rightarrow> u32 option" where
  "dlist_count_loop h dlist node cnt =
     (if node = dlist then Some cnt
      else if node = NULL then None
      else dlist_count_loop h dlist (nxt (h node)) (cnt + 1))"

definition dlist_count :: "dheap \<Rightarrow> addr \<Rightarrow> u32 option" where
  "dlist_count h dlist =
     (if dlist = NULL \<or> nxt (h dlist) = NULL \<or> prev (h dlist) = NULL then Some 0
      else dlist_count_loop h dlist (nxt (h dlist)) 0)"

definition dlist_pop_first_node :: "dheap \<Rightarrow> addr \<Rightarrow> (dheap \<times> addr) option" where
  "dlist_pop_first_node h dlist =
     (if dlist = NULL \<or> nxt (h dlist) = NULL \<or> prev (h dlist) = NULL then Some (h, NULL)
      else if \<not> dlist_empty h dlist
      then do { let ret = nxt (h dlist); h \<leftarrow> dlist_del_entry h ret; Some (h, ret) }
      else Some (h, NULL))"

definition dlist_pop_last_node :: "dheap \<Rightarrow> addr \<Rightarrow> (dheap \<times> addr) option" where
  "dlist_pop_last_node h dlist =
     (if dlist = NULL \<or> nxt (h dlist) = NULL \<or> prev (h dlist) = NULL then Some (h, NULL)
      else if \<not> dlist_empty h dlist
      then do { let ret = prev (h dlist); h \<leftarrow> dlist_del_entry h ret; Some (h, ret) }
      else Some (h, NULL))"

partial_function (option) dlist_has_loop :: "dheap \<Rightarrow> addr \<Rightarrow> addr \<Rightarrow> addr \<Rightarrow> bool option" where
  "dlist_has_loop h dlist node tmp =
     (if tmp = dlist then Some False
      else if tmp = node then Some True
      else if tmp = NULL then None
      else dlist_has_loop h dlist node (nxt (h tmp)))"

definition dlist_has_node :: "dheap \<Rightarrow> addr \<Rightarrow> addr \<Rightarrow> bool option" where
  "dlist_has_node h dlist node =
     (if dlist = NULL \<or> node = NULL \<or> nxt (h dlist) = NULL \<or> prev (h dlist) = NULL
      then Some False
      else dlist_has_loop h dlist node (nxt (h dlist)))"

section \<open>Lists in the store\<close>

text \<open>\<open>linked h a xs b\<close>: from \<open>a\<close> through the nodes \<open>xs\<close> to \<open>b\<close>, in both directions.\<close>

fun linked :: "dheap \<Rightarrow> addr \<Rightarrow> addr list \<Rightarrow> addr \<Rightarrow> bool" where
  "linked h a [] b \<longleftrightarrow> nxt (h a) = b \<and> prev (h b) = a"
| "linked h a (x # xs) b \<longleftrightarrow> nxt (h a) = x \<and> prev (h x) = a \<and> linked h x xs b"

definition dlist_at :: "dheap \<Rightarrow> addr \<Rightarrow> addr list \<Rightarrow> bool" where
  "dlist_at h d xs \<longleftrightarrow> NULL \<notin> set (d # xs) \<and> distinct (d # xs) \<and> linked h d xs d"

lemma linked_append: "linked h a (xs @ x # ys) b \<longleftrightarrow> linked h a xs x \<and> linked h x ys b"
  by (induction xs arbitrary: a) auto

lemma linked_cong:
  "(\<And>p. p \<in> set (a # xs) \<Longrightarrow> nxt (h' p) = nxt (h p)) \<Longrightarrow>
   (\<And>p. p \<in> set (b # xs) \<Longrightarrow> prev (h' p) = prev (h p)) \<Longrightarrow> linked h' a xs b = linked h a xs b"
  by (induction xs arbitrary: a) auto

lemma dlist_at_frame: "(\<And>p. p \<in> set (d # xs) \<Longrightarrow> h' p = h p) \<Longrightarrow> dlist_at h' d xs = dlist_at h d xs"
  unfolding dlist_at_def by (subst linked_cong [of d xs h' h]) auto

lemma linked_next: "linked h a xs b \<Longrightarrow> nxt (h a) = hd (xs @ [b])"
  by (cases xs) auto

lemma linked_prev: "linked h a xs b \<Longrightarrow> prev (h b) = last (a # xs)"
  by (induction xs arbitrary: a) auto

lemma dlist_at_links:
  assumes "dlist_at h d xs"
  shows "d \<noteq> NULL" and "nxt (h d) = hd (xs @ [d])" and "prev (h d) = last (d # xs)"
    and "nxt (h d) \<noteq> NULL" and "prev (h d) \<noteq> NULL"
proof -
  have l: "linked h d xs d" and n: "NULL \<notin> set (d # xs)"
    using assms by (auto simp: dlist_at_def)
  show "nxt (h d) = hd (xs @ [d])" "prev (h d) = last (d # xs)"
    using linked_next [OF l] linked_prev [OF l] by simp_all
  moreover have "hd (xs @ [d]) \<in> set (d # xs)" "last (d # xs) \<in> set (d # xs)"
    by (cases xs; simp) (rule last_in_set, simp)
  ultimately show "nxt (h d) \<noteq> NULL" "prev (h d) \<noteq> NULL" "d \<noteq> NULL"
    using n by (metis, metis, simp)
qed

lemma linked_split:
  "linked h a (xs @ ys) b \<longleftrightarrow> linked h a xs (hd (ys @ [b])) \<and> linked h (last (a # xs)) ys b"
proof (induction xs arbitrary: a)
  case Nil
  then show ?case by (cases ys) auto
qed auto

text \<open>
  Redirecting the last or the first link of a segment: only the links at that end differ
  between the stores.
\<close>

lemma linked_retarget_end:
  "linked h a xs b \<Longrightarrow> nxt (h' (last (a # xs))) = c \<Longrightarrow> prev (h' c) = last (a # xs) \<Longrightarrow>
   (\<And>p. p \<in> set (butlast (a # xs)) \<Longrightarrow> nxt (h' p) = nxt (h p)) \<Longrightarrow>
   (\<And>p. p \<in> set xs \<Longrightarrow> prev (h' p) = prev (h p)) \<Longrightarrow> linked h' a xs c"
  by (induction xs arbitrary: a) (auto split: if_splits)

lemma linked_retarget_start:
  "linked h a ys b \<Longrightarrow> nxt (h' c) = hd (ys @ [b]) \<Longrightarrow> prev (h' (hd (ys @ [b]))) = c \<Longrightarrow>
   (\<And>p. p \<in> set ys \<Longrightarrow> nxt (h' p) = nxt (h p)) \<Longrightarrow>
   (\<And>p. p \<in> set (tl (ys @ [b])) \<Longrightarrow> prev (h' p) = prev (h p)) \<Longrightarrow> linked h' c ys b"
proof (cases ys)
  case (Cons y ys')
  assume "linked h a ys b" "nxt (h' c) = hd (ys @ [b])" "prev (h' (hd (ys @ [b]))) = c"
    "\<And>p. p \<in> set ys \<Longrightarrow> nxt (h' p) = nxt (h p)"
    "\<And>p. p \<in> set (tl (ys @ [b])) \<Longrightarrow> prev (h' p) = prev (h p)"
  with Cons show ?thesis
    using linked_cong [of y ys' h' h b] by simp
qed auto

text \<open>Putting \<open>n\<close> between \<open>p\<close> and \<open>q\<close>, and closing the gap between \<open>p\<close> and \<open>q\<close>.\<close>

definition link_in :: "dheap \<Rightarrow> addr \<Rightarrow> addr \<Rightarrow> addr \<Rightarrow> dheap" where
  "link_in h n p q = (\<lambda>r. \<lparr>prev = (if r = q then n else if r = n then p else prev (h r)),
                         nxt = (if r = p then n else if r = n then q else nxt (h r))\<rparr>)"

definition link_out :: "dheap \<Rightarrow> addr \<Rightarrow> addr \<Rightarrow> dheap" where
  "link_out h p q = (\<lambda>r. \<lparr>prev = (if r = q then p else prev (h r)),
                        nxt = (if r = p then q else nxt (h r))\<rparr>)"

lemma link_in_other: "r \<notin> {n, p, q} \<Longrightarrow> link_in h n p q r = h r"
  by (simp add: link_in_def)

lemma link_out_other: "r \<notin> {p, q} \<Longrightarrow> link_out h p q r = h r"
  by (simp add: link_out_def)

lemma last_not_butlast: "distinct l \<Longrightarrow> p \<in> set (butlast l) \<Longrightarrow> p \<noteq> last l"
  by (induction l) (auto split: if_splits)

lemma hd_not_tl: "distinct l \<Longrightarrow> p \<in> set (tl l) \<Longrightarrow> p \<noteq> hd l"
  by (cases l) auto

lemma last_in_Cons: "last (a # xs) \<in> set (a # xs)"
  by (rule last_in_set) simp

lemma hd_in_snoc: "hd (ys @ [b]) \<in> set (ys @ [b])"
  by (rule hd_in_set) simp

lemma butlast_in: "p \<in> set (butlast (a # xs)) \<Longrightarrow> p \<in> set (a # xs)"
  by (rule in_set_butlastD)

lemma tl_in: "p \<in> set (tl (ys @ [b])) \<Longrightarrow> p \<in> set (ys @ [b])"
  by (cases ys) auto

lemma dlist_at_link_in:
  assumes at: "dlist_at h d (xs @ ys)" and n: "n \<noteq> NULL" "n \<notin> set (d # xs @ ys)"
  shows "dlist_at (link_in h n (last (d # xs)) (hd (ys @ [d]))) d (xs @ n # ys)"
proof -
  let ?p = "last (d # xs)" and ?q = "hd (ys @ [d])"
  let ?h = "link_in h n ?p ?q"
  have l: "linked h d xs ?q" "linked h ?p ys d" and dist: "distinct (d # xs @ ys)"
    using at by (auto simp: dlist_at_def linked_split simp del: last.simps)
  have p: "?p \<in> set (d # xs)" by (rule last_in_Cons)
  have q: "?q \<in> set (ys @ [d])" by (rule hd_in_snoc)
  have np: "n \<noteq> ?p" "n \<noteq> ?q" using n p q by auto
  have "linked ?h d xs n"
  proof (rule linked_retarget_end [OF l(1)])
    show "nxt (?h ?p) = n" by (simp add: link_in_def)
    show "prev (?h n) = ?p" using np by (simp add: link_in_def)
    fix r
    assume r: "r \<in> set (butlast (d # xs))"
    then have "r \<noteq> ?p" using dist by (intro last_not_butlast) auto
    moreover have "r \<noteq> n" using n(2) butlast_in [OF r] by auto
    ultimately show "nxt (?h r) = nxt (h r)" by (simp add: link_in_def)
  next
    fix r
    assume "r \<in> set xs"
    then have "r \<noteq> ?q" "r \<noteq> n" using q dist n(2) by auto
    then show "prev (?h r) = prev (h r)" by (simp add: link_in_def)
  qed
  moreover have "linked ?h n ys d"
  proof (rule linked_retarget_start [OF l(2)])
    show "nxt (?h n) = ?q" using np by (simp add: link_in_def)
    show "prev (?h ?q) = n" by (simp add: link_in_def)
    fix r
    assume "r \<in> set ys"
    then have "r \<noteq> ?p" "r \<noteq> n" using p dist n(2) by auto
    then show "nxt (?h r) = nxt (h r)" by (simp add: link_in_def)
  next
    fix r
    assume r: "r \<in> set (tl (ys @ [d]))"
    then have "r \<noteq> ?q" using dist by (intro hd_not_tl) auto
    moreover have "r \<noteq> n" using n(2) tl_in [OF r] by auto
    ultimately show "prev (?h r) = prev (h r)" by (simp add: link_in_def)
  qed
  ultimately show ?thesis
    using at n by (auto simp: dlist_at_def linked_append)
qed

lemma dlist_at_link_out:
  assumes at: "dlist_at h d (xs @ e # ys)"
  shows "dlist_at (link_out h (last (d # xs)) (hd (ys @ [d]))) d (xs @ ys)"
proof -
  let ?p = "last (d # xs)" and ?q = "hd (ys @ [d])"
  let ?h = "link_out h ?p ?q"
  have l: "linked h d xs e" "linked h e ys d" and dist: "distinct (d # xs @ e # ys)"
    using at by (auto simp: dlist_at_def linked_append)
  have p: "?p \<in> set (d # xs)" by (rule last_in_Cons)
  have q: "?q \<in> set (ys @ [d])" by (rule hd_in_snoc)
  have "linked ?h d xs ?q"
  proof (rule linked_retarget_end [OF l(1)])
    show "nxt (?h ?p) = ?q" "prev (?h ?q) = ?p" by (simp_all add: link_out_def)
    fix r
    assume r: "r \<in> set (butlast (d # xs))"
    then have "r \<noteq> ?p" using dist by (intro last_not_butlast) auto
    then show "nxt (?h r) = nxt (h r)" by (simp add: link_out_def)
  next
    fix r
    assume "r \<in> set xs"
    then have "r \<noteq> ?q" using q dist by auto
    then show "prev (?h r) = prev (h r)" by (simp add: link_out_def)
  qed
  moreover have "linked ?h ?p ys d"
  proof (rule linked_retarget_start [OF l(2)])
    show "nxt (?h ?p) = ?q" "prev (?h ?q) = ?p" by (simp_all add: link_out_def)
    fix r
    assume "r \<in> set ys"
    then have "r \<noteq> ?p" using p dist by auto
    then show "nxt (?h r) = nxt (h r)" by (simp add: link_out_def)
  next
    fix r
    assume r: "r \<in> set (tl (ys @ [d]))"
    then have "r \<noteq> ?q" using dist by (intro hd_not_tl) auto
    then show "prev (?h r) = prev (h r)" by (simp add: link_out_def)
  qed
  ultimately show ?thesis
    using at by (auto simp: dlist_at_def linked_split simp del: last.simps)
qed

section \<open>What the operations do\<close>

lemma dlist_node_eq_iff: "(a :: dlist_node) = b \<longleftrightarrow> prev a = prev b \<and> nxt a = nxt b"
  by (cases a; cases b) simp

lemma dlist_init_at:
  assumes "d \<noteq> NULL"
  shows "\<exists>h'. dlist_init h d = Some h' \<and> dlist_at h' d [] \<and> (\<forall>p. p \<noteq> d \<longrightarrow> h' p = h p)"
  using assms by (simp add: dlist_init_def st_next_def st_prev_def dlist_at_def)

lemma dlist_empty_iff:
  assumes "dlist_at h d xs"
  shows "dlist_empty h d \<longleftrightarrow> xs = []"
proof -
  have "d \<notin> set xs" using assms by (simp add: dlist_at_def)
  then have "hd (xs @ [d]) = d \<longleftrightarrow> xs = []" "last (d # xs) = d \<longleftrightarrow> xs = []"
    using hd_in_set [of xs] last_in_set [of xs] by (cases "xs = []"; force)+
  then show ?thesis
    using dlist_at_links [OF assms] by (simp add: dlist_empty_def del: last.simps)
qed

lemma dlist_add_head_eq:
  assumes "dlist_at h d xs" and "n \<noteq> NULL" and "n \<notin> set (d # xs)"
  shows "dlist_add_head h n d = Some (link_in h n d (hd (xs @ [d])))"
proof -
  note l = dlist_at_links [OF assms(1)]
  have "hd (xs @ [d]) \<noteq> n" using assms(3) hd_in_snoc [of xs d] by auto
  then show ?thesis
    using assms(2,3) l
    by (auto simp: dlist_add_head_def st_next_def st_prev_def link_in_def fun_eq_iff
        dlist_node_eq_iff)
qed

lemma dlist_add_tail_eq:
  assumes "dlist_at h d xs" and "n \<noteq> NULL" and "n \<notin> set (d # xs)"
  shows "dlist_add_tail h n d = Some (link_in h n (last (d # xs)) d)"
proof -
  note l = dlist_at_links [OF assms(1)]
  have "last (d # xs) \<noteq> n" using assms(3) last_in_Cons [of d xs] by auto
  then show ?thesis
    using assms(2,3) l
    by (auto simp: dlist_add_tail_def st_next_def st_prev_def link_in_def fun_eq_iff
        dlist_node_eq_iff simp del: last.simps)
qed

lemma dlist_add_head_at:
  assumes "dlist_at h d xs" and "n \<noteq> NULL" and "n \<notin> set (d # xs)"
  shows "\<exists>h'. dlist_add_head h n d = Some h' \<and> dlist_at h' d (n # xs) \<and>
     (\<forall>p. p \<notin> set (n # d # xs) \<longrightarrow> h' p = h p)"
proof -
  have "link_in h n d (hd (xs @ [d])) p = h p" if "p \<notin> set (n # d # xs)" for p
    using that hd_in_snoc [of xs d] by (auto intro!: link_in_other)
  then show ?thesis
    using dlist_at_link_in [of h d "[]" xs n] assms dlist_add_head_eq [OF assms] by simp
qed

lemma dlist_add_tail_at:
  assumes "dlist_at h d xs" and "n \<noteq> NULL" and "n \<notin> set (d # xs)"
  shows "\<exists>h'. dlist_add_tail h n d = Some h' \<and> dlist_at h' d (xs @ [n]) \<and>
     (\<forall>p. p \<notin> set (n # d # xs) \<longrightarrow> h' p = h p)"
proof -
  have "link_in h n (last (d # xs)) d p = h p" if "p \<notin> set (n # d # xs)" for p
    using that last_in_Cons [of d xs] by (auto intro!: link_in_other simp del: last.simps)
  then show ?thesis
    using dlist_at_link_in [of h d xs "[]" n] assms dlist_add_tail_eq [OF assms]
    by (simp del: last.simps)
qed

lemma dlist_del_entry_eq:
  assumes "dlist_at h d (xs @ e # ys)"
  shows "dlist_del_entry h e = Some (link_out h (last (d # xs)) (hd (ys @ [d])))"
proof -
  have l: "linked h d xs e" "linked h e ys d" and n: "NULL \<notin> set (d # xs @ e # ys)"
    and dist: "distinct (d # xs @ e # ys)"
    using assms by (auto simp: dlist_at_def linked_append)
  have e: "prev (h e) = last (d # xs)" "nxt (h e) = hd (ys @ [d])"
    using linked_prev [OF l(1)] linked_next [OF l(2)] by simp_all
  have p: "last (d # xs) \<in> set (d # xs)" by (rule last_in_Cons)
  have q: "hd (ys @ [d]) \<in> set (ys @ [d])" by (rule hd_in_snoc)
  have "last (d # xs) \<noteq> NULL" "hd (ys @ [d]) \<noteq> NULL" "e \<noteq> NULL" "last (d # xs) \<noteq> e"
    using p q n dist by auto
  then show ?thesis
    by (auto simp: dlist_del_entry_def st_next_def st_prev_def link_out_def fun_eq_iff
        dlist_node_eq_iff e simp del: last.simps)
qed

lemma dlist_del_entry_at:
  assumes "dlist_at h d (xs @ e # ys)"
  shows "\<exists>h'. dlist_del_entry h e = Some h' \<and> dlist_at h' d (xs @ ys) \<and> h' e = h e \<and>
      (\<forall>p. p \<notin> set (d # xs @ ys) \<longrightarrow> h' p = h p)"
proof -
  have out: "link_out h (last (d # xs)) (hd (ys @ [d])) p = h p" if "p \<notin> set (d # xs @ ys)" for p
    using that hd_in_snoc [of ys d] last_in_Cons [of d xs]
    by (auto intro!: link_out_other simp del: last.simps)
  moreover have "e \<notin> set (d # xs @ ys)" using assms by (auto simp: dlist_at_def)
  ultimately show ?thesis
    using dlist_del_entry_eq [OF assms] dlist_at_link_out [OF assms] by blast
qed

text \<open>A node that is linked to itself only can be deleted without effect.\<close>

lemma dlist_del_self:
  assumes "dlist_at h e []"
  shows "dlist_del_entry h e = Some h"
  using assms
  by (auto simp: dlist_at_def dlist_del_entry_def st_next_def st_prev_def fun_eq_iff
      dlist_node_eq_iff)

lemma dlist_pop_first_Nil: "dlist_at h d [] \<Longrightarrow> dlist_pop_first_node h d = Some (h, NULL)"
  using dlist_empty_iff [of h d "[]"] by (simp add: dlist_pop_first_node_def)

lemma dlist_pop_first_Cons:
  assumes "dlist_at h d (x # xs)"
  shows "dlist_pop_first_node h d = map_option (\<lambda>h'. (h', x)) (dlist_del_entry h x)"
proof -
  have "nxt (h d) = x" using dlist_at_links(2) [OF assms] by simp
  then show ?thesis
    using dlist_at_links [OF assms] dlist_empty_iff [OF assms]
    by (simp add: dlist_pop_first_node_def Option.bind_map_option split: option.splits)
       (cases "dlist_del_entry h x"; simp)
qed

lemma dlist_pop_last_Nil: "dlist_at h d [] \<Longrightarrow> dlist_pop_last_node h d = Some (h, NULL)"
  using dlist_empty_iff [of h d "[]"] by (simp add: dlist_pop_last_node_def)

lemma dlist_pop_last_snoc:
  assumes "dlist_at h d (xs @ [x])"
  shows "dlist_pop_last_node h d = map_option (\<lambda>h'. (h', x)) (dlist_del_entry h x)"
proof -
  have "prev (h d) = x" using dlist_at_links(3) [OF assms] by simp
  then show ?thesis
    using dlist_at_links [OF assms] dlist_empty_iff [OF assms]
    by (simp add: dlist_pop_last_node_def del: last.simps) (cases "dlist_del_entry h x"; simp)
qed

section \<open>Loops over a list\<close>

lemma dlist_count_loop_linked:
  "linked h a xs d \<Longrightarrow> NULL \<notin> set xs \<Longrightarrow> d \<notin> set xs \<Longrightarrow>
   dlist_count_loop h d (nxt (h a)) cnt = Some (cnt + of_nat (length xs))"
proof (induction xs arbitrary: a cnt)
  case Nil
  then show ?case by (simp add: dlist_count_loop.simps)
next
  case (Cons x xs)
  then show ?case
    by (subst dlist_count_loop.simps) (auto simp: algebra_simps)
qed

lemma dlist_count_at: "dlist_at h d xs \<Longrightarrow> dlist_count h d = Some (of_nat (length xs))"
  using dlist_at_links [of h d xs] dlist_count_loop_linked [of h d xs d 0]
  by (auto simp: dlist_count_def dlist_at_def)

lemma dlist_has_loop_linked:
  "linked h a xs d \<Longrightarrow> NULL \<notin> set xs \<Longrightarrow> d \<notin> set xs \<Longrightarrow> n \<noteq> NULL \<Longrightarrow>
   dlist_has_loop h d n (nxt (h a)) = Some (n \<in> set xs)"
proof (induction xs arbitrary: a)
  case Nil
  then show ?case by (simp add: dlist_has_loop.simps)
next
  case (Cons x xs)
  then show ?case
    by (subst dlist_has_loop.simps) auto
qed

lemma dlist_has_at: "dlist_at h d xs \<Longrightarrow> n \<noteq> NULL \<Longrightarrow> dlist_has_node h d n = Some (n \<in> set xs)"
  using dlist_at_links [of h d xs] dlist_has_loop_linked [of h d xs d n]
  by (auto simp: dlist_has_node_def dlist_at_def)


section \<open>The interface\<close>

text \<open>The laws of \<open>node_lists\<close>, for insertion at either end.\<close>

lemma dlist_nodes: "dlist_at h d xs \<Longrightarrow> distinct (d # xs) \<and> (\<forall>p\<in>set (d # xs). p \<noteq> NULL)"
  by (auto simp: dlist_at_def)

interpretation dhead: node_lists dlist_at "\<lambda>h h' p. h' p = h p" "\<lambda>p. p \<noteq> NULL"
  dlist_add_head dlist_del_entry Cons
proof unfold_locales
  show "dlist_at h' d xs" if "dlist_at h d xs" "\<And>p. p \<in> set (d # xs) \<Longrightarrow> h' p = h p" for h h' d xs
    using that dlist_at_frame by blast
  show "\<exists>h'. dlist_del_entry h e = Some h' \<and> dlist_at h' d (xs @ ys) \<and>
     (\<forall>p. p \<notin> set (d # xs @ ys) \<longrightarrow> h' p = h p)" if "dlist_at h d (xs @ e # ys)" for h d xs e ys
    using dlist_del_entry_at [OF that] by blast
qed (use dlist_nodes dlist_add_head_at in auto)

interpretation dtail: node_lists dlist_at "\<lambda>h h' p. h' p = h p" "\<lambda>p. p \<noteq> NULL"
  dlist_add_tail dlist_del_entry "\<lambda>n xs. xs @ [n]"
proof unfold_locales
  show "\<exists>h'. dlist_add_tail h n d = Some h' \<and> dlist_at h' d (xs @ [n]) \<and>
      (\<forall>p. p \<notin> set (n # d # xs) \<longrightarrow> h' p = h p)"
    if "dlist_at h d xs" "n \<noteq> NULL" "n \<notin> set (d # xs)" for h n d xs
    using dlist_add_tail_at [OF that] by blast
qed (use dhead.frame dlist_nodes dhead.del_ok in auto)

section \<open>Properties\<close>

text \<open>
  In a family of lists that share the store, adding a node that is in none of them puts
  it at the front, respectively the end, of the one list, leaves every other list as it was
  and changes no memory but the new node, the head and the nodes of this list.
\<close>

theorem dlist_add_correct:
  assumes "family dlist_at h D L" and "d \<in> D" and "n \<noteq> NULL"
    and "\<forall>d'\<in>D. n \<notin> set (d' # L d')"
  shows "\<exists>hh ht. dlist_add_head h n d = Some hh \<and> family dlist_at hh D (L(d := n # L d)) \<and>
      dlist_add_tail h n d = Some ht \<and> family dlist_at ht D (L(d := L d @ [n])) \<and>
      (\<forall>p. p \<notin> set (n # d # L d) \<longrightarrow> hh p = h p \<and> ht p = h p)"
  using dhead.family_add [OF assms(1-3)] dtail.family_add [OF assms(1-3)] assms(4) by blast

definition ex_heap :: dheap where
  "ex_heap p = (if p = 1 then \<lparr>prev = 3, nxt = 2\<rparr> else if p = 2 then \<lparr>prev = 1, nxt = 3\<rparr>
     else if p = 3 then \<lparr>prev = 2, nxt = 1\<rparr> else \<lparr>prev = p, nxt = p\<rparr>)"

definition ex_lists :: "addr \<Rightarrow> addr list" where
  "ex_lists d = (if d = 1 then [2, 3] else [])"

lemma ex_family: "family dlist_at ex_heap {1, 4} ex_lists"
  by (auto simp: family_def dlist_at_def ex_heap_def ex_lists_def NULL_def)

theorem dlist_add_correct_witness:
  "\<exists>hh ht. dlist_add_head ex_heap 7 1 = Some hh \<and> family dlist_at hh {1, 4} (ex_lists(1 := [7, 2, 3])) \<and>
      dlist_add_tail ex_heap 7 1 = Some ht \<and> family dlist_at ht {1, 4} (ex_lists(1 := [2, 3, 7]))"
proof -
  have "\<forall>d'\<in>{1, 4}. 7 \<notin> set (d' # ex_lists d')" by (simp add: ex_lists_def)
  then show ?thesis
    using dlist_add_correct [OF ex_family, of 1 7] by (simp add: NULL_def) (auto simp: ex_lists_def)
qed

text \<open>
  Deleting a node takes exactly that node out of its list, wherever it stands, leaves the
  other lists and the memory outside the list alone; popping the first or the last node is
  this deletion and returns the node.
\<close>

theorem dlist_remove_correct:
  assumes "family dlist_at h D L" and "d \<in> D" and "L d = xs @ e # ys"
  shows "\<exists>h'. dlist_del_entry h e = Some h' \<and> family dlist_at h' D (L(d := xs @ ys)) \<and>
      (\<forall>p. p \<notin> set (d # xs @ ys) \<longrightarrow> h' p = h p) \<and>
      (xs = [] \<longrightarrow> dlist_pop_first_node h d = Some (h', e)) \<and>
      (ys = [] \<longrightarrow> dlist_pop_last_node h d = Some (h', e))"
proof -
  obtain h' where h': "dlist_del_entry h e = Some h'" "family dlist_at h' D (L(d := xs @ ys))"
      "\<forall>p. p \<notin> set (d # xs @ ys) \<longrightarrow> h' p = h p"
    using dhead.family_del [OF assms] by blast
  have "dlist_at h d (xs @ e # ys)" using familyD [OF assms(1,2)] assms(3) by simp
  then have "xs = [] \<longrightarrow> dlist_pop_first_node h d = Some (h', e)"
      "ys = [] \<longrightarrow> dlist_pop_last_node h d = Some (h', e)"
    using h'(1) by (auto simp: dlist_pop_first_Cons dlist_pop_last_snoc)
  then show ?thesis using h' by blast
qed

theorem dlist_remove_correct_witness:
  "\<exists>h'. dlist_del_entry ex_heap 2 = Some h' \<and> family dlist_at h' {1, 4} (ex_lists(1 := [3])) \<and>
      dlist_pop_first_node ex_heap 1 = Some (h', 2)"
  using dlist_remove_correct [OF ex_family, of 1 "[]" 2 "[3]"] by (auto simp: ex_lists_def)

text \<open>
  Moving a node takes it out of its own list and puts it at the front, respectively the
  end, of the destination, which may be the same list.
\<close>

theorem dlist_move_correct:
  assumes "family dlist_at h D L" and "d \<in> D" and "d2 \<in> D" and "L d = xs @ e # ys"
  shows "let L1 = L(d := xs @ ys) in
     (\<exists>h'. dlist_move h e d2 = Some h' \<and> family dlist_at h' D (L1(d2 := e # L1 d2))) \<and>
     (\<exists>h'. dlist_move_tail h e d2 = Some h' \<and> family dlist_at h' D (L1(d2 := L1 d2 @ [e])))"
proof -
  have "e \<noteq> NULL" using dlist_nodes [OF familyD [OF assms(1,2)]] assms(4) by auto
  then show ?thesis
    using dhead.family_move [OF assms] dtail.family_move [OF assms]
      dlist_at_links [OF familyD [OF assms(1,3)]]
    by (auto simp: dlist_move_def dlist_move_tail_def Let_def)
qed

theorem dlist_move_correct_witness:
  "\<exists>h'. dlist_move ex_heap 3 4 = Some h' \<and> family dlist_at h' {1, 4} (ex_lists(1 := [2], 4 := [3]))"
  using dlist_move_correct [OF ex_family, of 1 4 "[2]" 3 "[]"] by (auto simp: ex_lists_def Let_def)

text \<open>The replacing node takes the place of the old one.\<close>

lemma dlist_replace_eq:
  assumes "prev (h old) = p" "nxt (h old) = q"
    and "p \<noteq> NULL" "q \<noteq> NULL" "old \<noteq> NULL" "p \<noteq> old" "q \<noteq> old" "p \<noteq> new" "q \<noteq> new" "old \<noteq> new"
    and "new \<noteq> NULL"
  shows "dlist_replace h old new = Some (link_in (link_out h p q) new p q)"
proof -
  define h1 where "h1 = h(new := (h new)\<lparr>nxt := q\<rparr>)"
  define h2 where "h2 = h1(q := (h1 q)\<lparr>prev := new\<rparr>)"
  define h3 where "h3 = h2(new := (h2 new)\<lparr>prev := p\<rparr>)"
  have old: "prev (h2 old) = p" and new: "nxt (h1 new) = q" "prev (h3 new) = p"
    using assms by (simp_all add: h1_def h2_def h3_def)
  have "dlist_replace h old new = Some (h3(p := (h3 p)\<lparr>nxt := new\<rparr>))"
    using assms(2-5,11) old new
    by (simp add: dlist_replace_def st_next_def st_prev_def h1_def [symmetric] h2_def [symmetric]
        h3_def [symmetric])
  moreover have "(h3(p := (h3 p)\<lparr>nxt := new\<rparr>)) r = link_in (link_out h p q) new p q r" for r
    using assms(8,9) by (simp add: link_in_def link_out_def dlist_node_eq_iff h1_def h2_def h3_def)
  ultimately show ?thesis by (simp add: fun_eq_iff)
qed

lemma dlist_replace_at:
  assumes at: "dlist_at h d (xs @ old # ys)" and new: "new \<noteq> NULL" "new \<notin> set (d # xs @ old # ys)"
  shows "\<exists>h'. dlist_replace h old new = Some h' \<and> dlist_at h' d (xs @ new # ys)"
proof -
  let ?p = "last (d # xs)" and ?q = "hd (ys @ [d])"
  have l: "linked h d xs old" "linked h old ys d" and n: "NULL \<notin> set (d # xs @ old # ys)"
    and dist: "distinct (d # xs @ old # ys)"
    using at by (auto simp: dlist_at_def linked_append)
  have e: "prev (h old) = ?p" "nxt (h old) = ?q"
    using linked_prev [OF l(1)] linked_next [OF l(2)] by simp_all
  have ne: "p \<noteq> NULL \<and> q \<noteq> NULL \<and> old \<noteq> NULL \<and> p \<noteq> old \<and> q \<noteq> old \<and> p \<noteq> new \<and> q \<noteq> new \<and> old \<noteq> new"
    if "p \<in> set (d # xs)" "q \<in> set (ys @ [d])" for p q
    using that n dist new by auto
  have "dlist_replace h old new = Some (link_in (link_out h ?p ?q) new ?p ?q)"
    using ne [OF last_in_Cons hd_in_snoc] new(1) e by (intro dlist_replace_eq) blast+
  moreover have "dlist_at (link_in (link_out h ?p ?q) new ?p ?q) d (xs @ new # ys)"
    by (rule dlist_at_link_in [OF dlist_at_link_out [OF at]]) (use new in auto)
  ultimately show ?thesis by blast
qed

text \<open>
  On a well-formed list the loops of \<open>dlist_count\<close> and \<open>dlist_has_node\<close> end, and return
  the length (modulo \<open>2 ^ 32\<close>) and the membership of the node; \<open>dlist_empty\<close> is exact.
\<close>

theorem dlist_loops_return:
  assumes "dlist_at h d xs" and "n \<noteq> NULL"
  shows "dlist_count h d = Some (of_nat (length xs)) \<and> dlist_has_node h d n = Some (n \<in> set xs) \<and>
     dlist_empty h d = (xs = [])"
  using assms dlist_count_at dlist_has_at dlist_empty_iff by blast

theorem dlist_loops_return_witness:
  "dlist_count ex_heap 1 = Some 2 \<and> dlist_has_node ex_heap 1 3 = Some True \<and> \<not> dlist_empty ex_heap 1"
  using dlist_loops_return [OF familyD [OF ex_family, of 1], of 3]
  by (simp add: ex_lists_def NULL_def)

end
