(* ===== verification/DataQueue.thy ===== *)
theory DataQueue imports Ring "HOL-Library.Signed_Division" begin

text \<open>
  \<^verbatim>\<open>src/common/data_queue.c\<close>: the ring of framed elements in front of the cellular socket.
  The fields are \<^verbatim>\<open>UINT16\<close>; the subtractions under \<^verbatim>\<open>%\<close> are done in \<^verbatim>\<open>int\<close> (or, where a
  \<^verbatim>\<open>1U\<close> takes part, in \<^verbatim>\<open>unsigned int\<close>), and sizes are truncated to 16 bits, as in the code.
  A modulo by a zero length and an access outside an array are \<open>None\<close>. The lemmas show that
  the queue is a first-in first-out queue of frames, and where the 16-bit arithmetic ends it.
\<close>

section \<open>Data\<close>

definition DATA_QUEUE_MAGICNO :: u16 where
  "DATA_QUEUE_MAGICNO = 0x0AA0"

datatype DATA_QUEUE_RET_CODE =
    DATA_QUEUE_RET_SUCCESS | DATA_QUEUE_RET_INVALIDPARAM | DATA_QUEUE_RET_INVALIDDATA
  | DATA_QUEUE_RET_UNDERFLOW | DATA_QUEUE_RET_OVERFLOW | DATA_QUEUE_RET_UNKNOWN

record DATA_ELEMENT_HEADER =
  magic_no :: u16
  element_type :: u8
  param :: u8
  element_len :: u16

record DATA_QUEUE =
  dq_head :: u16
  dq_tail :: u16
  dq_buf :: "u8 list"
  dq_len :: u16

text \<open>
  The six bytes of a header in memory (little endian, no padding), which the code reaches by
  casting the header to \<^verbatim>\<open>UINT8 *\<close>.
\<close>

definition header_bytes :: "DATA_ELEMENT_HEADER \<Rightarrow> u8 list" where
  "header_bytes hdr = [ucast (magic_no hdr), ucast (drop_bit 8 (magic_no hdr)), element_type hdr,
     param hdr, ucast (element_len hdr), ucast (drop_bit 8 (element_len hdr))]"

definition u16_le :: "u8 \<Rightarrow> u8 \<Rightarrow> u16" where
  "u16_le lo hi = ucast lo OR push_bit 8 (ucast hi)"

definition header_of :: "u8 list \<Rightarrow> DATA_ELEMENT_HEADER" where
  "header_of bs = \<lparr>magic_no = u16_le (bs ! 0) (bs ! 1), element_type = bs ! 2, param = bs ! 3,
     element_len = u16_le (bs ! 4) (bs ! 5)\<rparr>"

section \<open>Arithmetic of the indices\<close>

text \<open>\<^verbatim>\<open>(i + 1) % len\<close> and \<^verbatim>\<open>(a - b + len) % len\<close>, in \<^verbatim>\<open>int\<close>, with C's remainder.\<close>

definition dq_step :: "u16 \<Rightarrow> u16 \<Rightarrow> u16 option" where
  "dq_step len i = (if len = 0 then None else Some (word_of_int ((uint i + 1) smod uint len)))"

definition dq_diff :: "u16 \<Rightarrow> u16 \<Rightarrow> u16 \<Rightarrow> int option" where
  "dq_diff len a b = (if len = 0 then None else Some ((uint a - uint b + uint len) smod uint len))"

text \<open>\<^verbatim>\<open>(head - tail + len - 1U) % len\<close>, in \<^verbatim>\<open>unsigned int\<close>, stored in a \<^verbatim>\<open>UINT16\<close>.\<close>

definition dq_idle :: "DATA_QUEUE \<Rightarrow> u16 option" where
  "dq_idle q = (if dq_len q = 0 then None
     else Some (ucast ((ucast (dq_head q) - ucast (dq_tail q) + ucast (dq_len q) - 1 :: u32)
        mod ucast (dq_len q))))"

text \<open>The loops that copy \<open>n\<close> bytes into the ring, and out of it to the array \<open>dst\<close>.\<close>

definition dq_write_loop :: "u16 \<Rightarrow> nat \<Rightarrow> u8 list \<Rightarrow> u16 \<times> u8 list \<Rightarrow> (u16 \<times> u8 list) option" where
  "dq_write_loop len n src = for_up 0 n (\<lambda>index (tail, buf). do {
     b \<leftarrow> rd src index;
     buf \<leftarrow> wr buf (unat tail) b;
     tail \<leftarrow> dq_step len tail;
     Some (tail, buf) })"

definition dq_read_loop :: "u8 list \<Rightarrow> u16 \<Rightarrow> nat \<Rightarrow> u16 \<times> u8 list \<Rightarrow> (u16 \<times> u8 list) option" where
  "dq_read_loop buf len n = for_up 0 n (\<lambda>index (head, dst). do {
     b \<leftarrow> rd buf (unat head);
     dst \<leftarrow> wr dst index b;
     head \<leftarrow> dq_step len head;
     Some (head, dst) })"

definition dq_skip_loop :: "u16 \<Rightarrow> nat \<Rightarrow> u16 \<Rightarrow> u16 option" where
  "dq_skip_loop len n = for_up 0 n (\<lambda>_ head. dq_step len head)"

section \<open>Operations\<close>

definition dataqueue_init :: "DATA_QUEUE \<Rightarrow> DATA_QUEUE" where
  "dataqueue_init q = q\<lparr>dq_buf := [], dq_len := 0, dq_head := 0, dq_tail := 0\<rparr>"

definition dataqueue_enqueue :: "DATA_QUEUE \<Rightarrow> DATA_ELEMENT_HEADER \<Rightarrow> u8 list \<Rightarrow>
    (DATA_QUEUE \<times> DATA_QUEUE_RET_CODE) option" where
  "dataqueue_enqueue q hdr body =
     (if magic_no hdr \<noteq> DATA_QUEUE_MAGICNO \<or> element_len hdr = 0 \<or> element_len hdr > dq_len q
      then Some (q, DATA_QUEUE_RET_INVALIDPARAM)
      else do {
        let need_size = 6 + element_len hdr;
        idle_size \<leftarrow> dq_idle q;
        if idle_size < need_size then Some (q, DATA_QUEUE_RET_OVERFLOW)
        else do {
          (tail, buf) \<leftarrow> dq_write_loop (dq_len q) 6 (header_bytes hdr) (dq_tail q, dq_buf q);
          (tail, buf) \<leftarrow> dq_write_loop (dq_len q) (unat (element_len hdr)) body (tail, buf);
          Some (q\<lparr>dq_tail := tail, dq_buf := buf\<rparr>, DATA_QUEUE_RET_SUCCESS)
        }
      })"

definition dataqueue_recover :: "DATA_QUEUE \<Rightarrow> u16 \<Rightarrow> (DATA_QUEUE \<times> DATA_QUEUE_RET_CODE) option" where
  "dataqueue_recover q lenght =
     (if lenght = 0 then Some (q, DATA_QUEUE_RET_INVALIDPARAM)
      else do {
        t \<leftarrow> dq_diff (dq_len q) (dq_tail q) lenght;
        Some (q\<lparr>dq_tail := word_of_int t\<rparr>, DATA_QUEUE_RET_SUCCESS)
      })"

definition dataqueue_dequeue_header :: "DATA_QUEUE \<Rightarrow> DATA_ELEMENT_HEADER \<Rightarrow>
    (DATA_QUEUE \<times> DATA_ELEMENT_HEADER \<times> DATA_QUEUE_RET_CODE) option" where
  "dataqueue_dequeue_header q hdr = do {
     used \<leftarrow> dq_diff (dq_len q) (dq_tail q) (dq_head q);
     let used_size = (word_of_int used :: u16);
     if used_size < 6 then Some (q, hdr, DATA_QUEUE_RET_UNDERFLOW)
     else do {
       (head, bs) \<leftarrow> dq_read_loop (dq_buf q) (dq_len q) 6 (dq_head q, header_bytes hdr);
       Some (q\<lparr>dq_head := head\<rparr>, header_of bs,
         if magic_no (header_of bs) \<noteq> DATA_QUEUE_MAGICNO then DATA_QUEUE_RET_INVALIDDATA
         else DATA_QUEUE_RET_SUCCESS)
     }
   }"

definition dataqueue_get_header :: "DATA_QUEUE \<Rightarrow> DATA_ELEMENT_HEADER \<Rightarrow>
    (DATA_ELEMENT_HEADER \<times> DATA_QUEUE_RET_CODE) option" where
  "dataqueue_get_header q hdr = do {
     let temp_head = dq_head q;
     used \<leftarrow> dq_diff (dq_len q) (dq_tail q) temp_head;
     let used_size = (word_of_int used :: u16);
     if used_size < 6 then Some (hdr, DATA_QUEUE_RET_UNDERFLOW)
     else do {
       (temp_head, bs) \<leftarrow> dq_read_loop (dq_buf q) (dq_len q) 6 (temp_head, header_bytes hdr);
       Some (header_of bs,
         if magic_no (header_of bs) \<noteq> DATA_QUEUE_MAGICNO then DATA_QUEUE_RET_INVALIDDATA
         else DATA_QUEUE_RET_SUCCESS)
     }
   }"

definition dataqueue_dequeue :: "DATA_QUEUE \<Rightarrow> u16 \<Rightarrow> (DATA_QUEUE \<times> DATA_QUEUE_RET_CODE) option" where
  "dataqueue_dequeue q len = do {
     used \<leftarrow> dq_diff (dq_len q) (dq_tail q) (dq_head q);
     if (word_of_int used :: u16) < len then Some (q, DATA_QUEUE_RET_UNDERFLOW)
     else do {
       head \<leftarrow> dq_skip_loop (dq_len q) (unat len) (dq_head q);
       Some (q\<lparr>dq_head := head\<rparr>, DATA_QUEUE_RET_SUCCESS)
     }
   }"

text \<open>\<^verbatim>\<open>used_size\<close> is an \<^verbatim>\<open>INT16\<close> here, compared with a \<^verbatim>\<open>UINT16\<close> in \<^verbatim>\<open>int\<close>.\<close>

definition dataqueue_dequeue_body :: "DATA_QUEUE \<Rightarrow> u16 \<Rightarrow> u8 list \<Rightarrow>
    (DATA_QUEUE \<times> u8 list \<times> DATA_QUEUE_RET_CODE) option" where
  "dataqueue_dequeue_body q lenght body =
     (if lenght = 0 then Some (q, body, DATA_QUEUE_RET_INVALIDPARAM)
      else do {
        used \<leftarrow> dq_diff (dq_len q) (dq_tail q) (dq_head q);
        if sint (word_of_int used :: u16) < uint lenght then Some (q, body, DATA_QUEUE_RET_UNDERFLOW)
        else do {
          (head, body) \<leftarrow> dq_read_loop (dq_buf q) (dq_len q) (unat lenght) (dq_head q, body);
          Some (q\<lparr>dq_head := head\<rparr>, body, DATA_QUEUE_RET_SUCCESS)
        }
      })"

definition dataqueue_get_data :: "DATA_QUEUE \<Rightarrow> u16 \<Rightarrow> u8 list \<Rightarrow>
    (u8 list \<times> DATA_QUEUE_RET_CODE) option" where
  "dataqueue_get_data q lenght body =
     (if lenght = 0 then Some (body, DATA_QUEUE_RET_INVALIDPARAM)
      else do {
        used \<leftarrow> dq_diff (dq_len q) (dq_tail q) (dq_head q);
        if (word_of_int used :: u16) < 6 then Some (body, DATA_QUEUE_RET_UNDERFLOW)
        else do {
          temp_head \<leftarrow> dq_skip_loop (dq_len q) 6 (dq_head q);
          used \<leftarrow> dq_diff (dq_len q) (dq_tail q) temp_head;
          if (word_of_int used :: u16) < lenght then Some (body, DATA_QUEUE_RET_UNDERFLOW)
          else do {
            (temp_head, body) \<leftarrow> dq_read_loop (dq_buf q) (dq_len q) (unat lenght) (temp_head, body);
            Some (body, DATA_QUEUE_RET_SUCCESS)
          }
        }
      })"

definition dataqueue_can_put_data :: "DATA_QUEUE \<Rightarrow> u16 \<Rightarrow> u8 \<Rightarrow> bool option" where
  "dataqueue_can_put_data q lenght slice_num = do {
     let need_size = (ucast (ucast slice_num * 6 + ucast lenght :: u32) :: u16);
     idle_size \<leftarrow> dq_idle q;
     Some (\<not> idle_size < need_size)
   }"

section \<open>Contents and invariant\<close>

definition dq_inv :: "DATA_QUEUE \<Rightarrow> bool" where
  "dq_inv q \<longleftrightarrow> dq_head q < dq_len q \<and> dq_tail q < dq_len q \<and> unat (dq_len q) \<le> length (dq_buf q)"

definition dq_used :: "DATA_QUEUE \<Rightarrow> nat" where
  "dq_used q = (unat (dq_tail q) + unat (dq_len q) - unat (dq_head q)) mod unat (dq_len q)"

definition dq_contents :: "DATA_QUEUE \<Rightarrow> u8 list" where
  "dq_contents q = ring_read (dq_buf q) (unat (dq_len q)) (unat (dq_head q)) (dq_used q)"

lemma dq_inv_facts:
  assumes "dq_inv q"
  shows "unat (dq_head q) < unat (dq_len q)" "unat (dq_tail q) < unat (dq_len q)"
    "unat (dq_len q) \<le> length (dq_buf q)" "dq_used q < unat (dq_len q)" "dq_len q \<noteq> 0"
    "(unat (dq_head q) + dq_used q) mod unat (dq_len q) = unat (dq_tail q)"
proof -
  show h: "unat (dq_head q) < unat (dq_len q)" and t: "unat (dq_tail q) < unat (dq_len q)"
    and "unat (dq_len q) \<le> length (dq_buf q)"
    using assms by (simp_all add: dq_inv_def word_less_nat_alt)
  then show "dq_used q < unat (dq_len q)" "dq_len q \<noteq> 0"
    by (auto simp: dq_used_def)
  have "(unat (dq_head q) + dq_used q) mod unat (dq_len q) =
      (unat (dq_head q) + (unat (dq_tail q) + unat (dq_len q) - unat (dq_head q))) mod unat (dq_len q)"
    by (simp add: dq_used_def mod_add_right_eq)
  with h t show "(unat (dq_head q) + dq_used q) mod unat (dq_len q) = unat (dq_tail q)"
    by simp
qed

lemma length_dq_contents [simp]: "length (dq_contents q) = dq_used q"
  by (simp add: dq_contents_def)

text \<open>The number of bytes in use determines the tail.\<close>

lemma dq_used_unique:
  assumes "(unat (dq_head q) + k) mod unat (dq_len q) = unat (dq_tail q)" and "k < unat (dq_len q)"
    and "unat (dq_head q) < unat (dq_len q)"
  shows "dq_used q = k"
proof -
  have "dq_used q = ((unat (dq_head q) + k) mod unat (dq_len q) + (unat (dq_len q) - unat (dq_head q)))
      mod unat (dq_len q)"
    using assms by (simp add: dq_used_def)
  also have "\<dots> = (unat (dq_head q) + k + (unat (dq_len q) - unat (dq_head q))) mod unat (dq_len q)"
    by (rule mod_add_left_eq)
  also have "\<dots> = (k + unat (dq_len q)) mod unat (dq_len q)"
    using assms(3) by (simp add: algebra_simps)
  finally show ?thesis using assms(2) by simp
qed

section \<open>The arithmetic on well-formed indices\<close>

lemma smod_nonneg: "0 \<le> a \<Longrightarrow> 0 \<le> b \<Longrightarrow> a smod b = a mod (b :: int)"
  by (simp add: smod_int_alt_def sgn_if)

lemma dq_step_ok:
  assumes "len \<noteq> 0"
  shows "\<exists>s. dq_step len i = Some s \<and> unat s = (unat i + 1) mod unat len"
proof -
  have pos: "0 < unat len" using assms by (simp add: unat_gt_0)
  have "(uint i + 1) smod uint len = int ((unat i + 1) mod unat len)"
    by (simp add: smod_nonneg zmod_int add.commute)
  then have "dq_step len i = Some (of_nat ((unat i + 1) mod unat len))"
    using assms by (simp add: dq_step_def)
  moreover have "(unat i + 1) mod unat len < 65536"
    using mod_less_divisor [OF pos, of "unat i + 1"] unat_u16_lt [of len] by simp
  ultimately show ?thesis by (simp add: unat_of_nat)
qed

lemma dq_diff_ok:
  assumes "len \<noteq> 0" and "unat b \<le> unat a + unat len"
  shows "dq_diff len a b = Some (int ((unat a + unat len - unat b) mod unat len))"
proof -
  have "uint a - uint b + uint len = int (unat a + unat len - unat b)"
    using assms(2) by (simp add: of_nat_diff)
  then show ?thesis
    using assms(1) by (simp add: dq_diff_def smod_nonneg zmod_int)
qed

lemma dq_used_diff:
  assumes "dq_inv q"
  shows "dq_diff (dq_len q) (dq_tail q) (dq_head q) = Some (int (dq_used q))"
    and "unat (word_of_int (int (dq_used q)) :: u16) = dq_used q"
proof -
  note f = dq_inv_facts [OF assms]
  show "dq_diff (dq_len q) (dq_tail q) (dq_head q) = Some (int (dq_used q))"
    using dq_diff_ok [OF f(5), of "dq_head q" "dq_tail q"] f(1) by (simp add: dq_used_def)
  have "dq_used q < 65536" using f(4) unat_u16_lt [of "dq_len q"] by linarith
  then show "unat (word_of_int (int (dq_used q)) :: u16) = dq_used q"
    by (simp add: unat_of_nat)
qed

text \<open>One byte of the ring always stays free.\<close>

lemma dq_idle_ok:
  assumes "dq_inv q"
  shows "\<exists>w. dq_idle q = Some w \<and> unat w = unat (dq_len q) - 1 - dq_used q"
proof -
  note f = dq_inv_facts [OF assms]
  let ?h = "unat (dq_head q)" and ?t = "unat (dq_tail q)" and ?n = "unat (dq_len q)"
  let ?x = "ucast (dq_head q) - ucast (dq_tail q) + ucast (dq_len q) - 1 :: u32"
  have "?x = word_of_int (int (?h + ?n - 1 - ?t))"
  proof -
    have "uint (dq_head q) - uint (dq_tail q) + uint (dq_len q) - 1 = int (?h + ?n - 1 - ?t)"
      using f(1,2) by (simp add: of_nat_diff)
    moreover have "?x = word_of_int (uint (dq_head q) - uint (dq_tail q) + uint (dq_len q) - 1)"
      by (simp only: word_of_int_uint ucast_eq wi_hom_syms word_1_wi)
    ultimately show ?thesis by (simp only:)
  qed
  moreover have "word_of_int (int m) = (of_nat m :: u32)" for m by simp
  ultimately have "?x = of_nat (?h + ?n - 1 - ?t)" by (simp only:)
  moreover have "?h + ?n - 1 - ?t < 2 ^ 32"
    using f(1) unat_u16_lt [of "dq_len q"] by simp
  ultimately have x: "unat ?x = ?h + ?n - 1 - ?t"
    by (simp only: unat_of_nat) (simp add: take_bit_nat_eq_self)
  have "unat (?x mod ucast (dq_len q) :: u32) = (?h + ?n - 1 - ?t) mod ?n"
    by (simp add: unat_mod x)
  moreover have "(?h + ?n - 1 - ?t) mod ?n = ?n - 1 - dq_used q"
  proof (cases "?t < ?h")
    case True
    then have "dq_used q = ?t + ?n - ?h" using f(1,2) by (simp add: dq_used_def)
    moreover have "?h + ?n - 1 - ?t = (?h - 1 - ?t) + ?n" using True by simp
    then have "(?h + ?n - 1 - ?t) mod ?n = (?h - 1 - ?t) mod ?n" by (simp only: mod_add_self2)
    moreover have "(?h - 1 - ?t) mod ?n = ?h - 1 - ?t" using f(1) by (intro mod_less) simp
    ultimately show ?thesis using f(1,2) True by linarith
  next
    case False
    then have "dq_used q = ?t - ?h" using f(1,2) by (simp add: dq_used_def le_mod_geq)
    then show ?thesis using f(1,2) False by simp
  qed
  moreover have "?n - 1 - dq_used q < 65536" using unat_u16_lt [of "dq_len q"] by simp
  ultimately have "unat (ucast (?x mod ucast (dq_len q) :: u32) :: u16) = ?n - 1 - dq_used q"
    by (simp add: unsigned_ucast_eq take_bit_nat_eq_self)
  then show ?thesis using f(5) by (simp add: dq_idle_def)
qed

section \<open>The loops\<close>

lemma blit_snoc:
  "length xs < length dst \<Longrightarrow> (blit dst 0 xs)[length xs := v] = blit dst 0 (xs @ [v])"
  by (rule nth_equalityI) (auto simp: nth_blit nth_list_update nth_append)

lemma dq_read_loop_ok:
  assumes h: "unat h < unat len" and buf: "unat len \<le> length buf" and n: "n \<le> length dst"
  shows "\<exists>h'. dq_read_loop buf len n (h, dst) =
      Some (h', blit dst 0 (ring_read buf (unat len) (unat h) n)) \<and>
      unat h' = (unat h + n) mod unat len"
proof -
  define I where "I j = (\<lambda>(h' :: u16, d). unat h' = (unat h + j) mod unat len \<and>
      d = blit dst 0 (ring_read buf (unat len) (unat h) j))" for j
  have "\<exists>s'. dq_read_loop buf len n (h, dst) = Some s' \<and> I (0 + n) s'"
    unfolding dq_read_loop_def
  proof (rule for_up_inv)
    show "I 0 (h, dst)" using h by (simp add: I_def)
    fix j t
    assume j: "j < 0 + n" and I: "I j t"
    obtain hj d where t: "t = (hj, d)" by (cases t)
    have hj: "unat hj = (unat h + j) mod unat len"
      and d: "d = blit dst 0 (ring_read buf (unat len) (unat h) j)"
      using I by (simp_all add: I_def t)
    have ln: "unat hj < length buf"
      unfolding hj by (rule less_le_trans [OF mod_less_divisor buf]) (use h in simp)
    have ld: "length d = length dst" using j n by (simp add: d)
    have "len \<noteq> 0" using h by auto
    from dq_step_ok [OF this, of hj] obtain h1
      where h1: "dq_step len hj = Some h1" "unat h1 = (unat hj + 1) mod unat len" by auto
    have "d[j := buf ! unat hj] = blit dst 0 (ring_read buf (unat len) (unat h) (Suc j))"
      using blit_snoc [of "ring_read buf (unat len) (unat h) j" dst "buf ! unat hj"] j n
      by (simp add: d ring_read_Suc hj)
    moreover have "unat h1 = (unat h + Suc j) mod unat len"
      by (simp add: h1(2) hj mod_Suc_eq)
    ultimately show "\<exists>t'. (case t of (head, dst) \<Rightarrow> rd buf (unat head) \<bind> (\<lambda>b. wr dst j b \<bind>
        (\<lambda>dst. dq_step len head \<bind> (\<lambda>head. Some (head, dst))))) = Some t' \<and> I (Suc j) t'"
      using ln ld j n h1(1) by (simp add: t I_def)
  qed
  then show ?thesis by (auto simp: I_def)
qed

lemma dq_write_loop_ok:
  assumes "s < unat len" and buf: "unat len \<le> length buf" and fit: "k + n \<le> unat len"
    and t: "unat t = (s + k) mod unat len" and src: "n \<le> length src"
  shows "\<exists>t' buf'. dq_write_loop len n src (t, buf) = Some (t', buf') \<and>
      unat t' = (s + k + n) mod unat len \<and> length buf' = length buf \<and>
      ring_read buf' (unat len) s (k + n) = ring_read buf (unat len) s k @ take n src"
proof -
  define I where "I j = (\<lambda>(t' :: u16, b). unat t' = (s + k + j) mod unat len \<and> length b = length buf \<and>
      ring_read b (unat len) s (k + j) = ring_read buf (unat len) s k @ take j src)" for j
  have "\<exists>s'. dq_write_loop len n src (t, buf) = Some s' \<and> I (0 + n) s'"
    unfolding dq_write_loop_def
  proof (rule for_up_inv)
    show "I 0 (t, buf)" using t by (simp add: I_def)
    fix j u
    assume j: "j < 0 + n" and I: "I j u"
    obtain tj b where u: "u = (tj, b)" by (cases u)
    have tj: "unat tj = (s + k + j) mod unat len" and lb: "length b = length buf"
      and rb: "ring_read b (unat len) s (k + j) = ring_read buf (unat len) s k @ take j src"
      using I by (simp_all add: I_def u)
    have ne: "len \<noteq> 0" using assms(1) by auto
    then have ln: "unat tj < length b"
      unfolding tj lb using buf by (metis less_le_trans mod_less_divisor unat_gt_0)
    from dq_step_ok [OF ne, of tj] obtain t1
      where t1: "dq_step len tj = Some t1" "unat t1 = (unat tj + 1) mod unat len" by auto
    have "ring_read (b[unat tj := src ! j]) (unat len) s (k + Suc j) =
        ring_read buf (unat len) s k @ take (Suc j) src"
      using ring_read_put [of "k + j" "unat len" b s "src ! j"] j fit buf lb rb src
      by (simp add: tj add.assoc take_Suc_conv_app_nth)
    moreover have "unat t1 = (s + k + Suc j) mod unat len"
      by (simp add: t1(2) tj mod_Suc_eq)
    ultimately show "\<exists>u'. (case u of (tail, buf) \<Rightarrow> rd src j \<bind> (\<lambda>b. wr buf (unat tail) b \<bind>
        (\<lambda>buf. dq_step len tail \<bind> (\<lambda>tail. Some (tail, buf))))) = Some u' \<and> I (Suc j) u'"
      using ln j src t1(1) lb by (simp add: u I_def)
  qed
  then show ?thesis by (auto simp: I_def)
qed

lemma dq_skip_loop_ok:
  assumes "len \<noteq> 0" and "unat h < unat len"
  shows "\<exists>h'. dq_skip_loop len n h = Some h' \<and> unat h' = (unat h + n) mod unat len"
proof -
  have "\<exists>s'. dq_skip_loop len n h = Some s' \<and> unat s' = (unat h + (0 + n)) mod unat len"
    unfolding dq_skip_loop_def
  proof (rule for_up_inv)
    show "unat h = (unat h + 0) mod unat len" using assms(2) by simp
    fix j and t :: u16
    assume "unat t = (unat h + j) mod unat len"
    then show "\<exists>t'. dq_step len t = Some t' \<and> unat t' = (unat h + Suc j) mod unat len"
      using dq_step_ok [OF assms(1), of t] by (auto simp: mod_Suc_eq)
  qed
  then show ?thesis by simp
qed

section \<open>What the operations do\<close>

lemma length_header_bytes [simp]: "length (header_bytes hdr) = 6"
  by (simp add: header_bytes_def)

definition enqueue_refused :: "DATA_QUEUE \<Rightarrow> DATA_ELEMENT_HEADER \<Rightarrow> bool" where
  "enqueue_refused q hdr \<longleftrightarrow> magic_no hdr \<noteq> DATA_QUEUE_MAGICNO \<or> element_len hdr = 0 \<or>
     unat (element_len hdr) > unat (dq_len q)"

lemma dataqueue_enqueue_ok:
  assumes inv: "dq_inv q" and body: "unat (element_len hdr) \<le> length body"
    and small: "unat (element_len hdr) + 6 < 2 ^ 16"
  shows "\<exists>q' r. dataqueue_enqueue q hdr body = Some (q', r) \<and> dq_inv q' \<and> dq_len q' = dq_len q \<and>
     (if enqueue_refused q hdr then r = DATA_QUEUE_RET_INVALIDPARAM \<and> q' = q
      else if unat (dq_len q) - 1 - dq_used q < 6 + unat (element_len hdr)
      then r = DATA_QUEUE_RET_OVERFLOW \<and> q' = q
      else r = DATA_QUEUE_RET_SUCCESS \<and>
        dq_contents q' = dq_contents q @ header_bytes hdr @ take (unat (element_len hdr)) body)"
proof -
  note f = dq_inv_facts [OF inv]
  let ?n = "unat (dq_len q)" and ?el = "unat (element_len hdr)" and ?h = "unat (dq_head q)"
  obtain w where w: "dq_idle q = Some w" "unat w = ?n - 1 - dq_used q"
    using dq_idle_ok [OF inv] by blast
  have need: "unat (6 + element_len hdr) = 6 + ?el"
    using unat_plus_if_fits [of 6 "element_len hdr"] small by simp
  show ?thesis
  proof (cases "enqueue_refused q hdr \<or> ?n - 1 - dq_used q < 6 + ?el")
    case True
    then show ?thesis
      using inv w need
      by (auto simp: dataqueue_enqueue_def enqueue_refused_def word_less_nat_alt)
  next
    case False
    then have "6 + ?el \<le> ?n - 1 - dq_used q" by (simp add: not_less)
    then have fit: "dq_used q + (6 + ?el) < ?n" by linarith
    obtain t1 b1 where w1: "dq_write_loop (dq_len q) 6 (header_bytes hdr) (dq_tail q, dq_buf q) = Some (t1, b1)"
        "unat t1 = (?h + dq_used q + 6) mod ?n" "length b1 = length (dq_buf q)"
        "ring_read b1 ?n ?h (dq_used q + 6) = dq_contents q @ header_bytes hdr"
      using dq_write_loop_ok [of ?h "dq_len q" "dq_buf q" "dq_used q" 6 "dq_tail q" "header_bytes hdr"]
        f fit by (auto simp: dq_contents_def)
    have fits: "dq_used q + 6 + ?el \<le> ?n" using fit by simp
    obtain t2 b2 where w2: "dq_write_loop (dq_len q) ?el body (t1, b1) = Some (t2, b2)"
        "unat t2 = (?h + (dq_used q + 6) + ?el) mod ?n" "length b2 = length b1"
        "ring_read b2 ?n ?h (dq_used q + 6 + ?el) = (dq_contents q @ header_bytes hdr) @ take ?el body"
      using dq_write_loop_ok [of ?h "dq_len q" b1 "dq_used q + 6" ?el t1 body]
        f(1,3) fits w1 body by (auto simp: add.assoc)
    let ?q = "q\<lparr>dq_tail := t2, dq_buf := b2\<rparr>"
    have "dataqueue_enqueue q hdr body = Some (?q, DATA_QUEUE_RET_SUCCESS)"
      using False w need w1(1) w2(1)
      by (simp add: dataqueue_enqueue_def enqueue_refused_def word_less_nat_alt not_less Let_def)
    moreover have "dq_inv ?q"
      using inv w1(3) w2(2,3) f(1) by (simp add: dq_inv_def word_less_nat_alt)
    moreover have "dq_used ?q = dq_used q + 6 + ?el"
      by (rule dq_used_unique) (use w2(2) f(1) fit in \<open>simp_all add: add.assoc\<close>)
    then have "dq_contents ?q = dq_contents q @ header_bytes hdr @ take ?el body"
      using w2(4) by (simp add: dq_contents_def)
    ultimately show ?thesis using False by (auto simp: not_less)
  qed
qed

text \<open>Reading \<open>n\<close> bytes: the head advances and the contents lose their first \<open>n\<close> bytes.\<close>

lemma dq_advance:
  assumes inv: "dq_inv q" and n: "n \<le> dq_used q"
    and h: "unat h = (unat (dq_head q) + n) mod unat (dq_len q)"
  shows "dq_inv (q\<lparr>dq_head := h\<rparr>)" "dq_used (q\<lparr>dq_head := h\<rparr>) = dq_used q - n"
    "dq_contents (q\<lparr>dq_head := h\<rparr>) = drop n (dq_contents q)"
proof -
  note f = dq_inv_facts [OF inv]
  let ?n = "unat (dq_len q)"
  show i: "dq_inv (q\<lparr>dq_head := h\<rparr>)"
    using inv f(1) by (simp add: dq_inv_def word_less_nat_alt h)
  have "(unat h + (dq_used q - n)) mod ?n = (unat (dq_head q) + n + (dq_used q - n)) mod ?n"
    by (simp add: h mod_add_left_eq)
  then have "(unat h + (dq_used q - n)) mod ?n = unat (dq_tail q)"
    using n f(6) by simp
  then show u: "dq_used (q\<lparr>dq_head := h\<rparr>) = dq_used q - n"
    by (intro dq_used_unique) (use f(4) dq_inv_facts(1) [OF i] in auto)
  have "ring_read (dq_buf q) ?n (unat h) k = ring_read (dq_buf q) ?n (unat (dq_head q) + n) k" for k
    by (rule ring_read_cong_mod) (simp add: h)
  then show "dq_contents (q\<lparr>dq_head := h\<rparr>) = drop n (dq_contents q)"
    using n u by (simp add: dq_contents_def drop_ring_read)
qed

lemma take_dq_contents:
  "n \<le> dq_used q \<Longrightarrow>
   take n (dq_contents q) = ring_read (dq_buf q) (unat (dq_len q)) (unat (dq_head q)) n"
  by (simp add: dq_contents_def take_ring_read min_def)

lemma dq_read_ok:
  assumes inv: "dq_inv q" and n: "n \<le> dq_used q" "n \<le> length dst"
  shows "\<exists>h. dq_read_loop (dq_buf q) (dq_len q) n (dq_head q, dst) =
      Some (h, blit dst 0 (take n (dq_contents q))) \<and>
      dq_inv (q\<lparr>dq_head := h\<rparr>) \<and> dq_contents (q\<lparr>dq_head := h\<rparr>) = drop n (dq_contents q)"
proof -
  note f = dq_inv_facts [OF inv]
  obtain h where h: "dq_read_loop (dq_buf q) (dq_len q) n (dq_head q, dst) =
      Some (h, blit dst 0 (ring_read (dq_buf q) (unat (dq_len q)) (unat (dq_head q)) n))"
      "unat h = (unat (dq_head q) + n) mod unat (dq_len q)"
    using dq_read_loop_ok [OF f(1,3) n(2)] by blast
  then show ?thesis
    using dq_advance [OF inv n(1) h(2)] take_dq_contents [OF n(1)] by auto
qed

lemma dq_skip_ok:
  assumes inv: "dq_inv q" and n: "n \<le> dq_used q"
  shows "\<exists>h. dq_skip_loop (dq_len q) n (dq_head q) = Some h \<and>
      dq_inv (q\<lparr>dq_head := h\<rparr>) \<and> dq_contents (q\<lparr>dq_head := h\<rparr>) = drop n (dq_contents q) \<and>
      dq_used (q\<lparr>dq_head := h\<rparr>) = dq_used q - n"
  using dq_skip_loop_ok [OF dq_inv_facts(5) [OF inv] dq_inv_facts(1) [OF inv], of n] dq_advance [OF inv n] by blast

text \<open>The result of looking at the header: what both header operations return.\<close>

definition header_result :: "DATA_QUEUE \<Rightarrow> DATA_ELEMENT_HEADER \<times> DATA_QUEUE_RET_CODE" where
  "header_result q = (let hdr = header_of (take 6 (dq_contents q)) in
     (hdr, if magic_no hdr \<noteq> DATA_QUEUE_MAGICNO then DATA_QUEUE_RET_INVALIDDATA
           else DATA_QUEUE_RET_SUCCESS))"

lemma dataqueue_header_underflow:
  assumes "dq_inv q" and "dq_used q < 6"
  shows "dataqueue_dequeue_header q hdr = Some (q, hdr, DATA_QUEUE_RET_UNDERFLOW)"
    and "dataqueue_get_header q hdr = Some (hdr, DATA_QUEUE_RET_UNDERFLOW)"
  using assms dq_used_diff [OF assms(1)]
  by (simp_all add: dataqueue_dequeue_header_def dataqueue_get_header_def word_less_nat_alt Let_def)

lemma dataqueue_header_ok:
  assumes inv: "dq_inv q" and n: "6 \<le> dq_used q"
  shows "\<exists>q'. dataqueue_dequeue_header q hdr = Some (q', header_result q) \<and>
      dataqueue_get_header q hdr = Some (header_result q) \<and>
      dq_inv q' \<and> dq_len q' = dq_len q \<and> dq_contents q' = drop 6 (dq_contents q)"
proof -
  have "6 \<le> length (header_bytes hdr)" by simp
  from dq_read_ok [OF inv n this] obtain h where
    h: "dq_read_loop (dq_buf q) (dq_len q) 6 (dq_head q, header_bytes hdr) =
      Some (h, take 6 (dq_contents q))"
      "dq_inv (q\<lparr>dq_head := h\<rparr>)" "dq_contents (q\<lparr>dq_head := h\<rparr>) = drop 6 (dq_contents q)"
    using n by (auto simp: blit_all)
  have u: "\<not> (word_of_int (int (dq_used q)) :: u16) < 6"
    using n dq_used_diff(2) [OF inv] by (simp add: word_less_nat_alt)
  show ?thesis
    by (rule exI [of _ "q\<lparr>dq_head := h\<rparr>"])
      (use h u dq_used_diff(1) [OF inv] in
        \<open>simp add: dataqueue_dequeue_header_def dataqueue_get_header_def header_result_def Let_def\<close>)
qed

lemma dataqueue_dequeue_ok:
  assumes inv: "dq_inv q"
  shows "dq_used q < unat n \<Longrightarrow> dataqueue_dequeue q n = Some (q, DATA_QUEUE_RET_UNDERFLOW)"
    and "unat n \<le> dq_used q \<Longrightarrow> \<exists>q'. dataqueue_dequeue q n = Some (q', DATA_QUEUE_RET_SUCCESS) \<and>
      dq_inv q' \<and> dq_len q' = dq_len q \<and> dq_contents q' = drop (unat n) (dq_contents q)"
  using dq_used_diff [OF inv] dq_skip_ok [OF inv, of "unat n"]
  by (auto simp: dataqueue_dequeue_def word_less_nat_alt)

lemma dataqueue_get_data_ok:
  assumes inv: "dq_inv q" and n: "n \<noteq> 0" "6 + unat n \<le> dq_used q" and dst: "unat n \<le> length dst"
  shows "dataqueue_get_data q n dst =
     Some (blit dst 0 (take (unat n) (drop 6 (dq_contents q))), DATA_QUEUE_RET_SUCCESS)"
proof -
  obtain h where h: "dq_skip_loop (dq_len q) 6 (dq_head q) = Some h" "dq_inv (q\<lparr>dq_head := h\<rparr>)"
      "dq_contents (q\<lparr>dq_head := h\<rparr>) = drop 6 (dq_contents q)"
      "dq_used (q\<lparr>dq_head := h\<rparr>) = dq_used q - 6"
    using dq_skip_ok [OF inv, of 6] n by auto
  have "unat n \<le> dq_used (q\<lparr>dq_head := h\<rparr>)" using n h(4) by simp
  from dq_read_ok [OF h(2) this dst] obtain h2 where
    "dq_read_loop (dq_buf q) (dq_len q) (unat n) (h, dst) =
      Some (h2, blit dst 0 (take (unat n) (drop 6 (dq_contents q))))"
    using h(3) by auto
  moreover have "\<not> (word_of_int (int (dq_used q)) :: u16) < 6"
    using n dq_used_diff(2) [OF inv] by (simp add: word_less_nat_alt)
  moreover have "\<not> (word_of_int (int (dq_used q - 6)) :: u16) < n"
    using n dq_used_diff(2) [OF h(2)] h(4) by (simp add: word_less_nat_alt)
  ultimately show ?thesis
    using n(1) h(1) dq_used_diff(1) [OF inv] dq_used_diff(1) [OF h(2)] h(4)
    by (simp add: dataqueue_get_data_def)
qed

lemma shift_mod_half:
  assumes "u < 65536"
  shows "(int u + 32768) mod 65536 = (if u < 32768 then int u + 32768 else int u - 32768)"
proof (cases "u < 32768")
  case False
  have "(int u + 32768) mod 65536 = (int u - 32768 + 65536) mod 65536" by (simp add: add.commute)
  also have "\<dots> = (int u - 32768) mod 65536" by (rule mod_add_self2)
  also have "\<dots> = int u - 32768" using False assms by (intro mod_pos_pos_trivial) simp_all
  finally show ?thesis using False by simp
qed simp

lemma sint_u16: "sint (w :: u16) = (if unat w < 32768 then int (unat w) else int (unat w) - 65536)"
proof -
  have "sint w = signed_take_bit 15 (uint w)" by (simp add: sint_uint)
  also have "\<dots> = (int (unat w) + 32768) mod 65536 - 32768"
    by (simp add: signed_take_bit_eq_take_bit_shift take_bit_eq_mod)
  finally show ?thesis
    using shift_mod_half [OF unat_u16_lt] by (simp only:) simp
qed

lemma int_less_uint: "int k < uint w \<longleftrightarrow> k < unat w"
  by (metis uint_nat of_nat_less_iff)

lemma dataqueue_dequeue_body_ok:
  assumes inv: "dq_inv q" and n: "n \<noteq> 0" and dst: "unat n \<le> length dst" and half: "dq_used q < 2 ^ 15"
  shows "dq_used q < unat n \<Longrightarrow> dataqueue_dequeue_body q n dst = Some (q, dst, DATA_QUEUE_RET_UNDERFLOW)"
    and "unat n \<le> dq_used q \<Longrightarrow> \<exists>q'. dataqueue_dequeue_body q n dst =
        Some (q', blit dst 0 (take (unat n) (dq_contents q)), DATA_QUEUE_RET_SUCCESS) \<and>
      dq_inv q' \<and> dq_len q' = dq_len q \<and> dq_contents q' = drop (unat n) (dq_contents q)"
proof -
  have s: "sint (word_of_int (int (dq_used q)) :: u16) = int (dq_used q)"
    using sint_u16 dq_used_diff(2) [OF inv] half by simp
  show "dq_used q < unat n \<Longrightarrow> dataqueue_dequeue_body q n dst = Some (q, dst, DATA_QUEUE_RET_UNDERFLOW)"
    using n s dq_used_diff(1) [OF inv]
    by (simp add: dataqueue_dequeue_body_def int_less_uint)
  assume u: "unat n \<le> dq_used q"
  show "\<exists>q'. dataqueue_dequeue_body q n dst =
        Some (q', blit dst 0 (take (unat n) (dq_contents q)), DATA_QUEUE_RET_SUCCESS) \<and>
      dq_inv q' \<and> dq_len q' = dq_len q \<and> dq_contents q' = drop (unat n) (dq_contents q)"
    using n s u dq_used_diff(1) [OF inv] dq_read_ok [OF inv u dst]
    by (auto simp: dataqueue_dequeue_body_def int_less_uint)
qed

text \<open>With half of the 16-bit range in use, the signed size is negative and nothing is read.\<close>

lemma dataqueue_dequeue_body_half:
  assumes inv: "dq_inv q" and n: "n \<noteq> 0" and half: "2 ^ 15 \<le> dq_used q"
  shows "dataqueue_dequeue_body q n dst = Some (q, dst, DATA_QUEUE_RET_UNDERFLOW)"
proof -
  have "dq_used q < 65536" using dq_inv_facts(4) [OF inv] unat_u16_lt [of "dq_len q"] by simp
  then have "sint (word_of_int (int (dq_used q)) :: u16) < 0"
    using sint_u16 dq_used_diff(2) [OF inv] half by simp
  then have "sint (word_of_int (int (dq_used q)) :: u16) < uint n"
    using uint_ge_0 [of n] by (rule less_le_trans)
  then show ?thesis
    using n dq_used_diff(1) [OF inv] by (simp add: dataqueue_dequeue_body_def)
qed

text \<open>\<^verbatim>\<open>dataqueue_recover\<close> takes back the last bytes.\<close>

lemma dataqueue_recover_ok:
  assumes inv: "dq_inv q" and n: "n \<noteq> 0" "unat n \<le> dq_used q"
  shows "\<exists>q'. dataqueue_recover q n = Some (q', DATA_QUEUE_RET_SUCCESS) \<and> dq_inv q' \<and>
     dq_len q' = dq_len q \<and> dq_contents q' = take (dq_used q - unat n) (dq_contents q)"
proof -
  note f = dq_inv_facts [OF inv]
  let ?n = "unat (dq_len q)"
  let ?t = "(unat (dq_tail q) + ?n - unat n) mod ?n"
  have d: "dq_diff (dq_len q) (dq_tail q) n = Some (int ?t)"
    by (rule dq_diff_ok) (use f(4,5) n in auto)
  have pos: "0 < ?n" using f(1) by simp
  have "?t < 65536" using mod_less_divisor [OF pos] unat_u16_lt [of "dq_len q"] by (meson less_trans)
  then have t: "unat (of_nat ?t :: u16) = ?t" by (simp add: unat_of_nat)
  let ?q = "q\<lparr>dq_tail := of_nat ?t\<rparr>"
  have i: "dq_inv ?q"
    using inv pos mod_less_divisor [OF pos] by (simp add: dq_inv_def word_less_nat_alt t)
  have "?t = ((unat (dq_head q) + dq_used q) mod ?n + (?n - unat n)) mod ?n"
    using f(4) n(2) by (simp add: f(6))
  also have "\<dots> = (unat (dq_head q) + dq_used q + (?n - unat n)) mod ?n"
    by (rule mod_add_left_eq)
  also have "unat (dq_head q) + dq_used q + (?n - unat n) = unat (dq_head q) + (dq_used q - unat n) + ?n"
    using f(4) n(2) by simp
  finally have "?t = (unat (dq_head q) + (dq_used q - unat n)) mod ?n"
    by (simp only: mod_add_self2)
  then have "dq_used ?q = dq_used q - unat n"
    by (intro dq_used_unique) (use f(1,4) t in auto)
  then have "dq_contents ?q = take (dq_used q - unat n) (dq_contents q)"
    by (simp add: dq_contents_def take_ring_read min_def)
  then show ?thesis using i n(1) d by (simp add: dataqueue_recover_def)
qed

section \<open>Frames\<close>

lemma u16_le_bytes [simp]: "u16_le (ucast w) (ucast (drop_bit 8 w)) = w"
  unfolding u16_le_def
  by (rule bit_word_eqI) (auto simp: bit_simps dest: bit_imp_le_length)

lemma header_of_bytes [simp]: "header_of (header_bytes hdr @ bs) = hdr"
  by (simp add: header_of_def header_bytes_def)

type_synonym frame = "DATA_ELEMENT_HEADER \<times> u8 list"

definition frame_bytes :: "frame \<Rightarrow> u8 list" where
  "frame_bytes f = header_bytes (fst f) @ snd f"

definition frame_ok :: "frame \<Rightarrow> bool" where
  "frame_ok f \<longleftrightarrow> magic_no (fst f) = DATA_QUEUE_MAGICNO \<and> element_len (fst f) \<noteq> 0 \<and>
     unat (element_len (fst f)) = length (snd f) \<and> length (snd f) + 6 < 2 ^ 16"

definition dq_holds :: "DATA_QUEUE \<Rightarrow> frame list \<Rightarrow> bool" where
  "dq_holds q fs \<longleftrightarrow> dq_inv q \<and> dq_contents q = concat (map frame_bytes fs) \<and> list_all frame_ok fs"

definition dq_room :: "DATA_QUEUE \<Rightarrow> frame \<Rightarrow> bool" where
  "dq_room q f \<longleftrightarrow> length (frame_bytes f) \<le> unat (dq_len q) - 1 - dq_used q"

text \<open>
  The calls of the cellular socket: an element is queued whole, and fetched by looking at its
  header, copying its body and dropping both (\<^verbatim>\<open>4g_socket.c\<close>).
\<close>

definition dq_offer :: "DATA_QUEUE \<Rightarrow> frame \<Rightarrow> (DATA_QUEUE \<times> bool) option" where
  "dq_offer q f = map_option (\<lambda>(q', r). (q', r = DATA_QUEUE_RET_SUCCESS)) (dataqueue_enqueue q (fst f) (snd f))"

definition dq_fetch :: "DATA_ELEMENT_HEADER \<Rightarrow> DATA_QUEUE \<Rightarrow> (DATA_QUEUE \<times> frame option) option" where
  "dq_fetch hdr q = do {
     (hdr, r) \<leftarrow> dataqueue_get_header q hdr;
     if r \<noteq> DATA_QUEUE_RET_SUCCESS then Some (q, None)
     else do {
       (body, r) \<leftarrow> dataqueue_get_data q (element_len hdr) (replicate (unat (element_len hdr)) 0);
       (q, r) \<leftarrow> dataqueue_dequeue q (element_len hdr + 6);
       Some (q, Some (hdr, body))
     }
   }"

lemma length_frame_bytes: "length (frame_bytes f) = 6 + length (snd f)"
  by (simp add: frame_bytes_def)

lemma dq_holds_used: "dq_holds q fs \<Longrightarrow> dq_used q = length (concat (map frame_bytes fs))"
  unfolding dq_holds_def by (metis length_dq_contents)

lemma dq_offer_ok:
  assumes h: "dq_holds q fs" and f: "frame_ok f" and small: "length (snd f) \<le> unat (dq_len q)"
  shows "\<exists>q'. dq_offer q f = Some (q', dq_room q f) \<and>
     dq_holds q' (if dq_room q f then fs @ [f] else fs) \<and> dq_len q' = dq_len q"
proof -
  have inv: "dq_inv q" using h by (simp add: dq_holds_def)
  have el: "unat (element_len (fst f)) = length (snd f)" "unat (element_len (fst f)) + 6 < 2 ^ 16"
    using f by (simp_all add: frame_ok_def)
  have "\<not> enqueue_refused q (fst f)"
    using f small by (simp add: enqueue_refused_def frame_ok_def)
  then show ?thesis
    using dataqueue_enqueue_ok [OF inv _ el(2), of "snd f"] el(1) h f
    by (auto simp: dq_offer_def dq_room_def length_frame_bytes dq_holds_def frame_bytes_def
        split: if_splits)
qed

lemma dq_fetch_Nil:
  assumes "dq_holds q []"
  shows "dq_fetch hdr q = Some (q, None)"
  using dataqueue_header_underflow(2) [of q hdr] dq_holds_used [OF assms] assms
  by (simp add: dq_fetch_def dq_holds_def)

lemma dq_fetch_Cons:
  assumes h: "dq_holds q (f # fs)"
  shows "\<exists>q'. dq_fetch hdr q = Some (q', Some f) \<and> dq_holds q' fs \<and> dq_len q' = dq_len q"
proof -
  obtain fh fb where f: "f = (fh, fb)" by (cases f)
  have inv: "dq_inv q" and c: "dq_contents q = header_bytes fh @ fb @ concat (map frame_bytes fs)"
    and ok: "magic_no fh = DATA_QUEUE_MAGICNO" "element_len fh \<noteq> 0" "unat (element_len fh) = length fb"
      "length fb + 6 < 2 ^ 16" and rest: "list_all frame_ok fs"
    using h by (simp_all add: dq_holds_def f frame_bytes_def frame_ok_def)
  have used: "6 + length fb \<le> dq_used q"
    using dq_holds_used [OF h] by (simp add: f frame_bytes_def)
  have n6: "unat (element_len fh + 6) = 6 + length fb"
    using unat_plus_if_fits [of "element_len fh" 6] ok by simp
  have "dataqueue_get_header q hdr = Some (fh, DATA_QUEUE_RET_SUCCESS)"
    using dataqueue_header_ok [OF inv, of hdr] used ok(1) c
    by (auto simp: header_result_def Let_def header_of_bytes [of _ "[]", simplified])
  moreover have "dataqueue_get_data q (element_len fh) (replicate (unat (element_len fh)) 0) =
      Some (fb, DATA_QUEUE_RET_SUCCESS)"
    using dataqueue_get_data_ok [OF inv ok(2), of "replicate (unat (element_len fh)) 0"] used ok(3) c
    by (simp add: blit_all)
  moreover obtain q' where "dataqueue_dequeue q (element_len fh + 6) = Some (q', DATA_QUEUE_RET_SUCCESS)"
      "dq_inv q'" "dq_len q' = dq_len q" "dq_contents q' = concat (map frame_bytes fs)"
    using dataqueue_dequeue_ok(2) [OF inv, of "element_len fh + 6"] n6 used c by auto
  ultimately show ?thesis
    using rest by (simp add: dq_fetch_def dq_holds_def f)
qed

interpretation dq: element_queue dq_holds
  "\<lambda>q f. frame_ok f \<and> length (snd f) \<le> unat (dq_len q)" "\<lambda>q fs f. dq_room q f" dq_offer "dq_fetch h0"
proof unfold_locales
  fix q fs
  assume h: "dq_holds q fs"
  show "\<exists>q'. dq_fetch h0 q = Some (q', case fs of [] \<Rightarrow> None | x # _ \<Rightarrow> Some x) \<and> dq_holds q' (tl fs) \<and>
      (\<lambda>f. frame_ok f \<and> length (snd f) \<le> unat (dq_len q')) =
      (\<lambda>f. frame_ok f \<and> length (snd f) \<le> unat (dq_len q))"
    using dq_fetch_Nil [of q h0] dq_fetch_Cons [of q "hd fs" "tl fs" h0] h by (cases fs) auto
next
  fix q fs f
  assume "dq_holds q fs" "frame_ok f \<and> length (snd f) \<le> unat (dq_len q)"
  then obtain q' where "dq_offer q f = Some (q', dq_room q f)"
      "dq_holds q' (if dq_room q f then fs @ [f] else fs)" "dq_len q' = dq_len q"
    using dq_offer_ok [of q fs f] by blast
  then show "\<exists>q'. dq_offer q f = Some (q', dq_room q f) \<and>
      dq_holds q' (if dq_room q f then fs @ [f] else fs) \<and>
      (\<lambda>f. frame_ok f \<and> length (snd f) \<le> unat (dq_len q')) =
      (\<lambda>f. frame_ok f \<and> length (snd f) \<le> unat (dq_len q))"
    by (intro exI [of _ q']) simp
qed

section \<open>The sender's slices\<close>

text \<open>
  The end of \<^verbatim>\<open>socket_4g_send\<close> (\<^verbatim>\<open>4g_socket.c\<close>), from the computation of \<^verbatim>\<open>slice_num\<close> on: the data
  is cut into slices of 1024 bytes, each queued as one element. The return code of
  \<^verbatim>\<open>dataqueue_enqueue\<close> is not looked at. \<open>par\<close> is the header field that is never set.
\<close>

definition SOCKET_DATA_SLICE_MAX_LEN :: nat where
  "SOCKET_DATA_SLICE_MAX_LEN = 1024"

definition slice_num :: "u16 \<Rightarrow> u8" where
  "slice_num len = of_nat ((SOCKET_DATA_SLICE_MAX_LEN - 1 + unat len) div SOCKET_DATA_SLICE_MAX_LEN)"

definition slice_header :: "u8 \<Rightarrow> u8 \<Rightarrow> u16 \<Rightarrow> nat \<Rightarrow> DATA_ELEMENT_HEADER" where
  "slice_header par conn_id len i =
     \<lparr>magic_no = DATA_QUEUE_MAGICNO, element_type = conn_id, param = par,
      element_len = of_nat (if of_nat i \<noteq> slice_num len - 1 then SOCKET_DATA_SLICE_MAX_LEN
        else unat len mod SOCKET_DATA_SLICE_MAX_LEN)\<rparr>"

definition socket_4g_queue_slices ::
    "DATA_QUEUE \<Rightarrow> u8 \<Rightarrow> u8 \<Rightarrow> u8 list \<Rightarrow> u16 \<Rightarrow> (DATA_QUEUE \<times> u8) option" where
  "socket_4g_queue_slices q par conn_id data len = do {
     ok \<leftarrow> dataqueue_can_put_data q len (slice_num len);
     if \<not> ok then Some (q, 1)
     else do {
       q \<leftarrow> for_up 0 (unat (slice_num len)) (\<lambda>slice q.
         map_option fst (dataqueue_enqueue q (slice_header par conn_id len slice)
           (drop (slice * SOCKET_DATA_SLICE_MAX_LEN) data))) q;
       Some (q, 0)
     }
   }"

lemma unat_slice_num: "unat (slice_num len) = (1023 + unat len) div 1024"
proof -
  have "(1023 + unat len) div 1024 < 256" using unat_u16_lt [of len] by simp
  then show ?thesis
    by (simp add: slice_num_def SOCKET_DATA_SLICE_MAX_LEN_def unat_of_nat)
qed

text \<open>What slice \<open>j\<close> of the loop carries; the last one is empty when 1024 divides the length.\<close>

definition slice_len :: "u16 \<Rightarrow> nat \<Rightarrow> nat" where
  "slice_len len j = (if Suc j < unat (slice_num len) then 1024 else unat len mod 1024)"

lemma slice_header_len:
  assumes "j < unat (slice_num len)"
  shows "unat (element_len (slice_header par conn_id len j)) = slice_len len j"
proof -
  have s: "unat (slice_num len) < 256" by (rule unat_u8_lt)
  have "unat (slice_num len - 1) = unat (slice_num len) - 1"
    using assms by (intro unat_minus_one) auto
  then have "of_nat j = slice_num len - 1 \<longleftrightarrow> j = unat (slice_num len) - 1"
    using assms s by (simp add: word_unat_eq_iff unat_of_nat)
  then have "of_nat j \<noteq> slice_num len - 1 \<longleftrightarrow> Suc j < unat (slice_num len)"
    using assms by auto
  then show ?thesis
    by (auto simp: slice_header_def slice_len_def SOCKET_DATA_SLICE_MAX_LEN_def unat_of_nat)
qed

definition slice_frames :: "u8 \<Rightarrow> u8 \<Rightarrow> u8 list \<Rightarrow> u16 \<Rightarrow> nat \<Rightarrow> frame list" where
  "slice_frames par conn_id data len n =
     map (\<lambda>j. (slice_header par conn_id len j, take (slice_len len j) (drop (j * 1024) data)))
       (filter (\<lambda>j. slice_len len j \<noteq> 0) [0..<n])"

lemma slice_frames_Suc:
  "slice_frames par conn_id data len (Suc n) = slice_frames par conn_id data len n @
     (if slice_len len n = 0 then []
      else [(slice_header par conn_id len n, take (slice_len len n) (drop (n * 1024) data))])"
  by (simp add: slice_frames_def)

text \<open>Before the last slice, the slices carry the data up to a multiple of 1024.\<close>

lemma slice_frames_data:
  assumes "n < unat (slice_num len)" and "unat len \<le> length data"
  shows "concat (map snd (slice_frames par conn_id data len n)) = take (n * 1024) data \<and>
     length (concat (map frame_bytes (slice_frames par conn_id data len n))) = n * 6 + n * 1024 \<and>
     n * 1024 < unat len"
  using assms(1)
proof (induction n)
  case 0
  then have "unat len \<noteq> 0" by (simp add: unat_slice_num)
  then show ?case by (simp add: slice_frames_def)
next
  case (Suc n)
  have less: "Suc n * 1024 < unat len"
    using Suc.prems by (simp only: unat_slice_num Suc_le_eq [symmetric] less_eq_div_iff_mult_less_eq) simp
  have full: "slice_len len n = 1024" using Suc.prems by (simp add: slice_len_def)
  have "take (n * 1024) data @ take 1024 (drop (n * 1024) data) = take (Suc n * 1024) data"
    using take_add [of "n * 1024" 1024 data] by (simp add: add.commute)
  moreover have "length (take 1024 (drop (n * 1024) data)) = 1024"
    using less assms(2) by simp
  ultimately show ?case
    using Suc less full by (simp add: slice_frames_Suc length_frame_bytes)
qed

lemma slice_frames_all:
  assumes "len \<noteq> 0" and "unat len \<le> length data"
  shows "concat (map snd (slice_frames par conn_id data len (unat (slice_num len)))) =
     take (if 1024 dvd unat len then unat len - 1024 else unat len) data"
proof -
  have pos: "0 < unat len" using assms(1) by (simp add: unat_gt_0)
  define n where "n = (unat len - 1) div 1024"
  define r where "r = (unat len - 1) mod 1024"
  have L: "unat len = n * 1024 + Suc r" and r: "r < 1024"
    using pos by (simp_all add: n_def r_def)
  have "1023 + unat len = Suc n * 1024 + r" using L by simp
  then have sn: "unat (slice_num len) = Suc n"
    using r by (simp only: unat_slice_num div_mult_self3)
  have d: "concat (map snd (slice_frames par conn_id data len n)) = take (n * 1024) data"
    using slice_frames_data [of n len data par conn_id] assms(2) sn by simp
  have l: "slice_len len n = unat len mod 1024" by (simp add: slice_len_def sn)
  show ?thesis
  proof (cases "r = 1023")
    case True
    then have "unat len = Suc n * 1024" using L by simp
    then have "1024 dvd unat len" "unat len mod 1024 = 0" "unat len - 1024 = n * 1024" by simp_all
    with d l show ?thesis by (simp add: sn slice_frames_Suc)
  next
    case False
    then have m: "unat len mod 1024 = Suc r" using L r by simp
    then have "\<not> 1024 dvd unat len" by (simp add: dvd_eq_mod_eq_0)
    moreover have "take (n * 1024) data @ take (Suc r) (drop (n * 1024) data) = take (unat len) data"
      unfolding L by (rule take_add [symmetric])
    ultimately show ?thesis using d l m by (simp add: sn slice_frames_Suc)
  qed
qed

lemma slice_fits:
  assumes "j < unat (slice_num len)" and "unat len \<le> length (data :: u8 list)"
  shows "j * 1024 + slice_len len j \<le> unat len"
proof (cases "Suc j < unat (slice_num len)")
  case True
  then have "Suc j * 1024 < unat len" using slice_frames_data [of "Suc j" len data] assms(2) by blast
  then show ?thesis using True by (simp add: slice_len_def)
next
  case False
  have "j * 1024 < unat len" using slice_frames_data [OF assms] by blast
  then obtain m where "unat len = j * 1024 + m" by (metis less_imp_add_positive)
  then show ?thesis using False mod_less_eq_dividend [of m 1024] by (simp add: slice_len_def)
qed

lemma enqueue_slice:
  assumes h: "dq_holds q (fs @ slice_frames par conn_id data len j)"
    and j: "j < unat (slice_num len)" and data: "unat len \<le> length data"
    and room: "dq_used q + 6 + slice_len len j < unat (dq_len q)"
  shows "\<exists>q' r. dataqueue_enqueue q (slice_header par conn_id len j) (drop (j * 1024) data) =
      Some (q', r) \<and> dq_holds q' (fs @ slice_frames par conn_id data len (Suc j)) \<and> dq_len q' = dq_len q"
proof -
  let ?hd = "slice_header par conn_id len j" and ?body = "drop (j * 1024) data"
  have inv: "dq_inv q" using h by (simp add: dq_holds_def)
  have el: "unat (element_len ?hd) = slice_len len j" by (rule slice_header_len [OF j])
  have le: "slice_len len j \<le> length ?body" using slice_fits [OF j data] data by simp
  have k: "slice_len len j \<le> 1024"
    using mod_le_divisor [of 1024 "unat len"] by (simp add: slice_len_def)
  note ok = dataqueue_enqueue_ok [OF inv, of ?hd ?body, unfolded el, OF le]
  have magic: "magic_no ?hd = DATA_QUEUE_MAGICNO" by (simp add: slice_header_def)
  have zero: "element_len ?hd = 0 \<longleftrightarrow> slice_len len j = 0"
    using el by (metis unat_eq_zero)
  show ?thesis
  proof (cases "slice_len len j = 0")
    case True
    then have "enqueue_refused q ?hd" using zero by (simp add: enqueue_refused_def)
    then show ?thesis using ok k h True by (auto simp: slice_frames_Suc)
  next
    case False
    then have "\<not> enqueue_refused q ?hd"
      using magic zero el room by (simp add: enqueue_refused_def)
    moreover have "frame_ok (?hd, take (slice_len len j) ?body)"
      using magic zero False el le k by (simp add: frame_ok_def)
    moreover have "\<not> unat (dq_len q) - 1 - dq_used q < 6 + slice_len len j" using room by simp
    ultimately show ?thesis
      using ok k h False by (auto simp: slice_frames_Suc dq_holds_def frame_bytes_def)
  qed
qed

lemma slice_loop_ok:
  assumes h: "dq_holds q fs" and data: "unat len \<le> length data"
    and fit: "dq_used q + 6 * unat (slice_num len) + unat len < unat (dq_len q)"
  shows "\<exists>q'. for_up 0 (unat (slice_num len)) (\<lambda>j q. map_option fst
        (dataqueue_enqueue q (slice_header par conn_id len j) (drop (j * 1024) data))) q = Some q' \<and>
      dq_holds q' (fs @ slice_frames par conn_id data len (unat (slice_num len))) \<and> dq_len q' = dq_len q"
proof -
  define I where "I j q' \<longleftrightarrow> dq_holds q' (fs @ slice_frames par conn_id data len j) \<and> dq_len q' = dq_len q"
    for j q'
  have "\<exists>q'. for_up 0 (unat (slice_num len)) (\<lambda>j q. map_option fst
        (dataqueue_enqueue q (slice_header par conn_id len j) (drop (j * 1024) data))) q = Some q' \<and>
      I (0 + unat (slice_num len)) q'"
  proof (rule for_up_inv)
    show "I 0 q" using h by (simp add: I_def slice_frames_def)
    fix j t
    assume j: "j < 0 + unat (slice_num len)" and t: "I j t"
    then have j': "j < unat (slice_num len)" by simp
    have used: "dq_used t = dq_used q + (j * 6 + j * 1024)"
      using dq_holds_used [OF h] dq_holds_used [of t "fs @ slice_frames par conn_id data len j"] t
        slice_frames_data [OF j' data] by (simp add: I_def)
    have "j * 6 + 6 \<le> 6 * unat (slice_num len)" using j' by simp
    then have "dq_used t + 6 + slice_len len j < unat (dq_len t)"
      using slice_fits [OF j' data] fit t unfolding used by (simp add: I_def)
    then show "\<exists>t'. map_option fst (dataqueue_enqueue t (slice_header par conn_id len j)
        (drop (j * 1024) data)) = Some t' \<and> I (Suc j) t'"
      using enqueue_slice [OF _ j' data, of t fs par conn_id] t by (auto simp: I_def)
  qed
  then show ?thesis by (simp add: I_def)
qed

lemma can_put_ok:
  assumes inv: "dq_inv q" and small: "6 * unat k + unat n < 2 ^ 16"
  shows "dataqueue_can_put_data q n k = Some (dq_used q + 6 * unat k + unat n < unat (dq_len q))"
proof -
  obtain w where w: "dq_idle q = Some w" "unat w = unat (dq_len q) - 1 - dq_used q"
    using dq_idle_ok [OF inv] by blast
  let ?x = "ucast k * 6 + ucast n :: u32"
  have "unat ?x = unat k * 6 + unat n"
    using small unat_u8_lt [of k] by (simp add: unat_word_ariths)
  then have "unat (ucast ?x :: u16) = 6 * unat k + unat n"
    using small by (simp add: unsigned_ucast_eq take_bit_nat_eq_self)
  then show ?thesis
    using w dq_inv_facts(4) [OF inv]
    by (auto simp: dataqueue_can_put_data_def word_less_nat_alt)
qed

section \<open>Properties\<close>

text \<open>
  \<open>dataqueue_enqueue\<close> refuses an element with a bad header, reports an overflow when the
  element does not fit (one byte always stays free), and otherwise appends header and body;
  \<open>dataqueue_recover\<close> with the size of the element takes it back. A refused element changes
  nothing. The sum of the sizes must fit the 16 bits it is computed in.
\<close>

theorem dataqueue_enqueue_correct:
  assumes "dq_inv q" and "unat (element_len hdr) \<le> length body" and "unat (element_len hdr) + 6 < 2 ^ 16"
  shows "\<exists>q' r. dataqueue_enqueue q hdr body = Some (q', r) \<and> dq_inv q' \<and>
     (if enqueue_refused q hdr then r = DATA_QUEUE_RET_INVALIDPARAM \<and> q' = q
      else if unat (dq_len q) - 1 - dq_used q < 6 + unat (element_len hdr)
      then r = DATA_QUEUE_RET_OVERFLOW \<and> q' = q
      else r = DATA_QUEUE_RET_SUCCESS \<and>
        dq_contents q' = dq_contents q @ header_bytes hdr @ take (unat (element_len hdr)) body \<and>
        (\<exists>q''. dataqueue_recover q' (6 + element_len hdr) = Some (q'', DATA_QUEUE_RET_SUCCESS) \<and>
           dq_inv q'' \<and> dq_contents q'' = dq_contents q))"
proof -
  obtain q' r where e: "dataqueue_enqueue q hdr body = Some (q', r)" "dq_inv q'" and cases:
    "if enqueue_refused q hdr then r = DATA_QUEUE_RET_INVALIDPARAM \<and> q' = q
      else if unat (dq_len q) - 1 - dq_used q < 6 + unat (element_len hdr)
      then r = DATA_QUEUE_RET_OVERFLOW \<and> q' = q
      else r = DATA_QUEUE_RET_SUCCESS \<and>
        dq_contents q' = dq_contents q @ header_bytes hdr @ take (unat (element_len hdr)) body"
    using dataqueue_enqueue_ok [OF assms] by blast
  have n: "unat (6 + element_len hdr) = 6 + unat (element_len hdr)"
    using unat_plus_if_fits [of 6 "element_len hdr"] assms(3) by simp
  then have nz: "6 + element_len hdr \<noteq> 0" by (metis unat_0 zero_neq_numeral add_is_0)
  have "\<exists>q''. dataqueue_recover q' (6 + element_len hdr) = Some (q'', DATA_QUEUE_RET_SUCCESS) \<and>
      dq_inv q'' \<and> dq_contents q'' = dq_contents q"
    if c: "dq_contents q' = dq_contents q @ header_bytes hdr @ take (unat (element_len hdr)) body"
  proof -
    have "dq_used q' = dq_used q + (6 + unat (element_len hdr))"
      using arg_cong [OF c, of length] assms(2) by simp
    then show ?thesis
      using dataqueue_recover_ok [OF e(2) nz] n c by auto
  qed
  with e cases show ?thesis by (auto split: if_splits)
qed

definition demo_hdr :: DATA_ELEMENT_HEADER where
  "demo_hdr = \<lparr>magic_no = 0x0AA0, element_type = 3, param = 0, element_len = 2\<rparr>"

definition demo_dq :: DATA_QUEUE where
  "demo_dq = \<lparr>dq_head = 14, dq_tail = 14, dq_buf = replicate 16 0, dq_len = 16\<rparr>"

lemma demo_dq_holds: "dq_holds demo_dq []"
  by (simp add: demo_dq_def dq_holds_def dq_inv_def dq_contents_def dq_used_def)

lemma demo_dq_empty: "dq_inv demo_dq" "dq_contents demo_dq = []" "dq_used demo_dq = 0" "dq_len demo_dq = 16"
  by (simp_all add: demo_dq_def dq_inv_def dq_contents_def dq_used_def)

theorem dataqueue_enqueue_correct_witness:
  "\<exists>q'. dataqueue_enqueue demo_dq demo_hdr [8, 9] = Some (q', DATA_QUEUE_RET_SUCCESS) \<and>
     dq_contents q' = [0xA0, 0x0A, 3, 0, 2, 0, 8, 9]"
  using dataqueue_enqueue_correct [OF demo_dq_empty(1), of demo_hdr "[8, 9]"] demo_dq_empty
  by (auto simp: enqueue_refused_def demo_hdr_def DATA_QUEUE_MAGICNO_def header_bytes_def drop_bit_eq_div)

text \<open>
  An element at the front of the queue is delivered the same way by looking at it
  (\<open>dataqueue_get_header\<close>, \<open>dataqueue_get_data\<close>) and by taking it out
  (\<open>dataqueue_dequeue_header\<close>, \<open>dataqueue_dequeue_body\<close>), as long as less than half of the
  16-bit range is in use behind its header.
\<close>

theorem dataqueue_reads_agree:
  assumes h: "dq_holds q ((hdr, body) # fs)" and half: "dq_used q < 2 ^ 15"
    and dst: "length dst = length body"
  shows "\<exists>q1 q2. dataqueue_get_header q h0 = Some (hdr, DATA_QUEUE_RET_SUCCESS) \<and>
     dataqueue_get_data q (element_len hdr) dst = Some (body, DATA_QUEUE_RET_SUCCESS) \<and>
     dataqueue_dequeue_header q h0 = Some (q1, hdr, DATA_QUEUE_RET_SUCCESS) \<and>
     dataqueue_dequeue_body q1 (element_len hdr) dst = Some (q2, body, DATA_QUEUE_RET_SUCCESS) \<and>
     dq_holds q2 fs"
proof -
  have inv: "dq_inv q" and c: "dq_contents q = header_bytes hdr @ body @ concat (map frame_bytes fs)"
    and ok: "magic_no hdr = DATA_QUEUE_MAGICNO" "element_len hdr \<noteq> 0" "unat (element_len hdr) = length body"
    and rest: "list_all frame_ok fs"
    using h by (simp_all add: dq_holds_def frame_bytes_def frame_ok_def)
  have used: "6 + length body \<le> dq_used q" using dq_holds_used [OF h] by (simp add: frame_bytes_def)
  have "header_result q = (hdr, DATA_QUEUE_RET_SUCCESS)"
    using c ok(1) by (simp add: header_result_def header_of_bytes [of _ "[]", simplified])
  moreover obtain q1 where q1: "dataqueue_dequeue_header q h0 = Some (q1, header_result q)"
      "dataqueue_get_header q h0 = Some (header_result q)" "dq_inv q1" "dq_contents q1 = drop 6 (dq_contents q)"
    using dataqueue_header_ok [OF inv, of h0] used by auto
  moreover have u1: "dq_used q1 = dq_used q - 6" using arg_cong [OF q1(4), of length] by simp
  moreover have "dq_used q1 < 2 ^ 15" "unat (element_len hdr) \<le> dq_used q1"
    using u1 half used ok(3) by simp_all
  then obtain q2 where "dataqueue_dequeue_body q1 (element_len hdr) dst = Some (q2, body, DATA_QUEUE_RET_SUCCESS)"
      "dq_inv q2" "dq_contents q2 = concat (map frame_bytes fs)"
    using dataqueue_dequeue_body_ok(2) [OF q1(3) ok(2), of dst] ok(3) dst u1 used q1(4) c
    by (auto simp: blit_all)
  ultimately show ?thesis
    using dataqueue_get_data_ok [OF inv ok(2), of dst] ok(3) dst used c rest
    by (auto simp: blit_all dq_holds_def)
qed

definition demo_dq1 :: DATA_QUEUE where
  "demo_dq1 = \<lparr>dq_head = 1, dq_tail = 9, dq_buf = [0, 0xA0, 0x0A, 3, 0, 2, 0, 8, 9, 0, 0, 0], dq_len = 12\<rparr>"

lemma demo_dq1_holds: "dq_holds demo_dq1 [(demo_hdr, [8, 9])]"
  by (simp add: demo_dq1_def dq_holds_def dq_inv_def dq_contents_def dq_used_def ring_read_def
      frame_bytes_def frame_ok_def header_bytes_def demo_hdr_def DATA_QUEUE_MAGICNO_def upt_rec
      drop_bit_eq_div)

theorem dataqueue_reads_agree_witness:
  "\<exists>q1 q2. dataqueue_dequeue_header demo_dq1 demo_hdr = Some (q1, demo_hdr, DATA_QUEUE_RET_SUCCESS) \<and>
     dataqueue_dequeue_body q1 2 [0, 0] = Some (q2, [8, 9], DATA_QUEUE_RET_SUCCESS)"
  using dataqueue_reads_agree [OF demo_dq1_holds, of "[0, 0]" demo_hdr]
  by (auto simp: demo_dq1_def demo_hdr_def dq_used_def)

text \<open>
  C25: whatever the order of the calls, a queue that starts empty delivers exactly the elements
  it accepted, whole and in their order; the last ones are still in the queue at the end.
\<close>

theorem dataqueue_fifo:
  assumes "dq_holds q []" and "\<forall>f. Some f \<in> set ops \<longrightarrow> frame_ok f \<and> length (snd f) \<le> unat (dq_len q)"
  shows "\<exists>q' fs ins outs. fifo_run dq_offer (dq_fetch h0) q ops = Some (q', ins, outs) \<and>
     dq_holds q' fs \<and> ins = outs @ fs"
  using dq.fifo_run_ok [OF assms(1), of ops h0] assms(2) by auto

theorem dataqueue_fifo_witness:
  "\<exists>q' fs ins outs. fifo_run dq_offer (dq_fetch demo_hdr) demo_dq
       [Some (demo_hdr, [8, 9]), Some (demo_hdr, [5, 6]), None, Some (demo_hdr, [7, 7]), None] =
     Some (q', ins, outs) \<and> dq_holds q' fs \<and> ins = outs @ fs"
  by (rule dataqueue_fifo [OF demo_dq_holds])
    (auto simp: frame_ok_def demo_hdr_def demo_dq_def DATA_QUEUE_MAGICNO_def)

text \<open>
  When \<open>socket_4g_send\<close> gets as far as queueing (the data is not empty and there is room
  for it), it reports success, and the elements it queues carry the data, except that a length
  divisible by 1024 loses the last 1024 bytes: the last slice is given the length 0 and
  refused by the queue, and nobody looks at the return code.
\<close>

theorem socket_4g_send_slices:
  assumes "dq_holds q fs" and "len \<noteq> 0" and "unat len \<le> length data"
    and "6 * unat (slice_num len) + unat len < 2 ^ 16"
    and "dataqueue_can_put_data q len (slice_num len) = Some True"
  shows "\<exists>q' fs'. socket_4g_queue_slices q par conn_id data len = Some (q', 0) \<and>
     dq_holds q' (fs @ fs') \<and>
     concat (map snd fs') = take (if 1024 dvd unat len then unat len - 1024 else unat len) data"
proof -
  have fit: "dq_used q + 6 * unat (slice_num len) + unat len < unat (dq_len q)"
    using can_put_ok [OF _ assms(4)] assms(1,5) by (simp add: dq_holds_def)
  obtain q' where "socket_4g_queue_slices q par conn_id data len = Some (q', 0)"
      "dq_holds q' (fs @ slice_frames par conn_id data len (unat (slice_num len)))"
    using slice_loop_ok [OF assms(1,3) fit, of par conn_id] assms(5)
    by (auto simp: socket_4g_queue_slices_def SOCKET_DATA_SLICE_MAX_LEN_def)
  then show ?thesis using slice_frames_all [OF assms(2,3)] by blast
qed

definition demo_dq2 :: DATA_QUEUE where
  "demo_dq2 = \<lparr>dq_head = 0, dq_tail = 0, dq_buf = replicate 4096 0, dq_len = 4096\<rparr>"

theorem socket_4g_send_slices_witness:
  "\<exists>q' fs'. socket_4g_queue_slices demo_dq2 0 1 (replicate 2048 7) 2048 = Some (q', 0) \<and>
     dq_holds q' fs' \<and> concat (map snd fs') = replicate 1024 7"
proof -
  have h: "dq_holds demo_dq2 []"
    by (simp add: demo_dq2_def dq_holds_def dq_inv_def dq_contents_def dq_used_def)
  have s: "unat (slice_num 2048) = 2" using unat_slice_num [of 2048] by simp
  have "dataqueue_can_put_data demo_dq2 2048 (slice_num 2048) = Some True"
    using can_put_ok [of demo_dq2 "slice_num 2048" 2048] h s
    by (simp add: dq_holds_def) (simp add: demo_dq2_def dq_used_def)
  then show ?thesis
    using socket_4g_send_slices [OF h, of 2048 "replicate 2048 7" 0 1] s by simp
qed

end
