(* ===== verification/ErrorCodes.thy ===== *)
theory ErrorCodes imports Prelude begin

text \<open>
  The error codes of \<^verbatim>\<open>tbox_type.h\<close> as an enumeration with their numeric values.
\<close>

section \<open>Error codes\<close>

text \<open>\<^verbatim>\<open>TBOX_ERROR_CODE\<close>; the operations return the \<^verbatim>\<open>INT32\<close> value of a code.\<close>

datatype (plugins only: code size) TBOX_ERROR_CODE =
    TBOX_E_OK | TBOX_E_FAILED | TBOX_E_NOINIT | TBOX_E_NOOPEN | TBOX_E_NOCREATE
  | TBOX_E_NOSUPPORT | TBOX_E_NOREADY | TBOX_E_NORESOURCES | TBOX_E_NOMEMORY | TBOX_E_NODATA
  | TBOX_E_NOEXISTS | TBOX_E_NOMATCH | TBOX_E_NOPRIVILEGE | TBOX_E_NOFOUND | TBOX_E_NOALLOC
  | TBOX_E_INVALID_PARAM | TBOX_E_INVALID_STATE | TBOX_E_INVALID_FORMAT | TBOX_E_INVALID_VALUE
  | TBOX_E_INVALID_HANDLE | TBOX_E_INVALID_INDEX | TBOX_E_INVALID_LENGTH
  | TBOX_E_INVALID_ADDRESS | TBOX_E_INVALID_DATA | TBOX_E_INVALID_POINTER
  | TBOX_E_INVALID_VALIDATION | TBOX_E_INVALID_SIGNATURE | TBOX_E_INVALID_KEY
  | TBOX_E_INVALID_VERSION | TBOX_E_INVALID_CONFIG | TBOX_E_UNKNOWN_ID
  | TBOX_E_UNKNOWN_SERVICE | TBOX_E_UNKNOWN_NAME | TBOX_E_UNKNOWN_ADDRESS
  | TBOX_E_UNKNOWN_MESSAGE | TBOX_E_UNKNOWN_OBJECT | TBOX_E_IS_BUSY | TBOX_E_IS_FULL
  | TBOX_E_IS_EMPTY | TBOX_E_IS_TIMEOUT | TBOX_E_IS_CLOSED | TBOX_E_IS_DESTROYED
  | TBOX_E_IS_DISABLED | TBOX_E_IS_ENABLED | TBOX_E_IS_RUNNING | TBOX_E_IS_STOPPED
  | TBOX_E_IS_SUSPENDED | TBOX_E_FAILED_INIT | TBOX_E_FAILED_OPEN | TBOX_E_FAILED_CREATE
  | TBOX_E_FAILED_IO | TBOX_E_FAILED_ALLOC | TBOX_E_FAILED_LOCK | TBOX_E_FAILED_UNLOCK
  | TBOX_E_OVERFLOW | TBOX_E_UNDERFLOW | TBOX_E_TOOSMALL | TBOX_E_HASSTART | TBOX_E_HASINIT
  | TBOX_E_HASSTOP | TBOX_E_HASDESTROY | TBOX_E_HASEXIST

primrec tbox_error_index :: "TBOX_ERROR_CODE \<Rightarrow> nat" where
  "tbox_error_index TBOX_E_OK = 0" | "tbox_error_index TBOX_E_FAILED = 1"
| "tbox_error_index TBOX_E_NOINIT = 2" | "tbox_error_index TBOX_E_NOOPEN = 3"
| "tbox_error_index TBOX_E_NOCREATE = 4" | "tbox_error_index TBOX_E_NOSUPPORT = 5"
| "tbox_error_index TBOX_E_NOREADY = 6" | "tbox_error_index TBOX_E_NORESOURCES = 7"
| "tbox_error_index TBOX_E_NOMEMORY = 8" | "tbox_error_index TBOX_E_NODATA = 9"
| "tbox_error_index TBOX_E_NOEXISTS = 10" | "tbox_error_index TBOX_E_NOMATCH = 11"
| "tbox_error_index TBOX_E_NOPRIVILEGE = 12" | "tbox_error_index TBOX_E_NOFOUND = 13"
| "tbox_error_index TBOX_E_NOALLOC = 14" | "tbox_error_index TBOX_E_INVALID_PARAM = 15"
| "tbox_error_index TBOX_E_INVALID_STATE = 16" | "tbox_error_index TBOX_E_INVALID_FORMAT = 17"
| "tbox_error_index TBOX_E_INVALID_VALUE = 18" | "tbox_error_index TBOX_E_INVALID_HANDLE = 19"
| "tbox_error_index TBOX_E_INVALID_INDEX = 20" | "tbox_error_index TBOX_E_INVALID_LENGTH = 21"
| "tbox_error_index TBOX_E_INVALID_ADDRESS = 22" | "tbox_error_index TBOX_E_INVALID_DATA = 23"
| "tbox_error_index TBOX_E_INVALID_POINTER = 24"
| "tbox_error_index TBOX_E_INVALID_VALIDATION = 25"
| "tbox_error_index TBOX_E_INVALID_SIGNATURE = 26" | "tbox_error_index TBOX_E_INVALID_KEY = 27"
| "tbox_error_index TBOX_E_INVALID_VERSION = 28" | "tbox_error_index TBOX_E_INVALID_CONFIG = 29"
| "tbox_error_index TBOX_E_UNKNOWN_ID = 30" | "tbox_error_index TBOX_E_UNKNOWN_SERVICE = 31"
| "tbox_error_index TBOX_E_UNKNOWN_NAME = 32" | "tbox_error_index TBOX_E_UNKNOWN_ADDRESS = 33"
| "tbox_error_index TBOX_E_UNKNOWN_MESSAGE = 34" | "tbox_error_index TBOX_E_UNKNOWN_OBJECT = 35"
| "tbox_error_index TBOX_E_IS_BUSY = 36" | "tbox_error_index TBOX_E_IS_FULL = 37"
| "tbox_error_index TBOX_E_IS_EMPTY = 38" | "tbox_error_index TBOX_E_IS_TIMEOUT = 39"
| "tbox_error_index TBOX_E_IS_CLOSED = 40" | "tbox_error_index TBOX_E_IS_DESTROYED = 41"
| "tbox_error_index TBOX_E_IS_DISABLED = 42" | "tbox_error_index TBOX_E_IS_ENABLED = 43"
| "tbox_error_index TBOX_E_IS_RUNNING = 44" | "tbox_error_index TBOX_E_IS_STOPPED = 45"
| "tbox_error_index TBOX_E_IS_SUSPENDED = 46" | "tbox_error_index TBOX_E_FAILED_INIT = 47"
| "tbox_error_index TBOX_E_FAILED_OPEN = 48" | "tbox_error_index TBOX_E_FAILED_CREATE = 49"
| "tbox_error_index TBOX_E_FAILED_IO = 50" | "tbox_error_index TBOX_E_FAILED_ALLOC = 51"
| "tbox_error_index TBOX_E_FAILED_LOCK = 52" | "tbox_error_index TBOX_E_FAILED_UNLOCK = 53"
| "tbox_error_index TBOX_E_OVERFLOW = 54" | "tbox_error_index TBOX_E_UNDERFLOW = 55"
| "tbox_error_index TBOX_E_TOOSMALL = 56" | "tbox_error_index TBOX_E_HASSTART = 57"
| "tbox_error_index TBOX_E_HASINIT = 58" | "tbox_error_index TBOX_E_HASSTOP = 59"
| "tbox_error_index TBOX_E_HASDESTROY = 60" | "tbox_error_index TBOX_E_HASEXIST = 61"

definition tbox_error_val :: "TBOX_ERROR_CODE \<Rightarrow> int" where
  "tbox_error_val e = - int (tbox_error_index e)"

end
