(* ===== verification/HashMap.thy ===== *)
theory HashMap imports Prelude ErrorCodes "HOL-Library.Multiset" begin

text \<open>
  \<^verbatim>\<open>src/common/tbox_hashmap.c\<close>: the fixed-capacity hash map with chained buckets and a queue
  of free nodes, all in a buffer of the caller. Nodes live in a store indexed by their 32-bit
  addresses; a \<^verbatim>\<open>NULL\<close> pointer argument or a \<^verbatim>\<open>NULL\<close> function pointer is \<open>None\<close>, and an
  operation that dereferences \<^verbatim>\<open>NULL\<close> or divides by zero returns \<open>None\<close>. Keys are the
  contents behind the \<^verbatim>\<open>VOID *\<close> keys, which the caller keeps unchanged while they are in the
  map. The lemmas show the representation invariant and that the map refines a finite map,
  for any hash function and a comparison that is equality on the keys in use.
\<close>

section \<open>Data\<close>

type_synonym haddr = u32

record 'k hashmap_node =
  hkey :: "'k option"
  hnext :: haddr
  hval :: "u8 list"

record 'k TBOX_HASHMAP =
  capacity :: u32
  ele_size :: u32
  count_of :: u32
  hash_func :: "('k \<Rightarrow> u32) option"
  key_compare_func :: "('k \<Rightarrow> 'k \<Rightarrow> bool) option"
  buckets :: "haddr list"
  free_head :: haddr
  free_tail :: haddr
  nodes :: "haddr \<Rightarrow> 'k hashmap_node"

definition set_next :: "(haddr \<Rightarrow> 'k hashmap_node) \<Rightarrow> haddr \<Rightarrow> haddr \<Rightarrow> (haddr \<Rightarrow> 'k hashmap_node) option" where
  "set_next h p v = (if p = 0 then None else Some (h(p := (h p)\<lparr>hnext := v\<rparr>)))"

section \<open>The queue of free nodes\<close>

definition tbox_hashmap_init_queue :: "'k TBOX_HASHMAP \<Rightarrow> 'k TBOX_HASHMAP" where
  "tbox_hashmap_init_queue mp = mp\<lparr>free_head := 0, free_tail := 0\<rparr>"

definition tbox_hashmap_queue_isempty :: "'k TBOX_HASHMAP \<Rightarrow> bool" where
  "tbox_hashmap_queue_isempty mp \<longleftrightarrow> free_head mp = 0 \<and> free_tail mp = 0"

definition tbox_hashmap_queue_push :: "'k TBOX_HASHMAP \<Rightarrow> haddr \<Rightarrow> 'k TBOX_HASHMAP option" where
  "tbox_hashmap_queue_push mp node =
     (if node = 0 then Some mp
      else do {
        h \<leftarrow> set_next (nodes mp) node 0;
        if free_head mp = 0 then Some (mp\<lparr>nodes := h, free_head := node, free_tail := node\<rparr>)
        else do {
          h \<leftarrow> set_next h (free_tail mp) node;
          Some (mp\<lparr>nodes := h, free_tail := node\<rparr>)
        }
      })"

definition tbox_hashmap_queue_pop :: "'k TBOX_HASHMAP \<Rightarrow> ('k TBOX_HASHMAP \<times> haddr) option" where
  "tbox_hashmap_queue_pop mp =
     (if free_head mp = 0 then Some (mp, 0)
      else do {
        let node = free_head mp;
        let map1 = (if hnext (nodes mp node) = 0 then mp\<lparr>free_head := 0, free_tail := 0\<rparr>
                    else mp\<lparr>free_head := hnext (nodes mp node)\<rparr>);
        h \<leftarrow> set_next (nodes map1) node 0;
        Some (map1\<lparr>nodes := h\<rparr>, node)
      })"

section \<open>Buckets\<close>

definition tbox_hashmap_capacity_to_bucket_num :: "u32 \<Rightarrow> u32" where
  "tbox_hashmap_capacity_to_bucket_num cap =
     (if cap \<le> 10 then cap else if cap \<le> 100 then 10 else (cap + 10 - 1) div 10)"

text \<open>\<^verbatim>\<open>hash_func(key) % bucket_num\<close>\<close>

definition bucket_index :: "'k TBOX_HASHMAP \<Rightarrow> 'k \<Rightarrow> nat option" where
  "bucket_index mp key = do {
     hf \<leftarrow> hash_func mp;
     let bucket_num = tbox_hashmap_capacity_to_bucket_num (capacity mp);
     if bucket_num = 0 then None else Some (unat (hf key mod bucket_num))
   }"

fun find_loop :: "('k \<Rightarrow> 'k \<Rightarrow> bool) \<Rightarrow> (haddr \<Rightarrow> 'k hashmap_node) \<Rightarrow> 'k \<Rightarrow> nat \<Rightarrow> haddr \<Rightarrow> haddr option" where
  "find_loop cmp h key 0 node = Some 0"
| "find_loop cmp h key (Suc n) node =
     (if node = 0 then Some 0
      else do {
        k \<leftarrow> hkey (h node);
        if cmp key k then Some node else find_loop cmp h key n (hnext (h node))
      })"

definition tbox_hashmap_find_node :: "'k TBOX_HASHMAP \<Rightarrow> 'k \<Rightarrow> haddr option" where
  "tbox_hashmap_find_node mp key = do {
     index \<leftarrow> bucket_index mp key;
     node \<leftarrow> rd (buckets mp) index;
     cmp \<leftarrow> key_compare_func mp;
     find_loop cmp (nodes mp) key (unat (capacity mp)) node
   }"

section \<open>Operations\<close>

definition sizeof_hashmap :: u32 where
  "sizeof_hashmap = 32"

definition sizeof_node :: u32 where
  "sizeof_node = 8"

definition hashmap_mgr_size :: "u32 \<Rightarrow> u32" where
  "hashmap_mgr_size bucket_num = sizeof_hashmap + bucket_num * 4"

definition zero_node :: "u32 \<Rightarrow> 'k hashmap_node" where
  "zero_node ele = \<lparr>hkey = None, hnext = 0, hval = replicate (unat ele) 0\<rparr>"

text \<open>
  The result \<open>None\<close> inside \<open>Some\<close> is the \<^verbatim>\<open>NULL\<close> map. The buffer is cleared first, so all
  nodes are zero.
\<close>

definition tbox_hashmap_create :: "u32 \<Rightarrow> u32 \<Rightarrow> u32 \<Rightarrow> u32 \<Rightarrow> ('k \<Rightarrow> u32) option \<Rightarrow>
    ('k \<Rightarrow> 'k \<Rightarrow> bool) option \<Rightarrow> 'k TBOX_HASHMAP option option" where
  "tbox_hashmap_create buffer sz cap ele hf cmp =
     (if buffer = 0 \<or> sz = 0 \<or> cap = 0 \<or> ele = 0 \<or> hf = None \<or> cmp = None then Some None
      else do {
        let bucket_num = tbox_hashmap_capacity_to_bucket_num cap;
        if sz < hashmap_mgr_size bucket_num + (ele + sizeof_node) * cap then Some None
        else do {
          let mp = \<lparr>capacity = 0, ele_size = 0, count_of = 0, hash_func = None,
            key_compare_func = None, buckets = [], free_head = 0, free_tail = 0,
            nodes = (\<lambda>_. zero_node ele)\<rparr>;
          let mp = tbox_hashmap_init_queue mp;
          (mp, ptr) \<leftarrow> for_up 0 (unat cap) (\<lambda>i (mp, ptr). do {
              let h = (nodes mp)(ptr := (nodes mp ptr)\<lparr>hkey := None, hnext := 0\<rparr>);
              mp \<leftarrow> tbox_hashmap_queue_push (mp\<lparr>nodes := h\<rparr>) ptr;
              Some (mp, ptr + ele + sizeof_node)
            }) (mp, buffer + hashmap_mgr_size bucket_num);
          Some (Some (mp\<lparr>buckets := replicate (unat bucket_num) 0, capacity := cap,
            ele_size := ele, count_of := 0, hash_func := hf, key_compare_func := cmp\<rparr>))
        }
      })"

definition tbox_hashmap_destroy :: "'k TBOX_HASHMAP option \<Rightarrow> 'k TBOX_HASHMAP option" where
  "tbox_hashmap_destroy mp = (case mp of None \<Rightarrow> None
     | Some m \<Rightarrow> Some (m\<lparr>capacity := 0, ele_size := 0, count_of := 0, hash_func := None,
         key_compare_func := None, buckets := [], free_head := 0, free_tail := 0\<rparr>))"

text \<open>Copies to and from the value of a node; \<^verbatim>\<open>ele_size\<close> bytes on both sides.\<close>

definition copy_value :: "u32 \<Rightarrow> u8 list \<Rightarrow> u8 list \<Rightarrow> u8 list option" where
  "copy_value n dst src = memcpy dst 0 src 0 (unat n)"

definition tbox_hashmap_get :: "'k TBOX_HASHMAP option \<Rightarrow> 'k option \<Rightarrow> u8 list option \<Rightarrow>
    (u8 list option \<times> TBOX_ERROR_CODE) option" where
  "tbox_hashmap_get mp key value = (case (mp, key, value) of
     (Some m, Some k, Some v) \<Rightarrow> do {
       node \<leftarrow> tbox_hashmap_find_node m k;
       if node = 0 then Some (value, TBOX_E_NOFOUND)
       else do {
         v' \<leftarrow> copy_value (ele_size m) v (hval (nodes m node));
         Some (Some v', TBOX_E_OK)
       }
     }
   | _ \<Rightarrow> Some (value, TBOX_E_INVALID_PARAM))"

text \<open>The walk to the end of a bucket, which links the new node behind the last one.\<close>

fun append_loop :: "(haddr \<Rightarrow> 'k hashmap_node) \<Rightarrow> haddr \<Rightarrow> nat \<Rightarrow> haddr \<Rightarrow> (haddr \<Rightarrow> 'k hashmap_node) option" where
  "append_loop h node 0 pre = Some h"
| "append_loop h node (Suc n) pre =
     (if pre = 0 then None
      else if hnext (h pre) = 0 then set_next h pre node
      else append_loop h node n (hnext (h pre)))"

definition tbox_hashmap_put :: "'k TBOX_HASHMAP option \<Rightarrow> 'k option \<Rightarrow> u8 list option \<Rightarrow>
    ('k TBOX_HASHMAP option \<times> TBOX_ERROR_CODE) option" where
  "tbox_hashmap_put mp key value = (case (mp, key, value) of
     (Some m, Some k, Some v) \<Rightarrow> do {
       node \<leftarrow> tbox_hashmap_find_node m k;
       if node = 0 then
         if tbox_hashmap_queue_isempty m then Some (mp, TBOX_E_NOMEMORY)
         else do {
           (m, node) \<leftarrow> tbox_hashmap_queue_pop m;
           if node = 0 then None
           else do {
             v' \<leftarrow> copy_value (ele_size m) (hval (nodes m node)) v;
             let h = (nodes m)(node := \<lparr>hkey = Some k, hnext = 0, hval = v'\<rparr>);
             index \<leftarrow> bucket_index m k;
             b \<leftarrow> rd (buckets m) index;
             if b = 0 then do {
               bs \<leftarrow> wr (buckets m) index node;
               Some (Some (m\<lparr>nodes := h, buckets := bs, count_of := count_of m + 1\<rparr>), TBOX_E_OK)
             }
             else do {
               h \<leftarrow> append_loop h node (unat (capacity m)) b;
               Some (Some (m\<lparr>nodes := h, count_of := count_of m + 1\<rparr>), TBOX_E_OK)
             }
           }
         }
       else do {
         v' \<leftarrow> copy_value (ele_size m) (hval (nodes m node)) v;
         Some (Some (m\<lparr>nodes := (nodes m)(node := (nodes m node)\<lparr>hval := v'\<rparr>)\<rparr>), TBOX_E_OK)
       }
     }
   | _ \<Rightarrow> Some (mp, TBOX_E_INVALID_PARAM))"

text \<open>The search for the predecessor, which is linked to the successor.\<close>

fun unlink_loop :: "(haddr \<Rightarrow> 'k hashmap_node) \<Rightarrow> haddr \<Rightarrow> nat \<Rightarrow> haddr \<Rightarrow> (haddr \<Rightarrow> 'k hashmap_node) option" where
  "unlink_loop h node 0 pre = Some h"
| "unlink_loop h node (Suc n) pre =
     (if pre = 0 then Some h
      else if node = hnext (h pre) then set_next h pre (hnext (h node))
      else unlink_loop h node n (hnext (h pre)))"

text \<open>Clearing a node and putting it back into the free queue.\<close>

definition release_node :: "'k TBOX_HASHMAP \<Rightarrow> haddr \<Rightarrow> 'k TBOX_HASHMAP option" where
  "release_node m node = do {
     let h = (nodes m)(node := zero_node (ele_size m));
     m \<leftarrow> tbox_hashmap_queue_push (m\<lparr>nodes := h\<rparr>) node;
     Some (m\<lparr>count_of := count_of m - 1\<rparr>)
   }"

definition tbox_hashmap_remove :: "'k TBOX_HASHMAP option \<Rightarrow> 'k option \<Rightarrow> 'k TBOX_HASHMAP option option" where
  "tbox_hashmap_remove mp key = (case (mp, key) of
     (Some m, Some k) \<Rightarrow> do {
       node \<leftarrow> tbox_hashmap_find_node m k;
       if node = 0 then Some mp
       else do {
         index \<leftarrow> bucket_index m k;
         b \<leftarrow> rd (buckets m) index;
         m \<leftarrow> (if node = b then do {
                 bs \<leftarrow> wr (buckets m) index (hnext (nodes m node));
                 Some (m\<lparr>buckets := bs\<rparr>)
               }
               else do {
                 h \<leftarrow> unlink_loop (nodes m) node (unat (capacity m)) b;
                 Some (m\<lparr>nodes := h\<rparr>)
               });
         m \<leftarrow> release_node m node;
         Some (Some m)
       }
     }
   | _ \<Rightarrow> Some mp)"

text \<open>The first non-empty bucket, from bucket \<open>i\<close> on, for at most \<open>n\<close> buckets.\<close>

fun first_bucket :: "haddr list \<Rightarrow> nat \<Rightarrow> nat \<Rightarrow> nat option option" where
  "first_bucket bs i 0 = Some None"
| "first_bucket bs i (Suc n) = do {
     b \<leftarrow> rd bs i;
     if b \<noteq> 0 then Some (Some i) else first_bucket bs (Suc i) n
   }"

definition tbox_hashmap_remove_one :: "'k TBOX_HASHMAP option \<Rightarrow> u8 list option \<Rightarrow>
    ('k TBOX_HASHMAP option \<times> u8 list option \<times> TBOX_ERROR_CODE) option" where
  "tbox_hashmap_remove_one mp value = (case (mp, value) of
     (Some m, Some v) \<Rightarrow> do {
       found \<leftarrow> first_bucket (buckets m) 0 (unat (tbox_hashmap_capacity_to_bucket_num (capacity m)));
       case found of
         None \<Rightarrow> Some (mp, value, TBOX_E_FAILED)
       | Some i \<Rightarrow> do {
           node \<leftarrow> rd (buckets m) i;
           bs \<leftarrow> wr (buckets m) i (hnext (nodes m node));
           v' \<leftarrow> copy_value (ele_size m) v (hval (nodes m node));
           m \<leftarrow> release_node (m\<lparr>buckets := bs\<rparr>) node;
           Some (Some m, Some v', TBOX_E_OK)
         }
     }
   | _ \<Rightarrow> Some (mp, value, TBOX_E_INVALID_PARAM))"

definition tbox_hashmap_get_count :: "'k TBOX_HASHMAP option \<Rightarrow> u32" where
  "tbox_hashmap_get_count mp = (case mp of None \<Rightarrow> 0 | Some m \<Rightarrow> count_of m)"

section \<open>The default hash function\<close>

text \<open>Eight bytes as a little-endian block, and the tail with the length.\<close>

definition le64 :: "u8 list \<Rightarrow> u64" where
  "le64 bs = foldr (\<lambda>b acc. ucast b OR push_bit 8 acc) bs 0"

fun hash_blocks :: "nat \<Rightarrow> u8 list \<Rightarrow> u64 \<Rightarrow> u64 \<times> u8 list" where
  "hash_blocks 0 data hash = (hash, data)"
| "hash_blocks (Suc n) data hash =
     hash_blocks n (drop 8 data) ((hash XOR le64 (take 8 data)) * 0xbf58476d1ce4e5b9)"

definition tbox_hashmap_default_hash_func :: "u8 list option \<Rightarrow> u32 \<Rightarrow> u32" where
  "tbox_hashmap_default_hash_func key sz = (case key of
     None \<Rightarrow> 0
   | Some data \<Rightarrow>
       if sz = 0 then 0
       else
         let (hash, data) = hash_blocks (unat (sz div 8)) data 2166136261;
             r = unat (sz mod 8);
             last = ucast (sz AND 0xFF) OR push_bit 8 (le64 (take r data));
             hash = (if r = 0 then hash else (hash XOR last) * 0xd6e8feb86659fd93)
         in ucast (hash XOR drop_bit 32 hash))"

text \<open>The instance of the message layer: keys are strings, here without their final zero.\<close>

definition tbox_msg_hashmap_string_hash_func :: "u8 list \<Rightarrow> u32" where
  "tbox_msg_hashmap_string_hash_func key = tbox_hashmap_default_hash_func (Some key) (of_nat (length key))"

text \<open>\<^verbatim>\<open>strncmp(key1, key2, strlen(key1)) == 0\<close>: \<open>key1\<close> is a prefix of \<open>key2\<close>.\<close>

definition tbox_msg_hashmap_string_cmp_func :: "u8 list \<Rightarrow> u8 list \<Rightarrow> bool" where
  "tbox_msg_hashmap_string_cmp_func key1 key2 \<longleftrightarrow> take (length key1) key2 = key1"

section \<open>Chains of nodes\<close>

fun chain :: "(haddr \<Rightarrow> 'k hashmap_node) \<Rightarrow> haddr \<Rightarrow> haddr list \<Rightarrow> bool" where
  "chain h a [] \<longleftrightarrow> a = 0"
| "chain h a (x # xs) \<longleftrightarrow> a = x \<and> x \<noteq> 0 \<and> chain h (hnext (h x)) xs"

lemma chain_cong:
  "(\<And>x. x \<in> set xs \<Longrightarrow> hnext (h' x) = hnext (h x)) \<Longrightarrow> chain h' a xs = chain h a xs"
  by (induction xs arbitrary: a) auto

lemma chain_head: "chain h a xs \<Longrightarrow> a = (if xs = [] then 0 else hd xs)"
  by (cases xs) auto

lemma chain_nonnull: "chain h a xs \<Longrightarrow> 0 \<notin> set xs"
  by (induction xs arbitrary: a) auto

lemma chain_snoc:
  "chain h a xs \<Longrightarrow> distinct xs \<Longrightarrow> xs \<noteq> [] \<Longrightarrow> x \<notin> set xs \<Longrightarrow> x \<noteq> 0 \<Longrightarrow> hnext (h x) = 0 \<Longrightarrow>
   chain (h(last xs := (h (last xs))\<lparr>hnext := x\<rparr>)) a (xs @ [x])"
proof (induction xs arbitrary: a)
  case (Cons y ys)
  show ?case
  proof (cases "ys = []")
    case True
    then show ?thesis using Cons.prems by auto
  next
    case False
    then have "last ys \<noteq> y" using Cons.prems(2) last_in_set [of ys] by auto
    then show ?thesis using Cons False by simp
  qed
qed simp

lemma chain_remove:
  "chain h a (xs @ x # y # ys) \<Longrightarrow> distinct (xs @ x # y # ys) \<Longrightarrow>
   chain (h(x := (h x)\<lparr>hnext := hnext (h y)\<rparr>)) a (xs @ x # ys)"
proof (induction xs arbitrary: a)
  case Nil
  then have "chain (h(x := (h x)\<lparr>hnext := hnext (h y)\<rparr>)) (hnext (h y)) ys = chain h (hnext (h y)) ys"
    by (intro chain_cong) auto
  with Nil show ?case by (simp add: fun_upd_def)
next
  case (Cons z zs)
  then show ?case by auto
qed

lemma append_loop_chain:
  "chain h a xs \<Longrightarrow> xs \<noteq> [] \<Longrightarrow> length xs \<le> n \<Longrightarrow>
   append_loop h x n a = Some (h(last xs := (h (last xs))\<lparr>hnext := x\<rparr>))"
proof (induction xs arbitrary: a n)
  case (Cons y ys)
  obtain n' where n: "n = Suc n'" using Cons.prems(3) by (cases n) auto
  show ?case
  proof (cases "ys = []")
    case True
    then show ?thesis using Cons.prems n by (simp add: set_next_def fun_upd_def)
  next
    case False
    then have "hnext (h y) \<noteq> 0" using Cons.prems(1) chain_head chain_nonnull by (cases ys) auto
    then show ?thesis using Cons False n by simp
  qed
qed simp

lemma unlink_loop_chain:
  "chain h a (xs @ x # y # ys) \<Longrightarrow> distinct (xs @ x # y # ys) \<Longrightarrow> length xs < n \<Longrightarrow>
   unlink_loop h y n a = Some (h(x := (h x)\<lparr>hnext := hnext (h y)\<rparr>))"
proof (induction xs arbitrary: a n)
  case Nil
  then show ?case by (cases n) (auto simp: set_next_def)
next
  case (Cons z zs)
  obtain n' where n: "n = Suc n'" using Cons.prems(3) by (cases n) auto
  have "hnext (h z) \<noteq> y"
    using Cons.prems(1,2) by (cases zs) auto
  then show ?case using Cons n by auto
qed

lemma find_loop_chain:
  "chain h a xs \<Longrightarrow> length xs \<le> n \<Longrightarrow>
   (\<And>x. x \<in> set xs \<Longrightarrow> \<exists>k. hkey (h x) = Some k \<and> (cmp key k \<longleftrightarrow> key = k)) \<Longrightarrow>
   find_loop cmp h key n a =
     Some (case List.find (\<lambda>x. hkey (h x) = Some key) xs of None \<Rightarrow> 0 | Some x \<Rightarrow> x)"
proof (induction xs arbitrary: a n)
  case Nil
  then show ?case by (cases n) auto
next
  case (Cons x xs)
  obtain n' where n: "n = Suc n'" using Cons.prems(2) by (cases n) auto
  obtain k where "hkey (h x) = Some k" "cmp key k \<longleftrightarrow> key = k" using Cons.prems(3) by auto
  then show ?case using Cons n by auto
qed

section \<open>Nodes shared out over lists\<close>

text \<open>
  \<open>L 0\<close> are the free nodes, \<open>L (Suc i)\<close> the nodes of bucket \<open>i\<close>; together they are the nodes
  \<open>A\<close> of the buffer, each in one place.
\<close>

definition shared_out :: "nat \<Rightarrow> (nat \<Rightarrow> 'a list) \<Rightarrow> 'a set \<Rightarrow> bool" where
  "shared_out n L A \<longleftrightarrow> finite A \<and> (\<Sum>j\<le>n. mset (L j)) = mset_set A"

lemma shared_out_split:
  assumes "shared_out n L A" and "j \<le> n"
  shows "mset_set A = mset (L j) + (\<Sum>k\<in>{..n} - {j}. mset (L k))"
  using assms sum.remove [of "{..n}" j "\<lambda>k. mset (L k)"] by (simp add: shared_out_def)

lemma shared_out_facts:
  assumes s: "shared_out n L A" and j: "j \<le> n"
  shows "distinct (L j)" "set (L j) \<subseteq> A" "length (L j) \<le> card A"
    "\<And>k x. k \<le> n \<Longrightarrow> x \<in> set (L j) \<Longrightarrow> x \<in> set (L k) \<Longrightarrow> k = j"
proof -
  have fin: "finite A" using s by (simp add: shared_out_def)
  note e = shared_out_split [OF s j]
  have one: "count (mset_set A) x \<le> 1" for x
    using fin by (cases "x \<in> A") auto
  have "count (mset (L j)) x \<le> 1" for x
    using one [of x] unfolding e by simp
  then show "distinct (L j)"
    by (simp add: distinct_count_atmost_1 count_mset_gt_0 le_Suc_eq)
  show "set (L j) \<subseteq> A"
    using fin e by (metis finite_set_mset_mset_set mset_subset_eq_add_left set_mset_mset set_mset_mono)
  show "length (L j) \<le> card A"
    using fin arg_cong [OF e, of size] by simp
  fix k x
  assume k: "k \<le> n" and x: "x \<in> set (L j)" "x \<in> set (L k)"
  show "k = j"
  proof (rule ccontr)
    assume "k \<noteq> j"
    then have "(\<Sum>k\<in>{..n} - {j}. mset (L k)) = mset (L k) + (\<Sum>k\<in>{..n} - {j} - {k}. mset (L k))"
      using k by (intro sum.remove) auto
    then have "count (mset_set A) x \<ge> count (mset (L j)) x + count (mset (L k)) x"
      unfolding e by simp
    moreover have "0 < count (mset (L j)) x" "0 < count (mset (L k)) x"
      using x by (simp_all add: count_mset_gt_0)
    ultimately show False using one [of x] by simp
  qed
qed

lemma shared_out_move:
  assumes s: "shared_out n L A" and "j \<le> n" "k \<le> n" "j \<noteq> k" and x: "L j = xs @ x # ys"
  shows "shared_out n (L(j := xs @ ys, k := L k @ [x])) A"
proof -
  let ?L = "L(j := xs @ ys, k := L k @ [x])"
  have "(\<Sum>i\<le>n. mset (?L i)) = mset (?L j) + (mset (?L k) + (\<Sum>i\<in>{..n} - {j} - {k}. mset (?L i)))"
    using assms(2-4) by (subst sum.remove [of _ j]; (subst sum.remove [of _ k])?) auto
  also have "(\<Sum>i\<in>{..n} - {j} - {k}. mset (?L i)) = (\<Sum>i\<in>{..n} - {j} - {k}. mset (L i))"
    by (rule sum.cong) auto
  also have "mset (?L j) + (mset (?L k) + (\<Sum>i\<in>{..n} - {j} - {k}. mset (L i))) =
      mset (L j) + (mset (L k) + (\<Sum>i\<in>{..n} - {j} - {k}. mset (L i)))"
    using assms(4) x by simp
  also have "\<dots> = (\<Sum>i\<le>n. mset (L i))"
    using assms(2-4) by (subst (2) sum.remove [of _ j]; (subst sum.remove [of "{..n} - {j}" k])?) auto
  finally show ?thesis using s by (simp only: shared_out_def)
qed

lemma shared_out_cover: "shared_out n L A \<Longrightarrow> x \<in> A \<Longrightarrow> \<exists>j\<le>n. x \<in> set (L j)"
proof -
  assume s: "shared_out n L A" and x: "x \<in> A"
  then have "x \<in># (\<Sum>j\<le>n. mset (L j))" by (simp add: shared_out_def)
  then show ?thesis by (simp add: set_mset_sum) blast
qed

section \<open>The map a table represents\<close>

definition bucket_num :: "'k TBOX_HASHMAP \<Rightarrow> nat" where
  "bucket_num m = unat (tbox_hashmap_capacity_to_bucket_num (capacity m))"

text \<open>
  \<open>hm_rep hash cmp K A L m f\<close>: the table \<open>m\<close> has the nodes \<open>A\<close>, shared out as \<open>L\<close>, and
  represents the finite map \<open>f\<close> with keys in \<open>K\<close>.
\<close>

definition hm_rep :: "('k \<Rightarrow> u32) \<Rightarrow> ('k \<Rightarrow> 'k \<Rightarrow> bool) \<Rightarrow> 'k set \<Rightarrow> haddr set \<Rightarrow> (nat \<Rightarrow> haddr list) \<Rightarrow>
    'k TBOX_HASHMAP \<Rightarrow> ('k \<rightharpoonup> u8 list) \<Rightarrow> bool" where
  "hm_rep hash cmp K A L m f \<longleftrightarrow>
     hash_func m = Some hash \<and> key_compare_func m = Some cmp \<and> 0 < bucket_num m \<and>
     length (buckets m) = bucket_num m \<and> card A = unat (capacity m) \<and> 0 \<notin> A \<and>
     shared_out (bucket_num m) L A \<and>
     chain (nodes m) (free_head m) (L 0) \<and> free_tail m = (if L 0 = [] then 0 else last (L 0)) \<and>
     (\<forall>i<bucket_num m. chain (nodes m) (buckets m ! i) (L (Suc i))) \<and>
     (\<forall>i<bucket_num m. \<forall>x\<in>set (L (Suc i)). \<exists>k\<in>K. hkey (nodes m x) = Some k \<and>
        unat (hash k) mod bucket_num m = i \<and> f k = Some (hval (nodes m x))) \<and>
     (\<forall>x\<in>A. length (hval (nodes m x)) = unat (ele_size m)) \<and>
     (\<forall>i<bucket_num m. inj_on (\<lambda>x. hkey (nodes m x)) (set (L (Suc i)))) \<and>
     (\<forall>k\<in>dom f. \<exists>x\<in>set (L (Suc (unat (hash k) mod bucket_num m))). hkey (nodes m x) = Some k) \<and>
     unat (count_of m) + length (L 0) = unat (capacity m)"

lemma hm_repD:
  assumes "hm_rep hash cmp K A L m f"
  shows "hash_func m = Some hash" "key_compare_func m = Some cmp" "0 < bucket_num m"
    "length (buckets m) = bucket_num m" "card A = unat (capacity m)" "0 \<notin> A"
    "shared_out (bucket_num m) L A"
    "chain (nodes m) (free_head m) (L 0)" "free_tail m = (if L 0 = [] then 0 else last (L 0))"
    "\<And>i. i < bucket_num m \<Longrightarrow> chain (nodes m) (buckets m ! i) (L (Suc i))"
    "\<And>i x. i < bucket_num m \<Longrightarrow> x \<in> set (L (Suc i)) \<Longrightarrow> \<exists>k\<in>K. hkey (nodes m x) = Some k \<and>
        unat (hash k) mod bucket_num m = i \<and> f k = Some (hval (nodes m x))"
    "\<And>x. x \<in> A \<Longrightarrow> length (hval (nodes m x)) = unat (ele_size m)"
    "\<And>i. i < bucket_num m \<Longrightarrow> inj_on (\<lambda>x. hkey (nodes m x)) (set (L (Suc i)))"
    "\<And>k. k \<in> dom f \<Longrightarrow> \<exists>x\<in>set (L (Suc (unat (hash k) mod bucket_num m))). hkey (nodes m x) = Some k"
    "unat (count_of m) + length (L 0) = unat (capacity m)"
  using assms unfolding hm_rep_def by blast+

lemma hm_rep_index:
  assumes "hm_rep hash cmp K A L m f"
  shows "bucket_index m k = Some (unat (hash k) mod bucket_num m)" "unat (hash k) mod bucket_num m < bucket_num m"
proof -
  note r = hm_repD [OF assms]
  have "tbox_hashmap_capacity_to_bucket_num (capacity m) \<noteq> 0"
    using r(3) by (auto simp: bucket_num_def)
  then show "bucket_index m k = Some (unat (hash k) mod bucket_num m)"
    using r(1) by (simp add: bucket_index_def Let_def unat_mod bucket_num_def)
  show "unat (hash k) mod bucket_num m < bucket_num m" using r(3) by simp
qed

lemma hm_rep_nodes:
  assumes rep: "hm_rep hash cmp K A L m f" and x: "j \<le> bucket_num m" "x \<in> set (L j)"
  shows "x \<noteq> 0" "x \<in> A" "\<And>i. i \<le> bucket_num m \<Longrightarrow> i \<noteq> j \<Longrightarrow> x \<notin> set (L i)"
  using shared_out_facts [OF hm_repD(7) [OF rep] x(1)] hm_repD(6) [OF rep] x(2) by blast+

text \<open>The keys of the map are the keys of the nodes in the buckets, one node each.\<close>

lemma hm_rep_count:
  assumes rep: "hm_rep hash cmp K A L m f"
  shows "finite (dom f)" "card (dom f) = unat (count_of m)" "dom f \<subseteq> K"
proof -
  note r = hm_repD [OF rep]
  let ?n = "bucket_num m" and ?key = "\<lambda>x. hkey (nodes m x)"
  let ?U = "A - set (L 0)"
  have finA: "finite A" using r(7) by (simp add: shared_out_def)
  have U: "x \<in> ?U \<longleftrightarrow> (\<exists>i<?n. x \<in> set (L (Suc i)))" for x
  proof
    assume x: "x \<in> ?U"
    then obtain j where "j \<le> ?n" "x \<in> set (L j)" using shared_out_cover [OF r(7)] by blast
    then show "\<exists>i<?n. x \<in> set (L (Suc i))" using x by (cases j) (auto simp: Suc_le_eq)
  next
    assume "\<exists>i<?n. x \<in> set (L (Suc i))"
    then obtain i where i: "Suc i \<le> ?n" "x \<in> set (L (Suc i))" by (auto simp: Suc_le_eq)
    then show "x \<in> ?U" using hm_rep_nodes [OF rep i] by auto
  qed
  have inj: "inj_on ?key ?U"
  proof (rule inj_onI)
    fix x y
    assume xy: "x \<in> ?U" "y \<in> ?U" "?key x = ?key y"
    obtain i j where ij: "i < ?n" "x \<in> set (L (Suc i))" "j < ?n" "y \<in> set (L (Suc j))"
      using xy(1,2) U by blast
    have "i = j" using r(11) [OF ij(1,2)] r(11) [OF ij(3,4)] xy(3) by auto
    then show "x = y" using r(13) [OF ij(1)] ij(2,4) xy(3) by (auto dest: inj_onD)
  qed
  have img: "?key ` ?U = Some ` dom f"
  proof (intro set_eqI iffI)
    fix k
    assume "k \<in> ?key ` ?U"
    then show "k \<in> Some ` dom f" using U r(11) by (smt (verit) domI imageE imageI)
  next
    fix k
    assume "k \<in> Some ` dom f"
    then obtain k' where k: "k = Some k'" "k' \<in> dom f" by blast
    then obtain x where "x \<in> set (L (Suc (unat (hash k') mod ?n)))" "?key x = Some k'"
      using r(14) by blast
    moreover have "unat (hash k') mod ?n < ?n" using r(3) by simp
    ultimately show "k \<in> ?key ` ?U" using U k(1) by (metis imageI)
  qed
  have "finite (Some ` dom f)" unfolding img [symmetric] using finA by simp
  then show "finite (dom f)" by (rule finite_imageD) simp
  have "card (dom f) = card ?U"
    using card_image [OF inj] card_image [of Some "dom f"] img by simp
  also have "\<dots> = card A - length (L 0)"
    using shared_out_facts(1,2) [OF r(7), of 0] by (simp add: card_Diff_subset distinct_card)
  finally show "card (dom f) = unat (count_of m)" using r(5,15) by simp
  show "dom f \<subseteq> K"
  proof
    fix k
    assume "k \<in> dom f"
    then show "k \<in> K" using r(14) [of k] r(11) [of "unat (hash k) mod ?n"] r(3) by fastforce
  qed
qed

text \<open>A free node becomes the last node of a bucket.\<close>

lemma hm_rep_insert:
  fixes m m' :: "'k TBOX_HASHMAP"
  defines "n \<equiv> bucket_num m"
  assumes rep: "hm_rep hash cmp K A L m f" and k: "k \<in> K" "f k = None" and free: "L 0 = x # F"
    and i: "i = unat (hash k) mod n" and v: "length v = unat (ele_size m)"
    and same: "hash_func m' = hash_func m" "key_compare_func m' = key_compare_func m"
      "capacity m' = capacity m" "ele_size m' = ele_size m"
    and hx: "hkey (nodes m' x) = Some k" "hval (nodes m' x) = v"
    and other: "\<And>y. y \<noteq> x \<Longrightarrow> hkey (nodes m' y) = hkey (nodes m y) \<and> hval (nodes m' y) = hval (nodes m y)"
    and link: "\<And>y. y \<notin> set (x # L (Suc i)) \<Longrightarrow> hnext (nodes m' y) = hnext (nodes m y)"
    and bucket: "chain (nodes m') (buckets m' ! i) (L (Suc i) @ [x])"
      "length (buckets m') = length (buckets m)" "\<And>j. j \<noteq> i \<Longrightarrow> buckets m' ! j = buckets m ! j"
    and queue: "free_head m' = hnext (nodes m x)" "free_tail m' = (if F = [] then 0 else last F)"
    and count: "count_of m' = count_of m + 1"
  shows "hm_rep hash cmp K A (L(0 := F, Suc i := L (Suc i) @ [x])) m' (f(k \<mapsto> v))"
proof -
  note r = hm_repD [OF rep]
  let ?L = "L(0 := F, Suc i := L (Suc i) @ [x])"
  have n: "bucket_num m' = n" "bucket_num m = n" using same(3) by (simp_all add: bucket_num_def n_def)
  have i': "i < n" using i r(3) by (simp add: n)
  have out: "x \<notin> set (L (Suc j))" if "j < n" for j
    using hm_rep_nodes(3) [OF rep, of 0 x "Suc j"] free that n by simp
  have sep: "y \<notin> set (L (Suc i))" if "y \<in> set (L j)" "j \<le> n" "j \<noteq> Suc i" for y j
    using hm_rep_nodes(3) [OF rep, of j y "Suc i"] that i' n by auto
  have len0: "distinct (x # F)" using shared_out_facts(1) [OF r(7), of 0] free by simp
  have shared: "shared_out n ?L A"
    using shared_out_move [OF r(7), of 0 "Suc i" "[]" x F] i' n free by simp
  have free': "chain (nodes m') (free_head m') F"
  proof -
    have "chain (nodes m') (free_head m') F = chain (nodes m) (free_head m') F"
      by (rule chain_cong, rule link) (use sep [of _ 0] free len0 in auto)
    then show ?thesis using r(8) free queue(1) by simp
  qed
  have chains: "chain (nodes m') (buckets m' ! j) (?L (Suc j))" if "j < n" for j
  proof (cases "j = i")
    case False
    have "chain (nodes m') (buckets m ! j) (L (Suc j)) = chain (nodes m) (buckets m ! j) (L (Suc j))"
      by (rule chain_cong, rule link) (use sep [of _ "Suc j"] that False out [OF that] in auto)
    then show ?thesis using r(10) that False bucket(3) n by simp
  qed (use bucket(1) in simp)
  have old: "\<exists>k'\<in>K. hkey (nodes m y) = Some k' \<and> unat (hash k') mod n = j \<and>
      f k' = Some (hval (nodes m y))" if "j < n" "y \<in> set (L (Suc j))" for j y
    using r(11) that n by simp
  have keys: "\<exists>k'\<in>K. hkey (nodes m' y) = Some k' \<and> unat (hash k') mod n = j \<and>
      (f(k \<mapsto> v)) k' = Some (hval (nodes m' y))" if j: "j < n" and y: "y \<in> set (?L (Suc j))" for j y
  proof (cases "y = x")
    case True
    then have "j = i" using y out [OF j] by (auto split: if_splits)
    then show ?thesis using True hx k i by auto
  next
    case False
    then have "y \<in> set (L (Suc j))" using y by (auto split: if_splits)
    with old [OF j this] other [OF False] k(2) show ?thesis by (auto intro!: bexI)
  qed
  have inj: "inj_on (\<lambda>y. hkey (nodes m' y)) (set (?L (Suc j)))" if j: "j < n" for j
  proof -
    have "hkey (nodes m' y) = hkey (nodes m y)" if "y \<in> set (L (Suc j))" for y
      using other [of y] out [OF j] that by blast
    then have inj0: "inj_on (\<lambda>y. hkey (nodes m' y)) (set (L (Suc j)))"
      using r(13) [of j] j n by (subst inj_on_cong [where g = "\<lambda>y. hkey (nodes m y)"]) simp_all
    have "hkey (nodes m' y) \<noteq> Some k" if "y \<in> set (L (Suc j))" for y
    proof -
      have "y \<noteq> x" using out [OF j] that by blast
      then show ?thesis using old [OF j that] other [of y] k(2) by auto
    qed
    then have "hkey (nodes m' x) \<notin> (\<lambda>y. hkey (nodes m' y)) ` set (L (Suc j))"
      unfolding hx(1) by (metis imageE)
    then show ?thesis using inj0 by (cases "j = i") (auto simp: inj_on_insert)
  qed
  have dom: "\<exists>y\<in>set (?L (Suc (unat (hash k') mod n))). hkey (nodes m' y) = Some k'"
    if "k' \<in> dom (f(k \<mapsto> v))" for k'
  proof (cases "k' = k")
    case True
    then show ?thesis using hx(1) i by auto
  next
    case False
    then have "k' \<in> dom f" using that by (auto split: if_splits)
    then obtain y where y: "y \<in> set (L (Suc (unat (hash k') mod n)))" "hkey (nodes m y) = Some k'"
      using r(14) [of k'] n by auto
    have "unat (hash k') mod n < n" using i' by simp
    then have "y \<noteq> x" using y(1) out by blast
    then have "hkey (nodes m' y) = Some k'" using other y(2) by simp
    moreover have "y \<in> set (?L (Suc (unat (hash k') mod n)))" using y(1) by (cases "unat (hash k') mod n = i") simp_all
    ultimately show ?thesis by blast
  qed
  have c: "unat (count_of m') + length F = unat (capacity m')"
  proof -
    have "unat (count_of m) + 1 < 2 ^ 32"
      using r(15) free unat_u32_lt [of "capacity m"] by simp
    then have "unat (count_of m') = unat (count_of m) + 1"
      unfolding count by (subst unat_plus_if_fits) simp_all
    then show ?thesis using r(15) free same(3) by simp
  qed
  have vals: "length (hval (nodes m' y)) = unat (ele_size m')" if "y \<in> A" for y
    using that r(12) [of y] other [of y] hx(2) v same(4) by (cases "y = x") simp_all
  have base: "hash_func m' = Some hash" "key_compare_func m' = Some cmp" "0 < n"
    "length (buckets m') = n" "card A = unat (capacity m')"
    using r(1-5) same bucket(2) n by simp_all
  have queue': "chain (nodes m') (free_head m') (?L 0)" "free_tail m' = (if ?L 0 = [] then 0 else last (?L 0))"
    "unat (count_of m') + length (?L 0) = unat (capacity m')"
    using free' queue(2) c by simp_all
  show ?thesis
    unfolding hm_rep_def n
    using base r(6) shared queue' chains keys vals inj dom by blast
qed

text \<open>A node that has been taken out of its bucket is cleared and becomes the last free node.\<close>

lemma release_node_rep:
  fixes m m1 :: "'k TBOX_HASHMAP"
  defines "n \<equiv> bucket_num m"
  assumes rep: "hm_rep hash cmp K A L m f" and i: "i < n" and split: "L (Suc i) = xs @ x # ys"
    and k: "hkey (nodes m x) = Some k"
    and same: "hash_func m1 = hash_func m" "key_compare_func m1 = key_compare_func m"
      "capacity m1 = capacity m" "ele_size m1 = ele_size m" "count_of m1 = count_of m"
      "free_head m1 = free_head m" "free_tail m1 = free_tail m"
    and vals: "\<And>y. hkey (nodes m1 y) = hkey (nodes m y) \<and> hval (nodes m1 y) = hval (nodes m y)"
    and link: "\<And>y. y \<notin> set xs \<Longrightarrow> hnext (nodes m1 y) = hnext (nodes m y)"
    and bucket: "chain (nodes m1) (buckets m1 ! i) (xs @ ys)"
      "length (buckets m1) = length (buckets m)" "\<And>j. j \<noteq> i \<Longrightarrow> buckets m1 ! j = buckets m ! j"
  shows "\<exists>m'. release_node m1 x = Some m' \<and>
     hm_rep hash cmp K A (L(Suc i := xs @ ys, 0 := L 0 @ [x])) m' (f(k := None)) \<and>
     ele_size m' = ele_size m \<and> capacity m' = capacity m"
proof -
  note r = hm_repD [OF rep]
  let ?L = "L(Suc i := xs @ ys, 0 := L 0 @ [x])"
  have n: "bucket_num m = n" by (simp add: n_def)
  have x: "x \<noteq> 0" "x \<in> A" "x \<notin> set (L 0)"
    using hm_rep_nodes [OF rep, of "Suc i" x] split i n by auto
  have dist: "distinct (xs @ x # ys)" using shared_out_facts(1) [OF r(7), of "Suc i"] split i n by simp
  have dist0: "distinct (L 0)" using shared_out_facts(1) [OF r(7), of 0] by simp
  have sep: "y \<notin> set (L (Suc i))" if "y \<in> set (L j)" "j \<le> n" "j \<noteq> Suc i" for y j
    using hm_rep_nodes(3) [OF rep, of j y "Suc i"] that i n by auto
  have sep0: "y \<notin> set (L 0)" if "y \<in> set (L (Suc j))" "j < n" for y j
    using hm_rep_nodes(3) [OF rep, of "Suc j" y 0] that n by auto
  define h where "h = (nodes m1)(x := zero_node (ele_size m))"
  define h2 where "h2 = (if L 0 = [] then h else h(last (L 0) := (h (last (L 0)))\<lparr>hnext := x\<rparr>))"
  define m' where "m' = m1\<lparr>nodes := h2, free_head := (if L 0 = [] then x else free_head m),
     free_tail := x, count_of := count_of m - 1\<rparr>"
  have hx: "hnext (h x) = 0" by (simp add: h_def zero_node_def)
  have set0: "set_next h x 0 = Some h"
    using x(1) hx by (simp add: set_next_def fun_upd_idem)
  have ch0: "chain h (free_head m) (L 0)"
    using r(8) x(3) link sep [of _ 0] split
    by (subst chain_cong [where h = "nodes m"]) (auto simp: h_def)
  have head: "free_head m = 0 \<longleftrightarrow> L 0 = []" using r(8) chain_nonnull chain_head by (metis hd_in_set)
  have last0: "last (L 0) \<noteq> x" "last (L 0) \<noteq> 0" "last (L 0) \<in> set (L 0)" if "L 0 \<noteq> []"
    using last_in_set [OF that] x(3) chain_nonnull [OF r(8)] by metis+
  have rel: "release_node m1 x = Some m'"
  proof (cases "L 0 = []")
    case True
    then show ?thesis
      using x(1) set0 same head
      by (simp add: release_node_def tbox_hashmap_queue_push_def m'_def h2_def h_def [symmetric])
  next
    case False
    then have "set_next h (last (L 0)) x = Some h2"
      using last0 by (simp add: set_next_def h2_def)
    then show ?thesis
      using x(1) set0 same head False r(9)
      by (simp add: release_node_def tbox_hashmap_queue_push_def m'_def h_def [symmetric])
  qed
  have free': "chain h2 (if L 0 = [] then x else free_head m) (L 0 @ [x])"
  proof (cases "L 0 = []")
    case True
    then show ?thesis using x(1) hx by (simp add: h2_def)
  next
    case False
    then show ?thesis
      using chain_snoc [OF ch0 dist0 False x(3) x(1) hx] by (simp add: h2_def)
  qed
  have keep: "hkey (h2 y) = hkey (nodes m y) \<and> hval (h2 y) = hval (nodes m y)" if "y \<noteq> x" for y
    using that vals by (simp add: h2_def h_def)
  have next_keep: "hnext (h2 y) = hnext (nodes m1 y)" if "y \<noteq> x" "y \<notin> set (L 0)" for y
    using that last0 by (auto simp: h2_def h_def)
  have inL: "y \<noteq> x \<and> y \<in> set (L (Suc j))" if "y \<in> set (?L (Suc j))" "j < n" for y j
    using that dist split sep [of y "Suc j"] by (cases "j = i") auto
  have chains: "chain h2 (buckets m1 ! j) (?L (Suc j))" if j: "j < n" for j
  proof -
    have "chain h2 (buckets m1 ! j) (?L (Suc j)) = chain (nodes m1) (buckets m1 ! j) (?L (Suc j))"
      by (rule chain_cong, rule next_keep) (use inL [OF _ j] sep0 [OF _ j] in blast)+
    moreover have "chain (nodes m1) (buckets m1 ! j) (?L (Suc j))"
    proof (cases "j = i")
      case False
      have "chain (nodes m1) (buckets m ! j) (L (Suc j)) = chain (nodes m) (buckets m ! j) (L (Suc j))"
        by (rule chain_cong, rule link) (use sep [of _ "Suc j"] j False split in auto)
      then show ?thesis using False r(10) j n bucket(3) by simp
    qed (use bucket(1) in simp)
    ultimately show ?thesis by blast
  qed
  have inj: "inj_on (\<lambda>y. hkey (h2 y)) (set (?L (Suc j)))" if j: "j < n" for j
  proof (rule inj_onI)
    fix y z
    assume yz: "y \<in> set (?L (Suc j))" "z \<in> set (?L (Suc j))" "hkey (h2 y) = hkey (h2 z)"
    then have "hkey (nodes m y) = hkey (nodes m z)" using inL [OF _ j] keep by metis
    then show "y = z" using inj_onD [OF r(13), of j y z] inL [OF _ j] yz n j by blast
  qed
  have keys: "\<exists>k'\<in>K. hkey (h2 y) = Some k' \<and> unat (hash k') mod n = j \<and>
      (f(k := None)) k' = Some (hval (h2 y))" if j: "j < n" and y: "y \<in> set (?L (Suc j))" for j y
  proof -
    have yx: "y \<noteq> x" and yL: "y \<in> set (L (Suc j))" using inL [OF y j] by auto
    obtain k' where k': "k' \<in> K" "hkey (nodes m y) = Some k'" "unat (hash k') mod n = j"
        "f k' = Some (hval (nodes m y))"
      using r(11) [of j y] yL j n by auto
    have "k' \<noteq> k"
    proof
      assume eq: "k' = k"
      have "x \<in> set (L (Suc i))" using split by simp
      then have "unat (hash k) mod n = i" using r(11) [of i x] i n k by auto
      then have "j = i" using k'(3) eq by simp
      then show False using inj_onD [OF r(13), of i y x] yL split k k'(2) eq yx i n by auto
    qed
    then show ?thesis using k' keep [OF yx] by (intro bexI [of _ k']) auto
  qed
  have dom: "\<exists>y\<in>set (?L (Suc (unat (hash k') mod n))). hkey (h2 y) = Some k'"
    if "k' \<in> dom (f(k := None))" for k'
  proof -
    have k': "k' \<noteq> k" "k' \<in> dom f" using that by (auto split: if_splits)
    then obtain y where y: "y \<in> set (L (Suc (unat (hash k') mod n)))" "hkey (nodes m y) = Some k'"
      using r(14) [of k'] n by auto
    then have yx: "y \<noteq> x" using k k'(1) by auto
    then have "y \<in> set (?L (Suc (unat (hash k') mod n)))"
      using y(1) split by (cases "unat (hash k') mod n = i") auto
    then show ?thesis using keep [OF yx] y(2) by auto
  qed
  have lens: "length (hval (h2 y)) = unat (ele_size m)" if "y \<in> A" for y
  proof (cases "y = x")
    case True
    then show ?thesis using x(3) last0 by (auto simp: h2_def h_def zero_node_def)
  next
    case False
    then show ?thesis using keep r(12) [OF that] by simp
  qed
  have shared: "shared_out n ?L A"
    using shared_out_move [OF r(7), of "Suc i" 0 xs x ys] i split n by simp
  have cnt: "unat (count_of m - 1) + length (?L 0) = unat (capacity m)"
  proof -
    have d: "k \<in> dom f" using r(11) [of i x] split i n k by auto
    then have "card (dom f) \<noteq> 0" using hm_rep_count(1) [OF rep] by auto
    then have "count_of m \<noteq> 0" using hm_rep_count(2) [OF rep] by auto
    then have "unat (count_of m - 1) = unat (count_of m) - 1" "0 < unat (count_of m)"
      by (simp_all add: unat_minus_one unat_gt_0)
    then show ?thesis using r(15) by simp
  qed
  have eq: "nodes m' = h2" "buckets m' = buckets m1" "capacity m' = capacity m" "ele_size m' = ele_size m"
    "hash_func m' = Some hash" "key_compare_func m' = Some cmp"
    "free_head m' = (if L 0 = [] then x else free_head m)" "free_tail m' = x" "count_of m' = count_of m - 1"
    "bucket_num m' = n"
    using same r(1,2) by (simp_all add: m'_def n_def bucket_num_def)
  have queue': "chain h2 (if L 0 = [] then x else free_head m) (?L 0)"
    "x = (if ?L 0 = [] then 0 else last (?L 0))"
    using free' by simp_all
  have base: "0 < n" "length (buckets m1) = n" "card A = unat (capacity m)" "0 \<notin> A"
    using r(3-6) bucket(2) n by simp_all
  have "hm_rep hash cmp K A ?L m' (f(k := None))"
    unfolding hm_rep_def eq using base shared queue' chains keys lens inj dom cnt by blast
  then show ?thesis using rel eq by blast
qed

text \<open>A node of a bucket gets another value.\<close>

lemma hm_rep_revalue:
  assumes rep: "hm_rep hash cmp K A L m f" and k: "k \<in> K"
    and x: "x \<in> set (L (Suc (unat (hash k) mod bucket_num m)))" "hkey (nodes m x) = Some k"
    and v: "length v = unat (ele_size m)"
  shows "hm_rep hash cmp K A L (m\<lparr>nodes := (nodes m)(x := (nodes m x)\<lparr>hval := v\<rparr>)\<rparr>) (f(k \<mapsto> v))"
proof -
  note r = hm_repD [OF rep]
  let ?h = "(nodes m)(x := (nodes m x)\<lparr>hval := v\<rparr>)"
  have next_same: "hnext (?h y) = hnext (nodes m y)" and key: "hkey (?h y) = hkey (nodes m y)" for y
    by simp_all
  have c: "chain ?h a ys = chain (nodes m) a ys" for a ys
    by (rule chain_cong) simp
  have keys: "\<exists>k'\<in>K. hkey (?h y) = Some k' \<and> unat (hash k') mod bucket_num m = i \<and>
      (f(k \<mapsto> v)) k' = Some (hval (?h y))"
    if i: "i < bucket_num m" and y: "y \<in> set (L (Suc i))" for i y
  proof -
    obtain k' where k': "k' \<in> K" "hkey (nodes m y) = Some k'" "unat (hash k') mod bucket_num m = i"
        "f k' = Some (hval (nodes m y))"
      using r(11) [OF i y] by blast
    have "k' = k \<longleftrightarrow> y = x"
      using k'(2,3) x inj_onD [OF r(13) [OF i], of y x] y by auto
    then show ?thesis using k' by auto
  qed
  have dom: "\<exists>y\<in>set (L (Suc (unat (hash k') mod bucket_num m))). hkey (?h y) = Some k'"
    if "k' \<in> dom (f(k \<mapsto> v))" for k'
    unfolding key using that r(14) [of k'] x by (cases "k' = k") auto
  have inj: "inj_on (\<lambda>y. hkey (?h y)) (set (L (Suc i)))" if "i < bucket_num m" for i
    unfolding key by (rule r(13) [OF that])
  have vals: "length (hval (?h y)) = unat (ele_size m)" if "y \<in> A" for y
    using r(12) [OF that] v by simp
  let ?m = "m\<lparr>nodes := ?h\<rparr>"
  have eq: "nodes ?m = ?h" "buckets ?m = buckets m" "capacity ?m = capacity m" "ele_size ?m = ele_size m"
    "hash_func ?m = hash_func m" "key_compare_func ?m = key_compare_func m" "free_head ?m = free_head m"
    "free_tail ?m = free_tail m" "count_of ?m = count_of m" "bucket_num ?m = bucket_num m"
    by (simp_all add: bucket_num_def)
  show ?thesis
    unfolding hm_rep_def eq c using r(1-10,15) keys vals inj dom by blast
qed

lemma copy_value_fits:
  "length dst = unat n \<Longrightarrow> unat n \<le> length src \<Longrightarrow> copy_value n dst src = Some (take (unat n) src)"
  by (simp add: copy_value_def blit_def)

lemma queue_pop_rep:
  assumes rep: "hm_rep hash cmp K A L m f" and free: "L 0 = x # F"
  shows "tbox_hashmap_queue_pop m = Some (m\<lparr>free_head := hnext (nodes m x),
      free_tail := (if F = [] then 0 else last F), nodes := (nodes m)(x := (nodes m x)\<lparr>hnext := 0\<rparr>)\<rparr>, x)"
proof -
  note r = hm_repD [OF rep]
  have c: "free_head m = x" "x \<noteq> 0" "chain (nodes m) (hnext (nodes m x)) F"
    using r(8) free by simp_all
  then have "hnext (nodes m x) = 0 \<longleftrightarrow> F = []" by (cases F) auto
  then show ?thesis
    using c r(9) free by (auto simp: tbox_hashmap_queue_pop_def set_next_def Let_def)
qed

lemma find_SomeD: "List.find P xs = Some y \<Longrightarrow> y \<in> set xs \<and> P y"
  by (induction xs) (auto split: if_splits)

lemma first_bucket_spec:
  "i + n \<le> length bs \<Longrightarrow> \<exists>r. first_bucket bs i n = Some r \<and>
     (case r of None \<Rightarrow> (\<forall>j. i \<le> j \<longrightarrow> j < i + n \<longrightarrow> bs ! j = 0) | Some j \<Rightarrow> i \<le> j \<and> j < i + n \<and> bs ! j \<noteq> 0)"
proof (induction n arbitrary: i)
  case (Suc n)
  show ?case
  proof (cases "bs ! i = 0")
    case True
    obtain r where r: "first_bucket bs (Suc i) n = Some r"
        "case r of None \<Rightarrow> (\<forall>j. Suc i \<le> j \<longrightarrow> j < Suc i + n \<longrightarrow> bs ! j = 0) | Some j \<Rightarrow> Suc i \<le> j \<and> j < Suc i + n \<and> bs ! j \<noteq> 0"
      using Suc.IH [of "Suc i"] Suc.prems by auto
    have "\<forall>j. i \<le> j \<longrightarrow> j < i + Suc n \<longrightarrow> bs ! j = 0" if "r = None"
    proof (intro allI impI)
      fix j
      assume "i \<le> j" "j < i + Suc n"
      then show "bs ! j = 0" using r(2) that True by (cases "j = i") simp_all
    qed
    then show ?thesis using r True Suc.prems by (cases r) auto
  qed (use Suc.prems in auto)
qed auto

text \<open>\<^verbatim>\<open>tbox_hashmap_remove_one\<close> takes some entry out and hands over its value; it needs no key.\<close>

lemma remove_one_rep:
  assumes rep: "hm_rep hash cmp K A L m f" and v: "unat (ele_size m) \<le> length v"
  shows "if f = Map.empty then tbox_hashmap_remove_one (Some m) (Some v) = Some (Some m, Some v, TBOX_E_FAILED)
     else \<exists>k w m' L'. f k = Some w \<and>
       tbox_hashmap_remove_one (Some m) (Some v) = Some (Some m', Some (blit v 0 w), TBOX_E_OK) \<and>
       hm_rep hash cmp K A L' m' (f(k := None)) \<and> ele_size m' = ele_size m \<and> capacity m' = capacity m"
proof -
  note r = hm_repD [OF rep]
  obtain b where fb: "first_bucket (buckets m) 0 (bucket_num m) = Some b"
    "case b of None \<Rightarrow> (\<forall>j. 0 \<le> j \<longrightarrow> j < 0 + bucket_num m \<longrightarrow> buckets m ! j = 0)
      | Some j \<Rightarrow> 0 \<le> j \<and> j < 0 + bucket_num m \<and> buckets m ! j \<noteq> 0"
    using first_bucket_spec [of 0 "bucket_num m" "buckets m"] r(4) by auto
  show ?thesis
  proof (cases b)
    case None
    have "L (Suc i) = []" if "i < bucket_num m" for i
      using r(10) [OF that] fb(2) None that by (cases "L (Suc i)") auto
    then have "dom f = {}" using r(3,14) by fastforce
    then show ?thesis using fb(1) None by (simp add: tbox_hashmap_remove_one_def bucket_num_def)
  next
    case (Some i)
    then have i: "i < bucket_num m" "buckets m ! i \<noteq> 0" using fb(2) by auto
    obtain x ys where L: "L (Suc i) = [] @ x # ys" using r(10) [OF i(1)] i(2) by (cases "L (Suc i)") auto
    have x: "buckets m ! i = x" "chain (nodes m) (hnext (nodes m x)) ys" "x \<in> set (L (Suc i))"
      using r(10) [OF i(1)] L by simp_all
    obtain k where k: "hkey (nodes m x) = Some k" "f k = Some (hval (nodes m x))"
      using r(11) [OF i(1) x(3)] by blast
    have "x \<in> A" using hm_rep_nodes(2) [OF rep, of "Suc i" x] x(3) i(1) by simp
    then have "copy_value (ele_size m) v (hval (nodes m x)) = Some (blit v 0 (hval (nodes m x)))"
      using r(12) v by (simp add: copy_value_def)
    moreover let ?m1 = "m\<lparr>buckets := (buckets m)[i := hnext (nodes m x)]\<rparr>"
    obtain m' where "release_node ?m1 x = Some m'"
        "hm_rep hash cmp K A (L(Suc i := [] @ ys, 0 := L 0 @ [x])) m' (f(k := None))"
        "ele_size m' = ele_size m" "capacity m' = capacity m"
      using release_node_rep [OF rep i(1) L k(1), of ?m1] x r(4) i(1) by auto
    ultimately have "tbox_hashmap_remove_one (Some m) (Some v) =
        Some (Some m', Some (blit v 0 (hval (nodes m x))), TBOX_E_OK)"
      using fb(1) Some i x(1) r(4) by (simp add: tbox_hashmap_remove_one_def bucket_num_def)
    moreover have "f \<noteq> Map.empty" using k(2) by auto
    ultimately show ?thesis using k(2) \<open>hm_rep hash cmp K A _ m' _\<close> \<open>ele_size m' = _\<close> \<open>capacity m' = _\<close>
      by (simp only: if_False) blast
  qed
qed

subsection \<open>A new table\<close>

definition buckets_for :: "nat \<Rightarrow> nat" where
  "buckets_for c = (if c \<le> 10 then c else if c \<le> 100 then 10 else (c + 9) div 10)"

lemma bucket_num_for:
  assumes "unat cap + 9 < 2 ^ 32"
  shows "unat (tbox_hashmap_capacity_to_bucket_num cap) = buckets_for (unat cap)"
proof -
  have "unat (cap + 10 - 1) = unat cap + 9"
  proof -
    have "cap + 10 - 1 = cap + 9" by simp
    moreover have "unat (cap + 9) = unat cap + 9" using assms unat_plus_if_fits [of cap 9] by simp
    ultimately show ?thesis by (simp only:)
  qed
  then show ?thesis
    by (simp add: tbox_hashmap_capacity_to_bucket_num_def buckets_for_def word_le_nat_alt unat_div)
qed

lemma queue_push_chain:
  assumes "chain (nodes m) (free_head m) xs" and "free_tail m = (if xs = [] then 0 else last xs)"
    and "distinct xs" and "x \<notin> set xs" and "x \<noteq> 0"
  shows "\<exists>m'. tbox_hashmap_queue_push m x = Some m' \<and> chain (nodes m') (free_head m') (xs @ [x]) \<and>
     free_tail m' = x \<and> (\<forall>y. hkey (nodes m' y) = hkey (nodes m y) \<and> hval (nodes m' y) = hval (nodes m y)) \<and>
     count_of m' = count_of m"
proof -
  define h where "h = (nodes m)(x := (nodes m x)\<lparr>hnext := 0\<rparr>)"
  have hx: "hnext (h x) = 0" and keep: "hkey (h y) = hkey (nodes m y) \<and> hval (h y) = hval (nodes m y)" for y
    by (simp_all add: h_def)
  have ch: "chain h (free_head m) xs"
    using assms(1,4) by (subst chain_cong [where h = "nodes m"]) (auto simp: h_def)
  have head: "free_head m = 0 \<longleftrightarrow> xs = []" using assms(1) chain_nonnull chain_head by (metis hd_in_set)
  show ?thesis
  proof (cases "xs = []")
    case True
    then show ?thesis
      using head assms(5) keep hx
      by (simp add: tbox_hashmap_queue_push_def set_next_def h_def [symmetric])
  next
    case False
    define h2 where "h2 = h(last xs := (h (last xs))\<lparr>hnext := x\<rparr>)"
    have "last xs \<noteq> 0" using chain_nonnull [OF assms(1)] last_in_set [OF False] by metis
    then have "tbox_hashmap_queue_push m x = Some (m\<lparr>nodes := h2, free_tail := x\<rparr>)"
      using head False assms(2,5)
      by (simp add: tbox_hashmap_queue_push_def set_next_def h_def [symmetric] h2_def)
    moreover have "chain h2 (free_head m) (xs @ [x])"
      unfolding h2_def by (rule chain_snoc [OF ch assms(3) False assms(4,5) hx])
    moreover have "hkey (h2 y) = hkey (nodes m y) \<and> hval (h2 y) = hval (nodes m y)" for y
      using keep by (simp add: h2_def)
    ultimately show ?thesis by auto
  qed
qed

text \<open>The address of node \<open>i\<close>, and the addresses of all nodes.\<close>

definition node_addr :: "u32 \<Rightarrow> u32 \<Rightarrow> u32 \<Rightarrow> nat \<Rightarrow> haddr" where
  "node_addr buffer cap ele i = buffer + hashmap_mgr_size (tbox_hashmap_capacity_to_bucket_num cap) +
     of_nat i * (ele + sizeof_node)"

definition table_fits :: "u32 \<Rightarrow> u32 \<Rightarrow> u32 \<Rightarrow> u32 \<Rightarrow> bool" where
  "table_fits buffer sz cap ele \<longleftrightarrow> 0 < unat buffer \<and> 0 < unat cap \<and> 0 < unat ele \<and>
     32 + 4 * buckets_for (unat cap) + (unat ele + 8) * unat cap \<le> unat sz \<and>
     unat buffer + unat sz < 2 ^ 32"

lemma table_fits_sizes:
  assumes "table_fits buffer sz cap ele"
  shows "unat cap + 9 < 2 ^ 32"
    and "unat (hashmap_mgr_size (tbox_hashmap_capacity_to_bucket_num cap)) = 32 + 4 * buckets_for (unat cap)"
    and "unat (ele + sizeof_node) = unat ele + 8"
    and "\<not> sz < hashmap_mgr_size (tbox_hashmap_capacity_to_bucket_num cap) + (ele + sizeof_node) * cap"
proof -
  let ?e = "unat ele + 8" and ?c = "unat cap"
  have f: "32 + 4 * buckets_for ?c + ?e * ?c \<le> unat sz" "unat buffer + unat sz < 2 ^ 32" "0 < ?c" "0 < unat ele"
    using assms by (simp_all add: table_fits_def)
  have "9 * ?c \<le> ?e * ?c" using f(4) by (intro mult_le_mono1) simp
  then show c9: "?c + 9 < 2 ^ 32" using f by linarith
  note b = bucket_num_for [OF c9]
  have "?e \<le> ?e * ?c" using f(3) by simp
  then have "?e < 2 ^ 32" using f by linarith
  then show e: "unat (ele + sizeof_node) = ?e"
    using unat_plus_if_fits [of ele sizeof_node] by (simp add: sizeof_node_def)
  have b4: "4 * buckets_for ?c < 2 ^ 32" "32 + 4 * buckets_for ?c < 2 ^ 32" using f by linarith+
  have "unat (tbox_hashmap_capacity_to_bucket_num cap * 4) = 4 * buckets_for ?c"
    using b4(1) by (simp add: unat_word_ariths b mult.commute)
  then show g: "unat (hashmap_mgr_size (tbox_hashmap_capacity_to_bucket_num cap)) = 32 + 4 * buckets_for ?c"
    using b4(2) by (simp add: hashmap_mgr_size_def sizeof_hashmap_def unat_word_ariths)
  have p: "unat ((ele + sizeof_node) * cap) = ?e * ?c"
    using f by (simp add: unat_word_ariths(2) e)
  have "unat (hashmap_mgr_size (tbox_hashmap_capacity_to_bucket_num cap) + (ele + sizeof_node) * cap) =
      32 + 4 * buckets_for ?c + ?e * ?c"
    using f g p by (simp add: unat_word_ariths(1))
  then show "\<not> sz < hashmap_mgr_size (tbox_hashmap_capacity_to_bucket_num cap) + (ele + sizeof_node) * cap"
    using f(1) by (simp add: word_less_nat_alt)
qed

lemma unat_node_addr:
  assumes fits: "table_fits buffer sz cap ele" and i: "i \<le> unat cap"
  shows "unat (node_addr buffer cap ele i) =
     unat buffer + 32 + 4 * buckets_for (unat cap) + i * (unat ele + 8)"
proof -
  note s = table_fits_sizes [OF fits]
  have le: "i * (unat ele + 8) \<le> (unat ele + 8) * unat cap"
    using i by (simp add: mult.commute)
  have f: "32 + 4 * buckets_for (unat cap) + (unat ele + 8) * unat cap \<le> unat sz" "unat buffer + unat sz < 2 ^ 32"
    using fits by (simp_all add: table_fits_def)
  have i32: "i < 2 ^ 32" using i unat_u32_lt [of cap] by simp
  have "i * (unat ele + 8) < 2 ^ 32" using le f by linarith
  then have "unat (of_nat i * (ele + sizeof_node)) = i * (unat ele + 8)"
    using s(3) i32 by (simp add: unat_word_ariths(2) unat_of_nat)
  moreover have "unat (buffer + hashmap_mgr_size (tbox_hashmap_capacity_to_bucket_num cap)) =
      unat buffer + (32 + 4 * buckets_for (unat cap))"
    using f s(2) by (simp add: unat_word_ariths(1))
  moreover have "unat buffer + (32 + 4 * buckets_for (unat cap)) + i * (unat ele + 8) < 2 ^ 32"
    using f le by linarith
  ultimately show ?thesis
    unfolding node_addr_def by (subst unat_plus_if_fits) (simp_all add: add.assoc)
qed

lemma node_addr_facts:
  assumes fits: "table_fits buffer sz cap ele" and i: "i < unat cap"
  shows "node_addr buffer cap ele i \<noteq> 0"
    and "\<And>j. j < i \<Longrightarrow> node_addr buffer cap ele j \<noteq> node_addr buffer cap ele i"
    and "node_addr buffer cap ele i + ele + sizeof_node = node_addr buffer cap ele (Suc i)"
    and "unat buffer \<le> unat (node_addr buffer cap ele i)"
    and "unat (node_addr buffer cap ele i) + 8 + unat ele \<le> unat buffer + unat sz"
proof -
  note u = unat_node_addr [OF fits]
  have pos: "0 < unat buffer" and f: "32 + 4 * buckets_for (unat cap) + (unat ele + 8) * unat cap \<le> unat sz"
    using fits by (simp_all add: table_fits_def)
  have "0 < unat (node_addr buffer cap ele i)" using u [of i] i pos by simp
  then show "node_addr buffer cap ele i \<noteq> 0" by (simp add: unat_gt_0)
  show "node_addr buffer cap ele i + ele + sizeof_node = node_addr buffer cap ele (Suc i)"
    by (simp add: node_addr_def algebra_simps)
  show "unat buffer \<le> unat (node_addr buffer cap ele i)" using u [of i] i by simp
  have "Suc i * (unat ele + 8) \<le> unat cap * (unat ele + 8)" using i by (intro mult_le_mono1) simp
  then show "unat (node_addr buffer cap ele i) + 8 + unat ele \<le> unat buffer + unat sz"
    using u [of i] i f by (simp add: algebra_simps)
  fix j
  assume "j < i"
  then have "j * (unat ele + 8) < i * (unat ele + 8)" by simp
  then show "node_addr buffer cap ele j \<noteq> node_addr buffer cap ele i"
    using u [of i] u [of j] i \<open>j < i\<close> by auto
qed

text \<open>The loop that fills the free queue.\<close>

definition free_upto :: "u32 \<Rightarrow> u32 \<Rightarrow> u32 \<Rightarrow> nat \<Rightarrow> haddr list" where
  "free_upto buffer cap ele j = map (node_addr buffer cap ele) [0..<j]"

lemma create_loop_rep:
  fixes m :: "'k TBOX_HASHMAP"
  assumes fits: "table_fits buffer sz cap ele"
    and m: "free_head m = 0" "free_tail m = 0" "\<And>y. hkey (nodes m y) = None \<and> length (hval (nodes m y)) = unat ele"
  shows "\<exists>m' ptr. for_up 0 (unat cap) (\<lambda>i (mp, ptr). do {
        let h = (nodes mp)(ptr := (nodes mp ptr)\<lparr>hkey := None, hnext := 0\<rparr>);
        mp \<leftarrow> tbox_hashmap_queue_push (mp\<lparr>nodes := h\<rparr>) ptr;
        Some (mp, ptr + ele + sizeof_node)
      }) (m, node_addr buffer cap ele 0) = Some (m', ptr) \<and>
    chain (nodes m') (free_head m') (free_upto buffer cap ele (unat cap)) \<and>
    free_tail m' = (if free_upto buffer cap ele (unat cap) = [] then 0 else last (free_upto buffer cap ele (unat cap))) \<and>
    (\<forall>y. hkey (nodes m' y) = None \<and> length (hval (nodes m' y)) = unat ele) \<and>
    distinct (free_upto buffer cap ele (unat cap))"
proof -
  let ?fs = "free_upto buffer cap ele"
  define I where "I j = (\<lambda>(mp :: 'k TBOX_HASHMAP, ptr). ptr = node_addr buffer cap ele j \<and>
    chain (nodes mp) (free_head mp) (?fs j) \<and> free_tail mp = (if ?fs j = [] then 0 else last (?fs j)) \<and>
    (\<forall>y. hkey (nodes mp y) = None \<and> length (hval (nodes mp y)) = unat ele) \<and> distinct (?fs j))" for j
  let ?body = "\<lambda>i (mp :: 'k TBOX_HASHMAP, ptr). do {
        let h = (nodes mp)(ptr := (nodes mp ptr)\<lparr>hkey := None, hnext := 0\<rparr>);
        mp \<leftarrow> tbox_hashmap_queue_push (mp\<lparr>nodes := h\<rparr>) ptr;
        Some (mp, ptr + ele + sizeof_node)
      }"
  have "\<exists>s'. for_up 0 (unat cap) ?body (m, node_addr buffer cap ele 0) = Some s' \<and> I (0 + unat cap) s'"
  proof (rule for_up_inv)
    show "I 0 (m, node_addr buffer cap ele 0)" using m by (simp add: I_def free_upto_def)
    fix j t
    assume j: "j < 0 + unat cap" and t: "I j t"
    obtain mp ptr where mp: "t = (mp, ptr)" by (cases t)
    note a = node_addr_facts [OF fits, of j, simplified, OF j [simplified]]
    have I: "ptr = node_addr buffer cap ele j" "chain (nodes mp) (free_head mp) (?fs j)"
      "free_tail mp = (if ?fs j = [] then 0 else last (?fs j))" "distinct (?fs j)"
      "\<And>y. hkey (nodes mp y) = None" "\<And>y. length (hval (nodes mp y)) = unat ele"
      using t by (simp_all add: I_def mp)
    have fresh: "ptr \<notin> set (?fs j)" using a(2) I(1) by (force simp: free_upto_def)
    let ?mp = "mp\<lparr>nodes := (nodes mp)(ptr := (nodes mp ptr)\<lparr>hkey := None, hnext := 0\<rparr>)\<rparr>"
    have "chain (nodes ?mp) (free_head ?mp) (?fs j)"
      using I(2) fresh by (subst chain_cong [where h = "nodes mp"]) auto
    moreover have "free_tail ?mp = (if ?fs j = [] then 0 else last (?fs j))" using I(3) by simp
    moreover have "ptr \<noteq> 0" using a(1) I(1) by simp
    ultimately obtain m' where m': "tbox_hashmap_queue_push ?mp ptr = Some m'"
        "chain (nodes m') (free_head m') (?fs j @ [ptr])" "free_tail m' = ptr"
        "\<And>y. hkey (nodes m' y) = hkey (nodes ?mp y) \<and> hval (nodes m' y) = hval (nodes ?mp y)"
      using queue_push_chain [OF _ _ I(4) fresh, of ?mp] by blast
    have keep: "hkey (nodes m' y) = None \<and> length (hval (nodes m' y)) = unat ele" for y
      using m'(4) [of y] I(5,6) by simp
    have fs: "?fs (Suc j) = ?fs j @ [ptr]" by (simp add: free_upto_def I(1))
    have "I (Suc j) (m', ptr + ele + sizeof_node)"
      using m'(2,3) keep fresh I(4) a(3) by (simp add: I_def fs I(1))
    then show "\<exists>t'. ?body j t = Some t' \<and> I (Suc j) t'"
      using m'(1) by (simp add: mp Let_def)
  qed
  then obtain s' where s': "for_up 0 (unat cap) ?body (m, node_addr buffer cap ele 0) = Some s'" "I (unat cap) s'"
    by auto
  obtain m' ptr where e: "s' = (m', ptr)" by (cases s')
  show ?thesis
    using s'(1) s'(2) [unfolded e I_def split] unfolding e by blast
qed

lemma create_rep:
  assumes fits: "table_fits buffer sz cap ele"
  shows "\<exists>m A L. tbox_hashmap_create buffer sz cap ele (Some hash) (Some cmp) = Some (Some m) \<and>
     hm_rep hash cmp K A L m Map.empty \<and> capacity m = cap \<and> ele_size m = ele \<and>
     (\<forall>x\<in>A. unat buffer \<le> unat x \<and> unat x + 8 + unat ele \<le> unat buffer + unat sz)"
proof -
  let ?bn = "tbox_hashmap_capacity_to_bucket_num cap"
  let ?fs = "free_upto buffer cap ele (unat cap)"
  let ?m0 = "\<lparr>capacity = 0, ele_size = 0, count_of = 0, hash_func = None, key_compare_func = None,
    buckets = [], free_head = 0, free_tail = 0, nodes = (\<lambda>_. zero_node ele)\<rparr> :: 'a TBOX_HASHMAP"
  note s = table_fits_sizes [OF fits]
  have pos: "buffer \<noteq> 0" "cap \<noteq> 0" "ele \<noteq> 0" "sz \<noteq> 0"
    using fits by (auto simp: table_fits_def)
  have start: "buffer + hashmap_mgr_size ?bn = node_addr buffer cap ele 0" by (simp add: node_addr_def)
  obtain m1 ptr where m1: "for_up 0 (unat cap) (\<lambda>i (mp, ptr). do {
        let h = (nodes mp)(ptr := (nodes mp ptr)\<lparr>hkey := None, hnext := 0\<rparr>);
        mp \<leftarrow> tbox_hashmap_queue_push (mp\<lparr>nodes := h\<rparr>) ptr;
        Some (mp, ptr + ele + sizeof_node)
      }) (?m0, node_addr buffer cap ele 0) = Some (m1, ptr)"
      "chain (nodes m1) (free_head m1) ?fs" "free_tail m1 = (if ?fs = [] then 0 else last ?fs)"
      "\<And>y. hkey (nodes m1 y) = None \<and> length (hval (nodes m1 y)) = unat ele" "distinct ?fs"
    using create_loop_rep [OF fits, of ?m0] by (auto simp: zero_node_def)
  define m where "m = m1\<lparr>buckets := replicate (unat ?bn) 0, capacity := cap, ele_size := ele,
    count_of := 0, hash_func := Some hash, key_compare_func := Some cmp\<rparr>"
  have init: "tbox_hashmap_init_queue ?m0 = ?m0" by (simp add: tbox_hashmap_init_queue_def)
  have "tbox_hashmap_create buffer sz cap ele (Some hash) (Some cmp) = Some (Some m)"
    using pos s(4) m1(1)
    by (simp add: tbox_hashmap_create_def Let_def init start m_def)
  moreover have "hm_rep hash cmp K (set ?fs) (\<lambda>j. if j = 0 then ?fs else []) m Map.empty"
  proof -
    have n: "bucket_num m = unat ?bn" by (simp add: bucket_num_def m_def)
    have eq: "hash_func m = Some hash" "key_compare_func m = Some cmp" "buckets m = replicate (unat ?bn) 0"
      "capacity m = cap" "ele_size m = ele" "count_of m = 0" "nodes m = nodes m1"
      "free_head m = free_head m1" "free_tail m = free_tail m1"
      by (simp_all add: m_def)
    have len: "length ?fs = unat cap" by (simp add: free_upto_def)
    have np: "0 < unat ?bn"
      using bucket_num_for [OF s(1)] pos(2) unat_gt_0 [of cap]
      by (auto simp: buckets_for_def div_greater_zero_iff)
    have card: "card (set ?fs) = unat cap" using distinct_card [OF m1(5)] by (simp add: free_upto_def)
    have "0 \<notin> set ?fs" using chain_nonnull [OF m1(2)] .
    moreover have "shared_out (unat ?bn) (\<lambda>j. if j = 0 then ?fs else []) (set ?fs)"
    proof -
      have "(\<Sum>j\<le>unat ?bn. mset (if j = 0 then ?fs else [])) = (\<Sum>j\<le>unat ?bn. if j = 0 then mset ?fs else {#})"
        by (rule sum.cong) auto
      also have "\<dots> = mset ?fs" by (simp add: sum.delta)
      finally show ?thesis using m1(5) by (simp add: shared_out_def mset_set_set)
    qed
    ultimately show ?thesis
      using m1(2-4) np card by (simp add: hm_rep_def n eq len)
  qed
  moreover have "unat buffer \<le> unat x \<and> unat x + 8 + unat ele \<le> unat buffer + unat sz" if "x \<in> set ?fs" for x
    using that node_addr_facts(4,5) [OF fits] by (auto simp: free_upto_def)
  moreover have "capacity m = cap" "ele_size m = ele" by (simp_all add: m_def)
  ultimately show ?thesis by blast
qed

section \<open>What a client relies on\<close>

text \<open>
  The contract of the two function pointers: on the keys in use, the comparison is equality.
  The table needs nothing of the hash function.
\<close>

locale key_contract =
  fixes K :: "'k set" and hash :: "'k \<Rightarrow> u32" and cmp :: "'k \<Rightarrow> 'k \<Rightarrow> bool"
  assumes cmp_eq: "k \<in> K \<Longrightarrow> k' \<in> K \<Longrightarrow> cmp k k' \<longleftrightarrow> k = k'"
begin

lemma find_node:
  assumes rep: "hm_rep hash cmp K A L m f" and k: "k \<in> K"
  shows "case f k of None \<Rightarrow> tbox_hashmap_find_node m k = Some 0
     | Some v \<Rightarrow> \<exists>x\<in>set (L (Suc (unat (hash k) mod bucket_num m))).
         tbox_hashmap_find_node m k = Some x \<and> hkey (nodes m x) = Some k \<and> hval (nodes m x) = v"
proof -
  note r = hm_repD [OF rep]
  let ?i = "unat (hash k) mod bucket_num m"
  let ?P = "\<lambda>x. hkey (nodes m x) = Some k"
  have i: "?i < bucket_num m" using r(3) by simp
  have "\<exists>k'. hkey (nodes m x) = Some k' \<and> (cmp k k' \<longleftrightarrow> k = k')" if "x \<in> set (L (Suc ?i))" for x
    using r(11) [OF i that] cmp_eq k by blast
  moreover have "length (L (Suc ?i)) \<le> unat (capacity m)"
    using shared_out_facts(3) [OF r(7), of "Suc ?i"] r(5) i by simp
  ultimately have f: "tbox_hashmap_find_node m k =
      Some (case List.find ?P (L (Suc ?i)) of None \<Rightarrow> 0 | Some x \<Rightarrow> x)"
    using find_loop_chain [OF r(10) [OF i]] hm_rep_index [OF rep, of k] r(2,4)
    by (simp add: tbox_hashmap_find_node_def)
  show ?thesis
  proof (cases "f k")
    case None
    then have "\<not> ?P x" if "x \<in> set (L (Suc ?i))" for x using r(11) [OF i that] by auto
    then have "List.find ?P (L (Suc ?i)) = None" by (simp add: find_None_iff)
    then show ?thesis using f None by simp
  next
    case (Some v)
    then obtain x where "x \<in> set (L (Suc ?i))" "?P x" using r(14) [of k] by blast
    then have "List.find ?P (L (Suc ?i)) \<noteq> None" by (auto simp: find_None_iff)
    then obtain y where y: "List.find ?P (L (Suc ?i)) = Some y" by blast
    note yP = find_SomeD [OF y]
    have v: "hval (nodes m y) = v" using r(11) [OF i, of y] yP Some by auto
    have "tbox_hashmap_find_node m k = Some y" using f y by simp
    with yP v show ?thesis unfolding Some option.case by blast
  qed
qed

lemma put_existing:
  assumes rep: "hm_rep hash cmp K A L m f" and k: "k \<in> K" "f k = Some w" and v: "unat (ele_size m) \<le> length v"
  shows "\<exists>m'. tbox_hashmap_put (Some m) (Some k) (Some v) = Some (Some m', TBOX_E_OK) \<and>
      hm_rep hash cmp K A L m' (f(k \<mapsto> take (unat (ele_size m)) v)) \<and>
      ele_size m' = ele_size m \<and> capacity m' = capacity m"
proof -
  note r = hm_repD [OF rep]
  have i: "Suc (unat (hash k) mod bucket_num m) \<le> bucket_num m" using r(3) by (simp add: Suc_le_eq)
  obtain x where x: "x \<in> set (L (Suc (unat (hash k) mod bucket_num m)))"
      "tbox_hashmap_find_node m k = Some x" "hkey (nodes m x) = Some k"
    using find_node [OF rep k(1)] k(2) by auto
  have nz: "x \<noteq> 0" "x \<in> A" using hm_rep_nodes [OF rep i x(1)] by auto
  have "copy_value (ele_size m) (hval (nodes m x)) v = Some (take (unat (ele_size m)) v)"
    using r(12) [OF nz(2)] v by (rule copy_value_fits)
  then have "tbox_hashmap_put (Some m) (Some k) (Some v) =
      Some (Some (m\<lparr>nodes := (nodes m)(x := (nodes m x)\<lparr>hval := take (unat (ele_size m)) v\<rparr>)\<rparr>), TBOX_E_OK)"
    using x(2) nz(1) by (simp add: tbox_hashmap_put_def)
  moreover have "length (take (unat (ele_size m)) v) = unat (ele_size m)" using v by simp
  ultimately show ?thesis
    using hm_rep_revalue [OF rep k(1) x(1,3)] by (intro exI conjI) (assumption, blast, simp_all)
qed

lemma put_new:
  assumes rep: "hm_rep hash cmp K A L m f" and k: "k \<in> K" "f k = None" and v: "unat (ele_size m) \<le> length v"
    and free: "L 0 = x # F"
  shows "\<exists>m' L'. tbox_hashmap_put (Some m) (Some k) (Some v) = Some (Some m', TBOX_E_OK) \<and>
      hm_rep hash cmp K A L' m' (f(k \<mapsto> take (unat (ele_size m)) v)) \<and>
      ele_size m' = ele_size m \<and> capacity m' = capacity m"
proof -
  note r = hm_repD [OF rep]
  let ?i = "unat (hash k) mod bucket_num m" and ?v = "take (unat (ele_size m)) v"
  let ?L = "L(0 := F, Suc ?i := L (Suc ?i) @ [x])"
  have i: "?i < bucket_num m" and i': "Suc ?i \<le> bucket_num m" using r(3) by (simp_all add: Suc_le_eq)
  have x: "x \<noteq> 0" "x \<in> A" "x \<notin> set (L (Suc ?i))"
    using hm_rep_nodes [OF rep, of 0 x] free i' by auto
  have ne: "\<not> tbox_hashmap_queue_isempty m"
    using r(8) free by (simp add: tbox_hashmap_queue_isempty_def)
  have find: "tbox_hashmap_find_node m k = Some 0" using find_node [OF rep k(1)] k(2) by simp
  let ?h0 = "(nodes m)(x := (nodes m x)\<lparr>hnext := 0\<rparr>)"
  let ?m1 = "m\<lparr>free_head := hnext (nodes m x), free_tail := (if F = [] then 0 else last F), nodes := ?h0\<rparr>"
  let ?h = "?h0(x := \<lparr>hkey = Some k, hnext = 0, hval = ?v\<rparr>)"
  have copy: "copy_value (ele_size m) (hval (nodes m x)) v = Some ?v"
    using r(12) [OF x(2)] v by (rule copy_value_fits)
  have index: "bucket_index ?m1 k = Some ?i"
    using hm_rep_index(1) [OF rep, of k] by (simp add: bucket_index_def)
  have rd: "rd (buckets m) ?i = Some (buckets m ! ?i)" using r(4) i by simp
  have len: "length ?v = unat (ele_size m)" using v by simp
  note ch = r(10) [OF i]
  have len_L: "length (L (Suc ?i)) \<le> unat (capacity m)" and dist: "distinct (L (Suc ?i))"
    using shared_out_facts [OF r(7) i'] r(5) by simp_all
  have ch_h: "chain ?h (buckets m ! ?i) (L (Suc ?i))"
    using ch x(3) by (subst chain_cong [where h = "nodes m"]) auto
  note insert = hm_rep_insert [OF rep k free refl len]
  show ?thesis
  proof (cases "L (Suc ?i) = []")
    case True
    then have b: "buckets m ! ?i = 0" using ch by simp
    let ?m = "?m1\<lparr>nodes := ?h, buckets := (buckets m)[?i := x], count_of := count_of m + 1\<rparr>"
    have "tbox_hashmap_put (Some m) (Some k) (Some v) = Some (Some ?m, TBOX_E_OK)"
      using find ne queue_pop_rep [OF rep free] x(1) index rd b r(4) i
      by (simp add: tbox_hashmap_put_def copy)
    moreover have "hm_rep hash cmp K A ?L ?m (f(k \<mapsto> ?v))"
      by (rule insert) (use True x(1) r(4) i in \<open>simp_all\<close>)
    ultimately show ?thesis by (intro exI [of _ ?m] exI [of _ ?L]) simp
  next
    case False
    define h2 where "h2 = ?h(last (L (Suc ?i)) := (?h (last (L (Suc ?i))))\<lparr>hnext := x\<rparr>)"
    have b: "buckets m ! ?i \<noteq> 0" using ch False chain_nonnull chain_head by (metis hd_in_set)
    have ap: "append_loop ?h x (unat (capacity m)) (buckets m ! ?i) = Some h2"
      unfolding h2_def by (rule append_loop_chain [OF ch_h False len_L])
    have last_x: "last (L (Suc ?i)) \<noteq> x" "last (L (Suc ?i)) \<in> set (L (Suc ?i))"
      using x(3) last_in_set [OF False] by auto
    have h2: "hkey (h2 x) = Some k" "hval (h2 x) = ?v"
      "\<And>y. y \<noteq> x \<Longrightarrow> hkey (h2 y) = hkey (nodes m y) \<and> hval (h2 y) = hval (nodes m y)"
      "\<And>y. y \<notin> set (x # L (Suc ?i)) \<Longrightarrow> hnext (h2 y) = hnext (nodes m y)"
      unfolding h2_def using last_x by auto
    let ?m = "?m1\<lparr>nodes := h2, count_of := count_of m + 1\<rparr>"
    have "tbox_hashmap_put (Some m) (Some k) (Some v) = Some (Some ?m, TBOX_E_OK)"
      using find ne queue_pop_rep [OF rep free] x(1) index rd b ap
      by (simp add: tbox_hashmap_put_def copy)
    moreover have c2: "chain h2 (buckets m ! ?i) (L (Suc ?i) @ [x])"
      unfolding h2_def by (rule chain_snoc [OF ch_h dist False x(3) x(1)]) simp
    have "hm_rep hash cmp K A ?L ?m (f(k \<mapsto> ?v))"
      by (rule insert) (use c2 h2 in simp_all)
    ultimately show ?thesis by (intro exI [of _ ?m] exI [of _ ?L]) simp
  qed
qed

lemma put_full:
  assumes rep: "hm_rep hash cmp K A L m f" and k: "k \<in> K" "f k = None" and full: "L 0 = []"
  shows "tbox_hashmap_put (Some m) (Some k) (Some v) = Some (Some m, TBOX_E_NOMEMORY)"
  using find_node [OF rep k(1)] k(2) hm_repD(8,9) [OF rep] full
  by (simp add: tbox_hashmap_put_def tbox_hashmap_queue_isempty_def)

lemma get_law:
  assumes rep: "hm_rep hash cmp K A L m f" and k: "k \<in> K" and v: "unat (ele_size m) \<le> length v"
  shows "tbox_hashmap_get (Some m) (Some k) (Some v) =
     (case f k of None \<Rightarrow> Some (Some v, TBOX_E_NOFOUND) | Some w \<Rightarrow> Some (Some (blit v 0 w), TBOX_E_OK))"
proof (cases "f k")
  case None
  then show ?thesis using find_node [OF rep k] by (simp add: tbox_hashmap_get_def)
next
  case (Some w)
  note r = hm_repD [OF rep]
  have i: "Suc (unat (hash k) mod bucket_num m) \<le> bucket_num m" using r(3) by (simp add: Suc_le_eq)
  obtain x where x: "x \<in> set (L (Suc (unat (hash k) mod bucket_num m)))"
      "tbox_hashmap_find_node m k = Some x" "hval (nodes m x) = w"
    using find_node [OF rep k] Some by auto
  have "x \<noteq> 0" "x \<in> A" using hm_rep_nodes [OF rep i x(1)] by auto
  moreover have "length w = unat (ele_size m)" using r(12) calculation(2) x(3) by auto
  ultimately show ?thesis using x Some v by (simp add: tbox_hashmap_get_def copy_value_def)
qed

lemma remove_absent:
  assumes rep: "hm_rep hash cmp K A L m f" and k: "k \<in> K" "f k = None"
  shows "tbox_hashmap_remove (Some m) (Some k) = Some (Some m)"
  using find_node [OF rep k(1)] k(2) by (simp add: tbox_hashmap_remove_def)

lemma remove_present:
  assumes rep: "hm_rep hash cmp K A L m f" and k: "k \<in> K" "f k = Some w"
  shows "\<exists>m' L'. tbox_hashmap_remove (Some m) (Some k) = Some (Some m') \<and>
      hm_rep hash cmp K A L' m' (f(k := None)) \<and> ele_size m' = ele_size m \<and> capacity m' = capacity m"
proof -
  note r = hm_repD [OF rep]
  let ?i = "unat (hash k) mod bucket_num m"
  have i: "?i < bucket_num m" and i': "Suc ?i \<le> bucket_num m" using r(3) by (simp_all add: Suc_le_eq)
  obtain x where x: "x \<in> set (L (Suc ?i))" "tbox_hashmap_find_node m k = Some x" "hkey (nodes m x) = Some k"
    using find_node [OF rep k(1)] k(2) by auto
  obtain xs ys where L: "L (Suc ?i) = xs @ x # ys" using x(1) by (meson split_list)
  have nz: "x \<noteq> 0" using hm_rep_nodes [OF rep i' x(1)] by auto
  have dist: "distinct (xs @ x # ys)" and len: "length (xs @ x # ys) \<le> unat (capacity m)"
    using shared_out_facts(1,3) [OF r(7) i'] r(5) L by simp_all
  note index = hm_rep_index(1) [OF rep, of k]
  note ch = r(10) [OF i, unfolded L]
  note release = release_node_rep [OF rep i L x(3)]
  have rd: "rd (buckets m) ?i = Some (buckets m ! ?i)" using r(4) i by simp
  show ?thesis
  proof (cases xs rule: rev_cases)
    case Nil
    then have b: "buckets m ! ?i = x" "chain (nodes m) (hnext (nodes m x)) ys" using ch by simp_all
    let ?m1 = "m\<lparr>buckets := (buckets m)[?i := hnext (nodes m x)]\<rparr>"
    obtain m' where "release_node ?m1 x = Some m'"
        "hm_rep hash cmp K A (L(Suc ?i := xs @ ys, 0 := L 0 @ [x])) m' (f(k := None))"
        "ele_size m' = ele_size m" "capacity m' = capacity m"
      using release [of ?m1] b Nil r(4) i by auto
    moreover have "tbox_hashmap_remove (Some m) (Some k) = map_option Some (release_node ?m1 x)"
      using x(2) nz index rd b r(4) i
      by (simp add: tbox_hashmap_remove_def) (cases "release_node ?m1 x"; simp)
    ultimately show ?thesis by auto
  next
    case (snoc zs p)
    define h where "h = (nodes m)(p := (nodes m p)\<lparr>hnext := hnext (nodes m x)\<rparr>)"
    have ch': "chain (nodes m) (buckets m ! ?i) (zs @ p # x # ys)" "distinct (zs @ p # x # ys)"
      using ch dist snoc by simp_all
    have b: "buckets m ! ?i \<noteq> x" using chain_head [OF ch] dist snoc by (cases zs) auto
    have "unlink_loop (nodes m) x (unat (capacity m)) (buckets m ! ?i) = Some h"
      unfolding h_def using len snoc by (intro unlink_loop_chain [OF ch']) simp
    moreover have h: "chain h (buckets m ! ?i) (xs @ ys)"
      using chain_remove [OF ch'] snoc by (simp add: h_def)
    have "hkey (h y) = hkey (nodes m y) \<and> hval (h y) = hval (nodes m y)"
      "y \<notin> set xs \<Longrightarrow> hnext (h y) = hnext (nodes m y)" for y
      using snoc by (auto simp: h_def)
    with h obtain m' where "release_node (m\<lparr>nodes := h\<rparr>) x = Some m'"
        "hm_rep hash cmp K A (L(Suc ?i := xs @ ys, 0 := L 0 @ [x])) m' (f(k := None))"
        "ele_size m' = ele_size m" "capacity m' = capacity m"
      using release [of "m\<lparr>nodes := h\<rparr>"] by auto
    moreover have "tbox_hashmap_remove (Some m) (Some k) = map_option Some (release_node (m\<lparr>nodes := h\<rparr>) x)"
      using x(2) nz index rd b calculation(1)
      by (simp add: tbox_hashmap_remove_def) (cases "release_node (m\<lparr>nodes := h\<rparr>) x"; simp)
    ultimately show ?thesis by auto
  qed
qed

text \<open>Every operation, on the abstract map.\<close>

lemma put_refines:
  assumes rep: "hm_rep hash cmp K A L m f" and k: "k \<in> K" and v: "unat (ele_size m) \<le> length v"
  shows "if k \<notin> dom f \<and> card (dom f) = unat (capacity m)
     then tbox_hashmap_put (Some m) (Some k) (Some v) = Some (Some m, TBOX_E_NOMEMORY)
     else \<exists>m' L'. tbox_hashmap_put (Some m) (Some k) (Some v) = Some (Some m', TBOX_E_OK) \<and>
       hm_rep hash cmp K A L' m' (f(k \<mapsto> take (unat (ele_size m)) v)) \<and>
       ele_size m' = ele_size m \<and> capacity m' = capacity m"
proof -
  have full: "card (dom f) = unat (capacity m) \<longleftrightarrow> L 0 = []"
    using hm_rep_count(2) [OF rep] hm_repD(15) [OF rep] by auto
  show ?thesis
  proof (cases "f k")
    case (Some w)
    then show ?thesis using put_existing [OF rep k Some v] by auto
  next
    case None
    then show ?thesis
      using full put_full [OF rep k None] put_new [OF rep k None v] by (cases "L 0") auto
  qed
qed

lemma remove_refines:
  assumes rep: "hm_rep hash cmp K A L m f" and k: "k \<in> K"
  shows "\<exists>m' L'. tbox_hashmap_remove (Some m) (Some k) = Some (Some m') \<and>
     hm_rep hash cmp K A L' m' (f(k := None)) \<and> ele_size m' = ele_size m \<and> capacity m' = capacity m"
proof (cases "f k")
  case None
  then have "f(k := None) = f" by auto
  then show ?thesis using remove_absent [OF rep k None] rep by auto
next
  case (Some w)
  then show ?thesis using remove_present [OF rep k] by blast
qed

end

section \<open>Runs of operations\<close>

datatype 'k hm_op = HPut 'k "u8 list" | HGet 'k | HRemove 'k | HCount

datatype hm_out = HCode TBOX_ERROR_CODE | HValue "u8 list" | HDone | HNumber nat

text \<open>A call on the table, with a value buffer of the right size.\<close>

fun hm_step :: "'k TBOX_HASHMAP \<Rightarrow> 'k hm_op \<Rightarrow> ('k TBOX_HASHMAP \<times> hm_out) option" where
  "hm_step m (HPut k v) = do {
     (mo, r) \<leftarrow> tbox_hashmap_put (Some m) (Some k) (Some v); m' \<leftarrow> mo; Some (m', HCode r) }"
| "hm_step m (HGet k) = do {
     (vo, r) \<leftarrow> tbox_hashmap_get (Some m) (Some k) (Some (replicate (unat (ele_size m)) 0));
     v \<leftarrow> vo; Some (m, if r = TBOX_E_OK then HValue v else HCode r) }"
| "hm_step m (HRemove k) = do {
     mo \<leftarrow> tbox_hashmap_remove (Some m) (Some k); m' \<leftarrow> mo; Some (m', HDone) }"
| "hm_step m HCount = Some (m, HNumber (unat (tbox_hashmap_get_count (Some m))))"

fun hm_run :: "'k TBOX_HASHMAP \<Rightarrow> 'k hm_op list \<Rightarrow> hm_out list option" where
  "hm_run m [] = Some []"
| "hm_run m (op # ops) = do {
     (m', out) \<leftarrow> hm_step m op; outs \<leftarrow> hm_run m' ops; Some (out # outs) }"

text \<open>The specification: a finite map of at most \<open>cap\<close> entries, values of \<open>ele\<close> bytes.\<close>

fun map_step :: "nat \<Rightarrow> nat \<Rightarrow> ('k \<rightharpoonup> u8 list) \<Rightarrow> 'k hm_op \<Rightarrow> ('k \<rightharpoonup> u8 list) \<times> hm_out" where
  "map_step cap ele f (HPut k v) =
     (if k \<notin> dom f \<and> card (dom f) = cap then (f, HCode TBOX_E_NOMEMORY)
      else (f(k \<mapsto> take ele v), HCode TBOX_E_OK))"
| "map_step cap ele f (HGet k) =
     (f, case f k of None \<Rightarrow> HCode TBOX_E_NOFOUND | Some v \<Rightarrow> HValue v)"
| "map_step cap ele f (HRemove k) = (f(k := None), HDone)"
| "map_step cap ele f HCount = (f, HNumber (card (dom f)))"

fun map_run :: "nat \<Rightarrow> nat \<Rightarrow> ('k \<rightharpoonup> u8 list) \<Rightarrow> 'k hm_op list \<Rightarrow> hm_out list" where
  "map_run cap ele f [] = []"
| "map_run cap ele f (op # ops) = (let (f', out) = map_step cap ele f op in out # map_run cap ele f' ops)"

definition op_ok :: "'k set \<Rightarrow> nat \<Rightarrow> 'k hm_op \<Rightarrow> bool" where
  "op_ok K ele op = (case op of HPut k v \<Rightarrow> k \<in> K \<and> ele \<le> length v | HGet k \<Rightarrow> k \<in> K
     | HRemove k \<Rightarrow> k \<in> K | HCount \<Rightarrow> True)"

context key_contract
begin

lemma step_refines:
  assumes rep: "hm_rep hash cmp K A L m f" and op: "op_ok K (unat (ele_size m)) op"
  shows "\<exists>m' L'. hm_step m op = Some (m', snd (map_step (unat (capacity m)) (unat (ele_size m)) f op)) \<and>
     hm_rep hash cmp K A L' m' (fst (map_step (unat (capacity m)) (unat (ele_size m)) f op)) \<and>
     ele_size m' = ele_size m \<and> capacity m' = capacity m"
proof (cases op)
  case (HPut k v)
  then show ?thesis
    using put_refines [OF rep, of k v] op rep by (auto simp: op_ok_def split: if_splits)
next
  case (HGet k)
  have "length w = unat (ele_size m)" if w: "f k = Some w" for w
  proof -
    have k: "k \<in> dom f" "unat (hash k) mod bucket_num m < bucket_num m"
      using w hm_repD(3) [OF rep] by auto
    from hm_repD(14) [OF rep k(1)] obtain x where x: "x \<in> set (L (Suc (unat (hash k) mod bucket_num m)))"
      "hkey (nodes m x) = Some k" by blast
    then have "hval (nodes m x) = w" using hm_repD(11) [OF rep k(2) x(1)] w by auto
    moreover have "x \<in> A" using hm_rep_nodes(2) [OF rep _ x(1)] k(2) by simp
    ultimately show ?thesis using hm_repD(12) [OF rep] by auto
  qed
  then show ?thesis
    using get_law [OF rep, of k "replicate (unat (ele_size m)) 0"] op rep HGet
    by (cases "f k") (auto simp: op_ok_def blit_def)
next
  case (HRemove k)
  then show ?thesis using remove_refines [OF rep, of k] op by (auto simp: op_ok_def)
next
  case HCount
  then show ?thesis using hm_rep_count(2) [OF rep] rep by (auto simp: tbox_hashmap_get_count_def)
qed

lemma run_refines:
  "hm_rep hash cmp K A L m f \<Longrightarrow> list_all (op_ok K (unat (ele_size m))) ops \<Longrightarrow>
   hm_run m ops = Some (map_run (unat (capacity m)) (unat (ele_size m)) f ops)"
proof (induction ops arbitrary: m f L)
  case (Cons op ops)
  let ?s = "map_step (unat (capacity m)) (unat (ele_size m)) f op"
  have op: "op_ok K (unat (ele_size m)) op" using Cons.prems(2) by simp
  obtain m' L' where s: "hm_step m op = Some (m', snd ?s)" "hm_rep hash cmp K A L' m' (fst ?s)"
      "ele_size m' = ele_size m" "capacity m' = capacity m"
    using step_refines [OF Cons.prems(1) op] by blast
  have "hm_run m' ops = Some (map_run (unat (capacity m')) (unat (ele_size m')) (fst ?s) ops)"
    by (rule Cons.IH [OF s(2)]) (use Cons.prems(2) s(3) in simp)
  then show ?case using s by (simp add: case_prod_unfold Let_def)
qed simp

end

section \<open>The keys of the message layer\<close>

text \<open>
  \<^verbatim>\<open>strncmp\<close> over the length of the first key is equality on the keys in use exactly when none
  of them is a proper prefix of another. Keys of one length are such a set.
\<close>

locale prefix_free =
  fixes K :: "u8 list set"
  assumes no_prefix: "k \<in> K \<Longrightarrow> k' \<in> K \<Longrightarrow> take (length k) k' = k \<Longrightarrow> k = k'"

sublocale prefix_free \<subseteq> msg: key_contract K tbox_msg_hashmap_string_hash_func tbox_msg_hashmap_string_cmp_func
  by unfold_locales (auto simp: tbox_msg_hashmap_string_cmp_func_def dest: no_prefix)

interpretation fixed_length: prefix_free "{k. length k = n}"
  by unfold_locales auto

section \<open>Properties\<close>

text \<open>
  C24: in a buffer that is large enough, \<open>tbox_hashmap_create\<close> makes a table on which any
  sequence of calls returns what the specification, a finite map of at most \<open>cap\<close> entries,
  returns: values found are the values last put and not removed, a put fails exactly when the
  map is full and the key is new, and the count is the number of keys. The hash function is
  arbitrary; the comparison must be equality on the keys in use.
\<close>

theorem hashmap_refinement:
  assumes "table_fits buffer sz cap ele" and "\<forall>k\<in>K. \<forall>k'\<in>K. cmp k k' \<longleftrightarrow> k = k'"
    and "list_all (op_ok K (unat ele)) ops"
  shows "\<exists>m. tbox_hashmap_create buffer sz cap ele (Some hash) (Some cmp) = Some (Some m) \<and>
     hm_run m ops = Some (map_run (unat cap) (unat ele) Map.empty ops)"
proof -
  have c: "key_contract K cmp" using assms(2) by unfold_locales blast
  obtain m A L where m: "tbox_hashmap_create buffer sz cap ele (Some hash) (Some cmp) = Some (Some m)"
      "hm_rep hash cmp K A L m Map.empty" "capacity m = cap" "ele_size m = ele"
    using create_rep [OF assms(1), where K = K] by blast
  then show ?thesis
    using key_contract.run_refines [OF c m(2), of ops] assms(3) by simp
qed

lemma demo_fits: "table_fits 0x20000000 512 10 4"
  by (simp add: table_fits_def buckets_for_def)

theorem hashmap_refinement_witness:
  "\<exists>m. tbox_hashmap_create 0x20000000 512 10 4 (Some tbox_msg_hashmap_string_hash_func)
       (Some tbox_msg_hashmap_string_cmp_func) = Some (Some m) \<and>
     hm_run m [HPut [97, 98] [1, 2, 3, 4], HPut [97, 99] [5, 6, 7, 8], HRemove [97, 98], HGet [97, 98],
       HGet [97, 99], HCount] =
     Some [HCode TBOX_E_OK, HCode TBOX_E_OK, HDone, HCode TBOX_E_NOFOUND, HValue [5, 6, 7, 8], HNumber 1]"
  using hashmap_refinement [OF demo_fits, of "{k. length k = 2}" tbox_msg_hashmap_string_cmp_func
      "[HPut [97, 98] [1, 2, 3, 4], HPut [97, 99] [5, 6, 7, 8], HRemove [97, 98], HGet [97, 98],
       HGet [97, 99], HCount]" tbox_msg_hashmap_string_hash_func]
    fixed_length.msg.cmp_eq [of _ 2]
  by (auto simp: op_ok_def)

text \<open>
  Every node of a new table lies, with its value, inside the buffer, and removing an
  entry without naming a key hands over the value of a key of the map and deletes that key;
  it fails exactly on an empty map.
\<close>

theorem hashmap_create_remove_one:
  assumes "table_fits buffer sz cap ele"
  shows "\<exists>m A L. tbox_hashmap_create buffer sz cap ele (Some hash) (Some cmp) = Some (Some m) \<and>
     hm_rep hash cmp K A L m Map.empty \<and> card A = unat cap \<and>
     (\<forall>x\<in>A. unat buffer \<le> unat x \<and> unat x + 8 + unat ele \<le> unat buffer + unat sz) \<and>
     (\<forall>m' L' f v. hm_rep hash cmp K A L' m' f \<and> unat (ele_size m') \<le> length v \<longrightarrow>
        (if f = Map.empty
         then tbox_hashmap_remove_one (Some m') (Some v) = Some (Some m', Some v, TBOX_E_FAILED)
         else \<exists>k w m'' L''. f k = Some w \<and>
           tbox_hashmap_remove_one (Some m') (Some v) = Some (Some m'', Some (blit v 0 w), TBOX_E_OK) \<and>
           hm_rep hash cmp K A L'' m'' (f(k := None))))"
proof -
  obtain m A L where m: "tbox_hashmap_create buffer sz cap ele (Some hash) (Some cmp) = Some (Some m)"
      "hm_rep hash cmp K A L m Map.empty" "capacity m = cap"
      "\<forall>x\<in>A. unat buffer \<le> unat x \<and> unat x + 8 + unat ele \<le> unat buffer + unat sz"
    using create_rep [OF assms, where K = K] by blast
  have "card A = unat cap" using hm_repD(5) [OF m(2)] m(3) by simp
  moreover have "if f = Map.empty
         then tbox_hashmap_remove_one (Some m') (Some v) = Some (Some m', Some v, TBOX_E_FAILED)
         else \<exists>k w m'' L''. f k = Some w \<and>
           tbox_hashmap_remove_one (Some m') (Some v) = Some (Some m'', Some (blit v 0 w), TBOX_E_OK) \<and>
           hm_rep hash cmp K A L'' m'' (f(k := None))"
    if "hm_rep hash cmp K A L' m' f" "unat (ele_size m') \<le> length v" for m' L' f v
    using remove_one_rep [OF that] by (auto split: if_splits)
  ultimately show ?thesis using m by blast
qed

theorem hashmap_create_remove_one_witness:
  "\<exists>m (A :: haddr set). tbox_hashmap_create 0x20000000 512 10 4 (Some (\<lambda>k. k)) (Some (=)) = Some (Some m) \<and>
     card A = 10 \<and> (\<forall>x\<in>A. 0x20000000 \<le> unat x \<and> unat x + 12 \<le> 0x20000000 + 512)"
  using hashmap_create_remove_one [OF demo_fits, of "\<lambda>k. k" "(=)" UNIV] by auto

text \<open>
  The string comparison of the message layer is a prefix test, so a key that is a proper
  prefix of a registered one and falls into its bucket is found although it was never put.
\<close>

theorem msg_hashmap_prefix_confusion:
  assumes "hm_rep tbox_msg_hashmap_string_hash_func tbox_msg_hashmap_string_cmp_func {name} A L m [name \<mapsto> w]"
    and "take (length pre) name = pre" and "unat (ele_size m) \<le> length v"
    and "unat (tbox_msg_hashmap_string_hash_func pre) mod bucket_num m =
         unat (tbox_msg_hashmap_string_hash_func name) mod bucket_num m"
  shows "tbox_hashmap_get (Some m) (Some pre) (Some v) = Some (Some (blit v 0 w), TBOX_E_OK)"
proof -
  note r = hm_repD [OF assms(1)]
  let ?i = "unat (tbox_msg_hashmap_string_hash_func name) mod bucket_num m"
  have i: "?i < bucket_num m" using r(3) by simp
  obtain x xs where L: "L (Suc ?i) = x # xs" using r(14) [of name] by (cases "L (Suc ?i)") auto
  then have x: "x \<in> set (L (Suc ?i))" by simp
  then have key: "hkey (nodes m x) = Some name" "hval (nodes m x) = w" using r(11) [OF i x] by auto
  have b: "buckets m ! ?i = x" "x \<noteq> 0" using r(10) [OF i] L by simp_all
  have "x \<in> A" using hm_rep_nodes(2) [OF assms(1) _ x] i by simp
  then have "length w = unat (ele_size m)" using r(12) key by auto
  moreover obtain n where "unat (capacity m) = Suc n"
    using shared_out_facts(3) [OF r(7), of "Suc ?i"] r(5) i L by (cases "unat (capacity m)") auto
  then have "tbox_hashmap_find_node m pre = Some x"
    using hm_rep_index(1) [OF assms(1), of pre] assms(2,4) r(2,4) i b key
    by (simp add: tbox_hashmap_find_node_def tbox_msg_hashmap_string_cmp_func_def)
  ultimately show ?thesis
    using b key assms(3) by (simp add: tbox_hashmap_get_def copy_value_def)
qed

theorem msg_hashmap_prefix_confusion_witness:
  "\<exists>m. tbox_hashmap_get (Some m) (Some [97 :: u8]) (Some [0, 0, 0, 0]) = Some (Some [1, 2, 3, 4], TBOX_E_OK)"
proof -
  let ?h = tbox_msg_hashmap_string_hash_func and ?c = tbox_msg_hashmap_string_cmp_func
  have fits: "table_fits 0x20000000 512 1 4" by (simp add: table_fits_def buckets_for_def)
  obtain m A L where m: "hm_rep ?h ?c {[97, 98]} A L m Map.empty" "capacity m = 1" "ele_size m = 4"
    using create_rep [OF fits, of ?h ?c "{[97, 98]}"] by blast
  have c: "key_contract {[97, 98]} ?c"
    by unfold_locales (simp add: tbox_msg_hashmap_string_cmp_func_def)
  obtain m' L' where m': "hm_rep ?h ?c {[97, 98]} A L' m' [[97, 98] \<mapsto> [1, 2, 3, 4]]"
      "ele_size m' = 4" "capacity m' = 1"
    using key_contract.put_refines [OF c m(1), of "[97, 98]" "[1, 2, 3, 4]"] m by auto
  have "bucket_num m' = 1"
    using m'(3) by (simp add: bucket_num_def tbox_hashmap_capacity_to_bucket_num_def)
  then show ?thesis
    using msg_hashmap_prefix_confusion [OF m'(1), of "[97]" "[0, 0, 0, 0]"] m'(2)
    by (auto simp: blit_def)
qed

end
