(* ===== verification/J1939List.thy ===== *)
theory J1939List imports Ring begin

text \<open>
  \<^verbatim>\<open>service/j1939/j1939_list.h\<close>: the ring macros under the J1939 layers. \<^verbatim>\<open>in\<close> and \<^verbatim>\<open>out\<close>
  run freely modulo \<open>2 ^ 32\<close> and are masked on access; a ring of \<open>2 ^ k\<close> places holds at
  most \<open>2 ^ k - 1\<close> elements. The macros do not check; the layers test \<^verbatim>\<open>list_is_full\<close> and
  \<^verbatim>\<open>list_is_empty\<close> first, and with these tests the ring is a first-in first-out queue.
\<close>

section \<open>Operations\<close>

record 'a jlist =
  jl_buffer :: "'a list"
  jl_in :: u32
  jl_out :: u32
  jl_mask :: u32

definition list_init :: "'a jlist \<Rightarrow> 'a jlist" where
  "list_init l = l\<lparr>jl_in := 0, jl_out := 0, jl_mask := of_nat (length (jl_buffer l)) - 1\<rparr>"

definition list_is_empty :: "'a jlist \<Rightarrow> bool" where
  "list_is_empty l \<longleftrightarrow> (jl_in l - jl_out l) AND jl_mask l = 0"

definition list_is_full :: "'a jlist \<Rightarrow> bool" where
  "list_is_full l \<longleftrightarrow> (jl_in l - jl_out l) AND jl_mask l = jl_mask l"

definition list_len :: "'a jlist \<Rightarrow> u32" where
  "list_len l = (jl_in l - jl_out l) AND jl_mask l"

definition list_put :: "'a jlist \<Rightarrow> 'a \<Rightarrow> 'a jlist option" where
  "list_put l v = do {
     buf \<leftarrow> wr (jl_buffer l) (unat (jl_in l AND jl_mask l)) v;
     Some (l\<lparr>jl_buffer := buf, jl_in := jl_in l + 1\<rparr>)
   }"

definition list_get :: "'a jlist \<Rightarrow> ('a jlist \<times> 'a) option" where
  "list_get l = do {
     v \<leftarrow> rd (jl_buffer l) (unat (jl_out l AND jl_mask l));
     Some (l\<lparr>jl_out := jl_out l + 1\<rparr>, v)
   }"

text \<open>The two idioms of the layers: drop what does not fit, and take only what is there.\<close>

definition list_offer :: "'a jlist \<Rightarrow> 'a \<Rightarrow> ('a jlist \<times> bool) option" where
  "list_offer l v = (if list_is_full l then Some (l, False)
     else map_option (\<lambda>l. (l, True)) (list_put l v))"

definition list_take :: "'a jlist \<Rightarrow> ('a jlist \<times> 'a option) option" where
  "list_take l = (if list_is_empty l then Some (l, None)
     else map_option (\<lambda>(l, v). (l, Some v)) (list_get l))"

section \<open>Contents\<close>

definition jl_inv :: "'a jlist \<Rightarrow> bool" where
  "jl_inv l \<longleftrightarrow> (\<exists>k<32. length (jl_buffer l) = 2 ^ k \<and> jl_mask l = 2 ^ k - 1) \<and>
     unat (jl_in l - jl_out l) < length (jl_buffer l)"

definition jl_contents :: "'a jlist \<Rightarrow> 'a list" where
  "jl_contents l = ring_read (jl_buffer l) (length (jl_buffer l)) (unat (jl_out l)) (unat (jl_in l - jl_out l))"

definition jl_holds :: "nat \<Rightarrow> 'a jlist \<Rightarrow> 'a list \<Rightarrow> bool" where
  "jl_holds n l xs \<longleftrightarrow> jl_inv l \<and> length (jl_buffer l) = n \<and> jl_contents l = xs"

lemma jl_inv_facts:
  assumes "jl_inv l"
  defines "n \<equiv> length (jl_buffer l)" and "k \<equiv> unat (jl_in l - jl_out l)"
  shows "0 < n" "k < n"
    "unat ((jl_in l - jl_out l) AND jl_mask l) = k" "unat (jl_mask l) = n - 1"
    "unat (jl_in l AND jl_mask l) = (unat (jl_out l) + k) mod n"
    "unat (jl_out l AND jl_mask l) = unat (jl_out l) mod n"
proof -
  obtain e where e: "e < 32" "length (jl_buffer l) = 2 ^ e" "jl_mask l = 2 ^ e - 1"
    using assms(1) by (auto simp: jl_inv_def)
  have n: "n = 2 ^ e" by (simp add: n_def e(2))
  show "0 < n" by (simp add: n)
  show kn: "k < n" using assms(1) by (simp add: jl_inv_def n_def k_def)
  show "unat ((jl_in l - jl_out l) AND jl_mask l) = k"
    unfolding e(3) mask_mod using kn n by (simp add: k_def)
  have "unat (2 ^ e - 1 :: u32) = unat (2 ^ e :: u32) - 1"
    using unat_pow2 [OF e(1)] by (intro unat_minus_one) (metis power_not_zero unat_0 zero_neq_numeral)
  then show "unat (jl_mask l) = n - 1" using unat_pow2 [OF e(1)] by (simp add: e(3) n)
  have "unat (jl_in l AND jl_mask l) = unat (jl_out l + (jl_in l - jl_out l)) mod n"
    unfolding e(3) mask_mod n by simp
  then show "unat (jl_in l AND jl_mask l) = (unat (jl_out l) + k) mod n"
    unfolding n k_def using add_mod_pow2 [of e "jl_out l" "jl_in l - jl_out l"] e(1) by simp
  show "unat (jl_out l AND jl_mask l) = unat (jl_out l) mod n"
    unfolding e(3) mask_mod n by simp
qed

lemma list_is_empty_iff: "jl_inv l \<Longrightarrow> list_is_empty l \<longleftrightarrow> jl_contents l = []"
proof -
  assume i: "jl_inv l"
  have "list_is_empty l \<longleftrightarrow> unat ((jl_in l - jl_out l) AND jl_mask l) = 0"
    by (simp add: list_is_empty_def unat_eq_zero)
  also have "\<dots> \<longleftrightarrow> unat (jl_in l - jl_out l) = 0" using jl_inv_facts(3) [OF i] by simp
  also have "\<dots> \<longleftrightarrow> length (jl_contents l) = 0" by (simp add: jl_contents_def)
  finally show ?thesis by simp
qed

lemma list_is_full_iff: "jl_inv l \<Longrightarrow> list_is_full l \<longleftrightarrow> length (jl_contents l) = length (jl_buffer l) - 1"
  using jl_inv_facts(3,4) [of l] by (simp add: list_is_full_def word_unat_eq_iff jl_contents_def)

lemma list_len_eq: "jl_inv l \<Longrightarrow> unat (list_len l) = length (jl_contents l)"
  using jl_inv_facts(3) [of l] by (simp add: list_len_def jl_contents_def)

lemma list_init_holds:
  assumes "length (jl_buffer l) = 2 ^ k" and "k < 32"
  shows "jl_holds (2 ^ k) (list_init l) []"
  using assms by (auto simp: jl_holds_def list_init_def jl_inv_def jl_contents_def)

lemma list_put_holds:
  assumes h: "jl_holds n l xs" and room: "length xs < n - 1"
  shows "\<exists>l'. list_put l v = Some l' \<and> jl_holds n l' (xs @ [v])"
proof -
  have i: "jl_inv l" and n: "length (jl_buffer l) = n" and xs: "jl_contents l = xs"
    using h by (simp_all add: jl_holds_def)
  note f = jl_inv_facts [OF i, unfolded n]
  let ?k = "unat (jl_in l - jl_out l)"
  have k: "?k < n - 1" using room xs by (auto simp: jl_contents_def)
  let ?at = "unat (jl_in l AND jl_mask l)"
  have at: "?at < n" using f(1,5) by simp
  let ?l = "l\<lparr>jl_buffer := (jl_buffer l)[?at := v], jl_in := jl_in l + 1\<rparr>"
  have "jl_in l + 1 - jl_out l = (jl_in l - jl_out l) + 1" by simp
  moreover have "n < 2 ^ 32"
  proof -
    obtain e where e: "e < 32" "n = 2 ^ e" using i n by (auto simp: jl_inv_def)
    have "(2 :: nat) ^ e < 2 ^ 32" using e(1) by (rule power_strict_increasing) simp
    then show ?thesis by (simp only: e(2))
  qed
  then have "unat ((jl_in l - jl_out l) + 1) = ?k + 1"
    using k by (subst unat_plus_if_fits) simp_all
  ultimately have k': "unat (jl_in l + 1 - jl_out l) = Suc ?k" by (simp only:)
  have "jl_contents ?l = xs @ [v]"
    using ring_read_put [of ?k n "jl_buffer l" "unat (jl_out l)" v] f(2,5) n k' xs
    by (simp add: jl_contents_def)
  moreover have "jl_inv ?l" using i k k' n by (auto simp: jl_inv_def)
  ultimately show ?thesis
    using at n by (intro exI [of _ ?l]) (simp add: list_put_def jl_holds_def)
qed

lemma list_get_holds:
  assumes h: "jl_holds n l (x # xs)"
  shows "\<exists>l'. list_get l = Some (l', x) \<and> jl_holds n l' xs"
proof -
  have i: "jl_inv l" and n: "length (jl_buffer l) = n" and xs: "jl_contents l = x # xs"
    using h by (simp_all add: jl_holds_def)
  note f = jl_inv_facts [OF i, unfolded n]
  let ?k = "unat (jl_in l - jl_out l)"
  have k: "?k = Suc (length xs)" using arg_cong [OF xs, of length] by (simp add: jl_contents_def)
  have r: "ring_read (jl_buffer l) n (unat (jl_out l)) (Suc (length xs)) = x # xs"
    using xs by (simp add: jl_contents_def k n)
  let ?l = "l\<lparr>jl_out := jl_out l + 1\<rparr>"
  have "(1 :: u32) \<le> jl_in l - jl_out l" using k by (simp add: word_le_nat_alt)
  then have "unat (jl_in l - jl_out l - 1) = ?k - 1" using unat_minus_le by (metis unat_1)
  moreover have "jl_in l - (jl_out l + 1) = jl_in l - jl_out l - 1" by simp
  ultimately have k': "unat (jl_in l - (jl_out l + 1)) = length xs" using k by (simp only:)
  obtain e where e: "e < 32" "n = 2 ^ e" using i n by (auto simp: jl_inv_def)
  have "unat (jl_out l + 1) mod n = Suc (unat (jl_out l)) mod n"
    using add_mod_pow2 [of e "jl_out l" 1] e by simp
  then have "jl_contents ?l = ring_read (jl_buffer l) n (Suc (unat (jl_out l))) (length xs)"
    using ring_read_cong_mod by (simp add: jl_contents_def n k') blast
  moreover have "jl_buffer l ! (unat (jl_out l) mod n) = x"
    "ring_read (jl_buffer l) n (Suc (unat (jl_out l))) (length xs) = xs"
    using r by (simp_all add: ring_read_Cons)
  moreover have "jl_inv ?l" using i k k' n by (auto simp: jl_inv_def)
  moreover have "unat (jl_out l AND jl_mask l) < n" using f(1,6) by simp
  ultimately show ?thesis
    using f(6) n by (intro exI [of _ ?l]) (simp add: list_get_def jl_holds_def)
qed

lemma list_offer_holds:
  assumes "jl_holds n l xs"
  shows "\<exists>l'. list_offer l v = Some (l', length xs < n - 1) \<and>
     jl_holds n l' (if length xs < n - 1 then xs @ [v] else xs)"
proof -
  have "length xs \<le> n - 1"
    using assms jl_inv_facts(2) [of l] by (auto simp: jl_holds_def jl_contents_def)
  moreover have "list_is_full l \<longleftrightarrow> length xs = n - 1"
    using assms list_is_full_iff by (auto simp: jl_holds_def)
  ultimately show ?thesis
    using list_put_holds [OF assms, of v] assms by (auto simp: list_offer_def)
qed

lemma list_take_holds:
  assumes "jl_holds n l xs"
  shows "\<exists>l'. list_take l = Some (l', case xs of [] \<Rightarrow> None | x # _ \<Rightarrow> Some x) \<and> jl_holds n l' (tl xs)"
proof -
  have "list_is_empty l \<longleftrightarrow> xs = []" using assms list_is_empty_iff by (auto simp: jl_holds_def)
  then show ?thesis
    using list_get_holds [of n l "hd xs" "tl xs"] assms by (cases xs) (auto simp: list_take_def)
qed

interpretation jl: element_queue "jl_holds n" "\<lambda>_ _. True" "\<lambda>_ xs _. length xs < n - 1" list_offer list_take
proof unfold_locales
  fix l :: "'a jlist" and xs v
  assume "jl_holds n l xs"
  then show "\<exists>l'. list_offer l v = Some (l', length xs < n - 1) \<and>
      jl_holds n l' (if length xs < n - 1 then xs @ [v] else xs) \<and> (\<lambda>_. True) = (\<lambda>_. True)"
    using list_offer_holds [of n l xs v] by simp
next
  fix l :: "'a jlist" and xs
  assume "jl_holds n l xs"
  then show "\<exists>l'. list_take l = Some (l', case xs of [] \<Rightarrow> None | x # _ \<Rightarrow> Some x) \<and> jl_holds n l' (tl xs) \<and>
      (\<lambda>_. True) = (\<lambda>_. True)"
    using list_take_holds [of n l xs] by simp
qed

end
