(* ===== verification/J1939Pgn.thy ===== *)
theory J1939Pgn imports Prelude "HOL-Library.Multiset" begin

text \<open>
  \<^verbatim>\<open>service/j1939/j1939_pgn.c\<close>: the table of the parameter groups the stack lets through. It
  is sorted once by selection sort, extended by sorted insertion and searched by bisection.
  The table is an array of 64 entries; an access outside it is \<open>None\<close>. The lemmas show that
  the sort returns a sorted permutation, that insertion keeps the order, and what the search
  finds.
\<close>

section \<open>Data\<close>

definition PGN_TABLE_SIZE :: nat where
  "PGN_TABLE_SIZE = 64"

definition DL_PGN_MASK :: u32 where
  "DL_PGN_MASK = 0x3FFFF"

text \<open>The bit fields \<^verbatim>\<open>addr : 8\<close> and \<^verbatim>\<open>pgn : 24\<close> of one word.\<close>

record PGN_INFO =
  pgn_addr :: u8
  pgn_pgn :: "24 word"

record PGN_TABLE =
  table_count :: u32
  pgn_table :: "PGN_INFO list"

text \<open>The \<^verbatim>\<open>pgn\<close> field as the comparisons see it.\<close>

definition pgn_key :: "PGN_INFO \<Rightarrow> u32" where
  "pgn_key e = ucast (pgn_pgn e)"

definition default_pgns :: "24 word list" where
  "default_pgns = [0xE800, 0xE8D8, 0xE8FF, 0xEA00, 0xEAD8, 0xEAFF, 0xEC00, 0xECD8, 0xECFF,
     0xEB00, 0xEBD8, 0xEBFF, 0xFEE3, 0xFEE5, 0xFEE9, 0xFEEB, 0xFEEC, 0xFECA]"

definition default_table :: PGN_TABLE where
  "default_table = \<lparr>table_count = 18,
     pgn_table = map (\<lambda>p. \<lparr>pgn_addr = 0, pgn_pgn = p\<rparr>) default_pgns @
       replicate 46 \<lparr>pgn_addr = 0, pgn_pgn = 0\<rparr>\<rparr>"

section \<open>Operations\<close>

text \<open>The inner loop: the index of the least entry from \<open>i\<close> on.\<close>

definition min_loop :: "PGN_INFO list \<Rightarrow> nat \<Rightarrow> nat \<Rightarrow> nat option" where
  "min_loop t i cnt = for_up (Suc i) (cnt - Suc i) (\<lambda>j m. do {
     a \<leftarrow> rd t j;
     b \<leftarrow> rd t m;
     Some (if pgn_key a < pgn_key b then j else m)
   }) i"

definition j1939_pgn_init :: "PGN_TABLE \<Rightarrow> PGN_TABLE option" where
  "j1939_pgn_init p = do {
     let cnt = table_count p;
     t \<leftarrow> for_up 0 (unat (cnt - 1)) (\<lambda>i t. do {
         m \<leftarrow> min_loop t i (unat cnt);
         if m \<noteq> i then do {
           a \<leftarrow> rd t i;
           b \<leftarrow> rd t m;
           t \<leftarrow> wr t i b;
           wr t m a
         } else Some t
       }) (pgn_table p);
     Some (p\<lparr>pgn_table := t\<rparr>)
   }"

text \<open>The position of the first entry with a greater parameter group.\<close>

fun insert_pos :: "PGN_INFO list \<Rightarrow> u32 \<Rightarrow> nat \<Rightarrow> nat \<Rightarrow> nat option" where
  "insert_pos t pgn i 0 = Some i"
| "insert_pos t pgn i (Suc n) = do {
     e \<leftarrow> rd t i;
     if pgn < pgn_key e then Some i else insert_pos t pgn (Suc i) n
   }"

text \<open>Moving the entries from \<open>i\<close> on up by one place, from the last one down.\<close>

fun shift_up :: "PGN_INFO list \<Rightarrow> nat \<Rightarrow> nat \<Rightarrow> PGN_INFO list option" where
  "shift_up t i 0 = Some t"
| "shift_up t i (Suc n) = do {
     e \<leftarrow> rd t (i + n);
     t \<leftarrow> wr t (i + Suc n) e;
     shift_up t i n
   }"

definition j1939_pgn_add :: "PGN_TABLE \<Rightarrow> u8 \<Rightarrow> u32 \<Rightarrow> (PGN_TABLE \<times> bool) option" where
  "j1939_pgn_add p addr pgn =
     (if pgn > DL_PGN_MASK then Some (p, False)
      else if unat (table_count p) \<ge> PGN_TABLE_SIZE then Some (p, False)
      else do {
        i \<leftarrow> insert_pos (pgn_table p) pgn 0 (unat (table_count p));
        t \<leftarrow> shift_up (pgn_table p) i (unat (table_count p) - i);
        t \<leftarrow> wr t i \<lparr>pgn_addr = addr, pgn_pgn = ucast pgn\<rparr>;
        Some (p\<lparr>pgn_table := t, table_count := table_count p + 1\<rparr>, True)
      })"

function filter_loop :: "PGN_INFO list \<Rightarrow> u8 \<Rightarrow> u32 \<Rightarrow> int \<Rightarrow> int \<Rightarrow> bool option" where
  "filter_loop t addr pgn l r =
     (if l \<le> r then
        let m = (l + r) div 2 in
        case rd t (nat m) of
          None \<Rightarrow> None
        | Some e \<Rightarrow>
            if pgn > pgn_key e then filter_loop t addr pgn (m + 1) r
            else if pgn < pgn_key e then filter_loop t addr pgn l (m - 1)
            else Some (pgn_addr e = 0 \<or> pgn_addr e = addr)
      else Some False)"
  by pat_completeness auto
termination
  by (relation "measure (\<lambda>(t, addr, pgn, l, r). nat (r - l + 1))") auto

declare filter_loop.simps [simp del]

definition j1939_pgn_filter :: "PGN_TABLE \<Rightarrow> u8 \<Rightarrow> u32 \<Rightarrow> bool option" where
  "j1939_pgn_filter p addr pgn =
     filter_loop (pgn_table p) addr pgn 0 (sint (table_count p - 1))"

section \<open>The entries in use\<close>

definition pgn_inv :: "PGN_TABLE \<Rightarrow> bool" where
  "pgn_inv p \<longleftrightarrow> length (pgn_table p) = PGN_TABLE_SIZE \<and> 0 < unat (table_count p) \<and>
     unat (table_count p) \<le> PGN_TABLE_SIZE"

definition pgn_entries :: "PGN_TABLE \<Rightarrow> PGN_INFO list" where
  "pgn_entries p = take (unat (table_count p)) (pgn_table p)"

definition pgn_sorted :: "PGN_TABLE \<Rightarrow> bool" where
  "pgn_sorted p \<longleftrightarrow> sorted (map pgn_key (pgn_entries p))"

lemma length_pgn_entries: "pgn_inv p \<Longrightarrow> length (pgn_entries p) = unat (table_count p)"
  by (simp add: pgn_inv_def pgn_entries_def)

section \<open>Sorting\<close>

lemma min_loop_ok:
  assumes "i < cnt" and "cnt \<le> length t"
  shows "\<exists>m. min_loop t i cnt = Some m \<and> i \<le> m \<and> m < cnt \<and>
     (\<forall>j. i \<le> j \<longrightarrow> j < cnt \<longrightarrow> pgn_key (t ! m) \<le> pgn_key (t ! j))"
proof -
  define I where "I n m \<longleftrightarrow> i \<le> m \<and> m < n \<and> (\<forall>j. i \<le> j \<longrightarrow> j < n \<longrightarrow> pgn_key (t ! m) \<le> pgn_key (t ! j))"
    for n m
  have "\<exists>m. min_loop t i cnt = Some m \<and> I (Suc i + (cnt - Suc i)) m"
    unfolding min_loop_def
  proof (rule for_up_inv)
    show "I (Suc i) i" by (auto simp: I_def less_Suc_eq_le)
    fix j m
    assume j: "Suc i \<le> j" "j < Suc i + (cnt - Suc i)" and m: "I j m"
    then have b: "j < length t" "m < length t" using assms by (auto simp: I_def)
    then show "\<exists>m'. (rd t j \<bind> (\<lambda>a. rd t m \<bind> (\<lambda>b. Some (if pgn_key a < pgn_key b then j else m)))) =
        Some m' \<and> I (Suc j) m'"
      using m j by (auto simp: I_def less_Suc_eq)
  qed
  then show ?thesis using assms by (auto simp: I_def)
qed

lemma swap_mset:
  assumes "i < length t" "m < length t"
  shows "mset (t[i := t ! m, m := t ! i]) = mset t"
  using mset_swap [OF assms(2,1)] .

text \<open>
  After \<open>i\<close> rounds the first \<open>i\<close> entries are sorted and not above the others, and only the
  first \<open>cnt\<close> entries have been permuted.
\<close>

definition selection_inv :: "PGN_INFO list \<Rightarrow> nat \<Rightarrow> nat \<Rightarrow> PGN_INFO list \<Rightarrow> bool" where
  "selection_inv t0 cnt i t \<longleftrightarrow> length t = length t0 \<and>
     mset (take cnt t) = mset (take cnt t0) \<and> drop cnt t = drop cnt t0 \<and>
     (\<forall>a b. a < i \<longrightarrow> a < b \<longrightarrow> b < cnt \<longrightarrow> pgn_key (t ! a) \<le> pgn_key (t ! b))"

lemma selection_step:
  assumes inv: "selection_inv t0 cnt i t" and i: "i < cnt" and len: "cnt \<le> length t0"
  shows "\<exists>t'. (do {
         m \<leftarrow> min_loop t i cnt;
         if m \<noteq> i then do {
           a \<leftarrow> rd t i;
           b \<leftarrow> rd t m;
           t \<leftarrow> wr t i b;
           wr t m a
         } else Some t
       }) = Some t' \<and> selection_inv t0 cnt (Suc i) t'"
proof -
  have l: "length t = length t0" and ms: "mset (take cnt t) = mset (take cnt t0)"
    and dr: "drop cnt t = drop cnt t0"
    and ord: "\<And>a b. a < i \<Longrightarrow> a < b \<Longrightarrow> b < cnt \<Longrightarrow> pgn_key (t ! a) \<le> pgn_key (t ! b)"
    using inv by (auto simp: selection_inv_def)
  obtain m where m: "min_loop t i cnt = Some m" "i \<le> m" "m < cnt"
      "\<And>j. i \<le> j \<Longrightarrow> j < cnt \<Longrightarrow> pgn_key (t ! m) \<le> pgn_key (t ! j)"
    using min_loop_ok [OF i] len l by metis
  let ?t = "t[i := t ! m, m := t ! i]"
  have run: "(do {
         m \<leftarrow> min_loop t i cnt;
         if m \<noteq> i then do {
           a \<leftarrow> rd t i;
           b \<leftarrow> rd t m;
           t \<leftarrow> wr t i b;
           wr t m a
         } else Some t
       }) = Some ?t"
    using m(1-3) i len l by (auto simp: list_update_id)
  have "take cnt ?t = (take cnt t)[i := take cnt t ! m, m := take cnt t ! i]"
    using i m(3) by (simp add: take_update_swap)
  then have "mset (take cnt ?t) = mset (take cnt t0)"
    using swap_mset [of i "take cnt t" m] i m(3) len l ms by simp
  moreover have "drop cnt ?t = drop cnt t0" using dr i m(3) by simp
  moreover have "pgn_key (?t ! a) \<le> pgn_key (?t ! b)" if "a < Suc i" "a < b" "b < cnt" for a b
  proof -
    have bl: "b < length t" "a < length t" "m < length t" "i < length t" using that m(3) i len l by simp_all
    show ?thesis
    proof (cases "a = i")
      case True
      then show ?thesis using m(2,4) [of] m(4) [of b] m(4) [of i] that bl i by (auto simp: nth_list_update)
    next
      case False
      then have "a < i" using that by simp
      then show ?thesis using ord [of a] that m(2,3) bl i by (auto simp: nth_list_update)
    qed
  qed
  ultimately show ?thesis using run l by (auto simp: selection_inv_def)
qed

lemma pgn_init_ok:
  assumes "pgn_inv p"
  shows "\<exists>p'. j1939_pgn_init p = Some p' \<and> pgn_inv p' \<and> table_count p' = table_count p \<and>
     pgn_sorted p' \<and> mset (pgn_entries p') = mset (pgn_entries p)"
proof -
  let ?c = "unat (table_count p)"
  have c: "0 < ?c" "?c \<le> length (pgn_table p)" using assms by (simp_all add: pgn_inv_def)
  have c1: "unat (table_count p - 1) = ?c - 1" using c(1) by (intro unat_minus_one) auto
  have "\<exists>t. for_up 0 (?c - 1) (\<lambda>i t. do {
         m \<leftarrow> min_loop t i ?c;
         if m \<noteq> i then do {
           a \<leftarrow> rd t i;
           b \<leftarrow> rd t m;
           t \<leftarrow> wr t i b;
           wr t m a
         } else Some t
       }) (pgn_table p) = Some t \<and> selection_inv (pgn_table p) ?c (0 + (?c - 1)) t"
  proof (rule for_up_inv)
    show "selection_inv (pgn_table p) ?c 0 (pgn_table p)" by (simp add: selection_inv_def)
  qed (rule selection_step, auto simp: c)
  then obtain t where t: "j1939_pgn_init p = Some (p\<lparr>pgn_table := t\<rparr>)"
      "selection_inv (pgn_table p) ?c (?c - 1) t"
    by (auto simp: j1939_pgn_init_def c1)
  have "sorted (map pgn_key (take ?c t))"
    using t(2) c by (auto simp: selection_inv_def sorted_iff_nth_mono_less)
  then show ?thesis
    using t assms by (intro exI [of _ "p\<lparr>pgn_table := t\<rparr>"])
      (simp add: pgn_inv_def pgn_sorted_def pgn_entries_def selection_inv_def)
qed

section \<open>Insertion\<close>

lemma insert_pos_ok:
  "i + n \<le> length t \<Longrightarrow> \<exists>k. insert_pos t pgn i n = Some k \<and> i \<le> k \<and> k \<le> i + n \<and>
     (\<forall>j. i \<le> j \<longrightarrow> j < k \<longrightarrow> pgn_key (t ! j) \<le> pgn) \<and> (k < i + n \<longrightarrow> pgn < pgn_key (t ! k))"
proof (induction n arbitrary: i)
  case (Suc n)
  show ?case
  proof (cases "pgn < pgn_key (t ! i)")
    case False
    obtain k where k: "insert_pos t pgn (Suc i) n = Some k" "Suc i \<le> k" "k \<le> Suc i + n"
        "\<And>j. Suc i \<le> j \<Longrightarrow> j < k \<Longrightarrow> pgn_key (t ! j) \<le> pgn" "k < Suc i + n \<Longrightarrow> pgn < pgn_key (t ! k)"
      using Suc.IH [of "Suc i"] Suc.prems by auto
    have "pgn_key (t ! j) \<le> pgn" if "i \<le> j" "j < k" for j
      using k(4) [of j] that False by (cases "j = i") auto
    then show ?thesis using k Suc.prems False by auto
  qed (use Suc.prems in auto)
qed auto

lemma shift_up_ok:
  "i + n < length t \<Longrightarrow> \<exists>t'. shift_up t i n = Some t' \<and> length t' = length t \<and>
     (\<forall>j<length t. t' ! j = (if i < j \<and> j \<le> i + n then t ! (j - 1) else t ! j))"
proof (induction n arbitrary: t)
  case (Suc n)
  let ?t = "t[i + Suc n := t ! (i + n)]"
  obtain t' where t': "shift_up ?t i n = Some t'" "length t' = length t"
      "\<And>j. j < length t \<Longrightarrow> t' ! j = (if i < j \<and> j \<le> i + n then ?t ! (j - 1) else ?t ! j)"
    using Suc.IH [of ?t] Suc.prems by auto
  have "t' ! j = (if i < j \<and> j \<le> i + Suc n then t ! (j - 1) else t ! j)" if "j < length t" for j
    using t'(3) [OF that] that by (cases "j = i + Suc n") (auto simp: nth_list_update)
  then show ?case using t' Suc.prems by auto
qed auto

lemma pgn_key_store:
  assumes "pgn \<le> DL_PGN_MASK"
  shows "pgn_key \<lparr>pgn_addr = a, pgn_pgn = ucast pgn\<rparr> = pgn"
proof -
  have "unat pgn < 2 ^ 24" using assms by (simp add: DL_PGN_MASK_def word_le_nat_alt)
  then have "unat (ucast (ucast pgn :: 24 word) :: u32) = unat pgn"
    by (simp add: unsigned_ucast_eq unsigned_take_bit_eq take_bit_nat_eq_self)
  then show ?thesis by (simp only: pgn_key_def word_unat_eq_iff PGN_INFO.simps)
qed

lemma nth_insert_at:
  "k \<le> length E \<Longrightarrow>
     (take k E @ e # drop k E) ! j = (if j < k then E ! j else if j = k then e else E ! (j - 1))"
proof (induction E arbitrary: k j)
  case (Cons x E)
  then show ?case by (cases k; cases j) (auto simp: nth_Cons')
qed (cases j; simp add: nth_Cons')

lemma pgn_add_refused:
  "pgn > DL_PGN_MASK \<or> unat (table_count p) \<ge> PGN_TABLE_SIZE \<Longrightarrow> j1939_pgn_add p a pgn = Some (p, False)"
  by (auto simp: j1939_pgn_add_def)

lemma pgn_add_ok:
  assumes inv: "pgn_inv p" and pgn: "pgn \<le> DL_PGN_MASK" and room: "unat (table_count p) < PGN_TABLE_SIZE"
  shows "\<exists>p' k. j1939_pgn_add p a pgn = Some (p', True) \<and> pgn_inv p' \<and>
     k \<le> length (pgn_entries p) \<and>
     pgn_entries p' = take k (pgn_entries p) @ \<lparr>pgn_addr = a, pgn_pgn = ucast pgn\<rparr> # drop k (pgn_entries p) \<and>
     (\<forall>j<k. pgn_key (pgn_entries p ! j) \<le> pgn) \<and>
     (k < length (pgn_entries p) \<longrightarrow> pgn < pgn_key (pgn_entries p ! k))"
proof -
  let ?c = "unat (table_count p)" and ?t = "pgn_table p" and ?e = "\<lparr>pgn_addr = a, pgn_pgn = ucast pgn\<rparr>"
  have l: "length ?t = PGN_TABLE_SIZE" using inv by (simp add: pgn_inv_def)
  obtain k where k: "insert_pos ?t pgn 0 ?c = Some k" "k \<le> ?c"
      "\<And>j. j < k \<Longrightarrow> pgn_key (?t ! j) \<le> pgn" "k < ?c \<Longrightarrow> pgn < pgn_key (?t ! k)"
    using insert_pos_ok [of 0 ?c ?t pgn] room l by auto
  obtain t where t: "shift_up ?t k (?c - k) = Some t" "length t = length ?t"
      "\<And>j. j < length ?t \<Longrightarrow> t ! j = (if k < j \<and> j \<le> ?c then ?t ! (j - 1) else ?t ! j)"
    using shift_up_ok [of k "?c - k" ?t] k(2) room l by auto
  let ?p = "p\<lparr>pgn_table := t[k := ?e], table_count := table_count p + 1\<rparr>"
  have c1: "unat (table_count p + 1) = Suc ?c"
    using room by (subst unat_plus_if_fits) (simp_all add: PGN_TABLE_SIZE_def)
  have add: "j1939_pgn_add p a pgn = Some (?p, True)"
    using pgn room k(1,2) t(1,2) l by (simp add: j1939_pgn_add_def not_less [symmetric])
  have k': "k \<le> length (pgn_entries p)" using k(2) length_pgn_entries [OF inv] by simp
  have entries: "pgn_entries ?p = take k (pgn_entries p) @ ?e # drop k (pgn_entries p)"
  proof (rule nth_equalityI)
    show "length (pgn_entries ?p) = length (take k (pgn_entries p) @ ?e # drop k (pgn_entries p))"
      using k(2) t(2) l room by (simp add: pgn_entries_def c1)
    fix j
    assume "j < length (pgn_entries ?p)"
    then have j: "j < Suc ?c" by (simp add: pgn_entries_def c1)
    then have "pgn_entries ?p ! j = t[k := ?e] ! j" by (simp add: pgn_entries_def c1)
    also have "\<dots> = (if j = k then ?e else if k < j then ?t ! (j - 1) else ?t ! j)"
      using j t(2,3) l room k(2) by (auto simp: nth_list_update)
    also have "\<dots> = (take k (pgn_entries p) @ ?e # drop k (pgn_entries p)) ! j"
      unfolding nth_insert_at [OF k']
      using j k(2) l room by (auto simp: pgn_entries_def)
    finally show "pgn_entries ?p ! j = (take k (pgn_entries p) @ ?e # drop k (pgn_entries p)) ! j" .
  qed
  have "pgn_inv ?p" using inv room t(2) by (simp add: pgn_inv_def c1)
  then show ?thesis
    using add entries k(2-4) length_pgn_entries [OF inv]
    by (intro exI [of _ ?p] exI [of _ k]) (simp add: pgn_entries_def)
qed

lemma pgn_add_sorted:
  assumes "sorted (map pgn_key E)" and k: "k \<le> length E" and e: "pgn_key e = pgn"
    and "\<forall>j<k. pgn_key (E ! j) \<le> pgn" and "k < length E \<longrightarrow> pgn < pgn_key (E ! k)"
  shows "sorted (map pgn_key (take k E @ e # drop k E))"
proof -
  have s: "pgn_key (E ! i) \<le> pgn_key (E ! j)" if "i \<le> j" "j < length E" for i j
    using sorted_nth_mono [OF assms(1), of i j] that by simp
  have lo: "x \<le> pgn" if "x \<in> set (map pgn_key (take k E))" for x
    using that assms(4) k by (auto simp: in_set_conv_nth)
  have hi: "pgn \<le> x" if "x \<in> set (map pgn_key (drop k E))" for x
  proof -
    obtain i where i: "i < length E - k" "x = pgn_key (E ! (k + i))"
      using \<open>x \<in> _\<close> by (auto simp: in_set_conv_nth)
    then have "pgn_key (E ! k) \<le> x" "k < length E" using s [of k "k + i"] by simp_all
    then show ?thesis using assms(5) by (meson less_imp_le order_trans)
  qed
  have "sorted (map pgn_key (take k E))" "sorted (map pgn_key (drop k E))"
    using assms(1) by (simp_all add: take_map [symmetric] drop_map [symmetric] sorted_wrt_take sorted_wrt_drop)
  then show ?thesis
    using lo hi e by (auto simp: sorted_append intro: order_trans)
qed

section \<open>Search\<close>

definition pgn_match :: "u8 \<Rightarrow> PGN_INFO \<Rightarrow> bool" where
  "pgn_match a e \<longleftrightarrow> pgn_addr e = 0 \<or> pgn_addr e = a"

text \<open>The bisection stops at one index, whatever the address is.\<close>

lemma filter_loop_ok:
  assumes "sorted (map pgn_key (take c t))" and "c \<le> length t" and "0 \<le> l" and "r < int c"
  shows "\<exists>jo. (\<forall>a. filter_loop t a pgn l r = Some (case jo of None \<Rightarrow> False | Some j \<Rightarrow> pgn_match a (t ! j))) \<and>
     (case jo of None \<Rightarrow> (\<forall>j. l \<le> int j \<longrightarrow> int j \<le> r \<longrightarrow> pgn_key (t ! j) \<noteq> pgn)
      | Some j \<Rightarrow> l \<le> int j \<and> int j \<le> r \<and> pgn_key (t ! j) = pgn)"
  using assms(3,4)
proof (induction "nat (r - l + 1)" arbitrary: l r rule: less_induct)
  case less
  have s: "pgn_key (t ! i) \<le> pgn_key (t ! j)" if "i \<le> j" "j < c" for i j
    using sorted_nth_mono [OF assms(1), of i j] that assms(2) by simp
  show ?case
  proof (cases "l \<le> r")
    case False
    then show ?thesis
      by (intro exI [of _ None]) (auto simp: filter_loop.simps)
  next
    case True
    define m where "m = nat ((l + r) div 2)"
    have m: "int m = (l + r) div 2" using True less.prems(1) by (simp add: m_def)
    have mb: "l \<le> int m" "int m \<le> r" "m < length t" "m < c"
      using True m less.prems assms(2) by linarith+
    have unfold: "filter_loop t a pgn l r = (if pgn > pgn_key (t ! m) then filter_loop t a pgn (int m + 1) r
        else if pgn < pgn_key (t ! m) then filter_loop t a pgn l (int m - 1)
        else Some (pgn_match a (t ! m)))" for a
      using True mb(3) by (subst filter_loop.simps) (simp add: Let_def pgn_match_def m [symmetric])
    consider "pgn > pgn_key (t ! m)" | "pgn < pgn_key (t ! m)" | "pgn = pgn_key (t ! m)"
      by (meson linorder_less_linear)
    then show ?thesis
    proof cases
      case 1
      obtain jo where jo: "\<forall>a. filter_loop t a pgn (int m + 1) r = Some (case jo of None \<Rightarrow> False | Some j \<Rightarrow> pgn_match a (t ! j))"
          "case jo of None \<Rightarrow> (\<forall>j. int m + 1 \<le> int j \<longrightarrow> int j \<le> r \<longrightarrow> pgn_key (t ! j) \<noteq> pgn)
            | Some j \<Rightarrow> int m + 1 \<le> int j \<and> int j \<le> r \<and> pgn_key (t ! j) = pgn"
        using less.hyps [of r "int m + 1"] less.prems mb True by auto
      have "pgn_key (t ! j) \<noteq> pgn" if "int j \<le> int m" for j
        using s [of j m] that mb(4) 1 by auto
      then have "pgn_key (t ! j) \<noteq> pgn" if "jo = None" "l \<le> int j" "int j \<le> r" for j
        using jo(2) that by (cases "j \<le> m") simp_all
      moreover have "l \<le> int j \<and> int j \<le> r \<and> pgn_key (t ! j) = pgn" if "jo = Some j" for j
        using jo(2) that mb(1) by simp
      moreover have "filter_loop t a pgn l r = Some (case jo of None \<Rightarrow> False | Some j \<Rightarrow> pgn_match a (t ! j))" for a
        using unfold [of a] 1 jo(1) by simp
      ultimately show ?thesis by (intro exI [of _ jo]) (simp split: option.split)
    next
      case 2
      obtain jo where jo: "\<forall>a. filter_loop t a pgn l (int m - 1) = Some (case jo of None \<Rightarrow> False | Some j \<Rightarrow> pgn_match a (t ! j))"
          "case jo of None \<Rightarrow> (\<forall>j. l \<le> int j \<longrightarrow> int j \<le> int m - 1 \<longrightarrow> pgn_key (t ! j) \<noteq> pgn)
            | Some j \<Rightarrow> l \<le> int j \<and> int j \<le> int m - 1 \<and> pgn_key (t ! j) = pgn"
        using less.hyps [of "int m - 1" l] less.prems mb True by auto
      have "pgn_key (t ! j) \<noteq> pgn" if "int m \<le> int j" "int j \<le> r" for j
        using s [of m j] that less.prems(2) 2 by auto
      then have "pgn_key (t ! j) \<noteq> pgn" if "jo = None" "l \<le> int j" "int j \<le> r" for j
        using jo(2) that by (cases "m \<le> j") simp_all
      moreover have "l \<le> int j \<and> int j \<le> r \<and> pgn_key (t ! j) = pgn" if "jo = Some j" for j
        using jo(2) that mb(2) by simp
      moreover have "filter_loop t a pgn l r = Some (case jo of None \<Rightarrow> False | Some j \<Rightarrow> pgn_match a (t ! j))" for a
        using unfold [of a] 2 less_not_sym [OF 2] jo(1) by simp
      ultimately show ?thesis by (intro exI [of _ jo]) (simp split: option.split)
    next
      case 3
      then show ?thesis using unfold mb by (intro exI [of _ "Some m"]) auto
    qed
  qed
qed

lemma pgn_filter_ok:
  assumes "pgn_inv p" and "pgn_sorted p"
  shows "\<exists>eo. (\<forall>a. j1939_pgn_filter p a pgn = Some (case eo of None \<Rightarrow> False | Some e \<Rightarrow> pgn_match a e)) \<and>
     (case eo of None \<Rightarrow> pgn \<notin> pgn_key ` set (pgn_entries p)
      | Some e \<Rightarrow> e \<in> set (pgn_entries p) \<and> pgn_key e = pgn)"
proof -
  define c where "c = unat (table_count p)"
  have c: "0 < c" "c \<le> 64" "c \<le> length (pgn_table p)"
    using assms(1) by (simp_all add: pgn_inv_def c_def PGN_TABLE_SIZE_def)
  have "unat (table_count p - 1) = c - 1"
    unfolding c_def using c(1) by (intro unat_minus_one) (auto simp: c_def)
  then have r: "sint (table_count p - 1) = int c - 1"
    using c(1,2) by (subst sint_uint, subst signed_take_bit_int_eq_self) (simp_all add: uint_nat del: unat_sub_if')
  obtain jo where jo: "\<forall>a. filter_loop (pgn_table p) a pgn 0 (int c - 1)
        = Some (case jo of None \<Rightarrow> False | Some j \<Rightarrow> pgn_match a (pgn_table p ! j))"
      "case jo of None \<Rightarrow> (\<forall>j. 0 \<le> int j \<longrightarrow> int j \<le> int c - 1 \<longrightarrow> pgn_key (pgn_table p ! j) \<noteq> pgn)
        | Some j \<Rightarrow> 0 \<le> int j \<and> int j \<le> int c - 1 \<and> pgn_key (pgn_table p ! j) = pgn"
    using filter_loop_ok [of c "pgn_table p" 0 "int c - 1" pgn] assms(2) c(3)
    by (auto simp: pgn_sorted_def pgn_entries_def c_def)
  show ?thesis
  proof (cases jo)
    case None
    then have "pgn \<notin> pgn_key ` set (pgn_entries p)"
      using jo(2) c(3) by (clarsimp simp: pgn_entries_def in_set_conv_nth c_def [symmetric]) metis
    then show ?thesis using jo(1) None by (intro exI [of _ None]) (simp add: j1939_pgn_filter_def r)
  next
    case (Some j)
    then have "j < c" "pgn_key (pgn_table p ! j) = pgn" using jo(2) by auto
    moreover have "pgn_table p ! j \<in> set (pgn_entries p)"
      using \<open>j < c\<close> c(3) by (auto simp: pgn_entries_def in_set_conv_nth c_def [symmetric] intro!: exI [of _ j])
    ultimately show ?thesis
      using jo(1) Some by (intro exI [of _ "Some (pgn_table p ! j)"]) (simp add: j1939_pgn_filter_def r)
  qed
qed

definition pgn_accepts :: "PGN_TABLE \<Rightarrow> u8 \<Rightarrow> u32 \<Rightarrow> bool" where
  "pgn_accepts p a pgn \<longleftrightarrow> (\<exists>e\<in>set (pgn_entries p). pgn_key e = pgn \<and> pgn_match a e)"

lemma pgn_filter_exact:
  assumes "pgn_inv p" and "pgn_sorted p" and d: "distinct (map pgn_key (pgn_entries p))"
  shows "j1939_pgn_filter p a pgn = Some (pgn_accepts p a pgn)"
proof -
  obtain eo where eo: "j1939_pgn_filter p a pgn = Some (case eo of None \<Rightarrow> False | Some e \<Rightarrow> pgn_match a e)"
      "case eo of None \<Rightarrow> pgn \<notin> pgn_key ` set (pgn_entries p)
      | Some e \<Rightarrow> e \<in> set (pgn_entries p) \<and> pgn_key e = pgn"
    using pgn_filter_ok [OF assms(1,2), of pgn] by auto
  have "e = e'" if "e \<in> set (pgn_entries p)" "e' \<in> set (pgn_entries p)" "pgn_key e = pgn_key e'" for e e'
    using d that by (auto simp: distinct_map inj_on_def)
  then show ?thesis using eo by (cases eo) (auto simp: pgn_accepts_def)
qed

lemma default_table_inv: "pgn_inv default_table"
  by (simp add: pgn_inv_def default_table_def PGN_TABLE_SIZE_def default_pgns_def)

section \<open>Properties\<close>

text \<open>Sorting the filter table at start-up never leaves the array and returns: the entries in
  use are afterwards in ascending order of their parameter group, are the same entries as
  before, and their number is unchanged; from the table the firmware is built with, the
  filter then decides every identifier exactly by its entries.\<close>

theorem pgn_init_correct:
  assumes "pgn_inv p"
  shows "\<exists>p'. j1939_pgn_init p = Some p' \<and> pgn_inv p' \<and> table_count p' = table_count p \<and>
     pgn_sorted p' \<and> mset (pgn_entries p') = mset (pgn_entries p) \<and>
     (distinct (map pgn_key (pgn_entries p)) \<longrightarrow>
        (\<forall>a pgn. j1939_pgn_filter p' a pgn = Some (pgn_accepts p a pgn)))"
proof -
  obtain p' where p': "j1939_pgn_init p = Some p'" "pgn_inv p'" "table_count p' = table_count p"
      "pgn_sorted p'" "mset (pgn_entries p') = mset (pgn_entries p)"
    using pgn_init_ok [OF assms] by blast
  have "mset (map pgn_key (pgn_entries p')) = mset (map pgn_key (pgn_entries p))" using p'(5) by simp
  then have "distinct (map pgn_key (pgn_entries p')) = distinct (map pgn_key (pgn_entries p))"
    by (rule mset_eq_imp_distinct_iff)
  moreover have "pgn_accepts p' a pgn = pgn_accepts p a pgn" for a pgn
    using mset_eq_setD [OF p'(5)] by (simp add: pgn_accepts_def)
  ultimately show ?thesis using p' pgn_filter_exact [OF p'(2,4)] by auto
qed

theorem pgn_init_correct_witness:
  "\<exists>p'. j1939_pgn_init default_table = Some p' \<and> pgn_sorted p' \<and>
     j1939_pgn_filter p' 0x17 0xFEE5 = Some True \<and> j1939_pgn_filter p' 0x17 0xF004 = Some False"
proof -
  have d: "distinct (map pgn_key (pgn_entries default_table))"
    "pgn_accepts default_table 0x17 0xFEE5" "\<not> pgn_accepts default_table 0x17 0xF004"
    by (simp_all add: pgn_accepts_def pgn_match_def pgn_entries_def default_table_def default_pgns_def pgn_key_def)
  show ?thesis using pgn_init_correct [OF default_table_inv] d by auto
qed

text \<open>Adding a parameter group fails exactly when the group has more than 18 bits or the 64
  places are taken, and changes nothing then. Otherwise the new entry is put in order
  among the old ones, and when its group was not in the table, the filter accepts afterwards
  exactly what it accepted before and that group from the given source (from every source
  when the address given is 0).\<close>

theorem pgn_add_correct:
  assumes "pgn_inv p" and "pgn_sorted p"
  shows "if pgn > DL_PGN_MASK \<or> table_count p = 64 then j1939_pgn_add p a pgn = Some (p, False)
     else \<exists>p'. j1939_pgn_add p a pgn = Some (p', True) \<and> pgn_inv p' \<and> pgn_sorted p' \<and>
       mset (pgn_entries p') = add_mset \<lparr>pgn_addr = a, pgn_pgn = ucast pgn\<rparr> (mset (pgn_entries p)) \<and>
       (distinct (map pgn_key (pgn_entries p)) \<and> pgn \<notin> pgn_key ` set (pgn_entries p) \<longrightarrow>
          (\<forall>b q. j1939_pgn_filter p' b q =
             Some (pgn_accepts p b q \<or> q = pgn \<and> (a = 0 \<or> a = b))))"
proof (cases "pgn > DL_PGN_MASK \<or> table_count p = 64")
  case True
  then show ?thesis using pgn_add_refused [of pgn p a] by (auto simp: PGN_TABLE_SIZE_def)
next
  case False
  let ?e = "\<lparr>pgn_addr = a, pgn_pgn = ucast pgn\<rparr>"
  have le: "pgn \<le> DL_PGN_MASK" using False by (simp add: not_less)
  have "unat (table_count p) \<noteq> 64" using False by (simp add: word_unat_eq_iff)
  then have "unat (table_count p) < PGN_TABLE_SIZE"
    using assms(1) by (simp add: pgn_inv_def PGN_TABLE_SIZE_def)
  then obtain p' k where p': "j1939_pgn_add p a pgn = Some (p', True)" "pgn_inv p'"
      and k: "k \<le> length (pgn_entries p)"
      and e': "pgn_entries p' = take k (pgn_entries p) @ ?e # drop k (pgn_entries p)"
      and o: "\<forall>j<k. pgn_key (pgn_entries p ! j) \<le> pgn" "k < length (pgn_entries p) \<longrightarrow> pgn < pgn_key (pgn_entries p ! k)"
    using pgn_add_ok [OF assms(1) le] by blast
  have key: "pgn_key ?e = pgn" by (rule pgn_key_store [OF le])
  have s: "pgn_sorted p'"
    unfolding pgn_sorted_def e' using assms(2) pgn_add_sorted [OF _ k key o] by (simp add: pgn_sorted_def)
  have "mset (pgn_entries p') = add_mset ?e (mset (take k (pgn_entries p)) + mset (drop k (pgn_entries p)))"
    unfolding e' by simp
  then have ms: "mset (pgn_entries p') = add_mset ?e (mset (pgn_entries p))"
    by (simp only: mset_append [symmetric] append_take_drop_id)
  have set: "set (pgn_entries p') = insert ?e (set (pgn_entries p))"
    using arg_cong [OF ms, of set_mset] by simp
  have "j1939_pgn_filter p' b q = Some (pgn_accepts p b q \<or> q = pgn \<and> (a = 0 \<or> a = b))"
    if "distinct (map pgn_key (pgn_entries p))" "pgn \<notin> pgn_key ` set (pgn_entries p)" for b q
  proof -
    have "mset (map pgn_key (pgn_entries p')) = mset (map pgn_key (?e # pgn_entries p))" using ms by simp
    then have "distinct (map pgn_key (pgn_entries p')) = distinct (map pgn_key (?e # pgn_entries p))"
      by (rule mset_eq_imp_distinct_iff)
    then have "distinct (map pgn_key (pgn_entries p'))" using that key by simp
    then show ?thesis
      using pgn_filter_exact [OF p'(2) s, of b q] key by (auto simp: pgn_accepts_def set pgn_match_def)
  qed
  then show ?thesis using False p' s ms by auto
qed

theorem pgn_add_correct_witness:
  "\<exists>p p'. j1939_pgn_add p 0x17 0xF004 = Some (p', True) \<and> pgn_sorted p' \<and>
     j1939_pgn_filter p' 0x17 0xF004 = Some True \<and> j1939_pgn_filter p' 0x18 0xF004 = Some False"
proof -
  define p where "p = \<lparr>table_count = 2, pgn_table = \<lparr>pgn_addr = 0, pgn_pgn = 0xEA00\<rparr> #
    \<lparr>pgn_addr = 0, pgn_pgn = 0xFEE5\<rparr> # replicate 62 \<lparr>pgn_addr = 0, pgn_pgn = 0\<rparr>\<rparr>"
  have "pgn_inv p" "pgn_sorted p" "distinct (map pgn_key (pgn_entries p))"
    "0xF004 \<notin> pgn_key ` set (pgn_entries p)" "table_count p \<noteq> 64" "\<not> pgn_accepts p 0x18 0xF004"
    by (simp_all add: p_def pgn_inv_def pgn_sorted_def pgn_entries_def PGN_TABLE_SIZE_def pgn_key_def pgn_accepts_def)
  then obtain p' where "j1939_pgn_add p 0x17 0xF004 = Some (p', True)" "pgn_sorted p'"
      "j1939_pgn_filter p' 0x17 0xF004 = Some True" "j1939_pgn_filter p' 0x18 0xF004 = Some False"
    using pgn_add_correct [of p "0xF004" "0x17"] by (auto simp: DL_PGN_MASK_def)
  then show ?thesis by blast
qed

end
