(* ===== verification/Notify.thy ===== *)
theory Notify imports Prelude begin

text \<open>
  The notification word of a task (\<^verbatim>\<open>xTaskGenericNotify\<close> and
  \<^verbatim>\<open>xTaskGenericNotifyWait\<close> of \<^verbatim>\<open>rtos/source/tasks.c\<close>), which every service loop of the firmware
  waits on. Scheduling is left out: a wait that would block and is not woken ends as a
  time-out. The lemmas say which bits a wait reports and which survive it.
\<close>

datatype eNotifyAction = eNoAction | eSetBits | eIncrement | eSetValueWithOverwrite | eSetValueWithoutOverwrite

datatype ucNotifyState = taskNOT_WAITING_NOTIFICATION | taskWAITING_NOTIFICATION | taskNOTIFICATION_RECEIVED

record task_notify =
  ulNotifiedValue :: u32
  notify_state :: ucNotifyState

definition xTaskGenericNotify :: "task_notify \<Rightarrow> u32 \<Rightarrow> eNotifyAction \<Rightarrow> task_notify \<times> bool" where
  "xTaskGenericNotify t v action =
     (let original = notify_state t; t = t\<lparr>notify_state := taskNOTIFICATION_RECEIVED\<rparr> in
      case action of
        eSetBits \<Rightarrow> (t\<lparr>ulNotifiedValue := ulNotifiedValue t OR v\<rparr>, True)
      | eIncrement \<Rightarrow> (t\<lparr>ulNotifiedValue := ulNotifiedValue t + 1\<rparr>, True)
      | eSetValueWithOverwrite \<Rightarrow> (t\<lparr>ulNotifiedValue := v\<rparr>, True)
      | eSetValueWithoutOverwrite \<Rightarrow>
          if original \<noteq> taskNOTIFICATION_RECEIVED then (t\<lparr>ulNotifiedValue := v\<rparr>, True) else (t, False)
      | eNoAction \<Rightarrow> (t, True))"

text \<open>The part before the task blocks, and the part after it has run again.\<close>

definition notify_wait_enter :: "task_notify \<Rightarrow> u32 \<Rightarrow> task_notify" where
  "notify_wait_enter t clear_on_entry =
     (if notify_state t \<noteq> taskNOTIFICATION_RECEIVED
      then t\<lparr>ulNotifiedValue := ulNotifiedValue t AND NOT clear_on_entry,
             notify_state := taskWAITING_NOTIFICATION\<rparr>
      else t)"

definition notify_wait_leave :: "task_notify \<Rightarrow> u32 \<Rightarrow> task_notify \<times> u32 \<times> bool" where
  "notify_wait_leave t clear_on_exit =
     (let v = ulNotifiedValue t in
      if notify_state t \<noteq> taskNOTIFICATION_RECEIVED
      then (t\<lparr>notify_state := taskNOT_WAITING_NOTIFICATION\<rparr>, v, False)
      else (t\<lparr>ulNotifiedValue := v AND NOT clear_on_exit,
              notify_state := taskNOT_WAITING_NOTIFICATION\<rparr>, v, True))"

text \<open>A wait during which the bits \<open>vs\<close> are set, one call of the notifier after the other.\<close>

definition notify_set :: "task_notify \<Rightarrow> u32 \<Rightarrow> task_notify" where
  "notify_set t v = fst (xTaskGenericNotify t v eSetBits)"

definition notify_wait :: "task_notify \<Rightarrow> u32 list \<Rightarrow> u32 \<Rightarrow> task_notify \<times> u32 \<times> bool" where
  "notify_wait t vs clear_on_exit =
     notify_wait_leave (fold (\<lambda>v t. notify_set t v) vs (notify_wait_enter t 0)) clear_on_exit"

lemma notify_set_simps [simp]:
  "ulNotifiedValue (notify_set t v) = ulNotifiedValue t OR v"
  "notify_state (notify_set t v) = taskNOTIFICATION_RECEIVED"
  by (simp_all add: notify_set_def xTaskGenericNotify_def Let_def)

lemma fold_notify_set:
  "ulNotifiedValue (fold (\<lambda>v t. notify_set t v) vs t) = fold (\<lambda>v b. b OR v) vs (ulNotifiedValue t)"
  "notify_state (fold (\<lambda>v t. notify_set t v) vs t) =
     (if vs = [] then notify_state t else taskNOTIFICATION_RECEIVED)"
  by (induction vs arbitrary: t) simp_all

lemma notify_wait_simps:
  assumes "notify_state t = taskNOT_WAITING_NOTIFICATION"
  shows "notify_wait t [] m = (t, ulNotifiedValue t, False)"
    "notify_wait t [v] m = (\<lparr>ulNotifiedValue = (ulNotifiedValue t OR v) AND NOT m,
       notify_state = taskNOT_WAITING_NOTIFICATION\<rparr>, ulNotifiedValue t OR v, True)"
  using assms
  by (auto simp: notify_wait_def notify_wait_enter_def notify_wait_leave_def Let_def notify_set_def
      xTaskGenericNotify_def)

end
