(* ===== verification/CanTypes.thy ===== *)
theory CanTypes imports Prelude begin

text \<open>The CAN frame all services exchange (\<^verbatim>\<open>driver/can/can_types.h\<close>).\<close>

record can_msg =
  can_id :: u32
  can_ins :: u8
  can_len :: u8
  can_data :: "u8 list"

definition DRV_CAN_INS_COUNT :: nat where
  "DRV_CAN_INS_COUNT = 3"

text \<open>The data field has eight bytes.\<close>

definition can_msg_ok :: "can_msg \<Rightarrow> bool" where
  "can_msg_ok m \<longleftrightarrow> length (can_data m) = 8"

end
