(* ===== verification/J1939State.thy ===== *)
theory J1939State imports J1939List J1939Pgn Notify CanTypes begin

text \<open>
  The data of the J1939 stack (\<^verbatim>\<open>service/j1939/j1939.h\<close>): frames, protocol data units,
  messages, the receive state machine of the transport layer, and the state all layers
  share. What the stack does to the outside (frames handed to \<^verbatim>\<open>can_if_send\<close>, calls of
  subscribers, notifications of the service task) is appended to \<open>j_out\<close>.
\<close>

section \<open>Constants\<close>

definition REQUEST_FOR_ADDRESS_CLAIMED :: u32 where "REQUEST_FOR_ADDRESS_CLAIMED = 0xEA00"
definition ADDRESS_CLAIMED :: u32 where "ADDRESS_CLAIMED = 0xEE00"
definition COMMANDED_ADDRESS :: u32 where "COMMANDED_ADDRESS = 0xFED8"
definition REQUEST_PGN :: u32 where "REQUEST_PGN = 0xEA00"
definition TP_CM :: u32 where "TP_CM = 0xEC00"
definition TP_DT :: u32 where "TP_DT = 0xEB00"
definition TP_CM_RTS :: u8 where "TP_CM_RTS = 16"
definition TP_CM_BAM :: u8 where "TP_CM_BAM = 32"
definition NODEADDR :: u8 where "NODEADDR = 0xD8"
definition GLOBADDR :: u8 where "GLOBADDR = 0xFF"
definition NUMBER_TRANS_RX_BUFFERS :: nat where "NUMBER_TRANS_RX_BUFFERS = 128"
definition NUMBER_PDU_BUFFERS :: nat where "NUMBER_PDU_BUFFERS = 8"
definition HA_CHANNEL_SIZE :: nat where "HA_CHANNEL_SIZE = 2"
definition AL_SUBSCRIBE_CNT_MAX :: nat where "AL_SUBSCRIBE_CNT_MAX = 10"
definition DRV_CAN_EXTEND_ID_MASK :: u32 where "DRV_CAN_EXTEND_ID_MASK = 0x80000000"

lemmas j1939_consts = REQUEST_FOR_ADDRESS_CLAIMED_def ADDRESS_CLAIMED_def COMMANDED_ADDRESS_def
  REQUEST_PGN_def TP_CM_def TP_DT_def TP_CM_RTS_def TP_CM_BAM_def NODEADDR_def GLOBADDR_def
  NUMBER_TRANS_RX_BUFFERS_def NUMBER_PDU_BUFFERS_def HA_CHANNEL_SIZE_def AL_SUBSCRIBE_CNT_MAX_def
  DRV_CAN_EXTEND_ID_MASK_def DL_PGN_MASK_def

section \<open>Frames and messages\<close>

record CAN_PACKET =
  pkt_identifier :: u32
  pkt_data :: "u8 list"
  pkt_byte_count :: u8
  pkt_channel :: u8

record J1939_TX_MESSAGE =
  tx_PGN :: u32
  tx_data :: "u8 list"
  tx_byte_count :: u16
  tx_priority :: u8
  tx_dest_addr :: u8
  tx_sa_addr :: u8
  tx_channel :: u8

record J1939_RX_PDU =
  pdu_PGN :: u32
  pdu_data :: "u8 list"
  pdu_byte_count :: u16
  pdu_source_addr :: u8
  pdu_dest_addr :: u8

record J1939_RX_MESSAGE =
  msg_PGN :: u32
  msg_data :: "u8 list"
  msg_byte_count :: u16
  msg_source_addr :: u8
  msg_dest_addr :: u8

section \<open>The receive state machine\<close>

datatype J1939_RX_STATUS = WAIT_FOR_MESSAGE | INIT_REASSEMBLE_STRUCTURE | CHECK_PACKET | SEND_ABORT |
  SEND_CTS_WITH_COUNT | WAIT_FOR_DATA | CHECK_TIMER | RESET_REASSEMBLY_STRUCTURE |
  CHECK_DATA_PACKET | SAVE_DATA | SEND_EOM | SEND_CTS | FILL_USER_MESSAGE

record J1939_RX_STATE_MACHINE =
  sm_PGN :: u32
  sm_channel :: u8
  sm_status :: J1939_RX_STATUS
  sm_packet_number :: u8
  sm_total_packet_number :: u8
  sm_byte_count :: u16
  sm_timer_counter :: u16
  sm_source_addr :: u8
  sm_dest_addr :: u8
  sm_TP :: u8

record J1939_RX_CONTEXT =
  cx_machine :: J1939_RX_STATE_MACHINE
  cx_pdu :: J1939_RX_PDU
  cx_msg :: J1939_RX_MESSAGE

text \<open>What \<^verbatim>\<open>memset\<close> to 0 leaves in each of them; status 0 is \<open>WAIT_FOR_MESSAGE\<close>.\<close>

definition zero_machine :: J1939_RX_STATE_MACHINE where
  "zero_machine = \<lparr>sm_PGN = 0, sm_channel = 0, sm_status = WAIT_FOR_MESSAGE, sm_packet_number = 0,
     sm_total_packet_number = 0, sm_byte_count = 0, sm_timer_counter = 0, sm_source_addr = 0,
     sm_dest_addr = 0, sm_TP = 0\<rparr>"

definition zero_pdu :: J1939_RX_PDU where
  "zero_pdu = \<lparr>pdu_PGN = 0, pdu_data = replicate 8 0, pdu_byte_count = 0, pdu_source_addr = 0,
     pdu_dest_addr = 0\<rparr>"

definition zero_msg :: J1939_RX_MESSAGE where
  "zero_msg = \<lparr>msg_PGN = 0, msg_data = replicate 128 0, msg_byte_count = 0, msg_source_addr = 0,
     msg_dest_addr = 0\<rparr>"

section \<open>The stack\<close>

text \<open>Subscribers are numbered; \<open>None\<close> is a null callback.\<close>

record AL_PGN_SUBSCRIBE =
  sub_sa :: u8
  sub_pgn :: "24 word"
  sub_cb :: "nat option"

text \<open>The only completion callback the program passes down.\<close>

datatype FINISHED_CALLBACK = J1939_SVR_INACTIVE

text \<open>A frame handed to the driver; a call of a subscriber with data, length, address and
  parameter group.\<close>

datatype J1939_OUT =
    CanIfSend can_msg
  | Deliver nat "u8 list" u16 u8 u32

text \<open>\<open>j_handle\<close> says whether the service task exists, \<open>j_notify\<close> is its notification word.\<close>

record J1939 =
  j_pgn :: PGN_TABLE
  j_rx :: "CAN_PACKET jlist"
  j_tx :: "CAN_PACKET jlist"
  j_primed :: bool
  j_txfcb :: "FINISHED_CALLBACK option"
  j_ctx :: "J1939_RX_CONTEXT list"
  j_al :: "J1939_RX_MESSAGE jlist"
  j_cnt :: u32
  j_sub :: "AL_PGN_SUBSCRIBE list"
  j_handle :: bool
  j_notify :: task_notify
  j_out :: "J1939_OUT list"

text \<open>The indeterminate contents of the automatic variables \<^verbatim>\<open>pdu\<close> and \<^verbatim>\<open>msg\<close>, and of
  the frame buffers of one call.\<close>

record garbage =
  g_pkt :: "u8 list"
  g_pdu :: "u8 list"
  g_msg :: "u8 list"

definition garbage_ok :: "garbage \<Rightarrow> bool" where
  "garbage_ok g \<longleftrightarrow> length (g_pkt g) = 8 \<and> length (g_pdu g) = 8 \<and> length (g_msg g) = 128"

end
