(* ===== verification/J1939Al.thy ===== *)
theory J1939Al imports J1939State begin

text \<open>
  The application layer (\<^verbatim>\<open>service/j1939/j1939_al.c\<close>) and the network management layer below
  it (\<^verbatim>\<open>j1939_nml.c\<close>): subscriptions, the queue of received messages and their delivery. The
  lemmas show that a delivery calls exactly the matching subscribers, in the order they
  subscribed, and what a subscription admits.
\<close>

section \<open>Operations\<close>

definition j1939_al_init :: "J1939 \<Rightarrow> J1939" where
  "j1939_al_init s = s\<lparr>j_al := list_init (j_al s)\<rparr>"

definition al_deliver :: "J1939_RX_MESSAGE \<Rightarrow> AL_PGN_SUBSCRIBE \<Rightarrow> J1939_OUT list" where
  "al_deliver m e =
     (let subscribed_sa = sub_sa e; subscribed_pgn = ucast (sub_pgn e) in
      if subscribed_pgn \<noteq> msg_PGN m then []
      else if subscribed_sa \<noteq> 0 \<and> subscribed_sa \<noteq> msg_source_addr m then []
      else case sub_cb e of
        None \<Rightarrow> []
      | Some cb \<Rightarrow> [Deliver cb (msg_data m) (msg_byte_count m) subscribed_sa subscribed_pgn])"

definition j1939_al_periodic :: "J1939 \<Rightarrow> J1939 option" where
  "j1939_al_periodic s = do {
     (l, mo) \<leftarrow> list_take (j_al s);
     case mo of
       None \<Rightarrow> Some s
     | Some m \<Rightarrow> for_up 0 (unat (j_cnt s)) (\<lambda>i s. do {
         e \<leftarrow> rd (j_sub s) i;
         Some (s\<lparr>j_out := j_out s @ al_deliver m e\<rparr>)
       }) (s\<lparr>j_al := l\<rparr>)
   }"

definition j1939_al_process :: "J1939 \<Rightarrow> J1939_RX_MESSAGE \<Rightarrow> J1939 option" where
  "j1939_al_process s m =
     (if list_is_full (j_al s) then Some s
      else do { l \<leftarrow> list_put (j_al s) m; Some (s\<lparr>j_al := l\<rparr>) })"

definition j1939_al_subscribe :: "J1939 \<Rightarrow> u8 \<Rightarrow> u32 \<Rightarrow> nat option \<Rightarrow> (J1939 \<times> bool) option" where
  "j1939_al_subscribe s target_addr target_pgn recv_cb = do {
     known \<leftarrow> j1939_pgn_filter (j_pgn s) target_addr target_pgn;
     (p, ok) \<leftarrow> (if known then Some (j_pgn s, True) else j1939_pgn_add (j_pgn s) target_addr target_pgn);
     let s = s\<lparr>j_pgn := p\<rparr>;
     if ok \<and> unat (j_cnt s) < AL_SUBSCRIBE_CNT_MAX then do {
       t \<leftarrow> wr (j_sub s) (unat (j_cnt s)) \<lparr>sub_sa = target_addr, sub_pgn = ucast target_pgn, sub_cb = recv_cb\<rparr>;
       Some (s\<lparr>j_sub := t, j_cnt := j_cnt s + 1\<rparr>, True)
     } else Some (s, False)
   }"

definition j1939_nml_process :: "J1939 \<Rightarrow> J1939_RX_MESSAGE \<Rightarrow> J1939 option" where
  "j1939_nml_process s m =
     (if msg_PGN m = REQUEST_FOR_ADDRESS_CLAIMED then Some s
      else if msg_PGN m = ADDRESS_CLAIMED then Some s
      else if msg_PGN m = COMMANDED_ADDRESS then Some s
      else j1939_al_process s m)"

section \<open>Facts\<close>

definition nml_passes :: "J1939_RX_MESSAGE \<Rightarrow> bool" where
  "nml_passes m \<longleftrightarrow> msg_PGN m \<notin> {REQUEST_FOR_ADDRESS_CLAIMED, ADDRESS_CLAIMED, COMMANDED_ADDRESS}"

definition al_subs :: "J1939 \<Rightarrow> AL_PGN_SUBSCRIBE list" where
  "al_subs s = take (unat (j_cnt s)) (j_sub s)"

definition al_inv :: "J1939 \<Rightarrow> bool" where
  "al_inv s \<longleftrightarrow> unat (j_cnt s) \<le> length (j_sub s) \<and> length (j_sub s) = AL_SUBSCRIBE_CNT_MAX"

text \<open>\<open>al_waiting s ms\<close>: the messages \<open>ms\<close> wait for delivery; at most three fit.\<close>

definition al_waiting :: "J1939 \<Rightarrow> J1939_RX_MESSAGE list \<Rightarrow> bool" where
  "al_waiting s ms \<longleftrightarrow> jl_holds 4 (j_al s) ms"

lemma j_al_same [simp]: "s\<lparr>j_al := j_al s\<rparr> = s"
  by (cases s) simp

lemma al_process_offer:
  "j1939_al_process s m = map_option (\<lambda>(l, _). s\<lparr>j_al := l\<rparr>) (list_offer (j_al s) m)"
  by (cases "list_put (j_al s) m") (simp_all add: j1939_al_process_def list_offer_def)

lemma al_process_ok:
  assumes "al_waiting s ms"
  shows "\<exists>l. j1939_al_process s m = Some (s\<lparr>j_al := l\<rparr>) \<and>
     jl_holds 4 l (if length ms < 3 then ms @ [m] else ms)"
proof -
  have "jl_holds 4 (j_al s) ms" using assms by (simp only: al_waiting_def)
  then obtain l where l: "list_offer (j_al s) m = Some (l, length ms < 4 - 1)"
      "jl_holds 4 l (if length ms < 4 - 1 then ms @ [m] else ms)"
    using list_offer_holds [of 4 "j_al s" ms m] by metis
  have "j1939_al_process s m = Some (s\<lparr>j_al := l\<rparr>)" by (simp add: al_process_offer l(1))
  then show ?thesis using l(2) by (intro exI [of _ l]) (simp only: diff_numeral_special, simp)
qed

lemma nml_process_ok:
  assumes "al_waiting s ms"
  shows "\<exists>l. j1939_nml_process s m = Some (s\<lparr>j_al := l\<rparr>) \<and>
     jl_holds 4 l (if nml_passes m \<and> length ms < 3 then ms @ [m] else ms)"
proof (cases "nml_passes m")
  case True
  then show ?thesis using al_process_ok [OF assms, of m] by (simp add: j1939_nml_process_def nml_passes_def)
next
  case False
  then have "j1939_nml_process s m = Some (s\<lparr>j_al := j_al s\<rparr>)"
    by (auto simp: j1939_nml_process_def nml_passes_def)
  then show ?thesis using False assms by (intro exI [of _ "j_al s"]) (simp add: al_waiting_def)
qed

lemma deliver_loop:
  assumes "i + n \<le> length (j_sub s)"
  shows "for_up i n (\<lambda>i s. do { e \<leftarrow> rd (j_sub s) i; Some (s\<lparr>j_out := j_out s @ f e\<rparr>) }) s
     = Some (s\<lparr>j_out := j_out s @ concat (map f (take n (drop i (j_sub s))))\<rparr>)"
  using assms
proof (induction n arbitrary: i s)
  case (Suc n)
  have d: "drop i (j_sub s) = j_sub s ! i # drop (Suc i) (j_sub s)"
    using Suc.prems by (intro Cons_nth_drop_Suc [symmetric]) simp
  show ?case using Suc.prems Suc.IH [of "Suc i" "s\<lparr>j_out := j_out s @ f (j_sub s ! i)\<rparr>"] by (simp add: d)
qed simp

lemma al_periodic_ok:
  assumes w: "al_waiting s ms" and i: "al_inv s"
  shows "\<exists>l. j1939_al_periodic s = Some (s\<lparr>j_al := l,
       j_out := j_out s @ (case ms of [] \<Rightarrow> [] | m # _ \<Rightarrow> concat (map (al_deliver m) (al_subs s)))\<rparr>) \<and>
     jl_holds 4 l (tl ms)"
proof (cases ms)
  case Nil
  then have "list_is_empty (j_al s)"
    using w list_is_empty_iff [of "j_al s"] by (simp add: al_waiting_def jl_holds_def)
  then have "j1939_al_periodic s = Some s"
    by (simp add: j1939_al_periodic_def list_take_def)
  then show ?thesis using w Nil by (intro exI [of _ "j_al s"]) (simp add: al_waiting_def)
next
  case (Cons m ms')
  obtain l where l: "list_take (j_al s) = Some (l, Some m)" "jl_holds 4 l ms'"
    using list_take_holds [of 4 "j_al s" ms] w Cons by (auto simp: al_waiting_def)
  have "unat (j_cnt s) \<le> length (j_sub s)" using i by (simp add: al_inv_def)
  then have "j1939_al_periodic s = Some (s\<lparr>j_al := l, j_out := j_out s @ concat (map (al_deliver m) (al_subs s))\<rparr>)"
    using deliver_loop [of 0 "unat (j_cnt s)" "s\<lparr>j_al := l\<rparr>" "al_deliver m"] l(1)
    by (simp add: j1939_al_periodic_def al_subs_def)
  then show ?thesis using Cons l(2) by auto
qed

lemma al_subscribe_ok:
  assumes i: "al_inv s" and p: "pgn_inv (j_pgn s)" "pgn_sorted (j_pgn s)"
  shows "\<exists>s' ok. j1939_al_subscribe s a p cb = Some (s', ok) \<and> al_inv s' \<and>
     pgn_inv (j_pgn s') \<and> pgn_sorted (j_pgn s') \<and>
     s' = s\<lparr>j_pgn := j_pgn s', j_sub := j_sub s', j_cnt := j_cnt s'\<rparr> \<and>
     al_subs s' = (if ok then al_subs s @ [\<lparr>sub_sa = a, sub_pgn = ucast p, sub_cb = cb\<rparr>] else al_subs s)"
proof -
  let ?e = "\<lparr>sub_sa = a, sub_pgn = ucast p, sub_cb = cb\<rparr>"
  obtain known where known: "j1939_pgn_filter (j_pgn s) a p = Some known"
    using pgn_filter_ok [OF p] by blast
  have "\<exists>q ok. (if known then Some (j_pgn s, True) else j1939_pgn_add (j_pgn s) a p) = Some (q, ok) \<and>
      pgn_inv q \<and> pgn_sorted q"
  proof (cases "known \<or> p > DL_PGN_MASK \<or> unat (table_count (j_pgn s)) \<ge> PGN_TABLE_SIZE")
    case True
    then show ?thesis using p pgn_add_refused [of p "j_pgn s" a] by auto
  next
    case False
    then have lt: "p \<le> DL_PGN_MASK" "unat (table_count (j_pgn s)) < PGN_TABLE_SIZE" by auto
    obtain q k where q: "j1939_pgn_add (j_pgn s) a p = Some (q, True)" "pgn_inv q"
        and k: "k \<le> length (pgn_entries (j_pgn s))"
        and e: "pgn_entries q = take k (pgn_entries (j_pgn s)) @ \<lparr>pgn_addr = a, pgn_pgn = ucast p\<rparr> # drop k (pgn_entries (j_pgn s))"
        and o: "\<forall>j<k. pgn_key (pgn_entries (j_pgn s) ! j) \<le> p"
          "k < length (pgn_entries (j_pgn s)) \<longrightarrow> p < pgn_key (pgn_entries (j_pgn s) ! k)"
      using pgn_add_ok [OF p(1) lt] by blast
    have "pgn_sorted q"
      unfolding pgn_sorted_def e using p(2) pgn_add_sorted [OF _ k pgn_key_store [OF lt(1)] o]
      by (simp add: pgn_sorted_def)
    then show ?thesis using q False by auto
  qed
  then obtain q ok where q: "(if known then Some (j_pgn s, True) else j1939_pgn_add (j_pgn s) a p) = Some (q, ok)"
      "pgn_inv q" "pgn_sorted q" by blast
  let ?s = "s\<lparr>j_pgn := q\<rparr>"
  let ?t = "?s\<lparr>j_sub := (j_sub s)[unat (j_cnt s) := ?e], j_cnt := j_cnt s + 1\<rparr>"
  show ?thesis
  proof (cases "ok \<and> unat (j_cnt s) < AL_SUBSCRIBE_CNT_MAX")
    case True
    then have c: "unat (j_cnt s) < length (j_sub s)" using i by (simp add: al_inv_def)
    have c1: "unat (j_cnt s + 1) = Suc (unat (j_cnt s))"
      using True by (subst unat_plus_if_fits) (simp_all add: AL_SUBSCRIBE_CNT_MAX_def)
    have "j1939_al_subscribe s a p cb = Some (?t, True)"
      using known q(1) True c by (simp add: j1939_al_subscribe_def)
    moreover have "al_subs ?t = al_subs s @ [?e]"
      using c by (simp add: al_subs_def c1 take_Suc_conv_app_nth)
    moreover have "al_inv ?t" using c i by (simp add: al_inv_def c1)
    ultimately show ?thesis using q(2,3) by (intro exI [of _ ?t] exI [of _ True]) simp
  next
    case False
    then have "j1939_al_subscribe s a p cb = Some (?s, False)"
      using known q(1) by (auto simp: j1939_al_subscribe_def)
    then show ?thesis using i q(2,3)
      by (intro exI [of _ ?s] exI [of _ False]) (simp add: al_inv_def al_subs_def)
  qed
qed

end
