(* ===== verification/J1939Tl.thy ===== *)
theory J1939Tl imports J1939Al begin

text \<open>
  The transport layer (\<^verbatim>\<open>service/j1939/j1939_tl.c\<close>): the receive state machine that puts
  multi-packet broadcasts together, one context per CAN channel. \<open>tl_step\<close> is one round of
  the \<^verbatim>\<open>switch\<close>, \<open>tl_loop\<close> the \<^verbatim>\<open>while\<close> loop around it; the loop need not end, so it is a
  partial function, and \<open>None\<close> means that it does not return (or leaves an array).
\<close>

section \<open>Operations\<close>

definition j1939_tl_init :: "J1939 \<Rightarrow> J1939" where
  "j1939_tl_init s = s\<lparr>j_ctx := replicate HA_CHANNEL_SIZE
     \<lparr>cx_machine = zero_machine, cx_pdu = zero_pdu, cx_msg = zero_msg\<rparr>\<rparr>"

definition j1939_tl_process :: "J1939 \<Rightarrow> u8 \<Rightarrow> J1939_RX_PDU \<Rightarrow> garbage \<Rightarrow> J1939 option" where
  "j1939_tl_process s channel pdu g =
     (if pdu_PGN pdu = TP_CM \<or> pdu_PGN pdu = TP_DT then do {
        c \<leftarrow> rd (j_ctx s) (unat channel);
        d \<leftarrow> memcpy (pdu_data (cx_pdu c)) 0 (pdu_data pdu) 0 NUMBER_PDU_BUFFERS;
        ctx \<leftarrow> wr (j_ctx s) (unat channel) (c\<lparr>cx_pdu := \<lparr>pdu_PGN = pdu_PGN pdu, pdu_data = d,
          pdu_byte_count = pdu_byte_count pdu, pdu_source_addr = pdu_source_addr pdu,
          pdu_dest_addr = pdu_dest_addr pdu\<rparr>\<rparr>);
        Some (s\<lparr>j_ctx := ctx\<rparr>)
      } else do {
        d \<leftarrow> memcpy (g_msg g) 0 (pdu_data pdu) 0 NUMBER_PDU_BUFFERS;
        j1939_nml_process s \<lparr>msg_PGN = pdu_PGN pdu, msg_data = d, msg_byte_count = pdu_byte_count pdu,
          msg_source_addr = pdu_source_addr pdu, msg_dest_addr = pdu_dest_addr pdu\<rparr>
      })"

text \<open>The copy loop of \<open>SAVE_DATA\<close> with \<open>n\<close> bytes of the packet to go; \<open>v\<close> is
  \<^verbatim>\<open>volatile_packet_number\<close>, the index of the byte written last.\<close>

fun save_loop :: "nat \<Rightarrow> nat \<Rightarrow> u8 \<Rightarrow> J1939_RX_CONTEXT \<Rightarrow> J1939_RX_CONTEXT option" where
  "save_loop i 0 v c = Some c"
| "save_loop i (Suc n) v c =
     (if ucast v \<le> sm_byte_count (cx_machine c) then do {
        let v = sm_packet_number (cx_machine c) * 7 + of_nat i;
        b \<leftarrow> rd (pdu_data (cx_pdu c)) (i + 1);
        d \<leftarrow> wr (msg_data (cx_msg c)) (unat v) b;
        p \<leftarrow> wr (pdu_data (cx_pdu c)) (i + 1) 0;
        save_loop (Suc i) n v (c\<lparr>cx_msg := (cx_msg c)\<lparr>msg_data := d\<rparr>, cx_pdu := (cx_pdu c)\<lparr>pdu_data := p\<rparr>\<rparr>)
      } else Some c)"

definition set_status :: "J1939_RX_STATUS \<Rightarrow> J1939_RX_CONTEXT \<Rightarrow> J1939_RX_CONTEXT" where
  "set_status st c = c\<lparr>cx_machine := (cx_machine c)\<lparr>sm_status := st\<rparr>\<rparr>"

definition reset_timer :: "J1939_RX_CONTEXT \<Rightarrow> J1939_RX_CONTEXT" where
  "reset_timer c = c\<lparr>cx_machine := (cx_machine c)\<lparr>sm_timer_counter := 0\<rparr>\<rparr>"

text \<open>The cases of the \<^verbatim>\<open>switch\<close> with a body of their own.\<close>

definition wait_for_message :: "J1939_RX_CONTEXT \<Rightarrow> (J1939_RX_CONTEXT \<times> bool) option" where
  "wait_for_message c =
     (let p = cx_pdu c in
      if pdu_PGN p = TP_CM \<and> (pdu_dest_addr p = GLOBADDR \<or> pdu_dest_addr p = NODEADDR) then do {
        d0 \<leftarrow> rd (pdu_data p) 0;
        if d0 = TP_CM_RTS \<or> d0 = TP_CM_BAM then do {
          d1 \<leftarrow> rd (pdu_data p) 1;
          d2 \<leftarrow> rd (pdu_data p) 2;
          d3 \<leftarrow> rd (pdu_data p) 3;
          d5 \<leftarrow> rd (pdu_data p) 5;
          d6 \<leftarrow> rd (pdu_data p) 6;
          Some (c\<lparr>cx_machine := (cx_machine c)\<lparr>
            sm_PGN := push_bit 8 (ucast d6) + ucast d5,
            sm_dest_addr := pdu_dest_addr p, sm_source_addr := pdu_source_addr p,
            sm_packet_number := 0, sm_timer_counter := 0, sm_total_packet_number := d3,
            sm_byte_count := ucast (push_bit 8 (ucast d2 :: u32) + ucast d1),
            sm_status := INIT_REASSEMBLE_STRUCTURE, sm_TP := d0\<rparr>\<rparr>, True)
        } else Some (c, False)
      } else Some (c, False))"

definition init_reassemble :: "J1939_RX_CONTEXT \<Rightarrow> J1939_RX_CONTEXT \<times> bool" where
  "init_reassemble c =
     (let m = cx_machine c in
      if sm_TP m = TP_CM_RTS then (c, True)
      else if sm_TP m = TP_CM_BAM then
        (if unat (sm_byte_count m) < NUMBER_TRANS_RX_BUFFERS then
           (set_status WAIT_FOR_DATA (c\<lparr>cx_msg := \<lparr>msg_PGN = sm_PGN m,
              msg_data = replicate NUMBER_TRANS_RX_BUFFERS 0, msg_byte_count = sm_byte_count m,
              msg_source_addr = sm_source_addr m, msg_dest_addr = sm_dest_addr m\<rparr>\<rparr>), True)
         else (reset_timer (set_status WAIT_FOR_MESSAGE c), False))
      else (reset_timer (set_status WAIT_FOR_MESSAGE c), False))"

definition check_data_packet :: "J1939_RX_CONTEXT \<Rightarrow> (J1939_RX_CONTEXT \<times> bool) option" where
  "check_data_packet c =
     (let m = cx_machine c; p = cx_pdu c in
      if sm_TP m = TP_CM_BAM then
        (if pdu_source_addr p = sm_source_addr m \<and> pdu_dest_addr p = sm_dest_addr m then do {
           d0 \<leftarrow> rd (pdu_data p) 0;
           if uint (sm_packet_number m) = uint d0 - 1 then do {
             d \<leftarrow> wr (pdu_data p) 0 0;
             Some ((reset_timer (set_status SAVE_DATA c))\<lparr>cx_pdu := p\<lparr>pdu_data := d\<rparr>\<rparr>, True)
           }
           else if d0 \<noteq> 0 then Some (set_status RESET_REASSEMBLY_STRUCTURE c, True)
           else Some (set_status WAIT_FOR_DATA c, False)
         } else Some (set_status WAIT_FOR_DATA c, False))
      else Some (c, True))"

definition save_data :: "J1939_RX_CONTEXT \<Rightarrow> (J1939_RX_CONTEXT \<times> bool) option" where
  "save_data c = do {
     c \<leftarrow> save_loop 0 7 (sm_packet_number (cx_machine c) * 7) c;
     let c = c\<lparr>cx_machine := (cx_machine c)\<lparr>sm_packet_number := sm_packet_number (cx_machine c) + 1\<rparr>\<rparr>;
     Some (if sm_packet_number (cx_machine c) = sm_total_packet_number (cx_machine c)
           then (set_status FILL_USER_MESSAGE c, True) else (set_status WAIT_FOR_DATA c, False))
   }"

text \<open>One round of the \<^verbatim>\<open>switch\<close>: the new context, the new state of the stack, \<^verbatim>\<open>go_on\<close>.\<close>

definition tl_step :: "J1939_RX_CONTEXT \<Rightarrow> J1939 \<Rightarrow> ((J1939_RX_CONTEXT \<times> bool) \<times> J1939) option" where
  "tl_step c s =
     (case sm_status (cx_machine c) of
        WAIT_FOR_MESSAGE \<Rightarrow> map_option (\<lambda>r. (r, s)) (wait_for_message c)
      | INIT_REASSEMBLE_STRUCTURE \<Rightarrow> Some (init_reassemble c, s)
      | CHECK_PACKET \<Rightarrow> Some ((c, True), s)
      | SEND_ABORT \<Rightarrow> Some ((c, True), s)
      | SEND_CTS_WITH_COUNT \<Rightarrow> Some ((c, True), s)
      | WAIT_FOR_DATA \<Rightarrow>
          Some ((set_status (if pdu_PGN (cx_pdu c) = TP_DT then CHECK_DATA_PACKET else CHECK_TIMER) c, True), s)
      | CHECK_TIMER \<Rightarrow>
          Some (if unat (sm_timer_counter (cx_machine c)) > 750 div 10
                then (set_status RESET_REASSEMBLY_STRUCTURE c, True)
                else (set_status WAIT_FOR_DATA c, False), s)
      | RESET_REASSEMBLY_STRUCTURE \<Rightarrow> Some ((c\<lparr>cx_pdu := zero_pdu, cx_machine := zero_machine\<rparr>, False), s)
      | CHECK_DATA_PACKET \<Rightarrow> map_option (\<lambda>r. (r, s)) (check_data_packet c)
      | SAVE_DATA \<Rightarrow> map_option (\<lambda>r. (r, s)) (save_data c)
      | _ \<Rightarrow> do {
          s \<leftarrow> j1939_nml_process s (cx_msg c);
          Some ((reset_timer (set_status RESET_REASSEMBLY_STRUCTURE c), True), s)
        })"

partial_function (option) tl_loop :: "J1939_RX_CONTEXT \<Rightarrow> J1939 \<Rightarrow> (J1939_RX_CONTEXT \<times> J1939) option" where
  "tl_loop c s = do {
     ((c, go_on), s) \<leftarrow> tl_step c s;
     if go_on then tl_loop c s else Some (c, s)
   }"

definition tl_channel :: "nat \<Rightarrow> J1939 \<Rightarrow> J1939 option" where
  "tl_channel channel s = do {
     c \<leftarrow> rd (j_ctx s) channel;
     (c, s) \<leftarrow> tl_loop (c\<lparr>cx_machine := (cx_machine c)\<lparr>sm_timer_counter := sm_timer_counter (cx_machine c) + 1\<rparr>\<rparr>) s;
     ctx \<leftarrow> wr (j_ctx s) channel c;
     Some (s\<lparr>j_ctx := ctx\<rparr>)
   }"

definition j1939_tl_periodic :: "J1939 \<Rightarrow> J1939 option" where
  "j1939_tl_periodic s = for_up 0 HA_CHANNEL_SIZE tl_channel s"

section \<open>Single steps\<close>

declare tl_loop.simps [code]

lemma tl_loop_step:
  "tl_step c s = Some ((c', b), s') \<Longrightarrow> tl_loop c s = (if b then tl_loop c' s' else Some (c', s'))"
  by (subst tl_loop.simps) simp

lemma tl_loop_go: "tl_step c s = Some ((c', True), s') \<Longrightarrow> tl_loop c s = tl_loop c' s'"
  using tl_loop_step [of c s c' True s'] by simp

lemma tl_loop_stop: "tl_step c s = Some ((c', False), s') \<Longrightarrow> tl_loop c s = Some (c', s')"
  using tl_loop_step [of c s c' False s'] by simp

lemma set_status_simps [simp]:
  "sm_status (cx_machine (set_status st c)) = st"
  "sm_TP (cx_machine (set_status st c)) = sm_TP (cx_machine c)"
  "sm_PGN (cx_machine (set_status st c)) = sm_PGN (cx_machine c)"
  "sm_byte_count (cx_machine (set_status st c)) = sm_byte_count (cx_machine c)"
  "sm_packet_number (cx_machine (set_status st c)) = sm_packet_number (cx_machine c)"
  "sm_total_packet_number (cx_machine (set_status st c)) = sm_total_packet_number (cx_machine c)"
  "sm_source_addr (cx_machine (set_status st c)) = sm_source_addr (cx_machine c)"
  "sm_dest_addr (cx_machine (set_status st c)) = sm_dest_addr (cx_machine c)"
  "sm_timer_counter (cx_machine (set_status st c)) = sm_timer_counter (cx_machine c)"
  "cx_pdu (set_status st c) = cx_pdu c" "cx_msg (set_status st c) = cx_msg c"
  by (simp_all add: set_status_def)

lemma reset_timer_simps [simp]:
  "sm_status (cx_machine (reset_timer c)) = sm_status (cx_machine c)"
  "sm_TP (cx_machine (reset_timer c)) = sm_TP (cx_machine c)"
  "sm_PGN (cx_machine (reset_timer c)) = sm_PGN (cx_machine c)"
  "sm_byte_count (cx_machine (reset_timer c)) = sm_byte_count (cx_machine c)"
  "sm_packet_number (cx_machine (reset_timer c)) = sm_packet_number (cx_machine c)"
  "sm_total_packet_number (cx_machine (reset_timer c)) = sm_total_packet_number (cx_machine c)"
  "sm_source_addr (cx_machine (reset_timer c)) = sm_source_addr (cx_machine c)"
  "sm_dest_addr (cx_machine (reset_timer c)) = sm_dest_addr (cx_machine c)"
  "sm_timer_counter (cx_machine (reset_timer c)) = 0"
  "cx_pdu (reset_timer c) = cx_pdu c" "cx_msg (reset_timer c) = cx_msg c"
  by (simp_all add: reset_timer_def)

section \<open>Saving a packet\<close>

lemma save_loop_safe:
  assumes "i + n = 7" and "length (pdu_data (cx_pdu c)) = 8" and "length (msg_data (cx_msg c)) = 128"
    and "unat (sm_byte_count (cx_machine c)) \<le> 126"
    and "v = sm_packet_number (cx_machine c) * 7 + of_nat (i - 1)"
  shows "\<exists>c'. save_loop i n v c = Some c' \<and> cx_machine c' = cx_machine c \<and>
     length (pdu_data (cx_pdu c')) = 8 \<and> length (msg_data (cx_msg c')) = 128 \<and>
     cx_msg c' = (cx_msg c)\<lparr>msg_data := msg_data (cx_msg c')\<rparr> \<and>
     cx_pdu c' = (cx_pdu c)\<lparr>pdu_data := pdu_data (cx_pdu c')\<rparr> \<and>
     pdu_data (cx_pdu c') ! 0 = pdu_data (cx_pdu c) ! 0"
  using assms
proof (induction n arbitrary: i v c)
  case 0
  then show ?case by simp
next
  case (Suc n)
  show ?case
  proof (cases "ucast v \<le> sm_byte_count (cx_machine c)")
    case False
    then show ?thesis using Suc.prems by simp
  next
    case True
    define w where "w = sm_packet_number (cx_machine c) * 7 + of_nat i"
    have v: "unat v \<le> 126" using True Suc.prems(4) by (simp add: word_le_nat_alt)
    have w: "unat w < 128"
    proof (cases i)
      case 0
      then show ?thesis using v Suc.prems(5) by (simp add: w_def)
    next
      case (Suc k)
      have "w = v + 1" using Suc.prems(5) Suc by (simp add: w_def)
      moreover have "unat (v + 1) = unat v + 1" using v by (subst unat_plus_if_fits) simp_all
      ultimately show ?thesis using v by simp
    qed
    define d where "d = c\<lparr>cx_msg := (cx_msg c)\<lparr>msg_data := (msg_data (cx_msg c))[unat w := pdu_data (cx_pdu c) ! (i + 1)]\<rparr>,
      cx_pdu := (cx_pdu c)\<lparr>pdu_data := (pdu_data (cx_pdu c))[i + 1 := 0]\<rparr>\<rparr>"
    have d: "cx_machine d = cx_machine c" "length (pdu_data (cx_pdu d)) = 8" "length (msg_data (cx_msg d)) = 128"
      "cx_msg d = (cx_msg c)\<lparr>msg_data := msg_data (cx_msg d)\<rparr>"
      "cx_pdu d = (cx_pdu c)\<lparr>pdu_data := pdu_data (cx_pdu d)\<rparr>"
      "pdu_data (cx_pdu d) ! 0 = pdu_data (cx_pdu c) ! 0"
      using Suc.prems(2,3) by (simp_all add: d_def)
    have eq: "save_loop i (Suc n) v c = save_loop (Suc i) n w d"
      using True w Suc.prems(1-3) by (simp add: w_def [symmetric] d_def Let_def)
    have "\<exists>c'. save_loop (Suc i) n w d = Some c' \<and> cx_machine c' = cx_machine d \<and>
       length (pdu_data (cx_pdu c')) = 8 \<and> length (msg_data (cx_msg c')) = 128 \<and>
       cx_msg c' = (cx_msg d)\<lparr>msg_data := msg_data (cx_msg c')\<rparr> \<and>
       cx_pdu c' = (cx_pdu d)\<lparr>pdu_data := pdu_data (cx_pdu c')\<rparr> \<and>
       pdu_data (cx_pdu c') ! 0 = pdu_data (cx_pdu d) ! 0"
      by (rule Suc.IH) (use Suc.prems(1,4) d in \<open>simp_all add: w_def\<close>)
    then obtain c' where c': "save_loop (Suc i) n w d = Some c'" "cx_machine c' = cx_machine d"
        "length (pdu_data (cx_pdu c')) = 8" "length (msg_data (cx_msg c')) = 128"
        "cx_msg c' = (cx_msg d)\<lparr>msg_data := msg_data (cx_msg c')\<rparr>"
        "cx_pdu c' = (cx_pdu d)\<lparr>pdu_data := pdu_data (cx_pdu c')\<rparr>"
        "pdu_data (cx_pdu c') ! 0 = pdu_data (cx_pdu d) ! 0" by blast
    have "cx_msg c' = (cx_msg c)\<lparr>msg_data := msg_data (cx_msg c')\<rparr>"
      by (subst c'(5), subst d(4)) simp
    moreover have "cx_pdu c' = (cx_pdu c)\<lparr>pdu_data := pdu_data (cx_pdu c')\<rparr>"
      by (subst c'(6), subst d(5)) simp
    ultimately show ?thesis
      unfolding eq using c'(1-4,7) d(1,6) by (intro exI [of _ c']) simp
  qed
qed

text \<open>As long as the index stays below 256, the bytes go to their place.\<close>

lemma save_loop_data:
  assumes "i + n = 7" and "length (pdu_data (cx_pdu c)) = 8" and "length (msg_data (cx_msg c)) = 128"
    and "unat (sm_byte_count (cx_machine c)) \<le> 126" and q: "q = 7 * unat (sm_packet_number (cx_machine c))"
    and "q + 6 < 256" and "unat v = q + (i - 1)"
    and "save_loop i n v c = Some c'" and "x < unat (sm_byte_count (cx_machine c))"
  shows "msg_data (cx_msg c') ! x =
     (if q + i \<le> x \<and> x < q + 7 then pdu_data (cx_pdu c) ! (x - q + 1) else msg_data (cx_msg c) ! x)"
  using assms
proof (induction n arbitrary: i v c)
  case 0
  then show ?case by auto
next
  case (Suc n)
  show ?case
  proof (cases "ucast v \<le> sm_byte_count (cx_machine c)")
    case False
    then have "unat (sm_byte_count (cx_machine c)) < q + (i - 1)"
      using Suc.prems(7) by (simp add: word_le_nat_alt)
    then show ?thesis using Suc.prems(8,9) False by auto
  next
    case True
    define w where "w = sm_packet_number (cx_machine c) * 7 + of_nat i"
    have "unat w = (unat (sm_packet_number (cx_machine c)) * 7 + i) mod 256"
      using Suc.prems(1) by (simp add: w_def unat_word_ariths unat_of_nat mod_simps)
    then have w: "unat w = q + i" using Suc.prems(1,5,6) by simp
    have "unat v \<le> 126" using True Suc.prems(4) by (simp add: word_le_nat_alt)
    then have w128: "unat w < 128" using w Suc.prems(7) by simp
    define d where "d = c\<lparr>cx_msg := (cx_msg c)\<lparr>msg_data := (msg_data (cx_msg c))[unat w := pdu_data (cx_pdu c) ! (i + 1)]\<rparr>,
      cx_pdu := (cx_pdu c)\<lparr>pdu_data := (pdu_data (cx_pdu c))[i + 1 := 0]\<rparr>\<rparr>"
    have eq: "save_loop i (Suc n) v c = save_loop (Suc i) n w d"
      using True w128 Suc.prems(1-3) by (simp add: w_def [symmetric] d_def Let_def)
    have "msg_data (cx_msg c') ! x =
       (if q + Suc i \<le> x \<and> x < q + 7 then pdu_data (cx_pdu d) ! (x - q + 1) else msg_data (cx_msg d) ! x)"
      by (rule Suc.IH [of "Suc i" d w]) (use Suc.prems w eq in \<open>simp_all add: d_def\<close>)
    moreover have "msg_data (cx_msg d) ! (q + i) = pdu_data (cx_pdu c) ! (i + 1)"
      using w w128 Suc.prems(3) by (simp add: d_def)
    ultimately show ?thesis
      using w Suc.prems(1-3) by (auto simp: d_def nth_list_update)
  qed
qed

section \<open>Ticks\<close>

text \<open>One round of the loop over the channels, on the context of a channel.\<close>

definition count_tick :: "J1939_RX_CONTEXT \<Rightarrow> J1939_RX_CONTEXT" where
  "count_tick c = c\<lparr>cx_machine := (cx_machine c)\<lparr>sm_timer_counter := sm_timer_counter (cx_machine c) + 1\<rparr>\<rparr>"

lemma count_tick_simps [simp]:
  "sm_status (cx_machine (count_tick c)) = sm_status (cx_machine c)"
  "sm_TP (cx_machine (count_tick c)) = sm_TP (cx_machine c)"
  "sm_PGN (cx_machine (count_tick c)) = sm_PGN (cx_machine c)"
  "sm_byte_count (cx_machine (count_tick c)) = sm_byte_count (cx_machine c)"
  "sm_packet_number (cx_machine (count_tick c)) = sm_packet_number (cx_machine c)"
  "sm_total_packet_number (cx_machine (count_tick c)) = sm_total_packet_number (cx_machine c)"
  "sm_source_addr (cx_machine (count_tick c)) = sm_source_addr (cx_machine c)"
  "sm_dest_addr (cx_machine (count_tick c)) = sm_dest_addr (cx_machine c)"
  "sm_timer_counter (cx_machine (count_tick c)) = sm_timer_counter (cx_machine c) + 1"
  "cx_pdu (count_tick c) = cx_pdu c" "cx_msg (count_tick c) = cx_msg c"
  by (simp_all add: count_tick_def)

definition tl_tick :: "J1939_RX_CONTEXT \<Rightarrow> J1939 \<Rightarrow> (J1939_RX_CONTEXT \<times> J1939) option" where
  "tl_tick c s = tl_loop (count_tick c) s"

text \<open>The contexts between two ticks: waiting for a message, or for data of a broadcast that
  fits the buffer.\<close>

definition ctx_ok :: "J1939_RX_CONTEXT \<Rightarrow> bool" where
  "ctx_ok c \<longleftrightarrow> length (pdu_data (cx_pdu c)) = 8 \<and> length (msg_data (cx_msg c)) = 128 \<and>
     (sm_status (cx_machine c) = WAIT_FOR_MESSAGE \<or>
      sm_status (cx_machine c) = WAIT_FOR_DATA \<and> sm_TP (cx_machine c) = TP_CM_BAM \<and>
        unat (sm_byte_count (cx_machine c)) \<le> 126)"

text \<open>The connection request a waiting context would act on.\<close>

definition for_us :: "J1939_RX_PDU \<Rightarrow> bool" where
  "for_us p \<longleftrightarrow> pdu_PGN p = TP_CM \<and> (pdu_dest_addr p = GLOBADDR \<or> pdu_dest_addr p = NODEADDR)"

definition announced :: "J1939_RX_PDU \<Rightarrow> nat" where
  "announced p = 256 * unat (pdu_data p ! 2) + unat (pdu_data p ! 1)"

definition pdu_harmless :: "J1939_RX_PDU \<Rightarrow> bool" where
  "pdu_harmless p \<longleftrightarrow> (for_us p \<longrightarrow>
     pdu_data p ! 0 \<noteq> TP_CM_RTS \<and> (pdu_data p ! 0 = TP_CM_BAM \<longrightarrow> announced p \<noteq> 127))"

lemma announced_count:
  "unat (ucast (push_bit 8 (ucast (pdu_data p ! 2) :: u32) + ucast (pdu_data p ! 1)) :: u16) = announced p"
proof -
  have a: "unat (pdu_data p ! 2) < 256" "unat (pdu_data p ! 1) < 256" by (rule unat_u8_lt)+
  have "unat (push_bit 8 (ucast (pdu_data p ! 2)) :: u32) = 256 * unat (pdu_data p ! 2)"
    using a(1) by (simp add: push_bit_eq_mult unat_word_ariths)
  then have "unat (push_bit 8 (ucast (pdu_data p ! 2)) + ucast (pdu_data p ! 1) :: u32) = announced p"
    using a by (subst unat_plus_if_fits) (simp_all add: announced_def)
  moreover have "announced p < 2 ^ 16" using a by (simp add: announced_def)
  ultimately show ?thesis by (simp add: unsigned_ucast_eq take_bit_nat_eq_self)
qed

definition started :: "J1939_RX_CONTEXT \<Rightarrow> J1939_RX_CONTEXT" where
  "started c = (let p = cx_pdu c in c\<lparr>cx_machine := (cx_machine c)\<lparr>
     sm_PGN := push_bit 8 (ucast (pdu_data p ! 6)) + ucast (pdu_data p ! 5),
     sm_dest_addr := pdu_dest_addr p, sm_source_addr := pdu_source_addr p,
     sm_packet_number := 0, sm_timer_counter := 0, sm_total_packet_number := pdu_data p ! 3,
     sm_byte_count := ucast (push_bit 8 (ucast (pdu_data p ! 2) :: u32) + ucast (pdu_data p ! 1)),
     sm_status := INIT_REASSEMBLE_STRUCTURE, sm_TP := pdu_data p ! 0\<rparr>\<rparr>)"

lemma wait_for_message_eq:
  "length (pdu_data (cx_pdu c)) = 8 \<Longrightarrow> wait_for_message c =
     (if for_us (cx_pdu c) \<and> (pdu_data (cx_pdu c) ! 0 = TP_CM_RTS \<or> pdu_data (cx_pdu c) ! 0 = TP_CM_BAM)
      then Some (started c, True) else Some (c, False))"
  by (auto simp: wait_for_message_def for_us_def started_def Let_def)

lemma tick_no_message:
  assumes "sm_status (cx_machine c) = WAIT_FOR_MESSAGE" and "length (pdu_data (cx_pdu c)) = 8"
    and "\<not> (for_us (cx_pdu c) \<and> (pdu_data (cx_pdu c) ! 0 = TP_CM_RTS \<or> pdu_data (cx_pdu c) ! 0 = TP_CM_BAM))"
  shows "tl_tick c s = Some (count_tick c, s)"
proof -
  have "wait_for_message (count_tick c) = Some (count_tick c, False)"
    using assms by (simp add: wait_for_message_eq)
  then have "tl_step (count_tick c) s = Some ((count_tick c, False), s)"
    using assms(1) by (simp add: tl_step_def)
  then show ?thesis unfolding tl_tick_def by (rule tl_loop_stop)
qed

definition opened :: "J1939_RX_CONTEXT \<Rightarrow> J1939_RX_CONTEXT" where
  "opened c = (let c = started c; m = cx_machine c in
     set_status WAIT_FOR_DATA (c\<lparr>cx_msg := \<lparr>msg_PGN = sm_PGN m,
       msg_data = replicate NUMBER_TRANS_RX_BUFFERS 0, msg_byte_count = sm_byte_count m,
       msg_source_addr = sm_source_addr m, msg_dest_addr = sm_dest_addr m\<rparr>\<rparr>))"

lemma started_simps [simp]:
  "sm_status (cx_machine (started c)) = INIT_REASSEMBLE_STRUCTURE"
  "sm_TP (cx_machine (started c)) = pdu_data (cx_pdu c) ! 0"
  "unat (sm_byte_count (cx_machine (started c))) = announced (cx_pdu c)"
  "sm_timer_counter (cx_machine (started c)) = 0"
  "sm_packet_number (cx_machine (started c)) = 0"
  "sm_total_packet_number (cx_machine (started c)) = pdu_data (cx_pdu c) ! 3"
  "sm_source_addr (cx_machine (started c)) = pdu_source_addr (cx_pdu c)"
  "sm_dest_addr (cx_machine (started c)) = pdu_dest_addr (cx_pdu c)"
  "cx_pdu (started c) = cx_pdu c" "cx_msg (started c) = cx_msg c"
  by (simp_all add: started_def Let_def announced_count [simplified])

lemma started_tick [simp]: "started (count_tick c) = started c"
  by (cases c; cases "cx_machine c") (simp add: started_def count_tick_def)

lemma tick_open:
  assumes "sm_status (cx_machine c) = WAIT_FOR_MESSAGE" and "length (pdu_data (cx_pdu c)) = 8"
    and "for_us (cx_pdu c)" and "pdu_data (cx_pdu c) ! 0 = TP_CM_BAM"
  shows "tl_tick c s = Some (if announced (cx_pdu c) < 128 then opened c
     else reset_timer (set_status WAIT_FOR_MESSAGE (started c)), s)"
proof -
  have 1: "tl_loop (count_tick c) s = tl_loop (started c) s"
    using tl_loop_go [of "count_tick c" s "started c" s] assms
    by (simp add: tl_step_def wait_for_message_eq)
  have ne: "TP_CM_BAM \<noteq> TP_CM_RTS" by (simp add: j1939_consts)
  show ?thesis
  proof (cases "announced (cx_pdu c) < 128")
    case False
    have "tl_step (started c) s = Some ((reset_timer (set_status WAIT_FOR_MESSAGE (started c)), False), s)"
      using False ne assms(4) by (simp add: tl_step_def init_reassemble_def Let_def NUMBER_TRANS_RX_BUFFERS_def)
    then show ?thesis using False 1 tl_loop_stop [of "started c"] by (simp add: tl_tick_def)
  next
    case True
    have 2: "tl_loop (started c) s = tl_loop (opened c) s"
      using tl_loop_go [of "started c" s "opened c" s] True ne assms(4)
      by (simp add: tl_step_def init_reassemble_def Let_def opened_def NUMBER_TRANS_RX_BUFFERS_def)
    have no_dt: "pdu_PGN (cx_pdu c) \<noteq> TP_DT" using assms(3) by (simp add: for_us_def j1939_consts)
    have st: "sm_status (cx_machine (opened c)) = WAIT_FOR_DATA" "cx_pdu (opened c) = cx_pdu c"
      "sm_timer_counter (cx_machine (opened c)) = 0"
      by (simp_all add: opened_def Let_def set_status_def started_def)
    have 3: "tl_loop (opened c) s = tl_loop (set_status CHECK_TIMER (opened c)) s"
      using tl_loop_go [of "opened c" s "set_status CHECK_TIMER (opened c)" s] no_dt st
      by (simp add: tl_step_def)
    have "set_status WAIT_FOR_DATA (set_status CHECK_TIMER (opened c)) = opened c"
      using st(1) by (cases "opened c"; cases "cx_machine (opened c)") (simp add: set_status_def)
    then have "tl_step (set_status CHECK_TIMER (opened c)) s = Some ((opened c, False), s)"
      using st by (simp add: tl_step_def)
    then show ?thesis
      using 1 2 3 True tl_loop_stop [of "set_status CHECK_TIMER (opened c)"] by (simp add: tl_tick_def)
  qed
qed

text \<open>Waiting for data: no packet yet, nothing new, or the next packet.\<close>

lemma tick_no_data:
  assumes "sm_status (cx_machine c) = WAIT_FOR_DATA" and "pdu_PGN (cx_pdu c) \<noteq> TP_DT"
  shows "tl_tick c s = Some (if unat (sm_timer_counter (cx_machine c) + 1) > 75
     then (count_tick c)\<lparr>cx_pdu := zero_pdu, cx_machine := zero_machine\<rparr> else count_tick c, s)"
proof -
  let ?c = "set_status CHECK_TIMER (count_tick c)"
  have 1: "tl_loop (count_tick c) s = tl_loop ?c s"
    using assms tl_loop_go [of "count_tick c" s ?c s] by (simp add: tl_step_def)
  show ?thesis
  proof (cases "unat (sm_timer_counter (cx_machine c) + 1) > 75")
    case True
    let ?d = "set_status RESET_REASSEMBLY_STRUCTURE ?c"
    have 2: "tl_loop ?c s = tl_loop ?d s"
      using True tl_loop_go [of ?c s ?d s] by (simp add: tl_step_def)
    have "tl_loop ?d s = Some (?d\<lparr>cx_pdu := zero_pdu, cx_machine := zero_machine\<rparr>, s)"
      by (rule tl_loop_stop) (simp add: tl_step_def)
    then show ?thesis using 1 2 True by (simp add: tl_tick_def set_status_def)
  next
    case False
    have "set_status WAIT_FOR_DATA ?c = count_tick c"
      using assms(1) by (cases c; cases "cx_machine c") (simp add: set_status_def count_tick_def)
    then have "tl_loop ?c s = Some (count_tick c, s)"
      using False by (intro tl_loop_stop) (simp add: tl_step_def)
    then show ?thesis using 1 False by (simp add: tl_tick_def)
  qed
qed

text \<open>A data packet is in the context, of the partner or not.\<close>

definition from_partner :: "J1939_RX_CONTEXT \<Rightarrow> bool" where
  "from_partner c \<longleftrightarrow> pdu_source_addr (cx_pdu c) = sm_source_addr (cx_machine c) \<and>
     pdu_dest_addr (cx_pdu c) = sm_dest_addr (cx_machine c)"

definition expected :: "J1939_RX_CONTEXT \<Rightarrow> bool" where
  "expected c \<longleftrightarrow> unat (pdu_data (cx_pdu c) ! 0) = Suc (unat (sm_packet_number (cx_machine c)))"

lemma tick_data:
  assumes "sm_status (cx_machine c) = WAIT_FOR_DATA" and "sm_TP (cx_machine c) = TP_CM_BAM"
    and "pdu_PGN (cx_pdu c) = TP_DT" and l: "length (pdu_data (cx_pdu c)) = 8"
  defines "d \<equiv> set_status CHECK_DATA_PACKET (count_tick c)"
  shows "tl_tick c s =
    (if from_partner c \<and> expected c then
       tl_loop ((reset_timer (set_status SAVE_DATA d))\<lparr>cx_pdu := (cx_pdu c)\<lparr>pdu_data := (pdu_data (cx_pdu c))[0 := 0]\<rparr>\<rparr>) s
     else if from_partner c \<and> pdu_data (cx_pdu c) ! 0 \<noteq> 0 then
       Some (d\<lparr>cx_pdu := zero_pdu, cx_machine := zero_machine\<rparr>, s)
     else Some (count_tick c, s))"
proof -
  have d: "sm_status (cx_machine d) = CHECK_DATA_PACKET" "sm_TP (cx_machine d) = TP_CM_BAM"
    "cx_pdu d = cx_pdu c" "sm_packet_number (cx_machine d) = sm_packet_number (cx_machine c)"
    "sm_source_addr (cx_machine d) = sm_source_addr (cx_machine c)"
    "sm_dest_addr (cx_machine d) = sm_dest_addr (cx_machine c)"
    using assms(2) by (simp_all add: d_def)
  have 1: "tl_tick c s = tl_loop d s"
    using assms(1,3) tl_loop_go [of "count_tick c" s d s] by (simp add: tl_tick_def tl_step_def d_def)
  have again: "set_status WAIT_FOR_DATA d = count_tick c"
    using assms(1) by (cases c; cases "cx_machine c") (simp add: set_status_def count_tick_def d_def)
  have exp: "uint (sm_packet_number (cx_machine c)) = uint (pdu_data (cx_pdu c) ! 0) - 1 \<longleftrightarrow> expected c"
    unfolding expected_def uint_nat by linarith
  have chk: "check_data_packet d =
      (if from_partner c then
         (if expected c then Some ((reset_timer (set_status SAVE_DATA d))\<lparr>cx_pdu := (cx_pdu c)\<lparr>pdu_data := (pdu_data (cx_pdu c))[0 := 0]\<rparr>\<rparr>, True)
          else if pdu_data (cx_pdu c) ! 0 \<noteq> 0 then Some (set_status RESET_REASSEMBLY_STRUCTURE d, True)
          else Some (count_tick c, False))
       else Some (count_tick c, False))"
    unfolding check_data_packet_def Let_def d from_partner_def [symmetric] again using l by (simp add: exp)
  have st: "tl_step d s = map_option (\<lambda>r. (r, s)) (check_data_packet d)"
    by (simp add: tl_step_def d(1))
  consider (good) "from_partner c" "expected c"
    | (bad) "from_partner c" "\<not> expected c" "pdu_data (cx_pdu c) ! 0 \<noteq> 0"
    | (other) "\<not> (from_partner c \<and> (expected c \<or> pdu_data (cx_pdu c) ! 0 \<noteq> 0))"
    by blast
  then show ?thesis
  proof cases
    case good
    then show ?thesis using 1 tl_loop_go [of d s] st chk by simp
  next
    case bad
    let ?e = "set_status RESET_REASSEMBLY_STRUCTURE d"
    have "tl_loop d s = tl_loop ?e s" using bad st chk by (intro tl_loop_go) simp
    moreover have "tl_loop ?e s = Some (?e\<lparr>cx_pdu := zero_pdu, cx_machine := zero_machine\<rparr>, s)"
      by (rule tl_loop_stop) (simp add: tl_step_def)
    ultimately show ?thesis using 1 bad by (simp add: set_status_def)
  next
    case other
    then have "tl_loop d s = Some (count_tick c, s)" using st chk by (intro tl_loop_stop) auto
    then show ?thesis using 1 other by auto
  qed
qed

lemma tick_save:
  assumes "sm_status (cx_machine c) = SAVE_DATA" and len: "length (pdu_data (cx_pdu c)) = 8" "length (msg_data (cx_msg c)) = 128"
    and n: "unat (sm_byte_count (cx_machine c)) \<le> 126"
  shows "\<exists>c'. length (pdu_data (cx_pdu c')) = 8 \<and> length (msg_data (cx_msg c')) = 128 \<and>
     pdu_data (cx_pdu c') ! 0 = pdu_data (cx_pdu c) ! 0 \<and> pdu_PGN (cx_pdu c') = pdu_PGN (cx_pdu c) \<and>
     msg_PGN (cx_msg c') = msg_PGN (cx_msg c) \<and> msg_byte_count (cx_msg c') = msg_byte_count (cx_msg c) \<and>
     msg_source_addr (cx_msg c') = msg_source_addr (cx_msg c) \<and> msg_dest_addr (cx_msg c') = msg_dest_addr (cx_msg c) \<and>
     cx_machine c' = (cx_machine c)\<lparr>sm_packet_number := sm_packet_number (cx_machine c) + 1\<rparr> \<and>
     (7 * unat (sm_packet_number (cx_machine c)) + 6 < 256 \<longrightarrow>
       (\<forall>x<unat (sm_byte_count (cx_machine c)). msg_data (cx_msg c') ! x =
          (if 7 * unat (sm_packet_number (cx_machine c)) \<le> x \<and> x < 7 * unat (sm_packet_number (cx_machine c)) + 7
           then pdu_data (cx_pdu c) ! (x - 7 * unat (sm_packet_number (cx_machine c)) + 1)
           else msg_data (cx_msg c) ! x))) \<and>
     (\<forall>s. tl_loop c s = (if sm_packet_number (cx_machine c) + 1 = sm_total_packet_number (cx_machine c)
        then map_option (\<lambda>s. (c'\<lparr>cx_pdu := zero_pdu, cx_machine := zero_machine\<rparr>, s)) (j1939_nml_process s (cx_msg c'))
        else Some (set_status WAIT_FOR_DATA c', s)))"
proof -
  let ?v = "sm_packet_number (cx_machine c) * 7"
  obtain e where e: "save_loop 0 7 ?v c = Some e" "cx_machine e = cx_machine c"
      "length (pdu_data (cx_pdu e)) = 8" "length (msg_data (cx_msg e)) = 128"
      "cx_msg e = (cx_msg c)\<lparr>msg_data := msg_data (cx_msg e)\<rparr>"
      "cx_pdu e = (cx_pdu c)\<lparr>pdu_data := pdu_data (cx_pdu e)\<rparr>"
      "pdu_data (cx_pdu e) ! 0 = pdu_data (cx_pdu c) ! 0"
    using save_loop_safe [of 0 7 c ?v] len n by auto
  have data: "msg_data (cx_msg e) ! x =
      (if 7 * unat (sm_packet_number (cx_machine c)) \<le> x \<and> x < 7 * unat (sm_packet_number (cx_machine c)) + 7
       then pdu_data (cx_pdu c) ! (x - 7 * unat (sm_packet_number (cx_machine c)) + 1) else msg_data (cx_msg c) ! x)"
    if "7 * unat (sm_packet_number (cx_machine c)) + 6 < 256" "x < unat (sm_byte_count (cx_machine c))" for x
  proof -
    have "unat ?v = 7 * unat (sm_packet_number (cx_machine c))"
      using that(1) by (simp add: unat_word_ariths)
    then show ?thesis
      using save_loop_data [of 0 7 c "7 * unat (sm_packet_number (cx_machine c))" ?v e x] len n that e(1) by simp
  qed
  define c' where "c' = e\<lparr>cx_machine := (cx_machine e)\<lparr>sm_packet_number := sm_packet_number (cx_machine e) + 1\<rparr>\<rparr>"
  have pdu_PGN: "pdu_PGN (cx_pdu e) = pdu_PGN (cx_pdu c)" by (subst e(6)) simp
  have msg: "msg_PGN (cx_msg e) = msg_PGN (cx_msg c)" "msg_byte_count (cx_msg e) = msg_byte_count (cx_msg c)"
    "msg_source_addr (cx_msg e) = msg_source_addr (cx_msg c)" "msg_dest_addr (cx_msg e) = msg_dest_addr (cx_msg c)"
    by (subst e(5), simp)+
  have save: "save_data c = Some (if sm_packet_number (cx_machine c) + 1 = sm_total_packet_number (cx_machine c)
      then (set_status FILL_USER_MESSAGE c', True) else (set_status WAIT_FOR_DATA c', False))"
    using e(1) unfolding save_data_def c'_def by (simp add: e(2) Let_def)
  have "tl_loop c s = (if sm_packet_number (cx_machine c) + 1 = sm_total_packet_number (cx_machine c)
      then map_option (\<lambda>s. (c'\<lparr>cx_pdu := zero_pdu, cx_machine := zero_machine\<rparr>, s)) (j1939_nml_process s (cx_msg c'))
      else Some (set_status WAIT_FOR_DATA c', s))" for s
  proof (cases "sm_packet_number (cx_machine c) + 1 = sm_total_packet_number (cx_machine c)")
    case False
    then show ?thesis using save assms(1) by (simp add: tl_loop_stop tl_step_def)
  next
    case True
    let ?f = "set_status FILL_USER_MESSAGE c'"
    let ?r = "reset_timer (set_status RESET_REASSEMBLY_STRUCTURE ?f)"
    have 1: "tl_loop c s = tl_loop ?f s"
      using save assms(1) True by (intro tl_loop_go) (simp add: tl_step_def)
    show ?thesis
    proof (cases "j1939_nml_process s (cx_msg c')")
      case None
      then have "tl_loop ?f s = None" by (subst tl_loop.simps) (simp add: tl_step_def)
      then show ?thesis using 1 True None by simp
    next
      case (Some s')
      have "tl_loop ?f s = tl_loop ?r s'" using Some by (intro tl_loop_go) (simp add: tl_step_def)
      moreover have "tl_loop ?r s' = Some (?r\<lparr>cx_pdu := zero_pdu, cx_machine := zero_machine\<rparr>, s')"
        by (rule tl_loop_stop) (simp add: tl_step_def)
      ultimately show ?thesis using 1 True Some by (simp add: set_status_def reset_timer_def)
    qed
  qed
  then show ?thesis
    using e(2-4,7) pdu_PGN msg data by (intro exI [of _ c']) (simp add: c'_def)
qed

section \<open>Every tick returns\<close>

lemma zero_ok:
  "length (msg_data (cx_msg c)) = 128 \<Longrightarrow> ctx_ok (c\<lparr>cx_pdu := zero_pdu, cx_machine := zero_machine\<rparr>)"
  by (simp add: ctx_ok_def zero_pdu_def zero_machine_def)

lemma opened_ok:
  assumes "ctx_ok c" and "pdu_data (cx_pdu c) ! 0 = TP_CM_BAM" and "announced (cx_pdu c) \<le> 126"
  shows "ctx_ok (opened c)"
  using assms by (simp add: ctx_ok_def opened_def Let_def NUMBER_TRANS_RX_BUFFERS_def)

lemma tick_total:
  assumes c: "ctx_ok c" and w: "al_waiting s ms"
    and "sm_status (cx_machine c) = WAIT_FOR_MESSAGE \<longrightarrow> pdu_harmless (cx_pdu c)"
  shows "\<exists>c' l. tl_tick c s = Some (c', s\<lparr>j_al := l\<rparr>) \<and> ctx_ok c' \<and>
     (cx_pdu c' = cx_pdu c \<or> pdu_PGN (cx_pdu c') \<noteq> TP_CM) \<and>
     (\<exists>m. jl_holds 4 l (if length ms < 3 then ms @ m else ms) \<and> length m \<le> 1)"
proof -
  have len: "length (pdu_data (cx_pdu c)) = 8" "length (msg_data (cx_msg c)) = 128"
    using c by (simp_all add: ctx_ok_def)
  have unchanged: ?thesis if t: "tl_tick c s = Some (d, s)" and d: "ctx_ok d"
    and p: "cx_pdu d = cx_pdu c \<or> pdu_PGN (cx_pdu d) \<noteq> TP_CM" for d
  proof -
    have "jl_holds 4 (j_al s) (if length ms < 3 then ms @ [] else ms)" using w by (simp add: al_waiting_def)
    then show ?thesis using t d p by (metis j_al_same list.size(3) zero_le)
  qed
  have tick_ok: "ctx_ok (count_tick c)" using c by (simp add: ctx_ok_def)
  have no_cm: "pdu_PGN zero_pdu \<noteq> TP_CM" "TP_DT \<noteq> TP_CM" by (simp_all add: zero_pdu_def j1939_consts)
  consider (idle) "sm_status (cx_machine c) = WAIT_FOR_MESSAGE"
    | (data) "sm_status (cx_machine c) = WAIT_FOR_DATA" "sm_TP (cx_machine c) = TP_CM_BAM"
        "unat (sm_byte_count (cx_machine c)) \<le> 126"
    using c by (auto simp: ctx_ok_def)
  then show ?thesis
  proof cases
    case idle
    show ?thesis
    proof (cases "for_us (cx_pdu c) \<and> (pdu_data (cx_pdu c) ! 0 = TP_CM_RTS \<or> pdu_data (cx_pdu c) ! 0 = TP_CM_BAM)")
      case False
      show ?thesis by (rule unchanged [OF tick_no_message [OF idle len(1) False] tick_ok]) simp
    next
      case True
      then have b: "for_us (cx_pdu c)" "pdu_data (cx_pdu c) ! 0 = TP_CM_BAM" "announced (cx_pdu c) \<noteq> 127"
        using assms(3) idle by (auto simp: pdu_harmless_def)
      note t = tick_open [OF idle len(1) b(1,2), of s]
      show ?thesis
      proof (cases "announced (cx_pdu c) < 128")
        case True
        then have "tl_tick c s = Some (opened c, s)" using t by simp
        then show ?thesis by (rule unchanged) (use True b opened_ok [OF c b(2)] in \<open>auto simp: opened_def Let_def\<close>)
      next
        case False
        then have "tl_tick c s = Some (reset_timer (set_status WAIT_FOR_MESSAGE (started c)), s)" using t by simp
        then show ?thesis by (rule unchanged) (simp_all add: ctx_ok_def len)
      qed
    qed
  next
    case data
    show ?thesis
    proof (cases "pdu_PGN (cx_pdu c) = TP_DT")
      case False
      show ?thesis
        by (rule unchanged [OF tick_no_data [OF data(1) False]]) (simp_all add: tick_ok zero_ok len no_cm)
    next
      case True_DT: True
      note t = tick_data [OF data(1,2) True_DT len(1), of s]
      define d where "d = (reset_timer (set_status SAVE_DATA (set_status CHECK_DATA_PACKET (count_tick c))))
        \<lparr>cx_pdu := (cx_pdu c)\<lparr>pdu_data := (pdu_data (cx_pdu c))[0 := 0]\<rparr>\<rparr>"
      show ?thesis
      proof (cases "from_partner c \<and> expected c")
        case False
        have "tl_tick c s = Some (if from_partner c \<and> pdu_data (cx_pdu c) ! 0 \<noteq> 0
            then (set_status CHECK_DATA_PACKET (count_tick c))\<lparr>cx_pdu := zero_pdu, cx_machine := zero_machine\<rparr>
            else count_tick c, s)"
          unfolding t using False by auto
        then show ?thesis by (rule unchanged) (simp_all add: tick_ok zero_ok len no_cm)
      next
        case True
        then have td: "tl_tick c s = tl_loop d s" using t by (simp add: d_def)
        have d: "sm_status (cx_machine d) = SAVE_DATA" "length (pdu_data (cx_pdu d)) = 8"
          "length (msg_data (cx_msg d)) = 128" "unat (sm_byte_count (cx_machine d)) \<le> 126" "sm_TP (cx_machine d) = TP_CM_BAM"
          using len data by (simp_all add: d_def)
        obtain c' where c'_len: "length (pdu_data (cx_pdu c')) = 8" "length (msg_data (cx_msg c')) = 128"
            and c': "pdu_PGN (cx_pdu c') = pdu_PGN (cx_pdu d)" "cx_machine c' = (cx_machine d)\<lparr>sm_packet_number := sm_packet_number (cx_machine d) + 1\<rparr>"
            and loop: "tl_loop d s = (if sm_packet_number (cx_machine d) + 1 = sm_total_packet_number (cx_machine d)
              then map_option (\<lambda>s. (c'\<lparr>cx_pdu := zero_pdu, cx_machine := zero_machine\<rparr>, s)) (j1939_nml_process s (cx_msg c'))
              else Some (set_status WAIT_FOR_DATA c', s))"
          using tick_save [OF d(1-4)] by blast
        show ?thesis
        proof (cases "sm_packet_number (cx_machine d) + 1 = sm_total_packet_number (cx_machine d)")
          case False
          then have "tl_tick c s = Some (set_status WAIT_FOR_DATA c', s)" using td loop by simp
          moreover have "ctx_ok (set_status WAIT_FOR_DATA c')"
            using c'_len d(4,5) by (simp add: ctx_ok_def c'(2))
          moreover have "pdu_PGN (cx_pdu (set_status WAIT_FOR_DATA c')) \<noteq> TP_CM" using c'(1) no_cm True_DT by (simp add: d_def)
          ultimately show ?thesis by (intro unchanged) auto
        next
          case True
          obtain l where l: "j1939_nml_process s (cx_msg c') = Some (s\<lparr>j_al := l\<rparr>)"
              "jl_holds 4 l (if nml_passes (cx_msg c') \<and> length ms < 3 then ms @ [cx_msg c'] else ms)"
            using nml_process_ok [OF w] by blast
          have "tl_tick c s = Some (c'\<lparr>cx_pdu := zero_pdu, cx_machine := zero_machine\<rparr>, s\<lparr>j_al := l\<rparr>)"
            using td loop True l(1) by simp
          moreover have "ctx_ok (c'\<lparr>cx_pdu := zero_pdu, cx_machine := zero_machine\<rparr>)"
            by (rule zero_ok [OF c'_len(2)])
          moreover have "\<exists>m. jl_holds 4 l (if length ms < 3 then ms @ m else ms) \<and> length m \<le> 1"
            using l(2) by (cases "nml_passes (cx_msg c')") (auto intro: exI [of _ "[cx_msg c']"] exI [of _ "[]"])
          moreover have "pdu_PGN (cx_pdu (c'\<lparr>cx_pdu := zero_pdu, cx_machine := zero_machine\<rparr>)) \<noteq> TP_CM"
            using no_cm by simp
          ultimately show ?thesis by blast
        qed
      qed
    qed
  qed
qed

section \<open>Ticks that do not return\<close>

lemma tl_loop_moves:
  assumes "tl_loop c s = Some r"
  shows "tl_step c s \<noteq> Some ((c, True), s)"
proof (rule tl_loop.raw_induct [where P = "\<lambda>c s r. tl_step c s \<noteq> Some ((c, True), s)", OF _ assms], goal_cases)
  case (1 f c s r)
  then show ?case by (cases r) auto
qed

lemma tl_loop_stuck: "tl_step c s = Some ((c, True), s) \<Longrightarrow> tl_loop c s = None"
  using tl_loop_moves by (cases "tl_loop c s") auto

lemma tick_rts:
  assumes "sm_status (cx_machine c) = WAIT_FOR_MESSAGE" and "length (pdu_data (cx_pdu c)) = 8"
    and "for_us (cx_pdu c)" and "pdu_data (cx_pdu c) ! 0 = TP_CM_RTS"
  shows "tl_step (count_tick c) s = Some ((started c, True), s)"
    and "tl_step (started c) s = Some ((started c, True), s)"
    and "tl_tick c s = None"
proof -
  show 1: "tl_step (count_tick c) s = Some ((started c, True), s)"
    using assms by (simp add: tl_step_def wait_for_message_eq)
  show 2: "tl_step (started c) s = Some ((started c, True), s)"
    using assms(4) by (simp add: tl_step_def init_reassemble_def)
  show "tl_tick c s = None" using tl_loop_go [OF 1] tl_loop_stuck [OF 2] by (simp add: tl_tick_def)
qed

section \<open>Receiving a broadcast\<close>

text \<open>\<open>receiving c D j\<close>: after \<open>j\<close> packets of a broadcast with payload \<open>D\<close>.\<close>

definition receiving :: "J1939_RX_CONTEXT \<Rightarrow> u8 list \<Rightarrow> nat \<Rightarrow> bool" where
  "receiving c D j \<longleftrightarrow> ctx_ok c \<and> sm_status (cx_machine c) = WAIT_FOR_DATA \<and>
     unat (sm_packet_number (cx_machine c)) = j \<and>
     (\<forall>x. x < 7 * j \<longrightarrow> x < unat (sm_byte_count (cx_machine c)) \<longrightarrow> msg_data (cx_msg c) ! x = D ! x) \<and>
     msg_PGN (cx_msg c) = sm_PGN (cx_machine c) \<and> msg_byte_count (cx_msg c) = sm_byte_count (cx_machine c) \<and>
     msg_source_addr (cx_msg c) = sm_source_addr (cx_machine c) \<and> msg_dest_addr (cx_msg c) = sm_dest_addr (cx_machine c)"

text \<open>The parameters of the session, which the packets do not change.\<close>

definition session_of :: "J1939_RX_CONTEXT \<Rightarrow> u32 \<times> u16 \<times> u8 \<times> u8 \<times> u8" where
  "session_of c = (let m = cx_machine c in
     (sm_PGN m, sm_byte_count m, sm_total_packet_number m, sm_source_addr m, sm_dest_addr m))"

lemma receiving_tick: "receiving c D j \<Longrightarrow> receiving (count_tick c) D j"
  by (auto simp: receiving_def ctx_ok_def)

lemma session_tick: "session_of (count_tick c) = session_of c"
  by (simp add: session_of_def Let_def)

lemma receiving_facts:
  assumes "receiving c D j"
  shows "sm_status (cx_machine c) = WAIT_FOR_DATA" "sm_TP (cx_machine c) = TP_CM_BAM"
    "length (pdu_data (cx_pdu c)) = 8" "length (msg_data (cx_msg c)) = 128"
    "unat (sm_byte_count (cx_machine c)) \<le> 126" "unat (sm_packet_number (cx_machine c)) = j"
  using assms by (auto simp: receiving_def ctx_ok_def)

text \<open>No news: the old packet is marked by sequence number 0.\<close>

lemma receiving_idle:
  assumes "receiving c D j"
    and "pdu_PGN (cx_pdu c) = TP_DT \<and> pdu_data (cx_pdu c) ! 0 = 0 \<or>
      pdu_PGN (cx_pdu c) \<noteq> TP_DT \<and> unat (sm_timer_counter (cx_machine c) + 1) \<le> 75"
  shows "tl_tick c s = Some (count_tick c, s)"
  using assms(2)
proof
  assume "pdu_PGN (cx_pdu c) = TP_DT \<and> pdu_data (cx_pdu c) ! 0 = 0"
  moreover then have "\<not> expected c" by (simp add: expected_def)
  ultimately show ?thesis
    using tick_data [of c s] receiving_facts [OF assms(1)] by simp
next
  assume "pdu_PGN (cx_pdu c) \<noteq> TP_DT \<and> unat (sm_timer_counter (cx_machine c) + 1) \<le> 75"
  then show ?thesis
    using tick_no_data [of c s] receiving_facts [OF assms(1)] by (simp add: not_less)
qed

text \<open>The next packet: \<open>xs\<close> are its seven bytes.\<close>

definition dt_pdu :: "u8 \<Rightarrow> u8 \<Rightarrow> u16 \<Rightarrow> nat \<Rightarrow> u8 list \<Rightarrow> J1939_RX_PDU" where
  "dt_pdu src dst len i xs = \<lparr>pdu_PGN = TP_DT, pdu_data = of_nat i # xs, pdu_byte_count = len,
     pdu_source_addr = src, pdu_dest_addr = dst\<rparr>"

definition dropped_session :: "J1939_RX_CONTEXT \<Rightarrow> bool" where
  "dropped_session c \<longleftrightarrow> cx_pdu c = zero_pdu \<and> cx_machine c = zero_machine \<and> length (msg_data (cx_msg c)) = 128"

lemma receiving_packet:
  assumes r: "receiving c D j" and j: "j < 36" and xs: "length xs = 7" "take 7 (drop (7 * j) D) = xs"
    and ses: "session_of c = (pgn, n, k, src, dst)"
    and pdu: "cx_pdu c = dt_pdu src dst len (Suc j) xs"
  shows "if Suc j \<noteq> unat k
     then \<exists>c'. (\<forall>s. tl_tick c s = Some (c', s)) \<and> receiving c' D (Suc j) \<and> session_of c' = session_of c \<and>
       pdu_PGN (cx_pdu c') = TP_DT \<and> pdu_data (cx_pdu c') ! 0 = 0
     else \<exists>c' m. (\<forall>s. tl_tick c s = map_option (\<lambda>s. (c', s)) (j1939_nml_process s m)) \<and> dropped_session c' \<and>
       msg_PGN m = pgn \<and> msg_byte_count m = n \<and> msg_source_addr m = src \<and> msg_dest_addr m = dst \<and>
       length (msg_data m) = 128 \<and>
       (unat n \<le> 7 * Suc j \<longrightarrow> 7 * Suc j \<le> length D \<longrightarrow> take (unat n) (msg_data m) = take (unat n) D)"
proof -
  note f = receiving_facts [OF r]
  have m: "sm_PGN (cx_machine c) = pgn" "sm_byte_count (cx_machine c) = n" "sm_total_packet_number (cx_machine c) = k"
      "sm_source_addr (cx_machine c) = src" "sm_dest_addr (cx_machine c) = dst"
    using ses by (simp_all add: session_of_def Let_def)
  have p: "pdu_PGN (cx_pdu c) = TP_DT" "pdu_data (cx_pdu c) = of_nat (Suc j) # xs" "from_partner c"
    using m by (simp_all add: pdu dt_pdu_def from_partner_def)
  have Sj: "unat (of_nat (Suc j) :: u8) = Suc j"
    using j by (simp only: unat_of_nat) simp
  then have e: "expected c" using f(6) p(2) by (simp only: expected_def nth_Cons_0)
  define d where "d = (reset_timer (set_status SAVE_DATA (set_status CHECK_DATA_PACKET (count_tick c))))
     \<lparr>cx_pdu := (cx_pdu c)\<lparr>pdu_data := (pdu_data (cx_pdu c))[0 := 0]\<rparr>\<rparr>"
  have td: "tl_tick c s = tl_loop d s" for s
    unfolding d_def using tick_data [OF f(1,2) p(1) f(3)] p(3) e by simp
  have d: "sm_status (cx_machine d) = SAVE_DATA" "length (pdu_data (cx_pdu d)) = 8" "length (msg_data (cx_msg d)) = 128"
      "unat (sm_byte_count (cx_machine d)) \<le> 126" "sm_byte_count (cx_machine d) = n"
      "sm_packet_number (cx_machine d) = sm_packet_number (cx_machine c)" "sm_total_packet_number (cx_machine d) = k"
      "sm_PGN (cx_machine d) = pgn" "sm_source_addr (cx_machine d) = src" "sm_dest_addr (cx_machine d) = dst"
      "sm_TP (cx_machine d) = TP_CM_BAM" "cx_msg d = cx_msg c" "pdu_data (cx_pdu d) = 0 # xs" "pdu_PGN (cx_pdu d) = TP_DT"
    using f m p xs(1) by (simp_all add: d_def)
  have q: "7 * unat (sm_packet_number (cx_machine d)) = 7 * j" using f(6) d(6) by simp
  obtain c' where c': "length (pdu_data (cx_pdu c')) = 8" "length (msg_data (cx_msg c')) = 128"
      "pdu_data (cx_pdu c') ! 0 = (0 # xs) ! 0" "pdu_PGN (cx_pdu c') = pdu_PGN (cx_pdu d)"
      "msg_PGN (cx_msg c') = msg_PGN (cx_msg d)" "msg_byte_count (cx_msg c') = msg_byte_count (cx_msg d)"
      "msg_source_addr (cx_msg c') = msg_source_addr (cx_msg d)" "msg_dest_addr (cx_msg c') = msg_dest_addr (cx_msg d)"
      "cx_machine c' = (cx_machine d)\<lparr>sm_packet_number := sm_packet_number (cx_machine d) + 1\<rparr>"
    and data: "7 * j + 6 < 256 \<longrightarrow> (\<forall>x<unat n. msg_data (cx_msg c') ! x =
          (if 7 * j \<le> x \<and> x < 7 * j + 7 then (0 # xs) ! (x - 7 * j + 1) else msg_data (cx_msg c) ! x))"
    and loop: "\<forall>s. tl_loop d s = (if sm_packet_number (cx_machine d) + 1 = k
        then map_option (\<lambda>s. (c'\<lparr>cx_pdu := zero_pdu, cx_machine := zero_machine\<rparr>, s)) (j1939_nml_process s (cx_msg c'))
        else Some (set_status WAIT_FOR_DATA c', s))"
    using tick_save [OF d(1-4), unfolded q d(5,7,12,13)] unfolding d(12) by blast
  have pn: "unat (sm_packet_number (cx_machine d) + 1) = Suc j"
    using f(6) d(6) j by (subst unat_plus_if_fits) simp_all
  then have last: "sm_packet_number (cx_machine d) + 1 = k \<longleftrightarrow> Suc j = unat k"
    by (metis word_unat_eq_iff)
  have old: "msg_data (cx_msg c) ! x = D ! x" if "x < 7 * j" "x < unat n" for x
    using r that by (simp add: receiving_def m)
  have new: "msg_data (cx_msg c') ! x = D ! x" if x: "x < 7 * Suc j" "x < unat n" for x
  proof (cases "x < 7 * j")
    case True
    then show ?thesis using data old x j by simp
  next
    case False
    define i where "i = x - 7 * j"
    have i: "x = 7 * j + i" "i < 7" using False x by (simp_all add: i_def)
    have "7 * j \<le> length D" using xs by (metis length_drop length_take min.cobounded1 diff_is_0_eq le_zero_eq nat_le_linear zero_neq_numeral)
    then have "xs ! i = D ! x" unfolding xs(2) [symmetric] i(1) using i(2) by simp
    then show ?thesis using data False x j by (simp add: i_def)
  qed
  show ?thesis
  proof (cases "Suc j = unat k")
    case False
    let ?c = "set_status WAIT_FOR_DATA c'"
    have "tl_tick c s = Some (?c, s)" for s using td loop last False by simp
    moreover have "receiving ?c D (Suc j)"
      using c' d f new r m pn by (simp add: receiving_def ctx_ok_def)
    moreover have "session_of ?c = session_of c" using c' d m by (simp add: session_of_def Let_def)
    moreover have "pdu_PGN (cx_pdu ?c) = TP_DT" "pdu_data (cx_pdu ?c) ! 0 = 0" using c' d by simp_all
    ultimately show ?thesis using False by auto
  next
    case True
    let ?c = "c'\<lparr>cx_pdu := zero_pdu, cx_machine := zero_machine\<rparr>"
    have "tl_tick c s = map_option (\<lambda>s. (?c, s)) (j1939_nml_process s (cx_msg c'))" for s
      using td loop last True by simp
    moreover have "dropped_session ?c" using c' by (simp add: dropped_session_def)
    moreover have "msg_PGN (cx_msg c') = pgn" "msg_byte_count (cx_msg c') = n"
        "msg_source_addr (cx_msg c') = src" "msg_dest_addr (cx_msg c') = dst"
      using c' d m r by (simp_all add: receiving_def)
    moreover have "take (unat n) (msg_data (cx_msg c')) = take (unat n) D"
      if "unat n \<le> 7 * Suc j" "7 * Suc j \<le> length D"
      using that new c'(2) f(5) m(2) by (intro nth_equalityI) auto
    ultimately show ?thesis using True c'(2) by auto
  qed
qed

end
