(* ===== verification/J1939Dl.thy ===== *)
theory J1939Dl imports J1939Tl begin

text \<open>
  The data link layer (\<^verbatim>\<open>service/j1939/j1939_dl.c\<close>) and the hardware abstraction below it
  (\<^verbatim>\<open>j1939_hal.c\<close>): building and taking apart identifiers, the receive and the transmit
  queue. The lemmas show what an identifier carries and what leaves the transmit queue.
\<close>

section \<open>Operations\<close>

definition j1939_dl_init :: "J1939 \<Rightarrow> J1939 option" where
  "j1939_dl_init s = do {
     p \<leftarrow> j1939_pgn_init (j_pgn s);
     Some (s\<lparr>j_rx := list_init (j_rx s), j_tx := list_init (j_tx s), j_primed := False, j_txfcb := None,
       j_pgn := p\<rparr>)
   }"

text \<open>The identifier as the filter reads it.\<close>

definition id_source :: "u32 \<Rightarrow> u8" where
  "id_source i = ucast i"

definition id_pgn :: "u32 \<Rightarrow> u32" where
  "id_pgn i = drop_bit 8 i AND DL_PGN_MASK"

definition j1939_dl_process :: "J1939 \<Rightarrow> CAN_PACKET \<Rightarrow> J1939 option" where
  "j1939_dl_process s pkt = do {
     pass \<leftarrow> j1939_pgn_filter (j_pgn s) (id_source (pkt_identifier pkt)) (id_pgn (pkt_identifier pkt));
     if \<not> pass then Some s
     else if list_is_full (j_rx s) then Some s
     else do { l \<leftarrow> list_put (j_rx s) pkt; Some (s\<lparr>j_rx := l\<rparr>) }
   }"

definition j1939_hal_tx :: "J1939 \<Rightarrow> CAN_PACKET \<Rightarrow> garbage \<Rightarrow> J1939 option" where
  "j1939_hal_tx s pkt g = do {
     let eid = (if pkt_identifier pkt > 0x7FF then DRV_CAN_EXTEND_ID_MASK else 0);
     d \<leftarrow> memcpy (g_pkt g) 0 (pkt_data pkt) 0 (unat (pkt_byte_count pkt));
     Some (s\<lparr>j_out := j_out s @ [CanIfSend \<lparr>can_id = pkt_identifier pkt OR eid, can_ins = pkt_channel pkt,
       can_len = pkt_byte_count pkt, can_data = d\<rparr>]\<rparr>)
   }"

definition j1939_hal_rx :: "J1939 \<Rightarrow> u8 \<Rightarrow> can_msg \<Rightarrow> garbage \<Rightarrow> J1939 option" where
  "j1939_hal_rx s ins m g =
     (if unat ins \<ge> HA_CHANNEL_SIZE then Some s
      else do {
        d \<leftarrow> memcpy (g_pkt g) 0 (can_data m) 0 (unat (can_len m));
        j1939_dl_process s \<lparr>pkt_identifier = can_id m AND NOT DRV_CAN_EXTEND_ID_MASK, pkt_data = d,
          pkt_byte_count = can_len m, pkt_channel = ins\<rparr>
      })"

text \<open>\<^verbatim>\<open>j1939_svr_inactive\<close> of the service, the only completion callback.\<close>

definition J1939_SVR_TASK_EVENT_CAN_INACTIVE :: u32 where
  "J1939_SVR_TASK_EVENT_CAN_INACTIVE = 8"

definition j1939_svr_inactive :: "J1939 \<Rightarrow> J1939" where
  "j1939_svr_inactive s = (if j_handle s
     then s\<lparr>j_notify := notify_set (j_notify s) J1939_SVR_TASK_EVENT_CAN_INACTIVE\<rparr> else s)"

definition run_callback :: "J1939 \<Rightarrow> FINISHED_CALLBACK \<Rightarrow> J1939" where
  "run_callback s f = (case f of J1939_SVR_INACTIVE \<Rightarrow> j1939_svr_inactive s)"

definition dl_transmit :: "J1939 \<Rightarrow> garbage \<Rightarrow> J1939 option" where
  "dl_transmit s g =
     (if j_primed s then
        if list_is_empty (j_tx s) then
          (let s = s\<lparr>j_primed := False\<rparr> in
           Some (case j_txfcb s of None \<Rightarrow> s | Some f \<Rightarrow> run_callback s f))
        else do {
          (l, pkt) \<leftarrow> list_get (j_tx s);
          j1939_hal_tx (s\<lparr>j_tx := l\<rparr>) pkt g
        }
      else Some s)"

definition id_pf :: "u32 \<Rightarrow> u8" where
  "id_pf i = ucast (drop_bit 16 i)"

definition id_ps :: "u32 \<Rightarrow> u8" where
  "id_ps i = ucast (drop_bit 8 i)"

text \<open>The unit handed to the transport layer; \<open>None\<close> for a destination that is not ours.\<close>

definition dl_pdu :: "CAN_PACKET \<Rightarrow> garbage \<Rightarrow> J1939_RX_PDU option option" where
  "dl_pdu pkt g =
     (let i = pkt_identifier pkt in
      if id_pf i < 240 then
        (if id_ps i \<noteq> GLOBADDR \<and> id_ps i \<noteq> NODEADDR then Some None
         else do {
           d \<leftarrow> memcpy (g_pdu g) 0 (pkt_data pkt) 0 (unat (pkt_byte_count pkt));
           Some (Some \<lparr>pdu_PGN = id_pgn i AND 0xFF00, pdu_data = d, pdu_byte_count = ucast (pkt_byte_count pkt),
             pdu_source_addr = id_source i, pdu_dest_addr = id_ps i\<rparr>)
         })
      else do {
        d \<leftarrow> memcpy (g_pdu g) 0 (pkt_data pkt) 0 (unat (pkt_byte_count pkt));
        Some (Some \<lparr>pdu_PGN = id_pgn i, pdu_data = d, pdu_byte_count = ucast (pkt_byte_count pkt),
          pdu_source_addr = id_source i, pdu_dest_addr = GLOBADDR\<rparr>)
      })"

definition j1939_dl_periodic :: "J1939 \<Rightarrow> garbage \<Rightarrow> J1939 option" where
  "j1939_dl_periodic s g = do {
     s \<leftarrow> dl_transmit s g;
     if list_is_empty (j_rx s) then Some s
     else do {
       (l, pkt) \<leftarrow> list_get (j_rx s);
       let s = s\<lparr>j_rx := l\<rparr>;
       po \<leftarrow> dl_pdu pkt g;
       case po of None \<Rightarrow> Some s | Some pdu \<Rightarrow> j1939_tl_process s (pkt_channel pkt) pdu g
     }
   }"

text \<open>The completion callback \<^verbatim>\<open>finshed_callback\<close> is an argument of the C function that its
  body does not use.\<close>

definition tx_identifier :: "J1939_TX_MESSAGE \<Rightarrow> u32" where
  "tx_identifier m =
     (let i = push_bit 18 (ucast (tx_priority m)) + tx_PGN m;
          i = (if tx_PGN m < 0xF000 then i + ucast (tx_dest_addr m) else i) in
      push_bit 8 i + ucast (tx_sa_addr m))"

definition j1939_dl_tx :: "J1939 \<Rightarrow> J1939_TX_MESSAGE \<Rightarrow> FINISHED_CALLBACK option \<Rightarrow> garbage \<Rightarrow> (J1939 \<times> bool) option" where
  "j1939_dl_tx s m finshed_callback g = do {
     let n = ucast (tx_byte_count m);
     d \<leftarrow> for_up 0 (unat (n :: u8)) (\<lambda>i d. do { b \<leftarrow> rd (tx_data m) i; wr d i b }) (g_pkt g);
     let pkt = \<lparr>pkt_identifier = tx_identifier m, pkt_data = d, pkt_byte_count = n, pkt_channel = tx_channel m\<rparr>;
     if list_is_full (j_tx s) then Some (s, False)
     else do {
       l \<leftarrow> list_put (j_tx s) pkt;
       Some (s\<lparr>j_tx := l, j_primed := True\<rparr>, True)
     }
   }"

definition j1939_tl_send :: "J1939 \<Rightarrow> J1939_TX_MESSAGE \<Rightarrow> FINISHED_CALLBACK option \<Rightarrow> garbage \<Rightarrow> (J1939 \<times> bool) option" where
  "j1939_tl_send s m finshed_callback g =
     (if unat (tx_byte_count m) \<le> 8 then j1939_dl_tx s m finshed_callback g else Some (s, True))"

section \<open>Identifiers\<close>

text \<open>A message with a 3-bit priority whose parameter group has 18 bits and, when it is addressed,
  a zero low byte.\<close>

definition tx_proper :: "J1939_TX_MESSAGE \<Rightarrow> bool" where
  "tx_proper m \<longleftrightarrow> tx_priority m < 8 \<and> tx_PGN m \<le> DL_PGN_MASK \<and>
     (tx_PGN m < 0xF000 \<longrightarrow> tx_PGN m AND 0xFF = 0) \<and> (tx_PGN m AND 0xFF00 < 0xF000 \<longrightarrow> tx_PGN m < 0xF000)"

lemma and_FF00: "unat (x AND 0xFF00 :: u32) = unat x div 256 mod 256 * 256"
proof -
  have "x AND push_bit 8 m = push_bit 8 (drop_bit 8 x AND m)" for x m :: u32
    by (rule bit_word_eqI) (auto simp: bit_simps)
  moreover have "(0xFF00 :: u32) = push_bit 8 (2 ^ 8 - 1)" by (simp add: push_bit_eq_mult)
  ultimately have "x AND 0xFF00 = push_bit 8 (drop_bit 8 x AND (2 ^ 8 - 1))" by (simp only:)
  moreover have "unat (drop_bit 8 x AND (2 ^ 8 - 1)) = unat x div 256 mod 256"
    unfolding mask_mod unat_drop_bit by simp
  moreover have "unat (push_bit 8 y) = unat y * 256" if "unat y < 256" for y :: u32
    using that by (simp add: push_bit_eq_mult unat_word_ariths)
  ultimately show ?thesis by (simp only: mod_less_divisor zero_less_numeral)
qed

lemma id_arith:
  fixes p x s :: nat
  assumes "p < 8" and "x < 2 ^ 18" and "s < 256"
  defines "i \<equiv> (p * 2 ^ 18 + x) * 256 + s"
  shows "i < 2 ^ 29" "i mod 256 = s" "i div 256 mod 2 ^ 18 = x" "i div 256 mod 256 = x mod 256"
    "i div 65536 mod 256 = x div 256 mod 256"
proof -
  have "(y * 256 + s) div 256 = y" "(y * 256 + s) mod 256 = s" for y using assms(3) by simp_all
  then have d: "i div 256 = p * 2 ^ 18 + x" "i mod 256 = s" unfolding i_def by blast+
  show "i mod 256 = s" by (rule d(2))
  show "i < 2 ^ 29" using assms(1-3) by (simp add: i_def)
  show "i div 256 mod 2 ^ 18 = x" using assms(2) by (simp add: d(1))
  have "(p * 2 ^ 18 + x) mod 256 = (2 ^ 10 * p * 256 + x) mod 256" by (simp add: algebra_simps)
  then show "i div 256 mod 256 = x mod 256" by (simp only: d(1) mod_mult_self3)
  have "i div 65536 = i div 256 div 256" by (simp add: div_mult2_eq [symmetric])
  also have "\<dots> = (2 ^ 10 * p * 256 + x) div 256" by (simp add: d(1) algebra_simps)
  also have "\<dots> = 2 ^ 10 * p + x div 256" by simp
  finally have "i div 65536 mod 256 = (4 * p * 256 + x div 256) mod 256" by (simp add: algebra_simps)
  then show "i div 65536 mod 256 = x div 256 mod 256" by (simp only: mod_mult_self3)
qed

lemma unat_id_pgn: "unat (id_pgn i) = unat i div 256 mod 2 ^ 18"
proof -
  have m: "DL_PGN_MASK = 2 ^ 18 - 1" by (simp add: DL_PGN_MASK_def)
  show ?thesis unfolding id_pgn_def m mask_mod unat_drop_bit by simp
qed

lemma unat_ucast_u8: "unat (ucast (i :: u32) :: u8) = unat i mod 256"
  by (simp add: unsigned_ucast_eq take_bit_eq_mod)

lemma unat_id_bytes:
  "unat (id_source i) = unat i mod 256" "unat (id_ps i) = unat i div 256 mod 256"
  "unat (id_pf i) = unat i div 65536 mod 256"
  unfolding id_source_def id_ps_def id_pf_def unat_ucast_u8 unat_drop_bit by simp_all

text \<open>The identifier as a number.\<close>

lemma unat_tx_identifier:
  assumes "tx_priority m < 8" and "tx_PGN m \<le> DL_PGN_MASK"
    and "tx_PGN m < 0xF000 \<longrightarrow> tx_PGN m AND 0xFF = 0"
  shows "unat (tx_identifier m) = (unat (tx_priority m) * 2 ^ 18 + unat (tx_PGN m) +
     (if tx_PGN m < 0xF000 then unat (tx_dest_addr m) else 0)) * 256 + unat (tx_sa_addr m)"
    and "unat (tx_PGN m) + (if tx_PGN m < 0xF000 then unat (tx_dest_addr m) else 0) < 2 ^ 18"
proof -
  let ?p = "unat (tx_priority m)" and ?g = "unat (tx_PGN m)"
    and ?d = "if tx_PGN m < 0xF000 then unat (tx_dest_addr m) else 0"
  have b: "?p < 8" "?g < 2 ^ 18" "unat (tx_dest_addr m) < 256" "unat (tx_sa_addr m) < 256"
    using assms(1,2) unat_u8_lt [of "tx_dest_addr m"] unat_u8_lt [of "tx_sa_addr m"]
    by (simp_all add: word_less_nat_alt word_le_nat_alt DL_PGN_MASK_def)
  show gd: "?g + ?d < 2 ^ 18" using b by (auto simp: word_less_nat_alt)
  have p: "unat (push_bit 18 (ucast (tx_priority m)) :: u32) = ?p * 2 ^ 18"
    using b(1) by (simp add: push_bit_eq_mult unat_word_ariths)
  define i where "i = push_bit 18 (ucast (tx_priority m)) + tx_PGN m +
      (if tx_PGN m < 0xF000 then ucast (tx_dest_addr m) else (0 :: u32))"
  have "unat (push_bit 18 (ucast (tx_priority m)) + tx_PGN m) = ?p * 2 ^ 18 + ?g"
    using b(1,2) p by (subst unat_plus_if_fits) simp_all
  then have i: "unat i = ?p * 2 ^ 18 + ?g + ?d"
    unfolding i_def using b(1) gd by (cases "tx_PGN m < 0xF000") (simp_all, subst unat_plus_if_fits, simp_all)
  have "unat (push_bit 8 i) = unat i * 256"
    using i b(1) gd by (simp add: push_bit_eq_mult unat_word_ariths)
  moreover have "tx_identifier m = push_bit 8 i + ucast (tx_sa_addr m)"
    by (simp add: tx_identifier_def Let_def i_def)
  ultimately show "unat (tx_identifier m) = (?p * 2 ^ 18 + ?g + ?d) * 256 + unat (tx_sa_addr m)"
    using i b gd by (simp only:, subst unat_plus_if_fits) simp_all
qed

lemma id_roundtrip:
  assumes "tx_proper m"
  shows "tx_identifier m < 2 ^ 29" "id_source (tx_identifier m) = tx_sa_addr m"
    "if tx_PGN m < 0xF000 then id_pf (tx_identifier m) < 240 \<and> id_ps (tx_identifier m) = tx_dest_addr m \<and>
         id_pgn (tx_identifier m) = tx_PGN m + ucast (tx_dest_addr m) \<and> id_pgn (tx_identifier m) AND 0xFF00 = tx_PGN m
     else id_pf (tx_identifier m) \<ge> 240 \<and> id_pgn (tx_identifier m) = tx_PGN m"
proof -
  define x where "x = unat (tx_PGN m) + (if tx_PGN m < 0xF000 then unat (tx_dest_addr m) else 0)"
  let ?i = "tx_identifier m"
  have a: "tx_priority m < 8" "tx_PGN m \<le> DL_PGN_MASK" "tx_PGN m < 0xF000 \<longrightarrow> tx_PGN m AND 0xFF = 0"
    using assms by (simp_all add: tx_proper_def)
  have p: "unat (tx_priority m) < 8" using a(1) by (simp add: word_less_nat_alt)
  have id: "unat ?i = (unat (tx_priority m) * 2 ^ 18 + x) * 256 + unat (tx_sa_addr m)" and x: "x < 2 ^ 18"
    using unat_tx_identifier [OF a] by (simp_all add: x_def)
  note ar = id_arith [OF p x unat_u8_lt [of "tx_sa_addr m"], folded id]
  show "?i < 2 ^ 29" using ar(1) by (simp add: word_less_nat_alt)
  show "id_source ?i = tx_sa_addr m" using ar(2) by (simp only: word_unat_eq_iff unat_id_bytes)
  have g: "unat (id_pgn ?i) = x" using ar(3) by (simp only: unat_id_pgn)
  have pf: "unat (id_pf ?i) = x div 256 mod 256" using ar(5) by (simp only: unat_id_bytes)
  have ps: "unat (id_ps ?i) = x mod 256" using ar(4) by (simp only: unat_id_bytes)
  have d: "unat (tx_dest_addr m) < 256" by (rule unat_u8_lt)
  show "if tx_PGN m < 0xF000 then id_pf ?i < 240 \<and> id_ps ?i = tx_dest_addr m \<and>
         id_pgn ?i = tx_PGN m + ucast (tx_dest_addr m) \<and> id_pgn ?i AND 0xFF00 = tx_PGN m
     else id_pf ?i \<ge> 240 \<and> id_pgn ?i = tx_PGN m"
  proof (cases "tx_PGN m < 0xF000")
    case True
    have "tx_PGN m AND (2 ^ 8 - 1) = 0" using a(3) True by simp
    then have "unat (tx_PGN m) mod 2 ^ 8 = 0" by (metis mask_mod unat_0)
    then obtain h where h: "unat (tx_PGN m) = 256 * h" by (auto simp: mod_eq_0_iff_dvd elim: dvdE)
    have h2: "h < 240" using True h by (simp add: word_less_nat_alt)
    have xh: "x = h * 256 + unat (tx_dest_addr m)" using True h by (simp add: x_def)
    have "x div 256 = h" "x mod 256 = unat (tx_dest_addr m)" using xh d by simp_all
    then have "unat (id_pf ?i) = h" "unat (id_ps ?i) = unat (tx_dest_addr m)" "unat (id_pgn ?i AND 0xFF00) = unat (tx_PGN m)"
      using pf ps h2 h by (simp_all add: and_FF00 g)
    moreover have "unat (tx_PGN m + ucast (tx_dest_addr m)) = x"
      using x True by (subst unat_plus_if_fits) (simp_all add: x_def)
    ultimately show ?thesis using True h2 g by (simp add: word_less_nat_alt word_unat_eq_iff)
  next
    case False
    then have "\<not> tx_PGN m AND 0xFF00 < 0xF000" using assms by (auto simp: tx_proper_def)
    then have "61440 \<le> unat (tx_PGN m) div 256 mod 256 * 256" by (simp add: word_less_nat_alt and_FF00)
    then have "240 \<le> unat (id_pf ?i)" using False pf by (simp add: x_def)
    then show ?thesis using False g by (simp add: x_def word_le_nat_alt word_unat_eq_iff)
  qed
qed

section \<open>Queues\<close>

lemma dl_process_ok:
  assumes "jl_holds 32 (j_rx s) ps" and "pgn_inv (j_pgn s)" and "pgn_sorted (j_pgn s)"
  shows "\<exists>pass l. j1939_pgn_filter (j_pgn s) (id_source (pkt_identifier pkt)) (id_pgn (pkt_identifier pkt)) = Some pass \<and>
     j1939_dl_process s pkt = Some (s\<lparr>j_rx := l\<rparr>) \<and>
     jl_holds 32 l (if pass \<and> length ps < 31 then ps @ [pkt] else ps)"
proof -
  have same: "s\<lparr>j_rx := j_rx s\<rparr> = s" by (cases s) simp
  obtain pass where pass: "j1939_pgn_filter (j_pgn s) (id_source (pkt_identifier pkt)) (id_pgn (pkt_identifier pkt)) = Some pass"
    using pgn_filter_ok [OF assms(2,3)] by blast
  obtain l where l: "list_offer (j_rx s) pkt = Some (l, length ps < 32 - 1)"
      "jl_holds 32 l (if length ps < 32 - 1 then ps @ [pkt] else ps)"
    using list_offer_holds [OF assms(1), of pkt] by blast
  have put: "j1939_dl_process s pkt = map_option (\<lambda>(l, _). s\<lparr>j_rx := l\<rparr>) (list_offer (j_rx s) pkt)" if "pass"
    using that same pass by (cases "list_put (j_rx s) pkt") (simp_all add: j1939_dl_process_def list_offer_def)
  show ?thesis
  proof (cases pass)
    case True
    have "j1939_dl_process s pkt = Some (s\<lparr>j_rx := l\<rparr>)" using put [OF True] l(1) by simp
    then show ?thesis using pass True l(2) by (intro exI [of _ True] exI [of _ l]) (simp only: diff_numeral_special, simp)
  next
    case False
    have "j1939_dl_process s pkt = Some (s\<lparr>j_rx := j_rx s\<rparr>)" using pass False same by (simp add: j1939_dl_process_def)
    then show ?thesis using pass False assms(1) by (intro exI [of _ False] exI [of _ "j_rx s"]) simp
  qed
qed

text \<open>The receive half of the periodic function, when nothing is to be sent.\<close>

lemma dl_periodic_empty:
  assumes "\<not> j_primed s" and "jl_holds 32 (j_rx s) []"
  shows "j1939_dl_periodic s g = Some s"
  using assms list_is_empty_iff [of "j_rx s"] by (simp add: j1939_dl_periodic_def dl_transmit_def jl_holds_def)

lemma dl_periodic_receive:
  assumes "\<not> j_primed s" and "jl_holds 32 (j_rx s) (pkt # ps)"
  shows "\<exists>l. jl_holds 32 l ps \<and> j1939_dl_periodic s g = do {
     po \<leftarrow> dl_pdu pkt g;
     case po of None \<Rightarrow> Some (s\<lparr>j_rx := l\<rparr>)
     | Some pdu \<Rightarrow> j1939_tl_process (s\<lparr>j_rx := l\<rparr>) (pkt_channel pkt) pdu g }"
proof -
  obtain l where l: "list_get (j_rx s) = Some (l, pkt)" "jl_holds 32 l ps"
    using list_get_holds [OF assms(2)] by blast
  have "\<not> list_is_empty (j_rx s)" using assms(2) list_is_empty_iff [of "j_rx s"] by (simp add: jl_holds_def)
  then show ?thesis using l assms(1) by (intro exI [of _ l]) (simp add: j1939_dl_periodic_def dl_transmit_def Let_def)
qed

text \<open>A frame built from a proper message is taken apart into its fields.\<close>

definition tx_packet :: "J1939_TX_MESSAGE \<Rightarrow> u8 \<Rightarrow> CAN_PACKET" where
  "tx_packet m channel = \<lparr>pkt_identifier = tx_identifier m, pkt_data = tx_data m,
     pkt_byte_count = ucast (tx_byte_count m), pkt_channel = channel\<rparr>"

definition tx_frame :: "J1939_TX_MESSAGE \<Rightarrow> u8 \<Rightarrow> can_msg" where
  "tx_frame m channel = \<lparr>can_id = tx_identifier m OR DRV_CAN_EXTEND_ID_MASK, can_ins = channel,
     can_len = ucast (tx_byte_count m), can_data = tx_data m\<rparr>"

lemma extended_id:
  assumes "i < (2 ^ 29 :: u32)"
  shows "(i OR DRV_CAN_EXTEND_ID_MASK) AND NOT DRV_CAN_EXTEND_ID_MASK = i"
proof -
  have m: "NOT DRV_CAN_EXTEND_ID_MASK = 2 ^ 31 - 1" "DRV_CAN_EXTEND_ID_MASK AND (2 ^ 31 - 1) = 0"
    by (simp_all add: DRV_CAN_EXTEND_ID_MASK_def)
  have "unat (i AND (2 ^ 31 - 1)) = unat i"
    unfolding mask_mod using assms by (simp add: word_less_nat_alt)
  then have "i AND (2 ^ 31 - 1) = i" by (simp only: word_unat_eq_iff)
  then show ?thesis by (simp only: m word_ao_dist or.right_neutral)
qed

lemma hal_rx_frame:
  assumes "tx_proper m" and "unat ch < 2" and "garbage_ok g" and "length (tx_data m) = 8" and "tx_byte_count m = 8"
  shows "j1939_hal_rx s ch (tx_frame m ch) g = j1939_dl_process s (tx_packet m ch)"
  using assms extended_id [OF id_roundtrip(1) [OF assms(1)]]
  by (simp add: j1939_hal_rx_def HA_CHANNEL_SIZE_def tx_frame_def tx_packet_def garbage_ok_def blit_all)

definition rx_pdu :: "J1939_TX_MESSAGE \<Rightarrow> J1939_RX_PDU" where
  "rx_pdu m = \<lparr>pdu_PGN = tx_PGN m, pdu_data = tx_data m, pdu_byte_count = tx_byte_count m,
     pdu_source_addr = tx_sa_addr m, pdu_dest_addr = if tx_PGN m < 0xF000 then tx_dest_addr m else GLOBADDR\<rparr>"

lemma dl_pdu_tx:
  assumes "tx_proper m" and "garbage_ok g" and "length (tx_data m) = 8" and "tx_byte_count m = 8"
  shows "dl_pdu (tx_packet m ch) g = Some (if tx_PGN m < 0xF000 \<and> tx_dest_addr m \<noteq> GLOBADDR \<and> tx_dest_addr m \<noteq> NODEADDR
     then None else Some (rx_pdu m))"
  using assms(2-4) id_roundtrip(2,3) [OF assms(1)]
  by (auto simp: dl_pdu_def Let_def tx_packet_def garbage_ok_def blit_all rx_pdu_def not_le [symmetric] split: if_splits)

text \<open>An addressed group passes the filter under an identifier with the destination in it, and
  goes up without it.\<close>

lemma pdu1_filter_key:
  assumes "dl_pdu pkt g = Some (Some pdu)" and "id_pf (pkt_identifier pkt) < 240"
  shows "id_pgn (pkt_identifier pkt) \<noteq> pdu_PGN pdu"
proof -
  let ?i = "pkt_identifier pkt"
  have "id_ps ?i = GLOBADDR \<or> id_ps ?i = NODEADDR" "pdu_PGN pdu = id_pgn ?i AND 0xFF00"
    using assms by (auto simp: dl_pdu_def Let_def split: if_splits Option.bind_splits)
  moreover from this have "unat (id_ps ?i) \<noteq> 0" by (auto simp: j1939_consts)
  moreover have "unat (id_pgn ?i) mod 256 = unat (id_ps ?i)"
    unfolding unat_id_pgn unat_id_bytes by (simp add: mod_mod_cancel)
  moreover have "unat (pdu_PGN pdu) mod 256 = 0" using calculation(2) by (simp add: and_FF00)
  ultimately show ?thesis by metis
qed

end
