(* ===== verification/J1939Stack.thy ===== *)
theory J1939Stack imports J1939Dl begin

text \<open>
  The assembled stack (\<^verbatim>\<open>service/j1939/j1939.c\<close>, \<^verbatim>\<open>j1939_if.c\<close>) and its service task
  (\<^verbatim>\<open>j1939_service.c\<close>). The lemmas follow one frame from the driver through the layers to the
  subscribers, and a broadcast of many frames.
\<close>

section \<open>The stack\<close>

definition j1939_stk_init :: "J1939 \<Rightarrow> J1939 option" where
  "j1939_stk_init s = do {
     s \<leftarrow> j1939_dl_init s;
     Some (j1939_al_init (j1939_tl_init s))
   }"

definition j1939_stk_periodic :: "J1939 \<Rightarrow> garbage \<Rightarrow> J1939 option" where
  "j1939_stk_periodic s g = do {
     s \<leftarrow> j1939_dl_periodic s g;
     s \<leftarrow> j1939_tl_periodic s;
     j1939_al_periodic s
   }"

text \<open>The memory of the program at the start: zeroed variables and the initialised filter table.\<close>

definition boot_state :: "bool \<Rightarrow> J1939" where
  "boot_state handle = (let p = \<lparr>pkt_identifier = 0, pkt_data = replicate 8 0, pkt_byte_count = 0, pkt_channel = 0\<rparr> in
     \<lparr>j_pgn = default_table,
      j_rx = \<lparr>jl_buffer = replicate 32 p, jl_in = 0, jl_out = 0, jl_mask = 0\<rparr>,
      j_tx = \<lparr>jl_buffer = replicate 8 p, jl_in = 0, jl_out = 0, jl_mask = 0\<rparr>,
      j_primed = False, j_txfcb = None,
      j_ctx = replicate 2 \<lparr>cx_machine = zero_machine, cx_pdu = zero_pdu, cx_msg = zero_msg\<rparr>,
      j_al = \<lparr>jl_buffer = replicate 4 zero_msg, jl_in = 0, jl_out = 0, jl_mask = 0\<rparr>,
      j_cnt = 0, j_sub = replicate 10 \<lparr>sub_sa = 0, sub_pgn = 0, sub_cb = None\<rparr>,
      j_handle = handle, j_notify = \<lparr>ulNotifiedValue = 0, notify_state = taskNOT_WAITING_NOTIFICATION\<rparr>,
      j_out = []\<rparr>)"

section \<open>The interface\<close>

definition J1939_SVR_TASK_EVENT_TASK_START :: u32 where "J1939_SVR_TASK_EVENT_TASK_START = 1"
definition J1939_SVR_TASK_EVENT_TASK_STOP :: u32 where "J1939_SVR_TASK_EVENT_TASK_STOP = 2"
definition J1939_SVR_TASK_EVENT_CAN_ACTIVE :: u32 where "J1939_SVR_TASK_EVENT_CAN_ACTIVE = 4"
definition J1939_SVR_TASK_EVENT_ALL :: u32 where "J1939_SVR_TASK_EVENT_ALL = 0x3F"

lemmas svr_events = J1939_SVR_TASK_EVENT_TASK_START_def J1939_SVR_TASK_EVENT_TASK_STOP_def
  J1939_SVR_TASK_EVENT_CAN_ACTIVE_def J1939_SVR_TASK_EVENT_CAN_INACTIVE_def J1939_SVR_TASK_EVENT_ALL_def

definition svr_notify :: "J1939 \<Rightarrow> u32 \<Rightarrow> J1939" where
  "svr_notify s e = (if j_handle s then s\<lparr>j_notify := notify_set (j_notify s) e\<rparr> else s)"

definition j1939_svr_active :: "J1939 \<Rightarrow> J1939" where
  "j1939_svr_active s = svr_notify s J1939_SVR_TASK_EVENT_CAN_ACTIVE"

definition j1939_svr_stop :: "J1939 \<Rightarrow> J1939" where
  "j1939_svr_stop s = svr_notify s J1939_SVR_TASK_EVENT_TASK_STOP"

definition j1939_svr_start :: "J1939 \<Rightarrow> J1939" where
  "j1939_svr_start s = svr_notify s J1939_SVR_TASK_EVENT_TASK_START"

definition j1939_receive :: "J1939 \<Rightarrow> u8 \<Rightarrow> can_msg \<Rightarrow> garbage \<Rightarrow> J1939 option" where
  "j1939_receive s ins m g = j1939_hal_rx s ins m g"

definition j1939_send :: "J1939 \<Rightarrow> J1939_TX_MESSAGE \<Rightarrow> garbage \<Rightarrow> (J1939 \<times> int) option" where
  "j1939_send s m g = do {
     (s, ok) \<leftarrow> j1939_tl_send s m (Some J1939_SVR_INACTIVE) g;
     Some (if ok then (j1939_svr_active s, 0) else (s, -1))
   }"

definition j1939_request_msg :: "u8 \<Rightarrow> u32 \<Rightarrow> u8 \<Rightarrow> u8 \<Rightarrow> J1939_TX_MESSAGE" where
  "j1939_request_msg channel pgn dstaddr saaddr = \<lparr>tx_PGN = REQUEST_PGN,
     tx_data = [ucast pgn, ucast (drop_bit 8 pgn), 0xFF, 0xFF, 0xFF, 0xFF, 0xFF, 0xFF], tx_byte_count = 8,
     tx_priority = 6, tx_dest_addr = dstaddr, tx_sa_addr = saaddr, tx_channel = channel\<rparr>"

definition j1939_request :: "J1939 \<Rightarrow> u8 \<Rightarrow> u32 \<Rightarrow> u8 \<Rightarrow> u8 \<Rightarrow> garbage \<Rightarrow> (J1939 \<times> int) option" where
  "j1939_request s channel pgn dstaddr saaddr g =
     j1939_send s (j1939_request_msg channel pgn dstaddr saaddr) g"

definition j1939_subscribe :: "J1939 \<Rightarrow> u8 \<Rightarrow> u32 \<Rightarrow> nat option \<Rightarrow> (J1939 \<times> int) option" where
  "j1939_subscribe s target_addr target_pgn recv_cb = do {
     (s, ok) \<leftarrow> j1939_al_subscribe s target_addr target_pgn recv_cb;
     Some (s, if ok then 0 else -1)
   }"

section \<open>The service task\<close>

datatype CAN_EVENT = CAN_EVENT_ACTIVE | CAN_EVENT_INACTIVE | CAN_EVENT_DATAIN "can_msg list" |
  CAN_EVENT_SLEEP | CAN_EVENT_WAKEUP

fun receive_all :: "J1939 \<Rightarrow> can_msg list \<Rightarrow> garbage \<Rightarrow> J1939 option" where
  "receive_all s [] g = Some s"
| "receive_all s (m # ms) g = do { s \<leftarrow> j1939_receive s (can_ins m) m g; receive_all s ms g }"

definition j1939_svr_can_handler :: "J1939 \<Rightarrow> CAN_EVENT \<Rightarrow> garbage \<Rightarrow> J1939 option" where
  "j1939_svr_can_handler s e g =
     (case e of
        CAN_EVENT_ACTIVE \<Rightarrow> Some (j1939_svr_active s)
      | CAN_EVENT_INACTIVE \<Rightarrow> Some (j1939_svr_inactive s)
      | CAN_EVENT_DATAIN ms \<Rightarrow> receive_all s ms g
      | _ \<Rightarrow> Some s)"

text \<open>The start-up sequence calls the service once for each stage; registering \<open>j1939_svr_can_handler\<close>
  with the CAN manager is left out, and \<open>task_created\<close> says whether the task was created.\<close>

datatype MODULE_INIT_SEQ = MODULE_INIT_SEQ_OS | MODULE_INIT_SEQ_STORAGE | MODULE_INIT_SEQ_MODULE

definition j1939_init :: "J1939 \<Rightarrow> J1939 option" where
  "j1939_init s = j1939_stk_init s"

definition j1939_process :: "J1939 \<Rightarrow> garbage \<Rightarrow> J1939 option" where
  "j1939_process s g = j1939_stk_periodic s g"

definition j1939_svr_init :: "MODULE_INIT_SEQ \<Rightarrow> bool \<Rightarrow> J1939 \<Rightarrow> J1939 option" where
  "j1939_svr_init seq task_created s =
     (case seq of
        MODULE_INIT_SEQ_OS \<Rightarrow> Some (s\<lparr>j_handle := task_created\<rparr>)
      | MODULE_INIT_SEQ_STORAGE \<Rightarrow> Some s
      | MODULE_INIT_SEQ_MODULE \<Rightarrow> j1939_init s)"

text \<open>The locals of the task, and the state it reports to the module manager.\<close>

record J1939_SVR =
  svr_mask :: u32
  svr_forever :: bool
  svr_active :: bool
  svr_running :: bool

text \<open>What the task does with the events of a notification.\<close>

definition svr_events_step :: "u32 \<Rightarrow> J1939_SVR \<Rightarrow> J1939_SVR" where
  "svr_events_step v t =
     (let t = (if v AND J1939_SVR_TASK_EVENT_TASK_START \<noteq> 0
               then t\<lparr>svr_forever := False, svr_mask := J1939_SVR_TASK_EVENT_ALL, svr_running := True\<rparr> else t);
          t = (if v AND J1939_SVR_TASK_EVENT_TASK_STOP \<noteq> 0
               then t\<lparr>svr_forever := True, svr_mask := J1939_SVR_TASK_EVENT_TASK_START, svr_running := False\<rparr> else t);
          t = (if v AND J1939_SVR_TASK_EVENT_CAN_ACTIVE \<noteq> 0 then t\<lparr>svr_active := True\<rparr> else t);
          t = (if v AND J1939_SVR_TASK_EVENT_CAN_INACTIVE \<noteq> 0 then t\<lparr>svr_active := False\<rparr> else t)
      in t)"

text \<open>One round of the endless loop, from the return of the wait on.\<close>

definition j1939_svr_round :: "J1939_SVR \<Rightarrow> J1939 \<Rightarrow> garbage \<Rightarrow> (J1939_SVR \<times> J1939) option" where
  "j1939_svr_round t s g = do {
     let (n, v, got) = notify_wait_leave (j_notify s) (svr_mask t);
     let s = s\<lparr>j_notify := n\<rparr>;
     let t = (if got then svr_events_step v t else t);
     if svr_active t then do { s \<leftarrow> j1939_process s g; Some (t, s) } else Some (t, s)
   }"

definition svr_start_locals :: J1939_SVR where
  "svr_start_locals = \<lparr>svr_mask = J1939_SVR_TASK_EVENT_ALL, svr_forever = False, svr_active = False, svr_running = False\<rparr>"

end
