(* ===== verification/J1939Transfer.thy ===== *)
theory J1939Transfer imports J1939Stack begin

text \<open>
  Frames on their way through the stack: what one call of the periodic function does with a
  received frame, and the transfer of a whole broadcast, from the frames of the sender to
  the calls of the subscribers.
\<close>

section \<open>Channels\<close>

text \<open>\<open>tick_result c c' mo\<close>: a tick turns \<open>c\<close> into \<open>c'\<close> and hands \<open>mo\<close> to the layer above.\<close>

definition tick_result :: "J1939_RX_CONTEXT \<Rightarrow> J1939_RX_CONTEXT \<Rightarrow> J1939_RX_MESSAGE option \<Rightarrow> bool" where
  "tick_result c c' mo \<longleftrightarrow> (\<forall>s. tl_tick c s =
     (case mo of None \<Rightarrow> Some (c', s) | Some m \<Rightarrow> map_option (\<lambda>s. (c', s)) (j1939_nml_process s m)))"

definition passed :: "J1939_RX_MESSAGE option \<Rightarrow> J1939_RX_MESSAGE list" where
  "passed mo = (case mo of None \<Rightarrow> [] | Some m \<Rightarrow> if nml_passes m then [m] else [])"

definition quiet :: "J1939_RX_CONTEXT \<Rightarrow> bool" where
  "quiet c \<longleftrightarrow> sm_status (cx_machine c) = WAIT_FOR_MESSAGE \<and> length (pdu_data (cx_pdu c)) = 8 \<and>
     length (msg_data (cx_msg c)) = 128 \<and> \<not> for_us (cx_pdu c)"

lemma quiet_tick:
  assumes "quiet c"
  shows "tick_result c (count_tick c) None" "quiet (count_tick c)"
  using assms tick_no_message [of c] by (simp_all add: tick_result_def quiet_def)

lemma quiet_session: "dropped_session c \<Longrightarrow> quiet c"
  by (simp add: dropped_session_def quiet_def zero_pdu_def zero_machine_def for_us_def j1939_consts)

lemma tl_channel_ok:
  assumes "ch < length (j_ctx s)" and t: "tick_result (j_ctx s ! ch) c' mo" and w: "al_waiting s ms" "length ms < 3"
  shows "\<exists>l. tl_channel ch s = Some (s\<lparr>j_al := l, j_ctx := (j_ctx s)[ch := c']\<rparr>) \<and>
     jl_holds 4 l (ms @ passed mo)"
proof -
  have "\<exists>l. tl_tick (j_ctx s ! ch) s = Some (c', s\<lparr>j_al := l\<rparr>) \<and> jl_holds 4 l (ms @ passed mo)"
  proof (cases mo)
    case None
    then have "tl_tick (j_ctx s ! ch) s = Some (c', s\<lparr>j_al := j_al s\<rparr>)" using t by (simp add: tick_result_def)
    then show ?thesis using w None by (intro exI [of _ "j_al s"]) (simp add: al_waiting_def passed_def)
  next
    case (Some m)
    obtain l where l: "j1939_nml_process s m = Some (s\<lparr>j_al := l\<rparr>)"
        "jl_holds 4 l (if nml_passes m \<and> length ms < 3 then ms @ [m] else ms)"
      using nml_process_ok [OF w(1)] by blast
    have "jl_holds 4 l (ms @ passed mo)" using l(2) w(2) Some by (cases "nml_passes m") (simp_all add: passed_def)
    then show ?thesis using t l(1) Some by (intro exI [of _ l]) (simp add: tick_result_def)
  qed
  then obtain l where "tl_tick (j_ctx s ! ch) s = Some (c', s\<lparr>j_al := l\<rparr>)" "jl_holds 4 l (ms @ passed mo)" by blast
  then show ?thesis
    using assms(1) by (intro exI [of _ l]) (simp add: tl_channel_def tl_tick_def count_tick_def)
qed

lemma for_up_one: "for_up i (Suc 0) body s = body i s"
  by (cases "body i s") simp_all

lemma for_up_two: "for_up 0 2 body s = do { s \<leftarrow> body 0 s; body 1 s }"
  by (cases "body 0 s") (simp_all add: numeral_2_eq_2 for_up_one del: for_up.simps(2) add: for_up.simps(2) [of 0 "Suc 0"])

lemma tl_periodic_ok:
  assumes n: "length (j_ctx s) = 2" and ch: "ch < 2" and other: "quiet (j_ctx s ! (1 - ch))"
    and t: "tick_result (j_ctx s ! ch) c' mo" and w: "al_waiting s ms" "length (ms @ passed mo) < 3"
  shows "\<exists>l ctx. j1939_tl_periodic s = Some (s\<lparr>j_al := l, j_ctx := ctx\<rparr>) \<and> jl_holds 4 l (ms @ passed mo) \<and>
     length ctx = 2 \<and> ctx ! ch = c' \<and> quiet (ctx ! (1 - ch))"
proof -
  let ?o = "count_tick (j_ctx s ! (1 - ch))"
  have per: "j1939_tl_periodic s = do { s \<leftarrow> tl_channel 0 s; tl_channel 1 s }"
    by (simp only: j1939_tl_periodic_def HA_CHANNEL_SIZE_def for_up_two)
  have len: "length ms < 3" using w(2) by simp
  consider "ch = 0" | "ch = 1" using ch by linarith
  then show ?thesis
  proof cases
    case 1
    obtain l where l: "tl_channel 0 s = Some (s\<lparr>j_al := l, j_ctx := (j_ctx s)[0 := c']\<rparr>)" "jl_holds 4 l (ms @ passed mo)"
      using tl_channel_ok [of 0 s c' mo ms] n t w(1) len 1 by auto
    let ?s = "s\<lparr>j_al := l, j_ctx := (j_ctx s)[0 := c']\<rparr>"
    obtain l' where l': "tl_channel 1 ?s = Some (?s\<lparr>j_al := l', j_ctx := (j_ctx ?s)[1 := ?o]\<rparr>)"
        "jl_holds 4 l' ((ms @ passed mo) @ passed None)"
      using tl_channel_ok [of 1 ?s ?o None "ms @ passed mo"] n other 1 l(2) w(2) quiet_tick(1) by (auto simp: al_waiting_def)
    show ?thesis
      using per l(1) l' n other 1 quiet_tick(2)
      by (intro exI [of _ l'] exI [of _ "[c', ?o]"]) (auto simp: passed_def list_eq_iff_nth_eq nth_list_update less_2_cases_iff)
  next
    case 2
    obtain l where l: "tl_channel 0 s = Some (s\<lparr>j_al := l, j_ctx := (j_ctx s)[0 := ?o]\<rparr>)" "jl_holds 4 l (ms @ passed None)"
      using tl_channel_ok [of 0 s ?o None ms] n w(1) len other 2 quiet_tick(1) by auto
    let ?s = "s\<lparr>j_al := l, j_ctx := (j_ctx s)[0 := ?o]\<rparr>"
    obtain l' where l': "tl_channel 1 ?s = Some (?s\<lparr>j_al := l', j_ctx := (j_ctx ?s)[1 := c']\<rparr>)"
        "jl_holds 4 l' (ms @ passed mo)"
      using tl_channel_ok [of 1 ?s c' mo ms] n t 2 l(2) len by (auto simp: al_waiting_def passed_def)
    show ?thesis
      using per l(1) l' n other 2 quiet_tick(2)
      by (intro exI [of _ l'] exI [of _ "[?o, c']"]) (auto simp: list_eq_iff_nth_eq nth_list_update less_2_cases_iff)
  qed
qed

section \<open>One call of the periodic function\<close>

text \<open>Between two calls: nothing queued, nothing to send, the other channel without a session.\<close>

definition rx_ready :: "J1939 \<Rightarrow> nat \<Rightarrow> bool" where
  "rx_ready s ch \<longleftrightarrow> jl_holds 32 (j_rx s) [] \<and> \<not> j_primed s \<and> al_waiting s [] \<and> al_inv s \<and>
     pgn_inv (j_pgn s) \<and> pgn_sorted (j_pgn s) \<and> length (j_ctx s) = 2 \<and> ch < 2 \<and> quiet (j_ctx s ! (1 - ch))"

definition delivery :: "J1939 \<Rightarrow> J1939_RX_MESSAGE list \<Rightarrow> J1939_OUT list" where
  "delivery s ms = concat (map (\<lambda>m. concat (map (al_deliver m) (al_subs s))) ms)"

text \<open>What a call leaves: a state that is ready again, with the given context and output.\<close>

definition step_to :: "J1939 \<Rightarrow> nat \<Rightarrow> J1939_RX_CONTEXT \<Rightarrow> J1939_RX_MESSAGE list \<Rightarrow> J1939 \<Rightarrow> bool" where
  "step_to s ch c' ms s' \<longleftrightarrow> rx_ready s' ch \<and> j_ctx s' ! ch = c' \<and> j_pgn s' = j_pgn s \<and>
     al_subs s' = al_subs s \<and> j_out s' = j_out s @ delivery s ms"

lemma upper_layers:
  assumes r: "rx_ready s ch" and t: "tick_result (j_ctx s ! ch) c' mo" and k: "jl_holds 4 k ms"
    and one: "length (ms @ passed mo) \<le> 1"
  shows "\<exists>s'. do { s \<leftarrow> j1939_tl_periodic (s\<lparr>j_al := k\<rparr>); j1939_al_periodic s } = Some s' \<and>
     step_to s ch c' (ms @ passed mo) s'"
proof -
  let ?s0 = "s\<lparr>j_al := k\<rparr>" and ?ms = "ms @ passed mo"
  obtain l ctx where l: "j1939_tl_periodic ?s0 = Some (?s0\<lparr>j_al := l, j_ctx := ctx\<rparr>)" "jl_holds 4 l ?ms"
      and ctx: "length ctx = 2" "ctx ! ch = c'" "quiet (ctx ! (1 - ch))"
    using tl_periodic_ok [of ?s0 ch c' mo ms] r t k one by (auto simp: rx_ready_def al_waiting_def)
  let ?s = "?s0\<lparr>j_al := l, j_ctx := ctx\<rparr>"
  have i: "al_waiting ?s ?ms" "al_inv ?s" "al_subs ?s = al_subs s" "j_out ?s = j_out s"
    using r l(2) by (simp_all add: rx_ready_def al_waiting_def al_inv_def al_subs_def)
  have d: "tl ?ms = []" "(case ?ms of [] \<Rightarrow> [] | m # _ \<Rightarrow> concat (map (al_deliver m) (al_subs s))) = delivery s ?ms"
    using one by (cases ?ms; simp add: delivery_def)+
  obtain l' where l': "j1939_al_periodic ?s = Some (?s\<lparr>j_al := l', j_out := j_out s @ delivery s ?ms\<rparr>)" "jl_holds 4 l' []"
    using al_periodic_ok [OF i(1,2)] unfolding i(3,4) d by blast
  have "step_to s ch c' ?ms (?s\<lparr>j_al := l', j_out := j_out s @ delivery s ?ms\<rparr>)"
    using l'(2) ctx r i(3) by (simp add: step_to_def rx_ready_def al_waiting_def al_inv_def al_subs_def)
  then show ?thesis using l(1) l'(1) by simp
qed

lemma passed_one: "length ([] @ passed mo) \<le> 1"
  by (simp add: passed_def split: option.split)

lemma upper_layers_empty:
  assumes r: "rx_ready s ch" and t: "tick_result (j_ctx s ! ch) c' mo"
  shows "\<exists>s'. do { s \<leftarrow> j1939_tl_periodic s; j1939_al_periodic s } = Some s' \<and> step_to s ch c' (passed mo) s'"
proof -
  have "jl_holds 4 (j_al s) []" using r by (simp add: rx_ready_def al_waiting_def)
  then show ?thesis using upper_layers [OF r t _ passed_one, of "j_al s"] by simp
qed

lemma stk_idle:
  assumes "rx_ready s ch" and "tick_result (j_ctx s ! ch) c' mo"
  shows "\<exists>s'. j1939_stk_periodic s g = Some s' \<and> step_to s ch c' (passed mo) s'"
  using upper_layers_empty [OF assms] dl_periodic_empty [of s g] assms(1)
  by (simp add: j1939_stk_periodic_def rx_ready_def)

definition frame_call :: "J1939 \<Rightarrow> u8 \<Rightarrow> J1939_TX_MESSAGE \<Rightarrow> garbage \<Rightarrow> J1939 option" where
  "frame_call s ins m g = do {
     s \<leftarrow> j1939_receive s ins (tx_frame m ins) g;
     j1939_stk_periodic s g
   }"

text \<open>Messages of eight bytes to this node or to all that the filter lets through.\<close>

definition admitted :: "J1939 \<Rightarrow> J1939_TX_MESSAGE \<Rightarrow> bool" where
  "admitted s m \<longleftrightarrow> tx_proper m \<and> length (tx_data m) = 8 \<and> tx_byte_count m = 8 \<and>
     (tx_PGN m < 0xF000 \<longrightarrow> tx_dest_addr m = GLOBADDR \<or> tx_dest_addr m = NODEADDR) \<and>
     j1939_pgn_filter (j_pgn s) (tx_sa_addr m) (id_pgn (tx_identifier m)) = Some True"

lemma frame_to_tl:
  assumes r: "rx_ready s (unat ins)" and a: "admitted s m" and g: "garbage_ok g"
  shows "\<exists>l. jl_holds 32 l [] \<and> frame_call s ins m g =
     do { s \<leftarrow> j1939_tl_process (s\<lparr>j_rx := l\<rparr>) ins (rx_pdu m) g; s \<leftarrow> j1939_tl_periodic s; j1939_al_periodic s }"
proof -
  have m: "tx_proper m" "length (tx_data m) = 8" "tx_byte_count m = 8" using a by (simp_all add: admitted_def)
  have ins: "unat ins < 2" using r by (simp add: rx_ready_def)
  have q: "jl_holds 32 (j_rx s) []" "pgn_inv (j_pgn s)" "pgn_sorted (j_pgn s)" "\<not> j_primed s"
    using r by (simp_all add: rx_ready_def)
  have rx: "j1939_receive s ins (tx_frame m ins) g = j1939_dl_process s (tx_packet m ins)"
    unfolding j1939_receive_def by (rule hal_rx_frame [OF m(1) ins g m(2,3)])
  have "j1939_pgn_filter (j_pgn s) (id_source (pkt_identifier (tx_packet m ins))) (id_pgn (pkt_identifier (tx_packet m ins))) = Some True"
    using a id_roundtrip(2) [OF m(1)] by (simp add: admitted_def tx_packet_def)
  then obtain l0 where l0: "j1939_dl_process s (tx_packet m ins) = Some (s\<lparr>j_rx := l0\<rparr>)" "jl_holds 32 l0 [tx_packet m ins]"
    using dl_process_ok [OF q(1-3), of "tx_packet m ins"] by auto
  let ?s = "s\<lparr>j_rx := l0\<rparr>"
  have p: "dl_pdu (tx_packet m ins) g = Some (Some (rx_pdu m))"
    using dl_pdu_tx [OF m(1) g m(2,3)] a by (auto simp: admitted_def)
  obtain l where l: "jl_holds 32 l []" "j1939_dl_periodic ?s g = j1939_tl_process (?s\<lparr>j_rx := l\<rparr>) ins (rx_pdu m) g"
    using dl_periodic_receive [of ?s "tx_packet m ins" "[]" g] l0(2) q(4) p by (auto simp: tx_packet_def)
  then show ?thesis using rx l0(1) by (intro exI [of _ l]) (simp add: frame_call_def j1939_stk_periodic_def)
qed

lemma ready_rx: "rx_ready s ch \<Longrightarrow> jl_holds 32 l [] \<Longrightarrow> rx_ready (s\<lparr>j_rx := l\<rparr>) ch"
  by (simp add: rx_ready_def al_waiting_def al_inv_def)

lemma step_to_rx: "step_to (s\<lparr>j_rx := l\<rparr>) ch c' ms s' \<longleftrightarrow> step_to s ch c' ms s'"
  by (simp add: step_to_def delivery_def al_subs_def)

text \<open>A frame of the transport protocol.\<close>

lemma tp_frame:
  assumes r: "rx_ready s (unat ins)" and a: "admitted s m" and g: "garbage_ok g"
    and tp: "tx_PGN m = TP_CM \<or> tx_PGN m = TP_DT"
    and len: "length (pdu_data (cx_pdu (j_ctx s ! unat ins))) = 8"
    and t: "tick_result ((j_ctx s ! unat ins)\<lparr>cx_pdu := rx_pdu m\<rparr>) c' mo"
  shows "\<exists>s'. frame_call s ins m g = Some s' \<and> step_to s (unat ins) c' (passed mo) s'"
proof -
  obtain l where l: "jl_holds 32 l []" "frame_call s ins m g =
     do { s \<leftarrow> j1939_tl_process (s\<lparr>j_rx := l\<rparr>) ins (rx_pdu m) g; s \<leftarrow> j1939_tl_periodic s; j1939_al_periodic s }"
    using frame_to_tl [OF r a g] by blast
  let ?s = "s\<lparr>j_rx := l\<rparr>" and ?c = "(j_ctx s ! unat ins)\<lparr>cx_pdu := rx_pdu m\<rparr>"
  let ?t = "?s\<lparr>j_ctx := (j_ctx s)[unat ins := ?c]\<rparr>"
  have n: "length (j_ctx s) = 2" "unat ins < 2" using r by (simp_all add: rx_ready_def)
  have "length (pdu_data (rx_pdu m)) = 8" using a by (simp add: admitted_def rx_pdu_def)
  then have "j1939_tl_process ?s ins (rx_pdu m) g = Some ?t"
    using tp n len by (simp add: j1939_tl_process_def rx_pdu_def NUMBER_PDU_BUFFERS_def blit_all)
  moreover have "1 - unat ins \<noteq> unat ins" by presburger
  then have "rx_ready ?t (unat ins)"
    using ready_rx [OF r l(1)] n by (simp add: rx_ready_def al_waiting_def al_inv_def)
  moreover have "step_to ?t (unat ins) c' ms s' \<longleftrightarrow> step_to s (unat ins) c' ms s'" for ms s'
    by (simp add: step_to_def delivery_def al_subs_def)
  ultimately show ?thesis
    using l(2) upper_layers_empty [of ?t "unat ins" c' mo] t n by simp
qed

text \<open>Any other frame goes straight up.\<close>

lemma plain_frame:
  assumes r: "rx_ready s (unat ins)" and a: "admitted s m" and g: "garbage_ok g"
    and tp: "tx_PGN m \<noteq> TP_CM" "tx_PGN m \<noteq> TP_DT" and q: "quiet (j_ctx s ! unat ins)"
  defines "msg \<equiv> \<lparr>msg_PGN = tx_PGN m, msg_data = blit (g_msg g) 0 (tx_data m), msg_byte_count = 8,
       msg_source_addr = tx_sa_addr m, msg_dest_addr = pdu_dest_addr (rx_pdu m)\<rparr>"
  shows "\<exists>s'. frame_call s ins m g = Some s' \<and> step_to s (unat ins) (count_tick (j_ctx s ! unat ins)) (passed (Some msg)) s'"
proof -
  obtain l where l: "jl_holds 32 l []" "frame_call s ins m g =
     do { s \<leftarrow> j1939_tl_process (s\<lparr>j_rx := l\<rparr>) ins (rx_pdu m) g; s \<leftarrow> j1939_tl_periodic s; j1939_al_periodic s }"
    using frame_to_tl [OF r a g] by blast
  let ?s = "s\<lparr>j_rx := l\<rparr>" and ?c = "count_tick (j_ctx s ! unat ins)"
  have rs: "rx_ready ?s (unat ins)" by (rule ready_rx [OF r l(1)])
  then have w: "al_waiting ?s []" by (simp add: rx_ready_def)
  have "tx_byte_count m = 8" "length (tx_data m) = 8" using a by (simp_all add: admitted_def)
  then have tlp: "j1939_tl_process ?s ins (rx_pdu m) g = j1939_nml_process ?s msg"
    using tp g by (simp add: j1939_tl_process_def rx_pdu_def NUMBER_PDU_BUFFERS_def msg_def garbage_ok_def)
  obtain k where k: "j1939_nml_process ?s msg = Some (?s\<lparr>j_al := k\<rparr>)" "jl_holds 4 k (passed (Some msg))"
    using nml_process_ok [OF w, of msg] by (auto simp: passed_def split: if_splits)
  have t: "tick_result (j_ctx ?s ! unat ins) ?c None" using quiet_tick(1) [OF q] by simp
  have one: "length (passed (Some msg) @ passed None) \<le> 1" by (simp add: passed_def)
  obtain s' where s': "do { s \<leftarrow> j1939_tl_periodic (?s\<lparr>j_al := k\<rparr>); j1939_al_periodic s } = Some s'"
      "step_to ?s (unat ins) ?c (passed (Some msg) @ passed None) s'"
    using upper_layers [OF rs t k(2) one] by blast
  have "passed (Some msg) @ passed None = passed (Some msg)" by (simp add: passed_def)
  then have "step_to s (unat ins) ?c (passed (Some msg)) s'" using s'(2) by (simp only: step_to_rx)
  then show ?thesis using l(2) tlp k(1) s'(1) by (intro exI [of _ s']) simp
qed

section \<open>A broadcast\<close>

text \<open>The frames of a broadcast: the announcement and the data packets.\<close>

definition bam_msg :: "u8 \<Rightarrow> u8 \<Rightarrow> u8 \<Rightarrow> u16 \<Rightarrow> u8 \<Rightarrow> u16 \<Rightarrow> J1939_TX_MESSAGE" where
  "bam_msg prio src dst n k pgn = \<lparr>tx_PGN = TP_CM,
     tx_data = [TP_CM_BAM, ucast n, ucast (drop_bit 8 n), k, 0xFF, ucast pgn, ucast (drop_bit 8 pgn), 0],
     tx_byte_count = 8, tx_priority = prio, tx_dest_addr = dst, tx_sa_addr = src, tx_channel = 0\<rparr>"

definition dt_msg :: "u8 \<Rightarrow> u8 \<Rightarrow> u8 \<Rightarrow> nat \<Rightarrow> u8 list \<Rightarrow> J1939_TX_MESSAGE" where
  "dt_msg prio src dst i xs = \<lparr>tx_PGN = TP_DT, tx_data = of_nat i # xs, tx_byte_count = 8,
     tx_priority = prio, tx_dest_addr = dst, tx_sa_addr = src, tx_channel = 0\<rparr>"

fun idle_calls :: "nat \<Rightarrow> J1939 \<Rightarrow> garbage \<Rightarrow> J1939 option" where
  "idle_calls 0 s g = Some s"
| "idle_calls (Suc n) s g = do { s \<leftarrow> j1939_stk_periodic s g; idle_calls n s g }"

text \<open>Packets \<open>i, i + 1, \<dots>\<close>, each followed by a number of calls without news.\<close>

fun send_packets :: "u8 \<Rightarrow> u8 \<Rightarrow> u8 \<Rightarrow> u8 \<Rightarrow> nat \<Rightarrow> (u8 list \<times> nat) list \<Rightarrow> J1939 \<Rightarrow> garbage \<Rightarrow> J1939 option" where
  "send_packets ins prio src dst i [] s g = Some s"
| "send_packets ins prio src dst i ((xs, d) # ps) s g = do {
     s \<leftarrow> frame_call s ins (dt_msg prio src dst i xs) g;
     s \<leftarrow> idle_calls d s g;
     send_packets ins prio src dst (Suc i) ps s g
   }"

definition broadcast :: "u8 \<Rightarrow> u8 \<Rightarrow> u8 \<Rightarrow> u8 \<Rightarrow> u16 \<Rightarrow> u8 \<Rightarrow> u16 \<Rightarrow> nat \<Rightarrow> (u8 list \<times> nat) list \<Rightarrow> J1939 \<Rightarrow> garbage \<Rightarrow> J1939 option" where
  "broadcast ins prio src dst n k pgn d ps s g = do {
     s \<leftarrow> frame_call s ins (bam_msg prio src dst n k pgn) g;
     s \<leftarrow> idle_calls d s g;
     send_packets ins prio src dst 1 ps s g
   }"

lemma step_to_trans:
  "step_to s ch c1 ms1 s1 \<Longrightarrow> step_to s1 ch c2 ms2 s2 \<Longrightarrow> step_to s ch c2 (ms1 @ ms2) s2"
  by (simp add: step_to_def delivery_def)

lemma step_to_refl: "rx_ready s ch \<Longrightarrow> step_to s ch (j_ctx s ! ch) [] s"
  by (simp add: step_to_def delivery_def)

lemma passed_None [simp]: "passed None = []"
  by (simp add: passed_def)

text \<open>Calls without news, in a session and outside one.\<close>

lemma idle_calls_ok:
  assumes "rx_ready s ch" and "c = j_ctx s ! ch"
    and "\<And>i. i < d \<Longrightarrow> tick_result ((count_tick ^^ i) c) ((count_tick ^^ Suc i) c) None"
  shows "\<exists>s'. idle_calls d s g = Some s' \<and> step_to s ch ((count_tick ^^ d) c) [] s'"
  using assms
proof (induction d arbitrary: s c)
  case 0
  then show ?case using step_to_refl by simp
next
  case (Suc d)
  have "tick_result (j_ctx s ! ch) (count_tick c) None" using Suc.prems(3) [of 0] Suc.prems(2) by simp
  then obtain s1 where s1: "j1939_stk_periodic s g = Some s1" "step_to s ch (count_tick c) [] s1"
    using stk_idle [OF Suc.prems(1)] by fastforce
  have t: "tick_result ((count_tick ^^ i) (count_tick c)) ((count_tick ^^ Suc i) (count_tick c)) None" if "i < d" for i
    using Suc.prems(3) [of "Suc i"] that by (simp add: funpow_swap1)
  have "rx_ready s1 ch" "count_tick c = j_ctx s1 ! ch" using s1(2) by (simp_all add: step_to_def)
  then obtain s2 where s2: "idle_calls d s1 g = Some s2" "step_to s1 ch ((count_tick ^^ d) (count_tick c)) [] s2"
    using Suc.IH [OF _ _ t] by blast
  then show ?case
    using s1 step_to_trans [OF s1(2) s2(2)] by (intro exI [of _ s2]) (simp add: funpow_swap1)
qed

lemma count_ticks:
  "receiving c D j \<Longrightarrow> receiving ((count_tick ^^ i) c) D j"
  "session_of ((count_tick ^^ i) c) = session_of c" "cx_pdu ((count_tick ^^ i) c) = cx_pdu c"
  "quiet c \<Longrightarrow> quiet ((count_tick ^^ i) c)"
  "sm_timer_counter (cx_machine ((count_tick ^^ i) c)) = sm_timer_counter (cx_machine c) + of_nat i"
  by (induction i) (simp_all add: receiving_tick session_tick quiet_tick algebra_simps)

lemma idle_quiet:
  assumes "rx_ready s ch" and "quiet (j_ctx s ! ch)"
  shows "\<exists>s'. idle_calls d s g = Some s' \<and> step_to s ch ((count_tick ^^ d) (j_ctx s ! ch)) [] s'"
  by (rule idle_calls_ok [OF assms(1) refl]) (use assms(2) count_ticks(4) quiet_tick(1) in auto)

lemma idle_receiving:
  assumes "rx_ready s ch" and r: "receiving (j_ctx s ! ch) D j"
    and "pdu_PGN (cx_pdu (j_ctx s ! ch)) = TP_DT \<and> pdu_data (cx_pdu (j_ctx s ! ch)) ! 0 = 0 \<or>
      pdu_PGN (cx_pdu (j_ctx s ! ch)) \<noteq> TP_DT \<and> sm_timer_counter (cx_machine (j_ctx s ! ch)) = 0 \<and> d \<le> 75"
  shows "\<exists>s'. idle_calls d s g = Some s' \<and> step_to s ch ((count_tick ^^ d) (j_ctx s ! ch)) [] s'"
proof (rule idle_calls_ok [OF assms(1) refl])
  fix i
  assume i: "i < d"
  let ?c = "(count_tick ^^ i) (j_ctx s ! ch)"
  have "unat (of_nat i + 1 :: u16) \<le> 75" if "d \<le> 75"
    using that i by (subst unat_plus_if_fits) (simp_all add: unat_of_nat)
  then have "pdu_PGN (cx_pdu ?c) = TP_DT \<and> pdu_data (cx_pdu ?c) ! 0 = 0 \<or>
      pdu_PGN (cx_pdu ?c) \<noteq> TP_DT \<and> unat (sm_timer_counter (cx_machine ?c) + 1) \<le> 75"
    using assms(3) by (auto simp: count_ticks)
  then show "tick_result ?c ((count_tick ^^ Suc i) (j_ctx s ! ch)) None"
    using receiving_idle [OF count_ticks(1) [OF r]] by (simp add: tick_result_def)
qed

lemma receiving_pdu:
  "receiving c D j \<Longrightarrow> length (pdu_data p) = 8 \<Longrightarrow> receiving (c\<lparr>cx_pdu := p\<rparr>) D j"
  by (auto simp: receiving_def ctx_ok_def)

lemma session_pdu: "session_of (c\<lparr>cx_pdu := p\<rparr>) = session_of c"
  by (simp add: session_of_def Let_def)

lemma dt_admitted:
  assumes "prio < 8" and "dst = GLOBADDR \<or> dst = NODEADDR" and "length xs = 7"
    and "j1939_pgn_filter (j_pgn s) src (TP_DT + ucast dst) = Some True"
  shows "admitted s (dt_msg prio src dst i xs)"
    and "rx_pdu (dt_msg prio src dst i xs) = dt_pdu src dst 8 i xs"
proof -
  have p: "tx_proper (dt_msg prio src dst i xs)"
    using assms(1) by (simp add: tx_proper_def dt_msg_def j1939_consts)
  show "admitted s (dt_msg prio src dst i xs)"
    using p assms id_roundtrip(3) [OF p] by (simp add: admitted_def dt_msg_def j1939_consts)
  show "rx_pdu (dt_msg prio src dst i xs) = dt_pdu src dst 8 i xs"
    by (simp add: rx_pdu_def dt_msg_def dt_pdu_def j1939_consts)
qed

text \<open>The message a broadcast ends in.\<close>

definition bam_result :: "u16 \<Rightarrow> u16 \<Rightarrow> u8 \<Rightarrow> u8 \<Rightarrow> u8 list \<Rightarrow> J1939_RX_MESSAGE \<Rightarrow> bool" where
  "bam_result pgn n src dst D m \<longleftrightarrow> msg_PGN m = ucast pgn \<and> msg_byte_count m = n \<and> msg_source_addr m = src \<and>
     msg_dest_addr m = dst \<and> length (msg_data m) = 128 \<and> take (unat n) (msg_data m) = take (unat n) D"

lemma send_packets_ok:
  assumes "rx_ready s (unat ins)" and "receiving (j_ctx s ! unat ins) D j" and "unat k \<le> 36"
    and "session_of (j_ctx s ! unat ins) = (ucast pgn, n, k, src, dst)"
    and "ps \<noteq> []" and "j + length ps = unat k" and "\<forall>p\<in>set ps. length (fst p) = 7"
    and "concat (map fst ps) = drop (7 * j) D" and "length D = 7 * unat k" and "unat n \<le> 7 * unat k"
    and "prio < 8" and "dst = GLOBADDR \<or> dst = NODEADDR" and "garbage_ok g"
    and "j1939_pgn_filter (j_pgn s) src (TP_DT + ucast dst) = Some True"
  shows "\<exists>s' c' m. send_packets ins prio src dst (Suc j) ps s g = Some s' \<and> quiet c' \<and>
     step_to s (unat ins) c' (passed (Some m)) s' \<and> bam_result pgn n src dst D m"
  using assms
proof (induction ps arbitrary: s j)
  case Nil
  then show ?case by simp
next
  case (Cons p ps)
  obtain xs d where p: "p = (xs, d)" by force
  let ?c = "j_ctx s ! unat ins" and ?m = "dt_msg prio src dst (Suc j) xs"
  have xs: "length xs = 7" "xs @ concat (map fst ps) = drop (7 * j) D" using Cons.prems(7,8) p by simp_all
  have x7: "take 7 (drop (7 * j) D) = xs" using xs by (metis append_eq_conv_conj)
  have rest: "concat (map fst ps) = drop (7 * Suc j) D"
    using xs by (metis append_eq_conv_conj drop_drop mult_Suc_right)
  have j: "j < 36" using Cons.prems(3,6) by simp
  note a = dt_admitted [OF Cons.prems(11,12) xs(1) Cons.prems(14), of "Suc j"]
  let ?c1 = "?c\<lparr>cx_pdu := rx_pdu ?m\<rparr>"
  have r1: "receiving ?c1 D j" using receiving_pdu [OF Cons.prems(2)] a(2) xs(1) by (simp add: dt_pdu_def)
  have ses: "session_of ?c1 = (ucast pgn, n, k, src, dst)" using Cons.prems(4) by (simp add: session_pdu)
  have pdu: "cx_pdu ?c1 = dt_pdu src dst 8 (Suc j) xs" using a(2) by simp
  note pk = receiving_packet [OF r1 j xs(1) x7 ses pdu]
  have tp: "tx_PGN ?m = TP_CM \<or> tx_PGN ?m = TP_DT" by (simp add: dt_msg_def)
  have len: "length (pdu_data (cx_pdu ?c)) = 8" using receiving_facts [OF Cons.prems(2)] by simp
  note frame = tp_frame [OF Cons.prems(1) a(1) Cons.prems(13) tp len]
  show ?case
  proof (cases "Suc j = unat k")
    case True
    have "j + Suc (length ps) = unat k" using Cons.prems(6) by simp
    then have "length ps = 0" using True by linarith
    then have ps: "ps = []" by simp
    obtain c' m where c': "tick_result ?c1 c' (Some m)" "dropped_session c'"
        and m: "msg_PGN m = ucast pgn" "msg_byte_count m = n" "msg_source_addr m = src" "msg_dest_addr m = dst"
          "length (msg_data m) = 128" "unat n \<le> 7 * Suc j \<longrightarrow> 7 * Suc j \<le> length D \<longrightarrow> take (unat n) (msg_data m) = take (unat n) D"
      using pk True unfolding tick_result_def by auto
    obtain s1 where s1: "frame_call s ins ?m g = Some s1" "step_to s (unat ins) c' (passed (Some m)) s1"
      using frame [OF c'(1)] by blast
    have q: "rx_ready s1 (unat ins)" "j_ctx s1 ! unat ins = c'" using s1(2) by (simp_all add: step_to_def)
    obtain s2 where s2: "idle_calls d s1 g = Some s2" "step_to s1 (unat ins) ((count_tick ^^ d) c') [] s2"
      using idle_quiet [OF q(1)] quiet_session [OF c'(2)] q(2) by blast
    have "bam_result pgn n src dst D m" using m True Cons.prems(9,10) by (simp add: bam_result_def)
    moreover have "step_to s (unat ins) ((count_tick ^^ d) c') (passed (Some m)) s2"
      using step_to_trans [OF s1(2) s2(2)] by simp
    moreover have "quiet ((count_tick ^^ d) c')" by (rule count_ticks(4) [OF quiet_session [OF c'(2)]])
    ultimately show ?thesis using s1(1) s2(1) p ps by auto
  next
    case False
    obtain c' where c': "tick_result ?c1 c' None" "receiving c' D (Suc j)" "session_of c' = session_of ?c1"
        "pdu_PGN (cx_pdu c') = TP_DT" "pdu_data (cx_pdu c') ! 0 = 0"
      using pk False unfolding tick_result_def by auto
    obtain s1 where s1: "frame_call s ins ?m g = Some s1" "step_to s (unat ins) c' [] s1"
      using frame [OF c'(1)] by auto
    have q: "rx_ready s1 (unat ins)" "j_ctx s1 ! unat ins = c'" "j_pgn s1 = j_pgn s" using s1(2) by (simp_all add: step_to_def)
    obtain s2 where s2: "idle_calls d s1 g = Some s2" "step_to s1 (unat ins) ((count_tick ^^ d) c') [] s2"
      using idle_receiving [OF q(1), of D "Suc j" d g] c' q(2) by auto
    let ?c2 = "(count_tick ^^ d) c'"
    have q2: "rx_ready s2 (unat ins)" "j_ctx s2 ! unat ins = ?c2" "j_pgn s2 = j_pgn s"
      using s2(2) q(3) by (simp_all add: step_to_def)
    have "ps \<noteq> []" using False Cons.prems(6) by auto
    then have "\<exists>s' c'' m. send_packets ins prio src dst (Suc (Suc j)) ps s2 g = Some s' \<and> quiet c'' \<and>
        step_to s2 (unat ins) c'' (passed (Some m)) s' \<and> bam_result pgn n src dst D m"
      using Cons.prems rest q2 count_ticks(1) [OF c'(2)] c'(3) ses
      by (intro Cons.IH) (simp_all add: count_ticks)
    then obtain s' c'' m where IH: "send_packets ins prio src dst (Suc (Suc j)) ps s2 g = Some s'" "quiet c''"
        "step_to s2 (unat ins) c'' (passed (Some m)) s'" "bam_result pgn n src dst D m" by blast
    have "step_to s (unat ins) c'' (passed (Some m)) s'"
      using step_to_trans [OF step_to_trans [OF s1(2) s2(2)] IH(3)] by simp
    then show ?thesis using IH s1(1) s2(1) p by auto
  qed
qed

lemma byte_halves:
  fixes w :: u16
  shows "256 * unat (ucast (drop_bit 8 w) :: u8) + unat (ucast w :: u8) = unat w"
proof -
  have "unat w < 65536" by (rule unat_u16_lt)
  moreover have "unat (drop_bit 8 w) = unat w div 2 ^ 8" by (rule unat_drop_bit)
  ultimately have "unat (ucast (drop_bit 8 w) :: u8) = unat w div 256" "unat (ucast w :: u8) = unat w mod 256"
    unfolding unsigned_ucast_eq take_bit_eq_mod by simp_all
  then show ?thesis by simp
qed

lemma bam_admitted:
  assumes "prio < 8" and "dst = GLOBADDR \<or> dst = NODEADDR"
    and "j1939_pgn_filter (j_pgn s) src (TP_CM + ucast dst) = Some True"
  shows "admitted s (bam_msg prio src dst n k pgn)"
proof -
  have p: "tx_proper (bam_msg prio src dst n k pgn)"
    using assms(1) by (simp add: tx_proper_def bam_msg_def j1939_consts)
  show ?thesis
    using p assms id_roundtrip(3) [OF p] by (simp add: admitted_def bam_msg_def j1939_consts)
qed

text \<open>The announcement opens the session.\<close>

lemma bam_opens:
  assumes q: "quiet c" and dst: "dst = GLOBADDR \<or> dst = NODEADDR" and n: "unat n \<le> 126"
    and c0_def: "c0 = c\<lparr>cx_pdu := rx_pdu (bam_msg prio src dst n k pgn)\<rparr>"
  shows "tick_result c0 (opened c0) None" "receiving (opened c0) D 0"
    "session_of (opened c0) = (ucast pgn, n, k, src, dst)"
    "pdu_PGN (cx_pdu (opened c0)) \<noteq> TP_DT" "sm_timer_counter (cx_machine (opened c0)) = 0"
proof -
  let ?p = "rx_pdu (bam_msg prio src dst n k pgn)"
  have p: "cx_pdu c0 = ?p" "for_us ?p" "pdu_data ?p ! 0 = TP_CM_BAM" "length (pdu_data ?p) = 8"
    using dst by (auto simp: c0_def rx_pdu_def bam_msg_def for_us_def j1939_consts)
  have an: "announced ?p = unat n" using byte_halves [of n] by (simp add: announced_def rx_pdu_def bam_msg_def)
  have st: "sm_status (cx_machine c0) = WAIT_FOR_MESSAGE" using q by (simp add: c0_def quiet_def)
  show "tick_result c0 (opened c0) None"
    using tick_open [OF st, unfolded p(1), OF p(4,2,3)] an n by (simp add: tick_result_def)
  have "ctx_ok c0" using q p(4) by (simp add: ctx_ok_def quiet_def c0_def)
  then have ok: "ctx_ok (opened c0)" using opened_ok [of c0] p(1,3) an n by simp
  show "receiving (opened c0) D 0"
    using ok by (simp add: receiving_def opened_def Let_def)
  have "unat (push_bit 8 (ucast (ucast (drop_bit 8 pgn) :: u8)) + ucast (ucast pgn :: u8) :: u32) = unat (ucast pgn :: u32)"
  proof -
    have b: "unat (ucast (drop_bit 8 pgn) :: u8) < 256" "unat (ucast pgn :: u8) < 256" by (rule unat_u8_lt)+
    have "unat (push_bit 8 (ucast (ucast (drop_bit 8 pgn) :: u8)) :: u32) = 256 * unat (ucast (drop_bit 8 pgn) :: u8)"
      using b(1) by (simp add: push_bit_eq_mult unat_word_ariths)
    then show ?thesis using b byte_halves [of pgn] by (subst unat_plus_if_fits) simp_all
  qed
  moreover have "sm_byte_count (cx_machine (started c0)) = n"
    using started_simps(3) [of c0] an p(1) by (simp only: word_unat_eq_iff)
  ultimately show "session_of (opened c0) = (ucast pgn, n, k, src, dst)"
    using dst by (auto simp: session_of_def opened_def Let_def started_def c0_def rx_pdu_def bam_msg_def word_unat_eq_iff j1939_consts)
  show "pdu_PGN (cx_pdu (opened c0)) \<noteq> TP_DT" "sm_timer_counter (cx_machine (opened c0)) = 0"
    by (simp_all add: opened_def Let_def c0_def rx_pdu_def bam_msg_def j1939_consts)
qed

lemma broadcast_ok:
  assumes "rx_ready s (unat ins)" and q: "quiet (j_ctx s ! unat ins)" and g: "garbage_ok g"
    and prio: "prio < 8" and dst: "dst = GLOBADDR \<or> dst = NODEADDR"
    and f: "j1939_pgn_filter (j_pgn s) src (TP_CM + ucast dst) = Some True"
      "j1939_pgn_filter (j_pgn s) src (TP_DT + ucast dst) = Some True"
    and n: "unat n \<le> 126" "unat n \<le> 7 * unat k" and k: "0 < unat k" "unat k \<le> 36"
    and ps: "length ps = unat k" "\<forall>p\<in>set ps. length (fst p) = 7" and d: "d \<le> 75"
  shows "\<exists>s' c' m. broadcast ins prio src dst n k pgn d ps s g = Some s' \<and> quiet c' \<and>
     step_to s (unat ins) c' (passed (Some m)) s' \<and> bam_result pgn n src dst (concat (map fst ps)) m"
proof -
  let ?D = "concat (map fst ps)" and ?m = "bam_msg prio src dst n k pgn"
  define c0 where "c0 = (j_ctx s ! unat ins)\<lparr>cx_pdu := rx_pdu ?m\<rparr>"
  note op = bam_opens [OF q dst n(1) c0_def]
  have D: "length ?D = 7 * unat k"
  proof -
    have "length ?D = 7 * length ps" using ps(2) by (induction ps) auto
    then show ?thesis using ps(1) by simp
  qed
  have tp: "tx_PGN ?m = TP_CM \<or> tx_PGN ?m = TP_DT" by (simp add: bam_msg_def)
  have len: "length (pdu_data (cx_pdu (j_ctx s ! unat ins))) = 8" using q by (simp add: quiet_def)
  obtain s1 where s1: "frame_call s ins ?m g = Some s1" "step_to s (unat ins) (opened c0) [] s1"
    using tp_frame [OF assms(1) bam_admitted [OF prio dst f(1)] g tp len op(1) [unfolded c0_def]] by (auto simp: c0_def)
  have q1: "rx_ready s1 (unat ins)" "j_ctx s1 ! unat ins = opened c0" "j_pgn s1 = j_pgn s"
    using s1(2) by (simp_all add: step_to_def)
  obtain s2 where s2: "idle_calls d s1 g = Some s2" "step_to s1 (unat ins) ((count_tick ^^ d) (opened c0)) [] s2"
    using idle_receiving [OF q1(1), of ?D 0 d g] op q1(2) d by auto
  have q2: "rx_ready s2 (unat ins)" "j_ctx s2 ! unat ins = (count_tick ^^ d) (opened c0)" "j_pgn s2 = j_pgn s"
    using s2(2) q1(3) by (simp_all add: step_to_def)
  have "\<exists>s' c'' m. send_packets ins prio src dst (Suc 0) ps s2 g = Some s' \<and> quiet c'' \<and>
      step_to s2 (unat ins) c'' (passed (Some m)) s' \<and> bam_result pgn n src dst ?D m"
    using q2 count_ticks(1) [OF op(2)] op(3) k ps D n prio dst g f
    by (intro send_packets_ok) (auto simp: count_ticks)
  then obtain s' c'' m where s': "send_packets ins prio src dst (Suc 0) ps s2 g = Some s'" "quiet c''"
      "step_to s2 (unat ins) c'' (passed (Some m)) s'" "bam_result pgn n src dst ?D m" by blast
  have "step_to s (unat ins) c'' (passed (Some m)) s'"
    using step_to_trans [OF step_to_trans [OF s1(2) s2(2)] s'(3)] by simp
  then show ?thesis using s' s1(1) s2(1) by (intro exI [of _ s'] exI [of _ c''] exI [of _ m]) (simp add: broadcast_def)
qed

section \<open>The state after start-up\<close>

lemma init_ready:
  assumes "ch < 2"
  shows "\<exists>s. j1939_stk_init (boot_state h) = Some s \<and> rx_ready s ch \<and> quiet (j_ctx s ! ch) \<and> al_subs s = [] \<and>
     j_out s = [] \<and> jl_holds 8 (j_tx s) [] \<and> (\<forall>a p. j1939_pgn_filter (j_pgn s) a p = Some (pgn_accepts default_table a p))"
proof -
  have d: "distinct (map pgn_key (pgn_entries default_table))"
    by (simp add: pgn_entries_def default_table_def default_pgns_def pgn_key_def)
  obtain p where p: "j1939_pgn_init default_table = Some p" "pgn_inv p" "pgn_sorted p"
      "mset (pgn_entries p) = mset (pgn_entries default_table)"
    using pgn_init_ok [OF default_table_inv] by blast
  have "mset (map pgn_key (pgn_entries p)) = mset (map pgn_key (pgn_entries default_table))" using p(4) by simp
  then have "distinct (map pgn_key (pgn_entries p))" using d mset_eq_imp_distinct_iff by blast
  then have f: "j1939_pgn_filter p a q = Some (pgn_accepts default_table a q)" for a q
    using pgn_filter_exact [OF p(2,3)] mset_eq_setD [OF p(4)] by (simp add: pgn_accepts_def)
  let ?c = "\<lparr>cx_machine = zero_machine, cx_pdu = zero_pdu, cx_msg = zero_msg\<rparr>"
  have c: "quiet ?c" by (simp add: quiet_def zero_machine_def zero_pdu_def zero_msg_def for_us_def j1939_consts)
  let ?b = "boot_state h"
  let ?s = "?b\<lparr>j_rx := list_init (j_rx ?b), j_tx := list_init (j_tx ?b), j_pgn := p,
    j_ctx := replicate 2 ?c, j_al := list_init (j_al ?b)\<rparr>"
  have "j1939_stk_init ?b = Some ?s"
    using p(1) by (simp add: j1939_stk_init_def j1939_dl_init_def j1939_tl_init_def j1939_al_init_def boot_state_def
        HA_CHANNEL_SIZE_def Let_def)
  moreover have "jl_holds (2 ^ 3) (list_init (j_tx ?b)) []"
    by (rule list_init_holds) (simp_all add: boot_state_def Let_def)
  moreover have "jl_holds (2 ^ 5) (list_init (j_rx ?b)) []" "jl_holds (2 ^ 2) (list_init (j_al ?b)) []"
    by (rule list_init_holds; simp add: boot_state_def Let_def)+
  then have "rx_ready ?s ch"
    using assms p(2,3) c by (simp add: rx_ready_def al_waiting_def al_inv_def boot_state_def Let_def AL_SUBSCRIBE_CNT_MAX_def nth_Cons')
  moreover have "quiet (j_ctx ?s ! ch)" using assms c by simp
  moreover have "al_subs ?s = []" "j_out ?s = []" by (simp_all add: al_subs_def boot_state_def Let_def)
  ultimately show ?thesis using f by (intro exI [of _ ?s]) simp
qed

lemma subscribe_ready:
  assumes "rx_ready s ch" and "j1939_al_subscribe s a p cb = Some (s', ok)"
  shows "rx_ready s' ch" "j_ctx s' = j_ctx s" "j_out s' = j_out s"
    "al_subs s' = (if ok then al_subs s @ [\<lparr>sub_sa = a, sub_pgn = ucast p, sub_cb = cb\<rparr>] else al_subs s)"
proof -
  have i: "al_inv s" "pgn_inv (j_pgn s)" "pgn_sorted (j_pgn s)" using assms(1) by (simp_all add: rx_ready_def)
  have r: "al_inv s'" "pgn_inv (j_pgn s')" "pgn_sorted (j_pgn s')"
      "s' = s\<lparr>j_pgn := j_pgn s', j_sub := j_sub s', j_cnt := j_cnt s'\<rparr>"
    and subs: "al_subs s' = (if ok then al_subs s @ [\<lparr>sub_sa = a, sub_pgn = ucast p, sub_cb = cb\<rparr>] else al_subs s)"
    using al_subscribe_ok [OF i, of a p cb] assms(2) by auto
  have same: "j_ctx s' = j_ctx s" "j_out s' = j_out s" "j_rx s' = j_rx s" "j_primed s' = j_primed s" "j_al s' = j_al s"
    by (subst r(4), simp)+
  show "rx_ready s' ch" using r(1-3) same assms(1) by (simp add: rx_ready_def al_waiting_def)
  show "j_ctx s' = j_ctx s" "j_out s' = j_out s" by (rule same)+
  show "al_subs s' = (if ok then al_subs s @ [\<lparr>sub_sa = a, sub_pgn = ucast p, sub_cb = cb\<rparr>] else al_subs s)"
    by (rule subs)
qed

end
