(* ===== verification/J1939Inv.thy ===== *)
theory J1939Inv imports J1939Transfer begin

text \<open>
  An invariant of the whole J1939 stack. It holds after start-up and every call keeps it:
  receiving a frame, sending a message, subscribing, and the periodic function. Under it no
  call leaves an array or hangs. The frames it excludes are connection requests (\<open>RTS\<close>) to
  this node or to all, announcements of exactly 127 bytes, and frames of the transport
  protocol that are shorter than eight bytes.
\<close>

definition pkt_harmless :: "CAN_PACKET \<Rightarrow> bool" where
  "pkt_harmless p \<longleftrightarrow> length (pkt_data p) = 8 \<and> unat (pkt_byte_count p) \<le> 8 \<and> unat (pkt_channel p) < 2 \<and>
     (id_pf (pkt_identifier p) < 240 \<and> id_pgn (pkt_identifier p) AND 0xFF00 = TP_CM \<longrightarrow>
        pkt_byte_count p = 8 \<and> pkt_data p ! 0 \<noteq> TP_CM_RTS \<and>
        (pkt_data p ! 0 = TP_CM_BAM \<longrightarrow> 256 * unat (pkt_data p ! 2) + unat (pkt_data p ! 1) \<noteq> 127))"

definition frame_harmless :: "can_msg \<Rightarrow> bool" where
  "frame_harmless m \<longleftrightarrow> length (can_data m) = 8 \<and> unat (can_len m) \<le> 8 \<and>
     (let i = can_id m AND NOT DRV_CAN_EXTEND_ID_MASK in
      id_pf i < 240 \<and> id_pgn i AND 0xFF00 = TP_CM \<longrightarrow>
        can_len m = 8 \<and> can_data m ! 0 \<noteq> TP_CM_RTS \<and>
        (can_data m ! 0 = TP_CM_BAM \<longrightarrow> 256 * unat (can_data m ! 2) + unat (can_data m ! 1) \<noteq> 127))"

definition j_inv :: "J1939 \<Rightarrow> bool" where
  "j_inv s \<longleftrightarrow> (\<exists>rx. jl_holds 32 (j_rx s) rx \<and> (\<forall>p\<in>set rx. pkt_harmless p)) \<and>
     (\<exists>tx. jl_holds 8 (j_tx s) tx \<and> (\<forall>p\<in>set tx. length (pkt_data p) = 8 \<and> unat (pkt_byte_count p) \<le> 8)) \<and>
     (\<exists>ms. al_waiting s ms) \<and> al_inv s \<and> pgn_inv (j_pgn s) \<and> pgn_sorted (j_pgn s) \<and>
     length (j_ctx s) = 2 \<and> (\<forall>c\<in>set (j_ctx s). ctx_ok c \<and> pdu_harmless (cx_pdu c))"

lemma j_inv_rx: "j_inv s \<Longrightarrow> jl_holds 32 l rx \<Longrightarrow> \<forall>p\<in>set rx. pkt_harmless p \<Longrightarrow> j_inv (s\<lparr>j_rx := l\<rparr>)"
  by (auto simp: j_inv_def al_waiting_def al_inv_def)

lemma j_inv_al: "j_inv s \<Longrightarrow> jl_holds 4 l ms \<Longrightarrow> j_inv (s\<lparr>j_al := l\<rparr>)"
  by (auto simp: j_inv_def al_waiting_def al_inv_def)

lemma j_inv_ctx:
  "j_inv s \<Longrightarrow> i < 2 \<Longrightarrow> ctx_ok c \<Longrightarrow> pdu_harmless (cx_pdu c) \<Longrightarrow> j_inv (s\<lparr>j_ctx := (j_ctx s)[i := c]\<rparr>)"
  by (auto simp: j_inv_def al_waiting_def al_inv_def dest!: subsetD [OF set_update_subset_insert])

lemma j_inv_out: "j_inv (s\<lparr>j_out := os\<rparr>) = j_inv s" "j_inv (s\<lparr>j_notify := n\<rparr>) = j_inv s" "j_inv (s\<lparr>j_primed := b\<rparr>) = j_inv s"
  by (simp_all add: j_inv_def al_waiting_def al_inv_def)

section \<open>Receiving\<close>

lemma receive_inv:
  assumes i: "j_inv s" and f: "frame_harmless m" and g: "garbage_ok g"
  shows "\<exists>s'. j1939_receive s ins m g = Some s' \<and> j_inv s'"
proof (cases "unat ins < 2")
  case False
  then show ?thesis using i by (simp add: j1939_receive_def j1939_hal_rx_def HA_CHANNEL_SIZE_def)
next
  case True
  define d where "d = blit (g_pkt g) 0 (take (unat (can_len m)) (can_data m))"
  let ?p = "\<lparr>pkt_identifier = can_id m AND NOT DRV_CAN_EXTEND_ID_MASK, pkt_data = d, pkt_byte_count = can_len m, pkt_channel = ins\<rparr>"
  have len: "length (can_data m) = 8" "unat (can_len m) \<le> 8" "length (g_pkt g) = 8"
    using f g by (simp_all add: frame_harmless_def garbage_ok_def)
  have eq: "j1939_receive s ins m g = j1939_dl_process s ?p"
    using True len by (simp add: j1939_receive_def j1939_hal_rx_def HA_CHANNEL_SIZE_def d_def)
  have "d = can_data m" if "can_len m = 8" using that len by (simp add: d_def blit_all)
  then have p: "pkt_harmless ?p"
    using f len True by (auto simp: pkt_harmless_def frame_harmless_def Let_def d_def)
  obtain rx where rx: "jl_holds 32 (j_rx s) rx" "\<forall>p\<in>set rx. pkt_harmless p" using i by (auto simp: j_inv_def)
  have pg: "pgn_inv (j_pgn s)" "pgn_sorted (j_pgn s)" using i by (simp_all add: j_inv_def)
  obtain pass l where l: "j1939_dl_process s ?p = Some (s\<lparr>j_rx := l\<rparr>)"
      "jl_holds 32 l (if pass \<and> length rx < 31 then rx @ [?p] else rx)"
    using dl_process_ok [OF rx(1) pg, of ?p] by blast
  have "\<forall>q\<in>set (if pass \<and> length rx < 31 then rx @ [?p] else rx). pkt_harmless q" using rx(2) p by auto
  then show ?thesis using eq l j_inv_rx [OF i l(2)] by (intro exI [of _ "s\<lparr>j_rx := l\<rparr>"]) simp
qed

lemma pdu_eta: "\<lparr>pdu_PGN = pdu_PGN p, pdu_data = pdu_data p, pdu_byte_count = pdu_byte_count p,
    pdu_source_addr = pdu_source_addr p, pdu_dest_addr = pdu_dest_addr p\<rparr> = p"
  by (cases p) simp

lemma tl_process_inv:
  assumes i: "j_inv s" and ch: "unat ch < 2" and g: "garbage_ok g" and p: "length (pdu_data p) = 8" "pdu_harmless p"
  shows "\<exists>s'. j1939_tl_process s ch p g = Some s' \<and> j_inv s'"
proof (cases "pdu_PGN p = TP_CM \<or> pdu_PGN p = TP_DT")
  case True
  let ?c = "j_ctx s ! unat ch"
  have n: "length (j_ctx s) = 2" using i by (simp add: j_inv_def)
  then have c: "ctx_ok ?c" using i ch by (simp add: j_inv_def)
  then have "length (pdu_data (cx_pdu ?c)) = 8" by (simp add: ctx_ok_def)
  then have eq: "j1939_tl_process s ch p g = Some (s\<lparr>j_ctx := (j_ctx s)[unat ch := ?c\<lparr>cx_pdu := p\<rparr>]\<rparr>)"
    using True n ch p(1) by (simp add: j1939_tl_process_def NUMBER_PDU_BUFFERS_def blit_all pdu_eta)
  have "ctx_ok (?c\<lparr>cx_pdu := p\<rparr>)" using c p(1) by (simp add: ctx_ok_def)
  then show ?thesis using eq j_inv_ctx [OF i ch] p(2) by simp
next
  case False
  obtain ms where w: "al_waiting s ms" using i by (auto simp: j_inv_def)
  let ?m = "\<lparr>msg_PGN = pdu_PGN p, msg_data = blit (g_msg g) 0 (pdu_data p), msg_byte_count = pdu_byte_count p,
     msg_source_addr = pdu_source_addr p, msg_dest_addr = pdu_dest_addr p\<rparr>"
  have eq: "j1939_tl_process s ch p g = j1939_nml_process s ?m"
    using False g p(1) by (simp add: j1939_tl_process_def NUMBER_PDU_BUFFERS_def garbage_ok_def)
  obtain l where "j1939_nml_process s ?m = Some (s\<lparr>j_al := l\<rparr>)"
      "jl_holds 4 l (if nml_passes ?m \<and> length ms < 3 then ms @ [?m] else ms)"
    using nml_process_ok [OF w] by blast
  then show ?thesis using eq j_inv_al [OF i] by auto
qed

lemma dl_pdu_inv:
  assumes "pkt_harmless p" and "garbage_ok g"
  shows "\<exists>po. dl_pdu p g = Some po \<and> (\<forall>pdu. po = Some pdu \<longrightarrow> length (pdu_data pdu) = 8 \<and> pdu_harmless pdu)"
proof -
  define d where "d = blit (g_pdu g) 0 (take (unat (pkt_byte_count p)) (pkt_data p))"
  have len: "length (pkt_data p) = 8" "unat (pkt_byte_count p) \<le> 8" "length (g_pdu g) = 8"
    using assms by (simp_all add: pkt_harmless_def garbage_ok_def)
  then have m: "memcpy (g_pdu g) 0 (pkt_data p) 0 (unat (pkt_byte_count p)) = Some d" by (simp add: d_def)
  have ld: "length d = 8" using len by (simp add: d_def)
  have "d = pkt_data p" if "pkt_byte_count p = 8" using that len by (simp add: d_def blit_all)
  then have h: "d ! 0 \<noteq> TP_CM_RTS \<and> (d ! 0 = TP_CM_BAM \<longrightarrow> 256 * unat (d ! 2) + unat (d ! 1) \<noteq> 127)"
    if "id_pf (pkt_identifier p) < 240" "id_pgn (pkt_identifier p) AND 0xFF00 = TP_CM"
    using assms(1) that by (simp add: pkt_harmless_def)
  have no: "id_pgn (pkt_identifier p) \<noteq> TP_CM" if "\<not> id_pf (pkt_identifier p) < 240"
  proof
    assume "id_pgn (pkt_identifier p) = TP_CM"
    then have "unat (id_pgn (pkt_identifier p)) = 60416" by (simp add: TP_CM_def)
    then have x: "unat (pkt_identifier p) div 256 mod 262144 = 60416" by (simp add: unat_id_pgn)
    have "y div 256 mod 256 = 236" if "y mod 262144 = 60416" for y :: nat
    proof -
      have "y mod 65536 = y mod 262144 mod 65536" by (simp add: mod_mod_cancel)
      then have "256 * (y div 256 mod 256) + y mod 256 = 60416" using that mod_mult2_eq [of y 256 256] by simp
      moreover have "y mod 256 < 256" by simp
      ultimately show ?thesis by linarith
    qed
    from this [OF x] have "unat (pkt_identifier p) div 65536 mod 256 = 236" by (simp add: div_mult2_eq [symmetric])
    then show False using that by (simp add: word_less_nat_alt unat_id_bytes)
  qed
  show ?thesis
  proof (cases "id_pf (pkt_identifier p) < 240")
    case True
    then show ?thesis using m ld h by (auto simp: dl_pdu_def Let_def pdu_harmless_def for_us_def announced_def)
  next
    case False
    then show ?thesis using m ld no by (auto simp: dl_pdu_def Let_def pdu_harmless_def for_us_def)
  qed
qed

section \<open>Sending\<close>

lemma send_loop:
  assumes "length xs = 8" and "length d = 8" and "i + n \<le> 8"
  shows "\<exists>d'. for_up i n (\<lambda>i d. do { b \<leftarrow> rd xs i; wr d i b }) d = Some d' \<and> length d' = 8 \<and>
     (\<forall>k<8. d' ! k = (if i \<le> k \<and> k < i + n then xs ! k else d ! k))"
  using assms(2,3)
proof (induction n arbitrary: i d)
  case (Suc n)
  obtain d' where "for_up (Suc i) n (\<lambda>i d. do { b \<leftarrow> rd xs i; wr d i b }) (d[i := xs ! i]) = Some d'" "length d' = 8"
      "\<forall>k<8. d' ! k = (if Suc i \<le> k \<and> k < Suc i + n then xs ! k else d[i := xs ! i] ! k)"
    using Suc.IH [of "d[i := xs ! i]" "Suc i"] Suc.prems by auto
  moreover have "k = i" if "\<not> Suc i \<le> k" "i \<le> k" for k using that by linarith
  ultimately show ?case using Suc.prems assms(1)
    by (intro exI [of _ d'] conjI allI impI) (auto simp: nth_list_update)
qed auto

text \<open>The packet a message is queued as.\<close>

definition queued :: "J1939_TX_MESSAGE \<Rightarrow> garbage \<Rightarrow> CAN_PACKET" where
  "queued m g = \<lparr>pkt_identifier = tx_identifier m,
     pkt_data = take (unat (tx_byte_count m)) (tx_data m) @ drop (unat (tx_byte_count m)) (g_pkt g),
     pkt_byte_count = ucast (tx_byte_count m), pkt_channel = tx_channel m\<rparr>"

lemma dl_tx_ok:
  assumes tx: "jl_holds 8 (j_tx s) tx" and m: "length (tx_data m) = 8" "unat (tx_byte_count m) \<le> 8" and g: "garbage_ok g"
  shows "if length tx < 7 then \<exists>l. j1939_dl_tx s m cb g = Some (s\<lparr>j_tx := l, j_primed := True\<rparr>, True) \<and> jl_holds 8 l (tx @ [queued m g])
     else j1939_dl_tx s m cb g = Some (s, False)"
proof -
  let ?n = "ucast (tx_byte_count m) :: u8"
  have n: "unat ?n = unat (tx_byte_count m)" using m(2) by (simp add: unsigned_ucast_eq take_bit_nat_eq_self)
  have lg: "length (g_pkt g) = 8" using g by (simp add: garbage_ok_def)
  obtain d where d: "for_up 0 (unat ?n) (\<lambda>i d. do { b \<leftarrow> rd (tx_data m) i; wr d i b }) (g_pkt g) = Some d" "length d = 8"
      "\<forall>k<8. d ! k = (if k < unat ?n then tx_data m ! k else g_pkt g ! k)"
    using send_loop [OF m(1) lg, of 0 "unat ?n"] m(2) n by auto
  have dq: "d = pkt_data (queued m g)"
    by (rule nth_equalityI) (use d lg m n in \<open>auto simp: queued_def nth_append\<close>)
  have full: "list_is_full (j_tx s) \<longleftrightarrow> length tx = 7"
    using tx list_is_full_iff [of "j_tx s"] by (auto simp: jl_holds_def)
  have le: "length tx \<le> 7" using tx jl_inv_facts(2) [of "j_tx s"] by (auto simp: jl_holds_def jl_contents_def)
  show ?thesis
  proof (cases "length tx < 7")
    case True
    obtain l where l: "list_put (j_tx s) (queued m g) = Some l" "jl_holds 8 l (tx @ [queued m g])"
      using list_put_holds [OF tx, of "queued m g"] True by auto
    have "\<lparr>pkt_identifier = tx_identifier m, pkt_data = d, pkt_byte_count = ?n, pkt_channel = tx_channel m\<rparr> = queued m g"
      by (simp add: dq queued_def)
    then have "j1939_dl_tx s m cb g = Some (s\<lparr>j_tx := l, j_primed := True\<rparr>, True)"
      using d(1) l(1) full True by (simp add: j1939_dl_tx_def Let_def)
    then have "\<exists>l. j1939_dl_tx s m cb g = Some (s\<lparr>j_tx := l, j_primed := True\<rparr>, True) \<and> jl_holds 8 l (tx @ [queued m g])"
      using l(2) by blast
    then show ?thesis using True by (simp only: if_True)
  next
    case False
    then show ?thesis using d(1) full le by (simp add: j1939_dl_tx_def Let_def)
  qed
qed

definition message_ok :: "J1939_TX_MESSAGE \<Rightarrow> bool" where
  "message_ok m \<longleftrightarrow> length (tx_data m) = 8"

lemma j_inv_tx:
  "j_inv s \<Longrightarrow> jl_holds 8 l tx \<Longrightarrow> \<forall>p\<in>set tx. length (pkt_data p) = 8 \<and> unat (pkt_byte_count p) \<le> 8 \<Longrightarrow> j_inv (s\<lparr>j_tx := l\<rparr>)"
  by (auto simp: j_inv_def al_waiting_def al_inv_def)

lemma send_inv:
  assumes i: "j_inv s" and m: "message_ok m" and g: "garbage_ok g"
  shows "\<exists>s' r. j1939_send s m g = Some (s', r) \<and> j_inv s'"
proof -
  have "\<exists>s' ok. j1939_tl_send s m (Some J1939_SVR_INACTIVE) g = Some (s', ok) \<and> j_inv s'"
  proof (cases "unat (tx_byte_count m) \<le> 8")
    case False
    then show ?thesis using i by (intro exI [of _ s] exI [of _ True]) (simp add: j1939_tl_send_def)
  next
    case True
    obtain tx where tx: "jl_holds 8 (j_tx s) tx" "\<forall>p\<in>set tx. length (pkt_data p) = 8 \<and> unat (pkt_byte_count p) \<le> 8"
      using i by (auto simp: j_inv_def)
    have m8: "length (tx_data m) = 8" using m by (simp add: message_ok_def)
    have q: "length (pkt_data (queued m g)) = 8" "unat (pkt_byte_count (queued m g)) \<le> 8"
      using True m8 g by (simp_all add: queued_def garbage_ok_def unsigned_ucast_eq take_bit_nat_eq_self)
    note t = dl_tx_ok [OF tx(1) m8 True g, of "Some J1939_SVR_INACTIVE"]
    show ?thesis
    proof (cases "length tx < 7")
      case True
      then obtain l where l: "j1939_dl_tx s m (Some J1939_SVR_INACTIVE) g = Some (s\<lparr>j_tx := l, j_primed := True\<rparr>, True)"
          "jl_holds 8 l (tx @ [queued m g])" using t by auto
      have "j_inv (s\<lparr>j_tx := l\<rparr>)" using j_inv_tx [OF i l(2)] tx(2) q by auto
      then have "j_inv (s\<lparr>j_tx := l, j_primed := True\<rparr>)" by (simp only: j_inv_out)
      then show ?thesis using l(1) \<open>unat (tx_byte_count m) \<le> 8\<close>
        by (intro exI [of _ "s\<lparr>j_tx := l, j_primed := True\<rparr>"] exI [of _ True]) (simp add: j1939_tl_send_def)
    next
      case False
      then show ?thesis using t i \<open>unat (tx_byte_count m) \<le> 8\<close>
        by (intro exI [of _ s] exI [of _ False]) (simp add: j1939_tl_send_def)
    qed
  qed
  then obtain s' ok where "j1939_tl_send s m (Some J1939_SVR_INACTIVE) g = Some (s', ok)" "j_inv s'" by blast
  then show ?thesis by (auto simp: j1939_send_def j1939_svr_active_def svr_notify_def j_inv_out)
qed

section \<open>The periodic function\<close>

lemma transmit_inv:
  assumes i: "j_inv s" and g: "garbage_ok g"
  shows "\<exists>s'. dl_transmit s g = Some s' \<and> j_inv s'"
proof (cases "j_primed s")
  case False
  then show ?thesis using i by (simp add: dl_transmit_def)
next
  case True
  obtain tx where tx: "jl_holds 8 (j_tx s) tx" "\<forall>p\<in>set tx. length (pkt_data p) = 8 \<and> unat (pkt_byte_count p) \<le> 8"
    using i by (auto simp: j_inv_def)
  have empty: "list_is_empty (j_tx s) \<longleftrightarrow> tx = []" using tx(1) list_is_empty_iff by (auto simp: jl_holds_def)
  show ?thesis
  proof (cases tx)
    case Nil
    then show ?thesis using True empty i
      by (auto simp: dl_transmit_def run_callback_def j1939_svr_inactive_def j_inv_out Let_def
          split: option.split FINISHED_CALLBACK.split)
  next
    case (Cons p ps)
    obtain l where l: "list_get (j_tx s) = Some (l, p)" "jl_holds 8 l ps"
      using list_get_holds [of 8 "j_tx s" p ps] tx(1) Cons by auto
    have "j_inv (s\<lparr>j_tx := l\<rparr>)" using j_inv_tx [OF i l(2)] tx(2) Cons by simp
    moreover have "length (pkt_data p) = 8" "unat (pkt_byte_count p) \<le> 8" using tx(2) Cons by simp_all
    ultimately show ?thesis
      using True empty l(1) g Cons by (simp add: dl_transmit_def j1939_hal_tx_def j_inv_out garbage_ok_def Let_def)
  qed
qed

lemma dl_periodic_inv:
  assumes i: "j_inv s" and g: "garbage_ok g"
  shows "\<exists>s'. j1939_dl_periodic s g = Some s' \<and> j_inv s'"
proof -
  obtain s1 where s1: "dl_transmit s g = Some s1" "j_inv s1" using transmit_inv [OF i g] by blast
  obtain rx where rx: "jl_holds 32 (j_rx s1) rx" "\<forall>p\<in>set rx. pkt_harmless p" using s1(2) by (auto simp: j_inv_def)
  have empty: "list_is_empty (j_rx s1) \<longleftrightarrow> rx = []" using rx(1) list_is_empty_iff by (auto simp: jl_holds_def)
  show ?thesis
  proof (cases rx)
    case Nil
    then show ?thesis using s1 empty by (simp add: j1939_dl_periodic_def)
  next
    case (Cons p ps)
    obtain l where l: "list_get (j_rx s1) = Some (l, p)" "jl_holds 32 l ps"
      using list_get_holds [of 32 "j_rx s1" p ps] rx(1) Cons by auto
    have i2: "j_inv (s1\<lparr>j_rx := l\<rparr>)" using j_inv_rx [OF s1(2) l(2)] rx(2) Cons by simp
    have p: "pkt_harmless p" "unat (pkt_channel p) < 2" using rx(2) Cons by (simp_all add: pkt_harmless_def)
    obtain po where po: "dl_pdu p g = Some po" "\<forall>pdu. po = Some pdu \<longrightarrow> length (pdu_data pdu) = 8 \<and> pdu_harmless pdu"
      using dl_pdu_inv [OF p(1) g] by blast
    show ?thesis
    proof (cases po)
      case None
      then show ?thesis using s1(1) empty l(1) po(1) Cons i2 by (simp add: j1939_dl_periodic_def Let_def)
    next
      case (Some pdu)
      then have "length (pdu_data pdu) = 8" "pdu_harmless pdu" using po(2) by simp_all
      then show ?thesis
        using tl_process_inv [OF i2 p(2) g] s1(1) empty l(1) po(1) Cons Some by (simp add: j1939_dl_periodic_def Let_def)
    qed
  qed
qed

lemma tl_channel_inv:
  assumes i: "j_inv s" and ch: "ch < 2"
  shows "\<exists>s'. tl_channel ch s = Some s' \<and> j_inv s'"
proof -
  let ?c = "j_ctx s ! ch"
  have n: "length (j_ctx s) = 2" using i by (simp add: j_inv_def)
  then have c: "ctx_ok ?c" "pdu_harmless (cx_pdu ?c)" using i ch by (simp_all add: j_inv_def)
  obtain ms where w: "al_waiting s ms" using i by (auto simp: j_inv_def)
  obtain c' l ms' where t: "tl_tick ?c s = Some (c', s\<lparr>j_al := l\<rparr>)" "ctx_ok c'"
      "cx_pdu c' = cx_pdu ?c \<or> pdu_PGN (cx_pdu c') \<noteq> TP_CM" "jl_holds 4 l ms'"
    using tick_total [OF c(1) w] c(2) by blast
  have "pdu_harmless (cx_pdu c')" using t(3) c(2) by (auto simp: pdu_harmless_def for_us_def)
  then have "j_inv ((s\<lparr>j_al := l\<rparr>)\<lparr>j_ctx := (j_ctx (s\<lparr>j_al := l\<rparr>))[ch := c']\<rparr>)"
    using j_inv_ctx [OF j_inv_al [OF i t(4)] ch t(2)] by blast
  then show ?thesis using t(1) n ch by (simp add: tl_channel_def tl_tick_def count_tick_def)
qed

lemma periodic_inv:
  assumes i: "j_inv s" and g: "garbage_ok g"
  shows "\<exists>s'. j1939_stk_periodic s g = Some s' \<and> j_inv s'"
proof -
  obtain s1 where s1: "j1939_dl_periodic s g = Some s1" "j_inv s1" using dl_periodic_inv [OF i g] by blast
  obtain s2 where s2: "tl_channel 0 s1 = Some s2" "j_inv s2" using tl_channel_inv [OF s1(2), of 0] by auto
  obtain s3 where s3: "tl_channel 1 s2 = Some s3" "j_inv s3" using tl_channel_inv [OF s2(2), of 1] by auto
  obtain ms where w: "al_waiting s3 ms" and a: "al_inv s3" using s3(2) by (auto simp: j_inv_def)
  obtain l where l: "j1939_al_periodic s3 = Some (s3\<lparr>j_al := l,
      j_out := j_out s3 @ (case ms of [] \<Rightarrow> [] | m # _ \<Rightarrow> concat (map (al_deliver m) (al_subs s3)))\<rparr>)" "jl_holds 4 l (tl ms)"
    using al_periodic_ok [OF w a] by blast
  have "j1939_tl_periodic s1 = Some s3"
    using s2(1) s3(1) by (simp only: j1939_tl_periodic_def HA_CHANNEL_SIZE_def for_up_two) simp
  then show ?thesis using s1(1) l(1) j_inv_al [OF s3(2) l(2)] by (simp add: j1939_stk_periodic_def j_inv_out)
qed

lemma subscribe_inv:
  assumes i: "j_inv s"
  shows "\<exists>s' r. j1939_subscribe s a p cb = Some (s', r) \<and> j_inv s'"
proof -
  have q: "al_inv s" "pgn_inv (j_pgn s)" "pgn_sorted (j_pgn s)" using i by (simp_all add: j_inv_def)
  obtain s' ok where r: "j1939_al_subscribe s a p cb = Some (s', ok)" "al_inv s'" "pgn_inv (j_pgn s')" "pgn_sorted (j_pgn s')"
      "s' = s\<lparr>j_pgn := j_pgn s', j_sub := j_sub s', j_cnt := j_cnt s'\<rparr>"
    using al_subscribe_ok [OF q, of a p cb] by blast
  have same: "j_rx s' = j_rx s" "j_tx s' = j_tx s" "j_al s' = j_al s" "j_ctx s' = j_ctx s"
    by (subst r(5), simp)+
  have "j_inv s'" using i r(2-4) same by (simp add: j_inv_def al_waiting_def)
  then show ?thesis using r(1) by (simp add: j1939_subscribe_def)
qed

end
