(* ===== verification/J1939Claims.thy ===== *)
theory J1939Claims imports J1939Inv begin

text \<open>
  What the J1939 stack guarantees, and what it does not: safety of every sequence of calls
  under the invariant, delivery of broadcasts, the way of a message through sender and
  receiver, and the situations in which the code hangs, leaves an array, or silently loses
  messages.
\<close>

section \<open>Sequences of calls\<close>

datatype j1939_call =
    CallReceive u8 can_msg
  | CallSend J1939_TX_MESSAGE
  | CallSubscribe u8 u32 "nat option"
  | CallPeriodic

fun j1939_do :: "j1939_call \<Rightarrow> garbage \<Rightarrow> J1939 \<Rightarrow> J1939 option" where
  "j1939_do (CallReceive ins m) g s = j1939_receive s ins m g"
| "j1939_do (CallSend m) g s = map_option fst (j1939_send s m g)"
| "j1939_do (CallSubscribe a p cb) g s = map_option fst (j1939_subscribe s a p cb)"
| "j1939_do CallPeriodic g s = j1939_stk_periodic s g"

fun j1939_run :: "(j1939_call \<times> garbage) list \<Rightarrow> J1939 \<Rightarrow> J1939 option" where
  "j1939_run [] s = Some s"
| "j1939_run ((c, g) # cs) s = do { s \<leftarrow> j1939_do c g s; j1939_run cs s }"

fun call_harmless :: "j1939_call \<Rightarrow> bool" where
  "call_harmless (CallReceive ins m) = frame_harmless m"
| "call_harmless (CallSend m) = message_ok m"
| "call_harmless _ = True"

lemma do_inv:
  assumes "j_inv s" and "call_harmless c" and "garbage_ok g"
  shows "\<exists>s'. j1939_do c g s = Some s' \<and> j_inv s'"
  using assms receive_inv send_inv subscribe_inv periodic_inv by (cases c) fastforce+

lemma run_inv:
  "j_inv s \<Longrightarrow> \<forall>(c, g)\<in>set cs. call_harmless c \<and> garbage_ok g \<Longrightarrow> \<exists>s'. j1939_run cs s = Some s' \<and> j_inv s'"
proof (induction cs arbitrary: s)
  case (Cons cg cs)
  obtain c g where cg: "cg = (c, g)" by force
  obtain s1 where "j1939_do c g s = Some s1" "j_inv s1" using do_inv [of s c g] Cons.prems cg by auto
  then show ?case using Cons.IH [of s1] Cons.prems cg by simp
qed simp

lemma ready_inv:
  assumes "rx_ready s 0" and "quiet (j_ctx s ! 0)" and "jl_holds 8 (j_tx s) []"
  shows "j_inv s"
proof -
  have n: "length (j_ctx s) = 2" "quiet (j_ctx s ! 1)" using assms(1) by (simp_all add: rx_ready_def)
  then obtain c d where cd: "j_ctx s = [c, d]" by (auto simp: numeral_2_eq_2 length_Suc_conv)
  then have q: "quiet c" "quiet d" using n(2) assms(2) by simp_all
  have "ctx_ok e \<and> pdu_harmless (cx_pdu e)" if "quiet e" for e
    using that by (simp add: quiet_def ctx_ok_def pdu_harmless_def)
  then show ?thesis using assms q cd by (auto simp: j_inv_def rx_ready_def)
qed

lemma init_inv: "\<exists>s. j1939_stk_init (boot_state h) = Some s \<and> j_inv s"
  using init_ready [of 0 h] ready_inv by auto

text \<open>C27: After start-up, any sequence of receptions, transmissions, subscriptions and periodic calls
  returns: no call leaves an array and none runs forever, and the queues, the filter table
  and the reassembly contexts stay well formed, provided no received frame is a connection
  request to this node or to all, an announcement of exactly 127 bytes, or a frame of the
  connection management shorter than eight bytes.\<close>

theorem j1939_calls_return:
  assumes "\<forall>(c, g)\<in>set cs. call_harmless c \<and> garbage_ok g"
  shows "\<exists>s0 s. j1939_stk_init (boot_state h) = Some s0 \<and> j_inv s0 \<and> j1939_run cs s0 = Some s \<and> j_inv s"
  using init_inv run_inv [OF _ assms] by blast

theorem j1939_calls_return_witness:
  "\<exists>s0 s. j1939_stk_init (boot_state True) = Some s0 \<and>
     j1939_run [(CallSubscribe 0 0xFECA (Some 1), \<lparr>g_pkt = replicate 8 7, g_pdu = replicate 8 7, g_msg = replicate 128 7\<rparr>),
       (CallReceive 0 \<lparr>can_id = 0x98FECA21, can_ins = 0, can_len = 3, can_data = [1, 2, 3, 0, 0, 0, 0, 0]\<rparr>,
         \<lparr>g_pkt = replicate 8 7, g_pdu = replicate 8 7, g_msg = replicate 128 7\<rparr>),
       (CallPeriodic, \<lparr>g_pkt = replicate 8 7, g_pdu = replicate 8 7, g_msg = replicate 128 7\<rparr>)] s0 = Some s \<and> j_inv s"
proof -
  let ?g = "\<lparr>g_pkt = replicate 8 7, g_pdu = replicate 8 7, g_msg = replicate 128 7\<rparr>"
  let ?m = "\<lparr>can_id = 0x98FECA21, can_ins = 0, can_len = 3, can_data = [1, 2, 3, 0, 0, 0, 0, 0]\<rparr>"
  have "frame_harmless ?m"
    by (simp add: frame_harmless_def j1939_consts id_pf_def id_pgn_def Let_def)
  then have "\<forall>(c, g)\<in>set [(CallSubscribe 0 0xFECA (Some 1), ?g), (CallReceive 0 ?m, ?g), (CallPeriodic, ?g)].
      call_harmless c \<and> garbage_ok g"
    by (simp add: garbage_ok_def)
  from j1939_calls_return [OF this, of True] show ?thesis by blast
qed

section \<open>Broadcasts\<close>

text \<open>C28: A broadcast of at most 126 bytes reaches its subscribers. When the announcement is followed
  by its packets in order, at most 75 empty periodic calls pass before the first packet and
  any number between the others, then every frame is processed without fault, no call delivers
  anything early, and the last packet makes the stack call exactly the subscribers of the
  announced group and source, in the order they subscribed, with the announced length and with
  the bytes of the packets; afterwards the channel waits for the next message.\<close>

theorem j1939_broadcast_delivered:
  assumes "rx_ready s (unat ins)" and "quiet (j_ctx s ! unat ins)" and "garbage_ok g"
    and "prio < 8" and "dst = GLOBADDR \<or> dst = NODEADDR"
    and "j1939_pgn_filter (j_pgn s) src (TP_CM + ucast dst) = Some True"
    and "j1939_pgn_filter (j_pgn s) src (TP_DT + ucast dst) = Some True"
    and "unat n \<le> 126" and "unat n \<le> 7 * unat k" and "0 < unat k" and "unat k \<le> 36"
    and "length ps = unat k" and "\<forall>p\<in>set ps. length (fst p) = 7" and "d \<le> 75"
    and "(ucast pgn :: u32) \<notin> {REQUEST_FOR_ADDRESS_CLAIMED, ADDRESS_CLAIMED, COMMANDED_ADDRESS}"
  shows "\<exists>s' data. broadcast ins prio src dst n k pgn d ps s g = Some s' \<and>
     rx_ready s' (unat ins) \<and> quiet (j_ctx s' ! unat ins) \<and> al_subs s' = al_subs s \<and>
     length data = 128 \<and> take (unat n) data = take (unat n) (concat (map fst ps)) \<and>
     j_out s' = j_out s @ concat (map (al_deliver \<lparr>msg_PGN = ucast pgn, msg_data = data, msg_byte_count = n,
       msg_source_addr = src, msg_dest_addr = dst\<rparr>) (al_subs s))"
proof -
  obtain s' c' m where b: "broadcast ins prio src dst n k pgn d ps s g = Some s'" "quiet c'"
      "step_to s (unat ins) c' (passed (Some m)) s'" "bam_result pgn n src dst (concat (map fst ps)) m"
    using broadcast_ok [OF assms(1-14), of pgn] by blast
  have m: "\<lparr>msg_PGN = ucast pgn, msg_data = msg_data m, msg_byte_count = n, msg_source_addr = src, msg_dest_addr = dst\<rparr> = m"
    using b(4) by (cases m) (simp add: bam_result_def)
  have "passed (Some m) = [m]" using b(4) assms(15) by (simp add: passed_def nml_passes_def bam_result_def)
  then have "j_out s' = j_out s @ concat (map (al_deliver m) (al_subs s))" using b(3) by (simp add: step_to_def delivery_def)
  then show ?thesis
    using b by (intro exI [of _ s'] exI [of _ "msg_data m"]) (simp add: step_to_def bam_result_def m)
qed

theorem j1939_broadcast_delivered_witness:
  "\<exists>s s' data g. broadcast 0 7 0x21 0xFF 10 2 0xFECA 3 [([1, 2, 3, 4, 5, 6, 7], 0), ([8, 9, 10, 0xFF, 0xFF, 0xFF, 0xFF], 200)] s g = Some s' \<and>
     al_subs s = [\<lparr>sub_sa = 0x21, sub_pgn = 0xFECA, sub_cb = Some 5\<rparr>] \<and>
     take 10 data = [1, 2, 3, 4, 5, 6, 7, 8, 9, 10] \<and> j_out s' = j_out s @ [Deliver 5 data 10 0x21 0xFECA]"
proof -
  let ?g = "\<lparr>g_pkt = replicate 8 7, g_pdu = replicate 8 7, g_msg = replicate 128 7\<rparr>"
  obtain s0 where s0: "rx_ready s0 0" "quiet (j_ctx s0 ! 0)" "al_subs s0 = []"
      "\<And>a p. j1939_pgn_filter (j_pgn s0) a p = Some (pgn_accepts default_table a p)"
    using init_ready [of 0 True] by auto
  let ?e = "\<lparr>sub_sa = 0x21, sub_pgn = 0xFECA, sub_cb = Some 5\<rparr>"
  define s where "s = s0\<lparr>j_sub := (j_sub s0)[0 := ?e], j_cnt := 1\<rparr>"
  have c0: "unat (j_cnt s0) = 0" "length (j_sub s0) = 10"
    using s0(1,3) by (auto simp: rx_ready_def al_inv_def al_subs_def AL_SUBSCRIBE_CNT_MAX_def)
  have subs: "al_subs s = [?e]" using c0 by (cases "j_sub s0") (simp_all add: al_subs_def s_def)
  have r: "rx_ready s (unat (0 :: u8))"
    using s0(1) c0 by (simp add: s_def rx_ready_def al_waiting_def al_inv_def AL_SUBSCRIBE_CNT_MAX_def)
  have q: "quiet (j_ctx s ! unat (0 :: u8))" using s0(2) by (simp add: s_def)
  have f: "j1939_pgn_filter (j_pgn s) 0x21 (TP_CM + ucast (0xFF :: u8)) = Some True"
    "j1939_pgn_filter (j_pgn s) 0x21 (TP_DT + ucast (0xFF :: u8)) = Some True"
    by (simp_all add: s_def s0(4) pgn_accepts_def pgn_entries_def default_table_def default_pgns_def pgn_key_def pgn_match_def j1939_consts)
  obtain s' data where "broadcast 0 7 0x21 0xFF 10 2 0xFECA 3 [([1, 2, 3, 4, 5, 6, 7], 0), ([8, 9, 10, 0xFF, 0xFF, 0xFF, 0xFF], 200)] s ?g = Some s'"
      "take 10 data = [1, 2, 3, 4, 5, 6, 7, 8, 9, 10]"
      "j_out s' = j_out s @ concat (map (al_deliver \<lparr>msg_PGN = 0xFECA, msg_data = data, msg_byte_count = 10,
       msg_source_addr = 0x21, msg_dest_addr = 0xFF\<rparr>) [?e])"
    using j1939_broadcast_delivered [OF r q _ _ _ f, of ?g 7 10 2 "[([1, 2, 3, 4, 5, 6, 7], 0), ([8, 9, 10, 0xFF, 0xFF, 0xFF, 0xFF], 200)]" 3 "0xFECA"]
    by (auto simp: garbage_ok_def j1939_consts subs)
  then show ?thesis using subs
    by (intro exI [of _ s] exI [of _ s'] exI [of _ data] exI [of _ ?g]) (simp add: al_deliver_def)
qed

text \<open>Once the first packet of a broadcast has arrived, the session is never given up: whatever the
  number of periodic calls without the next packet, the channel stays in the session, since
  the old packet keeps hiding the time-out; and an announcement that replaces that packet
  more than 75 ticks after it is thrown away together with the session.\<close>

theorem j1939_session_no_timeout:
  assumes "rx_ready s ch" and "receiving (j_ctx s ! ch) D (Suc j)"
    and "pdu_PGN (cx_pdu (j_ctx s ! ch)) = TP_DT" and "pdu_data (cx_pdu (j_ctx s ! ch)) ! 0 = 0"
  shows "\<exists>s'. idle_calls d s g = Some s' \<and> receiving (j_ctx s' ! ch) D (Suc j) \<and>
     sm_status (cx_machine (j_ctx s' ! ch)) = WAIT_FOR_DATA \<and>
     (\<forall>p s''. pdu_PGN p = TP_CM \<and> unat (sm_timer_counter (cx_machine (j_ctx s' ! ch)) + 1) > 75 \<longrightarrow>
        (\<exists>c. tl_tick ((j_ctx s' ! ch)\<lparr>cx_pdu := p\<rparr>) s'' = Some (c, s'') \<and> cx_machine c = zero_machine \<and> cx_pdu c = zero_pdu))"
proof -
  let ?c = "(count_tick ^^ d) (j_ctx s ! ch)"
  obtain s' where s': "idle_calls d s g = Some s'" "step_to s ch ?c [] s'"
    using idle_receiving [OF assms(1,2), of d g] assms(3,4) by blast
  have c: "j_ctx s' ! ch = ?c" "receiving ?c D (Suc j)" using s'(2) count_ticks(1) [OF assms(2)] by (simp_all add: step_to_def)
  have st: "sm_status (cx_machine ?c) = WAIT_FOR_DATA" using receiving_facts [OF c(2)] by simp
  have "\<exists>c. tl_tick (?c\<lparr>cx_pdu := p\<rparr>) s'' = Some (c, s'') \<and> cx_machine c = zero_machine \<and> cx_pdu c = zero_pdu"
    if "pdu_PGN p = TP_CM" "unat (sm_timer_counter (cx_machine ?c) + 1) > 75" for p s''
    using tick_no_data [of "?c\<lparr>cx_pdu := p\<rparr>" s''] st that by (simp add: j1939_consts)
  then show ?thesis using s'(1) c st by (intro exI [of _ s']) auto
qed

theorem j1939_session_no_timeout_witness:
  "\<exists>s s' D g. idle_calls 100000 s g = Some s' \<and> receiving (j_ctx s' ! 0) D 1"
proof -
  let ?g = "\<lparr>g_pkt = replicate 8 7, g_pdu = replicate 8 7, g_msg = replicate 128 7\<rparr>"
  obtain s0 where s0: "rx_ready s0 0" using init_ready [of 0 True] by auto
  define c where "c = \<lparr>cx_machine = zero_machine\<lparr>sm_status := WAIT_FOR_DATA, sm_TP := TP_CM_BAM, sm_packet_number := 1,
      sm_total_packet_number := 2, sm_byte_count := 10\<rparr>, cx_pdu = zero_pdu\<lparr>pdu_PGN := TP_DT\<rparr>, cx_msg = zero_msg\<lparr>msg_byte_count := 10\<rparr>\<rparr>"
  define s where "s = s0\<lparr>j_ctx := (j_ctx s0)[0 := c]\<rparr>"
  have r: "receiving c (replicate 128 0) 1"
    by (auto simp: receiving_def ctx_ok_def c_def zero_machine_def zero_pdu_def zero_msg_def)
  have rs: "rx_ready s 0" "j_ctx s ! 0 = c" using s0 by (auto simp: s_def rx_ready_def al_waiting_def al_inv_def)
  have "pdu_PGN (cx_pdu c) = TP_DT" "pdu_data (cx_pdu c) ! 0 = 0" by (simp_all add: c_def zero_pdu_def)
  then show ?thesis
    using j1939_session_no_timeout [of s 0 "replicate 128 0" 0 100000 ?g] rs r by auto
qed

section \<open>Frames that stop the stack\<close>

definition rts_msg :: "u8 \<Rightarrow> u8 \<Rightarrow> u8 \<Rightarrow> u8 list \<Rightarrow> J1939_TX_MESSAGE" where
  "rts_msg prio src dst xs = \<lparr>tx_PGN = TP_CM, tx_data = TP_CM_RTS # xs, tx_byte_count = 8,
     tx_priority = prio, tx_dest_addr = dst, tx_sa_addr = src, tx_channel = 0\<rparr>"

lemma tl_periodic_none:
  assumes n: "length (j_ctx s) = 2" and ch: "ch < 2" and other: "quiet (j_ctx s ! (1 - ch))"
    and t: "\<And>s. tl_tick (j_ctx s0 ! ch) s = None" and w: "al_waiting s []" and c: "j_ctx s0 ! ch = j_ctx s ! ch"
  shows "j1939_tl_periodic s = None"
proof -
  have none: "tl_channel ch s1 = None" if "j_ctx s1 ! ch = j_ctx s ! ch" "length (j_ctx s1) = 2" for s1
    using that t ch c by (simp add: tl_channel_def tl_tick_def count_tick_def)
  consider "ch = 0" | "ch = 1" using ch by linarith
  then show ?thesis
  proof cases
    case 1
    then show ?thesis using none [of s] n by (simp add: j1939_tl_periodic_def HA_CHANNEL_SIZE_def for_up_two)
  next
    case 2
    obtain l where l: "tl_channel 0 s = Some (s\<lparr>j_al := l, j_ctx := (j_ctx s)[0 := count_tick (j_ctx s ! 0)]\<rparr>)"
      using tl_channel_ok [of 0 s "count_tick (j_ctx s ! 0)" None "[]"] n w other 2 quiet_tick(1) by auto
    then show ?thesis
      using none [of "s\<lparr>j_al := l, j_ctx := (j_ctx s)[0 := count_tick (j_ctx s ! 0)]\<rparr>"] n 2
      by (simp add: j1939_tl_periodic_def HA_CHANNEL_SIZE_def for_up_two)
  qed
qed

text \<open>C29: A single connection request (\<open>RTS\<close>) that passes the filter and is addressed to this node
  or to all stops the stack: the periodic call that processes it does not return, because
  the state machine reaches a state whose round of the loop changes nothing and asks for
  another round.\<close>

theorem j1939_rts_hangs:
  assumes "rx_ready s (unat ins)" and "quiet (j_ctx s ! unat ins)" and "garbage_ok g"
    and "prio < 8" and "dst = GLOBADDR \<or> dst = NODEADDR" and "length xs = 7"
    and "j1939_pgn_filter (j_pgn s) src (TP_CM + ucast dst) = Some True"
  shows "frame_call s ins (rts_msg prio src dst xs) g = None \<and>
     (\<exists>c. sm_status (cx_machine c) = INIT_REASSEMBLE_STRUCTURE \<and>
      cx_pdu c = rx_pdu (rts_msg prio src dst xs) \<and> (\<forall>s'. tl_step c s' = Some ((c, True), s')))"
proof -
  let ?m = "rts_msg prio src dst xs"
  have p: "tx_proper ?m" using assms(4) by (simp add: tx_proper_def rts_msg_def j1939_consts)
  have a: "admitted s ?m"
    using p assms(5-7) id_roundtrip(3) [OF p] by (simp add: admitted_def rts_msg_def j1939_consts)
  define c where "c = (j_ctx s ! unat ins)\<lparr>cx_pdu := rx_pdu ?m\<rparr>"
  have c: "sm_status (cx_machine c) = WAIT_FOR_MESSAGE" "length (pdu_data (cx_pdu c)) = 8" "for_us (cx_pdu c)"
      "pdu_data (cx_pdu c) ! 0 = TP_CM_RTS"
    using assms(2,5,6) by (auto simp: c_def quiet_def rx_pdu_def rts_msg_def for_us_def j1939_consts)
  have stuck: "\<exists>c. sm_status (cx_machine c) = INIT_REASSEMBLE_STRUCTURE \<and> cx_pdu c = rx_pdu ?m \<and> (\<forall>s'. tl_step c s' = Some ((c, True), s'))"
    using tick_rts(2) [OF c] by (intro exI [of _ "started c"]) (simp add: c_def)
  obtain l where l: "jl_holds 32 l []" "frame_call s ins ?m g =
     do { s \<leftarrow> j1939_tl_process (s\<lparr>j_rx := l\<rparr>) ins (rx_pdu ?m) g; s \<leftarrow> j1939_tl_periodic s; j1939_al_periodic s }"
    using frame_to_tl [OF assms(1) a assms(3)] by blast
  let ?t = "s\<lparr>j_rx := l, j_ctx := (j_ctx s)[unat ins := c]\<rparr>"
  have n: "length (j_ctx s) = 2" "unat ins < 2" "quiet (j_ctx s ! (1 - unat ins))" "al_waiting s []"
    using assms(1) by (simp_all add: rx_ready_def)
  have "length (pdu_data (cx_pdu (j_ctx s ! unat ins))) = 8" using assms(2) by (simp add: quiet_def)
  then have "j1939_tl_process (s\<lparr>j_rx := l\<rparr>) ins (rx_pdu ?m) g = Some ?t"
    using n assms(6) by (simp add: j1939_tl_process_def rx_pdu_def NUMBER_PDU_BUFFERS_def blit_all rts_msg_def c_def)
  moreover have "1 - unat ins \<noteq> unat ins" by presburger
  then have "j1939_tl_periodic ?t = None"
    using n tick_rts(3) [OF c] by (intro tl_periodic_none [of ?t "unat ins" ?t]) (simp_all add: al_waiting_def)
  ultimately show ?thesis using l(2) stuck by simp
qed

theorem j1939_rts_hangs_witness:
  "\<exists>s g. j1939_stk_init (boot_state True) = Some s \<and>
     frame_call s 1 (rts_msg 6 0x21 0xD8 [9, 0, 2, 0xFF, 0xCA, 0xFE, 0]) g = None"
proof -
  let ?g = "\<lparr>g_pkt = replicate 8 7, g_pdu = replicate 8 7, g_msg = replicate 128 7\<rparr>"
  obtain s where s: "j1939_stk_init (boot_state True) = Some s" "rx_ready s (unat (1 :: u8))" "quiet (j_ctx s ! unat (1 :: u8))"
      "\<And>a p. j1939_pgn_filter (j_pgn s) a p = Some (pgn_accepts default_table a p)"
    using init_ready [of 1 True] by auto
  have f: "j1939_pgn_filter (j_pgn s) 0x21 (TP_CM + ucast (0xD8 :: u8)) = Some True"
    by (simp add: s(4) pgn_accepts_def pgn_entries_def default_table_def default_pgns_def pgn_key_def pgn_match_def j1939_consts)
  have "garbage_ok ?g" by (simp add: garbage_ok_def)
  then have "frame_call s 1 (rts_msg 6 0x21 0xD8 [9, 0, 2, 0xFF, 0xCA, 0xFE, 0]) ?g = None"
    using j1939_rts_hangs [OF s(2,3) _ _ _ _ f, of ?g 6 "[9, 0, 2, 0xFF, 0xCA, 0xFE, 0]"] by (simp add: j1939_consts)
  then show ?thesis using s(1) by blast
qed

text \<open>An announcement of 127 bytes is accepted, although the buffer has 128 bytes and saving a packet
  writes up to two bytes beyond the announced end: when the 19th packet arrives in order, the
  copy loop writes byte 128, one past the end of the buffer.\<close>

theorem bam_127_overflows:
  assumes "sm_status (cx_machine c) = WAIT_FOR_DATA" and "sm_TP (cx_machine c) = TP_CM_BAM"
    and "sm_byte_count (cx_machine c) = 127" and "sm_packet_number (cx_machine c) = 18"
    and "length (msg_data (cx_msg c)) = 128" and "cx_pdu c = dt_pdu (sm_source_addr (cx_machine c)) (sm_dest_addr (cx_machine c)) 8 19 xs"
    and "length xs = 7"
  shows "tl_tick c s = None \<and>
     (\<exists>d. sm_status (cx_machine d) = SAVE_DATA \<and> sm_packet_number (cx_machine d) = 18 \<and> cx_msg d = cx_msg c \<and>
        length (pdu_data (cx_pdu d)) = 8 \<and> save_data d = None)"
proof -
  define d where "d = (reset_timer (set_status SAVE_DATA (set_status CHECK_DATA_PACKET (count_tick c))))
     \<lparr>cx_pdu := (cx_pdu c)\<lparr>pdu_data := (pdu_data (cx_pdu c))[0 := 0]\<rparr>\<rparr>"
  have p: "pdu_PGN (cx_pdu c) = TP_DT" "length (pdu_data (cx_pdu c)) = 8" "from_partner c" "expected c"
    using assms(4,6,7) by (simp_all add: dt_pdu_def from_partner_def expected_def)
  have t: "tl_tick c s = tl_loop d s"
    unfolding d_def using tick_data [OF assms(1,2) p(1,2)] p(3,4) by simp
  have d: "sm_status (cx_machine d) = SAVE_DATA" "sm_packet_number (cx_machine d) = 18" "cx_msg d = cx_msg c"
      "length (pdu_data (cx_pdu d)) = 8" "sm_byte_count (cx_machine d) = 127"
    using assms p by (simp_all add: d_def)
  have "save_loop 0 (Suc (Suc (Suc n))) (sm_packet_number (cx_machine d) * 7) d = None" for n
    using d assms(5) by (simp add: Let_def rd_def wr_def)
  from this [of 4] have "save_loop 0 7 (sm_packet_number (cx_machine d) * 7) d = None" by simp
  then have sv: "save_data d = None" by (simp add: save_data_def)
  then have "tl_loop d s = None" using d(1) by (subst tl_loop.simps) (simp add: tl_step_def)
  then show ?thesis using t d sv by auto
qed

theorem bam_127_overflows_witness:
  "\<exists>c. sm_byte_count (cx_machine c) = 127 \<and> length (msg_data (cx_msg c)) = 128 \<and> (\<forall>s. tl_tick c s = None)"
proof -
  define c where "c = \<lparr>cx_machine = zero_machine\<lparr>sm_status := WAIT_FOR_DATA, sm_TP := TP_CM_BAM, sm_packet_number := 18,
      sm_total_packet_number := 19, sm_byte_count := 127\<rparr>, cx_pdu = dt_pdu 0 0 8 19 (replicate 7 1), cx_msg = zero_msg\<lparr>msg_byte_count := 127\<rparr>\<rparr>"
  have "tl_tick c s = None" for s
    using bam_127_overflows [of c "replicate 7 1" s] by (simp add: c_def zero_machine_def zero_msg_def)
  then show ?thesis by (intro exI [of _ c]) (simp add: c_def zero_msg_def)
qed

section \<open>From sender to receiver\<close>

text \<open>C30: A message of exactly eight bytes with a well-formed group, sent when the transmit queue is
  empty, is put on the bus by the next periodic call as one extended frame; a receiving stack
  takes this frame apart into the group, source, destination and bytes of the message, drops
  it when it is addressed to another node, and passes to its filter the group with, for
  addressed groups, the destination added.\<close>

theorem j1939_send_receive:
  assumes "jl_holds 8 (j_tx s) []" and "tx_proper m" and "length (tx_data m) = 8" and "tx_byte_count m = 8"
    and "tx_identifier m > 0x7FF" and "garbage_ok g" and "garbage_ok g'"
  shows "(\<exists>s1 s2. j1939_send s m g = Some (s1, 0) \<and> dl_transmit s1 g = Some s2 \<and> jl_holds 8 (j_tx s2) [] \<and>
       j_out s2 = j_out s @ [CanIfSend (tx_frame m (tx_channel m))]) \<and>
     (\<forall>r ch. unat ch < 2 \<longrightarrow> j1939_hal_rx r ch (tx_frame m (tx_channel m)) g' = j1939_dl_process r (tx_packet m ch)) \<and>
     id_source (tx_identifier m) = tx_sa_addr m \<and>
     id_pgn (tx_identifier m) = (if tx_PGN m < 0xF000 then tx_PGN m + ucast (tx_dest_addr m) else tx_PGN m) \<and>
     (\<forall>ch. dl_pdu (tx_packet m ch) g' =
        Some (if tx_PGN m < 0xF000 \<and> tx_dest_addr m \<noteq> GLOBADDR \<and> tx_dest_addr m \<noteq> NODEADDR then None
              else Some \<lparr>pdu_PGN = tx_PGN m, pdu_data = tx_data m, pdu_byte_count = 8, pdu_source_addr = tx_sa_addr m,
                pdu_dest_addr = if tx_PGN m < 0xF000 then tx_dest_addr m else GLOBADDR\<rparr>))"
proof (intro conjI allI impI)
  obtain l where l: "j1939_dl_tx s m (Some J1939_SVR_INACTIVE) g = Some (s\<lparr>j_tx := l, j_primed := True\<rparr>, True)"
      "jl_holds 8 l [queued m g]"
    using dl_tx_ok [OF assms(1,3) _ assms(6), of "Some J1939_SVR_INACTIVE"] assms(4) by auto
  let ?s1 = "j1939_svr_active (s\<lparr>j_tx := l, j_primed := True\<rparr>)"
  have s1: "j1939_send s m g = Some (?s1, 0)" using l(1) assms(4) by (simp add: j1939_send_def j1939_tl_send_def)
  have f: "j_tx ?s1 = l" "j_primed ?s1" "j_out ?s1 = j_out s" by (simp_all add: j1939_svr_active_def svr_notify_def)
  have ne: "\<not> list_is_empty l" using l(2) list_is_empty_iff [of l] by (simp add: jl_holds_def)
  obtain k where k: "list_get l = Some (k, queued m g)" "jl_holds 8 k []" using list_get_holds [OF l(2)] by blast
  have q: "queued m g = tx_packet m (tx_channel m)"
    using assms(3,4,6) by (simp add: queued_def tx_packet_def garbage_ok_def)
  have "dl_transmit ?s1 g = Some (?s1\<lparr>j_tx := k, j_out := j_out s @ [CanIfSend (tx_frame m (tx_channel m))]\<rparr>)"
    using f ne k(1) assms(3-6)
    by (simp add: dl_transmit_def j1939_hal_tx_def q tx_packet_def tx_frame_def garbage_ok_def blit_all Let_def)
  then show "\<exists>s1 s2. j1939_send s m g = Some (s1, 0) \<and> dl_transmit s1 g = Some s2 \<and> jl_holds 8 (j_tx s2) [] \<and>
       j_out s2 = j_out s @ [CanIfSend (tx_frame m (tx_channel m))]"
    using s1 k(2) by (intro exI [of _ ?s1] exI [of _ "?s1\<lparr>j_tx := k, j_out := j_out s @ [CanIfSend (tx_frame m (tx_channel m))]\<rparr>"]) simp
next
  fix r and ch :: u8
  assume "unat ch < 2"
  moreover have "j1939_hal_rx r ch (tx_frame m (tx_channel m)) g' = j1939_hal_rx r ch (tx_frame m ch) g'"
    by (simp add: j1939_hal_rx_def tx_frame_def)
  ultimately show "j1939_hal_rx r ch (tx_frame m (tx_channel m)) g' = j1939_dl_process r (tx_packet m ch)"
    using hal_rx_frame [OF assms(2) _ assms(7,3,4), of ch r] by simp
next
  show "id_source (tx_identifier m) = tx_sa_addr m" by (rule id_roundtrip(2) [OF assms(2)])
  show "id_pgn (tx_identifier m) = (if tx_PGN m < 0xF000 then tx_PGN m + ucast (tx_dest_addr m) else tx_PGN m)"
    using id_roundtrip(3) [OF assms(2)] by (simp split: if_splits)
next
  fix ch
  show "dl_pdu (tx_packet m ch) g' =
        Some (if tx_PGN m < 0xF000 \<and> tx_dest_addr m \<noteq> GLOBADDR \<and> tx_dest_addr m \<noteq> NODEADDR then None
              else Some \<lparr>pdu_PGN = tx_PGN m, pdu_data = tx_data m, pdu_byte_count = 8, pdu_source_addr = tx_sa_addr m,
                pdu_dest_addr = if tx_PGN m < 0xF000 then tx_dest_addr m else GLOBADDR\<rparr>)"
    using dl_pdu_tx [OF assms(2,7,3,4), of ch] assms(4) by (simp add: rx_pdu_def)
qed

theorem j1939_send_receive_witness:
  "\<exists>s s1 s2 g. j1939_send s (j1939_request_msg 1 0xFEE5 0xFF 0xD8) g = Some (s1, 0) \<and> dl_transmit s1 g = Some s2 \<and>
     j_out s2 = j_out s @ [CanIfSend \<lparr>can_id = 0x98EAFFD8, can_ins = 1, can_len = 8,
       can_data = [0xE5, 0xFE, 0xFF, 0xFF, 0xFF, 0xFF, 0xFF, 0xFF]\<rparr>]"
proof -
  let ?g = "\<lparr>g_pkt = replicate 8 7, g_pdu = replicate 8 7, g_msg = replicate 128 7\<rparr>"
  let ?m = "j1939_request_msg 1 0xFEE5 0xFF 0xD8"
  obtain s :: J1939 where s: "jl_holds 8 (j_tx s) []" using init_ready [of 0 True] by auto
  have id: "tx_identifier ?m = 0x18EAFFD8"
    by (simp add: tx_identifier_def j1939_request_msg_def REQUEST_PGN_def push_bit_eq_mult Let_def)
  have m: "tx_proper ?m" "length (tx_data ?m) = 8" "tx_byte_count ?m = 8"
    by (simp_all add: tx_proper_def j1939_request_msg_def j1939_consts)
  have fr: "tx_frame ?m (tx_channel ?m) = \<lparr>can_id = 0x98EAFFD8, can_ins = 1, can_len = 8,
       can_data = [0xE5, 0xFE, 0xFF, 0xFF, 0xFF, 0xFF, 0xFF, 0xFF]\<rparr>"
    using id by (simp add: tx_frame_def DRV_CAN_EXTEND_ID_MASK_def) (simp add: j1939_request_msg_def drop_bit_eq_div)
  have g: "garbage_ok ?g" by (simp add: garbage_ok_def)
  have "tx_identifier ?m > 0x7FF" by (simp add: id)
  from conjunct1 [OF j1939_send_receive [OF s m this g g]] show ?thesis unfolding fr by blast
qed

text \<open>\<^verbatim>\<open>j1939_send\<close> reports success for a message of more than eight bytes and does nothing with
  it; a shorter message is refused exactly when seven are waiting and appended to them
  otherwise. No send stores the completion callback, so when the queue has run empty the
  service is never told.\<close>

theorem j1939_send_correct:
  assumes "jl_holds 8 (j_tx s) tx" and "length (tx_data m) = 8" and "garbage_ok g"
  shows "\<exists>s' r. j1939_send s m g = Some (s', r) \<and> j_txfcb s' = j_txfcb s \<and> j_out s' = j_out s \<and>
     (if unat (tx_byte_count m) > 8 then r = 0 \<and> j_tx s' = j_tx s \<and> j_primed s' = j_primed s
      else if length tx < 7 then r = 0 \<and> jl_holds 8 (j_tx s') (tx @ [queued m g]) \<and> j_primed s'
      else r = -1 \<and> s' = s) \<and>
     (j_txfcb s = None \<and> j_primed s' \<and> list_is_empty (j_tx s') \<longrightarrow>
        dl_transmit s' g = Some (s'\<lparr>j_primed := False\<rparr>))"
proof (cases "unat (tx_byte_count m) \<le> 8")
  case False
  then show ?thesis
    by (auto simp: j1939_send_def j1939_tl_send_def j1939_svr_active_def svr_notify_def dl_transmit_def Let_def)
next
  case True
  note t = dl_tx_ok [OF assms(1,2) True assms(3), of "Some J1939_SVR_INACTIVE"]
  show ?thesis
  proof (cases "length tx < 7")
    case less: True
    then obtain l where l: "j1939_dl_tx s m (Some J1939_SVR_INACTIVE) g = Some (s\<lparr>j_tx := l, j_primed := True\<rparr>, True)"
        "jl_holds 8 l (tx @ [queued m g])" using t by auto
    then have "j1939_send s m g = Some (j1939_svr_active (s\<lparr>j_tx := l, j_primed := True\<rparr>), 0)"
      using True by (simp add: j1939_send_def j1939_tl_send_def)
    then show ?thesis
      using True less l(2) by (auto simp: j1939_svr_active_def svr_notify_def dl_transmit_def Let_def)
  next
    case False
    then have "j1939_send s m g = Some (s, -1)" using t True by (simp add: j1939_send_def j1939_tl_send_def)
    then show ?thesis using True False by (auto simp: dl_transmit_def Let_def)
  qed
qed

theorem j1939_send_correct_witness:
  "\<exists>s s' g. jl_holds 8 (j_tx s) [] \<and>
     j1939_send s ((j1939_request_msg 1 0xFEE5 0xFF 0xD8)\<lparr>tx_byte_count := 9\<rparr>) g = Some (s', 0) \<and> j_tx s' = j_tx s"
proof -
  let ?g = "\<lparr>g_pkt = replicate 8 7, g_pdu = replicate 8 7, g_msg = replicate 128 7\<rparr>"
  let ?m = "(j1939_request_msg 1 0xFEE5 0xFF 0xD8)\<lparr>tx_byte_count := 9\<rparr>"
  obtain s :: J1939 where s: "jl_holds 8 (j_tx s) []" using init_ready [of 0 True] by auto
  have "length (tx_data ?m) = 8" "garbage_ok ?g" by (simp_all add: j1939_request_msg_def garbage_ok_def)
  from j1939_send_correct [OF s this] show ?thesis using s by auto
qed

section \<open>Subscriptions\<close>

text \<open>A subscription to an addressed group (one below 0xF000) alone never delivers anything: every
  frame the data link layer would pass up under that group is stopped by the filter, because
  the filter compares the group with the destination in its low byte, while the subscription
  put the group without it into the filter table.\<close>

theorem pdu1_subscription_dead:
  assumes "pgn_inv p" and "pgn_sorted p" and "grp < 0xF000"
    and "\<forall>e\<in>set (pgn_entries p). pgn_key e AND 0xFF00 = grp \<longrightarrow> pgn_key e = grp"
    and "dl_pdu pkt g = Some (Some pdu)" and "pdu_PGN pdu = grp"
  shows "j1939_pgn_filter p (id_source (pkt_identifier pkt)) (id_pgn (pkt_identifier pkt)) = Some False"
proof -
  let ?i = "pkt_identifier pkt"
  have pf: "id_pf ?i < 240"
  proof (rule ccontr)
    assume n: "\<not> id_pf ?i < 240"
    then have "id_pgn ?i = grp" using assms(5,6) by (auto simp: dl_pdu_def Let_def split: if_splits Option.bind_splits)
    then have "unat (id_pgn ?i) < 61440" using assms(3) by (simp add: word_less_nat_alt)
    then have "unat (id_pgn ?i) div 256 mod 256 < 240" by simp
    moreover have "unat (id_pgn ?i) div 256 mod 256 = unat (id_pf ?i)"
    proof -
      have "x mod 262144 div 256 mod 256 = x div 256 mod 256" for x :: nat
      proof -
        have "x mod (256 * 1024) = 256 * (x div 256 mod 1024) + x mod 256" by (rule mod_mult2_eq)
        then have "x mod 262144 div 256 = x div 256 mod 1024" by simp
        then show ?thesis by (simp add: mod_mod_cancel)
      qed
      then show ?thesis unfolding unat_id_pgn unat_id_bytes by (simp add: div_mult2_eq [symmetric])
    qed
    ultimately show False using n by (simp add: word_less_nat_alt)
  qed
  then have grp_eq: "id_pgn ?i AND 0xFF00 = grp"
    using assms(5,6) by (auto simp: dl_pdu_def Let_def split: if_splits Option.bind_splits)
  have ne: "id_pgn ?i \<noteq> grp" using pdu1_filter_key [OF assms(5) pf] assms(6) by simp
  obtain eo where eo: "j1939_pgn_filter p (id_source ?i) (id_pgn ?i) = Some (case eo of None \<Rightarrow> False | Some e \<Rightarrow> pgn_match (id_source ?i) e)"
      "case eo of None \<Rightarrow> id_pgn ?i \<notin> pgn_key ` set (pgn_entries p) | Some e \<Rightarrow> e \<in> set (pgn_entries p) \<and> pgn_key e = id_pgn ?i"
    using pgn_filter_ok [OF assms(1,2)] by blast
  show ?thesis
  proof (cases eo)
    case None
    then show ?thesis using eo(1) by simp
  next
    case (Some e)
    then show ?thesis using eo(2) assms(4) grp_eq ne by auto
  qed
qed

theorem pdu1_subscription_dead_witness:
  "\<exists>p pkt g. pgn_accepts p 0x21 0xEF00 \<and>
     dl_pdu pkt g = Some (Some \<lparr>pdu_PGN = 0xEF00, pdu_data = replicate 8 1, pdu_byte_count = 8, pdu_source_addr = 0x21, pdu_dest_addr = 0xD8\<rparr>) \<and>
     j1939_pgn_filter p 0x21 (id_pgn (pkt_identifier pkt)) = Some False"
proof -
  let ?g = "\<lparr>g_pkt = replicate 8 7, g_pdu = replicate 8 7, g_msg = replicate 128 7\<rparr>"
  define p where "p = \<lparr>table_count = 2, pgn_table = \<lparr>pgn_addr = 0, pgn_pgn = 0xEA00\<rparr> #
    \<lparr>pgn_addr = 0, pgn_pgn = 0xEF00\<rparr> # replicate 62 \<lparr>pgn_addr = 0, pgn_pgn = 0\<rparr>\<rparr>"
  define pkt where "pkt = \<lparr>pkt_identifier = 0x18EFD821, pkt_data = replicate 8 1, pkt_byte_count = 8, pkt_channel = 0\<rparr>"
  define pdu where "pdu = \<lparr>pdu_PGN = 0xEF00, pdu_data = replicate 8 1, pdu_byte_count = 8, pdu_source_addr = 0x21, pdu_dest_addr = 0xD8\<rparr>"
  have inv: "pgn_inv p" "pgn_sorted p"
    "\<forall>e\<in>set (pgn_entries p). pgn_key e AND 0xFF00 = 0xEF00 \<longrightarrow> pgn_key e = 0xEF00" "pgn_accepts p 0x21 0xEF00"
    by (simp_all add: p_def pgn_inv_def pgn_sorted_def pgn_entries_def PGN_TABLE_SIZE_def pgn_key_def pgn_accepts_def pgn_match_def)
  have d: "dl_pdu pkt ?g = Some (Some pdu)"
    by (simp add: dl_pdu_def pkt_def pdu_def id_pf_def id_ps_def id_pgn_def id_source_def j1939_consts Let_def blit_all drop_bit_eq_div)
  have "id_source (pkt_identifier pkt) = 0x21" by (simp add: pkt_def id_source_def)
  then have "j1939_pgn_filter p 0x21 (id_pgn (pkt_identifier pkt)) = Some False"
    using pdu1_subscription_dead [OF inv(1,2) _ inv(3) d] by (simp add: pdu_def)
  then show ?thesis using inv(4) d unfolding pdu_def by blast
qed

lemma subscribe_table:
  assumes "j1939_al_subscribe s a q cb = Some (s', True)"
  shows "j1939_pgn_filter (j_pgn s) a q = Some True \<and> j_pgn s' = j_pgn s \<or>
     j1939_pgn_filter (j_pgn s) a q = Some False \<and> j1939_pgn_add (j_pgn s) a q = Some (j_pgn s', True)"
proof -
  obtain known where k: "j1939_pgn_filter (j_pgn s) a q = Some known"
    using assms by (auto simp: j1939_al_subscribe_def split: Option.bind_splits)
  show ?thesis
    using assms k by (cases known) (auto simp: j1939_al_subscribe_def Let_def split: Option.bind_splits if_splits)
qed

lemma add_entries:
  assumes "pgn_inv p" and "j1939_pgn_add p a q = Some (p', True)" and "pgn_sorted p"
  shows "set (pgn_entries p') = insert \<lparr>pgn_addr = a, pgn_pgn = ucast q\<rparr> (set (pgn_entries p))"
    and "pgn_inv p'" and "pgn_sorted p'" and "pgn_key \<lparr>pgn_addr = a, pgn_pgn = ucast q\<rparr> = q"
proof -
  let ?e = "\<lparr>pgn_addr = a, pgn_pgn = ucast q\<rparr>"
  have lt: "q \<le> DL_PGN_MASK" "unat (table_count p) < PGN_TABLE_SIZE"
    using assms(2) pgn_add_refused [of q p a] by (cases "q \<le> DL_PGN_MASK"; cases "unat (table_count p) < PGN_TABLE_SIZE"; simp add: not_less not_le)+
  obtain k where k: "pgn_inv p'" "k \<le> length (pgn_entries p)"
      "pgn_entries p' = take k (pgn_entries p) @ ?e # drop k (pgn_entries p)"
      "\<forall>j<k. pgn_key (pgn_entries p ! j) \<le> q" "k < length (pgn_entries p) \<longrightarrow> q < pgn_key (pgn_entries p ! k)"
    using pgn_add_ok [OF assms(1) lt, of a] assms(2) by auto
  have "set (pgn_entries p') = insert ?e (set (take k (pgn_entries p) @ drop k (pgn_entries p)))"
    unfolding k(3) by (simp only: set_append list.set Un_insert_right)
  then show "set (pgn_entries p') = insert ?e (set (pgn_entries p))" by (simp only: append_take_drop_id)
  show "pgn_inv p'" by (rule k(1))
  show key: "pgn_key ?e = q" by (rule pgn_key_store [OF lt(1)])
  show "pgn_sorted p'"
    using assms(3) pgn_add_sorted [OF _ k(2) key k(4,5)] by (simp add: pgn_sorted_def k(3))
qed

text \<open>Two subscriptions to one group from two different sources both succeed, but the filter lets
  frames of at most one of the sources through: the table then holds two entries for the group
  and the bisection looks at one of them only.\<close>

theorem two_sources_one_heard:
  assumes "al_inv s" and "pgn_inv (j_pgn s)" and "pgn_sorted (j_pgn s)" and "q \<notin> pgn_key ` set (pgn_entries (j_pgn s))"
    and "a \<noteq> b" and "a \<noteq> 0" and "b \<noteq> 0"
    and "j1939_al_subscribe s a q c1 = Some (s1, True)" and "j1939_al_subscribe s1 b q c2 = Some (s2, True)"
  shows "\<not> (j1939_pgn_filter (j_pgn s2) a q = Some True \<and> j1939_pgn_filter (j_pgn s2) b q = Some True)"
proof -
  obtain eo where eo: "j1939_pgn_filter (j_pgn s) a q = Some (case eo of None \<Rightarrow> False | Some e \<Rightarrow> pgn_match a e)"
      "case eo of None \<Rightarrow> q \<notin> pgn_key ` set (pgn_entries (j_pgn s)) | Some e \<Rightarrow> e \<in> set (pgn_entries (j_pgn s)) \<and> pgn_key e = q"
    using pgn_filter_ok [OF assms(2,3)] by blast
  have "eo = None" using eo(2) assms(4) by (cases eo) auto
  then have "j1939_pgn_filter (j_pgn s) a q = Some False" using eo(1) by simp
  then have add1: "j1939_pgn_add (j_pgn s) a q = Some (j_pgn s1, True)" using subscribe_table [OF assms(8)] by simp
  note e1 = add_entries [OF assms(2) add1 assms(3)]
  have old: "e \<notin> set (pgn_entries (j_pgn s))" if "pgn_key e = q" for e using that assms(4) by auto
  have only: "pgn_addr e \<in> {a, b} \<and> pgn_addr e \<noteq> 0" if e: "e \<in> set (pgn_entries (j_pgn s2))" "pgn_key e = q" for e
    using subscribe_table [OF assms(9)]
  proof
    assume "j1939_pgn_filter (j_pgn s1) b q = Some True \<and> j_pgn s2 = j_pgn s1"
    then have "e = \<lparr>pgn_addr = a, pgn_pgn = ucast q\<rparr>" using e(1) e1(1) old [OF e(2)] by simp
    then have "pgn_addr e = a" by simp
    then show ?thesis using assms(6) by simp
  next
    assume "j1939_pgn_filter (j_pgn s1) b q = Some False \<and> j1939_pgn_add (j_pgn s1) b q = Some (j_pgn s2, True)"
    then have "set (pgn_entries (j_pgn s2)) = insert \<lparr>pgn_addr = b, pgn_pgn = ucast q\<rparr> (set (pgn_entries (j_pgn s1)))"
      using add_entries(1) [OF e1(2) _ e1(3)] by blast
    then have "e = \<lparr>pgn_addr = a, pgn_pgn = ucast q\<rparr> \<or> e = \<lparr>pgn_addr = b, pgn_pgn = ucast q\<rparr>"
      using e(1) e1(1) old [OF e(2)] by simp blast
    then have "pgn_addr e = a \<or> pgn_addr e = b" by (elim disjE) simp_all
    then show ?thesis using assms(6,7) by auto
  qed
  have p2: "pgn_inv (j_pgn s2)" "pgn_sorted (j_pgn s2)"
    using subscribe_table [OF assms(9)] e1(2,3) add_entries(2,3) [OF e1(2) _ e1(3)] by auto
  obtain eo2 where "\<forall>c. j1939_pgn_filter (j_pgn s2) c q = Some (case eo2 of None \<Rightarrow> False | Some e \<Rightarrow> pgn_match c e)"
      "case eo2 of None \<Rightarrow> q \<notin> pgn_key ` set (pgn_entries (j_pgn s2)) | Some e \<Rightarrow> e \<in> set (pgn_entries (j_pgn s2)) \<and> pgn_key e = q"
    using pgn_filter_ok [OF p2] by blast
  then show ?thesis using only assms(5) by (cases eo2) (auto simp: pgn_match_def)
qed

theorem two_sources_one_heard_witness:
  "\<exists>s s1 s2. j1939_al_subscribe s 0x17 0xF004 (Some 1) = Some (s1, True) \<and> j1939_al_subscribe s1 0x18 0xF004 (Some 2) = Some (s2, True) \<and>
     \<not> (j1939_pgn_filter (j_pgn s2) 0x17 0xF004 = Some True \<and> j1939_pgn_filter (j_pgn s2) 0x18 0xF004 = Some True)"
proof -
  define p where "p = \<lparr>table_count = 2, pgn_table = \<lparr>pgn_addr = 0, pgn_pgn = 0xEA00\<rparr> #
    \<lparr>pgn_addr = 0, pgn_pgn = 0xFEE5\<rparr> # replicate 62 \<lparr>pgn_addr = 0, pgn_pgn = 0\<rparr>\<rparr>"
  define s where "s = (boot_state True)\<lparr>j_pgn := p\<rparr>"
  have inv: "pgn_inv (j_pgn s)" "pgn_sorted (j_pgn s)" "al_inv s" "0xF004 \<notin> pgn_key ` set (pgn_entries (j_pgn s))"
    by (simp_all add: s_def p_def pgn_inv_def pgn_sorted_def pgn_entries_def PGN_TABLE_SIZE_def pgn_key_def al_inv_def
        AL_SUBSCRIBE_CNT_MAX_def boot_state_def Let_def)
  have run: "(case j1939_al_subscribe s 0x17 0xF004 (Some 1) of Some (s1, True) \<Rightarrow>
      (case j1939_al_subscribe s1 0x18 0xF004 (Some 2) of Some (s2, True) \<Rightarrow> True | _ \<Rightarrow> False) | _ \<Rightarrow> False)"
    unfolding s_def p_def by code_simp
  then obtain s1 s2 where r: "j1939_al_subscribe s 0x17 0xF004 (Some 1) = Some (s1, True)"
      "j1939_al_subscribe s1 0x18 0xF004 (Some 2) = Some (s2, True)"
    by (auto split: option.splits bool.splits)
  have "\<not> (j1939_pgn_filter (j_pgn s2) 0x17 0xF004 = Some True \<and> j1939_pgn_filter (j_pgn s2) 0x18 0xF004 = Some True)"
    by (rule two_sources_one_heard [OF inv(3,1,2,4) _ _ _ r]) simp_all
  then show ?thesis using r by blast
qed

section \<open>The service task\<close>

text \<open>A round of the task: it waits, the given calls of other tasks happen, and it goes on.\<close>

definition svr_cycle :: "(J1939 \<Rightarrow> J1939) list \<Rightarrow> garbage \<Rightarrow> J1939_SVR \<times> J1939 \<Rightarrow> (J1939_SVR \<times> J1939) option" where
  "svr_cycle acts g ts = j1939_svr_round (fst ts)
     (fold (\<lambda>f s. f s) acts ((snd ts)\<lparr>j_notify := notify_wait_enter (j_notify (snd ts)) 0\<rparr>)) g"

fun svr_cycles :: "(J1939 \<Rightarrow> J1939) list list \<Rightarrow> garbage \<Rightarrow> J1939_SVR \<times> J1939 \<Rightarrow> (J1939_SVR \<times> J1939) option" where
  "svr_cycles [] g ts = Some ts"
| "svr_cycles (as # ass) g ts = do { ts \<leftarrow> svr_cycle as g ts; svr_cycles ass g ts }"

definition svr_at :: "bool \<Rightarrow> u32 \<Rightarrow> J1939_SVR \<times> J1939 \<Rightarrow> bool" where
  "svr_at running pending ts \<longleftrightarrow> svr_running (fst ts) = running \<and> \<not> svr_active (fst ts) \<and>
     svr_mask (fst ts) = (if running then J1939_SVR_TASK_EVENT_ALL else J1939_SVR_TASK_EVENT_TASK_START) \<and>
     j_handle (snd ts) \<and> j_notify (snd ts) = \<lparr>ulNotifiedValue = pending, notify_state = taskNOT_WAITING_NOTIFICATION\<rparr>"

lemmas svr_simps = svr_at_def svr_cycle_def j1939_svr_round_def notify_wait_enter_def notify_wait_leave_def
  svr_notify_def notify_set_def xTaskGenericNotify_def svr_events_step_def svr_events Let_def

lemma svr_cycle_stop:
  "svr_at True 0 ts \<Longrightarrow> \<exists>ts'. svr_cycle [j1939_svr_stop] g ts = Some ts' \<and> svr_at False 0 ts'"
  "svr_at False 0 ts \<Longrightarrow> \<exists>ts'. svr_cycle [j1939_svr_stop] g ts = Some ts' \<and> svr_at False 2 ts'"
  by (cases ts; simp add: svr_simps j1939_svr_stop_def)+

lemma svr_cycle_start:
  "svr_at False 0 ts \<Longrightarrow> \<exists>ts'. svr_cycle [j1939_svr_start] g ts = Some ts' \<and> svr_at True 0 ts'"
  "svr_at False 2 ts \<Longrightarrow> \<exists>ts'. svr_cycle [j1939_svr_start] g ts = Some ts' \<and> svr_at False 2 ts'"
  by (cases ts; simp add: svr_simps j1939_svr_start_def)+

text \<open>C31: A stop and a start bring the service task back to work, but after two stops no start does:
  while stopped the task waits with a mask that clears only the start event, so the second stop
  stays pending and every later start is followed by it, however often it is repeated.\<close>

theorem j1939_service_restart:
  assumes "svr_at True 0 ts"
  shows "(\<exists>ts'. svr_cycles [[j1939_svr_stop], [j1939_svr_start]] g ts = Some ts' \<and> svr_at True 0 ts') \<and>
     (\<exists>ts'. svr_cycles ([j1939_svr_stop] # [j1939_svr_stop] # replicate n [j1939_svr_start]) g ts = Some ts' \<and>
        \<not> svr_running (fst ts'))"
proof
  obtain t1 where t1: "svr_cycle [j1939_svr_stop] g ts = Some t1" "svr_at False 0 t1" using svr_cycle_stop(1) [OF assms] by blast
  obtain t2 where t2: "svr_cycle [j1939_svr_start] g t1 = Some t2" "svr_at True 0 t2" using svr_cycle_start(1) [OF t1(2)] by blast
  show "\<exists>ts'. svr_cycles [[j1939_svr_stop], [j1939_svr_start]] g ts = Some ts' \<and> svr_at True 0 ts'" using t1 t2 by simp
  obtain t3 where t3: "svr_cycle [j1939_svr_stop] g t1 = Some t3" "svr_at False 2 t3" using svr_cycle_stop(2) [OF t1(2)] by blast
  have "\<exists>ts'. svr_cycles (replicate n [j1939_svr_start]) g t = Some ts' \<and> svr_at False 2 ts'" if "svr_at False 2 t" for t
    using that
  proof (induction n arbitrary: t)
    case (Suc n)
    obtain t' where "svr_cycle [j1939_svr_start] g t = Some t'" "svr_at False 2 t'" using svr_cycle_start(2) [OF Suc.prems] by blast
    then show ?case using Suc.IH [of t'] by simp
  qed simp
  from this [OF t3(2)] show "\<exists>ts'. svr_cycles ([j1939_svr_stop] # [j1939_svr_stop] # replicate n [j1939_svr_start]) g ts = Some ts' \<and>
        \<not> svr_running (fst ts')"
    using t1(1) t3(1) by (auto simp: svr_at_def)
qed

theorem j1939_service_restart_witness:
  "\<exists>ts ts' g. svr_running (fst ts) \<and>
     svr_cycles ([j1939_svr_stop] # [j1939_svr_stop] # replicate 100 [j1939_svr_start]) g ts = Some ts' \<and> \<not> svr_running (fst ts')"
proof -
  let ?g = "\<lparr>g_pkt = replicate 8 7, g_pdu = replicate 8 7, g_msg = replicate 128 7\<rparr>"
  let ?ts = "(svr_start_locals\<lparr>svr_running := True\<rparr>, boot_state True)"
  have "svr_at True 0 ?ts" by (simp add: svr_at_def svr_start_locals_def boot_state_def Let_def)
  from conjunct2 [OF j1939_service_restart [OF this, of ?g 100]] obtain ts' where
    "svr_cycles ([j1939_svr_stop] # [j1939_svr_stop] # replicate 100 [j1939_svr_start]) ?g ?ts = Some ts'" "\<not> svr_running (fst ts')"
    by blast
  moreover have "svr_running (fst ?ts)" by simp
  ultimately show ?thesis by blast
qed

end
