(* ===== verification/CoreTypes.thy ===== *)
theory CoreTypes imports Prelude begin

text \<open>\<^verbatim>\<open>TBOX_MODULE_STATE\<close> of \<^verbatim>\<open>tbox_module.h\<close>, which modules and the module manager share.\<close>

datatype TBOX_MODULE_STATE = TBOX_MODULE_STATE_INVALID | TBOX_MODULE_STATE_NOINIT
  | TBOX_MODULE_STATE_INIT | TBOX_MODULE_STATE_START | TBOX_MODULE_STATE_STOP

end
