(* ===== verification/STimer.thy ===== *)
theory STimer imports DList Notify ErrorCodes CoreTypes begin

text \<open>
  \<^verbatim>\<open>src/service/timer/stimer.c\<close>: the software timers, a hashed timing wheel of 32 slots that
  a 1 ms hardware interrupt turns and a task that runs the call-backs of the expired timers.
  Every critical section of the code is one definition here, so that interrupt, task and
  callers interleave at exactly the points where they can on the target. The links of the
  timers live in the store of \<open>DList\<close>, stale links included.
\<close>

section \<open>Data\<close>

type_synonym STIMER_ID = u32

definition STIMER_ID_INVALID :: STIMER_ID where "STIMER_ID_INVALID = - 1"
definition TBOX_STIMER_NUMBER :: nat where "TBOX_STIMER_NUMBER = 24"
definition TBOX_STIMER_WHEEL_SLOTE_NUM :: nat where "TBOX_STIMER_WHEEL_SLOTE_NUM = 32"
definition STIMER_SPPLEMENTARY_THREASHOLD :: u16 where "STIMER_SPPLEMENTARY_THREASHOLD = 600"

definition STIMER_EVENT_START :: u32 where "STIMER_EVENT_START = 1"
definition STIMER_EVENT_STOP :: u32 where "STIMER_EVENT_STOP = 2"
definition STIMER_EVENT_EXIT :: u32 where "STIMER_EVENT_EXIT = 4"
definition STIMER_EVENT_INPUT :: u32 where "STIMER_EVENT_INPUT = 8"
definition STIMER_EVENT_ALL :: u32 where
  "STIMER_EVENT_ALL =
     (STIMER_EVENT_START OR STIMER_EVENT_STOP OR STIMER_EVENT_EXIT OR STIMER_EVENT_INPUT)"

text \<open>An enumeration is a machine integer in C: a caller can pass any value.\<close>

type_synonym STIMER_TYPE = u32

definition STIMER_TYPE_ONCE :: STIMER_TYPE where "STIMER_TYPE_ONCE = 0"
definition STIMER_TYPE_PERIOD :: STIMER_TYPE where "STIMER_TYPE_PERIOD = 1"

text \<open>Call-backs and task handles are code addresses and pointers; 0 is the null pointer.\<close>

type_synonym callback = nat
type_synonym task_handle = nat

record stimer_info =
  si_used :: bool
  si_start :: bool
  si_active_count :: u16
  si_type :: STIMER_TYPE
  si_round :: u32
  si_period :: u32
  si_callback :: callback

text \<open>What the module asks of the timer driver, the module table and the message bus.\<close>

datatype stimer_call =
    Drv_timer_start | Drv_timer_stop | Drv_timer_init | Drv_timer_deinit
  | Drv_timer_set_cfg nat nat | Drv_timer_attach_interrupt
  | Module_set_state u32 TBOX_MODULE_STATE
  | Message_subscribe string u32

record stimer =
  st_info :: "stimer_info list"
  st_heap :: dheap
  st_slot :: u32
  st_task :: task_handle
  st_notes :: "task_handle \<Rightarrow> task_notify"
  st_calls :: "stimer_call list"

text \<open>
  The nodes of the store: the wheel slots, the time-out list and the \<open>link\<close> members of the
  timers; \<open>timer_of\<close> is \<^verbatim>\<open>TBOX_CONTAINER(node, STIMER_INFO, link)\<close>, undefined on any other
  address.
\<close>

definition wheel_node :: "nat \<Rightarrow> addr" where "wheel_node k = 1 + k"
definition timeout_list :: addr where "timeout_list = 33"
definition link_node :: "nat \<Rightarrow> addr" where "link_node i = 34 + i"
definition timer_of :: "addr \<Rightarrow> nat option" where
  "timer_of p = (if 34 \<le> p \<and> p < 34 + TBOX_STIMER_NUMBER then Some (p - 34) else None)"

definition upd_info :: "nat \<Rightarrow> (stimer_info \<Rightarrow> stimer_info) \<Rightarrow> stimer \<Rightarrow> stimer" where
  "upd_info i f s = s\<lparr>st_info := (st_info s)[i := f (st_info s ! i)]\<rparr>"

definition invalid_id :: "STIMER_ID \<Rightarrow> bool" where
  "invalid_id tid \<longleftrightarrow> tid = STIMER_ID_INVALID \<or> unat tid \<ge> TBOX_STIMER_NUMBER"

text \<open>The slot a time-out of \<open>t\<close> ticks from now falls into, and the turns it waits there.\<close>

definition slot_for :: "stimer \<Rightarrow> u32 \<Rightarrow> nat" where
  "slot_for s t = unat ((st_slot s + t mod 32) mod 32)"

section \<open>Operations of the callers\<close>

fun free_timer :: "stimer_info list \<Rightarrow> nat \<Rightarrow> nat option" where
  "free_timer [] index = None"
| "free_timer (i # is) index = (if \<not> si_used i then Some index else free_timer is (index + 1))"

definition stimer_create :: "stimer \<Rightarrow> STIMER_TYPE \<Rightarrow> callback \<Rightarrow> (stimer \<times> STIMER_ID) option" where
  "stimer_create s type func =
     (if (type \<noteq> STIMER_TYPE_ONCE \<and> type \<noteq> STIMER_TYPE_PERIOD) \<or> func = 0
      then Some (s, STIMER_ID_INVALID)
      else case free_timer (st_info s) 0 of
        None \<Rightarrow> Some (s, STIMER_ID_INVALID)
      | Some index \<Rightarrow> do {
          let s = upd_info index (\<lambda>r. r\<lparr>si_used := True, si_start := False, si_type := type,
                    si_round := 0, si_period := 0, si_callback := func\<rparr>) s;
          h \<leftarrow> dlist_init (st_heap s) (link_node index);
          Some (s\<lparr>st_heap := h\<rparr>, of_nat index)
        })"

definition stimer_start :: "stimer \<Rightarrow> STIMER_ID \<Rightarrow> u32 \<Rightarrow> (stimer \<times> TBOX_ERROR_CODE) option" where
  "stimer_start s tid timeout_ms =
     (if invalid_id tid \<or> timeout_ms = 0 then Some (s, TBOX_E_INVALID_PARAM)
      else let i = unat tid in
      if \<not> si_used (st_info s ! i) then Some (s, TBOX_E_NOCREATE)
      else do {
        h \<leftarrow> (if si_start (st_info s ! i) then dlist_del_entry (st_heap s) (link_node i)
              else Some (st_heap s));
        let s = upd_info i (\<lambda>r. r\<lparr>si_start := True, si_active_count := 0, si_period := timeout_ms,
                  si_round := timeout_ms div 32\<rparr>) s;
        h \<leftarrow> dlist_add_tail h (link_node i) (wheel_node (slot_for s timeout_ms));
        Some (s\<lparr>st_heap := h\<rparr>, TBOX_E_OK)
      })"

definition stimer_stop :: "stimer \<Rightarrow> STIMER_ID \<Rightarrow> (stimer \<times> TBOX_ERROR_CODE) option" where
  "stimer_stop s tid =
     (if invalid_id tid then Some (s, TBOX_E_INVALID_PARAM)
      else let i = unat tid in
      if \<not> si_used (st_info s ! i) then Some (s, TBOX_E_NOCREATE)
      else if si_start (st_info s ! i) then do {
        let s = upd_info i (\<lambda>r. r\<lparr>si_start := False, si_period := 0, si_round := 0\<rparr>) s;
        h \<leftarrow> dlist_del_entry (st_heap s) (link_node i);
        h \<leftarrow> dlist_init h (link_node i);
        Some (s\<lparr>st_heap := h\<rparr>, TBOX_E_OK)
      }
      else Some (s, TBOX_E_OK))"

definition stimer_trigger :: "stimer \<Rightarrow> STIMER_ID \<Rightarrow> (stimer \<times> TBOX_ERROR_CODE) option" where
  "stimer_trigger s tid =
     (if invalid_id tid then Some (s, TBOX_E_INVALID_PARAM)
      else let i = unat tid in
      if \<not> si_used (st_info s ! i) then Some (s, TBOX_E_NOCREATE)
      else do {
        has \<leftarrow> dlist_has_node (st_heap s) timeout_list (link_node i);
        if \<not> has then do {
          let s = upd_info i (\<lambda>r. r\<lparr>si_round := 0\<rparr>) s;
          h \<leftarrow> dlist_del_entry (st_heap s) (link_node i);
          h \<leftarrow> dlist_add_tail h (link_node i) timeout_list;
          Some (s\<lparr>st_heap := h\<rparr>, TBOX_E_OK)
        }
        else Some (s, TBOX_E_OK)
      })"

definition stimer_clear :: "stimer \<Rightarrow> STIMER_ID \<Rightarrow> (stimer \<times> TBOX_ERROR_CODE) option" where
  "stimer_clear s tid =
     (if invalid_id tid then Some (s, TBOX_E_INVALID_PARAM)
      else let i = unat tid in
      if \<not> si_used (st_info s ! i) then Some (s, TBOX_E_NOCREATE)
      else do {
        has \<leftarrow> dlist_has_node (st_heap s) timeout_list (link_node i);
        if has then do {
          h \<leftarrow> dlist_del_entry (st_heap s) (link_node i);
          let p = si_period (st_info s ! i);
          let s = upd_info i (\<lambda>r. r\<lparr>si_round := p div 32\<rparr>) s;
          h \<leftarrow> dlist_add_tail h (link_node i) (wheel_node (slot_for s p));
          Some (s\<lparr>st_heap := h\<rparr>, TBOX_E_OK)
        }
        else Some (s, TBOX_E_OK)
      })"

definition stimer_is_started :: "stimer \<Rightarrow> STIMER_ID \<Rightarrow> bool" where
  "stimer_is_started s tid =
     (if invalid_id tid then False
      else if \<not> si_used (st_info s ! unat tid) then False
      else si_start (st_info s ! unat tid))"

section \<open>The interrupt\<close>

definition tick_body :: "addr \<Rightarrow> stimer \<Rightarrow> stimer option" where
  "tick_body wheel_list s = do {
     (h, node) \<leftarrow> dlist_pop_first_node (st_heap s) wheel_list;
     let s = s\<lparr>st_heap := h\<rparr>;
     if node \<noteq> NULL then do {
       i \<leftarrow> timer_of node;
       if \<not> si_start (st_info s ! i) then Some s
       else if 0 < si_round (st_info s ! i) then do {
         let s = upd_info i (\<lambda>r. r\<lparr>si_round := si_round r - 1\<rparr>) s;
         h \<leftarrow> dlist_add_tail (st_heap s) node wheel_list;
         Some (s\<lparr>st_heap := h\<rparr>)
       }
       else do {
         let s = upd_info i (\<lambda>r. r\<lparr>si_active_count := si_active_count r + 1\<rparr>) s;
         h \<leftarrow> dlist_add_tail (st_heap s) (link_node i) timeout_list;
         Some (s\<lparr>st_heap := h\<rparr>)
       }
     }
     else Some s
   }"

definition tbox_stimer_interrupt :: "stimer \<Rightarrow> stimer option" where
  "tbox_stimer_interrupt s = do {
     let wheel_list = wheel_node (unat (st_slot s));
     n \<leftarrow> dlist_count (st_heap s) wheel_list;
     s \<leftarrow> for_up 0 (unat n) (\<lambda>_. tick_body wheel_list) s;
     let s = s\<lparr>st_slot := (st_slot s + 1) mod 32\<rparr>;
     if \<not> dlist_empty (st_heap s) timeout_list \<and> st_task s \<noteq> 0
     then Some (s\<lparr>st_notes := (st_notes s)(st_task s :=
            notify_set (st_notes s (st_task s)) STIMER_EVENT_INPUT)\<rparr>)
     else Some s
   }"

section \<open>The task\<close>

text \<open>
  One round of the inner loop, up to the end of its critical section: the time-out list was
  empty, the timer taken off it is not started, or its call-back is to be run.
\<close>

datatype round_result = Drained | Skipped | Call callback

definition rearm_period :: "stimer_info \<Rightarrow> u32 \<times> bool" where
  "rearm_period r =
     (let period = si_period r;
          period = (if 1 < period then period - 1 else period) in
      if 1 < period \<and> STIMER_SPPLEMENTARY_THREASHOLD \<le> si_active_count r
      then (period - 1, True) else (period, False))"

definition task_round :: "stimer \<Rightarrow> (stimer \<times> round_result) option" where
  "task_round s = do {
     (h, node) \<leftarrow> dlist_pop_first_node (st_heap s) timeout_list;
     let s = s\<lparr>st_heap := h\<rparr>;
     if node = NULL then Some (s, Drained)
     else do {
       i \<leftarrow> timer_of node;
       let r = st_info s ! i;
       if \<not> si_start r then Some (s, Skipped)
       else if si_type r = STIMER_TYPE_PERIOD then do {
         let (period, reset) = rearm_period r;
         let s = upd_info i (\<lambda>r. r\<lparr>si_active_count := (if reset then 0 else si_active_count r),
                   si_round := period div 32\<rparr>) s;
         h \<leftarrow> dlist_add_tail (st_heap s) (link_node i) (wheel_node (slot_for s period));
         Some (s\<lparr>st_heap := h\<rparr>, Call (si_callback r))
       }
       else Some (upd_info i (\<lambda>r. r\<lparr>si_start := False, si_round := 0, si_period := 0\<rparr>) s,
                  Call (si_callback r))
     }
   }"

text \<open>The inner loop; \<open>cb\<close> is what the call-backs, code of other modules, do to the timers.\<close>

partial_function (option) task_drain ::
  "(callback \<Rightarrow> stimer \<Rightarrow> stimer option) \<Rightarrow> stimer \<Rightarrow> stimer option" where
  "task_drain cb s =
     Option.bind (task_round s) (\<lambda>(s, r).
       case r of
         Drained \<Rightarrow> Some s
       | Skipped \<Rightarrow> task_drain cb s
       | Call f \<Rightarrow> (if f \<noteq> 0 then Option.bind (cb f s) (task_drain cb) else task_drain cb s))"

text \<open>
  A round of the outer loop after \<^verbatim>\<open>xTaskNotifyWait\<close> has returned; \<open>self\<close> is the task, and
  \<open>False\<close> says that the loop is left and the task deletes itself.
\<close>

definition tbox_stimer_task ::
  "(callback \<Rightarrow> stimer \<Rightarrow> stimer option) \<Rightarrow> task_handle \<Rightarrow> u32 \<Rightarrow> stimer \<Rightarrow> (stimer \<times> bool) option" where
  "tbox_stimer_task cb self module_id s =
     (let (note, event_bits, _) = notify_wait_leave (st_notes s self) STIMER_EVENT_ALL;
          s = s\<lparr>st_notes := (st_notes s)(self := note)\<rparr> in
      if event_bits AND STIMER_EVENT_EXIT = STIMER_EVENT_EXIT then Some (s, False)
      else if event_bits AND STIMER_EVENT_START = STIMER_EVENT_START then Some (s, True)
      else if event_bits AND STIMER_EVENT_STOP = STIMER_EVENT_STOP
      then Some (s\<lparr>st_calls := st_calls s @ [Module_set_state module_id TBOX_MODULE_STATE_STOP]\<rparr>, True)
      else map_option (\<lambda>s. (s, True)) (task_drain cb s))"

section \<open>Start-up, sleep and supervision\<close>

definition stimer_call :: "stimer_call list \<Rightarrow> stimer \<Rightarrow> stimer" where
  "stimer_call cs s = s\<lparr>st_calls := st_calls s @ cs\<rparr>"

definition stimer_notify :: "u32 \<Rightarrow> stimer \<Rightarrow> stimer" where
  "stimer_notify ev s =
     (if st_task s \<noteq> 0
      then s\<lparr>st_notes := (st_notes s)(st_task s := notify_set (st_notes s (st_task s)) ev)\<rparr> else s)"

definition tbox_stimer_start :: "stimer \<Rightarrow> stimer" where
  "tbox_stimer_start s = stimer_notify STIMER_EVENT_START (stimer_call [Drv_timer_start] s)"

definition tbox_stimer_stop :: "stimer \<Rightarrow> stimer" where
  "tbox_stimer_stop s = stimer_notify STIMER_EVENT_STOP (stimer_call [Drv_timer_stop] s)"

definition tbox_stimer_exit :: "stimer \<Rightarrow> stimer" where
  "tbox_stimer_exit s =
     (stimer_notify STIMER_EVENT_EXIT (stimer_call [Drv_timer_deinit] s))\<lparr>st_task := 0\<rparr>"

definition reset_info :: "stimer_info \<Rightarrow> stimer_info" where
  "reset_info r = r\<lparr>si_used := False, si_start := False, si_active_count := 0,
     si_type := STIMER_TYPE_PERIOD, si_round := 0, si_period := 0, si_callback := 0\<rparr>"

definition tbox_stimer_inner_init :: "stimer \<Rightarrow> (stimer \<times> TBOX_ERROR_CODE) option" where
  "tbox_stimer_inner_init s = do {
     s \<leftarrow> for_up 0 TBOX_STIMER_NUMBER (\<lambda>i s. do {
            let s = upd_info i reset_info s;
            h \<leftarrow> dlist_init (st_heap s) (wheel_node i);
            Some (s\<lparr>st_heap := h\<rparr>)
          }) s;
     h \<leftarrow> for_up 0 TBOX_STIMER_WHEEL_SLOTE_NUM (\<lambda>i h. dlist_init h (wheel_node i)) (st_heap s);
     h \<leftarrow> dlist_init h timeout_list;
     let s = s\<lparr>st_heap := h, st_slot := 0\<rparr>;
     Some (stimer_call [Drv_timer_set_cfg 0 1, Drv_timer_attach_interrupt, Drv_timer_init] s, TBOX_E_OK)
   }"

definition TBOX_CORE_TASK_ABNORMAL_NOTIFY :: string where
  "TBOX_CORE_TASK_ABNORMAL_NOTIFY = ''core_taskabnormal_notify''"
definition TBOX_CORE_TASK_UPDATE_NOTIFY :: string where
  "TBOX_CORE_TASK_UPDATE_NOTIFY = ''core_taskupdate_notify''"

text \<open>\<open>handle\<close> and \<open>module_id\<close> are what the loader has stored for the module \<open>STIMER\<close>.\<close>

definition tbox_stimer_init ::
  "stimer \<Rightarrow> u8 \<Rightarrow> task_handle \<Rightarrow> u32 \<Rightarrow> (stimer \<times> TBOX_ERROR_CODE) option" where
  "tbox_stimer_init s seq handle module_id =
     (if seq = 0 then do {
        (s, r) \<leftarrow> tbox_stimer_inner_init (s\<lparr>st_task := handle\<rparr>);
        Some (s, if r \<noteq> TBOX_E_OK then TBOX_E_FAILED else TBOX_E_OK)
      }
      else if seq = 2 then
        Some (stimer_call [Module_set_state module_id TBOX_MODULE_STATE_START,
                Message_subscribe TBOX_CORE_TASK_ABNORMAL_NOTIFY module_id,
                Message_subscribe TBOX_CORE_TASK_UPDATE_NOTIFY module_id] s, TBOX_E_OK)
      else Some (s, TBOX_E_OK))"

text \<open>
  The subscribers of the supervision messages. A message is its size and the record it points
  to (\<open>None\<close> for a null pointer); \<^verbatim>\<open>strncmp(K, name, strlen(K))\<close> compares the name up to the
  length of the key.
\<close>

record task_abnormal_info =
  ab_task_handle :: task_handle

record task_update_info =
  up_task_handle :: task_handle
  up_module_id :: u32

definition strncmp_eq :: "string \<Rightarrow> string \<Rightarrow> bool" where
  "strncmp_eq key name \<longleftrightarrow> take (length key) name = key"

definition tbox_stimer_handle_task_abnormal ::
  "stimer \<Rightarrow> string \<Rightarrow> (u16 \<times> task_abnormal_info option) option \<Rightarrow> stimer" where
  "tbox_stimer_handle_task_abnormal s name data =
     (if \<not> strncmp_eq TBOX_CORE_TASK_ABNORMAL_NOTIFY name then s
      else case data of
        None \<Rightarrow> s
      | Some (sz, d) \<Rightarrow>
          if sz < 16 then s
          else case d of
            None \<Rightarrow> s
          | Some a \<Rightarrow> if ab_task_handle a = st_task s then s\<lparr>st_task := 0\<rparr> else s)"

text \<open>\<open>shell_id\<close>: the code compares with the module id of \<^verbatim>\<open>TBOXSHELL\<close>.\<close>

definition tbox_stimer_handle_update_task ::
  "stimer \<Rightarrow> string \<Rightarrow> (u16 \<times> task_update_info option) option \<Rightarrow> u32 \<Rightarrow> stimer" where
  "tbox_stimer_handle_update_task s name data shell_id =
     (if \<not> strncmp_eq TBOX_CORE_TASK_UPDATE_NOTIFY name then s
      else case data of
        None \<Rightarrow> s
      | Some (sz, d) \<Rightarrow>
          if sz < 8 then s
          else case d of
            None \<Rightarrow> s
          | Some u \<Rightarrow>
              if up_task_handle u = 0 \<or> shell_id \<noteq> up_module_id u then s
              else s\<lparr>st_task := up_task_handle u\<rparr>)"

end
