(* ===== verification/STimerRef.thy ===== *)
theory STimerRef imports STimer begin

text \<open>
  What the software timers promise, and that the timing wheel keeps the promise. The abstract
  timers are, for each of them, idle, waiting for a number of ticks, or due, with the queue of
  the due ones; \<open>stimer_rel\<close> relates them to the wheel and each operation of \<open>STimer\<close> is shown
  to do what the abstract operation says.
\<close>

section \<open>The abstract timers\<close>

datatype phase = Idle | Waiting nat | Due

record timers =
  phase :: "nat \<Rightarrow> phase"
  due :: "nat list"

definition timers_set :: "nat \<Rightarrow> phase \<Rightarrow> timers \<Rightarrow> timers" where
  "timers_set i ph A =
     \<lparr>phase = (phase A)(i := ph), due = removeAll i (due A) @ (if ph = Due then [i] else [])\<rparr>"

fun phase_tick :: "phase \<Rightarrow> phase" where
  "phase_tick Idle = Idle"
| "phase_tick Due = Due"
| "phase_tick (Waiting 0) = Due"
| "phase_tick (Waiting (Suc n)) = Waiting n"

section \<open>The relation\<close>

definition heads :: "addr set" where
  "heads = insert timeout_list (wheel_node ` {..<32})"

definition wheel_inv :: "stimer \<Rightarrow> (addr \<Rightarrow> addr list) \<Rightarrow> bool" where
  "wheel_inv s L \<longleftrightarrow> family dlist_at (st_heap s) heads L \<and>
     length (st_info s) = TBOX_STIMER_NUMBER \<and> unat (st_slot s) < 32 \<and>
     (\<forall>d\<in>heads. set (L d) \<subseteq> link_node ` {..<TBOX_STIMER_NUMBER})"

definition at_phase :: "stimer \<Rightarrow> (addr \<Rightarrow> addr list) \<Rightarrow> nat \<Rightarrow> phase \<Rightarrow> bool" where
  "at_phase s L i ph \<longleftrightarrow> (si_start (st_info s ! i) \<longleftrightarrow> ph \<noteq> Idle) \<and>
     (case ph of
        Idle \<Rightarrow> \<forall>d\<in>heads. link_node i \<notin> set (L d)
      | Due \<Rightarrow> link_node i \<in> set (L timeout_list)
      | Waiting n \<Rightarrow> \<exists>k<32. link_node i \<in> set (L (wheel_node k)) \<and>
          n = unat (si_round (st_info s ! i)) * 32 + (k + 32 - unat (st_slot s)) mod 32)"

definition wheel_rel :: "stimer \<Rightarrow> (addr \<Rightarrow> addr list) \<Rightarrow> timers \<Rightarrow> bool" where
  "wheel_rel s L A \<longleftrightarrow> wheel_inv s L \<and> L timeout_list = map link_node (due A) \<and>
     (\<forall>i<TBOX_STIMER_NUMBER. at_phase s L i (phase A i))"

definition stimer_rel :: "stimer \<Rightarrow> timers \<Rightarrow> bool" where
  "stimer_rel s A \<longleftrightarrow> (\<exists>L. wheel_rel s L A)"

section \<open>The store\<close>

lemma heads_simps [simp]:
  "timeout_list \<in> heads" "k < 32 \<Longrightarrow> wheel_node k \<in> heads" "link_node i \<notin> heads"
  by (auto simp: heads_def timeout_list_def wheel_node_def link_node_def)

lemma node_simps [simp]:
  "link_node i = link_node j \<longleftrightarrow> i = j" "wheel_node i = wheel_node j \<longleftrightarrow> i = j"
  "link_node i \<noteq> NULL" "wheel_node i \<noteq> NULL" "timeout_list \<noteq> NULL"
  "i < TBOX_STIMER_NUMBER \<Longrightarrow> timer_of (link_node i) = Some i"
  by (auto simp: link_node_def wheel_node_def timeout_list_def timer_of_def TBOX_STIMER_NUMBER_def
      NULL_def)

lemma wheel_not_timeout [simp]:
  "k < 32 \<Longrightarrow> wheel_node k \<noteq> timeout_list" "k < 32 \<Longrightarrow> timeout_list \<noteq> wheel_node k"
  by (auto simp: timeout_list_def wheel_node_def)

lemma length_upd_info [simp]: "length (st_info (upd_info i f s)) = length (st_info s)"
  by (simp add: upd_info_def)

lemma upd_info_simps [simp]:
  "st_heap (upd_info i f s) = st_heap s" "st_slot (upd_info i f s) = st_slot s"
  "st_task (upd_info i f s) = st_task s" "st_notes (upd_info i f s) = st_notes s"
  "st_calls (upd_info i f s) = st_calls s"
  "i < length (st_info s) \<Longrightarrow>
     st_info (upd_info i f s) ! j = (if j = i then f (st_info s ! i) else st_info s ! j)"
  by (auto simp: upd_info_def)

lemma link_fresh: "\<forall>d\<in>heads. link_node i \<notin> set (L d) \<Longrightarrow> d \<in> heads \<Longrightarrow> link_node i \<notin> set (d # L d)"
  using heads_simps(3) [of i] by (metis set_ConsD)

lemma family_cong:
  "family at h D L \<Longrightarrow> (\<And>d. d \<in> D \<Longrightarrow> L' d = L d) \<Longrightarrow> family at h D L'"
  by (simp add: family_def)

text \<open>Taking a link out of whatever list it is in, and adding one that is in none.\<close>

lemma detach:
  assumes fam: "family dlist_at h heads L" and d: "d \<in> heads" and e: "link_node i \<in> set (L d)"
  shows "\<exists>h'. dlist_del_entry h (link_node i) = Some h' \<and>
     family dlist_at h' heads (\<lambda>d. removeAll (link_node i) (L d))"
proof -
  obtain xs ys where L: "L d = xs @ link_node i # ys" using e by (auto simp: in_set_conv_decomp)
  have "distinct (L d)" using familyD [OF fam d] by (simp add: dlist_at_def)
  then have xy: "removeAll (link_node i) (L d) = xs @ ys"
    using L by (simp add: removeAll_filter_not_eq) (metis (mono_tags, lifting) filter_True)
  have other: "removeAll (link_node i) (L d') = L d'" if "d' \<in> heads" "d' \<noteq> d" for d'
  proof -
    have "link_node i \<notin> set (L d')"
      using family_disjoint [OF fam d that(1), of "link_node i"] e that(2) by auto
    then show ?thesis by simp
  qed
  obtain h' where h': "dlist_del_entry h (link_node i) = Some h'"
      "family dlist_at h' heads (L(d := xs @ ys))"
    using dtail.family_del [OF fam d L] by blast
  have "family dlist_at h' heads (\<lambda>d. removeAll (link_node i) (L d))"
    by (rule family_cong [OF h'(2)]) (use xy other in auto)
  with h'(1) show ?thesis by blast
qed

lemma attach:
  assumes fam: "family dlist_at h heads L" and d: "d \<in> heads"
    and fresh: "\<forall>d\<in>heads. link_node i \<notin> set (L d)"
  shows "\<exists>h'. dlist_add_tail h (link_node i) d = Some h' \<and>
     family dlist_at h' heads (L(d := L d @ [link_node i]))"
proof -
  have "link_node i \<notin> set (d' # L d')" if "d' \<in> heads" for d'
    by (rule link_fresh [OF fresh that])
  then show ?thesis using dtail.family_add [OF fam d, of "link_node i"] by simp blast
qed

lemma at_phase_cong:
  assumes "\<And>d. d \<in> heads \<Longrightarrow> link_node i \<in> set (L' d) \<longleftrightarrow> link_node i \<in> set (L d)"
    and "st_info s' ! i = st_info s ! i" and "st_slot s' = st_slot s"
  shows "at_phase s' L' i ph \<longleftrightarrow> at_phase s L i ph"
  using assms by (auto simp: at_phase_def split: phase.splits)

text \<open>An operation on timer \<open>i\<close> that leaves the other links where they are.\<close>

lemma wheel_rel_set:
  assumes r: "wheel_rel s L A" and i: "i < TBOX_STIMER_NUMBER"
    and fam: "family dlist_at (st_heap s') heads L'"
    and info: "st_info s' = (st_info s)[i := r']" and slot: "st_slot s' = st_slot s"
    and L': "\<And>d. d \<in> heads \<Longrightarrow> L' d = removeAll (link_node i) (L d) @ (if d = d0 then [link_node i] else [])"
    and d0: "d0 = timeout_list \<longleftrightarrow> ph = Due"
    and ph: "at_phase s' L' i ph"
  shows "wheel_rel s' L' (timers_set i ph A)"
proof -
  note r = r [unfolded wheel_rel_def wheel_inv_def]
  have "at_phase s' L' j (phase A j)" if j: "j < TBOX_STIMER_NUMBER" "j \<noteq> i" for j
  proof -
    have "st_info s' ! j = st_info s ! j" using info j by simp
    moreover have "link_node j \<in> set (L' d) \<longleftrightarrow> link_node j \<in> set (L d)" if "d \<in> heads" for d
      using L' [OF that] j(2) by auto
    ultimately have "at_phase s' L' j (phase A j) \<longleftrightarrow> at_phase s L j (phase A j)"
      using slot by (intro at_phase_cong) auto
    then show ?thesis using r j by simp
  qed
  then have "\<forall>j<TBOX_STIMER_NUMBER. at_phase s' L' j (phase (timers_set i ph A) j)"
    using ph by (simp add: timers_set_def)
  moreover have "wheel_inv s' L'"
    unfolding wheel_inv_def using r fam info slot i L' by (auto simp: subset_iff)
  moreover have "L' timeout_list = map link_node (due (timers_set i ph A))"
    using r L' [of timeout_list] d0
    by (auto simp: timers_set_def removeAll_filter_not_eq filter_map comp_def)
  ultimately show ?thesis by (simp add: wheel_rel_def)
qed

section \<open>Moving one timer\<close>

lemma slot_for_lt [simp]: "slot_for s t < 32"
  by (simp add: slot_for_def unat_mod_distrib)

lemma slot_wait:
  assumes "unat (st_slot s) < 32"
  shows "(slot_for s t + 32 - unat (st_slot s)) mod 32 = unat t mod 32"
proof -
  have f: "unat (st_slot s + t mod 32) = unat (st_slot s) + unat t mod 32"
    by (subst unat_plus_if_fits) (use assms in \<open>simp_all add: unat_mod_distrib\<close>)
  have arith: "((a + b mod 32) mod 32 + 32 - a) mod 32 = b mod 32" if "a < 32" for a b :: nat
    using that by (cases "a + b mod 32 < 32") (auto simp: mod_if [of "a + b mod 32"] not_less)
  show ?thesis
    using arith [OF assms] by (simp add: slot_for_def unat_mod_distrib f)
qed

lemma round_split: "unat (t div 32) * 32 + unat t mod 32 = unat (t :: u32)"
  by (simp add: unat_div_distrib)

lemma started_in:
  assumes "wheel_rel s L A" and "i < TBOX_STIMER_NUMBER" and "si_start (st_info s ! i)"
  obtains d where "d \<in> heads" and "link_node i \<in> set (L d)"
proof -
  have "at_phase s L i (phase A i)" using assms by (simp add: wheel_rel_def)
  then have "\<exists>d\<in>heads. link_node i \<in> set (L d)"
    using assms(3) heads_simps by (auto simp: at_phase_def split: phase.splits)
  then show ?thesis using that by blast
qed

lemma stopped_out:
  assumes "wheel_rel s L A" and "i < TBOX_STIMER_NUMBER" and "\<not> si_start (st_info s ! i)"
  shows "d \<in> heads \<Longrightarrow> link_node i \<notin> set (L d)" and "phase A i = Idle"
  using assms by (auto simp: wheel_rel_def at_phase_def split: phase.splits)

lemma wheel_rel_cong:
  assumes "st_heap s' = st_heap s" and "st_info s' = st_info s" and "st_slot s' = st_slot s"
  shows "wheel_rel s' L A \<longleftrightarrow> wheel_rel s L A"
  by (simp only: wheel_rel_def wheel_inv_def at_phase_def assms)

lemma wheel_relD:
  assumes "wheel_rel s L A"
  shows "family dlist_at (st_heap s) heads L" "length (st_info s) = TBOX_STIMER_NUMBER"
    "unat (st_slot s) < 32"
  using assms by (simp_all add: wheel_rel_def wheel_inv_def)

lemma take_out:
  assumes r: "wheel_rel s L A" and i: "i < TBOX_STIMER_NUMBER"
  shows "\<exists>h1. (if si_start (st_info s ! i) then dlist_del_entry (st_heap s) (link_node i)
         else Some (st_heap s)) = Some h1 \<and>
       family dlist_at h1 heads (\<lambda>d. removeAll (link_node i) (L d))"
proof (cases "si_start (st_info s ! i)")
  case True
  then show ?thesis
    using started_in [OF r i] detach [OF wheel_relD(1) [OF r]] by (metis (no_types, lifting))
next
  case False
  have "family dlist_at (st_heap s) heads (\<lambda>d. removeAll (link_node i) (L d))"
    by (rule family_cong [OF wheel_relD(1) [OF r]]) (use stopped_out(1) [OF r i False] in auto)
  with False show ?thesis by simp
qed

lemma arm:
  assumes r: "wheel_rel s L A" and i: "i < TBOX_STIMER_NUMBER"
    and fam: "family dlist_at h1 heads (\<lambda>d. removeAll (link_node i) (L d))"
    and f: "si_start (f (st_info s ! i))" "si_round (f (st_info s ! i)) = p div 32"
  shows "\<exists>h'. dlist_add_tail h1 (link_node i) (wheel_node (slot_for s p)) = Some h' \<and>
     stimer_rel ((upd_info i f s)\<lparr>st_heap := h'\<rparr>) (timers_set i (Waiting (unat p)) A)"
proof -
  let ?d = "wheel_node (slot_for s p)" and ?L1 = "\<lambda>d. removeAll (link_node i) (L d)"
  let ?L' = "?L1(?d := ?L1 ?d @ [link_node i])"
  obtain h' where h': "dlist_add_tail h1 (link_node i) ?d = Some h'" "family dlist_at h' heads ?L'"
    using attach [OF fam, of ?d i] by auto
  let ?s' = "(upd_info i f s)\<lparr>st_heap := h'\<rparr>"
  have "wheel_rel ?s' ?L' (timers_set i (Waiting (unat p)) A)"
  proof (rule wheel_rel_set [where ?d0.0 = "?d", OF r i])
    show "at_phase ?s' ?L' i (Waiting (unat p))"
      unfolding at_phase_def
      using f i wheel_relD [OF r] slot_wait [of s p] round_split [of p]
      by (auto intro!: exI [of _ "slot_for s p"])
    show "st_info ?s' = (st_info s)[i := f (st_info s ! i)]" by (simp add: upd_info_def)
  qed (use h' in auto)
  then show ?thesis using h'(1) by (auto simp: stimer_rel_def)
qed

lemma queue_up:
  assumes r: "wheel_rel s L A" and i: "i < TBOX_STIMER_NUMBER"
    and fam: "family dlist_at h1 heads (\<lambda>d. removeAll (link_node i) (L d))"
    and f: "si_start (f (st_info s ! i))"
  shows "\<exists>h'. dlist_add_tail h1 (link_node i) timeout_list = Some h' \<and>
     stimer_rel ((upd_info i f s)\<lparr>st_heap := h'\<rparr>) (timers_set i Due A)"
proof -
  let ?L1 = "\<lambda>d. removeAll (link_node i) (L d)"
  let ?L' = "?L1(timeout_list := ?L1 timeout_list @ [link_node i])"
  obtain h' where h': "dlist_add_tail h1 (link_node i) timeout_list = Some h'"
      "family dlist_at h' heads ?L'"
    using attach [OF fam, of timeout_list i] by auto
  let ?s' = "(upd_info i f s)\<lparr>st_heap := h'\<rparr>"
  have "wheel_rel ?s' ?L' (timers_set i Due A)"
  proof (rule wheel_rel_set [where ?d0.0 = "timeout_list", OF r i])
    show "at_phase ?s' ?L' i Due"
      using f i wheel_relD [OF r] by (simp add: at_phase_def)
    show "st_info ?s' = (st_info s)[i := f (st_info s ! i)]" by (simp add: upd_info_def)
  qed (use h' in auto)
  then show ?thesis using h'(1) by (auto simp: stimer_rel_def)
qed

lemma disarm:
  assumes r: "wheel_rel s L A" and i: "i < TBOX_STIMER_NUMBER"
    and fam: "family dlist_at h1 heads (\<lambda>d. removeAll (link_node i) (L d))"
    and f: "\<not> si_start (f (st_info s ! i))"
  shows "stimer_rel ((upd_info i f s)\<lparr>st_heap := h1\<rparr>) (timers_set i Idle A)"
proof -
  let ?L' = "\<lambda>d. removeAll (link_node i) (L d)" and ?s' = "(upd_info i f s)\<lparr>st_heap := h1\<rparr>"
  have "wheel_rel ?s' ?L' (timers_set i Idle A)"
  proof (rule wheel_rel_set [where ?d0.0 = "NULL", OF r i])
    show "at_phase ?s' ?L' i Idle"
      using f i wheel_relD [OF r] by (simp add: at_phase_def)
    show "st_info ?s' = (st_info s)[i := f (st_info s ! i)]" by (simp add: upd_info_def)
    show "NULL = timeout_list \<longleftrightarrow> Idle = Due" by (simp add: timeout_list_def NULL_def)
    show "removeAll (link_node i) (L d) = removeAll (link_node i) (L d) @ (if d = NULL then [link_node i] else [])"
      if "d \<in> heads" for d
      using that by (auto simp: heads_def timeout_list_def wheel_node_def NULL_def)
  qed (use fam in auto)
  then show ?thesis by (auto simp: stimer_rel_def)
qed

section \<open>The operations of the callers\<close>

lemma valid_idD: "\<not> invalid_id tid \<Longrightarrow> unat tid < TBOX_STIMER_NUMBER"
  by (simp add: invalid_id_def)

lemma stimer_start_ok:
  assumes "stimer_rel s A" and tid: "\<not> invalid_id tid" and used: "si_used (st_info s ! unat tid)"
    and t: "t \<noteq> 0"
  shows "\<exists>s'. stimer_start s tid t = Some (s', TBOX_E_OK) \<and>
     stimer_rel s' (timers_set (unat tid) (Waiting (unat t)) A)"
proof -
  let ?f = "\<lambda>r. r\<lparr>si_start := True, si_active_count := 0, si_period := t, si_round := t div 32\<rparr>"
  obtain L where r: "wheel_rel s L A" using assms(1) by (auto simp: stimer_rel_def)
  note i = valid_idD [OF tid]
  obtain h1 where h1: "(if si_start (st_info s ! unat tid)
       then dlist_del_entry (st_heap s) (link_node (unat tid)) else Some (st_heap s)) = Some h1"
      "family dlist_at h1 heads (\<lambda>d. removeAll (link_node (unat tid)) (L d))"
    using take_out [OF r i] by blast
  obtain h' where "dlist_add_tail h1 (link_node (unat tid)) (wheel_node (slot_for s t)) = Some h'"
      "stimer_rel ((upd_info (unat tid) ?f s)\<lparr>st_heap := h'\<rparr>) (timers_set (unat tid) (Waiting (unat t)) A)"
    using arm [OF r i h1(2), of ?f t] by auto
  moreover have "slot_for (upd_info (unat tid) ?f s) t = slot_for s t" by (simp add: slot_for_def)
  ultimately show ?thesis
    using h1(1) tid used t by (simp add: stimer_start_def Let_def)
qed

lemma stimer_stop_ok:
  assumes "stimer_rel s A" and tid: "\<not> invalid_id tid" and used: "si_used (st_info s ! unat tid)"
  shows "\<exists>s'. stimer_stop s tid = Some (s', TBOX_E_OK) \<and>
     stimer_rel s' (timers_set (unat tid) Idle A)"
proof -
  let ?i = "unat tid" and ?f = "\<lambda>r. r\<lparr>si_start := False, si_period := 0, si_round := 0\<rparr>"
  obtain L where r: "wheel_rel s L A" using assms(1) by (auto simp: stimer_rel_def)
  note i = valid_idD [OF tid]
  show ?thesis
  proof (cases "si_start (st_info s ! ?i)")
    case True
    obtain h1 where h1: "dlist_del_entry (st_heap s) (link_node ?i) = Some h1"
        "family dlist_at h1 heads (\<lambda>d. removeAll (link_node ?i) (L d))"
      using take_out [OF r i] True by auto
    obtain h2 where h2: "dlist_init h1 (link_node ?i) = Some h2" "\<forall>p. p \<noteq> link_node ?i \<longrightarrow> h2 p = h1 p"
      using dlist_init_at [of "link_node ?i" h1] by auto
    have "family dlist_at h2 heads (\<lambda>d. removeAll (link_node ?i) (L d))"
      unfolding family_def
    proof (intro conjI ballI)
      fix d
      assume d: "d \<in> heads"
      have "link_node ?i \<notin> set (d # removeAll (link_node ?i) (L d))"
        using d heads_simps(3) [of ?i] by auto
      then show "dlist_at h2 d (removeAll (link_node ?i) (L d))"
        using dtail.frame [OF familyD [OF h1(2) d], of h2] h2(2) by metis
    qed (use h1(2) in \<open>auto simp: family_def\<close>)
    from disarm [OF r i this, of ?f] show ?thesis
      using True h1 h2 tid used by (auto simp: stimer_stop_def Let_def)
  next
    case False
    then have A: "phase A ?i = Idle" and "\<forall>d\<in>heads. link_node ?i \<notin> set (L d)"
      using stopped_out [OF r i] by auto
    then have "?i \<notin> set (due A)" using r by (auto simp: wheel_rel_def dest: bspec [of _ _ timeout_list])
    then have "timers_set ?i Idle A = A" using A by (cases A) (simp add: timers_set_def fun_upd_idem)
    then show ?thesis using False assms by (simp add: stimer_stop_def Let_def)
  qed
qed

lemma has_timeout:
  assumes "wheel_rel s L A" and "i < TBOX_STIMER_NUMBER"
  shows "dlist_has_node (st_heap s) timeout_list (link_node i) = Some (i \<in> set (due A))"
    "phase A i = Due \<longleftrightarrow> i \<in> set (due A)"
proof -
  note fam = wheel_relD(1) [OF assms(1)]
  show "dlist_has_node (st_heap s) timeout_list (link_node i) = Some (i \<in> set (due A))"
    using dlist_has_at [OF familyD [OF fam, of timeout_list]] assms(1)
    by (auto simp: wheel_rel_def)
  have ph: "at_phase s L i (phase A i)" and due: "link_node i \<in> set (L timeout_list) \<longleftrightarrow> i \<in> set (due A)"
    using assms by (auto simp: wheel_rel_def)
  show "phase A i = Due \<longleftrightarrow> i \<in> set (due A)"
  proof (cases "phase A i")
    case Idle
    then show ?thesis using ph due by (auto simp: at_phase_def)
  next
    case (Waiting n)
    then obtain k where "k < 32" "link_node i \<in> set (L (wheel_node k))"
      using ph by (auto simp: at_phase_def)
    then have "link_node i \<notin> set (L timeout_list)"
      using family_disjoint [OF fam, of timeout_list "wheel_node k" "link_node i"] by auto
    then show ?thesis using Waiting due by simp
  next
    case Due
    then show ?thesis using ph due by (simp add: at_phase_def)
  qed
qed

lemma stimer_trigger_ok:
  assumes "stimer_rel s A" and tid: "\<not> invalid_id tid" and used: "si_used (st_info s ! unat tid)"
    and started: "phase A (unat tid) \<noteq> Idle"
  shows "\<exists>s'. stimer_trigger s tid = Some (s', TBOX_E_OK) \<and>
     stimer_rel s' (if phase A (unat tid) = Due then A else timers_set (unat tid) Due A)"
proof -
  let ?i = "unat tid" and ?f = "\<lambda>r. r\<lparr>si_round := 0\<rparr>"
  obtain L where r: "wheel_rel s L A" using assms(1) by (auto simp: stimer_rel_def)
  note i = valid_idD [OF tid]
  have start: "si_start (st_info s ! ?i)"
    using stopped_out(2) [OF r i] started by blast
  show ?thesis
  proof (cases "phase A ?i = Due")
    case True
    then show ?thesis
      using has_timeout [OF r i] assms by (simp add: stimer_trigger_def Let_def)
  next
    case False
    obtain h1 where h1: "dlist_del_entry (st_heap s) (link_node ?i) = Some h1"
        "family dlist_at h1 heads (\<lambda>d. removeAll (link_node ?i) (L d))"
      using take_out [OF r i] start by auto
    obtain h' where "dlist_add_tail h1 (link_node ?i) timeout_list = Some h'"
        "stimer_rel ((upd_info ?i ?f s)\<lparr>st_heap := h'\<rparr>) (timers_set ?i Due A)"
      using queue_up [OF r i h1(2), of ?f] start by auto
    then show ?thesis
      using False has_timeout [OF r i] h1(1) tid used by (simp add: stimer_trigger_def Let_def)
  qed
qed

lemma stimer_clear_ok:
  assumes "stimer_rel s A" and tid: "\<not> invalid_id tid" and used: "si_used (st_info s ! unat tid)"
  shows "\<exists>s'. stimer_clear s tid = Some (s', TBOX_E_OK) \<and>
     stimer_rel s' (if phase A (unat tid) = Due
       then timers_set (unat tid) (Waiting (unat (si_period (st_info s ! unat tid)))) A else A)"
proof -
  let ?i = "unat tid"
  let ?p = "si_period (st_info s ! ?i)"
  let ?f = "\<lambda>r. r\<lparr>si_round := ?p div 32\<rparr>"
  obtain L where r: "wheel_rel s L A" using assms(1) by (auto simp: stimer_rel_def)
  note i = valid_idD [OF tid]
  show ?thesis
  proof (cases "phase A ?i = Due")
    case False
    then show ?thesis
      using has_timeout [OF r i] assms by (simp add: stimer_clear_def Let_def)
  next
    case True
    then have start: "si_start (st_info s ! ?i)"
      using stopped_out(2) [OF r i] by (metis phase.distinct(3))
    obtain h1 where h1: "dlist_del_entry (st_heap s) (link_node ?i) = Some h1"
        "family dlist_at h1 heads (\<lambda>d. removeAll (link_node ?i) (L d))"
      using take_out [OF r i] start by auto
    obtain h' where "dlist_add_tail h1 (link_node ?i) (wheel_node (slot_for s ?p)) = Some h'"
        "stimer_rel ((upd_info ?i ?f s)\<lparr>st_heap := h'\<rparr>) (timers_set ?i (Waiting (unat ?p)) A)"
      using arm [OF r i h1(2), of ?f ?p] start by auto
    moreover have "slot_for (upd_info ?i ?f s) ?p = slot_for s ?p" by (simp add: slot_for_def)
    ultimately show ?thesis
      using True has_timeout [OF r i] h1(1) tid used by (simp add: stimer_clear_def Let_def)
  qed
qed

section \<open>The interrupt\<close>

definition tick_info :: "stimer_info \<Rightarrow> stimer_info" where
  "tick_info r = (if 0 < si_round r then r\<lparr>si_round := si_round r - 1\<rparr>
                  else r\<lparr>si_active_count := si_active_count r + 1\<rparr>)"

lemma tick_info_simps [simp]:
  "si_start (tick_info r) = si_start r" "si_used (tick_info r) = si_used r"
  "si_type (tick_info r) = si_type r" "si_period (tick_info r) = si_period r"
  "si_callback (tick_info r) = si_callback r"
  by (simp_all add: tick_info_def)

lemma tick_body_step:
  assumes fam: "family dlist_at (st_heap s) heads L" and len: "length (st_info s) = TBOX_STIMER_NUMBER"
    and k: "k < 32" and L: "L (wheel_node k) = link_node i # ps" and i: "i < TBOX_STIMER_NUMBER"
    and st: "si_start (st_info s ! i)"
  shows "\<exists>h'. tick_body (wheel_node k) s = Some (s\<lparr>st_info := (st_info s)[i := tick_info (st_info s ! i)], st_heap := h'\<rparr>) \<and>
     family dlist_at h' heads
       (if 0 < si_round (st_info s ! i) then L(wheel_node k := ps @ [link_node i])
        else L(wheel_node k := ps, timeout_list := L timeout_list @ [link_node i]))"
proof -
  let ?d = "wheel_node k"
  have d: "?d \<in> heads" using k by simp
  obtain h1 where h1: "dlist_del_entry (st_heap s) (link_node i) = Some h1"
      "family dlist_at h1 heads (L(?d := ps))"
    using dtail.family_del [OF fam d, of "[]" "link_node i" ps] L by auto
  have pop: "dlist_pop_first_node (st_heap s) ?d = Some (h1, link_node i)"
    using dlist_pop_first_Cons [of "st_heap s" ?d "link_node i" ps] familyD [OF fam d] L h1(1) by simp
  have "link_node i \<notin> set (d' # (L(?d := ps)) d')" if "d' \<in> heads" for d'
    using dtail.family_del_fresh [OF fam d _ that, of "[]" "link_node i" ps] L by simp
  then have fresh: "\<forall>d'\<in>heads. link_node i \<notin> set ((L(?d := ps)) d')" by simp
  show ?thesis
  proof (cases "0 < si_round (st_info s ! i)")
    case True
    obtain h2 where "dlist_add_tail h1 (link_node i) ?d = Some h2"
        "family dlist_at h2 heads ((L(?d := ps))(?d := (L(?d := ps)) ?d @ [link_node i]))"
      using attach [OF h1(2) d fresh] by blast
    then show ?thesis
      using True pop i st
      by (intro exI [of _ h2]) (simp add: tick_body_def Let_def tick_info_def upd_info_def)
  next
    case False
    obtain h2 where "dlist_add_tail h1 (link_node i) timeout_list = Some h2"
        "family dlist_at h2 heads
          ((L(?d := ps))(timeout_list := (L(?d := ps)) timeout_list @ [link_node i]))"
      using attach [OF h1(2) heads_simps(1) fresh] by blast
    then show ?thesis
      using False pop i st k
      by (intro exI [of _ h2]) (simp add: tick_body_def Let_def tick_info_def upd_info_def)
  qed
qed

lemma tick_loop:
  assumes "family dlist_at (st_heap s) heads L" and "length (st_info s) = TBOX_STIMER_NUMBER"
    and k: "k < 32" and "L (wheel_node k) = map link_node is @ ys"
    and "\<forall>i\<in>set is. i < TBOX_STIMER_NUMBER \<and> si_start (st_info s ! i)" and "distinct is"
  shows "\<exists>h' infos L'. for_up j (length is) (\<lambda>_. tick_body (wheel_node k)) s =
       Some (s\<lparr>st_info := infos, st_heap := h'\<rparr>) \<and>
     family dlist_at h' heads L' \<and> length infos = TBOX_STIMER_NUMBER \<and>
     (\<forall>i<TBOX_STIMER_NUMBER. infos ! i = (if i \<in> set is then tick_info (st_info s ! i) else st_info s ! i)) \<and>
     (\<forall>d\<in>heads. L' d =
        (if d = wheel_node k then ys @ map link_node [i \<leftarrow> is. 0 < si_round (st_info s ! i)]
         else if d = timeout_list then L d @ map link_node [i \<leftarrow> is. si_round (st_info s ! i) = 0]
         else L d))"
  using assms
proof (induction "is" arbitrary: s L ys j)
  case Nil
  then show ?case by (intro exI [of _ "st_heap s"] exI [of _ "st_info s"] exI [of _ L]) simp
next
  case (Cons i is')
  note p = Cons.prems
  let ?d = "wheel_node k" and ?ps = "map link_node is' @ ys"
  let ?infos = "(st_info s)[i := tick_info (st_info s ! i)]"
  let ?L1 = "if 0 < si_round (st_info s ! i) then L(?d := ?ps @ [link_node i])
     else L(?d := ?ps, timeout_list := L timeout_list @ [link_node i])"
  have i: "i < TBOX_STIMER_NUMBER" "si_start (st_info s ! i)" "i \<notin> set is'" using p by auto
  obtain h1 where h1: "tick_body ?d s = Some (s\<lparr>st_info := ?infos, st_heap := h1\<rparr>)"
      "family dlist_at h1 heads ?L1"
    using tick_body_step [OF p(1) p(2) k, of i ?ps] p(4) i by auto
  let ?s1 = "s\<lparr>st_info := ?infos, st_heap := h1\<rparr>"
  have other: "?infos ! i' = st_info s ! i'" if "i' \<in> set is'" for i' using i(3) that by (metis nth_list_update_neq)
  let ?ys = "if 0 < si_round (st_info s ! i) then ys @ [link_node i] else ys"
  have "family dlist_at (st_heap ?s1) heads ?L1" "length (st_info ?s1) = TBOX_STIMER_NUMBER"
      "?L1 ?d = map link_node is' @ ?ys"
      "\<forall>i\<in>set is'. i < TBOX_STIMER_NUMBER \<and> si_start (st_info ?s1 ! i)" "distinct is'"
    using p h1(2) k other by auto
  from Cons.IH [OF this(1,2) k this(3-5), of "Suc j"]
  obtain h' infos L' where IH: "for_up (Suc j) (length is') (\<lambda>_. tick_body ?d) ?s1 =
        Some (?s1\<lparr>st_info := infos, st_heap := h'\<rparr>)"
      "family dlist_at h' heads L'" "length infos = TBOX_STIMER_NUMBER"
      "\<forall>i'<TBOX_STIMER_NUMBER. infos ! i' =
        (if i' \<in> set is' then tick_info (st_info ?s1 ! i') else st_info ?s1 ! i')"
      "\<forall>d\<in>heads. L' d =
        (if d = ?d then ?ys @ map link_node [i \<leftarrow> is'. 0 < si_round (st_info ?s1 ! i)]
         else if d = timeout_list then ?L1 d @ map link_node [i \<leftarrow> is'. si_round (st_info ?s1 ! i) = 0]
         else ?L1 d)"
    by blast
  have info1: "st_info ?s1 = ?infos" by simp
  note IH = IH [unfolded info1]
  have f: "[i \<leftarrow> is'. 0 < si_round (?infos ! i)] = [i \<leftarrow> is'. 0 < si_round (st_info s ! i)]"
      "[i \<leftarrow> is'. si_round (?infos ! i) = 0] = [i \<leftarrow> is'. si_round (st_info s ! i) = 0]"
    by (rule filter_cong; use other in simp)+
  have "for_up j (length (i # is')) (\<lambda>_. tick_body ?d) s = Some (s\<lparr>st_info := infos, st_heap := h'\<rparr>)"
    using h1(1) IH(1) by simp
  moreover have "\<forall>i'<TBOX_STIMER_NUMBER. infos ! i' =
      (if i' \<in> set (i # is') then tick_info (st_info s ! i') else st_info s ! i')"
    using IH(4) i p(2) by (auto simp: other)
  moreover have "\<forall>d\<in>heads. L' d =
        (if d = ?d then ys @ map link_node [i \<leftarrow> i # is'. 0 < si_round (st_info s ! i)]
         else if d = timeout_list then L d @ map link_node [i \<leftarrow> i # is'. si_round (st_info s ! i) = 0]
         else L d)"
    using IH(5) k unfolding f by (auto simp: word_gt_0)
  ultimately show ?case using IH(2,3) by blast
qed

lemma wheel_slot_timers:
  assumes r: "wheel_rel s L A" and d: "d \<in> heads"
  obtains "is" where "L d = map link_node is" and "distinct is"
    and "\<forall>i\<in>set is. i < TBOX_STIMER_NUMBER \<and> si_start (st_info s ! i)"
    and "length is \<le> TBOX_STIMER_NUMBER"
proof -
  have sub: "set (L d) \<subseteq> link_node ` {..<TBOX_STIMER_NUMBER}"
    using r d by (simp add: wheel_rel_def wheel_inv_def)
  then have "L d = map link_node (map (\<lambda>p. p - 34) (L d))"
    by (intro nth_equalityI) (auto simp: link_node_def subset_iff dest!: nth_mem)
  then obtain "is" where L: "L d = map link_node is" by blast
  have "distinct (L d)" using familyD [OF wheel_relD(1) [OF r] d] by (simp add: dlist_at_def)
  then have dist: "distinct is" using L by (simp add: distinct_map)
  have lt: "\<forall>i\<in>set is. i < TBOX_STIMER_NUMBER"
    using sub L by auto
  have st: "\<forall>i\<in>set is. si_start (st_info s ! i)"
    using stopped_out(1) [OF r _ _ d] lt L by auto
  have "card (set is) \<le> card {..<TBOX_STIMER_NUMBER}"
    by (rule card_mono) (use lt in auto)
  then have "length is \<le> TBOX_STIMER_NUMBER" by (simp add: distinct_card [OF dist])
  with that L dist lt st show ?thesis by blast
qed

lemma slot_turn:
  fixes k k' n :: nat
  assumes "k < 32" and "k' < 32"
  shows "k' = k \<Longrightarrow> (k' + 32 - k) mod 32 = 0"
    and "k' = k \<Longrightarrow> (k' + 32 - (k + 1) mod 32) mod 32 = 31"
    and "k' \<noteq> k \<Longrightarrow> Suc ((k' + 32 - (k + 1) mod 32) mod 32) = (k' + 32 - k) mod 32"
proof -
  show "(k' + 32 - (k + 1) mod 32) mod 32 = 31" if "k' = k"
    using that assms by (cases "k = 31") (simp_all add: mod_if)
  show "Suc ((k' + 32 - (k + 1) mod 32) mod 32) = (k' + 32 - k) mod 32" if "k' \<noteq> k"
    using that assms by (cases "k = 31"; cases "k' < k") (auto simp: mod_if)
qed simp

lemma phase_after_tick:
  assumes r: "wheel_rel s L A" and i: "i < TBOX_STIMER_NUMBER"
    and k: "k = unat (st_slot s)" and "is": "L (wheel_node k) = map link_node is"
    and L': "\<forall>d\<in>heads. L' d =
        (if d = wheel_node k then map link_node [i \<leftarrow> is. 0 < si_round (st_info s ! i)]
         else if d = timeout_list then L d @ map link_node [i \<leftarrow> is. si_round (st_info s ! i) = 0]
         else L d)"
    and info: "st_info s' ! i = (if i \<in> set is then tick_info (st_info s ! i) else st_info s ! i)"
    and slot: "unat (st_slot s') = (k + 1) mod 32"
  shows "at_phase s' L' i (phase_tick (phase A i))"
    "i \<in> set is \<and> si_round (st_info s ! i) = 0 \<longleftrightarrow> phase A i = Waiting 0"
proof -
  have k32: "k < 32" using wheel_relD(3) [OF r] k by simp
  have at: "at_phase s L i (phase A i)" using r i by (simp add: wheel_rel_def)
  have in_is: "i \<in> set is \<longleftrightarrow> link_node i \<in> set (L (wheel_node k))" using "is" by auto
  have alone: "d = d'" if "d \<in> heads" "d' \<in> heads" "link_node i \<in> set (L d)" "link_node i \<in> set (L d')" for d d'
    using family_disjoint [OF wheel_relD(1) [OF r] that(1,2), of "link_node i"] that by simp
  have "at_phase s' L' i (phase_tick (phase A i)) \<and>
    (i \<in> set is \<and> si_round (st_info s ! i) = 0 \<longleftrightarrow> phase A i = Waiting 0)"
  proof (cases "phase A i")
    case Idle
    then have "\<not> si_start (st_info s ! i)" and out: "\<forall>d\<in>heads. link_node i \<notin> set (L d)"
      using at by (auto simp: at_phase_def)
    moreover have "i \<notin> set is" using in_is out k32 by auto
    ultimately show ?thesis using Idle info L' by (auto simp: at_phase_def)
  next
    case Due
    then have t: "si_start (st_info s ! i)" "link_node i \<in> set (L timeout_list)"
      using at by (auto simp: at_phase_def)
    then have "i \<notin> set is" using alone [of timeout_list "wheel_node k"] in_is k32 by auto
    then show ?thesis using Due t info L' k32 by (auto simp: at_phase_def)
  next
    case (Waiting n)
    then obtain k' where st: "si_start (st_info s ! i)" and k': "k' < 32" "link_node i \<in> set (L (wheel_node k'))"
        "n = unat (si_round (st_info s ! i)) * 32 + (k' + 32 - k) mod 32"
      using at k by (auto simp: at_phase_def)
    show ?thesis
    proof (cases "k' = k")
      case False
      then have "i \<notin> set is" using alone [of "wheel_node k'" "wheel_node k"] in_is k' k32 by auto
      moreover obtain m where m: "n = Suc m"
          "m = unat (si_round (st_info s ! i)) * 32 + (k' + 32 - (k + 1) mod 32) mod 32"
        using slot_turn(3) [OF k32 k'(1) False] k'(3) by (metis add_Suc_right)
      ultimately show ?thesis
        using Waiting st k'(1,2) False info L' slot by (auto simp: at_phase_def)
    next
      case True
      then have "is": "i \<in> set is" using in_is k' by auto
      have n: "n = unat (si_round (st_info s ! i)) * 32" using slot_turn(1) [OF k32 k'(1) True] k'(3) by simp
      show ?thesis
      proof (cases "si_round (st_info s ! i) = 0")
        case True
        then show ?thesis
          using Waiting n "is" st info L' k32 by (auto simp: at_phase_def tick_info_def)
      next
        case False
        then have r: "unat (si_round (st_info s ! i)) = Suc (unat (si_round (st_info s ! i) - 1))"
          by (metis Suc_pred' unat_gt_0 unat_minus_one)
        then have "n = Suc (unat (si_round (st_info s ! i) - 1) * 32 + 31)" using n by simp
        then have A: "phase_tick (phase A i) = Waiting (unat (si_round (st_info s ! i) - 1) * 32 + 31)"
            "phase A i \<noteq> Waiting 0"
          unfolding Waiting by (simp_all only: phase_tick.simps phase.inject nat.distinct not_False_eq_True)
        have "at_phase s' L' i (Waiting (unat (si_round (st_info s ! i) - 1) * 32 + 31))"
          using "is" st info L' k32 slot False slot_turn(2) [OF k32 k32 refl]
          by (auto simp: at_phase_def tick_info_def word_gt_0 intro!: exI [of _ k])
        then show ?thesis using A False by simp
      qed
    qed
  qed
  then show "at_phase s' L' i (phase_tick (phase A i))"
    "i \<in> set is \<and> si_round (st_info s ! i) = 0 \<longleftrightarrow> phase A i = Waiting 0" by auto
qed

definition timers_tick :: "nat list \<Rightarrow> timers \<Rightarrow> timers" where
  "timers_tick new A = \<lparr>phase = \<lambda>i. phase_tick (phase A i), due = due A @ new\<rparr>"

text \<open>What an operation of the interrupt or the task leaves alone in every timer.\<close>

definition same_setup :: "stimer \<Rightarrow> stimer \<Rightarrow> bool" where
  "same_setup s s' \<longleftrightarrow> (\<forall>i<TBOX_STIMER_NUMBER.
     si_used (st_info s' ! i) = si_used (st_info s ! i) \<and>
     si_type (st_info s' ! i) = si_type (st_info s ! i) \<and>
     si_callback (st_info s' ! i) = si_callback (st_info s ! i))"

lemma interrupt_ok:
  assumes "stimer_rel s A"
  shows "\<exists>s' new. tbox_stimer_interrupt s = Some s' \<and> stimer_rel s' (timers_tick new A) \<and>
     distinct new \<and> set new = {i. i < TBOX_STIMER_NUMBER \<and> phase A i = Waiting 0} \<and>
     same_setup s s' \<and>
     (\<forall>i<TBOX_STIMER_NUMBER. si_period (st_info s' ! i) = si_period (st_info s ! i)) \<and>
     st_notes s' = (if due A @ new \<noteq> [] \<and> st_task s \<noteq> 0
        then (st_notes s)(st_task s := notify_set (st_notes s (st_task s)) STIMER_EVENT_INPUT)
        else st_notes s)"
proof -
  obtain L where r: "wheel_rel s L A" using assms by (auto simp: stimer_rel_def)
  note rD = wheel_relD [OF r]
  define k where "k = unat (st_slot s)"
  have k: "k < 32" using rD(3) k_def by simp
  then have d: "wheel_node k \<in> heads" by simp
  obtain "is" where "is": "L (wheel_node k) = map link_node is" "distinct is"
      "\<forall>i\<in>set is. i < TBOX_STIMER_NUMBER \<and> si_start (st_info s ! i)" "length is \<le> TBOX_STIMER_NUMBER"
    using wheel_slot_timers [OF r d] by blast
  obtain h' infos L' where loop: "for_up 0 (length is) (\<lambda>_. tick_body (wheel_node k)) s =
       Some (s\<lparr>st_info := infos, st_heap := h'\<rparr>)"
     "family dlist_at h' heads L'" "length infos = TBOX_STIMER_NUMBER"
     "\<forall>i<TBOX_STIMER_NUMBER. infos ! i = (if i \<in> set is then tick_info (st_info s ! i) else st_info s ! i)"
     "\<forall>d\<in>heads. L' d =
        (if d = wheel_node k then map link_node [i \<leftarrow> is. 0 < si_round (st_info s ! i)]
         else if d = timeout_list then L d @ map link_node [i \<leftarrow> is. si_round (st_info s ! i) = 0]
         else L d)"
    using tick_loop [OF rD(1,2) k, of "is" "[]" 0] "is" by auto
  let ?s1 = "s\<lparr>st_info := infos, st_heap := h', st_slot := (st_slot s + 1) mod 32\<rparr>"
  define new where "new = [i \<leftarrow> is. si_round (st_info s ! i) = 0]"
  have slot: "unat (st_slot ?s1) = (k + 1) mod 32"
    using k by (simp add: k_def unat_mod_distrib unat_plus_if_fits)
  have ph: "at_phase ?s1 L' i (phase_tick (phase A i))"
      "i \<in> set is \<and> si_round (st_info s ! i) = 0 \<longleftrightarrow> phase A i = Waiting 0"
    if "i < TBOX_STIMER_NUMBER" for i
    using phase_after_tick [OF r that k_def "is"(1) loop(5) _ slot] loop(4) that by auto
  have "set (L d) \<subseteq> link_node ` {..<TBOX_STIMER_NUMBER}" if "d \<in> heads" for d
    using r that by (simp add: wheel_rel_def wheel_inv_def)
  then have inv: "wheel_inv ?s1 L'"
    unfolding wheel_inv_def using loop "is" slot by auto
  have t: "L' timeout_list = map link_node (due A @ new)"
    using loop(5) r k by (simp add: wheel_rel_def new_def)
  have rel: "wheel_rel ?s1 L' (timers_tick new A)"
    unfolding wheel_rel_def using inv t ph(1) by (simp add: timers_tick_def)
  have "dlist_count (st_heap s) (wheel_node k) = Some (of_nat (length is))"
    using dlist_count_at [OF familyD [OF rD(1) d]] "is"(1) by simp
  moreover have "unat (of_nat (length is) :: u32) = length is"
    using "is"(4) by (simp add: unat_of_nat TBOX_STIMER_NUMBER_def)
  moreover have "dlist_empty h' timeout_list \<longleftrightarrow> due A @ new = []"
    using dlist_empty_iff [OF familyD [OF loop(2), of timeout_list]] t by simp
  ultimately have run: "tbox_stimer_interrupt s = Some (if due A @ new \<noteq> [] \<and> st_task s \<noteq> 0
      then ?s1\<lparr>st_notes := (st_notes s)(st_task s := notify_set (st_notes s (st_task s)) STIMER_EVENT_INPUT)\<rparr>
      else ?s1)"
    using loop(1) by (simp add: tbox_stimer_interrupt_def Let_def k_def)
  have noted: "wheel_rel (?s1\<lparr>st_notes := n\<rparr>) L' (timers_tick new A)" for n
    using rel wheel_rel_cong [of "?s1\<lparr>st_notes := n\<rparr>" ?s1] by simp
  let ?s2 = "if due A @ new \<noteq> [] \<and> st_task s \<noteq> 0
      then ?s1\<lparr>st_notes := (st_notes s)(st_task s := notify_set (st_notes s (st_task s)) STIMER_EVENT_INPUT)\<rparr>
      else ?s1"
  have "stimer_rel ?s2 (timers_tick new A)"
    using rel noted by (auto simp: stimer_rel_def)
  moreover have "distinct new" using "is"(2) by (simp add: new_def)
  moreover have "set new = {i. i < TBOX_STIMER_NUMBER \<and> phase A i = Waiting 0}"
    using ph(2) "is"(3) unfolding new_def by auto
  moreover have "same_setup s ?s2" using loop(4) by (simp add: same_setup_def)
  moreover have "\<forall>i<TBOX_STIMER_NUMBER. si_period (st_info ?s2 ! i) = si_period (st_info s ! i)"
    using loop(4) by simp
  moreover have "st_notes ?s2 = (if due A @ new \<noteq> [] \<and> st_task s \<noteq> 0
      then (st_notes s)(st_task s := notify_set (st_notes s (st_task s)) STIMER_EVENT_INPUT)
      else st_notes s)" by simp
  ultimately show ?thesis unfolding run by blast
qed

text \<open>\<open>n\<close> ticks with nothing in between.\<close>

fun stimer_ticks :: "nat \<Rightarrow> stimer \<Rightarrow> stimer option" where
  "stimer_ticks 0 s = Some s"
| "stimer_ticks (Suc n) s = do { s \<leftarrow> tbox_stimer_interrupt s; stimer_ticks n s }"

lemma phase_ticks_idle [simp]: "(phase_tick ^^ n) Idle = Idle" "(phase_tick ^^ n) Due = Due"
  by (induction n) simp_all

lemma phase_ticks_waiting: "(phase_tick ^^ n) (Waiting m) = (if n \<le> m then Waiting (m - n) else Due)"
proof (induction n arbitrary: m)
  case (Suc n)
  then show ?case by (cases m) (simp_all add: funpow_Suc_right del: funpow.simps)
qed simp

lemma same_setup_trans: "same_setup s s1 \<Longrightarrow> same_setup s1 s2 \<Longrightarrow> same_setup s s2"
  by (simp add: same_setup_def)

lemma stimer_ticks_ok:
  assumes "stimer_rel s A"
  shows "\<exists>s' A'. stimer_ticks n s = Some s' \<and> stimer_rel s' A' \<and> same_setup s s' \<and>
     (\<forall>i. phase A' i = (phase_tick ^^ n) (phase A i)) \<and>
     (\<forall>i<TBOX_STIMER_NUMBER. si_period (st_info s' ! i) = si_period (st_info s ! i))"
  using assms
proof (induction n arbitrary: s A)
  case 0
  then show ?case by (auto simp: same_setup_def)
next
  case (Suc n)
  obtain s1 new where s1: "tbox_stimer_interrupt s = Some s1" "stimer_rel s1 (timers_tick new A)"
      "same_setup s s1"
      "\<forall>i<TBOX_STIMER_NUMBER. si_period (st_info s1 ! i) = si_period (st_info s ! i)"
    using interrupt_ok [OF Suc.prems] by blast
  obtain s' A' where s': "stimer_ticks n s1 = Some s'" "stimer_rel s' A'" "same_setup s1 s'"
      "\<forall>i. phase A' i = (phase_tick ^^ n) (phase (timers_tick new A) i)"
      "\<forall>i<TBOX_STIMER_NUMBER. si_period (st_info s' ! i) = si_period (st_info s1 ! i)"
    using Suc.IH [OF s1(2)] by blast
  have "\<forall>i. phase A' i = (phase_tick ^^ Suc n) (phase A i)"
    using s'(4) by (simp add: timers_tick_def funpow_Suc_right del: funpow.simps)
  then show ?case using s1 s' same_setup_trans by auto
qed

section \<open>The task\<close>

lemma due_facts:
  assumes r: "wheel_rel s L A" and due: "due A = i # q"
  shows "i < TBOX_STIMER_NUMBER" "i \<notin> set q" "distinct q" "si_start (st_info s ! i)"
    "removeAll i (due A) = q"
proof -
  have L: "L timeout_list = link_node i # map link_node q" using r due by (simp add: wheel_rel_def)
  have "distinct (L timeout_list)"
    using familyD [OF wheel_relD(1) [OF r], of timeout_list] by (simp add: dlist_at_def)
  then show iq: "i \<notin> set q" "distinct q" using L by (auto simp: distinct_map)
  then show "removeAll i (due A) = q" using due by simp
  have "\<forall>d\<in>heads. set (L d) \<subseteq> link_node ` {..<TBOX_STIMER_NUMBER}"
    using r unfolding wheel_rel_def wheel_inv_def by blast
  then have "set (L timeout_list) \<subseteq> link_node ` {..<TBOX_STIMER_NUMBER}"
    using heads_simps(1) by blast
  then show i: "i < TBOX_STIMER_NUMBER" using L by auto
  then show "si_start (st_info s ! i)"
    using stopped_out(1) [OF r i, of timeout_list] L by auto
qed

definition next_phase :: "stimer_info \<Rightarrow> phase" where
  "next_phase r = (if si_type r = STIMER_TYPE_PERIOD then Waiting (unat (fst (rearm_period r))) else Idle)"

lemma task_round_ok:
  assumes "stimer_rel s A"
  shows "due A = [] \<Longrightarrow> task_round s = Some (s, Drained)"
    and "due A = i # q \<Longrightarrow> \<exists>s'. task_round s = Some (s', Call (si_callback (st_info s ! i))) \<and>
       stimer_rel s' (timers_set i (next_phase (st_info s ! i)) A) \<and> same_setup s s' \<and>
       (\<forall>j<TBOX_STIMER_NUMBER. j \<noteq> i \<longrightarrow> st_info s' ! j = st_info s ! j)"
proof -
  obtain L where r: "wheel_rel s L A" using assms by (auto simp: stimer_rel_def)
  note fam = wheel_relD(1) [OF r] and len = wheel_relD(2) [OF r]
  have L: "L timeout_list = map link_node (due A)" using r by (simp add: wheel_rel_def)
  show "task_round s = Some (s, Drained)" if "due A = []"
    using dlist_pop_first_Nil [of "st_heap s" timeout_list] familyD [OF fam, of timeout_list] L that
    by (simp add: task_round_def)
  assume due: "due A = i # q"
  note i = due_facts [OF r due]
  let ?r = "st_info s ! i"
  obtain h1 where h1: "dlist_del_entry (st_heap s) (link_node i) = Some h1"
      "family dlist_at h1 heads (\<lambda>d. removeAll (link_node i) (L d))"
    using take_out [OF r i(1)] i(4) by auto
  have pop: "dlist_pop_first_node (st_heap s) timeout_list = Some (h1, link_node i)"
    using dlist_pop_first_Cons [of "st_heap s" timeout_list "link_node i" "map link_node q"]
      familyD [OF fam, of timeout_list] L due h1(1) by simp
  show "\<exists>s'. task_round s = Some (s', Call (si_callback ?r)) \<and>
       stimer_rel s' (timers_set i (next_phase ?r) A) \<and> same_setup s s' \<and>
       (\<forall>j<TBOX_STIMER_NUMBER. j \<noteq> i \<longrightarrow> st_info s' ! j = st_info s ! j)"
  proof (cases "si_type ?r = STIMER_TYPE_PERIOD")
    case True
    obtain p z where p: "rearm_period ?r = (p, z)" by fastforce
    let ?f = "\<lambda>r. r\<lparr>si_active_count := (if z then 0 else si_active_count r), si_round := p div 32\<rparr>"
    obtain h' where h': "dlist_add_tail h1 (link_node i) (wheel_node (slot_for s p)) = Some h'"
        "stimer_rel ((upd_info i ?f s)\<lparr>st_heap := h'\<rparr>) (timers_set i (Waiting (unat p)) A)"
      using arm [OF r i(1) h1(2), of ?f p] i(4) by auto
    have "slot_for (upd_info i ?f (s\<lparr>st_heap := h1\<rparr>)) p = slot_for s p"
      by (simp add: slot_for_def)
    then have "task_round s = Some ((upd_info i ?f s)\<lparr>st_heap := h'\<rparr>, Call (si_callback ?r))"
      using True pop i p h'(1) by (simp add: task_round_def Let_def upd_info_def)
    then show ?thesis
      using h'(2) True p i(1) len
      by (intro exI [of _ "(upd_info i ?f s)\<lparr>st_heap := h'\<rparr>"]) (simp add: next_phase_def same_setup_def)
  next
    case False
    let ?f = "\<lambda>r. r\<lparr>si_start := False, si_round := 0, si_period := 0\<rparr>"
    have "stimer_rel ((upd_info i ?f s)\<lparr>st_heap := h1\<rparr>) (timers_set i Idle A)"
      using disarm [OF r i(1) h1(2), of ?f] by simp
    moreover have "task_round s = Some ((upd_info i ?f s)\<lparr>st_heap := h1\<rparr>, Call (si_callback ?r))"
      using False pop i by (simp add: task_round_def Let_def upd_info_def)
    ultimately show ?thesis
      using False i(1) len
      by (intro exI [of _ "(upd_info i ?f s)\<lparr>st_heap := h1\<rparr>"]) (simp add: next_phase_def same_setup_def)
  qed
qed

lemma task_drain_ok:
  assumes cb: "\<And>f s A. stimer_rel s A \<Longrightarrow>
      \<exists>s' A'. cb f s = Some s' \<and> stimer_rel s' A' \<and> length (due A') \<le> length (due A)"
    and "stimer_rel s A"
  shows "\<exists>s' A'. task_drain cb s = Some s' \<and> stimer_rel s' A' \<and> due A' = []"
  using assms(2)
proof (induction "length (due A)" arbitrary: s A rule: less_induct)
  case less
  show ?case
  proof (cases "due A")
    case Nil
    then show ?thesis
      using task_round_ok(1) [OF less.prems Nil] less.prems by (subst task_drain.simps) auto
  next
    case (Cons i q)
    let ?f = "si_callback (st_info s ! i)" and ?A1 = "timers_set i (next_phase (st_info s ! i)) A"
    obtain s1 where s1: "task_round s = Some (s1, Call ?f)" "stimer_rel s1 ?A1"
      using task_round_ok(2) [OF less.prems Cons] by blast
    obtain L where "wheel_rel s L A" using less.prems by (auto simp: stimer_rel_def)
    then have d1: "length (due ?A1) < length (due A)"
      using due_facts(5) [of s L A i q] Cons by (simp add: timers_set_def next_phase_def)
    show ?thesis
    proof (cases "?f = 0")
      case True
      then show ?thesis
        using less.hyps [OF d1 s1(2)] s1(1) by (subst task_drain.simps) simp
    next
      case False
      obtain s2 A2 where s2: "cb ?f s1 = Some s2" "stimer_rel s2 A2" "length (due A2) \<le> length (due ?A1)"
        using cb [OF s1(2)] by blast
      then have "length (due A2) < length (due A)" using d1 by simp
      from less.hyps [OF this s2(2)] show ?thesis
        using s1(1) s2(1) False by (subst task_drain.simps) simp
    qed
  qed
qed

section \<open>Start-up and new timers\<close>

definition idle_timers :: timers where
  "idle_timers = \<lparr>phase = \<lambda>_. Idle, due = []\<rparr>"

lemma init_heads:
  "\<exists>h'. for_up 0 n (\<lambda>i h. dlist_init h (wheel_node i)) h = Some h' \<and>
     (\<forall>k<n. h' (wheel_node k) = \<lparr>prev = wheel_node k, nxt = wheel_node k\<rparr>)"
proof -
  have "\<exists>h'. for_up 0 n (\<lambda>i h. dlist_init h (wheel_node i)) h = Some h' \<and>
     (\<forall>k<0 + n. h' (wheel_node k) = \<lparr>prev = wheel_node k, nxt = wheel_node k\<rparr>)"
    by (rule for_up_inv [where I = "\<lambda>j h. \<forall>k<j. h (wheel_node k) = \<lparr>prev = wheel_node k, nxt = wheel_node k\<rparr>"])
      (auto simp: dlist_init_def st_next_def st_prev_def less_Suc_eq dlist_node_eq_iff)
  then show ?thesis by simp
qed

lemma init_infos:
  assumes "length (st_info s) = TBOX_STIMER_NUMBER"
  shows "\<exists>s'. for_up 0 TBOX_STIMER_NUMBER (\<lambda>i s. do {
            let s = upd_info i reset_info s;
            h \<leftarrow> dlist_init (st_heap s) (wheel_node i);
            Some (s\<lparr>st_heap := h\<rparr>)
          }) s = Some s' \<and>
     length (st_info s') = TBOX_STIMER_NUMBER \<and>
     (\<forall>i<0 + TBOX_STIMER_NUMBER. \<not> si_used (st_info s' ! i) \<and> \<not> si_start (st_info s' ! i))"
  by (rule for_up_inv [where I = "\<lambda>j s. length (st_info s) = TBOX_STIMER_NUMBER \<and>
        (\<forall>i<j. \<not> si_used (st_info s ! i) \<and> \<not> si_start (st_info s ! i))"])
    (use assms in \<open>auto simp: dlist_init_def st_next_def st_prev_def less_Suc_eq Let_def reset_info_def\<close>)

lemma inner_init_ok:
  assumes "length (st_info s) = TBOX_STIMER_NUMBER"
  shows "\<exists>s'. tbox_stimer_inner_init s = Some (s', TBOX_E_OK) \<and> stimer_rel s' idle_timers \<and>
     (\<forall>i<TBOX_STIMER_NUMBER. \<not> si_used (st_info s' ! i))"
proof -
  obtain s1 where s1: "for_up 0 TBOX_STIMER_NUMBER (\<lambda>i s. do {
            let s = upd_info i reset_info s;
            h \<leftarrow> dlist_init (st_heap s) (wheel_node i);
            Some (s\<lparr>st_heap := h\<rparr>)
          }) s = Some s1"
      "length (st_info s1) = TBOX_STIMER_NUMBER"
      "\<forall>i<TBOX_STIMER_NUMBER. \<not> si_used (st_info s1 ! i) \<and> \<not> si_start (st_info s1 ! i)"
    using init_infos [OF assms] by auto
  obtain h2 where h2: "for_up 0 32 (\<lambda>i h. dlist_init h (wheel_node i)) (st_heap s1) = Some h2"
      "\<forall>k<32. h2 (wheel_node k) = \<lparr>prev = wheel_node k, nxt = wheel_node k\<rparr>"
    using init_heads by blast
  obtain h3 where h3: "dlist_init h2 timeout_list = Some h3" "dlist_at h3 timeout_list []"
      "\<forall>p. p \<noteq> timeout_list \<longrightarrow> h3 p = h2 p"
    using dlist_init_at [of timeout_list h2] by auto
  let ?s = "stimer_call [Drv_timer_set_cfg 0 1, Drv_timer_attach_interrupt, Drv_timer_init]
     (s1\<lparr>st_heap := h3, st_slot := 0\<rparr>)"
  have "dlist_at h3 d []" if "d \<in> heads" for d
    using that h2(2) h3(2,3) by (auto simp: heads_def dlist_at_def node_simps(4) [symmetric])
  then have "family dlist_at h3 heads (\<lambda>_. [])"
    by (auto simp: family_def)
  then have "wheel_rel ?s (\<lambda>_. []) idle_timers"
    using s1 by (simp add: wheel_rel_def wheel_inv_def at_phase_def idle_timers_def stimer_call_def)
  then have "stimer_rel ?s idle_timers" by (auto simp: stimer_rel_def)
  moreover have "tbox_stimer_inner_init s = Some (?s, TBOX_E_OK)"
    unfolding tbox_stimer_inner_init_def TBOX_STIMER_WHEEL_SLOTE_NUM_def
    using s1(1) h2(1) h3(1) by (simp add: Let_def)
  moreover have "\<forall>i<TBOX_STIMER_NUMBER. \<not> si_used (st_info ?s ! i)"
    using s1(3) by (simp add: stimer_call_def)
  ultimately show ?thesis by blast
qed

lemma free_timer_bound:
  "free_timer infos k = Some i \<Longrightarrow>
    k \<le> i \<and> i < k + length infos \<and> \<not> si_used (infos ! (i - k)) \<and> (\<forall>j<i - k. si_used (infos ! j))"
proof (induction infos k rule: free_timer.induct)
  case (2 r rs k)
  show ?case
  proof (cases "si_used r")
    case True
    then have "free_timer rs (k + 1) = Some i" using 2(2) by simp
    from 2(1) [OF _ this] True show ?thesis
      by (auto simp: nth_Cons' Suc_le_eq)
  next
    case False
    then show ?thesis using 2(2) by simp
  qed
qed simp

lemma free_timer_None: "free_timer infos k = None \<longleftrightarrow> (\<forall>r\<in>set infos. si_used r)"
  by (induction infos k rule: free_timer.induct) auto

text \<open>
  A free timer is handed out with nothing left of an earlier use; a timer is never given back,
  so a fresh one is in no list.
\<close>

lemma stimer_create_ok:
  assumes "stimer_rel s A" and "\<forall>i<TBOX_STIMER_NUMBER. si_start (st_info s ! i) \<longrightarrow> si_used (st_info s ! i)"
    and "type = STIMER_TYPE_ONCE \<or> type = STIMER_TYPE_PERIOD" and "f \<noteq> 0"
    and "i < TBOX_STIMER_NUMBER" "\<not> si_used (st_info s ! i)" "\<forall>j<i. si_used (st_info s ! j)"
  shows "\<exists>s'. stimer_create s type f = Some (s', of_nat i) \<and> stimer_rel s' A \<and>
     st_info s' = (st_info s)[i := (st_info s ! i)\<lparr>si_used := True, si_start := False,
        si_type := type, si_round := 0, si_period := 0, si_callback := f\<rparr>]"
proof -
  let ?f = "\<lambda>r. r\<lparr>si_used := True, si_start := False, si_type := type, si_round := 0,
     si_period := 0, si_callback := f\<rparr>"
  obtain L where r: "wheel_rel s L A" using assms(1) by (auto simp: stimer_rel_def)
  note len = wheel_relD(2) [OF r]
  have free: "free_timer (st_info s) 0 = Some i"
  proof (cases "free_timer (st_info s) 0")
    case None
    then show ?thesis using assms(5,6) len by (simp add: free_timer_None)
  next
    case (Some j)
    then have j: "\<not> si_used (st_info s ! j)" "\<forall>j'<j. si_used (st_info s ! j')"
      using free_timer_bound by fastforce+
    have "j = i" using j assms(6,7) by (meson linorder_neqE_nat)
    then show ?thesis using Some by simp
  qed
  obtain h1 where h1: "dlist_init (st_heap s) (link_node i) = Some h1"
      "\<forall>p. p \<noteq> link_node i \<longrightarrow> h1 p = st_heap s p"
    using dlist_init_at [of "link_node i" "st_heap s"] by auto
  have idle: "\<not> si_start (st_info s ! i)" using assms(2,5,6) by blast
  have "family dlist_at h1 heads L"
    unfolding family_def
  proof (intro conjI ballI)
    fix d
    assume d: "d \<in> heads"
    have "link_node i \<notin> set (d # L d)"
      using stopped_out(1) [OF r assms(5) idle d] d heads_simps(3) [of i] by auto
    then show "dlist_at h1 d (L d)"
      using dtail.frame [OF familyD [OF wheel_relD(1) [OF r] d], of h1] h1(2) by metis
  qed (use wheel_relD(1) [OF r] in \<open>auto simp: family_def\<close>)
  moreover have "at_phase ((upd_info i ?f s)\<lparr>st_heap := h1\<rparr>) L j (phase A j)"
    if "j < TBOX_STIMER_NUMBER" for j
    using r that assms(5) idle len by (auto simp: wheel_rel_def at_phase_def split: phase.splits)
  ultimately have "wheel_rel ((upd_info i ?f s)\<lparr>st_heap := h1\<rparr>) L A"
    using r by (auto simp: wheel_rel_def wheel_inv_def)
  moreover have "stimer_create s type f = Some ((upd_info i ?f s)\<lparr>st_heap := h1\<rparr>, of_nat i)"
    using assms(3,4) free h1(1) by (auto simp: stimer_create_def Let_def)
  ultimately show ?thesis
    by (intro exI [of _ "(upd_info i ?f s)\<lparr>st_heap := h1\<rparr>"]) (auto simp: stimer_rel_def upd_info_def)
qed

end
