(* ===== verification/STimerClaims.thy ===== *)
theory STimerClaims imports STimerRef begin

text \<open>
  The properties of the software timers: what each call does to the abstract timers, when a
  timer expires, what the task does with the expired ones, and that no interleaving of
  callers, interrupt and task breaks the wheel.
\<close>

section \<open>Interleavings\<close>

definition stimer_good :: "stimer \<Rightarrow> timers \<Rightarrow> bool" where
  "stimer_good s A \<longleftrightarrow> stimer_rel s A \<and>
     (\<forall>i<TBOX_STIMER_NUMBER. phase A i \<noteq> Idle \<longrightarrow> si_used (st_info s ! i))"

lemma map_used_upd [simp]:
  "(\<And>r. si_used (f r) = si_used r) \<Longrightarrow> map si_used (st_info (upd_info i f s)) = map si_used (st_info s)"
  by (cases "i < length (st_info s)"; simp add: upd_info_def map_update list_update_beyond)
    (metis list_update_id nth_map)

lemma used_kept:
  "stimer_start s tid t = Some (s', r) \<Longrightarrow> map si_used (st_info s') = map si_used (st_info s)"
  "stimer_stop s tid = Some (s', r) \<Longrightarrow> map si_used (st_info s') = map si_used (st_info s)"
  "stimer_trigger s tid = Some (s', r) \<Longrightarrow> map si_used (st_info s') = map si_used (st_info s)"
  "stimer_clear s tid = Some (s', r) \<Longrightarrow> map si_used (st_info s') = map si_used (st_info s)"
  by (auto simp: stimer_start_def stimer_stop_def stimer_trigger_def stimer_clear_def Let_def
      split: if_splits Option.bind_splits)

lemma rel_length: "stimer_rel s A \<Longrightarrow> length (st_info s) = TBOX_STIMER_NUMBER"
  by (auto simp: stimer_rel_def dest: wheel_relD(2))

lemma good_same:
  assumes "stimer_good s A" and "stimer_rel s' A" and "map si_used (st_info s') = map si_used (st_info s)"
  shows "stimer_good s' A"
proof -
  have "si_used (st_info s' ! j) = si_used (st_info s ! j)" if "j < TBOX_STIMER_NUMBER" for j
    using arg_cong [OF assms(3), of "\<lambda>xs. xs ! j"] that rel_length [OF assms(2)]
      rel_length [of s A] assms(1) by (simp add: stimer_good_def)
  then show ?thesis using assms by (simp add: stimer_good_def)
qed

lemma good_set:
  assumes "stimer_good s A" and "stimer_rel s' (timers_set i ph A)"
    and "map si_used (st_info s') = map si_used (st_info s)" and "si_used (st_info s ! i)"
  shows "stimer_good s' (timers_set i ph A)"
proof -
  have "si_used (st_info s' ! j) = si_used (st_info s ! j)" if "j < TBOX_STIMER_NUMBER" for j
    using arg_cong [OF assms(3), of "\<lambda>xs. xs ! j"] that rel_length [OF assms(2)]
      rel_length [of s A] assms(1) by (simp add: stimer_good_def)
  then show ?thesis
    using assms by (auto simp: stimer_good_def timers_set_def)
qed

text \<open>What the four operations of the callers make of a timer, the errors included.\<close>

definition checked :: "stimer \<Rightarrow> STIMER_ID \<Rightarrow> bool \<Rightarrow> timers \<Rightarrow> timers \<Rightarrow> TBOX_ERROR_CODE \<times> timers" where
  "checked s tid bad A A' =
     (if invalid_id tid \<or> bad then (TBOX_E_INVALID_PARAM, A)
      else if \<not> si_used (st_info s ! unat tid) then (TBOX_E_NOCREATE, A)
      else (TBOX_E_OK, A'))"

lemma good_start:
  assumes "stimer_good s A"
  shows "\<exists>s' r A'. stimer_start s tid t = Some (s', r) \<and> stimer_good s' A' \<and>
     (r, A') = checked s tid (t = 0) A (timers_set (unat tid) (Waiting (unat t)) A)"
proof (cases "invalid_id tid \<or> t = 0 \<or> \<not> si_used (st_info s ! unat tid)")
  case True
  then show ?thesis using assms by (auto simp: stimer_start_def checked_def Let_def)
next
  case False
  then obtain s' where s': "stimer_start s tid t = Some (s', TBOX_E_OK)"
      "stimer_rel s' (timers_set (unat tid) (Waiting (unat t)) A)"
    using stimer_start_ok [of s A tid t] assms by (auto simp: stimer_good_def)
  then show ?thesis
    using False good_set [OF assms s'(2) used_kept(1) [OF s'(1)]] by (simp add: checked_def)
qed

lemma good_stop:
  assumes "stimer_good s A"
  shows "\<exists>s' r A'. stimer_stop s tid = Some (s', r) \<and> stimer_good s' A' \<and>
     (r, A') = checked s tid False A (timers_set (unat tid) Idle A)"
proof (cases "invalid_id tid \<or> \<not> si_used (st_info s ! unat tid)")
  case True
  then show ?thesis using assms by (auto simp: stimer_stop_def checked_def Let_def)
next
  case False
  then obtain s' where s': "stimer_stop s tid = Some (s', TBOX_E_OK)"
      "stimer_rel s' (timers_set (unat tid) Idle A)"
    using stimer_stop_ok [of s A tid] assms by (auto simp: stimer_good_def)
  then show ?thesis
    using False good_set [OF assms s'(2) used_kept(2) [OF s'(1)]] by (simp add: checked_def)
qed

lemma good_clear:
  assumes "stimer_good s A"
  shows "\<exists>s' r A'. stimer_clear s tid = Some (s', r) \<and> stimer_good s' A' \<and>
     (r, A') = checked s tid False A
       (if phase A (unat tid) = Due
        then timers_set (unat tid) (Waiting (unat (si_period (st_info s ! unat tid)))) A else A)"
proof (cases "invalid_id tid \<or> \<not> si_used (st_info s ! unat tid)")
  case True
  then show ?thesis using assms by (auto simp: stimer_clear_def checked_def Let_def)
next
  case False
  then obtain s' where s': "stimer_clear s tid = Some (s', TBOX_E_OK)"
      "stimer_rel s' (if phase A (unat tid) = Due
        then timers_set (unat tid) (Waiting (unat (si_period (st_info s ! unat tid)))) A else A)"
    using stimer_clear_ok [of s A tid] assms by (auto simp: stimer_good_def)
  show ?thesis
    using False s' good_same [OF assms _ used_kept(4) [OF s'(1)]]
      good_set [OF assms _ used_kept(4) [OF s'(1)]]
    by (auto simp: checked_def split: if_splits)
qed

lemma good_trigger:
  assumes "stimer_good s A" and "\<not> invalid_id tid \<longrightarrow> si_used (st_info s ! unat tid) \<longrightarrow> phase A (unat tid) \<noteq> Idle"
  shows "\<exists>s' r A'. stimer_trigger s tid = Some (s', r) \<and> stimer_good s' A' \<and>
     (r, A') = checked s tid False A
       (if phase A (unat tid) = Due then A else timers_set (unat tid) Due A)"
proof (cases "invalid_id tid \<or> \<not> si_used (st_info s ! unat tid)")
  case True
  then show ?thesis using assms by (auto simp: stimer_trigger_def checked_def Let_def)
next
  case False
  then obtain s' where s': "stimer_trigger s tid = Some (s', TBOX_E_OK)"
      "stimer_rel s' (if phase A (unat tid) = Due then A else timers_set (unat tid) Due A)"
    using stimer_trigger_ok [of s A tid] assms by (auto simp: stimer_good_def)
  show ?thesis
    using False s' good_same [OF assms(1) _ used_kept(3) [OF s'(1)]]
      good_set [OF assms(1) _ used_kept(3) [OF s'(1)]]
    by (auto simp: checked_def split: if_splits)
qed

lemma good_create:
  assumes "stimer_good s A"
  shows "\<exists>s' r. stimer_create s type f = Some (s', r) \<and> stimer_good s' A"
proof (cases "(type = STIMER_TYPE_ONCE \<or> type = STIMER_TYPE_PERIOD) \<and> f \<noteq> 0 \<and>
    (\<exists>r\<in>set (st_info s). \<not> si_used r)")
  case False
  then have "stimer_create s type f = Some (s, STIMER_ID_INVALID)"
    using free_timer_None [of "st_info s" 0] by (auto simp: stimer_create_def)
  then show ?thesis using assms by blast
next
  case True
  note rel = conjunct1 [OF assms [unfolded stimer_good_def]]
  note len = rel_length [OF rel]
  obtain i where i: "free_timer (st_info s) 0 = Some i"
    using True free_timer_None [of "st_info s" 0] by auto
  then have i: "i < TBOX_STIMER_NUMBER" "\<not> si_used (st_info s ! i)" "\<forall>j<i. si_used (st_info s ! j)"
    using free_timer_bound [OF i] len by auto
  obtain L where r: "wheel_rel s L A" using rel by (auto simp: stimer_rel_def)
  have "\<forall>i<TBOX_STIMER_NUMBER. si_start (st_info s ! i) \<longrightarrow> si_used (st_info s ! i)"
  proof (intro allI impI)
    fix j
    assume j: "j < TBOX_STIMER_NUMBER" "si_start (st_info s ! j)"
    then have "phase A j \<noteq> Idle" using r by (auto simp: wheel_rel_def at_phase_def)
    then show "si_used (st_info s ! j)" using assms j by (simp add: stimer_good_def)
  qed
  then obtain s' where s': "stimer_create s type f = Some (s', of_nat i)" "stimer_rel s' A"
      "st_info s' = (st_info s)[i := (st_info s ! i)\<lparr>si_used := True, si_start := False,
        si_type := type, si_round := 0, si_period := 0, si_callback := f\<rparr>]"
    using stimer_create_ok [OF rel _ _ _ i, of type f] True by auto
  have "stimer_good s' A"
    using s'(2,3) assms len i(1) by (auto simp: stimer_good_def nth_list_update)
  then show ?thesis using s'(1) by blast
qed

lemma good_tick:
  assumes "stimer_good s A"
  shows "\<exists>s' new. tbox_stimer_interrupt s = Some s' \<and> stimer_good s' (timers_tick new A) \<and>
     distinct new \<and> set new = {i. i < TBOX_STIMER_NUMBER \<and> phase A i = Waiting 0}"
proof -
  obtain s' new where s': "tbox_stimer_interrupt s = Some s'" "stimer_rel s' (timers_tick new A)"
      "distinct new" "set new = {i. i < TBOX_STIMER_NUMBER \<and> phase A i = Waiting 0}" "same_setup s s'"
    using interrupt_ok [of s A] assms by (auto simp: stimer_good_def)
  have "stimer_good s' (timers_tick new A)"
    using s'(2,5) assms by (auto simp: stimer_good_def timers_tick_def same_setup_def)
  with s' show ?thesis by blast
qed

lemma good_round:
  assumes "stimer_good s A"
  shows "\<exists>s' r A'. task_round s = Some (s', r) \<and> stimer_good s' A'"
proof (cases "due A")
  case Nil
  then show ?thesis using task_round_ok(1) [of s A] assms by (auto simp: stimer_good_def)
next
  case (Cons i q)
  note rel = conjunct1 [OF assms [unfolded stimer_good_def]]
  let ?A' = "timers_set i (next_phase (st_info s ! i)) A"
  obtain s' where s': "task_round s = Some (s', Call (si_callback (st_info s ! i)))"
      "stimer_rel s' ?A'" "same_setup s s'"
    using task_round_ok(2) [OF rel Cons] by blast
  obtain L where r: "wheel_rel s L A" using rel by (auto simp: stimer_rel_def)
  have "phase A i = Due"
    using has_timeout(2) [OF r due_facts(1) [OF r Cons]] Cons by simp
  then have "stimer_good s' ?A'"
    using s'(2,3) assms due_facts(1) [OF r Cons]
    by (auto simp: stimer_good_def timers_set_def same_setup_def)
  then show ?thesis using s'(1) by blast
qed

text \<open>
  One atomic section of the module, in any order: a call of any task, the interrupt, a round
  of the timer task, sleep, wake-up and supervision messages. A timer is only triggered while
  it is started.
\<close>

inductive stimer_step :: "stimer \<Rightarrow> stimer \<Rightarrow> bool" where
  create: "stimer_create s type f = Some (s', r) \<Longrightarrow> stimer_step s s'"
| start: "stimer_start s tid t = Some (s', c) \<Longrightarrow> stimer_step s s'"
| stop: "stimer_stop s tid = Some (s', c) \<Longrightarrow> stimer_step s s'"
| clear: "stimer_clear s tid = Some (s', c) \<Longrightarrow> stimer_step s s'"
| trigger: "stimer_is_started s tid \<or> invalid_id tid \<Longrightarrow> stimer_trigger s tid = Some (s', c) \<Longrightarrow>
    stimer_step s s'"
| interrupt: "tbox_stimer_interrupt s = Some s' \<Longrightarrow> stimer_step s s'"
| round: "task_round s = Some (s', r) \<Longrightarrow> stimer_step s s'"
| wake: "stimer_step s (tbox_stimer_start s)"
| sleep: "stimer_step s (tbox_stimer_stop s)"
| abnormal: "stimer_step s (tbox_stimer_handle_task_abnormal s name m)"
| update: "stimer_step s (tbox_stimer_handle_update_task s name m' shell)"

lemma started_phase:
  assumes "stimer_good s A" and "stimer_is_started s tid"
  shows "phase A (unat tid) \<noteq> Idle"
proof -
  obtain L where "wheel_rel s L A" using assms(1) by (auto simp: stimer_good_def stimer_rel_def)
  then show ?thesis
    using assms(2) valid_idD [of tid]
    by (auto simp: stimer_is_started_def wheel_rel_def at_phase_def split: if_splits)
qed

lemma good_frame:
  assumes "stimer_good s A" and "st_heap s' = st_heap s" and "st_info s' = st_info s"
    and "st_slot s' = st_slot s"
  shows "stimer_good s' A"
  using assms wheel_rel_cong [OF assms(2-4)] by (simp add: stimer_good_def stimer_rel_def)

lemma service_frame:
  fixes s :: stimer
  shows "st_heap (stimer_notify e s) = st_heap s" "st_info (stimer_notify e s) = st_info s"
    "st_slot (stimer_notify e s) = st_slot s"
    "st_heap (stimer_call c s) = st_heap s" "st_info (stimer_call c s) = st_info s"
    "st_slot (stimer_call c s) = st_slot s"
    "st_heap (tbox_stimer_handle_task_abnormal s n m) = st_heap s"
    "st_info (tbox_stimer_handle_task_abnormal s n m) = st_info s"
    "st_slot (tbox_stimer_handle_task_abnormal s n m) = st_slot s"
    "st_heap (tbox_stimer_handle_update_task s n m' i) = st_heap s"
    "st_info (tbox_stimer_handle_update_task s n m' i) = st_info s"
    "st_slot (tbox_stimer_handle_update_task s n m' i) = st_slot s"
  by (auto simp: stimer_notify_def stimer_call_def tbox_stimer_handle_task_abnormal_def
      tbox_stimer_handle_update_task_def split: option.splits)

lemma step_good:
  assumes "stimer_step s s'" and "stimer_good s A"
  shows "\<exists>A'. stimer_good s' A'"
  using assms(1)
proof cases
  case (create type f r)
  then show ?thesis using good_create [OF assms(2), of type f] by auto
next
  case (start tid t c)
  then show ?thesis using good_start [OF assms(2), of tid t] by auto
next
  case (stop tid c)
  then show ?thesis using good_stop [OF assms(2), of tid] by auto
next
  case (clear tid c)
  then show ?thesis using good_clear [OF assms(2), of tid] by auto
next
  case (trigger tid c)
  then show ?thesis using good_trigger [OF assms(2), of tid] started_phase [OF assms(2)] by auto
next
  case interrupt
  then show ?thesis using good_tick [OF assms(2)] by auto
next
  case (round r)
  then show ?thesis using good_round [OF assms(2)] by auto
qed (auto intro!: exI [of _ A] good_frame [OF assms(2)]
    simp: service_frame tbox_stimer_start_def tbox_stimer_stop_def)

lemma next_phase_eq:
  "next_phase r = (let p = unat (si_period r) in
      if si_type r \<noteq> STIMER_TYPE_PERIOD then Idle
      else Waiting (if p \<le> 1 then p else if 2 < p \<and> 600 \<le> si_active_count r then p - 2 else p - 1))"
proof -
  have gt: "1 < w \<longleftrightarrow> 1 < unat w" for w :: u32 by (simp add: word_less_nat_alt)
  have one: "1 < unat w \<Longrightarrow> unat (w - 1) = unat w - 1" for w :: u32
    by (subst unat_minus_le) (simp_all add: word_le_nat_alt)
  have two: "2 < unat w \<Longrightarrow> unat (w - 2) = unat w - 2" for w :: u32
    by (subst unat_minus_le) (simp_all add: word_le_nat_alt)
  show ?thesis
    by (auto simp: next_phase_def rearm_period_def Let_def gt one two STIMER_SPPLEMENTARY_THREASHOLD_def)
qed

section \<open>A concrete module\<close>

definition ex_raw :: stimer where
  "ex_raw = \<lparr>st_info = replicate 24 \<lparr>si_used = True, si_start = True, si_active_count = 9, si_type = 7,
       si_round = 5, si_period = 6, si_callback = 3\<rparr>,
     st_heap = \<lambda>_. \<lparr>prev = 77, nxt = 88\<rparr>, st_slot = 3, st_task = 5,
     st_notes = \<lambda>_. \<lparr>ulNotifiedValue = 0, notify_state = taskNOT_WAITING_NOTIFICATION\<rparr>,
     st_calls = []\<rparr>"

definition ex_created :: "stimer option" where
  "ex_created = do {
     (s, _) \<leftarrow> tbox_stimer_inner_init ex_raw;
     (s, _) \<leftarrow> stimer_create s STIMER_TYPE_ONCE 7;
     (s, _) \<leftarrow> stimer_create s STIMER_TYPE_PERIOD 8;
     Some s
   }"

lemma init_good:
  assumes "length (st_info s) = TBOX_STIMER_NUMBER"
  shows "\<exists>s'. tbox_stimer_inner_init s = Some (s', TBOX_E_OK) \<and> stimer_good s' idle_timers"
  using inner_init_ok [OF assms] by (auto simp: stimer_good_def idle_timers_def)

lemma ex_created_good:
  obtains s where "ex_created = Some s" "stimer_good s idle_timers"
    "si_used (st_info s ! unat (0 :: u32))" "si_used (st_info s ! unat (1 :: u32))"
    "\<not> invalid_id 0" "\<not> invalid_id 1"
proof -
  note N = TBOX_STIMER_NUMBER_def
  obtain s0 where s0: "tbox_stimer_inner_init ex_raw = Some (s0, TBOX_E_OK)" "stimer_rel s0 idle_timers"
      "\<forall>i<TBOX_STIMER_NUMBER. \<not> si_used (st_info s0 ! i)"
    using inner_init_ok [of ex_raw] by (auto simp: ex_raw_def N)
  have idle: "\<not> si_start (st_info s ! i)" if "stimer_rel s idle_timers" "i < TBOX_STIMER_NUMBER" for s i
    using that by (auto simp: stimer_rel_def wheel_rel_def at_phase_def idle_timers_def)
  obtain s1 where s1: "stimer_create s0 STIMER_TYPE_ONCE 7 = Some (s1, 0)" "stimer_rel s1 idle_timers"
      "si_used (st_info s1 ! 0)" "\<forall>i<TBOX_STIMER_NUMBER. i \<noteq> 0 \<longrightarrow> \<not> si_used (st_info s1 ! i)"
    using stimer_create_ok [OF s0(2), of STIMER_TYPE_ONCE 7 0] s0(3) idle [OF s0(2)]
      rel_length [OF s0(2)] by (auto simp: N)
  obtain s2 where s2: "stimer_create s1 STIMER_TYPE_PERIOD 8 = Some (s2, 1)" "stimer_rel s2 idle_timers"
      "si_used (st_info s2 ! 0)" "si_used (st_info s2 ! 1)"
    using stimer_create_ok [OF s1(2), of STIMER_TYPE_PERIOD 8 1] s1(3,4) idle [OF s1(2)]
      rel_length [OF s1(2)] by (auto simp: N)
  have "ex_created = Some s2" using s0(1) s1(1) s2(1) by (simp add: ex_created_def)
  moreover have "stimer_good s2 idle_timers"
    using s2(2) by (simp add: stimer_good_def idle_timers_def)
  moreover have "\<not> invalid_id 0" "\<not> invalid_id 1"
    by (simp_all add: invalid_id_def STIMER_ID_INVALID_def N)
  ultimately show ?thesis using that s2(3,4) by simp
qed

section \<open>A stale link\<close>

text \<open>
  When the task takes an expired one-shot timer off the time-out list it does not reset the
  link, which keeps pointing into the list. Triggering that timer later takes it out once more
  and so drops the timers that are waiting there: the timer \<open>j\<close> below is started, but in no
  list, and is never run again.
\<close>

lemma one_shot_leaves_link:
  assumes "stimer_rel s A" and "due A = [i]" and "si_type (st_info s ! i) \<noteq> STIMER_TYPE_PERIOD"
  shows "\<exists>s' f. task_round s = Some (s', Call f) \<and> \<not> si_start (st_info s' ! i) \<and>
     st_heap s' (link_node i) = \<lparr>prev = timeout_list, nxt = timeout_list\<rparr>"
proof -
  obtain L where r: "wheel_rel s L A" using assms(1) by (auto simp: stimer_rel_def)
  note fam = wheel_relD(1) [OF r]
  note i = due_facts [OF r assms(2)]
  have at: "dlist_at (st_heap s) timeout_list ([] @ link_node i # [])"
    using familyD [OF fam, of timeout_list] r assms(2) by (simp add: wheel_rel_def)
  then obtain h1 where h1: "dlist_del_entry (st_heap s) (link_node i) = Some h1"
      "h1 (link_node i) = st_heap s (link_node i)"
    using dlist_del_entry_at [OF at] by auto
  have "st_heap s (link_node i) = \<lparr>prev = timeout_list, nxt = timeout_list\<rparr>"
    using at by (simp add: dlist_at_def dlist_node_eq_iff)
  moreover have "dlist_pop_first_node (st_heap s) timeout_list = Some (h1, link_node i)"
    using dlist_pop_first_Cons [of "st_heap s" timeout_list "link_node i" "[]"] at h1(1) by simp
  ultimately show ?thesis
    using assms(3) i h1(2) wheel_relD(2) [OF r] by (simp add: task_round_def Let_def)
qed

lemma stale_trigger_drops:
  assumes "dlist_at (st_heap s) timeout_list [link_node j]"
    and "st_heap s (link_node (unat tid)) = \<lparr>prev = timeout_list, nxt = timeout_list\<rparr>"
    and "\<not> invalid_id tid" and "si_used (st_info s ! unat tid)" and "j \<noteq> unat tid"
  shows "\<exists>s'. stimer_trigger s tid = Some (s', TBOX_E_OK) \<and>
     dlist_at (st_heap s') timeout_list [link_node (unat tid)]"
proof -
  let ?i = "link_node (unat tid)"
  have ne: "?i \<noteq> timeout_list" by (simp add: link_node_def timeout_list_def)
  have "dlist_has_node (st_heap s) timeout_list ?i = Some False"
    using dlist_has_at [OF assms(1), of ?i] assms(5) by simp
  moreover have "dlist_del_entry (st_heap s) ?i =
      Some ((st_heap s)(timeout_list := \<lparr>prev = timeout_list, nxt = timeout_list\<rparr>))" (is "_ = Some ?h")
    using assms(2) ne by (auto simp: dlist_del_entry_def st_next_def st_prev_def fun_eq_iff dlist_node_eq_iff)
  moreover have empty: "dlist_at ?h timeout_list []" using node_simps(5) [symmetric] by (simp add: dlist_at_def)
  obtain h' where "dlist_add_tail ?h ?i timeout_list = Some h'" "dlist_at h' timeout_list ([] @ [?i])"
    using dlist_add_tail_at [OF empty, of ?i] ne by auto
  ultimately show ?thesis
    using assms(3,4) by (simp add: stimer_trigger_def Let_def)
qed

lemma del_entry_total:
  assumes "nxt (h d) \<noteq> NULL" and "prev (h d) \<noteq> NULL"
  shows "\<exists>h'. dlist_del_entry h e = Some h' \<and> nxt (h' d) \<noteq> NULL \<and> prev (h' d) \<noteq> NULL"
  using assms by (cases "e = NULL \<or> nxt (h e) = NULL \<or> prev (h e) = NULL") (auto simp: dlist_del_entry_def st_next_def st_prev_def)

lemma used_trigger:
  assumes good: "stimer_good s A" and tid: "\<not> invalid_id tid" "si_used (st_info s ! unat tid)" and idle: "phase A (unat tid) = Idle"
  shows "\<exists>s'. stimer_trigger s tid = Some (s', TBOX_E_OK) \<and> (\<forall>A'. \<not> stimer_good s' A')"
proof -
  let ?i = "unat tid" and ?d = timeout_list
  let ?e = "link_node ?i"
  obtain L where r: "wheel_rel s L A" using good by (auto simp: stimer_good_def stimer_rel_def)
  note i = valid_idD [OF tid(1)]
  have e: "?e \<noteq> ?d" "?e \<noteq> NULL" by (simp_all add: link_node_def timeout_list_def NULL_def)
  have start: "\<not> si_start (st_info s ! ?i)" using r i idle by (simp add: wheel_rel_def at_phase_def)
  then have "link_node ?i \<notin> set (L ?d)" using stopped_out(1) [OF r i] by simp
  then have has: "dlist_has_node (st_heap s) ?d ?e = Some False"
    using dlist_has_at [OF familyD [OF wheel_relD(1) [OF r]], of ?d] by simp
  have d: "nxt (st_heap s ?d) \<noteq> NULL" "prev (st_heap s ?d) \<noteq> NULL"
    using dlist_at_links(4,5) [OF familyD [OF wheel_relD(1) [OF r]], of ?d] by simp_all
  obtain h1 where h1: "dlist_del_entry (st_heap s) ?e = Some h1" "nxt (h1 ?d) \<noteq> NULL" "prev (h1 ?d) \<noteq> NULL"
    using del_entry_total [of "st_heap s" ?d ?e] d by blast
  obtain h2 where h2: "dlist_add_tail h1 ?e ?d = Some h2" "prev (h2 ?d) = ?e"
    using h1(2,3) e node_simps(5) by (auto simp: dlist_add_tail_def st_next_def st_prev_def)
  let ?s = "(upd_info ?i (\<lambda>r. r\<lparr>si_round := 0\<rparr>) s)\<lparr>st_heap := h2\<rparr>"
  have "\<not> stimer_good ?s A'" for A'
  proof
    assume "stimer_good ?s A'"
    then obtain K where K: "wheel_rel ?s K A'" by (auto simp: stimer_good_def stimer_rel_def)
    have "?e = last (?d # K ?d)"
      using dlist_at_links(3) [OF familyD [OF wheel_relD(1) [OF K]], of ?d] h2(2) by simp
    then have "?e \<in> set (K ?d)" using last_in_Cons [of ?d "K ?d"] e(1) by (metis set_ConsD)
    moreover have "\<not> si_start (st_info ?s ! ?i)" using start wheel_relD(2) [OF r] i by simp
    ultimately show False using stopped_out(1) [OF K i, of ?d] by simp
  qed
  moreover have "stimer_trigger s tid = Some (?s, TBOX_E_OK)"
    using tid has h1(1) h2(1) by (simp add: stimer_trigger_def Let_def)
  ultimately show ?thesis by blast
qed

lemma trigger_total:
  assumes "stimer_good s A"
  shows "\<exists>s' r. stimer_trigger s tid = Some (s', r)"
  using good_trigger [OF assms, of tid] used_trigger [OF assms, of tid] by blast

lemma refused_same:
  "stimer_start s tid t = Some (s', r) \<Longrightarrow> r \<noteq> TBOX_E_OK \<Longrightarrow> s' = s"
  "stimer_stop s tid = Some (s', r) \<Longrightarrow> r \<noteq> TBOX_E_OK \<Longrightarrow> s' = s"
  "stimer_trigger s tid = Some (s', r) \<Longrightarrow> r \<noteq> TBOX_E_OK \<Longrightarrow> s' = s"
  "stimer_clear s tid = Some (s', r) \<Longrightarrow> r \<noteq> TBOX_E_OK \<Longrightarrow> s' = s"
  by (auto simp: stimer_start_def stimer_stop_def stimer_trigger_def stimer_clear_def Let_def
      split: if_splits Option.bind_splits)

section \<open>Properties\<close>

text \<open>
  C22: what the four calls do. Whatever the timers are doing and whichever number is given, each of them returns; an invalid
  timer number (or a zero time-out) and a timer that was not created are refused with their
  code and change nothing; otherwise starting makes the timer wait for the time-out from now,
  stopping makes it idle, triggering a started timer makes it due at once, and clearing an
  expired one makes it wait for its period again. No other timer is touched. Triggering a timer that was created and is not started is the
  exception: the code does not test for it (line 204), the call is answered with success, and the state it leaves is none that any abstract
  timers describe, because a timer that is not started is linked into the time-out list.
\<close>

theorem stimer_calls_correct:
  assumes "stimer_good s A"
  shows "(\<exists>s' r A'. stimer_start s tid t = Some (s', r) \<and> stimer_good s' A' \<and> (r \<noteq> TBOX_E_OK \<longrightarrow> s' = s) \<and>
      (r, A') = checked s tid (t = 0) A (timers_set (unat tid) (Waiting (unat t)) A)) \<and>
    (\<exists>s' r A'. stimer_stop s tid = Some (s', r) \<and> stimer_good s' A' \<and> (r \<noteq> TBOX_E_OK \<longrightarrow> s' = s) \<and>
      (r, A') = checked s tid False A (timers_set (unat tid) Idle A)) \<and>
    (\<exists>s' r. stimer_trigger s tid = Some (s', r) \<and> (r \<noteq> TBOX_E_OK \<longrightarrow> s' = s) \<and>
      (if \<not> invalid_id tid \<and> si_used (st_info s ! unat tid) \<and> phase A (unat tid) = Idle
       then r = TBOX_E_OK \<and> (\<forall>A'. \<not> stimer_good s' A')
       else \<exists>A'. stimer_good s' A' \<and>
         (r, A') = checked s tid False A (if phase A (unat tid) = Due then A else timers_set (unat tid) Due A))) \<and>
    (\<exists>s' r A'. stimer_clear s tid = Some (s', r) \<and> stimer_good s' A' \<and> (r \<noteq> TBOX_E_OK \<longrightarrow> s' = s) \<and>
      (r, A') = checked s tid False A
        (if phase A (unat tid) = Due
         then timers_set (unat tid) (Waiting (unat (si_period (st_info s ! unat tid)))) A else A))"
  (is "?start \<and> ?stop \<and> ?trigger \<and> ?clear")
proof (intro conjI)
  show ?start using good_start [OF assms, of tid t] refused_same(1) by blast
  show ?stop using good_stop [OF assms, of tid] refused_same(2) by blast
  show ?clear using good_clear [OF assms, of tid] refused_same(4) by blast
  show ?trigger
  proof (cases "\<not> invalid_id tid \<and> si_used (st_info s ! unat tid) \<and> phase A (unat tid) = Idle")
    case True
    then show ?thesis using used_trigger [OF assms, of tid] by auto
  next
    case False
    then show ?thesis using good_trigger [OF assms, of tid] refused_same(3) by (smt (verit, best))
  qed
qed

theorem stimer_calls_correct_witness:
  "\<exists>s. ex_created = Some s \<and>
    (\<exists>s' r A'. stimer_start s 1 40 = Some (s', r) \<and> stimer_good s' A' \<and>
      (r, A') = checked s 1 (40 = (0 :: u32)) idle_timers (timers_set (unat (1 :: u32)) (Waiting (unat (40 :: u32))) idle_timers)) \<and>
    (\<exists>s'. stimer_trigger s 1 = Some (s', TBOX_E_OK) \<and> (\<forall>A'. \<not> stimer_good s' A'))"
proof -
  obtain s where s: "ex_created = Some s" "stimer_good s idle_timers" "si_used (st_info s ! unat (1 :: u32))" "\<not> invalid_id 1"
    by (rule ex_created_good)
  have "phase idle_timers (unat (1 :: u32)) = Idle" by (simp add: idle_timers_def)
  then have "\<exists>s'. stimer_trigger s 1 = Some (s', TBOX_E_OK) \<and> (\<forall>A'. \<not> stimer_good s' A')"
    using stimer_calls_correct [OF s(2), of 1 40] s(3,4) by auto
  then show ?thesis using stimer_calls_correct [OF s(2), of 1 40] s(1) by blast
qed

text \<open>
  C32: expiry. A timer started with time-out \<open>t\<close> and left alone counts down with every tick
  and is due after \<open>t + 1\<close> ticks, not earlier; meanwhile every other timer counts down (or
  stays idle or due) as if nothing had been started.
\<close>

theorem stimer_expires:
  assumes "stimer_good s A" and "\<not> invalid_id tid" and "si_used (st_info s ! unat tid)" and "t \<noteq> 0"
  shows "\<exists>s1. stimer_start s tid t = Some (s1, TBOX_E_OK) \<and>
    (\<forall>n. \<exists>s2 A2. stimer_ticks n s1 = Some s2 \<and> stimer_rel s2 A2 \<and>
      phase A2 (unat tid) = (if n \<le> unat t then Waiting (unat t - n) else Due) \<and>
      (\<forall>j. j \<noteq> unat tid \<longrightarrow> phase A2 j = (phase_tick ^^ n) (phase A j)))"
proof -
  obtain s1 where s1: "stimer_start s tid t = Some (s1, TBOX_E_OK)"
      "stimer_rel s1 (timers_set (unat tid) (Waiting (unat t)) A)"
    using stimer_start_ok [of s A tid t] assms by (auto simp: stimer_good_def)
  have "\<exists>s2 A2. stimer_ticks n s1 = Some s2 \<and> stimer_rel s2 A2 \<and>
      phase A2 (unat tid) = (if n \<le> unat t then Waiting (unat t - n) else Due) \<and>
      (\<forall>j. j \<noteq> unat tid \<longrightarrow> phase A2 j = (phase_tick ^^ n) (phase A j))" for n
  proof -
    obtain s2 A2 where s2: "stimer_ticks n s1 = Some s2" "stimer_rel s2 A2"
        "\<forall>i. phase A2 i = (phase_tick ^^ n) (phase (timers_set (unat tid) (Waiting (unat t)) A) i)"
      using stimer_ticks_ok [OF s1(2), of n] by blast
    then show ?thesis
      by (intro exI [of _ s2] exI [of _ A2]) (simp add: timers_set_def phase_ticks_waiting)
  qed
  with s1(1) show ?thesis by blast
qed

theorem stimer_expires_witness:
  "\<exists>s s1. ex_created = Some s \<and> stimer_start s 0 40 = Some (s1, TBOX_E_OK) \<and>
    (\<exists>s2 A2. stimer_ticks 41 s1 = Some s2 \<and> stimer_rel s2 A2 \<and> phase A2 0 = Due)"
proof -
  obtain s where s: "ex_created = Some s" "stimer_good s idle_timers" "si_used (st_info s ! unat (0 :: u32))"
      "\<not> invalid_id 0"
    by (rule ex_created_good)
  obtain s1 where s1: "stimer_start s 0 40 = Some (s1, TBOX_E_OK)"
      "\<forall>n. \<exists>s2 A2. stimer_ticks n s1 = Some s2 \<and> stimer_rel s2 A2 \<and>
      phase A2 (unat (0 :: u32)) = (if n \<le> unat (40 :: u32) then Waiting (unat (40 :: u32) - n) else Due) \<and>
      (\<forall>j. j \<noteq> unat (0 :: u32) \<longrightarrow> phase A2 j = (phase_tick ^^ n) (phase idle_timers j))"
    using stimer_expires [OF s(2,4,3), of 40] by auto
  from spec [OF s1(2), of 41] show ?thesis using s(1) s1(1) by auto
qed

text \<open>
  C33: the task. As long as a call-back keeps the timers in order and makes none due, the
  inner loop of the task returns and leaves no expired timer behind. A round takes the timer
  that expired first and runs its call-back; a one-shot timer becomes idle, and a periodic one
  waits one tick less than its period (two less every 600 expiries), so that it expires every
  period ticks if the task runs before the next tick. A period of one tick is not shortened.
\<close>

theorem stimer_task_correct:
  assumes "\<forall>f s A. stimer_rel s A \<longrightarrow>
      (\<exists>s' A'. cb f s = Some s' \<and> stimer_rel s' A' \<and> length (due A') \<le> length (due A))"
    and "stimer_good s A"
  shows "(\<exists>s' A'. task_drain cb s = Some s' \<and> stimer_rel s' A' \<and> due A' = []) \<and>
    (\<forall>i q. due A = i # q \<longrightarrow>
      (let r = st_info s ! i; p = unat (si_period r) in
       \<exists>s'. task_round s = Some (s', Call (si_callback r)) \<and>
        stimer_rel s' (timers_set i
          (if si_type r \<noteq> STIMER_TYPE_PERIOD then Idle
           else Waiting (if p \<le> 1 then p else if 2 < p \<and> 600 \<le> si_active_count r then p - 2 else p - 1)) A)))"
proof -
  have rel: "stimer_rel s A" using assms(2) by (simp add: stimer_good_def)
  have phase: "next_phase r = (let p = unat (si_period r) in
      if si_type r \<noteq> STIMER_TYPE_PERIOD then Idle
      else Waiting (if p \<le> 1 then p else if 2 < p \<and> 600 \<le> si_active_count r then p - 2 else p - 1))" for r
    by (rule next_phase_eq)
  show ?thesis
    using task_drain_ok [of cb s A] assms(1) rel task_round_ok(2) [OF rel]
    unfolding Let_def phase by blast
qed

theorem stimer_task_correct_witness:
  "\<exists>s A. stimer_good s A \<and> due A = [0] \<and>
    (\<exists>s' A'. task_drain (\<lambda>f s. map_option fst (stimer_stop s 0)) s = Some s' \<and> stimer_rel s' A' \<and> due A' = [])"
proof -
  obtain s where s: "ex_created = Some s" "stimer_good s idle_timers"
      "si_used (st_info s ! unat (0 :: u32))" "\<not> invalid_id 0"
    by (rule ex_created_good)
  let ?A1 = "timers_set (unat (0 :: u32)) (Waiting (unat (5 :: u32))) idle_timers"
  obtain s1 where s1: "stimer_start s 0 5 = Some (s1, TBOX_E_OK)" "stimer_good s1 ?A1"
    using good_start [OF s(2), of 0 5] s(3,4) by (auto simp: checked_def)
  let ?A2 = "timers_set (unat (0 :: u32)) Due ?A1"
  have "si_used (st_info s1 ! unat (0 :: u32))" "phase ?A1 (unat (0 :: u32)) = Waiting 5"
    using s1(2) by (auto simp: stimer_good_def timers_set_def TBOX_STIMER_NUMBER_def dest: spec [of _ 0])
  then obtain s2 where s2: "stimer_good s2 ?A2"
    using good_trigger [OF s1(2), of 0] s(4) by (auto simp: checked_def)
  have law: "\<forall>f s A. stimer_rel s A \<longrightarrow>
      (\<exists>s' A'. map_option fst (stimer_stop s 0) = Some s' \<and> stimer_rel s' A' \<and>
        length (due A') \<le> length (due A))"
  proof (intro allI impI)
    fix s A
    assume rel: "stimer_rel s A"
    show "\<exists>s' A'. map_option fst (stimer_stop s 0) = Some s' \<and> stimer_rel s' A' \<and>
        length (due A') \<le> length (due A)"
    proof (cases "si_used (st_info s ! unat (0 :: u32))")
      case True
      then obtain s' where "stimer_stop s 0 = Some (s', TBOX_E_OK)"
          "stimer_rel s' (timers_set (unat (0 :: u32)) Idle A)"
        using stimer_stop_ok [OF rel s(4)] by blast
      then show ?thesis
        by (intro exI [of _ s'] exI [of _ "timers_set (unat (0 :: u32)) Idle A"])
          (simp add: timers_set_def length_removeAll_less_eq)
    next
      case False
      then have "stimer_stop s 0 = Some (s, TBOX_E_NOCREATE)"
        using s(4) by (simp add: stimer_stop_def)
      then show ?thesis using rel by auto
    qed
  qed
  have "due ?A2 = [0]" by (simp add: timers_set_def idle_timers_def)
  then show ?thesis using stimer_task_correct [OF law s2] s2 by blast
qed

text \<open>
  C23: whatever callers, interrupt and task do after start-up, in any order, as long as no timer is triggered while it is not started (C22 says
  what that does), the 33 lists are proper lists, a started timer is in exactly one of them and an unstarted one in none, and
  every further operation returns, whatever it is called with.
\<close>

theorem stimer_lists_intact:
  assumes "tbox_stimer_inner_init s0 = Some (s, r)" and "length (st_info s0) = TBOX_STIMER_NUMBER"
    and "stimer_step\<^sup>*\<^sup>* s s'"
  shows "(\<forall>i<TBOX_STIMER_NUMBER. if si_start (st_info s' ! i)
      then \<exists>!d. d \<in> heads \<and> dlist_has_node (st_heap s') d (link_node i) = Some True
      else \<forall>d\<in>heads. dlist_has_node (st_heap s') d (link_node i) = Some False) \<and>
    (\<forall>tid t type f. stimer_create s' type f \<noteq> None \<and> stimer_start s' tid t \<noteq> None \<and>
      stimer_stop s' tid \<noteq> None \<and> stimer_trigger s' tid \<noteq> None \<and> stimer_clear s' tid \<noteq> None) \<and>
    tbox_stimer_interrupt s' \<noteq> None \<and> task_round s' \<noteq> None"
proof -
  have "\<exists>A. stimer_good s' A"
    using assms(3)
  proof (induction rule: rtranclp_induct)
    case base
    then show ?case using init_good [OF assms(2)] assms(1) by auto
  next
    case (step y z)
    then show ?case using step_good by blast
  qed
  then obtain A where A: "stimer_good s' A" by blast
  then obtain L where L: "wheel_rel s' L A" by (auto simp: stimer_good_def stimer_rel_def)
  note fam = wheel_relD(1) [OF L]
  have has: "dlist_has_node (st_heap s') d (link_node i) = Some (link_node i \<in> set (L d))"
    if "d \<in> heads" for d i
    using dlist_has_at [OF familyD [OF fam that], of "link_node i"] by simp
  have lists: "if si_start (st_info s' ! i)
      then \<exists>!d. d \<in> heads \<and> dlist_has_node (st_heap s') d (link_node i) = Some True
      else \<forall>d\<in>heads. dlist_has_node (st_heap s') d (link_node i) = Some False"
    if i: "i < TBOX_STIMER_NUMBER" for i
  proof (cases "si_start (st_info s' ! i)")
    case True
    then obtain d where d: "d \<in> heads" "link_node i \<in> set (L d)" by (rule started_in [OF L i])
    have uniq: "d' = d" if "d' \<in> heads" "link_node i \<in> set (L d')" for d'
      using family_disjoint [OF fam that(1) d(1), of "link_node i"] that(2) d(2) by simp
    have "\<exists>!d. d \<in> heads \<and> dlist_has_node (st_heap s') d (link_node i) = Some True"
    proof (rule ex1I [of _ d])
      show "d \<in> heads \<and> dlist_has_node (st_heap s') d (link_node i) = Some True"
        using d has [OF d(1)] by simp
      show "d' = d" if d': "d' \<in> heads \<and> dlist_has_node (st_heap s') d' (link_node i) = Some True" for d'
      proof (rule uniq)
        show "link_node i \<in> set (L d')" using d' has [of d' i] by simp
      qed (use d' in simp)
    qed
    with True show ?thesis by simp
  next
    case False
    then show ?thesis using has stopped_out(1) [OF L i] by simp
  qed
  have calls: "stimer_create s' type f \<noteq> None" "stimer_start s' tid t \<noteq> None"
      "stimer_stop s' tid \<noteq> None" "stimer_trigger s' tid \<noteq> None" "stimer_clear s' tid \<noteq> None" for tid t type f
    using good_create [OF A, of type f] good_start [OF A, of tid t] good_stop [OF A, of tid]
      trigger_total [OF A, of tid] good_clear [OF A, of tid] by auto
  have runs: "tbox_stimer_interrupt s' \<noteq> None" "task_round s' \<noteq> None"
    using good_tick [OF A] good_round [OF A] by auto
  show ?thesis
    by (intro conjI allI impI lists calls runs)
qed

theorem stimer_lists_intact_witness:
  "\<exists>s r s'. tbox_stimer_inner_init ex_raw = Some (s, r) \<and> tbox_stimer_interrupt s = Some s' \<and>
     task_round s' \<noteq> None"
proof -
  have len: "length (st_info ex_raw) = TBOX_STIMER_NUMBER"
    by (simp add: ex_raw_def TBOX_STIMER_NUMBER_def)
  obtain s where s: "tbox_stimer_inner_init ex_raw = Some (s, TBOX_E_OK)"
    using init_good [OF len] by blast
  then obtain s' where s': "tbox_stimer_interrupt s = Some s'"
    using stimer_lists_intact [OF s len rtranclp.rtrancl_refl] by auto
  then have "stimer_step\<^sup>*\<^sup>* s s'" by (intro r_into_rtranclp stimer_step.interrupt)
  then show ?thesis using stimer_lists_intact [OF s len] s s' by blast
qed

end
