(* ===== verification/MemPool.thy ===== *)
theory MemPool imports DList ErrorCodes begin

text \<open>
  \<^verbatim>\<open>src/common/tbox_mp.c\<close> and \<^verbatim>\<open>src/core/tbox_memory.c\<close>: the memory pools behind every dynamic
  allocation of the firmware. A pool starts with 72 zones, one per size class; behind them
  chunks are cut off one after the other and never split or merged, and a freed chunk goes to
  the free list of its class. Memory is split by type: chunk headers, zone headers, list nodes,
  guard words and bytes are separate maps from 32-bit addresses, at the offsets the C structs
  have. Mutexes make each operation one step; taking a null mutex is undefined.
\<close>

section \<open>Data\<close>

definition MEM_MAGIC :: u32 where "MEM_MAGIC = 0x51AB51AB"
definition MEM_CHUNK_MAGIC :: "15 word" where "MEM_CHUNK_MAGIC = 0x38FC"
definition MEM_ZONE_COUNT :: nat where "MEM_ZONE_COUNT = 72"
definition MEM_GUARD_PATTERN :: u32 where "MEM_GUARD_PATTERN = 0xDEADBEEF"
definition MEM_GUARD_SIZE :: u32 where "MEM_GUARD_SIZE = 4"
definition TBOX_MEMPOOL_NUM :: nat where "TBOX_MEMPOOL_NUM = 5"
definition SIZEOF_ZONE :: u32 where "SIZEOF_ZONE = 16"
definition SIZEOF_CHUNK :: u32 where "SIZEOF_CHUNK = 12"

definition MEM_ALIGN :: "u32 \<Rightarrow> u32" where
  "MEM_ALIGN sz = (sz + 4 - 1) AND NOT (4 - 1)"
definition MEM_ALIGN_DOWN :: "u32 \<Rightarrow> u32" where
  "MEM_ALIGN_DOWN sz = sz AND NOT (4 - 1)"
definition MEM_CHUNK_SIZE :: "u32 \<Rightarrow> u32" where
  "MEM_CHUNK_SIZE sz = MEM_ALIGN (SIZEOF_CHUNK + sz + 2 * MEM_GUARD_SIZE)"

record mem_chunk =
  ck_magic :: "15 word"
  ck_used :: bool
  ck_size :: u16

record mem_zone =
  zn_magic :: u32
  zn_chunk_size :: u16

record mem_pool =
  mp_is_used :: bool
  mp_buffer :: u32
  mp_size :: u32
  mp_pos :: u32
  mp_zones :: u32
  mp_mutex :: nat

record mp_state =
  m_pool :: "mem_pool list"
  m_chunks :: "u32 \<Rightarrow> mem_chunk"
  m_zones :: "u32 \<Rightarrow> mem_zone"
  m_links :: dheap
  m_words :: "u32 \<Rightarrow> u32"
  m_bytes :: "u32 \<Rightarrow> u8"

type_synonym MP_HANDLE = u32

definition MP_INVALID_HANDLE :: MP_HANDLE where "MP_INVALID_HANDLE = - 1"

definition mem_chunk_size :: "u16 list" where
  "mem_chunk_size =
    [8, 16, 24, 32, 40, 48, 56, 64, 72, 80, 88, 96, 104, 112, 120, 128,
     144, 160, 176, 192, 208, 224, 240, 256, 288, 320, 352, 384, 416, 448, 480, 512,
     576, 640, 704, 770, 834, 898, 962, 1024, 1152, 1280, 1408, 1536, 1664, 1792, 1920, 2048,
     2304, 2560, 2816, 3072, 3328, 3584, 3840, 4096, 4608, 5120, 5632, 6144, 6656, 7168, 7680, 8192,
     9216, 10240, 11264, 12288, 13312, 14336, 15360, 16384]"

text \<open>Members inside their structs.\<close>

definition zone_at :: "mem_pool \<Rightarrow> u32 \<Rightarrow> u32" where
  "zone_at pool i = mp_zones pool + SIZEOF_ZONE * i"
definition free_list :: "u32 \<Rightarrow> addr" where "free_list zone = unat (zone + 8)"
definition chunk_link :: "u32 \<Rightarrow> addr" where "chunk_link chunk = unat (chunk + 4)"

text \<open>\<^verbatim>\<open>TBOX_CONTAINER(node, MEM_CHUNK, link)\<close>.\<close>

definition chunk_of :: "addr \<Rightarrow> u32" where "chunk_of node = of_nat node - 4"

text \<open>\<^verbatim>\<open>memset(p, 0, n)\<close>; an object cannot reach past the end of the address space.\<close>

definition in_region :: "u32 \<Rightarrow> u32 \<Rightarrow> u32 \<Rightarrow> bool" where
  "in_region b n p \<longleftrightarrow> unat b \<le> unat p \<and> unat p < unat b + unat n"

definition zero_all :: "u32 \<Rightarrow> u32 \<Rightarrow> mp_state \<Rightarrow> mp_state option" where
  "zero_all b n S =
     (if unat b + unat n > 2 ^ 32 then None
      else Some (S\<lparr>
        m_chunks := (\<lambda>p. if in_region b n p then \<lparr>ck_magic = 0, ck_used = False, ck_size = 0\<rparr>
                          else m_chunks S p),
        m_zones := (\<lambda>p. if in_region b n p then \<lparr>zn_magic = 0, zn_chunk_size = 0\<rparr> else m_zones S p),
        m_links := (\<lambda>a. if unat b \<le> a \<and> a < unat b + unat n then \<lparr>prev = NULL, nxt = NULL\<rparr>
                          else m_links S a),
        m_words := (\<lambda>p. if in_region b n p then 0 else m_words S p),
        m_bytes := (\<lambda>p. if in_region b n p then 0 else m_bytes S p)\<rparr>))"

definition zero_bytes :: "u32 \<Rightarrow> u32 \<Rightarrow> mp_state \<Rightarrow> mp_state option" where
  "zero_bytes b n S =
     (if unat b + unat n > 2 ^ 32 then None
      else Some (S\<lparr>m_bytes := (\<lambda>p. if in_region b n p then 0 else m_bytes S p)\<rparr>))"

section \<open>Operations\<close>

text \<open>The rounded size and the class.\<close>

definition mem_zoneindex :: "u32 \<Rightarrow> u32 \<times> u32" where
  "mem_zoneindex n =
     (if n < 128 then let n = (n + 7) AND NOT 7 in (n, n div 8 - 1)
      else if n < 256 then let n = (n + 15) AND NOT 15 in (n, n div 16 + 7)
      else if n < 8192 then
        if n < 512 then let n = (n + 31) AND NOT 31 in (n, n div 32 + 15)
        else if n < 1024 then let n = (n + 63) AND NOT 63 in (n, n div 64 + 23)
        else if n < 2048 then let n = (n + 127) AND NOT 127 in (n, n div 128 + 31)
        else if n < 4096 then let n = (n + 255) AND NOT 255 in (n, n div 256 + 39)
        else let n = (n + 511) AND NOT 511 in (n, n div 512 + 47)
      else if n < 16384 then let n = (n + 1023) AND NOT 1023 in (n, n div 1024 + 55)
      else (n, of_nat MEM_ZONE_COUNT))"

definition bad_handle :: "MP_HANDLE \<Rightarrow> bool" where
  "bad_handle handle \<longleftrightarrow> unat handle \<ge> TBOX_MEMPOOL_NUM \<or> sint handle < 0"

definition upd_pool :: "MP_HANDLE \<Rightarrow> (mem_pool \<Rightarrow> mem_pool) \<Rightarrow> mp_state \<Rightarrow> mp_state" where
  "upd_pool h f S = S\<lparr>m_pool := (m_pool S)[unat h := f (m_pool S ! unat h)]\<rparr>"

definition error_handle :: "TBOX_ERROR_CODE \<Rightarrow> MP_HANDLE" where
  "error_handle e = word_of_int (tbox_error_val e)"

fun free_pool :: "mem_pool list \<Rightarrow> u32 \<Rightarrow> MP_HANDLE option" where
  "free_pool [] i = None"
| "free_pool (p # ps) i = (if \<not> mp_is_used p then Some i else free_pool ps (i + 1))"

text \<open>\<open>mutex\<close> is the handle that \<^verbatim>\<open>xSemaphoreCreateMutex\<close> gives, 0 when it fails.\<close>

definition init_zone :: "u32 \<Rightarrow> nat \<Rightarrow> mp_state \<Rightarrow> mp_state option" where
  "init_zone zones i S = do {
     let z = zones + SIZEOF_ZONE * of_nat i;
     c \<leftarrow> rd mem_chunk_size i;
     let S = S\<lparr>m_zones := (m_zones S)(z := \<lparr>zn_magic = MEM_MAGIC, zn_chunk_size = c\<rparr>)\<rparr>;
     l \<leftarrow> dlist_init (m_links S) (free_list z);
     Some (S\<lparr>m_links := l\<rparr>)
   }"

definition mp_create :: "mp_state \<Rightarrow> u32 \<Rightarrow> u32 \<Rightarrow> nat \<Rightarrow> (mp_state \<times> MP_HANDLE) option" where
  "mp_create S buffer sz mutex =
     (if buffer = 0 then Some (S, error_handle TBOX_E_INVALID_PARAM)
      else if sz \<le> SIZEOF_ZONE * of_nat MEM_ZONE_COUNT then Some (S, error_handle TBOX_E_TOOSMALL)
      else case free_pool (m_pool S) 0 of
        None \<Rightarrow> Some (S, error_handle TBOX_E_NORESOURCES)
      | Some handle \<Rightarrow> do {
          S \<leftarrow> zero_all buffer sz S;
          let b = MEM_ALIGN buffer;
          let S = upd_pool handle (\<lambda>p. p\<lparr>mp_buffer := b, mp_size := MEM_ALIGN_DOWN (buffer + sz - b),
                    mp_zones := b, mp_pos := SIZEOF_ZONE * of_nat MEM_ZONE_COUNT\<rparr>) S;
          S \<leftarrow> for_up 0 MEM_ZONE_COUNT (init_zone b) S;
          let S = upd_pool handle (\<lambda>p. p\<lparr>mp_mutex := mutex\<rparr>) S;
          if mutex = 0 then Some (S, error_handle TBOX_E_FAILED_CREATE)
          else Some (upd_pool handle (\<lambda>p. p\<lparr>mp_is_used := True\<rparr>) S, handle)
        })"

definition mp_destroy :: "mp_state \<Rightarrow> MP_HANDLE \<Rightarrow> mp_state option" where
  "mp_destroy S handle =
     (if bad_handle handle then Some S
      else let pool = m_pool S ! unat handle in
      if mp_mutex pool = 0 then None
      else if \<not> mp_is_used pool then Some S
      else Some (upd_pool handle (\<lambda>p. p\<lparr>mp_buffer := 0, mp_size := 0, mp_pos := 0, mp_zones := 0,
                   mp_is_used := False, mp_mutex := 0\<rparr>) S))"

definition mem_alloc_internal :: "mp_state \<Rightarrow> MP_HANDLE \<Rightarrow> u32 \<Rightarrow> mp_state \<times> u32" where
  "mem_alloc_internal S handle sz =
     (let pool = m_pool S ! unat handle in
      if mp_pos pool + sz > mp_size pool then (S, 0)
      else (upd_pool handle (\<lambda>p. p\<lparr>mp_pos := mp_pos p + sz\<rparr>) S, mp_buffer pool + mp_pos pool))"

text \<open>The header and the guards of a chunk for \<open>sz\<close> bytes; the pointer handed to the caller.\<close>

definition set_chunk :: "u32 \<Rightarrow> u32 \<Rightarrow> mp_state \<Rightarrow> mp_state \<times> u32" where
  "set_chunk chunk sz S =
     (let S = S\<lparr>m_chunks := (m_chunks S)(chunk :=
            \<lparr>ck_magic = MEM_CHUNK_MAGIC, ck_used = True, ck_size = ucast sz\<rparr>)\<rparr>;
          ptr = chunk + SIZEOF_CHUNK;
          S = S\<lparr>m_words := (m_words S)(ptr := MEM_GUARD_PATTERN)\<rparr>;
          ptr = ptr + MEM_GUARD_SIZE in
      (S\<lparr>m_words := (m_words S)(ptr + sz := MEM_GUARD_PATTERN)\<rparr>, ptr))"

definition unusable :: "mem_pool \<Rightarrow> bool" where
  "unusable pool \<longleftrightarrow> \<not> mp_is_used pool \<or> mp_mutex pool = 0 \<or> mp_buffer pool = 0 \<or> mp_size pool = 0"

text \<open>A chunk of the class: new memory if its free list is empty, the first of the list otherwise.\<close>

definition take_chunk :: "mp_state \<Rightarrow> MP_HANDLE \<Rightarrow> u32 \<Rightarrow> u32 \<Rightarrow> (mp_state \<times> u32 option) option" where
  "take_chunk S handle zone data_size =
     (if dlist_empty (m_links S) (free_list zone)
      then let (S, ptr) = mem_alloc_internal S handle data_size in
           Some (S, if ptr = 0 then None else Some ptr)
      else do {
        (l, node) \<leftarrow> dlist_pop_first_node (m_links S) (free_list zone);
        Some (S\<lparr>m_links := l\<rparr>, if node = NULL then None else Some (chunk_of node))
      })"

definition mp_alloc :: "mp_state \<Rightarrow> MP_HANDLE \<Rightarrow> u32 \<Rightarrow> (mp_state \<times> u32) option" where
  "mp_alloc S handle sz =
     (if bad_handle handle \<or> sz = 0 then Some (S, 0)
      else let (data_size, zone_index) = mem_zoneindex (MEM_CHUNK_SIZE sz) in
      if unat zone_index \<ge> MEM_ZONE_COUNT then Some (S, 0)
      else let pool = m_pool S ! unat handle in
      if unusable pool then Some (S, 0)
      else let zone = zone_at pool zone_index in
      if zn_magic (m_zones S zone) \<noteq> MEM_MAGIC \<or> data_size > ucast (zn_chunk_size (m_zones S zone))
      then Some (S, 0)
      else do {
        (S, chunk) \<leftarrow> take_chunk S handle zone data_size;
        case chunk of
          None \<Rightarrow> Some (S, 0)
        | Some chunk \<Rightarrow> do {
            let (S, ptr) = set_chunk chunk sz S;
            S \<leftarrow> zero_bytes ptr sz S;
            Some (S, ptr)
          }
      })"

definition out_of_pool :: "mem_pool \<Rightarrow> u32 \<Rightarrow> bool" where
  "out_of_pool pool ptr \<longleftrightarrow> ptr < mp_buffer pool \<or> ptr \<ge> mp_buffer pool + mp_size pool"

definition mp_free :: "mp_state \<Rightarrow> MP_HANDLE \<Rightarrow> u32 \<Rightarrow> mp_state option" where
  "mp_free S handle ptr =
     (if bad_handle handle \<or> ptr = 0 then Some S
      else let pool = m_pool S ! unat handle in
      if unusable pool \<or> out_of_pool pool ptr then Some S
      else let chunk = ptr - SIZEOF_CHUNK - MEM_GUARD_SIZE; c = m_chunks S chunk in
      if \<not> ck_used c \<or> ck_magic c \<noteq> MEM_CHUNK_MAGIC then Some S
      else let (_, zone_index) = mem_zoneindex (MEM_CHUNK_SIZE (ucast (ck_size c))) in
      if unat zone_index \<ge> MEM_ZONE_COUNT then Some S
      else let zone = zone_at pool zone_index in
      if zn_magic (m_zones S zone) \<noteq> MEM_MAGIC \<or> ck_size c > zn_chunk_size (m_zones S zone) \<or>
         nxt (m_links S (free_list zone)) = NULL \<or> prev (m_links S (free_list zone)) = NULL
      then Some S
      else do {
        l \<leftarrow> dlist_add_tail (m_links S) (chunk_link chunk) (free_list zone);
        Some (S\<lparr>m_chunks := (m_chunks S)(chunk := c\<lparr>ck_used := False, ck_size := 0\<rparr>), m_links := l\<rparr>)
      })"

definition mp_check :: "mp_state \<Rightarrow> MP_HANDLE \<Rightarrow> u32 \<Rightarrow> TBOX_ERROR_CODE" where
  "mp_check S handle ptr =
     (if bad_handle handle \<or> ptr = 0 then TBOX_E_INVALID_PARAM
      else let pool = m_pool S ! unat handle in
      if unusable pool then TBOX_E_INVALID_DATA
      else if out_of_pool pool ptr then TBOX_E_INVALID_POINTER
      else let chunk = ptr - SIZEOF_CHUNK - MEM_GUARD_SIZE; c = m_chunks S chunk in
      if ck_magic c \<noteq> MEM_CHUNK_MAGIC \<or> \<not> ck_used c then TBOX_E_INVALID_DATA
      else let (_, zone_index) = mem_zoneindex (MEM_CHUNK_SIZE (ucast (ck_size c))) in
      if unat zone_index \<ge> MEM_ZONE_COUNT then TBOX_E_INVALID_DATA
      else let zone = zone_at pool zone_index in
      if zn_magic (m_zones S zone) \<noteq> MEM_MAGIC \<or> ck_size c > zn_chunk_size (m_zones S zone)
      then TBOX_E_INVALID_DATA
      else if m_words S (ptr - MEM_GUARD_SIZE) \<noteq> MEM_GUARD_PATTERN then TBOX_E_UNDERFLOW
      else if m_words S (ptr + ucast (ck_size c)) \<noteq> MEM_GUARD_PATTERN then TBOX_E_OVERFLOW
      else TBOX_E_OK)"

definition mp_check_pool :: "mp_state \<Rightarrow> MP_HANDLE \<Rightarrow> TBOX_ERROR_CODE" where
  "mp_check_pool S handle =
     (if bad_handle handle then TBOX_E_INVALID_PARAM
      else if unusable (m_pool S ! unat handle) then TBOX_E_INVALID_DATA
      else TBOX_E_OK)"

section \<open>The memory of the core\<close>

text \<open>
  The handles by memory type, with the static buffer of the core as the only one configured:
  the other two keep the value their static storage starts with, 0.
\<close>

definition TBOX_MEMORY_TYPE_CORE :: nat where "TBOX_MEMORY_TYPE_CORE = 0"
definition TBOX_MEMORY_TYPE_MAX :: nat where "TBOX_MEMORY_TYPE_MAX = 3"
definition TBOX_MEMORY_CORE_SIZE :: u32 where "TBOX_MEMORY_CORE_SIZE = 0x5000"

record memory_state =
  mps :: "MP_HANDLE list"
  mem :: mp_state
  reports :: "(TBOX_ERROR_CODE \<times> u32) list"

definition tbox_memory_init ::
  "memory_state \<Rightarrow> u32 \<Rightarrow> nat \<Rightarrow> (memory_state \<times> TBOX_ERROR_CODE) option" where
  "tbox_memory_init M core_memory mutex = do {
     (S, h) \<leftarrow> mp_create (mem M) core_memory TBOX_MEMORY_CORE_SIZE mutex;
     let M = M\<lparr>mem := S, mps := (mps M)[TBOX_MEMORY_TYPE_CORE := h]\<rparr>;
     Some (M, if mps M ! TBOX_MEMORY_TYPE_CORE = MP_INVALID_HANDLE then TBOX_E_FAILED_CREATE else TBOX_E_OK)
   }"

definition tbox_memory_deinit :: "memory_state \<Rightarrow> memory_state option" where
  "tbox_memory_deinit M =
     (if mps M ! TBOX_MEMORY_TYPE_CORE \<noteq> MP_INVALID_HANDLE
      then do {
        S \<leftarrow> mp_destroy (mem M) (mps M ! TBOX_MEMORY_TYPE_CORE);
        Some (M\<lparr>mem := S, mps := (mps M)[TBOX_MEMORY_TYPE_CORE := MP_INVALID_HANDLE]\<rparr>)
      }
      else Some M)"

definition tbox_memory_alloc :: "memory_state \<Rightarrow> nat \<Rightarrow> u32 \<Rightarrow> (memory_state \<times> u32) option" where
  "tbox_memory_alloc M type sz =
     (if type \<ge> TBOX_MEMORY_TYPE_MAX then Some (M, 0)
      else if mps M ! type = MP_INVALID_HANDLE then Some (M, 0)
      else do { (S, ptr) \<leftarrow> mp_alloc (mem M) (mps M ! type) sz; Some (M\<lparr>mem := S\<rparr>, ptr) })"

definition tbox_memory_free :: "memory_state \<Rightarrow> nat \<Rightarrow> u32 \<Rightarrow> memory_state option" where
  "tbox_memory_free M type ptr =
     (if type \<ge> TBOX_MEMORY_TYPE_MAX \<or> ptr = 0 then Some M
      else if mps M ! type = MP_INVALID_HANDLE then Some M
      else do { S \<leftarrow> mp_free (mem M) (mps M ! type) ptr; Some (M\<lparr>mem := S\<rparr>) })"

text \<open>\<open>reports\<close> is what went to \<^verbatim>\<open>tbox_supervish_report_memory_abnormal\<close>.\<close>

definition tbox_memory_check :: "memory_state \<Rightarrow> nat \<Rightarrow> u32 \<Rightarrow> memory_state \<times> TBOX_ERROR_CODE" where
  "tbox_memory_check M type ptr =
     (if type \<ge> TBOX_MEMORY_TYPE_MAX \<or> ptr = 0 then (M, TBOX_E_INVALID_PARAM)
      else if mps M ! type = MP_INVALID_HANDLE then (M, TBOX_E_INVALID_PARAM)
      else let ret = mp_check (mem M) (mps M ! type) ptr in
      if ret = TBOX_E_OVERFLOW \<or> ret = TBOX_E_UNDERFLOW
      then (M\<lparr>reports := reports M @ [(ret, ptr)]\<rparr>, ret)
      else if ret \<noteq> TBOX_E_OK then (M, TBOX_E_FAILED)
      else (M, TBOX_E_OK))"

end
