(* ===== verification/MemPoolInv.thy ===== *)
theory MemPoolInv imports MemPool begin

text \<open>
  The size classes and the invariant of a memory pool: zones intact, chunks one after the other
  from the end of the zones to the fill mark, each of them either handed out with a size of its
  class or in the free list of its class.
\<close>

section \<open>Size classes\<close>

definition class_size :: "nat \<Rightarrow> nat" where
  "class_size i =
     (if i < 16 then 8 * (i + 1) else if i < 24 then 16 * (i - 7) else if i < 32 then 32 * (i - 15)
      else if i < 40 then 64 * (i - 23) else if i < 48 then 128 * (i - 31)
      else if i < 56 then 256 * (i - 39) else if i < 64 then 512 * (i - 47) else 1024 * (i - 55))"

lemma class_size_table: "i < 72 \<Longrightarrow> class_size i \<le> unat (mem_chunk_size ! i)"
proof -
  have "list_all2 (\<lambda>i c. class_size i \<le> unat c) [0..<72] mem_chunk_size"
    by (simp add: mem_chunk_size_def class_size_def upt_rec)
  then show "i < 72 \<Longrightarrow> class_size i \<le> unat (mem_chunk_size ! i)"
    by (auto simp: list_all2_conv_all_nth)
qed

lemma class_size_bounds: "i < 72 \<Longrightarrow> 8 \<le> class_size i \<and> class_size i \<le> 16384"
  by (auto simp: class_size_def)

lemma align_up:
  assumes "m = mask k" and "unat (n :: u32) + unat m < 2 ^ 32"
  shows "unat ((n + m) AND NOT m) = (unat n + unat m) div 2 ^ k * 2 ^ k"
  using assms unat_plus_if_fits [of n m] by (simp add: unat_align_down)

lemma size_masks:
  "(7 :: u32) = mask 3" "(15 :: u32) = mask 4" "(31 :: u32) = mask 5" "(63 :: u32) = mask 6"
  "(127 :: u32) = mask 7" "(255 :: u32) = mask 8" "(511 :: u32) = mask 9" "(1023 :: u32) = mask 10"
  by (simp_all add: mask_eq_exp_minus_1)

text \<open>
  One segment of \<open>mem_zoneindex\<close>: sizes between \<open>lo\<close> and \<open>hi\<close> are rounded to multiples of
  \<open>2 ^ k\<close>, the classes in this segment are these multiples.
\<close>

lemma zone_segment:
  fixes n :: u32 and q off lo hi :: nat
  assumes m: "m = mask k" "unat m + 1 = 2 ^ k" and n: "lo * 2 ^ k \<le> unat n" "unat n < hi * 2 ^ k" "0 < unat n"
    and small: "hi * 2 ^ k \<le> 16384" "k \<le> 10"
  defines "d \<equiv> (n + m) AND NOT m" and "q \<equiv> (unat n + unat m) div 2 ^ k"
  shows "unat d = q * 2 ^ k" "lo \<le> q" "0 < q" "q \<le> hi" "unat n \<le> q * 2 ^ k" "(q - 1) * 2 ^ k < unat n"
    "unat (d div 2 ^ k) = q"
proof -
  let ?p = "2 ^ k :: nat"
  have p: "0 < ?p" by simp
  have mp: "unat m = ?p - 1" using m(2) by simp
  have "?p \<le> 2 ^ 10" using small(2) by (rule power_increasing) simp
  then have fits: "unat n + unat m < 2 ^ 32" using n(2) small(1) mp by simp
  show d: "unat d = q * ?p"
    unfolding d_def q_def by (rule align_up [OF m(1) fits])
  have q1: "q * ?p \<le> unat n + unat m" "unat n + unat m < (q + 1) * ?p"
    unfolding q_def using p by (simp_all add: div_times_less_eq_dividend dividend_less_div_times)
  then show nq: "unat n \<le> q * ?p" using mp p by (simp add: algebra_simps)
  have "(q - 1) * ?p = q * ?p - ?p" by (simp add: diff_mult_distrib)
  then show "(q - 1) * ?p < unat n" using q1(1) mp p n(3) by simp
  then have "(q - 1) * ?p < hi * ?p" using n(2) by (rule less_trans)
  then show "q \<le> hi" by simp
  have "lo * ?p \<le> q * ?p" using n(1) nq by (rule le_trans)
  then show "lo \<le> q" by simp
  show "0 < q" using nq n(3) by (cases q) simp_all
  have "unat (of_nat ?p :: u32) = ?p"
    by (subst unat_of_nat) (use \<open>?p \<le> 2 ^ 10\<close> in simp)
  then have "unat (2 ^ k :: u32) = ?p" by (simp only: of_nat_power of_nat_numeral)
  then show "unat (d div 2 ^ k) = q" using d p by (simp add: unat_div_distrib)
qed

lemma zone_case:
  fixes n ix :: u32 and lo hi :: nat
  assumes m: "m = mask k" "unat m + 1 = 2 ^ k" and n: "lo * 2 ^ k \<le> unat n" "unat n < hi * 2 ^ k" "0 < unat n"
    and small: "hi * 2 ^ k \<le> 16384" "k \<le> 10"
    and ix: "ix = ((n + m) AND NOT m) div 2 ^ k + c"
    and c: "\<And>q w. lo \<le> q \<Longrightarrow> 0 < q \<Longrightarrow> q \<le> hi \<Longrightarrow> unat w = q \<Longrightarrow> unat (w + c :: u32) = f q"
    and cls: "\<And>q. lo \<le> q \<Longrightarrow> 0 < q \<Longrightarrow> q \<le> hi \<Longrightarrow> f q < 72 \<and> class_size (f q) = q * 2 ^ k \<and>
       (f q = 0 \<or> class_size (f q - 1) \<le> max ((q - 1) * 2 ^ k) (lo * 2 ^ k - 1))"
  shows "unat ix < 72 \<and> unat ((n + m) AND NOT m) = class_size (unat ix) \<and>
     unat n \<le> class_size (unat ix) \<and> (unat ix = 0 \<or> class_size (unat ix - 1) < unat n)"
proof -
  note seg = zone_segment [OF m n small]
  have i: "unat ix = f ((unat n + unat m) div 2 ^ k)"
    unfolding ix by (rule c [OF seg(2,3,4,7)])
  have "max (((unat n + unat m) div 2 ^ k - 1) * 2 ^ k) (lo * 2 ^ k - 1) < unat n"
    using seg(6) n(1,3) by simp
  then show ?thesis
    unfolding i using cls [OF seg(2,3,4)] seg(1,5) by (auto intro: le_less_trans)
qed

lemma zoneindex_ok:
  assumes "0 < n" and "n < 16384"
  shows "\<exists>d i. mem_zoneindex n = (d, i) \<and> unat i < 72 \<and> unat d = class_size (unat i) \<and>
     unat n \<le> class_size (unat i) \<and> (unat i = 0 \<or> class_size (unat i - 1) < unat n)"
proof -
  have pos: "0 < unat n" using assms(1) by (simp add: word_less_nat_alt)
  have up: "unat (w + c :: u32) = unat w + unat c" if "unat w \<le> 16" "unat c < 72" for w c
    using that by (simp add: unat_plus_if_fits)
  have down: "unat (w - 1 :: u32) = unat w - 1" if "0 < unat w" for w
    using that by (simp add: unat_minus_le word_le_nat_alt)
  consider "unat n < 128" | "128 \<le> unat n" "unat n < 256" | "256 \<le> unat n" "unat n < 512"
    | "512 \<le> unat n" "unat n < 1024" | "1024 \<le> unat n" "unat n < 2048"
    | "2048 \<le> unat n" "unat n < 4096" | "4096 \<le> unat n" "unat n < 8192"
    | "8192 \<le> unat n" "unat n < 16384"
    using assms(2) by (fastforce simp: word_less_nat_alt)
  then show ?thesis
  proof cases
    case 1
    let ?d = "(n + 7) AND NOT 7" and ?i = "((n + 7) AND NOT 7) div 8 - 1"
    have "mem_zoneindex n = (?d, ?i)"
      using 1 by (simp add: mem_zoneindex_def word_less_nat_alt Let_def)
    moreover have "unat ?i < 72 \<and> unat ?d = class_size (unat ?i) \<and>
     unat n \<le> class_size (unat ?i) \<and> (unat ?i = 0 \<or> class_size (unat ?i - 1) < unat n)"
      by (rule zone_case [where k = 3 and lo = 0 and hi = 16 and c = "- 1" and f = "\<lambda>q. q - 1"])
        (use 1 pos size_masks(1) in \<open>auto simp: up down class_size_def max_def\<close>)
    ultimately show ?thesis by auto
  next
    case 2
    let ?d = "(n + 15) AND NOT 15" and ?i = "((n + 15) AND NOT 15) div 16 + 7"
    have "mem_zoneindex n = (?d, ?i)"
      using 2 by (simp add: mem_zoneindex_def word_less_nat_alt Let_def)
    moreover have "unat ?i < 72 \<and> unat ?d = class_size (unat ?i) \<and>
     unat n \<le> class_size (unat ?i) \<and> (unat ?i = 0 \<or> class_size (unat ?i - 1) < unat n)"
      by (rule zone_case [where k = 4 and lo = 8 and hi = 16 and c = "7" and f = "\<lambda>q. q + 7"])
        (use 2 pos size_masks(2) in \<open>auto simp: up down class_size_def max_def\<close>)
    ultimately show ?thesis by auto
  next
    case 3
    let ?d = "(n + 31) AND NOT 31" and ?i = "((n + 31) AND NOT 31) div 32 + 15"
    have "mem_zoneindex n = (?d, ?i)"
      using 3 by (simp add: mem_zoneindex_def word_less_nat_alt Let_def)
    moreover have "unat ?i < 72 \<and> unat ?d = class_size (unat ?i) \<and>
     unat n \<le> class_size (unat ?i) \<and> (unat ?i = 0 \<or> class_size (unat ?i - 1) < unat n)"
      by (rule zone_case [where k = 5 and lo = 8 and hi = 16 and c = "15" and f = "\<lambda>q. q + 15"])
        (use 3 pos size_masks(3) in \<open>auto simp: up down class_size_def max_def\<close>)
    ultimately show ?thesis by auto
  next
    case 4
    let ?d = "(n + 63) AND NOT 63" and ?i = "((n + 63) AND NOT 63) div 64 + 23"
    have "mem_zoneindex n = (?d, ?i)"
      using 4 by (simp add: mem_zoneindex_def word_less_nat_alt Let_def)
    moreover have "unat ?i < 72 \<and> unat ?d = class_size (unat ?i) \<and>
     unat n \<le> class_size (unat ?i) \<and> (unat ?i = 0 \<or> class_size (unat ?i - 1) < unat n)"
      by (rule zone_case [where k = 6 and lo = 8 and hi = 16 and c = "23" and f = "\<lambda>q. q + 23"])
        (use 4 pos size_masks(4) in \<open>auto simp: up down class_size_def max_def\<close>)
    ultimately show ?thesis by auto
  next
    case 5
    let ?d = "(n + 127) AND NOT 127" and ?i = "((n + 127) AND NOT 127) div 128 + 31"
    have "mem_zoneindex n = (?d, ?i)"
      using 5 by (simp add: mem_zoneindex_def word_less_nat_alt Let_def)
    moreover have "unat ?i < 72 \<and> unat ?d = class_size (unat ?i) \<and>
     unat n \<le> class_size (unat ?i) \<and> (unat ?i = 0 \<or> class_size (unat ?i - 1) < unat n)"
      by (rule zone_case [where k = 7 and lo = 8 and hi = 16 and c = "31" and f = "\<lambda>q. q + 31"])
        (use 5 pos size_masks(5) in \<open>auto simp: up down class_size_def max_def\<close>)
    ultimately show ?thesis by auto
  next
    case 6
    let ?d = "(n + 255) AND NOT 255" and ?i = "((n + 255) AND NOT 255) div 256 + 39"
    have "mem_zoneindex n = (?d, ?i)"
      using 6 by (simp add: mem_zoneindex_def word_less_nat_alt Let_def)
    moreover have "unat ?i < 72 \<and> unat ?d = class_size (unat ?i) \<and>
     unat n \<le> class_size (unat ?i) \<and> (unat ?i = 0 \<or> class_size (unat ?i - 1) < unat n)"
      by (rule zone_case [where k = 8 and lo = 8 and hi = 16 and c = "39" and f = "\<lambda>q. q + 39"])
        (use 6 pos size_masks(6) in \<open>auto simp: up down class_size_def max_def\<close>)
    ultimately show ?thesis by auto
  next
    case 7
    let ?d = "(n + 511) AND NOT 511" and ?i = "((n + 511) AND NOT 511) div 512 + 47"
    have "mem_zoneindex n = (?d, ?i)"
      using 7 by (simp add: mem_zoneindex_def word_less_nat_alt Let_def)
    moreover have "unat ?i < 72 \<and> unat ?d = class_size (unat ?i) \<and>
     unat n \<le> class_size (unat ?i) \<and> (unat ?i = 0 \<or> class_size (unat ?i - 1) < unat n)"
      by (rule zone_case [where k = 9 and lo = 8 and hi = 16 and c = "47" and f = "\<lambda>q. q + 47"])
        (use 7 pos size_masks(7) in \<open>auto simp: up down class_size_def max_def\<close>)
    ultimately show ?thesis by auto
  next
    case 8
    let ?d = "(n + 1023) AND NOT 1023" and ?i = "((n + 1023) AND NOT 1023) div 1024 + 55"
    have "mem_zoneindex n = (?d, ?i)"
      using 8 by (simp add: mem_zoneindex_def word_less_nat_alt Let_def)
    moreover have "unat ?i < 72 \<and> unat ?d = class_size (unat ?i) \<and>
     unat n \<le> class_size (unat ?i) \<and> (unat ?i = 0 \<or> class_size (unat ?i - 1) < unat n)"
      by (rule zone_case [where k = 10 and lo = 8 and hi = 16 and c = "55" and f = "\<lambda>q. q + 55"])
        (use 8 pos size_masks(8) in \<open>auto simp: up down class_size_def max_def\<close>)
    ultimately show ?thesis by auto
  qed
qed

lemma zoneindex_big: "16384 \<le> n \<Longrightarrow> mem_zoneindex n = (n, 72)"
  by (simp add: mem_zoneindex_def word_less_nat_alt word_le_nat_alt MEM_ZONE_COUNT_def)

text \<open>The class of a request.\<close>

definition class_of :: "u32 \<Rightarrow> nat" where
  "class_of sz = unat (snd (mem_zoneindex (MEM_CHUNK_SIZE sz)))"

lemma unat_chunk_size:
  assumes "unat sz + 23 < 2 ^ 32"
  shows "unat (MEM_CHUNK_SIZE sz) = (unat sz + 23) div 4 * 4"
proof -
  have e: "MEM_CHUNK_SIZE sz = (sz + 23) AND NOT (mask 2)"
    by (simp add: MEM_CHUNK_SIZE_def MEM_ALIGN_def SIZEOF_CHUNK_def MEM_GUARD_SIZE_def mask_eq_exp_minus_1
        add.commute)
  have "unat (sz + 23) = unat sz + 23"
    using assms unat_plus_if_fits [of sz 23] by simp
  then show ?thesis unfolding e unat_align_down by simp
qed

lemma request_class:
  assumes "unat sz + 23 < 2 ^ 32"
  shows "unat sz \<le> 16360 \<Longrightarrow> \<exists>d i. mem_zoneindex (MEM_CHUNK_SIZE sz) = (d, i) \<and> unat i = class_of sz \<and>
       class_of sz < 72 \<and> unat d = class_size (class_of sz) \<and> unat sz + 20 \<le> class_size (class_of sz)"
    and "16360 < unat sz \<Longrightarrow> class_of sz = 72"
proof -
  note c = unat_chunk_size [OF assms]
  have le: "unat sz + 20 \<le> unat (MEM_CHUNK_SIZE sz)" using c by presburger
  show "\<exists>d i. mem_zoneindex (MEM_CHUNK_SIZE sz) = (d, i) \<and> unat i = class_of sz \<and>
       class_of sz < 72 \<and> unat d = class_size (class_of sz) \<and> unat sz + 20 \<le> class_size (class_of sz)"
    if "unat sz \<le> 16360"
  proof -
    have "unat (MEM_CHUNK_SIZE sz) < 16384" using c that by presburger
    moreover have "0 < unat (MEM_CHUNK_SIZE sz)" using le by simp
    ultimately show ?thesis
      using zoneindex_ok [of "MEM_CHUNK_SIZE sz"] le by (auto simp: word_less_nat_alt class_of_def)
  qed
  show "class_of sz = 72" if "16360 < unat sz"
  proof -
    have "16384 \<le> unat (MEM_CHUNK_SIZE sz)" using c that by presburger
    then show ?thesis using zoneindex_big [of "MEM_CHUNK_SIZE sz"] by (simp add: class_of_def word_le_nat_alt)
  qed
qed

section \<open>The invariant\<close>

text \<open>Chunks with their classes, from one address to another without gaps; the first two classes
  are too small for any chunk.\<close>

fun tiles :: "nat \<Rightarrow> (u32 \<times> nat) list \<Rightarrow> nat \<Rightarrow> bool" where
  "tiles a [] e \<longleftrightarrow> a = e"
| "tiles a ((c, z) # bs) e \<longleftrightarrow> unat c = a \<and> 2 \<le> z \<and> z < 72 \<and> tiles (a + class_size z) bs e"

definition zone_head :: "mem_pool \<Rightarrow> nat \<Rightarrow> addr" where
  "zone_head pool z = free_list (zone_at pool (of_nat z))"

definition zone_heads :: "mem_pool \<Rightarrow> addr set" where
  "zone_heads pool = zone_head pool ` {..<72}"

definition pool_wf :: "mem_pool \<Rightarrow> bool" where
  "pool_wf pool \<longleftrightarrow> \<not> unusable pool \<and> mp_zones pool = mp_buffer pool \<and>
     unat (mp_buffer pool) + unat (mp_size pool) < 2 ^ 32 \<and> unat (mp_size pool) + 16384 < 2 ^ 32 \<and>
     1152 \<le> unat (mp_pos pool) \<and> unat (mp_pos pool) \<le> unat (mp_size pool)"

definition chunk_ok :: "mp_state \<Rightarrow> mem_pool \<Rightarrow> (addr \<Rightarrow> addr list) \<Rightarrow> u32 \<Rightarrow> nat \<Rightarrow> bool" where
  "chunk_ok S pool L c z \<longleftrightarrow> (let k = m_chunks S c in ck_magic k = MEM_CHUNK_MAGIC \<and>
     (if ck_used k then 0 < ck_size k \<and> class_of (ucast (ck_size k)) = z
      else chunk_link c \<in> set (L (zone_head pool z))))"

definition pool_inv :: "mp_state \<Rightarrow> MP_HANDLE \<Rightarrow> (u32 \<times> nat) list \<Rightarrow> (addr \<Rightarrow> addr list) \<Rightarrow> bool" where
  "pool_inv S h bs L \<longleftrightarrow> (let pool = m_pool S ! unat h in
     \<not> bad_handle h \<and> length (m_pool S) = TBOX_MEMPOOL_NUM \<and> pool_wf pool \<and>
     (\<forall>z<72. m_zones S (zone_at pool (of_nat z)) =
        \<lparr>zn_magic = MEM_MAGIC, zn_chunk_size = mem_chunk_size ! z\<rparr>) \<and>
     tiles (unat (mp_buffer pool) + 1152) bs (unat (mp_buffer pool) + unat (mp_pos pool)) \<and>
     (\<forall>(c, z)\<in>set bs. chunk_ok S pool L c z) \<and>
     family dlist_at (m_links S) (zone_heads pool) L \<and>
     (\<forall>z<72. \<forall>a\<in>set (L (zone_head pool z)). \<exists>c. (c, z) \<in> set bs \<and> \<not> ck_used (m_chunks S c) \<and>
        a = chunk_link c))"

text \<open>What the callers hold: the pointers and the sizes asked for.\<close>

definition held :: "mp_state \<Rightarrow> (u32 \<times> nat) list \<Rightarrow> (u32 \<times> nat) set" where
  "held S bs = {(c + 16, unat (ck_size (m_chunks S c))) | c z. (c, z) \<in> set bs \<and> ck_used (m_chunks S c)}"

end
