(* ===== verification/MemPoolOps.thy ===== *)
theory MemPoolOps imports MemPoolInv begin

text \<open>
  Allocation and release keep the invariant of the pool; allocation adds a pointer to what the
  callers hold and release takes one away.
\<close>

section \<open>Addresses\<close>

lemma tiles_le: "tiles a bs e \<Longrightarrow> a \<le> e"
  by (induction a bs e rule: tiles.induct) auto

lemma tiles_in: "tiles a bs e \<Longrightarrow> (c, z) \<in> set bs \<Longrightarrow> a \<le> unat c \<and> unat c + class_size z \<le> e \<and> 2 \<le> z \<and> z < 72"
  by (induction a bs e rule: tiles.induct) (auto dest: tiles_le)

lemma tiles_apart:
  "tiles a bs e \<Longrightarrow> (c, z) \<in> set bs \<Longrightarrow> (c', z') \<in> set bs \<Longrightarrow>
    c = c' \<and> z = z' \<or> unat c + class_size z \<le> unat c' \<or> unat c' + class_size z' \<le> unat c"
proof (induction a bs e rule: tiles.induct)
  case (2 a c1 z1 bs e)
  have t: "tiles (a + class_size z1) bs e" "unat c1 = a" using 2(2) by auto
  show ?case
    using 2(1) [OF t(1)] 2(3,4) tiles_in [OF t(1)] t(2) by fastforce
qed simp

lemma tiles_snoc: "tiles a (bs @ [(c, z)]) e \<longleftrightarrow> tiles a bs (unat c) \<and> 2 \<le> z \<and> z < 72 \<and> e = unat c + class_size z"
  by (induction a bs e rule: tiles.induct) auto

lemma tiles_inj:
  assumes "tiles a bs e" and "(c, z) \<in> set bs" and "(c, z') \<in> set bs"
  shows "z = z'"
  using tiles_apart [OF assms] tiles_in [OF assms(1,2)] tiles_in [OF assms(1,3)]
    class_size_bounds [of z] class_size_bounds [of z'] by auto

lemma chunk_link_inj [simp]: "chunk_link c = chunk_link c' \<longleftrightarrow> c = c'"
  by (simp add: chunk_link_def word_unat_eq_iff [symmetric])

lemma chunk_of_link [simp]: "chunk_of (chunk_link c) = c"
  by (simp add: chunk_of_def chunk_link_def)

lemma zone_addr:
  assumes "pool_wf pool" and "z < 72"
  shows "unat (zone_at pool (of_nat z)) = unat (mp_buffer pool) + 16 * z"
    and "zone_head pool z = unat (mp_buffer pool) + 16 * z + 8"
proof -
  have b: "unat (mp_buffer pool) + 1152 < 2 ^ 32"
    using assms(1) by (simp add: pool_wf_def)
  have m: "unat (16 * of_nat z :: u32) = 16 * z"
    using assms(2) by (simp add: unat_word_ariths unat_of_nat)
  show 1: "unat (zone_at pool (of_nat z)) = unat (mp_buffer pool) + 16 * z"
    using assms b m by (simp add: zone_at_def pool_wf_def SIZEOF_ZONE_def unat_plus_if_fits)
  show "zone_head pool z = unat (mp_buffer pool) + 16 * z + 8"
    unfolding zone_head_def free_list_def
    by (subst unat_plus_if_fits) (use 1 b assms(2) in simp_all)
qed

lemma zone_head_inj:
  "pool_wf pool \<Longrightarrow> z < 72 \<Longrightarrow> z' < 72 \<Longrightarrow> zone_head pool z = zone_head pool z' \<longleftrightarrow> z = z'"
  by (simp add: zone_addr)

lemma zone_head_in [simp]: "z < 72 \<Longrightarrow> zone_head pool z \<in> zone_heads pool"
  by (simp add: zone_heads_def)

text \<open>A chunk lies behind the zones and inside the buffer.\<close>

lemma chunk_place:
  assumes inv: "pool_inv S h bs L" and c: "(c, z) \<in> set bs"
  defines "pool \<equiv> m_pool S ! unat h"
  shows "unat (mp_buffer pool) + 1152 \<le> unat c" "z < 72"
    "unat c + class_size z \<le> unat (mp_buffer pool) + unat (mp_pos pool)"
    "unat (mp_pos pool) \<le> unat (mp_size pool)"
    "unat (mp_buffer pool) + unat (mp_size pool) < 2 ^ 32"
    "chunk_link c = unat c + 4" "chunk_link c \<noteq> NULL" "chunk_link c \<notin> zone_heads pool"
    "24 \<le> class_size z"
proof -
  note inv = inv [unfolded pool_inv_def Let_def, folded pool_def]
  have wf: "pool_wf pool" using inv by blast
  show p: "unat (mp_buffer pool) + 1152 \<le> unat c" "z < 72"
    "unat c + class_size z \<le> unat (mp_buffer pool) + unat (mp_pos pool)"
    using inv tiles_in [OF _ c] by blast+
  have "2 \<le> z" using inv tiles_in [OF _ c] by blast
  then show "24 \<le> class_size z" using p(2) by (auto simp: class_size_def)
  show s: "unat (mp_pos pool) \<le> unat (mp_size pool)"
    "unat (mp_buffer pool) + unat (mp_size pool) < 2 ^ 32"
    using wf by (simp_all add: pool_wf_def)
  show l: "chunk_link c = unat c + 4"
    unfolding chunk_link_def
    by (subst unat_plus_if_fits) (use p s class_size_bounds [OF p(2)] in simp_all)
  show "chunk_link c \<noteq> NULL" using l by (simp add: NULL_def)
  show "chunk_link c \<notin> zone_heads pool"
    using l p(1) by (auto simp: zone_heads_def zone_addr(2) [OF wf])
qed

lemma pool_invD:
  assumes "pool_inv S h bs L"
  shows "\<not> bad_handle h" "length (m_pool S) = TBOX_MEMPOOL_NUM" "pool_wf (m_pool S ! unat h)"
    "tiles (unat (mp_buffer (m_pool S ! unat h)) + 1152) bs
      (unat (mp_buffer (m_pool S ! unat h)) + unat (mp_pos (m_pool S ! unat h)))"
    "family dlist_at (m_links S) (zone_heads (m_pool S ! unat h)) L"
    "z < 72 \<Longrightarrow> m_zones S (zone_at (m_pool S ! unat h) (of_nat z)) =
        \<lparr>zn_magic = MEM_MAGIC, zn_chunk_size = mem_chunk_size ! z\<rparr>"
    "(c, z') \<in> set bs \<Longrightarrow> chunk_ok S (m_pool S ! unat h) L c z'"
    "z < 72 \<Longrightarrow> a \<in> set (L (zone_head (m_pool S ! unat h) z)) \<Longrightarrow>
      \<exists>c. (c, z) \<in> set bs \<and> \<not> ck_used (m_chunks S c) \<and> a = chunk_link c"
  using assms by (auto simp: pool_inv_def Let_def)

lemma pool_invI:
  assumes "pool = m_pool S ! unat h" and "\<not> bad_handle h" and "length (m_pool S) = TBOX_MEMPOOL_NUM"
    and "pool_wf pool"
    and "\<And>z. z < 72 \<Longrightarrow> m_zones S (zone_at pool (of_nat z)) =
        \<lparr>zn_magic = MEM_MAGIC, zn_chunk_size = mem_chunk_size ! z\<rparr>"
    and "tiles (unat (mp_buffer pool) + 1152) bs (unat (mp_buffer pool) + unat (mp_pos pool))"
    and "\<And>c z. (c, z) \<in> set bs \<Longrightarrow> chunk_ok S pool L c z"
    and "family dlist_at (m_links S) (zone_heads pool) L"
    and "\<And>z a. z < 72 \<Longrightarrow> a \<in> set (L (zone_head pool z)) \<Longrightarrow>
      \<exists>c. (c, z) \<in> set bs \<and> \<not> ck_used (m_chunks S c) \<and> a = chunk_link c"
  shows "pool_inv S h bs L"
  unfolding pool_inv_def Let_def assms(1) [symmetric] using assms(2-) by (intro conjI ballI allI impI) auto

section \<open>Handing out a chunk\<close>

text \<open>The state after a chunk has been marked, guarded and cleared for \<open>sz\<close> bytes.\<close>

definition hand_out :: "u32 \<Rightarrow> u32 \<Rightarrow> mp_state \<Rightarrow> mp_state" where
  "hand_out c sz S = (fst (set_chunk c sz S))\<lparr>m_bytes :=
     (\<lambda>p. if in_region (c + 16) sz p then 0 else m_bytes S p)\<rparr>"

lemma set_chunk_ptr: "snd (set_chunk c sz S) = c + 16"
  by (simp add: set_chunk_def Let_def SIZEOF_CHUNK_def MEM_GUARD_SIZE_def)

lemma hand_out_simps [simp]:
  "m_pool (hand_out c sz S) = m_pool S" "m_zones (hand_out c sz S) = m_zones S"
  "m_links (hand_out c sz S) = m_links S"
  "m_chunks (hand_out c sz S) = (m_chunks S)(c :=
     \<lparr>ck_magic = MEM_CHUNK_MAGIC, ck_used = True, ck_size = ucast sz\<rparr>)"
  "m_words (hand_out c sz S) = (m_words S)(c + 12 := MEM_GUARD_PATTERN, c + 16 + sz := MEM_GUARD_PATTERN)"
  "m_bytes (hand_out c sz S) = (\<lambda>p. if in_region (c + 16) sz p then 0 else m_bytes S p)"
  by (simp_all add: hand_out_def set_chunk_def Let_def SIZEOF_CHUNK_def MEM_GUARD_SIZE_def add.assoc)

lemma zero_bytes_hand_out:
  assumes "unat (c + 16) + unat sz \<le> 2 ^ 32"
  shows "zero_bytes (c + 16) sz (fst (set_chunk c sz S)) = Some (hand_out c sz S)"
  using assms by (simp add: zero_bytes_def hand_out_def set_chunk_def Let_def cong: if_cong)

lemma held_hand_out:
  assumes "unat sz < 65536" and "(c, z) \<in> set bs"
  shows "held (hand_out c sz S) bs =
     insert (c + 16, unat sz) {x \<in> held S bs. fst x \<noteq> c + 16}"
proof -
  have "unat (ucast sz :: u16) = unat sz"
    using assms(1) by (simp add: unsigned_ucast_eq take_bit_nat_eq_self)
  then show ?thesis using assms(2) by (auto simp: held_def split: if_splits)
qed

text \<open>Handing out a chunk that is in no list.\<close>

lemma hand_out_inv:
  assumes wf: "pool_wf pool" and pool: "pool = m_pool S ! unat h" "\<not> bad_handle h" "length (m_pool S) = TBOX_MEMPOOL_NUM"
    and zones: "\<forall>z<72. m_zones S (zone_at pool (of_nat z)) =
        \<lparr>zn_magic = MEM_MAGIC, zn_chunk_size = mem_chunk_size ! z\<rparr>"
    and tiles: "tiles (unat (mp_buffer pool) + 1152) bs (unat (mp_buffer pool) + unat (mp_pos pool))"
    and ok: "\<And>c' z'. (c', z') \<in> set bs \<Longrightarrow> c' \<noteq> c \<Longrightarrow> chunk_ok S pool L c' z'"
    and fam: "family dlist_at (m_links S) (zone_heads pool) L"
    and free: "\<And>z' a. z' < 72 \<Longrightarrow> a \<in> set (L (zone_head pool z')) \<Longrightarrow>
      a \<noteq> chunk_link c \<and> (\<exists>c'. (c', z') \<in> set bs \<and> \<not> ck_used (m_chunks S c') \<and> a = chunk_link c')"
    and c: "(c, z) \<in> set bs" "z = class_of sz" and sz: "0 < sz" "unat sz \<le> 16360"
  shows "pool_inv (hand_out c sz S) h bs L"
proof -
  have u: "unat (ucast sz :: u16) = unat sz"
    using sz(2) by (simp add: unsigned_ucast_eq take_bit_nat_eq_self)
  then have s16: "(ucast (ucast sz :: u16) :: u32) = sz" by (simp add: word_unat_eq_iff)
  have "0 < (ucast sz :: u16)" using u sz(1) by (simp add: word_less_nat_alt)
  then have "chunk_ok (hand_out c sz S) pool L c z"
    using c(2) s16 by (simp add: chunk_ok_def Let_def)
  moreover have "chunk_ok (hand_out c sz S) pool L c' z'" if "(c', z') \<in> set bs" "c' \<noteq> c" for c' z'
    using ok [OF that] that(2) by (simp add: chunk_ok_def)
  ultimately have oks: "chunk_ok (hand_out c sz S) pool L c' z'" if "(c', z') \<in> set bs" for c' z'
    using tiles_inj [OF tiles c(1)] that by blast
  show ?thesis
  proof (rule pool_invI [where pool = pool])
    show "\<exists>c'. (c', z) \<in> set bs \<and> \<not> ck_used (m_chunks (hand_out c sz S) c') \<and> a = chunk_link c'"
      if a: "z < 72" "a \<in> set (L (zone_head pool z))" for z a
      using free [OF a] by (metis fun_upd_other hand_out_simps(4))
  qed (use wf pool zones tiles oks fam in simp_all)
qed

section \<open>Allocation\<close>

lemma alloc_big:
  assumes "unat sz + 23 < 2 ^ 32" and "16360 < unat sz"
  shows "mp_alloc S h sz = Some (S, 0)"
  using request_class(2) [OF assms]
  by (auto simp: mp_alloc_def class_of_def MEM_ZONE_COUNT_def split: prod.splits)

lemma alloc_start:
  assumes inv: "pool_inv S h bs L" and sz: "0 < sz" "unat sz \<le> 16360"
  defines "z \<equiv> class_of sz" and "pool \<equiv> m_pool S ! unat h"
  shows "\<exists>d. unat d = class_size z \<and> z < 72 \<and> unat sz + 20 \<le> class_size z \<and>
    (\<forall>S'. take_chunk S h (zone_at pool (of_nat z)) d = Some (S', None) \<longrightarrow>
       mp_alloc S h sz = Some (S', 0)) \<and>
    (\<forall>S' c. take_chunk S h (zone_at pool (of_nat z)) d = Some (S', Some c) \<longrightarrow>
       unat (c + 16) + unat sz \<le> 2 ^ 32 \<longrightarrow> mp_alloc S h sz = Some (hand_out c sz S', c + 16))"
proof -
  have fits: "unat sz + 23 < 2 ^ 32" and nz: "sz \<noteq> 0" using sz by auto
  obtain d i where di: "mem_zoneindex (MEM_CHUNK_SIZE sz) = (d, i)" "unat i = z" "z < 72"
      "unat d = class_size z" "unat sz + 20 \<le> class_size z"
    using request_class(1) [OF fits sz(2)] unfolding z_def by blast
  have i: "i = of_nat z" using di(2) by auto
  note D = pool_invD [OF inv, folded pool_def]
  have us: "\<not> unusable pool" using D(3) by (simp add: pool_wf_def)
  have zn: "m_zones S (zone_at pool i) = \<lparr>zn_magic = MEM_MAGIC, zn_chunk_size = mem_chunk_size ! z\<rparr>"
    using D(6) [OF di(3)] i by simp
  have le: "\<not> ucast (mem_chunk_size ! z) < d"
    using class_size_table [OF di(3)] di(4) by (simp add: word_less_nat_alt)
  have run: "mp_alloc S h sz = do {
        (S, chunk) \<leftarrow> take_chunk S h (zone_at pool (of_nat z)) d;
        case chunk of
          None \<Rightarrow> Some (S, 0)
        | Some chunk \<Rightarrow> (case set_chunk chunk sz S of (S, ptr) \<Rightarrow>
            do { S \<leftarrow> zero_bytes ptr sz S; Some (S, ptr) })
      }"
    using D(1) nz di(1-3) us zn le
    by (simp add: mp_alloc_def Let_def MEM_ZONE_COUNT_def i flip: pool_def)
  have "mp_alloc S h sz = Some (S', 0)"
    if "take_chunk S h (zone_at pool (of_nat z)) d = Some (S', None)" for S'
    using that by (simp add: run)
  moreover have "mp_alloc S h sz = Some (hand_out c sz S', c + 16)"
    if "take_chunk S h (zone_at pool (of_nat z)) d = Some (S', Some c)"
      "unat (c + 16) + unat sz \<le> 2 ^ 32" for S' c
    using that(1) zero_bytes_hand_out [OF that(2), of S'] set_chunk_ptr [of c sz S']
    by (simp add: run case_prod_unfold)
  ultimately show ?thesis using di(3-5) by blast
qed

lemma alloc_full:
  assumes inv: "pool_inv S h bs L" and sz: "0 < sz" "unat sz \<le> 16360"
  defines "z \<equiv> class_of sz" and "pool \<equiv> m_pool S ! unat h"
  assumes none: "L (zone_head pool z) = []" and full: "unat (mp_size pool) < unat (mp_pos pool) + class_size z"
  shows "mp_alloc S h sz = Some (S, 0)"
proof -
  note D = pool_invD [OF inv, folded pool_def]
  obtain d where d: "unat d = class_size z" "z < 72" "unat sz + 20 \<le> class_size z"
      "\<forall>S'. take_chunk S h (zone_at pool (of_nat z)) d = Some (S', None) \<longrightarrow>
        mp_alloc S h sz = Some (S', 0)"
      "\<forall>S' c. take_chunk S h (zone_at pool (of_nat z)) d = Some (S', Some c) \<longrightarrow>
      unat (c + 16) + unat sz \<le> 2 ^ 32 \<longrightarrow> mp_alloc S h sz = Some (hand_out c sz S', c + 16)"
    using alloc_start [OF inv sz] unfolding z_def pool_def by blast
  have wf: "unat (mp_size pool) + 16384 < 2 ^ 32" "unat (mp_pos pool) \<le> unat (mp_size pool)"
    using D(3) by (simp_all add: pool_wf_def)
  have e: "dlist_empty (m_links S) (zone_head pool z)"
    using dlist_empty_iff [OF familyD [OF D(5) zone_head_in [OF d(2)]]] none by simp
  have "unat (mp_pos pool + d) = unat (mp_pos pool) + unat d"
    using wf d(1) class_size_bounds [OF d(2)] by (intro unat_plus_if_fits) simp
  then have "mp_pos pool + d > mp_size pool"
    using full d(1) by (simp add: word_less_nat_alt)
  then have "take_chunk S h (zone_at pool (of_nat z)) d = Some (S, None)"
    using e by (simp add: take_chunk_def mem_alloc_internal_def Let_def zone_head_def flip: pool_def)
  then show ?thesis using d(4) by blast
qed

lemma alloc_new:
  assumes inv: "pool_inv S h bs L" and sz: "0 < sz" "unat sz \<le> 16360"
  defines "z \<equiv> class_of sz" and "pool \<equiv> m_pool S ! unat h"
  assumes none: "L (zone_head pool z) = []" and room: "unat (mp_pos pool) + class_size z \<le> unat (mp_size pool)"
  shows "\<exists>S1 c. mp_alloc S h sz = Some (hand_out c sz S1, c + 16) \<and>
     c = mp_buffer pool + mp_pos pool \<and> m_chunks S1 = m_chunks S \<and> m_words S1 = m_words S \<and>
     m_bytes S1 = m_bytes S \<and> (\<forall>z. (c, z) \<notin> set bs) \<and> (c + 16, unat sz) \<notin> held S bs \<and>
     pool_inv (hand_out c sz S1) h (bs @ [(c, z)]) L"
proof -
  note D = pool_invD [OF inv, folded pool_def]
  obtain d where d: "unat d = class_size z" "z < 72" "unat sz + 20 \<le> class_size z"
      "\<forall>S'. take_chunk S h (zone_at pool (of_nat z)) d = Some (S', None) \<longrightarrow>
        mp_alloc S h sz = Some (S', 0)"
      "\<forall>S' c. take_chunk S h (zone_at pool (of_nat z)) d = Some (S', Some c) \<longrightarrow>
      unat (c + 16) + unat sz \<le> 2 ^ 32 \<longrightarrow> mp_alloc S h sz = Some (hand_out c sz S', c + 16)"
    using alloc_start [OF inv sz] unfolding z_def pool_def by blast
  have wf: "unat (mp_size pool) + 16384 < 2 ^ 32" "unat (mp_pos pool) \<le> unat (mp_size pool)"
      "unat (mp_buffer pool) + unat (mp_size pool) < 2 ^ 32" "1152 \<le> unat (mp_pos pool)"
    using D(3) by (simp_all add: pool_wf_def)
  have e: "dlist_empty (m_links S) (zone_head pool z)"
    using dlist_empty_iff [OF familyD [OF D(5) zone_head_in [OF d(2)]]] none by simp
  have z2: "2 \<le> z"
  proof (rule ccontr)
    assume "\<not> 2 \<le> z"
    then have "z = 0 \<or> z = 1" by auto
    then show False using d(3) by (auto simp: class_size_def)
  qed
  have p: "unat (mp_pos pool + d) = unat (mp_pos pool) + class_size z"
    using wf d(1) class_size_bounds [OF d(2)] by (subst unat_plus_if_fits) simp_all
  let ?c = "mp_buffer pool + mp_pos pool"
  let ?S1 = "upd_pool h (\<lambda>p. p\<lparr>mp_pos := mp_pos p + d\<rparr>) S"
  have c: "unat ?c = unat (mp_buffer pool) + unat (mp_pos pool)"
    using wf by (intro unat_plus_if_fits) simp
  have h: "unat h < length (m_pool S)" using D(1,2) by (simp add: bad_handle_def)
  have pool1: "m_pool ?S1 ! unat h = pool\<lparr>mp_pos := mp_pos pool + d\<rparr>" (is "_ = ?pool1")
    using h by (simp add: upd_pool_def pool_def)
  have "?c \<noteq> 0" using c wf(4) by (metis add_is_0 not_numeral_le_zero unat_0)
  then have take1: "take_chunk S h (zone_at pool (of_nat z)) d = Some (?S1, Some ?c)"
    using e p room
    by (simp add: take_chunk_def mem_alloc_internal_def Let_def zone_head_def word_less_nat_alt flip: pool_def)
  have c16: "unat (?c + 16) = unat ?c + 16"
    by (subst unat_plus_if_fits) (use c wf room d(3) in simp_all)
  have run: "mp_alloc S h sz = Some (hand_out ?c sz ?S1, ?c + 16)"
    using d(5) take1 c16 c wf room d(3) by simp
  have fresh: "(?c, z') \<notin> set bs" for z'
    using tiles_in [OF D(4), of ?c z'] c class_size_bounds [of z'] by auto
  have heads: "zone_head ?pool1 = zone_head pool" "zone_heads ?pool1 = zone_heads pool"
      "zone_at ?pool1 = zone_at pool" "pool_wf ?pool1"
    using D(3) wf p room by (simp_all add: zone_head_def zone_at_def zone_heads_def fun_eq_iff pool_wf_def unusable_def)
  have "pool_inv (hand_out ?c sz ?S1) h (bs @ [(?c, z)]) L"
  proof (rule hand_out_inv [where pool = ?pool1 and z = z])
    show "tiles (unat (mp_buffer ?pool1) + 1152) (bs @ [(?c, z)]) (unat (mp_buffer ?pool1) + unat (mp_pos ?pool1))"
      using D(4) c d(2) p z2 by (simp add: tiles_snoc)
    show "chunk_ok ?S1 ?pool1 L c' z'" if "(c', z') \<in> set (bs @ [(?c, z)])" "c' \<noteq> ?c" for c' z'
      using D(7) [of c' z'] that by (auto simp: chunk_ok_def Let_def upd_pool_def heads)
    show "a \<noteq> chunk_link ?c \<and> (\<exists>c'. (c', z') \<in> set (bs @ [(?c, z)]) \<and> \<not> ck_used (m_chunks ?S1 c') \<and> a = chunk_link c')"
      if a: "z' < 72" "a \<in> set (L (zone_head ?pool1 z'))" for z' a
    proof -
      obtain c' where "(c', z') \<in> set bs" "\<not> ck_used (m_chunks S c')" "a = chunk_link c'"
        using D(8) a unfolding heads by blast
      moreover from this have "c' \<noteq> ?c" using fresh by blast
      ultimately show ?thesis by (auto simp: upd_pool_def)
    qed
  qed (use D sz heads pool1 z_def in \<open>auto simp: upd_pool_def\<close>)
  moreover have "(?c + 16, unat sz) \<notin> held S bs" using fresh by (auto simp: held_def)
  ultimately show ?thesis
    using run fresh by (intro exI [of _ ?S1] exI [of _ ?c]) (simp add: upd_pool_def)
qed

lemma alloc_reuse:
  assumes inv: "pool_inv S h bs L" and sz: "0 < sz" "unat sz \<le> 16360"
  defines "z \<equiv> class_of sz" and "pool \<equiv> m_pool S ! unat h"
  assumes free: "L (zone_head pool z) \<noteq> []"
  shows "\<exists>S1 c. mp_alloc S h sz = Some (hand_out c sz S1, c + 16) \<and>
     m_chunks S1 = m_chunks S \<and> m_words S1 = m_words S \<and> m_bytes S1 = m_bytes S \<and>
     (c, z) \<in> set bs \<and> \<not> ck_used (m_chunks S c) \<and>
     pool_inv (hand_out c sz S1) h bs (L(zone_head pool z := tl (L (zone_head pool z))))"
proof -
  note D = pool_invD [OF inv, folded pool_def]
  let ?d = "zone_head pool z"
  obtain d where d: "unat d = class_size z" "z < 72" "unat sz + 20 \<le> class_size z"
      "\<forall>S' c. take_chunk S h (zone_at pool (of_nat z)) d = Some (S', Some c) \<longrightarrow>
      unat (c + 16) + unat sz \<le> 2 ^ 32 \<longrightarrow> mp_alloc S h sz = Some (hand_out c sz S', c + 16)"
    using alloc_start [OF inv sz] unfolding z_def pool_def by blast
  note hd = zone_head_in [OF d(2), of pool]
  obtain a as where L: "L ?d = a # as" using free by (cases "L ?d") auto
  obtain c where c: "(c, z) \<in> set bs" "\<not> ck_used (m_chunks S c)" "a = chunk_link c"
    using D(8) [OF d(2), of a] L by auto
  note place = chunk_place [OF inv c(1), folded pool_def]
  obtain l where l: "dlist_del_entry (m_links S) a = Some l"
      "family dlist_at l (zone_heads pool) (L(?d := as))"
    using dtail.family_del [OF D(5) hd, of "[]" a as] L by auto
  have pop: "dlist_pop_first_node (m_links S) ?d = Some (l, a)"
    using dlist_pop_first_Cons [of "m_links S" ?d a as] familyD [OF D(5) hd] L l(1) by simp
  let ?S1 = "S\<lparr>m_links := l\<rparr>"
  have "\<not> dlist_empty (m_links S) ?d"
    using dlist_empty_iff [OF familyD [OF D(5) hd]] L by simp
  then have take1: "take_chunk S h (zone_at pool (of_nat z)) d = Some (?S1, Some c)"
    using pop c(3) place(7) by (simp add: take_chunk_def zone_head_def)
  have c16: "unat (c + 16) = unat c + 16"
    by (subst unat_plus_if_fits) (use place d(3) in simp_all)
  have run: "mp_alloc S h sz = Some (hand_out c sz ?S1, c + 16)"
    using d(4) take1 c16 place d(3) by simp
  have alone: "a \<notin> set ((L(?d := as)) d')" if "d' \<in> zone_heads pool" for d'
    using dtail.family_del_fresh [OF D(5) hd, of "[]" a as, OF _ that] L by simp
  have "pool_inv (hand_out c sz ?S1) h bs (L(?d := as))"
  proof (rule hand_out_inv [where pool = pool and z = z])
    show "chunk_ok ?S1 pool (L(?d := as)) c' z'" if c': "(c', z') \<in> set bs" "c' \<noteq> c" for c' z'
    proof -
      have "z' < 72" using chunk_place(2) [OF inv c'(1)] .
      then have "chunk_link c' \<in> set ((L(?d := as)) (zone_head pool z'))"
        if "chunk_link c' \<in> set (L (zone_head pool z'))"
        using that L c(3) c'(2) zone_head_inj [OF D(3) _ d(2)] by (auto simp: fun_upd_def)
      then show ?thesis using D(7) [OF c'(1)] by (auto simp: chunk_ok_def Let_def simp del: fun_upd_apply)
    qed
    show "a' \<noteq> chunk_link c \<and> (\<exists>c'. (c', z') \<in> set bs \<and> \<not> ck_used (m_chunks ?S1 c') \<and> a' = chunk_link c')"
      if a': "z' < 72" "a' \<in> set ((L(?d := as)) (zone_head pool z'))" for z' a'
    proof -
      have "a' \<in> set (L (zone_head pool z'))" using a'(2) L by (auto split: if_splits)
      then show ?thesis using D(8) [OF a'(1)] alone [OF zone_head_in [OF a'(1)]] a'(2) c(3) by auto
    qed
  qed (use D sz c(1) l(2) z_def pool_def in auto)
  then show ?thesis
    using run c L by (intro exI [of _ ?S1] exI [of _ c]) simp
qed

section \<open>Release and checks\<close>

text \<open>The state of a pointer, when it is a chunk of the pool.\<close>

lemma chunk_ptr:
  assumes inv: "pool_inv S h bs L" and c: "(c, z) \<in> set bs"
  shows "c + 16 \<noteq> 0" "\<not> out_of_pool (m_pool S ! unat h) (c + 16)"
    "c + 16 - SIZEOF_CHUNK - MEM_GUARD_SIZE = c"
proof -
  note p = chunk_place [OF inv c]
  show e: "c + 16 - SIZEOF_CHUNK - MEM_GUARD_SIZE = c"
    by (simp add: SIZEOF_CHUNK_def MEM_GUARD_SIZE_def)
  have c16: "unat (c + 16) = unat c + 16"
    by (subst unat_plus_if_fits) (use p class_size_bounds [OF p(2)] in simp_all)
  then show "c + 16 \<noteq> 0" by (metis add_is_0 unat_0 zero_neq_numeral)
  show "\<not> out_of_pool (m_pool S ! unat h) (c + 16)"
    using c16 p unat_plus_if_fits [of "mp_buffer (m_pool S ! unat h)" "mp_size (m_pool S ! unat h)"]
    by (simp add: out_of_pool_def word_less_nat_alt word_le_nat_alt)
qed

lemma chunk_class:
  assumes inv: "pool_inv S h bs L" and c: "(c, z) \<in> set bs" and used: "ck_used (m_chunks S c)"
  shows "\<exists>d i. mem_zoneindex (MEM_CHUNK_SIZE (ucast (ck_size (m_chunks S c)))) = (d, i) \<and> unat i = z"
    "ck_magic (m_chunks S c) = MEM_CHUNK_MAGIC" "unat (ck_size (m_chunks S c)) + 20 \<le> class_size z"
    "\<not> zn_chunk_size (m_zones S (zone_at (m_pool S ! unat h) (of_nat z))) < ck_size (m_chunks S c)"
proof -
  let ?k = "ck_size (m_chunks S c)"
  have ok: "ck_magic (m_chunks S c) = MEM_CHUNK_MAGIC" "0 < ?k" "class_of (ucast ?k) = z"
    using pool_invD(7) [OF inv c] used by (auto simp: chunk_ok_def Let_def)
  then show "ck_magic (m_chunks S c) = MEM_CHUNK_MAGIC" by simp
  have z: "z < 72" by (rule chunk_place(2) [OF inv c])
  have u: "unat (ucast ?k :: u32) = unat ?k" by simp
  have fits: "unat (ucast ?k :: u32) + 23 < 2 ^ 32" using unat_u16_lt [of ?k] by simp
  then have small: "unat (ucast ?k :: u32) \<le> 16360"
    using request_class(2) [OF fits] ok(3) z by (cases "16360 < unat (ucast ?k :: u32)") auto
  from request_class(1) [OF fits small] show
    "\<exists>d i. mem_zoneindex (MEM_CHUNK_SIZE (ucast ?k)) = (d, i) \<and> unat i = z"
    "unat ?k + 20 \<le> class_size z"
    unfolding ok(3) u by blast+
  then show "\<not> zn_chunk_size (m_zones S (zone_at (m_pool S ! unat h) (of_nat z))) < ?k"
    using pool_invD(6) [OF inv z] class_size_table [OF z] by (simp add: word_less_nat_alt)
qed

lemma free_held:
  assumes inv: "pool_inv S h bs L" and c: "(c, z) \<in> set bs" and used: "ck_used (m_chunks S c)"
  defines "pool \<equiv> m_pool S ! unat h"
  shows "\<exists>l. mp_free S h (c + 16) = Some (S\<lparr>m_chunks := (m_chunks S)(c :=
        (m_chunks S c)\<lparr>ck_used := False, ck_size := 0\<rparr>), m_links := l\<rparr>) \<and>
     pool_inv (S\<lparr>m_chunks := (m_chunks S)(c :=
        (m_chunks S c)\<lparr>ck_used := False, ck_size := 0\<rparr>), m_links := l\<rparr>) h bs
       (L(zone_head pool z := L (zone_head pool z) @ [chunk_link c]))"
proof -
  note D = pool_invD [OF inv, folded pool_def]
  note place = chunk_place [OF inv c, folded pool_def]
  note ptr = chunk_ptr [OF inv c, folded pool_def]
  note cl = chunk_class [OF inv c used, folded pool_def]
  let ?d = "zone_head pool z"
  note hd = zone_head_in [OF place(2), of pool]
  obtain d i where di: "mem_zoneindex (MEM_CHUNK_SIZE (ucast (ck_size (m_chunks S c)))) = (d, i)"
      "unat i = z"
    using cl(1) by blast
  have i: "i = of_nat z" using di(2) by auto
  have fresh: "chunk_link c \<notin> set (d' # L d')" if d': "d' \<in> zone_heads pool" for d'
  proof -
    obtain z' where z': "z' < 72" "d' = zone_head pool z'" using d' by (auto simp: zone_heads_def)
    have "chunk_link c \<notin> set (L d')" using D(8) [OF z'(1)] used z'(2) by fastforce
    moreover have "chunk_link c \<noteq> d'" using place(8) d' by blast
    ultimately show ?thesis by simp
  qed
  obtain l where l: "dlist_add_tail (m_links S) (chunk_link c) ?d = Some l"
      "family dlist_at l (zone_heads pool) (L(?d := L ?d @ [chunk_link c]))"
    using dtail.family_add [OF D(5) hd place(7) fresh] by blast
  let ?L = "L(?d := L ?d @ [chunk_link c])"
  let ?S = "S\<lparr>m_chunks := (m_chunks S)(c := (m_chunks S c)\<lparr>ck_used := False, ck_size := 0\<rparr>), m_links := l\<rparr>"
  note links = dlist_at_links [OF familyD [OF D(5) hd]]
  have "\<not> unusable pool" using D(3) by (simp add: pool_wf_def)
  then have run: "mp_free S h (c + 16) = Some ?S"
    unfolding mp_free_def Let_def pool_def [symmetric] ptr(3)
    using D(1) ptr(1,2) used cl(2,4) di place(2) D(6) [OF place(2)] links(4,5) l(1)
    by (simp add: MEM_ZONE_COUNT_def i zone_head_def)
  have sub: "chunk_link c' \<in> set (?L (zone_head pool z'))"
    if "chunk_link c' \<in> set (L (zone_head pool z'))" for c' z'
    using that by (cases "zone_head pool z' = ?d") simp_all
  have "pool_inv ?S h bs ?L"
  proof (rule pool_invI [where pool = pool])
    show "chunk_ok ?S pool ?L c' z'" if c': "(c', z') \<in> set bs" for c' z'
    proof (cases "c' = c")
      case True
      then have "z' = z" using tiles_inj [OF D(4) c] c' by blast
      with True show ?thesis using cl(2) by (simp add: chunk_ok_def Let_def)
    next
      case False
      then show ?thesis
        using D(7) [OF c'] sub by (auto simp: chunk_ok_def Let_def simp del: fun_upd_apply)
          (simp_all only: fun_upd_other not_False_eq_True)
    qed
    show "\<exists>c'. (c', z') \<in> set bs \<and> \<not> ck_used (m_chunks ?S c') \<and> a = chunk_link c'"
      if a: "z' < 72" "a \<in> set (?L (zone_head pool z'))" for z' a
    proof (cases "a = chunk_link c \<and> z' = z")
      case True
      then show ?thesis using c by auto
    next
      case False
      then have "a \<in> set (L (zone_head pool z'))"
        using a zone_head_inj [OF D(3) a(1) place(2)] by (auto split: if_splits)
      then obtain c' where "(c', z') \<in> set bs" "\<not> ck_used (m_chunks S c')" "a = chunk_link c'"
        using D(8) [OF a(1)] by blast
      moreover from this have "c' \<noteq> c" using used by blast
      ultimately show ?thesis by auto
    qed
  qed (use D l(2) pool_def in auto)
  with run show ?thesis by blast
qed

text \<open>A chunk that is not handed out is left alone.\<close>

lemma free_again:
  assumes inv: "pool_inv S h bs L" and c: "(c, z) \<in> set bs" and used: "\<not> ck_used (m_chunks S c)"
  shows "mp_free S h (c + 16) = Some S"
  unfolding mp_free_def Let_def chunk_ptr(3) [OF inv c] using used by simp

lemma check_held:
  assumes inv: "pool_inv S h bs L" and c: "(c, z) \<in> set bs"
  shows "mp_check S h (c + 16) =
     (if \<not> ck_used (m_chunks S c) then TBOX_E_INVALID_DATA
      else if m_words S (c + 12) \<noteq> MEM_GUARD_PATTERN then TBOX_E_UNDERFLOW
      else if m_words S (c + 16 + ucast (ck_size (m_chunks S c))) \<noteq> MEM_GUARD_PATTERN then TBOX_E_OVERFLOW
      else TBOX_E_OK)"
proof -
  note D = pool_invD [OF inv]
  note place = chunk_place [OF inv c]
  note ptr = chunk_ptr [OF inv c]
  have us: "\<not> unusable (m_pool S ! unat h)" using D(3) by (simp add: pool_wf_def)
  have g: "c + 16 - MEM_GUARD_SIZE = c + 12" by (simp add: MEM_GUARD_SIZE_def)
  show ?thesis
  proof (cases "ck_used (m_chunks S c)")
    case False
    then show ?thesis
      unfolding mp_check_def Let_def ptr(3) using D(1) ptr(1,2) us by simp
  next
    case True
    note cl = chunk_class [OF inv c True]
    obtain d i where di: "mem_zoneindex (MEM_CHUNK_SIZE (ucast (ck_size (m_chunks S c)))) = (d, i)"
        "unat i = z"
      using cl(1) by blast
    have i: "i = of_nat z" using di(2) by auto
    show ?thesis
      unfolding mp_check_def Let_def ptr(3) g
      using True D(1) ptr(1,2) us cl(2,4) di place(2) D(6) [OF place(2)]
      by (simp add: MEM_ZONE_COUNT_def i)
  qed
qed

section \<open>A fresh pool\<close>

lemma zone_addr_fits:
  assumes "unat b + 1152 < 2 ^ 32" and "z < 72"
  shows "unat (b + SIZEOF_ZONE * of_nat z) = unat b + 16 * z"
    "free_list (b + SIZEOF_ZONE * of_nat z) = unat b + 16 * z + 8"
proof -
  have m: "unat (SIZEOF_ZONE * of_nat z :: u32) = 16 * z"
    using assms(2) by (simp add: SIZEOF_ZONE_def unat_word_ariths unat_of_nat)
  show 1: "unat (b + SIZEOF_ZONE * of_nat z) = unat b + 16 * z"
    by (subst unat_plus_if_fits) (use assms m in simp_all)
  show "free_list (b + SIZEOF_ZONE * of_nat z) = unat b + 16 * z + 8"
    unfolding free_list_def by (subst unat_plus_if_fits) (use assms 1 in simp_all)
qed

lemma init_zones:
  assumes b: "unat b + 1152 < 2 ^ 32"
  shows "\<exists>S'. for_up 0 72 (init_zone b) S = Some S' \<and> m_pool S' = m_pool S \<and>
     (\<forall>z<72. m_zones S' (b + SIZEOF_ZONE * of_nat z) =
        \<lparr>zn_magic = MEM_MAGIC, zn_chunk_size = mem_chunk_size ! z\<rparr> \<and>
      (let d = free_list (b + SIZEOF_ZONE * of_nat z) in m_links S' d = \<lparr>prev = d, nxt = d\<rparr>))"
proof -
  let ?a = "\<lambda>z. b + SIZEOF_ZONE * of_nat z"
  let ?I = "\<lambda>j (S' :: mp_state). m_pool S' = m_pool S \<and> (\<forall>z<j. z < 72 \<longrightarrow> m_zones S' (?a z) =
        \<lparr>zn_magic = MEM_MAGIC, zn_chunk_size = mem_chunk_size ! z\<rparr> \<and>
      m_links S' (free_list (?a z)) = \<lparr>prev = free_list (?a z), nxt = free_list (?a z)\<rparr>)"
  have inj: "?a z = ?a z' \<longleftrightarrow> z = z'" if "z < 72" "z' < 72" for z z'
  proof
    assume "?a z = ?a z'"
    from arg_cong [OF this, of unat] have "unat b + 16 * z = unat b + 16 * z'"
      by (simp only: zone_addr_fits(1) [OF b that(1)] zone_addr_fits(1) [OF b that(2)])
    then show "z = z'" by simp
  qed simp
  have "\<exists>S'. for_up 0 72 (init_zone b) S = Some S' \<and> ?I (0 + 72) S'"
  proof (rule for_up_inv)
    show "?I 0 S" by simp
    fix j T
    assume j: "0 \<le> j" "j < 0 + 72" and I: "?I j T"
    then have j72: "j < 72" by simp
    note f = zone_addr_fits(2) [OF b j72]
    have len: "j < length mem_chunk_size" using j72 by (simp add: mem_chunk_size_def)
    let ?d = "free_list (?a j)"
    have nn: "?d \<noteq> NULL" using f by (simp add: NULL_def)
    let ?T = "T\<lparr>m_zones := (m_zones T)(?a j := \<lparr>zn_magic = MEM_MAGIC, zn_chunk_size = mem_chunk_size ! j\<rparr>),
        m_links := (m_links T)(?d := \<lparr>prev = ?d, nxt = ?d\<rparr>)\<rparr>"
    have self: "x\<lparr>nxt := a, prev := a\<rparr> = \<lparr>prev = a, nxt = a\<rparr>" for x :: dlist_node and a
      by (cases x) simp
    have run: "init_zone b j T = Some ?T"
      using len nn by (simp add: self init_zone_def Let_def dlist_init_def st_next_def st_prev_def)
    have "?I (Suc j) ?T"
    proof (intro conjI allI impI)
      fix z
      assume z: "z < Suc j" "z < 72"
      show "m_zones ?T (?a z) = \<lparr>zn_magic = MEM_MAGIC, zn_chunk_size = mem_chunk_size ! z\<rparr>"
        using I z inj [OF z(2) j72] by (cases "z = j") auto
      have "free_list (?a z) = ?d \<longleftrightarrow> z = j" using f zone_addr_fits(2) [OF b z(2)] by simp
      then show "m_links ?T (free_list (?a z)) = \<lparr>prev = free_list (?a z), nxt = free_list (?a z)\<rparr>"
        using I z by (cases "z = j") auto
    qed (use I in simp)
    then show "\<exists>T'. init_zone b j T = Some T' \<and> ?I (Suc j) T'" using run by blast
  qed
  then show ?thesis by (auto simp: Let_def)
qed

lemma free_pool_bound:
  "free_pool ps i = Some h \<Longrightarrow> length ps < 6 \<Longrightarrow> unat i + length ps \<le> 5 \<Longrightarrow> unat h < unat i + length ps"
proof (induction ps i rule: free_pool.induct)
  case (2 p ps i)
  have "unat (i + 1) = unat i + 1"
    by (subst unat_plus_if_fits) (use 2(4) in simp_all)
  then show ?case using 2 by (auto split: if_splits)
qed simp

lemma align_buffer:
  assumes "unat buffer + 3 < 2 ^ 32"
  shows "unat buffer \<le> unat (MEM_ALIGN buffer)" "unat (MEM_ALIGN buffer) \<le> unat buffer + 3"
proof -
  have e: "MEM_ALIGN buffer = (buffer + 3) AND NOT (mask 2)"
    by (simp add: MEM_ALIGN_def mask_eq_exp_minus_1 add.commute)
  have "unat (MEM_ALIGN buffer) = (unat buffer + 3) div 4 * 4"
    unfolding e unat_align_down using assms unat_plus_if_fits [of buffer 3] by simp
  then show "unat buffer \<le> unat (MEM_ALIGN buffer)" "unat (MEM_ALIGN buffer) \<le> unat buffer + 3"
    by presburger+
qed

lemma mp_create_ok:
  assumes pools: "length (m_pool S) = TBOX_MEMPOOL_NUM" and free: "free_pool (m_pool S) 0 = Some h"
    and b: "buffer \<noteq> 0" "unat buffer + unat sz < 2 ^ 32" and sz: "1160 \<le> unat sz" "unat sz + 16384 < 2 ^ 32"
    and m: "mutex \<noteq> 0"
  shows "\<exists>S'. mp_create S buffer sz mutex = Some (S', h) \<and> pool_inv S' h [] (\<lambda>_. []) \<and>
     unat (mp_size (m_pool S' ! unat h)) + 7 > unat sz"
proof -
  let ?b = "MEM_ALIGN buffer"
  note al = align_buffer [of buffer]
  have al: "unat buffer \<le> unat ?b" "unat ?b \<le> unat buffer + 3" using al b sz by simp_all
  have h5: "unat h < 5" using free_pool_bound [OF free] pools by (simp add: TBOX_MEMPOOL_NUM_def)
  have "h = 0 \<or> h = 1 \<or> h = 2 \<or> h = 3 \<or> h = 4"
    using h5 by (auto simp: word_unat_eq_iff)
  then have bh: "\<not> bad_handle h" by (auto simp: bad_handle_def TBOX_MEMPOOL_NUM_def)
  let ?n = "MEM_ALIGN_DOWN (buffer + sz - ?b)"
  have n: "unat ?n = (unat buffer + unat sz - unat ?b) div 4 * 4"
  proof -
    have "unat (buffer + sz) = unat buffer + unat sz" using b(2) by (intro unat_plus_if_fits) simp
    then have "unat (buffer + sz - ?b) = unat buffer + unat sz - unat ?b"
      using al sz by (subst unat_minus_le) (simp_all add: word_le_nat_alt)
    moreover have "?n = (buffer + sz - ?b) AND NOT (mask 2)"
      by (simp add: MEM_ALIGN_DOWN_def mask_eq_exp_minus_1)
    ultimately show ?thesis by (simp add: unat_align_down)
  qed
  have n1: "1152 \<le> unat ?n" "unat ?n \<le> unat sz" "unat ?b + unat ?n < 2 ^ 32" "unat sz < unat ?n + 7"
  proof -
    let ?x = "unat buffer + unat sz - unat ?b"
    have "x div 4 * 4 \<le> x" "x < x div 4 * 4 + 4" for x :: nat by presburger+
    then have "unat ?n \<le> ?x" "?x < unat ?n + 4" unfolding n by blast+
    then show "1152 \<le> unat ?n" "unat ?n \<le> unat sz" "unat ?b + unat ?n < 2 ^ 32" "unat sz < unat ?n + 7"
      using al sz(1) b(2) by linarith+
  qed
  define S0 where "S0 = the (zero_all buffer sz S)"
  have S0: "zero_all buffer sz S = Some S0" "m_pool S0 = m_pool S"
    using b(2) by (simp_all add: zero_all_def S0_def)
  define S1 where "S1 = upd_pool h (\<lambda>p. p\<lparr>mp_buffer := ?b, mp_size := ?n, mp_zones := ?b,
     mp_pos := SIZEOF_ZONE * of_nat MEM_ZONE_COUNT\<rparr>) S0"
  have "unat ?b + 1152 < 2 ^ 32" using n1 by simp
  then obtain S2 where S2: "for_up 0 72 (init_zone ?b) S1 = Some S2" "m_pool S2 = m_pool S1"
      "\<forall>z<72. m_zones S2 (?b + SIZEOF_ZONE * of_nat z) =
        \<lparr>zn_magic = MEM_MAGIC, zn_chunk_size = mem_chunk_size ! z\<rparr> \<and>
      (let d = free_list (?b + SIZEOF_ZONE * of_nat z) in m_links S2 d = \<lparr>prev = d, nxt = d\<rparr>)"
    using init_zones by blast
  define S3 where "S3 = upd_pool h (\<lambda>p. p\<lparr>mp_is_used := True\<rparr>) (upd_pool h (\<lambda>p. p\<lparr>mp_mutex := mutex\<rparr>) S2)"
  have z1152: "SIZEOF_ZONE * of_nat MEM_ZONE_COUNT = 1152" by (simp add: SIZEOF_ZONE_def MEM_ZONE_COUNT_def)
  have h: "unat h < length (m_pool S)" using h5 pools by (simp add: TBOX_MEMPOOL_NUM_def)
  have S3: "m_pool S3 ! unat h = \<lparr>mp_is_used = True, mp_buffer = ?b, mp_size = ?n, mp_pos = 1152,
      mp_zones = ?b, mp_mutex = mutex\<rparr>" (is "_ = ?pool")
      "length (m_pool S3) = TBOX_MEMPOOL_NUM" "m_zones S3 = m_zones S2" "m_links S3 = m_links S2"
    using h pools by (simp_all add: S3_def upd_pool_def S2(2) S1_def S0(2) z1152)
  have "\<not> sz \<le> SIZEOF_ZONE * of_nat MEM_ZONE_COUNT"
    using sz(1) by (simp add: z1152 word_le_nat_alt)
  then have run: "mp_create S buffer sz mutex = Some (S3, h)"
    using b(1) free m S0(1) S2(1) unfolding mp_create_def Let_def
    by (simp add: MEM_ZONE_COUNT_def [symmetric] S3_def flip: S1_def)
  have wf: "pool_wf ?pool"
  proof -
    have "?n \<noteq> 0" using n1(1) by auto
    moreover have "?b \<noteq> 0" using al(1) b(1) by (metis le_zero_eq unat_0 unat_eq_zero)
    ultimately show ?thesis using n1 sz(2) m by (simp add: pool_wf_def unusable_def)
  qed
  have at: "dlist_at (m_links S3) (zone_head ?pool z) []" if "z < 72" for z
  proof -
    have "zone_head ?pool z = free_list (?b + SIZEOF_ZONE * of_nat z)"
      by (simp add: zone_head_def zone_at_def)
    moreover have "zone_head ?pool z \<noteq> NULL" using zone_addr(2) [OF wf that] by (simp add: NULL_def)
    ultimately show ?thesis using S2(3) that S3(4) by (simp add: dlist_at_def Let_def)
  qed
  have "pool_inv S3 h [] (\<lambda>_. [])"
  proof (rule pool_invI [where pool = ?pool])
    show "family dlist_at (m_links S3) (zone_heads ?pool) (\<lambda>_. [])"
      using at by (auto simp: family_def zone_heads_def)
    show "m_zones S3 (zone_at ?pool (of_nat z)) = \<lparr>zn_magic = MEM_MAGIC, zn_chunk_size = mem_chunk_size ! z\<rparr>"
      if "z < 72" for z using S2(3) that S3(3) by (simp add: zone_at_def)
  qed (use S3 bh wf in simp_all)
  then show ?thesis using run n1(4) S3(1) by (intro exI [of _ S3]) simp
qed

end
