(* ===== verification/MemPoolClaims.thy ===== *)
theory MemPoolClaims imports MemPoolOps begin

text \<open>
  The properties of the memory pool: what allocation and release do to the set of pointers the
  callers hold, that these never overlap, and what the checks report.
\<close>

section \<open>Pointers in use\<close>

lemma held_chunk:
  assumes inv: "pool_inv S h bs L" and p: "(p, n) \<in> held S bs"
  obtains c z where "(c, z) \<in> set bs" "ck_used (m_chunks S c)" "p = c + 16"
    "n = unat (ck_size (m_chunks S c))" "unat p = unat c + 16" "n + 20 \<le> class_size z"
proof -
  obtain c z where c: "(c, z) \<in> set bs" "ck_used (m_chunks S c)" "p = c + 16"
      "n = unat (ck_size (m_chunks S c))"
    using p by (auto simp: held_def)
  note pl = chunk_place [OF inv c(1)]
  have "unat (c + 16) = unat c + 16"
    by (subst unat_plus_if_fits) (use pl in simp_all)
  then show ?thesis
    using that c chunk_class(3) [OF inv c(1,2)] by simp
qed

text \<open>
  Two pointers in use are further apart than their sizes and guards, and both lie between the
  zones and the end of the buffer.
\<close>

definition apart :: "mem_pool \<Rightarrow> (u32 \<times> nat) set \<Rightarrow> bool" where
  "apart pool H \<longleftrightarrow>
     (\<forall>(p, n)\<in>H. unat (mp_buffer pool) + 1152 + 16 \<le> unat p \<and>
        unat p + n + 4 \<le> unat (mp_buffer pool) + unat (mp_size pool)) \<and>
     (\<forall>(p, n)\<in>H. \<forall>(p', n')\<in>H. p \<noteq> p' \<longrightarrow>
        unat p + n + 4 \<le> unat p' - 16 \<or> unat p' + n' + 4 \<le> unat p - 16)"

lemma held_apart:
  assumes inv: "pool_inv S h bs L"
  shows "apart (m_pool S ! unat h) (held S bs)"
  unfolding apart_def
proof (intro conjI ballI; clarify)
  fix p n
  assume p: "(p, n) \<in> held S bs"
  obtain c z where c: "(c, z) \<in> set bs" "unat p = unat c + 16" "n + 20 \<le> class_size z"
    using held_chunk [OF inv p] by metis
  note pl = chunk_place [OF inv c(1)]
  show "unat (mp_buffer (m_pool S ! unat h)) + 1152 + 16 \<le> unat p \<and>
      unat p + n + 4 \<le> unat (mp_buffer (m_pool S ! unat h)) + unat (mp_size (m_pool S ! unat h))"
    using pl c by simp
  fix p' n'
  assume p': "(p', n') \<in> held S bs" and ne: "p \<noteq> p'"
    and far: "\<not> unat p' + n' + 4 \<le> unat p - 16"
  obtain c' z' where c': "(c', z') \<in> set bs" "unat p' = unat c' + 16" "n' + 20 \<le> class_size z'"
    using held_chunk [OF inv p'] by metis
  have "c \<noteq> c'" using ne c(2) c'(2) by (metis word_unat_eq_iff)
  then show "unat p + n + 4 \<le> unat p' - 16"
    using tiles_apart [OF pool_invD(4) [OF inv] c(1) c'(1)] far c c' by auto
qed

lemma word_in_held:
  assumes inv: "pool_inv S h bs L" and p: "(p, n) \<in> held S bs"
  shows "unat (p - 4) = unat p - 4" "unat (p + of_nat n) = unat p + n"
    "i < n \<Longrightarrow> unat (p + of_nat i) = unat p + i"
proof -
  obtain c z where c: "(c, z) \<in> set bs" "unat p = unat c + 16" "n + 20 \<le> class_size z"
    using held_chunk [OF inv p] by metis
  note pl = chunk_place [OF inv c(1)]
  show "unat (p - 4) = unat p - 4"
    by (subst unat_minus_le) (use c(2) in \<open>simp_all add: word_le_nat_alt\<close>)
  have n: "n < 2 ^ 32" "unat p + n < 2 ^ 32" using pl c by simp_all
  then have u: "i \<le> n \<Longrightarrow> unat (of_nat i :: u32) = i" for i by (simp add: unat_of_nat)
  show "unat (p + of_nat n) = unat p + n" by (subst unat_plus_if_fits) (use n u in simp_all)
  show "i < n \<Longrightarrow> unat (p + of_nat i) = unat p + i"
    by (subst unat_plus_if_fits) (use n u in simp_all)
qed

text \<open>Handing out a chunk leaves the memory of every other pointer alone.\<close>

lemma hand_out_held:
  assumes "(c, z) \<in> set bs" and "unat sz \<le> 16360"
  shows "(c + 16, unat sz) \<in> held (hand_out c sz S) bs"
  using held_hand_out [of sz c z bs S] assms by auto

lemma hand_out_self:
  assumes inv: "pool_inv (hand_out c sz S) h bs L" and c: "(c, z) \<in> set bs" and sz: "unat sz \<le> 16360"
  shows "mp_check (hand_out c sz S) h (c + 16) = TBOX_E_OK"
    "i < unat sz \<Longrightarrow> m_bytes (hand_out c sz S) (c + 16 + of_nat i) = 0"
proof -
  have "unat (ucast sz :: u16) = unat sz"
    using sz by (simp add: unsigned_ucast_eq take_bit_nat_eq_self)
  then have "(ucast (ucast sz :: u16) :: u32) = sz" by (simp add: word_unat_eq_iff)
  then show "mp_check (hand_out c sz S) h (c + 16) = TBOX_E_OK"
    unfolding check_held [OF inv c] by simp
  show "m_bytes (hand_out c sz S) (c + 16 + of_nat i) = 0" if "i < unat sz"
    using word_in_held(3) [OF inv hand_out_held [OF c sz] that] that by (simp add: in_region_def)
qed

lemma hand_out_others:
  assumes inv: "pool_inv (hand_out c sz S) h bs L" and c: "(c, z) \<in> set bs" and sz: "unat sz \<le> 16360"
    and p: "(p, n) \<in> held (hand_out c sz S) bs" "p \<noteq> c + 16"
  shows "m_words (hand_out c sz S) (p - 4) = m_words S (p - 4)"
    "m_words (hand_out c sz S) (p + of_nat n) = m_words S (p + of_nat n)"
    "i < n \<Longrightarrow> m_bytes (hand_out c sz S) (p + of_nat i) = m_bytes S (p + of_nat i)"
proof -
  note cH = hand_out_held [OF c sz, of S]
  note wc = word_in_held [OF inv cH] and wp = word_in_held [OF inv p(1)]
  have ap: "16 \<le> unat (c + 16)" "16 \<le> unat p"
      "unat p + n + 4 \<le> unat (c + 16) - 16 \<or> unat (c + 16) + unat sz + 4 \<le> unat p - 16"
    using held_apart [OF inv] cH p unfolding apart_def by fastforce+
  have pre: "c + 12 = c + 16 - 4" by simp
  have ne: "q \<noteq> r" if "unat q \<noteq> unat r" for q r :: u32 using that by auto
  have "p - 4 \<noteq> c + 16 - 4" "p - 4 \<noteq> c + 16 + of_nat (unat sz)"
      "p + of_nat n \<noteq> c + 16 - 4" "p + of_nat n \<noteq> c + 16 + of_nat (unat sz)"
    by (rule ne; use ap in \<open>simp only: wc wp; arith\<close>)+
  then show "m_words (hand_out c sz S) (p - 4) = m_words S (p - 4)"
    "m_words (hand_out c sz S) (p + of_nat n) = m_words S (p + of_nat n)"
    unfolding hand_out_simps pre by simp_all
  show "m_bytes (hand_out c sz S) (p + of_nat i) = m_bytes S (p + of_nat i)" if i: "i < n"
    using ap i wp(3) [OF i] by (auto simp: in_region_def)
qed

lemma alloc_cases:
  assumes inv: "pool_inv S h bs L" and sz: "0 < sz" "unat sz + 23 < 2 ^ 32"
  defines "pool \<equiv> m_pool S ! unat h" and "z \<equiv> class_of sz"
  obtains (none) "mp_alloc S h sz = Some (S, 0)"
      "16360 < unat sz \<or> L (zone_head pool z) = [] \<and> unat (mp_size pool) < unat (mp_pos pool) + class_size z"
  | (some) S1 c bs' L' where "unat sz \<le> 16360" "mp_alloc S h sz = Some (hand_out c sz S1, c + 16)"
      "m_words S1 = m_words S" "m_bytes S1 = m_bytes S" "(c, z) \<in> set bs'"
      "pool_inv (hand_out c sz S1) h bs' L'"
      "held (hand_out c sz S1) bs' = insert (c + 16, unat sz) (held S bs)" "c + 16 \<notin> fst ` held S bs"
proof (cases "16360 < unat sz")
  case True
  then show ?thesis using alloc_big [OF sz(2)] none by blast
next
  case False
  then have small: "unat sz \<le> 16360" by simp
  show ?thesis
  proof (cases "L (zone_head pool z) = []")
    case True
    show ?thesis
    proof (cases "unat (mp_pos pool) + class_size z \<le> unat (mp_size pool)")
      case False
      then show ?thesis
        using alloc_full [OF inv sz(1) small] True none unfolding pool_def z_def by simp
    next
      case room: True
      obtain S1 c where n: "mp_alloc S h sz = Some (hand_out c sz S1, c + 16)" "m_chunks S1 = m_chunks S"
          "m_words S1 = m_words S" "m_bytes S1 = m_bytes S" "\<forall>z. (c, z) \<notin> set bs"
          "pool_inv (hand_out c sz S1) h (bs @ [(c, z)]) L"
        using alloc_new [OF inv sz(1) small] True room unfolding pool_def z_def by blast
      have "held (hand_out c sz S1) (bs @ [(c, z)]) = insert (c + 16, unat sz) (held S bs)"
        using held_hand_out [of sz c z "bs @ [(c, z)]" S1] small n(2,5) by (auto simp: held_def)
      moreover have "c + 16 \<notin> fst ` held S bs" using n(5) by (auto simp: held_def)
      ultimately show ?thesis
        using some [OF small n(1,3,4) _ n(6)] by simp
    qed
  next
    case False
    obtain S1 c where n: "mp_alloc S h sz = Some (hand_out c sz S1, c + 16)" "m_chunks S1 = m_chunks S"
        "m_words S1 = m_words S" "m_bytes S1 = m_bytes S" "(c, z) \<in> set bs" "\<not> ck_used (m_chunks S c)"
        "pool_inv (hand_out c sz S1) h bs (L(zone_head pool z := tl (L (zone_head pool z))))"
      using alloc_reuse [OF inv sz(1) small] False unfolding pool_def z_def by blast
    have "held (hand_out c sz S1) bs = insert (c + 16, unat sz) (held S bs)"
      using held_hand_out [of sz c z bs S1] small n(2,5,6) by (auto simp: held_def)
    moreover have "c + 16 \<notin> fst ` held S bs" using n(6) by (auto simp: held_def)
    ultimately show ?thesis
      using some [OF small n(1,3,4,5,7)] by simp
  qed
qed

section \<open>Requests near the end of the address space\<close>

text \<open>
  The size of the chunk is computed with 32 bits: a request for almost 4 GB is served from the
  smallest class, and the clearing of its bytes runs over all memory.
\<close>

lemma mp_alloc_wraps:
  assumes inv: "pool_inv S h bs L"
    and room: "unat (mp_pos (m_pool S ! unat h)) + 24 \<le> unat (mp_size (m_pool S ! unat h))"
  shows "mp_alloc S h 0xFFFFFFF0 = None"
proof -
  define pool where "pool = m_pool S ! unat h"
  note D = pool_invD [OF inv, folded pool_def]
  have wf: "unat (mp_size pool) + 16384 < 2 ^ 32" "unat (mp_pos pool) \<le> unat (mp_size pool)"
      "unat (mp_buffer pool) + unat (mp_size pool) < 2 ^ 32" "1152 \<le> unat (mp_pos pool)" "\<not> unusable pool"
    using D(3) by (simp_all add: pool_wf_def)
  have size: "mem_zoneindex (MEM_CHUNK_SIZE 0xFFFFFFF0) = (8, 0)" by code_simp
  have "L (zone_head pool 0) = []"
  proof (rule ccontr)
    assume "L (zone_head pool 0) \<noteq> []"
    then obtain a where "a \<in> set (L (zone_head pool 0))" by (cases "L (zone_head pool 0)") auto
    then obtain c where "(c, 0) \<in> set bs" using D(8) [of 0] by auto
    then show False using tiles_in [OF D(4)] by fastforce
  qed
  then have e: "dlist_empty (m_links S) (free_list (zone_at pool 0))"
    using dlist_empty_iff [OF familyD [OF D(5) zone_head_in [of 0]]] by (simp add: zone_head_def)
  have p: "unat (mp_pos pool + 8) = unat (mp_pos pool) + 8"
    using wf by (subst unat_plus_if_fits) simp_all
  let ?c = "mp_buffer pool + mp_pos pool"
  have c: "unat ?c = unat (mp_buffer pool) + unat (mp_pos pool)"
    using wf by (intro unat_plus_if_fits) simp
  have nz: "?c \<noteq> 0" using c wf(4) by (metis add_is_0 not_numeral_le_zero unat_0)
  have "unat (?c + 16) = unat ?c + 16"
    by (subst unat_plus_if_fits) (use c wf room pool_def in simp_all)
  then have "zero_bytes (?c + 16) 0xFFFFFFF0 T = None" for T
    using c wf(4) by (simp add: zero_bytes_def)
  moreover have "take_chunk S h (zone_at pool 0) 8 =
      Some (upd_pool h (\<lambda>p. p\<lparr>mp_pos := mp_pos p + 8\<rparr>) S, Some ?c)"
    using e nz p room by (simp add: take_chunk_def mem_alloc_internal_def Let_def word_less_nat_alt flip: pool_def)
  moreover have "m_zones S (zone_at pool 0) = \<lparr>zn_magic = MEM_MAGIC, zn_chunk_size = mem_chunk_size ! 0\<rparr>"
    using D(6) [of 0] by simp
  ultimately show ?thesis
    using D(1) size wf(5) set_chunk_ptr [of ?c "0xFFFFFFF0"]
    by (simp add: mp_alloc_def Let_def MEM_ZONE_COUNT_def mem_chunk_size_def case_prod_unfold flip: pool_def)
qed

section \<open>A concrete pool\<close>

definition ex_mem :: mp_state where
  "ex_mem = \<lparr>m_pool = replicate 5 \<lparr>mp_is_used = False, mp_buffer = 0, mp_size = 0, mp_pos = 0,
       mp_zones = 0, mp_mutex = 0\<rparr>,
     m_chunks = \<lambda>_. \<lparr>ck_magic = 3, ck_used = True, ck_size = 9\<rparr>,
     m_zones = \<lambda>_. \<lparr>zn_magic = 1, zn_chunk_size = 2\<rparr>, m_links = \<lambda>_. \<lparr>prev = 7, nxt = 8\<rparr>,
     m_words = \<lambda>_. 5, m_bytes = \<lambda>_. 6\<rparr>"

lemma ex_mem_pool:
  "\<exists>S. mp_create ex_mem 0x20000001 0x5000 1 = Some (S, 0) \<and> pool_inv S 0 [] (\<lambda>_. []) \<and>
     20473 < unat (mp_size (m_pool S ! unat (0 :: u32)))"
proof -
  have "free_pool (m_pool ex_mem) 0 = Some 0"
    by (simp add: ex_mem_def numeral_eq_Suc)
  moreover have "length (m_pool ex_mem) = TBOX_MEMPOOL_NUM"
    by (simp add: ex_mem_def TBOX_MEMPOOL_NUM_def)
  ultimately show ?thesis
    using mp_create_ok [of ex_mem 0 "0x20000001" "0x5000" 1] by auto
qed

section \<open>Properties\<close>

text \<open>
  C20: allocation. A request is refused, with nothing changed, only if it is larger than the
  biggest class or if its class has no free chunk and the rest of the buffer is too short.
  Otherwise the callers hold one pointer more, for the size asked for: its bytes are zero and
  its guards are in order, the pointers in use and their guards do not overlap and stay inside
  the buffer, and neither the bytes nor the guards of the other pointers have changed.
\<close>

theorem mp_alloc_correct:
  assumes "pool_inv S h bs L" and "0 < sz" and "unat sz + 23 < 2 ^ 32"
  shows "\<exists>S' ptr. mp_alloc S h sz = Some (S', ptr) \<and>
    (if ptr = 0
     then S' = S \<and> (16360 < unat sz \<or>
       (let pool = m_pool S ! unat h in L (zone_head pool (class_of sz)) = [] \<and>
          unat (mp_size pool) < unat (mp_pos pool) + class_size (class_of sz)))
     else \<exists>bs' L'. pool_inv S' h bs' L' \<and> held S' bs' = insert (ptr, unat sz) (held S bs) \<and>
       ptr \<notin> fst ` held S bs \<and> apart (m_pool S' ! unat h) (held S' bs') \<and>
       mp_check S' h ptr = TBOX_E_OK \<and> (\<forall>i<unat sz. m_bytes S' (ptr + of_nat i) = 0) \<and>
       (\<forall>(p, n)\<in>held S bs. m_words S' (p - 4) = m_words S (p - 4) \<and>
          m_words S' (p + of_nat n) = m_words S (p + of_nat n) \<and>
          (\<forall>i<n. m_bytes S' (p + of_nat i) = m_bytes S (p + of_nat i))))"
proof (cases rule: alloc_cases [OF assms])
  case 1
  then show ?thesis by (simp add: Let_def)
next
  case (2 S1 c bs' L')
  let ?S' = "hand_out c sz S1"
  have others: "\<forall>(p, n)\<in>held S bs. m_words ?S' (p - 4) = m_words S (p - 4) \<and>
          m_words ?S' (p + of_nat n) = m_words S (p + of_nat n) \<and>
          (\<forall>i<n. m_bytes ?S' (p + of_nat i) = m_bytes S (p + of_nat i))"
  proof (clarify del: conjI)
    fix p n
    assume "(p, n) \<in> held S bs"
    then have p: "(p, n) \<in> held ?S' bs'" "p \<noteq> c + 16" using 2(7,8) by force+
    show "m_words ?S' (p - 4) = m_words S (p - 4) \<and>
          m_words ?S' (p + of_nat n) = m_words S (p + of_nat n) \<and>
          (\<forall>i<n. m_bytes ?S' (p + of_nat i) = m_bytes S (p + of_nat i))"
      using hand_out_others [OF 2(6,5,1) p] unfolding 2(3,4) by blast
  qed
  show ?thesis
    using 2(2,6-8) chunk_ptr(1) [OF 2(6,5)] held_apart [OF 2(6)] hand_out_self [OF 2(6,5,1)] others
    by (intro exI [of _ ?S'] exI [of _ "c + 16"]) auto
qed

theorem mp_alloc_correct_witness:
  "\<exists>S S' ptr. mp_create ex_mem 0x20000001 0x5000 1 = Some (S, 0) \<and> mp_alloc S 0 100 = Some (S', ptr) \<and>
     (ptr = 0 \<longrightarrow> S' = S)"
proof -
  obtain S where S: "mp_create ex_mem 0x20000001 0x5000 1 = Some (S, 0)" "pool_inv S 0 [] (\<lambda>_. [])"
    using ex_mem_pool by blast
  have "(0 :: u32) < 100" "unat (100 :: u32) + 23 < 2 ^ 32" by simp_all
  from mp_alloc_correct [OF S(2) this] S(1) show ?thesis by (auto split: if_splits)
qed

text \<open>
  C21: release and checks, for a pointer \<open>p\<close> to any chunk cut off the buffer. If it is in use,
  the check reports the guard that was written over, the one in front first; releasing it takes
  exactly this pointer from the callers and touches no guard and no byte. If it is not in use,
  the check reports invalid data and releasing it changes nothing, so a second release after
  the first is harmless.
\<close>

theorem mp_free_correct:
  assumes "pool_inv S h bs L" and "(c, z) \<in> set bs"
  shows "(\<forall>n. (c + 16, n) \<in> held S bs \<longrightarrow>
      mp_check S h (c + 16) =
        (if m_words S (c + 16 - 4) \<noteq> MEM_GUARD_PATTERN then TBOX_E_UNDERFLOW
         else if m_words S (c + 16 + of_nat n) \<noteq> MEM_GUARD_PATTERN then TBOX_E_OVERFLOW
         else TBOX_E_OK) \<and>
      (\<exists>S' L'. mp_free S h (c + 16) = Some S' \<and> pool_inv S' h bs L' \<and>
        held S' bs = {x \<in> held S bs. fst x \<noteq> c + 16} \<and>
        m_words S' = m_words S \<and> m_bytes S' = m_bytes S \<and> m_pool S' = m_pool S)) \<and>
    (c + 16 \<notin> fst ` held S bs \<longrightarrow>
      mp_check S h (c + 16) = TBOX_E_INVALID_DATA \<and> mp_free S h (c + 16) = Some S)"
proof (intro conjI allI impI)
  fix n
  assume "(c + 16, n) \<in> held S bs"
  then have used: "ck_used (m_chunks S c)" and n: "n = unat (ck_size (m_chunks S c))"
    by (auto simp: held_def)
  have "(of_nat n :: u32) = ucast (ck_size (m_chunks S c))"
    using unat_u16_lt [of "ck_size (m_chunks S c)"] by (simp add: n word_unat_eq_iff unat_of_nat)
  moreover have "c + 16 - 4 = c + 12" by (simp add: add.commute)
  ultimately have e: "of_nat n = (ucast (ck_size (m_chunks S c)) :: u32)" "c + 16 - 4 = c + 12" by blast+
  show "mp_check S h (c + 16) =
        (if m_words S (c + 16 - 4) \<noteq> MEM_GUARD_PATTERN then TBOX_E_UNDERFLOW
         else if m_words S (c + 16 + of_nat n) \<noteq> MEM_GUARD_PATTERN then TBOX_E_OVERFLOW
         else TBOX_E_OK)"
    unfolding check_held [OF assms] e using used by simp
  let ?S' = "\<lambda>l. S\<lparr>m_chunks := (m_chunks S)(c :=
        (m_chunks S c)\<lparr>ck_used := False, ck_size := 0\<rparr>), m_links := l\<rparr>"
  obtain l where l: "mp_free S h (c + 16) = Some (?S' l)"
      "pool_inv (?S' l) h bs (L(zone_head (m_pool S ! unat h) z :=
         L (zone_head (m_pool S ! unat h) z) @ [chunk_link c]))"
    using free_held [OF assms used] by blast
  have "held (?S' l) bs = {x \<in> held S bs. fst x \<noteq> c + 16}"
    by (auto simp: held_def split: if_splits)
  with l show "\<exists>S' L'. mp_free S h (c + 16) = Some S' \<and> pool_inv S' h bs L' \<and>
        held S' bs = {x \<in> held S bs. fst x \<noteq> c + 16} \<and>
        m_words S' = m_words S \<and> m_bytes S' = m_bytes S \<and> m_pool S' = m_pool S"
    by (intro exI [of _ "?S' l"] exI) auto
next
  assume "c + 16 \<notin> fst ` held S bs"
  then have unused: "\<not> ck_used (m_chunks S c)" using assms(2) by (force simp: held_def)
  show "mp_check S h (c + 16) = TBOX_E_INVALID_DATA"
    unfolding check_held [OF assms] using unused by simp
  show "mp_free S h (c + 16) = Some S"
    by (rule free_again [OF assms unused])
qed

theorem mp_free_correct_witness:
  "\<exists>S bs L c z S'. pool_inv S 0 bs L \<and> (c, z) \<in> set bs \<and> (c + 16, 100) \<in> held S bs \<and>
     mp_free S 0 (c + 16) = Some S'"
proof -
  obtain S where S: "pool_inv S 0 [] (\<lambda>_. [])" "20473 < unat (mp_size (m_pool S ! unat (0 :: u32)))"
      "unat (mp_pos (m_pool S ! unat (0 :: u32))) = 1152"
    using ex_mem_pool by (auto simp: pool_inv_def Let_def)
  have sz: "(0 :: u32) < 100" "unat (100 :: u32) + 23 < 2 ^ 32" by simp_all
  show ?thesis
  proof (cases rule: alloc_cases [OF S(1) sz])
    case 1
    then show ?thesis
      using S(2,3) class_size_bounds [of "class_of 100"] request_class(1) [of 100] by auto
  next
    case (2 S1 c bs' L')
    then have h: "(c + 16, 100) \<in> held (hand_out c 100 S1) bs'" by simp
    from mp_free_correct [OF 2(6,5)] h obtain S' where "mp_free (hand_out c 100 S1) 0 (c + 16) = Some S'"
      by blast
    then show ?thesis using 2(5,6) h by blast
  qed
qed

end
