(* ===== verification/Bytes.thy ===== *)
theory Bytes imports Prelude begin

text \<open>
  How the little-endian CPU lays out the integers of a structure that is copied as bytes.
\<close>

unbundle bit_operations_syntax

definition le16 :: "u16 \<Rightarrow> u8 list" where
  "le16 w = [ucast w, ucast (drop_bit 8 w)]"

definition le32 :: "u32 \<Rightarrow> u8 list" where
  "le32 w = [ucast w, ucast (drop_bit 8 w), ucast (drop_bit 16 w), ucast (drop_bit 24 w)]"

definition get16 :: "u8 list \<Rightarrow> u16" where
  "get16 bs = ucast (bs ! 0) OR push_bit 8 (ucast (bs ! 1))"

definition get32 :: "u8 list \<Rightarrow> u32" where
  "get32 bs = ucast (bs ! 0) OR push_bit 8 (ucast (bs ! 1)) OR push_bit 16 (ucast (bs ! 2)) OR
     push_bit 24 (ucast (bs ! 3))"

lemma le_length [simp]: "length (le16 v) = 2" "length (le32 w) = 4"
  by (simp_all add: le16_def le32_def)

lemma get16_le16 [simp]: "get16 (le16 w @ bs) = w"
proof (rule bit_word_eqI)
  fix n assume "n < LENGTH(16)"
  then show "bit (get16 (le16 w @ bs)) n = bit w n"
    by (auto simp: get16_def le16_def bit_simps)
qed

lemma get32_le32 [simp]: "get32 (le32 w @ bs) = w"
proof (rule bit_word_eqI)
  fix n assume "n < LENGTH(32)"
  then have "n < 8 \<or> 8 \<le> n \<and> n < 16 \<or> 16 \<le> n \<and> n < 24 \<or> 24 \<le> n \<and> n < 32" by auto
  then show "bit (get32 (le32 w @ bs)) n = bit w n"
    by (auto simp: get32_def le32_def bit_simps)
qed

lemma get_le [simp]: "get16 (le16 v) = v" "get32 (le32 w) = w"
  using get16_le16 [of v "[]"] get32_le32 [of w "[]"] by simp_all

end
