(* ===== verification/Task.thy ===== *)
theory Task imports CQueue Notify MemPool Bytes begin

text \<open>
  \<^verbatim>\<open>src/core/tbox_task.c\<close>: the eight message tasks, the pool made of those no module has taken,
  the run-loop tasks, and the supervision of tasks that are blocked, deleted or short of stack.
  A mutex is a flag that says whether it exists: its sections are steps of the model, and
  taking one that does not exist is \<open>None\<close>. What the kernel answers (a created handle, the
  state of a task, the free stack and heap) is an argument, and what other tasks do while one
  waits is an argument \<open>env\<close>. Strings are constants of the program: \<open>str p\<close> is the text at \<open>p\<close>.
\<close>

section \<open>Constants and data\<close>

type_synonym TBOX_ID = "32 word"

definition TBOX_ID_INVALID :: TBOX_ID where "TBOX_ID_INVALID = - 1"

definition TBOX_TASK_SMALL_SIZE_NUM :: nat where "TBOX_TASK_SMALL_SIZE_NUM = 1"
definition TBOX_TASK_MEDIUM_SIZE_NUM :: nat where "TBOX_TASK_MEDIUM_SIZE_NUM = 6"
definition TBOX_TASK_LARGER_SIZE_NUM :: nat where "TBOX_TASK_LARGER_SIZE_NUM = 1"
definition TBOX_TASK_MAX_NUM :: nat where
  "TBOX_TASK_MAX_NUM = TBOX_TASK_LARGER_SIZE_NUM + TBOX_TASK_MEDIUM_SIZE_NUM + TBOX_TASK_SMALL_SIZE_NUM"
definition TBOX_RUNLOOP_TASK_NUM :: nat where "TBOX_RUNLOOP_TASK_NUM = 16"
definition TBOX_TASK_BLOCK_COUNT :: nat where "TBOX_TASK_BLOCK_COUNT = 5"
definition TBOX_TASK_ABNORMA_BLOCK_NUM :: u8 where "TBOX_TASK_ABNORMA_BLOCK_NUM = 3"
definition TBOX_TASK_SMALL_STACK_SIZE :: u32 where "TBOX_TASK_SMALL_STACK_SIZE = 896"
definition TBOX_TASK_MEDIUM_STACK_SIZE :: u32 where "TBOX_TASK_MEDIUM_STACK_SIZE = 1536"
definition TBOX_TASK_LARGE_STACK_SIZE :: u32 where "TBOX_TASK_LARGE_STACK_SIZE = 3072"
definition TBOX_TASK_PRIORITY_LOW :: u8 where "TBOX_TASK_PRIORITY_LOW = 5"
definition TBOX_TASK_PRIORITY_MID :: u8 where "TBOX_TASK_PRIORITY_MID = 10"
definition TBOX_TASK_PRIORITY_HIGH :: u8 where "TBOX_TASK_PRIORITY_HIGH = 18"
definition TBOX_TASK_MSG_QUEUE_SIZE :: u32 where "TBOX_TASK_MSG_QUEUE_SIZE = 512"
definition TBOX_TASK_HIGHWATER_THRESHOLD :: u32 where "TBOX_TASK_HIGHWATER_THRESHOLD = 8"
definition TBOX_MESSAGE_MAX_HANDLE_TIME :: u32 where "TBOX_MESSAGE_MAX_HANDLE_TIME = 5000"
definition TBOX_MESSAGE_DATA_MAX_LEN :: nat where "TBOX_MESSAGE_DATA_MAX_LEN = 256"
definition TBOX_MSG_MAGICNUM :: u16 where "TBOX_MSG_MAGICNUM = 0x544F"

definition TBOX_TASK_EVENT_START_BIT :: u32 where "TBOX_TASK_EVENT_START_BIT = 1"
definition TBOX_TASK_EVENT_QUIT_BIT :: u32 where "TBOX_TASK_EVENT_QUIT_BIT = 2"
definition TBOX_TASK_EVENT_STOP_BIT :: u32 where "TBOX_TASK_EVENT_STOP_BIT = 4"
definition TBOX_TASK_EVENT_MSG_BIT :: u32 where "TBOX_TASK_EVENT_MSG_BIT = 8"
definition TBOX_TASK_EVENT_ALL_BITS :: u32 where
  "TBOX_TASK_EVENT_ALL_BITS = TBOX_TASK_EVENT_START_BIT OR TBOX_TASK_EVENT_QUIT_BIT OR
     TBOX_TASK_EVENT_STOP_BIT OR TBOX_TASK_EVENT_MSG_BIT"
definition TBOX_TASK_START_RUNLOOP_BIT :: u32 where "TBOX_TASK_START_RUNLOOP_BIT = 1"

datatype TBOX_TASK_STATE = TBOX_TASK_STATE_INVALID | TBOX_TASK_NO_INIT | TBOX_TASK_STOP
  | TBOX_TASK_RUN_IDLE | TBOX_TASK_RUN_BUSY | TBOX_TASK_ABNORMAL | TBOX_TASK_RECOVERING
  | TBOX_TASK_ISFORBIDDEN

datatype eTaskState = eRunning | eReady | eBlocked | eSuspended | eDeleted | eInvalid

record TBOX_BLOCK_INFO =
  bi_msg_name :: u32
  con_block_num :: u8
  bi_task_id :: TBOX_ID
  is_block :: bool

record TBOX_MSG_HEADER =
  msgic_no :: u16
  msg_len :: u16
  msg_name :: u32
  msg_handler :: u32

text \<open>The buffer of the queue is memory at \<open>ti_queue_buf\<close>; its contents are in the queue.\<close>

record TBOX_TASK_INFO =
  ti_state :: TBOX_TASK_STATE
  ti_stack_size :: u32
  ti_module_id :: TBOX_ID
  ti_task_id :: TBOX_ID
  ti_priority :: u8
  cur_block_msg_name :: u32
  cur_block_tick :: u32
  ti_msg_queue :: cqueue_t
  ti_queue_buf :: u32
  ti_handle :: u32
  ti_mutex :: bool

record TBOX_RUNLOOP_INFO =
  rl_is_used :: bool
  rl_priority :: u8
  rl_stack_size :: u32
  rl_module_id :: TBOX_ID
  rl_task_id :: TBOX_ID
  rl_state :: TBOX_TASK_STATE
  runloop_func :: u32
  rl_handle :: u32

datatype TBOX_MODULE_ABNORMAL_TYPE = MODULE_ABNORMAL_MEMORY_OVERFLOW | MODULE_ABNORMAL_MEMORY_UNDERFLOW
  | MODULE_ABNORMAL_TASK_BLOCKED | MODULE_ABNORMAL_TASK_DELETED | MODULE_ABNORMAL_TASKSTACK_SMALL
  | MODULE_ABNORMAL_STACK_OVERFLOW | MODULE_ABNORMAL_TYPE_MAX

record TBOX_CORE_TASK_ABNORMAL_INFO =
  ab_task_id :: TBOX_ID
  ab_task_handle :: u32
  ab_module_id :: TBOX_ID
  ab_msg_name :: u32

text \<open>
  The two static structures, the notification words and states the kernel keeps of the tasks,
  and what was handed to \<^verbatim>\<open>tbox_supervish_report_task_abnormal\<close>, in order.
\<close>

record tasks =
  tbox_task_infos :: "TBOX_TASK_INFO list"
  block_info :: "TBOX_BLOCK_INFO list"
  runloops :: "TBOX_RUNLOOP_INFO list"
  mgr_mutex :: bool
  tcbs :: "u32 \<Rightarrow> task_notify"
  task_state :: "u32 \<Rightarrow> eTaskState"
  abnormal_reports :: "(TBOX_MODULE_ABNORMAL_TYPE \<times> TBOX_CORE_TASK_ABNORMAL_INFO) list"

section \<open>Access and kernel calls\<close>

text \<open>
  An index checked the way the code does: only the low byte of a non-negative \<^verbatim>\<open>TBOX_ID\<close> is
  compared with the number of tasks, the whole value is the index.
\<close>

definition bad_task_id :: "TBOX_ID \<Rightarrow> nat \<Rightarrow> bool" where
  "bad_task_id task_id n \<longleftrightarrow> task_id <s 0 \<or> n \<le> unat (ucast task_id :: u8)"

definition task_at :: "tasks \<Rightarrow> TBOX_ID \<Rightarrow> TBOX_TASK_INFO option" where
  "task_at T task_id = rd (tbox_task_infos T) (unat task_id)"

text \<open>\<^verbatim>\<open>xSemaphoreTake(tbox_task_infos[id].mutex, portMAX_DELAY)\<close>\<close>

definition take_task :: "tasks \<Rightarrow> TBOX_ID \<Rightarrow> TBOX_TASK_INFO option" where
  "take_task T task_id = do { t \<leftarrow> task_at T task_id; if ti_mutex t then Some t else None }"

definition upd_task :: "TBOX_ID \<Rightarrow> (TBOX_TASK_INFO \<Rightarrow> TBOX_TASK_INFO) \<Rightarrow> tasks \<Rightarrow> tasks" where
  "upd_task task_id f T = T\<lparr>tbox_task_infos :=
     (tbox_task_infos T)[unat task_id := f (tbox_task_infos T ! unat task_id)]\<rparr>"

definition take_mgr :: "tasks \<Rightarrow> tasks option" where
  "take_mgr T = (if mgr_mutex T then Some T else None)"

definition upd_runloop :: "nat \<Rightarrow> (TBOX_RUNLOOP_INFO \<Rightarrow> TBOX_RUNLOOP_INFO) \<Rightarrow> tasks \<Rightarrow> tasks" where
  "upd_runloop i f T = T\<lparr>runloops := (runloops T)[i := f (runloops T ! i)]\<rparr>"

definition notify_task :: "u32 \<Rightarrow> u32 \<Rightarrow> eNotifyAction \<Rightarrow> tasks \<Rightarrow> tasks" where
  "notify_task h v action T = T\<lparr>tcbs := (tcbs T)(h := fst (xTaskGenericNotify (tcbs T h) v action))\<rparr>"

definition gone :: "tasks \<Rightarrow> u32 \<Rightarrow> bool" where
  "gone T h \<longleftrightarrow> task_state T h = eDeleted \<or> task_state T h = eInvalid"

definition vTaskDelete :: "u32 \<Rightarrow> tasks \<Rightarrow> tasks" where
  "vTaskDelete h T = T\<lparr>task_state := (task_state T)(h := eDeleted)\<rparr>"

definition xTaskCreated :: "u32 \<Rightarrow> tasks \<Rightarrow> tasks" where
  "xTaskCreated h T = T\<lparr>task_state := (task_state T)(h := eReady),
     tcbs := (tcbs T)(h := \<lparr>ulNotifiedValue = 0, notify_state = taskNOT_WAITING_NOTIFICATION\<rparr>)\<rparr>"

definition report_abnormal :: "TBOX_MODULE_ABNORMAL_TYPE \<Rightarrow> TBOX_CORE_TASK_ABNORMAL_INFO \<Rightarrow> tasks \<Rightarrow> tasks" where
  "report_abnormal type info T = T\<lparr>abnormal_reports := abnormal_reports T @ [(type, info)]\<rparr>"

definition flush_queue :: "TBOX_TASK_INFO \<Rightarrow> TBOX_TASK_INFO" where
  "flush_queue t = t\<lparr>ti_msg_queue := (ti_msg_queue t)\<lparr>cq_in := 0, cq_out := 0\<rparr>\<rparr>"

fun first_index :: "('a \<Rightarrow> bool) \<Rightarrow> nat \<Rightarrow> 'a list \<Rightarrow> nat option" where
  "first_index P i [] = None"
| "first_index P i (x # xs) = (if P x then Some i else first_index P (Suc i) xs)"

section \<open>The task pool\<close>

text \<open>The first idle task of the pool, then the one with the least queued.\<close>

fun select_idle :: "u32 \<Rightarrow> nat \<Rightarrow> TBOX_TASK_INFO list \<Rightarrow> TBOX_ID option" where
  "select_idle sz i [] = Some TBOX_ID_INVALID"
| "select_idle sz i (t # ts) =
     (if \<not> ti_mutex t then None
      else if ti_state t = TBOX_TASK_RUN_IDLE \<and> ti_stack_size t \<ge> sz \<and> ti_module_id t = TBOX_ID_INVALID
      then Some (of_nat i) else select_idle sz (Suc i) ts)"

fun select_load :: "u32 \<Rightarrow> nat \<Rightarrow> u32 \<Rightarrow> TBOX_ID \<Rightarrow> TBOX_TASK_INFO list \<Rightarrow> TBOX_ID option" where
  "select_load sz i max_load task_id [] = Some task_id"
| "select_load sz i max_load task_id (t # ts) =
     (if \<not> ti_mutex t then None
      else let msg_queue_size = cqueue_datalen (ti_msg_queue t) in
      if (ti_state t = TBOX_TASK_RUN_BUSY \<or> ti_state t = TBOX_TASK_RUN_IDLE) \<and> ti_stack_size t \<ge> sz \<and>
         ti_module_id t = TBOX_ID_INVALID \<and> max_load > msg_queue_size
      then select_load sz (Suc i) msg_queue_size (of_nat i) ts
      else select_load sz (Suc i) max_load task_id ts)"

definition tbox_taskpool_select_task :: "tasks \<Rightarrow> u32 \<Rightarrow> TBOX_ID option" where
  "tbox_taskpool_select_task T sz = do {
     task_id \<leftarrow> select_idle sz 0 (tbox_task_infos T);
     if task_id \<noteq> TBOX_ID_INVALID then Some task_id
     else select_load sz 0 0xFFFFFFFF task_id (tbox_task_infos T)
   }"

section \<open>Blocked tasks\<close>

definition empty_block :: TBOX_BLOCK_INFO where
  "empty_block = \<lparr>bi_msg_name = 0, con_block_num = 0, bi_task_id = TBOX_ID_INVALID, is_block = False\<rparr>"

definition block_of :: "(u32 \<Rightarrow> u8 list) \<Rightarrow> TBOX_ID \<Rightarrow> u32 \<Rightarrow> TBOX_BLOCK_INFO \<Rightarrow> bool" where
  "block_of str task_id name b \<longleftrightarrow>
     is_block b \<and> task_id = bi_task_id b \<and> str name = str (bi_msg_name b)"

definition tbox_task_add_block :: "(u32 \<Rightarrow> u8 list) \<Rightarrow> tasks \<Rightarrow> TBOX_ID \<Rightarrow> u32 \<Rightarrow> tasks option" where
  "tbox_task_add_block str T task_id name = do {
     T \<leftarrow> take_mgr T;
     let bs = block_info T;
     case first_index (block_of str task_id name) 0 bs of
       Some i \<Rightarrow> Some (T\<lparr>block_info := bs[i := (bs ! i)\<lparr>con_block_num := con_block_num (bs ! i) + 1\<rparr>]\<rparr>)
     | None \<Rightarrow> (case first_index (\<lambda>b. \<not> is_block b) 0 bs of
         Some i \<Rightarrow> Some (T\<lparr>block_info := bs[i := \<lparr>bi_msg_name = name, con_block_num = 1,
           bi_task_id = task_id, is_block = True\<rparr>]\<rparr>)
       | None \<Rightarrow> Some T)
   }"

definition tbox_task_remove_block :: "(u32 \<Rightarrow> u8 list) \<Rightarrow> tasks \<Rightarrow> TBOX_ID \<Rightarrow> u32 \<Rightarrow> tasks option" where
  "tbox_task_remove_block str T task_id name = do {
     T \<leftarrow> take_mgr T;
     case first_index (block_of str task_id name) 0 (block_info T) of
       Some i \<Rightarrow> Some (T\<lparr>block_info := (block_info T)[i := empty_block]\<rparr>)
     | None \<Rightarrow> Some T
   }"

text \<open>
  First the tasks: one that has been in a handler for more than five seconds gets an entry, and
  its name is cleared. Then the entries: one with three counts is cleared and reported.
  \<^verbatim>\<open>pdMS_TO_TICKS\<close> is the identity at 1000 ticks a second.
\<close>

definition check_block_task :: "(u32 \<Rightarrow> u8 list) \<Rightarrow> u32 \<Rightarrow> nat \<Rightarrow> tasks \<Rightarrow> tasks option" where
  "check_block_task str cur_tick i T = do {
     t \<leftarrow> task_at T (of_nat i);
     if \<not> ti_mutex t \<or> ti_handle t = 0 then Some T
     else if ti_state t \<noteq> TBOX_TASK_RUN_BUSY \<or> cur_block_msg_name t = 0 then Some T
     else if cur_tick - cur_block_tick t > TBOX_MESSAGE_MAX_HANDLE_TIME
     then tbox_task_add_block str
            (upd_task (of_nat i) (\<lambda>t. t\<lparr>cur_block_msg_name := 0, cur_block_tick := cur_tick\<rparr>) T)
            (of_nat i) (cur_block_msg_name t)
     else Some T
   }"

definition check_block_entry :: "nat \<Rightarrow> tasks \<Rightarrow> tasks option" where
  "check_block_entry i T = do {
     T \<leftarrow> take_mgr T;
     b \<leftarrow> rd (block_info T) i;
     if is_block b \<and> con_block_num b \<ge> TBOX_TASK_ABNORMA_BLOCK_NUM
     then do {
       let T = T\<lparr>block_info := (block_info T)[i := empty_block]\<rparr>;
       if bi_task_id b \<noteq> TBOX_ID_INVALID
       then do {
         t \<leftarrow> take_task T (bi_task_id b);
         Some (report_abnormal MODULE_ABNORMAL_TASK_BLOCKED \<lparr>ab_task_id = bi_task_id b,
           ab_task_handle = ti_handle t, ab_module_id = ti_module_id t, ab_msg_name = bi_msg_name b\<rparr> T)
       }
       else Some T
     }
     else Some T
   }"

definition tbox_task_check_block :: "(u32 \<Rightarrow> u8 list) \<Rightarrow> u32 \<Rightarrow> tasks \<Rightarrow> tasks option" where
  "tbox_task_check_block str cur_tick T = do {
     T \<leftarrow> for_up 0 TBOX_TASK_MAX_NUM (check_block_task str cur_tick) T;
     for_up 0 TBOX_TASK_BLOCK_COUNT check_block_entry T
   }"

section \<open>Deleted tasks and stacks\<close>

definition tbox_task_delete_task_by_handle :: "u32 \<Rightarrow> tasks \<Rightarrow> tasks" where
  "tbox_task_delete_task_by_handle h T =
     (if h = 0 then T else if gone T h then T else vTaskDelete h T)"

text \<open>\<open>mark h\<close>: free stack of the task in words, \<^verbatim>\<open>uxTaskGetStackHighWaterMark\<close>.\<close>

definition abandon :: "TBOX_ID \<Rightarrow> tasks \<Rightarrow> tasks" where
  "abandon task_id = upd_task task_id (\<lambda>t. t\<lparr>ti_state := TBOX_TASK_ABNORMAL, ti_handle := 0\<rparr>)"

definition check_exception_task :: "(u32 \<Rightarrow> u32) \<Rightarrow> nat \<Rightarrow> tasks \<Rightarrow> tasks option" where
  "check_exception_task mark i T = do {
     t \<leftarrow> task_at T (of_nat i);
     let info = \<lparr>ab_task_id = ti_task_id t, ab_task_handle = ti_handle t, ab_module_id = ti_module_id t,
       ab_msg_name = 0\<rparr>;
     if \<not> ti_mutex t \<or> ti_handle t = 0 then Some T
     else if gone T (ti_handle t)
     then Some (report_abnormal MODULE_ABNORMAL_TASK_DELETED info (abandon (of_nat i) T))
     else if mark (ti_handle t) < TBOX_TASK_HIGHWATER_THRESHOLD
     then (if ti_stack_size t \<ge> TBOX_TASK_LARGE_STACK_SIZE div 4 then Some T
           else Some (report_abnormal MODULE_ABNORMAL_TASKSTACK_SMALL info
                  (abandon (of_nat i) (tbox_task_delete_task_by_handle (ti_handle t) T))))
     else Some T
   }"

definition tbox_task_check_exception :: "(u32 \<Rightarrow> u32) \<Rightarrow> tasks \<Rightarrow> tasks option" where
  "tbox_task_check_exception mark T = for_up 0 TBOX_TASK_MAX_NUM (check_exception_task mark) T"

definition check_runloop :: "nat \<Rightarrow> tasks \<Rightarrow> tasks option" where
  "check_runloop i T = do {
     T \<leftarrow> take_mgr T;
     r \<leftarrow> rd (runloops T) i;
     if \<not> (rl_is_used r \<and> rl_handle r \<noteq> 0) then Some T
     else if gone T (rl_handle r)
     then Some (report_abnormal MODULE_ABNORMAL_TASK_DELETED \<lparr>ab_task_id = rl_task_id r,
            ab_task_handle = rl_handle r, ab_module_id = rl_module_id r, ab_msg_name = 0\<rparr>
            (upd_runloop i (\<lambda>r. r\<lparr>rl_state := TBOX_TASK_ABNORMAL, rl_handle := 0\<rparr>) T))
     else Some T
   }"

definition tbox_task_check_runloop_exception :: "tasks \<Rightarrow> tasks option" where
  "tbox_task_check_runloop_exception T = for_up 0 TBOX_RUNLOOP_TASK_NUM check_runloop T"

definition tbox_task_check :: "(u32 \<Rightarrow> u8 list) \<Rightarrow> u32 \<Rightarrow> (u32 \<Rightarrow> u32) \<Rightarrow> tasks \<Rightarrow> tasks option" where
  "tbox_task_check str cur_tick mark T = do {
     T \<leftarrow> tbox_task_check_block str cur_tick T;
     T \<leftarrow> tbox_task_check_exception mark T;
     tbox_task_check_runloop_exception T
   }"

section \<open>Ending, starting and stopping a task\<close>

text \<open>
  The four looks for the end of a task that was told to quit; \<open>env i\<close> is what the others do
  before look \<open>i\<close>.
\<close>

fun quit_looks :: "(nat \<Rightarrow> tasks \<Rightarrow> tasks) \<Rightarrow> TBOX_ID \<Rightarrow> nat \<Rightarrow> nat \<Rightarrow> tasks \<Rightarrow> (tasks \<times> bool) option" where
  "quit_looks env task_id i 0 T = Some (T, False)"
| "quit_looks env task_id i (Suc n) T = do {
     let T = env i T;
     t \<leftarrow> take_task T task_id;
     if ti_handle t = 0 then Some (T, True)
     else if gone T (ti_handle t) then Some (upd_task task_id (\<lambda>t. t\<lparr>ti_handle := 0\<rparr>) T, True)
     else quit_looks env task_id (Suc i) n T
   }"

definition tbox_task_delete_task :: "(nat \<Rightarrow> tasks \<Rightarrow> tasks) \<Rightarrow> tasks \<Rightarrow> TBOX_ID \<Rightarrow> tasks option" where
  "tbox_task_delete_task env T task_id = do {
     t \<leftarrow> task_at T task_id;
     if ti_handle t = 0 then Some T
     else do {
       (T, ended) \<leftarrow> quit_looks env task_id 0 4
         (notify_task (ti_handle t) TBOX_TASK_EVENT_QUIT_BIT eSetBits T);
       if ended then Some T
       else do {
         let T = env 4 T;
         t \<leftarrow> take_task T task_id;
         Some (tbox_task_delete_task_by_handle (ti_handle t)
                 (upd_task task_id (\<lambda>t. t\<lparr>ti_handle := 0\<rparr>) T))
       }
     }
   }"

definition tbox_task_start_task :: "tasks \<Rightarrow> TBOX_ID \<Rightarrow> (tasks \<times> TBOX_ERROR_CODE) option" where
  "tbox_task_start_task T task_id = do {
     t \<leftarrow> take_task T task_id;
     let h = ti_handle t;
     if h = 0 then Some (T, TBOX_E_IS_CLOSED)
     else if gone T h then Some (upd_task task_id (\<lambda>t. t\<lparr>ti_handle := 0\<rparr>) T, TBOX_E_IS_CLOSED)
     else let T = (if task_state T h = eSuspended then T\<lparr>task_state := (task_state T)(h := eReady)\<rparr> else T) in
       Some (notify_task h TBOX_TASK_EVENT_START_BIT eSetBits T, TBOX_E_OK)
   }"

definition tbox_task_stop_task :: "tasks \<Rightarrow> TBOX_ID \<Rightarrow> (tasks \<times> TBOX_ERROR_CODE) option" where
  "tbox_task_stop_task T task_id = do {
     t \<leftarrow> take_task T task_id;
     let h = ti_handle t;
     if h = 0 then Some (T, TBOX_E_IS_CLOSED)
     else if gone T h then Some (upd_task task_id (\<lambda>t. t\<lparr>ti_handle := 0\<rparr>) T, TBOX_E_IS_CLOSED)
     else Some (notify_task h TBOX_TASK_EVENT_STOP_BIT eSetBits T, TBOX_E_OK)
   }"

text \<open>
  Starting every task that is stopped, and stopping every task that is not: the loop bodies and
  the two calls. A task without a mutex makes \<^verbatim>\<open>tbox_task_start\<close> give a semaphore that is \<^verbatim>\<open>NULL\<close>.
\<close>

definition start_one :: "nat \<Rightarrow> tasks \<Rightarrow> tasks option" where
  "start_one i T = do {
     t \<leftarrow> take_task T (of_nat i);
     if ti_state t \<noteq> TBOX_TASK_STOP then Some T
     else do {
       (T, ret) \<leftarrow> tbox_task_start_task (upd_task (of_nat i) (\<lambda>t. flush_queue (t\<lparr>
         ti_state := TBOX_TASK_RUN_IDLE, cur_block_msg_name := 0, cur_block_tick := 0\<rparr>)) T) (of_nat i);
       if ret = TBOX_E_IS_CLOSED
       then Some (upd_task (of_nat i) (\<lambda>t. t\<lparr>ti_state := TBOX_TASK_ABNORMAL\<rparr>) T) else Some T
     }
   }"

definition start_runloop :: "nat \<Rightarrow> tasks \<Rightarrow> tasks option" where
  "start_runloop i T = do {
     T \<leftarrow> take_mgr T;
     r \<leftarrow> rd (runloops T) i;
     if \<not> rl_is_used r \<or> rl_handle r = 0 then Some T
     else Some (notify_task (rl_handle r) TBOX_TASK_START_RUNLOOP_BIT eNoAction T)
   }"

definition tbox_task_start :: "tasks \<Rightarrow> (tasks \<times> TBOX_ERROR_CODE) option" where
  "tbox_task_start T = do {
     T \<leftarrow> take_mgr T;
     T \<leftarrow> for_up 0 TBOX_TASK_MAX_NUM start_one
           (T\<lparr>block_info := replicate TBOX_TASK_BLOCK_COUNT empty_block\<rparr>);
     T \<leftarrow> for_up 0 TBOX_RUNLOOP_TASK_NUM start_runloop T;
     Some (T, TBOX_E_OK)
   }"

definition stop_one :: "nat \<Rightarrow> tasks \<Rightarrow> tasks option" where
  "stop_one i T = do {
     t \<leftarrow> task_at T (of_nat i);
     if \<not> ti_mutex t then Some T
     else if ti_state t = TBOX_TASK_NO_INIT \<or> ti_state t = TBOX_TASK_ISFORBIDDEN \<or> ti_state t = TBOX_TASK_STOP
     then Some T
     else do {
       (T, ret) \<leftarrow> tbox_task_stop_task
         (upd_task (of_nat i) (\<lambda>t. flush_queue (t\<lparr>ti_state := TBOX_TASK_STOP\<rparr>)) T) (of_nat i);
       if ret = TBOX_E_IS_CLOSED
       then Some (upd_task (of_nat i) (\<lambda>t. t\<lparr>ti_state := TBOX_TASK_ISFORBIDDEN\<rparr>) T) else Some T
     }
   }"

definition tbox_task_stop :: "tasks \<Rightarrow> (tasks \<times> TBOX_ERROR_CODE) option" where
  "tbox_task_stop T = do { T \<leftarrow> for_up 0 TBOX_TASK_MAX_NUM stop_one T; Some (T, TBOX_E_OK) }"

section \<open>Set-up and shut-down\<close>

definition deinit_one :: "(nat \<Rightarrow> nat \<Rightarrow> tasks \<Rightarrow> tasks) \<Rightarrow> nat \<Rightarrow> memory_state \<times> tasks \<Rightarrow>
    (memory_state \<times> tasks) option" where
  "deinit_one env i = (\<lambda>(M, T). do {
     T \<leftarrow> tbox_task_delete_task (env i) T (of_nat i);
     t \<leftarrow> task_at T (of_nat i);
     M \<leftarrow> (if ti_queue_buf t \<noteq> 0 then tbox_memory_free M TBOX_MEMORY_TYPE_CORE (ti_queue_buf t) else Some M);
     Some (M, upd_task (of_nat i) (\<lambda>t. t\<lparr>ti_msg_queue := fst (cqueue_init (ti_msg_queue t) [] 0),
       ti_state := TBOX_TASK_NO_INIT, ti_mutex := False\<rparr>) T)
   })"

definition deinit_runloop :: "nat \<Rightarrow> tasks \<Rightarrow> tasks" where
  "deinit_runloop i T = (let r = runloops T ! i in
     if \<not> rl_is_used r \<or> rl_handle r = 0 then T
     else tbox_task_delete_task_by_handle (rl_handle r) (upd_runloop i (\<lambda>r. r\<lparr>rl_is_used := False,
       rl_task_id := TBOX_ID_INVALID, rl_module_id := TBOX_ID_INVALID, rl_handle := 0,
       rl_state := TBOX_TASK_NO_INIT\<rparr>) T))"

definition tbox_task_deinit :: "(nat \<Rightarrow> nat \<Rightarrow> tasks \<Rightarrow> tasks) \<Rightarrow> memory_state \<times> tasks \<Rightarrow>
    (memory_state \<times> tasks) option" where
  "tbox_task_deinit env MT = do {
     (M, T) \<leftarrow> for_up 0 TBOX_TASK_MAX_NUM (deinit_one env) MT;
     if mgr_mutex T
     then Some (M, (fold deinit_runloop [0..<TBOX_RUNLOOP_TASK_NUM]
            (T\<lparr>block_info := replicate TBOX_TASK_BLOCK_COUNT empty_block\<rparr>))\<lparr>mgr_mutex := False\<rparr>)
     else Some (M, T)
   }"

text \<open>What \<^verbatim>\<open>memset\<close> to 0 leaves, and the stack of task \<open>i\<close> in words.\<close>

definition zero_task :: TBOX_TASK_INFO where
  "zero_task = \<lparr>ti_state = TBOX_TASK_NO_INIT, ti_stack_size = 0, ti_module_id = 0, ti_task_id = 0,
     ti_priority = 0, cur_block_msg_name = 0, cur_block_tick = 0,
     ti_msg_queue = \<lparr>cq_buffer = [], cq_size = 0, cq_in = 0, cq_out = 0\<rparr>, ti_queue_buf = 0,
     ti_handle = 0, ti_mutex = False\<rparr>"

definition zero_runloop :: TBOX_RUNLOOP_INFO where
  "zero_runloop = \<lparr>rl_is_used = False, rl_priority = 0, rl_stack_size = 0, rl_module_id = 0,
     rl_task_id = 0, rl_state = TBOX_TASK_NO_INIT, runloop_func = 0, rl_handle = 0\<rparr>"

definition zero_block :: TBOX_BLOCK_INFO where
  "zero_block = \<lparr>bi_msg_name = 0, con_block_num = 0, bi_task_id = 0, is_block = False\<rparr>"

definition stack_of :: "nat \<Rightarrow> u32" where
  "stack_of i = (if i < TBOX_TASK_SMALL_SIZE_NUM then TBOX_TASK_SMALL_STACK_SIZE div 4
     else if i < TBOX_TASK_SMALL_SIZE_NUM + TBOX_TASK_MEDIUM_SIZE_NUM then TBOX_TASK_MEDIUM_STACK_SIZE div 4
     else TBOX_TASK_LARGE_STACK_SIZE div 4)"

text \<open>
  The loop over the tasks; it stops at the first failure with the code to return. \<open>mutex i\<close> and
  \<open>created i\<close> are the answers of \<^verbatim>\<open>xSemaphoreCreateMutex\<close> and \<^verbatim>\<open>xTaskCreate\<close>.
\<close>

fun init_tasks :: "(nat \<Rightarrow> bool) \<Rightarrow> (nat \<Rightarrow> u32 option) \<Rightarrow> nat \<Rightarrow> nat \<Rightarrow> memory_state \<times> tasks \<Rightarrow>
    ((memory_state \<times> tasks) \<times> TBOX_ERROR_CODE) option" where
  "init_tasks mutex created i 0 MT = Some (MT, TBOX_E_OK)"
| "init_tasks mutex created i (Suc n) MT = (case MT of (M, T) \<Rightarrow> do {
     let T = upd_task (of_nat i) (\<lambda>t. t\<lparr>ti_state := TBOX_TASK_STOP, ti_stack_size := stack_of i,
       ti_priority := TBOX_TASK_PRIORITY_MID, ti_module_id := TBOX_ID_INVALID, cur_block_msg_name := 0,
       cur_block_tick := 0, ti_task_id := of_nat i, ti_handle := 0,
       ti_msg_queue := fst (cqueue_init (ti_msg_queue t) [] 0)\<rparr>) T;
     (M, buffer) \<leftarrow> tbox_memory_alloc M TBOX_MEMORY_TYPE_CORE TBOX_TASK_MSG_QUEUE_SIZE;
     if buffer = 0 then Some ((M, T), TBOX_E_FAILED_ALLOC)
     else do {
       let T = upd_task (of_nat i) (\<lambda>t. t\<lparr>ti_msg_queue := fst (cqueue_init (ti_msg_queue t)
         (replicate (unat TBOX_TASK_MSG_QUEUE_SIZE) 0) TBOX_TASK_MSG_QUEUE_SIZE), ti_queue_buf := buffer,
         ti_mutex := mutex i\<rparr>) T;
       if \<not> mutex i then Some ((M, T), TBOX_E_FAILED_CREATE)
       else (case created i of
           None \<Rightarrow> Some ((M, T), TBOX_E_FAILED_CREATE)
         | Some h \<Rightarrow> init_tasks mutex created (Suc i) n
             (M, upd_task (of_nat i) (\<lambda>t. t\<lparr>ti_handle := h\<rparr>) (xTaskCreated h T)))
     }
   })"

definition tbox_task_init :: "(nat \<Rightarrow> bool) \<Rightarrow> (nat \<Rightarrow> u32 option) \<Rightarrow> bool \<Rightarrow>
    (nat \<Rightarrow> nat \<Rightarrow> tasks \<Rightarrow> tasks) \<Rightarrow> memory_state \<times> tasks \<Rightarrow>
    ((memory_state \<times> tasks) \<times> TBOX_ERROR_CODE) option" where
  "tbox_task_init mutex created mgr env = (\<lambda>(M, T). do {
     let T = T\<lparr>tbox_task_infos := replicate TBOX_TASK_MAX_NUM zero_task,
       block_info := replicate TBOX_TASK_BLOCK_COUNT zero_block,
       runloops := replicate TBOX_RUNLOOP_TASK_NUM zero_runloop, mgr_mutex := False\<rparr>;
     ((M, T), ret) \<leftarrow> init_tasks mutex created 0 TBOX_TASK_MAX_NUM (M, T);
     if ret \<noteq> TBOX_E_OK then do { MT \<leftarrow> tbox_task_deinit env (M, T); Some (MT, ret) }
     else if \<not> mgr then do { MT \<leftarrow> tbox_task_deinit env (M, T); Some (MT, TBOX_E_FAILED_CREATE) }
     else Some ((M, T\<lparr>mgr_mutex := True, block_info := replicate TBOX_TASK_BLOCK_COUNT empty_block,
       runloops := map (\<lambda>r. r\<lparr>rl_is_used := False, rl_task_id := TBOX_ID_INVALID,
         rl_module_id := TBOX_ID_INVALID, rl_handle := 0, rl_state := TBOX_TASK_NO_INIT\<rparr>) (runloops T)\<rparr>),
       TBOX_E_OK)
   })"

section \<open>Run-loop tasks\<close>

text \<open>\<open>created\<close>: what \<^verbatim>\<open>xTaskCreate\<close> answers.\<close>

definition tbox_task_create_runloop :: "TBOX_ID \<Rightarrow> u8 \<Rightarrow> u32 \<Rightarrow> u32 \<Rightarrow> u32 option \<Rightarrow> tasks \<Rightarrow> (tasks \<times> TBOX_ID) option" where
  "tbox_task_create_runloop module_id priority sz runloop created T =
     (if module_id \<le>s TBOX_ID_INVALID \<or> runloop = 0 then Some (T, TBOX_ID_INVALID)
      else do {
        T \<leftarrow> take_mgr T;
        case first_index (\<lambda>r. \<not> rl_is_used r) 0 (runloops T) of
          None \<Rightarrow> Some (T, TBOX_ID_INVALID)
        | Some i \<Rightarrow> (case created of
            None \<Rightarrow> Some (T, TBOX_ID_INVALID)
          | Some h \<Rightarrow> let task_id = of_nat (i + TBOX_TASK_MAX_NUM) in
              Some (upd_runloop i (\<lambda>r. r\<lparr>rl_is_used := True, rl_module_id := module_id, rl_handle := h,
                rl_priority := priority, rl_stack_size := sz, runloop_func := runloop,
                rl_task_id := task_id, rl_state := TBOX_TASK_RUN_IDLE\<rparr>) (xTaskCreated h T), task_id))
      })"

text \<open>The end of \<^verbatim>\<open>tbox_task_runloop_process\<close>, when the run loop of the module has returned.\<close>

definition runloop_returned :: "nat \<Rightarrow> u32 \<Rightarrow> tasks \<Rightarrow> tasks option" where
  "runloop_returned i self T = do {
     T \<leftarrow> take_mgr T;
     Some (vTaskDelete self (upd_runloop i (\<lambda>r. r\<lparr>rl_handle := 0, rl_state := TBOX_TASK_ABNORMAL\<rparr>) T))
   }"

section \<open>Questions about tasks\<close>

definition bad_any_id :: "TBOX_ID \<Rightarrow> bool" where
  "bad_any_id task_id \<longleftrightarrow> bad_task_id task_id (TBOX_TASK_MAX_NUM + TBOX_RUNLOOP_TASK_NUM)"

definition is_message_task :: "TBOX_ID \<Rightarrow> bool" where
  "is_message_task task_id \<longleftrightarrow> unat (ucast task_id :: u8) < TBOX_TASK_MAX_NUM"

definition runloop_at :: "tasks \<Rightarrow> TBOX_ID \<Rightarrow> TBOX_RUNLOOP_INFO option" where
  "runloop_at T task_id = do { T \<leftarrow> take_mgr T; rd (runloops T) (unat (task_id - of_nat TBOX_TASK_MAX_NUM)) }"

definition tbox_task_get_handle :: "tasks \<Rightarrow> TBOX_ID \<Rightarrow> u32 option" where
  "tbox_task_get_handle T task_id =
     (if bad_any_id task_id then Some 0
      else if is_message_task task_id then do { t \<leftarrow> take_task T task_id; Some (ti_handle t) }
      else do { r \<leftarrow> runloop_at T task_id; Some (rl_handle r) })"

definition tbox_task_get_state :: "tasks \<Rightarrow> TBOX_ID \<Rightarrow> TBOX_TASK_STATE option" where
  "tbox_task_get_state T task_id =
     (if bad_any_id task_id then Some TBOX_TASK_STATE_INVALID
      else if is_message_task task_id
      then do { t \<leftarrow> task_at T task_id; Some (if ti_mutex t then ti_state t else TBOX_TASK_STATE_INVALID) }
      else do { r \<leftarrow> runloop_at T task_id; Some (rl_state r) })"

text \<open>The result is a code or a priority, both as the \<^verbatim>\<open>INT32\<close> that is returned.\<close>

definition tbox_task_get_priority :: "tasks \<Rightarrow> TBOX_ID \<Rightarrow> int option" where
  "tbox_task_get_priority T task_id =
     (if bad_any_id task_id then Some (tbox_error_val TBOX_E_INVALID_PARAM)
      else if is_message_task task_id
      then do { t \<leftarrow> task_at T task_id;
             Some (if ti_mutex t then uint (ti_priority t) else tbox_error_val TBOX_E_NOINIT) }
      else do { r \<leftarrow> runloop_at T task_id; Some (uint (rl_priority r)) })"

fun find_task :: "u32 \<Rightarrow> TBOX_TASK_INFO list \<Rightarrow> TBOX_ID" where
  "find_task h [] = TBOX_ID_INVALID"
| "find_task h (t # ts) =
     (if ti_mutex t \<and> ti_handle t \<noteq> 0 \<and> ti_handle t = h \<and> ti_task_id t \<noteq> TBOX_ID_INVALID
      then ti_task_id t else find_task h ts)"

definition tbox_task_find_by_handle :: "tasks \<Rightarrow> u32 \<Rightarrow> TBOX_ID option" where
  "tbox_task_find_by_handle T h =
     (if h = 0 then Some TBOX_ID_INVALID
      else let task_id = find_task h (tbox_task_infos T) in
      if task_id \<noteq> TBOX_ID_INVALID then Some task_id
      else do {
        T \<leftarrow> take_mgr T;
        Some (case List.find (\<lambda>r. rl_handle r = h) (runloops T) of
                Some r \<Rightarrow> rl_task_id r | None \<Rightarrow> TBOX_ID_INVALID)
      })"

section \<open>Modules take and leave tasks\<close>

text \<open>The task found, and whether it is newly taken.\<close>

fun attach_loop :: "TBOX_ID \<Rightarrow> u32 \<Rightarrow> nat \<Rightarrow> TBOX_TASK_INFO list \<Rightarrow> (nat \<times> bool) option" where
  "attach_loop module_id sz i [] = None"
| "attach_loop module_id sz i (t # ts) =
     (if \<not> ti_mutex t \<or> ti_handle t = 0 then attach_loop module_id sz (Suc i) ts
      else if ti_state t = TBOX_TASK_NO_INIT \<or> ti_state t = TBOX_TASK_ISFORBIDDEN \<or> ti_state t = TBOX_TASK_ABNORMAL
      then attach_loop module_id sz (Suc i) ts
      else if module_id = ti_module_id t then Some (i, False)
      else if ti_stack_size t \<ge> sz \<and> ti_module_id t = TBOX_ID_INVALID then Some (i, True)
      else attach_loop module_id sz (Suc i) ts)"

definition tbox_task_attach :: "TBOX_ID \<Rightarrow> u8 \<Rightarrow> u32 \<Rightarrow> tasks \<Rightarrow> tasks \<times> TBOX_ID" where
  "tbox_task_attach module_id priority sz T =
     (if module_id \<le>s TBOX_ID_INVALID then (T, TBOX_ID_INVALID)
      else if priority < TBOX_TASK_PRIORITY_LOW \<or> priority > TBOX_TASK_PRIORITY_HIGH then (T, TBOX_ID_INVALID)
      else if sz > TBOX_TASK_LARGE_STACK_SIZE then (T, TBOX_ID_INVALID)
      else case attach_loop module_id (sz div 4) 0 (tbox_task_infos T) of
        None \<Rightarrow> (T, TBOX_ID_INVALID)
      | Some (i, False) \<Rightarrow> (T, of_nat i)
      | Some (i, True) \<Rightarrow> (upd_task (of_nat i) (\<lambda>t. t\<lparr>ti_module_id := module_id, ti_priority := priority,
          cur_block_msg_name := 0, cur_block_tick := 0\<rparr>) T, of_nat i))"

definition tbox_task_detach :: "TBOX_ID \<Rightarrow> tasks \<Rightarrow> (tasks \<times> TBOX_ERROR_CODE) option" where
  "tbox_task_detach task_id T =
     (if bad_task_id task_id TBOX_TASK_MAX_NUM then Some (T, TBOX_E_INVALID_PARAM)
      else do {
        t \<leftarrow> task_at T task_id;
        if \<not> ti_mutex t then Some (T, TBOX_E_NOINIT)
        else Some (upd_task task_id (\<lambda>t. flush_queue (t\<lparr>ti_module_id := TBOX_ID_INVALID\<rparr>)) T, TBOX_E_OK)
      })"

section \<open>Messages\<close>

text \<open>The header as the bytes \<^verbatim>\<open>memcpy\<close> moves, and the structure they make.\<close>

definition sizeof_msg_header :: u32 where "sizeof_msg_header = 12"

definition msg_header_bytes :: "TBOX_MSG_HEADER \<Rightarrow> u8 list" where
  "msg_header_bytes h = le16 (msgic_no h) @ le16 (msg_len h) @ le32 (msg_name h) @ le32 (msg_handler h)"

definition msg_header_of :: "u8 list \<Rightarrow> TBOX_MSG_HEADER" where
  "msg_header_of bs = \<lparr>msgic_no = get16 bs, msg_len = get16 (drop 2 bs), msg_name = get32 (drop 4 bs),
     msg_handler = get32 (drop 8 bs)\<rparr>"

text \<open>
  The section shared by \<^verbatim>\<open>tbox_task_add_msg\<close> and \<^verbatim>\<open>tbox_taskpool_add_msg\<close>; to notify the handle
  \<^verbatim>\<open>NULL\<close> stops the kernel at an assertion.
\<close>

definition put_msg :: "TBOX_ID \<Rightarrow> u32 \<Rightarrow> u32 \<Rightarrow> u16 \<Rightarrow> u8 list option \<Rightarrow> tasks \<Rightarrow> (tasks \<times> TBOX_ERROR_CODE) option" where
  "put_msg task_id name handler len data T = do {
     t \<leftarrow> take_task T task_id;
     let header = \<lparr>msgic_no = TBOX_MSG_MAGICNUM, msg_len = len, msg_name = name, msg_handler = handler\<rparr>;
     if ti_state t \<noteq> TBOX_TASK_RUN_IDLE \<and> ti_state t \<noteq> TBOX_TASK_RUN_BUSY then Some (T, TBOX_E_INVALID_STATE)
     else if cqueue_surplus (ti_msg_queue t) < ucast len + sizeof_msg_header then Some (T, TBOX_E_NOMEMORY)
     else do {
       (q, _) \<leftarrow> cqueue_put (ti_msg_queue t) (msg_header_bytes header) sizeof_msg_header;
       q \<leftarrow> (case data of None \<Rightarrow> Some q | Some d \<Rightarrow> do { (q, _) \<leftarrow> cqueue_put q d (ucast len); Some q });
       if ti_handle t = 0 then None
       else Some (notify_task (ti_handle t) TBOX_TASK_EVENT_MSG_BIT eSetBits
              (upd_task task_id (\<lambda>t. t\<lparr>ti_msg_queue := q\<rparr>) T), TBOX_E_OK)
     }
   }"

definition tbox_task_add_msg :: "TBOX_ID \<Rightarrow> u32 \<Rightarrow> u32 \<Rightarrow> u16 \<Rightarrow> u8 list option \<Rightarrow> tasks \<Rightarrow>
    (tasks \<times> TBOX_ERROR_CODE) option" where
  "tbox_task_add_msg task_id name handler len data T =
     (if bad_task_id task_id TBOX_TASK_MAX_NUM \<or> name = 0 \<or> handler = 0 then Some (T, TBOX_E_INVALID_PARAM)
      else do {
        t \<leftarrow> task_at T task_id;
        if \<not> ti_mutex t then Some (T, TBOX_E_NOINIT)
        else if ti_handle t = 0 then Some (T, TBOX_E_INVALID_HANDLE)
        else put_msg task_id name handler len data T
      })"

definition tbox_taskpool_add_msg :: "u32 \<Rightarrow> u32 \<Rightarrow> u32 \<Rightarrow> u16 \<Rightarrow> u8 list option \<Rightarrow> tasks \<Rightarrow>
    (tasks \<times> TBOX_ERROR_CODE) option" where
  "tbox_taskpool_add_msg sz name handler len data T =
     (if name = 0 \<or> handler = 0 \<or> sz > TBOX_TASK_LARGE_STACK_SIZE then Some (T, TBOX_E_INVALID_PARAM)
      else do {
        task_id \<leftarrow> tbox_taskpool_select_task T (sz div 4);
        if task_id = TBOX_ID_INVALID then Some (T, TBOX_E_IS_BUSY)
        else put_msg task_id name handler len data T
      })"

section \<open>The message loop of a task\<close>

text \<open>
  \<^verbatim>\<open>tbox_task_process\<close> in the pieces between which other tasks run. Woken with \<open>bits\<close> the task
  ends, or goes on with a new time-out (\<^verbatim>\<open>portMAX_DELAY\<close> is all ones).
\<close>

definition process_woken :: "u32 \<Rightarrow> u32 \<Rightarrow> u32 option" where
  "process_woken bits wait_tick =
     (if bits AND TBOX_TASK_EVENT_QUIT_BIT = TBOX_TASK_EVENT_QUIT_BIT then None
      else let wait_tick = (if bits AND TBOX_TASK_EVENT_START_BIT = TBOX_TASK_EVENT_START_BIT
                            then 100 else wait_tick) in
        Some (if bits AND TBOX_TASK_EVENT_STOP_BIT = TBOX_TASK_EVENT_STOP_BIT then - 1 else wait_tick))"

text \<open>The section that takes a message out of the queue, into the data buffer \<open>buf\<close> of the task.\<close>

datatype process_next = PQuit | PWait | PHandle TBOX_MSG_HEADER

definition process_take :: "u32 \<Rightarrow> TBOX_ID \<Rightarrow> u32 \<Rightarrow> u8 list \<Rightarrow> tasks \<Rightarrow>
    (tasks \<times> process_next \<times> u8 list) option" where
  "process_take tick task_id self buf T = do {
     t \<leftarrow> take_task T task_id;
     if ti_state t = TBOX_TASK_NO_INIT \<or> ti_state t = TBOX_TASK_ISFORBIDDEN \<or>
        ti_state t = TBOX_TASK_RECOVERING \<or> ti_state t = TBOX_TASK_ABNORMAL
     then Some (vTaskDelete self (abandon task_id T), PQuit, buf)
     else if ti_state t \<noteq> TBOX_TASK_RUN_IDLE \<and> ti_state t \<noteq> TBOX_TASK_RUN_BUSY then Some (T, PWait, buf)
     else if cqueue_datalen (ti_msg_queue t) < sizeof_msg_header then Some (T, PWait, buf)
     else do {
       (q, hb, _) \<leftarrow> cqueue_get (ti_msg_queue t) (replicate 12 0) sizeof_msg_header;
       let header = msg_header_of hb;
       if cqueue_datalen q < ucast (msg_len header)
       then Some (upd_task task_id (\<lambda>t. flush_queue (t\<lparr>ti_msg_queue := q\<rparr>)) T, PWait, buf)
       else do {
         (q, buf, _) \<leftarrow> cqueue_get q buf (ucast (msg_len header));
         Some (upd_task task_id (\<lambda>t. t\<lparr>ti_msg_queue := q, ti_state := TBOX_TASK_RUN_BUSY,
           cur_block_tick := tick, cur_block_msg_name := msg_name header\<rparr>) T, PHandle header, buf)
       }
     }
   }"

text \<open>What follows a message, handled or not.\<close>

definition process_done :: "(u32 \<Rightarrow> u8 list) \<Rightarrow> u32 \<Rightarrow> TBOX_ID \<Rightarrow> TBOX_MSG_HEADER \<Rightarrow> tasks \<Rightarrow> tasks option" where
  "process_done str tick task_id header T = do {
     t \<leftarrow> take_task T task_id;
     let T = upd_task task_id (\<lambda>t. t\<lparr>ti_state := TBOX_TASK_RUN_IDLE, cur_block_tick := tick,
       cur_block_msg_name := 0\<rparr>) T;
     if TBOX_ID_INVALID <s ti_task_id t \<and> msg_name header \<noteq> 0
     then tbox_task_remove_block str T (ti_task_id t) (msg_name header)
     else Some T
   }"

text \<open>The start of the task, and the end after a quit event.\<close>

definition process_start :: "TBOX_ID \<Rightarrow> u32 \<Rightarrow> memory_state \<times> tasks \<Rightarrow> ((memory_state \<times> tasks) \<times> u32) option" where
  "process_start task_id self = (\<lambda>(M, T). do {
     t \<leftarrow> task_at T task_id;
     if \<not> ti_mutex t then Some ((M, vTaskDelete self T), 0)
     else do {
       (M, msg_data_buf) \<leftarrow> tbox_memory_alloc M TBOX_MEMORY_TYPE_CORE (of_nat TBOX_MESSAGE_DATA_MAX_LEN);
       if msg_data_buf = 0 then Some ((M, vTaskDelete self (abandon task_id T)), 0)
       else Some ((M, T), msg_data_buf)
     }
   })"

definition process_quit :: "TBOX_ID \<Rightarrow> u32 \<Rightarrow> u32 \<Rightarrow> memory_state \<times> tasks \<Rightarrow> (memory_state \<times> tasks) option" where
  "process_quit task_id self msg_data_buf = (\<lambda>(M, T). do {
     M \<leftarrow> tbox_memory_free M TBOX_MEMORY_TYPE_CORE msg_data_buf;
     t \<leftarrow> take_task T task_id;
     Some (M, vTaskDelete self (abandon task_id T))
   })"

section \<open>Forbidding a task\<close>

definition tbox_forbid_task :: "(nat \<Rightarrow> tasks \<Rightarrow> tasks) \<Rightarrow> TBOX_ID \<Rightarrow> tasks \<Rightarrow> tasks option" where
  "tbox_forbid_task env task_id T =
     (if bad_any_id task_id then Some T
      else if is_message_task task_id
      then do {
        t \<leftarrow> task_at T task_id;
        if \<not> ti_mutex t then Some T
        else if ti_state t = TBOX_TASK_NO_INIT \<or> ti_state t = TBOX_TASK_ISFORBIDDEN then Some T
        else tbox_task_delete_task env
               (upd_task task_id (\<lambda>t. flush_queue (t\<lparr>ti_state := TBOX_TASK_ISFORBIDDEN\<rparr>)) T) task_id
      }
      else do {
        r \<leftarrow> runloop_at T task_id;
        if \<not> rl_is_used r \<or> rl_state r = TBOX_TASK_ISFORBIDDEN then Some T
        else Some (tbox_task_delete_task_by_handle (rl_handle r)
               (upd_runloop (unat (task_id - of_nat TBOX_TASK_MAX_NUM))
                 (\<lambda>r. r\<lparr>rl_handle := 0, rl_state := TBOX_TASK_ISFORBIDDEN\<rparr>) T))
      })"

end
