(* ===== verification/TaskRef.thy ===== *)
theory TaskRef imports Task begin

text \<open>
  The queue of a message task as a sequence of framed messages: what the adding functions put in
  is what the message loop takes out, in order, and a message that does not fit changes nothing.
\<close>

section \<open>Tasks by number\<close>

lemma task_at_upd [simp]:
  "task_at (upd_task k f T) k' =
     (if unat k = unat k' then map_option f (task_at T k') else task_at T k')"
  by (auto simp: task_at_def upd_task_def rd_def)

lemma take_task_upd [simp]:
  assumes "\<And>t. ti_mutex (f t) = ti_mutex t"
  shows "take_task (upd_task k f T) k' =
     (if unat k = unat k' then map_option f (take_task T k') else take_task T k')"
  using assms by (auto simp: take_task_def bind_eq_Some_conv map_option_bind split: Option.bind_splits)

lemma take_taskD: "take_task T k = Some t \<Longrightarrow> task_at T k = Some t \<and> ti_mutex t"
  by (auto simp: take_task_def bind_eq_Some_conv split: if_splits)

lemma take_task_iff: "take_task T k = Some t \<longleftrightarrow> task_at T k = Some t \<and> ti_mutex t"
  by (auto simp: take_task_def bind_eq_Some_conv split: if_splits)

lemma upd_task_simps [simp]:
  "block_info (upd_task k f T) = block_info T" "runloops (upd_task k f T) = runloops T"
  "mgr_mutex (upd_task k f T) = mgr_mutex T" "tcbs (upd_task k f T) = tcbs T"
  "task_state (upd_task k f T) = task_state T" "abnormal_reports (upd_task k f T) = abnormal_reports T"
  "length (tbox_task_infos (upd_task k f T)) = length (tbox_task_infos T)"
  by (simp_all add: upd_task_def)

lemma notify_task_simps [simp]:
  "tbox_task_infos (notify_task h v a T) = tbox_task_infos T" "block_info (notify_task h v a T) = block_info T"
  "runloops (notify_task h v a T) = runloops T" "mgr_mutex (notify_task h v a T) = mgr_mutex T"
  "task_state (notify_task h v a T) = task_state T"
  "abnormal_reports (notify_task h v a T) = abnormal_reports T"
  "task_at (notify_task h v a T) k = task_at T k" "take_task (notify_task h v a T) k = take_task T k"
  by (simp_all add: notify_task_def task_at_def take_task_def)

section \<open>Frames\<close>

lemma unat_ucast16: "unat (ucast (x :: u16) :: u32) = unat x"
proof -
  have "unat x < 2 ^ 16" using unsigned_less [of x, where 'a = nat] by simp
  then show ?thesis by (simp add: unsigned_ucast_eq take_bit_nat_eq_self)
qed

lemma header_length [simp]: "length (msg_header_bytes h) = 12"
  by (simp add: msg_header_bytes_def)

lemma msg_header_roundtrip [simp]: "msg_header_of (msg_header_bytes h @ bs) = h"
  by (simp add: msg_header_of_def msg_header_bytes_def)

definition frame :: "TBOX_MSG_HEADER \<times> u8 list \<Rightarrow> u8 list" where
  "frame m = msg_header_bytes (fst m) @ snd m"

definition frames_size :: "(TBOX_MSG_HEADER \<times> u8 list) list \<Rightarrow> nat" where
  "frames_size ms = (\<Sum>m\<leftarrow>ms. 12 + length (snd m))"

lemma frames_length: "length (concat (map frame ms)) = frames_size ms"
  by (induction ms) (simp_all add: frames_size_def frame_def)

lemma frames_size_append [simp]: "frames_size (ms @ ms') = frames_size ms + frames_size ms'"
  by (simp add: frames_size_def)

definition framed :: "TBOX_MSG_HEADER \<times> u8 list \<Rightarrow> bool" where
  "framed m \<longleftrightarrow> unat (msg_len (fst m)) = length (snd m) \<and> length (snd m) \<le> TBOX_MESSAGE_DATA_MAX_LEN"

definition holds :: "cqueue_t \<Rightarrow> (TBOX_MSG_HEADER \<times> u8 list) list \<Rightarrow> bool" where
  "holds q ms \<longleftrightarrow> cq_inv q \<and> cq_size q = TBOX_TASK_MSG_QUEUE_SIZE \<and>
     cq_contents q = concat (map frame ms) \<and> (\<forall>m\<in>set ms. framed m)"

definition running :: "TBOX_TASK_INFO \<Rightarrow> bool" where
  "running t \<longleftrightarrow> ti_state t = TBOX_TASK_RUN_IDLE \<or> ti_state t = TBOX_TASK_RUN_BUSY"

definition new_header :: "u32 \<Rightarrow> u32 \<Rightarrow> u16 \<Rightarrow> TBOX_MSG_HEADER" where
  "new_header name handler len =
     \<lparr>msgic_no = TBOX_MSG_MAGICNUM, msg_len = len, msg_name = name, msg_handler = handler\<rparr>"

lemma new_header_simps [simp]:
  "msgic_no (new_header n h l) = TBOX_MSG_MAGICNUM" "msg_len (new_header n h l) = l"
  "msg_name (new_header n h l) = n" "msg_handler (new_header n h l) = h"
  by (simp_all add: new_header_def)

lemma queue_size [simp]: "unat TBOX_TASK_MSG_QUEUE_SIZE = 512"
  by (simp add: TBOX_TASK_MSG_QUEUE_SIZE_def)

lemma holds_size: "holds q ms \<Longrightarrow> frames_size ms \<le> 512"
  using cq.contents_cap [of q] by (auto simp: holds_def frames_length)

lemma put_frame:
  assumes q: "cq_inv q" and n: "unat len = length bs" "length (cq_contents q) + length bs \<le> unat (cq_size q)"
  shows "\<exists>q' m. cqueue_put q bs len = Some (q', m) \<and> cq_inv q' \<and> cq_size q' = cq_size q \<and>
     cq_contents q' = cq_contents q @ bs"
  using cqueue_put_ok [OF q, of len bs] n by (auto simp: min_def split: if_splits)

text \<open>The data of a message is absent exactly when it is empty.\<close>

definition data_arg :: "u8 list \<Rightarrow> u8 list option" where
  "data_arg d = (if d = [] then None else Some d)"

lemma put_msg_ok:
  fixes name handler :: u32
  assumes t: "take_task T k = Some t" and h: "ti_handle t \<noteq> 0" and r: "running t"
    and q: "holds (ti_msg_queue t) ms" and d: "length d \<le> TBOX_MESSAGE_DATA_MAX_LEN"
  defines "m \<equiv> (new_header name handler (of_nat (length d)), d)"
  shows "\<exists>q'. put_msg k name handler (of_nat (length d)) (data_arg d) T =
     Some (if frames_size (ms @ [m]) \<le> 512
           then (notify_task (ti_handle t) TBOX_TASK_EVENT_MSG_BIT eSetBits
                   (upd_task k (\<lambda>t. t\<lparr>ti_msg_queue := q'\<rparr>) T), TBOX_E_OK)
           else (T, TBOX_E_NOMEMORY)) \<and>
     (frames_size (ms @ [m]) \<le> 512 \<longrightarrow> holds q' (ms @ [m]))"
proof -
  let ?q = "ti_msg_queue t" and ?len = "of_nat (length d) :: u16"
  have len: "unat ?len = length d"
    using d by (simp add: TBOX_MESSAGE_DATA_MAX_LEN_def unat_of_nat)
  have l32: "unat (ucast ?len :: u32) = length d"
    using unat_ucast16 [of ?len] len by simp
  have c: "cq_inv ?q" "unat (cq_size ?q) = 512" "length (cq_contents ?q) = frames_size ms"
    using q by (simp_all add: holds_def frames_length)
  have need: "unat (ucast ?len + sizeof_msg_header) = length d + 12"
    using d l32 by (simp add: sizeof_msg_header_def unat_word_ariths TBOX_MESSAGE_DATA_MAX_LEN_def)
  have full: "cqueue_surplus ?q < ucast ?len + sizeof_msg_header \<longleftrightarrow> \<not> frames_size (ms @ [m]) \<le> 512"
    using cqueue_sizes [OF c(1)] c holds_size [OF q]
    by (auto simp: word_less_nat_alt need m_def frames_size_def)
  have st: "\<not> (ti_state t \<noteq> TBOX_TASK_RUN_IDLE \<and> ti_state t \<noteq> TBOX_TASK_RUN_BUSY)"
    using r by (auto simp: running_def)
  show ?thesis
  proof (cases "frames_size (ms @ [m]) \<le> 512")
    case False
    then show ?thesis using t st full by (simp add: put_msg_def)
  next
    case True
    then have room: "frames_size ms + 12 + length d \<le> 512"
      by (simp add: m_def frames_size_def)
    let ?h = "new_header name handler ?len"
    obtain q1 n1 where q1: "cqueue_put ?q (msg_header_bytes ?h) sizeof_msg_header = Some (q1, n1)"
        "cq_inv q1" "cq_size q1 = cq_size ?q" "cq_contents q1 = cq_contents ?q @ msg_header_bytes ?h"
      using put_frame [OF c(1), of sizeof_msg_header "msg_header_bytes ?h"] c room
      by (auto simp: sizeof_msg_header_def)
    have "\<exists>q2. (case data_arg d of None \<Rightarrow> Some q1
          | Some d \<Rightarrow> do { (q, _) \<leftarrow> cqueue_put q1 d (ucast ?len); Some q }) = Some q2 \<and>
        cq_inv q2 \<and> cq_size q2 = cq_size ?q \<and> cq_contents q2 = cq_contents ?q @ frame m"
    proof (cases "d = []")
      case True
      then show ?thesis using q1 by (simp add: data_arg_def frame_def m_def)
    next
      case False
      then show ?thesis
        using put_frame [OF q1(2), of "ucast ?len" d] l32 q1(3,4) c room
        by (auto simp: data_arg_def frame_def m_def)
    qed
    then obtain q2 where q2: "(case data_arg d of None \<Rightarrow> Some q1
          | Some d \<Rightarrow> do { (q, _) \<leftarrow> cqueue_put q1 d (ucast ?len); Some q }) = Some q2"
        "cq_inv q2" "cq_size q2 = cq_size ?q" "cq_contents q2 = cq_contents ?q @ frame m" by blast
    have "framed m" using d len by (simp add: framed_def m_def)
    then have "holds q2 (ms @ [m])" using q q2 by (simp add: holds_def)
    moreover have "put_msg k name handler ?len (data_arg d) T =
        Some (notify_task (ti_handle t) TBOX_TASK_EVENT_MSG_BIT eSetBits
          (upd_task k (\<lambda>t. t\<lparr>ti_msg_queue := q2\<rparr>) T), TBOX_E_OK)"
      using t st full True h q1(1) q2(1) by (simp add: put_msg_def new_header_def)
    ultimately show ?thesis using True by auto
  qed
qed

section \<open>The message loop\<close>

lemma get_bytes:
  assumes q: "cq_inv q" and n: "cq_contents q = bs @ rest" "unat len = length bs" "length bs \<le> length dst"
  shows "\<exists>q' m. cqueue_get q dst len = Some (q', blit dst 0 bs, m) \<and> cq_inv q' \<and> cq_size q' = cq_size q \<and>
     cq_contents q' = rest"
  using cqueue_get_ok [OF q, of len dst] n by (auto simp: min_def)

definition taken :: "u32 \<Rightarrow> TBOX_MSG_HEADER \<Rightarrow> cqueue_t \<Rightarrow> TBOX_TASK_INFO \<Rightarrow> TBOX_TASK_INFO" where
  "taken tick h q t = t\<lparr>ti_msg_queue := q, ti_state := TBOX_TASK_RUN_BUSY, cur_block_tick := tick,
     cur_block_msg_name := msg_name h\<rparr>"

lemma taken_simps [simp]:
  "ti_msg_queue (taken tick h q t) = q" "ti_state (taken tick h q t) = TBOX_TASK_RUN_BUSY"
  "ti_mutex (taken tick h q t) = ti_mutex t" "ti_handle (taken tick h q t) = ti_handle t"
  "ti_module_id (taken tick h q t) = ti_module_id t" "ti_task_id (taken tick h q t) = ti_task_id t"
  "ti_stack_size (taken tick h q t) = ti_stack_size t" "ti_priority (taken tick h q t) = ti_priority t"
  "cur_block_msg_name (taken tick h q t) = msg_name h" "cur_block_tick (taken tick h q t) = tick"
  by (simp_all add: taken_def)

lemma process_take_message:
  assumes t: "take_task T k = Some t" and r: "running t" and q: "holds (ti_msg_queue t) (m # ms)"
    and buf: "length buf = TBOX_MESSAGE_DATA_MAX_LEN"
  shows "\<exists>q'. process_take tick k self buf T =
     Some (upd_task k (taken tick (fst m) q') T, PHandle (fst m), blit buf 0 (snd m)) \<and> holds q' ms"
proof -
  let ?q = "ti_msg_queue t"
  have c: "cq_inv ?q" "cq_contents ?q = msg_header_bytes (fst m) @ snd m @ concat (map frame ms)" "framed m"
    using q by (simp_all add: holds_def frame_def)
  obtain q1 n1 where q1: "cqueue_get ?q (replicate 12 0) sizeof_msg_header =
        Some (q1, blit (replicate 12 0) 0 (msg_header_bytes (fst m)), n1)"
      "cq_inv q1" "cq_size q1 = cq_size ?q" "cq_contents q1 = snd m @ concat (map frame ms)"
    using get_bytes [OF c(1,2), of sizeof_msg_header "replicate 12 0"] by (auto simp: sizeof_msg_header_def)
  have hb: "blit (replicate 12 0) 0 (msg_header_bytes (fst m)) = msg_header_bytes (fst m)"
    by (simp add: blit_def)
  have h: "msg_header_of (msg_header_bytes (fst m)) = fst m"
    using msg_header_roundtrip [of "fst m" "[]"] by simp
  have len: "unat (ucast (msg_len (fst m)) :: u32) = length (snd m)"
    using c(3) by (simp add: framed_def unat_ucast16)
  obtain q2 n2 where q2: "cqueue_get q1 buf (ucast (msg_len (fst m))) = Some (q2, blit buf 0 (snd m), n2)"
      "cq_inv q2" "cq_size q2 = cq_size ?q" "cq_contents q2 = concat (map frame ms)"
    using get_bytes [OF q1(2,4) len, of buf] c(3) buf q1(3) by (auto simp: framed_def)
  have nb: "\<not> cqueue_datalen q1 < ucast (msg_len (fst m))"
    using cqueue_sizes [OF q1(2)] q1(4) by (simp add: word_less_nat_alt len)
  have na: "\<not> cqueue_datalen ?q < sizeof_msg_header"
    using cqueue_sizes [OF c(1)] c(2) by (simp add: word_less_nat_alt sizeof_msg_header_def)
  have "process_take tick k self buf T =
      Some (upd_task k (taken tick (fst m) q2) T, PHandle (fst m), blit buf 0 (snd m))"
    using t r na q1(1) nb q2(1) by (auto simp: process_take_def running_def hb h Let_def taken_def [abs_def])
  moreover have "holds q2 ms" using q q2 by (simp add: holds_def)
  ultimately show ?thesis by blast
qed

lemma process_take_empty:
  assumes t: "take_task T k = Some t" and r: "running t" and q: "holds (ti_msg_queue t) []"
  shows "process_take tick k self buf T = Some (T, PWait, buf)"
proof -
  have "cqueue_datalen (ti_msg_queue t) < sizeof_msg_header"
    using cqueue_sizes [of "ti_msg_queue t"] q by (simp add: holds_def word_less_nat_alt sizeof_msg_header_def)
  then show ?thesis using t r by (auto simp: process_take_def running_def)
qed

definition idled :: "u32 \<Rightarrow> TBOX_TASK_INFO \<Rightarrow> TBOX_TASK_INFO" where
  "idled tick t = t\<lparr>ti_state := TBOX_TASK_RUN_IDLE, cur_block_tick := tick, cur_block_msg_name := 0\<rparr>"

lemma idled_simps [simp]:
  "ti_msg_queue (idled tick t) = ti_msg_queue t" "ti_state (idled tick t) = TBOX_TASK_RUN_IDLE"
  "ti_mutex (idled tick t) = ti_mutex t" "ti_handle (idled tick t) = ti_handle t"
  "ti_module_id (idled tick t) = ti_module_id t" "ti_task_id (idled tick t) = ti_task_id t"
  "ti_stack_size (idled tick t) = ti_stack_size t" "ti_priority (idled tick t) = ti_priority t"
  "cur_block_msg_name (idled tick t) = 0"
  by (simp_all add: idled_def)

lemma remove_block_ok:
  "mgr_mutex T \<Longrightarrow> \<exists>bs. tbox_task_remove_block str T k name = Some (T\<lparr>block_info := bs\<rparr>) \<and>
     length bs = length (block_info T)"
  by (cases "first_index (block_of str k name) 0 (block_info T)")
    (auto simp: tbox_task_remove_block_def take_mgr_def Let_def intro: exI [of _ "block_info T"])

lemma process_done_ok:
  assumes t: "take_task T k = Some t" and m: "mgr_mutex T"
  shows "\<exists>bs. process_done str tick k h T = Some ((upd_task k (idled tick) T)\<lparr>block_info := bs\<rparr>) \<and>
     length bs = length (block_info T)"
proof -
  have e: "upd_task k (\<lambda>t. t\<lparr>ti_state := TBOX_TASK_RUN_IDLE, cur_block_tick := tick, cur_block_msg_name := 0\<rparr>) T
     = upd_task k (idled tick) T"
    by (simp add: upd_task_def idled_def)
  show ?thesis
    using t remove_block_ok [of "upd_task k (idled tick) T" str "ti_task_id t" "msg_name h"] m
    by (auto simp: process_done_def e Let_def intro: exI [of _ "block_info T"])
qed

section \<open>Producers and the loop interleaved\<close>

text \<open>
  What happens at one task: a message is added, the loop takes the next one, the loop finishes
  with it. \<open>cur\<close> is the header the loop is busy with; the result lists the messages accepted
  and those handed to the loop.
\<close>

datatype task_act = Add u32 u32 "u8 list" | Take u32 | Done u32

type_synonym delivery = "u32 \<times> u32 \<times> u8 list"

fun task_run :: "(u32 \<Rightarrow> u8 list) \<Rightarrow> TBOX_ID \<Rightarrow> u32 \<Rightarrow> TBOX_MSG_HEADER option \<Rightarrow> u8 list \<Rightarrow> tasks \<Rightarrow> task_act list \<Rightarrow>
    (tasks \<times> delivery list \<times> delivery list) option" where
  "task_run str k self cur buf T [] = Some (T, [], [])"
| "task_run str k self cur buf T (Add name handler d # acts) = do {
     (T, ret) \<leftarrow> tbox_task_add_msg k name handler (of_nat (length d)) (data_arg d) T;
     (T, ins, outs) \<leftarrow> task_run str k self cur buf T acts;
     Some (T, if ret = TBOX_E_OK then (name, handler, d) # ins else ins, outs)
   }"
| "task_run str k self None buf T (Take tick # acts) = do {
     (T, next, buf) \<leftarrow> process_take tick k self buf T;
     case next of
       PHandle h \<Rightarrow> do {
         (T, ins, outs) \<leftarrow> task_run str k self (Some h) buf T acts;
         Some (T, ins, (msg_name h, msg_handler h, take (unat (msg_len h)) buf) # outs)
       }
     | _ \<Rightarrow> task_run str k self None buf T acts
   }"
| "task_run str k self (Some h) buf T (Take tick # acts) = task_run str k self (Some h) buf T acts"
| "task_run str k self (Some h) buf T (Done tick # acts) = do {
     T \<leftarrow> process_done str tick k h T;
     task_run str k self None buf T acts
   }"
| "task_run str k self None buf T (Done tick # acts) = task_run str k self None buf T acts"

fun act_ok :: "task_act \<Rightarrow> bool" where
  "act_ok (Add name handler d) \<longleftrightarrow> name \<noteq> 0 \<and> handler \<noteq> 0 \<and> length d \<le> TBOX_MESSAGE_DATA_MAX_LEN"
| "act_ok _ \<longleftrightarrow> True"

definition message :: "TBOX_MSG_HEADER \<times> u8 list \<Rightarrow> delivery" where
  "message m = (msg_name (fst m), msg_handler (fst m), snd m)"

definition at_work :: "tasks \<Rightarrow> TBOX_ID \<Rightarrow> (TBOX_MSG_HEADER \<times> u8 list) list \<Rightarrow> bool" where
  "at_work T k ms \<longleftrightarrow> mgr_mutex T \<and> unat k < TBOX_TASK_MAX_NUM \<and>
     (\<exists>t. take_task T k = Some t \<and> ti_handle t \<noteq> 0 \<and> running t \<and> holds (ti_msg_queue t) ms)"

lemma task_id_ok: "unat k < TBOX_TASK_MAX_NUM \<Longrightarrow> \<not> bad_task_id k TBOX_TASK_MAX_NUM"
proof -
  assume "unat k < TBOX_TASK_MAX_NUM"
  then have k: "unat k < 8"
    by (simp add: TBOX_TASK_MAX_NUM_def TBOX_TASK_SMALL_SIZE_NUM_def TBOX_TASK_MEDIUM_SIZE_NUM_def
        TBOX_TASK_LARGER_SIZE_NUM_def)
  then have "k \<in> {0, 1, 2, 3, 4, 5, 6, 7}" by (simp add: word_unat_eq_iff) linarith
  then show ?thesis
    by (auto simp: bad_task_id_def TBOX_TASK_MAX_NUM_def TBOX_TASK_SMALL_SIZE_NUM_def
        TBOX_TASK_MEDIUM_SIZE_NUM_def TBOX_TASK_LARGER_SIZE_NUM_def word_sless_alt)
qed

lemma add_msg_at_work:
  assumes w: "at_work T k ms" and n: "name \<noteq> 0" "handler \<noteq> 0" "length d \<le> TBOX_MESSAGE_DATA_MAX_LEN"
  defines "m \<equiv> (new_header name handler (of_nat (length d)), d)"
  shows "\<exists>T' ret. tbox_task_add_msg k name handler (of_nat (length d)) (data_arg d) T = Some (T', ret) \<and>
     (if frames_size (ms @ [m]) \<le> 512 then ret = TBOX_E_OK \<and> at_work T' k (ms @ [m])
      else ret = TBOX_E_NOMEMORY \<and> T' = T)"
proof -
  obtain t where t: "take_task T k = Some t" "ti_handle t \<noteq> 0" "running t" "holds (ti_msg_queue t) ms"
    and k: "unat k < TBOX_TASK_MAX_NUM" and g: "mgr_mutex T"
    using w by (auto simp: at_work_def)
  have a: "tbox_task_add_msg k name handler (of_nat (length d)) (data_arg d) T =
      put_msg k name handler (of_nat (length d)) (data_arg d) T"
    using take_taskD [OF t(1)] t(2) n task_id_ok [OF k] by (simp add: tbox_task_add_msg_def)
  obtain q' where q': "put_msg k name handler (of_nat (length d)) (data_arg d) T =
     Some (if frames_size (ms @ [m]) \<le> 512
           then (notify_task (ti_handle t) TBOX_TASK_EVENT_MSG_BIT eSetBits
                   (upd_task k (\<lambda>t. t\<lparr>ti_msg_queue := q'\<rparr>) T), TBOX_E_OK)
           else (T, TBOX_E_NOMEMORY))" "frames_size (ms @ [m]) \<le> 512 \<longrightarrow> holds q' (ms @ [m])"
    using put_msg_ok [OF t(1,2,3,4) n(3), of name handler] unfolding m_def by blast
  show ?thesis
  proof (cases "frames_size (ms @ [m]) \<le> 512")
    case True
    then show ?thesis
      using q' a t g k by (auto simp: at_work_def running_def)
  next
    case False
    then show ?thesis using q' a by simp
  qed
qed

lemma take_at_work:
  assumes w: "at_work T k (m # ms)" and buf: "length buf = TBOX_MESSAGE_DATA_MAX_LEN"
  shows "\<exists>T' buf'. process_take tick k self buf T = Some (T', PHandle (fst m), buf') \<and> at_work T' k ms \<and>
     length buf' = TBOX_MESSAGE_DATA_MAX_LEN \<and> take (unat (msg_len (fst m))) buf' = snd m"
proof -
  obtain t where t: "take_task T k = Some t" "ti_handle t \<noteq> 0" "running t" "holds (ti_msg_queue t) (m # ms)"
    and k: "unat k < TBOX_TASK_MAX_NUM" "mgr_mutex T"
    using w by (auto simp: at_work_def)
  obtain q' where q': "process_take tick k self buf T =
     Some (upd_task k (taken tick (fst m) q') T, PHandle (fst m), blit buf 0 (snd m))" "holds q' ms"
    using process_take_message [OF t(1,3,4) buf, of tick self] by auto
  have "framed m" using t(4) by (simp add: holds_def)
  then have "length (blit buf 0 (snd m)) = length buf" "take (unat (msg_len (fst m))) (blit buf 0 (snd m)) = snd m"
    using buf by (simp_all add: framed_def blit_def)
  moreover have "at_work (upd_task k (taken tick (fst m) q') T) k ms"
    using t k q'(2) by (auto simp: at_work_def running_def)
  ultimately show ?thesis using q'(1) buf by auto
qed

lemma wait_at_work:
  assumes "at_work T k []"
  shows "process_take tick k self buf T = Some (T, PWait, buf)"
  using assms by (auto simp: at_work_def intro: process_take_empty)

lemma done_at_work:
  assumes w: "at_work T k ms"
  shows "\<exists>T'. process_done str tick k h T = Some T' \<and> at_work T' k ms"
proof -
  obtain t where t: "take_task T k = Some t" "ti_handle t \<noteq> 0" "running t" "holds (ti_msg_queue t) ms"
    and k: "unat k < TBOX_TASK_MAX_NUM" "mgr_mutex T"
    using w by (auto simp: at_work_def)
  obtain bs where bs: "process_done str tick k h T = Some ((upd_task k (idled tick) T)\<lparr>block_info := bs\<rparr>)"
    using process_done_ok [OF t(1) k(2), of str tick h] by auto
  have "take_task ((upd_task k (idled tick) T)\<lparr>block_info := bs\<rparr>) k = take_task (upd_task k (idled tick) T) k"
    by (simp add: take_task_def task_at_def)
  then have "at_work ((upd_task k (idled tick) T)\<lparr>block_info := bs\<rparr>) k ms"
    using t k by (auto simp: at_work_def running_def)
  with bs show ?thesis by blast
qed

lemma task_run_fifo:
  assumes "at_work T k ms" and "length buf = TBOX_MESSAGE_DATA_MAX_LEN" and "list_all act_ok acts"
  shows "\<exists>T' ins outs ms'. task_run str k self cur buf T acts = Some (T', ins, outs) \<and> at_work T' k ms' \<and>
     map message ms @ ins = outs @ map message ms'"
  using assms
proof (induction str k self cur buf T acts arbitrary: ms rule: task_run.induct)
  case (1 str k self cur buf T)
  then show ?case by auto
next
  case (2 str k self cur buf T name handler d acts)
  let ?m = "(new_header name handler (of_nat (length d)), d)"
  obtain T' ret where a: "tbox_task_add_msg k name handler (of_nat (length d)) (data_arg d) T = Some (T', ret)"
      "if frames_size (ms @ [?m]) \<le> 512 then ret = TBOX_E_OK \<and> at_work T' k (ms @ [?m])
       else ret = TBOX_E_NOMEMORY \<and> T' = T"
    using add_msg_at_work [OF "2.prems"(1), of name handler d] "2.prems"(3) by auto
  have msg: "message ?m = (name, handler, d)" by (simp add: message_def)
  show ?case
  proof (cases "frames_size (ms @ [?m]) \<le> 512")
    case True
    then obtain T2 ins outs ms2 where "task_run str k self cur buf T' acts = Some (T2, ins, outs)"
        "at_work T2 k ms2" "map message (ms @ [?m]) @ ins = outs @ map message ms2"
      using "2.IH" [OF a(1) refl, of "ms @ [?m]"] a(2) "2.prems"(2,3) by auto
    then show ?thesis using a True by (auto simp: msg)
  next
    case False
    then obtain T2 ins outs ms2 where "task_run str k self cur buf T' acts = Some (T2, ins, outs)"
        "at_work T2 k ms2" "map message ms @ ins = outs @ map message ms2"
      using "2.IH" [OF a(1) refl, of ms] a(2) "2.prems" by auto
    then show ?thesis using a False by auto
  qed
next
  case (3 str k self buf T tick acts)
  show ?case
  proof (cases ms)
    case Nil
    then have w: "process_take tick k self buf T = Some (T, PWait, buf)"
      using "3.prems"(1) by (simp add: wait_at_work)
    then show ?thesis
      using "3.IH"(2) [OF w refl refl refl, of ms] "3.prems" by simp
  next
    case (Cons m ms1)
    then obtain T' buf' where a: "process_take tick k self buf T = Some (T', PHandle (fst m), buf')"
        "at_work T' k ms1" "length buf' = TBOX_MESSAGE_DATA_MAX_LEN" "take (unat (msg_len (fst m))) buf' = snd m"
      using take_at_work [of T k m ms1 buf tick self] "3.prems" by auto
    then obtain T2 ins outs ms2 where "task_run str k self (Some (fst m)) buf' T' acts = Some (T2, ins, outs)"
        "at_work T2 k ms2" "map message ms1 @ ins = outs @ map message ms2"
      using "3.IH"(3) [OF a(1) refl refl refl, of ms1] "3.prems"(3) by auto
    moreover have "message m = (msg_name (fst m), msg_handler (fst m), snd m)" by (simp add: message_def)
    ultimately show ?thesis using a Cons by auto
  qed
next
  case (4 str k self h buf T tick acts)
  then show ?case by simp
next
  case (5 str k self h buf T tick acts)
  obtain T' where "process_done str tick k h T = Some T'" "at_work T' k ms"
    using done_at_work [OF "5.prems"(1)] by blast
  then show ?case using "5.IH" [of T' ms] "5.prems" by auto
next
  case (6 str k self buf T tick acts)
  then show ?case by simp
qed

end
