(* ===== verification/TaskSup.thy ===== *)
theory TaskSup imports TaskRef begin

text \<open>
  The supervision of blocked tasks: the entries of the block table under the steps of the message
  loops and of the supervisor, and what a stop does to a task that is in a handler.
\<close>

section \<open>The block table\<close>

lemma first_index_Some:
  "first_index P i xs = Some j \<Longrightarrow> i \<le> j \<and> j - i < length xs \<and> P (xs ! (j - i))"
proof (induction xs arbitrary: i)
  case (Cons x xs)
  show ?case
  proof (cases "P x")
    case False
    then have "Suc i \<le> j \<and> j - Suc i < length xs \<and> P (xs ! (j - Suc i))"
      using Cons by simp
    then show ?thesis by (auto simp: nth_Cons Suc_diff_Suc split: nat.splits) (metis Suc_diff_le diff_Suc_Suc nat.inject)
  qed (use Cons.prems in simp)
qed simp

lemma first_index_None: "first_index P i xs = None \<Longrightarrow> x \<in> set xs \<Longrightarrow> \<not> P x"
  by (induction xs arbitrary: i) (auto split: if_splits)

lemma max_num [simp]: "TBOX_TASK_MAX_NUM = 8"
  by (simp add: TBOX_TASK_MAX_NUM_def TBOX_TASK_SMALL_SIZE_NUM_def TBOX_TASK_MEDIUM_SIZE_NUM_def
      TBOX_TASK_LARGER_SIZE_NUM_def)

lemma unat_id [simp]: "i < 8 \<Longrightarrow> unat (of_nat i :: TBOX_ID) = i"
  by (simp add: unat_of_nat)

lemma of_nat_id_eq: "i < 8 \<Longrightarrow> j < 8 \<Longrightarrow> (of_nat i :: TBOX_ID) = of_nat j \<longleftrightarrow> i = j"
  by (metis unat_id)

text \<open>
  \<open>cur i\<close> is the header of the message task \<open>i\<close> is busy with. An entry belongs to a task in a
  handler whose block has been noted (its name is cleared), counts one, and there is at most
  one for a task.
\<close>

definition name_of :: "tasks \<Rightarrow> nat \<Rightarrow> u32" where
  "name_of T i = cur_block_msg_name (tbox_task_infos T ! i)"

definition entry_ok :: "(u32 \<Rightarrow> u8 list) \<Rightarrow> (nat \<Rightarrow> u32) \<Rightarrow> (nat \<Rightarrow> TBOX_MSG_HEADER option) \<Rightarrow> TBOX_BLOCK_INFO \<Rightarrow> bool" where
  "entry_ok str nm cur b \<longleftrightarrow> con_block_num b = 1 \<and>
     (\<exists>i<8. \<exists>h. bi_task_id b = of_nat i \<and> nm i = 0 \<and> cur i = Some h \<and> msg_name h \<noteq> 0 \<and>
        str (msg_name h) = str (bi_msg_name b))"

definition one_each :: "TBOX_BLOCK_INFO list \<Rightarrow> bool" where
  "one_each bs \<longleftrightarrow> (\<forall>j<length bs. \<forall>j'<length bs. is_block (bs ! j) \<and> is_block (bs ! j') \<and>
     bi_task_id (bs ! j) = bi_task_id (bs ! j') \<longrightarrow> j = j')"

definition sup_inv :: "(u32 \<Rightarrow> u8 list) \<Rightarrow> tasks \<Rightarrow> (nat \<Rightarrow> TBOX_MSG_HEADER option) \<Rightarrow> bool" where
  "sup_inv str T cur \<longleftrightarrow> mgr_mutex T \<and> length (block_info T) = 5 \<and> length (tbox_task_infos T) = 8 \<and>
     (\<forall>i<8. ti_task_id (tbox_task_infos T ! i) = of_nat i) \<and>
     (\<forall>i<8. name_of T i \<noteq> 0 \<longrightarrow> (\<exists>h. cur i = Some h \<and> msg_name h = name_of T i)) \<and>
     (\<forall>b\<in>set (block_info T). is_block b \<longrightarrow> entry_ok str (name_of T) cur b) \<and> one_each (block_info T)"

lemma sup_invD:
  assumes "sup_inv str T cur"
  shows "mgr_mutex T" "length (block_info T) = 5" "length (tbox_task_infos T) = 8"
    "i < 8 \<Longrightarrow> ti_task_id (tbox_task_infos T ! i) = of_nat i"
    "i < 8 \<Longrightarrow> name_of T i \<noteq> 0 \<Longrightarrow> \<exists>h. cur i = Some h \<and> msg_name h = name_of T i"
    "b \<in> set (block_info T) \<Longrightarrow> is_block b \<Longrightarrow> entry_ok str (name_of T) cur b"
    "one_each (block_info T)"
  using assms unfolding sup_inv_def by blast+

lemma task_at_nth: "unat k < length (tbox_task_infos T) \<Longrightarrow> task_at T k = Some (tbox_task_infos T ! unat k)"
  by (simp add: task_at_def)

lemma infos_upd:
  "unat k < length (tbox_task_infos T) \<Longrightarrow> tbox_task_infos (upd_task k f T) ! i =
     (if i = unat k then f (tbox_task_infos T ! i) else tbox_task_infos T ! i)"
  by (auto simp: upd_task_def)

lemma entry_of:
  assumes "entry_ok str nm cur b" and "bi_task_id b = of_nat i" and "i < 8"
  shows "nm i = 0 \<and> (\<exists>h. cur i = Some h \<and> msg_name h \<noteq> 0 \<and> str (msg_name h) = str (bi_msg_name b))"
  using assms by (auto simp: entry_ok_def of_nat_id_eq)

lemma entry_cong:
  assumes "entry_ok str nm cur b" and "\<And>i. i < 8 \<Longrightarrow> bi_task_id b = of_nat i \<Longrightarrow> nm i = 0 \<Longrightarrow> nm' i = 0 \<and> cur' i = cur i"
  shows "entry_ok str nm' cur' b"
  using assms unfolding entry_ok_def by metis

lemma nth_update_if: "i < length bs \<Longrightarrow> bs[j := e] ! i = (if i = j then e else bs ! i)"
  by (simp add: nth_list_update)

lemma one_each_add:
  assumes "one_each bs" and "\<forall>b\<in>set bs. is_block b \<longrightarrow> bi_task_id b \<noteq> bi_task_id e"
  shows "one_each (bs[j := e])"
  unfolding one_each_def
proof (intro allI impI)
  fix i i'
  assume i: "i < length (bs[j := e])" "i' < length (bs[j := e])"
    and e: "is_block (bs[j := e] ! i) \<and> is_block (bs[j := e] ! i') \<and>
      bi_task_id (bs[j := e] ! i) = bi_task_id (bs[j := e] ! i')"
  have "bs ! i \<in> set bs" "bs ! i' \<in> set bs" using i by simp_all
  then show "i = i'"
    using assms i e unfolding one_each_def
    by (cases "i = j"; cases "i' = j") (auto simp: nth_update_if)
qed

lemma one_each_clear:
  assumes "one_each bs" and "\<not> is_block e"
  shows "one_each (bs[j := e])"
  unfolding one_each_def
proof (intro allI impI)
  fix i i'
  assume "i < length (bs[j := e])" "i' < length (bs[j := e])"
    and "is_block (bs[j := e] ! i) \<and> is_block (bs[j := e] ! i') \<and>
      bi_task_id (bs[j := e] ! i) = bi_task_id (bs[j := e] ! i')"
  then show "i = i'"
    using assms unfolding one_each_def
    by (cases "i = j"; cases "i' = j") (auto simp: nth_update_if)
qed

text \<open>Changes that leave the numbers and the table alone and at most clear names.\<close>

lemma sup_inv_keep:
  assumes "sup_inv str T cur" and "mgr_mutex T' = mgr_mutex T" and "block_info T' = block_info T"
    and "length (tbox_task_infos T') = length (tbox_task_infos T)"
    and "\<And>i. i < 8 \<Longrightarrow> ti_task_id (tbox_task_infos T' ! i) = ti_task_id (tbox_task_infos T ! i)"
    and "\<And>i. i < 8 \<Longrightarrow> name_of T' i = name_of T i \<or> name_of T' i = 0"
  shows "sup_inv str T' cur"
proof -
  note v = sup_invD [OF assms(1)]
  have "entry_ok str (name_of T') cur b" if "b \<in> set (block_info T)" "is_block b" for b
    by (rule entry_cong [OF v(6) [OF that]]) (metis assms(6))
  then show ?thesis using assms v(4,5,7) unfolding sup_inv_def by (metis v(1,2,3))
qed

text \<open>The check of a task adds at most one entry, of one count.\<close>

lemma check_task_inv:
  assumes inv: "sup_inv str T cur" and i: "i < 8"
  shows "\<exists>T'. check_block_task str tick i T = Some T' \<and> sup_inv str T' cur \<and>
     abnormal_reports T' = abnormal_reports T"
proof -
  note v = sup_invD [OF inv]
  let ?k = "of_nat i :: TBOX_ID" and ?t = "tbox_task_infos T ! i"
  have at: "task_at T ?k = Some ?t" using i v(3) by (simp add: task_at_nth)
  show ?thesis
  proof (cases "ti_mutex ?t \<and> ti_handle ?t \<noteq> 0 \<and> ti_state ?t = TBOX_TASK_RUN_BUSY \<and>
      cur_block_msg_name ?t \<noteq> 0 \<and> tick - cur_block_tick ?t > TBOX_MESSAGE_MAX_HANDLE_TIME")
    case False
    then show ?thesis using at inv by (auto simp: check_block_task_def)
  next
    case True
    let ?f = "\<lambda>t. t\<lparr>cur_block_msg_name := 0, cur_block_tick := tick\<rparr>"
    let ?T = "upd_task ?k ?f T" and ?name = "cur_block_msg_name ?t"
    have c: "check_block_task str tick i T = tbox_task_add_block str ?T ?k ?name"
      using True at by (simp add: check_block_task_def)
    have n0: "name_of T i = ?name" "?name \<noteq> 0" using True by (simp_all add: name_of_def)
    obtain h where h: "cur i = Some h" "msg_name h = ?name" using v(5) [OF i] n0 by auto
    have none: "bi_task_id b \<noteq> ?k" if "b \<in> set (block_info T)" "is_block b" for b
      using entry_of [OF v(6) [OF that] _ i] n0 by auto
    then have nomatch: "first_index (block_of str ?k ?name) 0 (block_info T) = None"
      using first_index_Some [of "block_of str ?k ?name" 0 "block_info T"]
      by (cases "first_index (block_of str ?k ?name) 0 (block_info T)") (auto simp: block_of_def dest: nth_mem)
    have nm: "name_of ?T i' = (if i' = i then 0 else name_of T i')" for i'
      using i v(3) by (simp add: infos_upd name_of_def)
    have ids: "ti_task_id (tbox_task_infos ?T ! i') = ti_task_id (tbox_task_infos T ! i')" for i'
      using i v(3) by (simp add: infos_upd)
    have ent: "entry_ok str (name_of ?T) cur b" if "b \<in> set (block_info T)" "is_block b" for b
      by (rule entry_cong [OF v(6) [OF that]]) (simp add: nm)
    have base: "mgr_mutex ?T" "length (tbox_task_infos ?T) = 8"
        "\<forall>i'<8. ti_task_id (tbox_task_infos ?T ! i') = of_nat i'"
        "\<forall>i'<8. name_of ?T i' \<noteq> 0 \<longrightarrow> (\<exists>h. cur i' = Some h \<and> msg_name h = name_of ?T i')"
      using v ids nm by auto
    show ?thesis
    proof (cases "first_index (\<lambda>b. \<not> is_block b) 0 (block_info T)")
      case None
      have "sup_inv str ?T cur" using base ent v(2,7) by (simp add: sup_inv_def)
      then show ?thesis using c nomatch None v(1) by (simp add: tbox_task_add_block_def take_mgr_def)
    next
      case (Some j)
      let ?b = "\<lparr>bi_msg_name = ?name, con_block_num = 1, bi_task_id = ?k, is_block = True\<rparr>"
      let ?T' = "?T\<lparr>block_info := (block_info T)[j := ?b]\<rparr>"
      have e: "check_block_task str tick i T = Some ?T'"
        using c nomatch Some v(1) by (simp add: tbox_task_add_block_def take_mgr_def)
      have nm': "name_of ?T' = name_of ?T" by (simp add: name_of_def fun_eq_iff)
      have "entry_ok str (name_of ?T) cur ?b"
        using i h n0 nm by (auto simp: entry_ok_def)
      then have "\<forall>b\<in>set (block_info ?T'). is_block b \<longrightarrow> entry_ok str (name_of ?T') cur b"
        using ent set_update_subset_insert [of "block_info T" j ?b] by (auto simp: nm')
      moreover have "one_each (block_info ?T')"
        using one_each_add [OF v(7), of ?b j] none by simp
      ultimately have "sup_inv str ?T' cur"
        using base v(2) by (simp add: sup_inv_def name_of_def)
      then show ?thesis using e by simp
    qed
  qed
qed

lemma check_entry_quiet:
  assumes inv: "sup_inv str T cur" and j: "j < 5"
  shows "check_block_entry j T = Some T"
proof -
  note v = sup_invD [OF inv]
  have "con_block_num (block_info T ! j) = 1" if "is_block (block_info T ! j)"
    using v(6) [OF nth_mem that] j v(2) by (simp add: entry_ok_def)
  then show ?thesis
    using v(1,2) j
    by (cases "is_block (block_info T ! j)")
      (simp_all add: check_block_entry_def take_mgr_def TBOX_TASK_ABNORMA_BLOCK_NUM_def Let_def word_le_nat_alt)
qed

lemma check_block_quiet:
  assumes inv: "sup_inv str T cur"
  shows "\<exists>T'. tbox_task_check_block str tick T = Some T' \<and> sup_inv str T' cur \<and>
     abnormal_reports T' = abnormal_reports T"
proof -
  have "\<exists>T'. for_up 0 8 (check_block_task str tick) T = Some T' \<and>
      (sup_inv str T' cur \<and> abnormal_reports T' = abnormal_reports T)"
    using for_up_inv [of "\<lambda>j T'. sup_inv str T' cur \<and> abnormal_reports T' = abnormal_reports T" 0 T 8
        "check_block_task str tick"] inv check_task_inv by fastforce
  then obtain T' where T': "for_up 0 8 (check_block_task str tick) T = Some T'" "sup_inv str T' cur"
      "abnormal_reports T' = abnormal_reports T" by blast
  have "\<exists>T''. for_up 0 5 check_block_entry T' = Some T'' \<and> T'' = T'"
    using for_up_inv [of "\<lambda>j T''. T'' = T'" 0 T' 5 check_block_entry] check_entry_quiet [OF T'(2)] by auto
  then show ?thesis using T' by (simp add: tbox_task_check_block_def TBOX_TASK_BLOCK_COUNT_def)
qed

section \<open>The steps of the task layer\<close>

inductive sup_step :: "(u32 \<Rightarrow> u8 list) \<Rightarrow> tasks \<times> (nat \<Rightarrow> TBOX_MSG_HEADER option) \<Rightarrow>
    tasks \<times> (nat \<Rightarrow> TBOX_MSG_HEADER option) \<Rightarrow> bool" for str where
  step_add: "tbox_task_add_msg k name handler len data T = Some (T', ret) \<Longrightarrow> sup_step str (T, cur) (T', cur)"
| step_pool: "tbox_taskpool_add_msg sz name handler len data T = Some (T', ret) \<Longrightarrow> sup_step str (T, cur) (T', cur)"
| step_take: "i < 8 \<Longrightarrow> cur i = None \<Longrightarrow> process_take tick (of_nat i) self buf T = Some (T', PHandle h, buf') \<Longrightarrow>
    sup_step str (T, cur) (T', cur(i := Some h))"
| step_wait: "i < 8 \<Longrightarrow> cur i = None \<Longrightarrow> process_take tick (of_nat i) self buf T = Some (T', next, buf') \<Longrightarrow>
    next = PWait \<or> next = PQuit \<Longrightarrow> sup_step str (T, cur) (T', cur)"
| step_done: "i < 8 \<Longrightarrow> cur i = Some h \<Longrightarrow> process_done str tick (of_nat i) h T = Some T' \<Longrightarrow>
    sup_step str (T, cur) (T', cur(i := None))"
| step_check: "tbox_task_check_block str tick T = Some T' \<Longrightarrow> sup_step str (T, cur) (T', cur)"
| step_attach: "tbox_task_attach module_id priority sz T = (T', task_id) \<Longrightarrow> sup_step str (T, cur) (T', cur)"
| step_detach: "tbox_task_detach k T = Some (T', ret) \<Longrightarrow> sup_step str (T, cur) (T', cur)"
| step_stop: "tbox_task_stop T = Some (T', ret) \<Longrightarrow> sup_step str (T, cur) (T', cur)"
| step_start: "tbox_task_start T = Some (T', ret) \<Longrightarrow> sup_step str (T, cur) (T', cur)"

inductive_cases sup_stepE: "sup_step str C C'"

lemma put_msg_cases:
  assumes "put_msg k name handler len data T = Some (T', ret)"
  shows "T' = T \<or> (\<exists>h q. unat k < length (tbox_task_infos T) \<and>
     T' = notify_task h TBOX_TASK_EVENT_MSG_BIT eSetBits (upd_task k (\<lambda>t. t\<lparr>ti_msg_queue := q\<rparr>) T))"
  using assms
  by (auto simp: put_msg_def take_task_def task_at_def rd_def Let_def split: Option.bind_splits if_splits;
      blast)

lemma task_add_cases:
  "tbox_task_add_msg k name handler len data T = Some (T', ret) \<Longrightarrow>
     T' = T \<or> put_msg k name handler len data T = Some (T', ret)"
  by (auto simp: tbox_task_add_msg_def split: Option.bind_splits if_splits)

lemma pool_add_cases:
  "tbox_taskpool_add_msg sz name handler len data T = Some (T', ret) \<Longrightarrow>
     T' = T \<or> (\<exists>k. put_msg k name handler len data T = Some (T', ret))"
  by (auto simp: tbox_taskpool_add_msg_def split: Option.bind_splits if_splits)

text \<open>Steps that only touch one task, neither its number nor, but for clearing it, its name.\<close>

definition mild :: "(TBOX_TASK_INFO \<Rightarrow> TBOX_TASK_INFO) \<Rightarrow> bool" where
  "mild f \<longleftrightarrow> (\<forall>t. ti_task_id (f t) = ti_task_id t \<and>
     (cur_block_msg_name (f t) = cur_block_msg_name t \<or> cur_block_msg_name (f t) = 0))"

lemma sup_inv_upd:
  assumes inv: "sup_inv str T cur" and f: "mild f" and k: "unat k < length (tbox_task_infos T)"
  shows "sup_inv str (upd_task k f T) cur"
  by (rule sup_inv_keep [OF inv]) (use k f in \<open>auto simp: infos_upd name_of_def mild_def\<close>)

lemma sup_inv_kernel [simp]:
  "sup_inv str (notify_task h v a T) cur = sup_inv str T cur"
  "sup_inv str (vTaskDelete h T) cur = sup_inv str T cur"
  "sup_inv str (T\<lparr>task_state := ts\<rparr>) cur = sup_inv str T cur"
  by (simp_all add: sup_inv_def name_of_def [abs_def] notify_task_def vTaskDelete_def)

lemma put_msg_inv:
  assumes "put_msg k name handler len data T = Some (T', ret)" and inv: "sup_inv str T cur"
  shows "sup_inv str T' cur \<and> abnormal_reports T' = abnormal_reports T"
  using put_msg_cases [OF assms(1)] inv by (auto intro!: sup_inv_upd simp: mild_def)

lemma take_handle_cases:
  assumes "process_take tick k self buf T = Some (T', PHandle h, buf')"
  shows "unat k < length (tbox_task_infos T) \<and> (\<exists>q. T' = upd_task k (taken tick h q) T)"
  using assms
  by (auto simp: process_take_def take_task_def task_at_def rd_def Let_def taken_def [abs_def]
      split: Option.bind_splits if_splits prod.splits)

lemma mild_updates [intro, simp]:
  "mild (\<lambda>t. flush_queue (t\<lparr>ti_msg_queue := q\<rparr>))" "mild (\<lambda>t. t\<lparr>ti_state := st, ti_handle := h\<rparr>)"
  "mild (\<lambda>t. t\<lparr>ti_msg_queue := q\<rparr>)" "mild (\<lambda>t. t\<lparr>ti_handle := h\<rparr>)" "mild (\<lambda>t. t\<lparr>ti_state := st\<rparr>)"
  "mild (\<lambda>t. flush_queue (t\<lparr>ti_module_id := m\<rparr>))" "mild (\<lambda>t. flush_queue (t\<lparr>ti_state := st\<rparr>))"
  "mild (\<lambda>t. t\<lparr>ti_module_id := m, ti_priority := p, cur_block_msg_name := 0, cur_block_tick := 0\<rparr>)"
  "mild (\<lambda>t. flush_queue (t\<lparr>ti_state := st, cur_block_msg_name := 0, cur_block_tick := 0\<rparr>))"
  by (simp_all add: mild_def flush_queue_def)

lemma take_other_cases:
  assumes "process_take tick k self buf T = Some (T', next, buf')" and "next = PWait \<or> next = PQuit"
  shows "T' = T \<or> (unat k < length (tbox_task_infos T) \<and>
     (\<exists>f. mild f \<and> (T' = upd_task k f T \<or> T' = vTaskDelete self (upd_task k f T))))"
  using assms
  by (auto simp: process_take_def take_task_def task_at_def rd_def Let_def abandon_def
      split: Option.bind_splits if_splits prod.splits; blast)

lemma take_other_inv:
  assumes "process_take tick k self buf T = Some (T', next, buf')" and "next = PWait \<or> next = PQuit"
    and inv: "sup_inv str T cur"
  shows "sup_inv str T' cur \<and> abnormal_reports T' = abnormal_reports T"
  using take_other_cases [OF assms(1,2)] inv by (auto simp: vTaskDelete_def intro!: sup_inv_upd)

text \<open>The loop takes a message: the task has no entry, so none is invalidated.\<close>

lemma take_handle_inv:
  assumes p: "process_take tick (of_nat i) self buf T = Some (T', PHandle h, buf')"
    and i: "i < 8" and c: "cur i = None" and inv: "sup_inv str T cur"
  shows "sup_inv str T' (cur(i := Some h)) \<and> abnormal_reports T' = abnormal_reports T"
proof -
  note v = sup_invD [OF inv]
  obtain q where T': "T' = upd_task (of_nat i) (taken tick h q) T"
    using take_handle_cases [OF p] by blast
  have at: "tbox_task_infos T' ! i' = (if i' = i then taken tick h q (tbox_task_infos T ! i') else tbox_task_infos T ! i')" for i'
    unfolding T' using i v(3) by (simp add: infos_upd)
  have nm: "name_of T' i' = (if i' = i then msg_name h else name_of T i')" for i'
    by (simp add: name_of_def at)
  have "entry_ok str (name_of T') (cur(i := Some h)) b" if b: "b \<in> set (block_info T)" "is_block b" for b
  proof (rule entry_cong [OF v(6) [OF b]])
    fix i' :: nat assume "i' < 8" "bi_task_id b = of_nat i'"
    then have "i' \<noteq> i" using entry_of [OF v(6) [OF b], of i'] c by auto
    then show "name_of T i' = 0 \<Longrightarrow> name_of T' i' = 0 \<and> (cur(i := Some h)) i' = cur i'"
      by (simp add: nm)
  qed
  moreover have "\<forall>i'<8. name_of T' i' \<noteq> 0 \<longrightarrow> (\<exists>h'. (cur(i := Some h)) i' = Some h' \<and> msg_name h' = name_of T' i')"
    using v(5) by (simp add: nm)
  ultimately show ?thesis
    using v at unfolding sup_inv_def by (simp add: T')
qed

text \<open>The loop finishes: the entry of the task, if there is one, is the one that is removed.\<close>

lemma done_inv:
  assumes p: "process_done str tick (of_nat i) h T = Some T'"
    and i: "i < 8" and c: "cur i = Some h" and inv: "sup_inv str T cur"
  shows "sup_inv str T' (cur(i := None)) \<and> abnormal_reports T' = abnormal_reports T"
proof -
  note v = sup_invD [OF inv]
  let ?T = "upd_task (of_nat i) (idled tick) T" and ?bs = "block_info T"
  define j where "j = (if msg_name h \<noteq> 0 then first_index (block_of str (of_nat i) (msg_name h)) 0 ?bs else None)"
  define bs' where "bs' = (case j of None \<Rightarrow> ?bs | Some n \<Rightarrow> ?bs[n := empty_block])"
  have id: "ti_task_id (tbox_task_infos T ! i) = of_nat i" "TBOX_ID_INVALID <s of_nat i"
    using v(4) [OF i] i by (simp_all add: TBOX_ID_INVALID_def word_sless_alt) (auto simp: less_Suc_eq numeral_eq_Suc)
  have "T' = ?T\<lparr>block_info := bs'\<rparr>"
    using p id v(1,3) i
    by (cases j) (auto simp: process_done_def take_task_iff task_at_nth idled_def [abs_def] Let_def bs'_def j_def
        tbox_task_remove_block_def take_mgr_def bind_eq_Some_conv split: if_splits)
  then have T': "block_info T' = bs'" "mgr_mutex T'" "abnormal_reports T' = abnormal_reports T"
      "tbox_task_infos T' = tbox_task_infos ?T"
    using v(1) by simp_all
  have at: "tbox_task_infos T' ! i' = (if i' = i then idled tick (tbox_task_infos T ! i') else tbox_task_infos T ! i')" for i'
    unfolding T' using i v(3) by (simp add: infos_upd)
  have nm: "name_of T' i' = (if i' = i then 0 else name_of T i')" for i'
    by (simp add: name_of_def at)
  have mem: "b \<in> set ?bs \<and> bi_task_id b \<noteq> of_nat i" if b: "b \<in> set bs'" "is_block b" for b
  proof -
    obtain n where n: "n < 5" "bs' ! n = b"
      using b(1) v(2) by (auto simp: bs'_def in_set_conv_nth split: option.splits)
    have same: "?bs ! n = b \<and> j \<noteq> Some n"
      using n b(2) v(2) by (auto simp: bs'_def nth_update_if empty_block_def split: option.splits if_splits)
    then have inb: "b \<in> set ?bs" using n v(2) by (metis nth_mem)
    moreover have "bi_task_id b \<noteq> of_nat i"
    proof
      assume e: "bi_task_id b = of_nat i"
      have m: "msg_name h \<noteq> 0" "str (msg_name h) = str (bi_msg_name b)"
        using entry_of [OF v(6) [OF inb b(2)] e i] c by auto
      then have bl: "block_of str (of_nat i) (msg_name h) b" using b(2) e by (simp add: block_of_def)
      then obtain n' where n': "first_index (block_of str (of_nat i) (msg_name h)) 0 ?bs = Some n'"
        using first_index_None [OF _ inb] by (cases "first_index (block_of str (of_nat i) (msg_name h)) 0 ?bs") auto
      then have "n' < 5" "is_block (?bs ! n')" "bi_task_id (?bs ! n') = of_nat i"
        using first_index_Some [OF n'] v(2) by (auto simp: block_of_def)
      then have "n' = n" using v(7) n same b(2) e v(2) unfolding one_each_def by metis
      then show False using same n' m(1) by (simp add: j_def)
    qed
    ultimately show ?thesis by simp
  qed
  have "entry_ok str (name_of T') (cur(i := None)) b" if b: "b \<in> set bs'" "is_block b" for b
    by (rule entry_cong [OF v(6) [OF conjunct1 [OF mem [OF b]] b(2)]])
      (use mem [OF b] in \<open>auto simp: nm\<close>)
  moreover have "\<forall>i'<8. name_of T' i' \<noteq> 0 \<longrightarrow> (\<exists>h'. (cur(i := None)) i' = Some h' \<and> msg_name h' = name_of T' i')"
    using v(5) by (simp add: nm)
  moreover have "one_each bs'"
    using v(7) by (auto simp: bs'_def empty_block_def split: option.splits intro: one_each_clear)
  moreover have "length bs' = 5" using v(2) by (simp add: bs'_def split: option.splits)
  ultimately show ?thesis
    using v(3,4) at T' unfolding sup_inv_def by simp
qed

section \<open>Reachable states\<close>

lemma for_up_keep:
  assumes "for_up i n body s = Some s'" and "P s"
    and "\<And>j t t'. i \<le> j \<Longrightarrow> j < i + n \<Longrightarrow> P t \<Longrightarrow> body j t = Some t' \<Longrightarrow> P t'"
  shows "P s'"
  using assms
proof (induction n arbitrary: i s)
  case (Suc n)
  obtain s1 where s1: "body i s = Some s1" "for_up (Suc i) n body s1 = Some s'"
    using Suc.prems(1) by (auto simp: bind_eq_Some_conv)
  have "P s1" using Suc.prems(3) [of i s s1] Suc.prems(2) s1(1) by simp
  then show ?case using Suc.IH [OF s1(2)] Suc.prems(3) by (metis Suc_leD add_Suc_shift)
qed simp

definition quiet :: "(u32 \<Rightarrow> u8 list) \<Rightarrow> (nat \<Rightarrow> TBOX_MSG_HEADER option) \<Rightarrow>
    (TBOX_MODULE_ABNORMAL_TYPE \<times> TBOX_CORE_TASK_ABNORMAL_INFO) list \<Rightarrow> tasks \<Rightarrow> bool" where
  "quiet str cur R T \<longleftrightarrow> sup_inv str T cur \<and> abnormal_reports T = R"

lemma quiet_upd: "quiet str cur R T \<Longrightarrow> mild f \<Longrightarrow> i < 8 \<Longrightarrow> quiet str cur R (upd_task (of_nat i) f T)"
  using sup_inv_upd [of str T cur f "of_nat i"] sup_invD(3) [of str T cur] by (simp add: quiet_def)

lemma quiet_kernel [simp]:
  "quiet str cur R (notify_task h v a T) = quiet str cur R T"
  "quiet str cur R (T\<lparr>task_state := ts\<rparr>) = quiet str cur R T"
  by (simp_all add: quiet_def)

lemma stop_task_quiet:
  assumes "tbox_task_stop_task T (of_nat i) = Some (T', ret)" and "quiet str cur R T" and "i < 8"
  shows "quiet str cur R T'"
  using assms quiet_upd [OF assms(2) _ assms(3), of "\<lambda>t. t\<lparr>ti_handle := 0\<rparr>"]
  by (auto simp: tbox_task_stop_task_def Let_def split: Option.bind_splits if_splits)

lemma start_task_quiet:
  assumes "tbox_task_start_task T (of_nat i) = Some (T', ret)" and "quiet str cur R T" and "i < 8"
  shows "quiet str cur R T'"
  using assms quiet_upd [OF assms(2) _ assms(3), of "\<lambda>t. t\<lparr>ti_handle := 0\<rparr>"]
  by (auto simp: tbox_task_start_task_def Let_def split: Option.bind_splits if_splits)

lemma stop_one_quiet:
  assumes "stop_one i T = Some T'" and q: "quiet str cur R T" and i: "i < 8"
  shows "quiet str cur R T'"
proof -
  let ?S = "upd_task (of_nat i) (\<lambda>t. flush_queue (t\<lparr>ti_state := TBOX_TASK_STOP\<rparr>)) T"
  from assms(1) consider "T' = T"
    | T1 ret where "tbox_task_stop_task ?S (of_nat i) = Some (T1, ret)"
        "T' = T1 \<or> T' = upd_task (of_nat i) (\<lambda>t. t\<lparr>ti_state := TBOX_TASK_ISFORBIDDEN\<rparr>) T1"
    by (auto simp: stop_one_def split: Option.bind_splits if_splits)
  then show ?thesis
  proof cases
    case 2
    have "quiet str cur R T1"
      by (rule stop_task_quiet [OF 2(1) quiet_upd [OF q _ i] i]) simp
    then show ?thesis using 2(2) quiet_upd [OF _ _ i] by auto
  qed (use q in simp)
qed

lemma start_one_quiet:
  assumes "start_one i T = Some T'" and q: "quiet str cur R T" and i: "i < 8"
  shows "quiet str cur R T'"
proof -
  let ?S = "upd_task (of_nat i) (\<lambda>t. flush_queue (t\<lparr>ti_state := TBOX_TASK_RUN_IDLE,
    cur_block_msg_name := 0, cur_block_tick := 0\<rparr>)) T"
  from assms(1) consider "T' = T"
    | T1 ret where "tbox_task_start_task ?S (of_nat i) = Some (T1, ret)"
        "T' = T1 \<or> T' = upd_task (of_nat i) (\<lambda>t. t\<lparr>ti_state := TBOX_TASK_ABNORMAL\<rparr>) T1"
    by (auto simp: start_one_def split: Option.bind_splits if_splits)
  then show ?thesis
  proof cases
    case 2
    have "quiet str cur R T1"
      by (rule start_task_quiet [OF 2(1) quiet_upd [OF q _ i] i]) simp
    then show ?thesis using 2(2) quiet_upd [OF _ _ i] by auto
  qed (use q in simp)
qed

lemma start_runloop_quiet:
  "start_runloop i T = Some T' \<Longrightarrow> quiet str cur R T \<Longrightarrow> quiet str cur R T'"
  by (auto simp: start_runloop_def take_mgr_def split: Option.bind_splits if_splits)

lemma stop_quiet:
  assumes "tbox_task_stop T = Some (T', ret)" and q: "quiet str cur R T"
  shows "quiet str cur R T'"
proof -
  have "for_up 0 8 stop_one T = Some T'"
    using assms(1) by (auto simp: tbox_task_stop_def bind_eq_Some_conv)
  from for_up_keep [of _ _ _ _ _ "quiet str cur R", OF this q] show ?thesis
    using stop_one_quiet by auto
qed

lemma cleared_quiet:
  assumes "quiet str cur R T"
  shows "quiet str cur R (T\<lparr>block_info := replicate TBOX_TASK_BLOCK_COUNT empty_block\<rparr>)"
proof -
  have "one_each (replicate 5 empty_block)" by (simp add: one_each_def empty_block_def)
  then show ?thesis
    using assms unfolding quiet_def sup_inv_def
    by (simp add: TBOX_TASK_BLOCK_COUNT_def empty_block_def name_of_def)
qed

lemma start_quiet:
  assumes "tbox_task_start T = Some (T', ret)" and q: "quiet str cur R T"
  shows "quiet str cur R T'"
proof -
  let ?T = "T\<lparr>block_info := replicate TBOX_TASK_BLOCK_COUNT empty_block\<rparr>"
  obtain T1 where T1: "for_up 0 8 start_one ?T = Some T1"
      "for_up 0 TBOX_RUNLOOP_TASK_NUM start_runloop T1 = Some T'"
    using assms(1) by (auto simp: tbox_task_start_def take_mgr_def bind_eq_Some_conv split: if_splits)
  from for_up_keep [of _ _ _ _ _ "quiet str cur R", OF T1(1) cleared_quiet [OF q]]
  have "quiet str cur R T1" using start_one_quiet by auto
  from for_up_keep [of _ _ _ _ _ "quiet str cur R", OF T1(2) this] show ?thesis
    using start_runloop_quiet by blast
qed

lemma detach_quiet:
  assumes "tbox_task_detach k T = Some (T', ret)" and "quiet str cur R T"
  shows "quiet str cur R T'"
  using assms sup_inv_upd [of str T cur _ k]
  by (auto simp: tbox_task_detach_def task_at_def rd_def quiet_def split: Option.bind_splits if_splits)

lemma attach_loop_bound: "attach_loop m sz i ts = Some (j, b) \<Longrightarrow> j < i + length ts"
  by (induction ts arbitrary: i) (auto split: if_splits, force+)

lemma attach_quiet:
  assumes "tbox_task_attach m p sz T = (T', k)" and q: "quiet str cur R T"
  shows "quiet str cur R T'"
proof (cases "T' = T")
  case False
  then obtain j where j: "attach_loop m (sz div 4) 0 (tbox_task_infos T) = Some (j, True)"
      "T' = upd_task (of_nat j) (\<lambda>t. t\<lparr>ti_module_id := m, ti_priority := p, cur_block_msg_name := 0,
        cur_block_tick := 0\<rparr>) T"
    using assms(1) by (auto simp: tbox_task_attach_def split: if_splits option.splits prod.splits bool.splits)
  then have "j < 8" using attach_loop_bound [OF j(1)] q sup_invD(3) [of str T cur] by (simp add: quiet_def)
  then show ?thesis using j(2) quiet_upd [OF q] by simp
qed (use q in simp)

lemma sup_step_quiet:
  assumes "sup_step str C C'" and "quiet str (snd C) R (fst C)"
  shows "quiet str (snd C') R (fst C')"
  using assms
proof (cases rule: sup_step.cases)
  case (step_add k name handler len data T T' ret cur)
  then show ?thesis
    using task_add_cases [OF step_add(3)] put_msg_inv assms(2) unfolding quiet_def by auto
next
  case (step_pool sz name handler len data T T' ret cur)
  then show ?thesis
    using pool_add_cases [OF step_pool(3)] put_msg_inv assms(2) unfolding quiet_def by auto
next
  case (step_take i cur tick self buf T T' h buf')
  then show ?thesis using take_handle_inv [where cur = cur and str = str, OF step_take(5,3,4)] assms(2) by (simp add: quiet_def)
next
  case (step_wait i cur tick self buf T T' nx buf')
  then show ?thesis using take_other_inv [where cur = cur and str = str, OF step_wait(5,6)] assms(2) by (simp add: quiet_def)
next
  case (step_done i cur h tick T T')
  then show ?thesis using done_inv [where cur = cur, OF step_done(5,3,4)] assms(2) by (simp add: quiet_def)
next
  case (step_check tick T T' cur)
  then show ?thesis using check_block_quiet [of str T cur tick] assms(2) by (simp add: quiet_def)
next
  case (step_attach m p sz T T' k cur)
  then show ?thesis using attach_quiet [OF step_attach(3)] assms(2) by simp
next
  case (step_detach k T T' ret cur)
  then show ?thesis using detach_quiet [OF step_detach(3)] assms(2) by simp
next
  case (step_stop T T' ret cur)
  then show ?thesis using stop_quiet [OF step_stop(3)] assms(2) by simp
next
  case (step_start T T' ret cur)
  then show ?thesis using start_quiet [OF step_start(3)] assms(2) by simp
qed

lemma sup_reach_quiet:
  "(sup_step str)\<^sup>*\<^sup>* C C' \<Longrightarrow> quiet str (snd C) R (fst C) \<Longrightarrow> quiet str (snd C') R (fst C')"
  by (induction rule: rtranclp_induct) (use sup_step_quiet in blast)+

section \<open>A stop while a handler runs\<close>

lemma flush_holds: "holds q ms \<Longrightarrow> holds (q\<lparr>cq_in := 0, cq_out := 0\<rparr>) []"
  unfolding holds_def cq_inv_def cq_contents_def by auto

lemma stop_one_other:
  assumes "i < 8" "i \<noteq> unat k" "length (tbox_task_infos T) = 8"
  shows "\<exists>T'. stop_one i T = Some T' \<and> task_at T' k = task_at T k \<and> task_state T' = task_state T \<and>
     mgr_mutex T' = mgr_mutex T \<and> length (tbox_task_infos T') = 8"
  using assms
  by (auto simp: stop_one_def task_at_nth tbox_task_stop_task_def take_task_def Let_def flush_queue_def)

lemma stop_one_self:
  assumes "take_task T k = Some t" "running t" "ti_handle t \<noteq> 0" "\<not> gone T (ti_handle t)" "unat k < 8"
  shows "stop_one (unat k) T = Some (notify_task (ti_handle t) TBOX_TASK_EVENT_STOP_BIT eSetBits
     (upd_task k (\<lambda>t. flush_queue (t\<lparr>ti_state := TBOX_TASK_STOP\<rparr>)) T))"
proof -
  have k: "(of_nat (unat k) :: TBOX_ID) = k" by simp
  show ?thesis
    using assms take_taskD [OF assms(1)]
    by (auto simp: stop_one_def k running_def tbox_task_stop_task_def take_task_def Let_def flush_queue_def gone_def)
qed

lemma stop_at:
  assumes t: "take_task T k = Some t" "running t" "ti_handle t \<noteq> 0" "\<not> gone T (ti_handle t)"
    and k: "unat k < 8" and n: "length (tbox_task_infos T) = 8"
  shows "\<exists>T'. tbox_task_stop T = Some (T', TBOX_E_OK) \<and> mgr_mutex T' = mgr_mutex T \<and>
     take_task T' k = Some (flush_queue (t\<lparr>ti_state := TBOX_TASK_STOP\<rparr>))"
proof -
  let ?t' = "flush_queue (t\<lparr>ti_state := TBOX_TASK_STOP\<rparr>)"
  let ?I = "\<lambda>j T'. length (tbox_task_infos T') = 8 \<and> mgr_mutex T' = mgr_mutex T \<and> task_state T' = task_state T \<and>
    task_at T' k = Some (if j \<le> unat k then t else ?t')"
  note at = take_taskD [OF t(1)]
  have "\<exists>T'. for_up 0 8 stop_one T = Some T' \<and> ?I (0 + 8) T'"
  proof (rule for_up_inv)
    show "?I 0 T" using n at by simp
    fix j T'
    assume j: "0 \<le> j" "j < 0 + 8" and I: "?I j T'"
    show "\<exists>T''. stop_one j T' = Some T'' \<and> ?I (Suc j) T''"
    proof (cases "j = unat k")
      case True
      then have "take_task T' k = Some t" using I at by (simp add: take_task_iff)
      then show ?thesis
        using stop_one_self [of T' k t] t(2-4) k I True by (auto simp: gone_def)
    next
      case False
      then show ?thesis using stop_one_other [of j k T'] I j by auto
    qed
  qed
  then show ?thesis using at k by (auto simp: tbox_task_stop_def take_task_iff flush_queue_def)
qed

lemma get_state_task:
  assumes "take_task T k = Some t" and "unat k < TBOX_TASK_MAX_NUM"
  shows "tbox_task_get_state T k = Some (ti_state t)"
proof -
  have "k \<in> {0, 1, 2, 3, 4, 5, 6, 7}" using assms(2) by (simp add: word_unat_eq_iff) linarith
  then have "\<not> bad_any_id k \<and> is_message_task k"
    by (auto simp: bad_any_id_def bad_task_id_def is_message_task_def TBOX_RUNLOOP_TASK_NUM_def word_sless_alt)
  then show ?thesis using take_taskD [OF assms(1)] by (simp add: tbox_task_get_state_def)
qed

end
