(* ===== verification/TaskClaims.thy ===== *)
theory TaskClaims imports TaskSup begin

text \<open>
  The properties of the task layer: messages arrive in order, a stop during a handler is undone,
  and blocked tasks are never reported.
\<close>

section \<open>Properties\<close>

text \<open>
  C13: for a task that is set up and running, under every interleaving of producers that add
  messages and of the loop that takes and finishes them, no step fails, and the messages handed
  to the loop followed by those still queued are exactly those queued at first followed by those
  whose addition was answered with \<^verbatim>\<open>TBOX_E_OK\<close>, in this order, each with its name, handler and data.
\<close>

theorem task_messages_in_order:
  assumes "at_work T k ms" and "length buf = TBOX_MESSAGE_DATA_MAX_LEN" and "list_all act_ok acts"
  shows "\<exists>T' ins outs ms'. task_run str k self cur buf T acts = Some (T', ins, outs) \<and> at_work T' k ms' \<and>
     map message ms @ ins = outs @ map message ms'"
  using assms by (rule task_run_fifo)

text \<open>
  C34: a stop that comes while a task is in a handler is undone by the end of the handler: the
  state is \<^verbatim>\<open>TBOX_TASK_STOP\<close> after \<^verbatim>\<open>tbox_task_stop\<close>, but \<^verbatim>\<open>TBOX_TASK_RUN_IDLE\<close> once the handler
  has returned, and from then on the task accepts and handles messages as before the stop.
\<close>

theorem stop_in_handler_undone:
  assumes w: "at_work T k (m # ms)" and buf: "length buf = TBOX_MESSAGE_DATA_MAX_LEN"
    and n: "length (tbox_task_infos T) = TBOX_TASK_MAX_NUM"
    and alive: "\<And>t. task_at T k = Some t \<Longrightarrow> \<not> gone T (ti_handle t)"
  shows "\<exists>T1 T2 T3 buf'. process_take tick k self buf T = Some (T1, PHandle (fst m), buf') \<and>
     tbox_task_stop T1 = Some (T2, TBOX_E_OK) \<and> tbox_task_get_state T2 k = Some TBOX_TASK_STOP \<and>
     process_done str tick' k (fst m) T2 = Some T3 \<and>
     tbox_task_get_state T3 k = Some TBOX_TASK_RUN_IDLE \<and> at_work T3 k []"
proof -
  obtain t where t: "take_task T k = Some t" "ti_handle t \<noteq> 0" "running t" "holds (ti_msg_queue t) (m # ms)"
    and k: "unat k < TBOX_TASK_MAX_NUM" "mgr_mutex T"
    using w by (auto simp: at_work_def)
  obtain q where q: "process_take tick k self buf T =
      Some (upd_task k (taken tick (fst m) q) T, PHandle (fst m), blit buf 0 (snd m))" "holds q ms"
    using process_take_message [OF t(1,3,4) buf, of tick self] by auto
  let ?T1 = "upd_task k (taken tick (fst m) q) T" and ?t1 = "taken tick (fst m) q t"
  have t1: "take_task ?T1 k = Some ?t1" "running ?t1" using t(1) by (simp_all add: running_def)
  have al: "\<not> gone ?T1 (ti_handle ?t1)" using alive take_taskD [OF t(1)] by (simp add: gone_def)
  let ?t2 = "flush_queue (?t1\<lparr>ti_state := TBOX_TASK_STOP\<rparr>)"
  obtain T2 where T2: "tbox_task_stop ?T1 = Some (T2, TBOX_E_OK)" "mgr_mutex T2" "take_task T2 k = Some ?t2"
    using stop_at [OF t1 _ al] t(2) k n by auto
  obtain bs where T3: "process_done str tick' k (fst m) T2 = Some ((upd_task k (idled tick') T2)\<lparr>block_info := bs\<rparr>)"
    using process_done_ok [OF T2(3,2)] by blast
  let ?T3 = "(upd_task k (idled tick') T2)\<lparr>block_info := bs\<rparr>"
  have t3: "take_task ?T3 k = Some (idled tick' ?t2)"
    using T2(3) by (auto simp: take_task_iff task_at_def upd_task_def rd_def split: if_splits)
  have "holds (ti_msg_queue (idled tick' ?t2)) []"
    using flush_holds [OF q(2)] by (simp add: flush_queue_def)
  then have "at_work ?T3 k []"
    using t3 k T2(2) t(2) by (auto simp: at_work_def running_def flush_queue_def)
  then show ?thesis
    using q(1) T2(1) T3 get_state_task [OF T2(3) k(1)] get_state_task [OF t3 k(1)]
    by (auto simp: flush_queue_def)
qed

text \<open>
  However long a task stays in a handler and however often the supervisor looks, a blocked
  task is not reported: whatever the message loops, the producers, attaching, detaching, starting
  and stopping do, and with any number of checks in between, no report is made. An entry of the
  block table never counts more than one, since a check clears the name it would need to count
  again, and the end of the handler removes the entry. (A check is one step here; a task is not
  deleted or reset.)
\<close>

theorem blocked_never_reported:
  assumes "mgr_mutex T" and "length (tbox_task_infos T) = TBOX_TASK_MAX_NUM"
    and "\<forall>i<TBOX_TASK_MAX_NUM. ti_task_id (tbox_task_infos T ! i) = of_nat i \<and>
      cur_block_msg_name (tbox_task_infos T ! i) = 0"
    and "block_info T = replicate TBOX_TASK_BLOCK_COUNT empty_block"
    and "(sup_step str)\<^sup>*\<^sup>* (T, \<lambda>_. None) (T', cur)"
  shows "abnormal_reports T' = abnormal_reports T"
proof -
  have "one_each (replicate 5 empty_block)" by (simp add: one_each_def empty_block_def)
  then have "quiet str (\<lambda>_. None) (abnormal_reports T) T"
    using assms(1-4) by (simp add: quiet_def sup_inv_def TBOX_TASK_BLOCK_COUNT_def empty_block_def name_of_def)
  then show ?thesis using sup_reach_quiet [OF assms(5)] by (simp add: quiet_def)
qed

section \<open>Concrete instances\<close>

text \<open>Eight idle tasks with empty queues, none of them taken by a module.\<close>

definition demo_queue :: cqueue_t where
  "demo_queue = \<lparr>cq_buffer = replicate 512 0, cq_size = 512, cq_in = 0, cq_out = 0\<rparr>"

definition demo_task :: "nat \<Rightarrow> TBOX_TASK_INFO" where
  "demo_task i = zero_task\<lparr>ti_state := TBOX_TASK_RUN_IDLE, ti_stack_size := stack_of i,
     ti_module_id := TBOX_ID_INVALID, ti_task_id := of_nat i, ti_priority := TBOX_TASK_PRIORITY_MID,
     ti_msg_queue := demo_queue, ti_queue_buf := 0x20001000, ti_handle := 0x20002000 + of_nat i, ti_mutex := True\<rparr>"

definition demo_tasks :: tasks where
  "demo_tasks = \<lparr>tbox_task_infos = map demo_task [0..<8], block_info = replicate TBOX_TASK_BLOCK_COUNT empty_block,
     runloops = replicate TBOX_RUNLOOP_TASK_NUM zero_runloop, mgr_mutex = True,
     tcbs = (\<lambda>_. \<lparr>ulNotifiedValue = 0, notify_state = taskNOT_WAITING_NOTIFICATION\<rparr>),
     task_state = (\<lambda>_. eBlocked), abnormal_reports = []\<rparr>"

lemma demo_queue_holds: "holds demo_queue []"
proof -
  have "(512 :: u32) = 2 ^ 9" by simp
  then have "\<exists>k<32. (512 :: u32) = 2 ^ k" by (intro exI [of _ 9]) simp
  then show ?thesis
    by (simp add: holds_def demo_queue_def cq_inv_def cq_contents_def TBOX_TASK_MSG_QUEUE_SIZE_def)
qed

lemma demo_take: "unat k < 8 \<Longrightarrow> take_task demo_tasks k = Some (demo_task (unat k))"
  by (simp add: take_task_def task_at_def demo_tasks_def demo_task_def)

lemma demo_task_simps [simp]:
  "ti_state (demo_task i) = TBOX_TASK_RUN_IDLE" "ti_msg_queue (demo_task i) = demo_queue"
  "ti_task_id (demo_task i) = of_nat i" "cur_block_msg_name (demo_task i) = 0"
  "ti_handle (demo_task i) = 0x20002000 + of_nat i" "ti_mutex (demo_task i)"
  by (simp_all add: demo_task_def zero_task_def)

lemma demo_at_work: "at_work demo_tasks 2 []"
  using demo_take [of 2] demo_queue_holds by (simp add: at_work_def running_def) (simp add: demo_tasks_def)

theorem task_messages_in_order_witness:
  "\<exists>T' ins outs ms'. task_run (\<lambda>_. [65]) 2 0x20002002 None (replicate 256 0) demo_tasks
     [Add 0x1000 0x8001 [1, 2], Take 7, Add 0x1000 0x8001 [3], Done 9, Take 10, Done 11] = Some (T', ins, outs) \<and>
     at_work T' 2 ms' \<and> ins = outs @ map message ms'"
  using task_messages_in_order [OF demo_at_work, of "replicate 256 0"
      "[Add 0x1000 0x8001 [1, 2], Take 7, Add 0x1000 0x8001 [3], Done 9, Take 10, Done 11]"
      "\<lambda>_. [65]" "0x20002002" None]
  by (simp add: TBOX_MESSAGE_DATA_MAX_LEN_def)

text \<open>The same tasks with a message of two bytes in the queue of task 2.\<close>

lemma demo_added:
  "\<exists>q. tbox_task_add_msg 2 0x1000 0x8001 2 (Some [1, 2]) demo_tasks = Some (notify_task 0x20002002
       TBOX_TASK_EVENT_MSG_BIT eSetBits (upd_task 2 (\<lambda>t. t\<lparr>ti_msg_queue := q\<rparr>) demo_tasks), TBOX_E_OK) \<and>
     holds q [(new_header 0x1000 0x8001 2, [1, 2])]"
proof -
  have t: "take_task demo_tasks 2 = Some (demo_task 2)" using demo_take [of 2] by simp
  have "tbox_task_add_msg 2 0x1000 0x8001 2 (Some [1, 2]) demo_tasks =
      put_msg 2 0x1000 0x8001 2 (Some [1, 2]) demo_tasks"
    using take_taskD [OF t] task_id_ok [of 2] by (simp add: tbox_task_add_msg_def)
  then show ?thesis
    using put_msg_ok [OF t _ _ _, of "[]" "[1, 2]" "0x1000" "0x8001"] demo_queue_holds
    by (simp add: running_def data_arg_def TBOX_MESSAGE_DATA_MAX_LEN_def frames_size_def)
qed

theorem stop_in_handler_undone_witness:
  "\<exists>T T1 T2 T3 buf'. process_take 7 2 0x20002002 (replicate 256 0) T = Some (T1, PHandle (new_header 0x1000 0x8001 2), buf') \<and>
     tbox_task_stop T1 = Some (T2, TBOX_E_OK) \<and> tbox_task_get_state T2 2 = Some TBOX_TASK_STOP \<and>
     process_done (\<lambda>_. [65]) 9 2 (new_header 0x1000 0x8001 2) T2 = Some T3 \<and>
     tbox_task_get_state T3 2 = Some TBOX_TASK_RUN_IDLE \<and> at_work T3 2 []"
proof -
  obtain q where q: "holds q [(new_header 0x1000 0x8001 2, [1, 2])]" using demo_added by blast
  let ?T = "upd_task 2 (\<lambda>t. t\<lparr>ti_msg_queue := q\<rparr>) demo_tasks"
  have t: "take_task ?T 2 = Some ((demo_task 2)\<lparr>ti_msg_queue := q\<rparr>)" using demo_take [of 2] by simp
  have w: "at_work ?T 2 [(new_header 0x1000 0x8001 2, [1, 2])]"
    using t q by (auto simp: at_work_def running_def) (simp add: demo_tasks_def)
  have n: "length (tbox_task_infos ?T) = TBOX_TASK_MAX_NUM" by (simp add: demo_tasks_def)
  have alive: "\<not> gone ?T h" for h by (simp add: gone_def demo_tasks_def)
  show ?thesis
    using stop_in_handler_undone [OF w _ n, of "replicate 256 0" 7 "0x20002002" "\<lambda>_. [65]" 9] alive
    by (simp add: TBOX_MESSAGE_DATA_MAX_LEN_def) blast
qed

text \<open>
  Two checks, each more than five seconds after the one before, while task 2 stays in the handler
  of one message.
\<close>

theorem blocked_never_reported_witness:
  "\<exists>T' cur h. (sup_step (\<lambda>_. [65]))\<^sup>*\<^sup>* (demo_tasks, \<lambda>_. None) (T', cur) \<and> cur 2 = Some h \<and>
     abnormal_reports T' = []"
proof -
  let ?S = "sup_step (\<lambda>_. [65])" and ?D = "(demo_tasks, \<lambda>_. None) :: tasks \<times> (nat \<Rightarrow> TBOX_MSG_HEADER option)"
  obtain T1 where T1: "tbox_task_add_msg 2 0x1000 0x8001 2 (Some [1, 2]) demo_tasks = Some (T1, TBOX_E_OK)"
      "at_work T1 2 [(new_header 0x1000 0x8001 2, [1, 2])]"
    using add_msg_at_work [OF demo_at_work, of "0x1000" "0x8001" "[1, 2]"]
    by (auto simp: data_arg_def TBOX_MESSAGE_DATA_MAX_LEN_def frames_size_def)
  obtain T2 buf where T2: "process_take 7 2 0x20002002 (replicate 256 0) T1 = Some (T2, PHandle (new_header 0x1000 0x8001 2), buf)"
    using take_at_work [OF T1(2), of "replicate 256 0" 7 "0x20002002"] by (auto simp: TBOX_MESSAGE_DATA_MAX_LEN_def)
  let ?cur = "(\<lambda>_. None)(2 := Some (new_header 0x1000 0x8001 2))"
  have s1: "?S ?D (T1, \<lambda>_. None)" using T1(1) by (rule step_add)
  have s2: "?S (T1, \<lambda>_. None) (T2, ?cur)"
    using step_take [of 2 "\<lambda>_. None" 7 "0x20002002" "replicate 256 0" T1 T2 _ buf] T2 by simp
  have fresh: "mgr_mutex demo_tasks" "length (tbox_task_infos demo_tasks) = TBOX_TASK_MAX_NUM"
      "\<forall>i<TBOX_TASK_MAX_NUM. ti_task_id (tbox_task_infos demo_tasks ! i) = of_nat i \<and>
        cur_block_msg_name (tbox_task_infos demo_tasks ! i) = 0"
      "block_info demo_tasks = replicate TBOX_TASK_BLOCK_COUNT empty_block" "abnormal_reports demo_tasks = []"
    by (simp_all add: demo_tasks_def)
  have "one_each (replicate 5 empty_block)" by (simp add: one_each_def empty_block_def)
  then have q0: "quiet (\<lambda>_. [65]) (\<lambda>_. None) [] demo_tasks"
    using fresh by (simp add: quiet_def sup_inv_def TBOX_TASK_BLOCK_COUNT_def empty_block_def name_of_def)
  have q2: "quiet (\<lambda>_. [65]) ?cur [] T2"
    using sup_step_quiet [OF s2] sup_step_quiet [OF s1] q0 by simp
  obtain T3 where T3: "tbox_task_check_block (\<lambda>_. [65]) 6000 T2 = Some T3" "sup_inv (\<lambda>_. [65]) T3 ?cur"
    using check_block_quiet [of _ T2 ?cur 6000] q2 by (auto simp: quiet_def)
  obtain T4 where T4: "tbox_task_check_block (\<lambda>_. [65]) 12000 T3 = Some T4"
    using check_block_quiet [OF T3(2), of 12000] by blast
  have "?S\<^sup>*\<^sup>* ?D (T4, ?cur)"
    using s1 s2 step_check [OF T3(1)] step_check [OF T4]
    by (meson converse_rtranclp_into_rtranclp rtranclp.rtrancl_refl)
  with blocked_never_reported [OF fresh(1-4) this] fresh(5) show ?thesis
    by (intro exI [of _ T4] exI [of _ ?cur] exI [of _ "new_header 0x1000 0x8001 2"]) simp
qed

end
