(* ===== verification/Message.thy ===== *)
theory Message imports Task HashMap begin

text \<open>
  \<^verbatim>\<open>src/core/tbox_message.c\<close>, the registry of message names: their type and switch in the hash
  map, and for each name the linked list of the handlers of its receivers, from the memory of
  the core. Sending and publishing are in the theory of the message bus. A \<^verbatim>\<open>NULL\<close> name is the
  address 0; the loops along a handler list need not return and so are partial functions. The
  mutex is a flag: taking one that does not exist is \<open>None\<close>.
\<close>

section \<open>Data\<close>

record TBOX_MSG_HANDLER_ITEM =
  hi_dst_id :: TBOX_ID
  hi_handler :: u32
  hi_next :: u32

record TBOX_MSG_MGR_ITEM =
  mi_priority :: u8
  mi_type :: u8
  mi_enable :: u8
  mi_handler_list :: u32

record TBOX_MSG_REGINFO =
  rg_name :: u32
  rg_priority :: u8
  rg_type :: u8
  rg_enable :: u8

definition TBOX_MSG_PRIORITY_MAX :: u8 where "TBOX_MSG_PRIORITY_MAX = 3"
definition TBOX_MSG_TYPE_MESSAGE :: u8 where "TBOX_MSG_TYPE_MESSAGE = 0"
definition TBOX_MSG_TYPE_TOPIC :: u8 where "TBOX_MSG_TYPE_TOPIC = 1"
definition TBOX_MSG_TYPE_MAX :: u8 where "TBOX_MSG_TYPE_MAX = 2"
definition TBOX_MESSAGE_MAX_NUM :: u32 where "TBOX_MESSAGE_MAX_NUM = 64"
definition sizeof_mgr_item :: u32 where "sizeof_mgr_item = 8"
definition sizeof_handler_item :: u32 where "sizeof_handler_item = 12"

definition TBOX_MESSAGE_MAP_MGR_SIZE :: u32 where
  "TBOX_MESSAGE_MAP_MGR_SIZE = (TBOX_MESSAGE_MAX_NUM + 48) div 48 * 512"

text \<open>
  The structure as the eight bytes the map copies; the fourth is padding with whatever the
  structure on the stack had there.
\<close>

definition item_bytes :: "u8 \<Rightarrow> TBOX_MSG_MGR_ITEM \<Rightarrow> u8 list" where
  "item_bytes pad i = [mi_priority i, mi_type i, mi_enable i, pad] @ le32 (mi_handler_list i)"

definition item_of :: "u8 list \<Rightarrow> TBOX_MSG_MGR_ITEM" where
  "item_of bs = \<lparr>mi_priority = bs ! 0, mi_type = bs ! 1, mi_enable = bs ! 2,
     mi_handler_list = get32 (drop 4 bs)\<rparr>"

text \<open>
  \<open>strings\<close> are the constant C strings by address, without the final zero. The map starts at the
  address of its buffer.
\<close>

record msg_state =
  strings :: "u32 \<Rightarrow> u8 list"
  core_memory :: memory_state
  tbox_msg_is_init :: bool
  tbox_msg_hashmap :: "u8 list TBOX_HASHMAP option"
  tbox_msg_buffer :: u32
  tbox_msg_mutex :: bool
  handler_items :: "u32 \<Rightarrow> TBOX_MSG_HANDLER_ITEM"

section \<open>Set-up and shut-down\<close>

text \<open>\<open>mutex\<close> is the answer of \<^verbatim>\<open>xSemaphoreCreateMutex\<close>.\<close>

definition tbox_message_init :: "bool \<Rightarrow> msg_state \<Rightarrow> (msg_state \<times> TBOX_ERROR_CODE) option" where
  "tbox_message_init mutex S =
     (if tbox_msg_is_init S then Some (S, TBOX_E_HASINIT)
      else do {
        let sz = sizeof_mgr_item * TBOX_MESSAGE_MAX_NUM + TBOX_MESSAGE_MAP_MGR_SIZE;
        (M, buffer) \<leftarrow> tbox_memory_alloc (core_memory S) TBOX_MEMORY_TYPE_CORE sz;
        let S = S\<lparr>core_memory := M\<rparr>;
        if buffer = 0 then Some (S, TBOX_E_FAILED_ALLOC)
        else do {
          mp \<leftarrow> tbox_hashmap_create buffer sz TBOX_MESSAGE_MAX_NUM sizeof_mgr_item
            (Some tbox_msg_hashmap_string_hash_func) (Some tbox_msg_hashmap_string_cmp_func);
          let S = S\<lparr>tbox_msg_hashmap := mp, tbox_msg_buffer := buffer\<rparr>;
          if mp = None then do {
            M \<leftarrow> tbox_memory_free (core_memory S) TBOX_MEMORY_TYPE_CORE buffer;
            Some (S\<lparr>core_memory := M\<rparr>, TBOX_E_FAILED_ALLOC)
          }
          else if \<not> mutex then do {
            M \<leftarrow> tbox_memory_free (core_memory S) TBOX_MEMORY_TYPE_CORE buffer;
            Some (S\<lparr>core_memory := M, tbox_msg_hashmap := None, tbox_msg_mutex := False\<rparr>, TBOX_E_FAILED_CREATE)
          }
          else Some (S\<lparr>tbox_msg_mutex := True, tbox_msg_is_init := True\<rparr>, TBOX_E_OK)
        }
      })"

text \<open>The loop that releases the handlers of a name, here and in \<^verbatim>\<open>tbox_message_unregister\<close>.\<close>

partial_function (option) free_handlers :: "(u32 \<Rightarrow> TBOX_MSG_HANDLER_ITEM) \<Rightarrow> memory_state \<Rightarrow> u32 \<Rightarrow> memory_state option" where
  "free_handlers items M a =
     (if a = 0 then Some M
      else do {
        let next = hi_next (items a);
        M \<leftarrow> tbox_memory_free M TBOX_MEMORY_TYPE_CORE a;
        free_handlers items M next
      })"

text \<open>One round of \<^verbatim>\<open>tbox_message_deinit\<close>: \<^verbatim>\<open>item.handler_list = NULL_PTR; tbox_hashmap_remove_one(...)\<close>.\<close>

definition deinit_round :: "msg_state \<Rightarrow> msg_state option" where
  "deinit_round S = do {
     (mp, v, _) \<leftarrow> tbox_hashmap_remove_one (tbox_msg_hashmap S) (Some (replicate 8 0));
     M \<leftarrow> free_handlers (handler_items S) (core_memory S)
       (case v of None \<Rightarrow> 0 | Some bs \<Rightarrow> mi_handler_list (item_of bs));
     Some (S\<lparr>tbox_msg_hashmap := mp, core_memory := M\<rparr>)
   }"

definition tbox_message_deinit :: "msg_state \<Rightarrow> msg_state option" where
  "tbox_message_deinit S =
     (if \<not> tbox_msg_is_init S \<or> \<not> tbox_msg_mutex S then Some S
      else do {
        S \<leftarrow> (if tbox_msg_hashmap S = None then Some S
              else do {
                S \<leftarrow> for_up 0 (unat (tbox_hashmap_get_count (tbox_msg_hashmap S))) (\<lambda>_. deinit_round) S;
                M \<leftarrow> tbox_memory_free (core_memory S) TBOX_MEMORY_TYPE_CORE (tbox_msg_buffer S);
                Some (S\<lparr>core_memory := M, tbox_msg_hashmap := None\<rparr>)
              });
        Some (S\<lparr>tbox_msg_mutex := False, tbox_msg_is_init := False\<rparr>)
      })"

section \<open>Names\<close>

definition bad_name :: "msg_state \<Rightarrow> u32 \<Rightarrow> bool" where
  "bad_name S name \<longleftrightarrow> name = 0 \<or> strings S name = []"

text \<open>A look into the map with a local item, which the call fills if it succeeds.\<close>

definition get_item :: "msg_state \<Rightarrow> u32 \<Rightarrow> (u8 list \<times> TBOX_ERROR_CODE) option" where
  "get_item S name = do {
     (v, ret) \<leftarrow> tbox_hashmap_get (tbox_msg_hashmap S) (Some (strings S name)) (Some (replicate 8 0));
     bs \<leftarrow> v;
     Some (bs, ret)
   }"

definition put_item :: "msg_state \<Rightarrow> u32 \<Rightarrow> u8 list \<Rightarrow> (msg_state \<times> TBOX_ERROR_CODE) option" where
  "put_item S name bs = do {
     (mp, ret) \<leftarrow> tbox_hashmap_put (tbox_msg_hashmap S) (Some (strings S name)) (Some bs);
     Some (S\<lparr>tbox_msg_hashmap := mp\<rparr>, ret)
   }"

definition tbox_message_register :: "u8 \<Rightarrow> TBOX_MSG_REGINFO option \<Rightarrow> msg_state \<Rightarrow> (msg_state \<times> TBOX_ERROR_CODE) option" where
  "tbox_message_register pad reginfo S = (case reginfo of
     None \<Rightarrow> Some (S, TBOX_E_INVALID_PARAM)
   | Some r \<Rightarrow>
       if bad_name S (rg_name r) then Some (S, TBOX_E_INVALID_PARAM)
       else if rg_priority r \<ge> TBOX_MSG_PRIORITY_MAX \<or> rg_type r \<ge> TBOX_MSG_TYPE_MAX
       then Some (S, TBOX_E_INVALID_PARAM)
       else if \<not> tbox_msg_is_init S then Some (S, TBOX_E_NOINIT)
       else if \<not> tbox_msg_mutex S then None
       else if tbox_msg_hashmap S = None then Some (S, TBOX_E_NOINIT)
       else do {
         (S, ret) \<leftarrow> put_item S (rg_name r) (item_bytes pad \<lparr>mi_priority = rg_priority r, mi_type = rg_type r,
           mi_enable = rg_enable r, mi_handler_list = 0\<rparr>);
         Some (S, if ret = TBOX_E_OK then TBOX_E_OK else TBOX_E_FAILED)
       })"

definition tbox_message_unregister :: "u32 \<Rightarrow> msg_state \<Rightarrow> msg_state option" where
  "tbox_message_unregister name S =
     (if bad_name S name \<or> \<not> tbox_msg_is_init S then Some S
      else if \<not> tbox_msg_mutex S then None
      else if tbox_msg_hashmap S = None then Some S
      else do {
        (bs, ret) \<leftarrow> get_item S name;
        if ret \<noteq> TBOX_E_OK then Some S
        else do {
          M \<leftarrow> free_handlers (handler_items S) (core_memory S) (mi_handler_list (item_of bs));
          mp \<leftarrow> tbox_hashmap_remove (tbox_msg_hashmap S) (Some (strings S name));
          Some (S\<lparr>core_memory := M, tbox_msg_hashmap := mp\<rparr>)
        }
      })"

text \<open>\<^verbatim>\<open>item.enable = enable\<close> in the bytes of the item.\<close>

definition tbox_message_enable :: "u32 \<Rightarrow> u8 \<Rightarrow> msg_state \<Rightarrow> msg_state option" where
  "tbox_message_enable name enable S =
     (if bad_name S name \<or> \<not> tbox_msg_is_init S then Some S
      else if \<not> tbox_msg_mutex S then None
      else if tbox_msg_hashmap S = None then Some S
      else do {
        (bs, ret) \<leftarrow> get_item S name;
        if ret \<noteq> TBOX_E_OK then Some S
        else do { (S, _) \<leftarrow> put_item S name (item_bytes (bs ! 3) ((item_of bs)\<lparr>mi_enable := enable\<rparr>)); Some S }
      })"

definition tbox_message_is_enabled :: "u32 \<Rightarrow> msg_state \<Rightarrow> u8 option" where
  "tbox_message_is_enabled name S =
     (if bad_name S name \<or> \<not> tbox_msg_is_init S then Some 0
      else if \<not> tbox_msg_mutex S then None
      else if tbox_msg_hashmap S = None then Some 0
      else do {
        (bs, ret) \<leftarrow> get_item S name;
        Some (if ret \<noteq> TBOX_E_OK then 0 else mi_enable (item_of bs))
      })"

section \<open>Handlers\<close>

text \<open>
  The walk to the end of a handler list: it stops at a handler of the same receiver, or links
  the new item behind the last one.
\<close>

partial_function (option) link_handler :: "TBOX_ID \<Rightarrow> u32 \<Rightarrow> (u32 \<Rightarrow> TBOX_MSG_HANDLER_ITEM) \<Rightarrow> u32 \<Rightarrow>
    (u32 \<Rightarrow> TBOX_MSG_HANDLER_ITEM) option" where
  "link_handler dst_id new items a =
     (if a = 0 then Some items
      else if hi_dst_id (items a) = dst_id then Some items
      else if hi_next (items a) = 0 then Some (items(a := (items a)\<lparr>hi_next := new\<rparr>))
      else link_handler dst_id new items (hi_next (items a)))"

text \<open>
  \<^verbatim>\<open>tbox_message_add_handler\<close> and \<^verbatim>\<open>tbox_message_subscribe\<close> are the same text but for the type they
  ask for. First the part under the mutex, with the new item allocated and filled.
\<close>

definition attach_item :: "u8 \<Rightarrow> u32 \<Rightarrow> TBOX_ID \<Rightarrow> u32 \<Rightarrow> msg_state \<Rightarrow> (msg_state \<times> TBOX_ERROR_CODE) option" where
  "attach_item type name dst_id new S = do {
     (bs, ret) \<leftarrow> get_item S name;
     if ret \<noteq> TBOX_E_OK then Some (S, TBOX_E_FAILED)
     else if mi_type (item_of bs) \<noteq> type then Some (S, TBOX_E_INVALID_DATA)
     else do {
       let head = mi_handler_list (item_of bs);
       (S, bs) \<leftarrow> (if head = 0
         then Some (S, item_bytes (bs ! 3) ((item_of bs)\<lparr>mi_handler_list := new\<rparr>))
         else do {
           items \<leftarrow> link_handler dst_id new (handler_items S) head;
           Some (S\<lparr>handler_items := items\<rparr>, bs)
         });
       (S, _) \<leftarrow> put_item S name bs;
       Some (S, TBOX_E_OK)
     }
   }"

definition fill_item :: "u32 \<Rightarrow> TBOX_ID \<Rightarrow> u32 \<Rightarrow> msg_state \<Rightarrow> msg_state" where
  "fill_item new dst_id handler S = S\<lparr>handler_items := (handler_items S)(new :=
     \<lparr>hi_dst_id = dst_id, hi_handler = handler, hi_next = 0\<rparr>)\<rparr>"

definition add_receiver :: "u8 \<Rightarrow> u32 \<Rightarrow> TBOX_ID \<Rightarrow> u32 \<Rightarrow> msg_state \<Rightarrow> (msg_state \<times> TBOX_ERROR_CODE) option" where
  "add_receiver type name dst_id handler S =
     (if bad_name S name \<or> handler = 0 then Some (S, TBOX_E_INVALID_PARAM)
      else if dst_id \<le>s TBOX_ID_INVALID then Some (S, TBOX_E_INVALID_PARAM)
      else if \<not> tbox_msg_is_init S then Some (S, TBOX_E_NOINIT)
      else do {
        (M, new) \<leftarrow> tbox_memory_alloc (core_memory S) TBOX_MEMORY_TYPE_CORE sizeof_handler_item;
        let S = S\<lparr>core_memory := M\<rparr>;
        if new = 0 then Some (S, TBOX_E_FAILED_ALLOC)
        else do {
          let S = fill_item new dst_id handler S;
          if \<not> tbox_msg_mutex S then None
          else if tbox_msg_hashmap S = None then do {
            M \<leftarrow> tbox_memory_free (core_memory S) TBOX_MEMORY_TYPE_CORE new;
            Some (S\<lparr>core_memory := M\<rparr>, TBOX_E_NOINIT)
          }
          else attach_item type name dst_id new S
        }
      })"

definition tbox_message_add_handler :: "u32 \<Rightarrow> TBOX_ID \<Rightarrow> u32 \<Rightarrow> msg_state \<Rightarrow> (msg_state \<times> TBOX_ERROR_CODE) option" where
  "tbox_message_add_handler = add_receiver TBOX_MSG_TYPE_MESSAGE"

definition tbox_message_subscribe :: "u32 \<Rightarrow> TBOX_ID \<Rightarrow> u32 \<Rightarrow> msg_state \<Rightarrow> (msg_state \<times> TBOX_ERROR_CODE) option" where
  "tbox_message_subscribe = add_receiver TBOX_MSG_TYPE_TOPIC"

text \<open>The search of \<^verbatim>\<open>tbox_message_send\<close> for the handler of a receiver; 0 if there is none.\<close>

partial_function (option) find_handler :: "(u32 \<Rightarrow> TBOX_MSG_HANDLER_ITEM) \<Rightarrow> TBOX_ID \<Rightarrow> u32 \<Rightarrow> u32 option" where
  "find_handler items dst_id a =
     (if a = 0 then Some 0
      else if hi_dst_id (items a) = dst_id then Some (hi_handler (items a))
      else find_handler items dst_id (hi_next (items a)))"

end
