(* ===== verification/Module.thy ===== *)
theory Module imports Message CoreTypes begin

text \<open>
  \<^verbatim>\<open>src/core/tbox_module.c\<close>, the module manager: a table of 32 modules with their call-backs, the
  order in which they are initialised, started and stopped, and the task a module gets. A critical
  section is one step. The call-backs of the modules are a parameter: \<open>cb c S\<close> is what call \<open>c\<close>
  makes of the state and returns; the calls are logged before they are made.
\<close>

section \<open>Data\<close>

definition TBOX_MODULE_MAX_NUM :: nat where "TBOX_MODULE_MAX_NUM = 32"
definition MODULE_INIT_SEQ_OS :: u8 where "MODULE_INIT_SEQ_OS = 0"
definition MODULE_INIT_SEQ_STORAGE :: u8 where "MODULE_INIT_SEQ_STORAGE = 1"
definition MODULE_INIT_SEQ_MODULE :: u8 where "MODULE_INIT_SEQ_MODULE = 2"

text \<open>\<^verbatim>\<open>BOOL\<close> is a byte, and a caller can pass any; functions are addresses, 0 is \<^verbatim>\<open>NULL_PTR\<close>.\<close>

record TBOX_MODULE_INFO =
  in_name :: u32
  in_priority :: u8
  in_log_level :: u8
  in_stack_size :: u16
  in_is_interface :: u8
  in_is_critical :: u8
  in_is_runloop :: u8
  in_init_fun :: u32
  in_stop_fun :: u32
  in_start_fun :: u32
  in_enable_fun :: u32
  in_exit_fun :: u32
  in_canbe_stop_fun :: u32

record TBOX_MODULE_MGR_ITEM =
  mm_is_used :: bool
  mm_is_enabled :: u8
  mm_task_id :: TBOX_ID
  mm_state :: TBOX_MODULE_STATE
  mm_info :: TBOX_MODULE_INFO

datatype module_call = Call_init u32 u8 | Call_enable u32 u8 | Call_exit u32 | Call_start u32
  | Call_stop u32 | Call_canbe_stop u32

record core_state =
  tbox_module_is_init :: bool
  tbox_modules :: "TBOX_MODULE_MGR_ITEM list"
  core_tasks :: tasks
  core_messages :: msg_state
  module_calls :: "module_call list"

type_synonym callbacks = "module_call \<Rightarrow> core_state \<Rightarrow> (core_state \<times> int) option"

definition call :: "callbacks \<Rightarrow> module_call \<Rightarrow> core_state \<Rightarrow> (core_state \<times> int) option" where
  "call cb c S = cb c (S\<lparr>module_calls := module_calls S @ [c]\<rparr>)"

definition upd_module :: "nat \<Rightarrow> (TBOX_MODULE_MGR_ITEM \<Rightarrow> TBOX_MODULE_MGR_ITEM) \<Rightarrow> core_state \<Rightarrow> core_state" where
  "upd_module i f S = S\<lparr>tbox_modules := (tbox_modules S)[i := f (tbox_modules S ! i)]\<rparr>"

definition bad_module_id :: "TBOX_ID \<Rightarrow> bool" where
  "bad_module_id module_id \<longleftrightarrow> module_id <s 0 \<or> TBOX_MODULE_MAX_NUM \<le> unat module_id"

text \<open>A task that is let go of, if there is one.\<close>

definition detach_task :: "TBOX_ID \<Rightarrow> core_state \<Rightarrow> core_state option" where
  "detach_task task_id S =
     (if task_id = TBOX_ID_INVALID then Some S
      else do { (T, _) \<leftarrow> tbox_task_detach task_id (core_tasks S); Some (S\<lparr>core_tasks := T\<rparr>) })"

section \<open>Set-up and shut-down\<close>

definition zero_info :: TBOX_MODULE_INFO where
  "zero_info = \<lparr>in_name = 0, in_priority = 0, in_log_level = 0, in_stack_size = 0, in_is_interface = 0,
     in_is_critical = 0, in_is_runloop = 0, in_init_fun = 0, in_stop_fun = 0, in_start_fun = 0,
     in_enable_fun = 0, in_exit_fun = 0, in_canbe_stop_fun = 0\<rparr>"

definition zero_module :: TBOX_MODULE_MGR_ITEM where
  "zero_module = \<lparr>mm_is_used = False, mm_is_enabled = 0, mm_task_id = TBOX_ID_INVALID,
     mm_state = TBOX_MODULE_STATE_NOINIT, mm_info = zero_info\<rparr>"

definition tbox_module_init :: "core_state \<Rightarrow> core_state \<times> TBOX_ERROR_CODE" where
  "tbox_module_init S =
     (if tbox_module_is_init S then (S, TBOX_E_HASINIT)
      else (S\<lparr>tbox_modules := replicate TBOX_MODULE_MAX_NUM zero_module, tbox_module_is_init := True\<rparr>, TBOX_E_OK))"

definition exit_module :: "callbacks \<Rightarrow> nat \<Rightarrow> core_state \<Rightarrow> core_state option" where
  "exit_module cb i S = do {
     m \<leftarrow> rd (tbox_modules S) i;
     let exit_fun = in_exit_fun (mm_info m);
     let leave = mm_is_used m \<and> in_is_interface (mm_info m) = 0 \<and> in_is_critical (mm_info m) = 1 \<and>
       mm_state m \<noteq> TBOX_MODULE_STATE_NOINIT;
     let S = (if leave then upd_module i (\<lambda>m. m\<lparr>mm_state := TBOX_MODULE_STATE_NOINIT\<rparr>) S else S);
     S \<leftarrow> detach_task (if leave then mm_task_id m else TBOX_ID_INVALID) S;
     if exit_fun \<noteq> 0 then map_option fst (call cb (Call_exit exit_fun) S) else Some S
   }"

definition tbox_module_exit :: "callbacks \<Rightarrow> core_state \<Rightarrow> core_state option" where
  "tbox_module_exit cb S =
     (if \<not> tbox_module_is_init S then Some S
      else for_up 0 TBOX_MODULE_MAX_NUM (exit_module cb) (S\<lparr>tbox_module_is_init := False\<rparr>))"

text \<open>One module in one round of \<^verbatim>\<open>tbox_module_init_all_regmodule\<close>.\<close>

definition init_failed :: "nat \<Rightarrow> core_state \<Rightarrow> core_state option" where
  "init_failed i S = do {
     m \<leftarrow> rd (tbox_modules S) i;
     detach_task (mm_task_id m) (upd_module i (\<lambda>m. m\<lparr>mm_task_id := TBOX_ID_INVALID, mm_is_enabled := 0,
       mm_state := TBOX_MODULE_STATE_NOINIT\<rparr>) S)
   }"

definition init_module :: "callbacks \<Rightarrow> u8 \<Rightarrow> nat \<Rightarrow> core_state \<Rightarrow> core_state option" where
  "init_module cb seq i S = do {
     m \<leftarrow> rd (tbox_modules S) i;
     let S = (if seq = MODULE_INIT_SEQ_MODULE
              then upd_module i (\<lambda>m. m\<lparr>mm_state := TBOX_MODULE_STATE_INIT\<rparr>) S else S);
     if \<not> mm_is_used m \<or> mm_is_enabled m = 0 \<or> in_init_fun (mm_info m) = 0 then Some S
     else do {
       (S, ret) \<leftarrow> call cb (Call_init (in_init_fun (mm_info m)) seq) S;
       if ret \<noteq> tbox_error_val TBOX_E_OK \<and> in_is_interface (mm_info m) = 0 then init_failed i S else Some S
     }
   }"

definition tbox_module_init_all_regmodule :: "callbacks \<Rightarrow> core_state \<Rightarrow> core_state option" where
  "tbox_module_init_all_regmodule cb S =
     (if \<not> tbox_module_is_init S then Some S
      else for_up 0 3 (\<lambda>seq. for_up 0 TBOX_MODULE_MAX_NUM (init_module cb (of_nat seq))) S)"

section \<open>Registration\<close>

definition attach_task :: "nat \<Rightarrow> u8 \<Rightarrow> u16 \<Rightarrow> core_state \<Rightarrow> core_state \<times> TBOX_ID" where
  "attach_task i priority sz S = (let (T, task_id) = tbox_task_attach (of_nat i) priority (ucast sz) (core_tasks S) in
     (S\<lparr>core_tasks := T\<rparr>, task_id))"

text \<open>The size of the stack that goes to \<^verbatim>\<open>tbox_task_attach\<close> is the caller's, not the default.\<close>

definition tbox_module_register :: "TBOX_MODULE_INFO option \<Rightarrow> core_state \<Rightarrow> core_state \<times> TBOX_ID" where
  "tbox_module_register module_info S = (case module_info of
     None \<Rightarrow> (S, TBOX_ID_INVALID)
   | Some info \<Rightarrow>
       if in_name info = 0 \<or> \<not> tbox_module_is_init S then (S, TBOX_ID_INVALID)
       else case first_index (\<lambda>m. \<not> mm_is_used m) 0 (tbox_modules S) of
         None \<Rightarrow> (S, TBOX_ID_INVALID)
       | Some i \<Rightarrow>
           let own = (if in_is_interface info = 0 \<and> in_stack_size info = 0
                      then info\<lparr>in_stack_size := ucast TBOX_TASK_SMALL_STACK_SIZE\<rparr> else info);
             S = upd_module i (\<lambda>m. m\<lparr>mm_is_used := True, mm_is_enabled := 1, mm_task_id := TBOX_ID_INVALID,
               mm_info := own\<rparr>) S in
           if in_is_interface info = 0 \<and> in_is_critical info = 1
           then let (S, task_id) = attach_task i (in_priority info) (in_stack_size info) S in
             (if task_id \<noteq> TBOX_ID_INVALID then upd_module i (\<lambda>m. m\<lparr>mm_task_id := task_id\<rparr>) S else S, of_nat i)
           else (S, of_nat i))"

text \<open>\<open>created\<close>: what \<^verbatim>\<open>xTaskCreate\<close> answers.\<close>

definition tbox_module_start_runloop :: "TBOX_ID \<Rightarrow> u32 \<Rightarrow> u32 option \<Rightarrow> core_state \<Rightarrow> (core_state \<times> TBOX_ERROR_CODE) option" where
  "tbox_module_start_runloop module_id runloop_fun created S =
     (if bad_module_id module_id \<or> runloop_fun = 0 then Some (S, TBOX_E_INVALID_PARAM)
      else if \<not> tbox_module_is_init S then Some (S, TBOX_E_NOINIT)
      else do {
        m \<leftarrow> rd (tbox_modules S) (unat module_id);
        if \<not> mm_is_used m \<or> mm_is_enabled m = 0 then Some (S, TBOX_E_NOCREATE)
        else do {
          (T, task_id) \<leftarrow> tbox_task_create_runloop module_id (in_priority (mm_info m))
            (ucast (in_stack_size (mm_info m))) runloop_fun created (core_tasks S);
          let S = S\<lparr>core_tasks := T\<rparr>;
          if task_id = TBOX_ID_INVALID then Some (S, TBOX_E_FAILED_CREATE)
          else Some (upd_module (unat module_id) (\<lambda>m. m\<lparr>mm_task_id := task_id\<rparr>) S, TBOX_E_OK)
        }
      })"

section \<open>Start and stop\<close>

definition start_module :: "callbacks \<Rightarrow> nat \<Rightarrow> core_state \<Rightarrow> core_state option" where
  "start_module cb i S = do {
     m \<leftarrow> rd (tbox_modules S) i;
     if \<not> mm_is_used m \<or> mm_is_enabled m = 0 \<or> mm_state m = TBOX_MODULE_STATE_START then Some S
     else do {
       let S = upd_module i (\<lambda>m. m\<lparr>mm_state := TBOX_MODULE_STATE_START\<rparr>) S;
       let start_fun = in_start_fun (mm_info m);
       if start_fun \<noteq> 0 then map_option fst (call cb (Call_start start_fun) S) else Some S
     }
   }"

definition tbox_module_start :: "callbacks \<Rightarrow> core_state \<Rightarrow> core_state option" where
  "tbox_module_start cb S =
     (if \<not> tbox_module_is_init S then Some S else for_up 0 TBOX_MODULE_MAX_NUM (start_module cb) S)"

definition tbox_module_start_specific :: "callbacks \<Rightarrow> TBOX_ID \<Rightarrow> core_state \<Rightarrow> core_state option" where
  "tbox_module_start_specific cb module_id S =
     (if bad_module_id module_id \<or> \<not> tbox_module_is_init S then Some S
      else start_module cb (unat module_id) S)"

text \<open>
  A module with a stop function is only asked to stop; it sets the state itself when it has
  stopped. The loop of \<^verbatim>\<open>tbox_module_stop\<close> runs downwards.
\<close>

definition stop_module :: "callbacks \<Rightarrow> nat \<Rightarrow> core_state \<Rightarrow> core_state option" where
  "stop_module cb i S = do {
     m \<leftarrow> rd (tbox_modules S) i;
     if \<not> mm_is_used m \<or> mm_is_enabled m = 0 \<or> mm_state m = TBOX_MODULE_STATE_STOP then Some S
     else do {
       let stop_fun = in_stop_fun (mm_info m);
       let S = (if stop_fun = 0 then upd_module i (\<lambda>m. m\<lparr>mm_state := TBOX_MODULE_STATE_STOP\<rparr>) S else S);
       if stop_fun \<noteq> 0 then map_option fst (call cb (Call_stop stop_fun) S) else Some S
     }
   }"

definition tbox_module_stop :: "callbacks \<Rightarrow> core_state \<Rightarrow> core_state option" where
  "tbox_module_stop cb S =
     (if \<not> tbox_module_is_init S then Some S
      else for_up 0 TBOX_MODULE_MAX_NUM (\<lambda>j. stop_module cb (TBOX_MODULE_MAX_NUM - 1 - j)) S)"

definition tbox_module_stop_specific :: "callbacks \<Rightarrow> TBOX_ID \<Rightarrow> core_state \<Rightarrow> core_state option" where
  "tbox_module_stop_specific cb module_id S =
     (if bad_module_id module_id \<or> \<not> tbox_module_is_init S then Some S
      else stop_module cb (unat module_id) S)"

text \<open>
  \<^verbatim>\<open>tbox_module_enable\<close>: the parts around the switch. A \<^verbatim>\<open>BOOL\<close> that is neither \<^verbatim>\<open>TRUE\<close> nor
  \<^verbatim>\<open>FALSE\<close> is stored as it is and lets the task go.
\<close>

definition switch_task :: "nat \<Rightarrow> u8 \<Rightarrow> TBOX_MODULE_MGR_ITEM \<Rightarrow> core_state \<Rightarrow> core_state option" where
  "switch_task i enable m S = (let info = mm_info m; task_id = mm_task_id m in
     if enable = 1
     then if in_is_critical info = 1 \<and> in_is_interface info = 0 \<and> task_id = TBOX_ID_INVALID
       then let (S, task_id) = attach_task i (in_priority info) (in_stack_size info) S in
         Some (upd_module i (\<lambda>m. m\<lparr>mm_task_id := task_id\<rparr>) S)
       else Some S
     else if task_id \<noteq> TBOX_ID_INVALID then do {
       S \<leftarrow> detach_task task_id S;
       Some (upd_module i (\<lambda>m. m\<lparr>mm_task_id := TBOX_ID_INVALID\<rparr>) S)
     }
     else Some S)"

definition tbox_module_enable :: "callbacks \<Rightarrow> TBOX_ID \<Rightarrow> u8 \<Rightarrow> core_state \<Rightarrow> (core_state \<times> int) option" where
  "tbox_module_enable cb module_id enable S =
     (if bad_module_id module_id then Some (S, tbox_error_val TBOX_E_INVALID_PARAM)
      else if \<not> tbox_module_is_init S then Some (S, tbox_error_val TBOX_E_NOINIT)
      else do {
        m \<leftarrow> rd (tbox_modules S) (unat module_id);
        if \<not> mm_is_used m then Some (S, tbox_error_val TBOX_E_NOREADY)
        else do {
          S \<leftarrow> switch_task (unat module_id) enable m
            (upd_module (unat module_id) (\<lambda>m. m\<lparr>mm_is_enabled := enable\<rparr>) S);
          let enable_fun = in_enable_fun (mm_info m);
          if enable_fun \<noteq> 0 then call cb (Call_enable enable_fun enable) S
          else Some (S, tbox_error_val TBOX_E_OK)
        }
      })"

section \<open>Questions and settings\<close>

text \<open>
  The getters share their shape: a value for a bad id or before the set-up, and one for a slot
  that is not in use.
\<close>

definition ask :: "TBOX_ID \<Rightarrow> core_state \<Rightarrow> 'a \<Rightarrow> (TBOX_MODULE_MGR_ITEM \<Rightarrow> 'a) \<Rightarrow> 'a option" where
  "ask module_id S none f =
     (if bad_module_id module_id \<or> \<not> tbox_module_is_init S then Some none
      else do { m \<leftarrow> rd (tbox_modules S) (unat module_id); Some (if mm_is_used m then f m else none) })"

definition tbox_module_is_enabled :: "TBOX_ID \<Rightarrow> core_state \<Rightarrow> u8 option" where
  "tbox_module_is_enabled module_id S = ask module_id S 0 mm_is_enabled"

definition unknown_name :: "u8 list" where "unknown_name = [85, 78, 75, 78, 79, 87, 78]"

definition tbox_module_get_name :: "TBOX_ID \<Rightarrow> core_state \<Rightarrow> u8 list option" where
  "tbox_module_get_name module_id S =
     ask module_id S unknown_name (\<lambda>m. strings (core_messages S) (in_name (mm_info m)))"

definition tbox_module_get_log_level :: "TBOX_ID \<Rightarrow> core_state \<Rightarrow> u8 option" where
  "tbox_module_get_log_level module_id S = ask module_id S 0xFF (\<lambda>m. in_log_level (mm_info m))"

definition tbox_module_is_interface :: "TBOX_ID \<Rightarrow> core_state \<Rightarrow> u8 option" where
  "tbox_module_is_interface module_id S = ask module_id S 1 (\<lambda>m. in_is_interface (mm_info m))"

definition tbox_module_is_critical :: "TBOX_ID \<Rightarrow> core_state \<Rightarrow> u8 option" where
  "tbox_module_is_critical module_id S = ask module_id S 0 (\<lambda>m. in_is_critical (mm_info m))"

definition tbox_module_get_state :: "TBOX_ID \<Rightarrow> core_state \<Rightarrow> TBOX_MODULE_STATE option" where
  "tbox_module_get_state module_id S = ask module_id S TBOX_MODULE_STATE_INVALID mm_state"

definition tbox_module_get_handle :: "TBOX_ID \<Rightarrow> core_state \<Rightarrow> u32 option" where
  "tbox_module_get_handle module_id S = do {
     task_id \<leftarrow> ask module_id S TBOX_ID_INVALID mm_task_id;
     if task_id = TBOX_ID_INVALID then Some 0 else tbox_task_get_handle (core_tasks S) task_id
   }"

text \<open>The structure the caller passes, and what it holds afterwards.\<close>

definition tbox_module_get_config :: "TBOX_ID \<Rightarrow> TBOX_MODULE_INFO option \<Rightarrow> core_state \<Rightarrow> TBOX_MODULE_INFO option option" where
  "tbox_module_get_config module_id config S = (case config of
     None \<Rightarrow> Some None
   | Some c \<Rightarrow> map_option Some (ask module_id S c mm_info))"

definition change_module :: "TBOX_ID \<Rightarrow> (TBOX_MODULE_MGR_ITEM \<Rightarrow> TBOX_MODULE_MGR_ITEM) \<Rightarrow> core_state \<Rightarrow> core_state option" where
  "change_module module_id f S =
     (if bad_module_id module_id \<or> \<not> tbox_module_is_init S then Some S
      else do {
        m \<leftarrow> rd (tbox_modules S) (unat module_id);
        Some (if mm_is_used m then upd_module (unat module_id) f S else S)
      })"

definition tbox_module_set_log_level :: "TBOX_ID \<Rightarrow> u8 \<Rightarrow> core_state \<Rightarrow> core_state option" where
  "tbox_module_set_log_level module_id log_level =
     change_module module_id (\<lambda>m. m\<lparr>mm_info := (mm_info m)\<lparr>in_log_level := log_level\<rparr>\<rparr>)"

definition tbox_module_set_state :: "TBOX_ID \<Rightarrow> TBOX_MODULE_STATE \<Rightarrow> core_state \<Rightarrow> core_state option" where
  "tbox_module_set_state module_id state = change_module module_id (\<lambda>m. m\<lparr>mm_state := state\<rparr>)"

text \<open>\<^verbatim>\<open>strncmp(name, module_name, strlen(name))\<close>: equal up to the length of \<open>name\<close>.\<close>

definition tbox_module_set_log_level_byname :: "u32 \<Rightarrow> u8 \<Rightarrow> core_state \<Rightarrow> core_state \<times> TBOX_ERROR_CODE" where
  "tbox_module_set_log_level_byname name log_level S =
     (if name = 0 then (S, TBOX_E_INVALID_PARAM)
      else if \<not> tbox_module_is_init S then (S, TBOX_E_NOINIT)
      else let str = strings (core_messages S) in
        case first_index (\<lambda>m. mm_is_used m \<and>
            take (length (str name)) (str (in_name (mm_info m))) = str name) 0 (tbox_modules S) of
          None \<Rightarrow> (S, TBOX_E_NOMATCH)
        | Some i \<Rightarrow> (upd_module i (\<lambda>m. m\<lparr>mm_info := (mm_info m)\<lparr>in_log_level := log_level\<rparr>\<rparr>) S, TBOX_E_OK))"

section \<open>All modules\<close>

fun canbe_stop_from :: "callbacks \<Rightarrow> nat \<Rightarrow> nat \<Rightarrow> core_state \<Rightarrow> (core_state \<times> bool) option" where
  "canbe_stop_from cb i 0 S = Some (S, True)"
| "canbe_stop_from cb i (Suc n) S = do {
     m \<leftarrow> rd (tbox_modules S) i;
     if \<not> mm_is_used m \<or> mm_is_enabled m = 0 \<or> mm_state m = TBOX_MODULE_STATE_STOP
     then canbe_stop_from cb (Suc i) n S
     else let canbe_stop_fun = in_canbe_stop_fun (mm_info m) in
       if canbe_stop_fun = 0 then canbe_stop_from cb (Suc i) n S
       else do {
         (S, ret) \<leftarrow> call cb (Call_canbe_stop canbe_stop_fun) S;
         if ret = 0 then Some (S, False) else canbe_stop_from cb (Suc i) n S
       }
   }"

definition tbox_allmodule_canbe_stop :: "callbacks \<Rightarrow> core_state \<Rightarrow> (core_state \<times> bool) option" where
  "tbox_allmodule_canbe_stop cb S =
     (if \<not> tbox_module_is_init S then Some (S, True) else canbe_stop_from cb 0 TBOX_MODULE_MAX_NUM S)"

definition tbox_allmodule_isstoped :: "core_state \<Rightarrow> bool" where
  "tbox_allmodule_isstoped S \<longleftrightarrow> \<not> tbox_module_is_init S \<or>
     first_index (\<lambda>m. mm_is_used m \<and> mm_is_enabled m = 1 \<and> mm_state m = TBOX_MODULE_STATE_START) 0
       (tbox_modules S) = None"

definition tbox_allmodule_istarted :: "core_state \<Rightarrow> bool" where
  "tbox_allmodule_istarted S \<longleftrightarrow> \<not> tbox_module_is_init S \<or>
     first_index (\<lambda>m. mm_is_used m \<and> mm_is_enabled m = 1 \<and> mm_state m \<noteq> TBOX_MODULE_STATE_START) 0
       (tbox_modules S) = None"

section \<open>The list of names\<close>

text \<open>
  \<^verbatim>\<open>snprintf(pos, len, "%-12s ", name)\<close> at offset \<open>pos\<close> of the buffer: the text, cut to \<open>len - 1\<close>
  characters, and a zero; \<open>None\<close> when the buffer ends before. \<^verbatim>\<open>len -= strlen(pos)\<close> comes after
  \<^verbatim>\<open>pos\<close> was moved to the end of the text and so takes nothing off.
\<close>

definition padded :: "u8 list \<Rightarrow> u8 list" where
  "padded name = name @ replicate (12 - length name) 32 @ [32]"

definition show_name :: "nat \<Rightarrow> nat \<Rightarrow> u8 list \<Rightarrow> u8 list \<Rightarrow> (u8 list \<times> nat) option" where
  "show_name pos len name buf = (let text = take (len - 1) (padded name) in
     if pos + length text < length buf then Some (blit buf pos (text @ [0]), pos + length text) else None)"

definition c_string :: "u8 list \<Rightarrow> u8 list" where "c_string bs = takeWhile (\<lambda>c. c \<noteq> 0) bs"

fun show_names :: "u8 list list \<Rightarrow> nat \<Rightarrow> nat \<Rightarrow> u8 list \<Rightarrow> u8 list list option" where
  "show_names [] shown pos buf = Some (if shown > 0 then [c_string buf] else [])"
| "show_names (name # names) shown pos buf = do {
     (buf, pos) \<leftarrow> show_name pos 128 name buf;
     if shown + 1 \<ge> 5 then do { ls \<leftarrow> show_names names 0 0 (replicate 128 0); Some (c_string buf # ls) }
     else show_names names (shown + 1) pos buf
   }"

text \<open>The lines it prints; \<open>garbage\<close> is what the new buffer holds.\<close>

definition tbox_module_show_allname :: "u8 list \<Rightarrow> core_state \<Rightarrow> (core_state \<times> u8 list list) option" where
  "tbox_module_show_allname garbage S = (let X = core_messages S in do {
     (M, show_buff) \<leftarrow> tbox_memory_alloc (core_memory X) TBOX_MEMORY_TYPE_CORE 128;
     if show_buff = 0 then Some (S\<lparr>core_messages := X\<lparr>core_memory := M\<rparr>\<rparr>, [])
     else do {
       ls \<leftarrow> show_names (map (\<lambda>m. strings X (in_name (mm_info m))) (filter mm_is_used (tbox_modules S))) 0 0 garbage;
       M \<leftarrow> tbox_memory_free M TBOX_MEMORY_TYPE_CORE show_buff;
       Some (S\<lparr>core_messages := X\<lparr>core_memory := M\<rparr>\<rparr>, ls)
     }
   })"

section \<open>Messages to a module\<close>

definition tbox_module_send_message :: "TBOX_ID \<Rightarrow> u32 \<Rightarrow> u32 \<Rightarrow> u16 \<Rightarrow> u8 list option \<Rightarrow> core_state \<Rightarrow>
    (core_state \<times> TBOX_ERROR_CODE) option" where
  "tbox_module_send_message module_id name handler len data S =
     (if bad_module_id module_id then Some (S, TBOX_E_INVALID_PARAM)
      else if \<not> tbox_module_is_init S then Some (S, TBOX_E_NOINIT)
      else do {
        enabled \<leftarrow> tbox_message_is_enabled name (core_messages S);
        if enabled = 0 then Some (S, TBOX_E_NOPRIVILEGE)
        else do {
          m \<leftarrow> rd (tbox_modules S) (unat module_id);
          if \<not> mm_is_used m \<or> mm_is_enabled m = 0 \<or> in_is_interface (mm_info m) = 1 then Some (S, TBOX_E_NOREADY)
          else do {
            (T, ret) \<leftarrow> (if mm_task_id m = TBOX_ID_INVALID \<or> in_is_runloop (mm_info m) = 1
              then tbox_taskpool_add_msg (ucast (in_stack_size (mm_info m))) name handler len data (core_tasks S)
              else tbox_task_add_msg (mm_task_id m) name handler len data (core_tasks S));
            Some (S\<lparr>core_tasks := T\<rparr>, ret)
          }
        }
      })"

end
