(* ===== verification/MsgBus.thy ===== *)
theory MsgBus imports Module begin

text \<open>
  Sending and publishing of \<^verbatim>\<open>src/core/tbox_message.c\<close>, over the modules and their tasks, and the parts
  of \<^verbatim>\<open>src/core/tbox_task.c\<close> that need them: which message a task hands to its handler, the reset of a
  task, which is published, and the growth of its stack.
\<close>

section \<open>Sending\<close>

text \<open>\<^verbatim>\<open>data\<close> is the bytes behind the pointer; a size without bytes is refused.\<close>

record TBOX_MSG_DATA =
  md_data :: "u8 list option"
  md_size :: u16

definition data_size :: "TBOX_MSG_DATA option \<Rightarrow> u16" where
  "data_size data = (case data of None \<Rightarrow> 0 | Some d \<Rightarrow> md_size d)"

definition bad_data :: "TBOX_MSG_DATA option \<Rightarrow> bool" where
  "bad_data data \<longleftrightarrow> (case data of None \<Rightarrow> False | Some d \<Rightarrow> md_size d > 0 \<and> md_data d = None) \<or>
     unat (data_size data) > TBOX_MESSAGE_DATA_MAX_LEN"

definition data_bytes :: "TBOX_MSG_DATA option \<Rightarrow> u8 list option" where
  "data_bytes data = (if data_size data = 0 then None else case data of None \<Rightarrow> None | Some d \<Rightarrow> md_data d)"

text \<open>The item of a name with a type, if it is switched on.\<close>

definition checked_item :: "u8 \<Rightarrow> u32 \<Rightarrow> msg_state \<Rightarrow> (TBOX_ERROR_CODE + TBOX_MSG_MGR_ITEM) option" where
  "checked_item type name X =
     (if \<not> tbox_msg_is_init X then Some (Inl TBOX_E_NOINIT)
      else if \<not> tbox_msg_mutex X then None
      else if tbox_msg_hashmap X = None then Some (Inl TBOX_E_NOINIT)
      else do {
        (bs, ret) \<leftarrow> get_item X name;
        let item = item_of bs;
        if ret \<noteq> TBOX_E_OK then Some (Inl TBOX_E_FAILED)
        else if mi_type item \<noteq> type then Some (Inl TBOX_E_INVALID_DATA)
        else if mi_enable item = 0 then Some (Inl TBOX_E_NOPRIVILEGE)
        else Some (Inr item)
      })"

definition tbox_message_send :: "u32 \<Rightarrow> TBOX_ID \<Rightarrow> TBOX_ID \<Rightarrow> TBOX_MSG_DATA option \<Rightarrow> core_state \<Rightarrow>
    (core_state \<times> TBOX_ERROR_CODE) option" where
  "tbox_message_send name src_id dst_id data S = (let X = core_messages S in
     if bad_name X name \<or> bad_data data then Some (S, TBOX_E_INVALID_PARAM)
     else if src_id \<le>s TBOX_ID_INVALID \<or> dst_id \<le>s TBOX_ID_INVALID then Some (S, TBOX_E_INVALID_PARAM)
     else do {
       r \<leftarrow> checked_item TBOX_MSG_TYPE_MESSAGE name X;
       case r of
         Inl e \<Rightarrow> Some (S, e)
       | Inr item \<Rightarrow> do {
           handle_func \<leftarrow> find_handler (handler_items X) dst_id (mi_handler_list item);
           if handle_func = 0 then Some (S, TBOX_E_NOEXISTS)
           else tbox_module_send_message dst_id name handle_func (data_size data) (data_bytes data) S
         }
     })"

section \<open>Publishing\<close>

text \<open>The walk over the subscribers, outside the mutex; what sending returns is not looked at.\<close>

partial_function (option) publish_to :: "u32 \<Rightarrow> u16 \<Rightarrow> u8 list option \<Rightarrow> u32 \<Rightarrow> core_state \<Rightarrow> core_state option" where
  "publish_to name len data a S =
     (if a = 0 then Some S
      else let it = handler_items (core_messages S) a in
        if hi_handler it = 0 \<or> hi_dst_id it = TBOX_ID_INVALID then Some S
        else do {
          (S, _) \<leftarrow> tbox_module_send_message (hi_dst_id it) name (hi_handler it) len data S;
          publish_to name len data (hi_next (handler_items (core_messages S) a)) S
        })"

definition tbox_message_publish :: "u32 \<Rightarrow> TBOX_MSG_DATA option \<Rightarrow> core_state \<Rightarrow> (core_state \<times> TBOX_ERROR_CODE) option" where
  "tbox_message_publish name data S = (let X = core_messages S in
     if bad_name X name \<or> bad_data data then Some (S, TBOX_E_INVALID_PARAM)
     else do {
       r \<leftarrow> checked_item TBOX_MSG_TYPE_TOPIC name X;
       case r of
         Inl e \<Rightarrow> Some (S, e)
       | Inr item \<Rightarrow> do {
           S \<leftarrow> publish_to name (data_size data) (data_bytes data) (mi_handler_list item) S;
           Some (S, TBOX_E_OK)
         }
     })"

section \<open>Receiving\<close>

text \<open>
  Whether the loop of a task calls the handler of a message it has taken: only if the switch of the
  name is \<^verbatim>\<open>TRUE\<close> at that moment.
\<close>

definition process_calls_handler :: "TBOX_MSG_HEADER \<Rightarrow> core_state \<Rightarrow> bool option" where
  "process_calls_handler h S =
     (if msg_name h = 0 \<or> msg_handler h = 0 \<or> msgic_no h \<noteq> TBOX_MSG_MAGICNUM then Some False
      else map_option (\<lambda>e. e = 1) (tbox_message_is_enabled (msg_name h) (core_messages S)))"

section \<open>Resetting a task\<close>

text \<open>The message published about a new task; \<open>note\<close> is the address of its name.\<close>

definition sizeof_update_info :: u16 where "sizeof_update_info = 8"

definition publish_update :: "u32 \<Rightarrow> u32 \<Rightarrow> TBOX_ID \<Rightarrow> core_state \<Rightarrow> core_state option" where
  "publish_update note task_handle module_id S =
     map_option fst (tbox_message_publish note
       (Some \<lparr>md_data = Some (le32 task_handle @ le32 module_id), md_size = sizeof_update_info\<rparr>) S)"

text \<open>
  \<open>env\<close>: what others do while the old task is told to quit; \<open>heap\<close>: \<^verbatim>\<open>xPortGetFreeHeapSize()\<close>;
  \<open>created\<close>: what \<^verbatim>\<open>xTaskCreate\<close> answers.
\<close>

definition abnormal_task :: "TBOX_ID \<Rightarrow> tasks \<Rightarrow> tasks option" where
  "abnormal_task task_id T = do {
     t \<leftarrow> take_task T task_id;
     Some (upd_task task_id (\<lambda>t. t\<lparr>ti_state := TBOX_TASK_ABNORMAL\<rparr>) T)
   }"

definition reset_message_task :: "(nat \<Rightarrow> tasks \<Rightarrow> tasks) \<Rightarrow> u32 \<Rightarrow> u32 option \<Rightarrow> u32 \<Rightarrow> TBOX_ID \<Rightarrow> core_state \<Rightarrow> core_state option" where
  "reset_message_task env heap created note task_id S = do {
     t \<leftarrow> task_at (core_tasks S) task_id;
     if \<not> ti_mutex t \<or> ti_state t = TBOX_TASK_NO_INIT \<or> ti_state t = TBOX_TASK_RECOVERING then Some S
     else do {
       T \<leftarrow> tbox_task_delete_task env
         (upd_task task_id (\<lambda>t. flush_queue (t\<lparr>ti_state := TBOX_TASK_RECOVERING\<rparr>)) (core_tasks S)) task_id;
       if heap \<le> ti_stack_size t * 4
       then do { T \<leftarrow> abnormal_task task_id T; Some (S\<lparr>core_tasks := T\<rparr>) }
       else case created of
         None \<Rightarrow> do { T \<leftarrow> abnormal_task task_id T; Some (S\<lparr>core_tasks := T\<rparr>) }
       | Some h \<Rightarrow> do {
           let T = xTaskCreated h T;
           t \<leftarrow> take_task T task_id;
           let T = upd_task task_id (\<lambda>t. t\<lparr>ti_state := TBOX_TASK_RUN_IDLE, ti_handle := h\<rparr>) T;
           publish_update note h (ti_module_id t)
             (S\<lparr>core_tasks := notify_task h TBOX_TASK_EVENT_START_BIT eSetBits T\<rparr>)
         }
     }
   }"

definition reset_runloop :: "u32 option \<Rightarrow> u32 \<Rightarrow> TBOX_ID \<Rightarrow> core_state \<Rightarrow> core_state option" where
  "reset_runloop created note task_id S = (let i = unat (task_id - of_nat TBOX_TASK_MAX_NUM) in do {
     r \<leftarrow> runloop_at (core_tasks S) task_id;
     if \<not> rl_is_used r \<or> rl_state r = TBOX_TASK_RECOVERING then Some S
     else do {
       let T = tbox_task_delete_task_by_handle (rl_handle r) (core_tasks S);
       case created of
         None \<Rightarrow> Some (S\<lparr>core_tasks := upd_runloop i (\<lambda>r. r\<lparr>rl_state := TBOX_TASK_ABNORMAL\<rparr>) T\<rparr>)
       | Some h \<Rightarrow> publish_update note h (rl_module_id r)
           (S\<lparr>core_tasks := notify_task h TBOX_TASK_EVENT_START_BIT eNoAction
             (upd_runloop i (\<lambda>r. r\<lparr>rl_handle := h, rl_state := TBOX_TASK_RUN_IDLE\<rparr>) (xTaskCreated h T))\<rparr>)
     }
   })"

definition tbox_reset_task :: "(nat \<Rightarrow> tasks \<Rightarrow> tasks) \<Rightarrow> u32 \<Rightarrow> u32 option \<Rightarrow> u32 \<Rightarrow> TBOX_ID \<Rightarrow> core_state \<Rightarrow> core_state option" where
  "tbox_reset_task env heap created note task_id S =
     (if bad_any_id task_id then Some S
      else if is_message_task task_id then reset_message_task env heap created note task_id S
      else reset_runloop created note task_id S)"

definition tbox_task_expend_stack :: "(nat \<Rightarrow> tasks \<Rightarrow> tasks) \<Rightarrow> u32 \<Rightarrow> u32 option \<Rightarrow> u32 \<Rightarrow> TBOX_ID \<Rightarrow> core_state \<Rightarrow>
    (core_state \<times> TBOX_ERROR_CODE) option" where
  "tbox_task_expend_stack env heap created note task_id S =
     (if bad_task_id task_id TBOX_TASK_MAX_NUM then Some (S, TBOX_E_INVALID_PARAM)
      else do {
        t \<leftarrow> task_at (core_tasks S) task_id;
        let low = unat (ucast task_id :: u8);
        if \<not> ti_mutex t then Some (S, TBOX_E_NOINIT)
        else if low \<ge> TBOX_TASK_SMALL_SIZE_NUM + TBOX_TASK_MEDIUM_SIZE_NUM then Some (S, TBOX_E_FAILED)
        else do {
          let sz = (if low < TBOX_TASK_SMALL_SIZE_NUM then TBOX_TASK_MEDIUM_STACK_SIZE div 4
                    else TBOX_TASK_LARGE_STACK_SIZE div 4);
          S \<leftarrow> tbox_reset_task env heap created note task_id
            (S\<lparr>core_tasks := upd_task task_id (\<lambda>t. t\<lparr>ti_stack_size := sz\<rparr>) (core_tasks S)\<rparr>);
          Some (S, TBOX_E_OK)
        }
      })"

end
