(* ===== verification/Allocator.thy ===== *)
theory Allocator imports MemPoolClaims begin

text \<open>
  What the layers above rely on of the memory of the core, as an interface, and the proof that
  the memory pools provide it. A state of the memory is related to the set of the pointers in use;
  the bytes of a new one (\<open>extent\<close>) end below 4 GB.
\<close>

section \<open>The interface\<close>

locale allocator =
  fixes inv :: "'m \<Rightarrow> u32 set \<Rightarrow> bool" and request :: "'n \<Rightarrow> bool" and extent :: "'n \<Rightarrow> nat"
    and alloc :: "'m \<Rightarrow> 'n \<Rightarrow> ('m \<times> u32) option" and release :: "'m \<Rightarrow> u32 \<Rightarrow> 'm option"
  assumes alloc_law: "inv M H \<Longrightarrow> request n \<Longrightarrow> alloc M n = Some (M, 0) \<or>
      (\<exists>M' p. alloc M n = Some (M', p) \<and> p \<noteq> 0 \<and> p \<notin> H \<and> inv M' (insert p H) \<and>
        unat p + extent n < 2 ^ 32)"
    and release_law: "inv M H \<Longrightarrow> p \<in> H \<Longrightarrow> \<exists>M'. release M p = Some M' \<and> inv M' (H - {p})"
    and null_law: "inv M H \<Longrightarrow> 0 \<notin> H"
begin

text \<open>Releasing pointers one after the other, and a pointer that is given back at once.\<close>

primrec release_all :: "'m \<Rightarrow> u32 list \<Rightarrow> 'm option" where
  "release_all M [] = Some M"
| "release_all M (p # ps) = do { M \<leftarrow> release M p; release_all M ps }"

lemma release_all_law:
  "inv M H \<Longrightarrow> distinct ps \<Longrightarrow> set ps \<subseteq> H \<Longrightarrow> \<exists>M'. release_all M ps = Some M' \<and> inv M' (H - set ps)"
proof (induction ps arbitrary: M H)
  case (Cons p ps)
  obtain M1 where M1: "release M p = Some M1" "inv M1 (H - {p})"
    using release_law [OF Cons.prems(1)] Cons.prems(3) by auto
  have "H - {p} - set ps = H - set (p # ps)" by auto
  then show ?case using Cons.IH [OF M1(2)] Cons.prems(2,3) M1(1) by auto
qed simp

lemma give_back:
  assumes "inv M H" and "request n" and "alloc M n = Some (M1, p)" and "p \<noteq> 0"
  shows "\<exists>M2. release M1 p = Some M2 \<and> inv M2 H"
proof -
  have p: "p \<notin> H" "inv M1 (insert p H)" using alloc_law [OF assms(1,2)] assms(3,4) by auto
  then have "insert p H - {p} = H" by auto
  then show ?thesis using release_law [OF p(2), of p] by auto
qed

end

section \<open>The memory of the core\<close>

definition core_inv :: "memory_state \<Rightarrow> u32 set \<Rightarrow> bool" where
  "core_inv M H \<longleftrightarrow> 0 < length (mps M) \<and>
     (\<exists>bs L. pool_inv (mem M) (mps M ! TBOX_MEMORY_TYPE_CORE) bs L \<and> H = fst ` held (mem M) bs)"

definition core_request :: "u32 \<Rightarrow> bool" where
  "core_request n \<longleftrightarrow> 0 < n \<and> unat n \<le> 16360"

lemma core_handle:
  assumes "pool_inv S h bs L"
  shows "h \<noteq> MP_INVALID_HANDLE"
  using assms by (auto simp: pool_inv_def Let_def bad_handle_def MP_INVALID_HANDLE_def)

lemma held_nonnull: "pool_inv S h bs L \<Longrightarrow> 0 \<notin> fst ` held S bs"
proof
  assume inv: "pool_inv S h bs L" and "0 \<in> fst ` held S bs"
  then obtain c z where "(c, z) \<in> set bs" "c + 16 = 0" by (auto simp: held_def)
  then show False using chunk_ptr(1) [OF inv] by auto
qed

interpretation core: allocator core_inv core_request unat
  "\<lambda>M n. tbox_memory_alloc M TBOX_MEMORY_TYPE_CORE n" "\<lambda>M p. tbox_memory_free M TBOX_MEMORY_TYPE_CORE p"
proof unfold_locales
  fix M H n
  assume M: "core_inv M H" and n: "core_request n"
  let ?h = "mps M ! TBOX_MEMORY_TYPE_CORE"
  obtain bs L where inv: "pool_inv (mem M) ?h bs L" and H: "H = fst ` held (mem M) bs" and len: "0 < length (mps M)"
    using M by (auto simp: core_inv_def)
  have a: "tbox_memory_alloc M TBOX_MEMORY_TYPE_CORE n =
      map_option (\<lambda>(S, p). (M\<lparr>mem := S\<rparr>, p)) (mp_alloc (mem M) ?h n)"
    using core_handle [OF inv]
    by (cases "mp_alloc (mem M) ?h n")
      (auto simp: tbox_memory_alloc_def TBOX_MEMORY_TYPE_CORE_def TBOX_MEMORY_TYPE_MAX_def)
  have n': "0 < n" "unat n + 23 < 2 ^ 32" using n by (simp_all add: core_request_def)
  show "tbox_memory_alloc M TBOX_MEMORY_TYPE_CORE n = Some (M, 0) \<or>
      (\<exists>M' p. tbox_memory_alloc M TBOX_MEMORY_TYPE_CORE n = Some (M', p) \<and> p \<noteq> 0 \<and> p \<notin> H \<and>
        core_inv M' (insert p H) \<and> unat p + unat n < 2 ^ 32)"
  proof (cases rule: alloc_cases [OF inv n'])
    case 1
    then show ?thesis by (simp add: a)
  next
    case (2 S1 c bs' L')
    have "core_inv (M\<lparr>mem := hand_out c n S1\<rparr>) (insert (c + 16) H)"
      unfolding core_inv_def using 2(6,7) len H by (auto intro!: exI [of _ bs'])
    moreover have "unat (c + 16) + unat n < 2 ^ 32"
      using held_apart [OF 2(6)] chunk_place(5) [OF 2(6,5)] unfolding 2(7) apart_def by auto
    ultimately show ?thesis using 2(2,8) chunk_ptr(1) [OF 2(6,5)] H by (auto simp: a)
  qed
next
  fix M H p
  assume M: "core_inv M H" and p: "p \<in> H"
  let ?h = "mps M ! TBOX_MEMORY_TYPE_CORE"
  obtain bs L where inv: "pool_inv (mem M) ?h bs L" and H: "H = fst ` held (mem M) bs" and len: "0 < length (mps M)"
    using M by (auto simp: core_inv_def)
  obtain c z where c: "(c, z) \<in> set bs" "ck_used (m_chunks (mem M) c)" "p = c + 16"
    using p H by (auto simp: held_def)
  let ?S' = "\<lambda>l. (mem M)\<lparr>m_chunks := (m_chunks (mem M))(c :=
        (m_chunks (mem M) c)\<lparr>ck_used := False, ck_size := 0\<rparr>), m_links := l\<rparr>"
  obtain l L' where l: "mp_free (mem M) ?h p = Some (?S' l)" "pool_inv (?S' l) ?h bs L'"
    using free_held [OF inv c(1,2)] c(3) by blast
  have "held (?S' l) bs = {x \<in> held (mem M) bs. fst x \<noteq> p}"
    by (auto simp: held_def c(3) split: if_splits)
  then have "fst ` held (?S' l) bs = H - {p}" using H by auto
  then have "core_inv (M\<lparr>mem := ?S' l\<rparr>) (H - {p})" unfolding core_inv_def using l(2) len by (auto intro!: exI [of _ bs])
  moreover have "p \<noteq> 0" using held_nonnull [OF inv] p H by auto
  ultimately show "\<exists>M'. tbox_memory_free M TBOX_MEMORY_TYPE_CORE p = Some M' \<and> core_inv M' (H - {p})"
    using l(1) core_handle [OF inv]
    by (simp add: tbox_memory_free_def TBOX_MEMORY_TYPE_CORE_def TBOX_MEMORY_TYPE_MAX_def)
next
  fix M H
  assume "core_inv M H"
  then show "0 \<notin> H" unfolding core_inv_def using held_nonnull by blast
qed

end
