(* ===== verification/MessageRef.thy ===== *)
theory MessageRef imports Message Allocator begin

text \<open>
  The registry as a map from names to topics: each with its type, its switch and the list of its
  receivers. The state of the code is related to the map, to the pointers in use and to the
  addresses of the handler items of each name; every operation is the one on the map.
\<close>

section \<open>Handler lists\<close>

fun hpath :: "(u32 \<Rightarrow> TBOX_MSG_HANDLER_ITEM) \<Rightarrow> u32 \<Rightarrow> u32 list \<Rightarrow> bool" where
  "hpath items a [] \<longleftrightarrow> a = 0"
| "hpath items a (x # xs) \<longleftrightarrow> a = x \<and> x \<noteq> 0 \<and> hpath items (hi_next (items x)) xs"

definition receivers :: "(u32 \<Rightarrow> TBOX_MSG_HANDLER_ITEM) \<Rightarrow> u32 list \<Rightarrow> (TBOX_ID \<times> u32) list" where
  "receivers items as = map (\<lambda>a. (hi_dst_id (items a), hi_handler (items a))) as"

lemma receivers_simps [simp]:
  "receivers items [] = []" "receivers items (a # as) = (hi_dst_id (items a), hi_handler (items a)) # receivers items as"
  "receivers items (as @ bs) = receivers items as @ receivers items bs"
  by (simp_all add: receivers_def)

lemma hpath_cong: "(\<And>a. a \<in> set as \<Longrightarrow> items' a = items a) \<Longrightarrow> hpath items' p as = hpath items p as"
  by (induction as arbitrary: p) auto

lemma receivers_cong: "(\<And>a. a \<in> set as \<Longrightarrow> items' a = items a) \<Longrightarrow> receivers items' as = receivers items as"
  by (auto simp: receivers_def)

lemma hpath_nonnull: "hpath items p as \<Longrightarrow> 0 \<notin> set as"
  by (induction as arbitrary: p) auto

lemma hpath_head: "hpath items p as \<Longrightarrow> p = (if as = [] then 0 else hd as)"
  by (cases as) auto

lemma free_handlers_path:
  "hpath items p as \<Longrightarrow> free_handlers items M p = core.release_all M as"
proof (induction as arbitrary: p M)
  case Nil
  then show ?case by (subst free_handlers.simps) simp
next
  case (Cons a as)
  then show ?case by (subst free_handlers.simps) (auto cong: Option.bind_cong)
qed

lemma find_handler_path:
  "hpath items p as \<Longrightarrow> find_handler items d p =
     Some (case List.find (\<lambda>r. fst r = d) (receivers items as) of None \<Rightarrow> 0 | Some r \<Rightarrow> snd r)"
proof (induction as arbitrary: p)
  case Nil
  then show ?case by (subst find_handler.simps) simp
next
  case (Cons a as)
  then show ?case by (subst find_handler.simps) auto
qed

text \<open>The walk for a new receiver: nothing changes if it has a handler already.\<close>

lemma link_handler_known:
  "hpath items p as \<Longrightarrow> d \<in> fst ` set (receivers items as) \<Longrightarrow> link_handler d new items p = Some items"
proof (induction as arbitrary: p)
  case (Cons a as)
  have "hi_next (items a) \<noteq> 0" if "hi_dst_id (items a) \<noteq> d"
    using Cons.prems that by (cases as) auto
  then show ?case using Cons by (subst link_handler.simps) auto
qed simp

lemma link_handler_new:
  "hpath items p as \<Longrightarrow> as \<noteq> [] \<Longrightarrow> d \<notin> fst ` set (receivers items as) \<Longrightarrow>
     link_handler d new items p = Some (items(last as := (items (last as))\<lparr>hi_next := new\<rparr>))"
proof (induction as arbitrary: p)
  case step: (Cons a as)
  show ?case
  proof (cases as)
    case Nil
    then show ?thesis using step.prems by (subst link_handler.simps) auto
  next
    case (Cons b bs)
    then have n: "hi_next (items a) = b" "b \<noteq> 0" "p = a" "a \<noteq> 0" "hi_dst_id (items a) \<noteq> d"
      using step.prems by auto
    have "link_handler d new items b = Some (items(last as := (items (last as))\<lparr>hi_next := new\<rparr>))"
      using step.IH [of b] step.prems n(1) Cons by auto
    then show ?thesis using n Cons by (subst link_handler.simps) simp
  qed
qed simp

lemma hpath_append:
  assumes "hpath items p as" and "as \<noteq> []" and "distinct as" and "new \<noteq> 0" and "new \<notin> set as" and "hi_next (items new) = 0"
  shows "hpath (items(last as := (items (last as))\<lparr>hi_next := new\<rparr>)) p (as @ [new])"
  using assms
proof (induction as arbitrary: p)
  case (Cons a as)
  show ?case
  proof (cases "as = []")
    case True
    then show ?thesis using Cons.prems by auto
  next
    case False
    then have "last as \<in> set as" by simp
    then have "last as \<noteq> a" using Cons.prems(3) by auto
    then show ?thesis using Cons False by auto
  qed
qed simp

lemma receivers_append:
  assumes "as \<noteq> []" and "new \<notin> set as"
  shows "receivers (items(last as := (items (last as))\<lparr>hi_next := new\<rparr>)) (as @ [new]) =
    receivers items as @ [(hi_dst_id (items new), hi_handler (items new))]"
  using assms by (auto simp: receivers_def last_in_set)

section \<open>The registry as a map\<close>

record topic =
  tp_priority :: u8
  tp_type :: u8
  tp_enable :: u8
  tp_receivers :: "(TBOX_ID \<times> u32) list"

definition mgr :: "topic \<Rightarrow> u32 \<Rightarrow> TBOX_MSG_MGR_ITEM" where
  "mgr tp ptr = \<lparr>mi_priority = tp_priority tp, mi_type = tp_type tp, mi_enable = tp_enable tp, mi_handler_list = ptr\<rparr>"

lemma item_roundtrip [simp]: "item_of (item_bytes pad i) = i"
  by (cases i) (simp add: item_of_def item_bytes_def)

lemma item_bytes_simps [simp]: "length (item_bytes pad i) = 8" "item_bytes pad i ! 3 = pad"
  by (simp_all add: item_bytes_def)

lemma mgr_simps [simp]:
  "mi_priority (mgr tp ptr) = tp_priority tp" "mi_type (mgr tp ptr) = tp_type tp"
  "mi_enable (mgr tp ptr) = tp_enable tp" "mi_handler_list (mgr tp ptr) = ptr"
  "(mgr tp ptr)\<lparr>mi_handler_list := p\<rparr> = mgr tp p" "(mgr tp ptr)\<lparr>mi_enable := e\<rparr> = mgr (tp\<lparr>tp_enable := e\<rparr>) ptr"
  by (simp_all add: mgr_def)

type_synonym items = "u32 \<Rightarrow> TBOX_MSG_HANDLER_ITEM"
type_synonym broker = "u8 list \<rightharpoonup> topic"

text \<open>The value of a name in the map, for a topic whose handlers are at \<open>as\<close>.\<close>

definition value_rep :: "items \<Rightarrow> u32 list \<Rightarrow> topic \<Rightarrow> u8 list \<Rightarrow> bool" where
  "value_rep items as tp bs \<longleftrightarrow> (\<exists>pad ptr. bs = item_bytes pad (mgr tp ptr) \<and> hpath items ptr as \<and>
     receivers items as = tp_receivers tp)"

definition map_rep :: "u8 list set \<Rightarrow> items \<Rightarrow> (u8 list \<Rightarrow> u32 list) \<Rightarrow> u8 list TBOX_HASHMAP \<Rightarrow> broker \<Rightarrow> bool" where
  "map_rep K items P m B \<longleftrightarrow> capacity m = TBOX_MESSAGE_MAX_NUM \<and> ele_size m = sizeof_mgr_item \<and>
     (\<exists>A L f. hm_rep tbox_msg_hashmap_string_hash_func tbox_msg_hashmap_string_cmp_func K A L m f \<and>
       dom f = dom B \<and> (\<forall>k tp. B k = Some tp \<longrightarrow> (\<exists>bs. f k = Some bs \<and> value_rep items (P k) tp bs)))"

lemma sizes [simp]: "unat sizeof_mgr_item = 8" "unat TBOX_MESSAGE_MAX_NUM = 64"
  by (simp_all add: sizeof_mgr_item_def TBOX_MESSAGE_MAX_NUM_def)

lemma value_rep_cong:
  "value_rep items as tp bs \<Longrightarrow> (\<And>a. a \<in> set as \<Longrightarrow> items' a = items a) \<Longrightarrow> value_rep items' as tp bs"
  unfolding value_rep_def using hpath_cong [of as items' items] receivers_cong [of as items' items] by metis

lemma map_rep_cong:
  assumes "map_rep K items P m B" and "\<And>k a. k \<in> dom B \<Longrightarrow> a \<in> set (P k) \<Longrightarrow> items' a = items a"
  shows "map_rep K items' P m B"
proof -
  obtain A L f where r: "hm_rep tbox_msg_hashmap_string_hash_func tbox_msg_hashmap_string_cmp_func K A L m f"
      "dom f = dom B" "\<forall>k tp. B k = Some tp \<longrightarrow> (\<exists>bs. f k = Some bs \<and> value_rep items (P k) tp bs)"
    using assms(1) unfolding map_rep_def by blast
  have "\<exists>bs. f k = Some bs \<and> value_rep items' (P k) tp bs" if b: "B k = Some tp" for k tp
  proof -
    obtain bs where "f k = Some bs" "value_rep items (P k) tp bs" using r(3) b by blast
    then show ?thesis using value_rep_cong [of items "P k" tp bs items'] assms(2) [of k] b by auto
  qed
  then show ?thesis using assms(1) r(1,2) unfolding map_rep_def by blast
qed

context prefix_free
begin

lemma get_value:
  assumes rep: "map_rep K items P m B" and k: "k \<in> K"
  shows "case B k of
     None \<Rightarrow> tbox_hashmap_get (Some m) (Some k) (Some (replicate 8 0)) = Some (Some (replicate 8 0), TBOX_E_NOFOUND)
   | Some tp \<Rightarrow> \<exists>bs. tbox_hashmap_get (Some m) (Some k) (Some (replicate 8 0)) = Some (Some bs, TBOX_E_OK) \<and>
       value_rep items (P k) tp bs"
proof -
  obtain A L f where r: "hm_rep tbox_msg_hashmap_string_hash_func tbox_msg_hashmap_string_cmp_func K A L m f"
      "dom f = dom B" "\<forall>k tp. B k = Some tp \<longrightarrow> (\<exists>bs. f k = Some bs \<and> value_rep items (P k) tp bs)"
      "ele_size m = sizeof_mgr_item"
    using rep unfolding map_rep_def by blast
  have g: "tbox_hashmap_get (Some m) (Some k) (Some (replicate 8 0)) =
     (case f k of None \<Rightarrow> Some (Some (replicate 8 0), TBOX_E_NOFOUND) | Some w \<Rightarrow> Some (Some (blit (replicate 8 0) 0 w), TBOX_E_OK))"
    by (rule msg.get_law [OF r(1) k]) (simp add: r(4))
  show ?thesis
  proof (cases "B k")
    case None
    then have "f k = None" using r(2) by (metis domIff)
    then show ?thesis using g None by simp
  next
    case (Some tp)
    then obtain bs where bs: "f k = Some bs" "value_rep items (P k) tp bs" using r(3) by blast
    then have "blit (replicate 8 0) 0 bs = bs" by (auto simp: value_rep_def blit_def)
    then show ?thesis using g Some bs by simp
  qed
qed

lemma put_value:
  assumes rep: "map_rep K items P m B" and k: "k \<in> K" and bs: "value_rep items as tp bs"
  shows "if B k = None \<and> card (dom B) = 64
     then tbox_hashmap_put (Some m) (Some k) (Some bs) = Some (Some m, TBOX_E_NOMEMORY)
     else \<exists>m'. tbox_hashmap_put (Some m) (Some k) (Some bs) = Some (Some m', TBOX_E_OK) \<and>
       map_rep K items (P(k := as)) m' (B(k \<mapsto> tp))"
proof -
  obtain A L f where r: "hm_rep tbox_msg_hashmap_string_hash_func tbox_msg_hashmap_string_cmp_func K A L m f"
      "dom f = dom B" "\<forall>k tp. B k = Some tp \<longrightarrow> (\<exists>bs. f k = Some bs \<and> value_rep items (P k) tp bs)"
      "ele_size m = sizeof_mgr_item" "capacity m = TBOX_MESSAGE_MAX_NUM"
    using rep unfolding map_rep_def by blast
  have len: "length bs = 8" using bs by (auto simp: value_rep_def)
  have p: "if k \<notin> dom f \<and> card (dom f) = unat (capacity m)
     then tbox_hashmap_put (Some m) (Some k) (Some bs) = Some (Some m, TBOX_E_NOMEMORY)
     else \<exists>m' L'. tbox_hashmap_put (Some m) (Some k) (Some bs) = Some (Some m', TBOX_E_OK) \<and>
       hm_rep tbox_msg_hashmap_string_hash_func tbox_msg_hashmap_string_cmp_func K A L' m' (f(k \<mapsto> take (unat (ele_size m)) bs)) \<and>
       ele_size m' = ele_size m \<and> capacity m' = capacity m"
    by (rule msg.put_refines [OF r(1) k]) (simp add: r(4) len)
  have c: "k \<notin> dom f \<and> card (dom f) = unat (capacity m) \<longleftrightarrow> B k = None \<and> card (dom B) = 64"
    using r(2,5) by auto
  show ?thesis
  proof (cases "B k = None \<and> card (dom B) = 64")
    case True
    then show ?thesis using p c by simp
  next
    case False
    then obtain m' L' where m': "tbox_hashmap_put (Some m) (Some k) (Some bs) = Some (Some m', TBOX_E_OK)"
        "hm_rep tbox_msg_hashmap_string_hash_func tbox_msg_hashmap_string_cmp_func K A L' m' (f(k \<mapsto> bs))"
        "ele_size m' = sizeof_mgr_item" "capacity m' = TBOX_MESSAGE_MAX_NUM"
      using p [unfolded c if_not_P [OF False]] r(4,5) len by auto
    have "map_rep K items (P(k := as)) m' (B(k \<mapsto> tp))"
      unfolding map_rep_def
    proof (intro conjI exI)
      show "hm_rep tbox_msg_hashmap_string_hash_func tbox_msg_hashmap_string_cmp_func K A L' m' (f(k \<mapsto> bs))" by (rule m'(2))
      show "dom (f(k \<mapsto> bs)) = dom (B(k \<mapsto> tp))" using r(2) by simp
      show "\<forall>k' tp'. (B(k \<mapsto> tp)) k' = Some tp' \<longrightarrow>
          (\<exists>bs'. (f(k \<mapsto> bs)) k' = Some bs' \<and> value_rep items ((P(k := as)) k') tp' bs')"
        using r(3) bs by auto
    qed (use m' in auto)
    then show ?thesis using m'(1) False by auto
  qed
qed

lemma remove_value:
  assumes rep: "map_rep K items P m B" and k: "k \<in> K"
  shows "\<exists>m'. tbox_hashmap_remove (Some m) (Some k) = Some (Some m') \<and> map_rep K items P m' (B(k := None))"
proof -
  obtain A L f where r: "hm_rep tbox_msg_hashmap_string_hash_func tbox_msg_hashmap_string_cmp_func K A L m f"
      "dom f = dom B" "\<forall>k tp. B k = Some tp \<longrightarrow> (\<exists>bs. f k = Some bs \<and> value_rep items (P k) tp bs)"
      "ele_size m = sizeof_mgr_item" "capacity m = TBOX_MESSAGE_MAX_NUM"
    using rep unfolding map_rep_def by blast
  obtain m' L' where m': "tbox_hashmap_remove (Some m) (Some k) = Some (Some m')"
      "hm_rep tbox_msg_hashmap_string_hash_func tbox_msg_hashmap_string_cmp_func K A L' m' (f(k := None))"
      "ele_size m' = ele_size m" "capacity m' = capacity m"
    using msg.remove_refines [OF r(1) k] by blast
  have "map_rep K items P m' (B(k := None))"
    unfolding map_rep_def
  proof (intro conjI exI)
    show "hm_rep tbox_msg_hashmap_string_hash_func tbox_msg_hashmap_string_cmp_func K A L' m' (f(k := None))" by (rule m'(2))
    show "dom (f(k := None)) = dom (B(k := None))" using r(2) by simp
    show "\<forall>k' tp'. (B(k := None)) k' = Some tp' \<longrightarrow>
        (\<exists>bs'. (f(k := None)) k' = Some bs' \<and> value_rep items (P k') tp' bs')"
      using r(3) by auto
  qed (use m' r in auto)
  then show ?thesis using m'(1) by blast
qed

end

lemma map_rep_finite: "map_rep K items P m B \<Longrightarrow> finite (dom B)"
  unfolding map_rep_def using hm_rep_count(1) by metis

text \<open>Linking a new item behind the handlers of a topic, with the map as it is.\<close>

lemma map_rep_link:
  assumes rep: "map_rep K items P m B" and B: "B k = Some tp"
    and val: "\<And>bs. value_rep items (P k) tp bs \<Longrightarrow> value_rep items' as (tp\<lparr>tp_receivers := rs\<rparr>) bs"
    and same: "\<And>k' a. k' \<in> dom B \<Longrightarrow> k' \<noteq> k \<Longrightarrow> a \<in> set (P k') \<Longrightarrow> items' a = items a"
  shows "map_rep K items' (P(k := as)) m (B(k \<mapsto> tp\<lparr>tp_receivers := rs\<rparr>))"
proof -
  obtain A L f where r: "hm_rep tbox_msg_hashmap_string_hash_func tbox_msg_hashmap_string_cmp_func K A L m f"
      "dom f = dom B" "\<forall>k tp. B k = Some tp \<longrightarrow> (\<exists>bs. f k = Some bs \<and> value_rep items (P k) tp bs)"
    using rep unfolding map_rep_def by blast
  have "\<exists>bs. f k' = Some bs \<and> value_rep items' ((P(k := as)) k') tp' bs"
    if "(B(k \<mapsto> tp\<lparr>tp_receivers := rs\<rparr>)) k' = Some tp'" for k' tp'
  proof (cases "k' = k")
    case True
    obtain bs where "f k = Some bs" "value_rep items (P k) tp bs" using r(3) B by blast
    then show ?thesis using val [of bs] that True by auto
  next
    case False
    then have b: "B k' = Some tp'" using that by simp
    then obtain bs where "f k' = Some bs" "value_rep items (P k') tp' bs" using r(3) by blast
    then show ?thesis using value_rep_cong [of items "P k'" tp' bs items'] same [of k'] b False by auto
  qed
  moreover have "dom f = dom (B(k \<mapsto> tp\<lparr>tp_receivers := rs\<rparr>))" using r(2) B by auto
  ultimately show ?thesis using rep r(1) unfolding map_rep_def by blast
qed

section \<open>The state of the registry\<close>

text \<open>
  The handler items of the topics are pointers in use, all different and none the buffer of the
  map.
\<close>

definition owned :: "u32 set \<Rightarrow> u32 \<Rightarrow> (u8 list \<Rightarrow> u32 list) \<Rightarrow> u8 list set \<Rightarrow> bool" where
  "owned H buf P D \<longleftrightarrow> buf \<in> H \<and> (\<forall>k\<in>D. distinct (P k) \<and> set (P k) \<subseteq> H - {buf}) \<and>
     (\<forall>k\<in>D. \<forall>k'\<in>D. k \<noteq> k' \<longrightarrow> set (P k) \<inter> set (P k') = {})"

definition msg_rep :: "u8 list set \<Rightarrow> msg_state \<Rightarrow> u32 set \<Rightarrow> (u8 list \<Rightarrow> u32 list) \<Rightarrow> broker \<Rightarrow> bool" where
  "msg_rep K S H P B \<longleftrightarrow> tbox_msg_is_init S \<and> tbox_msg_mutex S \<and> core_inv (core_memory S) H \<and>
     (\<exists>m. tbox_msg_hashmap S = Some m \<and> map_rep K (handler_items S) P m B) \<and>
     owned H (tbox_msg_buffer S) P (dom B)"

lemma msg_repE:
  assumes "msg_rep K S H P B"
  obtains m where "tbox_msg_is_init S" "tbox_msg_mutex S" "core_inv (core_memory S) H"
    "tbox_msg_hashmap S = Some m" "map_rep K (handler_items S) P m B" "owned H (tbox_msg_buffer S) P (dom B)"
  using assms unfolding msg_rep_def by blast

lemma owned_more: "owned H buf P D \<Longrightarrow> H \<subseteq> H' \<Longrightarrow> owned H' buf P D"
  unfolding owned_def by blast

lemma owned_less: "owned H buf P D \<Longrightarrow> D' \<subseteq> D \<Longrightarrow> owned H buf P D'"
  unfolding owned_def by blast

lemma owned_clear: "owned H buf P D \<Longrightarrow> owned H buf (P(k := [])) (insert k D)"
  unfolding owned_def by auto

lemma owned_drop:
  "owned H buf P D \<Longrightarrow> k \<in> D \<Longrightarrow> owned (H - set (P k)) buf P (D - {k})"
  unfolding owned_def by blast

lemma owned_link:
  assumes "owned H buf P D" and "new \<in> H - {buf}" and "\<And>k. k \<in> D \<Longrightarrow> new \<notin> set (P k)"
  shows "owned H buf (P(k := P k @ [new])) D"
  using assms unfolding owned_def by (auto simp: fun_upd_def)

section \<open>The operations on the map\<close>

definition registered :: "TBOX_MSG_REGINFO \<Rightarrow> topic" where
  "registered r = \<lparr>tp_priority = rg_priority r, tp_type = rg_type r, tp_enable = rg_enable r, tp_receivers = []\<rparr>"

definition spec_register :: "(u32 \<Rightarrow> u8 list) \<Rightarrow> TBOX_MSG_REGINFO \<Rightarrow> broker \<Rightarrow> broker \<times> TBOX_ERROR_CODE" where
  "spec_register str r B = (let k = str (rg_name r) in
     if rg_name r = 0 \<or> k = [] \<or> rg_priority r \<ge> TBOX_MSG_PRIORITY_MAX \<or> rg_type r \<ge> TBOX_MSG_TYPE_MAX
     then (B, TBOX_E_INVALID_PARAM)
     else if B k = None \<and> card (dom B) = 64 then (B, TBOX_E_FAILED)
     else (B(k \<mapsto> registered r), TBOX_E_OK))"

definition spec_unregister :: "(u32 \<Rightarrow> u8 list) \<Rightarrow> u32 \<Rightarrow> broker \<Rightarrow> broker" where
  "spec_unregister str name B = (if name = 0 \<or> str name = [] then B else B(str name := None))"

definition spec_enable :: "(u32 \<Rightarrow> u8 list) \<Rightarrow> u32 \<Rightarrow> u8 \<Rightarrow> broker \<Rightarrow> broker" where
  "spec_enable str name e B = (if name = 0 \<or> str name = [] then B else
     case B (str name) of None \<Rightarrow> B | Some tp \<Rightarrow> B(str name \<mapsto> tp\<lparr>tp_enable := e\<rparr>))"

definition spec_is_enabled :: "(u32 \<Rightarrow> u8 list) \<Rightarrow> u32 \<Rightarrow> broker \<Rightarrow> u8" where
  "spec_is_enabled str name B = (if name = 0 \<or> str name = [] then 0 else
     case B (str name) of None \<Rightarrow> 0 | Some tp \<Rightarrow> tp_enable tp)"

definition spec_attach :: "u8 \<Rightarrow> u8 list \<Rightarrow> TBOX_ID \<Rightarrow> u32 \<Rightarrow> broker \<Rightarrow> broker \<times> TBOX_ERROR_CODE" where
  "spec_attach type k d handler B = (case B k of
     None \<Rightarrow> (B, TBOX_E_FAILED)
   | Some tp \<Rightarrow>
       if tp_type tp \<noteq> type then (B, TBOX_E_INVALID_DATA)
       else if d \<in> fst ` set (tp_receivers tp) then (B, TBOX_E_OK)
       else (B(k \<mapsto> tp\<lparr>tp_receivers := tp_receivers tp @ [(d, handler)]\<rparr>), TBOX_E_OK))"

text \<open>The new item becomes part of the list of the name.\<close>

definition attaches :: "u8 \<Rightarrow> u8 list \<Rightarrow> TBOX_ID \<Rightarrow> broker \<Rightarrow> bool" where
  "attaches type k d B \<longleftrightarrow>
     (case B k of None \<Rightarrow> False | Some tp \<Rightarrow> tp_type tp = type \<and> d \<notin> fst ` set (tp_receivers tp))"

text \<open>A new receiver, when there is memory for its item (\<open>room\<close>).\<close>

definition bad_receiver :: "(u32 \<Rightarrow> u8 list) \<Rightarrow> u32 \<Rightarrow> TBOX_ID \<Rightarrow> u32 \<Rightarrow> bool" where
  "bad_receiver str name d handler \<longleftrightarrow> name = 0 \<or> str name = [] \<or> handler = 0 \<or> d \<le>s TBOX_ID_INVALID"

definition spec_add :: "bool \<Rightarrow> u8 \<Rightarrow> (u32 \<Rightarrow> u8 list) \<Rightarrow> u32 \<Rightarrow> TBOX_ID \<Rightarrow> u32 \<Rightarrow> broker \<Rightarrow> broker \<times> TBOX_ERROR_CODE" where
  "spec_add room type str name d handler B =
     (if bad_receiver str name d handler then (B, TBOX_E_INVALID_PARAM)
      else if \<not> room then (B, TBOX_E_FAILED_ALLOC)
      else spec_attach type (str name) d handler B)"

context prefix_free
begin

lemma get_item_law:
  assumes rep: "msg_rep K S H P B" and k: "strings S name \<in> K"
  shows "case B (strings S name) of
     None \<Rightarrow> get_item S name = Some (replicate 8 0, TBOX_E_NOFOUND)
   | Some tp \<Rightarrow> \<exists>pad ptr. get_item S name = Some (item_bytes pad (mgr tp ptr), TBOX_E_OK) \<and>
       hpath (handler_items S) ptr (P (strings S name)) \<and>
       receivers (handler_items S) (P (strings S name)) = tp_receivers tp"
proof -
  obtain m where m: "tbox_msg_hashmap S = Some m" "map_rep K (handler_items S) P m B"
    using rep by (rule msg_repE)
  show ?thesis
    using get_value [OF m(2) k] m(1)
    by (cases "B (strings S name)") (fastforce simp: get_item_def value_rep_def)+
qed

lemma put_item_law:
  assumes rep: "map_rep K (handler_items S) P m B" and m: "tbox_msg_hashmap S = Some m" and k: "strings S name \<in> K"
    and v: "hpath (handler_items S) ptr as" "receivers (handler_items S) as = tp_receivers tp"
  shows "if B (strings S name) = None \<and> card (dom B) = 64
     then put_item S name (item_bytes pad (mgr tp ptr)) = Some (S, TBOX_E_NOMEMORY)
     else \<exists>m'. put_item S name (item_bytes pad (mgr tp ptr)) = Some (S\<lparr>tbox_msg_hashmap := Some m'\<rparr>, TBOX_E_OK) \<and>
       map_rep K (handler_items S) (P(strings S name := as)) m' (B(strings S name \<mapsto> tp))"
proof -
  have "value_rep (handler_items S) as tp (item_bytes pad (mgr tp ptr))"
    using v by (auto simp: value_rep_def)
  from put_value [OF rep k this] m show ?thesis
    by (cases "B (strings S name) = None \<and> card (dom B) = 64") (auto simp: put_item_def)
qed

lemma register_refines:
  assumes rep: "msg_rep K S H P B" and k: "\<not> bad_name S (rg_name r) \<Longrightarrow> strings S (rg_name r) \<in> K"
  shows "\<exists>S' P'. tbox_message_register pad (Some r) S = Some (S', snd (spec_register (strings S) r B)) \<and>
     msg_rep K S' H P' (fst (spec_register (strings S) r B)) \<and> strings S' = strings S \<and>
     tbox_msg_buffer S' = tbox_msg_buffer S \<and>
     P' = (if snd (spec_register (strings S) r B) = TBOX_E_OK then P(strings S (rg_name r) := []) else P)"
proof -
  obtain m where m: "tbox_msg_is_init S" "tbox_msg_mutex S" "core_inv (core_memory S) H"
    "tbox_msg_hashmap S = Some m" "map_rep K (handler_items S) P m B" "owned H (tbox_msg_buffer S) P (dom B)"
    using rep by (rule msg_repE)
  let ?k = "strings S (rg_name r)"
  show ?thesis
  proof (cases "bad_name S (rg_name r) \<or> rg_priority r \<ge> TBOX_MSG_PRIORITY_MAX \<or> rg_type r \<ge> TBOX_MSG_TYPE_MAX")
    case True
    then have "tbox_message_register pad (Some r) S = Some (S, TBOX_E_INVALID_PARAM)"
        "spec_register (strings S) r B = (B, TBOX_E_INVALID_PARAM)"
      by (auto simp: tbox_message_register_def spec_register_def bad_name_def Let_def)
    then show ?thesis using rep by auto
  next
    case False
    have i: "\<lparr>mi_priority = rg_priority r, mi_type = rg_type r, mi_enable = rg_enable r, mi_handler_list = 0\<rparr> = mgr (registered r) 0"
      by (simp add: mgr_def registered_def)
    have c: "tbox_message_register pad (Some r) S = do {
         (S, ret) \<leftarrow> put_item S (rg_name r) (item_bytes pad (mgr (registered r) 0));
         Some (S, if ret = TBOX_E_OK then TBOX_E_OK else TBOX_E_FAILED) }"
      using False m(1,2,4) by (simp add: tbox_message_register_def i)
    have sp: "spec_register (strings S) r B = (if B ?k = None \<and> card (dom B) = 64 then (B, TBOX_E_FAILED)
        else (B(?k \<mapsto> registered r), TBOX_E_OK))"
      using False by (auto simp: spec_register_def bad_name_def Let_def)
    have p: "hpath (handler_items S) 0 []" "receivers (handler_items S) [] = tp_receivers (registered r)"
      by (simp_all add: registered_def)
    note put = put_item_law [OF m(5,4) k p, of pad]
    show ?thesis
    proof (cases "B ?k = None \<and> card (dom B) = 64")
      case True
      then show ?thesis using put False c sp rep by auto
    next
      case new: False
      then obtain m' where m': "put_item S (rg_name r) (item_bytes pad (mgr (registered r) 0)) =
            Some (S\<lparr>tbox_msg_hashmap := Some m'\<rparr>, TBOX_E_OK)"
          "map_rep K (handler_items S) (P(?k := [])) m' (B(?k \<mapsto> registered r))"
        using put False by auto
      have "owned H (tbox_msg_buffer S) (P(?k := [])) (dom (B(?k \<mapsto> registered r)))"
        using owned_clear [OF m(6), of ?k] by simp
      then have "msg_rep K (S\<lparr>tbox_msg_hashmap := Some m'\<rparr>) H (P(?k := [])) (B(?k \<mapsto> registered r))"
        using m m'(2) unfolding msg_rep_def by simp
      then show ?thesis using c m'(1) sp new by auto
    qed
  qed
qed

lemma unregister_refines:
  assumes rep: "msg_rep K S H P B" and k: "\<not> bad_name S name \<Longrightarrow> strings S name \<in> K"
  shows "\<exists>S' H'. tbox_message_unregister name S = Some S' \<and>
     msg_rep K S' H' P (spec_unregister (strings S) name B) \<and> strings S' = strings S \<and>
     tbox_msg_buffer S' = tbox_msg_buffer S \<and>
     H' = (if bad_name S name \<or> B (strings S name) = None then H else H - set (P (strings S name)))"
proof -
  obtain m where m: "tbox_msg_is_init S" "tbox_msg_mutex S" "core_inv (core_memory S) H"
    "tbox_msg_hashmap S = Some m" "map_rep K (handler_items S) P m B" "owned H (tbox_msg_buffer S) P (dom B)"
    using rep by (rule msg_repE)
  let ?k = "strings S name"
  show ?thesis
  proof (cases "bad_name S name")
    case True
    then show ?thesis using rep by (auto simp: tbox_message_unregister_def spec_unregister_def bad_name_def)
  next
    case False
    note g = get_item_law [OF rep k [OF False]]
    have sp: "spec_unregister (strings S) name B = B(?k := None)"
      using False by (auto simp: spec_unregister_def bad_name_def)
    show ?thesis
    proof (cases "B ?k")
      case None
      then have "B(?k := None) = B" by (simp add: fun_upd_idem)
      then show ?thesis using g None False m(1,2,4) rep sp by (auto simp: tbox_message_unregister_def)
    next
      case (Some tp)
      then obtain pad ptr where i: "get_item S name = Some (item_bytes pad (mgr tp ptr), TBOX_E_OK)"
          "hpath (handler_items S) ptr (P ?k)"
        using g by auto
      have kd: "?k \<in> dom B" using Some by auto
      have o: "distinct (P ?k)" "set (P ?k) \<subseteq> H" using m(6) kd unfolding owned_def by auto
      obtain M where M: "core.release_all (core_memory S) (P ?k) = Some M" "core_inv M (H - set (P ?k))"
        using core.release_all_law [OF m(3) o] by blast
      obtain m' where m': "tbox_hashmap_remove (Some m) (Some ?k) = Some (Some m')"
          "map_rep K (handler_items S) P m' (B(?k := None))"
        using remove_value [OF m(5) k [OF False]] by blast
      let ?S' = "S\<lparr>core_memory := M, tbox_msg_hashmap := Some m'\<rparr>"
      have "tbox_message_unregister name S = Some ?S'"
        using False m(1,2,4) i M(1) m'(1) by (simp add: tbox_message_unregister_def free_handlers_path)
      moreover have "msg_rep K ?S' (H - set (P ?k)) P (B(?k := None))"
        using m M(2) m'(2) owned_drop [OF m(6) kd] unfolding msg_rep_def by simp
      ultimately show ?thesis using sp Some False by (intro exI [of _ ?S'] exI [of _ "H - set (P ?k)"]) simp
    qed
  qed
qed

lemma enable_refines:
  assumes rep: "msg_rep K S H P B" and k: "\<not> bad_name S name \<Longrightarrow> strings S name \<in> K"
  shows "\<exists>S'. tbox_message_enable name e S = Some S' \<and>
     msg_rep K S' H P (spec_enable (strings S) name e B) \<and> strings S' = strings S \<and>
     tbox_msg_buffer S' = tbox_msg_buffer S"
proof -
  obtain m where m: "tbox_msg_is_init S" "tbox_msg_mutex S" "core_inv (core_memory S) H"
    "tbox_msg_hashmap S = Some m" "map_rep K (handler_items S) P m B" "owned H (tbox_msg_buffer S) P (dom B)"
    using rep by (rule msg_repE)
  let ?k = "strings S name"
  show ?thesis
  proof (cases "bad_name S name")
    case True
    then show ?thesis using rep by (auto simp: tbox_message_enable_def spec_enable_def bad_name_def)
  next
    case False
    note g = get_item_law [OF rep k [OF False]]
    show ?thesis
    proof (cases "B ?k")
      case None
      then show ?thesis
        using g False m(1,2,4) rep by (auto simp: tbox_message_enable_def spec_enable_def bad_name_def)
    next
      case (Some tp)
      then obtain pad ptr where i: "get_item S name = Some (item_bytes pad (mgr tp ptr), TBOX_E_OK)"
          "hpath (handler_items S) ptr (P ?k)" "receivers (handler_items S) (P ?k) = tp_receivers tp"
        using g by auto
      let ?tp = "tp\<lparr>tp_enable := e\<rparr>"
      have r: "receivers (handler_items S) (P ?k) = tp_receivers ?tp" using i(3) by simp
      obtain m' where m': "put_item S name (item_bytes pad (mgr ?tp ptr)) = Some (S\<lparr>tbox_msg_hashmap := Some m'\<rparr>, TBOX_E_OK)"
          "map_rep K (handler_items S) (P(?k := P ?k)) m' (B(?k \<mapsto> ?tp))"
        using put_item_law [OF m(5,4) k [OF False] i(2) r, of pad] Some by auto
      have "dom (B(?k \<mapsto> ?tp)) = dom B" using Some by auto
      then have "msg_rep K (S\<lparr>tbox_msg_hashmap := Some m'\<rparr>) H P (B(?k \<mapsto> ?tp))"
        using m m'(2) unfolding msg_rep_def by simp
      moreover have "tbox_message_enable name e S = Some (S\<lparr>tbox_msg_hashmap := Some m'\<rparr>)"
        using False m(1,2,4) i(1) m'(1) by (simp add: tbox_message_enable_def)
      ultimately show ?thesis using Some False by (auto simp: spec_enable_def bad_name_def)
    qed
  qed
qed

lemma is_enabled_refines:
  assumes rep: "msg_rep K S H P B" and k: "\<not> bad_name S name \<Longrightarrow> strings S name \<in> K"
  shows "tbox_message_is_enabled name S = Some (spec_is_enabled (strings S) name B)"
proof -
  obtain m where m: "tbox_msg_is_init S" "tbox_msg_mutex S" "tbox_msg_hashmap S = Some m"
    using rep by (rule msg_repE)
  show ?thesis
    using get_item_law [OF rep k] m
    by (cases "bad_name S name"; cases "B (strings S name)")
      (auto simp: tbox_message_is_enabled_def spec_is_enabled_def bad_name_def)
qed

text \<open>The item that the memory of the core has for a new receiver, 0 if it has none.\<close>

end

definition new_item :: "msg_state \<Rightarrow> u32" where
  "new_item S = (case tbox_memory_alloc (core_memory S) TBOX_MEMORY_TYPE_CORE sizeof_handler_item of
     None \<Rightarrow> 0 | Some (_, p) \<Rightarrow> p)"

lemma new_item_cases:
  assumes "core_inv (core_memory S) H"
  obtains (none) "new_item S = 0" "tbox_memory_alloc (core_memory S) TBOX_MEMORY_TYPE_CORE sizeof_handler_item = Some (core_memory S, 0)"
  | (item) M where "new_item S \<noteq> 0" "new_item S \<notin> H" "core_inv M (insert (new_item S) H)"
      "tbox_memory_alloc (core_memory S) TBOX_MEMORY_TYPE_CORE sizeof_handler_item = Some (M, new_item S)"
proof -
  have "core_request sizeof_handler_item" by (simp add: core_request_def sizeof_handler_item_def)
  from core.alloc_law [OF assms this] show thesis
  proof
    assume "tbox_memory_alloc (core_memory S) TBOX_MEMORY_TYPE_CORE sizeof_handler_item = Some (core_memory S, 0)"
    then show thesis using none by (simp add: new_item_def)
  next
    assume "\<exists>M p. tbox_memory_alloc (core_memory S) TBOX_MEMORY_TYPE_CORE sizeof_handler_item = Some (M, p) \<and>
        p \<noteq> 0 \<and> p \<notin> H \<and> core_inv M (insert p H) \<and> unat p + unat sizeof_handler_item < 2 ^ 32"
    then obtain M p where "tbox_memory_alloc (core_memory S) TBOX_MEMORY_TYPE_CORE sizeof_handler_item = Some (M, p)"
        "p \<noteq> 0" "p \<notin> H" "core_inv M (insert p H)" by blast
    then show thesis using item [of M] by (simp add: new_item_def)
  qed
qed

text \<open>A state with a new item in hand, which no name has yet.\<close>

lemma fill_item_simps [simp]:
  "strings (fill_item new d h S) = strings S" "tbox_msg_is_init (fill_item new d h S) = tbox_msg_is_init S"
  "tbox_msg_mutex (fill_item new d h S) = tbox_msg_mutex S" "tbox_msg_hashmap (fill_item new d h S) = tbox_msg_hashmap S"
  "core_memory (fill_item new d h S) = core_memory S" "tbox_msg_buffer (fill_item new d h S) = tbox_msg_buffer S"
  "handler_items (fill_item new d h S) = (handler_items S)(new := \<lparr>hi_dst_id = d, hi_handler = h, hi_next = 0\<rparr>)"
  by (simp_all add: fill_item_def)

lemma fill_item_rep:
  assumes rep: "msg_rep K S H P B" and new: "new \<notin> H" and M: "core_inv M (insert new H)"
  shows "msg_rep K (fill_item new d handler (S\<lparr>core_memory := M\<rparr>)) (insert new H) P B"
proof -
  obtain m where m: "tbox_msg_is_init S" "tbox_msg_mutex S"
    "tbox_msg_hashmap S = Some m" "map_rep K (handler_items S) P m B" "owned H (tbox_msg_buffer S) P (dom B)"
    using rep by (rule msg_repE)
  have "map_rep K ((handler_items S)(new := \<lparr>hi_dst_id = d, hi_handler = handler, hi_next = 0\<rparr>)) P m B"
  proof (rule map_rep_cong [OF m(4)])
    fix k a
    assume "k \<in> dom B" "a \<in> set (P k)"
    then have "a \<in> H" using m(5) by (auto simp: owned_def)
    then show "((handler_items S)(new := \<lparr>hi_dst_id = d, hi_handler = handler, hi_next = 0\<rparr>)) a = handler_items S a"
      using new by auto
  qed
  then show ?thesis
    using m M owned_more [OF m(5), of "insert new H"] by (auto simp: msg_rep_def)
qed

context prefix_free
begin

lemma attach_refines:
  assumes rep: "msg_rep K S H P B" and k: "strings S name \<in> K" and new: "new \<noteq> 0" "new \<in> H - {tbox_msg_buffer S}"
    "\<And>k. k \<in> dom B \<Longrightarrow> new \<notin> set (P k)" "handler_items S new = \<lparr>hi_dst_id = d, hi_handler = handler, hi_next = 0\<rparr>"
  shows "\<exists>S' P'. attach_item type name d new S = Some (S', snd (spec_attach type (strings S name) d handler B)) \<and>
     msg_rep K S' H P' (fst (spec_attach type (strings S name) d handler B)) \<and> strings S' = strings S \<and>
     tbox_msg_buffer S' = tbox_msg_buffer S \<and>
     P' = (if attaches type (strings S name) d B then P(strings S name := P (strings S name) @ [new]) else P)"
proof -
  obtain m where m: "tbox_msg_is_init S" "tbox_msg_mutex S" "core_inv (core_memory S) H"
    "tbox_msg_hashmap S = Some m" "map_rep K (handler_items S) P m B" "owned H (tbox_msg_buffer S) P (dom B)"
    using rep by (rule msg_repE)
  let ?k = "strings S name"
  note g = get_item_law [OF rep k]
  show ?thesis
  proof (cases "B ?k")
    case None
    then show ?thesis using g rep by (auto simp: attach_item_def spec_attach_def attaches_def)
  next
    case (Some tp)
    then obtain pad ptr where i: "get_item S name = Some (item_bytes pad (mgr tp ptr), TBOX_E_OK)"
        "hpath (handler_items S) ptr (P ?k)" "receivers (handler_items S) (P ?k) = tp_receivers tp"
      using g by auto
    have kd: "?k \<in> dom B" using Some by auto
    have nP: "new \<notin> set (P ?k)" and dP: "distinct (P ?k)" using new(3) [OF kd] m(6) kd by (auto simp: owned_def)
    have ptr: "ptr = 0 \<longleftrightarrow> P ?k = []"
      using hpath_head [OF i(2)] hpath_nonnull [OF i(2)] hd_in_set [of "P ?k"] by metis
    show ?thesis
    proof (cases "tp_type tp \<noteq> type")
      case True
      then show ?thesis using i(1) rep Some by (auto simp: attach_item_def spec_attach_def attaches_def)
    next
      case type: False
      let ?rs = "tp_receivers tp @ [(d, handler)]"
      let ?tp = "tp\<lparr>tp_receivers := ?rs\<rparr>"
      consider (known) "d \<in> fst ` set (tp_receivers tp)" | (first) "P ?k = []" |
          (behind) "d \<notin> fst ` set (tp_receivers tp)" "P ?k \<noteq> []" by blast
      then show ?thesis
      proof cases
        case known
        then have "ptr \<noteq> 0" using i(3) ptr by auto
        moreover have "link_handler d new (handler_items S) ptr = Some (handler_items S)"
          using link_handler_known [OF i(2)] known i(3) by simp
        moreover obtain m' where "put_item S name (item_bytes pad (mgr tp ptr)) = Some (S\<lparr>tbox_msg_hashmap := Some m'\<rparr>, TBOX_E_OK)"
            "map_rep K (handler_items S) (P(?k := P ?k)) m' (B(?k \<mapsto> tp))"
          using put_item_law [OF m(5,4) k i(2,3), of pad] Some by auto
        moreover have "B(?k \<mapsto> tp) = B" using Some by auto
        ultimately show ?thesis
          using i(1) type known Some m by (auto simp: attach_item_def spec_attach_def attaches_def msg_rep_def)
      next
        case first
        then have e: "tp_receivers tp = []" "ptr = 0" using i(3) ptr by auto
        have h: "hpath (handler_items S) new [new]" "receivers (handler_items S) [new] = tp_receivers ?tp"
          using new(1,4) e(1) by auto
        have g: "mgr ?tp new = mgr tp new" by (simp add: mgr_def)
        obtain m' where m': "put_item S name (item_bytes pad (mgr tp new)) = Some (S\<lparr>tbox_msg_hashmap := Some m'\<rparr>, TBOX_E_OK)"
            "map_rep K (handler_items S) (P(?k := P ?k @ [new])) m' (B(?k \<mapsto> ?tp))"
          using put_item_law [OF m(5,4) k h, of pad] Some first g by auto
        have "owned H (tbox_msg_buffer S) (P(?k := P ?k @ [new])) (dom (B(?k \<mapsto> ?tp)))"
          using owned_link [OF m(6) new(2,3), of ?k] kd by (simp add: insert_absorb)
        then have "msg_rep K (S\<lparr>tbox_msg_hashmap := Some m'\<rparr>) H (P(?k := P ?k @ [new])) (B(?k \<mapsto> ?tp))"
          using m m'(2) by (simp add: msg_rep_def)
        then show ?thesis
          using i(1) type e Some m'(1) by (auto simp: attach_item_def spec_attach_def attaches_def)
      next
        case behind
        let ?items = "(handler_items S)(last (P ?k) := (handler_items S (last (P ?k)))\<lparr>hi_next := new\<rparr>)"
        have l: "link_handler d new (handler_items S) ptr = Some ?items"
          using link_handler_new [OF i(2) behind(2)] behind(1) i(3) by simp
        have last: "last (P ?k) \<in> set (P ?k)" using behind(2) by simp
        have h: "hpath ?items ptr (P ?k @ [new])"
          using hpath_append [OF i(2) behind(2) dP new(1) nP] new(4) by simp
        have r: "receivers ?items (P ?k @ [new]) = tp_receivers ?tp"
          using receivers_append [OF behind(2) nP, of "handler_items S"] i(3) new(4) by simp
        have map: "map_rep K ?items (P(?k := P ?k @ [new])) m (B(?k \<mapsto> ?tp))"
        proof (rule map_rep_link [OF m(5) Some])
          fix bs
          assume "value_rep (handler_items S) (P ?k) tp bs"
          then obtain pad' ptr' where "bs = item_bytes pad' (mgr tp ptr')" "hpath (handler_items S) ptr' (P ?k)"
            unfolding value_rep_def by blast
          then have "bs = item_bytes pad' (mgr ?tp ptr')" "hpath ?items ptr' (P ?k @ [new])"
            using hpath_append [OF _ behind(2) dP new(1) nP] new(4) by (simp_all add: mgr_def)
          then show "value_rep ?items (P ?k @ [new]) ?tp bs" using r unfolding value_rep_def by blast
        next
          fix k' a
          assume k': "k' \<in> dom B" "k' \<noteq> ?k" "a \<in> set (P k')"
          then have "set (P k') \<inter> set (P ?k) = {}" using m(6) kd unfolding owned_def by blast
          then have "a \<noteq> last (P ?k)" using k'(3) last by blast
          then show "?items a = handler_items S a" by simp
        qed
        let ?S = "S\<lparr>handler_items := ?items\<rparr>"
        have g: "mgr ?tp ptr = mgr tp ptr" by (simp add: mgr_def)
        obtain m' where m': "put_item ?S name (item_bytes pad (mgr tp ptr)) = Some (?S\<lparr>tbox_msg_hashmap := Some m'\<rparr>, TBOX_E_OK)"
            "map_rep K ?items (P(?k := P ?k @ [new])) m' (B(?k \<mapsto> ?tp))"
          using put_item_law [of ?S "P(?k := P ?k @ [new])" m "B(?k \<mapsto> ?tp)" name ptr "P ?k @ [new]" ?tp pad]
            map m(4) k h r g by auto
        have "owned H (tbox_msg_buffer S) (P(?k := P ?k @ [new])) (dom (B(?k \<mapsto> ?tp)))"
          using owned_link [OF m(6) new(2,3), of ?k] kd by (simp add: insert_absorb)
        then have "msg_rep K (?S\<lparr>tbox_msg_hashmap := Some m'\<rparr>) H (P(?k := P ?k @ [new])) (B(?k \<mapsto> ?tp))"
          using m m'(2) by (simp add: msg_rep_def)
        then show ?thesis
          using i(1) type behind ptr Some m'(1) l by (auto simp: attach_item_def spec_attach_def attaches_def)
      qed
    qed
  qed
qed

lemma add_refines:
  fixes S :: msg_state and handler :: u32 and d :: TBOX_ID and type :: u8
  assumes rep: "msg_rep K S H P B" and k: "\<not> bad_name S name \<Longrightarrow> strings S name \<in> K"
  defines "r \<equiv> spec_add (new_item S \<noteq> 0) type (strings S) name d handler B"
    and "fresh \<equiv> \<not> bad_receiver (strings S) name d handler \<and> new_item S \<noteq> 0"
  shows "\<exists>S' P'. add_receiver type name d handler S = Some (S', snd r) \<and> strings S' = strings S \<and>
     tbox_msg_buffer S' = tbox_msg_buffer S \<and>
     msg_rep K S' (if fresh then insert (new_item S) H else H) P' (fst r) \<and>
     P' = (if fresh \<and> attaches type (strings S name) d B
           then P(strings S name := P (strings S name) @ [new_item S]) else P)"
proof -
  obtain m where m: "tbox_msg_is_init S" "tbox_msg_mutex S" "core_inv (core_memory S) H"
    "tbox_msg_hashmap S = Some m" "owned H (tbox_msg_buffer S) P (dom B)"
    using rep by (rule msg_repE)
  show ?thesis
  proof (cases "bad_receiver (strings S) name d handler")
    case True
    then have "add_receiver type name d handler S = Some (S, TBOX_E_INVALID_PARAM)"
      by (auto simp: add_receiver_def bad_receiver_def bad_name_def)
    then show ?thesis using True rep by (auto simp: r_def fresh_def spec_add_def)
  next
    case ok: False
    then have ok': "\<not> bad_name S name" "handler \<noteq> 0" "\<not> d \<le>s TBOX_ID_INVALID"
      by (auto simp: bad_receiver_def bad_name_def)
    from m(3) show ?thesis
    proof (cases rule: new_item_cases)
      case none
      then have "add_receiver type name d handler S = Some (S, TBOX_E_FAILED_ALLOC)"
        using ok' m(1) by (simp add: add_receiver_def)
      then show ?thesis using ok none rep by (auto simp: r_def fresh_def spec_add_def)
    next
      case (item M)
      let ?new = "new_item S"
      let ?S = "fill_item ?new d handler (S\<lparr>core_memory := M\<rparr>)"
      have rep': "msg_rep K ?S (insert ?new H) P B" using fill_item_rep [OF rep item(2,3)] .
      have n: "?new \<in> insert ?new H - {tbox_msg_buffer ?S}" "\<And>k. k \<in> dom B \<Longrightarrow> ?new \<notin> set (P k)"
        using m(5) item(2) by (auto simp: owned_def)
      have c: "add_receiver type name d handler S = attach_item type name d ?new ?S"
        using ok' m(1,2,4) item(1,4) by (simp add: add_receiver_def)
      have "strings ?S name \<in> K" using k ok' by simp
      from attach_refines [OF rep' this item(1) n, of d handler type] show ?thesis
        using c ok item(1) by (auto simp: r_def fresh_def spec_add_def)
    qed
  qed
qed

lemma remove_one_value:
  assumes rep: "map_rep K items P m B" and B: "B \<noteq> Map.empty"
  shows "\<exists>k tp bs m' ret. B k = Some tp \<and> value_rep items (P k) tp bs \<and>
     tbox_hashmap_remove_one (Some m) (Some (replicate 8 0)) = Some (Some m', Some bs, ret) \<and>
     map_rep K items P m' (B(k := None))"
proof -
  obtain A L f where r: "hm_rep tbox_msg_hashmap_string_hash_func tbox_msg_hashmap_string_cmp_func K A L m f"
      "dom f = dom B" "\<forall>k tp. B k = Some tp \<longrightarrow> (\<exists>bs. f k = Some bs \<and> value_rep items (P k) tp bs)"
      "ele_size m = sizeof_mgr_item" "capacity m = TBOX_MESSAGE_MAX_NUM"
    using rep unfolding map_rep_def by blast
  have "f \<noteq> Map.empty" using B r(2) by auto
  then obtain k w m' L' where k: "f k = Some w"
      "tbox_hashmap_remove_one (Some m) (Some (replicate 8 0)) = Some (Some m', Some (blit (replicate 8 0) 0 w), TBOX_E_OK)"
      "hm_rep tbox_msg_hashmap_string_hash_func tbox_msg_hashmap_string_cmp_func K A L' m' (f(k := None))"
      "ele_size m' = ele_size m" "capacity m' = capacity m"
    using remove_one_rep [OF r(1), of "replicate 8 0"] r(4) by auto
  have "k \<in> dom B" using k(1) r(2) by auto
  then obtain tp where tp: "B k = Some tp" "value_rep items (P k) tp w" using r(3) k(1) by force
  have "length w = 8" using tp(2) by (auto simp: value_rep_def)
  then have "blit (replicate 8 0) 0 w = w" by (simp add: blit_def)
  moreover have "map_rep K items P m' (B(k := None))"
    unfolding map_rep_def
  proof (intro conjI exI)
    show "hm_rep tbox_msg_hashmap_string_hash_func tbox_msg_hashmap_string_cmp_func K A L' m' (f(k := None))" by (rule k(3))
    show "dom (f(k := None)) = dom (B(k := None))" using r(2) by simp
    show "\<forall>k' tp'. (B(k := None)) k' = Some tp' \<longrightarrow>
        (\<exists>bs'. (f(k := None)) k' = Some bs' \<and> value_rep items (P k') tp' bs')"
      using r(3) by auto
  qed (use k r in auto)
  ultimately show ?thesis using tp k(2) by auto
qed

text \<open>Set-up: an empty registry that owns its buffer, or nothing.\<close>

lemma init_law:
  assumes S: "\<not> tbox_msg_is_init S" and M: "core_inv (core_memory S) H"
  shows "\<exists>S' e. tbox_message_init mutex S = Some (S', e) \<and> strings S' = strings S \<and>
     (if e = TBOX_E_OK then tbox_msg_buffer S' \<notin> H \<and> mutex \<and>
         msg_rep K S' (insert (tbox_msg_buffer S') H) (\<lambda>_. []) Map.empty
      else \<not> tbox_msg_is_init S' \<and> core_inv (core_memory S') H \<and>
        (mutex \<longrightarrow> tbox_memory_alloc (core_memory S) TBOX_MEMORY_TYPE_CORE 1536 = Some (core_memory S, 0)))"
proof -
  let ?sz = "sizeof_mgr_item * TBOX_MESSAGE_MAX_NUM + TBOX_MESSAGE_MAP_MGR_SIZE"
  have sz: "?sz = 1536" by (simp add: sizeof_mgr_item_def TBOX_MESSAGE_MAX_NUM_def TBOX_MESSAGE_MAP_MGR_SIZE_def)
  have rq: "core_request ?sz" unfolding sz by (simp add: core_request_def)
  from core.alloc_law [OF M rq] consider
    (none) "tbox_memory_alloc (core_memory S) TBOX_MEMORY_TYPE_CORE ?sz = Some (core_memory S, 0)"
  | (buf) M' p where "tbox_memory_alloc (core_memory S) TBOX_MEMORY_TYPE_CORE ?sz = Some (M', p)" "p \<noteq> 0" "p \<notin> H"
      "core_inv M' (insert p H)" "unat p + unat ?sz < 2 ^ 32"
    by blast
  then show ?thesis
  proof cases
    case none
    then show ?thesis using S M sz by (simp add: tbox_message_init_def Let_def)
  next
    case (buf M' p)
    have "table_fits p ?sz TBOX_MESSAGE_MAX_NUM sizeof_mgr_item"
      using buf(2,5) unfolding sz
      by (simp add: table_fits_def buckets_for_def sizeof_mgr_item_def TBOX_MESSAGE_MAX_NUM_def word_neq_0_conv
          word_less_nat_alt)
    then obtain m A L where m: "tbox_hashmap_create p ?sz TBOX_MESSAGE_MAX_NUM sizeof_mgr_item
          (Some tbox_msg_hashmap_string_hash_func) (Some tbox_msg_hashmap_string_cmp_func) = Some (Some m)"
        "hm_rep tbox_msg_hashmap_string_hash_func tbox_msg_hashmap_string_cmp_func K A L m Map.empty"
        "capacity m = TBOX_MESSAGE_MAX_NUM" "ele_size m = sizeof_mgr_item"
      using create_rep [where K = K] by blast
    obtain M2 where M2: "tbox_memory_free M' TBOX_MEMORY_TYPE_CORE p = Some M2" "core_inv M2 H"
      using core.give_back [OF M rq buf(1,2)] by blast
    let ?S = "S\<lparr>core_memory := M', tbox_msg_hashmap := Some m, tbox_msg_buffer := p,
        tbox_msg_mutex := True, tbox_msg_is_init := True\<rparr>"
    show ?thesis
    proof (cases mutex)
      case True
      have "map_rep K (handler_items S) (\<lambda>_. []) m Map.empty"
        using m(2-4) unfolding map_rep_def by auto
      then have "msg_rep K ?S (insert p H) (\<lambda>_. []) Map.empty"
        using buf(4) by (simp add: msg_rep_def owned_def)
      moreover have "tbox_message_init mutex S = Some (?S, TBOX_E_OK)"
        using S buf(1,2) m(1) True by (simp add: tbox_message_init_def Let_def)
      ultimately show ?thesis using buf(3) True by auto
    next
      case False
      have "tbox_message_init mutex S = Some (S\<lparr>core_memory := M2, tbox_msg_hashmap := None,
          tbox_msg_buffer := p, tbox_msg_mutex := False\<rparr>, TBOX_E_FAILED_CREATE)"
        using S buf(1,2) m(1) False M2(1) by (simp add: tbox_message_init_def Let_def)
      then show ?thesis using S M2(2) False by simp
    qed
  qed
qed

text \<open>Shut-down: every handler item of every name and the buffer go back to the memory.\<close>

lemma deinit_rounds:
  assumes "msg_rep K S H P B" and "card (dom B) = n"
  shows "\<exists>S'. for_up i n (\<lambda>_. deinit_round) S = Some S' \<and> strings S' = strings S \<and>
     tbox_msg_buffer S' = tbox_msg_buffer S \<and> tbox_msg_hashmap S' \<noteq> None \<and>
     core_inv (core_memory S') (H - \<Union> (set ` P ` dom B))"
  using assms
proof (induction n arbitrary: S H B i)
  case 0
  then have "dom B = {}" using map_rep_finite by (auto elim!: msg_repE)
  then show ?case using 0(1) by (auto elim!: msg_repE)
next
  case (Suc n)
  obtain m where m: "tbox_msg_is_init S" "tbox_msg_mutex S" "core_inv (core_memory S) H"
    "tbox_msg_hashmap S = Some m" "map_rep K (handler_items S) P m B" "owned H (tbox_msg_buffer S) P (dom B)"
    using Suc.prems(1) by (rule msg_repE)
  have "B \<noteq> Map.empty" using Suc.prems(2) by auto
  from remove_one_value [OF m(5) this] obtain k tp bs m' ret where k: "B k = Some tp"
      "value_rep (handler_items S) (P k) tp bs"
      "tbox_hashmap_remove_one (Some m) (Some (replicate 8 0)) = Some (Some m', Some bs, ret)"
      "map_rep K (handler_items S) P m' (B(k := None))"
    by blast
  have kd: "k \<in> dom B" using k(1) by auto
  have o: "distinct (P k)" "set (P k) \<subseteq> H" using m(6) kd unfolding owned_def by auto
  obtain M where M: "core.release_all (core_memory S) (P k) = Some M" "core_inv M (H - set (P k))"
    using core.release_all_law [OF m(3) o] by blast
  have "free_handlers (handler_items S) (core_memory S) (mi_handler_list (item_of bs)) = Some M"
    using k(2) M(1) free_handlers_path by (auto simp: value_rep_def)
  then have r: "deinit_round S = Some (S\<lparr>tbox_msg_hashmap := Some m', core_memory := M\<rparr>)" (is "_ = Some ?S")
    using m(4) k(3) by (simp add: deinit_round_def)
  have rep: "msg_rep K ?S (H - set (P k)) P (B(k := None))"
    using m M(2) k(4) owned_drop [OF m(6) kd] by (simp add: msg_rep_def)
  have "card (dom (B(k := None))) = n" using Suc.prems(2) kd by simp
  from Suc.IH [OF rep this, of "Suc i"] obtain S' where
    S': "for_up (Suc i) n (\<lambda>_. deinit_round) ?S = Some S'" "strings S' = strings ?S"
      "tbox_msg_buffer S' = tbox_msg_buffer ?S" "tbox_msg_hashmap S' \<noteq> None"
      "core_inv (core_memory S') (H - set (P k) - \<Union> (set ` P ` dom (B(k := None))))"
    by blast
  have "H - set (P k) - \<Union> (set ` P ` dom (B(k := None))) = H - \<Union> (set ` P ` dom B)"
    using kd by auto
  then show ?case using r S' by auto
qed

lemma deinit_law:
  assumes rep: "msg_rep K S H P B"
  shows "\<exists>S'. tbox_message_deinit S = Some S' \<and> strings S' = strings S \<and> \<not> tbox_msg_is_init S' \<and>
     \<not> tbox_msg_mutex S' \<and> tbox_msg_hashmap S' = None \<and>
     core_inv (core_memory S') (H - {tbox_msg_buffer S} - \<Union> (set ` P ` dom B))"
proof -
  obtain m where m: "tbox_msg_is_init S" "tbox_msg_mutex S" "tbox_msg_hashmap S = Some m"
      "map_rep K (handler_items S) P m B" "owned H (tbox_msg_buffer S) P (dom B)"
    using rep by (rule msg_repE)
  have n: "card (dom B) = unat (tbox_hashmap_get_count (Some m))"
    using m(4) hm_rep_count(2) unfolding map_rep_def tbox_hashmap_get_count_def by fastforce
  obtain S' where S': "for_up 0 (unat (tbox_hashmap_get_count (tbox_msg_hashmap S))) (\<lambda>_. deinit_round) S = Some S'"
      "strings S' = strings S" "tbox_msg_buffer S' = tbox_msg_buffer S" "tbox_msg_hashmap S' \<noteq> None"
      "core_inv (core_memory S') (H - \<Union> (set ` P ` dom B))"
    using deinit_rounds [OF rep n, of 0] m(3) by auto
  have "tbox_msg_buffer S \<in> H - \<Union> (set ` P ` dom B)" using m(5) unfolding owned_def by auto
  from core.release_law [OF S'(5) this] obtain M where
    M: "tbox_memory_free (core_memory S') TBOX_MEMORY_TYPE_CORE (tbox_msg_buffer S) = Some M"
      "core_inv M (H - \<Union> (set ` P ` dom B) - {tbox_msg_buffer S})"
    by blast
  have "H - \<Union> (set ` P ` dom B) - {tbox_msg_buffer S} = H - {tbox_msg_buffer S} - \<Union> (set ` P ` dom B)" by blast
  then show ?thesis
    using m(1-3) S' M by (auto simp: tbox_message_deinit_def)
qed

end

end
