(* ===== verification/MessageClaims.thy ===== *)
theory MessageClaims imports MessageRef begin

text \<open>
  The properties of the message registry: any sequence of calls answers as the map from names to
  topics does, the memory taken between set-up and shut-down is accounted for, and every state is
  well typed.
\<close>

section \<open>Calls\<close>

datatype msg_call =
    Register u8 TBOX_MSG_REGINFO
  | Unregister u32
  | Enable u32 u8
  | Is_enabled u32
  | Add_handler u32 TBOX_ID u32
  | Subscribe u32 TBOX_ID u32

datatype answer = Code TBOX_ERROR_CODE | Flag u8 | Done

fun do_call :: "msg_call \<Rightarrow> msg_state \<Rightarrow> (msg_state \<times> answer) option" where
  "do_call (Register pad r) S = do { (S, e) \<leftarrow> tbox_message_register pad (Some r) S; Some (S, Code e) }"
| "do_call (Unregister name) S = do { S \<leftarrow> tbox_message_unregister name S; Some (S, Done) }"
| "do_call (Enable name e) S = do { S \<leftarrow> tbox_message_enable name e S; Some (S, Done) }"
| "do_call (Is_enabled name) S = do { e \<leftarrow> tbox_message_is_enabled name S; Some (S, Flag e) }"
| "do_call (Add_handler name d h) S = do { (S, e) \<leftarrow> tbox_message_add_handler name d h S; Some (S, Code e) }"
| "do_call (Subscribe name d h) S = do { (S, e) \<leftarrow> tbox_message_subscribe name d h S; Some (S, Code e) }"

fun do_calls :: "msg_call list \<Rightarrow> msg_state \<Rightarrow> (msg_state \<times> answer list) option" where
  "do_calls [] S = Some (S, [])"
| "do_calls (c # cs) S = do { (S, a) \<leftarrow> do_call c S; (S, as) \<leftarrow> do_calls cs S; Some (S, a # as) }"

text \<open>
  The calls on the map; a call comes with whether there is memory for an item. The number counts
  the items nobody refers to any more: those of a name that is registered again, and those of a
  receiver that is not added.
\<close>

definition receivers_of :: "broker \<Rightarrow> u8 list \<Rightarrow> nat" where
  "receivers_of B k = (case B k of None \<Rightarrow> 0 | Some tp \<Rightarrow> length (tp_receivers tp))"

definition spec_receiver :: "bool \<Rightarrow> u8 \<Rightarrow> (u32 \<Rightarrow> u8 list) \<Rightarrow> u32 \<Rightarrow> TBOX_ID \<Rightarrow> u32 \<Rightarrow> broker \<Rightarrow> broker \<times> answer \<times> nat" where
  "spec_receiver room type str name d h B = (let (B', e) = spec_add room type str name d h B in
     (B', Code e, if \<not> bad_receiver str name d h \<and> room \<and> \<not> attaches type (str name) d B then 1 else 0))"

fun spec_call :: "(u32 \<Rightarrow> u8 list) \<Rightarrow> bool \<times> msg_call \<Rightarrow> broker \<Rightarrow> broker \<times> answer \<times> nat" where
  "spec_call str (room, Register pad r) B = (let (B', e) = spec_register str r B in
     (B', Code e, if e = TBOX_E_OK then receivers_of B (str (rg_name r)) else 0))"
| "spec_call str (room, Unregister name) B = (spec_unregister str name B, Done, 0)"
| "spec_call str (room, Enable name e) B = (spec_enable str name e B, Done, 0)"
| "spec_call str (room, Is_enabled name) B = (B, Flag (spec_is_enabled str name B), 0)"
| "spec_call str (room, Add_handler name d h) B = spec_receiver room TBOX_MSG_TYPE_MESSAGE str name d h B"
| "spec_call str (room, Subscribe name d h) B = spec_receiver room TBOX_MSG_TYPE_TOPIC str name d h B"

fun spec_calls :: "(u32 \<Rightarrow> u8 list) \<Rightarrow> (bool \<times> msg_call) list \<Rightarrow> broker \<Rightarrow> broker \<times> answer list \<times> nat" where
  "spec_calls str [] B = (B, [], 0)"
| "spec_calls str (c # cs) B = (let (B, a, n) = spec_call str c B; (B, as, n') = spec_calls str cs B in
     (B, a # as, n + n'))"

fun call_name :: "msg_call \<Rightarrow> u32" where
  "call_name (Register pad r) = rg_name r"
| "call_name (Unregister name) = name"
| "call_name (Enable name e) = name"
| "call_name (Is_enabled name) = name"
| "call_name (Add_handler name d h) = name"
| "call_name (Subscribe name d h) = name"

text \<open>The names of the calls, without those that are refused.\<close>

definition names_in :: "u8 list set \<Rightarrow> (u32 \<Rightarrow> u8 list) \<Rightarrow> msg_call list \<Rightarrow> bool" where
  "names_in K str cs \<longleftrightarrow> (\<forall>c\<in>set cs. call_name c = 0 \<or> str (call_name c) = [] \<or> str (call_name c) \<in> K)"

section \<open>Well-typed topics\<close>

definition topic_ok :: "topic \<Rightarrow> bool" where
  "topic_ok tp \<longleftrightarrow> tp_priority tp < TBOX_MSG_PRIORITY_MAX \<and> tp_type tp < TBOX_MSG_TYPE_MAX \<and>
     distinct (map fst (tp_receivers tp)) \<and> (\<forall>(d, h)\<in>set (tp_receivers tp). \<not> d \<le>s TBOX_ID_INVALID \<and> h \<noteq> 0)"

definition broker_ok :: "broker \<Rightarrow> bool" where
  "broker_ok B \<longleftrightarrow> (\<forall>tp\<in>ran B. topic_ok tp)"

lemma broker_ok_upd: "broker_ok B \<Longrightarrow> topic_ok tp \<Longrightarrow> broker_ok (B(k \<mapsto> tp))"
  unfolding broker_ok_def ran_def by auto

lemma broker_okD: "broker_ok B \<Longrightarrow> B k = Some tp \<Longrightarrow> topic_ok tp"
  by (auto simp: broker_ok_def ran_def)

lemma broker_ok_simps [simp]: "broker_ok Map.empty" "broker_ok B \<Longrightarrow> broker_ok (B(k := None))"
  by (auto simp: broker_ok_def ran_def)

lemma spec_register_ok: "broker_ok B \<Longrightarrow> broker_ok (fst (spec_register str r B))"
  by (auto simp: spec_register_def Let_def topic_ok_def registered_def intro!: broker_ok_upd)

lemma broker_ok_change:
  "broker_ok B \<Longrightarrow> B k = Some tp \<Longrightarrow> (topic_ok tp \<Longrightarrow> topic_ok tp') \<Longrightarrow> broker_ok (B(k \<mapsto> tp'))"
  using broker_ok_upd broker_okD by blast

lemma spec_enable_ok: "broker_ok B \<Longrightarrow> broker_ok (spec_enable str name e B)"
  by (auto simp: spec_enable_def topic_ok_def split: option.split intro!: broker_ok_change)

lemma spec_receiver_ok: "broker_ok B \<Longrightarrow> broker_ok (fst (spec_receiver room type str name d h B))"
  by (auto simp: spec_receiver_def spec_add_def spec_attach_def bad_receiver_def topic_ok_def Let_def case_prod_unfold
      intro!: broker_ok_change split: option.split)

lemma spec_call_ok: "broker_ok B \<Longrightarrow> broker_ok (fst (spec_call str c B))"
  by (cases "(str, c, B)" rule: spec_call.cases)
    (auto simp: spec_register_ok spec_enable_ok spec_receiver_ok spec_unregister_def Let_def case_prod_unfold)

section \<open>The pointers in use\<close>

text \<open>What is in use beside the buffer and the items of the names.\<close>

definition others :: "u32 set \<Rightarrow> u32 \<Rightarrow> (u8 list \<Rightarrow> u32 list) \<Rightarrow> u8 list set \<Rightarrow> u32 set" where
  "others H buf P D = H - {buf} - \<Union> (set ` P ` D)"

definition registry :: "u8 list set \<Rightarrow> u32 set \<Rightarrow> nat \<Rightarrow> msg_state \<Rightarrow> broker \<Rightarrow> bool" where
  "registry K H0 n S B \<longleftrightarrow> broker_ok B \<and> (\<exists>H P L. msg_rep K S H P B \<and>
     others H (tbox_msg_buffer S) P (dom B) = H0 \<union> L \<and> H0 \<inter> L = {} \<and> finite L \<and> card L = n)"

lemma registryE:
  assumes "registry K H0 n S B"
  obtains H P L where "broker_ok B" "msg_rep K S H P B" "others H (tbox_msg_buffer S) P (dom B) = H0 \<union> L"
    "H0 \<inter> L = {}" "finite L" "card L = n"
  using assms unfolding registry_def by blast

text \<open>A step from a state of the registry to one where \<open>L'\<close> is lost.\<close>

lemma registryI:
  assumes L: "others H (tbox_msg_buffer S) P (dom B) = H0 \<union> L" "H0 \<inter> L = {}" "finite L" "card L = n"
    and S': "broker_ok B'" "msg_rep K S' H' P' B'"
    and o: "others H' (tbox_msg_buffer S') P' (dom B') = others H (tbox_msg_buffer S) P (dom B) \<union> L'"
    and L': "others H (tbox_msg_buffer S) P (dom B) \<inter> L' = {}" "finite L'" "card L' = l"
  shows "registry K H0 (n + l) S' B'"
proof -
  have d: "L \<inter> L' = {}" "H0 \<inter> (L \<union> L') = {}" using L(2) L'(1) unfolding L(1) by blast+
  then have "card (L \<union> L') = n + l" "finite (L \<union> L')" using L(3,4) L'(2,3) d(1) by (simp_all add: card_Un_disjoint)
  moreover have "others H' (tbox_msg_buffer S') P' (dom B') = H0 \<union> (L \<union> L')"
    unfolding o L(1) by blast
  ultimately show ?thesis unfolding registry_def using S' d(2) by blast
qed

lemma receivers_length: "length (receivers items as) = length as"
  by (simp add: receivers_def)

lemma receivers_card:
  assumes "msg_rep K S H P B"
  shows "receivers_of B k = (if k \<in> dom B then card (set (P k)) else 0)"
proof (cases "B k")
  case (Some tp)
  obtain m where m: "map_rep K (handler_items S) P m B" "owned H (tbox_msg_buffer S) P (dom B)"
    using assms by (rule msg_repE)
  obtain bs where "value_rep (handler_items S) (P k) tp bs"
    using m(1) Some unfolding map_rep_def by blast
  then have "receivers (handler_items S) (P k) = tp_receivers tp" unfolding value_rep_def by blast
  then have "length (tp_receivers tp) = length (P k)" by (metis receivers_length)
  moreover have "distinct (P k)" using m(2) Some unfolding owned_def by auto
  ultimately show ?thesis using Some by (simp add: receivers_of_def distinct_card domI)
qed (simp add: receivers_of_def domIff)

lemma others_clear:
  "others H buf (P(k := [])) (insert k D) = others H buf P D \<union> (if k \<in> D then set (P k) else {})"
  if "owned H buf P D"
proof (cases "k \<in> D")
  case True
  have "x \<notin> set (P k')" if "x \<in> set (P k)" "k' \<in> D" "k' \<noteq> k" for x k'
    using \<open>owned H buf P D\<close> True that unfolding owned_def by blast
  moreover have "set (P k) \<subseteq> H - {buf}" using \<open>owned H buf P D\<close> True unfolding owned_def by blast
  ultimately show ?thesis using True unfolding others_def by auto
next
  case False
  then show ?thesis unfolding others_def by auto
qed

lemma others_drop: "k \<in> D \<Longrightarrow> others (H - set (P k)) buf P (D - {k}) = others H buf P D"
  unfolding others_def by blast

lemma others_link:
  "new \<notin> H \<Longrightarrow> k \<in> D \<Longrightarrow> others (insert new H) buf (P(k := P k @ [new])) D = others H buf P D"
  unfolding others_def by (auto split: if_splits)

lemma others_stray:
  "new \<notin> H \<Longrightarrow> owned H buf P D \<Longrightarrow> others (insert new H) buf P D = others H buf P D \<union> {new}"
  unfolding others_def owned_def by blast

context prefix_free
begin

text \<open>One call.\<close>

definition follows :: "u32 set \<Rightarrow> nat \<Rightarrow> msg_state \<Rightarrow> (msg_state \<times> answer) option \<Rightarrow> broker \<times> answer \<times> nat \<Rightarrow> bool" where
  "follows H0 n S out r \<longleftrightarrow> (\<exists>S'. out = Some (S', fst (snd r)) \<and> strings S' = strings S \<and>
     registry K H0 (n + snd (snd r)) S' (fst r))"

lemma register_call:
  assumes rep: "registry K H0 n S B" and k: "names_in K (strings S) [Register pad r]"
  shows "follows H0 n S (do_call (Register pad r) S) (spec_call (strings S) (room, Register pad r) B)"
proof -
  let ?k = "strings S (rg_name r)" and ?r = "spec_register (strings S) r B"
  obtain H P L where R: "broker_ok B" "msg_rep K S H P B" "others H (tbox_msg_buffer S) P (dom B) = H0 \<union> L"
    "H0 \<inter> L = {}" "finite L" "card L = n" using rep by (rule registryE)
  have k': "\<not> bad_name S (rg_name r) \<Longrightarrow> ?k \<in> K" using k by (auto simp: names_in_def bad_name_def)
  obtain S' P' where S': "tbox_message_register pad (Some r) S = Some (S', snd ?r)" "strings S' = strings S"
     "msg_rep K S' H P' (fst ?r)" "tbox_msg_buffer S' = tbox_msg_buffer S"
     "P' = (if snd ?r = TBOX_E_OK then P(?k := []) else P)"
    using register_refines [OF R(2) k', of pad] by auto
  have own: "owned H (tbox_msg_buffer S) P (dom B)" using R(2) by (auto elim: msg_repE)
  let ?L = "if snd ?r = TBOX_E_OK \<and> ?k \<in> dom B then set (P ?k) else {}"
  have dom: "dom (fst ?r) = (if snd ?r = TBOX_E_OK then insert ?k (dom B) else dom B)"
    by (simp add: spec_register_def Let_def)
  have o: "others H (tbox_msg_buffer S') P' (dom (fst ?r)) = others H (tbox_msg_buffer S) P (dom B) \<union> ?L"
    using others_clear [OF own, of ?k] S'(4,5) dom by simp
  have L': "others H (tbox_msg_buffer S) P (dom B) \<inter> ?L = {}" by (auto simp: others_def)
  have "card ?L = (if snd ?r = TBOX_E_OK then receivers_of B ?k else 0)"
    by (simp add: receivers_card [OF R(2)])
  from registryI [OF R(3-6) spec_register_ok [OF R(1)] S'(3) o L' _ this] S'(1,2) show ?thesis
    by (simp add: follows_def Let_def case_prod_unfold)
qed

lemma unregister_call:
  assumes rep: "registry K H0 n S B" and k: "names_in K (strings S) [Unregister name]"
  shows "follows H0 n S (do_call (Unregister name) S) (spec_call (strings S) (room, Unregister name) B)"
proof -
  let ?k = "strings S name"
  obtain H P L where R: "broker_ok B" "msg_rep K S H P B" "others H (tbox_msg_buffer S) P (dom B) = H0 \<union> L"
    "H0 \<inter> L = {}" "finite L" "card L = n" using rep by (rule registryE)
  have k': "\<not> bad_name S name \<Longrightarrow> ?k \<in> K" using k by (auto simp: names_in_def bad_name_def)
  obtain S' H' where S': "tbox_message_unregister name S = Some S'" "strings S' = strings S"
     "msg_rep K S' H' P (spec_unregister (strings S) name B)" "tbox_msg_buffer S' = tbox_msg_buffer S"
     "H' = (if bad_name S name \<or> B ?k = None then H else H - set (P ?k))"
    using unregister_refines [OF R(2) k'] by auto
  have dom: "dom (spec_unregister (strings S) name B) = (if bad_name S name then dom B else dom B - {?k})"
    by (simp add: spec_unregister_def bad_name_def)
  have "others H' (tbox_msg_buffer S') P (dom (spec_unregister (strings S) name B)) =
      others H (tbox_msg_buffer S) P (dom B) \<union> {}"
    using others_drop [of ?k "dom B" H P "tbox_msg_buffer S"] unfolding S'(4,5) dom by (auto simp: domIff)
  from registryI [OF R(3-6) _ S'(3) this] S'(1,2) spec_call_ok [OF R(1), of "strings S" "(room, Unregister name)"]
  show ?thesis by (simp add: follows_def)
qed

lemma enable_call:
  assumes rep: "registry K H0 n S B" and k: "names_in K (strings S) [Enable name e]"
  shows "follows H0 n S (do_call (Enable name e) S) (spec_call (strings S) (room, Enable name e) B)"
proof -
  let ?k = "strings S name"
  obtain H P L where R: "broker_ok B" "msg_rep K S H P B" "others H (tbox_msg_buffer S) P (dom B) = H0 \<union> L"
    "H0 \<inter> L = {}" "finite L" "card L = n" using rep by (rule registryE)
  have k': "\<not> bad_name S name \<Longrightarrow> ?k \<in> K" using k by (auto simp: names_in_def bad_name_def)
  obtain S' where S': "tbox_message_enable name e S = Some S'" "strings S' = strings S"
     "msg_rep K S' H P (spec_enable (strings S) name e B)" "tbox_msg_buffer S' = tbox_msg_buffer S"
    using enable_refines [OF R(2) k', of e] by auto
  have "dom (spec_enable (strings S) name e B) = dom B"
    by (auto simp: spec_enable_def split: option.splits)
  then have "others H (tbox_msg_buffer S') P (dom (spec_enable (strings S) name e B)) =
      others H (tbox_msg_buffer S) P (dom B) \<union> {}" using S'(4) by simp
  from registryI [OF R(3-6) spec_enable_ok [OF R(1)] S'(3) this] S'(1,2)
  show ?thesis by (simp add: follows_def)
qed

lemma is_enabled_call:
  assumes rep: "registry K H0 n S B" and k: "names_in K (strings S) [Is_enabled name]"
  shows "follows H0 n S (do_call (Is_enabled name) S) (spec_call (strings S) (room, Is_enabled name) B)"
proof -
  obtain H P where R: "msg_rep K S H P B" using rep by (rule registryE)
  have k': "\<not> bad_name S name \<Longrightarrow> strings S name \<in> K" using k by (auto simp: names_in_def bad_name_def)
  show ?thesis using is_enabled_refines [OF R k'] rep by (simp add: follows_def)
qed

lemma receiver_call:
  assumes rep: "registry K H0 n S B" and k: "name = 0 \<or> strings S name = [] \<or> strings S name \<in> K"
  shows "follows H0 n S (do { (S, e) \<leftarrow> add_receiver type name d h S; Some (S, Code e) })
    (spec_receiver (new_item S \<noteq> 0) type (strings S) name d h B)"
proof -
  let ?k = "strings S name" and ?r = "spec_add (new_item S \<noteq> 0) type (strings S) name d h B"
  let ?fresh = "\<not> bad_receiver (strings S) name d h \<and> new_item S \<noteq> 0"
  obtain H P L where R: "broker_ok B" "msg_rep K S H P B" "others H (tbox_msg_buffer S) P (dom B) = H0 \<union> L"
    "H0 \<inter> L = {}" "finite L" "card L = n" using rep by (rule registryE)
  have own: "owned H (tbox_msg_buffer S) P (dom B)" and M: "core_inv (core_memory S) H"
    using R(2) by (auto elim: msg_repE)
  have k': "\<not> bad_name S name \<Longrightarrow> ?k \<in> K" using k by (auto simp: bad_name_def)
  obtain S' P' where S': "add_receiver type name d h S = Some (S', snd ?r)" "strings S' = strings S"
     "tbox_msg_buffer S' = tbox_msg_buffer S" "msg_rep K S' (if ?fresh then insert (new_item S) H else H) P' (fst ?r)"
     "P' = (if ?fresh \<and> attaches type ?k d B then P(?k := P ?k @ [new_item S]) else P)"
    using add_refines [OF R(2) k', of type d h] by auto
  have new: "new_item S \<notin> H" if ?fresh using M by (rule new_item_cases) (use that in auto)
  have kd: "?k \<in> dom B" if "attaches type ?k d B" using that by (auto simp: attaches_def split: option.splits)
  have dom: "dom (fst ?r) = dom B"
    by (auto simp: spec_add_def spec_attach_def split: option.splits)
  let ?L = "if ?fresh \<and> \<not> attaches type ?k d B then {new_item S} else {}"
  have o: "others (if ?fresh then insert (new_item S) H else H) (tbox_msg_buffer S') P' (dom (fst ?r)) =
      others H (tbox_msg_buffer S) P (dom B) \<union> ?L"
    using others_link [OF new kd, of "tbox_msg_buffer S" P] others_stray [OF new own] unfolding S'(3,5) dom by simp
  have L': "others H (tbox_msg_buffer S) P (dom B) \<inter> ?L = {}" "finite ?L"
      "card ?L = (if ?fresh \<and> \<not> attaches type ?k d B then 1 else 0)"
    using new by (auto simp: others_def)
  have "broker_ok (fst ?r)"
    using spec_receiver_ok [OF R(1), of "new_item S \<noteq> 0" type "strings S" name d h]
    by (simp add: spec_receiver_def Let_def case_prod_unfold)
  from registryI [OF R(3-6) this S'(4) o L'] S'(1,2)
  show ?thesis by (simp add: follows_def spec_receiver_def Let_def case_prod_unfold)
qed

lemma call_law:
  assumes "registry K H0 n S B" and "names_in K (strings S) [c]"
  shows "\<exists>room. follows H0 n S (do_call c S) (spec_call (strings S) (room, c) B)"
proof (cases c)
  case (Register pad r)
  then show ?thesis using register_call assms by blast
next
  case (Unregister name)
  then show ?thesis using unregister_call assms by blast
next
  case (Enable name e)
  then show ?thesis using enable_call assms by blast
next
  case (Is_enabled name)
  then show ?thesis using is_enabled_call assms by blast
next
  case (Add_handler name d h)
  then have "follows H0 n S (do_call c S) (spec_call (strings S) (new_item S \<noteq> 0, c) B)"
    using receiver_call [OF assms(1), of name TBOX_MSG_TYPE_MESSAGE d h] assms(2)
    by (simp add: names_in_def tbox_message_add_handler_def)
  then show ?thesis by blast
next
  case (Subscribe name d h)
  then have "follows H0 n S (do_call c S) (spec_call (strings S) (new_item S \<noteq> 0, c) B)"
    using receiver_call [OF assms(1), of name TBOX_MSG_TYPE_TOPIC d h] assms(2)
    by (simp add: names_in_def tbox_message_subscribe_def)
  then show ?thesis by blast
qed

lemma calls_law:
  assumes "registry K H0 n S B" and "names_in K (strings S) cs"
  shows "\<exists>rooms S' B' as l. length rooms = length cs \<and> do_calls cs S = Some (S', as) \<and>
     spec_calls (strings S) (zip rooms cs) B = (B', as, l) \<and> strings S' = strings S \<and> registry K H0 (n + l) S' B'"
  using assms
proof (induction cs arbitrary: n S B)
  case (Cons c cs)
  have "names_in K (strings S) [c]" using Cons.prems(2) by (simp add: names_in_def)
  then obtain room where "follows H0 n S (do_call c S) (spec_call (strings S) (room, c) B)"
    using call_law [OF Cons.prems(1)] by blast
  then obtain S1 B1 a l1 where c: "do_call c S = Some (S1, a)" "spec_call (strings S) (room, c) B = (B1, a, l1)"
      "strings S1 = strings S" "registry K H0 (n + l1) S1 B1"
    unfolding follows_def by (cases "spec_call (strings S) (room, c) B") auto
  have "names_in K (strings S1) cs" using Cons.prems(2) c(3) by (simp add: names_in_def)
  from Cons.IH [OF c(4) this] obtain rooms S' B' as l where
    IH: "length rooms = length cs" "do_calls cs S1 = Some (S', as)" "spec_calls (strings S1) (zip rooms cs) B1 = (B', as, l)"
      "strings S' = strings S1" "registry K H0 (n + l1 + l) S' B'" by blast
  have "length (room # rooms) = length (c # cs)" "do_calls (c # cs) S = Some (S', a # as)"
      "spec_calls (strings S) (zip (room # rooms) (c # cs)) B = (B', a # as, l1 + l)"
      "strings S' = strings S" "registry K H0 (n + (l1 + l)) S' B'"
    using IH c by (simp_all add: add.assoc)
  then show ?case by blast
qed simp

lemma init_registry:
  assumes S: "\<not> tbox_msg_is_init S" and M: "core_inv (core_memory S) H" and i: "tbox_message_init mutex S = Some (S', TBOX_E_OK)"
  shows "registry K H 0 S' Map.empty \<and> strings S' = strings S"
proof -
  let ?buf = "tbox_msg_buffer S'"
  have buf: "?buf \<notin> H" "msg_rep K S' (insert ?buf H) (\<lambda>_. []) Map.empty" "strings S' = strings S"
    using init_law [OF S M, of mutex] i by auto
  have "others (insert ?buf H) ?buf (\<lambda>_. []) {} = H \<union> {}"
    using buf(1) by (auto simp: others_def)
  then show ?thesis using buf unfolding registry_def by (intro conjI exI [of _ "insert ?buf H"] exI [of _ "\<lambda>_. []"]
      exI [of _ "{}"]) simp_all
qed

end

section \<open>An example\<close>

lemma demo_core:
  "\<exists>M. core_inv M {} \<and> (\<exists>M' p. tbox_memory_alloc M TBOX_MEMORY_TYPE_CORE 1536 = Some (M', p) \<and> p \<noteq> 0)"
proof -
  obtain S where S: "pool_inv S 0 [] (\<lambda>_. [])" "20473 < unat (mp_size (m_pool S ! unat (0 :: u32)))"
    using ex_mem_pool by blast
  let ?M = "\<lparr>mps = [0], mem = S, reports = []\<rparr>"
  have M: "core_inv ?M {}"
    using S(1) by (auto simp: core_inv_def TBOX_MEMORY_TYPE_CORE_def held_def intro!: exI [of _ "[]"])
  have pos: "unat (mp_pos (m_pool S ! unat (0 :: u32))) = 1152" using pool_invD(4) [OF S(1)] by simp
  have z: "class_size (class_of 1536) \<le> 16384"
    using request_class(1) [of 1536] class_size_bounds by auto
  have n: "(0 :: u32) < 1536" "unat (1536 :: u32) + 23 < 2 ^ 32" by simp_all
  show ?thesis
  proof (cases rule: alloc_cases [OF S(1) n])
    case 1
    then show ?thesis using S(2) pos z by simp
  next
    case (2 S1 c bs' L')
    then show ?thesis using M chunk_ptr(1) [OF 2(6,5)]
      by (intro exI [of _ ?M]) (auto simp: tbox_memory_alloc_def TBOX_MEMORY_TYPE_CORE_def TBOX_MEMORY_TYPE_MAX_def
          MP_INVALID_HANDLE_def)
  qed
qed

definition demo_state :: "memory_state \<Rightarrow> msg_state" where
  "demo_state M = \<lparr>strings = (\<lambda>a. if a = 0x100 then [97, 98] else if a = 0x200 then [99, 100] else []),
     core_memory = M, tbox_msg_is_init = False, tbox_msg_hashmap = None, tbox_msg_buffer = 0, tbox_msg_mutex = False,
     handler_items = (\<lambda>_. \<lparr>hi_dst_id = 0, hi_handler = 0, hi_next = 0\<rparr>)\<rparr>"

lemma demo_init:
  "\<exists>M S0. core_inv (core_memory (demo_state M)) {} \<and> tbox_message_init True (demo_state M) = Some (S0, TBOX_E_OK)"
proof -
  obtain M M' p where M: "core_inv M {}" "tbox_memory_alloc M TBOX_MEMORY_TYPE_CORE 1536 = Some (M', p)" "p \<noteq> 0"
    using demo_core by blast
  have S: "core_inv (core_memory (demo_state M)) {}" "\<not> tbox_msg_is_init (demo_state M)"
      "core_memory (demo_state M) = M"
    using M(1) by (simp_all add: demo_state_def)
  from fixed_length.init_law [OF S(2,1), of True] obtain S' e where
    "tbox_message_init True (demo_state M) = Some (S', e)"
      "e \<noteq> TBOX_E_OK \<Longrightarrow> tbox_memory_alloc M TBOX_MEMORY_TYPE_CORE 1536 = Some (M, 0)"
    unfolding S(3) by fastforce
  then show ?thesis using S(1) M(2,3) by (cases "e = TBOX_E_OK") auto
qed

definition demo_calls :: "msg_call list" where
  "demo_calls = [Register 0 \<lparr>rg_name = 0x100, rg_priority = 1, rg_type = 1, rg_enable = 1\<rparr>,
     Subscribe 0x100 5 0x8000, Subscribe 0x100 5 0x9000, Subscribe 0x200 5 0x8000, Is_enabled 0x100, Unregister 0x100]"

lemma demo_names: "names_in {k. length k = 2} (strings (demo_state M)) demo_calls"
  by (simp add: names_in_def demo_calls_def demo_state_def)

section \<open>Properties\<close>

text \<open>
  C14: any sequence of calls of the registry returns, and with the answers of the calls on a map from
  names to topics that holds at most 64 names: registering, the switch, the receivers of a topic in
  the order they came, the refusals. An oracle says at which of the calls there was memory for an item.
  No name may be the beginning of another one.
\<close>

theorem message_calls_answer:
  assumes "prefix_free K" and "names_in K (strings S) cs" and "\<not> tbox_msg_is_init S" and "core_inv (core_memory S) H0"
    and "tbox_message_init mutex S = Some (S0, TBOX_E_OK)"
  shows "\<exists>S1 rooms. length rooms = length cs \<and>
    do_calls cs S0 = Some (S1, fst (snd (spec_calls (strings S) (zip rooms cs) Map.empty)))"
proof -
  note start = prefix_free.init_registry [OF assms(1,3-5)]
  have "registry K H0 0 S0 Map.empty" "names_in K (strings S0) cs" using start assms(2) by simp_all
  from prefix_free.calls_law [OF assms(1) this] start show ?thesis by fastforce
qed

theorem message_calls_answer_witness:
  "\<exists>M S0 S1 rooms. tbox_message_init True (demo_state M) = Some (S0, TBOX_E_OK) \<and> length rooms = 6 \<and>
     do_calls demo_calls S0 = Some (S1, fst (snd (spec_calls (strings (demo_state M)) (zip rooms demo_calls) Map.empty)))"
proof -
  obtain M S0 where M: "core_inv (core_memory (demo_state M)) {}"
      "tbox_message_init True (demo_state M) = Some (S0, TBOX_E_OK)" "\<not> tbox_msg_is_init (demo_state M)"
    using demo_init by (auto simp: demo_state_def)
  have "length demo_calls = 6" by (simp add: demo_calls_def)
  then show ?thesis
    using message_calls_answer [OF fixed_length.prefix_free_axioms demo_names M(3,1,2)] M(2) by fastforce
qed

text \<open>
  C18: the memory of the registry. After any sequence of calls \<open>tbox_message_deinit\<close> gives back the
  buffer and every handler item the names still refer to. What stays allocated are exactly the items
  the specification counts as lost: one for each call of \<open>add_handler\<close> or \<open>subscribe\<close> that got memory
  and did not add its receiver - an unknown name, the wrong type, a receiver that is there already - and
  the items of each name that was registered again. Nothing of anybody else is released.
\<close>

theorem message_memory_accounted:
  assumes "prefix_free K" and "names_in K (strings S) cs" and "\<not> tbox_msg_is_init S" and "core_inv (core_memory S) H0"
    and "tbox_message_init mutex S = Some (S0, TBOX_E_OK)"
  shows "\<exists>S1 as rooms S2 L. length rooms = length cs \<and> do_calls cs S0 = Some (S1, as) \<and>
    tbox_message_deinit S1 = Some S2 \<and> \<not> tbox_msg_is_init S2 \<and> core_inv (core_memory S2) (H0 \<union> L) \<and>
    H0 \<inter> L = {} \<and> finite L \<and> card L = snd (snd (spec_calls (strings S) (zip rooms cs) Map.empty))"
proof -
  note start = prefix_free.init_registry [OF assms(1,3-5)]
  have "registry K H0 0 S0 Map.empty" "names_in K (strings S0) cs" using start assms(2) by simp_all
  from prefix_free.calls_law [OF assms(1) this] start obtain rooms S1 B as l where
    c: "length rooms = length cs" "do_calls cs S0 = Some (S1, as)"
      "spec_calls (strings S) (zip rooms cs) Map.empty = (B, as, l)" "registry K H0 l S1 B"
    by fastforce
  obtain H P L where R: "msg_rep K S1 H P B" "others H (tbox_msg_buffer S1) P (dom B) = H0 \<union> L"
    "H0 \<inter> L = {}" "finite L" "card L = l" using c(4) by (rule registryE)
  obtain S2 where "tbox_message_deinit S1 = Some S2" "\<not> tbox_msg_is_init S2" "core_inv (core_memory S2) (H0 \<union> L)"
    using prefix_free.deinit_law [OF assms(1) R(1)] unfolding R(2) [unfolded others_def] by blast
  then show ?thesis using c R(3-5) by fastforce
qed

theorem message_memory_accounted_witness:
  "\<exists>M S0 S1 as rooms S2 L. tbox_message_init True (demo_state M) = Some (S0, TBOX_E_OK) \<and> length rooms = 6 \<and>
     do_calls demo_calls S0 = Some (S1, as) \<and> tbox_message_deinit S1 = Some S2 \<and> core_inv (core_memory S2) L \<and>
     card L = snd (snd (spec_calls (strings (demo_state M)) (zip rooms demo_calls) Map.empty))"
proof -
  obtain M S0 where M: "core_inv (core_memory (demo_state M)) {}"
      "tbox_message_init True (demo_state M) = Some (S0, TBOX_E_OK)" "\<not> tbox_msg_is_init (demo_state M)"
    using demo_init by (auto simp: demo_state_def)
  have "length demo_calls = 6" by (simp add: demo_calls_def)
  then show ?thesis
    using message_memory_accounted [OF fixed_length.prefix_free_axioms demo_names M(3,1,2)] M(2) by fastforce
qed

text \<open>
  C19: the registry is well typed. Whatever is called, an item found under a name has a priority
  and a type of their enumerations, and its handler list is a list in memory that ends: every entry has a
  valid receiver and a handler that is not null, and no receiver is in it twice.
\<close>

theorem message_items_typed:
  assumes "prefix_free K" and "names_in K (strings S) cs" and "\<not> tbox_msg_is_init S" and "core_inv (core_memory S) H0"
    and "tbox_message_init mutex S = Some (S0, TBOX_E_OK)"
    and "do_calls cs S0 = Some (S1, as)" and "strings S name \<in> K" and "get_item S1 name = Some (bs, TBOX_E_OK)"
  shows "mi_priority (item_of bs) < TBOX_MSG_PRIORITY_MAX \<and> mi_type (item_of bs) < TBOX_MSG_TYPE_MAX \<and>
    (\<exists>hs. hpath (handler_items S1) (mi_handler_list (item_of bs)) hs \<and>
       distinct (map (\<lambda>a. hi_dst_id (handler_items S1 a)) hs) \<and>
       (\<forall>a\<in>set hs. \<not> hi_dst_id (handler_items S1 a) \<le>s TBOX_ID_INVALID \<and> hi_handler (handler_items S1 a) \<noteq> 0))"
proof -
  note start = prefix_free.init_registry [OF assms(1,3-5)]
  have "registry K H0 0 S0 Map.empty" "names_in K (strings S0) cs" using start assms(2) by simp_all
  from prefix_free.calls_law [OF assms(1) this] start assms(6) obtain B l where
    c: "registry K H0 l S1 B" "strings S1 = strings S"
    by fastforce
  obtain H P where R: "broker_ok B" "msg_rep K S1 H P B" using c(1) by (rule registryE)
  have "strings S1 name \<in> K" using c(2) assms(7) by simp
  from prefix_free.get_item_law [OF assms(1) R(2) this] assms(8) obtain tp pad ptr where
    i: "B (strings S1 name) = Some tp" "bs = item_bytes pad (mgr tp ptr)" "hpath (handler_items S1) ptr (P (strings S1 name))"
      "receivers (handler_items S1) (P (strings S1 name)) = tp_receivers tp"
    by (cases "B (strings S1 name)") auto
  have "topic_ok tp" using broker_okD [OF R(1) i(1)] .
  then show ?thesis
    using i(2,3) unfolding topic_ok_def i(4) [symmetric] receivers_def
    by (intro conjI exI [of _ "P (strings S1 name)"]) (auto simp: comp_def)
qed

theorem message_items_typed_witness:
  "\<exists>M S0 S1 as. tbox_message_init True (demo_state M) = Some (S0, TBOX_E_OK) \<and>
     do_calls [Register 0 \<lparr>rg_name = 0x100, rg_priority = 2, rg_type = 1, rg_enable = 1\<rparr>] S0 = Some (S1, as) \<and>
     (\<exists>bs. get_item S1 0x100 = Some (bs, TBOX_E_OK) \<and> mi_priority (item_of bs) < TBOX_MSG_PRIORITY_MAX)"
proof -
  let ?K = "{k :: u8 list. length k = 2}"
  let ?cs = "[Register 0 \<lparr>rg_name = 0x100, rg_priority = 2, rg_type = 1, rg_enable = 1\<rparr>]"
  obtain M S0 where M: "core_inv (core_memory (demo_state M)) {}"
      "tbox_message_init True (demo_state M) = Some (S0, TBOX_E_OK)" "\<not> tbox_msg_is_init (demo_state M)"
    using demo_init by (auto simp: demo_state_def)
  have n: "names_in ?K (strings (demo_state M)) ?cs" "strings (demo_state M) 0x100 \<in> ?K"
    by (simp_all add: names_in_def demo_state_def)
  note start = fixed_length.init_registry [OF M(3,1,2), of 2]
  have "registry ?K {} 0 S0 Map.empty" "names_in ?K (strings S0) ?cs" using start n(1) by simp_all
  from fixed_length.calls_law [OF this] start obtain rooms S1 B as l where
    c: "length rooms = 1" "do_calls ?cs S0 = Some (S1, as)" "spec_calls (strings (demo_state M)) (zip rooms ?cs) Map.empty = (B, as, l)"
      "strings S1 = strings (demo_state M)" "registry ?K {} l S1 B"
    by fastforce
  have B: "B (strings S1 0x100) \<noteq> None"
    using c(1,3) unfolding c(4)
    by (cases rooms) (auto simp: spec_register_def demo_state_def registered_def TBOX_MSG_PRIORITY_MAX_def
        TBOX_MSG_TYPE_MAX_def Let_def word_le_nat_alt)
  obtain H P where R: "msg_rep ?K S1 H P B" using c(5) by (rule registryE)
  have "strings S1 0x100 \<in> ?K" using c(4) n(2) by simp
  from fixed_length.get_item_law [OF R this] B obtain bs where bs: "get_item S1 0x100 = Some (bs, TBOX_E_OK)"
    by (cases "B (strings S1 0x100)") auto
  show ?thesis
    using message_items_typed [OF fixed_length.prefix_free_axioms n(1) M(3,1,2) c(2) n(2) bs] M(2) c(2) bs by blast
qed

end
