(* ===== verification/ModuleClaims.thy ===== *)
theory ModuleClaims imports Module TaskSup MemPoolClaims begin

text \<open>
  The properties of the module manager: what a sweep over the table does and which call-backs it
  makes, which tasks the modules hold, and when the list of names fits its buffer.
\<close>

section \<open>Sweeps over the table\<close>

text \<open>
  Call-backs as the modules write them (\<^verbatim>\<open>hpm.c\<close> 139 and 173, \<^verbatim>\<open>led.c\<close> 50 and 64, \<^verbatim>\<open>can.c\<close> 776 and 846): each
  belongs to one module, \<open>home c\<close>, returns \<open>ans c\<close>, and may set the state of its module, to what \<open>sets c\<close> says,
  with \<open>tbox_module_set_state\<close>. What it does to the tasks and the messages is free.
\<close>

definition settle :: "TBOX_MODULE_STATE option \<Rightarrow> TBOX_MODULE_MGR_ITEM \<Rightarrow> TBOX_MODULE_MGR_ITEM" where
  "settle st m = (case st of None \<Rightarrow> m | Some x \<Rightarrow> m\<lparr>mm_state := x\<rparr>)"

lemma settle_simps [simp]:
  "mm_is_used (settle st m) = mm_is_used m" "mm_is_enabled (settle st m) = mm_is_enabled m"
  "mm_task_id (settle st m) = mm_task_id m" "mm_info (settle st m) = mm_info m"
  "mm_state (settle st m) = (case st of None \<Rightarrow> mm_state m | Some x \<Rightarrow> x)" "settle None m = m"
  by (simp_all add: settle_def split: option.split)

definition behaved :: "(module_call \<Rightarrow> nat) \<Rightarrow> (module_call \<Rightarrow> int) \<Rightarrow> (module_call \<Rightarrow> TBOX_MODULE_STATE option) \<Rightarrow> callbacks \<Rightarrow> bool" where
  "behaved home ans sets cb \<longleftrightarrow> (\<forall>c S. tbox_module_is_init S \<and> length (tbox_modules S) = TBOX_MODULE_MAX_NUM \<and>
     home c < TBOX_MODULE_MAX_NUM \<and> mm_is_used (tbox_modules S ! home c) \<longrightarrow>
     (\<exists>S'. cb c S = Some (S', ans c) \<and>
       tbox_modules S' = (tbox_modules S)[home c := settle (sets c) (tbox_modules S ! home c)] \<and>
       tbox_module_is_init S' = tbox_module_is_init S \<and> module_calls S' = module_calls S \<and>
       length (tbox_task_infos (core_tasks S')) = length (tbox_task_infos (core_tasks S))))"

text \<open>Every used module has call-backs of its own, as the registration macro of \<^verbatim>\<open>tbox_core.h\<close> gives them.\<close>

definition own_calls :: "(module_call \<Rightarrow> nat) \<Rightarrow> nat \<Rightarrow> TBOX_MODULE_MGR_ITEM \<Rightarrow> bool" where
  "own_calls home i m \<longleftrightarrow> (let info = mm_info m in mm_is_used m \<longrightarrow>
     (in_start_fun info \<noteq> 0 \<longrightarrow> home (Call_start (in_start_fun info)) = i) \<and>
     (in_stop_fun info \<noteq> 0 \<longrightarrow> home (Call_stop (in_stop_fun info)) = i) \<and>
     (in_init_fun info \<noteq> 0 \<longrightarrow> (\<forall>seq. home (Call_init (in_init_fun info) seq) = i)))"

definition table_ok :: "(module_call \<Rightarrow> nat) \<Rightarrow> core_state \<Rightarrow> bool" where
  "table_ok home S \<longleftrightarrow> tbox_module_is_init S \<and> length (tbox_modules S) = TBOX_MODULE_MAX_NUM \<and>
     (\<forall>i<TBOX_MODULE_MAX_NUM. own_calls home i (tbox_modules S ! i))"

lemma table_ok_upd:
  assumes "table_ok home S" and "tbox_modules S' = (tbox_modules S)[i := m]" and "tbox_module_is_init S'"
    and "mm_is_used m = mm_is_used (tbox_modules S ! i)" and "mm_info m = mm_info (tbox_modules S ! i)"
  shows "table_ok home S'"
proof -
  have "mm_is_used ((tbox_modules S)[i := m] ! j) = mm_is_used (tbox_modules S ! j)"
    "mm_info ((tbox_modules S)[i := m] ! j) = mm_info (tbox_modules S ! j)" for j
    using assms(4,5) by (cases "i < length (tbox_modules S)"; cases "j = i"; simp add: list_update_beyond)+
  then have "own_calls home j ((tbox_modules S)[i := m] ! j) = own_calls home j (tbox_modules S ! j)" for j
    unfolding own_calls_def by simp
  then show ?thesis using assms(1-3) by (simp add: table_ok_def)
qed

lemma call_behaved:
  assumes "behaved home ans sets cb" and "table_ok home S" and "home c = i" and "i < TBOX_MODULE_MAX_NUM"
    and "mm_is_used (tbox_modules S ! i)"
  obtains S' where "call cb c S = Some (S', ans c)" "tbox_modules S' = (tbox_modules S)[i := settle (sets c) (tbox_modules S ! i)]"
    "tbox_module_is_init S' = tbox_module_is_init S" "module_calls S' = module_calls S @ [c]"
    "length (tbox_task_infos (core_tasks S')) = length (tbox_task_infos (core_tasks S))" "table_ok home S'"
proof -
  let ?S = "S\<lparr>module_calls := module_calls S @ [c]\<rparr>"
  have "tbox_module_is_init ?S \<and> length (tbox_modules ?S) = TBOX_MODULE_MAX_NUM \<and> home c < TBOX_MODULE_MAX_NUM \<and>
      mm_is_used (tbox_modules ?S ! home c)"
    using assms(2-5) by (simp add: table_ok_def)
  then obtain S' where S': "cb c ?S = Some (S', ans c)"
      "tbox_modules S' = (tbox_modules S)[i := settle (sets c) (tbox_modules S ! i)]"
      "tbox_module_is_init S' = tbox_module_is_init S" "module_calls S' = module_calls S @ [c]"
      "length (tbox_task_infos (core_tasks S')) = length (tbox_task_infos (core_tasks S))"
    using assms(1)[unfolded behaved_def, rule_format, of ?S c] assms(3) by auto
  have "table_ok home S'"
    by (rule table_ok_upd [OF assms(2) S'(2)]) (use S'(3) assms(2) in \<open>auto simp: table_ok_def\<close>)
  then show thesis using that S' by (simp add: call_def)
qed

lemma upd_module_simps [simp]:
  "tbox_modules (upd_module i f S) = (tbox_modules S)[i := f (tbox_modules S ! i)]"
  "tbox_module_is_init (upd_module i f S) = tbox_module_is_init S" "core_tasks (upd_module i f S) = core_tasks S"
  "core_messages (upd_module i f S) = core_messages S" "module_calls (upd_module i f S) = module_calls S"
  by (simp_all add: upd_module_def)

text \<open>
  A loop whose body changes the module it visits by \<open>f\<close> and makes the calls \<open>g\<close> of it, over the
  indices in the order \<open>ix\<close> gives; \<open>J\<close> is an invariant it needs.
\<close>

definition visits :: "(core_state \<Rightarrow> bool) \<Rightarrow> (nat \<Rightarrow> core_state \<Rightarrow> core_state option) \<Rightarrow> (TBOX_MODULE_MGR_ITEM \<Rightarrow> TBOX_MODULE_MGR_ITEM) \<Rightarrow>
    (TBOX_MODULE_MGR_ITEM \<Rightarrow> module_call list) \<Rightarrow> bool" where
  "visits J body f g \<longleftrightarrow> (\<forall>i S. J S \<longrightarrow> i < length (tbox_modules S) \<longrightarrow> (\<exists>S'. body i S = Some S' \<and> J S' \<and>
     tbox_modules S' = (tbox_modules S)[i := f (tbox_modules S ! i)] \<and>
     module_calls S' = module_calls S @ g (tbox_modules S ! i) \<and> tbox_module_is_init S' = tbox_module_is_init S))"

lemma sweep:
  assumes "visits J body f g" and "J S" and "inj_on ix {i..<i + n}" and "\<And>j. i \<le> j \<Longrightarrow> j < i + n \<Longrightarrow> ix j < length (tbox_modules S)"
  shows "\<exists>S'. for_up i n (\<lambda>j. body (ix j)) S = Some S' \<and> J S' \<and> length (tbox_modules S') = length (tbox_modules S) \<and>
     (\<forall>k<length (tbox_modules S). tbox_modules S' ! k =
        (if k \<in> ix ` {i..<i + n} then f (tbox_modules S ! k) else tbox_modules S ! k)) \<and>
     module_calls S' = module_calls S @ concat (map (\<lambda>j. g (tbox_modules S ! ix j)) [i..<i + n]) \<and>
     tbox_module_is_init S' = tbox_module_is_init S"
  using assms(2-)
proof (induction n arbitrary: i S)
  case (Suc n)
  have lt: "ix i < length (tbox_modules S)" using Suc.prems(3) by simp
  obtain S1 where S1: "body (ix i) S = Some S1" "tbox_modules S1 = (tbox_modules S)[ix i := f (tbox_modules S ! ix i)]"
      "module_calls S1 = module_calls S @ g (tbox_modules S ! ix i)" "tbox_module_is_init S1 = tbox_module_is_init S"
and J1: "J S1"
    using assms(1) Suc.prems(1) lt unfolding visits_def by blast
  have inj: "inj_on ix {Suc i..<Suc i + n}" using Suc.prems(2) by (auto simp: inj_on_def)
  have fresh: "ix i \<noteq> ix j" if "Suc i \<le> j" "j < Suc i + n" for j
    using Suc.prems(2) that unfolding inj_on_def by force
  obtain S' where S': "for_up (Suc i) n (\<lambda>j. body (ix j)) S1 = Some S'" "J S'" "length (tbox_modules S') = length (tbox_modules S1)"
      "\<forall>k<length (tbox_modules S1). tbox_modules S' ! k =
        (if k \<in> ix ` {Suc i..<Suc i + n} then f (tbox_modules S1 ! k) else tbox_modules S1 ! k)"
      "module_calls S' = module_calls S1 @ concat (map (\<lambda>j. g (tbox_modules S1 ! ix j)) [Suc i..<Suc i + n])"
      "tbox_module_is_init S' = tbox_module_is_init S1"
    using Suc.IH [OF J1 inj] Suc.prems(3) S1(2) by auto
  have g: "map (\<lambda>j. g (tbox_modules S1 ! ix j)) [Suc i..<Suc i + n] = map (\<lambda>j. g (tbox_modules S ! ix j)) [Suc i..<Suc i + n]"
    using fresh S1(2) by (auto simp: nth_list_update)
  have split: "{i..<i + Suc n} = insert i {Suc i..<Suc i + n}" "[i..<i + Suc n] = i # [Suc i..<Suc i + n]"
    by (auto simp: upt_rec)
  have "tbox_modules S' ! k = (if k \<in> ix ` {i..<i + Suc n} then f (tbox_modules S ! k) else tbox_modules S ! k)"
    if "k < length (tbox_modules S)" for k
  proof -
    have "ix i \<notin> ix ` {Suc i..<Suc i + n}" using fresh by (auto simp: image_iff)
    then show ?thesis using S'(4) that S1(2) lt unfolding split(1)
      by (cases "k = ix i") (simp_all add: nth_list_update)
  qed
  moreover have "module_calls S' = module_calls S @ concat (map (\<lambda>j. g (tbox_modules S ! ix j)) [i..<i + Suc n])"
    unfolding S'(5) S1(3) g split(2) by (simp del: upt_Suc)
  ultimately show ?case using S1 S' by simp
qed simp

text \<open>Over the whole table, upwards or downwards.\<close>

lemma map_table:
  assumes "length ms' = length ms" and "\<And>k. k < length ms \<Longrightarrow> ms' ! k = f (ms ! k)"
  shows "ms' = map f ms"
  using assms by (simp add: list_eq_iff_nth_eq)

lemma sweep_up:
  assumes v: "visits J body f g" and J: "J S" and n: "length (tbox_modules S) = n"
  shows "\<exists>S'. for_up 0 n body S = Some S' \<and> J S' \<and> tbox_modules S' = map f (tbox_modules S) \<and>
     module_calls S' = module_calls S @ concat (map g (tbox_modules S)) \<and> tbox_module_is_init S' = tbox_module_is_init S"
proof -
  obtain S' where S': "for_up 0 n body S = Some S'" "J S'" "length (tbox_modules S') = length (tbox_modules S)"
     "\<forall>k<n. tbox_modules S' ! k = f (tbox_modules S ! k)"
     "module_calls S' = module_calls S @ concat (map (\<lambda>j. g (tbox_modules S ! j)) [0..<n])"
     "tbox_module_is_init S' = tbox_module_is_init S"
    using sweep [OF v J, of id 0 n] n by auto
  have "map (\<lambda>j. g (tbox_modules S ! j)) [0..<n] = map g (tbox_modules S)"
    using n by (intro nth_equalityI) auto
  then show ?thesis using S' map_table [of "tbox_modules S'" "tbox_modules S" f] n by auto
qed

lemma sweep_down:
  assumes v: "visits J body f g" and J: "J S" and n: "length (tbox_modules S) = n"
  shows "\<exists>S'. for_up 0 n (\<lambda>j. body (n - 1 - j)) S = Some S' \<and> J S' \<and> tbox_modules S' = map f (tbox_modules S) \<and>
     module_calls S' = module_calls S @ concat (map g (rev (tbox_modules S))) \<and>
     tbox_module_is_init S' = tbox_module_is_init S"
proof -
  have im: "k \<in> (\<lambda>j. n - 1 - j) ` {0..<n}" if "k < n" for k
    using that by (intro image_eqI [of _ _ "n - 1 - k"]) auto
  have inj: "inj_on (\<lambda>j. n - 1 - j) {0..<0 + n}" by (auto simp: inj_on_def)
  obtain S' where S': "for_up 0 n (\<lambda>j. body (n - 1 - j)) S = Some S'" "J S'" "length (tbox_modules S') = length (tbox_modules S)"
     "\<forall>k<n. tbox_modules S' ! k = f (tbox_modules S ! k)"
     "module_calls S' = module_calls S @ concat (map (\<lambda>j. g (tbox_modules S ! (n - 1 - j))) [0..<n])"
     "tbox_module_is_init S' = tbox_module_is_init S"
    using sweep [OF v J inj] n im by auto
  have "map (\<lambda>j. g (tbox_modules S ! (n - 1 - j))) [0..<n] = map g (rev (tbox_modules S))"
    using n by (intro nth_equalityI) (auto simp: rev_nth)
  then show ?thesis using S' map_table [of "tbox_modules S'" "tbox_modules S" f] n by auto
qed

lemma first_index_iff: "first_index P i xs = None \<longleftrightarrow> (\<forall>x\<in>set xs. \<not> P x)"
  by (induction xs arbitrary: i) auto

section \<open>Starting and stopping\<close>

definition active :: "TBOX_MODULE_MGR_ITEM \<Rightarrow> bool" where
  "active m \<longleftrightarrow> mm_is_used m \<and> mm_is_enabled m \<noteq> 0"

definition nonnull :: "(u32 \<Rightarrow> module_call) \<Rightarrow> u32 \<Rightarrow> module_call list" where
  "nonnull c f = (if f = 0 then [] else [c f])"

text \<open>What a call of function \<open>f\<close> leaves of its module, and nothing if there is no function.\<close>

definition left_by :: "(module_call \<Rightarrow> TBOX_MODULE_STATE option) \<Rightarrow> (u32 \<Rightarrow> module_call) \<Rightarrow> u32 \<Rightarrow> TBOX_MODULE_MGR_ITEM \<Rightarrow> TBOX_MODULE_MGR_ITEM" where
  "left_by sets c f m = (if f = 0 then m else settle (sets (c f)) m)"

definition started :: "(module_call \<Rightarrow> TBOX_MODULE_STATE option) \<Rightarrow> TBOX_MODULE_MGR_ITEM \<Rightarrow> TBOX_MODULE_MGR_ITEM" where
  "started sets m = (if active m \<and> mm_state m \<noteq> TBOX_MODULE_STATE_START
     then left_by sets Call_start (in_start_fun (mm_info m)) (m\<lparr>mm_state := TBOX_MODULE_STATE_START\<rparr>) else m)"

definition start_calls :: "TBOX_MODULE_MGR_ITEM \<Rightarrow> module_call list" where
  "start_calls m = (if active m \<and> mm_state m \<noteq> TBOX_MODULE_STATE_START
     then nonnull Call_start (in_start_fun (mm_info m)) else [])"

definition stopped :: "(module_call \<Rightarrow> TBOX_MODULE_STATE option) \<Rightarrow> TBOX_MODULE_MGR_ITEM \<Rightarrow> TBOX_MODULE_MGR_ITEM" where
  "stopped sets m = (if active m \<and> mm_state m \<noteq> TBOX_MODULE_STATE_STOP
     then if in_stop_fun (mm_info m) = 0 then m\<lparr>mm_state := TBOX_MODULE_STATE_STOP\<rparr>
          else left_by sets Call_stop (in_stop_fun (mm_info m)) m
     else m)"

definition stop_calls :: "TBOX_MODULE_MGR_ITEM \<Rightarrow> module_call list" where
  "stop_calls m = (if active m \<and> mm_state m \<noteq> TBOX_MODULE_STATE_STOP
     then nonnull Call_stop (in_stop_fun (mm_info m)) else [])"

lemma start_visits:
  assumes "behaved home ans sets cb"
  shows "visits (table_ok home) (start_module cb) (started sets) start_calls"
  unfolding visits_def
proof (intro allI impI)
  fix i and S :: core_state
  assume J: "table_ok home S" and i: "i < length (tbox_modules S)"
  let ?m = "tbox_modules S ! i" and ?S = "upd_module i (\<lambda>m. m\<lparr>mm_state := TBOX_MODULE_STATE_START\<rparr>) S"
  let ?f = "in_start_fun (mm_info ?m)"
  have J': "table_ok home ?S" by (rule table_ok_upd [OF J upd_module_simps(1)]) (use J in \<open>auto simp: table_ok_def\<close>)
  have i': "i < TBOX_MODULE_MAX_NUM" using J i by (simp add: table_ok_def)
  show "\<exists>S'. start_module cb i S = Some S' \<and> table_ok home S' \<and> tbox_modules S' = (tbox_modules S)[i := started sets ?m] \<and>
      module_calls S' = module_calls S @ start_calls ?m \<and> tbox_module_is_init S' = tbox_module_is_init S"
  proof (cases "active ?m \<and> mm_state ?m \<noteq> TBOX_MODULE_STATE_START")
    case False
    then have "start_module cb i S = Some S" using i by (auto simp: start_module_def active_def)
    then show ?thesis using J False by (auto simp: started_def start_calls_def)
  next
    case a: True
    show ?thesis
    proof (cases "?f = 0")
      case True
      then have "start_module cb i S = Some ?S" using a i by (simp add: start_module_def active_def Let_def)
      then show ?thesis using J' a True by (simp add: started_def left_by_def start_calls_def nonnull_def)
    next
      case False
      have h: "home (Call_start ?f) = i" "mm_is_used (tbox_modules ?S ! i)"
        using J i' a False i by (auto simp: table_ok_def own_calls_def active_def Let_def)
      obtain S' where S': "call cb (Call_start ?f) ?S = Some (S', ans (Call_start ?f))"
          "tbox_modules S' = (tbox_modules ?S)[i := settle (sets (Call_start ?f)) (tbox_modules ?S ! i)]"
          "tbox_module_is_init S' = tbox_module_is_init ?S" "module_calls S' = module_calls ?S @ [Call_start ?f]" "table_ok home S'"
        by (rule call_behaved [OF assms J' h(1) i' h(2)])
      have "start_module cb i S = Some S'" using a i False S'(1) by (simp add: start_module_def active_def Let_def)
      then show ?thesis using S' a False i by (simp add: started_def left_by_def start_calls_def nonnull_def)
    qed
  qed
qed

lemma stop_visits:
  assumes "behaved home ans sets cb"
  shows "visits (table_ok home) (stop_module cb) (stopped sets) stop_calls"
  unfolding visits_def
proof (intro allI impI)
  fix i and S :: core_state
  assume J: "table_ok home S" and i: "i < length (tbox_modules S)"
  let ?m = "tbox_modules S ! i" and ?S = "upd_module i (\<lambda>m. m\<lparr>mm_state := TBOX_MODULE_STATE_STOP\<rparr>) S"
  let ?f = "in_stop_fun (mm_info ?m)"
  have J': "table_ok home ?S" by (rule table_ok_upd [OF J upd_module_simps(1)]) (use J in \<open>auto simp: table_ok_def\<close>)
  have i': "i < TBOX_MODULE_MAX_NUM" using J i by (simp add: table_ok_def)
  show "\<exists>S'. stop_module cb i S = Some S' \<and> table_ok home S' \<and> tbox_modules S' = (tbox_modules S)[i := stopped sets ?m] \<and>
      module_calls S' = module_calls S @ stop_calls ?m \<and> tbox_module_is_init S' = tbox_module_is_init S"
  proof (cases "active ?m \<and> mm_state ?m \<noteq> TBOX_MODULE_STATE_STOP")
    case False
    then have "stop_module cb i S = Some S" using i by (auto simp: stop_module_def active_def)
    then show ?thesis using J False by (auto simp: stopped_def stop_calls_def)
  next
    case a: True
    show ?thesis
    proof (cases "?f = 0")
      case True
      then have "stop_module cb i S = Some ?S" using a i by (simp add: stop_module_def active_def Let_def)
      then show ?thesis using J' a True by (simp add: stopped_def stop_calls_def nonnull_def)
    next
      case False
      have h: "home (Call_stop ?f) = i" "mm_is_used (tbox_modules S ! i)"
        using J i' a False i by (auto simp: table_ok_def own_calls_def active_def Let_def)
      obtain S' where S': "call cb (Call_stop ?f) S = Some (S', ans (Call_stop ?f))"
          "tbox_modules S' = (tbox_modules S)[i := settle (sets (Call_stop ?f)) ?m]"
          "tbox_module_is_init S' = tbox_module_is_init S" "module_calls S' = module_calls S @ [Call_stop ?f]" "table_ok home S'"
        by (rule call_behaved [OF assms J h(1) i' h(2)])
      have "stop_module cb i S = Some S'" using a i False S'(1) by (simp add: stop_module_def active_def Let_def)
      then show ?thesis using S' a False i by (simp add: stopped_def left_by_def stop_calls_def nonnull_def)
    qed
  qed
qed

lemma istarted_law:
  assumes "tbox_modules S1 = map (started sets) ms" and "tbox_module_is_init S1"
  shows "tbox_allmodule_istarted S1 \<longleftrightarrow>
    (\<forall>m\<in>set ms. mm_is_used m \<and> mm_is_enabled m = 1 \<and> mm_state m \<noteq> TBOX_MODULE_STATE_START \<longrightarrow>
       in_start_fun (mm_info m) = 0 \<or> sets (Call_start (in_start_fun (mm_info m))) \<in> {None, Some TBOX_MODULE_STATE_START})"
proof -
  have "\<not> (mm_is_used (started sets m) \<and> mm_is_enabled (started sets m) = 1 \<and> mm_state (started sets m) \<noteq> TBOX_MODULE_STATE_START) \<longleftrightarrow>
      (mm_is_used m \<and> mm_is_enabled m = 1 \<and> mm_state m \<noteq> TBOX_MODULE_STATE_START \<longrightarrow>
       in_start_fun (mm_info m) = 0 \<or> sets (Call_start (in_start_fun (mm_info m))) \<in> {None, Some TBOX_MODULE_STATE_START})" for m
    by (cases "sets (Call_start (in_start_fun (mm_info m)))") (auto simp: started_def left_by_def active_def)
  then show ?thesis using assms by (simp add: tbox_allmodule_istarted_def first_index_iff)
qed

lemma isstoped_law:
  assumes "tbox_modules S2 = map (stopped sets) ms" and "tbox_module_is_init S2"
  shows "tbox_allmodule_isstoped S2 \<longleftrightarrow>
    (\<forall>m\<in>set ms. mm_is_used m \<and> mm_is_enabled m = 1 \<and> mm_state m \<noteq> TBOX_MODULE_STATE_STOP \<longrightarrow> in_stop_fun (mm_info m) = 0 \<or>
       (case sets (Call_stop (in_stop_fun (mm_info m))) of None \<Rightarrow> mm_state m \<noteq> TBOX_MODULE_STATE_START | Some st \<Rightarrow> st \<noteq> TBOX_MODULE_STATE_START))"
proof -
  have "\<not> (mm_is_used (stopped sets m) \<and> mm_is_enabled (stopped sets m) = 1 \<and> mm_state (stopped sets m) = TBOX_MODULE_STATE_START) \<longleftrightarrow>
      (mm_is_used m \<and> mm_is_enabled m = 1 \<and> mm_state m \<noteq> TBOX_MODULE_STATE_STOP \<longrightarrow> in_stop_fun (mm_info m) = 0 \<or>
       (case sets (Call_stop (in_stop_fun (mm_info m))) of None \<Rightarrow> mm_state m \<noteq> TBOX_MODULE_STATE_START | Some st \<Rightarrow> st \<noteq> TBOX_MODULE_STATE_START))" for m
    by (cases "sets (Call_stop (in_stop_fun (mm_info m)))"; cases "mm_state m = TBOX_MODULE_STATE_START")
      (auto simp: stopped_def left_by_def active_def)
  then show ?thesis using assms by (simp add: tbox_allmodule_isstoped_def first_index_iff)
qed

section \<open>Initialising\<close>

text \<open>What a module's task field refers to exists, so that letting go of it returns.\<close>

definition tasks_exist :: "core_state \<Rightarrow> bool" where
  "tasks_exist S \<longleftrightarrow> length (tbox_task_infos (core_tasks S)) = TBOX_TASK_MAX_NUM \<and>
     (\<forall>m\<in>set (tbox_modules S). mm_task_id m = TBOX_ID_INVALID \<or> unat (mm_task_id m) < TBOX_TASK_MAX_NUM + TBOX_RUNLOOP_TASK_NUM)"

definition init_calls :: "u8 \<Rightarrow> TBOX_MODULE_MGR_ITEM \<Rightarrow> module_call list" where
  "init_calls seq m = (if active m then nonnull (\<lambda>f. Call_init f seq) (in_init_fun (mm_info m)) else [])"

definition init_fails :: "(module_call \<Rightarrow> int) \<Rightarrow> u8 \<Rightarrow> TBOX_MODULE_MGR_ITEM \<Rightarrow> bool" where
  "init_fails ans seq m \<longleftrightarrow> active m \<and> in_init_fun (mm_info m) \<noteq> 0 \<and>
     ans (Call_init (in_init_fun (mm_info m)) seq) \<noteq> 0 \<and> in_is_interface (mm_info m) = 0"

definition inited :: "(module_call \<Rightarrow> int) \<Rightarrow> (module_call \<Rightarrow> TBOX_MODULE_STATE option) \<Rightarrow> u8 \<Rightarrow> TBOX_MODULE_MGR_ITEM \<Rightarrow> TBOX_MODULE_MGR_ITEM" where
  "inited ans sets seq m = (let m' = (if seq = MODULE_INIT_SEQ_MODULE then m\<lparr>mm_state := TBOX_MODULE_STATE_INIT\<rparr> else m);
     m' = (if active m then left_by sets (\<lambda>f. Call_init f seq) (in_init_fun (mm_info m)) m' else m') in
     if init_fails ans seq m then m'\<lparr>mm_task_id := TBOX_ID_INVALID, mm_is_enabled := 0,
       mm_state := TBOX_MODULE_STATE_NOINIT\<rparr> else m')"

lemma ball_update: "\<forall>x\<in>set xs. P x \<Longrightarrow> P y \<Longrightarrow> \<forall>x\<in>set (xs[i := y]). P x"
  using set_update_subset_insert [of xs i y] by blast

lemma tasks_exist_upd:
  assumes "tasks_exist S" and "i < length (tbox_modules S)"
    and "mm_task_id m = TBOX_ID_INVALID \<or> mm_task_id m = mm_task_id (tbox_modules S ! i)"
    and "length (tbox_task_infos (core_tasks S')) = TBOX_TASK_MAX_NUM" and "tbox_modules S' = (tbox_modules S)[i := m]"
  shows "tasks_exist S'"
proof -
  have "mm_task_id m = TBOX_ID_INVALID \<or> unat (mm_task_id m) < TBOX_TASK_MAX_NUM + TBOX_RUNLOOP_TASK_NUM"
    using assms(1-3) nth_mem [OF assms(2)] unfolding tasks_exist_def by fastforce
  then show ?thesis
    unfolding tasks_exist_def assms(5)
    using assms(4) ball_update [OF conjunct2 [OF assms(1) [unfolded tasks_exist_def]], of m i] by simp
qed

lemma low_byte_small: "unat (x :: u32) < 256 \<Longrightarrow> unat (ucast x :: u8) = unat x"
  by (simp add: unsigned_ucast_eq take_bit_nat_eq_self)

lemma detach_law:
  assumes n: "length (tbox_task_infos (core_tasks S)) = TBOX_TASK_MAX_NUM"
    and k: "k = TBOX_ID_INVALID \<or> unat k < TBOX_TASK_MAX_NUM + TBOX_RUNLOOP_TASK_NUM"
  shows "\<exists>T. detach_task k S = Some (S\<lparr>core_tasks := T\<rparr>) \<and> length (tbox_task_infos T) = TBOX_TASK_MAX_NUM"
proof (cases "k = TBOX_ID_INVALID \<or> bad_task_id k TBOX_TASK_MAX_NUM")
  case True
  then show ?thesis using n by (auto simp: detach_task_def tbox_task_detach_def intro!: exI [of _ "core_tasks S"])
next
  case False
  then have "unat k < 24" using k
    by (simp add: TBOX_TASK_MAX_NUM_def TBOX_TASK_SMALL_SIZE_NUM_def TBOX_TASK_MEDIUM_SIZE_NUM_def
        TBOX_TASK_LARGER_SIZE_NUM_def TBOX_RUNLOOP_TASK_NUM_def)
  then have "unat (ucast k :: u8) = unat k" by (intro low_byte_small) simp
  then have "unat k < TBOX_TASK_MAX_NUM" using False by (auto simp: bad_task_id_def)
  moreover have "S\<lparr>core_tasks := core_tasks S\<rparr> = S" by simp
  ultimately show ?thesis using False n
    by (cases "ti_mutex (tbox_task_infos (core_tasks S) ! unat k)")
      (auto simp: detach_task_def tbox_task_detach_def task_at_def intro: exI [of _ "core_tasks S"])
qed

lemma init_visits:
  assumes "behaved home ans sets cb"
  shows "visits (\<lambda>S. table_ok home S \<and> tasks_exist S) (init_module cb seq) (inited ans sets seq) (init_calls seq)"
  unfolding visits_def
proof (intro allI impI)
  fix i and S :: core_state
  assume "table_ok home S \<and> tasks_exist S" and i: "i < length (tbox_modules S)"
  then have K: "table_ok home S" and J: "tasks_exist S" by simp_all
  let ?m = "tbox_modules S ! i"
  let ?f = "in_init_fun (mm_info ?m)" and ?c = "Call_init (in_init_fun (mm_info ?m)) seq"
  let ?S = "if seq = MODULE_INIT_SEQ_MODULE then upd_module i (\<lambda>m. m\<lparr>mm_state := TBOX_MODULE_STATE_INIT\<rparr>) S else S"
  let ?m' = "if seq = MODULE_INIT_SEQ_MODULE then ?m\<lparr>mm_state := TBOX_MODULE_STATE_INIT\<rparr> else ?m"
  have mods: "tbox_modules ?S = (tbox_modules S)[i := ?m']" "tbox_module_is_init ?S = tbox_module_is_init S"
    "core_tasks ?S = core_tasks S" "module_calls ?S = module_calls S" using i by auto
  have i': "i < TBOX_MODULE_MAX_NUM" and on: "tbox_module_is_init S" using K i by (simp_all add: table_ok_def)
  have J': "tasks_exist ?S"
    by (rule tasks_exist_upd [OF J i, of ?m']) (use mods J in \<open>auto simp: tasks_exist_def\<close>)
  have K': "table_ok home ?S" by (rule table_ok_upd [OF K mods(1)]) (use mods(2) on in auto)
  show "\<exists>S'. init_module cb seq i S = Some S' \<and> (table_ok home S' \<and> tasks_exist S') \<and>
      tbox_modules S' = (tbox_modules S)[i := inited ans sets seq ?m] \<and>
      module_calls S' = module_calls S @ init_calls seq ?m \<and> tbox_module_is_init S' = tbox_module_is_init S"
  proof (cases "active ?m \<and> ?f \<noteq> 0")
    case False
    then have off: "\<not> mm_is_used ?m \<or> mm_is_enabled ?m = 0 \<or> ?f = 0" by (auto simp: active_def)
    have "init_module cb seq i S = Some ?S" using off i by (simp add: init_module_def Let_def)
    moreover have "init_calls seq ?m = []" using False by (auto simp: init_calls_def nonnull_def)
    moreover have "inited ans sets seq ?m = ?m'" using False by (auto simp: inited_def left_by_def init_fails_def Let_def)
    ultimately show ?thesis using J' K' mods by auto
  next
    case True
    have h: "home ?c = i" "mm_is_used (tbox_modules ?S ! i)"
      using K i' i True by (auto simp: table_ok_def own_calls_def active_def Let_def)
    obtain S1 where S1: "call cb ?c ?S = Some (S1, ans ?c)"
        "tbox_modules S1 = (tbox_modules ?S)[i := settle (sets ?c) (tbox_modules ?S ! i)]"
        "tbox_module_is_init S1 = tbox_module_is_init ?S" "module_calls S1 = module_calls ?S @ [?c]"
        "length (tbox_task_infos (core_tasks S1)) = length (tbox_task_infos (core_tasks ?S))" and K1: "table_ok home S1"
      by (rule call_behaved [OF assms K' h(1) i' h(2)])
    let ?m1 = "settle (sets ?c) ?m'"
    have S1': "tbox_modules S1 = (tbox_modules S)[i := ?m1]" "tbox_module_is_init S1 = tbox_module_is_init S"
        "module_calls S1 = module_calls S @ [?c]" "length (tbox_task_infos (core_tasks S1)) = TBOX_TASK_MAX_NUM"
      using S1(2-5) J i unfolding mods tasks_exist_def by simp_all
    have J1: "tasks_exist S1" by (rule tasks_exist_upd [OF J i _ S1'(4,1)]) simp
    have c: "init_module cb seq i S = (if init_fails ans seq ?m then init_failed i S1 else Some S1)"
      using True i S1(1) by (simp add: init_module_def active_def init_fails_def tbox_error_val_def)
    have calls: "init_calls seq ?m = [?c]" using True by (simp add: init_calls_def nonnull_def)
    show ?thesis
    proof (cases "init_fails ans seq ?m")
      case False
      then have "inited ans sets seq ?m = ?m1" using True by (simp add: inited_def left_by_def Let_def)
      moreover have "init_module cb seq i S = Some S1" using c False by simp
      ultimately show ?thesis using J1 K1 calls S1' by simp
    next
      case fails: True
      let ?off = "\<lambda>m. m\<lparr>mm_task_id := TBOX_ID_INVALID, mm_is_enabled := 0, mm_state := TBOX_MODULE_STATE_NOINIT\<rparr>"
      let ?S2 = "upd_module i ?off S1"
      have m1: "tbox_modules S1 ! i = ?m1" "i < length (tbox_modules S1)" using S1'(1) i by simp_all
      have "length (tbox_task_infos (core_tasks ?S2)) = TBOX_TASK_MAX_NUM" using S1'(4) by simp
      moreover have "mm_task_id ?m1 = TBOX_ID_INVALID \<or> unat (mm_task_id ?m1) < TBOX_TASK_MAX_NUM + TBOX_RUNLOOP_TASK_NUM"
        using J1 m1 unfolding tasks_exist_def by (metis nth_mem)
      ultimately obtain T where T: "detach_task (mm_task_id ?m1) ?S2 = Some (?S2\<lparr>core_tasks := T\<rparr>)"
          "length (tbox_task_infos T) = TBOX_TASK_MAX_NUM"
        using detach_law by blast
      let ?S3 = "?S2\<lparr>core_tasks := T\<rparr>"
      have "init_module cb seq i S = Some ?S3"
        using c fails T(1) m1 by (simp add: init_failed_def)
      moreover have "tasks_exist ?S3"
        by (rule tasks_exist_upd [OF J1 m1(2), of "?off ?m1"]) (use T(2) m1 in auto)
      moreover have "table_ok home ?S3"
        by (rule table_ok_upd [OF K1, of _ i "?off ?m1"]) (use S1'(2) on m1 in auto)
      moreover have "inited ans sets seq ?m = ?off ?m1" using fails True by (simp add: inited_def left_by_def Let_def)
      ultimately show ?thesis using S1' m1 calls by simp
    qed
  qed
qed

lemma inited_state:
  "mm_state (inited ans sets MODULE_INIT_SEQ_MODULE m) = (if init_fails ans MODULE_INIT_SEQ_MODULE m then TBOX_MODULE_STATE_NOINIT
     else case init_calls MODULE_INIT_SEQ_MODULE m of
         [] \<Rightarrow> TBOX_MODULE_STATE_INIT
       | c # _ \<Rightarrow> (case sets c of None \<Rightarrow> TBOX_MODULE_STATE_INIT | Some st \<Rightarrow> st))"
  by (simp add: inited_def left_by_def init_calls_def nonnull_def Let_def split: option.split)

section \<open>Who owns a task\<close>

text \<open>
  A module refers to a message task only if the task refers back to it; the other ids are those of
  run loops.
\<close>

definition refers :: "TBOX_TASK_INFO list \<Rightarrow> nat \<Rightarrow> TBOX_ID \<Rightarrow> bool" where
  "refers ts i k \<longleftrightarrow> k = TBOX_ID_INVALID \<or> unat k < TBOX_TASK_MAX_NUM \<and> ti_module_id (ts ! unat k) = of_nat i \<or>
     TBOX_TASK_MAX_NUM \<le> unat k \<and> unat k < TBOX_TASK_MAX_NUM + TBOX_RUNLOOP_TASK_NUM"

definition owns :: "TBOX_MODULE_MGR_ITEM list \<Rightarrow> TBOX_TASK_INFO list \<Rightarrow> bool" where
  "owns ms ts \<longleftrightarrow> length ms = TBOX_MODULE_MAX_NUM \<and> length ts = TBOX_TASK_MAX_NUM \<and>
     (\<forall>i<length ms. refers ts i (mm_task_id (ms ! i)))"

definition owned :: "core_state \<Rightarrow> bool" where
  "owned S \<longleftrightarrow> tbox_module_is_init S \<and> mgr_mutex (core_tasks S) \<and>
     length (runloops (core_tasks S)) = TBOX_RUNLOOP_TASK_NUM \<and>
     owns (tbox_modules S) (tbox_task_infos (core_tasks S))"

lemma module_num [simp]: "TBOX_MODULE_MAX_NUM = 32" "TBOX_RUNLOOP_TASK_NUM = 16"
  by (simp_all add: TBOX_RUNLOOP_TASK_NUM_def TBOX_MODULE_MAX_NUM_def)

lemma small_id: "i < 32 \<Longrightarrow> unat (of_nat i :: u32) = i" "i < 32 \<Longrightarrow> (of_nat i :: u32) \<noteq> TBOX_ID_INVALID"
proof -
  show u: "unat (of_nat i :: u32) = i" if "i < 32" using that by (simp add: unat_of_nat)
  show "(of_nat i :: u32) \<noteq> TBOX_ID_INVALID" if "i < 32"
  proof
    assume "(of_nat i :: u32) = TBOX_ID_INVALID"
    then have "unat (of_nat i :: u32) = unat TBOX_ID_INVALID" by simp
    then show False using u [OF that] that by (simp add: TBOX_ID_INVALID_def unsigned_minus_1_eq_mask mask_eq_exp_minus_1)
  qed
qed

lemma invalid_not_small: "\<not> unat TBOX_ID_INVALID < 8"
  by (simp add: TBOX_ID_INVALID_def unsigned_minus_1_eq_mask mask_eq_exp_minus_1)

lemma small_id_eq: "i < 32 \<Longrightarrow> j < 32 \<Longrightarrow> (of_nat i :: u32) = of_nat j \<Longrightarrow> i = j"
  using small_id(1) by metis

lemma owns_update:
  assumes "owns ms ts" and "refers ts' i (mm_task_id m)" and "length ts' = length ts"
    and "\<And>j. j < length ms \<Longrightarrow> j \<noteq> i \<Longrightarrow> refers ts j (mm_task_id (ms ! j)) \<Longrightarrow> refers ts' j (mm_task_id (ms ! j))"
  shows "owns (ms[i := m]) ts'"
proof -
  have "refers ts' j (mm_task_id (ms[i := m] ! j))" if "j < length ms" for j
    using assms(1,2,4) that by (cases "j = i") (simp_all add: owns_def)
  then show ?thesis using assms(1,3) by (simp add: owns_def)
qed

lemma owns_same:
  assumes "owns ms ts" and "map mm_task_id ms' = map mm_task_id ms" and "map ti_module_id ts' = map ti_module_id ts"
  shows "owns ms' ts'"
proof -
  have l: "length ms' = length ms" "length ts' = length ts" using assms(2,3) by (metis length_map)+
  have "mm_task_id (ms' ! i) = mm_task_id (ms ! i)" if "i < length ms" for i
    using assms(2) l(1) that by (metis nth_map)
  moreover have "ti_module_id (ts' ! i) = ti_module_id (ts ! i)" if "i < length ts" for i
    using assms(3) l(2) that by (metis nth_map)
  ultimately show ?thesis using assms(1) l by (auto simp: owns_def refers_def)
qed

lemma owns_clear: "owns ms ts \<Longrightarrow> mm_task_id m = TBOX_ID_INVALID \<Longrightarrow> owns (ms[i := m]) ts"
  by (rule owns_update) (auto simp: refers_def)

lemma refers_other:
  assumes "refers ts j k'" and "j < 32" and "i < 32" and "j \<noteq> i" and "k < length ts"
    and "ti_module_id (ts ! k) = of_nat i \<or> ti_module_id (ts ! k) = TBOX_ID_INVALID"
  shows "refers (ts[k := t]) j k'"
proof (cases "unat k' = k \<and> k < 8")
  case True
  then have "k' = TBOX_ID_INVALID"
    using assms small_id_eq [of i j] small_id(2) [of j] by (auto simp: refers_def)
  then show ?thesis by (simp add: refers_def)
next
  case False
  then show ?thesis using assms(1) by (auto simp: refers_def)
qed

text \<open>Letting go: the module's task belongs to nobody any more.\<close>

lemma owns_release:
  assumes o: "owns ms ts" and i: "i < length ms" and m: "mm_task_id m = TBOX_ID_INVALID"
    and k: "mm_task_id (ms ! i) \<noteq> TBOX_ID_INVALID" "unat (mm_task_id (ms ! i)) < TBOX_TASK_MAX_NUM"
  shows "owns (ms[i := m]) (ts[unat (mm_task_id (ms ! i)) := t])"
proof (rule owns_update [OF o])
  have own: "ti_module_id (ts ! unat (mm_task_id (ms ! i))) = of_nat i"
    using o i k by (auto simp: owns_def refers_def)
  fix j
  assume "j < length ms" "j \<noteq> i" "refers ts j (mm_task_id (ms ! j))"
  then show "refers (ts[unat (mm_task_id (ms ! i)) := t]) j (mm_task_id (ms ! j))"
    using own o i k by (intro refers_other [of _ _ _ i]) (auto simp: owns_def)
qed (use m in \<open>auto simp: refers_def\<close>)

text \<open>Taking a task that is free or belongs to the module already.\<close>

lemma owns_take:
  assumes o: "owns ms ts" and i: "i < length ms" and k: "k < TBOX_TASK_MAX_NUM" "mm_task_id m = of_nat k"
    and t: "ti_module_id t = of_nat i" "ti_module_id (ts ! k) = of_nat i \<or> ti_module_id (ts ! k) = TBOX_ID_INVALID"
  shows "owns (ms[i := m]) (ts[k := t])"
proof (rule owns_update [OF o])
  show "refers (ts[k := t]) i (mm_task_id m)"
    using o k t(1) small_id(1) [of k] by (auto simp: refers_def owns_def)
  fix j
  assume "j < length ms" "j \<noteq> i" "refers ts j (mm_task_id (ms ! j))"
  then show "refers (ts[k := t]) j (mm_task_id (ms ! j))"
    using o i k(1) t(2) by (intro refers_other [of _ _ _ i]) (auto simp: owns_def)
qed simp

lemma attach_loop_found:
  "attach_loop module_id sz i ts = Some (j, b) \<Longrightarrow> i \<le> j \<and> j < i + length ts \<and>
     ti_module_id (ts ! (j - i)) = (if b then TBOX_ID_INVALID else module_id)"
proof (induction ts arbitrary: i)
  case (Cons t ts)
  have "attach_loop module_id sz (Suc i) ts = Some (j, b) \<or> j = i \<and> ti_module_id t = (if b then TBOX_ID_INVALID else module_id)"
    using Cons.prems by (auto split: if_splits)
  then show ?case
  proof
    assume "attach_loop module_id sz (Suc i) ts = Some (j, b)"
    from Cons.IH [OF this] show ?thesis by (auto simp: nth_Cons' Suc_diff_Suc)
  qed simp
qed simp

lemma task_list_upd: "tbox_task_infos (upd_task k f T) = (tbox_task_infos T)[unat k := f (tbox_task_infos T ! unat k)]"
  by (simp add: upd_task_def)

text \<open>What \<open>attach_task\<close> gives a module that has no task.\<close>

lemma attach_owns:
  assumes o: "owns (tbox_modules S) (tbox_task_infos (core_tasks S))" and i: "i < 32"
    and at: "attach_task i p sz S = (S', k)" and m: "mm_task_id m = k"
  shows "\<exists>T. S' = S\<lparr>core_tasks := T\<rparr> \<and> mgr_mutex T = mgr_mutex (core_tasks S) \<and> runloops T = runloops (core_tasks S) \<and>
     owns ((tbox_modules S)[i := m]) (tbox_task_infos T)"
proof -
  let ?T = "core_tasks S"
  obtain T where T: "tbox_task_attach (of_nat i) p (ucast sz) ?T = (T, k)" "S' = S\<lparr>core_tasks := T\<rparr>"
    using at by (auto simp: attach_task_def split: prod.splits)
  have len: "length (tbox_modules S) = 32" "length (tbox_task_infos ?T) = 8" using o by (simp_all add: owns_def)
  let ?loop = "attach_loop (of_nat i) (ucast sz div 4) 0 (tbox_task_infos ?T)"
  consider (none) "T = ?T" "k = TBOX_ID_INVALID"
    | (same) j where "attach_loop (of_nat i) (ucast sz div 4) 0 (tbox_task_infos ?T) = Some (j, False)" "T = ?T" "k = of_nat j"
    | (new) j where "attach_loop (of_nat i) (ucast sz div 4) 0 (tbox_task_infos ?T) = Some (j, True)" "k = of_nat j"
        "T = upd_task (of_nat j) (\<lambda>t. t\<lparr>ti_module_id := of_nat i, ti_priority := p, cur_block_msg_name := 0,
          cur_block_tick := 0\<rparr>) ?T"
  proof (cases "?loop = None \<or> (of_nat i :: u32) \<le>s TBOX_ID_INVALID \<or> p < TBOX_TASK_PRIORITY_LOW \<or>
      p > TBOX_TASK_PRIORITY_HIGH \<or> ucast sz > TBOX_TASK_LARGE_STACK_SIZE")
    case True
    then have "T = ?T" "k = TBOX_ID_INVALID" using T(1) by (auto simp: tbox_task_attach_def split: if_splits)
    then show ?thesis by (rule that(1))
  next
    case False
    then obtain j b where l: "?loop = Some (j, b)" by auto
    let ?T' = "upd_task (of_nat j) (\<lambda>t. t\<lparr>ti_module_id := of_nat i, ti_priority := p,
        cur_block_msg_name := 0, cur_block_tick := 0\<rparr>) ?T"
    have "tbox_task_attach (of_nat i) p (ucast sz) ?T = (if b then ?T' else ?T, of_nat j)"
      using False l by (cases b) (simp_all add: tbox_task_attach_def)
    then have r: "T = (if b then ?T' else ?T)" "k = of_nat j" unfolding T(1) by simp_all
    show ?thesis
    proof (cases b)
      case True
      then show ?thesis using that(3) [of j] l r by simp
    next
      case False
      then show ?thesis using that(2) [of j] l r by simp
    qed
  qed
  then show ?thesis
  proof cases
    case none
    then show ?thesis using T(2) owns_clear [OF o, of m i] m by (intro exI [of _ ?T]) simp
  next
    case same
    have j: "j < 8" "ti_module_id (tbox_task_infos ?T ! j) = of_nat i"
      using attach_loop_found [OF same(1)] len by auto
    have "owns ((tbox_modules S)[i := m]) ((tbox_task_infos ?T)[j := tbox_task_infos ?T ! j])"
      by (rule owns_take [OF o]) (use i len j m same(3) in auto)
    then show ?thesis using T(2) same(2) by (intro exI [of _ ?T]) simp
  next
    case new
    have j: "j < 8" "ti_module_id (tbox_task_infos ?T ! j) = TBOX_ID_INVALID"
      using attach_loop_found [OF new(1)] len by auto
    have "owns ((tbox_modules S)[i := m]) (tbox_task_infos T)"
      unfolding new(3) task_list_upd unat_id [OF j(1)]
      by (rule owns_take [OF o]) (use i len j m new(2) in auto)
    then show ?thesis using T(2) new(3) by (intro exI [of _ T]) simp
  qed
qed

text \<open>A module that loses its task, in the two shapes of the code: the table first or the task first.\<close>

lemma detach_owns:
  assumes o: "owns (tbox_modules S) (tbox_task_infos (core_tasks S))" and i: "i < 32"
    and m: "mm_task_id m = TBOX_ID_INVALID" and c: "core_tasks S' = core_tasks S"
  shows "\<exists>T. detach_task (mm_task_id (tbox_modules S ! i)) S' = Some (S'\<lparr>core_tasks := T\<rparr>) \<and>
     mgr_mutex T = mgr_mutex (core_tasks S) \<and> runloops T = runloops (core_tasks S) \<and>
     owns ((tbox_modules S)[i := m]) (tbox_task_infos T)"
proof -
  let ?T = "core_tasks S" and ?k = "mm_task_id (tbox_modules S ! i)"
  have len: "length (tbox_modules S) = 32" "length (tbox_task_infos ?T) = 8" using o by (simp_all add: owns_def)
  have r: "refers (tbox_task_infos ?T) i ?k" using o i by (simp add: owns_def)
  have same: "S'\<lparr>core_tasks := ?T\<rparr> = S'" using c by simp
  show ?thesis
  proof (cases "?k = TBOX_ID_INVALID \<or> bad_task_id ?k TBOX_TASK_MAX_NUM \<or> \<not> ti_mutex (tbox_task_infos ?T ! unat ?k)")
    case True
    have "unat ?k < 8" if "?k \<noteq> TBOX_ID_INVALID" "\<not> bad_task_id ?k TBOX_TASK_MAX_NUM"
    proof -
      have "unat (ucast ?k :: u8) = unat ?k" using r that(1) by (intro low_byte_small) (auto simp: refers_def)
      then show ?thesis using that(2) by (simp add: bad_task_id_def)
    qed
    then have "detach_task ?k S' = Some S'"
      using True len c same by (auto simp: detach_task_def tbox_task_detach_def task_at_def)
    then show ?thesis using owns_clear [OF o m, of i] same by (intro exI [of _ ?T]) simp
  next
    case False
    have "unat (ucast ?k :: u8) = unat ?k" using r False by (intro low_byte_small) (auto simp: refers_def)
    then have k: "unat ?k < 8" using False by (simp add: bad_task_id_def)
    let ?f = "\<lambda>t. flush_queue (t\<lparr>ti_module_id := TBOX_ID_INVALID\<rparr>)"
    have "detach_task ?k S' = Some (S'\<lparr>core_tasks := upd_task ?k ?f ?T\<rparr>)"
      using False k len c by (simp add: detach_task_def tbox_task_detach_def task_at_def)
    moreover have "owns ((tbox_modules S)[i := m]) (tbox_task_infos (upd_task ?k ?f ?T))"
      unfolding task_list_upd by (rule owns_release [OF o]) (use i len m False k in auto)
    ultimately show ?thesis by auto
  qed
qed

text \<open>
  Call-backs that return and leave alone which task a module has and which module a task has; the rest of the
  table, as the states and the levels, they may change.
\<close>

definition loyal :: "callbacks \<Rightarrow> bool" where
  "loyal cb \<longleftrightarrow> (\<forall>c S. length (tbox_modules S) = TBOX_MODULE_MAX_NUM \<longrightarrow> (\<exists>S' r. cb c S = Some (S', r) \<and>
     map mm_task_id (tbox_modules S') = map mm_task_id (tbox_modules S) \<and>
     tbox_module_is_init S' = tbox_module_is_init S \<and> mgr_mutex (core_tasks S') = mgr_mutex (core_tasks S) \<and>
     length (runloops (core_tasks S')) = length (runloops (core_tasks S)) \<and>
     map ti_module_id (tbox_task_infos (core_tasks S')) = map ti_module_id (tbox_task_infos (core_tasks S))))"

lemma call_loyal:
  assumes "loyal cb" and "length (tbox_modules S) = TBOX_MODULE_MAX_NUM"
  obtains S' r where "call cb c S = Some (S', r)" "map mm_task_id (tbox_modules S') = map mm_task_id (tbox_modules S)"
     "tbox_module_is_init S' = tbox_module_is_init S" "mgr_mutex (core_tasks S') = mgr_mutex (core_tasks S)"
     "length (runloops (core_tasks S')) = length (runloops (core_tasks S))"
     "map ti_module_id (tbox_task_infos (core_tasks S')) = map ti_module_id (tbox_task_infos (core_tasks S))"
proof -
  let ?S = "S\<lparr>module_calls := module_calls S @ [c]\<rparr>"
  have "length (tbox_modules ?S) = TBOX_MODULE_MAX_NUM" using assms(2) by simp
  from assms(1)[unfolded loyal_def, rule_format, OF this, of c] show thesis using that by (auto simp: call_def)
qed

lemma call_owned:
  assumes "loyal cb" and "owned S"
  shows "\<exists>S' r. call cb c S = Some (S', r) \<and> owned S'"
proof -
  have l: "length (tbox_modules S) = TBOX_MODULE_MAX_NUM" using assms(2) by (simp add: owned_def owns_def)
  obtain S' r where c: "call cb c S = Some (S', r)" "map mm_task_id (tbox_modules S') = map mm_task_id (tbox_modules S)"
     "tbox_module_is_init S' = tbox_module_is_init S" "mgr_mutex (core_tasks S') = mgr_mutex (core_tasks S)"
     "length (runloops (core_tasks S')) = length (runloops (core_tasks S))"
     "map ti_module_id (tbox_task_infos (core_tasks S')) = map ti_module_id (tbox_task_infos (core_tasks S))"
    by (rule call_loyal [OF assms(1) l])
  have "owns (tbox_modules S') (tbox_task_infos (core_tasks S'))"
    by (rule owns_same [OF _ c(2,6)]) (use assms(2) in \<open>simp add: owned_def\<close>)
  then show ?thesis using assms(2) c by (simp add: owned_def)
qed

lemma call_opt_owned:
  assumes "loyal cb" and "owned S"
  shows "\<exists>S'. (if f \<noteq> 0 then map_option fst (call cb c S) else Some S) = Some S' \<and> owned S'"
  using call_owned [OF assms, of c] assms(2) by auto

lemma owned_upd:
  assumes "owned S" and "mm_task_id (f (tbox_modules S ! i)) = mm_task_id (tbox_modules S ! i)"
  shows "owned (upd_module i f S)"
proof -
  have "map mm_task_id ((tbox_modules S)[i := f (tbox_modules S ! i)]) = map mm_task_id (tbox_modules S)"
    using assms(2) by (cases "i < length (tbox_modules S)")
      (simp_all add: map_update list_update_same_conv list_update_beyond)
  then have "owns (tbox_modules (upd_module i f S)) (tbox_task_infos (core_tasks (upd_module i f S)))"
    using owns_same [of "tbox_modules S" "tbox_task_infos (core_tasks S)"] assms(1) by (simp add: owned_def)
  then show ?thesis using assms(1) by (simp add: owned_def)
qed

lemma owned_length: "owned S \<Longrightarrow> length (tbox_modules S) = 32"
  by (simp add: owned_def owns_def)

lemma good_id: "\<not> bad_module_id k \<Longrightarrow> unat k < 32"
  by (simp add: bad_module_id_def)

lemma upd_module_eq: "upd_module i f S = S\<lparr>tbox_modules := (tbox_modules S)[i := f (tbox_modules S ! i)]\<rparr>"
  by (simp add: upd_module_def)

lemma owned_replace:
  assumes "owned S" and "owns ((tbox_modules S)[i := m]) (tbox_task_infos T)" and "mgr_mutex T = mgr_mutex (core_tasks S)"
    and "length (runloops T) = length (runloops (core_tasks S))"
  shows "owned (S\<lparr>tbox_modules := (tbox_modules S)[i := m], core_tasks := T\<rparr>)"
  using assms by (simp add: owned_def)

lemma init_module_owned:
  assumes "loyal cb" and S: "owned S" and i: "i < 32"
  shows "\<exists>S'. init_module cb seq i S = Some S' \<and> owned S'"
proof -
  let ?m = "tbox_modules S ! i"
  let ?S = "if seq = MODULE_INIT_SEQ_MODULE then upd_module i (\<lambda>m. m\<lparr>mm_state := TBOX_MODULE_STATE_INIT\<rparr>) S else S"
  have S1: "owned ?S" using S owned_upd by simp
  show ?thesis
  proof (cases "\<not> mm_is_used ?m \<or> mm_is_enabled ?m = 0 \<or> in_init_fun (mm_info ?m) = 0")
    case True
    then have "init_module cb seq i S = Some ?S" using owned_length [OF S] i by (auto simp: init_module_def Let_def)
    then show ?thesis using S1 by blast
  next
    case False
    obtain S2 r where S2: "call cb (Call_init (in_init_fun (mm_info ?m)) seq) ?S = Some (S2, r)" "owned S2"
      using call_owned [OF assms(1) S1] by blast
    have c: "init_module cb seq i S = (if r \<noteq> tbox_error_val TBOX_E_OK \<and> in_is_interface (mm_info ?m) = 0
        then init_failed i S2 else Some S2)"
      using False S2(1) owned_length [OF S] i by (simp add: init_module_def Let_def)
    let ?m2 = "(tbox_modules S2 ! i)\<lparr>mm_task_id := TBOX_ID_INVALID, mm_is_enabled := 0, mm_state := TBOX_MODULE_STATE_NOINIT\<rparr>"
    have o: "owns (tbox_modules S2) (tbox_task_infos (core_tasks S2))" using S2(2) by (simp add: owned_def)
    have t: "mm_task_id ?m2 = TBOX_ID_INVALID" by simp
    obtain T where T: "detach_task (mm_task_id (tbox_modules S2 ! i)) (S2\<lparr>tbox_modules := (tbox_modules S2)[i := ?m2]\<rparr>) =
          Some (S2\<lparr>tbox_modules := (tbox_modules S2)[i := ?m2], core_tasks := T\<rparr>)"
        "mgr_mutex T = mgr_mutex (core_tasks S2)" "runloops T = runloops (core_tasks S2)" "owns ((tbox_modules S2)[i := ?m2]) (tbox_task_infos T)"
      using detach_owns [OF o i t, of "S2\<lparr>tbox_modules := (tbox_modules S2)[i := ?m2]\<rparr>"] by auto
    have "init_failed i S2 = Some (S2\<lparr>tbox_modules := (tbox_modules S2)[i := ?m2], core_tasks := T\<rparr>)"
      using T(1) owned_length [OF S2(2)] i by (simp add: init_failed_def upd_module_eq)
    then show ?thesis using c S2(2) owned_replace [OF S2(2) T(4,2) arg_cong [OF T(3)]] by auto
  qed
qed

lemma start_module_owned:
  assumes "loyal cb" and S: "owned S" and i: "i < 32"
  shows "\<exists>S'. start_module cb i S = Some S' \<and> owned S'"
proof -
  let ?f = "in_start_fun (mm_info (tbox_modules S ! i))"
  have "owned (upd_module i (\<lambda>m. m\<lparr>mm_state := TBOX_MODULE_STATE_START\<rparr>) S)" using owned_upd [OF S] by simp
  from call_opt_owned [OF assms(1) this, of ?f "Call_start ?f"] show ?thesis
    using S owned_length [OF S] i by (simp add: start_module_def Let_def)
qed

lemma stop_module_owned:
  assumes "loyal cb" and S: "owned S" and i: "i < 32"
  shows "\<exists>S'. stop_module cb i S = Some S' \<and> owned S'"
proof -
  let ?f = "in_stop_fun (mm_info (tbox_modules S ! i))"
  have "owned (if ?f = 0 then upd_module i (\<lambda>m. m\<lparr>mm_state := TBOX_MODULE_STATE_STOP\<rparr>) S else S)"
    using owned_upd [OF S] S by simp
  from call_opt_owned [OF assms(1) this, of ?f "Call_stop ?f"] show ?thesis
    using S owned_length [OF S] i by (simp add: stop_module_def Let_def)
qed

lemma register_owned:
  assumes S: "owned S"
  shows "owned (fst (tbox_module_register info S))"
proof (cases "info = None \<or> in_name (the info) = 0 \<or> first_index (\<lambda>m. \<not> mm_is_used m) 0 (tbox_modules S) = None")
  case True
  then show ?thesis using S by (auto simp: tbox_module_register_def split: option.split)
next
  case False
  then obtain r i where r: "info = Some r" "in_name r \<noteq> 0" "first_index (\<lambda>m. \<not> mm_is_used m) 0 (tbox_modules S) = Some i"
    by auto
  have i: "i < 32" using first_index_Some [OF r(3)] owned_length [OF S] by simp
  define own where
    "own = (if in_is_interface r = 0 \<and> in_stack_size r = 0 then r\<lparr>in_stack_size := ucast TBOX_TASK_SMALL_STACK_SIZE\<rparr> else r)"
  let ?S = "upd_module i (\<lambda>m. m\<lparr>mm_is_used := True, mm_is_enabled := 1, mm_task_id := TBOX_ID_INVALID, mm_info := own\<rparr>) S"
  have o: "owns (tbox_modules ?S) (tbox_task_infos (core_tasks ?S))"
    using owns_clear [of "tbox_modules S" "tbox_task_infos (core_tasks S)"] S by (simp add: owned_def)
  have S1: "owned ?S" using o S by (simp add: owned_def)
  obtain S2 k where at: "attach_task i (in_priority r) (in_stack_size r) ?S = (S2, k)" by fastforce
  let ?m = "(tbox_modules ?S ! i)\<lparr>mm_task_id := k\<rparr>"
  obtain T where T: "S2 = ?S\<lparr>core_tasks := T\<rparr>" "mgr_mutex T = mgr_mutex (core_tasks ?S)" "runloops T = runloops (core_tasks ?S)"
      "owns ((tbox_modules ?S)[i := ?m]) (tbox_task_infos T)"
    using attach_owns [OF o i at, of ?m] by auto
  have "upd_module i (\<lambda>m. m\<lparr>mm_task_id := k\<rparr>) S2 = ?S\<lparr>tbox_modules := (tbox_modules ?S)[i := ?m], core_tasks := T\<rparr>"
    unfolding T(1) upd_module_eq by simp
  then have S2: "owned (upd_module i (\<lambda>m. m\<lparr>mm_task_id := k\<rparr>) S2)" using owned_replace [OF S1 T(4,2) arg_cong [OF T(3)]] by simp
  have S3: "owned S2" if "k = TBOX_ID_INVALID"
  proof -
    have "mm_task_id (tbox_modules ?S ! i) = k" using that i owned_length [OF S] by simp
    then have "?m = tbox_modules ?S ! i" by simp
    then have "(tbox_modules ?S)[i := ?m] = tbox_modules ?S" by simp
    then show ?thesis using T S1 by (simp add: owned_def del: upd_module_simps(1))
  qed
  have "fst (tbox_module_register info S) = (if in_is_interface r = 0 \<and> in_is_critical r = 1
      then if k \<noteq> TBOX_ID_INVALID then upd_module i (\<lambda>m. m\<lparr>mm_task_id := k\<rparr>) S2 else S2 else ?S)"
    unfolding tbox_module_register_def Let_def r(1) option.case own_def [symmetric]
    using r(2,3) S at by (simp add: owned_def)
  then show ?thesis using S1 S2 S3 by simp
qed

lemma enable_owned:
  assumes cb: "loyal cb" and S: "owned S"
  shows "\<exists>S' r. tbox_module_enable cb k enable S = Some (S', r) \<and> owned S'"
proof (cases "bad_module_id k \<or> \<not> mm_is_used (tbox_modules S ! unat k)")
  case True
  then show ?thesis using S owned_length [OF S] good_id [of k] by (auto simp: tbox_module_enable_def owned_def)
next
  case False
  then have i: "unat k < 32" using good_id by blast
  define i where "i = unat k"
  let ?m = "tbox_modules S ! i" and ?S = "upd_module i (\<lambda>m. m\<lparr>mm_is_enabled := enable\<rparr>) S"
  have S1: "owned ?S" using owned_upd [OF S] by simp
  have o: "owns (tbox_modules ?S) (tbox_task_infos (core_tasks ?S))" and i: "i < 32"
    using S1 i by (simp_all add: owned_def i_def)
  have same: "mm_task_id (tbox_modules ?S ! i) = mm_task_id ?m" using i owned_length [OF S] by simp
  have "\<exists>S2. switch_task i enable ?m ?S = Some S2 \<and> owned S2"
  proof -
    consider (attach) "enable = 1" "in_is_critical (mm_info ?m) = 1 \<and> in_is_interface (mm_info ?m) = 0 \<and> mm_task_id ?m = TBOX_ID_INVALID"
      | (detach) "enable \<noteq> 1" "mm_task_id ?m \<noteq> TBOX_ID_INVALID"
      | (nothing) "\<not> (enable = 1 \<and> in_is_critical (mm_info ?m) = 1 \<and> in_is_interface (mm_info ?m) = 0 \<and> mm_task_id ?m = TBOX_ID_INVALID)"
          "\<not> (enable \<noteq> 1 \<and> mm_task_id ?m \<noteq> TBOX_ID_INVALID)"
      by blast
    then show ?thesis
    proof cases
      case attach
      obtain S2 t where at: "attach_task i (in_priority (mm_info ?m)) (in_stack_size (mm_info ?m)) ?S = (S2, t)" by fastforce
      let ?m2 = "(tbox_modules ?S ! i)\<lparr>mm_task_id := t\<rparr>"
      obtain T where T: "S2 = ?S\<lparr>core_tasks := T\<rparr>" "mgr_mutex T = mgr_mutex (core_tasks ?S)" "runloops T = runloops (core_tasks ?S)"
          "owns ((tbox_modules ?S)[i := ?m2]) (tbox_task_infos T)"
        using attach_owns [OF o i at, of ?m2] by auto
      have "upd_module i (\<lambda>m. m\<lparr>mm_task_id := t\<rparr>) S2 = ?S\<lparr>tbox_modules := (tbox_modules ?S)[i := ?m2], core_tasks := T\<rparr>"
        unfolding T(1) upd_module_eq by simp
      then have "owned (upd_module i (\<lambda>m. m\<lparr>mm_task_id := t\<rparr>) S2)" using owned_replace [OF S1 T(4,2) arg_cong [OF T(3)]] by simp
      then show ?thesis using attach at by (simp add: switch_task_def Let_def)
    next
      case detach
      let ?m2 = "(tbox_modules ?S ! i)\<lparr>mm_task_id := TBOX_ID_INVALID\<rparr>"
      have m2: "mm_task_id ?m2 = TBOX_ID_INVALID" by simp
      obtain T where T: "detach_task (mm_task_id ?m) ?S = Some (?S\<lparr>core_tasks := T\<rparr>)"
          "mgr_mutex T = mgr_mutex (core_tasks ?S)" "runloops T = runloops (core_tasks ?S)" "owns ((tbox_modules ?S)[i := ?m2]) (tbox_task_infos T)"
        using detach_owns [OF o i m2 refl] unfolding same by blast
      have e: "upd_module i (\<lambda>m. m\<lparr>mm_task_id := TBOX_ID_INVALID\<rparr>) (?S\<lparr>core_tasks := T\<rparr>) =
          ?S\<lparr>tbox_modules := (tbox_modules ?S)[i := ?m2], core_tasks := T\<rparr>"
        unfolding upd_module_eq by simp
      have "owned (upd_module i (\<lambda>m. m\<lparr>mm_task_id := TBOX_ID_INVALID\<rparr>) (?S\<lparr>core_tasks := T\<rparr>))"
        unfolding e by (rule owned_replace [OF S1 T(4,2) arg_cong [OF T(3)]])
      then show ?thesis using detach T(1) by (simp add: switch_task_def Let_def)
    next
      case nothing
      then have "switch_task i enable ?m ?S = Some ?S" by (auto simp: switch_task_def Let_def)
      then show ?thesis using S1 by blast
    qed
  qed
  then obtain S2 where S2: "switch_task i enable ?m ?S = Some S2" "owned S2" by blast
  show ?thesis
    using False S2 S owned_length [OF S] i call_owned [OF cb S2(2), of "Call_enable (in_enable_fun (mm_info ?m)) enable"]
    by (auto simp: tbox_module_enable_def owned_def Let_def i_def)
qed

lemma runloop_owned:
  assumes S: "owned S"
  shows "\<exists>S' r. tbox_module_start_runloop k f created S = Some (S', r) \<and> owned S'"
proof (cases "bad_module_id k \<or> f = 0 \<or> \<not> mm_is_used (tbox_modules S ! unat k) \<or> mm_is_enabled (tbox_modules S ! unat k) = 0")
  case True
  then show ?thesis using S owned_length [OF S] good_id [of k]
    by (auto simp: tbox_module_start_runloop_def owned_def)
next
  case False
  define i where "i = unat k"
  have i: "i < 32" using False good_id [of k] by (simp add: i_def)
  let ?m = "tbox_modules S ! i" and ?T = "core_tasks S"
  have mgr: "mgr_mutex ?T" and rl: "length (runloops ?T) = 16" and o: "owns (tbox_modules S) (tbox_task_infos ?T)" using S by (simp_all add: owned_def)
  obtain T t where T: "tbox_task_create_runloop k (in_priority (mm_info ?m)) (ucast (in_stack_size (mm_info ?m))) f created ?T = Some (T, t)"
      "tbox_task_infos T = tbox_task_infos ?T" "mgr_mutex T = mgr_mutex ?T" "length (runloops T) = 16"
      "t = TBOX_ID_INVALID \<or> 8 \<le> unat t \<and> unat t < 24"
  proof -
    consider "k \<le>s TBOX_ID_INVALID \<or> first_index (\<lambda>r. \<not> rl_is_used r) 0 (runloops ?T) = None \<or> created = None"
      | (new) j h where "\<not> k \<le>s TBOX_ID_INVALID" "first_index (\<lambda>r. \<not> rl_is_used r) 0 (runloops ?T) = Some j" "created = Some h"
      by (cases created; cases "first_index (\<lambda>r. \<not> rl_is_used r) 0 (runloops ?T)") blast+
    then show thesis
    proof cases
      case 1
      then have "tbox_task_create_runloop k (in_priority (mm_info ?m)) (ucast (in_stack_size (mm_info ?m))) f created ?T =
          Some (?T, TBOX_ID_INVALID)"
        using mgr False by (auto simp: tbox_task_create_runloop_def take_mgr_def split: option.split)
      then show thesis using that rl by simp
    next
      case new
      have j: "j < 16" using first_index_Some [OF new(2)] rl by simp
      then have "unat (of_nat (j + 8) :: TBOX_ID) = j + 8" by (intro small_id) simp
      then have id: "(of_nat (j + 8) :: TBOX_ID) = TBOX_ID_INVALID \<or>
          8 \<le> unat (of_nat (j + 8) :: TBOX_ID) \<and> unat (of_nat (j + 8) :: TBOX_ID) < 24" using j by simp
      let ?T1 = "upd_runloop j (\<lambda>r. r\<lparr>rl_is_used := True, rl_module_id := k, rl_handle := h, rl_priority := in_priority (mm_info ?m),
        rl_stack_size := ucast (in_stack_size (mm_info ?m)), runloop_func := f, rl_task_id := of_nat (j + 8),
        rl_state := TBOX_TASK_RUN_IDLE\<rparr>) (xTaskCreated h ?T)"
      have "tbox_task_create_runloop k (in_priority (mm_info ?m)) (ucast (in_stack_size (mm_info ?m))) f created ?T =
          Some (?T1, of_nat (j + 8))"
        using new mgr False by (simp add: tbox_task_create_runloop_def take_mgr_def Let_def)
      then show thesis
        by (rule that) (use rl id in \<open>simp_all add: upd_runloop_def xTaskCreated_def\<close>)
    qed
  qed
  let ?m2 = "?m\<lparr>mm_task_id := t\<rparr>"
  have "owns ((tbox_modules S)[i := ?m2]) (tbox_task_infos T)"
    using owns_update [OF o, of "tbox_task_infos T" i ?m2] T(2,5) by (auto simp: refers_def)
  then have "owned (S\<lparr>tbox_modules := (tbox_modules S)[i := ?m2], core_tasks := T\<rparr>)"
    using owned_replace [OF S] T(3,4) rl by simp
  moreover have "owned (S\<lparr>core_tasks := T\<rparr>)" using S T(2-4) by (simp add: owned_def)
  ultimately show ?thesis
    using False T S owned_length [OF S] i
    by (auto simp: tbox_module_start_runloop_def owned_def Let_def upd_module_eq i_def [symmetric])
qed

text \<open>The task pool takes only tasks that belong to no module.\<close>

lemma nth_step: "Suc i \<le> n \<Longrightarrow> (t # ts) ! (n - i) = ts ! (n - Suc i)"
  by (simp add: Suc_diff_Suc [symmetric])

lemma select_idle_free:
  "select_idle sz i ts = Some k \<Longrightarrow> i + length ts \<le> 32 \<Longrightarrow> k = TBOX_ID_INVALID \<or>
     (i \<le> unat k \<and> unat k < i + length ts \<and> ti_module_id (ts ! (unat k - i)) = TBOX_ID_INVALID)"
proof (induction ts arbitrary: i)
  case (Cons t ts)
  show ?case
  proof (cases "ti_state t = TBOX_TASK_RUN_IDLE \<and> ti_stack_size t \<ge> sz \<and> ti_module_id t = TBOX_ID_INVALID")
    case True
    then have "k = of_nat i" using Cons.prems(1) by (simp split: if_splits)
    then show ?thesis using True small_id(1) [of i] Cons.prems(2) by simp
  next
    case False
    then have "select_idle sz (Suc i) ts = Some k" using Cons.prems(1) by (simp split: if_splits)
    from Cons.IH [OF this] Cons.prems(2)
    have "k = TBOX_ID_INVALID \<or> Suc i \<le> unat k \<and> unat k < Suc i + length ts \<and>
        ti_module_id (ts ! (unat k - Suc i)) = TBOX_ID_INVALID" by simp
    then show ?thesis using nth_step [of i "unat k" t ts] by auto
  qed
qed simp

lemma select_load_free:
  "select_load sz i l k0 ts = Some k \<Longrightarrow> i + length ts \<le> 32 \<Longrightarrow> k = k0 \<or>
     (i \<le> unat k \<and> unat k < i + length ts \<and> ti_module_id (ts ! (unat k - i)) = TBOX_ID_INVALID)"
proof (induction ts arbitrary: i l k0)
  case (Cons t ts)
  have mutex: "ti_mutex t" using Cons.prems(1) by (simp split: if_splits)
  let ?free = "ti_module_id t = TBOX_ID_INVALID"
  have "\<exists>l' k1. select_load sz (Suc i) l' k1 ts = Some k \<and> (k1 = k0 \<or> k1 = of_nat i \<and> ?free)"
    using Cons.prems(1) mutex unfolding select_load.simps Let_def by (simp split: if_splits) blast+
  then obtain l' k1 where k1: "select_load sz (Suc i) l' k1 ts = Some k" "k1 = k0 \<or> k1 = of_nat i \<and> ?free" by blast
  from Cons.IH [OF k1(1)] Cons.prems(2)
  have "k = k1 \<or> Suc i \<le> unat k \<and> unat k < Suc i + length ts \<and>
      ti_module_id (ts ! (unat k - Suc i)) = TBOX_ID_INVALID" by simp
  then show ?case using k1(2) nth_step [of i "unat k" t ts] small_id(1) [of i] Cons.prems(2) by auto
qed simp

lemma select_task_free:
  assumes "tbox_taskpool_select_task T sz = Some k" and "k \<noteq> TBOX_ID_INVALID" and "length (tbox_task_infos T) = 8"
  shows "unat k < 8 \<and> ti_module_id (tbox_task_infos T ! unat k) = TBOX_ID_INVALID"
proof -
  obtain k1 where k1: "select_idle sz 0 (tbox_task_infos T) = Some k1"
      "k = k1 \<or> select_load sz 0 0xFFFFFFFF k1 (tbox_task_infos T) = Some k \<and> k1 = TBOX_ID_INVALID"
    using assms(1) by (auto simp: tbox_taskpool_select_task_def bind_eq_Some_conv split: if_splits)
  then show ?thesis
    using select_idle_free [OF k1(1)] select_load_free [of sz 0 "0xFFFFFFFF" k1 "tbox_task_infos T" k] assms(2,3) by auto
qed

text \<open>What owning comes to for whoever looks at the table.\<close>

lemma owned_exclusive:
  assumes "owned S"
  shows "(\<forall>i<32. unat (mm_task_id (tbox_modules S ! i)) < 8 \<longrightarrow>
       ti_module_id (tbox_task_infos (core_tasks S) ! unat (mm_task_id (tbox_modules S ! i))) = of_nat i) \<and>
    (\<forall>i<32. \<forall>j<32. mm_task_id (tbox_modules S ! i) = mm_task_id (tbox_modules S ! j) \<and>
       unat (mm_task_id (tbox_modules S ! i)) < 8 \<longrightarrow> i = j) \<and>
    (\<forall>sz k. tbox_taskpool_select_task (core_tasks S) sz = Some k \<and> k \<noteq> TBOX_ID_INVALID \<longrightarrow>
       (\<forall>i<32. mm_task_id (tbox_modules S ! i) \<noteq> k))"
proof -
  have r: "refers (tbox_task_infos (core_tasks S)) i (mm_task_id (tbox_modules S ! i))" if "i < 32" for i
    using assms that by (simp add: owned_def owns_def)
  have len: "length (tbox_task_infos (core_tasks S)) = 8" using assms by (simp add: owned_def owns_def)
  have own: "ti_module_id (tbox_task_infos (core_tasks S) ! unat (mm_task_id (tbox_modules S ! i))) = of_nat i"
    if "i < 32" "unat (mm_task_id (tbox_modules S ! i)) < 8" for i
    using r [OF that(1)] that(2) invalid_not_small by (auto simp: refers_def)
  have "i = j" if "i < 32" "j < 32" "mm_task_id (tbox_modules S ! i) = mm_task_id (tbox_modules S ! j)"
      "unat (mm_task_id (tbox_modules S ! i)) < 8" for i j
    using own [of i] own [of j] that small_id_eq [of i j] by simp
  moreover have "mm_task_id (tbox_modules S ! i) \<noteq> k"
    if "tbox_taskpool_select_task (core_tasks S) sz = Some k" "k \<noteq> TBOX_ID_INVALID" "i < 32" for sz k i
    using select_task_free [OF that(1,2) len] own [OF that(3)] small_id(2) [OF that(3)] by auto
  ultimately show ?thesis using own by blast
qed

text \<open>
  The shut-down gives the tasks of the critical modules back and leaves their ids in the table, which nobody
  reads until the next set-up clears it.
\<close>

definition tasks_sound :: "tasks \<Rightarrow> bool" where
  "tasks_sound T \<longleftrightarrow> mgr_mutex T \<and> length (runloops T) = TBOX_RUNLOOP_TASK_NUM \<and> length (tbox_task_infos T) = TBOX_TASK_MAX_NUM"

definition shut :: "core_state \<Rightarrow> bool" where
  "shut S \<longleftrightarrow> \<not> tbox_module_is_init S \<and> tasks_sound (core_tasks S)"

definition leaving :: "core_state \<Rightarrow> bool" where
  "leaving S \<longleftrightarrow> shut S \<and> length (tbox_modules S) = TBOX_MODULE_MAX_NUM \<and>
     (\<forall>k\<in>set (map mm_task_id (tbox_modules S)). k = TBOX_ID_INVALID \<or> unat k < TBOX_TASK_MAX_NUM + TBOX_RUNLOOP_TASK_NUM)"

lemma detach_sound:
  assumes T: "tasks_sound (core_tasks S)" and k: "k = TBOX_ID_INVALID \<or> unat k < TBOX_TASK_MAX_NUM + TBOX_RUNLOOP_TASK_NUM"
  shows "\<exists>T. detach_task k S = Some (S\<lparr>core_tasks := T\<rparr>) \<and> tasks_sound T"
proof (cases "k = TBOX_ID_INVALID \<or> bad_task_id k TBOX_TASK_MAX_NUM")
  case True
  then show ?thesis using T by (auto simp: detach_task_def tbox_task_detach_def intro!: exI [of _ "core_tasks S"])
next
  case False
  then have "unat (ucast k :: u8) = unat k" using k by (intro low_byte_small) simp
  then have "unat k < TBOX_TASK_MAX_NUM" using False by (auto simp: bad_task_id_def)
  moreover have "S\<lparr>core_tasks := core_tasks S\<rparr> = S" by simp
  ultimately show ?thesis using False T
    by (cases "ti_mutex (tbox_task_infos (core_tasks S) ! unat k)")
      (auto simp: tasks_sound_def detach_task_def tbox_task_detach_def task_at_def upd_task_def intro: exI [of _ "core_tasks S"])
qed

lemma call_leaving:
  assumes cb: "loyal cb" and S: "leaving S"
  shows "\<exists>S'. (if f \<noteq> 0 then map_option fst (call cb c S) else Some S) = Some S' \<and> leaving S'"
proof (cases "f = 0")
  case False
  have l: "length (tbox_modules S) = TBOX_MODULE_MAX_NUM" using S by (simp add: leaving_def)
  obtain S' r where c: "call cb c S = Some (S', r)" "map mm_task_id (tbox_modules S') = map mm_task_id (tbox_modules S)"
     "tbox_module_is_init S' = tbox_module_is_init S" "mgr_mutex (core_tasks S') = mgr_mutex (core_tasks S)"
     "length (runloops (core_tasks S')) = length (runloops (core_tasks S))"
     "map ti_module_id (tbox_task_infos (core_tasks S')) = map ti_module_id (tbox_task_infos (core_tasks S))"
    by (rule call_loyal [OF cb l])
  have "length (tbox_modules S') = length (tbox_modules S)"
    "length (tbox_task_infos (core_tasks S')) = length (tbox_task_infos (core_tasks S))"
    using c(2,6) by (metis length_map)+
  then have "leaving S'" using S c(3-5) unfolding leaving_def shut_def tasks_sound_def c(2) by simp
  then show ?thesis using False c(1) by simp
qed (use S in simp)

lemma exit_module_leaving:
  assumes cb: "loyal cb" and S: "leaving S" and i: "i < 32"
  shows "\<exists>S'. exit_module cb i S = Some S' \<and> leaving S'"
proof -
  let ?m = "tbox_modules S ! i"
  define leave where "leave \<longleftrightarrow> mm_is_used ?m \<and> in_is_interface (mm_info ?m) = 0 \<and> in_is_critical (mm_info ?m) = 1 \<and>
    mm_state ?m \<noteq> TBOX_MODULE_STATE_NOINIT"
  let ?S = "if leave then upd_module i (\<lambda>m. m\<lparr>mm_state := TBOX_MODULE_STATE_NOINIT\<rparr>) S else S"
  have l: "length (tbox_modules S) = 32" using S by (simp add: leaving_def)
  have k: "mm_task_id ?m = TBOX_ID_INVALID \<or> unat (mm_task_id ?m) < TBOX_TASK_MAX_NUM + TBOX_RUNLOOP_TASK_NUM"
    using S i l unfolding leaving_def by (metis length_map nth_map nth_mem)
  have ids: "map mm_task_id (tbox_modules ?S) = map mm_task_id (tbox_modules S)"
    using i l by (simp add: map_update list_update_same_conv)
  have L1: "leaving ?S"
    using S l unfolding leaving_def ids by (simp add: shut_def)
  have "tasks_sound (core_tasks ?S)" using L1 unfolding leaving_def shut_def by blast
  moreover have "(if leave then mm_task_id ?m else TBOX_ID_INVALID) = TBOX_ID_INVALID \<or>
      unat (if leave then mm_task_id ?m else TBOX_ID_INVALID) < TBOX_TASK_MAX_NUM + TBOX_RUNLOOP_TASK_NUM" using k by simp
  ultimately obtain T where T: "detach_task (if leave then mm_task_id ?m else TBOX_ID_INVALID) ?S = Some (?S\<lparr>core_tasks := T\<rparr>)" "tasks_sound T"
    using detach_sound by blast
  have L2: "leaving (?S\<lparr>core_tasks := T\<rparr>)" using L1 T(2) unfolding leaving_def shut_def by simp
  have "exit_module cb i S = (if in_exit_fun (mm_info ?m) \<noteq> 0
      then map_option fst (call cb (Call_exit (in_exit_fun (mm_info ?m))) (?S\<lparr>core_tasks := T\<rparr>)) else Some (?S\<lparr>core_tasks := T\<rparr>))"
    using i l T(1) by (simp add: exit_module_def leave_def [symmetric] Let_def del: upd_module_simps)
  then show ?thesis using call_leaving [OF cb L2, of "in_exit_fun (mm_info ?m)" "Call_exit (in_exit_fun (mm_info ?m))"] by simp
qed

lemma owned_leaving:
  assumes "owned S"
  shows "leaving (S\<lparr>tbox_module_is_init := False\<rparr>)"
proof -
  have "k = TBOX_ID_INVALID \<or> unat k < TBOX_TASK_MAX_NUM + TBOX_RUNLOOP_TASK_NUM"
    if k: "k \<in> set (map mm_task_id (tbox_modules S))" for k
  proof -
    obtain m where "m \<in> set (tbox_modules S)" "k = mm_task_id m" using k by auto
    then obtain i where "i < length (tbox_modules S)" "k = mm_task_id (tbox_modules S ! i)" by (metis in_set_conv_nth)
    then have "refers (tbox_task_infos (core_tasks S)) i k" using assms by (simp add: owned_def owns_def)
    then show ?thesis by (auto simp: refers_def)
  qed
  then show ?thesis using assms unfolding leaving_def shut_def tasks_sound_def owned_def owns_def by simp
qed

lemma exit_shut:
  assumes "loyal cb" and "owned S"
  shows "\<exists>S'. tbox_module_exit cb S = Some S' \<and> shut S'"
proof -
  have "\<exists>S'. for_up 0 32 (exit_module cb) (S\<lparr>tbox_module_is_init := False\<rparr>) = Some S' \<and> leaving S'"
    using for_up_inv [of "\<lambda>_. leaving" 0 _ 32 "exit_module cb"] owned_leaving [OF assms(2)] exit_module_leaving [OF assms(1)] by simp
  then show ?thesis using assms(2) by (auto simp: tbox_module_exit_def owned_def leaving_def)
qed

text \<open>Everything the manager can be asked to do, its set-up and its shut-down included.\<close>

datatype module_op = Op_setup | Op_exit | Op_canbe_stop | Op_register "TBOX_MODULE_INFO option" | Op_enable TBOX_ID u8
  | Op_runloop TBOX_ID u32 "u32 option" | Op_init_all | Op_start | Op_stop | Op_start_one TBOX_ID
  | Op_stop_one TBOX_ID | Op_set_state TBOX_ID TBOX_MODULE_STATE | Op_log_level TBOX_ID u8 | Op_log_byname u32 u8

fun do_op :: "callbacks \<Rightarrow> module_op \<Rightarrow> core_state \<Rightarrow> core_state option" where
  "do_op cb Op_setup S = Some (fst (tbox_module_init S))"
| "do_op cb Op_exit S = tbox_module_exit cb S"
| "do_op cb Op_canbe_stop S = map_option fst (tbox_allmodule_canbe_stop cb S)"
| "do_op cb (Op_register info) S = Some (fst (tbox_module_register info S))"
| "do_op cb (Op_enable k e) S = map_option fst (tbox_module_enable cb k e S)"
| "do_op cb (Op_runloop k f created) S = map_option fst (tbox_module_start_runloop k f created S)"
| "do_op cb Op_init_all S = tbox_module_init_all_regmodule cb S"
| "do_op cb Op_start S = tbox_module_start cb S"
| "do_op cb Op_stop S = tbox_module_stop cb S"
| "do_op cb (Op_start_one k) S = tbox_module_start_specific cb k S"
| "do_op cb (Op_stop_one k) S = tbox_module_stop_specific cb k S"
| "do_op cb (Op_set_state k st) S = tbox_module_set_state k st S"
| "do_op cb (Op_log_level k l) S = tbox_module_set_log_level k l S"
| "do_op cb (Op_log_byname n l) S = Some (fst (tbox_module_set_log_level_byname n l S))"

fun do_ops :: "callbacks \<Rightarrow> module_op list \<Rightarrow> core_state \<Rightarrow> core_state option" where
  "do_ops cb [] S = Some S"
| "do_ops cb (c # cs) S = do { S \<leftarrow> do_op cb c S; do_ops cb cs S }"

lemma change_owned:
  assumes "owned S" and "\<And>m. mm_task_id (f m) = mm_task_id m"
  shows "\<exists>S'. change_module k f S = Some S' \<and> owned S'"
  using assms owned_length [OF assms(1)] good_id [of k] owned_upd [of S f "unat k"]
  by (cases "bad_module_id k") (auto simp: change_module_def owned_def)

lemma canbe_owned:
  "loyal cb \<Longrightarrow> owned S \<Longrightarrow> i + n \<le> 32 \<Longrightarrow> \<exists>S' b. canbe_stop_from cb i n S = Some (S', b) \<and> owned S'"
proof (induction n arbitrary: i S)
  case (Suc n)
  let ?f = "in_canbe_stop_fun (mm_info (tbox_modules S ! i))"
  have i: "i < length (tbox_modules S)" using Suc.prems(3) owned_length [OF Suc.prems(2)] by simp
  obtain S1 r where c: "call cb (Call_canbe_stop ?f) S = Some (S1, r)" "owned S1" using call_owned [OF Suc.prems(1,2)] by blast
  have "\<exists>S' b. canbe_stop_from cb (Suc i) n T = Some (S', b) \<and> owned S'" if "owned T" for T
    using Suc.IH [OF Suc.prems(1) that, of "Suc i"] Suc.prems(3) by simp
  then show ?case using i c Suc.prems(2) by (simp add: Let_def ex_bool_eq)
qed (simp add: ex_bool_eq)

lemma loop_owned:
  assumes "owned S" and "\<And>j t. j < n \<Longrightarrow> owned t \<Longrightarrow> \<exists>t'. body j t = Some t' \<and> owned t'"
  shows "\<exists>S'. for_up 0 n body S = Some S' \<and> owned S'"
  using for_up_inv [of "\<lambda>_. owned" 0 S n body] assms by simp

lemma op_owned:
  assumes cb: "loyal cb" and S: "owned S" and c: "c \<noteq> Op_exit"
  shows "\<exists>S'. do_op cb c S = Some S' \<and> owned S'"
proof -
  have init: "tbox_module_is_init S" using S by (simp add: owned_def)
  have init_all: "\<exists>S'. for_up 0 3 (\<lambda>seq. for_up 0 32 (init_module cb (of_nat seq))) S = Some S' \<and> owned S'"
    by (intro loop_owned S init_module_owned [OF cb])
  have start: "\<exists>S'. for_up 0 32 (start_module cb) S = Some S' \<and> owned S'"
    by (intro loop_owned S start_module_owned [OF cb])
  have stop: "\<exists>S'. for_up 0 32 (\<lambda>j. stop_module cb (31 - j)) S = Some S' \<and> owned S'"
    by (intro loop_owned S stop_module_owned [OF cb]) auto
  show ?thesis
  proof (cases c)
    case (Op_start_one k)
    then show ?thesis using start_module_owned [OF cb S, of "unat k"] good_id [of k] S
      by (auto simp: tbox_module_start_specific_def)
  next
    case (Op_stop_one k)
    then show ?thesis using stop_module_owned [OF cb S, of "unat k"] good_id [of k] S
      by (auto simp: tbox_module_stop_specific_def)
  next
    case Op_setup
    then show ?thesis using S init by (simp add: tbox_module_init_def)
  next
    case Op_exit
    then show ?thesis using c by simp
  next
    case Op_canbe_stop
    then show ?thesis using canbe_owned [OF cb S, of 0 32] init by (auto simp: tbox_allmodule_canbe_stop_def)
  next
    case (Op_log_byname n l)
    have "owned (fst (tbox_module_set_log_level_byname n l S))"
      using S owned_upd [OF S] by (auto simp: tbox_module_set_log_level_byname_def Let_def split: option.split)
    then show ?thesis using Op_log_byname by simp
  next
    case (Op_enable k e)
    then show ?thesis using enable_owned [OF cb S, of k e] by auto
  next
    case (Op_runloop k f created)
    then show ?thesis using runloop_owned [OF S, of k f created] by auto
  qed (use init init_all start stop change_owned [OF S] register_owned [OF S] in
      \<open>auto simp: tbox_module_init_all_regmodule_def tbox_module_start_def tbox_module_stop_def
        tbox_module_set_state_def tbox_module_set_log_level_def\<close>)
qed

lemma init_owned:
  assumes "shut S"
  shows "owned (fst (tbox_module_init S))"
  using assms by (simp add: shut_def tasks_sound_def tbox_module_init_def owned_def owns_def refers_def zero_module_def)

lemma op_shut:
  assumes "shut S" and "c \<noteq> Op_setup"
  shows "do_op cb c S = Some S"
  using assms by (cases c) (auto simp: shut_def tbox_module_register_def tbox_module_enable_def tbox_module_start_runloop_def
      tbox_module_init_all_regmodule_def tbox_module_start_def tbox_module_stop_def tbox_module_start_specific_def
      tbox_module_stop_specific_def tbox_module_set_state_def tbox_module_set_log_level_def change_module_def
      tbox_module_set_log_level_byname_def tbox_module_exit_def tbox_allmodule_canbe_stop_def split: option.split)

lemma ops_owned:
  "loyal cb \<Longrightarrow> owned S \<or> shut S \<Longrightarrow> \<exists>S'. do_ops cb cs S = Some S' \<and> (owned S' \<or> shut S')"
proof (induction cs arbitrary: S)
  case (Cons c cs)
  have "\<exists>S1. do_op cb c S = Some S1 \<and> (owned S1 \<or> shut S1)"
  proof (cases "owned S")
    case True
    then show ?thesis using op_owned [OF Cons.prems(1) True, of c] exit_shut [OF Cons.prems(1) True] by (cases "c = Op_exit") auto
  next
    case False
    then have "shut S" using Cons.prems(2) by simp
    then show ?thesis using op_shut [of S c cb] init_owned [of S] by (cases "c = Op_setup") auto
  qed
  then show ?case using Cons.IH [OF Cons.prems(1)] by fastforce
qed simp

section \<open>The list of names\<close>

fun groups :: "'a list \<Rightarrow> 'a list list" where
  "groups [] = []"
| "groups (x # xs) = take 5 (x # xs) # groups (drop 5 (x # xs))"

definition line_length :: "u8 list list \<Rightarrow> nat" where
  "line_length names = (\<Sum>n\<leftarrow>names. length (padded n))"

lemma padded_length: "length (padded n) = max 13 (length n + 1)"
  by (simp add: padded_def)

lemma groups_unfold: "groups xs = (if xs = [] then [] else take 5 xs # groups (drop 5 xs))"
  by (cases xs) simp_all

lemma show_names_iff:
  assumes "\<forall>n\<in>set names. length n \<le> 126" and "shown < 5" and "pos < 128" and "length buf = 128"
  shows "show_names names shown pos buf \<noteq> None \<longleftrightarrow> pos + line_length (take (5 - shown) names) < 128 \<and>
    (\<forall>g\<in>set (groups (drop (5 - shown) names)). line_length g < 128)"
  using assms
proof (induction names arbitrary: shown pos buf)
  case Nil
  then show ?case by (simp add: line_length_def)
next
  case (Cons n names)
  have t: "take 127 (padded n) = padded n" using Cons.prems(1) by (simp add: padded_length)
  have split: "take (5 - shown) (n # names) = n # take (4 - shown) names" "drop (5 - shown) (n # names) = drop (4 - shown) names"
    using Cons.prems(2) by (simp_all add: take_Cons' drop_Cons')
  show ?case
  proof (cases "pos + length (padded n) < 128")
    case False
    then show ?thesis using Cons.prems(4) t unfolding split
      by (simp add: show_name_def line_length_def Let_def)
  next
    case True
    let ?buf = "blit buf pos (padded n @ [0])"
    have b: "show_name pos 128 n buf = Some (?buf, pos + length (padded n))"
      using True Cons.prems(4) t by (simp add: show_name_def Let_def)
    have lb: "length ?buf = 128" using True Cons.prems(4) by (simp add: blit_def)
    show ?thesis
    proof (cases "shown = 4")
      case True
      have "show_names (n # names) shown pos buf \<noteq> None \<longleftrightarrow> show_names names 0 0 (replicate 128 0) \<noteq> None"
        using b True by (cases "show_names names 0 0 (replicate 128 0)") simp_all
      moreover have "show_names names 0 0 (replicate 128 0) \<noteq> None \<longleftrightarrow> 0 + line_length (take 5 names) < 128 \<and>
          (\<forall>g\<in>set (groups (drop 5 names)). line_length g < 128)"
        using Cons.IH [of 0 0 "replicate 128 0"] Cons.prems(1) by simp
      moreover have "pos + line_length [n] < 128" using \<open>pos + length (padded n) < 128\<close> by (simp add: line_length_def)
      ultimately show ?thesis using True unfolding split by (simp add: groups_unfold [of names] line_length_def)
    next
      case False
      have "show_names (n # names) shown pos buf = show_names names (Suc shown) (pos + length (padded n)) ?buf"
        using b False Cons.prems(2) by simp
      moreover have "show_names names (Suc shown) (pos + length (padded n)) ?buf \<noteq> None \<longleftrightarrow>
          pos + length (padded n) + line_length (take (5 - Suc shown) names) < 128 \<and>
          (\<forall>g\<in>set (groups (drop (5 - Suc shown) names)). line_length g < 128)"
        using Cons.IH [of "Suc shown" "pos + length (padded n)" ?buf] Cons.prems(1,2) True lb False by simp
      moreover have "5 - Suc shown = 4 - shown" by simp
      ultimately show ?thesis unfolding split by (simp add: line_length_def add.assoc)
    qed
  qed
qed

section \<open>An example\<close>

definition demo_core_state :: core_state where
  "demo_core_state = \<lparr>tbox_module_is_init = False, tbox_modules = [],
     core_tasks = \<lparr>tbox_task_infos = replicate 8 (zero_task\<lparr>ti_state := TBOX_TASK_RUN_IDLE, ti_stack_size := 224,
         ti_module_id := TBOX_ID_INVALID, ti_handle := 0x20001000, ti_mutex := True\<rparr>), block_info = [],
       runloops = replicate 16 zero_runloop, mgr_mutex = True,
       tcbs = (\<lambda>_. \<lparr>ulNotifiedValue = 0, notify_state = taskNOT_WAITING_NOTIFICATION\<rparr>),
       task_state = (\<lambda>_. eReady), abnormal_reports = []\<rparr>,
     core_messages = \<lparr>strings = (\<lambda>_. replicate 26 97), core_memory = \<lparr>mps = [], mem = ex_mem, reports = []\<rparr>,
       tbox_msg_is_init = False, tbox_msg_hashmap = None, tbox_msg_buffer = 0, tbox_msg_mutex = False,
       handler_items = (\<lambda>_. \<lparr>hi_dst_id = 0, hi_handler = 0, hi_next = 0\<rparr>)\<rparr>,
     module_calls = []\<rparr>"

definition demo_info :: TBOX_MODULE_INFO where
  "demo_info = zero_info\<lparr>in_name := 0x100, in_priority := 8, in_init_fun := 0x500, in_start_fun := 0x600, in_stop_fun := 0x700\<rparr>"

definition demo_modules :: core_state where
  "demo_modules = fst (tbox_module_register (Some demo_info) (fst (tbox_module_init demo_core_state)))"

definition demo_item :: TBOX_MODULE_MGR_ITEM where
  "demo_item = zero_module\<lparr>mm_is_used := True, mm_is_enabled := 1,
     mm_info := demo_info\<lparr>in_stack_size := ucast TBOX_TASK_SMALL_STACK_SIZE\<rparr>\<rparr>"

lemma zero_module_simps [simp]:
  "\<not> mm_is_used zero_module" "mm_task_id zero_module = TBOX_ID_INVALID" "mm_state zero_module = TBOX_MODULE_STATE_NOINIT"
  by (simp_all add: zero_module_def)

lemma demo_item_simps [simp]:
  "mm_is_used demo_item" "mm_is_enabled demo_item = 1" "mm_task_id demo_item = TBOX_ID_INVALID"
  "mm_state demo_item = TBOX_MODULE_STATE_NOINIT" "in_init_fun (mm_info demo_item) = 0x500"
  "in_start_fun (mm_info demo_item) = 0x600" "in_stop_fun (mm_info demo_item) = 0x700"
  by (simp_all add: demo_item_def demo_info_def zero_info_def)

lemma replicate_32: "replicate 32 x = x # replicate 31 x"
  using replicate_Suc [of 31 x] by (simp del: replicate_Suc)

lemma demo_modules_eq:
  "demo_modules = demo_core_state\<lparr>tbox_modules := demo_item # replicate 31 zero_module, tbox_module_is_init := True\<rparr>"
  by (simp add: demo_modules_def demo_core_state_def tbox_module_init_def tbox_module_register_def demo_info_def demo_item_def
      zero_info_def Let_def upd_module_def replicate_32)

lemma demo_modules_simps:
  "tbox_module_is_init demo_modules" "length (tbox_modules demo_modules) = 32" "tasks_exist demo_modules"
  "tbox_modules demo_modules = demo_item # replicate 31 zero_module" "module_calls demo_modules = []"
  by (simp_all add: demo_modules_eq tasks_exist_def demo_core_state_def)

text \<open>Module 0 as \<^verbatim>\<open>led.c\<close> is: it sets its state when it is initialised in the last round, started and stopped.\<close>

definition demo_sets :: "module_call \<Rightarrow> TBOX_MODULE_STATE option" where
  "demo_sets c = (case c of Call_init f seq \<Rightarrow> (if seq = MODULE_INIT_SEQ_MODULE then Some TBOX_MODULE_STATE_START else None)
     | Call_start f \<Rightarrow> Some TBOX_MODULE_STATE_START | Call_stop f \<Rightarrow> Some TBOX_MODULE_STATE_STOP | _ \<Rightarrow> None)"

definition demo_callbacks :: callbacks where
  "demo_callbacks c S = map_option (\<lambda>S. (S, 0))
     (case demo_sets c of None \<Rightarrow> Some S | Some st \<Rightarrow> tbox_module_set_state 0 st S)"

lemma demo_behaved: "behaved (\<lambda>_. 0) (\<lambda>_. 0) demo_sets demo_callbacks"
  unfolding behaved_def
proof (intro allI impI, elim conjE)
  fix c and S :: core_state
  assume S: "tbox_module_is_init S" "length (tbox_modules S) = TBOX_MODULE_MAX_NUM" "mm_is_used (tbox_modules S ! 0)"
  have "tbox_module_set_state 0 st S = Some (upd_module 0 (\<lambda>m. m\<lparr>mm_state := st\<rparr>) S)" for st
    using S by (simp add: tbox_module_set_state_def change_module_def bad_module_id_def)
  then show "\<exists>S'. demo_callbacks c S = Some (S', 0) \<and> tbox_modules S' = (tbox_modules S)[0 := settle (demo_sets c) (tbox_modules S ! 0)] \<and>
      tbox_module_is_init S' = tbox_module_is_init S \<and> module_calls S' = module_calls S \<and>
      length (tbox_task_infos (core_tasks S')) = length (tbox_task_infos (core_tasks S))"
    by (cases "demo_sets c") (simp_all add: demo_callbacks_def settle_def)
qed

lemma demo_loyal: "loyal demo_callbacks"
  unfolding loyal_def
proof (intro allI impI)
  fix c and S :: core_state
  assume S: "length (tbox_modules S) = TBOX_MODULE_MAX_NUM"
  have "\<exists>S'. tbox_module_set_state 0 st S = Some S' \<and> map mm_task_id (tbox_modules S') = map mm_task_id (tbox_modules S) \<and>
      tbox_module_is_init S' = tbox_module_is_init S \<and> core_tasks S' = core_tasks S" for st
    using S by (auto simp: tbox_module_set_state_def change_module_def bad_module_id_def map_update list_update_same_conv)
  from this [of "the (demo_sets c)"] show "\<exists>S' r. demo_callbacks c S = Some (S', r) \<and> map mm_task_id (tbox_modules S') = map mm_task_id (tbox_modules S) \<and>
     tbox_module_is_init S' = tbox_module_is_init S \<and> mgr_mutex (core_tasks S') = mgr_mutex (core_tasks S) \<and>
     length (runloops (core_tasks S')) = length (runloops (core_tasks S)) \<and>
     map ti_module_id (tbox_task_infos (core_tasks S')) = map ti_module_id (tbox_task_infos (core_tasks S))"
    by (cases "demo_sets c") (auto simp: demo_callbacks_def)
qed

lemma demo_table_ok: "table_ok (\<lambda>_. 0) demo_modules"
proof -
  have "own_calls (\<lambda>_. 0) i (tbox_modules demo_modules ! i)" if "i < 32" for i
    using that by (cases i) (simp_all add: demo_modules_simps(4) own_calls_def)
  then show ?thesis using demo_modules_simps by (simp add: table_ok_def)
qed

lemma demo_rounds:
  "\<not> init_fails (\<lambda>_. 0) seq m" "inited (\<lambda>_. 0) demo_sets MODULE_INIT_SEQ_OS m = m"
  "inited (\<lambda>_. 0) demo_sets MODULE_INIT_SEQ_STORAGE m = m"
  "init_calls seq demo_item = [Call_init 0x500 seq]" "init_calls seq zero_module = []"
  by (simp_all add: init_fails_def inited_def Let_def left_by_def demo_sets_def init_calls_def nonnull_def active_def
      MODULE_INIT_SEQ_MODULE_def MODULE_INIT_SEQ_STORAGE_def MODULE_INIT_SEQ_OS_def)

lemma demo_start_stop:
  "started demo_sets demo_item = demo_item\<lparr>mm_state := TBOX_MODULE_STATE_START\<rparr>" "started demo_sets zero_module = zero_module"
  "start_calls demo_item = [Call_start 0x600]" "start_calls zero_module = []"
  "stop_calls (demo_item\<lparr>mm_state := TBOX_MODULE_STATE_START\<rparr>) = [Call_stop 0x700]" "stop_calls zero_module = []"
  by (simp_all add: started_def start_calls_def stop_calls_def nonnull_def active_def left_by_def settle_def demo_sets_def)

definition demo_ops :: "module_op list" where
  "demo_ops = (let reg = Op_register (Some (demo_info\<lparr>in_is_critical := 1\<rparr>)) in
     [Op_setup, reg, reg, Op_init_all, Op_start, Op_stop, Op_exit, Op_setup, reg, reg])"

lemma demo_attached:
  "map_option (\<lambda>S. (tbox_module_is_init S, mm_task_id (tbox_modules S ! 0), mm_task_id (tbox_modules S ! 1)))
     (do_ops demo_callbacks demo_ops demo_core_state) = Some (True, 0, 1)"
  by code_simp

section \<open>Properties\<close>

text \<open>
  C16: initialisation runs in three rounds over the whole table, so no module is initialised for the
  storage round before every module was for the system round. A module whose initialisation fails,
  unless it is an interface, is disabled, loses its task and is not called in a later round. In the last round
  every slot is set to \<open>INIT\<close> first, also the modules that failed before; in the end a module that failed in the
  last round is in the state \<open>NOINIT\<close>, one whose init function set its state in the last round (as those of
  \<^verbatim>\<open>hpm.c\<close> and \<^verbatim>\<open>led.c\<close> do) in that state, and every other one in \<open>INIT\<close>. The call-backs
  are those of the modules (\<open>behaved\<close>, \<open>table_ok\<close>): each may set the state of its own module. The task fields hold ids of tasks
  there are (\<open>tasks_exist\<close>).
\<close>

theorem module_init_rounds:
  assumes "behaved home ans sets cb" and "table_ok home S" and "tasks_exist S"
  defines "ms0 \<equiv> tbox_modules S"
  defines "ms1 \<equiv> map (inited ans sets MODULE_INIT_SEQ_OS) ms0"
  defines "ms2 \<equiv> map (inited ans sets MODULE_INIT_SEQ_STORAGE) ms1"
  shows "\<exists>S'. tbox_module_init_all_regmodule cb S = Some S' \<and>
    tbox_modules S' = map (inited ans sets MODULE_INIT_SEQ_MODULE) ms2 \<and>
    module_calls S' = module_calls S @ concat (map (init_calls MODULE_INIT_SEQ_OS) ms0) @
      concat (map (init_calls MODULE_INIT_SEQ_STORAGE) ms1) @ concat (map (init_calls MODULE_INIT_SEQ_MODULE) ms2) \<and>
    (\<forall>i<TBOX_MODULE_MAX_NUM. mm_state (tbox_modules S' ! i) =
       (if init_fails ans MODULE_INIT_SEQ_MODULE (ms2 ! i) then TBOX_MODULE_STATE_NOINIT
        else case init_calls MODULE_INIT_SEQ_MODULE (ms2 ! i) of
            [] \<Rightarrow> TBOX_MODULE_STATE_INIT
          | c # _ \<Rightarrow> (case sets c of None \<Rightarrow> TBOX_MODULE_STATE_INIT | Some st \<Rightarrow> st)))"
proof -
  let ?J = "\<lambda>S. table_ok home S \<and> tasks_exist S"
  have J: "?J S" and on: "tbox_module_is_init S" and l0: "length (tbox_modules S) = 32" using assms(2,3) by (simp_all add: table_ok_def)
  have l: "length ms0 = 32" "length ms1 = 32" "length ms2 = 32" using l0 by (simp_all add: ms0_def ms1_def ms2_def)
  obtain S1 where S1: "for_up 0 32 (init_module cb MODULE_INIT_SEQ_OS) S = Some S1" "?J S1" "tbox_modules S1 = ms1"
      "module_calls S1 = module_calls S @ concat (map (init_calls MODULE_INIT_SEQ_OS) ms0)"
    using sweep_up [OF init_visits [OF assms(1)] J, of 32 MODULE_INIT_SEQ_OS] l0 by (auto simp: ms1_def ms0_def)
  obtain S2 where S2: "for_up 0 32 (init_module cb MODULE_INIT_SEQ_STORAGE) S1 = Some S2" "?J S2" "tbox_modules S2 = ms2"
      "module_calls S2 = module_calls S1 @ concat (map (init_calls MODULE_INIT_SEQ_STORAGE) ms1)"
    using sweep_up [OF init_visits [OF assms(1)] S1(2), of 32 MODULE_INIT_SEQ_STORAGE] S1(3) l by (auto simp: ms2_def)
  obtain S3 where S3: "for_up 0 32 (init_module cb MODULE_INIT_SEQ_MODULE) S2 = Some S3"
      "tbox_modules S3 = map (inited ans sets MODULE_INIT_SEQ_MODULE) ms2"
      "module_calls S3 = module_calls S2 @ concat (map (init_calls MODULE_INIT_SEQ_MODULE) ms2)"
    using sweep_up [OF init_visits [OF assms(1)] S2(2), of 32 MODULE_INIT_SEQ_MODULE] S2(3) l by auto
  have "tbox_module_init_all_regmodule cb S = Some S3"
    using on S1(1) S2(1) S3(1)
    by (simp add: tbox_module_init_all_regmodule_def numeral_3_eq_3 MODULE_INIT_SEQ_OS_def MODULE_INIT_SEQ_STORAGE_def
        MODULE_INIT_SEQ_MODULE_def)
  then show ?thesis using S1(4) S2(4) S3(2,3) l by (intro exI [of _ S3]) (simp add: inited_state)
qed

theorem module_init_rounds_witness:
  "\<exists>S'. tbox_module_init_all_regmodule demo_callbacks demo_modules = Some S' \<and>
     module_calls S' = [Call_init 0x500 0, Call_init 0x500 1, Call_init 0x500 2] \<and>
     mm_state (tbox_modules S' ! 0) = TBOX_MODULE_STATE_START \<and> mm_state (tbox_modules S' ! 1) = TBOX_MODULE_STATE_INIT"
proof -
  have id: "inited (\<lambda>_. 0) demo_sets MODULE_INIT_SEQ_OS = (\<lambda>m. m)" "inited (\<lambda>_. 0) demo_sets MODULE_INIT_SEQ_STORAGE = (\<lambda>m. m)"
    by (auto simp: demo_rounds)
  obtain S' where S': "tbox_module_init_all_regmodule demo_callbacks demo_modules = Some S'"
      "module_calls S' = [Call_init 0x500 MODULE_INIT_SEQ_OS, Call_init 0x500 MODULE_INIT_SEQ_STORAGE, Call_init 0x500 MODULE_INIT_SEQ_MODULE]"
      "\<forall>i<32. mm_state (tbox_modules S' ! i) = (case init_calls MODULE_INIT_SEQ_MODULE (tbox_modules demo_modules ! i) of
            [] \<Rightarrow> TBOX_MODULE_STATE_INIT
          | c # _ \<Rightarrow> (case demo_sets c of None \<Rightarrow> TBOX_MODULE_STATE_INIT | Some st \<Rightarrow> st))"
    using module_init_rounds [OF demo_behaved demo_table_ok demo_modules_simps(3)]
    unfolding id by (force simp: demo_rounds demo_modules_simps)
  from S'(3) [rule_format, of 0] S'(3) [rule_format, of 1] S'(1,2) show ?thesis
    by (intro exI [of _ S']) (simp add: demo_rounds demo_modules_simps demo_sets_def MODULE_INIT_SEQ_MODULE_def
        MODULE_INIT_SEQ_STORAGE_def MODULE_INIT_SEQ_OS_def)
qed

text \<open>
  C17: starting and stopping. \<open>tbox_module_start\<close> brings every enabled module that is not started to the state
  \<open>START\<close> and calls its start function, once each and in the order of the table; \<open>tbox_allmodule_istarted\<close> then holds
  exactly if no start function has set another state. \<open>tbox_module_stop\<close> then calls the stop functions in the opposite
  order; it stops those modules itself that have none. As the comment in \<^verbatim>\<open>tbox_module_stop\<close> says, a module
  with a stop function sets the state when it has stopped, in the stop function (as \<^verbatim>\<open>hpm.c\<close> and
  \<^verbatim>\<open>led.c\<close> do) or later: \<open>tbox_allmodule_isstoped\<close> holds right after the call exactly if every started
  module that is switched on with \<^verbatim>\<open>TRUE\<close> has no stop function or one that sets another state, and no
  stop function of another sets \<open>START\<close>.
  The call-backs are those of the modules (\<open>behaved\<close>, \<open>table_ok\<close>): each may set the state of its own module.
\<close>

theorem module_start_stop:
  assumes "behaved home ans sets cb" and "table_ok home S"
  defines "ms \<equiv> map (started sets) (tbox_modules S)"
  shows "\<exists>S1 S2. tbox_module_start cb S = Some S1 \<and> tbox_modules S1 = ms \<and>
    module_calls S1 = module_calls S @ concat (map start_calls (tbox_modules S)) \<and>
    (tbox_allmodule_istarted S1 \<longleftrightarrow>
       (\<forall>m\<in>set (tbox_modules S). mm_is_used m \<and> mm_is_enabled m = 1 \<and> mm_state m \<noteq> TBOX_MODULE_STATE_START \<longrightarrow>
          in_start_fun (mm_info m) = 0 \<or> sets (Call_start (in_start_fun (mm_info m))) \<in> {None, Some TBOX_MODULE_STATE_START})) \<and>
    tbox_module_stop cb S1 = Some S2 \<and> tbox_modules S2 = map (stopped sets) ms \<and>
    module_calls S2 = module_calls S1 @ concat (map stop_calls (rev ms)) \<and>
    (tbox_allmodule_isstoped S2 \<longleftrightarrow>
       (\<forall>m\<in>set ms. mm_is_used m \<and> mm_is_enabled m = 1 \<and> mm_state m \<noteq> TBOX_MODULE_STATE_STOP \<longrightarrow> in_stop_fun (mm_info m) = 0 \<or>
          (case sets (Call_stop (in_stop_fun (mm_info m))) of None \<Rightarrow> mm_state m \<noteq> TBOX_MODULE_STATE_START | Some st \<Rightarrow> st \<noteq> TBOX_MODULE_STATE_START)))"
proof -
  have on: "tbox_module_is_init S" and l0: "length (tbox_modules S) = 32" using assms(2) by (simp_all add: table_ok_def)
  obtain S1 where S1: "for_up 0 32 (start_module cb) S = Some S1" "table_ok home S1" "tbox_modules S1 = ms" "tbox_module_is_init S1"
      "module_calls S1 = module_calls S @ concat (map start_calls (tbox_modules S))"
    using sweep_up [OF start_visits [OF assms(1)] assms(2) l0] on by (auto simp: ms_def)
  have l: "length (tbox_modules S1) = 32" using S1(3) l0 by (simp add: ms_def)
  obtain S2 where S2: "for_up 0 32 (\<lambda>j. stop_module cb (31 - j)) S1 = Some S2" "tbox_modules S2 = map (stopped sets) ms"
      "tbox_module_is_init S2" "module_calls S2 = module_calls S1 @ concat (map stop_calls (rev ms))"
    using sweep_down [OF stop_visits [OF assms(1)] S1(2) l] S1(3,4) by auto
  show ?thesis
    using on S1 S2 istarted_law [of S1 sets "tbox_modules S"] isstoped_law [of S2 sets ms]
    by (intro exI [of _ S1] exI [of _ S2]) (simp add: tbox_module_start_def tbox_module_stop_def ms_def)
qed

theorem module_start_stop_witness:
  "\<exists>S1 S2. tbox_module_start demo_callbacks demo_modules = Some S1 \<and> tbox_allmodule_istarted S1 \<and>
     tbox_module_stop demo_callbacks S1 = Some S2 \<and> tbox_allmodule_isstoped S2 \<and> module_calls S2 = [Call_start 0x600, Call_stop 0x700]"
proof -
  obtain S1 S2 where S: "tbox_module_start demo_callbacks demo_modules = Some S1" "tbox_module_stop demo_callbacks S1 = Some S2"
      "module_calls S1 = [Call_start 0x600]" "module_calls S2 = module_calls S1 @ [Call_stop 0x700]"
      "tbox_allmodule_istarted S1" "tbox_allmodule_isstoped S2"
    using module_start_stop [OF demo_behaved demo_table_ok]
    by (auto simp: demo_start_stop demo_modules_simps demo_sets_def)
  then show ?thesis by auto
qed

text \<open>
  C15: no message task is shared. From before the set-up, whatever sequence of set-ups, registrations, switches, run
  loops, initialisations, starts, stops, questions whether all can stop, settings and shut-downs: every operation returns, and while the manager is set up
  a message task that a module refers to belongs to that module, two modules never refer to the same one, and the pool
  never picks one that a module refers to. After a shut-down the ids stay in the table, but nothing reads them until the
  next set-up has cleared it. The call-backs return and may do anything but change which task a module has and
  which module a task has; those that set states, as those of \<^verbatim>\<open>hpm.c\<close> and \<^verbatim>\<open>led.c\<close> do, are among them.
\<close>

theorem module_tasks_exclusive:
  assumes "loyal cb" and "\<not> tbox_module_is_init S" and "mgr_mutex (core_tasks S)"
    and "length (runloops (core_tasks S)) = TBOX_RUNLOOP_TASK_NUM" and "length (tbox_task_infos (core_tasks S)) = TBOX_TASK_MAX_NUM"
  shows "\<exists>S'. do_ops cb ops S = Some S' \<and> (tbox_module_is_init S' \<longrightarrow>
    (\<forall>i<TBOX_MODULE_MAX_NUM. unat (mm_task_id (tbox_modules S' ! i)) < TBOX_TASK_MAX_NUM \<longrightarrow>
       ti_module_id (tbox_task_infos (core_tasks S') ! unat (mm_task_id (tbox_modules S' ! i))) = of_nat i) \<and>
    (\<forall>i<TBOX_MODULE_MAX_NUM. \<forall>j<TBOX_MODULE_MAX_NUM.
       mm_task_id (tbox_modules S' ! i) = mm_task_id (tbox_modules S' ! j) \<and>
       unat (mm_task_id (tbox_modules S' ! i)) < TBOX_TASK_MAX_NUM \<longrightarrow> i = j) \<and>
    (\<forall>sz k. tbox_taskpool_select_task (core_tasks S') sz = Some k \<and> k \<noteq> TBOX_ID_INVALID \<longrightarrow>
       (\<forall>i<TBOX_MODULE_MAX_NUM. mm_task_id (tbox_modules S' ! i) \<noteq> k)))"
proof -
  have "shut S" using assms(2-) by (simp add: shut_def tasks_sound_def)
  then obtain S' where S': "do_ops cb ops S = Some S'" "owned S' \<or> shut S'"
    using ops_owned [OF assms(1)] by blast
  show ?thesis using S' owned_exclusive [of S'] unfolding shut_def max_num module_num by blast
qed

theorem module_tasks_exclusive_witness:
  "\<exists>S'. do_ops demo_callbacks demo_ops demo_core_state = Some S' \<and>
     mm_task_id (tbox_modules S' ! 0) = 0 \<and> mm_task_id (tbox_modules S' ! 1) = 1 \<and>
     (\<forall>k. tbox_taskpool_select_task (core_tasks S') 224 = Some k \<and> k \<noteq> TBOX_ID_INVALID \<longrightarrow> k \<noteq> 0 \<and> k \<noteq> 1)"
proof -
  have "\<not> tbox_module_is_init demo_core_state" "mgr_mutex (core_tasks demo_core_state)"
      "length (runloops (core_tasks demo_core_state)) = TBOX_RUNLOOP_TASK_NUM"
      "length (tbox_task_infos (core_tasks demo_core_state)) = TBOX_TASK_MAX_NUM"
    by (simp_all add: demo_core_state_def)
  from module_tasks_exclusive [OF demo_loyal this, of demo_ops]
  obtain S' where S': "do_ops demo_callbacks demo_ops demo_core_state = Some S'"
      "tbox_module_is_init S' \<longrightarrow> (\<forall>k. tbox_taskpool_select_task (core_tasks S') 224 = Some k \<and> k \<noteq> TBOX_ID_INVALID \<longrightarrow>
         (\<forall>i<32. mm_task_id (tbox_modules S' ! i) \<noteq> k))"
    unfolding module_num by blast
  have t: "tbox_module_is_init S'" "mm_task_id (tbox_modules S' ! 0) = 0" "mm_task_id (tbox_modules S' ! 1) = 1"
    using demo_attached unfolding S'(1) by simp_all
  with S' show ?thesis by (intro exI [of _ S']) force
qed

text \<open>
  The buffer of the list of names. With names of at most 126 characters, printing the list stays inside
  its 128 bytes exactly if the names, each padded to 13 characters, come to fewer than 128 characters in every
  line of five; otherwise it writes behind the end.
\<close>

theorem show_names_in_bounds:
  assumes "\<forall>n\<in>set names. length n \<le> 126" and "length garbage = 128"
  shows "show_names names 0 0 garbage \<noteq> None \<longleftrightarrow> (\<forall>line\<in>set (groups names). (\<Sum>n\<leftarrow>line. max 13 (length n + 1)) < 128)"
  using show_names_iff [OF assms(1), of 0 0 garbage] assms(2)
  by (simp add: groups_unfold [of names] line_length_def padded_length del: groups.simps(2))

theorem show_names_in_bounds_witness:
  "show_names (replicate 5 (replicate 26 97)) 0 0 (replicate 128 0) = None"
proof -
  have "\<forall>n\<in>set (replicate 5 (replicate 26 (97 :: u8))). length n \<le> 126" by simp
  from show_names_in_bounds [OF this, of "replicate 128 0"] show ?thesis
    by (simp add: numeral_eq_Suc)
qed

end
