(* ===== verification/MsgBusClaims.thy ===== *)
theory MsgBusClaims imports MsgBus MessageClaims ModuleClaims TaskClaims begin

text \<open>
  The message bus as a whole: what publishing and sending do to the queues of the tasks of the
  receivers, through the registry, the modules and the tasks.
\<close>

section \<open>One message to one module\<close>

lemma put_msg_others:
  assumes "put_msg k name handler len data T = Some (T', ret)"
  shows "mgr_mutex T' = mgr_mutex T \<and> (unat k' \<noteq> unat k \<longrightarrow> take_task T' k' = take_task T k')"
proof -
  have "T' = T \<or> (\<exists>h f. T' = notify_task h TBOX_TASK_EVENT_MSG_BIT eSetBits (upd_task k f T))"
    using assms by (auto simp: put_msg_def Let_def bind_eq_Some_conv split: if_splits)
  then show ?thesis by (auto simp: take_task_def)
qed

lemma add_msg_others:
  assumes "tbox_task_add_msg k name handler len data T = Some (T', ret)"
  shows "mgr_mutex T' = mgr_mutex T \<and> (unat k' \<noteq> unat k \<longrightarrow> take_task T' k' = take_task T k')"
  using assms put_msg_others [of k name handler len data T T' ret k']
  by (auto simp: tbox_task_add_msg_def bind_eq_Some_conv split: if_splits)

lemma at_work_cong:
  "at_work T k ms \<Longrightarrow> take_task T' k = take_task T k \<Longrightarrow> mgr_mutex T' = mgr_mutex T \<Longrightarrow> at_work T' k ms"
  by (simp add: at_work_def)

text \<open>A receiver whose module is switched on and has a task of its own.\<close>

type_synonym receiver = "TBOX_ID \<times> u32"

definition target :: "core_state \<Rightarrow> receiver \<Rightarrow> TBOX_ID" where
  "target S r = mm_task_id (tbox_modules S ! unat (fst r))"

definition listening :: "core_state \<Rightarrow> receiver \<Rightarrow> bool" where
  "listening S r \<longleftrightarrow> \<not> bad_module_id (fst r) \<and> snd r \<noteq> 0 \<and> (let m = tbox_modules S ! unat (fst r) in
     mm_is_used m \<and> mm_is_enabled m \<noteq> 0 \<and> in_is_interface (mm_info m) \<noteq> 1 \<and> in_is_runloop (mm_info m) \<noteq> 1 \<and>
     mm_task_id m \<noteq> TBOX_ID_INVALID)"

text \<open>The message for a receiver, and the queue of its task if there is room for it or not.\<close>

type_synonym msg = "TBOX_MSG_HEADER \<times> u8 list"

definition message_for :: "u32 \<Rightarrow> u8 list \<Rightarrow> receiver \<Rightarrow> msg" where
  "message_for name d r = (new_header name (snd r) (of_nat (length d)), d)"

definition accept :: "msg \<Rightarrow> msg list \<Rightarrow> msg list" where
  "accept m ms = (if frames_size (ms @ [m]) \<le> 512 then ms @ [m] else ms)"

definition bus_ready :: "core_state \<Rightarrow> u32 \<Rightarrow> bool" where
  "bus_ready S name \<longleftrightarrow> tbox_module_is_init S \<and> length (tbox_modules S) = TBOX_MODULE_MAX_NUM \<and> name \<noteq> 0 \<and>
     (\<exists>e. tbox_message_is_enabled name (core_messages S) = Some e \<and> e \<noteq> 0)"

lemma bus_ready_tasks [simp]: "bus_ready (S\<lparr>core_tasks := T\<rparr>) name = bus_ready S name"
  by (simp add: bus_ready_def)

lemma target_tasks [simp]: "target (S\<lparr>core_tasks := T\<rparr>) r = target S r" "listening (S\<lparr>core_tasks := T\<rparr>) r = listening S r"
  by (simp_all add: target_def listening_def)

lemma send_message_law:
  fixes S :: core_state and d :: "u8 list"
  assumes b: "bus_ready S name" and l: "listening S r" and w: "at_work (core_tasks S) (target S r) ms"
    and d: "length d \<le> TBOX_MESSAGE_DATA_MAX_LEN"
  shows "\<exists>T. tbox_module_send_message (fst r) name (snd r) (of_nat (length d)) (data_arg d) S =
      Some (S\<lparr>core_tasks := T\<rparr>, if frames_size (ms @ [message_for name d r]) \<le> 512 then TBOX_E_OK else TBOX_E_NOMEMORY) \<and>
    at_work T (target S r) (accept (message_for name d r) ms) \<and> mgr_mutex T = mgr_mutex (core_tasks S) \<and>
    (\<not> frames_size (ms @ [message_for name d r]) \<le> 512 \<longrightarrow> T = core_tasks S) \<and>
    (\<forall>k. unat k \<noteq> unat (target S r) \<longrightarrow> take_task T k = take_task (core_tasks S) k)"
proof -
  let ?m = "message_for name d r"
  have n: "name \<noteq> 0" "snd r \<noteq> 0" using b l by (simp_all add: bus_ready_def listening_def)
  obtain T ret where T: "tbox_task_add_msg (target S r) name (snd r) (of_nat (length d)) (data_arg d) (core_tasks S) = Some (T, ret)"
      "if frames_size (ms @ [?m]) \<le> 512 then ret = TBOX_E_OK \<and> at_work T (target S r) (ms @ [?m])
       else ret = TBOX_E_NOMEMORY \<and> T = core_tasks S"
    using add_msg_at_work [OF w n d] unfolding message_for_def by blast
  obtain e where e: "tbox_message_is_enabled name (core_messages S) = Some e" "e \<noteq> 0"
    using b by (auto simp: bus_ready_def)
  have i: "unat (fst r) < length (tbox_modules S)" using l b by (simp add: listening_def bad_module_id_def bus_ready_def)
  have "tbox_module_send_message (fst r) name (snd r) (of_nat (length d)) (data_arg d) S = Some (S\<lparr>core_tasks := T\<rparr>, ret)"
    using l b e i T(1) by (simp add: tbox_module_send_message_def listening_def bus_ready_def target_def Let_def)
  moreover have "at_work T (target S r) (accept ?m ms)" using T(2) w by (auto simp: accept_def split: if_splits)
  ultimately show ?thesis
    using T(2) add_msg_others [OF T(1)] by (intro exI [of _ T] conjI) (auto split: if_splits)
qed

section \<open>Publishing\<close>

lemma publish_to_law:
  fixes S :: core_state and d :: "u8 list"
  assumes d: "length d \<le> TBOX_MESSAGE_DATA_MAX_LEN"
  shows "hpath (handler_items (core_messages S)) a as \<Longrightarrow> receivers (handler_items (core_messages S)) as = rs \<Longrightarrow>
    bus_ready S name \<Longrightarrow> \<forall>r\<in>set rs. listening S r \<and> at_work (core_tasks S) (target S r) (Q (target S r)) \<Longrightarrow>
    distinct (map (target S) rs) \<Longrightarrow>
    \<exists>T. publish_to name (of_nat (length d)) (data_arg d) a S = Some (S\<lparr>core_tasks := T\<rparr>) \<and>
      (\<forall>r\<in>set rs. at_work T (target S r) (accept (message_for name d r) (Q (target S r)))) \<and>
      mgr_mutex T = mgr_mutex (core_tasks S) \<and>
      (\<forall>k. (\<forall>r\<in>set rs. unat k \<noteq> unat (target S r)) \<longrightarrow> take_task T k = take_task (core_tasks S) k)"
proof (induction as arbitrary: a rs S)
  case Nil
  then show ?case by (subst publish_to.simps) (auto intro!: exI [of _ "core_tasks S"])
next
  case (Cons x as)
  let ?items = "handler_items (core_messages S)"
  define r where "r = (hi_dst_id (?items x), hi_handler (?items x))"
  obtain rs' where rs: "rs = r # rs'" "receivers ?items as = rs'" using Cons.prems(2) by (auto simp: r_def)
  have a: "a = x" "a \<noteq> 0" "hpath ?items (hi_next (?items x)) as" using Cons.prems(1) by auto
  have l: "listening S r" "at_work (core_tasks S) (target S r) (Q (target S r))" using Cons.prems(4) rs(1) by auto
  have h: "hi_handler (?items x) \<noteq> 0" "hi_dst_id (?items x) \<noteq> TBOX_ID_INVALID"
    using l(1) by (auto simp: listening_def r_def bad_module_id_def TBOX_ID_INVALID_def)
  obtain T1 ret where T1: "tbox_module_send_message (fst r) name (snd r) (of_nat (length d)) (data_arg d) S = Some (S\<lparr>core_tasks := T1\<rparr>, ret)"
      "at_work T1 (target S r) (accept (message_for name d r) (Q (target S r)))" "mgr_mutex T1 = mgr_mutex (core_tasks S)"
      "\<forall>k. unat k \<noteq> unat (target S r) \<longrightarrow> take_task T1 k = take_task (core_tasks S) k"
    using send_message_law [OF Cons.prems(3) l d] by blast
  let ?S1 = "S\<lparr>core_tasks := T1\<rparr>"
  have other: "unat (target S r') \<noteq> unat (target S r)" if "r' \<in> set rs'" for r'
  proof -
    have "target S r \<notin> target S ` set rs'" using Cons.prems(5) unfolding rs(1) by simp
    then have "target S r' \<noteq> target S r" using that by (metis imageI)
    then show ?thesis by (simp add: word_unat_eq_iff)
  qed
  have ready: "\<forall>r'\<in>set rs'. listening ?S1 r' \<and> at_work (core_tasks ?S1) (target ?S1 r') (Q (target ?S1 r'))"
    using Cons.prems(4) other T1(3,4) unfolding rs(1) by (auto intro: at_work_cong)
  have "\<exists>T. publish_to name (of_nat (length d)) (data_arg d) (hi_next (?items x)) ?S1 = Some (?S1\<lparr>core_tasks := T\<rparr>) \<and>
      (\<forall>r\<in>set rs'. at_work T (target ?S1 r) (accept (message_for name d r) (Q (target ?S1 r)))) \<and>
      mgr_mutex T = mgr_mutex (core_tasks ?S1) \<and>
      (\<forall>k. (\<forall>r\<in>set rs'. unat k \<noteq> unat (target ?S1 r)) \<longrightarrow> take_task T k = take_task (core_tasks ?S1) k)"
    by (rule Cons.IH) (use a rs Cons.prems(3,5) ready in auto)
  then obtain T where T: "publish_to name (of_nat (length d)) (data_arg d) (hi_next (?items x)) ?S1 = Some (S\<lparr>core_tasks := T\<rparr>)"
      "\<forall>r\<in>set rs'. at_work T (target S r) (accept (message_for name d r) (Q (target S r)))" "mgr_mutex T = mgr_mutex T1"
      "\<forall>k. (\<forall>r\<in>set rs'. unat k \<noteq> unat (target S r)) \<longrightarrow> take_task T k = take_task T1 k"
    by auto
  have "publish_to name (of_nat (length d)) (data_arg d) a S = Some (S\<lparr>core_tasks := T\<rparr>)"
    using a(1,2) h T1(1) T(1) by (subst publish_to.simps) (simp add: r_def Let_def)
  moreover have "at_work T (target S r) (accept (message_for name d r) (Q (target S r)))"
    using T1(2) T(3,4) other by (metis at_work_cong)
  moreover have "take_task T k = take_task (core_tasks S) k" if "\<forall>r\<in>set rs. unat k \<noteq> unat (target S r)" for k
    using that T(4) T1(4) unfolding rs(1) by simp
  ultimately show ?case using T(2,3) T1(3) rs(1) by auto
qed

section \<open>Through the registry\<close>

definition payload :: "u8 list \<Rightarrow> TBOX_MSG_DATA option" where
  "payload d = Some \<lparr>md_data = Some d, md_size = of_nat (length d)\<rparr>"

lemma small_size:
  assumes "length (d :: u8 list) \<le> TBOX_MESSAGE_DATA_MAX_LEN"
  shows "unat (of_nat (length d) :: u16) = length d"
  using assms by (simp add: unat_of_nat TBOX_MESSAGE_DATA_MAX_LEN_def)

lemma payload_simps:
  assumes d: "length d \<le> TBOX_MESSAGE_DATA_MAX_LEN"
  shows "data_size (payload d) = of_nat (length d)" "\<not> bad_data (payload d)" "data_bytes (payload d) = data_arg d"
proof -
  show s: "data_size (payload d) = of_nat (length d)" by (simp add: data_size_def payload_def)
  show "\<not> bad_data (payload d)" using d small_size [OF d] by (simp add: bad_data_def data_size_def payload_def)
  have "(of_nat (length d) :: u16) = 0 \<longleftrightarrow> d = []" using small_size [OF d] by (auto simp: unat_eq_0 [symmetric])
  then show "data_bytes (payload d) = data_arg d" by (simp add: data_bytes_def data_size_def payload_def data_arg_def)
qed

context prefix_free
begin

lemma checked_item_law:
  assumes rep: "msg_rep K X H P B" and k: "strings X name \<in> K"
  shows "case B (strings X name) of
     None \<Rightarrow> checked_item type name X = Some (Inl TBOX_E_FAILED)
   | Some tp \<Rightarrow> if tp_type tp \<noteq> type then checked_item type name X = Some (Inl TBOX_E_INVALID_DATA)
       else if tp_enable tp = 0 then checked_item type name X = Some (Inl TBOX_E_NOPRIVILEGE)
       else \<exists>ptr. checked_item type name X = Some (Inr (mgr tp ptr)) \<and>
         hpath (handler_items X) ptr (P (strings X name)) \<and> receivers (handler_items X) (P (strings X name)) = tp_receivers tp"
proof -
  obtain m where m: "tbox_msg_is_init X" "tbox_msg_mutex X" "tbox_msg_hashmap X = Some m"
    using rep by (rule msg_repE)
  note g = get_item_law [OF rep k]
  show ?thesis
  proof (cases "B (strings X name)")
    case None
    then show ?thesis using g m by (simp add: checked_item_def Let_def)
  next
    case (Some tp)
    then obtain pad ptr where "get_item X name = Some (item_bytes pad (mgr tp ptr), TBOX_E_OK)"
        "hpath (handler_items X) ptr (P (strings X name))" "receivers (handler_items X) (P (strings X name)) = tp_receivers tp"
      using g by auto
    then show ?thesis using m Some by (auto simp: checked_item_def Let_def)
  qed
qed

lemma switch_on:
  assumes "msg_rep K X H P B" and "strings X name \<in> K" and "name \<noteq> 0" and "strings X name \<noteq> []"
    and "B (strings X name) = Some tp"
  shows "tbox_message_is_enabled name X = Some (tp_enable tp)"
  using is_enabled_refines [OF assms(1), of name] assms(2-) by (simp add: spec_is_enabled_def)

end

text \<open>Receivers of one name have tasks of their own.\<close>

lemma targets_distinct:
  assumes S: "owned S" and ok: "topic_ok tp" and r: "\<forall>r\<in>set (tp_receivers tp). listening S r \<and> unat (target S r) < 8"
  shows "distinct (map (target S) (tp_receivers tp))"
proof -
  have inj: "fst r = fst r'" if "r \<in> set (tp_receivers tp)" "r' \<in> set (tp_receivers tp)" "target S r = target S r'" for r r'
  proof -
    have i: "unat (fst r) < 32" "unat (fst r') < 32" using r that(1,2) by (auto simp: listening_def bad_module_id_def)
    have "ti_module_id (tbox_task_infos (core_tasks S) ! unat (target S q)) = of_nat (unat (fst q))"
      if "q \<in> set (tp_receivers tp)" for q
    proof -
      have "unat (fst q) < 32" using r that by (auto simp: listening_def bad_module_id_def)
      then have "refers (tbox_task_infos (core_tasks S)) (unat (fst q)) (target S q)"
        using S by (simp add: owned_def owns_def target_def)
      then show ?thesis using r that by (auto simp: refers_def target_def listening_def Let_def)
    qed
    from this [OF that(1)] this [OF that(2)] that(3) have "(of_nat (unat (fst r)) :: u32) = of_nat (unat (fst r'))" by simp
    then show ?thesis by simp
  qed
  have "distinct (map fst (tp_receivers tp))" using ok by (simp add: topic_ok_def)
  then show ?thesis using inj unfolding distinct_map inj_on_def by metis
qed


lemma find_some: "List.find (\<lambda>r. fst r = d) rs = Some r \<Longrightarrow> r \<in> set rs \<and> fst r = d"
  by (induction rs) (auto split: if_splits)

section \<open>Every outcome of sending\<close>

























section \<open>Properties\<close>

text \<open>
  C2: publishing. In any state of the registry and of the modules that their operations reach, publishing
  at most 256 bytes under a topic that is switched on, all of whose subscribers are switched-on modules with a
  running task of their own, returns \<^verbatim>\<open>TBOX_E_OK\<close> and puts one message into the queue of each subscriber's task,
  behind what is there already, with the name, the subscriber's handler and the bytes. A subscriber without room for it
  gets nothing, and the publisher is not told. The tasks of other modules are not touched.
\<close>

theorem publish_reaches_subscribers:
  assumes "prefix_free K" and "registry K H0 n (core_messages S) B" and "owned S"
    and "name \<noteq> 0" and "strings (core_messages S) name \<noteq> []" and "strings (core_messages S) name \<in> K"
    and "B (strings (core_messages S) name) = Some tp" and "tp_type tp = TBOX_MSG_TYPE_TOPIC" and "tp_enable tp \<noteq> 0"
    and "length d \<le> TBOX_MESSAGE_DATA_MAX_LEN"
    and "\<forall>r\<in>set (tp_receivers tp). listening S r \<and> at_work (core_tasks S) (target S r) (Q (target S r))"
  shows "\<exists>T. tbox_message_publish name (payload d) S = Some (S\<lparr>core_tasks := T\<rparr>, TBOX_E_OK) \<and>
    (\<forall>r\<in>set (tp_receivers tp). at_work T (target S r) (accept (message_for name d r) (Q (target S r)))) \<and>
    (\<forall>k. (\<forall>r\<in>set (tp_receivers tp). unat k \<noteq> unat (target S r)) \<longrightarrow> take_task T k = take_task (core_tasks S) k)"
proof -
  let ?X = "core_messages S"
  obtain H P where R: "broker_ok B" "msg_rep K ?X H P B" using assms(2) by (rule registryE)
  obtain ptr where i: "checked_item TBOX_MSG_TYPE_TOPIC name ?X = Some (Inr (mgr tp ptr))"
      "hpath (handler_items ?X) ptr (P (strings ?X name))" "receivers (handler_items ?X) (P (strings ?X name)) = tp_receivers tp"
    using prefix_free.checked_item_law [OF assms(1) R(2) assms(6), of TBOX_MSG_TYPE_TOPIC] assms(7-9) by auto
  have b: "bus_ready S name"
    using prefix_free.switch_on [OF assms(1) R(2) assms(6,4,5,7)] assms(3,4,9) by (simp add: bus_ready_def owned_def owns_def)
  have "\<forall>r\<in>set (tp_receivers tp). listening S r \<and> unat (target S r) < 8" using assms(11) by (auto simp: at_work_def)
  then have dist: "distinct (map (target S) (tp_receivers tp))"
    using targets_distinct [OF assms(3) broker_okD [OF R(1) assms(7)]] by blast
  from publish_to_law [OF assms(10) i(2,3) b assms(11) dist] payload_simps [OF assms(10)] i(1) assms(4,5)
  show ?thesis by (auto simp: tbox_message_publish_def Let_def bad_name_def)
qed


section \<open>Concrete instances\<close>

lemma take_chunk_size:
  "take_chunk S h z d = Some (S', c) \<Longrightarrow> mp_size (m_pool S' ! k) = mp_size (m_pool S ! k)"
  by (cases "k < length (m_pool S)"; cases "k = unat h")
    (auto simp: take_chunk_def mem_alloc_internal_def upd_pool_def Let_def bind_eq_Some_conv
      not_less list_update_beyond split: if_splits)

lemma alloc_size:
  "mp_alloc S h n = Some (S', p) \<Longrightarrow> mp_size (m_pool S' ! k) = mp_size (m_pool S ! k)"
  by (auto simp: mp_alloc_def set_chunk_def zero_bytes_def Let_def bind_eq_Some_conv case_prod_unfold
      dest!: take_chunk_size [where k = k] split: if_splits option.splits)

lemma demo_room:
  "\<exists>M M1 p M2 q. core_inv M {} \<and> tbox_memory_alloc M TBOX_MEMORY_TYPE_CORE 1536 = Some (M1, p) \<and> p \<noteq> 0 \<and>
     tbox_memory_alloc M1 TBOX_MEMORY_TYPE_CORE 12 = Some (M2, q) \<and> q \<noteq> 0"
proof -
  have "free_pool (m_pool ex_mem) 0 = Some 0" "length (m_pool ex_mem) = TBOX_MEMPOOL_NUM"
    by (simp_all add: ex_mem_def TBOX_MEMPOOL_NUM_def numeral_eq_Suc)
  then obtain S where S: "pool_inv S 0 [] (\<lambda>_. [])" "65536 < unat (mp_size (m_pool S ! unat (0 :: u32))) + 7"
    using mp_create_ok [of ex_mem 0 "0x20000001" "0x10000" 1] by auto
  have z: "class_size (class_of 1536) \<le> 16384" "class_size (class_of 12) \<le> 16384"
    using request_class(1) [of 1536] request_class(1) [of 12] class_size_bounds by auto
  have pos: "unat (mp_pos (m_pool S ! unat (0 :: u32))) = 1152" using pool_invD(4) [OF S(1)] by simp
  obtain S1 c where S1: "mp_alloc S 0 1536 = Some (hand_out c 1536 S1, c + 16)"
      "pool_inv (hand_out c 1536 S1) 0 [(c, class_of 1536)] (\<lambda>_. [])"
    using alloc_new [OF S(1), of 1536] S(2) pos z(1) by auto
  let ?S1 = "hand_out c 1536 S1"
  have size: "mp_size (m_pool ?S1 ! unat (0 :: u32)) = mp_size (m_pool S ! unat (0 :: u32))" using alloc_size [OF S1(1)] .
  have pos1: "unat (mp_pos (m_pool ?S1 ! unat (0 :: u32))) = 1152 + class_size (class_of 1536)"
    using pool_invD(4) [OF S1(2)] by simp
  have room1: "unat (mp_pos (m_pool ?S1 ! unat (0 :: u32))) + class_size (class_of 12) \<le> unat (mp_size (m_pool ?S1 ! unat (0 :: u32)))"
    unfolding pos1 size using S(2) z by linarith
  have n12: "(0 :: u32) < 12" "unat (12 :: u32) \<le> 16360" by simp_all
  obtain S2 c' where S2: "mp_alloc ?S1 0 12 = Some (hand_out c' 12 S2, c' + 16)"
      "pool_inv (hand_out c' 12 S2) 0 ([(c, class_of 1536)] @ [(c', class_of 12)]) (\<lambda>_. [])"
    using alloc_new [OF S1(2) n12 refl room1] by blast
  have ne: "c + 16 \<noteq> 0" "c' + 16 \<noteq> 0"
    using chunk_ptr(1) [OF S1(2)] chunk_ptr(1) [OF S2(2)] by auto
  let ?M = "\<lambda>S. \<lparr>mps = [0], mem = S, reports = []\<rparr>"
  have "core_inv (?M S) {}"
    using S(1) by (auto simp: core_inv_def TBOX_MEMORY_TYPE_CORE_def held_def intro!: exI [of _ "[]"])
  moreover have "tbox_memory_alloc (?M S) TBOX_MEMORY_TYPE_CORE 1536 = Some (?M ?S1, c + 16)"
      "tbox_memory_alloc (?M ?S1) TBOX_MEMORY_TYPE_CORE 12 = Some (?M (hand_out c' 12 S2), c' + 16)"
    using S1(1) S2(1) by (simp_all add: tbox_memory_alloc_def TBOX_MEMORY_TYPE_CORE_def TBOX_MEMORY_TYPE_MAX_def
        MP_INVALID_HANDLE_def)
  ultimately show ?thesis using ne by blast
qed

text \<open>A name with one receiver, module 2.\<close>

lemma demo_topic:
  assumes "type < TBOX_MSG_TYPE_MAX"
  shows "\<exists>X n B. registry {k. length k = 2} {} n X B \<and> strings X = strings (demo_state M) \<and>
    B [97, 98] = Some \<lparr>tp_priority = 1, tp_type = type, tp_enable = 1, tp_receivers = [(2, 0x8000)]\<rparr>"
proof -
  let ?K = "{k :: u8 list. length k = 2}"
  let ?r = "\<lparr>rg_name = 0x100, rg_priority = 1, rg_type = type, rg_enable = 1\<rparr>"
  obtain M0 M1 p M2 q where M: "core_inv M0 {}" "tbox_memory_alloc M0 TBOX_MEMORY_TYPE_CORE 1536 = Some (M1, p)" "p \<noteq> 0"
      "tbox_memory_alloc M1 TBOX_MEMORY_TYPE_CORE 12 = Some (M2, q)" "q \<noteq> 0"
    using demo_room by blast
  let ?S = "demo_state M0"
  have S: "core_inv (core_memory ?S) {}" "\<not> tbox_msg_is_init ?S" "core_memory ?S = M0"
    using M(1) by (simp_all add: demo_state_def)
  from fixed_length.init_law [OF S(2,1), of True] obtain S0 e where
    init: "tbox_message_init True ?S = Some (S0, e)"
      "e \<noteq> TBOX_E_OK \<Longrightarrow> tbox_memory_alloc M0 TBOX_MEMORY_TYPE_CORE 1536 = Some (M0, 0)"
    unfolding S(3) by fastforce
  have ok: "e = TBOX_E_OK" using init(2) M(2,3) by fastforce
  have R0: "registry ?K {} 0 S0 Map.empty" "strings S0 = strings ?S"
    using fixed_length.init_registry [OF S(2,1) init(1) [unfolded ok], of 2] by simp_all
  have M0: "core_memory S0 = M1"
    using init(1) ok M(2,3) by (auto simp: tbox_message_init_def demo_state_def sizeof_mgr_item_def TBOX_MESSAGE_MAX_NUM_def
        TBOX_MESSAGE_MAP_MGR_SIZE_def Let_def bind_eq_Some_conv split: if_splits)
  have "names_in ?K (strings S0) [Register 0 ?r]" using R0(2) by (simp add: names_in_def demo_state_def)
  note called = fixed_length.register_call [OF R0(1) this, of True]
  have sp: "spec_call (strings S0) (True, Register 0 ?r) Map.empty = ([[97, 98] \<mapsto> registered ?r], Code TBOX_E_OK, 0)"
    using assms R0(2) by (simp add: spec_register_def demo_state_def TBOX_MSG_PRIORITY_MAX_def word_le_nat_alt
        word_less_nat_alt Let_def receivers_of_def)
  obtain S1 e1 where
    r: "tbox_message_register 0 (Some ?r) S0 = Some (S1, e1)" "strings S1 = strings S0"
      "registry ?K {} 0 S1 ([[97, 98] \<mapsto> registered ?r])"
    using called unfolding fixed_length.follows_def sp by (auto simp: bind_eq_Some_conv)
  have "core_memory S1 = core_memory S0"
    using r(1) by (auto simp: tbox_message_register_def put_item_def bind_eq_Some_conv split: if_splits)
  then have room: "new_item S1 \<noteq> 0" using M(4,5) M0 by (simp add: new_item_def sizeof_handler_item_def)
  have "0x100 = (0 :: u32) \<or> strings S1 0x100 = [] \<or> strings S1 0x100 \<in> ?K" using r(2) R0(2) by (simp add: demo_state_def)
  note called = fixed_length.receiver_call [OF r(3) this, of type 2 "0x8000"]
  have "\<not> (2 :: u32) \<le>s TBOX_ID_INVALID" by (simp add: TBOX_ID_INVALID_def word_sle_eq)
  then have sp: "spec_receiver True type (strings S1) 0x100 2 0x8000 [[97, 98] \<mapsto> registered ?r] =
      ([[97, 98] \<mapsto> (registered ?r)\<lparr>tp_receivers := [(2, 0x8000)]\<rparr>], Code TBOX_E_OK, 0)"
    using r(2) R0(2) by (simp add: spec_receiver_def spec_add_def spec_attach_def attaches_def bad_receiver_def
        demo_state_def registered_def Let_def)
  obtain X n where
    "strings X = strings S1" "registry ?K {} n X ([[97, 98] \<mapsto> (registered ?r)\<lparr>tp_receivers := [(2, 0x8000)]\<rparr>])"
    using called room unfolding fixed_length.follows_def by (auto simp: sp)
  then show ?thesis using r(2) R0(2) by (intro exI [of _ X] exI [of _ n]) (fastforce simp: registered_def demo_state_def)
qed

text \<open>A state with that registry in which module 2 is switched on and has task 2.\<close>

definition demo_bus :: "msg_state \<Rightarrow> core_state" where
  "demo_bus X = \<lparr>tbox_module_is_init = True,
     tbox_modules = (replicate 32 zero_module)[2 := zero_module\<lparr>mm_is_used := True, mm_is_enabled := 1, mm_task_id := 2\<rparr>],
     core_tasks = demo_tasks\<lparr>tbox_task_infos := (tbox_task_infos demo_tasks)[2 := (demo_task 2)\<lparr>ti_module_id := 2\<rparr>]\<rparr>,
     core_messages = X, module_calls = []\<rparr>"

lemma demo_bus_simps [simp]:
  "core_messages (demo_bus X) = X" "target (demo_bus X) (2, h) = 2" "h \<noteq> 0 \<Longrightarrow> listening (demo_bus X) (2, h)"
  by (simp_all add: demo_bus_def target_def listening_def bad_module_id_def zero_module_def zero_info_def TBOX_ID_INVALID_def
      word_sless_eq word_sle_eq)

lemma demo_bus_owned: "owned (demo_bus X)"
proof -
  have "refers (tbox_task_infos (core_tasks (demo_bus X))) i (mm_task_id (tbox_modules (demo_bus X) ! i))" if "i < 32" for i
    using that by (cases "i = 2") (simp_all add: demo_bus_def refers_def zero_module_def demo_tasks_def)
  then show ?thesis by (simp add: owned_def owns_def) (simp add: demo_bus_def demo_tasks_def)
qed

lemma demo_bus_at_work: "at_work (core_tasks (demo_bus X)) 2 []"
  using demo_queue_holds
  by (simp add: at_work_def running_def take_task_def task_at_def demo_bus_def demo_tasks_def)

lemma types: "TBOX_MSG_TYPE_TOPIC < TBOX_MSG_TYPE_MAX" "TBOX_MSG_TYPE_MESSAGE < TBOX_MSG_TYPE_MAX"
  by (simp_all add: TBOX_MSG_TYPE_TOPIC_def TBOX_MSG_TYPE_MESSAGE_def TBOX_MSG_TYPE_MAX_def)

theorem publish_reaches_subscribers_witness:
  "\<exists>X T q. tbox_message_publish 0x100 (payload [1, 2, 3]) (demo_bus X) = Some ((demo_bus X)\<lparr>core_tasks := T\<rparr>, TBOX_E_OK) \<and>
     at_work T 2 [(new_header 0x100 0x8000 3, [1, 2, 3])]"
proof -
  obtain X n B where X: "registry {k. length k = 2} {} n X B" "strings X = strings (demo_state undefined)"
      "B [97, 98] = Some \<lparr>tp_priority = 1, tp_type = TBOX_MSG_TYPE_TOPIC, tp_enable = 1, tp_receivers = [(2, 0x8000)]\<rparr>"
    using demo_topic [OF types(1), of undefined] by blast
  have str: "strings X 0x100 = [97, 98]" by (simp add: X(2) demo_state_def)
  have "frames_size [message_for 0x100 [1, 2, 3] (2, 0x8000)] \<le> 512" by (simp add: frames_size_def message_for_def)
  then show ?thesis
    using publish_reaches_subscribers [OF fixed_length.prefix_free_axioms, of 2 "{}" n "demo_bus X" B "0x100" _ "[1, 2, 3]" "\<lambda>_. []"]
      X(1,3) str demo_bus_owned demo_bus_at_work
    by (auto simp: accept_def message_for_def TBOX_MESSAGE_DATA_MAX_LEN_def)
qed



end
