(* ===== verification/Supervise.thy ===== *)
theory Supervise imports MsgBus begin

text \<open>
  \<^verbatim>\<open>src/core/tbox_supervise.c\<close>, the supervisor: the queue of the reports about broken memory and
  abnormal tasks, the task that takes them out and acts on them, and its periodic checks. A critical section
  is one step. What the kernel answers while a task is reset is one argument, \<open>kernel_answers\<close>.
\<close>

section \<open>Data\<close>

datatype TBOX_MODULE_ABNORMAL_PROCESS_TYPE = MODULE_ABNORMAL_PROCESS_WARNING | MODULE_ABNORMAL_PROCESS_RESET
  | MODULE_ABNORMAL_PROCESS_DEGRADE | MODULE_ABNORMAL_PROCESS_FORBID

definition TBOX_SUPERVISE_QUEUE_SIZE :: u32 where "TBOX_SUPERVISE_QUEUE_SIZE = 128"
definition TBOX_SUPERVISE_HEADER_MAGICNO :: u32 where "TBOX_SUPERVISE_HEADER_MAGICNO = 0x12ABCDEF"
definition TBOX_SUPERVISE_EVENT_START_BIT :: u32 where "TBOX_SUPERVISE_EVENT_START_BIT = 1"
definition TBOX_SUPERVISE_EVENT_STOP_BIT :: u32 where "TBOX_SUPERVISE_EVENT_STOP_BIT = 2"
definition TBOX_SUPERVISE_EVENT_REPORT_BIT :: u32 where "TBOX_SUPERVISE_EVENT_REPORT_BIT = 4"
definition TBOX_SUPERVISE_EVENT_EXIT_BIT :: u32 where "TBOX_SUPERVISE_EVENT_EXIT_BIT = 8"
definition TBOX_SUPERVISE_EVENT_ALL_BITS :: u32 where "TBOX_SUPERVISE_EVENT_ALL_BITS = 15"

text \<open>The number of an enumerator, which is what the header of a report holds.\<close>

fun abnormal_type_val :: "TBOX_MODULE_ABNORMAL_TYPE \<Rightarrow> u32" where
  "abnormal_type_val MODULE_ABNORMAL_MEMORY_OVERFLOW = 0"
| "abnormal_type_val MODULE_ABNORMAL_MEMORY_UNDERFLOW = 1"
| "abnormal_type_val MODULE_ABNORMAL_TASK_BLOCKED = 2"
| "abnormal_type_val MODULE_ABNORMAL_TASK_DELETED = 3"
| "abnormal_type_val MODULE_ABNORMAL_TASKSTACK_SMALL = 4"
| "abnormal_type_val MODULE_ABNORMAL_STACK_OVERFLOW = 5"
| "abnormal_type_val MODULE_ABNORMAL_TYPE_MAX = 6"

record TBOX_SUPERVISE_HEADER =
  sh_magicno :: u32
  sh_type :: u32

definition sup_header_bytes :: "TBOX_SUPERVISE_HEADER \<Rightarrow> u8 list" where
  "sup_header_bytes h = le32 (sh_magicno h) @ le32 (sh_type h)"

definition sup_header_of :: "u8 list \<Rightarrow> TBOX_SUPERVISE_HEADER" where
  "sup_header_of bs = \<lparr>sh_magicno = get32 bs, sh_type = get32 (drop 4 bs)\<rparr>"

definition task_info_bytes :: "TBOX_CORE_TASK_ABNORMAL_INFO \<Rightarrow> u8 list" where
  "task_info_bytes i = le32 (ab_task_id i) @ le32 (ab_task_handle i) @ le32 (ab_module_id i) @ le32 (ab_msg_name i)"

definition task_info_of :: "u8 list \<Rightarrow> TBOX_CORE_TASK_ABNORMAL_INFO" where
  "task_info_of bs = \<lparr>ab_task_id = get32 bs, ab_task_handle = get32 (drop 4 bs),
     ab_module_id = get32 (drop 8 bs), ab_msg_name = get32 (drop 12 bs)\<rparr>"

definition sizeof_sup_header :: u32 where "sizeof_sup_header = 8"
definition sizeof_memory_info :: u32 where "sizeof_memory_info = 4"
definition sizeof_task_info :: u32 where "sizeof_task_info = 16"

text \<open>The buffer of the queue is memory at \<open>sv_buffer\<close>; its contents are in the queue.\<close>

record TBOX_SUPERVISE_MGR =
  abnormal_process :: "TBOX_MODULE_ABNORMAL_PROCESS_TYPE list"
  sv_queue :: cqueue_t
  sv_buffer :: u32
  sv_task :: u32

record sup_state =
  sup_core :: core_state
  sup_mgr :: TBOX_SUPERVISE_MGR

definition upd_mgr :: "(TBOX_SUPERVISE_MGR \<Rightarrow> TBOX_SUPERVISE_MGR) \<Rightarrow> sup_state \<Rightarrow> sup_state" where
  "upd_mgr f S = S\<lparr>sup_mgr := f (sup_mgr S)\<rparr>"

definition upd_tasks :: "(tasks \<Rightarrow> tasks) \<Rightarrow> sup_state \<Rightarrow> sup_state" where
  "upd_tasks f S = S\<lparr>sup_core := (sup_core S)\<lparr>core_tasks := f (core_tasks (sup_core S))\<rparr>\<rparr>"

section \<open>Reports\<close>

text \<open>
  Both report functions: the header and the structure go into the queue if both fit; the supervisor
  is notified unless they did not fit.
\<close>

definition put_report :: "u32 \<Rightarrow> u8 list \<Rightarrow> u32 \<Rightarrow> sup_state \<Rightarrow> sup_state option" where
  "put_report type info sz S = (let m = sup_mgr S; h = \<lparr>sh_magicno = TBOX_SUPERVISE_HEADER_MAGICNO, sh_type = type\<rparr> in
     if sv_task m = 0 then Some S
     else if sizeof_sup_header + sz > cqueue_surplus (sv_queue m) then Some S
     else do {
       (q, _) \<leftarrow> cqueue_put (sv_queue m) (sup_header_bytes h) sizeof_sup_header;
       (q, _) \<leftarrow> cqueue_put q info sz;
       Some (upd_tasks (notify_task (sv_task m) TBOX_SUPERVISE_EVENT_REPORT_BIT eSetBits) (upd_mgr (\<lambda>m. m\<lparr>sv_queue := q\<rparr>) S))
     })"

definition tbox_supervish_report_memory_abnormal :: "u32 \<Rightarrow> u32 option \<Rightarrow> sup_state \<Rightarrow> sup_state option" where
  "tbox_supervish_report_memory_abnormal type info S = (case info of
     None \<Rightarrow> Some S
   | Some a \<Rightarrow> put_report type (le32 a) sizeof_memory_info S)"

definition tbox_supervish_report_task_abnormal :: "u32 \<Rightarrow> TBOX_CORE_TASK_ABNORMAL_INFO option \<Rightarrow> sup_state \<Rightarrow> sup_state option" where
  "tbox_supervish_report_task_abnormal type info S = (case info of
     None \<Rightarrow> Some S
   | Some i \<Rightarrow> put_report type (task_info_bytes i) sizeof_task_info S)"

definition tbox_supervice_set_abnormal_process :: "u32 \<Rightarrow> TBOX_MODULE_ABNORMAL_PROCESS_TYPE \<Rightarrow> sup_state \<Rightarrow> sup_state option" where
  "tbox_supervice_set_abnormal_process type process S =
     (if type \<ge> abnormal_type_val MODULE_ABNORMAL_TYPE_MAX then Some S
      else if unat type < length (abnormal_process (sup_mgr S))
      then Some (upd_mgr (\<lambda>m. m\<lparr>abnormal_process := (abnormal_process m)[unat type := process]\<rparr>) S)
      else None)"

section \<open>Taking a report out\<close>

text \<open>
  The critical section of \<^verbatim>\<open>tbox_supervise_handle_abnormal\<close>. The structures on the stack are not set before;
  \<open>garbage\<close> is what they hold. The result is the header, what to do, and the bytes of the structure.
\<close>

definition is_memory_type :: "u32 \<Rightarrow> bool" where
  "is_memory_type type \<longleftrightarrow> type = abnormal_type_val MODULE_ABNORMAL_MEMORY_OVERFLOW \<or>
     type = abnormal_type_val MODULE_ABNORMAL_MEMORY_UNDERFLOW"

definition take_report :: "u8 list \<Rightarrow> sup_state \<Rightarrow>
    (sup_state \<times> (u32 \<times> TBOX_MODULE_ABNORMAL_PROCESS_TYPE \<times> u8 list) option) option" where
  "take_report garbage S = (let m = sup_mgr S; q = sv_queue m in
     if cqueue_datalen q < sizeof_sup_header + sizeof_task_info \<and>
        cqueue_datalen q < sizeof_sup_header + sizeof_memory_info then Some (S, None)
     else do {
       (q, bs, _) \<leftarrow> cqueue_get q (replicate 8 0) sizeof_sup_header;
       let h = sup_header_of bs;
       if sh_magicno h \<noteq> TBOX_SUPERVISE_HEADER_MAGICNO \<or> sh_type h \<ge> abnormal_type_val MODULE_ABNORMAL_TYPE_MAX
       then Some (upd_mgr (\<lambda>m. m\<lparr>sv_queue := q\<lparr>cq_in := 0, cq_out := 0\<rparr>\<rparr>) S, None)
       else do {
         process \<leftarrow> rd (abnormal_process m) (unat (sh_type h));
         (q, info, _) \<leftarrow> cqueue_get q (take (if is_memory_type (sh_type h) then 4 else 16) garbage)
           (if is_memory_type (sh_type h) then sizeof_memory_info else sizeof_task_info);
         Some (upd_mgr (\<lambda>m. m\<lparr>sv_queue := q\<rparr>) S, Some (sh_type h, process, info))
       }
     })"

section \<open>What is done about a report\<close>

text \<open>
  \<open>ka_env\<close>: what others do while a task is told to quit; \<open>ka_heap\<close>, \<open>ka_created\<close>: free memory and the answer of
  \<^verbatim>\<open>xTaskCreate\<close>; the addresses of the names of the three notifications.
\<close>

record kernel_answers =
  ka_env :: "nat \<Rightarrow> tasks \<Rightarrow> tasks"
  ka_heap :: u32
  ka_created :: "u32 option"
  memory_note :: u32
  task_note :: u32
  update_note :: u32

definition publish_info :: "u32 \<Rightarrow> u8 list \<Rightarrow> core_state \<Rightarrow> core_state option" where
  "publish_info note bs S =
     map_option fst (tbox_message_publish note (Some \<lparr>md_data = Some bs, md_size = of_nat (length bs)\<rparr>) S)"

text \<open>The handlers return whether they have handled the report.\<close>

definition tbox_supervise_handle_memory :: "TBOX_MODULE_ABNORMAL_TYPE \<Rightarrow> kernel_answers \<Rightarrow> u32 \<Rightarrow> u8 list \<Rightarrow> core_state \<Rightarrow>
    (core_state \<times> bool) option" where
  "tbox_supervise_handle_memory mine ka type info S =
     (if type \<noteq> abnormal_type_val mine then Some (S, False)
      else do { S \<leftarrow> publish_info (memory_note ka) info S; Some (S, True) })"

definition tbox_supervise_handle_memory_overflow :: "kernel_answers \<Rightarrow> u32 \<Rightarrow> u8 list \<Rightarrow> core_state \<Rightarrow> (core_state \<times> bool) option" where
  "tbox_supervise_handle_memory_overflow = tbox_supervise_handle_memory MODULE_ABNORMAL_MEMORY_OVERFLOW"

definition tbox_supervise_handle_memory_underflow :: "kernel_answers \<Rightarrow> u32 \<Rightarrow> u8 list \<Rightarrow> core_state \<Rightarrow> (core_state \<times> bool) option" where
  "tbox_supervise_handle_memory_underflow = tbox_supervise_handle_memory MODULE_ABNORMAL_MEMORY_UNDERFLOW"

definition reset_task :: "kernel_answers \<Rightarrow> TBOX_ID \<Rightarrow> core_state \<Rightarrow> core_state option" where
  "reset_task ka = tbox_reset_task (ka_env ka) (ka_heap ka) (ka_created ka) (update_note ka)"

definition expend_stack :: "kernel_answers \<Rightarrow> TBOX_ID \<Rightarrow> core_state \<Rightarrow> core_state option" where
  "expend_stack ka task_id S =
     map_option fst (tbox_task_expend_stack (ka_env ka) (ka_heap ka) (ka_created ka) (update_note ka) task_id S)"

definition forbid_task :: "kernel_answers \<Rightarrow> TBOX_ID \<Rightarrow> core_state \<Rightarrow> core_state option" where
  "forbid_task ka task_id S =
     map_option (\<lambda>T. S\<lparr>core_tasks := T\<rparr>) (tbox_forbid_task (ka_env ka) task_id (core_tasks S))"

definition tbox_supervise_handle_task_blocked :: "kernel_answers \<Rightarrow> u32 \<Rightarrow> u8 list \<Rightarrow>
    TBOX_MODULE_ABNORMAL_PROCESS_TYPE \<Rightarrow> core_state \<Rightarrow> (core_state \<times> bool) option" where
  "tbox_supervise_handle_task_blocked ka type info process S =
     (if type \<noteq> abnormal_type_val MODULE_ABNORMAL_TASK_BLOCKED then Some (S, False)
      else do {
        let i = task_info_of info;
        S \<leftarrow> publish_info (task_note ka) info S;
        S \<leftarrow> (case process of
            MODULE_ABNORMAL_PROCESS_RESET \<Rightarrow> reset_task ka (ab_task_id i) S
          | MODULE_ABNORMAL_PROCESS_FORBID \<Rightarrow> do {
              X \<leftarrow> tbox_message_enable (ab_msg_name i) 0 (core_messages S);
              reset_task ka (ab_task_id i) (S\<lparr>core_messages := X\<rparr>)
            }
          | _ \<Rightarrow> Some S);
        Some (S, True)
      })"

definition tbox_supervise_handle_task_deleted :: "kernel_answers \<Rightarrow> u32 \<Rightarrow> u8 list \<Rightarrow>
    TBOX_MODULE_ABNORMAL_PROCESS_TYPE \<Rightarrow> core_state \<Rightarrow> (core_state \<times> bool) option" where
  "tbox_supervise_handle_task_deleted ka type info process S =
     (if type \<noteq> abnormal_type_val MODULE_ABNORMAL_TASK_DELETED then Some (S, False)
      else do {
        let i = task_info_of info;
        S \<leftarrow> publish_info (task_note ka) info S;
        S \<leftarrow> (case process of
            MODULE_ABNORMAL_PROCESS_RESET \<Rightarrow> reset_task ka (ab_task_id i) S
          | MODULE_ABNORMAL_PROCESS_FORBID \<Rightarrow> forbid_task ka (ab_task_id i) S
          | _ \<Rightarrow> Some S);
        Some (S, True)
      })"

definition tbox_supervise_handle_task_stack_small :: "kernel_answers \<Rightarrow> u32 \<Rightarrow> u8 list \<Rightarrow>
    TBOX_MODULE_ABNORMAL_PROCESS_TYPE \<Rightarrow> core_state \<Rightarrow> (core_state \<times> bool) option" where
  "tbox_supervise_handle_task_stack_small ka type info process S =
     (if type \<noteq> abnormal_type_val MODULE_ABNORMAL_TASKSTACK_SMALL then Some (S, False)
      else do {
        let i = task_info_of info;
        S \<leftarrow> publish_info (task_note ka) info S;
        S \<leftarrow> (case process of
            MODULE_ABNORMAL_PROCESS_RESET \<Rightarrow> expend_stack ka (ab_task_id i) S
          | MODULE_ABNORMAL_PROCESS_FORBID \<Rightarrow> forbid_task ka (ab_task_id i) S
          | _ \<Rightarrow> Some S);
        Some (S, True)
      })"

definition tbox_supervise_handle_stack_overflow :: "kernel_answers \<Rightarrow> u32 \<Rightarrow> u8 list \<Rightarrow>
    TBOX_MODULE_ABNORMAL_PROCESS_TYPE \<Rightarrow> core_state \<Rightarrow> (core_state \<times> bool) option" where
  "tbox_supervise_handle_stack_overflow ka type info process S =
     (if type \<noteq> abnormal_type_val MODULE_ABNORMAL_STACK_OVERFLOW then Some (S, False)
      else do {
        S \<leftarrow> publish_info (task_note ka) info S;
        task_id \<leftarrow> tbox_task_find_by_handle (core_tasks S) (ab_task_handle (task_info_of info));
        S \<leftarrow> (case process of
            MODULE_ABNORMAL_PROCESS_RESET \<Rightarrow> expend_stack ka task_id S
          | MODULE_ABNORMAL_PROCESS_FORBID \<Rightarrow> forbid_task ka task_id S
          | _ \<Rightarrow> Some S);
        Some (S, True)
      })"

text \<open>\<^verbatim>\<open>TBOX_COND_CALL\<close>: the next handler is asked if the report is not handled yet.\<close>

definition cond_call :: "(core_state \<Rightarrow> (core_state \<times> bool) option) \<Rightarrow> core_state \<times> bool \<Rightarrow> (core_state \<times> bool) option" where
  "cond_call f = (\<lambda>(S, handled). if handled then Some (S, handled) else f S)"

definition handle_report :: "kernel_answers \<Rightarrow> u32 \<Rightarrow> u8 list \<Rightarrow> TBOX_MODULE_ABNORMAL_PROCESS_TYPE \<Rightarrow> core_state \<Rightarrow> core_state option" where
  "handle_report ka type info process S = do {
     r \<leftarrow> tbox_supervise_handle_memory_overflow ka type info S;
     r \<leftarrow> cond_call (tbox_supervise_handle_memory_underflow ka type info) r;
     r \<leftarrow> cond_call (tbox_supervise_handle_task_blocked ka type info process) r;
     r \<leftarrow> cond_call (tbox_supervise_handle_task_deleted ka type info process) r;
     r \<leftarrow> cond_call (tbox_supervise_handle_task_stack_small ka type info process) r;
     r \<leftarrow> cond_call (tbox_supervise_handle_stack_overflow ka type info process) r;
     Some (fst r)
   }"

definition tbox_supervise_handle_abnormal :: "u8 list \<Rightarrow> kernel_answers \<Rightarrow> sup_state \<Rightarrow> sup_state option" where
  "tbox_supervise_handle_abnormal garbage ka S = do {
     (S, r) \<leftarrow> take_report garbage S;
     case r of
       None \<Rightarrow> Some S
     | Some (type, process, info) \<Rightarrow> do {
         C \<leftarrow> handle_report ka type info process (sup_core S);
         Some (S\<lparr>sup_core := C\<rparr>)
       }
   }"

section \<open>The periodic check\<close>

text \<open>
  What the checks of tasks and memory report goes into the queue in the order of the reports; the checks
  do not look at the queue. \<open>cur_tick\<close> and \<open>mark\<close> are the kernel's.
\<close>

fun report_tasks :: "(TBOX_MODULE_ABNORMAL_TYPE \<times> TBOX_CORE_TASK_ABNORMAL_INFO) list \<Rightarrow> sup_state \<Rightarrow> sup_state option" where
  "report_tasks [] S = Some S"
| "report_tasks ((type, info) # rs) S = do {
     S \<leftarrow> tbox_supervish_report_task_abnormal (abnormal_type_val type) (Some info) S;
     report_tasks rs S
   }"

definition check_tasks :: "u32 \<Rightarrow> (u32 \<Rightarrow> u32) \<Rightarrow> sup_state \<Rightarrow> sup_state option" where
  "check_tasks cur_tick mark S = do {
     T \<leftarrow> tbox_task_check (strings (core_messages (sup_core S))) cur_tick mark
       ((core_tasks (sup_core S))\<lparr>abnormal_reports := []\<rparr>);
     report_tasks (abnormal_reports T) (upd_tasks (\<lambda>_. T\<lparr>abnormal_reports := []\<rparr>) S)
   }"

definition check_memory :: "u32 \<Rightarrow> sup_state \<Rightarrow> sup_state option" where
  "check_memory ptr S = (let X = core_messages (sup_core S); (M, ret) = tbox_memory_check (core_memory X) TBOX_MEMORY_TYPE_CORE ptr;
       S = S\<lparr>sup_core := (sup_core S)\<lparr>core_messages := X\<lparr>core_memory := M\<rparr>\<rparr>\<rparr> in
     if ret = TBOX_E_OVERFLOW
     then tbox_supervish_report_memory_abnormal (abnormal_type_val MODULE_ABNORMAL_MEMORY_OVERFLOW) (Some ptr) S
     else if ret = TBOX_E_UNDERFLOW
     then tbox_supervish_report_memory_abnormal (abnormal_type_val MODULE_ABNORMAL_MEMORY_UNDERFLOW) (Some ptr) S
     else Some S)"

section \<open>The task\<close>

text \<open>
  One round of the loop after the wait, with the bits it reported; the time to wait next, or \<open>None\<close> when
  the task leaves the loop.
\<close>

definition supervise_round :: "u8 list \<Rightarrow> kernel_answers \<Rightarrow> u32 \<Rightarrow> (u32 \<Rightarrow> u32) \<Rightarrow> u32 \<Rightarrow> u32 \<Rightarrow> sup_state \<Rightarrow>
    (sup_state \<times> u32 option) option" where
  "supervise_round garbage ka cur_tick mark event_bits wait_tick S =
     (if event_bits \<noteq> 0
      then if event_bits AND TBOX_SUPERVISE_EVENT_EXIT_BIT = TBOX_SUPERVISE_EVENT_EXIT_BIT then Some (S, None)
        else let wait_tick = (if event_bits AND TBOX_SUPERVISE_EVENT_START_BIT = TBOX_SUPERVISE_EVENT_START_BIT
                              then 2000 else wait_tick) in
          if event_bits AND TBOX_SUPERVISE_EVENT_STOP_BIT = TBOX_SUPERVISE_EVENT_STOP_BIT then Some (S, Some (- 1))
          else do { S \<leftarrow> tbox_supervise_handle_abnormal garbage ka S; Some (S, Some wait_tick) }
      else do {
        S \<leftarrow> check_tasks cur_tick mark S;
        S \<leftarrow> check_memory (sv_buffer (sup_mgr S)) S;
        Some (S, Some wait_tick)
      })"

text \<open>The return of \<^verbatim>\<open>xTaskNotifyWait(0U, TBOX_SUPERVISE_EVENT_ALL_BITS, &event_bits, wait_tick)\<close>.\<close>

definition supervise_wake :: "u32 \<Rightarrow> sup_state \<Rightarrow> sup_state \<times> u32" where
  "supervise_wake self S = (let T = core_tasks (sup_core S); (n, v, _) = notify_wait_leave (tcbs T self) TBOX_SUPERVISE_EVENT_ALL_BITS in
     (upd_tasks (\<lambda>T. T\<lparr>tcbs := (tcbs T)(self := n)\<rparr>) S, v))"

definition supervise_exit :: "u32 \<Rightarrow> sup_state \<Rightarrow> sup_state" where
  "supervise_exit self S = upd_tasks (vTaskDelete self) (upd_mgr (\<lambda>m. m\<lparr>sv_task := 0\<rparr>) S)"

section \<open>Set-up, start and stop\<close>

text \<open>
  \<^verbatim>\<open>cqueue_init(queue, NULL_PTR, 0)\<close> leaves the queue as it is, and so also the pointer to its buffer. The
  looks for the end of the task: \<open>env i\<close> is what the others do before look \<open>i\<close>. The handle in the
  structure is cleared before, so that the first look finds it cleared whether or not the task has ended.
\<close>

fun end_looks :: "(nat \<Rightarrow> sup_state \<Rightarrow> sup_state) \<Rightarrow> nat \<Rightarrow> nat \<Rightarrow> u32 \<Rightarrow> sup_state \<Rightarrow> sup_state \<times> u32 \<times> bool" where
  "end_looks env i 0 h S = (S, h, False)"
| "end_looks env i (Suc n) h S =
     (if gone (core_tasks (sup_core S)) h then (upd_mgr (\<lambda>m. m\<lparr>sv_task := 0\<rparr>) S, h, True)
      else let S = env i S; h = sv_task (sup_mgr S) in
        if h = 0 then (S, h, True) else end_looks env (Suc i) n h S)"

definition tbox_supervise_deinit :: "(nat \<Rightarrow> sup_state \<Rightarrow> sup_state) \<Rightarrow> sup_state \<Rightarrow> sup_state option" where
  "tbox_supervise_deinit env S = do {
     let h = sv_task (sup_mgr S);
     let S = upd_mgr (\<lambda>m. m\<lparr>sv_task := 0\<rparr>) S;
     S \<leftarrow> (if sv_buffer (sup_mgr S) \<noteq> 0
           then do {
             let X = core_messages (sup_core S);
             M \<leftarrow> tbox_memory_free (core_memory X) TBOX_MEMORY_TYPE_CORE (sv_buffer (sup_mgr S));
             Some (upd_mgr (\<lambda>m. m\<lparr>sv_queue := fst (cqueue_init (sv_queue m) [] 0)\<rparr>)
               (S\<lparr>sup_core := (sup_core S)\<lparr>core_messages := X\<lparr>core_memory := M\<rparr>\<rparr>\<rparr>))
           }
           else Some S);
     if h = 0 then Some S
     else let (S, h, ended) = end_looks env 0 4 h (upd_tasks (notify_task h TBOX_SUPERVISE_EVENT_EXIT_BIT eSetBits) S) in
       if ended \<or> h = 0 then Some S
       else Some (upd_mgr (\<lambda>m. m\<lparr>sv_task := 0\<rparr>)
         (upd_tasks (tbox_task_delete_task_by_handle h) S))
   }"

definition default_process :: "TBOX_MODULE_ABNORMAL_PROCESS_TYPE list" where
  "default_process = [MODULE_ABNORMAL_PROCESS_WARNING, MODULE_ABNORMAL_PROCESS_WARNING, MODULE_ABNORMAL_PROCESS_RESET,
     MODULE_ABNORMAL_PROCESS_RESET, MODULE_ABNORMAL_PROCESS_RESET, MODULE_ABNORMAL_PROCESS_RESET]"

definition tbox_supervise_init :: "(nat \<Rightarrow> sup_state \<Rightarrow> sup_state) \<Rightarrow> u32 option \<Rightarrow> sup_state \<Rightarrow> (sup_state \<times> TBOX_ERROR_CODE) option" where
  "tbox_supervise_init env created S = do {
     let S = upd_mgr (\<lambda>m. m\<lparr>sv_task := 0, abnormal_process := default_process,
       sv_queue := fst (cqueue_init (sv_queue m) [] 0)\<rparr>) S;
     let X = core_messages (sup_core S);
     (M, buffer) \<leftarrow> tbox_memory_alloc (core_memory X) TBOX_MEMORY_TYPE_CORE TBOX_SUPERVISE_QUEUE_SIZE;
     let S = S\<lparr>sup_core := (sup_core S)\<lparr>core_messages := X\<lparr>core_memory := M\<rparr>\<rparr>\<rparr>;
     if buffer = 0 then do { S \<leftarrow> tbox_supervise_deinit env S; Some (S, TBOX_E_FAILED_ALLOC) }
     else do {
       let S = upd_mgr (\<lambda>m. m\<lparr>sv_queue := fst (cqueue_init (sv_queue m) (replicate (unat TBOX_SUPERVISE_QUEUE_SIZE) 0)
         TBOX_SUPERVISE_QUEUE_SIZE), sv_buffer := buffer\<rparr>) S;
       case created of
         None \<Rightarrow> do { S \<leftarrow> tbox_supervise_deinit env S; Some (S, TBOX_E_FAILED_CREATE) }
       | Some h \<Rightarrow> Some (upd_tasks (xTaskCreated h) (upd_mgr (\<lambda>m. m\<lparr>sv_task := h\<rparr>) S), TBOX_E_OK)
     }
   }"

text \<open>Resuming a suspended task is left to the kernel.\<close>

definition tbox_supervise_start :: "sup_state \<Rightarrow> sup_state \<times> TBOX_ERROR_CODE" where
  "tbox_supervise_start S = (let h = sv_task (sup_mgr S); T = core_tasks (sup_core S) in
     if h = 0 then (S, TBOX_E_NOINIT)
     else if gone T h then (S, TBOX_E_NOEXISTS)
     else (upd_tasks (\<lambda>T. notify_task h TBOX_SUPERVISE_EVENT_START_BIT eSetBits
            (if task_state T h = eSuspended then T\<lparr>task_state := (task_state T)(h := eReady)\<rparr> else T)) S, TBOX_E_OK))"

definition tbox_supervise_stop :: "sup_state \<Rightarrow> sup_state" where
  "tbox_supervise_stop S = (let h = sv_task (sup_mgr S) in
     if h = 0 \<or> gone (core_tasks (sup_core S)) h then S
     else upd_tasks (notify_task h TBOX_SUPERVISE_EVENT_STOP_BIT eSetBits) S)"

end
