(* ===== verification/Frames.thy ===== *)
theory Frames imports CQueue begin

text \<open>
  Byte queues that hold frames of a header and a body, each put in and taken out in two parts: what
  the queues of the supervisor and of the log have in common. \<open>enc\<close> is the bytes of a frame, \<open>cap\<close>
  the size of the queue.
\<close>

definition framed_by :: "('a \<Rightarrow> u8 list) \<Rightarrow> u32 \<Rightarrow> cqueue_t \<Rightarrow> 'a list \<Rightarrow> bool" where
  "framed_by enc cap q xs \<longleftrightarrow> cq_inv q \<and> cq_size q = cap \<and> cq_contents q = concat (map enc xs)"

definition frames_total :: "('a \<Rightarrow> u8 list) \<Rightarrow> 'a list \<Rightarrow> nat" where
  "frames_total enc xs = (\<Sum>x\<leftarrow>xs. length (enc x))"

lemma frames_total_simps [simp]:
  "frames_total enc [] = 0" "frames_total enc (x # xs) = length (enc x) + frames_total enc xs"
  "frames_total enc (xs @ ys) = frames_total enc xs + frames_total enc ys"
  by (simp_all add: frames_total_def)

lemma contents_total: "framed_by enc cap q xs \<Longrightarrow> length (cq_contents q) = frames_total enc xs"
  by (simp add: framed_by_def frames_total_def length_concat comp_def)

lemma framed_le: "framed_by enc cap q xs \<Longrightarrow> frames_total enc xs \<le> unat cap"
  using cq.contents_cap [of q] contents_total [of enc cap q xs] by (auto simp: framed_by_def)

lemma framed_datalen: "framed_by enc cap q xs \<Longrightarrow> unat (cqueue_datalen q) = frames_total enc xs"
  using cqueue_sizes [of q] contents_total [of enc cap q xs] by (simp add: framed_by_def)

text \<open>There is room for \<open>n\<close> more bytes.\<close>

lemma framed_room:
  "framed_by enc cap q xs \<Longrightarrow> n \<le> cqueue_surplus q \<longleftrightarrow> frames_total enc xs + unat n \<le> unat cap"
  using cqueue_sizes [of q] contents_total [of enc cap q xs] framed_le [of enc cap q xs]
  by (auto simp: framed_by_def word_le_nat_alt)

lemma put_bytes:
  assumes "cq_inv q" and "unat len \<le> length bs" and "length (cq_contents q) + unat len \<le> unat (cq_size q)"
  shows "\<exists>q' m. cqueue_put q bs len = Some (q', m) \<and> cq_inv q' \<and> cq_size q' = cq_size q \<and>
     cq_contents q' = cq_contents q @ take (unat len) bs"
  using cqueue_put_ok [OF assms(1,2)] assms(3) by (auto simp: min_def split: if_splits)

lemma take_bytes:
  assumes "cq_inv q" and "cq_contents q = bs @ rest" and "unat len = length bs" and "length bs \<le> length dst"
  shows "\<exists>q' m. cqueue_get q dst len = Some (q', blit dst 0 bs, m) \<and> cq_inv q' \<and> cq_size q' = cq_size q \<and>
     cq_contents q' = rest"
  using cqueue_get_ok [OF assms(1), of len dst] assms(2-) by (auto simp: min_def)

text \<open>A frame is put in behind the others; a part of the memory its body is taken from may follow.\<close>

lemma framed_put:
  assumes q: "framed_by enc cap q xs" and x: "enc x = h @ take (unat bl) b"
    and l: "unat hl = length h" "unat bl \<le> length b" and room: "frames_total enc (xs @ [x]) \<le> unat cap"
  shows "\<exists>q1 n1 q2 n2. cqueue_put q h hl = Some (q1, n1) \<and> cqueue_put q1 b bl = Some (q2, n2) \<and>
     framed_by enc cap q2 (xs @ [x])"
proof -
  have Q: "cq_inv q" "cq_size q = cap" "cq_contents q = concat (map enc xs)" using q by (simp_all add: framed_by_def)
  have n: "length (cq_contents q) + length h + unat bl \<le> unat cap"
    using contents_total [OF q] room x l by simp
  obtain q1 n1 where q1: "cqueue_put q h hl = Some (q1, n1)" "cq_inv q1" "cq_size q1 = cap" "cq_contents q1 = cq_contents q @ h"
    using put_bytes [OF Q(1), of hl h] n l(1) Q(2) by auto
  obtain q2 n2 where q2: "cqueue_put q1 b bl = Some (q2, n2)" "cq_inv q2" "cq_size q2 = cap"
      "cq_contents q2 = cq_contents q1 @ take (unat bl) b"
    using put_bytes [OF q1(2), of bl b] n l(2) q1(3,4) by auto
  show ?thesis using q1 q2 Q(3) x by (simp add: framed_by_def)
qed

text \<open>The oldest frame is taken out.\<close>

lemma framed_get:
  assumes q: "framed_by enc cap q (x # xs)" and x: "enc x = h @ b"
    and l: "unat hl = length h" "length h \<le> length dh" "unat bl = length b" "length b \<le> length bd"
  shows "\<exists>q1 n1 q2 n2. cqueue_get q dh hl = Some (q1, blit dh 0 h, n1) \<and> unat (cqueue_datalen q1) = length b + frames_total enc xs \<and>
     cqueue_get q1 bd bl = Some (q2, blit bd 0 b, n2) \<and> framed_by enc cap q2 xs"
proof -
  have Q: "cq_inv q" "cq_size q = cap" "cq_contents q = h @ b @ concat (map enc xs)"
    using q x by (simp_all add: framed_by_def)
  obtain q1 n1 where q1: "cqueue_get q dh hl = Some (q1, blit dh 0 h, n1)" "cq_inv q1" "cq_size q1 = cap"
      "cq_contents q1 = b @ concat (map enc xs)"
    using take_bytes [OF Q(1,3) l(1,2)] Q(2) by auto
  obtain q2 n2 where q2: "cqueue_get q1 bd bl = Some (q2, blit bd 0 b, n2)" "cq_inv q2" "cq_size q2 = cap"
      "cq_contents q2 = concat (map enc xs)"
    using take_bytes [OF q1(2,4) l(3,4)] q1(3) by auto
  have "unat (cqueue_datalen q1) = length b + frames_total enc xs"
    using cqueue_sizes [OF q1(2)] q1(4) by (simp add: frames_total_def length_concat comp_def)
  then show ?thesis using q1 q2 by (simp add: framed_by_def)
qed

text \<open>A queue that has just been set up, or emptied.\<close>

lemma framed_empty:
  "cq_inv q \<Longrightarrow> cq_size q = cap \<Longrightarrow> cq_in q = cq_out q \<Longrightarrow> framed_by enc cap q []"
  using cqueue_sizes [of q] by (simp add: framed_by_def cqueue_datalen_def)

end
