(* ===== verification/SuperviseClaims.thy ===== *)
theory SuperviseClaims imports Supervise Frames MsgBusClaims begin

text \<open>
  The properties of the supervisor: reports are handled in the order they were accepted, and only
  one for each time the supervisor is woken.
\<close>

section \<open>The queue of reports\<close>

text \<open>A report is its type and the bytes of its structure.\<close>

type_synonym report = "u32 \<times> u8 list"

definition report_bytes :: "report \<Rightarrow> u8 list" where
  "report_bytes r = sup_header_bytes \<lparr>sh_magicno = TBOX_SUPERVISE_HEADER_MAGICNO, sh_type = fst r\<rparr> @ snd r"

definition proper :: "report \<Rightarrow> bool" where
  "proper r \<longleftrightarrow> fst r < abnormal_type_val MODULE_ABNORMAL_TYPE_MAX \<and> length (snd r) = (if is_memory_type (fst r) then 4 else 16)"

definition queued :: "sup_state \<Rightarrow> report list \<Rightarrow> bool" where
  "queued S rs \<longleftrightarrow> framed_by report_bytes TBOX_SUPERVISE_QUEUE_SIZE (sv_queue (sup_mgr S)) rs \<and> list_all proper rs \<and>
     length (abnormal_process (sup_mgr S)) = 6"

lemma sup_sizes [simp]:
  "unat TBOX_SUPERVISE_QUEUE_SIZE = 128" "unat sizeof_sup_header = 8" "unat sizeof_memory_info = 4" "unat sizeof_task_info = 16"
  by (simp_all add: TBOX_SUPERVISE_QUEUE_SIZE_def sizeof_sup_header_def sizeof_memory_info_def sizeof_task_info_def)

lemma header_simps [simp]: "length (sup_header_bytes h) = 8" "sup_header_of (sup_header_bytes h) = h"
  by (simp_all add: sup_header_bytes_def sup_header_of_def)

lemma report_length: "length (report_bytes r) = 8 + length (snd r)"
  by (simp add: report_bytes_def)

lemma upd_simps [simp]:
  "sup_mgr (upd_tasks f S) = sup_mgr S" "sup_core (upd_mgr g S) = sup_core S" "sup_mgr (upd_mgr g S) = g (sup_mgr S)"
  "core_tasks (sup_core (upd_tasks f S)) = f (core_tasks (sup_core S))" "upd_mgr (\<lambda>m. m) S = S"
  by (simp_all add: upd_tasks_def upd_mgr_def)

text \<open>A report is put behind the others, or, without room, dropped without a word.\<close>

lemma put_report_law:
  assumes q: "queued S rs" and t: "sv_task (sup_mgr S) \<noteq> 0" and r: "proper (ty, info)" and sz: "unat sz = length info"
  shows "\<exists>q'. put_report ty info sz S = Some (if frames_total report_bytes (rs @ [(ty, info)]) \<le> 128
       then upd_tasks (notify_task (sv_task (sup_mgr S)) TBOX_SUPERVISE_EVENT_REPORT_BIT eSetBits)
         (upd_mgr (\<lambda>m. m\<lparr>sv_queue := q'\<rparr>) S) else S) \<and>
     (frames_total report_bytes (rs @ [(ty, info)]) \<le> 128 \<longrightarrow> queued (upd_mgr (\<lambda>m. m\<lparr>sv_queue := q'\<rparr>) S) (rs @ [(ty, info)]))"
proof -
  let ?q = "sv_queue (sup_mgr S)" and ?h = "sup_header_bytes \<lparr>sh_magicno = TBOX_SUPERVISE_HEADER_MAGICNO, sh_type = ty\<rparr>"
  have Q: "framed_by report_bytes TBOX_SUPERVISE_QUEUE_SIZE ?q rs" using q by (simp add: queued_def)
  have "unat (sizeof_sup_header + sz) = 8 + length info"
    using r sz by (subst unat_plus_if_fits) (auto simp: proper_def split: if_splits)
  then have full: "sizeof_sup_header + sz > cqueue_surplus ?q \<longleftrightarrow> \<not> frames_total report_bytes (rs @ [(ty, info)]) \<le> 128"
    using framed_room [OF Q, of "sizeof_sup_header + sz"] by (auto simp: not_le [symmetric] report_length)
  show ?thesis
  proof (cases "frames_total report_bytes (rs @ [(ty, info)]) \<le> 128")
    case False
    then show ?thesis using t full by (simp add: put_report_def Let_def)
  next
    case True
    have x: "report_bytes (ty, info) = ?h @ take (unat sz) info" using sz by (simp add: report_bytes_def)
    obtain q1 n1 q2 n2 where "cqueue_put ?q ?h sizeof_sup_header = Some (q1, n1)" "cqueue_put q1 info sz = Some (q2, n2)"
        "framed_by report_bytes TBOX_SUPERVISE_QUEUE_SIZE q2 (rs @ [(ty, info)])"
      using framed_put [OF Q x, where hl = sizeof_sup_header] True sz by auto
    then show ?thesis using True t full q r by (intro exI [of _ q2]) (simp add: put_report_def Let_def queued_def)
  qed
qed

text \<open>The oldest report is taken out whole.\<close>

lemma take_report_law:
  assumes q: "queued S ((ty, info) # rs)" and g: "length garbage = 16"
  shows "\<exists>q'. take_report garbage S = Some (upd_mgr (\<lambda>m. m\<lparr>sv_queue := q'\<rparr>) S, Some (ty, abnormal_process (sup_mgr S) ! unat ty, info)) \<and>
     queued (upd_mgr (\<lambda>m. m\<lparr>sv_queue := q'\<rparr>) S) rs"
proof -
  let ?q = "sv_queue (sup_mgr S)" and ?hd = "\<lparr>sh_magicno = TBOX_SUPERVISE_HEADER_MAGICNO, sh_type = ty\<rparr>"
  let ?sz = "if is_memory_type ty then sizeof_memory_info else sizeof_task_info"
  have Q: "framed_by report_bytes TBOX_SUPERVISE_QUEUE_SIZE ?q ((ty, info) # rs)" and p: "proper (ty, info)"
    and n: "length (abnormal_process (sup_mgr S)) = 6" using q by (auto simp: queued_def)
  have sz: "unat ?sz = length info" using p by (auto simp: proper_def)
  have ty: "ty < 6" "unat ty < 6" using p by (simp_all add: proper_def word_less_nat_alt)
  have x: "report_bytes (ty, info) = sup_header_bytes ?hd @ info" by (simp add: report_bytes_def)
  obtain q1 n1 q2 n2 where q1: "cqueue_get ?q (replicate 8 0) sizeof_sup_header = Some (q1, blit (replicate 8 0) 0 (sup_header_bytes ?hd), n1)"
      "cqueue_get q1 (take (if is_memory_type ty then 4 else 16) garbage) ?sz =
        Some (q2, blit (take (if is_memory_type ty then 4 else 16) garbage) 0 info, n2)"
      "framed_by report_bytes TBOX_SUPERVISE_QUEUE_SIZE q2 rs"
    using framed_get [OF Q x, of sizeof_sup_header "replicate 8 0" ?sz "take (if is_memory_type ty then 4 else 16) garbage"] sz p g
    by (auto simp: proper_def)
  have b: "blit (replicate 8 0) 0 (sup_header_bytes ?hd) = sup_header_bytes ?hd"
      "blit (take (if is_memory_type ty then 4 else 16) garbage) 0 info = info"
    using p g by (simp_all add: blit_def proper_def)
  have "unat (cqueue_datalen ?q) \<ge> 8 + length info" using framed_datalen [OF Q] by (simp add: report_length)
  moreover have "length info \<ge> 4" using p by (auto simp: proper_def split: if_splits)
  moreover have "unat (sizeof_sup_header + sizeof_memory_info) = 12" by (simp add: sizeof_sup_header_def sizeof_memory_info_def)
  ultimately have d: "\<not> cqueue_datalen ?q < sizeof_sup_header + sizeof_memory_info"
    by (simp add: word_less_nat_alt)
  have t: "take_report garbage S = Some (upd_mgr (\<lambda>m. m\<lparr>sv_queue := q2\<rparr>) S, Some (ty, abnormal_process (sup_mgr S) ! unat ty, info))"
    using d q1(1,2) b ty n by (simp add: take_report_def Let_def rd_def not_le)
  have "queued (upd_mgr (\<lambda>m. m\<lparr>sv_queue := q2\<rparr>) S) rs" using q1(3) q by (simp add: queued_def)
  then show ?thesis using t by (intro exI [of _ q2]) simp
qed

lemma take_report_none:
  assumes q: "queued S []"
  shows "take_report garbage S = Some (S, None)"
proof -
  have "unat (cqueue_datalen (sv_queue (sup_mgr S))) = 0" using framed_datalen [of report_bytes] q by (fastforce simp: queued_def)
  then show ?thesis
    by (simp add: take_report_def Let_def word_less_nat_alt sizeof_sup_header_def sizeof_memory_info_def sizeof_task_info_def)
qed

section \<open>Reports and the supervisor, in any order\<close>

datatype sup_act = Memory_report u32 u32 | Task_report u32 TBOX_CORE_TASK_ABNORMAL_INFO | Handle

fun report_of :: "sup_act \<Rightarrow> report" where
  "report_of (Memory_report ty a) = (ty, le32 a)"
| "report_of (Task_report ty i) = (ty, task_info_bytes i)"
| "report_of Handle = (0, [])"

text \<open>The functions are called with the types of the structures they take.\<close>

fun act_proper :: "sup_act \<Rightarrow> bool" where
  "act_proper (Memory_report ty a) = is_memory_type ty"
| "act_proper (Task_report ty i) = (ty < abnormal_type_val MODULE_ABNORMAL_TYPE_MAX \<and> \<not> is_memory_type ty)"
| "act_proper Handle = True"

fun report_call :: "sup_act \<Rightarrow> sup_state \<Rightarrow> sup_state option" where
  "report_call (Memory_report ty a) S = tbox_supervish_report_memory_abnormal ty (Some a) S"
| "report_call (Task_report ty i) S = tbox_supervish_report_task_abnormal ty (Some i) S"
| "report_call Handle S = Some S"

text \<open>
  A run of reports and of looks of the supervisor into the queue: the reports that were accepted, and those
  that were taken out, with the measure that is set for their type.
\<close>

fun sup_run :: "(nat \<Rightarrow> u8 list) \<Rightarrow> sup_state \<Rightarrow> sup_act list \<Rightarrow>
    (sup_state \<times> report list \<times> (u32 \<times> TBOX_MODULE_ABNORMAL_PROCESS_TYPE \<times> u8 list) list) option" where
  "sup_run garbage S [] = Some (S, [], [])"
| "sup_run garbage S (a # acts) =
     (if a = Handle then do {
        (S, out) \<leftarrow> take_report (garbage (length acts)) S;
        (S, ins, outs) \<leftarrow> sup_run garbage S acts;
        Some (S, ins, case out of None \<Rightarrow> outs | Some x \<Rightarrow> x # outs)
      }
      else do {
        S' \<leftarrow> report_call a S;
        (S'', ins, outs) \<leftarrow> sup_run garbage S' acts;
        Some (S'', if sv_queue (sup_mgr S') = sv_queue (sup_mgr S) then ins else report_of a # ins, outs)
      })"

lemma type_simps [simp]:
  "length (task_info_bytes i) = 16" "is_memory_type ty \<Longrightarrow> ty < 6" "abnormal_type_val MODULE_ABNORMAL_TYPE_MAX = 6"
  by (auto simp: task_info_bytes_def is_memory_type_def)

lemma report_as_put:
  assumes "act_proper a" "a \<noteq> Handle"
  shows "\<exists>ty info sz. report_of a = (ty, info) \<and> proper (ty, info) \<and> unat sz = length info \<and>
    report_call a S = put_report ty info sz S"
proof (cases a)
  case (Memory_report ty x)
  then show ?thesis using assms
    by (intro exI [of _ ty] exI [of _ "le32 x"] exI [of _ sizeof_memory_info])
      (simp add: proper_def tbox_supervish_report_memory_abnormal_def)
next
  case (Task_report ty i)
  then show ?thesis using assms
    by (intro exI [of _ ty] exI [of _ "task_info_bytes i"] exI [of _ sizeof_task_info])
      (simp add: proper_def tbox_supervish_report_task_abnormal_def)
qed (use assms in simp)

lemma report_call_law:
  assumes q: "queued S rs" and t: "sv_task (sup_mgr S) \<noteq> 0" and a: "act_proper a" "a \<noteq> Handle"
  shows "\<exists>S'. report_call a S = Some S' \<and> sv_task (sup_mgr S') = sv_task (sup_mgr S) \<and>
    abnormal_process (sup_mgr S') = abnormal_process (sup_mgr S) \<and>
    (if frames_total report_bytes (rs @ [report_of a]) \<le> 128
     then queued S' (rs @ [report_of a]) \<and> sv_queue (sup_mgr S') \<noteq> sv_queue (sup_mgr S) else S' = S)"
proof -
  obtain ty info sz where r: "report_of a = (ty, info)" "proper (ty, info)" "unat sz = length info"
      "report_call a S = put_report ty info sz S"
    using report_as_put a by blast
  have grows: "q' \<noteq> sv_queue (sup_mgr S)"
    if "queued (upd_mgr (\<lambda>m. m\<lparr>sv_queue := q'\<rparr>) S) (rs @ [(ty, info)])" for q'
  proof
    assume "q' = sv_queue (sup_mgr S)"
    then have "frames_total report_bytes (rs @ [(ty, info)]) = frames_total report_bytes rs"
      using that q by (metis (no_types, lifting) TBOX_SUPERVISE_MGR.select_convs(2) TBOX_SUPERVISE_MGR.surjective
          TBOX_SUPERVISE_MGR.update_convs(2) contents_total queued_def upd_simps(3))
    then show False by (simp add: report_length)
  qed
  from put_report_law [OF q t r(2,3)] r(1,4) grows show ?thesis
    by (auto simp: queued_def)
qed

text \<open>The reports of the task functions have the measure of their type at the end as at the start.\<close>

definition measured :: "sup_state \<Rightarrow> report \<Rightarrow> u32 \<times> TBOX_MODULE_ABNORMAL_PROCESS_TYPE \<times> u8 list" where
  "measured S r = (fst r, abnormal_process (sup_mgr S) ! unat (fst r), snd r)"

lemma sup_run_order:
  assumes "queued S rs" and "sv_task (sup_mgr S) \<noteq> 0" and "list_all act_proper acts" and "\<And>n. length (garbage n) = 16"
  shows "\<exists>S' ins outs rs'. sup_run garbage S acts = Some (S', ins, outs) \<and> queued S' rs' \<and>
     map (measured S) (rs @ ins) = outs @ map (measured S) rs'"
  using assms(1-3)
proof (induction acts arbitrary: S rs)
  case (Cons a acts)
  note hyp = Cons.IH and prems = Cons.prems
  show ?case
  proof (cases "a = Handle")
    case False
    obtain S1 where S1: "report_call a S = Some S1" "sv_task (sup_mgr S1) = sv_task (sup_mgr S)"
        "abnormal_process (sup_mgr S1) = abnormal_process (sup_mgr S)"
        "if frames_total report_bytes (rs @ [report_of a]) \<le> 128
         then queued S1 (rs @ [report_of a]) \<and> sv_queue (sup_mgr S1) \<noteq> sv_queue (sup_mgr S) else S1 = S"
      using report_call_law [OF prems(1,2) _ False] prems(3) by auto
    define rs1 where "rs1 = (if frames_total report_bytes (rs @ [report_of a]) \<le> 128 then rs @ [report_of a] else rs)"
    have "queued S1 rs1" using S1(4) prems(1) by (auto simp: rs1_def split: if_splits)
    then obtain S' ins outs rs' where IH: "sup_run garbage S1 acts = Some (S', ins, outs)" "queued S' rs'"
        "map (measured S1) (rs1 @ ins) = outs @ map (measured S1) rs'"
      using hyp [of S1 rs1] prems(2,3) S1(2) by auto
    have m: "measured S1 = measured S" using S1(3) by (simp add: measured_def fun_eq_iff)
    let ?ins = "if sv_queue (sup_mgr S1) = sv_queue (sup_mgr S) then ins else report_of a # ins"
    have e: "rs @ ?ins = rs1 @ ins" using S1(4) by (auto simp: rs1_def split: if_splits)
    have "sup_run garbage S (a # acts) = Some (S', ?ins, outs)" using IH(1) S1(1) False by simp
    moreover have "map (measured S) (rs @ ?ins) = outs @ map (measured S) rs'" unfolding e using IH(3) m by simp
    ultimately show ?thesis using IH(2) by blast
  next
    case True
    show ?thesis
    proof (cases rs)
      case Nil
      then obtain S' ins outs rs' where "sup_run garbage S acts = Some (S', ins, outs)" "queued S' rs'"
          "map (measured S) (rs @ ins) = outs @ map (measured S) rs'"
        using hyp [OF prems(1,2)] prems(3) by auto
      then show ?thesis using True Nil take_report_none prems(1) by auto
    next
      case (Cons r rs0)
      obtain ty info where r: "r = (ty, info)" by fastforce
      obtain q' where q': "take_report (garbage (length acts)) S =
          Some (upd_mgr (\<lambda>m. m\<lparr>sv_queue := q'\<rparr>) S, Some (ty, abnormal_process (sup_mgr S) ! unat ty, info))"
          "queued (upd_mgr (\<lambda>m. m\<lparr>sv_queue := q'\<rparr>) S) rs0"
        using take_report_law prems(1) assms(4) unfolding Cons r by blast
      let ?S = "upd_mgr (\<lambda>m. m\<lparr>sv_queue := q'\<rparr>) S"
      obtain S' ins outs rs' where IH: "sup_run garbage ?S acts = Some (S', ins, outs)" "queued S' rs'"
          "map (measured ?S) (rs0 @ ins) = outs @ map (measured ?S) rs'"
        using hyp [OF q'(2)] prems(2,3) by auto
      have "measured ?S = measured S" by (simp add: measured_def fun_eq_iff)
      then have "map (measured S) (rs @ ins) = ((ty, abnormal_process (sup_mgr S) ! unat ty, info) # outs) @ map (measured S) rs'"
        using IH(3) Cons r by (simp add: measured_def)
      moreover have "sup_run garbage S (a # acts) = Some (S', ins, (ty, abnormal_process (sup_mgr S) ! unat ty, info) # outs)"
        using IH(1) q'(1) True by simp
      ultimately show ?thesis using IH(2) by blast
    qed
  qed
qed auto

section \<open>One report for one wake-up\<close>

text \<open>All the reports find room.\<close>

fun report_calls :: "sup_act list \<Rightarrow> sup_state \<Rightarrow> sup_state option" where
  "report_calls [] S = Some S"
| "report_calls (a # acts) S = do { S \<leftarrow> report_call a S; report_calls acts S }"

definition notified :: "sup_state \<Rightarrow> task_notify" where
  "notified S = tcbs (core_tasks (sup_core S)) (sv_task (sup_mgr S))"

lemma put_notifies:
  assumes "queued S rs" and "sv_task (sup_mgr S) \<noteq> 0" and "act_proper a" "a \<noteq> Handle"
    and "frames_total report_bytes (rs @ [report_of a]) \<le> 128"
  shows "\<exists>S'. report_call a S = Some S' \<and> queued S' (rs @ [report_of a]) \<and> sv_task (sup_mgr S') = sv_task (sup_mgr S) \<and>
    abnormal_process (sup_mgr S') = abnormal_process (sup_mgr S) \<and>
    notified S' = notify_set (notified S) TBOX_SUPERVISE_EVENT_REPORT_BIT"
proof -
  obtain ty info sz where r: "report_of a = (ty, info)" "proper (ty, info)" "unat sz = length info"
      "report_call a S = put_report ty info sz S"
    using report_as_put assms(3,4) by blast
  obtain q' where q': "put_report ty info sz S = Some (upd_tasks (notify_task (sv_task (sup_mgr S)) TBOX_SUPERVISE_EVENT_REPORT_BIT eSetBits)
         (upd_mgr (\<lambda>m. m\<lparr>sv_queue := q'\<rparr>) S))" "queued (upd_mgr (\<lambda>m. m\<lparr>sv_queue := q'\<rparr>) S) (rs @ [(ty, info)])"
    using put_report_law [OF assms(1,2) r(2,3)] assms(5) r(1) by auto
  then show ?thesis
    using r(1,4) by (simp add: queued_def notified_def notify_task_def notify_set_def)
qed

lemma report_calls_law:
  assumes "queued S rs" and "sv_task (sup_mgr S) \<noteq> 0" and "\<forall>a\<in>set acts. act_proper a \<and> a \<noteq> Handle"
    and "frames_total report_bytes (rs @ map report_of acts) \<le> 128"
  shows "\<exists>S'. report_calls acts S = Some S' \<and> queued S' (rs @ map report_of acts) \<and> sv_task (sup_mgr S') = sv_task (sup_mgr S) \<and>
    abnormal_process (sup_mgr S') = abnormal_process (sup_mgr S) \<and>
    notified S' = fold (\<lambda>v t. notify_set t v) (map (\<lambda>_. TBOX_SUPERVISE_EVENT_REPORT_BIT) acts) (notified S)"
  using assms
proof (induction acts arbitrary: S rs)
  case (Cons a acts)
  have a: "act_proper a" "a \<noteq> Handle" "frames_total report_bytes (rs @ [report_of a]) \<le> 128"
    using Cons.prems(3,4) by auto
  from put_notifies [OF Cons.prems(1,2) a] obtain S1 where S1: "report_call a S = Some S1" "queued S1 (rs @ [report_of a])"
      "sv_task (sup_mgr S1) = sv_task (sup_mgr S)" "abnormal_process (sup_mgr S1) = abnormal_process (sup_mgr S)"
      "notified S1 = notify_set (notified S) TBOX_SUPERVISE_EVENT_REPORT_BIT" by blast
  from Cons.IH [OF S1(2)] S1 Cons.prems(2-4) show ?case by auto
qed simp

lemma wake_simps [simp]:
  "sup_mgr (fst (supervise_wake self S)) = sup_mgr S" "queued (fst (supervise_wake self S)) rs = queued S rs"
  by (simp_all add: supervise_wake_def queued_def Let_def case_prod_unfold)

lemma wake_notified:
  assumes "notify_state (notified S) = taskNOTIFICATION_RECEIVED" "ulNotifiedValue (notified S) AND NOT TBOX_SUPERVISE_EVENT_ALL_BITS = 0"
  shows "snd (supervise_wake (sv_task (sup_mgr S)) S) = ulNotifiedValue (notified S)"
    "notified (fst (supervise_wake (sv_task (sup_mgr S)) S)) = \<lparr>ulNotifiedValue = 0, notify_state = taskNOT_WAITING_NOTIFICATION\<rparr>"
  using assms
  by (auto simp: supervise_wake_def notified_def notify_wait_leave_def Let_def case_prod_unfold upd_tasks_def)

lemma fold_report_bit:
  "fold (\<lambda>v b. b OR v) (map (\<lambda>_. TBOX_SUPERVISE_EVENT_REPORT_BIT) acts) (0 :: u32) =
     (if acts = [] then 0 else TBOX_SUPERVISE_EVENT_REPORT_BIT)"
proof -
  have "fold (\<lambda>v b. b OR v) (map (\<lambda>_. w) acts) w = w" for w :: u32
    by (induction acts) simp_all
  then show ?thesis by (cases acts) simp_all
qed

section \<open>Concrete instances\<close>

definition demo_sup :: sup_state where
  "demo_sup = \<lparr>sup_core = demo_bus (demo_state \<lparr>mps = [], mem = ex_mem, reports = []\<rparr>),
     sup_mgr = \<lparr>abnormal_process = default_process, sv_queue = \<lparr>cq_buffer = replicate 128 0, cq_size = 128, cq_in = 0, cq_out = 0\<rparr>,
       sv_buffer = 0x20003000, sv_task = 0x20004000\<rparr>\<rparr>"

lemma demo_sup_queued: "queued demo_sup []"
proof -
  have "(128 :: u32) = 2 ^ 7" by simp
  then have "\<exists>k<32. (128 :: u32) = 2 ^ k" by (intro exI [of _ 7]) simp
  then show ?thesis
    by (simp add: queued_def demo_sup_def framed_by_def cq_inv_def cq_contents_def TBOX_SUPERVISE_QUEUE_SIZE_def default_process_def)
qed

lemma demo_sup_simps [simp]:
  "sv_task (sup_mgr demo_sup) = 0x20004000" "notified demo_sup = \<lparr>ulNotifiedValue = 0, notify_state = taskNOT_WAITING_NOTIFICATION\<rparr>"
  by (simp_all add: demo_sup_def notified_def demo_bus_def demo_tasks_def)

definition demo_lost :: "TBOX_ID \<Rightarrow> sup_act" where
  "demo_lost i = Task_report 3 \<lparr>ab_task_id = i, ab_task_handle = 0x20002000 + i, ab_module_id = i, ab_msg_name = 0\<rparr>"

lemma demo_lost_simps [simp]: "act_proper (demo_lost i)" "demo_lost i \<noteq> Handle" "length (snd (report_of (demo_lost i))) = 16"
  by (simp_all add: demo_lost_def is_memory_type_def)

section \<open>Properties\<close>

text \<open>
  C4: the supervisor's queue. Under every interleaving of reports - about memory and about tasks - and of the
  supervisor taking one out, no step fails, and the reports taken out followed by those still queued are exactly those queued at
  first followed by those accepted, in this order, with the type, the measure that is set for it, and the bytes of the structure.
  A report is accepted exactly if it fits into the 128 bytes.
\<close>

theorem supervise_reports_in_order:
  assumes "queued S rs" and "sv_task (sup_mgr S) \<noteq> 0" and "list_all act_proper acts" and "\<And>n. length (garbage n) = 16"
  shows "\<exists>S' ins outs rs'. sup_run garbage S acts = Some (S', ins, outs) \<and> queued S' rs' \<and>
     map (measured S) (rs @ ins) = outs @ map (measured S) rs'"
  using assms by (rule sup_run_order)

theorem supervise_reports_in_order_witness:
  "\<exists>S' ins outs rs'. sup_run (\<lambda>_. replicate 16 0xAA) demo_sup [demo_lost 1, Memory_report 0 0x20003000, Handle, demo_lost 2, Handle] =
       Some (S', ins, outs) \<and> queued S' rs' \<and> map (measured demo_sup) ins = outs @ map (measured demo_sup) rs'"
  using supervise_reports_in_order [OF demo_sup_queued, of "[demo_lost 1, Memory_report 0 0x20003000, Handle, demo_lost 2, Handle]"
      "\<lambda>_. replicate 16 0xAA"]
  by (simp add: is_memory_type_def)

text \<open>
  One report for one wake-up. However many reports come before the supervisor runs, it is woken
  once: the wait returns the report bit, one report is taken out, and the next wait finds no bit set although the other
  reports are still in the queue. They stay there until something else wakes the supervisor.
\<close>

theorem supervise_one_per_wake:
  assumes "queued S []" and "sv_task (sup_mgr S) \<noteq> 0" and "ulNotifiedValue (notified S) = 0"
    and "acts \<noteq> []" and "\<forall>a\<in>set acts. act_proper a \<and> a \<noteq> Handle"
    and "frames_total report_bytes (map report_of acts) \<le> 128" and "length garbage = 16"
  defines "wake \<equiv> supervise_wake (sv_task (sup_mgr S))"
  shows "\<exists>S1 S2. report_calls acts S = Some S1 \<and> snd (wake S1) = TBOX_SUPERVISE_EVENT_REPORT_BIT \<and>
    take_report garbage (fst (wake S1)) = Some (S2, Some (measured S (report_of (hd acts)))) \<and>
    queued S2 (map report_of (tl acts)) \<and> snd (wake S2) = 0"
proof -
  obtain S1 where S1: "report_calls acts S = Some S1" "queued S1 (map report_of acts)" "sv_task (sup_mgr S1) = sv_task (sup_mgr S)"
      "abnormal_process (sup_mgr S1) = abnormal_process (sup_mgr S)"
      "notified S1 = fold (\<lambda>v t. notify_set t v) (map (\<lambda>_. TBOX_SUPERVISE_EVENT_REPORT_BIT) acts) (notified S)"
    using report_calls_law [OF assms(1,2,5)] assms(6) by auto
  have n: "notify_state (notified S1) = taskNOTIFICATION_RECEIVED" "ulNotifiedValue (notified S1) = TBOX_SUPERVISE_EVENT_REPORT_BIT"
    using assms(3,4) by (simp_all add: S1(5) fold_notify_set fold_report_bit)
  have clear: "TBOX_SUPERVISE_EVENT_REPORT_BIT AND NOT TBOX_SUPERVISE_EVENT_ALL_BITS = 0"
    by (simp add: TBOX_SUPERVISE_EVENT_REPORT_BIT_def TBOX_SUPERVISE_EVENT_ALL_BITS_def)
  note w = wake_notified [of S1, unfolded n, OF refl clear, unfolded S1(3), folded wake_def]
  obtain a rest where acts: "acts = a # rest" using assms(4) by (cases acts) auto
  obtain ty info where r: "report_of a = (ty, info)" by fastforce
  have "queued (fst (wake S1)) ((ty, info) # map report_of rest)" using S1(2) acts r by (simp add: wake_def)
  from take_report_law [OF this assms(7)] obtain q' where
    t: "take_report garbage (fst (wake S1)) = Some (upd_mgr (\<lambda>m. m\<lparr>sv_queue := q'\<rparr>) (fst (wake S1)),
        Some (ty, abnormal_process (sup_mgr (fst (wake S1))) ! unat ty, info))"
      "queued (upd_mgr (\<lambda>m. m\<lparr>sv_queue := q'\<rparr>) (fst (wake S1))) (map report_of rest)" by blast
  let ?S2 = "upd_mgr (\<lambda>m. m\<lparr>sv_queue := q'\<rparr>) (fst (wake S1))"
  have "notified ?S2 = \<lparr>ulNotifiedValue = 0, notify_state = taskNOT_WAITING_NOTIFICATION\<rparr>"
    using w(2) by (simp add: notified_def)
  moreover have "sv_task (sup_mgr ?S2) = sv_task (sup_mgr S)" using S1(3) by (simp add: wake_def)
  ultimately have "snd (wake ?S2) = 0"
    by (simp add: wake_def supervise_wake_def notified_def notify_wait_leave_def Let_def case_prod_unfold)
  moreover have "abnormal_process (sup_mgr (fst (wake S1))) = abnormal_process (sup_mgr S)" using S1(4) by (simp add: wake_def)
  ultimately show ?thesis using S1(1) w(1) t acts r by (intro exI [of _ S1] exI [of _ ?S2]) (simp add: measured_def)
qed

theorem supervise_one_per_wake_witness:
  "\<exists>S1 S2. report_calls [demo_lost 1, demo_lost 2] demo_sup = Some S1 \<and>
     take_report (replicate 16 0) (fst (supervise_wake 0x20004000 S1)) =
       Some (S2, Some (3, MODULE_ABNORMAL_PROCESS_RESET, snd (report_of (demo_lost 1)))) \<and>
     queued S2 [report_of (demo_lost 2)] \<and> snd (supervise_wake 0x20004000 S2) = 0"
proof -
  have "fst (report_of (demo_lost 1)) = 3" "abnormal_process (sup_mgr demo_sup) ! 3 = MODULE_ABNORMAL_PROCESS_RESET"
    by (simp_all add: demo_lost_def demo_sup_def default_process_def)
  then show ?thesis
    using supervise_one_per_wake [OF demo_sup_queued, of "[demo_lost 1, demo_lost 2]" "replicate 16 0"]
    by (auto simp: report_length measured_def)
qed

end
