(* ===== verification/Log.thy ===== *)
theory Log imports Module begin

text \<open>
  \<^verbatim>\<open>src/core/tbox_log.c\<close>, the log: lines are formatted in one of three buffers, put into a byte queue
  behind a header, and printed by a task. The text that \<^verbatim>\<open>vsnprintf\<close> makes of the caller's format and arguments
  is the argument \<open>text\<close>; the texts the file formats itself are written out. A mutex is a flag; taking one that does not
  exist, and deleting none, is \<open>None\<close> (the assertions of the kernel stop the system). Printed lines are the log \<open>lg_out\<close>.
\<close>

section \<open>Data\<close>

definition TBOX_LOG_MAGIC_NO :: u16 where "TBOX_LOG_MAGIC_NO = 0x5F4C"
definition TBOX_LOG_SEQ_NOINIT :: u8 where "TBOX_LOG_SEQ_NOINIT = 0"
definition TBOX_LOG_SEQ_STOP :: u8 where "TBOX_LOG_SEQ_STOP = 1"
definition TBOX_LOG_SEQ_START :: u8 where "TBOX_LOG_SEQ_START = 2"
definition TBOX_LOG_TEMP_BUFF_COUNT :: nat where "TBOX_LOG_TEMP_BUFF_COUNT = 3"
definition TBOX_LOG_LINEBUFF_SIZE :: nat where "TBOX_LOG_LINEBUFF_SIZE = 256"
definition TBOX_LOG_ITEM_MAX_NUM :: nat where "TBOX_LOG_ITEM_MAX_NUM = 12"
definition TBOX_LOG_PUT_RETRY_COUNT :: nat where "TBOX_LOG_PUT_RETRY_COUNT = 3"
definition TBOX_LOG_EVENT_START_BIT :: u32 where "TBOX_LOG_EVENT_START_BIT = 1"
definition TBOX_LOG_EVENT_STOP_BIT :: u32 where "TBOX_LOG_EVENT_STOP_BIT = 2"
definition TBOX_LOG_EVENT_OUTPUT_BIT :: u32 where "TBOX_LOG_EVENT_OUTPUT_BIT = 4"
definition TBOX_LOG_EVENT_EXIT_BIT :: u32 where "TBOX_LOG_EVENT_EXIT_BIT = 8"
definition LOG_LEVEL_WARN :: u8 where "LOG_LEVEL_WARN = 2"
definition LOG_LEVEL_ERROR :: u8 where "LOG_LEVEL_ERROR = 3"
definition LOG_LEVEL_NONE :: u8 where "LOG_LEVEL_NONE = 5"

text \<open>\<^verbatim>\<open>"DEBUG", "INFO", "WARN", "ERROR", "FATAL", "NONE"\<close>\<close>

definition level_str :: "u8 list list" where
  "level_str = [[68, 69, 66, 85, 71], [73, 78, 70, 79], [87, 65, 82, 78], [69, 82, 82, 79, 82], [70, 65, 84, 65, 76],
     [78, 79, 78, 69]]"

definition sizeof_log_header :: u32 where "sizeof_log_header = 4"

text \<open>
  \<open>log_buffer\<close> and \<open>temp_buffer\<close> are the addresses of the memory of the queue and of the three line buffers,
  whose contents are in \<open>log_queue\<close> and \<open>temp_bytes\<close>.
\<close>

record TBOX_LOG_MGR =
  log_queue :: cqueue_t
  log_buffer :: u32
  temp_buffer :: u32
  temp_bytes :: "u8 list"
  temp_pos :: u8
  log_mutex :: bool
  log_handle :: u32

record log_state =
  lg_core :: core_state
  lg_seq :: u8
  lg_mgr :: TBOX_LOG_MGR
  lg_out :: "u8 list list"

definition upd_log :: "(TBOX_LOG_MGR \<Rightarrow> TBOX_LOG_MGR) \<Rightarrow> log_state \<Rightarrow> log_state" where
  "upd_log f S = S\<lparr>lg_mgr := f (lg_mgr S)\<rparr>"

definition log_tasks :: "(tasks \<Rightarrow> tasks) \<Rightarrow> log_state \<Rightarrow> log_state" where
  "log_tasks f S = S\<lparr>lg_core := (lg_core S)\<lparr>core_tasks := f (core_tasks (lg_core S))\<rparr>\<rparr>"

definition log_memory :: "memory_state \<Rightarrow> log_state \<Rightarrow> log_state" where
  "log_memory M S = S\<lparr>lg_core := (lg_core S)\<lparr>core_messages := (core_messages (lg_core S))\<lparr>core_memory := M\<rparr>\<rparr>\<rparr>"

definition log_alloc :: "u32 \<Rightarrow> log_state \<Rightarrow> (log_state \<times> u32) option" where
  "log_alloc sz S = do {
     (M, p) \<leftarrow> tbox_memory_alloc (core_memory (core_messages (lg_core S))) TBOX_MEMORY_TYPE_CORE sz;
     Some (log_memory M S, p)
   }"

definition log_free :: "u32 \<Rightarrow> log_state \<Rightarrow> log_state option" where
  "log_free p S = do {
     M \<leftarrow> tbox_memory_free (core_memory (core_messages (lg_core S))) TBOX_MEMORY_TYPE_CORE p;
     Some (log_memory M S)
   }"

definition take_log :: "log_state \<Rightarrow> log_state option" where
  "take_log S = (if log_mutex (lg_mgr S) then Some S else None)"

section \<open>The queue\<close>

definition log_header_bytes :: "u16 \<Rightarrow> u8 list" where
  "log_header_bytes sz = le16 TBOX_LOG_MAGIC_NO @ le16 sz"

definition log_room :: "u16 \<Rightarrow> log_state \<Rightarrow> bool" where
  "log_room len S \<longleftrightarrow> sizeof_log_header + ucast len \<le> cqueue_surplus (log_queue (lg_mgr S))"

text \<open>The wait for room: \<open>env i\<close> is what the others do in the pause before look \<open>i\<close>.\<close>

fun put_retry :: "(nat \<Rightarrow> log_state \<Rightarrow> log_state) \<Rightarrow> u32 \<Rightarrow> u16 \<Rightarrow> nat \<Rightarrow> nat \<Rightarrow> log_state \<Rightarrow> (log_state \<times> bool) option" where
  "put_retry env handle len i 0 S = Some (S, False)"
| "put_retry env handle len i (Suc n) S = do {
     S \<leftarrow> take_log (env i (log_tasks (notify_task handle TBOX_LOG_EVENT_OUTPUT_BIT eSetBits) S));
     if log_room len S then Some (S, True) else put_retry env handle len (Suc i) n S
   }"

definition tbox_log_put_data :: "(nat \<Rightarrow> log_state \<Rightarrow> log_state) \<Rightarrow> u16 \<Rightarrow> (log_state \<Rightarrow> u8 list) \<Rightarrow> log_state \<Rightarrow>
    (log_state \<times> TBOX_ERROR_CODE) option" where
  "tbox_log_put_data env len data S = do {
     S \<leftarrow> take_log S;
     if \<not> log_room len S \<and> log_handle (lg_mgr S) = 0 then Some (S, TBOX_E_FAILED)
     else do {
       (S, canbe_put) \<leftarrow> (if log_room len S then Some (S, True)
         else put_retry env (log_handle (lg_mgr S)) len 0 TBOX_LOG_PUT_RETRY_COUNT S);
       if \<not> canbe_put then Some (S, TBOX_E_FAILED)
       else do {
         (q, _) \<leftarrow> cqueue_put (log_queue (lg_mgr S)) (log_header_bytes len) sizeof_log_header;
         (q, _) \<leftarrow> cqueue_put q (data S) (ucast len);
         Some (upd_log (\<lambda>m. m\<lparr>log_queue := q\<rparr>) S, TBOX_E_OK)
       }
     }
   }"

section \<open>Line buffers\<close>

text \<open>Taking \<open>n\<close> line buffers from the position on; \<open>None\<close> when they are not free.\<close>

definition log_begin :: "nat \<Rightarrow> log_state \<Rightarrow> (log_state \<times> (nat \<times> u32) option) option" where
  "log_begin n S = do {
     S \<leftarrow> take_log S;
     let pos = unat (temp_pos (lg_mgr S));
     if pos + (n - 1) \<ge> TBOX_LOG_TEMP_BUFF_COUNT then Some (S, None)
     else Some (upd_log (\<lambda>m. m\<lparr>temp_pos := temp_pos m + of_nat n\<rparr>) S, Some (pos, log_handle (lg_mgr S)))
   }"

definition log_end :: "nat \<Rightarrow> log_state \<Rightarrow> log_state option" where
  "log_end n S = do {
     S \<leftarrow> take_log S;
     Some (upd_log (\<lambda>m. m\<lparr>temp_pos := temp_pos m - of_nat n\<rparr>) S)
   }"

definition line_bytes :: "nat \<Rightarrow> log_state \<Rightarrow> u8 list" where
  "line_bytes slot S = drop (slot * TBOX_LOG_LINEBUFF_SIZE) (temp_bytes (lg_mgr S))"

text \<open>Bytes at an offset of a line buffer; \<open>None\<close> when they do not fit in that buffer, or the buffer is none of the three.\<close>

definition write_line :: "nat \<Rightarrow> nat \<Rightarrow> u8 list \<Rightarrow> log_state \<Rightarrow> log_state option" where
  "write_line slot off bs S =
     (if off + length bs \<le> TBOX_LOG_LINEBUFF_SIZE \<and> slot * TBOX_LOG_LINEBUFF_SIZE + off + length bs \<le> length (temp_bytes (lg_mgr S))
      then Some (upd_log (\<lambda>m. m\<lparr>temp_bytes := blit (temp_bytes m) (slot * TBOX_LOG_LINEBUFF_SIZE + off) bs\<rparr>) S)
      else None)"

text \<open>\<^verbatim>\<open>snprintf\<close> into \<open>n\<close> bytes, and \<^verbatim>\<open>memset\<close> of a whole line buffer.\<close>

definition print_to :: "nat \<Rightarrow> u8 list \<Rightarrow> u8 list" where
  "print_to n text = take (n - 1) text @ [0]"

definition clear_line :: "nat \<Rightarrow> log_state \<Rightarrow> log_state option" where
  "clear_line slot = write_line slot 0 (replicate TBOX_LOG_LINEBUFF_SIZE 0)"

definition text_length :: "nat \<Rightarrow> log_state \<Rightarrow> u16" where
  "text_length slot S = of_nat (length (c_string (line_bytes slot S)))"

section \<open>Writing a line\<close>

text \<open>The line goes into the queue, or, when there is no room for it, straight out.\<close>

definition log_submit :: "(nat \<Rightarrow> log_state \<Rightarrow> log_state) \<Rightarrow> u32 \<Rightarrow> nat \<Rightarrow> u16 \<Rightarrow> log_state \<Rightarrow> log_state option" where
  "log_submit env handle slot len S = do {
     (S, ret) \<leftarrow> tbox_log_put_data env len (line_bytes slot) S;
     if ret = TBOX_E_OK
     then Some (if handle \<noteq> 0 then log_tasks (notify_task handle TBOX_LOG_EVENT_OUTPUT_BIT eSetBits) S else S)
     else Some (S\<lparr>lg_out := lg_out S @ [take (unat len) (line_bytes slot S)]\<rparr>)
   }"

definition log_format :: "nat \<Rightarrow> u8 list \<Rightarrow> log_state \<Rightarrow> log_state option" where
  "log_format slot text S = do {
     S \<leftarrow> clear_line slot S;
     write_line slot 0 (print_to (TBOX_LOG_LINEBUFF_SIZE - 1) text) S
   }"

definition tbox_log_print :: "(nat \<Rightarrow> log_state \<Rightarrow> log_state) \<Rightarrow> u8 list \<Rightarrow> log_state \<Rightarrow> log_state option" where
  "tbox_log_print env text S =
     (if lg_seq S \<noteq> TBOX_LOG_SEQ_START then Some S
      else do {
        (S, slot) \<leftarrow> log_begin 1 S;
        case slot of
          None \<Rightarrow> Some S
        | Some (p, handle) \<Rightarrow> do {
            S \<leftarrow> log_format p text S;
            S \<leftarrow> log_submit env handle p (text_length p S) S;
            log_end 1 S
          }
      })"

text \<open>Decimal and hexadecimal numbers.\<close>

fun dec_nat :: "nat \<Rightarrow> u8 list" where
  "dec_nat n = (if n < 10 then [48 + of_nat n] else dec_nat (n div 10) @ [48 + of_nat (n mod 10)])"

definition dec_int :: "int \<Rightarrow> u8 list" where
  "dec_int i = (if i < 0 then 45 # dec_nat (nat (- i)) else dec_nat (nat i))"

definition hex_digit :: "nat \<Rightarrow> u8" where
  "hex_digit n = (if n < 10 then 48 + of_nat n else 87 + of_nat n)"

definition hex8 :: "u8 \<Rightarrow> u8 list" where
  "hex8 b = [hex_digit (unat b div 16), hex_digit (unat b mod 16)]"

definition hex32 :: "u32 \<Rightarrow> u8 list" where
  "hex32 w = concat (map hex8 (rev (le32 w)))"

text \<open>\<^verbatim>\<open>"[%s %s:%d][%s]"\<close>\<close>

definition log_prefix :: "u8 list \<Rightarrow> u8 list \<Rightarrow> int \<Rightarrow> u8 list \<Rightarrow> u8 list" where
  "log_prefix name fn line level = [91] @ name @ [32] @ fn @ [58] @ dec_int line @ [93, 91] @ level @ [93]"

text \<open>\<^verbatim>\<open>config = {.name = NULL_PTR, .log_level = LOG_LEVEL_NONE}\<close>, and what the module manager makes of it.\<close>

definition log_config :: "TBOX_ID \<Rightarrow> log_state \<Rightarrow> TBOX_MODULE_INFO option" where
  "log_config module_id S = do {
     c \<leftarrow> tbox_module_get_config module_id (Some (zero_info\<lparr>in_log_level := LOG_LEVEL_NONE\<rparr>)) (lg_core S);
     c
   }"

definition format_output :: "nat \<Rightarrow> u8 list \<Rightarrow> u8 list \<Rightarrow> log_state \<Rightarrow> (log_state \<times> u16) option" where
  "format_output slot prefix text S = do {
     S \<leftarrow> log_format slot prefix S;
     let n = unat (text_length slot S);
     S \<leftarrow> (if n < TBOX_LOG_LINEBUFF_SIZE - 1
           then write_line slot n (print_to (TBOX_LOG_LINEBUFF_SIZE - 1 - n) text) S else Some S);
     let n = unat (text_length slot S);
     if n \<le> TBOX_LOG_LINEBUFF_SIZE - 3
     then do { S \<leftarrow> write_line slot n [13, 10, 0] S; Some (S, of_nat (n + 3)) }
     else Some (S, of_nat n)
   }"

definition tbox_log_output :: "(nat \<Rightarrow> log_state \<Rightarrow> log_state) \<Rightarrow> TBOX_ID \<Rightarrow> u32 \<Rightarrow> u8 list \<Rightarrow> int \<Rightarrow> u8 list \<Rightarrow> log_state \<Rightarrow>
    log_state option" where
  "tbox_log_output env module_id level fn line text S =
     (if lg_seq S \<noteq> TBOX_LOG_SEQ_START then Some S
      else do {
        config \<leftarrow> log_config module_id S;
        if in_name config = 0 \<or> level \<ge> ucast LOG_LEVEL_NONE \<or> (ucast level :: u8) < in_log_level config then Some S
        else do {
          (S, slot) \<leftarrow> log_begin 1 S;
          case slot of
            None \<Rightarrow> Some S
          | Some (p, handle) \<Rightarrow> do {
              lvl \<leftarrow> rd level_str (unat level);
              (S, len) \<leftarrow> format_output p
                (log_prefix (strings (core_messages (lg_core S)) (in_name config)) fn line lvl) text S;
              S \<leftarrow> log_submit env handle p len S;
              log_end 1 S
            }
        }
      })"

section \<open>Dumping bytes\<close>

text \<open>A line of up to 16 bytes: \<^verbatim>\<open>"0x%08x  "\<close>, then \<^verbatim>\<open>"%02x "\<close> for each, blanks, and the end of the line.\<close>

definition dump_text :: "u32 \<Rightarrow> u8 list \<Rightarrow> u8 list" where
  "dump_text a bs = [48, 120] @ hex32 a @ [32, 32] @ concat (map (\<lambda>b. hex8 b @ [32]) bs) @
     replicate (3 * (16 - length bs)) 32 @ [13, 10]"

definition tbox_log_copydata_to_linebuffer :: "u16 \<Rightarrow> u8 list \<Rightarrow> u8 list" where
  "tbox_log_copydata_to_linebuffer cur_len src = take (TBOX_LOG_LINEBUFF_SIZE - unat cur_len) (c_string src)"

definition dump_submit :: "(nat \<Rightarrow> log_state \<Rightarrow> log_state) \<Rightarrow> u32 \<Rightarrow> nat \<Rightarrow> u16 \<Rightarrow> log_state \<Rightarrow> (log_state \<times> u16) option" where
  "dump_submit env handle slot len S = do {
     (S, ret) \<leftarrow> tbox_log_put_data env len (line_bytes slot) S;
     if ret = TBOX_E_OK
     then Some (if handle \<noteq> 0 then log_tasks (notify_task handle TBOX_LOG_EVENT_OUTPUT_BIT eSetBits) S else S, 0)
     else Some (S, len)
   }"

text \<open>The line is formatted in the second buffer; the first is sent when the line does not fit behind it.\<close>

definition dump_line :: "(nat \<Rightarrow> log_state \<Rightarrow> log_state) \<Rightarrow> u32 \<Rightarrow> nat \<Rightarrow> u8 list \<Rightarrow> log_state \<times> u16 \<Rightarrow> (log_state \<times> u16) option" where
  "dump_line env handle slot text = (\<lambda>(S, len). do {
     S \<leftarrow> write_line (slot + 1) 0 (text @ [0]) S;
     (S, len) \<leftarrow> (if unat len + length text \<ge> TBOX_LOG_LINEBUFF_SIZE - 1 then dump_submit env handle slot len S
                  else Some (S, len));
     let copied = tbox_log_copydata_to_linebuffer len (line_bytes (slot + 1) S);
     S \<leftarrow> write_line slot (unat len) copied S;
     Some (S, len + of_nat (length copied))
   })"

text \<open>The loop over the lines of 16 bytes, and the rest.\<close>

fun dump_lines :: "(nat \<Rightarrow> log_state \<Rightarrow> log_state) \<Rightarrow> u32 \<Rightarrow> nat \<Rightarrow> u32 \<Rightarrow> u8 list \<Rightarrow> nat \<Rightarrow> log_state \<times> u16 \<Rightarrow> (log_state \<times> u16) option" where
  "dump_lines env handle slot a data 0 SL =
     (if data = [] then Some SL else dump_line env handle slot (dump_text a data) SL)"
| "dump_lines env handle slot a data (Suc n) SL = do {
     SL \<leftarrow> dump_line env handle slot (dump_text a (take 16 data)) SL;
     dump_lines env handle slot (a + 16) (drop 16 data) n SL
   }"

text \<open>\<^verbatim>\<open>"\r\n[%s]dump info:%s, len %u\r\n"\<close>\<close>

definition dump_title :: "u8 list \<Rightarrow> u8 list \<Rightarrow> nat \<Rightarrow> u8 list" where
  "dump_title name tag len = [13, 10, 91] @ name @ [93, 100, 117, 109, 112, 32, 105, 110, 102, 111, 58] @ tag @
     [44, 32, 108, 101, 110, 32] @ dec_nat len @ [13, 10]"

definition tbox_log_dump :: "(nat \<Rightarrow> log_state \<Rightarrow> log_state) \<Rightarrow> TBOX_ID \<Rightarrow> u8 list \<Rightarrow> u32 \<Rightarrow> u8 list \<Rightarrow> u16 \<Rightarrow> log_state \<Rightarrow>
    log_state option" where
  "tbox_log_dump env module_id tag a data len S =
     (if lg_seq S \<noteq> TBOX_LOG_SEQ_START then Some S
      else do {
        config \<leftarrow> log_config module_id S;
        if in_name config = 0 \<or> in_log_level config \<ge> LOG_LEVEL_WARN then Some S
        else do {
          (S, slot) \<leftarrow> log_begin 2 S;
          case slot of
            None \<Rightarrow> Some S
          | Some (p, handle) \<Rightarrow> if length data < unat len then None else do {
              S \<leftarrow> clear_line (p + 1) S;
              S \<leftarrow> log_format p (dump_title (strings (core_messages (lg_core S)) (in_name config)) tag (unat len)) S;
              (S, sz) \<leftarrow> dump_lines env handle p a (take (unat len) data) (unat len div 16) (S, text_length p S);
              (S, _) \<leftarrow> (if sz > 0 then dump_submit env handle p sz S else Some (S, sz));
              log_end 2 S
            }
        }
      })"

section \<open>The task\<close>

text \<open>
  One turn of the inner loop, in its two critical sections: a line is taken out of the queue into the
  task's buffer \<open>buf\<close>, and when it has been printed the position goes back. A damaged queue is emptied.
\<close>

definition log_take :: "u8 list \<Rightarrow> log_state \<Rightarrow> (log_state \<times> u8 list \<times> u16 option) option" where
  "log_take buf S = do {
     S \<leftarrow> take_log S;
     let q = log_queue (lg_mgr S);
     let reset = upd_log (\<lambda>m. m\<lparr>log_queue := q\<lparr>cq_in := 0, cq_out := 0\<rparr>\<rparr>) S;
     if cqueue_datalen q < sizeof_log_header then Some (S, buf, None)
     else do {
       (q, h, _) \<leftarrow> cqueue_get q (replicate 4 0) sizeof_log_header;
       let sz = get16 (drop 2 h);
       if get16 h \<noteq> TBOX_LOG_MAGIC_NO \<or> unat sz > TBOX_LOG_LINEBUFF_SIZE \<or> cqueue_datalen q < ucast sz
       then Some (reset, buf, None)
       else do {
         (q, buf, _) \<leftarrow> cqueue_get q buf (ucast sz);
         Some (upd_log (\<lambda>m. m\<lparr>log_queue := q, temp_pos := temp_pos m + 1\<rparr>) S, buf, Some sz)
       }
     }
   }"

text \<open>The inner loop; \<open>env\<close> is what the others do while a line is printed.\<close>

partial_function (option) log_drain :: "(log_state \<Rightarrow> log_state) \<Rightarrow> u8 list \<Rightarrow> log_state \<Rightarrow> (log_state \<times> u8 list) option" where
  "log_drain env buf S = do {
     (S, buf, sz) \<leftarrow> log_take buf S;
     case sz of
       None \<Rightarrow> Some (S, buf)
     | Some sz \<Rightarrow> do {
         S \<leftarrow> log_end 1 (env (S\<lparr>lg_out := lg_out S @ [take (unat sz) buf]\<rparr>));
         log_drain env buf S
       }
   }"

text \<open>One round after the wait; \<open>None\<close> as time to wait when the task ends.\<close>

definition log_round :: "(log_state \<Rightarrow> log_state) \<Rightarrow> u32 \<Rightarrow> u32 \<Rightarrow> u8 list \<Rightarrow> log_state \<Rightarrow> (log_state \<times> u8 list \<times> u32 option) option" where
  "log_round env event_bits wait_tick buf S =
     (if event_bits AND TBOX_LOG_EVENT_EXIT_BIT = TBOX_LOG_EVENT_EXIT_BIT then Some (S, buf, None)
      else let wait_tick = (if event_bits AND TBOX_LOG_EVENT_START_BIT = TBOX_LOG_EVENT_START_BIT then 500 else wait_tick) in
        if event_bits AND TBOX_LOG_EVENT_STOP_BIT = TBOX_LOG_EVENT_STOP_BIT then Some (S, buf, Some (- 1))
        else do { (S, buf) \<leftarrow> log_drain env buf S; Some (S, buf, Some wait_tick) })"

definition log_leave :: "u32 \<Rightarrow> log_state \<Rightarrow> log_state option" where
  "log_leave self S = do {
     S \<leftarrow> take_log S;
     Some (log_tasks (vTaskDelete self) (upd_log (\<lambda>m. m\<lparr>log_handle := 0\<rparr>) S))
   }"

definition log_task_start :: "u32 \<Rightarrow> log_state \<Rightarrow> (log_state \<times> u32) option" where
  "log_task_start self S = do {
     (S, p) \<leftarrow> log_alloc (of_nat TBOX_LOG_LINEBUFF_SIZE) S;
     if p = 0 then do { S \<leftarrow> log_leave self S; Some (S, 0) } else Some (S, p)
   }"

definition log_task_end :: "u32 \<Rightarrow> u32 \<Rightarrow> log_state \<Rightarrow> log_state option" where
  "log_task_end self temp_ptr S = do { S \<leftarrow> log_free temp_ptr S; log_leave self S }"

section \<open>Set-up, start and stop\<close>

text \<open>
  \<open>mutex\<close> and \<open>created\<close>: the kernel's answers. When the task cannot be created, the mutex is cleared before it is
  deleted.
\<close>

definition tbox_log_init :: "bool \<Rightarrow> u32 option \<Rightarrow> log_state \<Rightarrow> (log_state \<times> TBOX_ERROR_CODE) option" where
  "tbox_log_init mutex created S =
     (if lg_seq S \<noteq> TBOX_LOG_SEQ_NOINIT then Some (S, TBOX_E_HASINIT)
      else do {
        let S = upd_log (\<lambda>m. m\<lparr>log_mutex := False, log_handle := 0\<rparr>) (S\<lparr>lg_seq := TBOX_LOG_SEQ_STOP\<rparr>);
        let sz = of_nat (TBOX_LOG_ITEM_MAX_NUM * TBOX_LOG_LINEBUFF_SIZE);
        (S, buffer) \<leftarrow> log_alloc sz S;
        if buffer = 0 then Some (S, TBOX_E_FAILED_ALLOC)
        else do {
          let S = upd_log (\<lambda>m. m\<lparr>log_queue := fst (cqueue_init (log_queue m) (replicate (unat sz) 0) sz),
            log_buffer := buffer\<rparr>) S;
          let sz = of_nat (TBOX_LOG_TEMP_BUFF_COUNT * TBOX_LOG_LINEBUFF_SIZE);
          (S, temp) \<leftarrow> log_alloc sz S;
          let S = upd_log (\<lambda>m. m\<lparr>temp_buffer := temp\<rparr>) S;
          if temp = 0 then do { S \<leftarrow> log_free buffer S; Some (S, TBOX_E_FAILED_ALLOC) }
          else do {
            let S = upd_log (\<lambda>m. m\<lparr>temp_bytes := replicate (unat sz) 0, temp_pos := 0, log_mutex := mutex\<rparr>) S;
            if \<not> mutex then do { S \<leftarrow> log_free buffer S; S \<leftarrow> log_free temp S; Some (S, TBOX_E_FAILED_CREATE) }
            else case created of
              None \<Rightarrow> None
            | Some h \<Rightarrow> Some (log_tasks (xTaskCreated h) (upd_log (\<lambda>m. m\<lparr>log_handle := h\<rparr>) S), TBOX_E_OK)
          }
        }
      })"

fun log_end_looks :: "(nat \<Rightarrow> log_state \<Rightarrow> log_state) \<Rightarrow> nat \<Rightarrow> nat \<Rightarrow> u32 \<Rightarrow> log_state \<Rightarrow> (log_state \<times> bool) option" where
  "log_end_looks env i 0 h S = Some (S, False)"
| "log_end_looks env i (Suc n) h S =
     (if gone (core_tasks (lg_core S)) h
      then do { S \<leftarrow> take_log S; Some (upd_log (\<lambda>m. m\<lparr>log_handle := 0\<rparr>) S, True) }
      else do {
        S \<leftarrow> take_log (env i S);
        let h = log_handle (lg_mgr S);
        if h = 0 then Some (S, True) else log_end_looks env (Suc i) n h S
      })"

definition end_log_task :: "(nat \<Rightarrow> log_state \<Rightarrow> log_state) \<Rightarrow> log_state \<Rightarrow> log_state option" where
  "end_log_task env S = (let h = log_handle (lg_mgr S) in
     if h = 0 then Some S
     else do {
       (S, ended) \<leftarrow> log_end_looks env 0 4 h (log_tasks (notify_task h TBOX_LOG_EVENT_EXIT_BIT eSetBits) S);
       if ended then Some S
       else do {
         S \<leftarrow> take_log S;
         let h = log_handle (lg_mgr S);
         Some (log_tasks (tbox_task_delete_task_by_handle h) (upd_log (\<lambda>m. m\<lparr>log_handle := 0\<rparr>) S))
       }
     })"

definition tbox_log_deinit :: "(nat \<Rightarrow> log_state \<Rightarrow> log_state) \<Rightarrow> log_state \<Rightarrow> log_state option" where
  "tbox_log_deinit env S =
     (if lg_seq S = TBOX_LOG_SEQ_NOINIT then Some S
      else do {
        S \<leftarrow> end_log_task env S;
        S \<leftarrow> (if log_mutex (lg_mgr S)
              then do {
                S \<leftarrow> log_free (log_buffer (lg_mgr S)) S;
                let S = upd_log (\<lambda>m. m\<lparr>log_queue := fst (cqueue_init (log_queue m) [] 0)\<rparr>) S;
                S \<leftarrow> (if temp_buffer (lg_mgr S) \<noteq> 0
                      then do { S \<leftarrow> log_free (temp_buffer (lg_mgr S)) S;
                        Some (upd_log (\<lambda>m. m\<lparr>temp_buffer := 0, temp_pos := 0\<rparr>) S) }
                      else Some S);
                Some (upd_log (\<lambda>m. m\<lparr>log_mutex := False\<rparr>) S)
              }
              else Some S);
        Some (S\<lparr>lg_seq := TBOX_LOG_SEQ_NOINIT\<rparr>)
      })"

definition tbox_log_start :: "log_state \<Rightarrow> (log_state \<times> TBOX_ERROR_CODE) option" where
  "tbox_log_start S =
     (if lg_seq S = TBOX_LOG_SEQ_NOINIT \<or> lg_seq S = TBOX_LOG_SEQ_START then Some (S, TBOX_E_HASSTART)
      else do {
        S \<leftarrow> take_log S;
        let h = log_handle (lg_mgr S);
        if h = 0 then Some (S, TBOX_E_NOINIT)
        else if gone (core_tasks (lg_core S)) h then Some (upd_log (\<lambda>m. m\<lparr>log_handle := 0\<rparr>) S, TBOX_E_NOEXISTS)
        else Some ((log_tasks (\<lambda>T. notify_task h TBOX_LOG_EVENT_START_BIT eSetBits
            (if task_state T h = eSuspended then T\<lparr>task_state := (task_state T)(h := eReady)\<rparr> else T)) S)
          \<lparr>lg_seq := TBOX_LOG_SEQ_START\<rparr>, TBOX_E_OK)
      })"

definition tbox_log_stop :: "log_state \<Rightarrow> log_state option" where
  "tbox_log_stop S =
     (if lg_seq S \<noteq> TBOX_LOG_SEQ_START then Some S
      else do {
        S \<leftarrow> take_log S;
        let h = log_handle (lg_mgr S);
        if h = 0 then Some S
        else if gone (core_tasks (lg_core S)) h then Some (upd_log (\<lambda>m. m\<lparr>log_handle := 0\<rparr>) S)
        else Some ((log_tasks (notify_task h TBOX_LOG_EVENT_STOP_BIT eSetBits)
            (upd_log (\<lambda>m. m\<lparr>log_queue := fst (cqueue_discard (log_queue m)
              (of_nat (TBOX_LOG_ITEM_MAX_NUM * TBOX_LOG_LINEBUFF_SIZE)))\<rparr>) S))\<lparr>lg_seq := TBOX_LOG_SEQ_STOP\<rparr>)
      })"

end
