(* ===== verification/LogClaims.thy ===== *)
theory LogClaims imports Log Frames MsgBusClaims begin

text \<open>
  The properties of the log: its calls return and stay inside their buffers, the task prints the lines in the
  order they were queued, and two lines can end up in the same buffer.
\<close>

section \<open>The queue of lines\<close>

definition line_frame :: "u8 list \<Rightarrow> u8 list" where
  "line_frame l = log_header_bytes (of_nat (length l)) @ l"

definition lines_in :: "log_state \<Rightarrow> u8 list list \<Rightarrow> bool" where
  "lines_in S ls \<longleftrightarrow> framed_by line_frame 2048 (log_queue (lg_mgr S)) ls \<and> list_all (\<lambda>l. length l \<le> TBOX_LOG_LINEBUFF_SIZE) ls"

text \<open>Set up: the mutex exists, there are three line buffers, and the queue holds whole lines.\<close>

definition log_ok :: "log_state \<Rightarrow> bool" where
  "log_ok S \<longleftrightarrow> log_mutex (lg_mgr S) \<and> length (temp_bytes (lg_mgr S)) = 768 \<and> (\<exists>ls. lines_in S ls)"

lemma log_sizes [simp]:
  "TBOX_LOG_LINEBUFF_SIZE = 256" "TBOX_LOG_TEMP_BUFF_COUNT = 3" "unat sizeof_log_header = 4" "length (log_header_bytes n) = 4"
  by (simp_all add: TBOX_LOG_LINEBUFF_SIZE_def TBOX_LOG_TEMP_BUFF_COUNT_def sizeof_log_header_def log_header_bytes_def)

lemma log_simps [simp]:
  "lg_mgr (upd_log f S) = f (lg_mgr S)" "lg_core (upd_log f S) = lg_core S" "lg_seq (upd_log f S) = lg_seq S"
  "lg_out (upd_log f S) = lg_out S" "lg_mgr (log_tasks g S) = lg_mgr S" "lg_seq (log_tasks g S) = lg_seq S"
  "lg_out (log_tasks g S) = lg_out S"
  by (simp_all add: upd_log_def log_tasks_def)

lemma log_ok_simps [simp]:
  "log_ok (log_tasks g S) = log_ok S" "log_ok (S\<lparr>lg_out := out\<rparr>) = log_ok S"
  "log_ok (upd_log (\<lambda>m. m\<lparr>temp_pos := f m\<rparr>) S) = log_ok S"
  by (simp_all add: log_ok_def lines_in_def)

lemma take_log_ok: "log_ok S \<Longrightarrow> take_log S = Some S"
  by (simp add: take_log_def log_ok_def)

lemma small_len: "n \<le> 256 \<Longrightarrow> unat (of_nat n :: u16) = n" "unat (l :: u16) \<le> 256 \<Longrightarrow> unat (ucast l :: u32) = unat l"
  by (simp_all add: unat_of_nat unat_ucast16)

lemma room_sum: "unat (len :: u16) \<le> 256 \<Longrightarrow> unat (sizeof_log_header + ucast len :: u32) = 4 + unat len"
  by (subst unat_plus_if_fits) (auto simp: unat_ucast16)

lemma log_room_iff:
  "lines_in S ls \<Longrightarrow> unat len \<le> 256 \<Longrightarrow> log_room len S \<longleftrightarrow> frames_total line_frame ls + 4 + unat len \<le> 2048"
  using framed_room [of line_frame 2048 "log_queue (lg_mgr S)" ls "sizeof_log_header + ucast len"] room_sum [of len]
  by (simp add: lines_in_def log_room_def)

lemma put_retry_ok:
  assumes "\<And>i S. log_ok S \<Longrightarrow> log_ok (env i S)"
  shows "log_ok S \<Longrightarrow> \<exists>S' b. put_retry env h len i n S = Some (S', b) \<and> log_ok S' \<and> (b \<longrightarrow> log_room len S')"
proof (induction n arbitrary: i S)
  case (Suc n)
  let ?S = "env i (log_tasks (notify_task h TBOX_LOG_EVENT_OUTPUT_BIT eSetBits) S)"
  have S: "log_ok ?S" "take_log ?S = Some ?S" using assms Suc.prems take_log_ok by simp_all
  show ?case using S Suc.IH [OF S(1), of "Suc i"] by (cases "log_room len ?S") auto
qed auto

text \<open>What goes into the queue is what the buffer holds at that moment, cut to the length.\<close>

lemma put_line:
  assumes S: "lines_in S ls" and r: "log_room len S" and d: "unat len \<le> 256" "unat len \<le> length data"
  shows "\<exists>q1 n1 q2 n2. cqueue_put (log_queue (lg_mgr S)) (log_header_bytes len) sizeof_log_header = Some (q1, n1) \<and>
     cqueue_put q1 data (ucast len) = Some (q2, n2) \<and> lines_in (upd_log (\<lambda>m. m\<lparr>log_queue := q2\<rparr>) S) (ls @ [take (unat len) data])"
proof -
  let ?l = "take (unat len) data"
  have l: "length ?l = unat len" "(of_nat (length ?l) :: u16) = len" using d(2) by simp_all
  have fl: "unat (ucast len :: u32) = unat len" using d(1) small_len(2) by blast
  have x: "line_frame ?l = log_header_bytes len @ take (unat (ucast len :: u32)) data" using l(2) fl by (simp add: line_frame_def)
  have Q: "framed_by line_frame 2048 (log_queue (lg_mgr S)) ls" using S by (simp add: lines_in_def)
  have room: "frames_total line_frame (ls @ [?l]) \<le> unat (2048 :: u32)"
    using log_room_iff [OF S d(1)] r l(1) by (simp add: line_frame_def)
  obtain q1 n1 q2 n2 where "cqueue_put (log_queue (lg_mgr S)) (log_header_bytes len) sizeof_log_header = Some (q1, n1)"
      "cqueue_put q1 data (ucast len) = Some (q2, n2)" "framed_by line_frame 2048 q2 (ls @ [?l])"
    using framed_put [OF Q x, where hl = sizeof_log_header] room d(2) fl by auto
  then show ?thesis using S d by (auto simp: lines_in_def)
qed

lemma put_data_ok:
  assumes env: "\<And>i S. log_ok S \<Longrightarrow> log_ok (env i S)" and S: "log_ok S" and len: "unat len \<le> 256"
    and data: "\<And>S. log_ok S \<Longrightarrow> unat len \<le> length (data S)"
  shows "\<exists>S' e. tbox_log_put_data env len data S = Some (S', e) \<and> log_ok S'"
proof -
  have put: "\<exists>S'. (do {
         (q, _) \<leftarrow> cqueue_put (log_queue (lg_mgr S1)) (log_header_bytes len) sizeof_log_header;
         (q, _) \<leftarrow> cqueue_put q (data S1) (ucast len);
         Some (upd_log (\<lambda>m. m\<lparr>log_queue := q\<rparr>) S1, TBOX_E_OK)
       }) = Some (S', TBOX_E_OK) \<and> log_ok S'" if S1: "log_ok S1" "log_room len S1" for S1
  proof -
    obtain ls where ls: "lines_in S1 ls" using S1(1) by (auto simp: log_ok_def)
    from put_line [OF ls S1(2) len data [OF S1(1)]] S1(1) show ?thesis by (auto simp: log_ok_def)
  qed
  obtain S2 b where r: "put_retry env (log_handle (lg_mgr S)) len 0 TBOX_LOG_PUT_RETRY_COUNT S = Some (S2, b)" "log_ok S2"
      "b \<longrightarrow> log_room len S2"
    using put_retry_ok [of env S, OF env S] by blast
  show ?thesis
  proof (cases "log_room len S")
    case True
    then show ?thesis using put [OF S] take_log_ok [OF S] by (auto simp: tbox_log_put_data_def)
  next
    case False
    then show ?thesis using put [of S2] r take_log_ok [OF S] S
      by (cases b) (auto simp: tbox_log_put_data_def)
  qed
qed

section \<open>Line buffers\<close>

lemma line_bytes_length: "log_ok S \<Longrightarrow> length (line_bytes slot S) = 768 - slot * 256"
  by (simp add: line_bytes_def log_ok_def)

lemma slot_room: "slot < 3 \<Longrightarrow> n \<le> 256 \<Longrightarrow> slot * 256 + n \<le> (768 :: nat)"
  by auto

lemma write_line_ok:
  assumes "log_ok S" and "slot < 3" and "off + length bs \<le> 256"
  shows "\<exists>S'. write_line slot off bs S = Some S' \<and> log_ok S' \<and> lg_core S' = lg_core S \<and>
     line_bytes slot S' = take off (line_bytes slot S) @ bs @ drop (off + length bs) (line_bytes slot S)"
proof -
  let ?b = "temp_bytes (lg_mgr S)" and ?at = "slot * 256 + off"
  let ?S = "upd_log (\<lambda>m. m\<lparr>temp_bytes := blit (temp_bytes m) ?at bs\<rparr>) S"
  have n: "length ?b = 768" using assms(1) by (simp add: log_ok_def)
  have fit: "?at + length bs \<le> 768" using slot_room [OF assms(2,3)] by simp
  have w: "write_line slot off bs S = Some ?S" using fit n assms(3) by (simp add: write_line_def)
  have "drop (slot * 256) (blit ?b ?at bs) = take off (drop (slot * 256) ?b) @ bs @ drop (off + length bs) (drop (slot * 256) ?b)"
    using fit n by (simp add: blit_def drop_take ac_simps min_absorb2)
  then have l: "line_bytes slot ?S = take off (line_bytes slot S) @ bs @ drop (off + length bs) (line_bytes slot S)"
    by (simp add: line_bytes_def)
  have "length (blit ?b ?at bs) = 768" using fit n by (simp add: blit_def)
  then have "log_ok ?S" using assms(1) by (simp add: log_ok_def lines_in_def)
  then show ?thesis using w l by simp
qed

lemma c_string_bound: "n < length bs \<Longrightarrow> bs ! n = 0 \<Longrightarrow> length (c_string bs) \<le> n"
proof (rule ccontr)
  assume n: "n < length bs" "bs ! n = 0" "\<not> length (c_string bs) \<le> n"
  then have "c_string bs ! n \<in> set (c_string bs)" by (intro nth_mem) simp
  moreover have "c_string bs ! n = bs ! n" using n(3) unfolding c_string_def by (simp add: takeWhile_nth)
  ultimately show False using n(2) unfolding c_string_def by (metis set_takeWhileD)
qed

lemma text_length_val:
  "length (c_string (line_bytes slot S)) \<le> 256 \<Longrightarrow> unat (text_length slot S) = length (c_string (line_bytes slot S))"
  by (simp add: text_length_def small_len(1))

section \<open>Formatting\<close>

lemma print_to_length: "0 < n \<Longrightarrow> length (print_to n text) \<le> n"
  by (simp add: print_to_def)

lemma print_to_end: "print_to n text ! (length (print_to n text) - 1) = 0" "print_to n text \<noteq> []"
  by (simp_all add: print_to_def nth_append)

text \<open>After a text was printed at offset \<open>off\<close>, the string in the buffer ends behind it at the latest.\<close>

lemma printed_string:
  assumes S: "log_ok S" "slot < 3" and off: "0 < n" "off + n \<le> 256"
  shows "\<exists>S'. write_line slot off (print_to n text) S = Some S' \<and> log_ok S' \<and> lg_core S' = lg_core S \<and>
     length (c_string (line_bytes slot S')) < off + n"
proof -
  let ?t = "print_to n text"
  have l: "off + length ?t \<le> 256" using off print_to_length [OF off(1), of "text"] by simp
  obtain S' where S': "write_line slot off ?t S = Some S'" "log_ok S'" "lg_core S' = lg_core S"
      "line_bytes slot S' = take off (line_bytes slot S) @ ?t @ drop (off + length ?t) (line_bytes slot S)"
    using write_line_ok [OF S l] by blast
  have room: "256 \<le> length (line_bytes slot S)" using line_bytes_length [OF S(1), of slot] S(2) by auto
  then have before: "length (take off (line_bytes slot S)) = off" using l by simp
  let ?k = "off + (length ?t - 1)"
  have t: "0 < length ?t" using print_to_end(2) by blast
  have "line_bytes slot S' ! ?k = 0" using before t print_to_end(1) [of n "text"] unfolding S'(4) by (simp add: nth_append)
  moreover have "length (line_bytes slot S') = length (line_bytes slot S)"
    using before room l unfolding S'(4) by simp
  then have "?k < length (line_bytes slot S')" using room l t by linarith
  ultimately have "length (c_string (line_bytes slot S')) \<le> ?k" by (intro c_string_bound)
  then have "length (c_string (line_bytes slot S')) < off + n"
    using print_to_length [OF off(1), of "text"] t by linarith
  then show ?thesis using S' by blast
qed

lemma format_ok:
  assumes "log_ok S" and "slot < 3"
  shows "\<exists>S'. log_format slot text S = Some S' \<and> log_ok S' \<and> lg_core S' = lg_core S \<and>
     length (c_string (line_bytes slot S')) \<le> 254"
proof -
  obtain S1 where S1: "clear_line slot S = Some S1" "log_ok S1" "lg_core S1 = lg_core S"
    using write_line_ok [OF assms, of 0 "replicate 256 0"] by (auto simp: clear_line_def)
  from printed_string [OF S1(2) assms(2), of 255 0 "text"] S1 show ?thesis
    by (auto simp: log_format_def less_Suc_eq_le [symmetric])
qed

lemma format_output_ok:
  assumes "log_ok S" and "slot < 3"
  shows "\<exists>S' len. format_output slot prefix text S = Some (S', len) \<and> log_ok S' \<and> lg_core S' = lg_core S \<and> unat len \<le> 256"
proof -
  obtain S1 where S1: "log_format slot prefix S = Some S1" "log_ok S1" "lg_core S1 = lg_core S"
      "length (c_string (line_bytes slot S1)) \<le> 254" using format_ok [OF assms] by blast
  define n where "n = unat (text_length slot S1)"
  have n: "n \<le> 254" "n = length (c_string (line_bytes slot S1))" using S1(4) text_length_val [of slot S1] by (simp_all add: n_def)
  obtain S2 where S2: "write_line slot n (print_to (255 - n) text) S1 = Some S2"
      "log_ok S2" "lg_core S2 = lg_core S" "length (c_string (line_bytes slot S2)) \<le> 254"
    using printed_string [OF S1(2) assms(2), of "255 - n" n "text"] S1(3) n(1) by auto
  define m where "m = unat (text_length slot S2)"
  have m: "m \<le> 254" using S2(4) text_length_val [of slot S2] by (simp add: m_def)
  have step: "format_output slot prefix text S =
      (if m \<le> 253 then do { S \<leftarrow> write_line slot m [13, 10, 0] S2; Some (S, of_nat (m + 3)) } else Some (S2, of_nat m))"
    using n(1) S2(1) unfolding format_output_def S1(1) Let_def by (simp add: n_def m_def)
  show ?thesis
  proof (cases "m \<le> 253")
    case True
    then obtain S3 where "write_line slot m [13, 10, 0] S2 = Some S3" "log_ok S3" "lg_core S3 = lg_core S"
      using write_line_ok [OF S2(2) assms(2), of m "[13, 10, 0]"] S2(3) by auto
    moreover have "unat (of_nat (m + 3) :: u16) \<le> 256" using True by (subst small_len(1)) simp_all
    ultimately show ?thesis using True unfolding step by (simp del: of_nat_add)
  next
    case False
    then show ?thesis using S2(2,3) m unfolding step by (simp add: small_len(1))
  qed
qed

section \<open>The calls return\<close>

abbreviation env_ok :: "(nat \<Rightarrow> log_state \<Rightarrow> log_state) \<Rightarrow> bool" where
  "env_ok env \<equiv> \<forall>i S. log_ok S \<longrightarrow> log_ok (env i S)"

lemma log_begin_ok:
  assumes "log_ok S"
  shows "log_begin n S = Some (S, None) \<or>
     (\<exists>S' p h. log_begin n S = Some (S', Some (p, h)) \<and> log_ok S' \<and> lg_core S' = lg_core S \<and> p + (n - 1) < 3)"
  using assms take_log_ok [OF assms] by (auto simp: log_begin_def Let_def)

lemma log_end_ok: "log_ok S \<Longrightarrow> \<exists>S'. log_end n S = Some S' \<and> log_ok S'"
  by (simp add: log_end_def take_log_ok)

lemma line_data: "slot < 3 \<Longrightarrow> n \<le> 256 \<Longrightarrow> log_ok S \<Longrightarrow> n \<le> length (line_bytes slot S)"
  by (auto simp: line_bytes_length)

lemma log_submit_ok:
  assumes "env_ok env" and "log_ok S" and "slot < 3" and "unat len \<le> 256"
  shows "\<exists>S'. log_submit env handle slot len S = Some S' \<and> log_ok S'"
proof -
  obtain S' e where "tbox_log_put_data env len (line_bytes slot) S = Some (S', e)" "log_ok S'"
    using put_data_ok [of env S len "line_bytes slot"] assms line_data [of slot "unat len"] by blast
  then show ?thesis by (cases "e = TBOX_E_OK") (simp_all add: log_submit_def)
qed

lemma dump_submit_ok:
  assumes "env_ok env" and "log_ok S" and "slot < 3" and "unat len \<le> 256"
  shows "\<exists>S' l. dump_submit env handle slot len S = Some (S', l) \<and> log_ok S' \<and> unat l \<le> 256"
proof -
  obtain S' e where "tbox_log_put_data env len (line_bytes slot) S = Some (S', e)" "log_ok S'"
    using put_data_ok [of env S len "line_bytes slot"] assms line_data [of slot "unat len"] by blast
  then show ?thesis using assms(4) by (cases "e = TBOX_E_OK") (simp_all add: dump_submit_def)
qed

lemma print_ok:
  assumes "env_ok env" and "log_ok S"
  shows "\<exists>S'. tbox_log_print env text S = Some S' \<and> log_ok S'"
proof (cases "lg_seq S = TBOX_LOG_SEQ_START")
  case True
  from log_begin_ok [OF assms(2), of 1] show ?thesis
  proof (elim disjE exE conjE)
    fix S1 p h assume b: "log_begin 1 S = Some (S1, Some (p, h))" "log_ok S1" "p + (1 - 1) < 3"
    obtain S2 where f: "log_format p text S1 = Some S2" "log_ok S2" "length (c_string (line_bytes p S2)) \<le> 254"
      using format_ok [OF b(2), of p "text"] b(3) by auto
    have "unat (text_length p S2) \<le> 256" using text_length_val [of p S2] f(3) by simp
    then obtain S3 where "log_submit env h p (text_length p S2) S2 = Some S3" "log_ok S3"
      using log_submit_ok [OF assms(1) f(2)] b(3) by fastforce
    moreover from this obtain S4 where "log_end 1 S3 = Some S4" "log_ok S4" using log_end_ok by blast
    ultimately show ?thesis using True b(1) f(1) by (simp add: tbox_log_print_def)
  qed (use True assms(2) in \<open>simp add: tbox_log_print_def\<close>)
qed (use assms(2) in \<open>simp add: tbox_log_print_def\<close>)

lemma output_ok:
  assumes "env_ok env" and "log_ok S" and c: "log_config module_id S = Some config"
  shows "\<exists>S'. tbox_log_output env module_id level fn line text S = Some S' \<and> log_ok S'"
proof (cases "lg_seq S \<noteq> TBOX_LOG_SEQ_START \<or> in_name config = 0 \<or> level \<ge> ucast LOG_LEVEL_NONE \<or> (ucast level :: u8) < in_log_level config")
  case True
  then show ?thesis using assms(2) c by (auto simp: tbox_log_output_def)
next
  case False
  have "unat level < length level_str" using False
    by (simp add: level_str_def LOG_LEVEL_NONE_def word_le_nat_alt)
  then obtain lvl where lvl: "rd level_str (unat level) = Some lvl" by (simp add: rd_def)
  from log_begin_ok [OF assms(2), of 1] show ?thesis
  proof (elim disjE exE conjE)
    fix S1 p h assume b: "log_begin 1 S = Some (S1, Some (p, h))" "log_ok S1" "p + (1 - 1) < 3"
    obtain S2 len where f: "format_output p (log_prefix (strings (core_messages (lg_core S1)) (in_name config)) fn line lvl) text S1
        = Some (S2, len)" "log_ok S2" "unat len \<le> 256"
      using format_output_ok [OF b(2)] b(3) by fastforce
    then obtain S3 where "log_submit env h p len S2 = Some S3" "log_ok S3"
      using log_submit_ok [OF assms(1) f(2)] b(3) by fastforce
    moreover from this obtain S4 where "log_end 1 S3 = Some S4" "log_ok S4" using log_end_ok by blast
    ultimately show ?thesis using False c lvl b(1) f(1) by (simp add: tbox_log_output_def)
  qed (use False c assms(2) in \<open>simp add: tbox_log_output_def not_le\<close>)
qed

text \<open>A dumped line fits the second buffer, and what is copied from it fits behind what the first holds.\<close>

lemma hex_lengths [simp]: "length (hex8 b) = 2" "length (hex32 w) = 8"
  by (simp_all add: hex8_def hex32_def le32_def)

lemma dump_text_length: "length bs \<le> 16 \<Longrightarrow> length (dump_text a bs) = 62"
proof -
  have "length (concat (map (\<lambda>b. hex8 b @ [32]) xs)) = 3 * length xs" for xs :: "u8 list" by (induction xs) auto
  then show "length bs \<le> 16 \<Longrightarrow> length (dump_text a bs) = 62" by (simp add: dump_text_def)
qed

lemma dump_line_ok:
  assumes env: "env_ok env" and S: "log_ok S" and slot: "slot + 1 < 3" and t: "length text = 62" and len: "unat len \<le> 256"
  shows "\<exists>S' l. dump_line env handle slot text (S, len) = Some (S', l) \<and> log_ok S' \<and> unat l \<le> 256"
proof -
  obtain S1 where S1: "write_line (slot + 1) 0 (text @ [0]) S = Some S1" "log_ok S1"
    using write_line_ok [OF S slot, of 0 "text @ [0]"] t by auto
  let ?send = "if unat len + length text \<ge> 255 then dump_submit env handle slot len S1 else Some (S1, len)"
  obtain S2 l where S2: "?send = Some (S2, l)" "log_ok S2" "unat l \<le> 256"
    using dump_submit_ok [OF env S1(2), of slot len handle] S1(2) slot len by (cases "unat len + length text \<ge> 255") auto
  define copied where "copied = tbox_log_copydata_to_linebuffer l (line_bytes (slot + 1) S2)"
  have c: "unat l + length copied \<le> 256" using S2(3) by (simp add: copied_def tbox_log_copydata_to_linebuffer_def)
  obtain S3 where S3: "write_line slot (unat l) copied S2 = Some S3" "log_ok S3"
    using write_line_ok [OF S2(2) _ c, of slot] slot by auto
  have "unat (l + of_nat (length copied) :: u16) \<le> 256"
    using c by (subst unat_plus_if_fits) (simp_all add: small_len(1))
  then show ?thesis using S1(1) S2(1) S3 by (simp add: dump_line_def Let_def copied_def)
qed

lemma dump_lines_ok:
  assumes env: "env_ok env" and slot: "slot + 1 < 3"
  shows "log_ok S \<Longrightarrow> unat len \<le> 256 \<Longrightarrow> length data < 16 * (n + 1) \<Longrightarrow>
     \<exists>S' l. dump_lines env handle slot a data n (S, len) = Some (S', l) \<and> log_ok S' \<and> unat l \<le> 256"
proof (induction n arbitrary: a data S len)
  case 0
  then show ?case using dump_line_ok [OF env _ slot, of S "dump_text a data" len handle] dump_text_length [of data a] by auto
next
  case (Suc n)
  have "length (dump_text a (take 16 data)) = 62" by (rule dump_text_length) simp
  then obtain S1 l where "dump_line env handle slot (dump_text a (take 16 data)) (S, len) = Some (S1, l)" "log_ok S1" "unat l \<le> 256"
    using dump_line_ok [OF env Suc.prems(1) slot _ Suc.prems(2)] by blast
  with Suc.IH [of S1 l "drop 16 data" "a + 16"] Suc.prems(3) show ?case by auto
qed

lemma dump_ok:
  assumes env: "env_ok env" and S: "log_ok S" and c: "log_config module_id S = Some config" and d: "unat len \<le> length data"
  shows "\<exists>S'. tbox_log_dump env module_id tag a data len S = Some S' \<and> log_ok S'"
proof (cases "lg_seq S \<noteq> TBOX_LOG_SEQ_START \<or> in_name config = 0 \<or> in_log_level config \<ge> LOG_LEVEL_WARN")
  case True
  then show ?thesis using S c by (auto simp: tbox_log_dump_def)
next
  case False
  from log_begin_ok [OF S, of 2] show ?thesis
  proof (elim disjE exE conjE)
    fix S1 p h assume b: "log_begin 2 S = Some (S1, Some (p, h))" "log_ok S1" "p + (2 - 1) < 3"
    then have p: "p < 3" "p + 1 < 3" by simp_all
    obtain S2 where S2: "clear_line (p + 1) S1 = Some S2" "log_ok S2" "lg_core S2 = lg_core S1"
      using write_line_ok [OF b(2) p(2), of 0 "replicate 256 0"] by (auto simp: clear_line_def)
    let ?title = "dump_title (strings (core_messages (lg_core S2)) (in_name config)) tag (unat len)"
    obtain S3 where S3: "log_format p ?title S2 = Some S3" "log_ok S3" "length (c_string (line_bytes p S3)) \<le> 254"
      using format_ok [OF S2(2) p(1), of ?title] by auto
    have "unat (text_length p S3) \<le> 256" using text_length_val [of p S3] S3(3) by simp
    moreover have "length (take (unat len) data) < 16 * (unat len div 16 + 1)" using d by auto
    ultimately obtain S4 sz where S4: "dump_lines env h p a (take (unat len) data) (unat len div 16) (S3, text_length p S3) = Some (S4, sz)"
        "log_ok S4" "unat sz \<le> 256"
      using dump_lines_ok [OF env p(2) S3(2)] by blast
    obtain S5 l where S5: "(if sz > 0 then dump_submit env h p sz S4 else Some (S4, sz)) = Some (S5, l)" "log_ok S5"
      using dump_submit_ok [OF env S4(2) p(1) S4(3), of h] S4(2) by (cases "sz > 0") auto
    obtain S6 where "log_end 2 S5 = Some S6" "log_ok S6" using log_end_ok [OF S5(2)] by blast
    then show ?thesis using False c b(1) d S2(1) S3(1) S4(1) S5(1) by (simp add: tbox_log_dump_def)
  qed (use False c S in \<open>simp add: tbox_log_dump_def\<close>)
qed

section \<open>Lines in the order they were printed\<close>

definition log_up :: "log_state \<Rightarrow> u8 list list \<Rightarrow> bool" where
  "log_up S ls \<longleftrightarrow> log_mutex (lg_mgr S) \<and> length (temp_bytes (lg_mgr S)) = 768 \<and> lines_in S ls"

lemma log_up_ok: "log_up S ls \<Longrightarrow> log_ok S" "log_up S ls \<Longrightarrow> take_log S = Some S"
  by (auto simp: log_up_def log_ok_def take_log_def)

lemma log_up_simps [simp]:
  "log_up (log_tasks g S) ls = log_up S ls" "log_up (S\<lparr>lg_out := out\<rparr>) ls = log_up S ls"
  "log_up (upd_log (\<lambda>m. m\<lparr>temp_pos := f m\<rparr>) S) ls = log_up S ls"
  by (simp_all add: log_up_def lines_in_def)

text \<open>What a line does not change: the printed lines, the state of the log, the positions and the task.\<close>

definition same_log :: "log_state \<Rightarrow> log_state \<Rightarrow> bool" where
  "same_log S S' \<longleftrightarrow> lg_out S' = lg_out S \<and> lg_seq S' = lg_seq S \<and> temp_pos (lg_mgr S') = temp_pos (lg_mgr S) \<and>
     log_handle (lg_mgr S') = log_handle (lg_mgr S)"

lemma c_string_text: "0 \<notin> set t \<Longrightarrow> c_string (t @ 0 # r) = t"
  by (induction t) (auto simp: c_string_def)

lemma format_text:
  assumes S: "log_up S ls" "slot < 3" and t: "0 \<notin> set text"
  shows "\<exists>S'. log_format slot text S = Some S' \<and> log_up S' ls \<and> same_log S S' \<and> c_string (line_bytes slot S') = take 254 text"
proof -
  let ?b = "temp_bytes (lg_mgr S)" and ?t = "print_to 255 text"
  let ?b1 = "blit ?b (slot * 256) (replicate 256 0)"
  let ?b2 = "blit ?b1 (slot * 256) ?t"
  have n: "length ?b = 768" using S(1) by (simp add: log_up_def)
  have l: "length ?t \<le> 255" "slot * 256 + 256 \<le> 768" using print_to_length [of 255 "text"] S(2) by auto
  have n1: "length ?b1 = 768" using n l(2) by (simp add: blit_def)
  have n2: "length ?b2 = 768" using n1 l by (simp add: blit_def)
  have f: "log_format slot text S = Some (upd_log (\<lambda>m. m\<lparr>temp_bytes := ?b2\<rparr>) S)"
    using n n1 l by (simp add: log_format_def clear_line_def write_line_def upd_log_def)
  have "drop (slot * 256) ?b2 = take 254 text @ 0 # drop (slot * 256 + length ?t) ?b1"
    using n1 l by (simp add: blit_def print_to_def)
  moreover have "0 \<notin> set (take 254 text)" using t in_set_takeD by fast
  ultimately have "c_string (drop (slot * 256) ?b2) = take 254 text" by (simp add: c_string_text)
  then show ?thesis using f n2 S(1) by (simp add: log_up_def lines_in_def same_log_def line_bytes_def)
qed

lemma submit_text:
  assumes S: "log_up S ls" "slot < 3" and t: "c_string (line_bytes slot S) = t" "length t \<le> 254"
    and room: "frames_total line_frame ls + 4 + length t \<le> 2048"
  shows "\<exists>S'. log_submit env h slot (text_length slot S) S = Some S' \<and> log_up S' (ls @ [t]) \<and> same_log S S' \<and>
     temp_bytes (lg_mgr S') = temp_bytes (lg_mgr S)"
proof -
  let ?n = "text_length slot S"
  have n: "unat ?n = length t" using t text_length_val [of slot S] by simp
  have L: "lines_in S ls" and k: "length (line_bytes slot S) \<ge> length t"
    using S(1) t(1) by (auto simp: log_up_def c_string_def length_takeWhile_le)
  have r: "log_room ?n S" using log_room_iff [OF L, of ?n] n t(2) room by simp
  have "take (length t) (line_bytes slot S) = t" using t(1) by (metis c_string_def takeWhile_eq_take)
  then obtain q1 n1 q2 n2 where q: "cqueue_put (log_queue (lg_mgr S)) (log_header_bytes ?n) sizeof_log_header = Some (q1, n1)"
      "cqueue_put q1 (line_bytes slot S) (ucast ?n) = Some (q2, n2)" "lines_in (upd_log (\<lambda>m. m\<lparr>log_queue := q2\<rparr>) S) (ls @ [t])"
    using put_line [OF L r, of "line_bytes slot S"] n t(2) k by auto
  have p: "tbox_log_put_data env ?n (line_bytes slot) S = Some (upd_log (\<lambda>m. m\<lparr>log_queue := q2\<rparr>) S, TBOX_E_OK)"
    using r q(1,2) log_up_ok(2) [OF S(1)] by (simp add: tbox_log_put_data_def)
  show ?thesis using p q(3) S(1) by (simp add: log_submit_def log_up_def lines_in_def same_log_def)
qed

lemma print_line:
  assumes S: "log_up S ls" "lg_seq S = TBOX_LOG_SEQ_START" "unat (temp_pos (lg_mgr S)) < 3" and t: "0 \<notin> set text"
    and room: "frames_total line_frame ls + 4 + length (take 254 text) \<le> 2048"
  shows "\<exists>S'. tbox_log_print env text S = Some S' \<and> log_up S' (ls @ [take 254 text]) \<and> same_log S S'"
proof -
  let ?p = "unat (temp_pos (lg_mgr S))" and ?S1 = "upd_log (\<lambda>m. m\<lparr>temp_pos := temp_pos m + 1\<rparr>) S"
  have b: "log_begin 1 S = Some (?S1, Some (?p, log_handle (lg_mgr S)))"
    using S(3) log_up_ok(2) [OF S(1)] by (simp add: log_begin_def)
  have up1: "log_up ?S1 ls" using S(1) by simp
  obtain S2 where S2: "log_format ?p text ?S1 = Some S2" "log_up S2 ls" "same_log ?S1 S2"
      "c_string (line_bytes ?p S2) = take 254 text" using format_text [OF up1 S(3) t] by blast
  obtain S3 where S3: "log_submit env (log_handle (lg_mgr S)) ?p (text_length ?p S2) S2 = Some S3"
      "log_up S3 (ls @ [take 254 text])" "same_log S2 S3"
    using submit_text [OF S2(2) S(3) S2(4) _ room] by auto
  have "log_end 1 S3 = Some (upd_log (\<lambda>m. m\<lparr>temp_pos := temp_pos m - 1\<rparr>) S3)"
    using log_up_ok(2) [OF S3(2)] by (simp add: log_end_def)
  then show ?thesis using b S2(1,3) S3 S(2) by (auto simp: tbox_log_print_def same_log_def)
qed

lemma line_frame_length: "length (line_frame l) = 4 + length l"
  by (simp add: line_frame_def)

text \<open>A task, or several, printing one line after the other.\<close>

fun print_lines :: "(nat \<Rightarrow> log_state \<Rightarrow> log_state) \<Rightarrow> u8 list list \<Rightarrow> log_state \<Rightarrow> log_state option" where
  "print_lines env [] S = Some S"
| "print_lines env (t # ts) S = do { S \<leftarrow> tbox_log_print env t S; print_lines env ts S }"

lemma same_log_trans: "same_log S S' \<Longrightarrow> same_log S' S'' \<Longrightarrow> same_log S S''"
  by (simp add: same_log_def)

lemma print_lines_queued:
  "log_up S ls \<Longrightarrow> lg_seq S = TBOX_LOG_SEQ_START \<Longrightarrow> unat (temp_pos (lg_mgr S)) < 3 \<Longrightarrow> \<forall>t\<in>set ts. 0 \<notin> set t \<Longrightarrow>
     frames_total line_frame (ls @ map (take 254) ts) \<le> 2048 \<Longrightarrow>
     \<exists>S'. print_lines env ts S = Some S' \<and> log_up S' (ls @ map (take 254) ts) \<and> same_log S S'"
proof (induction ts arbitrary: S ls)
  case Nil
  then show ?case by (simp add: same_log_def)
next
  case (Cons t ts)
  have "frames_total line_frame ls + 4 + length (take 254 t) \<le> 2048" using Cons.prems(5) by (simp add: line_frame_length)
  then obtain S1 where S1: "tbox_log_print env t S = Some S1" "log_up S1 (ls @ [take 254 t])" "same_log S S1"
    using print_line [OF Cons.prems(1-3), of t] Cons.prems(4) by auto
  moreover from S1(3) have "lg_seq S1 = TBOX_LOG_SEQ_START" "unat (temp_pos (lg_mgr S1)) < 3"
    using Cons.prems(2,3) by (simp_all add: same_log_def)
  ultimately obtain S2 where "print_lines env ts S1 = Some S2" "log_up S2 ((ls @ [take 254 t]) @ map (take 254) ts)" "same_log S1 S2"
    using Cons.IH [of S1 "ls @ [take 254 t]"] Cons.prems(4,5) by auto
  then show ?case using S1(1,3) same_log_trans by auto
qed

text \<open>The task takes the oldest line.\<close>

lemma log_header_fields [simp]:
  "get16 (log_header_bytes n) = TBOX_LOG_MAGIC_NO" "get16 (drop 2 (log_header_bytes n)) = n"
  by (simp_all add: log_header_bytes_def get16_le16)

lemma log_take_line:
  assumes S: "log_up S (l # ls)" and buf: "length buf = 256"
  shows "\<exists>S'. log_take buf S = Some (S', blit buf 0 l, Some (of_nat (length l))) \<and> log_up S' ls \<and>
     lg_out S' = lg_out S \<and> length l \<le> 256"
proof -
  let ?q = "log_queue (lg_mgr S)" and ?h = "log_header_bytes (of_nat (length l))"
  have Q: "framed_by line_frame 2048 ?q (l # ls)" and l: "length l \<le> 256" using S by (auto simp: log_up_def lines_in_def)
  have m: "take_log S = Some S" using log_up_ok(2) [OF S] .
  have n: "unat (of_nat (length l) :: u16) = length l" "unat (ucast (of_nat (length l) :: u16) :: u32) = length l"
    using l by (simp_all add: small_len(1) unat_ucast16)
  obtain q1 n1 q2 n2 where q: "cqueue_get ?q (replicate 4 0) sizeof_log_header = Some (q1, blit (replicate 4 0) 0 ?h, n1)"
      "unat (cqueue_datalen q1) = length l + frames_total line_frame ls"
      "cqueue_get q1 buf (ucast (of_nat (length l) :: u16)) = Some (q2, blit buf 0 l, n2)" "framed_by line_frame 2048 q2 ls"
    using framed_get [OF Q, of ?h l sizeof_log_header "replicate 4 0" "ucast (of_nat (length l) :: u16)" buf] l n buf
    by (auto simp: line_frame_def)
  have h: "blit (replicate 4 0) 0 ?h = ?h" by (simp add: blit_def)
  have "4 \<le> unat (cqueue_datalen ?q)" using framed_datalen [OF Q] by (simp add: line_frame_def)
  then have d: "\<not> cqueue_datalen ?q < sizeof_log_header" by (simp add: word_less_nat_alt)
  have e: "\<not> cqueue_datalen q1 < ucast (of_nat (length l) :: u16)" using q(2) n(2) by (simp add: word_less_nat_alt)
  have t: "log_take buf S = Some (upd_log (\<lambda>m. m\<lparr>log_queue := q2, temp_pos := temp_pos m + 1\<rparr>) S, blit buf 0 l,
      Some (of_nat (length l)))"
    using m d e q(1,3) n(1) l unfolding log_take_def by (simp add: h Let_def)
  show ?thesis using t q(4) S l by (simp add: log_up_def lines_in_def)
qed

lemma log_take_none: "log_up S [] \<Longrightarrow> log_take buf S = Some (S, buf, None)"
  using framed_datalen [of line_frame 2048 "log_queue (lg_mgr S)" "[]"] log_up_ok(2) [of S "[]"]
  by (auto simp: log_take_def log_up_def lines_in_def word_less_nat_alt Let_def)

lemma drain_prints:
  assumes env: "\<And>S ls. log_up S ls \<Longrightarrow> log_up (env S) ls \<and> lg_out (env S) = lg_out S"
  shows "log_up S ls \<Longrightarrow> length buf = 256 \<Longrightarrow>
     \<exists>S' buf'. log_drain env buf S = Some (S', buf') \<and> lg_out S' = lg_out S @ ls \<and> log_up S' []"
proof (induction ls arbitrary: S buf)
  case Nil
  then show ?case using log_take_none by (subst log_drain.simps) simp
next
  case (Cons l ls)
  obtain S1 where S1: "log_take buf S = Some (S1, blit buf 0 l, Some (of_nat (length l)))" "log_up S1 ls" "lg_out S1 = lg_out S"
      "length l \<le> 256" using log_take_line [OF Cons.prems] by blast
  let ?S2 = "env (S1\<lparr>lg_out := lg_out S1 @ [l]\<rparr>)" and ?buf = "blit buf 0 l"
  have S2: "log_up ?S2 ls" "lg_out ?S2 = lg_out S @ [l]" using env [of "S1\<lparr>lg_out := lg_out S1 @ [l]\<rparr>" ls] S1(2,3) by simp_all
  have b: "length ?buf = 256" "take (length l) ?buf = l" using Cons.prems(2) S1(4) by (simp_all add: blit_def)
  have e: "log_end 1 ?S2 = Some (upd_log (\<lambda>m. m\<lparr>temp_pos := temp_pos m - 1\<rparr>) ?S2)"
    using log_up_ok(2) [OF S2(1)] by (simp add: log_end_def)
  from Cons.IH [of "upd_log (\<lambda>m. m\<lparr>temp_pos := temp_pos m - 1\<rparr>) ?S2" ?buf] S2 b(1)
  obtain S' buf' where "log_drain env ?buf (upd_log (\<lambda>m. m\<lparr>temp_pos := temp_pos m - 1\<rparr>) ?S2) = Some (S', buf')"
      "lg_out S' = lg_out S @ l # ls" "log_up S' []" by auto
  then show ?case using S1(1,4) e b(2) small_len(1) [OF S1(4)] by (subst log_drain.simps) simp
qed

section \<open>The other buffers\<close>

definition slot_bytes :: "nat \<Rightarrow> log_state \<Rightarrow> u8 list" where
  "slot_bytes q S = take TBOX_LOG_LINEBUFF_SIZE (line_bytes q S)"

abbreviation spares :: "(nat \<Rightarrow> log_state \<Rightarrow> log_state) \<Rightarrow> nat \<Rightarrow> bool" where
  "spares env q \<equiv> \<forall>i S. slot_bytes q (env i S) = slot_bytes q S"

lemma slot_bytes_simps [simp]:
  "slot_bytes q (log_tasks g S) = slot_bytes q S" "slot_bytes q (S\<lparr>lg_out := out\<rparr>) = slot_bytes q S"
  "slot_bytes q (upd_log (\<lambda>m. m\<lparr>temp_pos := f m\<rparr>) S) = slot_bytes q S" "slot_bytes q (upd_log (\<lambda>m. m\<lparr>log_queue := k\<rparr>) S) = slot_bytes q S"
  by (simp_all add: slot_bytes_def line_bytes_def)

lemma blit_apart:
  "at + length bs \<le> length xs \<Longrightarrow> k + m \<le> at \<or> at + length bs \<le> k \<Longrightarrow> take m (drop k (blit xs at bs)) = take m (drop k xs)"
proof (elim disjE)
  assume "at + length bs \<le> length xs" "k + m \<le> at"
  then show ?thesis by (simp add: blit_def drop_take)
next
  assume "at + length bs \<le> length xs" "at + length bs \<le> k"
  then show ?thesis by (simp add: blit_def)
qed

lemma write_line_apart:
  assumes "write_line slot off bs S = Some S'" and "q \<noteq> slot"
  shows "slot_bytes q S' = slot_bytes q S"
proof -
  let ?at = "slot * 256 + off"
  have w: "off + length bs \<le> 256" "?at + length bs \<le> length (temp_bytes (lg_mgr S))"
      "S' = upd_log (\<lambda>m. m\<lparr>temp_bytes := blit (temp_bytes m) ?at bs\<rparr>) S"
    using assms(1) by (auto simp: write_line_def split: if_splits)
  have "q * 256 + 256 \<le> ?at \<or> ?at + length bs \<le> q * 256"
    using w(1) assms(2) by (cases "q < slot") (auto simp: not_less)
  from blit_apart [OF w(2) this] show ?thesis by (simp add: slot_bytes_def line_bytes_def w(3))
qed

lemma take_log_apart: "take_log S = Some S' \<Longrightarrow> slot_bytes q S' = slot_bytes q S"
  by (simp add: take_log_def split: if_splits)

lemma log_end_apart: "log_end n S = Some S' \<Longrightarrow> slot_bytes q S' = slot_bytes q S"
  by (auto simp: log_end_def take_log_def split: if_splits)

lemma log_begin_apart:
  "log_begin n S = Some (S', r) \<Longrightarrow> slot_bytes q S' = slot_bytes q S \<and> (\<forall>p h. r = Some (p, h) \<longrightarrow> p = unat (temp_pos (lg_mgr S)))"
  by (auto simp: log_begin_def take_log_def Let_def split: if_splits)

lemma log_format_apart: "log_format slot text S = Some S' \<Longrightarrow> q \<noteq> slot \<Longrightarrow> slot_bytes q S' = slot_bytes q S"
  by (auto simp: log_format_def clear_line_def split: Option.bind_splits dest!: write_line_apart)

lemma format_output_apart:
  "format_output slot prefix text S = Some (S', len) \<Longrightarrow> q \<noteq> slot \<Longrightarrow> slot_bytes q S' = slot_bytes q S"
  by (auto simp: format_output_def Let_def split: Option.bind_splits if_splits dest!: write_line_apart log_format_apart)

lemma put_retry_apart:
  "put_retry env h len i n S = Some (S', b) \<Longrightarrow> spares env q \<Longrightarrow> slot_bytes q S' = slot_bytes q S"
  by (induction env h len i n S rule: put_retry.induct)
    (auto split: Option.bind_splits if_splits dest!: take_log_apart [where q = q])

lemma put_data_apart:
  "tbox_log_put_data env len data S = Some (S', e) \<Longrightarrow> spares env q \<Longrightarrow> slot_bytes q S' = slot_bytes q S"
  by (auto simp: tbox_log_put_data_def split: Option.bind_splits if_splits prod.splits
      dest!: take_log_apart [where q = q] put_retry_apart [where q = q])

lemma log_submit_apart: "log_submit env h slot len S = Some S' \<Longrightarrow> spares env q \<Longrightarrow> slot_bytes q S' = slot_bytes q S"
  by (auto simp: log_submit_def split: Option.bind_splits if_splits dest!: put_data_apart [where q = q])

lemma dump_submit_apart: "dump_submit env h slot len S = Some (S', l) \<Longrightarrow> spares env q \<Longrightarrow> slot_bytes q S' = slot_bytes q S"
  by (auto simp: dump_submit_def split: Option.bind_splits if_splits dest!: put_data_apart [where q = q])

lemma dump_line_apart:
  "dump_line env h slot text (S, len) = Some (S', l) \<Longrightarrow> spares env q \<Longrightarrow> q \<notin> {slot, slot + 1} \<Longrightarrow> slot_bytes q S' = slot_bytes q S"
  by (auto simp: dump_line_def Let_def split: Option.bind_splits if_splits dest!: write_line_apart [where q = q] dump_submit_apart [where q = q])

lemma dump_lines_apart:
  "dump_lines env h slot a data n (S, len) = Some (S', l) \<Longrightarrow> spares env q \<Longrightarrow> q \<notin> {slot, slot + 1} \<Longrightarrow> slot_bytes q S' = slot_bytes q S"
proof (induction n arbitrary: a data S len)
  case 0
  then show ?case by (auto split: if_splits dest!: dump_line_apart [where q = q])
next
  case (Suc n)
  then show ?case by (auto split: Option.bind_splits dest!: dump_line_apart [where q = q])
qed

text \<open>\<open>own\<close> are the buffers a call took: another buffer is as it was, when the others leave it alone meanwhile.\<close>

definition wrote_only :: "(nat \<Rightarrow> log_state \<Rightarrow> log_state) \<Rightarrow> nat set \<Rightarrow> log_state \<Rightarrow> log_state \<Rightarrow> bool" where
  "wrote_only env own S S' \<longleftrightarrow> (\<forall>q. q \<notin> own \<and> spares env q \<longrightarrow> slot_bytes q S' = slot_bytes q S)"

lemma print_apart:
  "tbox_log_print env text S = Some S' \<Longrightarrow> wrote_only env {unat (temp_pos (lg_mgr S))} S S'"
  unfolding wrote_only_def
proof (intro allI impI)
  fix q assume r: "tbox_log_print env text S = Some S'" and q: "q \<notin> {unat (temp_pos (lg_mgr S))} \<and> spares env q"
  show "slot_bytes q S' = slot_bytes q S"
  proof (cases "lg_seq S = TBOX_LOG_SEQ_START")
    case True
    then obtain S1 s where b: "log_begin 1 S = Some (S1, s)" using r by (auto simp: tbox_log_print_def split: Option.bind_splits)
    then show ?thesis using True r q log_begin_apart [OF b, of q]
      by (auto simp: tbox_log_print_def split: Option.bind_splits option.splits
        dest!: log_format_apart [where q = q] log_submit_apart [where q = q] log_end_apart [where q = q])
  qed (use r in \<open>simp add: tbox_log_print_def\<close>)
qed

lemma output_apart:
  "tbox_log_output env module_id level fn line text S = Some S' \<Longrightarrow> wrote_only env {unat (temp_pos (lg_mgr S))} S S'"
  unfolding wrote_only_def
proof (intro allI impI)
  fix q assume r: "tbox_log_output env module_id level fn line text S = Some S'" and q: "q \<notin> {unat (temp_pos (lg_mgr S))} \<and> spares env q"
  show "slot_bytes q S' = slot_bytes q S"
    using r q by (auto simp: tbox_log_output_def split: Option.bind_splits option.splits if_splits
      dest!: log_begin_apart [where q = q] format_output_apart [where q = q] log_submit_apart [where q = q] log_end_apart [where q = q])
qed

lemma dump_apart:
  "tbox_log_dump env module_id tag a data len S = Some S' \<Longrightarrow>
     wrote_only env {unat (temp_pos (lg_mgr S)), unat (temp_pos (lg_mgr S)) + 1} S S'"
  unfolding wrote_only_def
proof (intro allI impI)
  fix q assume r: "tbox_log_dump env module_id tag a data len S = Some S'"
    and q: "q \<notin> {unat (temp_pos (lg_mgr S)), unat (temp_pos (lg_mgr S)) + 1} \<and> spares env q"
  show "slot_bytes q S' = slot_bytes q S"
    using r q by (auto simp: tbox_log_dump_def clear_line_def split: Option.bind_splits option.splits if_splits
      dest!: log_begin_apart [where q = q] write_line_apart [where q = q] log_format_apart [where q = q] dump_lines_apart [where q = q]
        dump_submit_apart [where q = q] log_end_apart [where q = q])
qed

section \<open>A buffer that is used twice\<close>

text \<open>
  Two lines begin; the first ends, which gives back the buffer of the second; the third begins and gets it, before
  the second is put into the queue. \<open>early\<close> is what happens up to the end of the first line, \<open>late\<close> the rest.
\<close>

definition early :: "(nat \<Rightarrow> log_state \<Rightarrow> log_state) \<Rightarrow> u32 \<Rightarrow> u8 list \<Rightarrow> u8 list \<Rightarrow> log_state \<Rightarrow> log_state option" where
  "early env h a b S = do {
     S \<leftarrow> log_format 0 a S;
     S \<leftarrow> log_submit env h 0 (text_length 0 S) S;
     S \<leftarrow> log_format 1 b S;
     log_end 1 S
   }"

definition late :: "(nat \<Rightarrow> log_state \<Rightarrow> log_state) \<Rightarrow> u32 \<Rightarrow> u8 list \<Rightarrow> log_state \<Rightarrow> log_state option" where
  "late env h c S = do {
     S \<leftarrow> log_format 1 c S;
     S \<leftarrow> log_submit env h 1 (text_length 1 S) S;
     S \<leftarrow> log_submit env h 1 (text_length 1 S) S;
     S \<leftarrow> log_end 1 S;
     log_end 1 S
   }"

lemma begin_at:
  "log_up S ls \<Longrightarrow> unat (temp_pos (lg_mgr S)) = p \<Longrightarrow> p < 3 \<Longrightarrow>
     log_begin 1 S = Some (upd_log (\<lambda>m. m\<lparr>temp_pos := temp_pos m + 1\<rparr>) S, Some (p, log_handle (lg_mgr S)))"
  using log_up_ok(2) [of S ls] by (simp add: log_begin_def)

lemma end_at: "log_up S ls \<Longrightarrow> log_end 1 S = Some (upd_log (\<lambda>m. m\<lparr>temp_pos := temp_pos m - 1\<rparr>) S)"
  using log_up_ok(2) [of S ls] by (simp add: log_end_def)

lemma early_ok:
  assumes S: "log_up S ls" "temp_pos (lg_mgr S) = 2" "0 \<notin> set a" "0 \<notin> set b"
    and room: "frames_total line_frame ls + 4 + length (take 254 a) \<le> 2048"
  shows "\<exists>S'. early env h a b S = Some S' \<and> log_up S' (ls @ [take 254 a]) \<and> temp_pos (lg_mgr S') = 1 \<and>
     log_handle (lg_mgr S') = log_handle (lg_mgr S)"
proof -
  obtain S1 where S1: "log_format 0 a S = Some S1" "log_up S1 ls" "same_log S S1" "c_string (line_bytes 0 S1) = take 254 a"
    using format_text [OF S(1) _ S(3), of 0] by auto
  obtain S2 where S2: "log_submit env h 0 (text_length 0 S1) S1 = Some S2" "log_up S2 (ls @ [take 254 a])" "same_log S1 S2"
    using submit_text [OF S1(2) _ S1(4) _ room, of env h] by auto
  obtain S3 where S3: "log_format 1 b S2 = Some S3" "log_up S3 (ls @ [take 254 a])" "same_log S2 S3"
    using format_text [OF S2(2) _ S(4), of 1] by auto
  show ?thesis using S1(1,3) S2(1,3) S3 S(2) end_at [OF S3(2)] by (simp add: early_def same_log_def)
qed

lemma late_ok:
  assumes S: "log_up S ls" "temp_pos (lg_mgr S) = 2" "0 \<notin> set c"
    and room: "frames_total line_frame (ls @ [take 254 c, take 254 c]) \<le> 2048"
  shows "\<exists>S'. late env h c S = Some S' \<and> log_up S' (ls @ [take 254 c, take 254 c]) \<and> temp_pos (lg_mgr S') = 0"
proof -
  let ?t = "take 254 c"
  have r: "frames_total line_frame ls + 4 + length ?t \<le> 2048" "frames_total line_frame (ls @ [?t]) + 4 + length ?t \<le> 2048"
    using room by (simp_all add: line_frame_length)
  obtain S1 where S1: "log_format 1 c S = Some S1" "log_up S1 ls" "same_log S S1" "c_string (line_bytes 1 S1) = ?t"
    using format_text [OF S(1) _ S(3), of 1] by auto
  obtain S2 where S2: "log_submit env h 1 (text_length 1 S1) S1 = Some S2" "log_up S2 (ls @ [?t])" "same_log S1 S2"
      "temp_bytes (lg_mgr S2) = temp_bytes (lg_mgr S1)"
    using submit_text [OF S1(2) _ S1(4) _ r(1), of env h] by auto
  have l: "c_string (line_bytes 1 S2) = ?t" using S1(4) S2(4) by (simp add: line_bytes_def)
  obtain S3 where S3: "log_submit env h 1 (text_length 1 S2) S2 = Some S3" "log_up S3 ((ls @ [?t]) @ [?t])" "same_log S2 S3"
    using submit_text [OF S2(2) _ l _ r(2), of env h] by auto
  let ?S4 = "upd_log (\<lambda>m. m\<lparr>temp_pos := temp_pos m - 1\<rparr>) S3"
  have "log_up ?S4 (ls @ [?t, ?t])" using S3(2) by simp
  from end_at [OF this] end_at [OF S3(2)] show ?thesis
    using S1(1,3) S2(1,3) S3 S(2) by (simp add: late_def same_log_def)
qed

lemma log_config_total: "length (tbox_modules (lg_core S)) = 32 \<Longrightarrow> \<exists>config. log_config module_id S = Some config"
  by (cases "bad_module_id module_id \<or> \<not> tbox_module_is_init (lg_core S)")
    (auto simp: log_config_def tbox_module_get_config_def ask_def rd_def bad_module_id_def TBOX_MODULE_MAX_NUM_def)

section \<open>An example\<close>

definition demo_log :: log_state where
  "demo_log = \<lparr>lg_core = demo_modules, lg_seq = TBOX_LOG_SEQ_START,
     lg_mgr = \<lparr>log_queue = \<lparr>cq_buffer = replicate 3072 0, cq_size = 2048, cq_in = 0, cq_out = 0\<rparr>, log_buffer = 0x20005000,
       temp_buffer = 0x20006000, temp_bytes = replicate 768 0, temp_pos = 0, log_mutex = True, log_handle = 0x20004000\<rparr>,
     lg_out = []\<rparr>"

lemma demo_log_simps [simp]:
  "lg_core demo_log = demo_modules" "lg_seq demo_log = TBOX_LOG_SEQ_START" "lg_out demo_log = []"
  "temp_pos (lg_mgr demo_log) = 0" "log_handle (lg_mgr demo_log) = 0x20004000"
  by (simp_all add: demo_log_def)

lemma demo_log_up: "log_up demo_log []"
proof -
  have "(2048 :: u32) = 2 ^ 11" by simp
  then have "\<exists>k<32. (2048 :: u32) = 2 ^ k" by (intro exI [of _ 11]) simp
  then have "framed_by line_frame 2048 (log_queue (lg_mgr demo_log)) []"
    by (intro framed_empty) (simp_all add: demo_log_def cq_inv_def)
  then show ?thesis by (simp add: log_up_def lines_in_def demo_log_def)
qed

section \<open>Properties\<close>

text \<open>
  C5: the way of a line. Whatever lines are printed while there is room for them, each is cut to the 254
  characters a buffer holds and queued; and when the task runs, however the others change the rest of the state
  meanwhile, it prints the lines that were waiting and then these, whole and in order, and leaves the queue empty.
\<close>

theorem log_prints_in_order:
  assumes "log_up S ls" and "lg_seq S = TBOX_LOG_SEQ_START" and "unat (temp_pos (lg_mgr S)) < TBOX_LOG_TEMP_BUFF_COUNT"
    and "\<forall>t\<in>set ts. 0 \<notin> set t" and "frames_total line_frame (ls @ map (take 254) ts) \<le> 2048" and "length buf = TBOX_LOG_LINEBUFF_SIZE"
    and "\<And>S ls. log_up S ls \<Longrightarrow> log_up (meanwhile S) ls \<and> lg_out (meanwhile S) = lg_out S"
  shows "\<exists>S1 S2 buf'. print_lines env ts S = Some S1 \<and> lg_out S1 = lg_out S \<and> log_drain meanwhile buf S1 = Some (S2, buf') \<and>
    lg_out S2 = lg_out S @ ls @ map (take 254) ts \<and> log_up S2 []"
proof -
  obtain S1 where "print_lines env ts S = Some S1" "log_up S1 (ls @ map (take 254) ts)" "same_log S S1"
    using print_lines_queued [OF assms(1,2) _ assms(4,5)] assms(3) by auto
  with drain_prints [OF assms(7), of S1 "ls @ map (take 254) ts" buf] assms(6) show ?thesis by (auto simp: same_log_def)
qed

theorem log_prints_in_order_witness:
  "\<exists>S1 S2 buf'. print_lines (\<lambda>_ S. S) [[104, 105], [111, 107]] demo_log = Some S1 \<and>
     log_drain (\<lambda>S. S) (replicate 256 0) S1 = Some (S2, buf') \<and> lg_out S2 = [[104, 105], [111, 107]]"
proof -
  have "frames_total line_frame ([] @ map (take 254) [[104, 105], [111, 107]]) \<le> 2048" by (simp add: line_frame_length)
  from log_prints_in_order [OF demo_log_up _ _ _ this, of "replicate 256 0" "\<lambda>S. S" "\<lambda>_ S. S"] show ?thesis by auto
qed

text \<open>
  C35: no call of the log leaves the memory it works on. Whatever the text, its length, the level and the data,
  and whatever the others do meanwhile as long as they keep the state of the log sound, printing a line, printing one for a
  module, and dumping bytes return, every byte they write is inside the one buffer (for a dump the two) that the position gave them, so that
  the other buffers hold what they held unless the others write them, and the state stays sound.
\<close>

theorem log_calls_return:
  assumes "env_ok env" and "log_ok S" and "length (tbox_modules (lg_core S)) = 32" and "unat len \<le> length data"
  shows "(\<exists>S'. tbox_log_print env text S = Some S' \<and> log_ok S' \<and> wrote_only env {unat (temp_pos (lg_mgr S))} S S') \<and>
    (\<exists>S'. tbox_log_output env module_id level fn line text S = Some S' \<and> log_ok S' \<and> wrote_only env {unat (temp_pos (lg_mgr S))} S S') \<and>
    (\<exists>S'. tbox_log_dump env module_id tag a data len S = Some S' \<and> log_ok S' \<and>
       wrote_only env {unat (temp_pos (lg_mgr S)), unat (temp_pos (lg_mgr S)) + 1} S S')"
proof -
  obtain config where c: "log_config module_id S = Some config" using log_config_total [OF assms(3)] by blast
  show ?thesis
    using print_ok [OF assms(1,2), of "text"] output_ok [OF assms(1,2) c, of level fn line "text"] dump_ok [OF assms(1,2) c assms(4), of tag a]
      print_apart [of env "text" S] output_apart [of env module_id level fn line "text" S] dump_apart [of env module_id tag a data len S]
    by blast
qed

theorem log_calls_return_witness:
  "\<exists>S'. tbox_log_dump (\<lambda>_ S. S) 0 [114, 120] 0x20000000 (replicate 300 0xAB) 300 demo_log = Some S' \<and> log_ok S' \<and>
    slot_bytes 2 S' = slot_bytes 2 demo_log"
proof -
  obtain S' where "tbox_log_dump (\<lambda>_ S. S) 0 [114, 120] 0x20000000 (replicate 300 0xAB) 300 demo_log = Some S'" "log_ok S'"
      "wrote_only (\<lambda>_ S. S) {0, 1} demo_log S'"
    using log_calls_return [of "\<lambda>_ S. S" demo_log 300 "replicate 300 0xAB" "[]" 0 0 "[]" 0 "[114, 120]" "0x20000000"]
      log_up_ok(1) [OF demo_log_up] by (auto simp: demo_modules_simps(2))
  then show ?thesis by (auto simp: wrote_only_def)
qed

text \<open>
  Lines get mixed up. The buffers are given out by a count of the lines that are being written, so when two
  lines have begun and the first ends, the next line gets the buffer of the second. If it is written before the second
  is queued, the second line is lost and the third is printed twice.
\<close>

theorem log_lines_shared:
  assumes "log_up S ls" and "temp_pos (lg_mgr S) = 0" and "0 \<notin> set a" and "0 \<notin> set b" and "0 \<notin> set c"
    and "frames_total line_frame (ls @ map (take 254) [a, c, c]) \<le> 2048"
  defines "h \<equiv> log_handle (lg_mgr S)"
  shows "\<exists>S1 S2 S3 S4 S5. log_begin 1 S = Some (S1, Some (0, h)) \<and> log_begin 1 S1 = Some (S2, Some (1, h)) \<and>
    early env h a b S2 = Some S3 \<and> log_begin 1 S3 = Some (S4, Some (1, h)) \<and> late env h c S4 = Some S5 \<and>
    log_up S5 (ls @ map (take 254) [a, c, c]) \<and> temp_pos (lg_mgr S5) = 0"
proof -
  define up where "up = upd_log (\<lambda>m. m\<lparr>temp_pos := temp_pos m + 1\<rparr>)"
  have up: "log_up (up X) l = log_up X l" "temp_pos (lg_mgr (up X)) = temp_pos (lg_mgr X) + 1"
    "log_handle (lg_mgr (up X)) = log_handle (lg_mgr X)" for X l by (simp_all add: up_def)
  have b: "log_begin 1 S = Some (up S, Some (0, h))" "log_begin 1 (up S) = Some (up (up S), Some (1, h))"
    using begin_at [OF assms(1), of 0] begin_at [of "up S" ls 1] assms(1,2) by (simp_all add: up h_def up_def [symmetric])
  have r: "frames_total line_frame ls + 4 + length (take 254 a) \<le> 2048"
    "frames_total line_frame ((ls @ [take 254 a]) @ [take 254 c, take 254 c]) \<le> 2048"
    using assms(6) by (simp_all add: line_frame_length)
  obtain S3 where S3: "early env h a b (up (up S)) = Some S3" "log_up S3 (ls @ [take 254 a])" "temp_pos (lg_mgr S3) = 1"
      "log_handle (lg_mgr S3) = h"
    using early_ok [of "up (up S)" ls a b env h] assms(1-4) r(1) by (auto simp: up h_def)
  have b3: "log_begin 1 S3 = Some (up S3, Some (1, h))" using begin_at [OF S3(2), of 1] S3(3,4) by (simp add: up_def)
  obtain S5 where "late env h c (up S3) = Some S5" "log_up S5 ((ls @ [take 254 a]) @ [take 254 c, take 254 c])"
      "temp_pos (lg_mgr S5) = 0"
    using late_ok [of "up S3" "ls @ [take 254 a]" c env h] S3(2,3) assms(5) r(2) by (auto simp: up)
  then show ?thesis using b S3(1) b3 by (intro exI [of _ "up S"] exI [of _ "up (up S)"] exI [of _ S3] exI [of _ "up S3"] exI [of _ S5]) simp
qed

theorem log_lines_shared_witness:
  "\<exists>S1 S2 S3 S4 S5. log_begin 1 demo_log = Some (S1, Some (0, 0x20004000)) \<and> log_begin 1 S1 = Some (S2, Some (1, 0x20004000)) \<and>
    early (\<lambda>_ S. S) 0x20004000 [65] [66] S2 = Some S3 \<and> log_begin 1 S3 = Some (S4, Some (1, 0x20004000)) \<and>
    late (\<lambda>_ S. S) 0x20004000 [67] S4 = Some S5 \<and> log_up S5 [[65], [67], [67]]"
proof -
  have "frames_total line_frame ([] @ map (take 254) [[65], [67], [67]]) \<le> 2048" by (simp add: line_frame_length)
  from log_lines_shared [OF demo_log_up _ _ _ _ this, of "[66]" "\<lambda>_ S. S"] show ?thesis by auto
qed

end
