(* ===== verification/Core.thy ===== *)
theory Core imports Supervise Log begin

text \<open>
  \<^verbatim>\<open>src/core/tbox_core.c\<close>, the core as a whole: memory, log, message tasks, message registry, module manager and
  supervisor are set up, started, stopped and shut down in the order of the file. What the kernel answers during the
  set-up is the argument \<open>boot\<close>; the addresses of the constant names are \<open>names\<close>.
\<close>

section \<open>Data\<close>

definition TBOX_CORE_STATE_NOINIT :: u8 where "TBOX_CORE_STATE_NOINIT = 0"
definition TBOX_CORE_STATE_STOP :: u8 where "TBOX_CORE_STATE_STOP = 1"
definition TBOX_CORE_STATE_START :: u8 where "TBOX_CORE_STATE_START = 2"

record system =
  sy_core :: core_state
  sy_sup :: TBOX_SUPERVISE_MGR
  sy_log :: TBOX_LOG_MGR
  tbox_log_init_seq :: u8
  sy_out :: "u8 list list"
  tbox_core_state :: u8
  tbox_ICORE_id :: TBOX_ID
  tbox_ICORE_handle :: u32

record boot =
  bt_memory :: u32
  bt_memory_mutex :: nat
  bt_log_mutex :: bool
  bt_log_task :: "u32 option"
  bt_task_mutex :: "nat \<Rightarrow> bool"
  bt_task_created :: "nat \<Rightarrow> u32 option"
  bt_task_mgr :: bool
  bt_message_mutex :: bool
  bt_supervise_task :: "u32 option"
  bt_pad :: u8
  bt_task_env :: "nat \<Rightarrow> nat \<Rightarrow> tasks \<Rightarrow> tasks"
  bt_supervise_env :: "nat \<Rightarrow> sup_state \<Rightarrow> sup_state"
  bt_log_env :: "nat \<Rightarrow> log_state \<Rightarrow> log_state"

record names =
  nm_icore :: u32
  nm_memory :: u32
  nm_task :: u32
  nm_update :: u32
  fn_core_init :: u32

text \<open>The parts of the state the operations of a component see.\<close>

definition in_sup :: "(sup_state \<Rightarrow> (sup_state \<times> 'a) option) \<Rightarrow> system \<Rightarrow> (system \<times> 'a) option" where
  "in_sup f S = do {
     (U, x) \<leftarrow> f \<lparr>sup_core = sy_core S, sup_mgr = sy_sup S\<rparr>;
     Some (S\<lparr>sy_core := sup_core U, sy_sup := sup_mgr U\<rparr>, x)
   }"

definition in_log :: "(log_state \<Rightarrow> (log_state \<times> 'a) option) \<Rightarrow> system \<Rightarrow> (system \<times> 'a) option" where
  "in_log f S = do {
     (G, x) \<leftarrow> f \<lparr>lg_core = sy_core S, lg_seq = tbox_log_init_seq S, lg_mgr = sy_log S, lg_out = sy_out S\<rparr>;
     Some (S\<lparr>sy_core := lg_core G, sy_log := lg_mgr G, tbox_log_init_seq := lg_seq G, sy_out := lg_out G\<rparr>, x)
   }"

definition in_core :: "(core_state \<Rightarrow> (core_state \<times> 'a) option) \<Rightarrow> system \<Rightarrow> (system \<times> 'a) option" where
  "in_core f S = do { (C, x) \<leftarrow> f (sy_core S); Some (S\<lparr>sy_core := C\<rparr>, x) }"

definition in_messages :: "(msg_state \<Rightarrow> (msg_state \<times> 'a) option) \<Rightarrow> system \<Rightarrow> (system \<times> 'a) option" where
  "in_messages f = in_core (\<lambda>C. do { (X, x) \<leftarrow> f (core_messages C); Some (C\<lparr>core_messages := X\<rparr>, x) })"

definition in_memory :: "(memory_state \<Rightarrow> (memory_state \<times> 'a) option) \<Rightarrow> system \<Rightarrow> (system \<times> 'a) option" where
  "in_memory f = in_messages (\<lambda>X. do { (M, x) \<leftarrow> f (core_memory X); Some (X\<lparr>core_memory := M\<rparr>, x) })"

definition in_tasks :: "(memory_state \<times> tasks \<Rightarrow> ((memory_state \<times> tasks) \<times> 'a) option) \<Rightarrow> system \<Rightarrow> (system \<times> 'a) option" where
  "in_tasks f = in_core (\<lambda>C. do {
     ((M, T), x) \<leftarrow> f (core_memory (core_messages C), core_tasks C);
     Some (C\<lparr>core_messages := (core_messages C)\<lparr>core_memory := M\<rparr>, core_tasks := T\<rparr>, x)
   })"

text \<open>An operation without an answer.\<close>

definition silent :: "('s \<Rightarrow> 's option) \<Rightarrow> 's \<Rightarrow> ('s \<times> unit) option" where
  "silent f s = map_option (\<lambda>s. (s, ())) (f s)"

text \<open>\<^verbatim>\<open>ret = TBOX_COND_CALL(ret, TBOX_E_OK, f())\<close>\<close>

definition and_then :: "(system \<Rightarrow> (system \<times> TBOX_ERROR_CODE) option) \<Rightarrow> system \<times> TBOX_ERROR_CODE \<Rightarrow>
    (system \<times> TBOX_ERROR_CODE) option" where
  "and_then f = (\<lambda>(S, ret). if ret = TBOX_E_OK then f S else Some (S, ret))"

section \<open>The module of the core\<close>

definition tbox_core_module_init :: "u8 \<Rightarrow> TBOX_ERROR_CODE" where
  "tbox_core_module_init seq = TBOX_E_OK"

definition icore_info :: "names \<Rightarrow> TBOX_MODULE_INFO" where
  "icore_info nm = zero_info\<lparr>in_name := nm_icore nm, in_priority := TBOX_TASK_PRIORITY_MID, in_log_level := LOG_LEVEL_ERROR,
     in_stack_size := 0, in_is_interface := 1, in_is_critical := 0, in_init_fun := fn_core_init nm\<rparr>"

definition core_topic :: "u32 \<Rightarrow> TBOX_MSG_REGINFO" where
  "core_topic name = \<lparr>rg_name = name, rg_priority = 2, rg_type = TBOX_MSG_TYPE_TOPIC, rg_enable = 1\<rparr>"

text \<open>\<^verbatim>\<open>LOAD_TBOX_MODULE(ICORE)\<close>: the three topics, the module, its id and handle.\<close>

definition load_ICORE :: "boot \<Rightarrow> names \<Rightarrow> system \<Rightarrow> system option" where
  "load_ICORE bt nm S = do {
     (S, _) \<leftarrow> in_messages (tbox_message_register (bt_pad bt) (Some (core_topic (nm_memory nm)))) S;
     (S, _) \<leftarrow> in_messages (tbox_message_register (bt_pad bt) (Some (core_topic (nm_task nm)))) S;
     (S, _) \<leftarrow> in_messages (tbox_message_register (bt_pad bt) (Some (core_topic (nm_update nm)))) S;
     let (C, module_id) = tbox_module_register (Some (icore_info nm)) (sy_core S);
     handle \<leftarrow> tbox_module_get_handle module_id C;
     Some (S\<lparr>sy_core := C, tbox_ICORE_id := module_id, tbox_ICORE_handle := handle\<rparr>)
   }"

section \<open>The life of the core\<close>

definition tbox_core_init :: "boot \<Rightarrow> names \<Rightarrow> system \<Rightarrow> (system \<times> TBOX_ERROR_CODE) option" where
  "tbox_core_init bt nm S = do {
     r \<leftarrow> in_memory (\<lambda>M. tbox_memory_init M (bt_memory bt) (bt_memory_mutex bt)) S;
     r \<leftarrow> and_then (in_log (tbox_log_init (bt_log_mutex bt) (bt_log_task bt))) r;
     r \<leftarrow> and_then (in_tasks (tbox_task_init (bt_task_mutex bt) (bt_task_created bt) (bt_task_mgr bt) (bt_task_env bt))) r;
     r \<leftarrow> and_then (in_messages (tbox_message_init (bt_message_mutex bt))) r;
     r \<leftarrow> and_then (in_core (\<lambda>C. Some (tbox_module_init C))) r;
     (S, ret) \<leftarrow> and_then (in_sup (tbox_supervise_init (bt_supervise_env bt) (bt_supervise_task bt))) r;
     S \<leftarrow> (if ret = TBOX_E_OK then load_ICORE bt nm S else Some S);
     Some (S\<lparr>tbox_core_state := TBOX_CORE_STATE_STOP\<rparr>, ret)
   }"

definition tbox_core_deinit :: "boot \<Rightarrow> callbacks \<Rightarrow> system \<Rightarrow> system option" where
  "tbox_core_deinit bt cb S = do {
     (S, _) \<leftarrow> in_core (silent (tbox_module_exit cb)) S;
     (S, _) \<leftarrow> in_tasks (silent (tbox_task_deinit (bt_task_env bt))) S;
     (S, _) \<leftarrow> in_sup (silent (tbox_supervise_deinit (bt_supervise_env bt))) S;
     (S, _) \<leftarrow> in_messages (silent tbox_message_deinit) S;
     (S, _) \<leftarrow> in_log (silent (tbox_log_deinit (bt_log_env bt))) S;
     (S, _) \<leftarrow> in_memory (silent tbox_memory_deinit) S;
     Some (S\<lparr>tbox_core_state := TBOX_CORE_STATE_NOINIT\<rparr>)
   }"

definition tbox_core_start :: "callbacks \<Rightarrow> u8 \<Rightarrow> system \<Rightarrow> (system \<times> TBOX_ERROR_CODE) option" where
  "tbox_core_start cb all_modules S = do {
     (S, _) \<leftarrow> in_log tbox_log_start S;
     r \<leftarrow> and_then (in_core (\<lambda>C. do { (T, ret) \<leftarrow> tbox_task_start (core_tasks C); Some (C\<lparr>core_tasks := T\<rparr>, ret) }))
       (S, TBOX_E_OK);
     (S, ret) \<leftarrow> and_then (in_sup (\<lambda>U. Some (tbox_supervise_start U))) r;
     (S, _) \<leftarrow> (if \<not> tbox_allmodule_istarted (sy_core S) \<and> ret = TBOX_E_OK \<and> all_modules = 1
                then in_core (silent (tbox_module_start cb)) S else Some (S, ()));
     Some (S\<lparr>tbox_core_state := TBOX_CORE_STATE_START\<rparr>, ret)
   }"

definition tbox_core_stop :: "callbacks \<Rightarrow> u8 \<Rightarrow> system \<Rightarrow> system option" where
  "tbox_core_stop cb all_modules S = do {
     (S, _) \<leftarrow> (if \<not> tbox_allmodule_isstoped (sy_core S) \<and> all_modules = 1
                then in_core (silent (tbox_module_stop cb)) S else Some (S, ()));
     (S, _) \<leftarrow> in_core (\<lambda>C. do { (T, ret) \<leftarrow> tbox_task_stop (core_tasks C); Some (C\<lparr>core_tasks := T\<rparr>, ret) }) S;
     (S, _) \<leftarrow> in_sup (silent (\<lambda>U. Some (tbox_supervise_stop U))) S;
     (S, _) \<leftarrow> in_log (silent tbox_log_stop) S;
     Some (S\<lparr>tbox_core_state := TBOX_CORE_STATE_STOP\<rparr>)
   }"

definition tbox_core_get_state :: "system \<Rightarrow> u8" where
  "tbox_core_get_state S = tbox_core_state S"

text \<open>\<open>load\<close>: the function that loads the modules of the product, if there is one.\<close>

definition tbox_core_main :: "boot \<Rightarrow> names \<Rightarrow> callbacks \<Rightarrow> (core_state \<Rightarrow> core_state option) option \<Rightarrow> system \<Rightarrow> system option" where
  "tbox_core_main bt nm cb load S = do {
     (S, ret) \<leftarrow> tbox_core_init bt nm S;
     if ret \<noteq> TBOX_E_OK then Some S
     else do {
       (S, _) \<leftarrow> in_log tbox_log_start S;
       (S, _) \<leftarrow> (case load of None \<Rightarrow> Some (S, ()) | Some f \<Rightarrow> in_core (silent f) S);
       (S, _) \<leftarrow> in_core (silent (tbox_module_init_all_regmodule cb)) S;
       (S, ret) \<leftarrow> tbox_core_start cb 1 S;
       if ret \<noteq> TBOX_E_OK
       then do { S \<leftarrow> tbox_core_stop cb 1 S; tbox_core_deinit bt cb S }
       else Some S
     }
   }"

end
