(* ===== verification/HpmPack.thy ===== *)
theory HpmPack imports Checksum Bytes begin

text \<open>
  \<^verbatim>\<open>src/app/hpm/hpm_pack.c\<close> and the sequence numbers of \<^verbatim>\<open>hpm_session.c\<close>: the frames the device exchanges with the
  platform. A frame is two prefix bytes, a command, the device number of 20 bytes, version and coding, the length of the
  body with its high byte first, the body, and the exclusive or of everything from the version on. Buffers are explicit;
  \<open>None\<close> is an access outside of one. What the other services answer - clock, SIM, configuration - is the argument \<open>hpm_device\<close>.
\<close>

section \<open>Data\<close>

definition HPM_CMD_INVALID :: u8 where "HPM_CMD_INVALID = 0x00"
definition HPM_CMD_LOGIN :: u8 where "HPM_CMD_LOGIN = 0x01"
definition HPM_CMD_LIVE_DATA :: u8 where "HPM_CMD_LIVE_DATA = 0x02"
definition HPM_CMD_REISSUE_DATA :: u8 where "HPM_CMD_REISSUE_DATA = 0x03"
definition HPM_CMD_LOGOUT :: u8 where "HPM_CMD_LOGOUT = 0x04"
definition HPM_CMD_HEART_BEAT :: u8 where "HPM_CMD_HEART_BEAT = 0x05"
definition HPM_CMD_TBOX_COMMON_ACK :: u8 where "HPM_CMD_TBOX_COMMON_ACK = 0x06"
definition HPM_CMD_TBOX_STATUS :: u8 where "HPM_CMD_TBOX_STATUS = 0x07"
definition HPM_CMD_CONTROL :: u8 where "HPM_CMD_CONTROL = 0x81"
definition HPM_CMD_TSP_COMMON_ACK :: u8 where "HPM_CMD_TSP_COMMON_ACK = 0x82"
definition HPM_CMD_CONTROL_CAR :: u8 where "HPM_CMD_CONTROL_CAR = 0x83"

definition HPM_PROTOCOL_VERSION :: u8 where "HPM_PROTOCOL_VERSION = 0x14"
definition HPM_UNIQUE_CODE_LENGTH :: nat where "HPM_UNIQUE_CODE_LENGTH = 20"
definition HPM_DATA_BUFF_LENGTH :: nat where "HPM_DATA_BUFF_LENGTH = 512"
definition HPM_CMD_PREFIX0 :: u8 where "HPM_CMD_PREFIX0 = 0x53"
definition HPM_CMD_PREFIX1 :: u8 where "HPM_CMD_PREFIX1 = 0x4C"
definition HPM_CHECKSUM_POS_START :: nat where "HPM_CHECKSUM_POS_START = 23"
definition HPM_SESSION_RECV_MEM_SIZE :: nat where "HPM_SESSION_RECV_MEM_SIZE = 512"

datatype hpm_parse_recv_step_e = HPM_PARSE_STEP_PERFIX0 | HPM_PARSE_STEP_PERFIX1 | HPM_PARSE_STEP_CMD | HPM_PARSE_STEP_LEN
  | HPM_PARSE_STEP_DATA | HPM_PARSE_STEP_CHECKSUM

datatype hpm_pack_parse_result_e = HPM_PACK_PARSE_OK | HPM_PACK_PARSE_NOT_COMPLETE | HPM_PACK_PARSE_INVALID_PACKET
  | HPM_PACK_PARSE_INVALID_PARAM | HPM_PACK_PARSE_CHECKSUM_ERROR | HPM_PACK_PARSE_OVERFLOW

text \<open>The answer of the platform lies over the first bytes of the body.\<close>

record hpm_pack_recv_t =
  rc_cmd :: u8
  rc_len :: u16
  rc_data :: "u8 list"

definition resp_cmd :: "hpm_pack_recv_t \<Rightarrow> u8" where "resp_cmd p = rc_data p ! 2"
definition resp_result :: "hpm_pack_recv_t \<Rightarrow> u8" where "resp_result p = rc_data p ! 3"

record DEV_TIME =
  tm_year :: u8
  tm_month :: u8
  tm_day :: u8
  tm_hour :: u8
  tm_min :: u8
  tm_sec :: u8

record hpm_device =
  dv_imei :: "u8 list"
  dv_imei_len :: u8
  dv_iccid :: "u8 list"
  dv_vin :: "u8 list option"
  dv_time :: DEV_TIME

text \<open>Bytes into a buffer.\<close>

definition put_at :: "nat \<Rightarrow> u8 list \<Rightarrow> u8 list \<Rightarrow> u8 list option" where
  "put_at pos bs buf = (if pos + length bs \<le> length buf then Some (blit buf pos bs) else None)"

section \<open>Sequence numbers\<close>

record HPM_SESSION_RUN_INFO_T =
  ri_migc :: u32
  ri_login_seq :: u16
  ri_login_date :: u16
  ri_data_seq :: u16
  ri_data_date :: u16

definition HPM_SESSION_RUN_INFO_MIGC :: u32 where "HPM_SESSION_RUN_INFO_MIGC = 0x20260225"

text \<open>The numbers in use, and what was last given to the configuration to keep.\<close>

record hpm_seq =
  run_info :: HPM_SESSION_RUN_INFO_T
  kept_info :: "HPM_SESSION_RUN_INFO_T option"

definition hpm_date :: "hpm_device \<Rightarrow> u16" where
  "hpm_date dv = ucast (tm_month (dv_time dv)) * 100 + ucast (tm_day (dv_time dv))"

definition hpm_session_run_info_write :: "hpm_seq \<Rightarrow> hpm_seq" where
  "hpm_session_run_info_write s = (let r = (run_info s)\<lparr>ri_migc := HPM_SESSION_RUN_INFO_MIGC\<rparr> in
     s\<lparr>run_info := r, kept_info := Some r\<rparr>)"

definition zero_run_info :: HPM_SESSION_RUN_INFO_T where
  "zero_run_info = \<lparr>ri_migc = 0, ri_login_seq = 0, ri_login_date = 0, ri_data_seq = 0, ri_data_date = 0\<rparr>"

definition hpm_session_run_info_read :: "hpm_device \<Rightarrow> hpm_seq \<Rightarrow> hpm_seq" where
  "hpm_session_run_info_read dv s = (let r = (case kept_info s of None \<Rightarrow> zero_run_info | Some r \<Rightarrow> r) in
     if ri_migc r \<noteq> HPM_SESSION_RUN_INFO_MIGC
     then hpm_session_run_info_write (s\<lparr>run_info := r\<lparr>ri_login_date := hpm_date dv, ri_login_seq := 1,
       ri_data_date := hpm_date dv, ri_data_seq := 1\<rparr>\<rparr>)
     else s\<lparr>run_info := r\<rparr>)"

text \<open>A new day starts with 1, and 0 is never used.\<close>

definition next_seq :: "u16 \<Rightarrow> u16" where
  "next_seq n = (if n + 1 = 0 then 1 else n + 1)"

definition hpm_sesion_get_login_seq :: "hpm_device \<Rightarrow> hpm_seq \<Rightarrow> hpm_seq \<times> u8 list" where
  "hpm_sesion_get_login_seq dv s = (let r = run_info s;
     s = (if hpm_date dv \<noteq> ri_login_date r
          then hpm_session_run_info_write (s\<lparr>run_info := r\<lparr>ri_login_date := hpm_date dv, ri_login_seq := 1\<rparr>\<rparr>)
          else s\<lparr>run_info := r\<lparr>ri_login_seq := next_seq (ri_login_seq r)\<rparr>\<rparr>);
     n = ri_login_seq (run_info s)
   in (s, [ucast (drop_bit 8 n), ucast n]))"

definition hpm_session_get_logout_seq :: "hpm_seq \<Rightarrow> u8 list" where
  "hpm_session_get_logout_seq s = (let n = ri_login_seq (run_info s) in [ucast (drop_bit 8 n), ucast n])"

definition hpm_sesion_get_data_seq :: "hpm_device \<Rightarrow> hpm_seq \<Rightarrow> hpm_seq \<times> u8 list" where
  "hpm_sesion_get_data_seq dv s = (let r = run_info s;
     s = (if hpm_date dv \<noteq> ri_data_date r
          then hpm_session_run_info_write (s\<lparr>run_info := r\<lparr>ri_data_date := hpm_date dv, ri_data_seq := 1\<rparr>\<rparr>)
          else s\<lparr>run_info := r\<lparr>ri_data_seq := next_seq (ri_data_seq r)\<rparr>\<rparr>);
     n = ri_data_seq (run_info s)
   in (s, [ucast (drop_bit 8 n), ucast n]))"

section \<open>Packing\<close>

text \<open>Each of these writes at a position and returns how many bytes the code goes on by.\<close>

definition hpm_get_imei :: "hpm_device \<Rightarrow> nat \<Rightarrow> u8 list \<Rightarrow> (u8 list \<times> nat) option" where
  "hpm_get_imei dv pos buf = (let n = unat (dv_imei_len dv) in
     if length (dv_imei dv) < n then None
     else do {
       buf \<leftarrow> put_at pos (map (\<lambda>b. b + 48) (take n (dv_imei dv)) @ replicate (20 - n) 0) buf;
       Some (buf, max n 20)
     })"

definition hpm_get_time :: "hpm_device \<Rightarrow> nat \<Rightarrow> u8 list \<Rightarrow> (u8 list \<times> nat) option" where
  "hpm_get_time dv pos buf = (let t = dv_time dv in do {
     buf \<leftarrow> put_at pos [tm_year t, tm_month t, tm_day t, tm_hour t, tm_min t, tm_sec t] buf;
     Some (buf, 6)
   })"

definition hpm_get_iccid :: "hpm_device \<Rightarrow> nat \<Rightarrow> u8 list \<Rightarrow> (u8 list \<times> nat) option" where
  "hpm_get_iccid dv pos buf =
     (if length (dv_iccid dv) < 20 then None else do { buf \<leftarrow> put_at pos (take 20 (dv_iccid dv)) buf; Some (buf, 20) })"

text \<open>Without a vehicle number the 17 bytes stay as they are in the buffer.\<close>

definition hpm_get_vin :: "hpm_device \<Rightarrow> nat \<Rightarrow> u8 list \<Rightarrow> (u8 list \<times> nat) option" where
  "hpm_get_vin dv pos buf = (case dv_vin dv of
     None \<Rightarrow> Some (buf, 17)
   | Some vin \<Rightarrow> if length vin < 17 then None else do { buf \<leftarrow> put_at pos (take 17 vin) buf; Some (buf, 17) })"

definition hpm_get_delay_cmdid :: "u8 \<Rightarrow> u8" where
  "hpm_get_delay_cmdid cmd =
     (if cmd = HPM_CMD_LIVE_DATA then HPM_CMD_REISSUE_DATA
      else if cmd = HPM_CMD_REISSUE_DATA then HPM_CMD_REISSUE_DATA
      else if cmd = HPM_CMD_TBOX_STATUS then HPM_CMD_TBOX_STATUS
      else if cmd = HPM_CMD_TBOX_COMMON_ACK then HPM_CMD_TBOX_COMMON_ACK
      else 0)"

definition hpm_make_header :: "hpm_device \<Rightarrow> u8 \<Rightarrow> u8 list \<Rightarrow> (u8 list \<times> nat) option" where
  "hpm_make_header dv cmd buf = do {
     buf \<leftarrow> put_at 0 [HPM_CMD_PREFIX0, HPM_CMD_PREFIX1, cmd] buf;
     (buf, n) \<leftarrow> hpm_get_imei dv 3 buf;
     buf \<leftarrow> put_at (3 + n) [HPM_PROTOCOL_VERSION, 0] buf;
     Some (buf, 3 + n + 2)
   }"

text \<open>The check byte, over \<open>n + 4\<close> bytes - the count is a \<^verbatim>\<open>uint16_t\<close> - from the version on.\<close>

definition put_checksum :: "u16 \<Rightarrow> nat \<Rightarrow> u8 list \<Rightarrow> (u8 list \<times> nat) option" where
  "put_checksum datalen len buf = (let n = unat (datalen + 4) in
     if length buf < HPM_UNIQUE_CODE_LENGTH + 3 + n then None
     else do {
       buf \<leftarrow> put_at len [xor_checksum (take n (drop (HPM_UNIQUE_CODE_LENGTH + 3) buf))] buf;
       Some (buf, len + 1)
     })"

definition hpm_pack :: "hpm_device \<Rightarrow> u8 \<Rightarrow> u16 \<Rightarrow> u8 list option \<Rightarrow> u8 list \<Rightarrow> (u8 list \<times> nat) option" where
  "hpm_pack dv cmd datalen data buf = do {
     (buf, len) \<leftarrow> hpm_make_header dv cmd buf;
     buf \<leftarrow> put_at len [ucast (drop_bit 8 datalen), ucast datalen] buf;
     (buf, len) \<leftarrow> (case data of
         None \<Rightarrow> Some (buf, len + 2)
       | Some d \<Rightarrow> if datalen = 0 then Some (buf, len + 2)
           else if length d < unat datalen then None
           else do { buf \<leftarrow> put_at (len + 2) (take (unat datalen) d) buf; Some (buf, len + 2 + unat datalen) });
     put_checksum datalen len buf
   }"

text \<open>The body is written by \<open>cb\<close>, which may change the state \<open>s\<close>.\<close>

definition hpm_pack_data :: "hpm_device \<Rightarrow> u8 \<Rightarrow> (nat \<Rightarrow> 's \<times> u8 list \<Rightarrow> (('s \<times> u8 list) \<times> nat) option) option \<Rightarrow>
    's \<times> u8 list \<Rightarrow> (('s \<times> u8 list) \<times> nat) option" where
  "hpm_pack_data dv cmd cb = (\<lambda>(s, buf). do {
     (buf, len_pos) \<leftarrow> hpm_make_header dv cmd buf;
     let len = len_pos + 2;
     ((s, buf), datalen) \<leftarrow> (case cb of None \<Rightarrow> Some ((s, buf), 0) | Some f \<Rightarrow> f len (s, buf));
     buf \<leftarrow> put_at len_pos [ucast (drop_bit 8 (of_nat datalen :: u16)), of_nat datalen] buf;
     (buf, len) \<leftarrow> put_checksum (of_nat datalen) (len + datalen) buf;
     Some ((s, buf), len)
   })"

definition hpm_pack_login_data_cb :: "hpm_device \<Rightarrow> nat \<Rightarrow> hpm_seq \<times> u8 list \<Rightarrow> ((hpm_seq \<times> u8 list) \<times> nat) option" where
  "hpm_pack_login_data_cb dv pos = (\<lambda>(s, buf). do {
     (buf, n) \<leftarrow> hpm_get_time dv pos buf;
     let len = n;
     let (s, bs) = hpm_sesion_get_login_seq dv s;
     buf \<leftarrow> put_at (pos + len) bs buf;
     let len = len + 2;
     (buf, n) \<leftarrow> hpm_get_iccid dv (pos + len) buf;
     let len = len + n;
     (buf, n) \<leftarrow> hpm_get_vin dv (pos + len) buf;
     Some ((s, buf), len + n)
   })"

definition hpm_pack_login :: "hpm_device \<Rightarrow> hpm_seq \<times> u8 list \<Rightarrow> ((hpm_seq \<times> u8 list) \<times> nat) option" where
  "hpm_pack_login dv = hpm_pack_data dv HPM_CMD_LOGIN (Some (hpm_pack_login_data_cb dv))"

definition hpm_pack_logout_data_cb :: "hpm_device \<Rightarrow> nat \<Rightarrow> hpm_seq \<times> u8 list \<Rightarrow> ((hpm_seq \<times> u8 list) \<times> nat) option" where
  "hpm_pack_logout_data_cb dv pos = (\<lambda>(s, buf). do {
     (buf, n) \<leftarrow> hpm_get_time dv pos buf;
     buf \<leftarrow> put_at (pos + n) (hpm_session_get_logout_seq s) buf;
     Some ((s, buf), n + 2)
   })"

definition hpm_pack_logout :: "hpm_device \<Rightarrow> hpm_seq \<times> u8 list \<Rightarrow> ((hpm_seq \<times> u8 list) \<times> nat) option" where
  "hpm_pack_logout dv = hpm_pack_data dv HPM_CMD_LOGOUT (Some (hpm_pack_logout_data_cb dv))"

definition hpm_pack_heartbeat :: "hpm_device \<Rightarrow> u8 list \<Rightarrow> (u8 list \<times> nat) option" where
  "hpm_pack_heartbeat dv buf = hpm_pack dv HPM_CMD_HEART_BEAT 0 None buf"

text \<open>The type, length and data of a packet.\<close>

definition hpm_pack_report_data :: "hpm_device \<Rightarrow> u8 \<Rightarrow> u16 \<Rightarrow> u8 list \<Rightarrow> u8 list \<Rightarrow> (u8 list \<times> nat) option" where
  "hpm_pack_report_data dv type len data buf = hpm_pack dv type len (Some data) buf"

definition hpm_pack_common_resp :: "hpm_device \<Rightarrow> u8 list \<Rightarrow> u8 list \<Rightarrow> u16 \<Rightarrow> (u8 list \<times> nat) option" where
  "hpm_pack_common_resp dv buf res ret_len = hpm_pack dv HPM_CMD_TBOX_COMMON_ACK ret_len (Some res) buf"

section \<open>Unpacking\<close>

text \<open>The position the parser waits for in each step, and one round of its loop: the answer, or the step, the bytes stored and the packet.\<close>

definition HPM_PARSE_POS_CMD :: nat where "HPM_PARSE_POS_CMD = 2"
definition HPM_PARSE_POS_LENH :: nat where "HPM_PARSE_POS_LENH = 25"
definition HPM_PARSE_POS_LENL :: nat where "HPM_PARSE_POS_LENL = 26"
definition HPM_PARSE_POS_DATA :: nat where "HPM_PARSE_POS_DATA = 27"

type_synonym hpm_parser = "hpm_parse_recv_step_e \<times> u16 \<times> hpm_pack_recv_t"
type_synonym hpm_verdict = "hpm_pack_parse_result_e \<times> u16 \<times> hpm_pack_recv_t"

fun unpack_step :: "u8 list \<Rightarrow> nat \<Rightarrow> hpm_parser \<Rightarrow> (hpm_verdict + hpm_parser) option" where
  "unpack_step data pos (HPM_PARSE_STEP_PERFIX0, body_len, pack) =
     (if pos \<noteq> 0 then Some (Inr (HPM_PARSE_STEP_PERFIX0, body_len, pack))
      else do {
        b \<leftarrow> rd data pos;
        Some (if b = HPM_CMD_PREFIX0 then Inr (HPM_PARSE_STEP_PERFIX1, body_len, pack)
          else Inl (HPM_PACK_PARSE_INVALID_PACKET, 0, pack))
      })"
| "unpack_step data pos (HPM_PARSE_STEP_PERFIX1, body_len, pack) =
     (if pos \<noteq> 1 then Some (Inr (HPM_PARSE_STEP_PERFIX1, body_len, pack))
      else do {
        b \<leftarrow> rd data pos;
        Some (if b = HPM_CMD_PREFIX1 then Inr (HPM_PARSE_STEP_CMD, body_len, pack)
          else Inl (HPM_PACK_PARSE_INVALID_PACKET, 0, pack))
      })"
| "unpack_step data pos (HPM_PARSE_STEP_CMD, body_len, pack) =
     (if pos \<noteq> HPM_PARSE_POS_CMD then Some (Inr (HPM_PARSE_STEP_CMD, body_len, pack))
      else do { b \<leftarrow> rd data pos; Some (Inr (HPM_PARSE_STEP_LEN, body_len, pack\<lparr>rc_cmd := b\<rparr>)) })"
| "unpack_step data pos (HPM_PARSE_STEP_LEN, body_len, pack) =
     (if pos = HPM_PARSE_POS_LENH
      then do { b \<leftarrow> rd data pos; Some (Inr (HPM_PARSE_STEP_LEN, body_len, pack\<lparr>rc_len := push_bit 8 (ucast b)\<rparr>)) }
      else if pos = HPM_PARSE_POS_LENL
      then do {
        b \<leftarrow> rd data pos;
        let pack = pack\<lparr>rc_len := rc_len pack OR ucast b\<rparr>;
        Some (if unat (rc_len pack) \<ge> HPM_DATA_BUFF_LENGTH then Inl (HPM_PACK_PARSE_OVERFLOW, 0, pack)
          else Inr (HPM_PARSE_STEP_DATA, body_len, pack))
      }
      else Some (Inr (HPM_PARSE_STEP_LEN, body_len, pack)))"
| "unpack_step data pos (HPM_PARSE_STEP_DATA, body_len, pack) = do {
     b \<leftarrow> rd data pos;
     bs \<leftarrow> wr (rc_data pack) (unat body_len) b;
     let pack = pack\<lparr>rc_data := bs\<rparr>;
     Some (Inr (if body_len + 1 = rc_len pack then HPM_PARSE_STEP_CHECKSUM else HPM_PARSE_STEP_DATA, body_len + 1, pack))
   }"
| "unpack_step data pos (HPM_PARSE_STEP_CHECKSUM, body_len, pack) = do {
     b \<leftarrow> rd data pos;
     let n = unat (body_len + 4);
     if length data < HPM_CHECKSUM_POS_START + n then None
     else Some (Inl (if xor_checksum (take n (drop HPM_CHECKSUM_POS_START data)) \<noteq> b
       then (HPM_PACK_PARSE_INVALID_PACKET, 0, pack) else (HPM_PACK_PARSE_OK, of_nat (pos + 1), pack)))
   }"

text \<open>The loop over the positions; \<open>n\<close> are left.\<close>

fun unpack_loop :: "u8 list \<Rightarrow> nat \<Rightarrow> nat \<Rightarrow> hpm_parser \<Rightarrow> hpm_verdict option" where
  "unpack_loop data pos 0 (step, body_len, pack) = Some (HPM_PACK_PARSE_NOT_COMPLETE, 0, pack)"
| "unpack_loop data pos (Suc n) p = do {
     r \<leftarrow> unpack_step data pos p;
     case r of Inl v \<Rightarrow> Some v | Inr p \<Rightarrow> unpack_loop data (Suc pos) n p
   }"

text \<open>Without data or length the length parsed is not set.\<close>

definition hpm_pack_unpack :: "u8 list option \<Rightarrow> u16 \<Rightarrow> hpm_pack_recv_t \<Rightarrow> u16 \<Rightarrow> hpm_verdict option" where
  "hpm_pack_unpack data len pack parse_len = (case data of
     None \<Rightarrow> Some (HPM_PACK_PARSE_INVALID_PARAM, parse_len, pack)
   | Some bs \<Rightarrow> if len = 0 then Some (HPM_PACK_PARSE_INVALID_PARAM, parse_len, pack)
       else unpack_loop bs 0 (unat len) (HPM_PARSE_STEP_PERFIX0, 0, pack))"

end
