(* ===== verification/HpmRecv.thy ===== *)
theory HpmRecv imports HpmPack begin

text \<open>
  \<^verbatim>\<open>src/app/hpm/hpm_data_recv.c\<close>: the bytes that come from the platform go into a ring of 1024, and each round the first frame is
  parsed. The calls of the control handler are logged with the command, the data and the length they get.
\<close>

definition HPM_DATA_RECV_BUFFER_SIZE :: nat where "HPM_DATA_RECV_BUFFER_SIZE = 1024"

text \<open>\<open>rq_data\<close> is empty before the initialisation, when the pointer is \<^verbatim>\<open>NULL\<close>.\<close>

record hpm_data_recv_queue_t =
  rq_head :: u16
  rq_tail :: u16
  rq_count :: u16
  rq_data :: "u8 list"

record hpm_recv =
  recv_queue :: hpm_data_recv_queue_t
  recv_info :: hpm_pack_recv_t
  control_calls :: "(u8 \<times> u8 list \<times> u16) list"

definition zero_recv :: hpm_pack_recv_t where
  "zero_recv = \<lparr>rc_cmd = 0, rc_len = 0, rc_data = replicate HPM_SESSION_RECV_MEM_SIZE 0\<rparr>"

section \<open>The ring\<close>

definition hpm_data_recv_count :: "hpm_recv \<Rightarrow> u16" where
  "hpm_data_recv_count R = rq_count (recv_queue R)"

definition hpm_data_recv_empty :: "hpm_recv \<Rightarrow> bool" where
  "hpm_data_recv_empty R \<longleftrightarrow> rq_count (recv_queue R) = 0"

definition hpm_data_recv_clear :: "hpm_recv \<Rightarrow> hpm_recv" where
  "hpm_data_recv_clear R = R\<lparr>recv_queue := (recv_queue R)\<lparr>rq_head := 0, rq_tail := 0, rq_count := 0\<rparr>, recv_info := zero_recv\<rparr>"

definition ring_next :: "u16 \<Rightarrow> u16" where
  "ring_next i = (i + 1) AND 1023"

definition push_byte :: "u8 \<Rightarrow> hpm_data_recv_queue_t \<Rightarrow> hpm_data_recv_queue_t option" where
  "push_byte b q = (let q = (if unat (rq_count q) = HPM_DATA_RECV_BUFFER_SIZE then q\<lparr>rq_head := ring_next (rq_head q)\<rparr>
       else q\<lparr>rq_count := rq_count q + 1\<rparr>) in do {
     bs \<leftarrow> wr (rq_data q) (unat (rq_tail q)) b;
     Some (q\<lparr>rq_data := bs, rq_tail := ring_next (rq_tail q)\<rparr>)
   })"

definition hpm_data_recv_push :: "u8 list option \<Rightarrow> u16 \<Rightarrow> hpm_recv \<Rightarrow> (hpm_recv \<times> u16) option" where
  "hpm_data_recv_push data sz R = (case data of
     None \<Rightarrow> Some (R, 0)
   | Some bs \<Rightarrow> if sz = 0 \<or> unat sz > HPM_DATA_RECV_BUFFER_SIZE then Some (R, 0)
       else do {
         q \<leftarrow> for_up 0 (unat sz) (\<lambda>i q. do { b \<leftarrow> rd bs i; push_byte b q }) (recv_queue R);
         Some (R\<lparr>recv_queue := q\<rparr>, sz)
       })"

definition hpm_data_recv_pop :: "u16 \<Rightarrow> hpm_recv \<Rightarrow> hpm_recv \<times> u16" where
  "hpm_data_recv_pop sz R =
     (if sz = 0 \<or> unat sz > HPM_DATA_RECV_BUFFER_SIZE \<or> hpm_data_recv_empty R then (R, 0)
      else let require = (if sz > rq_count (recv_queue R) then rq_count (recv_queue R) else sz);
        q = fold (\<lambda>_ q. q\<lparr>rq_head := ring_next (rq_head q), rq_count := rq_count q - 1\<rparr>) [0..<unat require] (recv_queue R) in
        (R\<lparr>recv_queue := q\<rparr>, require))"

text \<open>The bytes are written to the front of the caller's memory.\<close>

definition hpm_data_recv_peek :: "u16 \<Rightarrow> hpm_recv \<Rightarrow> u8 list \<Rightarrow> (u8 list \<times> u16) option" where
  "hpm_data_recv_peek sz R dst =
     (if sz = 0 \<or> unat sz > HPM_DATA_RECV_BUFFER_SIZE \<or> hpm_data_recv_empty R then Some (dst, 0)
      else let q = recv_queue R; require = (if sz > rq_count q then rq_count q else sz) in do {
        dst \<leftarrow> for_up 0 (unat require) (\<lambda>i dst. do {
          b \<leftarrow> rd (rq_data q) (unat ((rq_head q + of_nat i) AND 1023));
          wr dst i b
        }) dst;
        Some (dst, require)
      })"

text \<open>\<open>seq = 0\<close> is \<^verbatim>\<open>MODULE_INIT_SEQ_OS\<close>.\<close>

definition hpm_data_recv_init :: "u8 \<Rightarrow> hpm_recv \<Rightarrow> hpm_recv" where
  "hpm_data_recv_init seq R =
     (if seq = 0 then R\<lparr>recv_queue := \<lparr>rq_head = 0, rq_tail = 0, rq_count = 0, rq_data = replicate HPM_DATA_RECV_BUFFER_SIZE 0\<rparr>,
        recv_info := zero_recv\<rparr> else R)"

section \<open>A round\<close>

definition hpm_data_recv_is_server_req :: "u8 \<Rightarrow> bool" where
  "hpm_data_recv_is_server_req cmd \<longleftrightarrow> cmd = HPM_CMD_CONTROL \<or> cmd = HPM_CMD_CONTROL_CAR"

text \<open>\<open>mem\<close>: the memory block, if there is one.\<close>

definition hpm_data_recv_process :: "u8 list option \<Rightarrow> hpm_recv \<Rightarrow> hpm_recv option" where
  "hpm_data_recv_process mem R = (let R = R\<lparr>recv_info := zero_recv\<rparr> in
     if hpm_data_recv_empty R then Some R
     else case mem of
       None \<Rightarrow> Some R
     | Some data \<Rightarrow> do {
         (data, sz) \<leftarrow> hpm_data_recv_peek (of_nat HPM_SESSION_RECV_MEM_SIZE) R data;
         (ret, parselen, info) \<leftarrow> hpm_pack_unpack (Some data) sz (recv_info R) (of_nat HPM_SESSION_RECV_MEM_SIZE);
         let R = R\<lparr>recv_info := info\<rparr>;
         let R = (if ret \<noteq> HPM_PACK_PARSE_NOT_COMPLETE then fst (hpm_data_recv_pop parselen R) else R);
         Some (if hpm_data_recv_is_server_req (rc_cmd info)
           then R\<lparr>control_calls := control_calls R @ [(rc_cmd info, rc_data info, rc_len info)],
             recv_info := info\<lparr>rc_cmd := HPM_CMD_INVALID, rc_len := 0\<rparr>\<rparr>
           else R)
       })"

end
