(* ===== verification/HpmRecvClaims.thy ===== *)
theory HpmRecvClaims imports HpmRecv Ring begin

text \<open>
  The frames and the receive ring: what is packed is parsed back, the ring keeps the last 1024 bytes in order, frames come out
  in order, and a frame that is not accepted stays at the front of the ring.
\<close>

section \<open>The ring as a list\<close>

lemma hpm_sizes [simp]:
  "HPM_DATA_RECV_BUFFER_SIZE = 1024" "HPM_SESSION_RECV_MEM_SIZE = 512" "HPM_DATA_BUFF_LENGTH = 512" "HPM_UNIQUE_CODE_LENGTH = 20"
  "HPM_CHECKSUM_POS_START = 23" "HPM_PARSE_POS_CMD = 2" "HPM_PARSE_POS_LENH = 25" "HPM_PARSE_POS_LENL = 26"
  by (simp_all add: HPM_DATA_RECV_BUFFER_SIZE_def HPM_SESSION_RECV_MEM_SIZE_def HPM_DATA_BUFF_LENGTH_def HPM_UNIQUE_CODE_LENGTH_def
      HPM_CHECKSUM_POS_START_def HPM_PARSE_POS_CMD_def HPM_PARSE_POS_LENH_def HPM_PARSE_POS_LENL_def)

definition recv_inv :: "hpm_data_recv_queue_t \<Rightarrow> bool" where
  "recv_inv q \<longleftrightarrow> length (rq_data q) = 1024 \<and> unat (rq_head q) < 1024 \<and> unat (rq_count q) \<le> 1024 \<and>
     unat (rq_tail q) = (unat (rq_head q) + unat (rq_count q)) mod 1024"

definition recv_bytes :: "hpm_data_recv_queue_t \<Rightarrow> u8 list" where
  "recv_bytes q = ring_read (rq_data q) 1024 (unat (rq_head q)) (unat (rq_count q))"

definition keep_last :: "nat \<Rightarrow> 'a list \<Rightarrow> 'a list" where
  "keep_last n xs = drop (length xs - n) xs"

lemma keep_last_short [simp]: "length xs \<le> n \<Longrightarrow> keep_last n xs = xs"
  by (simp add: keep_last_def)

lemma keep_last_again: "keep_last n (keep_last n xs @ ys) = keep_last n (xs @ ys)"
proof (cases "length xs \<le> n")
  case False
  then have "keep_last n xs @ ys = drop (length xs - n) (xs @ ys)" by (simp add: keep_last_def)
  then show ?thesis using False by (simp add: keep_last_def add.commute)
qed simp

lemma recv_length: "length (recv_bytes q) = unat (rq_count q)"
  by (simp add: recv_bytes_def)

lemma and_1023: "unat (x AND 1023 :: u16) = unat x mod 1024"
proof -
  have m: "(1023 :: u16) = mask 10" by (simp add: mask_eq_exp_minus_1)
  have "x AND 1023 = take_bit 10 x" unfolding m by (rule take_bit_eq_mask [symmetric])
  then have "unat (x AND 1023) = take_bit 10 (unat x)" by (simp add: unsigned_take_bit_eq)
  then show ?thesis by (simp add: take_bit_eq_mod)
qed

lemma ring_next_val: "unat i < 1024 \<Longrightarrow> unat (ring_next i) = (unat i + 1) mod 1024"
  unfolding ring_next_def and_1023 by (subst unat_plus_if_fits) simp_all

lemma push_byte_law:
  assumes q: "recv_inv q"
  shows "\<exists>q'. push_byte b q = Some q' \<and> recv_inv q' \<and> recv_bytes q' = keep_last 1024 (recv_bytes q @ [b])"
proof (cases "unat (rq_count q) = 1024")
  case True
  let ?h = "unat (rq_head q)" and ?q = "q\<lparr>rq_head := ring_next (rq_head q), rq_data := (rq_data q)[unat (rq_tail q) := b],
      rq_tail := ring_next (rq_tail q)\<rparr>"
  have t: "unat (rq_tail q) = ?h" "?h < 1024" "length (rq_data q) = 1024" using q True by (simp_all add: recv_inv_def)
  have p: "push_byte b q = Some ?q" using True t by (simp add: push_byte_def Let_def)
  have at: "(Suc ?h + 1023) mod 1024 = ?h" using t(2) by simp
  have "recv_bytes ?q = ring_read ((rq_data q)[?h := b]) 1024 (Suc ?h) (Suc 1023)"
    using True t by (simp add: recv_bytes_def ring_next_val ring_read_mod)
  also have "\<dots> = ring_read (rq_data q) 1024 (Suc ?h) 1023 @ [b]"
    using ring_read_put [of 1023 1024 "rq_data q" "Suc ?h" b] t(3) unfolding at by simp
  also have "\<dots> = keep_last 1024 (recv_bytes q @ [b])"
    using True by (simp add: keep_last_def recv_bytes_def drop_ring_read)
  finally have c: "recv_bytes ?q = keep_last 1024 (recv_bytes q @ [b])" .
  have "recv_inv ?q" using True t by (simp add: recv_inv_def ring_next_val)
  then show ?thesis using p c by blast
next
  case False
  let ?h = "unat (rq_head q)" and ?n = "unat (rq_count q)"
  let ?q = "q\<lparr>rq_count := rq_count q + 1, rq_data := (rq_data q)[unat (rq_tail q) := b], rq_tail := ring_next (rq_tail q)\<rparr>"
  have n: "?n < 1024" "?h < 1024" "length (rq_data q) = 1024" "unat (rq_tail q) = (?h + ?n) mod 1024"
    using q False by (simp_all add: recv_inv_def)
  have s: "unat (rq_count q + 1) = Suc ?n" using n(1) by (subst unat_plus_if_fits) simp_all
  have p: "push_byte b q = Some ?q" using False n by (simp add: push_byte_def Let_def)
  have c: "recv_bytes ?q = keep_last 1024 (recv_bytes q @ [b])"
    using ring_read_put [of ?n 1024 "rq_data q" ?h b] n s by (simp add: recv_bytes_def)
  have "unat (ring_next (rq_tail q)) = (?h + Suc ?n) mod 1024"
    using n by (simp add: ring_next_val mod_Suc_eq)
  then have "recv_inv ?q" using n s by (simp add: recv_inv_def)
  then show ?thesis using p c by blast
qed

lemma push_law:
  assumes R: "recv_inv (recv_queue R)" and n: "0 < length bs" "length bs \<le> 1024"
  shows "\<exists>q. hpm_data_recv_push (Some bs) (of_nat (length bs)) R = Some (R\<lparr>recv_queue := q\<rparr>, of_nat (length bs)) \<and> recv_inv q \<and>
     recv_bytes q = keep_last 1024 (recv_bytes (recv_queue R) @ bs)"
proof -
  let ?c = "recv_bytes (recv_queue R)"
  have l: "unat (of_nat (length bs) :: u16) = length bs" using n(2) by (simp add: unat_of_nat)
  have "\<exists>q. for_up 0 (length bs) (\<lambda>i q. do { b \<leftarrow> rd bs i; push_byte b q }) (recv_queue R) = Some q \<and>
      (recv_inv q \<and> recv_bytes q = keep_last 1024 (?c @ take (0 + length bs) bs))"
  proof (rule for_up_inv [where I = "\<lambda>i q. recv_inv q \<and> recv_bytes q = keep_last 1024 (?c @ take i bs)"])
    show "recv_inv (recv_queue R) \<and> recv_bytes (recv_queue R) = keep_last 1024 (?c @ take 0 bs)"
      using R by (simp add: recv_length recv_inv_def)
  next
    fix j q assume j: "0 \<le> j" "j < 0 + length bs" and q: "recv_inv q \<and> recv_bytes q = keep_last 1024 (?c @ take j bs)"
    obtain q' where q': "push_byte (bs ! j) q = Some q'" "recv_inv q'" "recv_bytes q' = keep_last 1024 (recv_bytes q @ [bs ! j])"
      using push_byte_law q by blast
    have "recv_bytes q' = keep_last 1024 (?c @ take (Suc j) bs)"
      using q'(3) q j by (simp add: keep_last_again take_Suc_conv_app_nth)
    then show "\<exists>q'. (do { b \<leftarrow> rd bs j; push_byte b q }) = Some q' \<and> recv_inv q' \<and> recv_bytes q' = keep_last 1024 (?c @ take (Suc j) bs)"
      using q' j by simp
  qed
  then show ?thesis using n l by (auto simp: hpm_data_recv_push_def word_unat_eq_iff)
qed

lemma word_of_nat_unat_u16: "of_nat (unat w) = (w :: u16)"
  by simp

lemma pop_fold:
  "recv_inv q \<Longrightarrow> n \<le> unat (rq_count q) \<Longrightarrow>
     let q' = fold (\<lambda>_ q. q\<lparr>rq_head := ring_next (rq_head q), rq_count := rq_count q - 1\<rparr>) [0..<n] q in
       recv_inv q' \<and> recv_bytes q' = drop n (recv_bytes q)"
proof (induction n)
  case (Suc n)
  let ?step = "\<lambda>_ q. q\<lparr>rq_head := ring_next (rq_head q), rq_count := rq_count q - 1\<rparr>"
  define p where "p = fold ?step [0..<n] q"
  have p: "recv_inv p" "recv_bytes p = drop n (recv_bytes q)" using Suc by (simp_all add: p_def Let_def)
  have c: "0 < unat (rq_count p)" using arg_cong [OF p(2), of length] Suc.prems(2) by (simp add: recv_length)
  then have m: "unat (rq_count p - 1) = unat (rq_count p) - 1" by (subst unat_minus_le) (simp_all add: word_le_nat_alt)
  obtain k where k: "unat (rq_count p) = Suc k" using c by (cases "unat (rq_count p)") auto
  have "recv_inv (p\<lparr>rq_head := ring_next (rq_head p), rq_count := rq_count p - 1\<rparr>)"
    using p(1) m k by (simp add: recv_inv_def ring_next_val mod_simps)
  moreover have "recv_bytes (p\<lparr>rq_head := ring_next (rq_head p), rq_count := rq_count p - 1\<rparr>) = drop 1 (recv_bytes p)"
    using p(1) m by (simp add: recv_bytes_def recv_inv_def ring_next_val ring_read_mod drop_ring_read)
  ultimately show ?case using p(2) by (simp add: p_def Let_def)
qed (simp add: Let_def)

lemma pop_law:
  assumes R: "recv_inv (recv_queue R)" and n: "n \<noteq> 0" "unat n \<le> 1024"
  shows "\<exists>q. hpm_data_recv_pop n R = (R\<lparr>recv_queue := q\<rparr>, of_nat (min (unat n) (unat (rq_count (recv_queue R))))) \<and> recv_inv q \<and>
     recv_bytes q = drop (unat n) (recv_bytes (recv_queue R))"
proof (cases "rq_count (recv_queue R) = 0")
  case True
  then have "recv_bytes (recv_queue R) = []" by (simp add: recv_bytes_def)
  then show ?thesis using True R by (intro exI [of _ "recv_queue R"]) (simp add: hpm_data_recv_pop_def hpm_data_recv_empty_def)
next
  case False
  let ?q = "recv_queue R"
  let ?k = "if n > rq_count ?q then rq_count ?q else n"
  have k: "unat ?k = min (unat n) (unat (rq_count ?q))" by (auto simp: word_less_nat_alt)
  then have kk: "?k = of_nat (min (unat n) (unat (rq_count ?q)))" by (metis word_of_nat_unat_u16)
  have "unat ?k \<le> unat (rq_count ?q)" using k by simp
  note f = pop_fold [OF R this]
  have "drop (unat ?k) (recv_bytes ?q) = drop (unat n) (recv_bytes ?q)" by (simp add: k recv_length min_def)
  then show ?thesis using f False n kk unfolding hpm_data_recv_pop_def hpm_data_recv_empty_def Let_def by (auto simp del: unat_of_nat)
qed

lemma peek_law:
  assumes R: "recv_inv (recv_queue R)" and n: "n \<noteq> 0" "unat n \<le> 1024" and d: "unat n \<le> length dst"
  shows "hpm_data_recv_peek n R dst = Some (blit dst 0 (take (unat n) (recv_bytes (recv_queue R))),
     of_nat (min (unat n) (unat (rq_count (recv_queue R)))))"
proof (cases "rq_count (recv_queue R) = 0")
  case True
  then have "recv_bytes (recv_queue R) = []" by (simp add: recv_bytes_def)
  then show ?thesis using True by (simp add: hpm_data_recv_peek_def hpm_data_recv_empty_def)
next
  case False
  let ?q = "recv_queue R"
  let ?k = "if n > rq_count ?q then rq_count ?q else n" and ?c = "recv_bytes ?q"
  let ?body = "\<lambda>i dst. do { b \<leftarrow> rd (rq_data ?q) (unat ((rq_head ?q + of_nat i) AND 1023)); wr dst i b }"
  have k: "unat ?k = min (unat n) (unat (rq_count ?q))" by (auto simp: word_less_nat_alt)
  then have kk: "?k = of_nat (min (unat n) (unat (rq_count ?q)))" by (metis word_of_nat_unat_u16)
  have q: "length (rq_data ?q) = 1024" "unat (rq_head ?q) < 1024" "unat (rq_count ?q) \<le> 1024" using R by (simp_all add: recv_inv_def)
  have "\<exists>d. for_up 0 (unat ?k) ?body dst = Some d \<and> d = blit dst 0 (take (0 + unat ?k) ?c)"
  proof (rule for_up_inv [where I = "\<lambda>i d. d = blit dst 0 (take i ?c)"])
    fix j d' assume j: "0 \<le> j" "j < 0 + unat ?k" and d': "d' = blit dst 0 (take j ?c)"
    have jn: "j < unat (rq_count ?q)" "j < length dst" using j k d by auto
    have "unat ((rq_head ?q + of_nat j) AND 1023) = (unat (rq_head ?q) + j) mod 1024"
      unfolding and_1023 using q jn by (subst unat_plus_if_fits) (auto simp: unat_of_nat)
    then have "?body j d' = Some ((blit dst 0 (take j ?c))[j := ?c ! j])"
      using q jn d' by (simp add: recv_bytes_def blit_def min_def)
    moreover have "(blit dst 0 (take j ?c))[j := ?c ! j] = blit dst 0 (take (Suc j) ?c)"
    proof -
      have "drop j dst = dst ! j # drop (Suc j) dst" using jn(2) by (rule Cons_nth_drop_Suc [symmetric])
      then show ?thesis using jn by (simp add: blit_def recv_length min_def take_Suc_conv_app_nth list_update_append)
    qed
    ultimately show "\<exists>e. ?body j d' = Some e \<and> e = blit dst 0 (take (Suc j) ?c)" by simp
  qed simp
  moreover have "take (unat ?k) ?c = take (unat n) ?c" by (simp add: k recv_length min_def)
  ultimately show ?thesis using False n kk unfolding hpm_data_recv_peek_def hpm_data_recv_empty_def Let_def by simp
qed

section \<open>Any calls on the ring\<close>

datatype ring_call = Push "u8 list" | Pop u16 | Peek u16 | Clear

text \<open>What a call returns: a number, or the bytes it has looked at.\<close>

type_synonym ring_answer = "u16 + u8 list"

fun ring_call_run :: "ring_call \<Rightarrow> hpm_recv \<Rightarrow> (hpm_recv \<times> ring_answer) option" where
  "ring_call_run (Push bs) R = map_option (apsnd Inl) (hpm_data_recv_push (Some bs) (of_nat (length bs)) R)"
| "ring_call_run (Pop n) R = Some (apsnd Inl (hpm_data_recv_pop n R))"
| "ring_call_run (Peek n) R = do {
     (dst, m) \<leftarrow> hpm_data_recv_peek n R (replicate (unat n) 0);
     Some (R, Inr (take (unat m) dst))
   }"
| "ring_call_run Clear R = Some (hpm_data_recv_clear R, Inl 0)"

fun ring_calls_run :: "ring_call list \<Rightarrow> hpm_recv \<Rightarrow> (hpm_recv \<times> ring_answer list) option" where
  "ring_calls_run [] R = Some (R, [])"
| "ring_calls_run (c # cs) R = do {
     (R, a) \<leftarrow> ring_call_run c R;
     (R, as) \<leftarrow> ring_calls_run cs R;
     Some (R, a # as)
   }"

text \<open>The same on the list of the bytes that wait.\<close>

fun spec_call :: "ring_call \<Rightarrow> u8 list \<Rightarrow> u8 list \<times> ring_answer" where
  "spec_call (Push bs) c = (if length bs > 1024 then (c, Inl 0) else (keep_last 1024 (c @ bs), Inl (of_nat (length bs))))"
| "spec_call (Pop n) c = (if unat n > 1024 then (c, Inl 0) else (drop (unat n) c, Inl (of_nat (min (unat n) (length c)))))"
| "spec_call (Peek n) c = (c, Inr (if unat n > 1024 then [] else take (unat n) c))"
| "spec_call Clear c = ([], Inl 0)"

fun spec_calls :: "ring_call list \<Rightarrow> u8 list \<Rightarrow> u8 list \<times> ring_answer list" where
  "spec_calls [] c = (c, [])"
| "spec_calls (x # xs) c = (let (c, a) = spec_call x c; (c, as) = spec_calls xs c in (c, a # as))"

definition push_sized :: "ring_call \<Rightarrow> bool" where
  "push_sized c = (case c of Push bs \<Rightarrow> length bs < 65536 | _ \<Rightarrow> True)"

lemma ring_call_law:
  assumes R: "recv_inv (recv_queue R)" and c: "push_sized c"
  shows "\<exists>R'. ring_call_run c R = Some (R', snd (spec_call c (recv_bytes (recv_queue R)))) \<and> recv_inv (recv_queue R') \<and>
     recv_bytes (recv_queue R') = fst (spec_call c (recv_bytes (recv_queue R)))"
proof (cases c)
  case (Push bs)
  have l: "unat (of_nat (length bs) :: u16) = length bs" using c Push by (simp add: push_sized_def unat_of_nat)
  have k: "length (recv_bytes (recv_queue R)) \<le> 1024" using R by (simp add: recv_length recv_inv_def)
  consider "bs = []" | "length bs > 1024" | "0 < length bs" "length bs \<le> 1024" by fastforce
  then show ?thesis
  proof cases
    case 3
    from push_law [OF R this] Push 3 show ?thesis by auto
  qed (use R Push l k in \<open>simp_all add: hpm_data_recv_push_def\<close>)
next
  case (Pop n)
  show ?thesis
  proof (cases "n = 0 \<or> unat n > 1024")
    case True
    then show ?thesis using R Pop by (auto simp: hpm_data_recv_pop_def)
  next
    case False
    then show ?thesis using pop_law [OF R, of n] Pop by (auto simp: recv_length simp del: of_nat_add)
  qed
next
  case (Peek n)
  show ?thesis
  proof (cases "n = 0 \<or> unat n > 1024")
    case True
    then show ?thesis using R Peek by (auto simp: hpm_data_recv_peek_def)
  next
    case False
    have "unat (rq_count (recv_queue R)) \<le> 1024" using R by (simp add: recv_inv_def)
    then have m: "unat (of_nat (min (unat n) (unat (rq_count (recv_queue R)))) :: u16) = min (unat n) (unat (rq_count (recv_queue R)))"
      by (simp add: unat_of_nat)
    show ?thesis using peek_law [OF R, of n "replicate (unat n) 0"] Peek R False m
      by (auto simp: recv_length blit_def min_def simp del: unat_of_nat)
  qed
next
  case Clear
  then show ?thesis using R by (simp add: hpm_data_recv_clear_def recv_inv_def recv_bytes_def)
qed

lemma ring_calls_law:
  "recv_inv (recv_queue R) \<Longrightarrow> list_all push_sized cs \<Longrightarrow>
     \<exists>R'. ring_calls_run cs R = Some (R', snd (spec_calls cs (recv_bytes (recv_queue R)))) \<and> recv_inv (recv_queue R') \<and>
       recv_bytes (recv_queue R') = fst (spec_calls cs (recv_bytes (recv_queue R)))"
proof (induction cs arbitrary: R)
  case (Cons c cs)
  then obtain R1 where R1: "ring_call_run c R = Some (R1, snd (spec_call c (recv_bytes (recv_queue R))))" "recv_inv (recv_queue R1)"
      "recv_bytes (recv_queue R1) = fst (spec_call c (recv_bytes (recv_queue R)))"
    using ring_call_law [of R c] by auto
  from Cons.IH [OF R1(2)] Cons.prems(2) obtain R2 where
    "ring_calls_run cs R1 = Some (R2, snd (spec_calls cs (recv_bytes (recv_queue R1))))" "recv_inv (recv_queue R2)"
    "recv_bytes (recv_queue R2) = fst (spec_calls cs (recv_bytes (recv_queue R1)))" by auto
  then show ?case using R1 by (simp add: split_beta Let_def)
qed simp

section \<open>Frames\<close>

definition be16 :: "u16 \<Rightarrow> u8 list" where
  "be16 n = [ucast (drop_bit 8 n), ucast n]"

definition hpm_checked :: "u8 list \<Rightarrow> u8 list" where
  "hpm_checked body = [HPM_PROTOCOL_VERSION, 0] @ be16 (of_nat (length body)) @ body"

definition hpm_frame :: "u8 \<Rightarrow> u8 list \<Rightarrow> u8 list \<Rightarrow> u8 list" where
  "hpm_frame cmd code body =
     [HPM_CMD_PREFIX0, HPM_CMD_PREFIX1, cmd] @ code @ hpm_checked body @ [xor_checksum (hpm_checked body)]"

definition device_code :: "hpm_device \<Rightarrow> u8 list" where
  "device_code dv = map (\<lambda>b. b + 48) (take (unat (dv_imei_len dv)) (dv_imei dv)) @ replicate (20 - unat (dv_imei_len dv)) 0"

text \<open>What the SIM service answers: at most 15 digits.\<close>

definition imei_ok :: "hpm_device \<Rightarrow> bool" where
  "imei_ok dv \<longleftrightarrow> unat (dv_imei_len dv) \<le> length (dv_imei dv) \<and> unat (dv_imei_len dv) \<le> 20"

lemma device_code_length: "imei_ok dv \<Longrightarrow> length (device_code dv) = 20"
  by (simp add: device_code_def imei_ok_def)

lemma hpm_checked_length [simp]: "length (hpm_checked body) = 4 + length body" "length (be16 n) = 2"
  by (simp_all add: hpm_checked_def be16_def)

lemma hpm_frame_length: "length code = 20 \<Longrightarrow> length (hpm_frame cmd code body) = 28 + length body"
  by (simp add: hpm_frame_def)

lemma put_next:
  "n = length xs \<Longrightarrow> n + length ys \<le> length buf \<Longrightarrow> put_at n ys (blit buf 0 xs) = Some (blit buf 0 (xs @ ys))"
  using blit_adjacent [of 0 xs ys buf] by (simp add: put_at_def)

lemma header_law:
  assumes dv: "imei_ok dv" and b: "25 \<le> length buf"
  shows "hpm_make_header dv cmd buf =
     Some (blit buf 0 ([HPM_CMD_PREFIX0, HPM_CMD_PREFIX1, cmd] @ device_code dv @ [HPM_PROTOCOL_VERSION, 0]), 25)"
proof -
  let ?p = "[HPM_CMD_PREFIX0, HPM_CMD_PREFIX1, cmd]"
  have c: "length (device_code dv) = 20" by (rule device_code_length [OF dv])
  have 1: "put_at 0 ?p buf = Some (blit buf 0 ?p)" using b by (simp add: put_at_def)
  have 2: "put_at 3 (device_code dv) (blit buf 0 ?p) = Some (blit buf 0 (?p @ device_code dv))"
    using put_next [of 3 ?p "device_code dv" buf] b c by simp
  have 3: "put_at 23 [HPM_PROTOCOL_VERSION, 0] (blit buf 0 (?p @ device_code dv)) =
      Some (blit buf 0 ((?p @ device_code dv) @ [HPM_PROTOCOL_VERSION, 0]))"
    using put_next [of 23 "?p @ device_code dv" "[HPM_PROTOCOL_VERSION, 0]" buf] b c by simp
  have i: "hpm_get_imei dv 3 (blit buf 0 ?p) = Some (blit buf 0 (?p @ device_code dv), 20)"
    using 2 dv unfolding hpm_get_imei_def imei_ok_def by (simp add: device_code_def Let_def)
  show ?thesis unfolding hpm_make_header_def using 1 i 3 by simp
qed

lemma pack_law:
  assumes dv: "imei_ok dv" and n: "unat n \<le> length d" "unat n < 65532" and b: "28 + unat n \<le> length buf"
  shows "hpm_pack dv cmd n (Some d) buf = Some (blit buf 0 (hpm_frame cmd (device_code dv) (take (unat n) d)), 28 + unat n)"
proof -
  let ?h = "[HPM_CMD_PREFIX0, HPM_CMD_PREFIX1, cmd] @ device_code dv @ [HPM_PROTOCOL_VERSION, 0]" and ?body = "take (unat n) d"
  let ?all = "[HPM_CMD_PREFIX0, HPM_CMD_PREFIX1, cmd] @ device_code dv @ hpm_checked ?body"
  have c: "length (device_code dv) = 20" by (rule device_code_length [OF dv])
  have l: "of_nat (length ?body) = n" "length ?body = unat n" using n(1) by simp_all
  have all: "(?h @ be16 n) @ ?body = ?all" using l(1) by (simp add: hpm_checked_def)
  have h: "hpm_make_header dv cmd buf = Some (blit buf 0 ?h, 25)" using header_law [OF dv, of buf cmd] b by simp
  have p1: "put_at 25 (be16 n) (blit buf 0 ?h) = Some (blit buf 0 (?h @ be16 n))"
    using put_next [of 25 ?h "be16 n" buf] b c by simp
  have p2: "put_at 27 ?body (blit buf 0 (?h @ be16 n)) = Some (blit buf 0 ?all)"
    using put_next [of 27 "?h @ be16 n" ?body buf] b c l unfolding all by simp
  have la: "length ?all = 27 + unat n" using c l by simp
  have m: "unat (n + 4) = 4 + unat n" using n(2) by (subst unat_plus_if_fits) simp_all
  have s: "take (4 + unat n) (drop 23 (blit buf 0 ?all)) = hpm_checked ?body" using c l b by (simp add: blit_def)
  have p3: "put_checksum n (27 + unat n) (blit buf 0 ?all) =
      Some (blit buf 0 (?all @ [xor_checksum (hpm_checked ?body)]), 28 + unat n)"
    using put_next [of "27 + unat n" ?all "[xor_checksum (hpm_checked ?body)]" buf] b s m la by (simp add: put_checksum_def Let_def)
  have f: "?all @ [xor_checksum (hpm_checked ?body)] = hpm_frame cmd (device_code dv) ?body" by (simp add: hpm_frame_def)
  show ?thesis
  proof (cases "n = 0")
    case True
    then have "?h @ be16 n = ?all" using all by simp
    then show ?thesis using True h p1 p3 f unfolding hpm_pack_def by (simp add: be16_def)
  next
    case False
    then show ?thesis using h p1 p2 p3 f n(1) unfolding hpm_pack_def by (simp add: be16_def)
  qed
qed

section \<open>The parser\<close>


text \<open>The 22 positions behind the command are passed over.\<close>

lemma unpack_skip:
  "m \<le> 22 \<Longrightarrow> unpack_loop data (25 - m) (m + n) (HPM_PARSE_STEP_LEN, k, p) = unpack_loop data 25 n (HPM_PARSE_STEP_LEN, k, p)"
proof (induction m)
  case (Suc m)
  then have "25 - Suc m \<noteq> 25" "25 - Suc m \<noteq> 26" "Suc (25 - Suc m) = 25 - m" by auto
  then show ?case using Suc by (simp only: add_Suc unpack_loop.simps unpack_step.simps hpm_sizes if_False) simp
qed simp

definition announced :: "u8 list \<Rightarrow> u16" where
  "announced data = push_bit 8 (ucast (data ! 25)) OR ucast (data ! 26)"

lemma unpack_header:
  assumes d: "27 \<le> length data" "data ! 0 = HPM_CMD_PREFIX0" "data ! 1 = HPM_CMD_PREFIX1"
  shows "unpack_loop data 0 (27 + m) (HPM_PARSE_STEP_PERFIX0, 0, p) =
    (if unat (announced data) \<ge> 512 then Some (HPM_PACK_PARSE_OVERFLOW, 0, p\<lparr>rc_cmd := data ! 2, rc_len := announced data\<rparr>)
     else unpack_loop data 27 m (HPM_PARSE_STEP_DATA, 0, p\<lparr>rc_cmd := data ! 2, rc_len := announced data\<rparr>))"
proof -
  have r: "rd data 0 = Some (data ! 0)" "rd data 1 = Some (data ! 1)" "rd data 2 = Some (data ! 2)"
    using d(1) by (auto simp: rd_def)
  have s: "unpack_step data 0 (HPM_PARSE_STEP_PERFIX0, 0, p) = Some (Inr (HPM_PARSE_STEP_PERFIX1, 0, p))"
    "unpack_step data 1 (HPM_PARSE_STEP_PERFIX1, 0, p) = Some (Inr (HPM_PARSE_STEP_CMD, 0, p))"
    "unpack_step data 2 (HPM_PARSE_STEP_CMD, 0, p) = Some (Inr (HPM_PARSE_STEP_LEN, 0, p\<lparr>rc_cmd := data ! 2\<rparr>))"
    using d r by simp_all
  have n: "27 + m = Suc (Suc (Suc (24 + m)))" "Suc 0 = 1" "Suc 1 = 2" "Suc 2 = 3" by simp_all
  have "unpack_loop data 0 (27 + m) (HPM_PARSE_STEP_PERFIX0, 0, p) =
      unpack_loop data 3 (24 + m) (HPM_PARSE_STEP_LEN, 0, p\<lparr>rc_cmd := data ! 2\<rparr>)"
    unfolding n(1) unpack_loop.simps s n(2-4) bind.bind_lunit sum.case ..
  also have "\<dots> = unpack_loop data 25 (Suc (Suc m)) (HPM_PARSE_STEP_LEN, 0, p\<lparr>rc_cmd := data ! 2\<rparr>)"
    using unpack_skip [of 22 data "Suc (Suc m)" 0 "p\<lparr>rc_cmd := data ! 2\<rparr>"] by (simp add: eval_nat_numeral)
  also have "\<dots> = (if unat (announced data) \<ge> 512 then Some (HPM_PACK_PARSE_OVERFLOW, 0, p\<lparr>rc_cmd := data ! 2, rc_len := announced data\<rparr>)
     else unpack_loop data 27 m (HPM_PARSE_STEP_DATA, 0, p\<lparr>rc_cmd := data ! 2, rc_len := announced data\<rparr>))"
    using d(1) by (simp add: announced_def Let_def)
  finally show ?thesis .
qed

text \<open>The body goes to the front of the packet's memory; without a body the parser stores on and on.\<close>

lemma blit_step:
  "j < length dst \<Longrightarrow> j < length bs \<Longrightarrow> (blit dst 0 (take j bs))[j := bs ! j] = blit dst 0 (take (Suc j) bs)"
proof -
  assume j: "j < length dst" "j < length bs"
  have "drop j dst = dst ! j # drop (Suc j) dst" using j(1) by (rule Cons_nth_drop_Suc [symmetric])
  then show ?thesis using j by (simp add: blit_def min_def take_Suc_conv_app_nth list_update_append)
qed

lemma unpack_body:
  assumes p: "length (rc_data p) = 512" "unat (rc_len p) < 512"
  shows "j \<le> unat (rc_len p) \<or> rc_len p = 0 \<and> j \<le> 512 \<Longrightarrow> 27 + j \<le> length data \<Longrightarrow>
    unpack_loop data 27 (j + m) (HPM_PARSE_STEP_DATA, 0, p) = unpack_loop data (27 + j) m
      (if 0 < j \<and> j = unat (rc_len p) then HPM_PARSE_STEP_CHECKSUM else HPM_PARSE_STEP_DATA, of_nat j,
       p\<lparr>rc_data := blit (rc_data p) 0 (take j (drop 27 data))\<rparr>)"
proof (induction j arbitrary: m)
  case (Suc j)
  let ?p = "p\<lparr>rc_data := blit (rc_data p) 0 (take j (drop 27 data))\<rparr>"
  have j: "j < 512" "27 + j < length data" "\<not> (0 < j \<and> j = unat (rc_len p))"
    using Suc.prems p(2) by (auto simp: unat_eq_zero)
  have u: "unat (of_nat j :: u16) = j" using j(1) by (simp add: unat_of_nat)
  have s: "(of_nat j + 1 = rc_len p) = (Suc j = unat (rc_len p))"
  proof -
    have "unat (of_nat j + 1 :: u16) = Suc j" using j(1) u by (subst unat_plus_if_fits) simp_all
    then show ?thesis by (metis word_unat_eq_iff)
  qed
  have l: "length (blit (rc_data p) 0 (take j (drop 27 data))) = 512" using p(1) j by (simp add: blit_def)
  have "unpack_step data (27 + j) (HPM_PARSE_STEP_DATA, of_nat j, ?p) =
      Some (Inr (if Suc j = unat (rc_len p) then HPM_PARSE_STEP_CHECKSUM else HPM_PARSE_STEP_DATA, of_nat (Suc j),
        p\<lparr>rc_data := blit (rc_data p) 0 (take (Suc j) (drop 27 data))\<rparr>))"
    using j l u s p(1) blit_step [of j "rc_data p" "drop 27 data"] by (simp add: Let_def add.commute)
  then have "unpack_loop data (27 + j) (Suc m) (HPM_PARSE_STEP_DATA, of_nat j, ?p) = unpack_loop data (27 + Suc j) m
      (if Suc j = unat (rc_len p) then HPM_PARSE_STEP_CHECKSUM else HPM_PARSE_STEP_DATA, of_nat (Suc j),
        p\<lparr>rc_data := blit (rc_data p) 0 (take (Suc j) (drop 27 data))\<rparr>)" by simp
  moreover have "unpack_loop data 27 (j + Suc m) (HPM_PARSE_STEP_DATA, 0, p) =
      unpack_loop data (27 + j) (Suc m) (HPM_PARSE_STEP_DATA, of_nat j, ?p)"
    using Suc.IH [of "Suc m"] Suc.prems j(3) by auto
  ultimately show ?case by simp
qed simp

text \<open>What the parser says about \<open>n\<close> bytes that begin with the prefix.\<close>

definition body_sum :: "u8 list \<Rightarrow> nat \<Rightarrow> u8" where
  "body_sum data k = xor_checksum (take (k + 4) (drop 23 data))"

definition parsed :: "hpm_pack_recv_t \<Rightarrow> u8 list \<Rightarrow> nat \<Rightarrow> hpm_pack_recv_t" where
  "parsed p data k = p\<lparr>rc_cmd := data ! 2, rc_len := announced data, rc_data := blit (rc_data p) 0 (take k (drop 27 data))\<rparr>"

lemma unpack_verdict:
  assumes d: "27 \<le> n" "n \<le> length data" "n \<le> 512" "data ! 0 = HPM_CMD_PREFIX0" "data ! 1 = HPM_CMD_PREFIX1"
    and p: "length (rc_data p) = 512"
  defines "k \<equiv> unat (announced data)"
  shows "unpack_loop data 0 n (HPM_PARSE_STEP_PERFIX0, 0, p) = Some (
    if k \<ge> 512 then (HPM_PACK_PARSE_OVERFLOW, 0, parsed p data 0)
    else if k = 0 \<or> n < 28 + k then (HPM_PACK_PARSE_NOT_COMPLETE, 0, parsed p data (n - 27))
    else if body_sum data k \<noteq> data ! (27 + k) then (HPM_PACK_PARSE_INVALID_PACKET, 0, parsed p data k)
    else (HPM_PACK_PARSE_OK, of_nat (28 + k), parsed p data k))"
proof -
  let ?p = "p\<lparr>rc_cmd := data ! 2, rc_len := announced data\<rparr>"
  have h: "unpack_loop data 0 n (HPM_PARSE_STEP_PERFIX0, 0, p) =
    (if k \<ge> 512 then Some (HPM_PACK_PARSE_OVERFLOW, 0, ?p) else unpack_loop data 27 (n - 27) (HPM_PARSE_STEP_DATA, 0, ?p))"
    using unpack_header [of data "n - 27" p] d by (simp add: k_def)
  consider "k \<ge> 512" | "k < 512" "k = 0 \<or> n < 28 + k" | "k < 512" "0 < k" "28 + k \<le> n" by fastforce
  then show ?thesis
  proof cases
    case 1
    then show ?thesis using h by (simp add: parsed_def)
  next
    case 2
    have z: "announced data = 0" if "k = 0" using that by (simp add: k_def unat_eq_zero)
    have "unpack_loop data 27 (n - 27 + 0) (HPM_PARSE_STEP_DATA, 0, ?p) = unpack_loop data (27 + (n - 27)) 0
      (if 0 < n - 27 \<and> n - 27 = unat (rc_len ?p) then HPM_PARSE_STEP_CHECKSUM else HPM_PARSE_STEP_DATA, of_nat (n - 27),
       ?p\<lparr>rc_data := blit (rc_data ?p) 0 (take (n - 27) (drop 27 data))\<rparr>)"
    proof (rule unpack_body)
      show "n - 27 \<le> unat (rc_len ?p) \<or> rc_len ?p = 0 \<and> n - 27 \<le> 512"
        using 2(2) d(3) z by (cases "k = 0") (auto simp: k_def)
    qed (use 2(1) d(1,2) p in \<open>simp_all add: k_def\<close>)
    then show ?thesis using h 2 by (auto simp: parsed_def)
  next
    case 3
    have e: "n - 27 - k = Suc (n - 28 - k)" using 3 by simp
    have b: "unpack_loop data 27 (k + (n - 27 - k)) (HPM_PARSE_STEP_DATA, 0, ?p) = unpack_loop data (27 + k) (Suc (n - 28 - k))
      (HPM_PARSE_STEP_CHECKSUM, of_nat k, ?p\<lparr>rc_data := blit (rc_data ?p) 0 (take k (drop 27 data))\<rparr>)"
      using unpack_body [of ?p k data "Suc (n - 28 - k)"] 3 d p unfolding e by (simp add: k_def del: unpack_loop.simps)
    have m: "unat (of_nat k + 4 :: u16) = k + 4" using 3(1) by (subst unat_plus_if_fits) (simp_all add: unat_of_nat)
    have "unpack_step data (27 + k) (HPM_PARSE_STEP_CHECKSUM, of_nat k, parsed p data k) = Some (Inl (
        if body_sum data k \<noteq> data ! (27 + k) then (HPM_PACK_PARSE_INVALID_PACKET, 0, parsed p data k)
        else (HPM_PACK_PARSE_OK, of_nat (28 + k), parsed p data k)))"
      using 3 d m by (simp add: body_sum_def Let_def)
    then show ?thesis using h b 3 by (simp add: parsed_def)
  qed
qed

section \<open>A round\<close>

text \<open>The front of the ring holds a whole frame that the parser accepts.\<close>

definition prefixed :: "u8 list \<Rightarrow> bool" where
  "prefixed c \<longleftrightarrow> 27 \<le> length c \<and> c ! 0 = HPM_CMD_PREFIX0 \<and> c ! 1 = HPM_CMD_PREFIX1"

definition acceptable :: "u8 list \<Rightarrow> bool" where
  "acceptable c \<longleftrightarrow> prefixed c \<and> (let k = unat (announced c) in
     0 < k \<and> 28 + k \<le> min 512 (length c) \<and> body_sum c k = c ! (27 + k))"

text \<open>What the parser sees of a longer or shorter list is the same.\<close>

lemma window:
  fixes c mem :: "u8 list"
  defines "D \<equiv> blit mem 0 (take 512 c)" and "n \<equiv> min 512 (length c)"
  shows "i < n \<Longrightarrow> D ! i = c ! i" and "j + k \<le> n \<Longrightarrow> take k (drop j D) = take k (drop j c)"
    and "512 \<le> length mem \<Longrightarrow> length D = length mem"
proof -
  have "take 512 c = take n c" by (simp add: n_def min_def)
  then have D: "D = take n c @ drop n mem" by (simp add: D_def n_def blit_def min.commute)
  show "i < n \<Longrightarrow> D ! i = c ! i" unfolding D by (simp add: n_def nth_append)
  show "j + k \<le> n \<Longrightarrow> take k (drop j D) = take k (drop j c)"
  proof -
    assume "j + k \<le> n"
    then have "take k (drop j D) = take k (drop j (take n c))" unfolding D by (simp add: n_def)
    also have "\<dots> = take k (drop j c)" using \<open>j + k \<le> n\<close> by (simp add: drop_take min_def)
    finally show ?thesis .
  qed
  show "512 \<le> length mem \<Longrightarrow> length D = length mem" by (simp add: D_def)
qed

lemma zero_recv_length [simp]: "length (rc_data zero_recv) = 512"
  by (simp add: zero_recv_def)

lemma window_verdict:
  assumes c: "prefixed c" and m: "512 \<le> length mem"
  defines "k \<equiv> unat (announced c)" and "n \<equiv> min 512 (length c)"
  shows "unpack_loop (blit mem 0 (take 512 c)) 0 n (HPM_PARSE_STEP_PERFIX0, 0, zero_recv) = Some (
    if k \<ge> 512 then (HPM_PACK_PARSE_OVERFLOW, 0, parsed zero_recv c 0)
    else if k = 0 \<or> n < 28 + k then (HPM_PACK_PARSE_NOT_COMPLETE, 0, parsed zero_recv c (n - 27))
    else if body_sum c k \<noteq> c ! (27 + k) then (HPM_PACK_PARSE_INVALID_PACKET, 0, parsed zero_recv c k)
    else (HPM_PACK_PARSE_OK, of_nat (28 + k), parsed zero_recv c k))"
proof -
  let ?D = "blit mem 0 (take 512 c)"
  have n: "27 \<le> n" "n \<le> length ?D" "n \<le> 512" using c m by (auto simp: prefixed_def n_def)
  note w = window(1) [of _ c mem, folded n_def] window(2) [of _ _ c mem, folded n_def]
  have i: "?D ! 0 = c ! 0" "?D ! 1 = c ! 1" "?D ! 2 = c ! 2" "?D ! 25 = c ! 25" "?D ! 26 = c ! 26" using w(1) n(1) by simp_all
  then have a: "announced ?D = announced c" by (simp add: announced_def)
  have ps: "parsed zero_recv ?D j = parsed zero_recv c j" if "27 + j \<le> n" for j
    using w(2) [of 27 j] that i(3) a by (simp add: parsed_def)
  have bs: "body_sum ?D k = body_sum c k" if "27 + k \<le> n" using w(2) [of 23 "k + 4"] that by (simp add: body_sum_def)
  have v: "unpack_loop ?D 0 n (HPM_PARSE_STEP_PERFIX0, 0, zero_recv) = Some (
    if k \<ge> 512 then (HPM_PACK_PARSE_OVERFLOW, 0, parsed zero_recv ?D 0)
    else if k = 0 \<or> n < 28 + k then (HPM_PACK_PARSE_NOT_COMPLETE, 0, parsed zero_recv ?D (n - 27))
    else if body_sum ?D k \<noteq> ?D ! (27 + k) then (HPM_PACK_PARSE_INVALID_PACKET, 0, parsed zero_recv ?D k)
    else (HPM_PACK_PARSE_OK, of_nat (28 + k), parsed zero_recv ?D k))"
    using unpack_verdict [OF n, of zero_recv] i c unfolding a k_def prefixed_def by simp
  have e: "parsed zero_recv ?D 0 = parsed zero_recv c 0" "parsed zero_recv ?D (n - 27) = parsed zero_recv c (n - 27)"
    using ps [of 0] ps [of "n - 27"] n(1) by simp_all
  show ?thesis
  proof (cases "n < 28 + k")
    case True
    then show ?thesis unfolding v e by simp
  next
    case False
    then show ?thesis using ps [of k] bs w(1) [of "27 + k"] unfolding v e by simp
  qed
qed

text \<open>What is left to do after the parser.\<close>

definition after_parse :: "hpm_pack_parse_result_e \<Rightarrow> u16 \<Rightarrow> hpm_pack_recv_t \<Rightarrow> hpm_recv \<Rightarrow> hpm_recv" where
  "after_parse ret parselen info R = (let R = R\<lparr>recv_info := info\<rparr>;
     R = (if ret \<noteq> HPM_PACK_PARSE_NOT_COMPLETE then fst (hpm_data_recv_pop parselen R) else R) in
     if hpm_data_recv_is_server_req (rc_cmd info)
     then R\<lparr>control_calls := control_calls R @ [(rc_cmd info, rc_data info, rc_len info)],
       recv_info := info\<lparr>rc_cmd := HPM_CMD_INVALID, rc_len := 0\<rparr>\<rparr>
     else R)"

lemma round_law:
  assumes R: "recv_inv (recv_queue R)" "recv_bytes (recv_queue R) = c" "c \<noteq> []" and m: "512 \<le> length mem"
  shows "hpm_data_recv_process (Some mem) R = do {
     (ret, parselen, info) \<leftarrow> unpack_loop (blit mem 0 (take 512 c)) 0 (min 512 (length c)) (HPM_PARSE_STEP_PERFIX0, 0, zero_recv);
     Some (after_parse ret parselen info R)
   }"
proof -
  let ?R = "R\<lparr>recv_info := zero_recv\<rparr>"
  have e: "\<not> hpm_data_recv_empty ?R" using R(2,3) by (auto simp: hpm_data_recv_empty_def recv_bytes_def)
  have k: "unat (rq_count (recv_queue R)) = length c" using R(2) by (metis recv_length)
  have u: "unat (512 :: u16) = 512" by simp
  have pk: "hpm_data_recv_peek 512 ?R mem = Some (blit mem 0 (take 512 c), of_nat (min 512 (length c)))"
    using peek_law [of ?R 512 mem] R(1,2) m k by simp
  have l: "unat (of_nat (min 512 (length c)) :: u16) = min 512 (length c)" by (simp add: unat_of_nat)
  have nz: "(of_nat (min 512 (length c)) :: u16) \<noteq> 0" using l R(3) by (metis length_greater_0_conv min_less_iff_conj not_less_zero unat_0 zero_less_numeral)
  show ?thesis
    using e pk l nz by (simp add: hpm_data_recv_process_def hpm_pack_unpack_def after_parse_def Let_def split_beta del: of_nat_min)
qed

lemma pop_none [simp]: "hpm_data_recv_pop 0 R = (R, 0)"
  by (simp add: hpm_data_recv_pop_def)

definition control_cmd :: "u8 \<Rightarrow> bool" where
  "control_cmd cmd \<longleftrightarrow> cmd = HPM_CMD_CONTROL \<or> cmd = HPM_CMD_CONTROL_CAR"

lemma after_parse_stays:
  "recv_queue (after_parse ret 0 info R) = recv_queue R"
  "control_calls (after_parse ret 0 info R) = control_calls R @
     (if control_cmd (rc_cmd info) then [(rc_cmd info, rc_data info, rc_len info)] else [])"
  "recv_info (after_parse ret 0 info R) =
     (if control_cmd (rc_cmd info) then info\<lparr>rc_cmd := HPM_CMD_INVALID, rc_len := 0\<rparr> else info)"
  by (simp_all add: after_parse_def Let_def hpm_data_recv_is_server_req_def control_cmd_def)

lemma parsed_simps [simp]: "rc_cmd (parsed p c k) = c ! 2" "rc_len (parsed p c k) = announced c"
  "rc_data (parsed p c k) = blit (rc_data p) 0 (take k (drop 27 c))"
  by (simp_all add: parsed_def)

text \<open>A frame that is not accepted stays, but its command is carried out.\<close>

lemma round_rejected:
  assumes R: "recv_inv (recv_queue R)" "recv_bytes (recv_queue R) = c" and c: "prefixed c" "\<not> acceptable c" and m: "512 \<le> length mem"
  shows "\<exists>R' d. hpm_data_recv_process (Some mem) R = Some R' \<and> recv_queue R' = recv_queue R \<and>
    control_calls R' = control_calls R @ (if control_cmd (c ! 2) then [(c ! 2, d, announced c)] else []) \<and>
    rc_cmd (recv_info R') = (if control_cmd (c ! 2) then HPM_CMD_INVALID else c ! 2) \<and>
    (control_cmd (c ! 2) \<or> rc_data (recv_info R') = d) \<and> (\<exists>k. d = blit (replicate 512 0) 0 (take k (drop 27 c)))"
proof -
  let ?k = "unat (announced c)" and ?n = "min 512 (length c)"
  have ne: "c \<noteq> []" using c(1) by (auto simp: prefixed_def)
  obtain ret k where v: "unpack_loop (blit mem 0 (take 512 c)) 0 ?n (HPM_PARSE_STEP_PERFIX0, 0, zero_recv) = Some (ret, 0, parsed zero_recv c k)"
    using window_verdict [OF c(1) m] c by (auto simp: acceptable_def Let_def not_less split: if_splits)
  have "hpm_data_recv_process (Some mem) R = Some (after_parse ret 0 (parsed zero_recv c k) R)"
    unfolding round_law [OF R ne m] v by simp
  then show ?thesis
    by (intro exI [of _ "after_parse ret 0 (parsed zero_recv c k) R"] exI [of _ "blit (replicate 512 0) 0 (take k (drop 27 c))"] conjI exI [of _ k])
      (simp_all add: after_parse_stays zero_recv_def)
qed


section \<open>Frames in the ring\<close>

lemma be16_join: "push_bit 8 (ucast (ucast (drop_bit 8 n) :: u8)) OR ucast (ucast n :: u8) = (n :: u16)"
proof (rule bit_word_eqI)
  fix i assume "i < LENGTH(16)"
  then show "bit (push_bit 8 (ucast (ucast (drop_bit 8 n) :: u8)) OR ucast (ucast n :: u8) :: u16) i = bit n i"
    by (auto simp: bit_simps)
qed

lemma frame_front:
  fixes cmd :: u8 and rest :: "u8 list"
  assumes code: "length code = 20" and b: "0 < length body" "length body \<le> 484"
  defines "c \<equiv> hpm_frame cmd code body @ rest"
  shows "acceptable c" and "c ! 2 = cmd" and "announced c = of_nat (length body)" and "unat (announced c) = length body"
    and "drop (28 + length body) c = rest" and "take (length body) (drop 27 c) = body"
proof -
  let ?b = "be16 (of_nat (length body))"
  have c: "c = ([HPM_CMD_PREFIX0, HPM_CMD_PREFIX1, cmd] @ code) @ hpm_checked body @ [xor_checksum (hpm_checked body)] @ rest"
    by (simp add: c_def hpm_frame_def)
  have l: "length ([HPM_CMD_PREFIX0, HPM_CMD_PREFIX1, cmd] @ code) = 23" using code by simp
  have d23: "drop 23 c = hpm_checked body @ [xor_checksum (hpm_checked body)] @ rest" unfolding c using l by simp
  have lc: "length c = 28 + length body + length rest" using code by (simp add: c)
  then have n: "c ! (23 + i) = drop 23 c ! i" for i by (subst nth_drop) simp_all
  show cmd: "c ! 2 = cmd" by (simp add: c)
  have i: "c ! 25 = ucast (drop_bit 8 (of_nat (length body) :: u16))" "c ! 26 = ucast (of_nat (length body) :: u16)"
    using n [of 2] n [of 3] by (simp_all add: d23 hpm_checked_def be16_def)
  show a: "announced c = of_nat (length body)" unfolding announced_def i by (rule be16_join)
  show k: "unat (announced c) = length body" using a b(2) by (simp add: unat_of_nat)
  have "drop 27 c = drop 4 (drop 23 c)" by simp
  also have "\<dots> = body @ [xor_checksum (hpm_checked body)] @ rest" unfolding d23 by (simp add: hpm_checked_def be16_def)
  finally have d27: "drop 27 c = body @ [xor_checksum (hpm_checked body)] @ rest" .
  then show "take (length body) (drop 27 c) = body" by simp
  have "drop (28 + length body) c = drop (Suc (length body)) (drop 27 c)" by (simp add: add.commute)
  then show "drop (28 + length body) c = rest" unfolding d27 by simp
  have s: "body_sum c (length body) = xor_checksum (hpm_checked body)" unfolding body_sum_def d23 by simp
  have e: "c ! (27 + length body) = xor_checksum (hpm_checked body)"
    using n [of "4 + length body"] by (simp add: d23 nth_append)
  have "prefixed c" using lc by (simp add: prefixed_def) (simp add: c)
  then show "acceptable c" using k s e b lc by (simp add: acceptable_def Let_def)
qed

text \<open>One round after the other, each with memory of its own; the packets they leave.\<close>

fun recv_rounds :: "u8 list list \<Rightarrow> hpm_recv \<Rightarrow> (hpm_recv \<times> hpm_pack_recv_t list) option" where
  "recv_rounds [] R = Some (R, [])"
| "recv_rounds (mem # mems) R = do {
     R \<leftarrow> hpm_data_recv_process (Some mem) R;
     (R', infos) \<leftarrow> recv_rounds mems R;
     Some (R', recv_info R # infos)
   }"






text \<open>Rounds on a front that is not accepted.\<close>

lemma rounds_rejected:
  "recv_inv (recv_queue R) \<Longrightarrow> recv_bytes (recv_queue R) = c \<Longrightarrow> prefixed c \<Longrightarrow> \<not> acceptable c \<Longrightarrow> control_cmd (c ! 2) \<Longrightarrow>
   \<forall>m\<in>set mems. 512 \<le> length m \<Longrightarrow>
   \<exists>R' infos ds. recv_rounds mems R = Some (R', infos) \<and> recv_queue R' = recv_queue R \<and> length ds = length mems \<and>
     control_calls R' = control_calls R @ map (\<lambda>d. (c ! 2, d, announced c)) ds"
proof (induction mems arbitrary: R)
  case (Cons mem mems)
  obtain R1 d where R1: "hpm_data_recv_process (Some mem) R = Some R1" "recv_queue R1 = recv_queue R"
      "control_calls R1 = control_calls R @ [(c ! 2, d, announced c)]"
    using round_rejected [OF Cons.prems(1-4), of mem] Cons.prems(5,6) by auto
  from Cons.IH [of R1] obtain R2 infos ds where "recv_rounds mems R1 = Some (R2, infos)" "recv_queue R2 = recv_queue R1"
      "length ds = length mems" "control_calls R2 = control_calls R1 @ map (\<lambda>d. (c ! 2, d, announced c)) ds"
    using Cons.prems R1(2) by auto
  then show ?case using R1 by (intro exI [of _ R2] exI [of _ "recv_info R1 # infos"] exI [of _ "d # ds"]) simp
qed simp

section \<open>A front that blocks\<close>

text \<open>
  The first byte is not the prefix; or the frame announces no body, or one that does not fit the 512 bytes a round looks at; or it is
  complete and its check byte is wrong.
\<close>

definition blocking :: "u8 list \<Rightarrow> bool" where
  "blocking c \<longleftrightarrow> c \<noteq> [] \<and> c ! 0 \<noteq> HPM_CMD_PREFIX0 \<or>
     prefixed c \<and> (let k = unat (announced c) in k = 0 \<or> 484 < k \<or> 28 + k \<le> length c \<and> body_sum c k \<noteq> c ! (27 + k))"

lemma prefixed_more: "prefixed c \<Longrightarrow> prefixed (c @ d)" "prefixed c \<Longrightarrow> announced (c @ d) = announced c"
  by (auto simp: prefixed_def announced_def nth_append)

lemma body_sum_more: "27 + k \<le> length c \<Longrightarrow> body_sum (c @ d) k = body_sum c k"
  by (simp add: body_sum_def)

lemma blocking_more:
  assumes "blocking c"
  shows "blocking (c @ d)"
proof (cases "c \<noteq> [] \<and> c ! 0 \<noteq> HPM_CMD_PREFIX0")
  case True
  then show ?thesis by (simp add: blocking_def nth_append)
next
  case False
  let ?k = "unat (announced c)"
  have c: "prefixed c" "?k = 0 \<or> 484 < ?k \<or> 28 + ?k \<le> length c \<and> body_sum c ?k \<noteq> c ! (27 + ?k)"
    using assms False by (auto simp: blocking_def Let_def)
  have "28 + ?k \<le> length (c @ d) \<and> body_sum (c @ d) ?k \<noteq> (c @ d) ! (27 + ?k)" if "28 + ?k \<le> length c \<and> body_sum c ?k \<noteq> c ! (27 + ?k)"
    using that body_sum_more [of ?k c d] by (simp add: nth_append)
  then show ?thesis using c prefixed_more [of c d] unfolding blocking_def Let_def by auto
qed

lemma round_blocked:
  assumes R: "recv_inv (recv_queue R)" "blocking (recv_bytes (recv_queue R))" and m: "512 \<le> length mem"
  shows "\<exists>R'. hpm_data_recv_process (Some mem) R = Some R' \<and> recv_queue R' = recv_queue R"
proof (cases "prefixed (recv_bytes (recv_queue R))")
  case True
  have "\<not> acceptable (recv_bytes (recv_queue R))" using R(2) by (auto simp: blocking_def acceptable_def Let_def prefixed_def)
  then show ?thesis using round_rejected [OF R(1) refl True _ m] by blast
next
  case False
  define c where "c = recv_bytes (recv_queue R)"
  have c: "c \<noteq> []" "c ! 0 \<noteq> HPM_CMD_PREFIX0" using R(2) False by (auto simp: blocking_def c_def)
  define D where "D = blit mem 0 (take 512 c)"
  have D: "D ! 0 = c ! 0" "rd D 0 = Some (c ! 0)"
    using window(1) [of 0 c mem] window(3) [OF m, of c] m c(1) by (auto simp: D_def rd_def)
  obtain n where n: "min 512 (length c) = Suc n" using c(1) by (metis gr0_conv_Suc length_greater_0_conv min_less_iff_conj zero_less_numeral)
  have "unpack_loop D 0 (Suc n) (HPM_PARSE_STEP_PERFIX0, 0, zero_recv) = Some (HPM_PACK_PARSE_INVALID_PACKET, 0, zero_recv)"
    using c(2) D by simp
  then have "hpm_data_recv_process (Some mem) R = Some (after_parse HPM_PACK_PARSE_INVALID_PACKET 0 zero_recv R)"
    unfolding round_law [OF R(1) refl c(1) [unfolded c_def] m] by (simp add: D_def [symmetric] c_def [symmetric] n del: unpack_loop.simps)
  then show ?thesis by (simp add: after_parse_stays)
qed

datatype recv_act = Arrive "u8 list" | Round "u8 list"

fun recv_run :: "recv_act list \<Rightarrow> hpm_recv \<Rightarrow> hpm_recv option" where
  "recv_run [] R = Some R"
| "recv_run (Arrive bs # acts) R = do { (R, _) \<leftarrow> hpm_data_recv_push (Some bs) (of_nat (length bs)) R; recv_run acts R }"
| "recv_run (Round mem # acts) R = do { R \<leftarrow> hpm_data_recv_process (Some mem) R; recv_run acts R }"

fun arrivals :: "recv_act list \<Rightarrow> u8 list" where
  "arrivals [] = []"
| "arrivals (Arrive bs # acts) = bs @ arrivals acts"
| "arrivals (Round mem # acts) = arrivals acts"

lemma run_blocked:
  "recv_inv (recv_queue R) \<Longrightarrow> blocking (recv_bytes (recv_queue R)) \<Longrightarrow>
   length (recv_bytes (recv_queue R)) + length (arrivals acts) \<le> 1024 \<Longrightarrow> (\<And>mem. Round mem \<in> set acts \<Longrightarrow> 512 \<le> length mem) \<Longrightarrow>
   \<exists>R'. recv_run acts R = Some R' \<and> recv_inv (recv_queue R') \<and> recv_bytes (recv_queue R') = recv_bytes (recv_queue R) @ arrivals acts"
proof (induction acts arbitrary: R)
  case (Cons a acts)
  show ?case
  proof (cases a)
    case (Arrive bs)
    show ?thesis
    proof (cases "bs = []")
      case True
      then show ?thesis using Cons.IH [OF Cons.prems(1,2)] Cons.prems(3,4) Arrive by (simp add: hpm_data_recv_push_def)
    next
      case False
      obtain q where q: "hpm_data_recv_push (Some bs) (of_nat (length bs)) R = Some (R\<lparr>recv_queue := q\<rparr>, of_nat (length bs))" "recv_inv q"
          "recv_bytes q = keep_last 1024 (recv_bytes (recv_queue R) @ bs)"
        using push_law [OF Cons.prems(1), of bs] False Cons.prems(3) Arrive by auto
      have b: "recv_bytes q = recv_bytes (recv_queue R) @ bs" using q(3) Cons.prems(3) Arrive by simp
      from Cons.IH [of "R\<lparr>recv_queue := q\<rparr>"] q(2) b blocking_more [OF Cons.prems(2), of bs] Cons.prems(3,4) Arrive q(1)
      show ?thesis by auto
    qed
  next
    case (Round mem)
    obtain R1 where "hpm_data_recv_process (Some mem) R = Some R1" "recv_queue R1 = recv_queue R"
      using round_blocked [OF Cons.prems(1,2), of mem] Cons.prems(4) Round by auto
    with Cons.IH [of R1] Cons.prems Round show ?thesis by auto
  qed
qed simp

section \<open>Frames that arrive in pieces\<close>

















section \<open>Examples\<close>

definition demo_recv :: hpm_recv where
  "demo_recv = \<lparr>recv_queue = \<lparr>rq_head = 0, rq_tail = 0, rq_count = 0, rq_data = replicate 1024 0\<rparr>, recv_info = zero_recv, control_calls = []\<rparr>"

definition demo_with :: "u8 list \<Rightarrow> hpm_recv" where
  "demo_with bs = fst (the (hpm_data_recv_push (Some bs) (of_nat (length bs)) demo_recv))"

lemma demo_recv_simps [simp]: "recv_inv (recv_queue demo_recv)" "recv_bytes (recv_queue demo_recv) = []" "control_calls demo_recv = []"
  by (simp_all add: demo_recv_def recv_inv_def recv_bytes_def)

lemma demo_with_simps:
  assumes "0 < length bs" and "length bs \<le> 1024"
  shows "recv_inv (recv_queue (demo_with bs))" and "recv_bytes (recv_queue (demo_with bs)) = bs" and "control_calls (demo_with bs) = []"
  using push_law [of demo_recv bs] assms by (auto simp: demo_with_def)

definition demo_code :: "u8 list" where "demo_code = replicate 20 0x30"

section \<open>Properties\<close>

text \<open>
  C11: the receive ring is a queue of the last 1024 bytes. Whatever is called in which order - putting in, taking out, looking, clearing -
  no access leaves the buffer, and each call answers what the same call answers on a list from which the oldest bytes drop when it gets
  longer than 1024.
\<close>

theorem hpm_ring_is_queue:
  assumes "recv_inv (recv_queue R)" and "list_all push_sized cs"
  shows "\<exists>R'. ring_calls_run cs R = Some (R', snd (spec_calls cs (recv_bytes (recv_queue R)))) \<and> recv_inv (recv_queue R') \<and>
    recv_bytes (recv_queue R') = fst (spec_calls cs (recv_bytes (recv_queue R)))"
  using assms by (rule ring_calls_law)

theorem hpm_ring_is_queue_witness:
  "\<exists>R'. ring_calls_run [Push [1, 2, 3], Pop 1, Peek 5] demo_recv = Some (R', [Inl 3, Inl 1, Inr [2, 3]]) \<and>
    recv_bytes (recv_queue R') = [2, 3]"
  using hpm_ring_is_queue [of demo_recv "[Push [1, 2, 3], Pop 1, Peek 5]"] by (auto simp: push_sized_def)

text \<open>
  C12: what one side packs the other parses. For a body of 1 to 484 bytes in a buffer with room, packing writes exactly the
  frame, and parsing at least that many bytes of it answers that a frame of this length was found, with the command, the length and the body.
\<close>

theorem hpm_pack_unpack_roundtrip:
  assumes "imei_ok dv" and "0 < unat n" and "unat n \<le> 484" and "unat n \<le> length d" and "28 + unat n \<le> length buf"
    and "28 + unat n \<le> unat len" and "unat len \<le> min 512 (length buf)" and "length (rc_data p) = 512"
  shows "\<exists>buf'. hpm_pack dv cmd n (Some d) buf = Some (buf', 28 + unat n) \<and>
    hpm_pack_unpack (Some buf') len p parse_len =
      Some (HPM_PACK_PARSE_OK, 28 + n, \<lparr>rc_cmd = cmd, rc_len = n, rc_data = blit (rc_data p) 0 (take (unat n) d)\<rparr>)"
proof -
  let ?body = "take (unat n) d"
  define buf' where "buf' = blit buf 0 (hpm_frame cmd (device_code dv) ?body)"
  have l: "length ?body = unat n" "of_nat (length ?body) = n" using assms(4) by simp_all
  have pk: "hpm_pack dv cmd n (Some d) buf = Some (buf', 28 + unat n)"
    using pack_law [OF assms(1,4) _ assms(5)] assms(3) by (simp add: buf'_def)
  have lf: "length (hpm_frame cmd (device_code dv) ?body) = 28 + unat n"
    using hpm_frame_length [OF device_code_length [OF assms(1)]] l by simp
  have b: "buf' = hpm_frame cmd (device_code dv) ?body @ drop (28 + unat n) buf" using lf by (simp add: buf'_def blit_def)
  have lb: "length buf' = length buf" using lf assms(5) by (simp add: buf'_def)
  note f = frame_front [OF device_code_length [OF assms(1)], of ?body cmd "drop (28 + unat n) buf", folded b, unfolded l]
  have a: "acceptable buf'" "buf' ! 2 = cmd" "announced buf' = n" "take (unat n) (drop 27 buf') = ?body" using f assms(2,3) by simp_all
  have pr: "buf' ! 0 = HPM_CMD_PREFIX0" "buf' ! 1 = HPM_CMD_PREFIX1" "body_sum buf' (unat n) = buf' ! (27 + unat n)"
    using a(1,3) by (auto simp: acceptable_def prefixed_def Let_def)
  have "parsed p buf' (unat n) = \<lparr>rc_cmd = cmd, rc_len = n, rc_data = blit (rc_data p) 0 ?body\<rparr>" using a by (simp add: parsed_def)
  moreover have "len \<noteq> 0" using assms(6) by auto
  ultimately have "hpm_pack_unpack (Some buf') len p parse_len =
      Some (HPM_PACK_PARSE_OK, of_nat (28 + unat n), \<lparr>rc_cmd = cmd, rc_len = n, rc_data = blit (rc_data p) 0 ?body\<rparr>)"
    using unpack_verdict [of "unat len" buf' p] pr a(3) assms(2,3,6-8) lb by (simp add: hpm_pack_unpack_def)
  then show ?thesis using pk by auto
qed




theorem hpm_pack_unpack_roundtrip_witness:
  "\<exists>buf'. hpm_pack \<lparr>dv_imei = [8, 6], dv_imei_len = 2, dv_iccid = [], dv_vin = None,
        dv_time = \<lparr>tm_year = 25, tm_month = 1, tm_day = 2, tm_hour = 3, tm_min = 4, tm_sec = 5\<rparr>\<rparr> 6 3 (Some [7, 8, 9]) (replicate 40 0) =
      Some (buf', 31) \<and>
    hpm_pack_unpack (Some buf') 31 zero_recv 0 =
      Some (HPM_PACK_PARSE_OK, 31, \<lparr>rc_cmd = 6, rc_len = 3, rc_data = blit (rc_data zero_recv) 0 [7, 8, 9]\<rparr>)"
  using hpm_pack_unpack_roundtrip [of "\<lparr>dv_imei = [8, 6], dv_imei_len = 2, dv_iccid = [], dv_vin = None,
        dv_time = \<lparr>tm_year = 25, tm_month = 1, tm_day = 2, tm_hour = 3, tm_min = 4, tm_sec = 5\<rparr>\<rparr>" 3 "[7, 8, 9]" "replicate 40 0" 31 zero_recv 6 0]
  by (simp add: imei_ok_def)

text \<open>
  C36: a command is carried out before it is checked. A frame for the device at the front of the ring that is not accepted - its check
  byte is wrong, it has not come completely, it has no body, or a body that is too long - stays there, and every round
  calls the control handler with it again; a frame that announces more than the packet holds with that length.
\<close>

theorem hpm_unchecked_command:
  assumes "recv_inv (recv_queue R)" and "recv_bytes (recv_queue R) = c" and "prefixed c" and "\<not> acceptable c" and "control_cmd (c ! 2)"
    and "\<forall>m\<in>set mems. HPM_SESSION_RECV_MEM_SIZE \<le> length m"
  shows "\<exists>R' infos ds. recv_rounds mems R = Some (R', infos) \<and> recv_queue R' = recv_queue R \<and> length ds = length mems \<and>
    control_calls R' = control_calls R @ map (\<lambda>d. (c ! 2, d, announced c)) ds"
  using rounds_rejected [OF assms(1-5)] assms(6) by simp

text \<open>The frame of one byte with a wrong check byte, and the head of a frame that announces 600 bytes.\<close>

definition demo_bad :: "u8 list" where
  "demo_bad = [0x53, 0x4C, 0x81] @ demo_code @ [0x14, 0, 0, 1, 9, 0xFF]"

lemma demo_bad_simps: "length demo_bad = 29" "prefixed demo_bad" "demo_bad ! 2 = 0x81" "announced demo_bad = 1"
  "body_sum demo_bad 1 \<noteq> demo_bad ! 28" "\<not> acceptable demo_bad"
proof -
  have c: "demo_code = [0x30, 0x30, 0x30, 0x30, 0x30, 0x30, 0x30, 0x30, 0x30, 0x30, 0x30, 0x30, 0x30, 0x30, 0x30, 0x30, 0x30, 0x30, 0x30, 0x30]"
    by (simp add: demo_code_def numeral_eq_Suc)
  show l: "length demo_bad = 29" "prefixed demo_bad" "demo_bad ! 2 = 0x81" and a: "announced demo_bad = 1"
    by (simp_all add: demo_bad_def c prefixed_def announced_def HPM_CMD_PREFIX0_def HPM_CMD_PREFIX1_def)
  show s: "body_sum demo_bad 1 \<noteq> demo_bad ! 28" by (simp add: demo_bad_def c body_sum_def xor_checksum_def)
  show "\<not> acceptable demo_bad" using a s by (simp add: acceptable_def Let_def)
qed

theorem hpm_unchecked_command_witness:
  "\<exists>R' infos d1 d2. recv_rounds [replicate 512 0, replicate 512 0] (demo_with demo_bad) = Some (R', infos) \<and>
    recv_queue R' = recv_queue (demo_with demo_bad) \<and> control_calls R' = [(0x81, d1, 1), (0x81, d2, 1)]"
proof -
  have d: "recv_inv (recv_queue (demo_with demo_bad))" "recv_bytes (recv_queue (demo_with demo_bad)) = demo_bad" "control_calls (demo_with demo_bad) = []"
    using demo_with_simps [of demo_bad] demo_bad_simps(1) by simp_all
  obtain R' infos ds where r: "recv_rounds [replicate 512 0, replicate 512 0] (demo_with demo_bad) = Some (R', infos)"
      "recv_queue R' = recv_queue (demo_with demo_bad)" "length ds = Suc (Suc 0)" "control_calls R' = map (\<lambda>d. (0x81, d, 1)) ds"
    using hpm_unchecked_command [OF d(1,2) demo_bad_simps(2,6), of "[replicate 512 0, replicate 512 0]"] d(3) demo_bad_simps(3,4)
    by (auto simp: control_cmd_def HPM_CMD_CONTROL_def simp del: recv_rounds.simps)
  from r(3) obtain d1 d2 where "ds = [d1, d2]" by (auto simp: length_Suc_conv)
  with r show ?thesis by simp
qed

text \<open>
  C37: one bad frame stops the reception. When the front of the ring does not begin with the prefix byte, or is a frame without body,
  with a body of more than 484 bytes, or with a wrong check byte, no round ever takes anything out: whatever arrives, up to the size of the
  ring, waits behind it.
\<close>

theorem hpm_bad_front_blocks:
  assumes "recv_inv (recv_queue R)" and "blocking (recv_bytes (recv_queue R))"
    and "length (recv_bytes (recv_queue R)) + length (arrivals acts) \<le> HPM_DATA_RECV_BUFFER_SIZE"
    and "\<And>mem. Round mem \<in> set acts \<Longrightarrow> HPM_SESSION_RECV_MEM_SIZE \<le> length mem"
  shows "\<exists>R'. recv_run acts R = Some R' \<and> recv_bytes (recv_queue R') = recv_bytes (recv_queue R) @ arrivals acts"
  using run_blocked [OF assms(1,2)] assms(3,4) by auto

theorem hpm_bad_front_blocks_witness:
  "\<exists>R'. recv_run [Round (replicate 512 0), Arrive (hpm_frame 0x82 demo_code [0, 0, 1, 1]), Round (replicate 512 0)] (demo_with [0, 1]) = Some R' \<and>
    recv_bytes (recv_queue R') = [0, 1] @ hpm_frame 0x82 demo_code [0, 0, 1, 1]"
proof -
  have d: "recv_inv (recv_queue (demo_with [0, 1]))" "recv_bytes (recv_queue (demo_with [0, 1])) = [0, 1]"
    using demo_with_simps [of "[0, 1]"] by simp_all
  have b: "blocking [0, 1]" by (simp add: blocking_def HPM_CMD_PREFIX0_def)
  have l: "length (hpm_frame 0x82 demo_code [0, 0, 1, 1]) = 32" by (simp add: hpm_frame_length demo_code_def)
  from hpm_bad_front_blocks [OF d(1), unfolded d(2), OF b,
      of "[Round (replicate 512 0), Arrive (hpm_frame 0x82 demo_code [0, 0, 1, 1]), Round (replicate 512 0)]"] l
  show ?thesis by auto
qed

end
