(* ===== verification/HpmFlash.thy ===== *)
theory HpmFlash imports HpmPack begin

text \<open>
  \<^verbatim>\<open>src/app/hpm/hpm_flash.c\<close> and \<^verbatim>\<open>hpm_flash_adapter.c\<close>: the reports that could not be sent are kept in flash, in a ring of
  4096 sectors of four packets. The drivers of the card and of the NOR chip are arguments: what a read gives, and
  the device and the success after a write or an erase, on a device of any type. \<open>None\<close> is an access outside of an array.
\<close>

section \<open>Devices\<close>

record 'd flash_driver =
  op_read :: "u32 \<Rightarrow> u32 \<Rightarrow> 'd \<Rightarrow> u8 list option"
  op_write :: "u32 \<Rightarrow> u8 list \<Rightarrow> 'd \<Rightarrow> 'd \<times> bool"
  op_erase :: "u32 \<Rightarrow> u16 \<Rightarrow> 'd \<Rightarrow> 'd \<times> bool"

record 'd flash_drivers =
  drv_sd :: "'d flash_driver"
  drv_nor :: "'d flash_driver"

definition HPM_FLASH_TYPE_MAGIC :: u32 where "HPM_FLASH_TYPE_MAGIC = 0x504D464C"
definition HPM_FLASH_ADAPTER_TYPE_NONE :: u32 where "HPM_FLASH_ADAPTER_TYPE_NONE = 0"
definition HPM_FLASH_ADAPTER_TYPE_SD :: u32 where "HPM_FLASH_ADAPTER_TYPE_SD = 1"
definition HPM_FLASH_ADAPTER_TYPE_NOR :: u32 where "HPM_FLASH_ADAPTER_TYPE_NOR = 2"
definition HPM_FLASH_ADAPTER_TYPE_MAX :: u32 where "HPM_FLASH_ADAPTER_TYPE_MAX = 3"

record hpm_flash_adapter_t =
  fa_magic :: u32
  fa_type :: u32

definition hpm_flash_sd_erase :: "u32 \<Rightarrow> u16 \<Rightarrow> 'd \<Rightarrow> 'd \<times> bool" where
  "hpm_flash_sd_erase addr len d = (d, True)"

definition hpm_flash_ops :: "'d flash_drivers \<Rightarrow> 'd flash_driver list" where
  "hpm_flash_ops drv = [(drv_sd drv)\<lparr>op_erase := hpm_flash_sd_erase\<rparr>, (drv_sd drv)\<lparr>op_erase := hpm_flash_sd_erase\<rparr>, drv_nor drv]"

section \<open>State\<close>

definition HPM_REPO_FLASH_MAGICNO :: u16 where "HPM_REPO_FLASH_MAGICNO = 0x0305"
definition HPM_REPO_FLASH_VER :: u16 where "HPM_REPO_FLASH_VER = 0x1004"
definition HPM_REPO_FLASH_MAX_SECTOR :: u16 where "HPM_REPO_FLASH_MAX_SECTOR = 4096"
definition HPM_REPO_FLASH_PACKET_LEN :: nat where "HPM_REPO_FLASH_PACKET_LEN = 1024"
definition HPM_REPO_FLASH_MAX_PACKET :: u8 where "HPM_REPO_FLASH_MAX_PACKET = 4"
definition HPM_REPO_FLASH_SECTOR_BIT :: nat where "HPM_REPO_FLASH_SECTOR_BIT = 512"
text \<open>The second and the fourth block of \<^verbatim>\<open>flash_def.h\<close>.\<close>

definition FLASH_ADDR_HPM_MGR :: u32 where "FLASH_ADDR_HPM_MGR = 0x00080000"
definition FLASH_ADDR_HPM_DATA :: u32 where "FLASH_ADDR_HPM_DATA = 0x00680000"
definition FLASH_SIZE_HPM_DATA :: u32 where "FLASH_SIZE_HPM_DATA = 0x01000000"

record HPM_REPO_FLASH_POS =
  sector_num :: u16
  packet_num :: u8

record HPM_REPO_FLASH_MGR =
  fm_magic_no :: u16
  fm_ver :: u16
  read_pos :: HPM_REPO_FLASH_POS
  write_pos :: HPM_REPO_FLASH_POS
  sector_bit :: "u8 list"

record 'd hpm_flash =
  flash_adapter :: hpm_flash_adapter_t
  kept_adapter :: "hpm_flash_adapter_t option"
  mgrinfo :: HPM_REPO_FLASH_MGR
  mgrinfo_tmp :: HPM_REPO_FLASH_MGR
  flash_write_flag :: u8
  flash_tick :: u32
  flash_dev :: 'd

definition upd_flash :: "(HPM_REPO_FLASH_MGR \<Rightarrow> HPM_REPO_FLASH_MGR) \<Rightarrow> 'd hpm_flash \<Rightarrow> 'd hpm_flash" where
  "upd_flash f F = F\<lparr>mgrinfo := f (mgrinfo F)\<rparr>"

section \<open>The adapter\<close>

text \<open>The ids the drivers report, if they answer; the chip is asked three times.\<close>

fun find_nor :: "(nat \<Rightarrow> u32 option) \<Rightarrow> nat \<Rightarrow> nat \<Rightarrow> u32" where
  "find_nor ids i 0 = HPM_FLASH_ADAPTER_TYPE_NONE"
| "find_nor ids i (Suc n) = (case ids i of
     Some d \<Rightarrow> if d \<noteq> 0 then HPM_FLASH_ADAPTER_TYPE_NOR else find_nor ids (Suc i) n
   | None \<Rightarrow> find_nor ids (Suc i) n)"

definition hpm_flash_get_type :: "u32 option \<Rightarrow> (nat \<Rightarrow> u32 option) \<Rightarrow> u32" where
  "hpm_flash_get_type sd_id nor_ids = (case sd_id of
     Some d \<Rightarrow> if d \<noteq> 0 then HPM_FLASH_ADAPTER_TYPE_SD else find_nor nor_ids 0 3
   | None \<Rightarrow> find_nor nor_ids 0 3)"

definition hpm_flash_info_save :: "'d hpm_flash \<Rightarrow> 'd hpm_flash" where
  "hpm_flash_info_save F = (let a = (flash_adapter F)\<lparr>fa_magic := HPM_FLASH_TYPE_MAGIC\<rparr> in
     F\<lparr>flash_adapter := a, kept_adapter := Some a\<rparr>)"

definition hpm_flash_info_load :: "u32 option \<Rightarrow> (nat \<Rightarrow> u32 option) \<Rightarrow> 'd hpm_flash \<Rightarrow> 'd hpm_flash" where
  "hpm_flash_info_load sd_id nor_ids F = (let
     a = (case kept_adapter F of None \<Rightarrow> \<lparr>fa_magic = 0, fa_type = 0\<rparr> | Some a \<Rightarrow> a) in
     if fa_magic a \<noteq> HPM_FLASH_TYPE_MAGIC \<or> fa_type a = HPM_FLASH_ADAPTER_TYPE_NONE \<or> fa_type a \<ge> HPM_FLASH_ADAPTER_TYPE_MAX
     then hpm_flash_info_save (F\<lparr>flash_adapter := a\<lparr>fa_type := hpm_flash_get_type sd_id nor_ids\<rparr>\<rparr>)
     else F\<lparr>flash_adapter := a\<rparr>)"

definition hpm_flash_adapter_init :: "u32 option \<Rightarrow> (nat \<Rightarrow> u32 option) \<Rightarrow> 'd hpm_flash \<Rightarrow> 'd hpm_flash" where
  "hpm_flash_adapter_init sd_id nor_ids F = hpm_flash_info_load sd_id nor_ids F"

definition hpm_flash_adapter_read :: "'d flash_drivers \<Rightarrow> u32 \<Rightarrow> u32 \<Rightarrow> 'd hpm_flash \<Rightarrow> u8 list option" where
  "hpm_flash_adapter_read drv addr len F = (let type = fa_type (flash_adapter F) in
     if type \<ge> HPM_FLASH_ADAPTER_TYPE_MAX then None
     else op_read (hpm_flash_ops drv ! unat type) addr len (flash_dev F))"

definition hpm_flash_adapter_write :: "'d flash_drivers \<Rightarrow> u32 \<Rightarrow> u8 list \<Rightarrow> 'd hpm_flash \<Rightarrow> 'd hpm_flash \<times> bool" where
  "hpm_flash_adapter_write drv addr bs F = (let type = fa_type (flash_adapter F) in
     if type \<ge> HPM_FLASH_ADAPTER_TYPE_MAX then (F, False)
     else let (d, ok) = op_write (hpm_flash_ops drv ! unat type) addr bs (flash_dev F) in (F\<lparr>flash_dev := d\<rparr>, ok))"

definition hpm_flash_adapter_erase :: "'d flash_drivers \<Rightarrow> u32 \<Rightarrow> u16 \<Rightarrow> 'd hpm_flash \<Rightarrow> 'd hpm_flash \<times> bool" where
  "hpm_flash_adapter_erase drv addr len F = (let type = fa_type (flash_adapter F) in
     if type \<ge> HPM_FLASH_ADAPTER_TYPE_MAX then (F, False)
     else let (d, ok) = op_erase (hpm_flash_ops drv ! unat type) addr len (flash_dev F) in (F\<lparr>flash_dev := d\<rparr>, ok))"

section \<open>Positions\<close>

text \<open>The bytes of the structure, with its two padding bytes.\<close>

definition pos_bytes :: "HPM_REPO_FLASH_POS \<Rightarrow> u8 list" where
  "pos_bytes p = le16 (sector_num p) @ [packet_num p, 0]"

definition pos_of :: "u8 list \<Rightarrow> HPM_REPO_FLASH_POS" where
  "pos_of bs = \<lparr>sector_num = get16 bs, packet_num = bs ! 2\<rparr>"

definition mgr_bytes :: "HPM_REPO_FLASH_MGR \<Rightarrow> u8 list" where
  "mgr_bytes m = le16 (fm_magic_no m) @ le16 (fm_ver m) @ pos_bytes (read_pos m) @ pos_bytes (write_pos m) @ sector_bit m"

definition mgr_of :: "u8 list \<Rightarrow> HPM_REPO_FLASH_MGR" where
  "mgr_of bs = \<lparr>fm_magic_no = get16 bs, fm_ver = get16 (drop 2 bs), read_pos = pos_of (drop 4 bs), write_pos = pos_of (drop 8 bs),
     sector_bit = drop 12 bs\<rparr>"

definition sizeof_mgr :: u16 where "sizeof_mgr = 524"

definition hpm_flash_load_mgrinfo :: "'d flash_drivers \<Rightarrow> 'd hpm_flash \<Rightarrow> 'd hpm_flash \<times> bool" where
  "hpm_flash_load_mgrinfo drv F = (case hpm_flash_adapter_read drv FLASH_ADDR_HPM_MGR (ucast sizeof_mgr) F of
     None \<Rightarrow> (F, False)
   | Some bs \<Rightarrow> (F\<lparr>mgrinfo := mgr_of bs\<rparr>, True))"

definition fresh_mgrinfo :: HPM_REPO_FLASH_MGR where
  "fresh_mgrinfo = \<lparr>fm_magic_no = HPM_REPO_FLASH_MAGICNO, fm_ver = HPM_REPO_FLASH_VER, read_pos = \<lparr>sector_num = 0, packet_num = 0\<rparr>,
     write_pos = \<lparr>sector_num = 0, packet_num = 0\<rparr>, sector_bit = replicate HPM_REPO_FLASH_SECTOR_BIT 0\<rparr>"

definition hpm_flash_reset_mgrinfo :: "'d hpm_flash \<Rightarrow> 'd hpm_flash" where
  "hpm_flash_reset_mgrinfo F = F\<lparr>mgrinfo := fresh_mgrinfo\<rparr>"

definition hpm_flash_save_mgrinfo :: "'d flash_drivers \<Rightarrow> 'd hpm_flash \<Rightarrow> 'd hpm_flash \<times> bool" where
  "hpm_flash_save_mgrinfo drv F = (let (F, ok) = hpm_flash_adapter_erase drv FLASH_ADDR_HPM_MGR 1 F in
     if \<not> ok then (F, False) else hpm_flash_adapter_write drv FLASH_ADDR_HPM_MGR (mgr_bytes (mgrinfo F)) F)"

definition next_sector :: "u16 \<Rightarrow> u16" where
  "next_sector s = (if s + 1 \<ge> HPM_REPO_FLASH_MAX_SECTOR then 0 else s + 1)"

definition next_pos :: "HPM_REPO_FLASH_POS \<Rightarrow> HPM_REPO_FLASH_POS" where
  "next_pos p = (if packet_num p + 1 \<ge> HPM_REPO_FLASH_MAX_PACKET then \<lparr>sector_num = next_sector (sector_num p), packet_num = 0\<rparr>
     else p\<lparr>packet_num := packet_num p + 1\<rparr>)"

definition hpm_flash_move_next_read_sector :: "'d hpm_flash \<Rightarrow> 'd hpm_flash" where
  "hpm_flash_move_next_read_sector = upd_flash (\<lambda>m. m\<lparr>read_pos := \<lparr>sector_num = next_sector (sector_num (read_pos m)), packet_num = 0\<rparr>\<rparr>)"

definition hpm_flash_move_next_read_pos :: "'d hpm_flash \<Rightarrow> 'd hpm_flash" where
  "hpm_flash_move_next_read_pos = upd_flash (\<lambda>m. m\<lparr>read_pos := next_pos (read_pos m)\<rparr>)"

definition hpm_flash_move_next_write_pos :: "'d hpm_flash \<Rightarrow> 'd hpm_flash" where
  "hpm_flash_move_next_write_pos = upd_flash (\<lambda>m. m\<lparr>write_pos := next_pos (write_pos m)\<rparr>)"

text \<open>\<^verbatim>\<open>HPM_REPO_CALC_ADDR\<close>, \<^verbatim>\<open>HPM_REPO_CALC_SECTOR_ADDR\<close> and the bit of a sector: it has been erased and not been filled.\<close>

definition HPM_REPO_CALC_ADDR :: "HPM_REPO_FLASH_POS \<Rightarrow> u32" where
  "HPM_REPO_CALC_ADDR p = FLASH_ADDR_HPM_DATA + ucast (sector_num p) * 4 * 1024 + ucast (packet_num p) * 1024"

definition HPM_REPO_CALC_SECTOR_ADDR :: "u16 \<Rightarrow> u32" where
  "HPM_REPO_CALC_SECTOR_ADDR s = FLASH_ADDR_HPM_DATA + ucast s * 4 * 1024"

definition sector_erased :: "u16 \<Rightarrow> HPM_REPO_FLASH_MGR \<Rightarrow> bool option" where
  "sector_erased s m = do { b \<leftarrow> rd (sector_bit m) (unat s div 8); Some (bit b (unat s mod 8)) }"

definition mark_sector :: "bool \<Rightarrow> u16 \<Rightarrow> 'd hpm_flash \<Rightarrow> 'd hpm_flash option" where
  "mark_sector e s F = do {
     b \<leftarrow> rd (sector_bit (mgrinfo F)) (unat s div 8);
     bs \<leftarrow> wr (sector_bit (mgrinfo F)) (unat s div 8)
       (if e then b OR push_bit (unat s mod 8) 1 else b AND NOT (push_bit (unat s mod 8) 1));
     Some (upd_flash (\<lambda>m. m\<lparr>sector_bit := bs\<rparr>) F)
   }"

definition zero_pos :: HPM_REPO_FLASH_POS where
  "zero_pos = \<lparr>sector_num = 0, packet_num = 0\<rparr>"

definition beyond :: "u32 \<Rightarrow> bool" where
  "beyond addr \<longleftrightarrow> addr \<ge> FLASH_ADDR_HPM_DATA + FLASH_SIZE_HPM_DATA"

section \<open>Reading and writing a packet\<close>

definition hpm_flash_read :: "'d flash_drivers \<Rightarrow> u16 \<Rightarrow> 'd hpm_flash \<Rightarrow> 'd hpm_flash \<times> u8 list option" where
  "hpm_flash_read drv len F = (let
     F = (if beyond (HPM_REPO_CALC_ADDR (read_pos (mgrinfo F))) then upd_flash (\<lambda>m. m\<lparr>read_pos := zero_pos\<rparr>) F else F) in
     (F, hpm_flash_adapter_read drv (HPM_REPO_CALC_ADDR (read_pos (mgrinfo F))) (ucast len) F))"

text \<open>Erasing the sector before its first packet is written; the reader leaves it.\<close>

definition hpm_flash_prepare :: "'d flash_drivers \<Rightarrow> bool \<Rightarrow> 'd hpm_flash \<Rightarrow> ('d hpm_flash \<times> bool) option" where
  "hpm_flash_prepare drv erased F = (let w = write_pos (mgrinfo F) in
     if erased \<or> packet_num w \<noteq> 0 then Some (F, True)
     else let (F, ok) = hpm_flash_adapter_erase drv (HPM_REPO_CALC_SECTOR_ADDR (sector_num w)) 1 F in
       if \<not> ok then Some (F, False)
       else do {
         F \<leftarrow> mark_sector True (sector_num w) F;
         let r = read_pos (mgrinfo F);
         Some (if sector_num r = sector_num w \<and> packet_num r > packet_num w then hpm_flash_move_next_read_sector F else F, True)
       })"

definition hpm_flash_write :: "'d flash_drivers \<Rightarrow> u8 list \<Rightarrow> 'd hpm_flash \<Rightarrow> ('d hpm_flash \<times> bool) option" where
  "hpm_flash_write drv data F = do {
     _ \<leftarrow> sector_erased (sector_num (write_pos (mgrinfo F))) (mgrinfo F);
     let F = (if beyond (HPM_REPO_CALC_ADDR (write_pos (mgrinfo F))) then upd_flash (\<lambda>m. m\<lparr>write_pos := zero_pos\<rparr>) F else F);
     let w = write_pos (mgrinfo F);
     erased \<leftarrow> sector_erased (sector_num w) (mgrinfo F);
     (F, ok) \<leftarrow> hpm_flash_prepare drv erased F;
     if \<not> ok then Some (F, False)
     else let (F, ok) = hpm_flash_adapter_write drv (HPM_REPO_CALC_ADDR w) data F in
       if \<not> ok then Some (F, False)
       else do {
         F \<leftarrow> (if packet_num w = HPM_REPO_FLASH_MAX_PACKET - 1 then mark_sector False (sector_num w) F else Some F);
         let F = hpm_flash_move_next_write_pos F;
         Some (if read_pos (mgrinfo F) = write_pos (mgrinfo F) then hpm_flash_move_next_read_pos F else F, True)
       }
   }"

definition invalid_pos :: "HPM_REPO_FLASH_POS \<Rightarrow> bool" where
  "invalid_pos p \<longleftrightarrow> sector_num p \<ge> HPM_REPO_FLASH_MAX_SECTOR \<or> packet_num p \<ge> HPM_REPO_FLASH_MAX_PACKET"

text \<open>The header - length, command, check byte - the data, and erased bytes.\<close>

definition page_of :: "u8 \<Rightarrow> u8 list \<Rightarrow> u8 list" where
  "page_of cmd data = blit (replicate HPM_REPO_FLASH_PACKET_LEN 0xFF) 0 (le16 (of_nat (length data)) @ [cmd, xor_checksum data] @ data)"

text \<open>\<open>mem\<close>: there is memory for the packet.\<close>

definition hpm_flash_save_pack :: "'d flash_drivers \<Rightarrow> bool \<Rightarrow> u8 list \<Rightarrow> u16 \<Rightarrow> u8 \<Rightarrow> 'd hpm_flash \<Rightarrow> ('d hpm_flash \<times> bool) option" where
  "hpm_flash_save_pack drv mem data len cmd F = (let
     F = (if invalid_pos (write_pos (mgrinfo F)) then hpm_flash_reset_mgrinfo F else F) in
     if unat len + 4 > HPM_REPO_FLASH_PACKET_LEN then Some (F, False)
     else if \<not> mem then Some (F, False)
     else if length data < unat len then None
     else hpm_flash_write drv (page_of cmd (take (unat len) data)) F)"

text \<open>The command and the data of the oldest packet; the position tested is that of the writer.\<close>

definition hpm_flash_load_pack :: "'d flash_drivers \<Rightarrow> bool \<Rightarrow> 'd hpm_flash \<Rightarrow> 'd hpm_flash \<times> (u8 \<times> u8 list) option" where
  "hpm_flash_load_pack drv mem F =
     (if invalid_pos (write_pos (mgrinfo F)) then ((hpm_flash_reset_mgrinfo F)\<lparr>flash_write_flag := 1\<rparr>, None)
      else if write_pos (mgrinfo F) = read_pos (mgrinfo F) then (F, None)
      else if \<not> mem then (F, None)
      else let (F, got) = hpm_flash_read drv (of_nat HPM_REPO_FLASH_PACKET_LEN) F in (case got of
        None \<Rightarrow> (F, None)
      | Some buf \<Rightarrow> let len = unat (get16 buf); skip = (hpm_flash_move_next_read_pos F)\<lparr>flash_write_flag := 1\<rparr> in
          if len > HPM_REPO_FLASH_PACKET_LEN - 4 then (skip, None)
          else if buf ! 3 \<noteq> xor_checksum (take len (drop 4 buf)) then (skip, None)
          else (hpm_flash_move_next_read_pos F, Some (buf ! 2, take len (drop 4 buf)))))"

section \<open>Set-up and upkeep\<close>

definition hpm_flash_init :: "'d flash_drivers \<Rightarrow> u32 option \<Rightarrow> (nat \<Rightarrow> u32 option) \<Rightarrow> 'd hpm_flash \<Rightarrow> 'd hpm_flash" where
  "hpm_flash_init drv sd_id nor_ids F = (let
     (F, ok) = hpm_flash_load_mgrinfo drv (hpm_flash_adapter_init sd_id nor_ids (F\<lparr>flash_write_flag := 0\<rparr>)) in
     if ok \<and> fm_magic_no (mgrinfo F) = HPM_REPO_FLASH_MAGICNO \<and> fm_ver (mgrinfo F) = HPM_REPO_FLASH_VER then F
     else (hpm_flash_reset_mgrinfo F)\<lparr>flash_write_flag := 1\<rparr>)"

definition hpm_flash_sleep :: "'d flash_drivers \<Rightarrow> 'd hpm_flash \<Rightarrow> 'd hpm_flash" where
  "hpm_flash_sleep drv F = (fst (hpm_flash_save_mgrinfo drv F))\<lparr>flash_tick := 0\<rparr>"

definition hpm_flash_clear_info :: "'d hpm_flash \<Rightarrow> 'd hpm_flash" where
  "hpm_flash_clear_info F = (upd_flash (\<lambda>m. m\<lparr>read_pos := zero_pos, write_pos := zero_pos\<rparr>) F)\<lparr>flash_write_flag := 1\<rparr>"

definition hpm_flash_period :: "'d flash_drivers \<Rightarrow> 'd hpm_flash \<Rightarrow> 'd hpm_flash" where
  "hpm_flash_period drv F =
     (if flash_write_flag F = 1
      then let (F, ok) = hpm_flash_save_mgrinfo drv F in if ok then F\<lparr>flash_write_flag := 0, flash_tick := 0\<rparr> else F
      else let
        F = (if fm_magic_no (mgrinfo_tmp F) \<noteq> fm_magic_no (mgrinfo F) then F\<lparr>mgrinfo_tmp := mgrinfo F\<rparr> else F);
        F = F\<lparr>flash_tick := flash_tick F + 1\<rparr> in
        if flash_tick F \<ge> 600
        then let F = F\<lparr>flash_tick := 0\<rparr> in
          if read_pos (mgrinfo_tmp F) \<noteq> read_pos (mgrinfo F) \<or> write_pos (mgrinfo_tmp F) \<noteq> write_pos (mgrinfo F)
          then F\<lparr>flash_write_flag := 1, mgrinfo_tmp := mgrinfo F\<rparr> else F
        else F)"

text \<open>The two numbers that are printed.\<close>

definition hpm_flash_print_info :: "'d hpm_flash \<Rightarrow> u32 \<times> u32" where
  "hpm_flash_print_info F = (let number = \<lambda>p. ucast (sector_num p) * ucast HPM_REPO_FLASH_MAX_PACKET + ucast (packet_num p) in
     (number (read_pos (mgrinfo F)), number (write_pos (mgrinfo F))))"

end
