(* ===== verification/HpmData.thy ===== *)
theory HpmData imports HpmFlash DList begin

text \<open>
  \<^verbatim>\<open>src/app/hpm/hpm_data.c\<close>: the six packets for reports, each in one of four lists - free, to be sent, to be sent again, sent and not
  acknowledged - and the flash store behind them. A packet is its number; \<open>None\<close> is an access outside of an array, \<^verbatim>\<open>NULL\<close>, or a loop
  that does not end. Whether memory is left for the flash store is an argument.
\<close>

section \<open>State\<close>

definition HPM_PACK_NUM :: nat where "HPM_PACK_NUM = 6"
definition HPM_PACK_BUFF_LEN :: nat where "HPM_PACK_BUFF_LEN = 1024"

record HPM_PACKET =
  pk_data :: "u8 list"
  pk_len :: u16
  pk_type :: u8
  pk_seq :: u16
  pk_list :: addr

text \<open>The lists and the links of the packets are static: each has an address of its own.\<close>

definition hpm_free_list :: addr where "hpm_free_list = 1"
definition hpm_realtm_list :: addr where "hpm_realtm_list = 2"
definition hpm_delay_list :: addr where "hpm_delay_list = 3"
definition hpm_trans_list :: addr where "hpm_trans_list = 4"

definition pack_link :: "nat \<Rightarrow> addr" where
  "pack_link i = 5 + i"

definition pack_of :: "addr \<Rightarrow> nat" where
  "pack_of node = node - 5"

definition pack_or_null :: "addr \<Rightarrow> nat option" where
  "pack_or_null node = (if node = NULL then None else Some (pack_of node))"

record 'd hpm_store =
  store_heap :: dheap
  hpm_data_mem :: "HPM_PACKET list"
  store_flash :: "'d hpm_flash"

datatype HPM_LIST_TYPE = HPM_FREE_LIST | HPM_REPORT_LIST | HPM_DELAY_LIST | HPM_TRANS_LIST

definition pop_first :: "addr \<Rightarrow> 'd hpm_store \<Rightarrow> ('d hpm_store \<times> addr) option" where
  "pop_first dl D = do { (h, node) \<leftarrow> dlist_pop_first_node (store_heap D) dl; Some (D\<lparr>store_heap := h\<rparr>, node) }"

definition pop_last :: "addr \<Rightarrow> 'd hpm_store \<Rightarrow> ('d hpm_store \<times> addr) option" where
  "pop_last dl D = do { (h, node) \<leftarrow> dlist_pop_last_node (store_heap D) dl; Some (D\<lparr>store_heap := h\<rparr>, node) }"

definition add_tail :: "addr \<Rightarrow> addr \<Rightarrow> 'd hpm_store \<Rightarrow> 'd hpm_store option" where
  "add_tail node dl D = do { h \<leftarrow> dlist_add_tail (store_heap D) node dl; Some (D\<lparr>store_heap := h\<rparr>) }"

definition add_head :: "addr \<Rightarrow> addr \<Rightarrow> 'd hpm_store \<Rightarrow> 'd hpm_store option" where
  "add_head node dl D = do { h \<leftarrow> dlist_add_head (store_heap D) node dl; Some (D\<lparr>store_heap := h\<rparr>) }"

definition upd_pack :: "nat \<Rightarrow> (HPM_PACKET \<Rightarrow> HPM_PACKET) \<Rightarrow> 'd hpm_store \<Rightarrow> 'd hpm_store option" where
  "upd_pack i f D = do {
     p \<leftarrow> rd (hpm_data_mem D) i;
     ps \<leftarrow> wr (hpm_data_mem D) i (f p);
     Some (D\<lparr>hpm_data_mem := ps\<rparr>)
   }"

section \<open>Lists\<close>

definition list_head :: "HPM_LIST_TYPE \<Rightarrow> addr" where
  "list_head t = (case t of HPM_FREE_LIST \<Rightarrow> hpm_free_list | HPM_REPORT_LIST \<Rightarrow> hpm_realtm_list | HPM_DELAY_LIST \<Rightarrow> hpm_delay_list
     | HPM_TRANS_LIST \<Rightarrow> hpm_trans_list)"

definition hpm_data_put_to_list :: "HPM_LIST_TYPE \<Rightarrow> nat \<Rightarrow> 'd hpm_store \<Rightarrow> 'd hpm_store option" where
  "hpm_data_put_to_list t i D = do {
     D \<leftarrow> (if t = HPM_DELAY_LIST then upd_pack i (\<lambda>p. p\<lparr>pk_list := hpm_delay_list\<rparr>) D else Some D);
     add_tail (pack_link i) (list_head t) D
   }"

definition hpm_data_get_from_list :: "HPM_LIST_TYPE \<Rightarrow> 'd hpm_store \<Rightarrow> ('d hpm_store \<times> nat option) option" where
  "hpm_data_get_from_list t D = do { (D, node) \<leftarrow> pop_first (list_head t) D; Some (D, pack_or_null node) }"

text \<open>Without any packet the code loops forever.\<close>

definition hpm_get_node_from_free_list :: "'d hpm_store \<Rightarrow> ('d hpm_store \<times> addr) option" where
  "hpm_get_node_from_free_list D = do {
     (D, node) \<leftarrow> pop_first hpm_free_list D;
     if node \<noteq> NULL then Some (D, node)
     else do {
       (D, node) \<leftarrow> pop_first hpm_delay_list D;
       if node \<noteq> NULL then Some (D, node)
       else do {
         (D, node) \<leftarrow> pop_first hpm_realtm_list D;
         if node \<noteq> NULL then Some (D, node) else None
       }
     }
   }"

definition hpm_data_get_report_pack_noflash :: "'d hpm_store \<Rightarrow> ('d hpm_store \<times> nat option) option" where
  "hpm_data_get_report_pack_noflash D = do {
     (D, node) \<leftarrow> pop_first hpm_delay_list D;
     (D, node) \<leftarrow> (if node = NULL then pop_first hpm_realtm_list D else Some (D, node));
     Some (D, pack_or_null node)
   }"

definition hpm_data_put_back_list_with_samepos :: "nat \<Rightarrow> 'd hpm_store \<Rightarrow> 'd hpm_store option" where
  "hpm_data_put_back_list_with_samepos i D = do { p \<leftarrow> rd (hpm_data_mem D) i; add_tail (pack_link i) (pk_list p) D }"

definition hpm_data_put_back_report_pack :: "nat \<Rightarrow> 'd hpm_store \<Rightarrow> 'd hpm_store option" where
  "hpm_data_put_back_report_pack i D = do { p \<leftarrow> rd (hpm_data_mem D) i; add_head (pack_link i) (pk_list p) D }"

definition hpm_data_put_trans_list :: "nat \<Rightarrow> 'd hpm_store \<Rightarrow> 'd hpm_store option" where
  "hpm_data_put_trans_list i D = add_tail (pack_link i) hpm_trans_list D"

definition hpm_data_ack_pack :: "'d hpm_store \<Rightarrow> 'd hpm_store option" where
  "hpm_data_ack_pack D = do {
     (D, node) \<leftarrow> pop_first hpm_trans_list D;
     if node \<noteq> NULL then add_tail node hpm_free_list D else Some D
   }"

definition hpm_data_no_report_data :: "'d hpm_store \<Rightarrow> bool" where
  "hpm_data_no_report_data D \<longleftrightarrow> dlist_empty (store_heap D) hpm_realtm_list \<and> dlist_empty (store_heap D) hpm_delay_list"

definition hpm_data_no_sending_data :: "'d hpm_store \<Rightarrow> bool" where
  "hpm_data_no_sending_data D \<longleftrightarrow> dlist_empty (store_heap D) hpm_trans_list"

section \<open>Between the lists and the flash\<close>

definition hpm_data_save_one_pack :: "'d flash_drivers \<Rightarrow> bool \<Rightarrow> 'd hpm_store \<Rightarrow> ('d hpm_store \<times> bool) option" where
  "hpm_data_save_one_pack drv mem D = do {
     (D, pack) \<leftarrow> hpm_data_get_report_pack_noflash D;
     case pack of
       None \<Rightarrow> Some (D, False)
     | Some i \<Rightarrow> do {
         p \<leftarrow> rd (hpm_data_mem D) i;
         (F, ok) \<leftarrow> hpm_flash_save_pack drv mem (pk_data p) (pk_len p) (pk_type p) (store_flash D);
         let D = D\<lparr>store_flash := F\<rparr>;
         if \<not> ok then do { D \<leftarrow> hpm_data_put_back_list_with_samepos i D; Some (D, False) }
         else do { D \<leftarrow> hpm_data_put_to_list HPM_FREE_LIST i D; Some (D, True) }
       }
   }"

definition hpm_data_load_one_pack :: "'d flash_drivers \<Rightarrow> bool \<Rightarrow> 'd hpm_store \<Rightarrow> ('d hpm_store \<times> bool) option" where
  "hpm_data_load_one_pack drv mem D = do {
     (D, pack) \<leftarrow> hpm_data_get_from_list HPM_FREE_LIST D;
     case pack of
       None \<Rightarrow> Some (D, False)
     | Some i \<Rightarrow> (let (F, got) = hpm_flash_load_pack drv mem (store_flash D); D = D\<lparr>store_flash := F\<rparr> in (case got of
         None \<Rightarrow> do { D \<leftarrow> hpm_data_put_to_list HPM_FREE_LIST i D; Some (D, False) }
       | Some (cmd, data) \<Rightarrow> do {
           p \<leftarrow> rd (hpm_data_mem D) i;
           bs \<leftarrow> put_at 0 data (pk_data p);
           D \<leftarrow> upd_pack i (\<lambda>p. p\<lparr>pk_data := bs, pk_len := of_nat (length data), pk_type := cmd\<rparr>) D;
           D \<leftarrow> hpm_data_put_to_list HPM_DELAY_LIST i D;
           Some (D, True)
         }))
   }"

text \<open>Reports that are worth sending later go to the second list, the others back to the end of the first; \<open>one\<close>: only the first such.\<close>

fun flush_realtm_loop :: "bool \<Rightarrow> nat \<Rightarrow> 'd hpm_store \<Rightarrow> 'd hpm_store option" where
  "flush_realtm_loop one 0 D = Some D"
| "flush_realtm_loop one (Suc n) D = do {
     (D, node) \<leftarrow> pop_first hpm_realtm_list D;
     if node = NULL then Some D
     else do {
       p \<leftarrow> rd (hpm_data_mem D) (pack_of node);
       let delay_cmdid = hpm_get_delay_cmdid (pk_type p);
       if delay_cmdid \<noteq> 0 then do {
         D \<leftarrow> upd_pack (pack_of node) (\<lambda>p. p\<lparr>pk_type := delay_cmdid, pk_list := hpm_delay_list\<rparr>) D;
         D \<leftarrow> add_tail node hpm_delay_list D;
         if one then Some D else flush_realtm_loop one n D
       } else do {
         D \<leftarrow> add_tail node hpm_realtm_list D;
         flush_realtm_loop one n D
       }
     }
   }"

text \<open>The count is kept in an \<^verbatim>\<open>INT8\<close>.\<close>

definition realtm_count :: "'d hpm_store \<Rightarrow> nat option" where
  "realtm_count D = do { n \<leftarrow> dlist_count (store_heap D) hpm_realtm_list; Some (nat (sint (ucast n :: u8))) }"

definition hpm_data_flush_one_realtm_data :: "'d hpm_store \<Rightarrow> 'd hpm_store option" where
  "hpm_data_flush_one_realtm_data D = do { n \<leftarrow> realtm_count D; flush_realtm_loop True n D }"

definition hpm_data_flush_realtm_data :: "'d hpm_store \<Rightarrow> 'd hpm_store option" where
  "hpm_data_flush_realtm_data D = do { n \<leftarrow> realtm_count D; flush_realtm_loop False n D }"

partial_function (option) hpm_data_flush_trans_list :: "'d hpm_store \<Rightarrow> 'd hpm_store option" where
  "hpm_data_flush_trans_list D = do {
     (D, node) \<leftarrow> pop_last hpm_trans_list D;
     if node = NULL then Some D
     else do {
       p \<leftarrow> rd (hpm_data_mem D) (pack_of node);
       D \<leftarrow> add_tail node (pk_list p) D;
       hpm_data_flush_trans_list D
     }
   }"

partial_function (option) flush_all_loop :: "'d flash_drivers \<Rightarrow> (nat \<Rightarrow> bool) \<Rightarrow> nat \<Rightarrow> 'd hpm_store \<Rightarrow> 'd hpm_store option" where
  "flush_all_loop drv mem k D =
     (if hpm_data_no_report_data D then Some D
      else do {
        (D, ok) \<leftarrow> hpm_data_save_one_pack drv (mem k) D;
        if ok then flush_all_loop drv mem (k + 1) D else Some D
      })"

definition hpm_data_flush_alldata :: "'d flash_drivers \<Rightarrow> (nat \<Rightarrow> bool) \<Rightarrow> 'd hpm_store \<Rightarrow> 'd hpm_store option" where
  "hpm_data_flush_alldata drv mem D = do {
     D \<leftarrow> (if \<not> hpm_data_no_sending_data D then hpm_data_flush_trans_list D else Some D);
     D \<leftarrow> hpm_data_flush_realtm_data D;
     flush_all_loop drv mem 0 D
   }"

section \<open>What the rest of the application calls\<close>

definition init_lists :: "'d hpm_store \<Rightarrow> 'd hpm_store option" where
  "init_lists D = do {
     h \<leftarrow> dlist_init (store_heap D) hpm_realtm_list;
     h \<leftarrow> dlist_init h hpm_delay_list;
     h \<leftarrow> dlist_init h hpm_trans_list;
     h \<leftarrow> dlist_init h hpm_free_list;
     h \<leftarrow> for_up 0 HPM_PACK_NUM (\<lambda>i h. dlist_add_tail h (pack_link i) hpm_free_list) h;
     Some (D\<lparr>store_heap := h\<rparr>)
   }"

definition hpm_data_init :: "'d hpm_store \<Rightarrow> 'd hpm_store option" where
  "hpm_data_init = init_lists"

definition hpm_data_format_memery :: "'d hpm_store \<Rightarrow> 'd hpm_store option" where
  "hpm_data_format_memery = init_lists"

text \<open>\<open>True\<close>: the report was taken; the code does not tell.\<close>

definition hpm_data_save_to_realtm_list :: "'d flash_drivers \<Rightarrow> bool \<Rightarrow> u8 \<Rightarrow> u8 list option \<Rightarrow> u16 \<Rightarrow> 'd hpm_store \<Rightarrow> ('d hpm_store \<times> bool) option" where
  "hpm_data_save_to_realtm_list drv mem cmdid data len D = (case data of
     None \<Rightarrow> Some (D, False)
   | Some bs \<Rightarrow> if unat len > HPM_PACK_BUFF_LEN then Some (D, False)
       else do {
         (D, room) \<leftarrow> (if dlist_empty (store_heap D) hpm_free_list
           then do { D \<leftarrow> hpm_data_flush_one_realtm_data D; hpm_data_save_one_pack drv mem D }
           else Some (D, True));
         if \<not> room then Some (D, False)
         else do {
           (D, node) \<leftarrow> hpm_get_node_from_free_list D;
           p \<leftarrow> rd (hpm_data_mem D) (pack_of node);
           bs \<leftarrow> (if unat len \<le> length bs then put_at 0 (take (unat len) bs) (pk_data p) else None);
           D \<leftarrow> upd_pack (pack_of node) (\<lambda>p. p\<lparr>pk_data := bs, pk_len := len, pk_list := hpm_realtm_list, pk_type := cmdid\<rparr>) D;
           D \<leftarrow> add_tail node hpm_realtm_list D;
           Some (D, True)
         }
       })"

definition hpm_data_get_report_pack :: "'d flash_drivers \<Rightarrow> bool \<Rightarrow> 'd hpm_store \<Rightarrow> ('d hpm_store \<times> nat option) option" where
  "hpm_data_get_report_pack drv mem D = do {
     (D, node) \<leftarrow> pop_first hpm_realtm_list D;
     if node \<noteq> NULL then Some (D, pack_or_null node)
     else do {
       (D, ok) \<leftarrow> (if dlist_empty (store_heap D) hpm_delay_list then hpm_data_load_one_pack drv mem D else Some (D, True));
       if \<not> ok then Some (D, None)
       else do { (D, node) \<leftarrow> pop_first hpm_delay_list D; Some (D, pack_or_null node) }
     }
   }"

end
