(* ===== verification/HpmFlashClaims.thy ===== *)
theory HpmFlashClaims imports HpmFlash begin

text \<open>
  The packets in flash: on a device that works they are a queue, from which only the oldest are lost when it is full, and the
  packets come out as they went in. Clearing the queue makes the next packet go where nothing was erased.
\<close>

section \<open>Pages\<close>

lemma flash_sizes [simp]:
  "HPM_REPO_FLASH_MAX_SECTOR = 4096" "HPM_REPO_FLASH_PACKET_LEN = 1024" "HPM_REPO_FLASH_MAX_PACKET = 4" "HPM_REPO_FLASH_SECTOR_BIT = 512"
  by (simp_all add: HPM_REPO_FLASH_MAX_SECTOR_def HPM_REPO_FLASH_PACKET_LEN_def HPM_REPO_FLASH_MAX_PACKET_def HPM_REPO_FLASH_SECTOR_BIT_def)

text \<open>The number of a page, and its address.\<close>

definition page_no :: "HPM_REPO_FLASH_POS \<Rightarrow> nat" where
  "page_no p = 4 * unat (sector_num p) + unat (packet_num p)"

definition page_addr :: "nat \<Rightarrow> u32" where
  "page_addr i = FLASH_ADDR_HPM_DATA + of_nat (i * 1024)"

lemma valid_pos: "\<not> invalid_pos p \<longleftrightarrow> unat (sector_num p) < 4096 \<and> unat (packet_num p) < 4"
  by (auto simp: invalid_pos_def word_le_nat_alt)

lemma page_no_parts:
  assumes "\<not> invalid_pos p"
  shows "page_no p < 16384" and "page_no p div 4 = unat (sector_num p)" and "page_no p mod 4 = unat (packet_num p)"
  using assms by (auto simp: page_no_def valid_pos)

lemma page_no_inj: "\<not> invalid_pos p \<Longrightarrow> \<not> invalid_pos q \<Longrightarrow> page_no p = page_no q \<longleftrightarrow> p = q"
proof -
  assume a: "\<not> invalid_pos p" "\<not> invalid_pos q"
  have "p = q" if "page_no p = page_no q"
    using that page_no_parts [OF a(1)] page_no_parts [OF a(2)]
    by (metis HPM_REPO_FLASH_POS.equality old.unit.exhaust word_unat_eq_iff)
  then show ?thesis by blast
qed

lemma calc_addr: "HPM_REPO_CALC_ADDR p = page_addr (page_no p)"
proof -
  have "(ucast (sector_num p) :: u32) = of_nat (unat (sector_num p))" "(ucast (packet_num p) :: u32) = of_nat (unat (packet_num p))"
    by simp_all
  then show ?thesis unfolding HPM_REPO_CALC_ADDR_def page_addr_def page_no_def by (simp add: algebra_simps)
qed

lemma calc_sector_addr: "HPM_REPO_CALC_SECTOR_ADDR s = page_addr (4 * unat s)"
proof -
  have "(ucast s :: u32) = of_nat (unat s)" by simp
  then show ?thesis unfolding HPM_REPO_CALC_SECTOR_ADDR_def page_addr_def by (simp add: algebra_simps)
qed

lemma not_beyond: "i < 16384 \<Longrightarrow> \<not> beyond (page_addr i)"
proof -
  assume i: "i < 16384"
  have "unat (of_nat (i * 1024) :: u32) = i * 1024" using i by (simp add: unat_of_nat del: of_nat_mult)
  then have "unat (page_addr i) = unat FLASH_ADDR_HPM_DATA + i * 1024"
    unfolding page_addr_def by (subst unat_plus_if_fits) (use i in \<open>simp_all add: FLASH_ADDR_HPM_DATA_def del: of_nat_mult\<close>)
  then show ?thesis using i by (simp add: beyond_def word_le_nat_alt FLASH_ADDR_HPM_DATA_def FLASH_SIZE_HPM_DATA_def)
qed

lemma next_sector_val: "unat s < 4096 \<Longrightarrow> unat (next_sector s) = (unat s + 1) mod 4096"
proof -
  assume s: "unat s < 4096"
  then have "unat (s + 1) = unat s + 1" by (subst unat_plus_if_fits) simp_all
  then show ?thesis using s by (auto simp: next_sector_def word_le_nat_alt mod_Suc)
qed

lemma next_pos_ok:
  assumes "\<not> invalid_pos p"
  shows "\<not> invalid_pos (next_pos p)" and "page_no (next_pos p) = (page_no p + 1) mod 16384"
proof -
  have p: "unat (sector_num p) < 4096" "unat (packet_num p) < 4" using assms by (simp_all add: valid_pos)
  have u: "unat (packet_num p + 1) = unat (packet_num p) + 1" using p(2) by (subst unat_plus_if_fits) simp_all
  have f: "packet_num p + 1 \<ge> 4 \<longleftrightarrow> unat (packet_num p) = 3" using p(2) u by (auto simp: word_le_nat_alt)
  have n: "4 * (Suc s mod 4096) = (4 + 4 * s) mod 16384" if "s < 4096" for s :: nat
    using that by (cases "s = 4095") simp_all
  show "\<not> invalid_pos (next_pos p)" using p u f by (auto simp: valid_pos next_pos_def next_sector_val)
  show "page_no (next_pos p) = (page_no p + 1) mod 16384"
    using p u f n [OF p(1)] by (auto simp: page_no_def next_pos_def next_sector_val)
qed

section \<open>Bits of the sectors\<close>

definition erased_bit :: "HPM_REPO_FLASH_MGR \<Rightarrow> nat \<Rightarrow> bool" where
  "erased_bit m s = bit (sector_bit m ! (s div 8)) (s mod 8)"

lemma sector_erased_val: "length (sector_bit m) = 512 \<Longrightarrow> unat s < 4096 \<Longrightarrow> sector_erased s m = Some (erased_bit m (unat s))"
  by (simp add: sector_erased_def erased_bit_def rd_def)

lemma mark_bit:
  "bit (if e then b OR push_bit k 1 else b AND NOT (push_bit k 1) :: u8) j = (if j = k then e else bit b j)" if "j < 8" "k < 8"
  using that by (auto simp: bit_simps)

lemma mark_sector_law:
  assumes "length (sector_bit (mgrinfo F)) = 512" and "unat s < 4096"
  shows "\<exists>bs. mark_sector e s F = Some (upd_flash (\<lambda>m. m\<lparr>sector_bit := bs\<rparr>) F) \<and> length bs = 512 \<and>
     (\<forall>t<4096. erased_bit (mgrinfo F\<lparr>sector_bit := bs\<rparr>) t = (if t = unat s then e else erased_bit (mgrinfo F) t))"
proof -
  let ?b = "sector_bit (mgrinfo F) ! (unat s div 8)"
  let ?v = "if e then ?b OR push_bit (unat s mod 8) 1 else ?b AND NOT (push_bit (unat s mod 8) 1)"
  let ?bs = "(sector_bit (mgrinfo F))[unat s div 8 := ?v]"
  have i: "unat s div 8 < 512" using assms(2) by simp
  have "erased_bit (mgrinfo F\<lparr>sector_bit := ?bs\<rparr>) t = (if t = unat s then e else erased_bit (mgrinfo F) t)" for t
  proof (cases "t div 8 = unat s div 8")
    case True
    then have "t mod 8 = unat s mod 8 \<longleftrightarrow> t = unat s" by (metis div_mult_mod_eq)
    then show ?thesis using True i assms(1) mark_bit [of "t mod 8" "unat s mod 8" e ?b] by (simp add: erased_bit_def)
  next
    case False
    then show ?thesis by (auto simp: erased_bit_def)
  qed
  then show ?thesis using i assms(1) by (intro exI [of _ ?bs]) (simp add: mark_sector_def rd_def wr_def)
qed

section \<open>A device that works\<close>

text \<open>
  \<open>page d i\<close> is what page \<open>i\<close> of the device holds, and \<open>clean d i\<close> says that it can be written: a read gives the page, a write of a clean
  page stores the bytes, erasing makes the four pages of the sector clean, and none of them changes another page.
\<close>

definition device_works :: "'d flash_driver \<Rightarrow> ('d \<Rightarrow> nat \<Rightarrow> u8 list) \<Rightarrow> ('d \<Rightarrow> nat \<Rightarrow> bool) \<Rightarrow> bool" where
  "device_works dv page clean \<longleftrightarrow>
     (\<forall>d i. i < 16384 \<longrightarrow> op_read dv (page_addr i) 1024 d = Some (page d i)) \<and>
     (\<forall>d i bs. i < 16384 \<longrightarrow> length bs = 1024 \<longrightarrow> clean d i \<longrightarrow> (\<exists>d'. op_write dv (page_addr i) bs d = (d', True) \<and> page d' i = bs \<and>
        (\<forall>j<16384. j \<noteq> i \<longrightarrow> page d' j = page d j \<and> clean d' j = clean d j))) \<and>
     (\<forall>d s. s < 4096 \<longrightarrow> (\<exists>d'. op_erase dv (page_addr (4 * s)) 1 d = (d', True) \<and> (\<forall>j. j div 4 = s \<longrightarrow> clean d' j) \<and>
        (\<forall>j<16384. j div 4 \<noteq> s \<longrightarrow> page d' j = page d j \<and> clean d' j = clean d j)))"

lemma device_worksD:
  assumes "device_works dv page clean"
  shows "i < 16384 \<Longrightarrow> op_read dv (page_addr i) 1024 d = Some (page d i)"
    and "i < 16384 \<Longrightarrow> length bs = 1024 \<Longrightarrow> clean d i \<Longrightarrow> \<exists>d'. op_write dv (page_addr i) bs d = (d', True) \<and> page d' i = bs \<and>
        (\<forall>j<16384. j \<noteq> i \<longrightarrow> page d' j = page d j \<and> clean d' j = clean d j)"
    and "s < 4096 \<Longrightarrow> \<exists>d'. op_erase dv (page_addr (4 * s)) 1 d = (d', True) \<and> (\<forall>j. j div 4 = s \<longrightarrow> clean d' j) \<and>
        (\<forall>j<16384. j div 4 \<noteq> s \<longrightarrow> page d' j = page d j \<and> clean d' j = clean d j)"
  using assms unfolding device_works_def by blast+

definition driver_of :: "'d flash_drivers \<Rightarrow> 'd hpm_flash \<Rightarrow> 'd flash_driver" where
  "driver_of drv F = hpm_flash_ops drv ! unat (fa_type (flash_adapter F))"

lemma adapter_simps:
  assumes "fa_type (flash_adapter F) < HPM_FLASH_ADAPTER_TYPE_MAX"
  shows "hpm_flash_adapter_read drv a n F = op_read (driver_of drv F) a n (flash_dev F)"
    and "hpm_flash_adapter_write drv a bs F = apfst (\<lambda>d. F\<lparr>flash_dev := d\<rparr>) (op_write (driver_of drv F) a bs (flash_dev F))"
    and "hpm_flash_adapter_erase drv a k F = apfst (\<lambda>d. F\<lparr>flash_dev := d\<rparr>) (op_erase (driver_of drv F) a k (flash_dev F))"
  using assms unfolding not_le [symmetric]
  by (simp_all add: hpm_flash_adapter_read_def hpm_flash_adapter_write_def hpm_flash_adapter_erase_def driver_of_def Let_def split_beta apfst_def map_prod_def)

lemma flash_simps [simp]:
  "mgrinfo (upd_flash f F) = f (mgrinfo F)" "flash_dev (upd_flash f F) = flash_dev F" "flash_adapter (upd_flash f F) = flash_adapter F"
  by (simp_all add: upd_flash_def)

section \<open>The packets that are stored\<close>

type_synonym flash_packet = "u8 \<times> u8 list"

text \<open>
  The packets lie one behind the other from the position of the reader to that of the writer. The sector the writer is in is
  marked once its first packet is written, what is left of a marked sector is clean, and no other sector is marked.
\<close>

definition stored :: "('d \<Rightarrow> nat \<Rightarrow> u8 list) \<Rightarrow> ('d \<Rightarrow> nat \<Rightarrow> bool) \<Rightarrow> 'd hpm_flash \<Rightarrow> flash_packet list \<Rightarrow> bool" where
  "stored page clean F ps \<longleftrightarrow> (let m = mgrinfo F; r = page_no (read_pos m); w = page_no (write_pos m) in
     fa_type (flash_adapter F) < HPM_FLASH_ADAPTER_TYPE_MAX \<and> \<not> invalid_pos (read_pos m) \<and> \<not> invalid_pos (write_pos m) \<and>
     length (sector_bit m) = 512 \<and> length ps < 16384 \<and> w = (r + length ps) mod 16384 \<and>
     (\<forall>i<length ps. page (flash_dev F) ((r + i) mod 16384) = page_of (fst (ps ! i)) (snd (ps ! i))) \<and>
     list_all (\<lambda>p. length (snd p) \<le> 1020) ps \<and>
     (w mod 4 \<noteq> 0 \<longrightarrow> erased_bit m (w div 4)) \<and>
     (erased_bit m (w div 4) \<longrightarrow> (\<forall>j. w \<le> j \<longrightarrow> j div 4 = w div 4 \<longrightarrow> clean (flash_dev F) j)) \<and>
     (\<forall>s<4096. s \<noteq> w div 4 \<longrightarrow> \<not> erased_bit m s))"

lemma storedD:
  assumes "stored page clean F ps"
  shows "fa_type (flash_adapter F) < HPM_FLASH_ADAPTER_TYPE_MAX" "\<not> invalid_pos (read_pos (mgrinfo F))" "\<not> invalid_pos (write_pos (mgrinfo F))"
    "length (sector_bit (mgrinfo F)) = 512" "length ps < 16384"
    "page_no (write_pos (mgrinfo F)) = (page_no (read_pos (mgrinfo F)) + length ps) mod 16384"
    "i < length ps \<Longrightarrow> page (flash_dev F) ((page_no (read_pos (mgrinfo F)) + i) mod 16384) = page_of (fst (ps ! i)) (snd (ps ! i))"
    "list_all (\<lambda>p. length (snd p) \<le> 1020) ps"
    "page_no (write_pos (mgrinfo F)) mod 4 \<noteq> 0 \<Longrightarrow> erased_bit (mgrinfo F) (page_no (write_pos (mgrinfo F)) div 4)"
    "erased_bit (mgrinfo F) (page_no (write_pos (mgrinfo F)) div 4) \<Longrightarrow> page_no (write_pos (mgrinfo F)) \<le> j \<Longrightarrow>
       j div 4 = page_no (write_pos (mgrinfo F)) div 4 \<Longrightarrow> clean (flash_dev F) j"
    "s < 4096 \<Longrightarrow> s \<noteq> page_no (write_pos (mgrinfo F)) div 4 \<Longrightarrow> \<not> erased_bit (mgrinfo F) s"
  using assms unfolding stored_def Let_def by blast+

text \<open>Places in the ring: what lies before the writer is not in its sector, unless the reader is in it too.\<close>

lemma ring_place: "r < 16384 \<Longrightarrow> i < 16384 \<Longrightarrow> (r + i) mod 16384 = (if r + i < 16384 then r + i else r + i - (16384 :: nat))"
  by (simp add: mod_if)

lemma ring_distinct: "r < 16384 \<Longrightarrow> i < n \<Longrightarrow> n < 16384 \<Longrightarrow> (r + i) mod 16384 \<noteq> (r + n) mod (16384 :: nat)"
  by (auto simp: ring_place)

lemma ring_full: "r < 16384 \<Longrightarrow> n < 16384 \<Longrightarrow> r = ((r + n) mod 16384 + 1) mod 16384 \<longleftrightarrow> n = (16383 :: nat)"
  by (auto simp: ring_place mod_Suc)

lemma ring_add: "((r + i) mod 16384 + j) mod 16384 = (r + (i + j)) mod (16384 :: nat)"
  by (simp add: mod_add_left_eq add.assoc)

lemma not_in_sector:
  fixes r n i :: nat
  assumes "r < 16384" and "n < 16384" and "(r + n) mod 16384 = 4 * s" and "s < 4096" and "i < n"
    and "\<not> (r div 4 = s \<and> 0 < r mod 4)"
  shows "(r + i) mod 16384 div 4 \<noteq> s"
proof
  assume e: "(r + i) mod 16384 div 4 = s"
  obtain q where q: "(r + i) mod 16384 = 4 * s + q" "q < 4" using e by (metis div_mod_decomp mult.commute mod_less_divisor zero_less_numeral)
  have i: "i < 16384" using assms(2,5) by simp
  have "4 * s < r \<and> r < 4 * s + 4"
    using assms(1-5) q i unfolding ring_place [OF assms(1,2)] ring_place [OF assms(1) i] by (simp split: if_splits)
  then show False using assms(6) by presburger
qed

lemma reader_in_sector:
  fixes r n s :: nat
  assumes "r < 16384" and "n < 16384" and "(r + n) mod 16384 = 4 * s" and "r div 4 = s" and "0 < r mod 4"
  shows "n + r mod 4 = 16384"
proof -
  have "r = 4 * s + r mod 4" using assms(4) by presburger
  then show ?thesis using assms by (simp add: ring_place split: if_splits)
qed

lemma beside_sector:
  fixes s i :: nat
  assumes "s < 4096" and "i < 16380"
  shows "(4 * s + 4 + i) mod 16384 div 4 \<noteq> s"
proof (cases "4 * s + 4 + i < 16384")
  case True
  then show ?thesis by simp
next
  case False
  then have "(4 * s + 4 + i) mod 16384 = 4 * s + 4 + i - 16384" using assms by (simp add: mod_if)
  moreover have "4 * s + 4 + i - 16384 < 4 * s" using assms False by simp
  ultimately show ?thesis by (simp add: div_less_iff_less_mult)
qed

lemma next_page:
  fixes w :: nat
  assumes "w < 16384"
  shows "w mod 4 = 3 \<and> (w + 1) mod 16384 mod 4 = 0 \<and> (w + 1) mod 16384 div 4 \<noteq> w div 4 \<or>
    w mod 4 \<noteq> 3 \<and> (w + 1) mod 16384 = w + 1 \<and> (w + 1) mod 16384 div 4 = w div 4"
proof (cases "w = 16383")
  case False
  then have "(w + 1) mod 16384 = w + 1" using assms by simp
  moreover have "w mod 4 = 3 \<and> (w + 1) mod 4 = 0 \<and> (w + 1) div 4 \<noteq> w div 4 \<or> w mod 4 \<noteq> 3 \<and> (w + 1) div 4 = w div 4" by presburger
  ultimately show ?thesis by simp
qed simp

text \<open>Before a packet is written its page is clean; up to three packets are lost when the reader has to leave the sector.\<close>

lemma prepare_law:
  assumes dv: "device_works (driver_of drv F) page clean" and st: "stored page clean F ps"
  defines "w \<equiv> page_no (write_pos (mgrinfo F))"
  shows "\<exists>F' k. hpm_flash_prepare drv (erased_bit (mgrinfo F) (w div 4)) F = Some (F', True) \<and> stored page clean F' (drop k ps) \<and>
    write_pos (mgrinfo F') = write_pos (mgrinfo F) \<and> flash_adapter F' = flash_adapter F \<and> erased_bit (mgrinfo F') (w div 4) \<and>
    (k = 0 \<or> k \<le> 3 \<and> length ps + 3 \<ge> 16384 \<and> length ps \<le> 16380 + k)"
proof (cases "erased_bit (mgrinfo F) (w div 4) \<or> packet_num (write_pos (mgrinfo F)) \<noteq> 0")
  case True
  have "packet_num (write_pos (mgrinfo F)) \<noteq> 0 \<Longrightarrow> w mod 4 \<noteq> 0"
    using page_no_parts [OF storedD(3) [OF st]] by (simp add: w_def unat_eq_0)
  then have e: "erased_bit (mgrinfo F) (w div 4)" using True storedD(9) [OF st] by (auto simp: w_def)
  then show ?thesis using st by (intro exI [of _ F] exI [of _ 0]) (simp add: hpm_flash_prepare_def)
next
  case False
  note D = storedD [OF st, folded w_def]
  let ?s = "sector_num (write_pos (mgrinfo F))"
  let ?r = "page_no (read_pos (mgrinfo F))"
  have w: "w < 16384" "w div 4 = unat ?s" "w mod 4 = 0"
    using page_no_parts [OF D(3)] False by (simp_all add: w_def)
  then have s: "w = 4 * unat ?s" "unat ?s < 4096" by auto
  have r: "?r < 16384" "?r div 4 = unat (sector_num (read_pos (mgrinfo F)))" "?r mod 4 = unat (packet_num (read_pos (mgrinfo F)))"
    using page_no_parts [OF D(2)] by simp_all
  obtain d where d: "op_erase (driver_of drv F) (page_addr (4 * unat ?s)) 1 (flash_dev F) = (d, True)"
      "\<forall>j. j div 4 = unat ?s \<longrightarrow> clean d j"
      "\<forall>j<16384. j div 4 \<noteq> unat ?s \<longrightarrow> page d j = page (flash_dev F) j \<and> clean d j = clean (flash_dev F) j"
    using device_worksD(3) [OF dv s(2)] by blast
  obtain bs where b: "mark_sector True ?s (F\<lparr>flash_dev := d\<rparr>) = Some (upd_flash (\<lambda>m. m\<lparr>sector_bit := bs\<rparr>) (F\<lparr>flash_dev := d\<rparr>))"
      "length bs = 512" "\<forall>t<4096. erased_bit (mgrinfo F\<lparr>sector_bit := bs\<rparr>) t = (if t = unat ?s then True else erased_bit (mgrinfo F) t)"
    using mark_sector_law [of "F\<lparr>flash_dev := d\<rparr>" ?s True] D(4) s(2) by auto
  let ?F = "upd_flash (\<lambda>m. m\<lparr>sector_bit := bs\<rparr>) (F\<lparr>flash_dev := d\<rparr>)"
  let ?G = "hpm_flash_move_next_read_sector ?F"
  have in_r: "sector_num (read_pos (mgrinfo F)) = ?s \<and> packet_num (read_pos (mgrinfo F)) > packet_num (write_pos (mgrinfo F))
      \<longleftrightarrow> ?r div 4 = unat ?s \<and> 0 < ?r mod 4"
    using False r by (auto simp: word_less_nat_alt word_unat_eq_iff)
  have prep: "hpm_flash_prepare drv (erased_bit (mgrinfo F) (w div 4)) F =
      Some (if ?r div 4 = unat ?s \<and> 0 < ?r mod 4 then ?G else ?F, True)"
    using False d(1) b(1) in_r by (simp add: hpm_flash_prepare_def Let_def adapter_simps [OF D(1)] calc_sector_addr apfst_def)
  have wF: "page_no (write_pos (mgrinfo F\<lparr>sector_bit := bs\<rparr>)) = w" by (simp add: w_def)
  have bits: "\<And>t. t < 4096 \<Longrightarrow> t \<noteq> w div 4 \<Longrightarrow> \<not> erased_bit (mgrinfo F\<lparr>sector_bit := bs\<rparr>) t"
     "erased_bit (mgrinfo F\<lparr>sector_bit := bs\<rparr>) (w div 4)"
    using b(3) D(11) w(2) s(2) by auto
  show ?thesis
  proof (cases "?r div 4 = unat ?s \<and> 0 < ?r mod 4")
    case False
    have "page d ((?r + i) mod 16384) = page_of (fst (ps ! i)) (snd (ps ! i))" if "i < length ps" for i
      using d(3) D(7) [OF that] not_in_sector [OF r(1) D(5) _ s(2) that False] D(6) s(1) by simp
    then have "stored page clean ?F ps"
      using D(1-6,8) b(2) bits d(2) w unfolding stored_def Let_def by (simp add: w_def [symmetric])
    then show ?thesis using prep False bits(2) by (intro exI [of _ ?F] exI [of _ 0]) simp
  next
    case True
    define k where "k = 4 - ?r mod 4"
    have "0 < ?r mod 4" "?r mod 4 < 4" using True by simp_all
    then have rk: "k + ?r mod 4 = 4" "0 < k" "k \<le> 3" unfolding k_def by linarith+
    have n: "length ps + ?r mod 4 = 16384" using reader_in_sector [OF r(1) D(5)] D(6) s(1) True by simp
    have rs: "?r = 4 * unat ?s + ?r mod 4" using True by presburger
    have sec: "sector_num (read_pos (mgrinfo F)) = ?s" using True r(2) by (simp add: word_unat_eq_iff)
    have rG: "page_no (read_pos (mgrinfo ?G)) = (?r + k) mod 16384" "\<not> invalid_pos (read_pos (mgrinfo ?G))"
    proof -
      have "4 * ((t + 1) mod 4096) = (4 * t + 4) mod 16384" if "t < 4096" for t :: nat using that by (cases "t = 4095") simp_all
      moreover have e: "?r + k = 4 * unat ?s + 4" using rs rk by linarith
      ultimately show "page_no (read_pos (mgrinfo ?G)) = (?r + k) mod 16384" unfolding e
        using s(2) sec by (simp add: hpm_flash_move_next_read_sector_def page_no_def next_sector_val)
      show "\<not> invalid_pos (read_pos (mgrinfo ?G))"
        using s(2) sec by (simp add: hpm_flash_move_next_read_sector_def valid_pos next_sector_val)
    qed
    have G: "flash_dev ?G = d" "flash_adapter ?G = flash_adapter F" "sector_bit (mgrinfo ?G) = bs"
      "write_pos (mgrinfo ?G) = write_pos (mgrinfo F)" "\<And>t. erased_bit (mgrinfo ?G) t = erased_bit (mgrinfo F\<lparr>sector_bit := bs\<rparr>) t"
      by (simp_all add: hpm_flash_move_next_read_sector_def erased_bit_def)
    have "page d ((?r + (k + i)) mod 16384) = page_of (fst (ps ! (k + i))) (snd (ps ! (k + i)))" if "i < length (drop k ps)" for i
    proof -
      have i: "k + i < length ps" "i < 16380" using that n rk by auto
      have e: "?r + (k + i) = 4 * unat ?s + 4 + i" using rs rk by linarith
      have "(?r + (k + i)) mod 16384 div 4 \<noteq> unat ?s" unfolding e by (rule beside_sector [OF s(2) i(2)])
      then show ?thesis using d(3) D(7) [OF i(1)] by simp
    qed
    moreover have "w = (?r + (k + length (drop k ps))) mod 16384"
    proof -
      have "k + length (drop k ps) = length ps" using n rk by simp
      then show ?thesis using D(6) by simp
    qed
    ultimately have "stored page clean ?G (drop k ps)"
      using D(1,3,5,8) b(2) bits d(2) w(2) rG unfolding stored_def Let_def G
      by (simp add: w_def [symmetric] ring_add list_all_length)
    moreover have "k \<le> 3 \<and> length ps + 3 \<ge> 16384 \<and> length ps \<le> 16380 + k" using n rk by linarith
    moreover have "hpm_flash_prepare drv (erased_bit (mgrinfo F) (w div 4)) F = Some (?G, True)" using prep True by simp
    ultimately show ?thesis using bits(2) G(2,4,5) by blast
  qed
qed

lemma nth_drop_snoc:
  assumes "m + i \<le> length ps - k"
  shows "(drop (m + k) ps @ [x]) ! i = (if m + i = length ps - k then x else ps ! (k + (m + i)))"
proof (cases "m + i = length ps - k")
  case True
  then have "length (drop (m + k) ps) = i" by auto
  then show ?thesis using True by (simp add: nth_append)
next
  case False
  then have "i < length (drop (m + k) ps)" "m + k \<le> length ps" using assms by auto
  then show ?thesis using False by (simp add: nth_append ac_simps)
qed

text \<open>The write itself; when the ring is full the reader goes one packet on.\<close>

lemma write_law:
  assumes dv: "device_works (driver_of drv F) page clean" and st: "stored page clean F ps" and data: "length data \<le> 1020"
  shows "\<exists>F' k. hpm_flash_write drv (page_of cmd data) F = Some (F', True) \<and> stored page clean F' (drop k ps @ [(cmd, data)]) \<and>
    flash_adapter F' = flash_adapter F \<and> k \<le> 3 \<and> (length ps + 3 < 16384 \<longrightarrow> k = 0) \<and>
    write_pos (mgrinfo F') = next_pos (write_pos (mgrinfo F))"
proof -
  define p where "p = write_pos (mgrinfo F)"
  define w where "w = page_no p"
  obtain F1 k where F1: "hpm_flash_prepare drv (erased_bit (mgrinfo F) (w div 4)) F = Some (F1, True)" "stored page clean F1 (drop k ps)"
      "write_pos (mgrinfo F1) = p" "flash_adapter F1 = flash_adapter F" "erased_bit (mgrinfo F1) (w div 4)"
      "k = 0 \<or> k \<le> 3 \<and> length ps + 3 \<ge> 16384 \<and> length ps \<le> 16380 + k"
    using prepare_law [OF dv st] unfolding w_def p_def by blast
  note D = storedD [OF F1(2), unfolded F1(3), folded w_def]
  have w: "w < 16384" "w div 4 = unat (sector_num p)" "w mod 4 = unat (packet_num p)" "unat (sector_num p) < 4096"
    using page_no_parts [OF D(3)] D(3) by (simp_all add: w_def valid_pos)
  have lb: "length (page_of cmd data) = 1024" using data by (simp add: page_of_def)
  have dv1: "device_works (driver_of drv F1) page clean" using dv F1(4) by (simp add: driver_of_def)
  obtain d where d: "op_write (driver_of drv F1) (page_addr w) (page_of cmd data) (flash_dev F1) = (d, True)" "page d w = page_of cmd data"
      "\<forall>j<16384. j \<noteq> w \<longrightarrow> page d j = page (flash_dev F1) j \<and> clean d j = clean (flash_dev F1) j"
    using device_worksD(2) [OF dv1 w(1) lb D(10) [OF F1(5) order_refl refl]] by blast
  have "\<exists>H. (if packet_num p = HPM_REPO_FLASH_MAX_PACKET - 1 then mark_sector False (sector_num p) (F1\<lparr>flash_dev := d\<rparr>) else Some (F1\<lparr>flash_dev := d\<rparr>)) = Some H \<and>
      flash_dev H = d \<and> flash_adapter H = flash_adapter F1 \<and> read_pos (mgrinfo H) = read_pos (mgrinfo F1) \<and> write_pos (mgrinfo H) = p \<and>
      length (sector_bit (mgrinfo H)) = 512 \<and>
      (\<forall>t<4096. erased_bit (mgrinfo H) t = (\<not> (t = w div 4 \<and> w mod 4 = 3) \<and> erased_bit (mgrinfo F1) t))"
  proof (cases "w mod 4 = 3")
    case True
    then have "packet_num p = 3" using w(3) by (simp add: word_unat_eq_iff)
    then show ?thesis using mark_sector_law [of "F1\<lparr>flash_dev := d\<rparr>" "sector_num p" False] D(4) w True F1(3)
      by (fastforce simp: erased_bit_def)
  next
    case False
    then have "packet_num p \<noteq> 3" using w(3) by auto
    then show ?thesis using D(4) False F1(3) by simp
  qed
  then obtain H where H: "(if packet_num p = HPM_REPO_FLASH_MAX_PACKET - 1 then mark_sector False (sector_num p) (F1\<lparr>flash_dev := d\<rparr>) else Some (F1\<lparr>flash_dev := d\<rparr>)) = Some H"
      "flash_dev H = d" "flash_adapter H = flash_adapter F1" "read_pos (mgrinfo H) = read_pos (mgrinfo F1)" "write_pos (mgrinfo H) = p"
      "length (sector_bit (mgrinfo H)) = 512"
      "\<And>t. t < 4096 \<Longrightarrow> erased_bit (mgrinfo H) t = (\<not> (t = w div 4 \<and> w mod 4 = 3) \<and> erased_bit (mgrinfo F1) t)"
    by blast
  let ?H = "hpm_flash_move_next_write_pos H"
  let ?G = "if read_pos (mgrinfo F1) = next_pos p then hpm_flash_move_next_read_pos ?H else ?H"
  have run: "hpm_flash_write drv (page_of cmd data) F = Some (?G, True)"
  proof -
    have e: "sector_erased (sector_num p) (mgrinfo F) = Some (erased_bit (mgrinfo F) (w div 4))"
      using sector_erased_val [OF storedD(4) [OF st] w(4)] w(2) by simp
    have a: "\<not> beyond (page_addr w)" "HPM_REPO_CALC_ADDR p = page_addr w" using not_beyond [OF w(1)] by (simp_all add: calc_addr w_def)
    have wr: "hpm_flash_adapter_write drv (page_addr w) (page_of cmd data) F1 = (F1\<lparr>flash_dev := d\<rparr>, True)"
      using d(1) by (simp add: adapter_simps [OF D(1)] apfst_def)
    have mv: "write_pos (mgrinfo ?H) = next_pos p" "read_pos (mgrinfo ?H) = read_pos (mgrinfo F1)"
      using H(4,5) by (simp_all add: hpm_flash_move_next_write_pos_def)
    show ?thesis
      unfolding hpm_flash_write_def by (simp add: p_def [symmetric] e a F1(1) wr H(1) mv del: flash_sizes)
  qed
  let ?v = "(w + 1) mod 16384" and ?r = "page_no (read_pos (mgrinfo F1))"
  have v: "page_no (next_pos p) = ?v" "\<not> invalid_pos (next_pos p)" using next_pos_ok [OF D(3)] by (simp_all add: w_def)
  have r: "?r < 16384" using page_no_parts [OF D(2)] by simp
  have vw: "w mod 4 = 3 \<and> ?v mod 4 = 0 \<and> ?v div 4 \<noteq> w div 4 \<or> w mod 4 \<noteq> 3 \<and> ?v = w + 1 \<and> ?v div 4 = w div 4"
    using next_page [OF w(1)] .
  have marks: "?v mod 4 \<noteq> 0 \<longrightarrow> erased_bit (mgrinfo H) (?v div 4)"
      "erased_bit (mgrinfo H) (?v div 4) \<longrightarrow> (\<forall>j. ?v \<le> j \<longrightarrow> j div 4 = ?v div 4 \<longrightarrow> clean d j)"
      "\<forall>s<4096. s \<noteq> ?v div 4 \<longrightarrow> \<not> erased_bit (mgrinfo H) s"
  proof -
    have b: "?v div 4 < 4096" "w div 4 < 4096" using w(1) by (simp_all add: div_less_iff_less_mult)
    show "?v mod 4 \<noteq> 0 \<longrightarrow> erased_bit (mgrinfo H) (?v div 4)" using vw H(7) [OF b(1)] F1(5) by auto
    show "\<forall>s<4096. s \<noteq> ?v div 4 \<longrightarrow> \<not> erased_bit (mgrinfo H) s" using vw H(7) D(11) by metis
    show "erased_bit (mgrinfo H) (?v div 4) \<longrightarrow> (\<forall>j. ?v \<le> j \<longrightarrow> j div 4 = ?v div 4 \<longrightarrow> clean d j)"
    proof (intro impI allI)
      fix j assume e: "erased_bit (mgrinfo H) (?v div 4)" and j: "?v \<le> j" "j div 4 = ?v div 4"
      have same: "w mod 4 \<noteq> 3 \<and> ?v = w + 1 \<and> ?v div 4 = w div 4" using vw e H(7) [OF b(1)] D(11) [OF b(1)] by blast
      have "j div 4 < 4096" using j(2) b(1) by (simp only:)
      then have "j < 16384" by presburger
      moreover have "w \<le> j" "j div 4 = w div 4" using same j by (simp, metis)
      then have "clean (flash_dev F1) j" using D(10) [OF F1(5)] by blast
      ultimately show "clean d j" using d(3) same j by simp
    qed
  qed
  have kept: "page d ((?r + i) mod 16384) = page_of (fst (ps ! (k + i))) (snd (ps ! (k + i)))" if "i < length ps - k" for i
  proof -
    have "(?r + i) mod 16384 \<noteq> w" using ring_distinct [OF r that] D(5,6) by simp
    then show ?thesis using d(3) D(7) [of i] that by simp
  qed
  have new: "page d ((?r + (length ps - k)) mod 16384) = page_of cmd data" using d(2) D(6) by simp
  have full: "read_pos (mgrinfo F1) = next_pos p \<longleftrightarrow> length ps - k = 16383"
    using page_no_inj [OF D(2) v(2)] v(1) ring_full [OF r, of "length ps - k"] D(5,6) by simp
  have fields: "write_pos (mgrinfo ?H) = next_pos p" "read_pos (mgrinfo ?H) = read_pos (mgrinfo F1)" "flash_dev ?H = d" "flash_adapter ?H = flash_adapter F1"
      "sector_bit (mgrinfo ?H) = sector_bit (mgrinfo H)" "erased_bit (mgrinfo ?H) = erased_bit (mgrinfo H)"
    using H(2-6) by (auto simp: hpm_flash_move_next_write_pos_def erased_bit_def)
  have last: "list_all (\<lambda>p. length (snd p) \<le> 1020) (drop m ps @ [(cmd, data)])" for m
    using storedD(8) [OF st] data by (auto simp: list_all_iff dest: in_set_dropD)
  have entry: "page d ((?r + (m + i)) mod 16384) = page_of (fst ((drop (m + k) ps @ [(cmd, data)]) ! i)) (snd ((drop (m + k) ps @ [(cmd, data)]) ! i))"
    if "m + i \<le> length ps - k" for m i
    using kept [of "m + i"] new that unfolding nth_drop_snoc [OF that] by (cases "m + i = length ps - k") simp_all
  have at: "stored page clean ?G (drop (if length ps - k = 16383 then Suc k else k) ps @ [(cmd, data)])"
  proof (cases "length ps - k = 16383")
    case False
    have l: "length (drop k ps @ [(cmd, data)]) = length ps - k + 1" by simp
    have "?v = (?r + (length ps - k + 1)) mod 16384" using D(6) ring_add [of ?r "length ps - k" 1] by simp
    then have "stored page clean ?H (drop k ps @ [(cmd, data)])"
      unfolding stored_def Let_def fields l v(1)
      using D(1,2,5) v(2) marks H(6) last [of k] entry [of 0] False by simp
    then show ?thesis using False full by simp
  next
    case True
    let ?K = "hpm_flash_move_next_read_pos ?H"
    have K: "write_pos (mgrinfo ?K) = next_pos p" "read_pos (mgrinfo ?K) = next_pos (read_pos (mgrinfo F1))" "flash_dev ?K = d"
        "flash_adapter ?K = flash_adapter F1" "sector_bit (mgrinfo ?K) = sector_bit (mgrinfo H)" "erased_bit (mgrinfo ?K) = erased_bit (mgrinfo H)"
      using fields by (auto simp: hpm_flash_move_next_read_pos_def erased_bit_def)
    have l: "length (drop (Suc k) ps @ [(cmd, data)]) = 16383" using True by simp
    have r1: "page_no (next_pos (read_pos (mgrinfo F1))) = (?r + 1) mod 16384" "\<not> invalid_pos (next_pos (read_pos (mgrinfo F1)))"
      using next_pos_ok [OF D(2)] by simp_all
    have "?v = ((?r + 1) mod 16384 + 16383) mod 16384"
      using D(6) True ring_add [of ?r 16383 1] ring_add [of ?r 1 16383] by simp
    moreover have "\<forall>i<16383. page d (((?r + 1) mod 16384 + i) mod 16384) =
        page_of (fst ((drop (Suc k) ps @ [(cmd, data)]) ! i)) (snd ((drop (Suc k) ps @ [(cmd, data)]) ! i))"
      using entry [of 1] True unfolding ring_add by simp
    moreover have "(16383 :: nat) < 16384" by simp
    ultimately have "stored page clean ?K (drop (Suc k) ps @ [(cmd, data)])"
      unfolding stored_def Let_def K l v(1) r1(1) using D(1) v(2) marks H(6) last [of "Suc k"] r1(2) by blast
    then show ?thesis using True full by simp
  qed
  have k: "k = 0 \<or> length ps - k \<noteq> 16383" "k = 0 \<or> k \<le> 3 \<and> length ps + 3 \<ge> 16384" using F1(6) by auto
  have "flash_adapter ?G = flash_adapter F" "write_pos (mgrinfo ?G) = next_pos (write_pos (mgrinfo F))" using H(3) F1(4) fields(1)
    by (simp_all add: p_def hpm_flash_move_next_write_pos_def hpm_flash_move_next_read_pos_def)
  then show ?thesis using run at k by (intro exI [of _ ?G] exI [of _ "if length ps - k = 16383 then Suc k else k"]) auto
qed

lemma save_law:
  assumes dv: "device_works (driver_of drv F) page clean" and st: "stored page clean F ps" and data: "length data \<le> 1020"
  shows "\<exists>F' k. hpm_flash_save_pack drv True data (of_nat (length data)) cmd F = Some (F', True) \<and>
    stored page clean F' (drop k ps @ [(cmd, data)]) \<and> driver_of drv F' = driver_of drv F \<and> k \<le> 3 \<and> (length ps + 3 < 16384 \<longrightarrow> k = 0) \<and>
    write_pos (mgrinfo F') = next_pos (write_pos (mgrinfo F))"
proof -
  have len: "unat (of_nat (length data) :: u16) = length data" using data by (simp add: unat_of_nat)
  obtain F' k where w: "hpm_flash_write drv (page_of cmd data) F = Some (F', True)" "stored page clean F' (drop k ps @ [(cmd, data)])"
      "flash_adapter F' = flash_adapter F" "k \<le> 3" "length ps + 3 < 16384 \<longrightarrow> k = 0" "write_pos (mgrinfo F') = next_pos (write_pos (mgrinfo F))"
    using write_law [OF dv st data] by blast
  have "hpm_flash_save_pack drv True data (of_nat (length data)) cmd F = Some (F', True)"
    using w(1) storedD(3) [OF st] data by (simp add: hpm_flash_save_pack_def len)
  then show ?thesis using w(2-6) by (auto simp: driver_of_def)
qed

lemma page_fields:
  assumes "length data \<le> 1020"
  shows "unat (get16 (page_of cmd data)) = length data" and "page_of cmd data ! 2 = cmd" and "page_of cmd data ! 3 = xor_checksum data"
    and "take (length data) (drop 4 (page_of cmd data)) = data"
proof -
  let ?n = "of_nat (length data) :: u16"
  have p: "page_of cmd data = le16 ?n @ [cmd, xor_checksum data] @ data @ replicate (1020 - length data) 0xFF"
    using assms by (simp add: page_of_def blit_def)
  have len: "unat ?n = length data" using assms by (simp add: unat_of_nat)
  show "unat (get16 (page_of cmd data)) = length data" unfolding p using len by simp
  show "page_of cmd data ! 2 = cmd" "page_of cmd data ! 3 = xor_checksum data" "take (length data) (drop 4 (page_of cmd data)) = data"
    unfolding p by (simp_all add: le16_def)
qed

lemma load_law:
  assumes dv: "device_works (driver_of drv F) page clean" and st: "stored page clean F ps"
  shows "\<exists>F'. hpm_flash_load_pack drv True F = (F', case ps of [] \<Rightarrow> None | p # _ \<Rightarrow> Some p) \<and> stored page clean F' (tl ps) \<and>
    driver_of drv F' = driver_of drv F"
proof (cases ps)
  case Nil
  have "page_no (write_pos (mgrinfo F)) = page_no (read_pos (mgrinfo F))"
    using storedD(6) [OF st] page_no_parts [OF storedD(2) [OF st]] Nil by simp
  then have "write_pos (mgrinfo F) = read_pos (mgrinfo F)"
    using page_no_inj [OF storedD(3) [OF st] storedD(2) [OF st]] by simp
  then show ?thesis using st storedD(3) [OF st] Nil by (simp add: hpm_flash_load_pack_def)
next
  case (Cons x xs)
  note D = storedD [OF st]
  let ?r = "page_no (read_pos (mgrinfo F))"
  let ?G = "hpm_flash_move_next_read_pos F"
  have r: "?r < 16384" using page_no_parts [OF D(2)] by simp
  have "write_pos (mgrinfo F) \<noteq> read_pos (mgrinfo F)"
  proof
    assume "write_pos (mgrinfo F) = read_pos (mgrinfo F)"
    then show False using ring_distinct [OF r _ D(5), of 0] D(6) r Cons by simp
  qed
  moreover have "hpm_flash_read drv (of_nat HPM_REPO_FLASH_PACKET_LEN) F = (F, Some (page_of (fst x) (snd x)))"
    using device_worksD(1) [OF dv r] not_beyond [OF r] D(7) [of 0] r Cons
    by (simp add: hpm_flash_read_def calc_addr adapter_simps [OF D(1)])
  moreover have x: "length (snd x) \<le> 1020" using D(8) Cons by simp
  ultimately have run: "hpm_flash_load_pack drv True F = (?G, Some x)"
    using D(3) page_fields [OF x, of "fst x"] x by (simp add: hpm_flash_load_pack_def)
  have G: "write_pos (mgrinfo ?G) = write_pos (mgrinfo F)" "read_pos (mgrinfo ?G) = next_pos (read_pos (mgrinfo F))" "flash_dev ?G = flash_dev F"
      "flash_adapter ?G = flash_adapter F" "sector_bit (mgrinfo ?G) = sector_bit (mgrinfo F)" "erased_bit (mgrinfo ?G) = erased_bit (mgrinfo F)"
    by (auto simp: hpm_flash_move_next_read_pos_def erased_bit_def)
  have r1: "page_no (next_pos (read_pos (mgrinfo F))) = (?r + 1) mod 16384" "\<not> invalid_pos (next_pos (read_pos (mgrinfo F)))"
    using next_pos_ok [OF D(2)] by simp_all
  have "\<forall>i<length xs. page (flash_dev F) (((?r + 1) mod 16384 + i) mod 16384) = page_of (fst (xs ! i)) (snd (xs ! i))"
    using D(7) [of "Suc i" for i] Cons unfolding ring_add by simp
  moreover have "page_no (write_pos (mgrinfo F)) = ((?r + 1) mod 16384 + length xs) mod 16384"
    using D(6) Cons unfolding ring_add by simp
  moreover have "length xs < 16384" "list_all (\<lambda>p. length (snd p) \<le> 1020) xs" using D(5,8) Cons by simp_all
  ultimately have "stored page clean ?G xs"
    unfolding stored_def Let_def G r1(1) using D(1,3,4,9-11) r1(2) by blast
  then show ?thesis using run Cons G(4) by (simp add: driver_of_def)
qed

section \<open>A history of the store\<close>

text \<open>What the data handler does with the store: it saves a packet or takes the oldest; the answers in order.\<close>

datatype flash_op = Save u8 "u8 list" | Load

fun flash_step :: "'d flash_drivers \<Rightarrow> flash_op \<Rightarrow> 'd hpm_flash \<Rightarrow> ('d hpm_flash \<times> flash_packet option) option" where
  "flash_step drv (Save cmd data) F = do {
     (F, ok) \<leftarrow> hpm_flash_save_pack drv True data (of_nat (length data)) cmd F;
     if ok then Some (F, None) else None
   }"
| "flash_step drv Load F = Some (hpm_flash_load_pack drv True F)"

fun flash_run :: "'d flash_drivers \<Rightarrow> flash_op list \<Rightarrow> 'd hpm_flash \<Rightarrow> ('d hpm_flash \<times> flash_packet option list) option" where
  "flash_run drv [] F = Some (F, [])"
| "flash_run drv (x # xs) F = do {
     (F, a) \<leftarrow> flash_step drv x F;
     (F, as) \<leftarrow> flash_run drv xs F;
     Some (F, a # as)
   }"

text \<open>The queue it is meant to be: only a save into a queue of 16381 packets and more loses any, at most the three oldest.\<close>

inductive queue_run :: "flash_packet list \<Rightarrow> flash_op list \<Rightarrow> flash_packet option list \<Rightarrow> flash_packet list \<Rightarrow> bool" where
  q_done: "queue_run ps [] [] ps"
| q_save: "k \<le> 3 \<Longrightarrow> (length ps + 3 < 16384 \<longrightarrow> k = 0) \<Longrightarrow> queue_run (drop k ps @ [(cmd, data)]) xs as qs \<Longrightarrow>
    queue_run ps (Save cmd data # xs) (None # as) qs"
| q_empty: "queue_run [] xs as qs \<Longrightarrow> queue_run [] (Load # xs) (None # as) qs"
| q_load: "queue_run ps xs as qs \<Longrightarrow> queue_run (p # ps) (Load # xs) (Some p # as) qs"

fun fits_page :: "flash_op \<Rightarrow> bool" where
  "fits_page (Save _ data) \<longleftrightarrow> length data \<le> 1020"
| "fits_page Load \<longleftrightarrow> True"

text \<open>
  C7: On a device that works the flash is a queue: every history of saves and loads runs, what is loaded are the packets that were saved,
  unchanged and in order, and a packet is lost only when 16381 or more are waiting, the oldest first and at most three at a time.
\<close>

theorem hpm_flash_fifo:
  assumes "device_works (driver_of drv F) page clean" and "stored page clean F ps" and "list_all fits_page xs"
  shows "\<exists>F' as qs. flash_run drv xs F = Some (F', as) \<and> queue_run ps xs as qs \<and> stored page clean F' qs"
  using assms
proof (induction xs arbitrary: F ps)
  case Nil
  then show ?case by (auto intro: q_done)
next
  case (Cons x xs)
  show ?case
  proof (cases x)
    case (Save cmd data)
    then have "length data \<le> 1020" using Cons.prems(3) by simp
    then obtain F1 k where F1: "hpm_flash_save_pack drv True data (of_nat (length data)) cmd F = Some (F1, True)"
        "stored page clean F1 (drop k ps @ [(cmd, data)])" "driver_of drv F1 = driver_of drv F" "k \<le> 3" "length ps + 3 < 16384 \<longrightarrow> k = 0"
      using save_law [OF Cons.prems(1,2)] by blast
    show ?thesis using Cons.IH [OF _ F1(2)] Cons.prems F1 Save by (fastforce intro: q_save)
  next
    case Load
    obtain F1 where F1: "hpm_flash_load_pack drv True F = (F1, case ps of [] \<Rightarrow> None | p # _ \<Rightarrow> Some p)"
        "stored page clean F1 (tl ps)" "driver_of drv F1 = driver_of drv F"
      using load_law [OF Cons.prems(1,2)] by blast
    obtain F2 as qs where F2: "flash_run drv xs F1 = Some (F2, as)" "queue_run (tl ps) xs as qs" "stored page clean F2 qs"
      using Cons.IH [OF _ F1(2)] Cons.prems F1(3) by auto
    then show ?thesis using Load F1(1) by (cases ps) (auto intro: q_empty q_load)
  qed
qed

inductive_cases queue_saveE: "queue_run ps (Save cmd data # xs) as qs"
inductive_cases queue_loadE: "queue_run ps (Load # xs) as qs"
inductive_cases queue_doneE: "queue_run ps [] as qs"

text \<open>A chip on which a write can only clear bits, with the pages that are not erased.\<close>

type_synonym chip = "nat \<Rightarrow> u8 list option"

definition chip_index :: "u32 \<Rightarrow> nat" where
  "chip_index a = unat (a - FLASH_ADDR_HPM_DATA) div 1024"

definition chip_page :: "chip \<Rightarrow> nat \<Rightarrow> u8 list" where
  "chip_page d i = (case d i of None \<Rightarrow> replicate 1024 0xFF | Some bs \<Rightarrow> bs)"

definition chip_driver :: "chip flash_driver" where
  "chip_driver = \<lparr>op_read = (\<lambda>a n d. Some (chip_page d (chip_index a))),
     op_write = (\<lambda>a bs d. (d(chip_index a \<mapsto> map2 (AND) (chip_page d (chip_index a)) bs), True)),
     op_erase = (\<lambda>a n d. (\<lambda>i. if i div 4 = chip_index a div 4 then None else d i, True))\<rparr>"

definition chip_drivers :: "chip flash_drivers" where
  "chip_drivers = \<lparr>drv_sd = chip_driver, drv_nor = chip_driver\<rparr>"

definition chip_flash :: "chip hpm_flash" where
  "chip_flash = \<lparr>flash_adapter = \<lparr>fa_magic = HPM_FLASH_TYPE_MAGIC, fa_type = HPM_FLASH_ADAPTER_TYPE_NOR\<rparr>, kept_adapter = None,
     mgrinfo = fresh_mgrinfo, mgrinfo_tmp = fresh_mgrinfo, flash_write_flag = 0, flash_tick = 0, flash_dev = Map.empty\<rparr>"

lemma chip_index: "i < 16384 \<Longrightarrow> chip_index (page_addr i) = i"
  by (simp add: chip_index_def page_addr_def unat_of_nat del: of_nat_mult)

lemma chip_works: "device_works (driver_of chip_drivers chip_flash) chip_page (\<lambda>d i. d i = None)"
proof -
  have ones: "map2 (AND) (replicate 1024 0xFF) bs = bs" if "length bs = 1024" for bs :: "u8 list"
  proof -
    have "(0xFF :: u8) = - 1" by simp
    then have "(0xFF :: u8) AND b = b" for b by (metis and.left_neutral)
    then show ?thesis using that by (intro nth_equalityI) simp_all
  qed
  have "driver_of chip_drivers chip_flash = chip_driver"
    by (simp add: driver_of_def chip_flash_def chip_drivers_def hpm_flash_ops_def HPM_FLASH_ADAPTER_TYPE_NOR_def)
  then show ?thesis by (simp add: device_works_def chip_driver_def chip_index chip_page_def ones)
qed

lemma chip_stored: "stored chip_page (\<lambda>d i. d i = None) chip_flash []"
  by (simp add: stored_def chip_flash_def fresh_mgrinfo_def HPM_FLASH_ADAPTER_TYPE_NOR_def HPM_FLASH_ADAPTER_TYPE_MAX_def
      invalid_pos_def page_no_def erased_bit_def)

theorem hpm_flash_fifo_witness:
  "\<exists>F'. flash_run chip_drivers [Save 2 [1, 2], Load, Load] chip_flash = Some (F', [None, Some (2, [1, 2]), None])"
proof -
  obtain F' as qs where r: "flash_run chip_drivers [Save 2 [1, 2], Load, Load] chip_flash = Some (F', as)"
      "queue_run [] [Save 2 [1, 2], Load, Load] as qs"
    using hpm_flash_fifo [OF chip_works chip_stored, of "[Save 2 [1, 2], Load, Load]"] by auto
  have "as = [None, Some (2, [1, 2]), None]"
    using r(2) by (auto elim!: queue_saveE queue_loadE queue_doneE)
  then show ?thesis using r(1) by blast
qed

text \<open>
  Clearing the store leaves the marks of the sectors: when the writer was inside the first sector, the next packet is written over the
  pages that are there, without erasing.
\<close>

theorem hpm_flash_clear_keeps_marks:
  assumes "stored page clean F ps" and "page_no (write_pos (mgrinfo F)) \<in> {1, 2, 3}" and "length data \<le> 1020"
    and "op_write (driver_of drv F) (page_addr 0) (page_of cmd data) (flash_dev F) = (d, True)"
  shows "\<exists>F'. hpm_flash_save_pack drv True data (of_nat (length data)) cmd (hpm_flash_clear_info F) = Some (F', True) \<and> flash_dev F' = d"
proof -
  let ?F = "hpm_flash_clear_info F"
  have len: "unat (of_nat (length data) :: u16) = length data" using assms(3) by (simp add: unat_of_nat)
  have c: "write_pos (mgrinfo ?F) = zero_pos" "read_pos (mgrinfo ?F) = zero_pos" "flash_dev ?F = flash_dev F" "flash_adapter ?F = flash_adapter F"
      "sector_bit (mgrinfo ?F) = sector_bit (mgrinfo F)"
    by (simp_all add: hpm_flash_clear_info_def upd_flash_def)
  have ok: "\<not> invalid_pos zero_pos" "page_no zero_pos = 0" by (simp_all add: invalid_pos_def zero_pos_def page_no_def)
  then have a: "HPM_REPO_CALC_ADDR zero_pos = page_addr 0" "\<not> beyond (page_addr 0)" using not_beyond [of 0] by (simp_all add: calc_addr)
  have "erased_bit (mgrinfo ?F) 0" using assms(2) storedD(9) [OF assms(1)] c(5) by (auto simp: erased_bit_def)
  then have e: "sector_erased (sector_num zero_pos) (mgrinfo ?F) = Some True"
    using sector_erased_val [of "mgrinfo ?F" "sector_num zero_pos"] storedD(4) [OF assms(1)] c(5) by (simp add: zero_pos_def)
  have wr: "hpm_flash_adapter_write drv (page_addr 0) (page_of cmd data) ?F = (?F\<lparr>flash_dev := d\<rparr>, True)"
    using adapter_simps(2) [of ?F drv "page_addr 0"] storedD(1) [OF assms(1)] assms(4) c by (simp add: driver_of_def apfst_def)
  have "\<exists>F'. hpm_flash_write drv (page_of cmd data) ?F = Some (F', True) \<and> flash_dev F' = d"
    unfolding hpm_flash_write_def hpm_flash_prepare_def
    by (simp add: c e a wr) (simp add: Let_def c zero_pos_def next_pos_def hpm_flash_move_next_write_pos_def hpm_flash_move_next_read_pos_def)
  then show ?thesis using assms(3) ok by (auto simp: hpm_flash_save_pack_def len c)
qed

theorem hpm_flash_clear_keeps_marks_witness:
  "\<exists>F F'. flash_run chip_drivers [Save 2 [1, 2]] chip_flash = Some (F, [None]) \<and>
     hpm_flash_save_pack chip_drivers True [4] 1 8 (hpm_flash_clear_info F) = Some (F', True) \<and>
     flash_dev F' = fst (op_write chip_driver (page_addr 0) (page_of 8 [4]) (flash_dev F))"
proof -
  obtain F k where s: "hpm_flash_save_pack chip_drivers True [1, 2] (of_nat (length [1, 2 :: u8])) 2 chip_flash = Some (F, True)"
      "stored chip_page (\<lambda>d i. d i = None) F (drop k [] @ [(2, [1, 2])])" "driver_of chip_drivers F = driver_of chip_drivers chip_flash"
      "write_pos (mgrinfo F) = next_pos (write_pos (mgrinfo chip_flash))"
    using save_law [OF chip_works chip_stored, of "[1, 2]" 2] by auto
  have w: "page_no (write_pos (mgrinfo F)) \<in> {1, 2, 3}"
    unfolding s(4) by (simp add: chip_flash_def fresh_mgrinfo_def next_pos_def page_no_def word_le_nat_alt)
  have d: "driver_of chip_drivers F = chip_driver"
    unfolding s(3) by (simp add: driver_of_def chip_flash_def chip_drivers_def hpm_flash_ops_def HPM_FLASH_ADAPTER_TYPE_NOR_def)
  obtain d' where "op_write chip_driver (page_addr 0) (page_of 8 [4]) (flash_dev F) = (d', True)" by (simp add: chip_driver_def)
  then show ?thesis using hpm_flash_clear_keeps_marks [OF s(2) w, of "[4]" chip_drivers 8 d'] s(1) by (auto simp: d)
qed

end
