(* ===== verification/HpmDataInv.thy ===== *)
theory HpmDataInv imports HpmData HpmFlashClaims "HOL-Library.Multiset" begin

text \<open>
  The packets of \<^verbatim>\<open>hpm_data.c\<close>: each is in one list or in hand, what waits is fit to be sent, and no operation loses a report that waits in
  a list or in flash.
\<close>

section \<open>Lists and packets\<close>

definition heads :: "addr set" where
  "heads = {hpm_free_list, hpm_realtm_list, hpm_delay_list, hpm_trans_list}"

definition links :: "addr set" where
  "links = pack_link ` {..<HPM_PACK_NUM}"

text \<open>\<open>L\<close> gives the links of every list, \<open>H\<close> the packets in hand.\<close>

definition lists_ok :: "dheap \<Rightarrow> addr set \<Rightarrow> (addr \<Rightarrow> addr list) \<Rightarrow> bool" where
  "lists_ok h H L \<longleftrightarrow> family dlist_at h heads L \<and> (\<Union>d\<in>heads. set (L d)) = links - H \<and> H \<subseteq> links"

definition pack_at :: "'d hpm_store \<Rightarrow> addr \<Rightarrow> HPM_PACKET" where
  "pack_at D n = hpm_data_mem D ! pack_of n"

definition fit :: "HPM_PACKET \<Rightarrow> bool" where
  "fit p \<longleftrightarrow> pk_type p \<noteq> 0 \<and> unat (pk_len p) \<le> 996"

definition packs_ok :: "'d hpm_store \<Rightarrow> (addr \<Rightarrow> addr list) \<Rightarrow> bool" where
  "packs_ok D L \<longleftrightarrow> length (hpm_data_mem D) = HPM_PACK_NUM \<and> (\<forall>n\<in>links. length (pk_data (pack_at D n)) = HPM_PACK_BUFF_LEN) \<and>
     (\<forall>n\<in>set (L hpm_realtm_list). pk_list (pack_at D n) = hpm_realtm_list \<and> fit (pack_at D n)) \<and>
     (\<forall>n\<in>set (L hpm_delay_list). pk_list (pack_at D n) = hpm_delay_list \<and> fit (pack_at D n)) \<and>
     (\<forall>n\<in>set (L hpm_trans_list). pk_list (pack_at D n) \<in> {hpm_realtm_list, hpm_delay_list} \<and> fit (pack_at D n))"

definition store_ok :: "'d hpm_store \<Rightarrow> addr set \<Rightarrow> (addr \<Rightarrow> addr list) \<Rightarrow> bool" where
  "store_ok D H L \<longleftrightarrow> lists_ok (store_heap D) H L \<and> packs_ok D L"

lemma head_simps [simp]:
  "hpm_free_list \<in> heads" "hpm_realtm_list \<in> heads" "hpm_delay_list \<in> heads" "hpm_trans_list \<in> heads"
  "hpm_free_list \<noteq> hpm_realtm_list" "hpm_free_list \<noteq> hpm_delay_list" "hpm_free_list \<noteq> hpm_trans_list"
  "hpm_realtm_list \<noteq> hpm_free_list" "hpm_realtm_list \<noteq> hpm_delay_list" "hpm_realtm_list \<noteq> hpm_trans_list"
  "hpm_delay_list \<noteq> hpm_free_list" "hpm_delay_list \<noteq> hpm_realtm_list" "hpm_delay_list \<noteq> hpm_trans_list"
  "hpm_trans_list \<noteq> hpm_free_list" "hpm_trans_list \<noteq> hpm_realtm_list" "hpm_trans_list \<noteq> hpm_delay_list"
  by (simp_all add: heads_def hpm_free_list_def hpm_realtm_list_def hpm_delay_list_def hpm_trans_list_def)

lemma head_cases: "d \<in> heads \<Longrightarrow> d = hpm_free_list \<or> d = hpm_realtm_list \<or> d = hpm_delay_list \<or> d = hpm_trans_list"
  by (simp add: heads_def)

lemma link_facts:
  assumes "n \<in> links"
  shows "n \<noteq> NULL" and "pack_of n < HPM_PACK_NUM" and "pack_link (pack_of n) = n" and "n \<notin> heads" and "pack_or_null n = Some (pack_of n)"
  using assms
  by (auto simp: links_def pack_link_def pack_of_def NULL_def heads_def hpm_free_list_def hpm_realtm_list_def hpm_delay_list_def hpm_trans_list_def
      pack_or_null_def)

lemma link_inj: "m \<in> links \<Longrightarrow> n \<in> links \<Longrightarrow> pack_of m = pack_of n \<longleftrightarrow> m = n"
  using link_facts(3) by metis

lemma lists_member: "lists_ok h H L \<Longrightarrow> d \<in> heads \<Longrightarrow> n \<in> set (L d) \<Longrightarrow> n \<in> links \<and> n \<notin> H"
  unfolding lists_ok_def by blast

lemma lists_apart: "lists_ok h H L \<Longrightarrow> d \<in> heads \<Longrightarrow> d' \<in> heads \<Longrightarrow> n \<in> set (L d) \<Longrightarrow> n \<in> set (L d') \<Longrightarrow> d = d'"
  unfolding lists_ok_def using family_disjoint [of dlist_at h heads L d d' n] by simp

lemma lists_distinct: "lists_ok h H L \<Longrightarrow> d \<in> heads \<Longrightarrow> distinct (L d)"
  unfolding lists_ok_def using familyD [of dlist_at h heads L d] dlist_nodes [of h d "L d"] by auto

lemma union_upd: "d \<in> heads \<Longrightarrow> (\<Union>e\<in>heads. set ((L(d := zs)) e)) = set zs \<union> (\<Union>e\<in>heads - {d}. set (L e))"
  by (auto split: if_splits)

lemma union_split: "d \<in> heads \<Longrightarrow> (\<Union>e\<in>heads. set (L e)) = set (L d) \<union> (\<Union>e\<in>heads - {d}. set (L e))"
  by blast

text \<open>Taking a packet out of a list, and putting one that is in hand into a list.\<close>

lemma lists_take:
  assumes ok: "lists_ok h H L" and d: "d \<in> heads" and L: "L d = xs @ n # ys" and fam: "family dlist_at h' heads (L(d := xs @ ys))"
  shows "lists_ok h' (insert n H) (L(d := xs @ ys))"
proof -
  let ?U = "\<Union>e\<in>heads - {d}. set (L e)"
  have n: "n \<in> links" "n \<notin> H" using lists_member [OF ok d, of n] L by auto
  have U: "n \<notin> ?U" using lists_apart [OF ok d, of _ n] L by auto
  have "n \<notin> set (xs @ ys)" using lists_distinct [OF ok d] L by auto
  moreover have "insert n (set (xs @ ys)) \<union> ?U = links - H"
    using ok unfolding lists_ok_def union_split [OF d, of L] L by auto
  ultimately have "set (xs @ ys) \<union> ?U = links - insert n H" using n U by blast
  moreover have "insert n H \<subseteq> links" using n ok unfolding lists_ok_def by simp
  ultimately show ?thesis using fam unfolding lists_ok_def union_upd [OF d] by blast
qed

lemma lists_put:
  assumes ok: "lists_ok h H L" and d: "d \<in> heads" and n: "n \<in> H" and fam: "family dlist_at h' heads (L(d := zs))" and zs: "set zs = insert n (set (L d))"
  shows "lists_ok h' (H - {n}) (L(d := zs))"
proof -
  let ?U = "\<Union>e\<in>heads - {d}. set (L e)"
  have "set (L d) \<union> ?U = links - H" "H \<subseteq> links"
    using ok unfolding lists_ok_def union_split [OF d, of L] by auto
  then have "set zs \<union> ?U = insert n (links - H)" using zs by simp
  also have "\<dots> = links - (H - {n})" using \<open>H \<subseteq> links\<close> n by blast
  finally have "set zs \<union> ?U = links - (H - {n})" .
  moreover have "H - {n} \<subseteq> links" using \<open>H \<subseteq> links\<close> by blast
  ultimately show ?thesis using fam unfolding lists_ok_def union_upd [OF d] by blast
qed

lemma hand_fresh:
  assumes "lists_ok h H L" and "n \<in> H" and "d \<in> heads"
  shows "n \<notin> set (d # L d)" and "n \<noteq> NULL"
  using assms lists_member [of h H L d n] link_facts(1,4) [of n] unfolding lists_ok_def by auto

text \<open>A change of the lists, and the packets of the new lists are as they should be.\<close>

definition place_ok :: "addr \<Rightarrow> HPM_PACKET \<Rightarrow> bool" where
  "place_ok d p \<longleftrightarrow> (d \<noteq> hpm_free_list \<longrightarrow> fit p) \<and> (d = hpm_realtm_list \<or> d = hpm_delay_list \<longrightarrow> pk_list p = d) \<and>
     (d = hpm_trans_list \<longrightarrow> pk_list p \<in> {hpm_realtm_list, hpm_delay_list})"

lemma packs_ok_iff: "packs_ok D L \<longleftrightarrow> length (hpm_data_mem D) = HPM_PACK_NUM \<and> (\<forall>n\<in>links. length (pk_data (pack_at D n)) = HPM_PACK_BUFF_LEN) \<and>
    (\<forall>d\<in>heads. \<forall>n\<in>set (L d). place_ok d (pack_at D n))"
  by (auto simp: packs_ok_def place_ok_def heads_def)

lemma pack_at_heap [simp]: "pack_at (D\<lparr>store_heap := h\<rparr>) n = pack_at D n" "pack_at (D\<lparr>store_flash := F\<rparr>) n = pack_at D n"
  by (simp_all add: pack_at_def)

lemma packs_ok_heap [simp]: "packs_ok (D\<lparr>store_heap := h\<rparr>) L = packs_ok D L" "packs_ok (D\<lparr>store_flash := F\<rparr>) L = packs_ok D L"
  by (simp_all add: packs_ok_def)

lemma packs_take: "packs_ok D L \<Longrightarrow> d \<in> heads \<Longrightarrow> set zs \<subseteq> set (L d) \<Longrightarrow> packs_ok D (L(d := zs))"
  unfolding packs_ok_iff by auto

lemma packs_put: "packs_ok D L \<Longrightarrow> d \<in> heads \<Longrightarrow> set zs \<subseteq> insert n (set (L d)) \<Longrightarrow> place_ok d (pack_at D n) \<Longrightarrow> packs_ok D (L(d := zs))"
  unfolding packs_ok_iff by auto

lemma pop_first_law:
  assumes ok: "store_ok D H L" and d: "d \<in> heads"
  shows "L d = [] \<Longrightarrow> pop_first d D = Some (D, NULL)"
    and "L d = n # ns \<Longrightarrow> \<exists>h. pop_first d D = Some (D\<lparr>store_heap := h\<rparr>, n) \<and> store_ok (D\<lparr>store_heap := h\<rparr>) (insert n H) (L(d := ns)) \<and> n \<in> links"
proof -
  note l = ok [unfolded store_ok_def]
  have at: "dlist_at (store_heap D) d (L d)" using l d unfolding lists_ok_def by (auto dest: familyD)
  show "pop_first d D = Some (D, NULL)" if "L d = []"
    using dlist_pop_first_Nil at that by (simp add: pop_first_def)
  show "\<exists>h. pop_first d D = Some (D\<lparr>store_heap := h\<rparr>, n) \<and> store_ok (D\<lparr>store_heap := h\<rparr>) (insert n H) (L(d := ns)) \<and> n \<in> links"
    if e: "L d = n # ns"
  proof -
    obtain h where h: "dlist_del_entry (store_heap D) n = Some h" "family dlist_at h heads (L(d := ns))"
      using dhead.family_del [of "store_heap D" heads L d "[]" n ns] l d e unfolding lists_ok_def by auto
    have "lists_ok h (insert n H) (L(d := [] @ ns))" by (rule lists_take [OF conjunct1 [OF l] d]) (use e h(2) in auto)
    moreover have "packs_ok D (L(d := ns))" by (rule packs_take [OF conjunct2 [OF l] d]) (use e in auto)
    ultimately show ?thesis
      using h(1) at e dlist_pop_first_Cons [of "store_heap D" d n ns] lists_member [OF conjunct1 [OF l] d, of n]
      by (auto simp: pop_first_def store_ok_def)
  qed
qed

lemma pop_last_law:
  assumes ok: "store_ok D H L" and d: "d \<in> heads"
  shows "L d = [] \<Longrightarrow> pop_last d D = Some (D, NULL)"
    and "L d = ns @ [n] \<Longrightarrow> \<exists>h. pop_last d D = Some (D\<lparr>store_heap := h\<rparr>, n) \<and> store_ok (D\<lparr>store_heap := h\<rparr>) (insert n H) (L(d := ns)) \<and> n \<in> links"
proof -
  note l = ok [unfolded store_ok_def]
  have at: "dlist_at (store_heap D) d (L d)" using l d unfolding lists_ok_def by (auto dest: familyD)
  show "pop_last d D = Some (D, NULL)" if "L d = []"
    using dlist_pop_last_Nil at that by (simp add: pop_last_def)
  show "\<exists>h. pop_last d D = Some (D\<lparr>store_heap := h\<rparr>, n) \<and> store_ok (D\<lparr>store_heap := h\<rparr>) (insert n H) (L(d := ns)) \<and> n \<in> links"
    if e: "L d = ns @ [n]"
  proof -
    obtain h where h: "dlist_del_entry (store_heap D) n = Some h" "family dlist_at h heads (L(d := ns))"
      using dhead.family_del [of "store_heap D" heads L d ns n "[]"] l d e unfolding lists_ok_def by auto
    have "lists_ok h (insert n H) (L(d := ns @ []))" by (rule lists_take [OF conjunct1 [OF l] d]) (use e h(2) in auto)
    moreover have "packs_ok D (L(d := ns))" by (rule packs_take [OF conjunct2 [OF l] d]) (use e in auto)
    ultimately show ?thesis
      using h(1) at e dlist_pop_last_snoc [of "store_heap D" d ns n] lists_member [OF conjunct1 [OF l] d, of n]
      by (auto simp: pop_last_def store_ok_def)
  qed
qed

lemma add_law:
  assumes ok: "store_ok D H L" and d: "d \<in> heads" and n: "n \<in> H" and p: "place_ok d (pack_at D n)"
  shows "\<exists>h. add_tail n d D = Some (D\<lparr>store_heap := h\<rparr>) \<and> store_ok (D\<lparr>store_heap := h\<rparr>) (H - {n}) (L(d := L d @ [n]))"
    and "\<exists>h. add_head n d D = Some (D\<lparr>store_heap := h\<rparr>) \<and> store_ok (D\<lparr>store_heap := h\<rparr>) (H - {n}) (L(d := n # L d))"
proof -
  note l = ok [unfolded store_ok_def]
  have fam: "family dlist_at (store_heap D) heads L" using l by (simp add: lists_ok_def)
  note f = hand_fresh [OF conjunct1 [OF l] n]
  obtain h where h: "dlist_add_tail (store_heap D) n d = Some h" "family dlist_at h heads (L(d := L d @ [n]))"
    using dtail.family_add [OF fam d f(2) [OF d] f(1)] by blast
  have "lists_ok h (H - {n}) (L(d := L d @ [n]))" by (rule lists_put [OF conjunct1 [OF l] d n h(2)]) simp
  moreover have "packs_ok D (L(d := L d @ [n]))" by (rule packs_put [OF conjunct2 [OF l] d _ p]) auto
  ultimately show "\<exists>h. add_tail n d D = Some (D\<lparr>store_heap := h\<rparr>) \<and> store_ok (D\<lparr>store_heap := h\<rparr>) (H - {n}) (L(d := L d @ [n]))"
    using h(1) by (auto simp: add_tail_def store_ok_def)
  obtain h where h: "dlist_add_head (store_heap D) n d = Some h" "family dlist_at h heads (L(d := n # L d))"
    using dhead.family_add [OF fam d f(2) [OF d] f(1)] by blast
  have "lists_ok h (H - {n}) (L(d := n # L d))" by (rule lists_put [OF conjunct1 [OF l] d n h(2)]) simp
  moreover have "packs_ok D (L(d := n # L d))" by (rule packs_put [OF conjunct2 [OF l] d _ p]) auto
  ultimately show "\<exists>h. add_head n d D = Some (D\<lparr>store_heap := h\<rparr>) \<and> store_ok (D\<lparr>store_heap := h\<rparr>) (H - {n}) (L(d := n # L d))"
    using h(1) by (auto simp: add_head_def store_ok_def)
qed

section \<open>What waits\<close>

definition pay :: "'d hpm_store \<Rightarrow> addr \<Rightarrow> u8 list" where
  "pay D n = take (unat (pk_len (pack_at D n))) (pk_data (pack_at D n))"

lemma pay_heap [simp]: "pay (D\<lparr>store_heap := h\<rparr>) = pay D" "pay (D\<lparr>store_flash := F\<rparr>) = pay D"
  by (auto simp: pay_def)

definition waiting :: "(addr \<Rightarrow> addr list) \<Rightarrow> addr multiset" where
  "waiting L = mset (L hpm_realtm_list) + mset (L hpm_delay_list) + mset (L hpm_trans_list)"

text \<open>The flash is as it should be, and so are the reports in it.\<close>

definition flash_ok :: "'d flash_drivers \<Rightarrow> ('d \<Rightarrow> nat \<Rightarrow> u8 list) \<Rightarrow> ('d \<Rightarrow> nat \<Rightarrow> bool) \<Rightarrow> 'd hpm_flash \<Rightarrow> flash_packet list \<Rightarrow> bool" where
  "flash_ok drv page clean F fl \<longleftrightarrow> device_works (driver_of drv F) page clean \<and> stored page clean F fl \<and>
     list_all (\<lambda>(c, bs). c \<noteq> 0 \<and> length bs \<le> 996) fl"

definition same_packs :: "'d hpm_store \<Rightarrow> 'd hpm_store \<Rightarrow> bool" where
  "same_packs D D' \<longleftrightarrow> (\<forall>n\<in>links. pay D' n = pay D n) \<and> store_flash D' = store_flash D"

lemma same_packs_refl [simp]: "same_packs D (D\<lparr>store_heap := h\<rparr>)" "same_packs D D"
  by (simp_all add: same_packs_def pay_def)

lemma same_packs_trans [trans]: "same_packs A B \<Longrightarrow> same_packs B C \<Longrightarrow> same_packs A C"
  by (simp add: same_packs_def)

lemma read_pack: "store_ok D H L \<Longrightarrow> n \<in> links \<Longrightarrow> rd (hpm_data_mem D) (pack_of n) = Some (pack_at D n)"
  using link_facts(2) [of n] by (simp add: store_ok_def packs_ok_def rd_def pack_at_def)

lemma data_length: "store_ok D H L \<Longrightarrow> n \<in> links \<Longrightarrow> length (pk_data (pack_at D n)) = HPM_PACK_BUFF_LEN"
  by (simp add: store_ok_def packs_ok_def)

lemma placed: "store_ok D H L \<Longrightarrow> d \<in> heads \<Longrightarrow> n \<in> set (L d) \<Longrightarrow> place_ok d (pack_at D n)"
  unfolding store_ok_def packs_ok_iff by blast

lemma pay_length: "store_ok D H L \<Longrightarrow> n \<in> links \<Longrightarrow> fit (pack_at D n) \<Longrightarrow> length (pay D n) = unat (pk_len (pack_at D n))"
  by (auto simp: pay_def store_ok_def packs_ok_def fit_def HPM_PACK_BUFF_LEN_def)

lemma upd_pack_law:
  assumes ok: "store_ok D H L" and n: "n \<in> H" and f: "length (pk_data (f (pack_at D n))) = HPM_PACK_BUFF_LEN"
  shows "\<exists>D'. upd_pack (pack_of n) f D = Some D' \<and> store_ok D' H L \<and> store_flash D' = store_flash D \<and> store_heap D' = store_heap D \<and>
    (\<forall>m\<in>links. pack_at D' m = (if m = n then f (pack_at D n) else pack_at D m))"
proof -
  note l = ok [unfolded store_ok_def]
  have n': "n \<in> links" using n l by (auto simp: lists_ok_def)
  note i = link_facts(2) [OF n']
  have len: "length (hpm_data_mem D) = HPM_PACK_NUM" using l by (simp add: packs_ok_def)
  let ?D = "D\<lparr>hpm_data_mem := (hpm_data_mem D)[pack_of n := f (pack_at D n)]\<rparr>"
  have at: "pack_at ?D m = (if m = n then f (pack_at D n) else pack_at D m)" if "m \<in> links" for m
    using link_inj [OF that n'] i len by (auto simp: pack_at_def)
  have "packs_ok ?D L"
    unfolding packs_ok_iff
  proof (intro conjI ballI)
    show "length (pk_data (pack_at ?D m)) = HPM_PACK_BUFF_LEN" if "m \<in> links" for m
      using at [OF that] f l that by (simp add: packs_ok_def)
    show "place_ok d (pack_at ?D m)" if "d \<in> heads" "m \<in> set (L d)" for d m
      using at [of m] lists_member [OF conjunct1 [OF l] that] n placed [OF ok that] by auto
  qed (simp add: len)
  then have "store_ok ?D H L" using l by (simp add: store_ok_def)
  moreover have "upd_pack (pack_of n) f D = Some ?D"
    using read_pack [OF ok n'] i len by (simp add: upd_pack_def wr_def)
  ultimately show ?thesis using at by auto
qed

text \<open>Reports that were sent go back to where they came from.\<close>

lemma flush_trans_law:
  "store_ok D {} L \<Longrightarrow> \<exists>D' L'. hpm_data_flush_trans_list D = Some D' \<and> store_ok D' {} L' \<and> same_packs D D' \<and> waiting L' = waiting L \<and>
    L' hpm_trans_list = [] \<and> L' hpm_free_list = L hpm_free_list"
proof (induction "L hpm_trans_list" arbitrary: D L rule: rev_induct)
  case Nil
  then show ?case
    using pop_last_law(1) [OF Nil(2), of hpm_trans_list]
    by (subst hpm_data_flush_trans_list.simps) (auto intro!: exI [of _ D] exI [of _ L])
next
  case (snoc n ns)
  obtain h where h: "pop_last hpm_trans_list D = Some (D\<lparr>store_heap := h\<rparr>, n)" "store_ok (D\<lparr>store_heap := h\<rparr>) {n} (L(hpm_trans_list := ns))" "n \<in> links"
    using pop_last_law(2) [OF snoc.prems, of hpm_trans_list ns n] snoc.hyps(2) by auto
  let ?p = "pack_at D n" and ?d = "pk_list (pack_at D n)"
  have p: "place_ok hpm_trans_list ?p" using placed [OF snoc.prems, of hpm_trans_list n] snoc.hyps(2) [symmetric] by simp
  then have d: "?d \<in> {hpm_realtm_list, hpm_delay_list}" "place_ok ?d ?p" by (auto simp: place_ok_def)
  obtain h' where h': "add_tail n ?d (D\<lparr>store_heap := h\<rparr>) = Some (D\<lparr>store_heap := h'\<rparr>)"
      "store_ok (D\<lparr>store_heap := h'\<rparr>) {} ((L(hpm_trans_list := ns))(?d := L ?d @ [n]))"
    using add_law(1) [OF h(2), of ?d n] d by auto
  let ?L = "(L(hpm_trans_list := ns))(?d := L ?d @ [n])"
  have w: "waiting ?L = waiting L" "?L hpm_trans_list = ns" "?L hpm_free_list = L hpm_free_list"
    using d(1) snoc.hyps(2) [symmetric] by (auto simp: waiting_def)
  obtain D' L' where D': "hpm_data_flush_trans_list (D\<lparr>store_heap := h'\<rparr>) = Some D'" "store_ok D' {} L'" "same_packs (D\<lparr>store_heap := h'\<rparr>) D'"
      "waiting L' = waiting ?L" "L' hpm_trans_list = []" "L' hpm_free_list = ?L hpm_free_list"
    using snoc.hyps(1) [OF w(2) [symmetric] h'(2)] by blast
  have "hpm_data_flush_trans_list D = hpm_data_flush_trans_list (D\<lparr>store_heap := h'\<rparr>)"
    using h(1) h'(1) link_facts(1) [OF h(3)] read_pack [OF h(2,3)]
    by (subst hpm_data_flush_trans_list.simps) simp
  moreover have "same_packs D D'" using D'(3) same_packs_refl(1) same_packs_trans by blast
  ultimately show ?case using D' w by metis
qed

text \<open>Reports of the first list are marked as late.\<close>

lemma flush_realtm_loop_law:
  "store_ok D {} L \<Longrightarrow> \<exists>D' L'. flush_realtm_loop one k D = Some D' \<and> store_ok D' {} L' \<and> same_packs D D' \<and> waiting L' = waiting L \<and>
    L' hpm_trans_list = L hpm_trans_list \<and> L' hpm_free_list = L hpm_free_list"
proof (induction k arbitrary: D L)
  case 0
  then show ?case by auto
next
  case (Suc k)
  show ?case
  proof (cases "L hpm_realtm_list")
    case Nil
    then show ?thesis using pop_first_law(1) [OF Suc.prems, of hpm_realtm_list] Suc.prems by auto
  next
    case (Cons n ns)
    obtain h where h: "pop_first hpm_realtm_list D = Some (D\<lparr>store_heap := h\<rparr>, n)" "store_ok (D\<lparr>store_heap := h\<rparr>) {n} (L(hpm_realtm_list := ns))" "n \<in> links"
      using pop_first_law(2) [OF Suc.prems _ Cons] by auto
    have p: "place_ok hpm_realtm_list (pack_at D n)" using placed [OF Suc.prems, of hpm_realtm_list n] Cons by simp
    note step = h(1) link_facts(1) [OF h(3)] read_pack [OF h(2,3)]
    let ?c = "hpm_get_delay_cmdid (pk_type (pack_at D n))"
    show ?thesis
    proof (cases "?c = 0")
      case True
      let ?L = "L(hpm_realtm_list := ns @ [n])"
      obtain h' where h': "add_tail n hpm_realtm_list (D\<lparr>store_heap := h\<rparr>) = Some (D\<lparr>store_heap := h'\<rparr>)" "store_ok (D\<lparr>store_heap := h'\<rparr>) {} ?L"
        using add_law(1) [OF h(2), of hpm_realtm_list n] p by auto
      have w: "waiting ?L = waiting L" using Cons by (simp add: waiting_def)
      obtain D' L' where D': "flush_realtm_loop one k (D\<lparr>store_heap := h'\<rparr>) = Some D'" "store_ok D' {} L'" "same_packs (D\<lparr>store_heap := h'\<rparr>) D'"
          "waiting L' = waiting ?L" "L' hpm_trans_list = ?L hpm_trans_list" "L' hpm_free_list = ?L hpm_free_list"
        using Suc.IH [OF h'(2)] by blast
      then have "flush_realtm_loop one (Suc k) D = Some D'" using True step h'(1) by simp
      moreover have "same_packs D D'" using D'(3) same_packs_refl(1) same_packs_trans by blast
      ultimately show ?thesis using D' w by auto
    next
      case False
      let ?f = "\<lambda>p. p\<lparr>pk_type := ?c, pk_list := hpm_delay_list\<rparr>"
      obtain D1 where D1: "upd_pack (pack_of n) ?f (D\<lparr>store_heap := h\<rparr>) = Some D1" "store_ok D1 {n} (L(hpm_realtm_list := ns))"
          "store_flash D1 = store_flash D" "\<forall>m\<in>links. pack_at D1 m = (if m = n then ?f (pack_at D n) else pack_at D m)"
        using upd_pack_law [OF h(2), of n ?f] Suc.prems h(3) by (auto simp: store_ok_def packs_ok_def)
      have "place_ok hpm_delay_list (pack_at D1 n)" using D1(4) h(3) p False by (simp add: place_ok_def fit_def)
      then obtain h' where h': "add_tail n hpm_delay_list D1 = Some (D1\<lparr>store_heap := h'\<rparr>)"
          "store_ok (D1\<lparr>store_heap := h'\<rparr>) {} ((L(hpm_realtm_list := ns))(hpm_delay_list := L hpm_delay_list @ [n]))" (is "store_ok ?D {} ?L")
        using add_law(1) [OF D1(2), of hpm_delay_list n] by auto
      have s: "same_packs D ?D" using D1(3,4) h(3) by (auto simp: same_packs_def pay_def)
      have w: "waiting ?L = waiting L" using Cons by (simp add: waiting_def)
      show ?thesis
      proof (cases one)
        case True
        then have "flush_realtm_loop one (Suc k) D = Some ?D" using False step h'(1) D1(1) by simp
        then show ?thesis using h'(2) s w by auto
      next
        case late: False
        obtain D' L' where D': "flush_realtm_loop one k ?D = Some D'" "store_ok D' {} L'" "same_packs ?D D'"
            "waiting L' = waiting ?L" "L' hpm_trans_list = ?L hpm_trans_list" "L' hpm_free_list = ?L hpm_free_list"
          using Suc.IH [OF h'(2)] by blast
        then have "flush_realtm_loop one (Suc k) D = Some D'" using False late step h'(1) D1(1) by simp
        moreover have "same_packs D D'" using D'(3) s same_packs_trans by blast
        ultimately show ?thesis using D' w by auto
      qed
    qed
  qed
qed

lemma list_at: "store_ok D H L \<Longrightarrow> d \<in> heads \<Longrightarrow> dlist_at (store_heap D) d (L d)"
  by (auto simp: store_ok_def lists_ok_def dest: familyD)

lemma realtm_count_some: "store_ok D H L \<Longrightarrow> \<exists>k. realtm_count D = Some k"
  using dlist_count_at [OF list_at [of D H L hpm_realtm_list]] by (simp add: realtm_count_def)

lemma flush_realtm_law:
  assumes "store_ok D {} L"
  shows "\<exists>D' L'. hpm_data_flush_realtm_data D = Some D' \<and> store_ok D' {} L' \<and> same_packs D D' \<and> waiting L' = waiting L \<and>
      L' hpm_trans_list = L hpm_trans_list \<and> L' hpm_free_list = L hpm_free_list"
    and "\<exists>D' L'. hpm_data_flush_one_realtm_data D = Some D' \<and> store_ok D' {} L' \<and> same_packs D D' \<and> waiting L' = waiting L \<and>
      L' hpm_trans_list = L hpm_trans_list \<and> L' hpm_free_list = L hpm_free_list"
proof -
  obtain k where k: "realtm_count D = Some k" using realtm_count_some [OF assms] by blast
  show "\<exists>D' L'. hpm_data_flush_realtm_data D = Some D' \<and> store_ok D' {} L' \<and> same_packs D D' \<and> waiting L' = waiting L \<and>
      L' hpm_trans_list = L hpm_trans_list \<and> L' hpm_free_list = L hpm_free_list"
    using flush_realtm_loop_law [OF assms, of False k] k by (simp add: hpm_data_flush_realtm_data_def)
  show "\<exists>D' L'. hpm_data_flush_one_realtm_data D = Some D' \<and> store_ok D' {} L' \<and> same_packs D D' \<and> waiting L' = waiting L \<and>
      L' hpm_trans_list = L hpm_trans_list \<and> L' hpm_free_list = L hpm_free_list"
    using flush_realtm_loop_law [OF assms, of True k] k by (simp add: hpm_data_flush_one_realtm_data_def)
qed

lemma list_empty_iff: "store_ok D H L \<Longrightarrow> d \<in> heads \<Longrightarrow> dlist_empty (store_heap D) d \<longleftrightarrow> L d = []"
  using dlist_empty_iff [OF list_at] .

lemma no_report_iff: "store_ok D H L \<Longrightarrow> hpm_data_no_report_data D \<longleftrightarrow> L hpm_realtm_list = [] \<and> L hpm_delay_list = []"
  by (simp add: hpm_data_no_report_data_def list_empty_iff)

text \<open>The oldest report, late ones first.\<close>

lemma get_noflash_law:
  assumes ok: "store_ok D {} L"
  shows "L hpm_realtm_list = [] \<Longrightarrow> L hpm_delay_list = [] \<Longrightarrow> hpm_data_get_report_pack_noflash D = Some (D, None)"
    and "\<not> (L hpm_realtm_list = [] \<and> L hpm_delay_list = []) \<Longrightarrow> \<exists>n h L'. hpm_data_get_report_pack_noflash D = Some (D\<lparr>store_heap := h\<rparr>, Some (pack_of n)) \<and>
      store_ok (D\<lparr>store_heap := h\<rparr>) {n} L' \<and> n \<in> links \<and> waiting L = add_mset n (waiting L') \<and> L' hpm_trans_list = L hpm_trans_list \<and>
      L' hpm_free_list = L hpm_free_list \<and> place_ok (pk_list (pack_at D n)) (pack_at D n) \<and> pk_list (pack_at D n) \<in> {hpm_realtm_list, hpm_delay_list} \<and>
      fit (pack_at D n)"
proof -
  show "hpm_data_get_report_pack_noflash D = Some (D, None)" if "L hpm_realtm_list = []" "L hpm_delay_list = []"
    using pop_first_law(1) [OF ok, of hpm_delay_list] pop_first_law(1) [OF ok, of hpm_realtm_list] that
    by (simp add: hpm_data_get_report_pack_noflash_def pack_or_null_def)
  assume some: "\<not> (L hpm_realtm_list = [] \<and> L hpm_delay_list = [])"
  show "\<exists>n h L'. hpm_data_get_report_pack_noflash D = Some (D\<lparr>store_heap := h\<rparr>, Some (pack_of n)) \<and>
      store_ok (D\<lparr>store_heap := h\<rparr>) {n} L' \<and> n \<in> links \<and> waiting L = add_mset n (waiting L') \<and> L' hpm_trans_list = L hpm_trans_list \<and>
      L' hpm_free_list = L hpm_free_list \<and> place_ok (pk_list (pack_at D n)) (pack_at D n) \<and> pk_list (pack_at D n) \<in> {hpm_realtm_list, hpm_delay_list} \<and>
      fit (pack_at D n)"
  proof (cases "L hpm_delay_list")
    case (Cons n ns)
    obtain h where h: "pop_first hpm_delay_list D = Some (D\<lparr>store_heap := h\<rparr>, n)" "store_ok (D\<lparr>store_heap := h\<rparr>) {n} (L(hpm_delay_list := ns))" "n \<in> links"
      using pop_first_law(2) [OF ok _ Cons] by auto
    have "place_ok hpm_delay_list (pack_at D n)" using placed [OF ok, of hpm_delay_list n] Cons by simp
    then show ?thesis using h link_facts(1,5) [OF h(3)] Cons
      by (intro exI [of _ n] exI [of _ h] exI [of _ "L(hpm_delay_list := ns)"])
        (auto simp: hpm_data_get_report_pack_noflash_def waiting_def place_ok_def)
  next
    case Nil
    then obtain n ns where Cons: "L hpm_realtm_list = n # ns" using some by (cases "L hpm_realtm_list") auto
    obtain h where h: "pop_first hpm_realtm_list D = Some (D\<lparr>store_heap := h\<rparr>, n)" "store_ok (D\<lparr>store_heap := h\<rparr>) {n} (L(hpm_realtm_list := ns))" "n \<in> links"
      using pop_first_law(2) [OF ok _ Cons] by auto
    have "place_ok hpm_realtm_list (pack_at D n)" using placed [OF ok, of hpm_realtm_list n] Cons by simp
    then show ?thesis using h link_facts(1,5) [OF h(3)] Cons pop_first_law(1) [OF ok _ Nil]
      by (intro exI [of _ n] exI [of _ h] exI [of _ "L(hpm_realtm_list := ns)"])
        (auto simp: hpm_data_get_report_pack_noflash_def waiting_def place_ok_def)
  qed
qed

lemma put_free_law:
  assumes "store_ok D {n} L"
  shows "\<exists>h. hpm_data_put_to_list HPM_FREE_LIST (pack_of n) D = Some (D\<lparr>store_heap := h\<rparr>) \<and>
    store_ok (D\<lparr>store_heap := h\<rparr>) {} (L(hpm_free_list := L hpm_free_list @ [n]))"
proof -
  have n: "n \<in> links" using assms by (auto simp: store_ok_def lists_ok_def)
  show ?thesis using add_law(1) [OF assms, of hpm_free_list n] link_facts(3) [OF n]
    by (auto simp: hpm_data_put_to_list_def list_head_def place_ok_def)
qed

text \<open>A fit report is saved in flash if there is memory.\<close>

lemma save_flash_law:
  assumes F: "flash_ok drv page clean F fl" and p: "fit p" "length (pk_data p) = HPM_PACK_BUFF_LEN"
  shows "hpm_flash_save_pack drv False (pk_data p) (pk_len p) (pk_type p) F = Some (F, False)"
    and "\<exists>F' k. hpm_flash_save_pack drv True (pk_data p) (pk_len p) (pk_type p) F = Some (F', True) \<and>
      flash_ok drv page clean F' (drop k fl @ [(pk_type p, take (unat (pk_len p)) (pk_data p))]) \<and> (length fl < 16381 \<longrightarrow> k = 0)"
proof -
  note f = F [unfolded flash_ok_def]
  have v: "\<not> invalid_pos (write_pos (mgrinfo F))" using storedD(3) f by blast
  have len: "unat (pk_len p) \<le> 996" using p(1) by (simp add: fit_def)
  show "hpm_flash_save_pack drv False (pk_data p) (pk_len p) (pk_type p) F = Some (F, False)"
    using v by (simp add: hpm_flash_save_pack_def)
  let ?d = "take (unat (pk_len p)) (pk_data p)"
  have d: "length ?d \<le> 996" using len p(2) by (simp add: HPM_PACK_BUFF_LEN_def)
  obtain F' k where w: "hpm_flash_write drv (page_of (pk_type p) ?d) F = Some (F', True)" "stored page clean F' (drop k fl @ [(pk_type p, ?d)])"
      "flash_adapter F' = flash_adapter F" "length fl + 3 < 16384 \<longrightarrow> k = 0"
    using write_law [of drv F page clean fl ?d "pk_type p"] f d by auto
  have "list_all (\<lambda>(c, bs). c \<noteq> 0 \<and> length bs \<le> 996) (drop k fl)"
    using f by (auto simp: list_all_iff dest: in_set_dropD)
  then have "flash_ok drv page clean F' (drop k fl @ [(pk_type p, ?d)])"
    using w(2,3) f d p(1) by (simp add: flash_ok_def driver_of_def fit_def)
  moreover have "hpm_flash_save_pack drv True (pk_data p) (pk_len p) (pk_type p) F = Some (F', True)"
    using w(1) v len p(2) by (simp add: hpm_flash_save_pack_def HPM_PACK_BUFF_LEN_def)
  ultimately show "\<exists>F' k. hpm_flash_save_pack drv True (pk_data p) (pk_len p) (pk_type p) F = Some (F', True) \<and>
      flash_ok drv page clean F' (drop k fl @ [(pk_type p, ?d)]) \<and> (length fl < 16381 \<longrightarrow> k = 0)"
    using w(4) by auto
qed

text \<open>All reports, in the lists and in flash.\<close>

definition holds_reports :: "'d flash_drivers \<Rightarrow> ('d \<Rightarrow> nat \<Rightarrow> u8 list) \<Rightarrow> ('d \<Rightarrow> nat \<Rightarrow> bool) \<Rightarrow> 'd hpm_store \<Rightarrow> (addr \<Rightarrow> addr list) \<Rightarrow>
    flash_packet list \<Rightarrow> u8 list multiset \<Rightarrow> bool" where
  "holds_reports drv page clean D L fl M \<longleftrightarrow> store_ok D {} L \<and> flash_ok drv page clean (store_flash D) fl \<and>
     M = image_mset (pay D) (waiting L) + mset (map snd fl)"

lemma waiting_links: "store_ok D H L \<Longrightarrow> set_mset (waiting L) \<subseteq> links"
proof -
  assume "store_ok D H L"
  then have m: "d \<in> heads \<Longrightarrow> n \<in> set (L d) \<Longrightarrow> n \<in> links" for d n using lists_member unfolding store_ok_def by blast
  show ?thesis using m [OF head_simps(2)] m [OF head_simps(3)] m [OF head_simps(4)] by (auto simp: waiting_def)
qed

lemma free_not_waiting: "store_ok D H L \<Longrightarrow> n \<in> set (L hpm_free_list) \<Longrightarrow> n \<notin># waiting L"
proof -
  assume "store_ok D H L" "n \<in> set (L hpm_free_list)"
  then have m: "d \<in> heads \<Longrightarrow> n \<in> set (L d) \<Longrightarrow> d = hpm_free_list" for d
    using lists_apart [of "store_heap D" H L d hpm_free_list n] by (auto simp: store_ok_def)
  show ?thesis using m [OF head_simps(2)] m [OF head_simps(3)] m [OF head_simps(4)] by (auto simp: waiting_def)
qed

lemma pays_same: "store_ok D H L \<Longrightarrow> same_packs D D' \<Longrightarrow> image_mset (pay D') (waiting L) = image_mset (pay D) (waiting L)"
  using waiting_links [of D H L] by (auto simp: same_packs_def intro!: image_mset_cong)

lemma holds_moved:
  assumes "holds_reports drv page clean D L fl M" and "store_ok D' {} L'" and "same_packs D D'" and "waiting L' = waiting L"
  shows "holds_reports drv page clean D' L' fl M"
  using assms pays_same [of D "{}" L D'] by (simp add: holds_reports_def same_packs_def)

text \<open>Saving a report: nothing is lost while the flash has room, and what was sent stays as it was.\<close>

lemma save_one_law:
  assumes hold: "holds_reports drv page clean D L fl M" and room: "length fl < 16381"
  shows "\<exists>D' ok L' fl'. hpm_data_save_one_pack drv mem D = Some (D', ok) \<and> holds_reports drv page clean D' L' fl' M \<and>
    length fl' = length fl + (if ok then 1 else 0) \<and> (ok \<longrightarrow> L' hpm_free_list \<noteq> [] \<and> Suc (size (waiting L')) = size (waiting L)) \<and>
    (\<not> ok \<longrightarrow> size (waiting L') = size (waiting L) \<and> L' hpm_free_list = L hpm_free_list) \<and>
    (ok \<longleftrightarrow> mem \<and> \<not> (L hpm_realtm_list = [] \<and> L hpm_delay_list = [])) \<and> L' hpm_trans_list = L hpm_trans_list"
proof (cases "L hpm_realtm_list = [] \<and> L hpm_delay_list = []")
  case True
  have "store_ok D {} L" using hold by (simp add: holds_reports_def)
  then show ?thesis using get_noflash_law(1) [of D L] True hold
    by (intro exI [of _ D] exI [of _ False] exI [of _ L] exI [of _ fl]) (simp add: hpm_data_save_one_pack_def)
next
  case False
  have ok: "store_ok D {} L" and F: "flash_ok drv page clean (store_flash D) fl" and M: "M = image_mset (pay D) (waiting L) + mset (map snd fl)"
    using hold by (auto simp: holds_reports_def)
  obtain n h L1 where g: "hpm_data_get_report_pack_noflash D = Some (D\<lparr>store_heap := h\<rparr>, Some (pack_of n))" "store_ok (D\<lparr>store_heap := h\<rparr>) {n} L1"
      "n \<in> links" "waiting L = add_mset n (waiting L1)" "L1 hpm_trans_list = L hpm_trans_list" "L1 hpm_free_list = L hpm_free_list"
      "place_ok (pk_list (pack_at D n)) (pack_at D n)" "pk_list (pack_at D n) \<in> {hpm_realtm_list, hpm_delay_list}" "fit (pack_at D n)"
    using get_noflash_law(2) [OF ok False] by blast
  let ?p = "pack_at D n"
  have len: "length (pk_data ?p) = HPM_PACK_BUFF_LEN" using ok g(3) by (simp add: store_ok_def packs_ok_def)
  note sf = save_flash_law [OF F g(9) len]
  show ?thesis
  proof (cases mem)
    case no: False
    let ?d = "pk_list ?p"
    obtain h' where h': "add_tail n ?d (D\<lparr>store_heap := h\<rparr>) = Some (D\<lparr>store_heap := h'\<rparr>)" "store_ok (D\<lparr>store_heap := h'\<rparr>) {} (L1(?d := L1 ?d @ [n]))"
      using add_law(1) [OF g(2), of ?d n] g(7,8) by auto
    have "hpm_data_save_one_pack drv mem D = Some (D\<lparr>store_heap := h'\<rparr>, False)"
      using g(1) read_pack [OF g(2,3)] sf(1) no h'(1) link_facts(3) [OF g(3)]
      by (simp add: hpm_data_save_one_pack_def hpm_data_put_back_list_with_samepos_def)
    moreover have w: "waiting (L1(?d := L1 ?d @ [n])) = waiting L" using g(4,8) by (auto simp: waiting_def)
    moreover have "holds_reports drv page clean (D\<lparr>store_heap := h'\<rparr>) (L1(?d := L1 ?d @ [n])) fl M"
      by (rule holds_moved [OF hold h'(2) _ w]) simp
    moreover have "(L1(?d := L1 ?d @ [n])) hpm_free_list = L hpm_free_list" "(L1(?d := L1 ?d @ [n])) hpm_trans_list = L hpm_trans_list"
      using g(5,6,8) by auto
    ultimately show ?thesis using no
      by (intro exI [of _ "D\<lparr>store_heap := h'\<rparr>"] exI [of _ False] exI [of _ "L1(?d := L1 ?d @ [n])"] exI [of _ fl]) simp
  next
    case yes: True
    obtain F' where F': "hpm_flash_save_pack drv True (pk_data ?p) (pk_len ?p) (pk_type ?p) (store_flash D) = Some (F', True)"
        "flash_ok drv page clean F' (fl @ [(pk_type ?p, pay D n)])"
      using sf(2) room by (auto simp: pay_def)
    have st: "store_ok (D\<lparr>store_heap := h, store_flash := F'\<rparr>) {n} L1" using g(2) by (simp add: store_ok_def)
    obtain h' where h': "hpm_data_put_to_list HPM_FREE_LIST (pack_of n) (D\<lparr>store_heap := h, store_flash := F'\<rparr>) = Some (D\<lparr>store_flash := F', store_heap := h'\<rparr>)"
        "store_ok (D\<lparr>store_flash := F', store_heap := h'\<rparr>) {} (L1(hpm_free_list := L1 hpm_free_list @ [n]))"
      using put_free_law [OF st] by auto
    have "hpm_data_save_one_pack drv mem D = Some (D\<lparr>store_flash := F', store_heap := h'\<rparr>, True)"
      using g(1) read_pack [OF g(2,3)] F'(1) yes h'(1) by (simp add: hpm_data_save_one_pack_def)
    moreover have "waiting (L1(hpm_free_list := L1 hpm_free_list @ [n])) = waiting L1" by (simp add: waiting_def)
    moreover have "image_mset (pay (D\<lparr>store_flash := F', store_heap := h'\<rparr>)) (waiting L1) = image_mset (pay D) (waiting L1)"
      by simp
    ultimately show ?thesis using h'(2) F'(2) M g(4,5) yes False
      by (intro exI [of _ "D\<lparr>store_flash := F', store_heap := h'\<rparr>"] exI [of _ True] exI [of _ "L1(hpm_free_list := L1 hpm_free_list @ [n])"]
          exI [of _ "fl @ [(pk_type ?p, pay D n)]"]) (simp add: holds_reports_def)
  qed
qed

text \<open>Loading one: it goes to the late reports.\<close>

lemma load_one_law:
  assumes hold: "holds_reports drv page clean D L fl M" and delay: "L hpm_delay_list = []"
  shows "\<exists>D' ok L' fl'. hpm_data_load_one_pack drv mem D = Some (D', ok) \<and> holds_reports drv page clean D' L' fl' M \<and> length fl' \<le> length fl \<and>
    L' hpm_trans_list = L hpm_trans_list \<and> L' hpm_realtm_list = L hpm_realtm_list \<and> (ok \<longrightarrow> L' hpm_delay_list \<noteq> [])"
proof (cases "L hpm_free_list")
  case Nil
  have "store_ok D {} L" using hold by (simp add: holds_reports_def)
  then have "hpm_data_load_one_pack drv mem D = Some (D, False)"
    using pop_first_law(1) [of D "{}" L hpm_free_list] Nil by (simp add: hpm_data_load_one_pack_def hpm_data_get_from_list_def list_head_def pack_or_null_def)
  then show ?thesis using hold by blast
next
  case (Cons n ns)
  have ok: "store_ok D {} L" and F: "device_works (driver_of drv (store_flash D)) page clean" "stored page clean (store_flash D) fl"
      "list_all (\<lambda>(c, bs). c \<noteq> 0 \<and> length bs \<le> 996) fl" and M: "M = image_mset (pay D) (waiting L) + mset (map snd fl)"
    using hold by (auto simp: holds_reports_def flash_ok_def)
  obtain h where h: "pop_first hpm_free_list D = Some (D\<lparr>store_heap := h\<rparr>, n)" "store_ok (D\<lparr>store_heap := h\<rparr>) {n} (L(hpm_free_list := ns))" "n \<in> links"
    using pop_first_law(2) [OF ok _ Cons] by auto
  have get: "hpm_data_get_from_list HPM_FREE_LIST D = Some (D\<lparr>store_heap := h\<rparr>, Some (pack_of n))"
    using h(1) link_facts(5) [OF h(3)] by (simp add: hpm_data_get_from_list_def list_head_def)
  have refuse: "\<exists>D' ok L' fl'. hpm_data_load_one_pack drv mem D = Some (D', ok) \<and> holds_reports drv page clean D' L' fl' M \<and> length fl' \<le> length fl \<and>
      L' hpm_trans_list = L hpm_trans_list \<and> L' hpm_realtm_list = L hpm_realtm_list \<and> (ok \<longrightarrow> L' hpm_delay_list \<noteq> [])"
    if e: "hpm_flash_load_pack drv mem (store_flash D) = (F', None)" "stored page clean F' fl" "driver_of drv F' = driver_of drv (store_flash D)" for F'
  proof -
    have st: "store_ok (D\<lparr>store_heap := h, store_flash := F'\<rparr>) {n} (L(hpm_free_list := ns))" using h(2) by (simp add: store_ok_def)
    obtain h' where h': "hpm_data_put_to_list HPM_FREE_LIST (pack_of n) (D\<lparr>store_heap := h, store_flash := F'\<rparr>) = Some (D\<lparr>store_flash := F', store_heap := h'\<rparr>)"
        "store_ok (D\<lparr>store_flash := F', store_heap := h'\<rparr>) {} (L(hpm_free_list := ns @ [n]))"
      using put_free_law [OF st] by auto
    have "waiting (L(hpm_free_list := ns @ [n])) = waiting L" by (simp add: waiting_def)
    moreover have "image_mset (pay (D\<lparr>store_flash := F', store_heap := h'\<rparr>)) (waiting L) = image_mset (pay D) (waiting L)" by simp
    ultimately show ?thesis using get e h' F M
      by (intro exI [of _ "D\<lparr>store_flash := F', store_heap := h'\<rparr>"] exI [of _ False] exI [of _ "L(hpm_free_list := ns @ [n])"] exI [of _ fl])
        (simp add: hpm_data_load_one_pack_def holds_reports_def flash_ok_def)
  qed
  have v: "\<not> invalid_pos (write_pos (mgrinfo (store_flash D)))" using storedD(3) [OF F(2)] .
  show ?thesis
  proof (cases mem)
    case False
    then have "hpm_flash_load_pack drv mem (store_flash D) = (store_flash D, None)" using v by (simp add: hpm_flash_load_pack_def)
    then show ?thesis using refuse F(2) by blast
  next
    case True
    obtain F' where F': "hpm_flash_load_pack drv True (store_flash D) = (F', case fl of [] \<Rightarrow> None | p # _ \<Rightarrow> Some p)" "stored page clean F' (tl fl)"
        "driver_of drv F' = driver_of drv (store_flash D)"
      using load_law [OF F(1,2)] by blast
    show ?thesis
    proof (cases fl)
      case Nil
      then show ?thesis using refuse [of F'] F' True by simp
    next
      case fl: (Cons x fs)
      obtain c bs where x: "x = (c, bs)" by (cases x)
      have bs: "c \<noteq> 0" "length bs \<le> 996" using F(3) fl x by auto
      let ?D = "D\<lparr>store_heap := h, store_flash := F'\<rparr>"
      have st: "store_ok ?D {n} (L(hpm_free_list := ns))" using h(2) by (simp add: store_ok_def)
      have len: "length (pk_data (pack_at D n)) = 1024" using ok h(3) by (simp add: store_ok_def packs_ok_def HPM_PACK_BUFF_LEN_def)
      let ?b = "blit (pk_data (pack_at D n)) 0 bs"
      let ?f = "\<lambda>p. p\<lparr>pk_data := ?b, pk_len := of_nat (length bs), pk_type := c\<rparr>"
      have put: "put_at 0 bs (pk_data (pack_at D n)) = Some ?b" "length ?b = 1024" using bs len by (simp_all add: put_at_def)
      obtain D1 where D1: "upd_pack (pack_of n) ?f ?D = Some D1" "store_ok D1 {n} (L(hpm_free_list := ns))" "store_flash D1 = F'"
          "\<forall>m\<in>links. pack_at D1 m = (if m = n then ?f (pack_at D n) else pack_at D m)"
        using upd_pack_law [OF st, of n ?f] put(2) by (auto simp: HPM_PACK_BUFF_LEN_def)
      let ?g = "\<lambda>p. p\<lparr>pk_list := hpm_delay_list\<rparr>"
      obtain D2 where D2: "upd_pack (pack_of n) ?g D1 = Some D2" "store_ok D2 {n} (L(hpm_free_list := ns))" "store_flash D2 = F'"
          "\<forall>m\<in>links. pack_at D2 m = (if m = n then ?g (pack_at D1 n) else pack_at D1 m)"
        using upd_pack_law [OF D1(2), of n ?g] data_length [OF D1(2) h(3)] D1(3) by auto
      have u: "unat (of_nat (length bs) :: u16) = length bs" using bs by (simp add: unat_of_nat)
      have "place_ok hpm_delay_list (pack_at D2 n)" using D2(4) D1(4) h(3) bs u by (simp add: place_ok_def fit_def)
      then obtain h' where h': "add_tail n hpm_delay_list D2 = Some (D2\<lparr>store_heap := h'\<rparr>)"
          "store_ok (D2\<lparr>store_heap := h'\<rparr>) {} ((L(hpm_free_list := ns))(hpm_delay_list := [n]))" (is "store_ok ?E {} ?L")
        using add_law(1) [OF D2(2), of hpm_delay_list n] delay by auto
      have run: "hpm_data_load_one_pack drv mem D = Some (?E, True)"
        using get F'(1) fl x True read_pack [OF st h(3)] put(1) D1(1) D2(1) h'(1) link_facts(3) [OF h(3)]
        by (simp add: hpm_data_load_one_pack_def hpm_data_put_to_list_def list_head_def)
      have p: "pay ?E n = bs" "\<And>m. m \<in> links \<Longrightarrow> m \<noteq> n \<Longrightarrow> pay ?E m = pay D m"
        using D2(4) D1(4) h(3) u bs len by (auto simp: pay_def blit_def)
      have "n \<notin># waiting L"
        using free_not_waiting [OF ok, of n] Cons by simp
      then have "image_mset (pay ?E) (waiting L) = image_mset (pay D) (waiting L)"
        using waiting_links [OF ok] p(2) by (intro image_mset_cong) blast
      moreover have "waiting ?L = add_mset n (waiting L)" using delay by (simp add: waiting_def)
      ultimately have "holds_reports drv page clean ?E ?L fs M"
        using h'(2) F' F fl x M p(1) D2(3) by (simp add: holds_reports_def flash_ok_def)
      then show ?thesis using run fl by (intro exI [of _ ?E] exI [of _ True] exI [of _ ?L] exI [of _ fs]) simp
    qed
  qed
qed

section \<open>A report in hand\<close>

definition in_hand :: "'d flash_drivers \<Rightarrow> ('d \<Rightarrow> nat \<Rightarrow> u8 list) \<Rightarrow> ('d \<Rightarrow> nat \<Rightarrow> bool) \<Rightarrow> 'd hpm_store \<Rightarrow> addr \<Rightarrow> (addr \<Rightarrow> addr list) \<Rightarrow>
    flash_packet list \<Rightarrow> u8 list multiset \<Rightarrow> bool" where
  "in_hand drv page clean D n L fl M \<longleftrightarrow> store_ok D {n} L \<and> flash_ok drv page clean (store_flash D) fl \<and> n \<in> links \<and> fit (pack_at D n) \<and>
     pk_list (pack_at D n) \<in> {hpm_realtm_list, hpm_delay_list} \<and> M = add_mset (pay D n) (image_mset (pay D) (waiting L) + mset (map snd fl))"

lemma take_report:
  assumes hold: "holds_reports drv page clean D L fl M" and d: "d \<in> {hpm_realtm_list, hpm_delay_list}" and L: "L d = n # ns"
  shows "\<exists>h. pop_first d D = Some (D\<lparr>store_heap := h\<rparr>, n) \<and> in_hand drv page clean (D\<lparr>store_heap := h\<rparr>) n (L(d := ns)) fl M"
proof -
  have ok: "store_ok D {} L" and F: "flash_ok drv page clean (store_flash D) fl" and M: "M = image_mset (pay D) (waiting L) + mset (map snd fl)"
    using hold by (auto simp: holds_reports_def)
  have dh: "d \<in> heads" using d by auto
  obtain h where h: "pop_first d D = Some (D\<lparr>store_heap := h\<rparr>, n)" "store_ok (D\<lparr>store_heap := h\<rparr>) {n} (L(d := ns))" "n \<in> links"
    using pop_first_law(2) [OF ok dh L] by auto
  have "place_ok d (pack_at D n)" using placed [OF ok dh, of n] L by simp
  moreover have "waiting L = add_mset n (waiting (L(d := ns)))" using d L by (auto simp: waiting_def)
  ultimately show ?thesis using h F M d by (auto simp: in_hand_def place_ok_def)
qed

lemma get_report_law:
  assumes hold: "holds_reports drv page clean D L fl M"
  shows "\<exists>D' L' fl'. length fl' \<le> length fl \<and> L' hpm_trans_list = L hpm_trans_list \<and>
    (hpm_data_get_report_pack drv mem D = Some (D', None) \<and> holds_reports drv page clean D' L' fl' M \<or>
     (\<exists>n. hpm_data_get_report_pack drv mem D = Some (D', Some (pack_of n)) \<and> in_hand drv page clean D' n L' fl' M))"
proof (cases "L hpm_realtm_list")
  case (Cons n ns)
  obtain h where h: "pop_first hpm_realtm_list D = Some (D\<lparr>store_heap := h\<rparr>, n)" "in_hand drv page clean (D\<lparr>store_heap := h\<rparr>) n (L(hpm_realtm_list := ns)) fl M"
    using take_report [OF hold _ Cons] by auto
  have n: "n \<in> links" using h(2) by (simp add: in_hand_def)
  then show ?thesis using h link_facts(1,5) [OF n]
    by (intro exI [of _ "D\<lparr>store_heap := h\<rparr>"] exI [of _ "L(hpm_realtm_list := ns)"] exI [of _ fl]) (auto simp: hpm_data_get_report_pack_def)
next
  case Nil
  have ok: "store_ok D {} L" using hold by (simp add: holds_reports_def)
  note first = pop_first_law(1) [OF ok _ Nil, simplified]
  note mt = list_empty_iff [OF ok, of hpm_delay_list, simplified]
  have late: "\<exists>h n ns. pop_first hpm_delay_list E = Some (E\<lparr>store_heap := h\<rparr>, n) \<and> n \<noteq> NULL \<and> pack_or_null n = Some (pack_of n) \<and>
      in_hand drv page clean (E\<lparr>store_heap := h\<rparr>) n (K(hpm_delay_list := ns)) fl' M"
    if e: "holds_reports drv page clean E K fl' M" "K hpm_delay_list \<noteq> []" for E K fl'
  proof -
    obtain n ns where K: "K hpm_delay_list = n # ns" using e(2) by (cases "K hpm_delay_list") auto
    obtain h where h: "pop_first hpm_delay_list E = Some (E\<lparr>store_heap := h\<rparr>, n)"
        "in_hand drv page clean (E\<lparr>store_heap := h\<rparr>) n (K(hpm_delay_list := ns)) fl' M"
      using take_report [OF e(1) _ K] by auto
    then show ?thesis using link_facts(1,5) [of n] by (auto simp: in_hand_def)
  qed
  show ?thesis
  proof (cases "L hpm_delay_list = []")
    case False
    obtain h n ns where h: "pop_first hpm_delay_list D = Some (D\<lparr>store_heap := h\<rparr>, n)" "n \<noteq> NULL" "pack_or_null n = Some (pack_of n)"
        "in_hand drv page clean (D\<lparr>store_heap := h\<rparr>) n (L(hpm_delay_list := ns)) fl M"
      using late [OF hold False] by blast
    then show ?thesis using first mt False
      by (intro exI [of _ "D\<lparr>store_heap := h\<rparr>"] exI [of _ "L(hpm_delay_list := ns)"] exI [of _ fl]) (auto simp: hpm_data_get_report_pack_def)
  next
    case True
    obtain D1 ok1 L1 fl1 where l: "hpm_data_load_one_pack drv mem D = Some (D1, ok1)" "holds_reports drv page clean D1 L1 fl1 M" "length fl1 \<le> length fl"
        "L1 hpm_trans_list = L hpm_trans_list" "ok1 \<longrightarrow> L1 hpm_delay_list \<noteq> []"
      using load_one_law [OF hold True, of mem] by blast
    show ?thesis
    proof (cases ok1)
      case False
      then show ?thesis using first mt True l
        by (intro exI [of _ D1] exI [of _ L1] exI [of _ fl1]) (simp add: hpm_data_get_report_pack_def)
    next
      case t: True
      obtain h n ns where h: "pop_first hpm_delay_list D1 = Some (D1\<lparr>store_heap := h\<rparr>, n)" "n \<noteq> NULL" "pack_or_null n = Some (pack_of n)"
          "in_hand drv page clean (D1\<lparr>store_heap := h\<rparr>) n (L1(hpm_delay_list := ns)) fl1 M"
        using late [OF l(2)] l(5) t by blast
      then show ?thesis using first mt True l t
        by (intro exI [of _ "D1\<lparr>store_heap := h\<rparr>"] exI [of _ "L1(hpm_delay_list := ns)"] exI [of _ fl1]) (auto simp: hpm_data_get_report_pack_def)
    qed
  qed
qed

text \<open>The report in hand goes back to its list, or to those that were sent.\<close>

lemma put_report_back:
  assumes hand: "in_hand drv page clean D n L fl M"
  shows "\<exists>D' L'. hpm_data_put_back_report_pack (pack_of n) D = Some D' \<and> holds_reports drv page clean D' L' fl M \<and> L' hpm_trans_list = L hpm_trans_list"
    and "\<exists>D' L'. hpm_data_put_trans_list (pack_of n) D = Some D' \<and> holds_reports drv page clean D' L' fl M \<and> L' hpm_trans_list = L hpm_trans_list @ [n]"
proof -
  note i = hand [unfolded in_hand_def]
  let ?d = "pk_list (pack_at D n)"
  have n: "n \<in> links" "store_ok D {n} L" using i by auto
  have d: "?d \<in> {hpm_realtm_list, hpm_delay_list}" using i by blast
  then have dh: "?d \<in> heads" "place_ok ?d (pack_at D n)" using i by (auto simp: place_ok_def)
  obtain h where h: "add_head n ?d D = Some (D\<lparr>store_heap := h\<rparr>)" "store_ok (D\<lparr>store_heap := h\<rparr>) {} (L(?d := n # L ?d))"
    using add_law(2) [OF n(2) dh(1) _ dh(2)] by auto
  have "waiting (L(?d := n # L ?d)) = add_mset n (waiting L)" "(L(?d := n # L ?d)) hpm_trans_list = L hpm_trans_list"
    using d by (auto simp: waiting_def)
  then show "\<exists>D' L'. hpm_data_put_back_report_pack (pack_of n) D = Some D' \<and> holds_reports drv page clean D' L' fl M \<and> L' hpm_trans_list = L hpm_trans_list"
    using h i read_pack [OF n(2,1)] link_facts(3) [OF n(1)]
    by (intro exI [of _ "D\<lparr>store_heap := h\<rparr>"] exI [of _ "L(?d := n # L ?d)"]) (auto simp: hpm_data_put_back_report_pack_def holds_reports_def)
  have t: "place_ok hpm_trans_list (pack_at D n)" using i by (auto simp: place_ok_def)
  obtain h where h: "add_tail n hpm_trans_list D = Some (D\<lparr>store_heap := h\<rparr>)" "store_ok (D\<lparr>store_heap := h\<rparr>) {} (L(hpm_trans_list := L hpm_trans_list @ [n]))"
    using add_law(1) [OF n(2) _ _ t] by auto
  have "waiting (L(hpm_trans_list := L hpm_trans_list @ [n])) = add_mset n (waiting L)" by (simp add: waiting_def)
  then show "\<exists>D' L'. hpm_data_put_trans_list (pack_of n) D = Some D' \<and> holds_reports drv page clean D' L' fl M \<and> L' hpm_trans_list = L hpm_trans_list @ [n]"
    using h i link_facts(3) [OF n(1)]
    by (intro exI [of _ "D\<lparr>store_heap := h\<rparr>"] exI [of _ "L(hpm_trans_list := L hpm_trans_list @ [n])"]) (auto simp: hpm_data_put_trans_list_def holds_reports_def)
qed

text \<open>An acknowledgement releases the first report that was sent.\<close>

lemma ack_law:
  assumes hold: "holds_reports drv page clean D L fl M"
  shows "\<exists>D' L'. hpm_data_ack_pack D = Some D' \<and>
    (case L hpm_trans_list of [] \<Rightarrow> holds_reports drv page clean D' L' fl M \<and> L' hpm_trans_list = []
     | n # ns \<Rightarrow> L' hpm_trans_list = ns \<and> holds_reports drv page clean D' L' fl (M - {#pay D n#}) \<and> pay D n \<in># M)"
proof (cases "L hpm_trans_list")
  case Nil
  have "store_ok D {} L" using hold by (simp add: holds_reports_def)
  then show ?thesis using pop_first_law(1) [of D "{}" L hpm_trans_list] Nil hold
    by (intro exI [of _ D] exI [of _ L]) (simp add: hpm_data_ack_pack_def)
next
  case (Cons n ns)
  have ok: "store_ok D {} L" using hold by (simp add: holds_reports_def)
  obtain h where h: "pop_first hpm_trans_list D = Some (D\<lparr>store_heap := h\<rparr>, n)" "store_ok (D\<lparr>store_heap := h\<rparr>) {n} (L(hpm_trans_list := ns))" "n \<in> links"
    using pop_first_law(2) [OF ok _ Cons] by auto
  let ?L = "L(hpm_trans_list := ns, hpm_free_list := L hpm_free_list @ [n])"
  obtain h' where h': "add_tail n hpm_free_list (D\<lparr>store_heap := h\<rparr>) = Some (D\<lparr>store_heap := h'\<rparr>)" "store_ok (D\<lparr>store_heap := h'\<rparr>) {} ?L"
    using add_law(1) [OF h(2), of hpm_free_list n] by (auto simp: place_ok_def)
  have "waiting L = add_mset n (waiting ?L)" using Cons by (simp add: waiting_def)
  then show ?thesis using Cons h h' hold link_facts(1) [OF h(3)]
    by (intro exI [of _ "D\<lparr>store_heap := h'\<rparr>"] exI [of _ ?L]) (auto simp: hpm_data_ack_pack_def holds_reports_def)
qed

section \<open>New reports, and all of them into flash\<close>

lemma waiting_size: "store_ok D H L \<Longrightarrow> size (waiting L) \<le> 6"
proof -
  assume ok: "store_ok D H L"
  then have l: "lists_ok (store_heap D) H L" by (simp add: store_ok_def)
  have apart: "set (L d) \<inter> set (L d') = {}" if "d \<in> heads" "d' \<in> heads" "d \<noteq> d'" for d d'
    using lists_apart [OF l that(1,2)] that(3) by blast
  let ?xs = "L hpm_realtm_list @ L hpm_delay_list @ L hpm_trans_list"
  have "distinct ?xs"
    using lists_distinct [OF l, of hpm_realtm_list] lists_distinct [OF l, of hpm_delay_list] lists_distinct [OF l, of hpm_trans_list]
      apart [of hpm_realtm_list hpm_delay_list] apart [of hpm_realtm_list hpm_trans_list] apart [of hpm_delay_list hpm_trans_list] by auto
  moreover have "set ?xs \<subseteq> links" using waiting_links [OF ok] by (auto simp: waiting_def)
  moreover have "card links \<le> 6" unfolding links_def HPM_PACK_NUM_def by (rule order_trans [OF card_image_le]) simp_all
  moreover have "finite links" by (simp add: links_def)
  ultimately have "length ?xs \<le> 6" by (metis card_mono distinct_card order_trans)
  then show ?thesis by (simp add: waiting_def)
qed

text \<open>A new report that fits into a frame: either it was taken, or nothing changed.\<close>

text \<open>
  When a new report finds a place: a packet is free, or there is memory to write one that waits into the flash. Otherwise all packets are
  taken, and there is no memory or all of them have been sent and wait for their confirmation.
\<close>

definition can_keep :: "bool \<Rightarrow> 'd hpm_store \<Rightarrow> bool" where
  "can_keep mem D \<longleftrightarrow> \<not> dlist_empty (store_heap D) hpm_free_list \<or> mem \<and> \<not> hpm_data_no_report_data D"

lemma save_new_law:
  assumes hold: "holds_reports drv page clean D L fl M" and room: "length fl < 16381" and bs: "length bs \<le> 996" and cmd: "cmd \<noteq> 0"
  shows "\<exists>D' L' fl'. hpm_data_save_to_realtm_list drv mem cmd (Some bs) (of_nat (length bs)) D = Some (D', can_keep mem D) \<and>
    holds_reports drv page clean D' L' fl' (if can_keep mem D then add_mset bs M else M) \<and> length fl' \<le> length fl + 1"
proof -
  define a where "a \<longleftrightarrow> can_keep mem D"
  have ok: "store_ok D {} L" using hold by (simp add: holds_reports_def)
  have u: "unat (of_nat (length bs) :: u16) = length bs" using bs by (simp add: unat_of_nat)
  define front where "front = (if dlist_empty (store_heap D) hpm_free_list
      then do { D \<leftarrow> hpm_data_flush_one_realtm_data D; hpm_data_save_one_pack drv mem D } else Some (D, True))"
  have "\<exists>D1 L1 fl1. front = Some (D1, a) \<and> holds_reports drv page clean D1 L1 fl1 M \<and> length fl1 \<le> length fl + 1 \<and> (a \<longrightarrow> L1 hpm_free_list \<noteq> [])"
  proof (cases "L hpm_free_list = []")
    case False
    then have "front = Some (D, True)" using list_empty_iff [OF ok, of hpm_free_list] by (simp add: front_def)
    moreover have "length fl \<le> length fl + 1" by simp
    moreover have "a" using False list_empty_iff [OF ok, of hpm_free_list] by (simp add: a_def can_keep_def)
    ultimately show ?thesis using hold False by (intro exI [of _ D] exI [of _ L] exI [of _ fl]) simp
  next
    case True
    obtain D0 L0 where f: "hpm_data_flush_one_realtm_data D = Some D0" "store_ok D0 {} L0" "same_packs D D0" "waiting L0 = waiting L"
        "L0 hpm_trans_list = L hpm_trans_list"
      using flush_realtm_law(2) [OF ok] by blast
    have "mset (L0 hpm_realtm_list @ L0 hpm_delay_list) = mset (L hpm_realtm_list @ L hpm_delay_list)"
      using f(4,5) by (simp add: waiting_def)
    then have "length (L0 hpm_realtm_list @ L0 hpm_delay_list) = length (L hpm_realtm_list @ L hpm_delay_list)" by (rule mset_eq_length)
    then have "L0 hpm_realtm_list = [] \<and> L0 hpm_delay_list = [] \<longleftrightarrow> L hpm_realtm_list = [] \<and> L hpm_delay_list = []"
      by (metis append_is_Nil_conv length_0_conv)
    then have a: "mem \<and> \<not> (L0 hpm_realtm_list = [] \<and> L0 hpm_delay_list = []) \<longleftrightarrow> a"
      using True no_report_iff [OF ok] list_empty_iff [OF ok, of hpm_free_list] by (auto simp: a_def can_keep_def)
    obtain D1 L1 fl1 where "hpm_data_save_one_pack drv mem D0 = Some (D1, a)" "holds_reports drv page clean D1 L1 fl1 M"
        "length fl1 = length fl + (if a then 1 else 0)" "a \<longrightarrow> L1 hpm_free_list \<noteq> []"
      using save_one_law [OF holds_moved [OF hold f(2-4)] room, of mem] unfolding a by blast
    moreover from this have "front = Some (D1, a)" using f(1) True list_empty_iff [OF ok, of hpm_free_list] by (simp add: front_def)
    moreover have "length fl1 \<le> length fl + 1" using calculation(3) by simp
    ultimately show ?thesis by blast
  qed
  then obtain D1 L1 fl1 where front: "front = Some (D1, a)" "holds_reports drv page clean D1 L1 fl1 M" "length fl1 \<le> length fl + 1"
      "a \<longrightarrow> L1 hpm_free_list \<noteq> []" by blast
  show ?thesis
  proof (cases a)
    case False
    then show ?thesis using front u bs
      by (intro exI [of _ D1] exI [of _ L1] exI [of _ fl1]) (simp add: hpm_data_save_to_realtm_list_def HPM_PACK_BUFF_LEN_def front_def a_def [symmetric])
  next
    case True
    have ok1: "store_ok D1 {} L1" using front(2) by (simp add: holds_reports_def)
    obtain n ns where Cons: "L1 hpm_free_list = n # ns" using front(4) True by (cases "L1 hpm_free_list") auto
    obtain h where h: "pop_first hpm_free_list D1 = Some (D1\<lparr>store_heap := h\<rparr>, n)" "store_ok (D1\<lparr>store_heap := h\<rparr>) {n} (L1(hpm_free_list := ns))" "n \<in> links"
      using pop_first_law(2) [OF ok1 _ Cons] by auto
    let ?p = "pack_at D1 n" and ?D = "D1\<lparr>store_heap := h\<rparr>"
    let ?b = "blit (pk_data ?p) 0 bs"
    have put: "put_at 0 bs (pk_data ?p) = Some ?b" "length ?b = HPM_PACK_BUFF_LEN"
      using data_length [OF ok1 h(3)] bs by (simp_all add: put_at_def HPM_PACK_BUFF_LEN_def)
    let ?f = "\<lambda>p. p\<lparr>pk_data := ?b, pk_len := of_nat (length bs), pk_list := hpm_realtm_list, pk_type := cmd\<rparr>"
    obtain D2 where D2: "upd_pack (pack_of n) ?f ?D = Some D2" "store_ok D2 {n} (L1(hpm_free_list := ns))" "store_flash D2 = store_flash D1"
        "\<forall>m\<in>links. pack_at D2 m = (if m = n then ?f ?p else pack_at D1 m)"
      using upd_pack_law [OF h(2), of n ?f] put(2) by auto
    have "place_ok hpm_realtm_list (pack_at D2 n)" using D2(4) h(3) bs cmd u by (simp add: place_ok_def fit_def)
    then obtain h' where h': "add_tail n hpm_realtm_list D2 = Some (D2\<lparr>store_heap := h'\<rparr>)"
        "store_ok (D2\<lparr>store_heap := h'\<rparr>) {} ((L1(hpm_free_list := ns))(hpm_realtm_list := L1 hpm_realtm_list @ [n]))" (is "store_ok ?E {} ?L")
      using add_law(1) [OF D2(2), of hpm_realtm_list n] by auto
    have "hpm_get_node_from_free_list D1 = Some (?D, n)" using h(1) link_facts(1) [OF h(3)] by (simp add: hpm_get_node_from_free_list_def)
    then have run: "hpm_data_save_to_realtm_list drv mem cmd (Some bs) (of_nat (length bs)) D = Some (?E, True)"
      using front(1) True u bs read_pack [OF h(2,3)] put(1) D2(1) h'(1)
      by (simp add: hpm_data_save_to_realtm_list_def HPM_PACK_BUFF_LEN_def front_def [symmetric])
    have p: "pay ?E n = bs" "\<And>m. m \<in> links \<Longrightarrow> m \<noteq> n \<Longrightarrow> pay ?E m = pay D1 m"
      using D2(4) h(3) u data_length [OF ok1 h(3)] bs by (auto simp: pay_def blit_def)
    have "n \<notin># waiting L1" using free_not_waiting [OF ok1, of n] Cons by simp
    then have "image_mset (pay ?E) (waiting L1) = image_mset (pay D1) (waiting L1)"
      using waiting_links [OF ok1] p(2) by (intro image_mset_cong) blast
    moreover have "waiting ?L = add_mset n (waiting L1)" by (simp add: waiting_def)
    moreover have "can_keep mem D" using True by (simp add: a_def)
    ultimately have "holds_reports drv page clean ?E ?L fl1 (add_mset bs M)" "can_keep mem D"
      using h'(2) front(2) p(1) D2(3) by (simp_all add: holds_reports_def)
    then show ?thesis using run front(3) by (intro exI [of _ ?E] exI [of _ ?L] exI [of _ fl1]) (simp add: a_def)
  qed
qed

lemma flush_all_loop_law:
  "holds_reports drv page clean D L fl M \<Longrightarrow> length fl + size (waiting L) < 16381 \<Longrightarrow>
   \<exists>D' L' fl'. flush_all_loop drv mem k D = Some D' \<and> holds_reports drv page clean D' L' fl' M \<and>
     length fl' + size (waiting L') = length fl + size (waiting L) \<and> ((\<forall>i. mem i) \<longrightarrow> L' hpm_realtm_list = [] \<and> L' hpm_delay_list = []) \<and>
     L' hpm_trans_list = L hpm_trans_list"
proof (induction "size (waiting L)" arbitrary: D L fl k rule: less_induct)
  case less
  have ok: "store_ok D {} L" using less.prems(1) by (simp add: holds_reports_def)
  show ?case
  proof (cases "L hpm_realtm_list = [] \<and> L hpm_delay_list = []")
    case True
    then show ?thesis using no_report_iff [OF ok] less.prems(1)
      by (subst flush_all_loop.simps) (intro exI [of _ D] exI [of _ L] exI [of _ fl], simp)
  next
    case False
    obtain D1 a L1 fl1 where s: "hpm_data_save_one_pack drv (mem k) D = Some (D1, a)" "holds_reports drv page clean D1 L1 fl1 M"
        "length fl1 = length fl + (if a then 1 else 0)" "a \<longrightarrow> Suc (size (waiting L1)) = size (waiting L)"
        "\<not> a \<longrightarrow> size (waiting L1) = size (waiting L)" "a \<longleftrightarrow> mem k \<and> \<not> (L hpm_realtm_list = [] \<and> L hpm_delay_list = [])"
        "L1 hpm_trans_list = L hpm_trans_list"
      using save_one_law [OF less.prems(1), of "mem k"] less.prems(2) by (metis add_lessD1)
    show ?thesis
    proof (cases a)
      case t: True
      have "size (waiting L1) < size (waiting L)" "length fl1 + size (waiting L1) < 16381" using s(3,4) t less.prems(2) by auto
      then obtain D' L' fl' where D': "flush_all_loop drv mem (k + 1) D1 = Some D'" "holds_reports drv page clean D' L' fl' M"
          "length fl' + size (waiting L') = length fl1 + size (waiting L1)" "(\<forall>i. mem i) \<longrightarrow> L' hpm_realtm_list = [] \<and> L' hpm_delay_list = []"
          "L' hpm_trans_list = L1 hpm_trans_list"
        using less.hyps [OF _ s(2), of "k + 1"] by blast
      moreover have "flush_all_loop drv mem k D = flush_all_loop drv mem (k + 1) D1"
        using s(1) t False no_report_iff [OF ok] by (subst flush_all_loop.simps) auto
      moreover have "length fl1 + size (waiting L1) = length fl + size (waiting L)" using s(3,4) t by auto
      ultimately show ?thesis using s(7) by metis
    next
      case f: False
      then show ?thesis using s False no_report_iff [OF ok]
        by (subst flush_all_loop.simps) (intro exI [of _ D1] exI [of _ L1] exI [of _ fl1], auto)
    qed
  qed
qed

text \<open>With memory for every packet all reports are in flash.\<close>

lemma flush_all_law:
  assumes hold: "holds_reports drv page clean D L fl M" and room: "length fl + size (waiting L) < 16381"
  shows "\<exists>D' L' fl'. hpm_data_flush_alldata drv mem D = Some D' \<and> holds_reports drv page clean D' L' fl' M \<and>
     length fl' + size (waiting L') = length fl + size (waiting L) \<and> ((\<forall>i. mem i) \<longrightarrow> waiting L' = {#})"
proof -
  have ok: "store_ok D {} L" using hold by (simp add: holds_reports_def)
  have "\<exists>D1 L1. (if \<not> hpm_data_no_sending_data D then hpm_data_flush_trans_list D else Some D) = Some D1 \<and> store_ok D1 {} L1 \<and> same_packs D D1 \<and>
      waiting L1 = waiting L \<and> L1 hpm_trans_list = []"
    using flush_trans_law [OF ok] ok list_empty_iff [OF ok, of hpm_trans_list]
    by (cases "hpm_data_no_sending_data D") (auto simp: hpm_data_no_sending_data_def intro: same_packs_refl)
  then obtain D1 L1 where D1: "(if \<not> hpm_data_no_sending_data D then hpm_data_flush_trans_list D else Some D) = Some D1"
      "store_ok D1 {} L1" "same_packs D D1" "waiting L1 = waiting L" "L1 hpm_trans_list = []" by blast
  obtain D2 L2 where D2: "hpm_data_flush_realtm_data D1 = Some D2" "store_ok D2 {} L2" "same_packs D1 D2" "waiting L2 = waiting L1"
      "L2 hpm_trans_list = L1 hpm_trans_list"
    using flush_realtm_law(1) [OF D1(2)] by blast
  have h2: "holds_reports drv page clean D2 L2 fl M"
    by (rule holds_moved [OF hold D2(2) same_packs_trans [OF D1(3) D2(3)]]) (simp add: D1(4) D2(4))
  obtain D' L' fl' where D': "flush_all_loop drv mem 0 D2 = Some D'" "holds_reports drv page clean D' L' fl' M"
      "length fl' + size (waiting L') = length fl + size (waiting L2)" "(\<forall>i. mem i) \<longrightarrow> L' hpm_realtm_list = [] \<and> L' hpm_delay_list = []"
      "L' hpm_trans_list = L2 hpm_trans_list"
    using flush_all_loop_law [OF h2, of mem 0] room by (auto simp: D1(4) D2(4))
  have "(\<forall>i. mem i) \<longrightarrow> waiting L' = {#}" using D'(4,5) D1(5) D2(5) by (simp add: waiting_def)
  then show ?thesis using D'(1-3) D1(1,4) D2(1,4) by (auto simp: hpm_data_flush_alldata_def)
qed

end
