(* ===== verification/HpmSession.thy ===== *)
theory HpmSession imports HpmData HpmRecv begin

text \<open>
  \<^verbatim>\<open>src/app/hpm/hpm_session.c\<close>, with \<^verbatim>\<open>hpm_net_send\<close>, the state of \<^verbatim>\<open>hpm_socket.c\<close> and its forced stop, which the session calls: log-in,
  reports and their acknowledgement, heartbeats, log-out. The clock, the configuration, the memory that is left and whether the modem takes
  a frame are arguments of a round. \<open>None\<close> is an access outside of an array or a loop that does not end.
\<close>

section \<open>State\<close>

datatype HPM_SESSION_STEP_E = HPM_SESSION_STEP_INIT | HPM_SESSION_STEP_LOGIN | HPM_SESSION_STEP_SESSION | HPM_SESSION_STEP_LOGOUT

datatype hpm_session_run_e = HPM_SESSION_STOP | HPM_SESSION_START

definition HPM_SESSION_SEND_INIT :: u8 where "HPM_SESSION_SEND_INIT = 0"
definition HPM_SESSION_SEND_WAIT :: u8 where "HPM_SESSION_SEND_WAIT = 1"
definition HPM_SESSION_SEND_RETRY :: u8 where "HPM_SESSION_SEND_RETRY = 2"
definition HPM_SESSION_SEND_SUCCESS :: u8 where "HPM_SESSION_SEND_SUCCESS = 3"

definition HPM_SESSION_LOGIN_ACK :: u8 where "HPM_SESSION_LOGIN_ACK = 1"
definition HPM_SESSION_LOGIN_NACK :: u8 where "HPM_SESSION_LOGIN_NACK = 2"
definition HPM_SESSION_REPORT_ACK :: u8 where "HPM_SESSION_REPORT_ACK = 4"
definition HPM_SESSION_REPORT_NACK :: u8 where "HPM_SESSION_REPORT_NACK = 8"
definition HPM_SESSION_LOGOUT_ACK :: u8 where "HPM_SESSION_LOGOUT_ACK = 64"
definition HPM_SESSION_LOGOUT_NACK :: u8 where "HPM_SESSION_LOGOUT_NACK = 128"

definition HPM_SESSION_EVENT_LOGIN :: nat where "HPM_SESSION_EVENT_LOGIN = 0"
definition HPM_SESSION_EVENT_LOGOUT :: nat where "HPM_SESSION_EVENT_LOGOUT = 1"
definition HPM_SESSION_EVENT_HEARTBEAT :: nat where "HPM_SESSION_EVENT_HEARTBEAT = 2"
definition HPM_SESSION_EVENT_REPORT :: nat where "HPM_SESSION_EVENT_REPORT = 3"
definition HPM_SESSION_EVENT_MAX :: nat where "HPM_SESSION_EVENT_MAX = 4"

definition HPM_SESSION_MAX_SEND_LEN :: nat where "HPM_SESSION_MAX_SEND_LEN = 1024"
definition HPM_SESSION_RETRY_CNT :: u8 where "HPM_SESSION_RETRY_CNT = 3"
definition HPM_RECV_RESP_SUCCESS :: u8 where "HPM_RECV_RESP_SUCCESS = 1"

record hpm_session_send_info_t =
  retry_count :: u8
  send_state :: u8
  send_result :: u8
  wait_time :: u32

datatype hpm_socket_status_e = HPM_SOCKET_STATUS_IDLE | HPM_SOCKET_STATUS_WAIT_DIAL | HPM_SOCKET_STATUS_CONNECTING | HPM_SOCKET_STATUS_CONNECTED
  | HPM_SOCKET_STATUS_STOPPING | HPM_SOCKET_STATUS_CLOSING | HPM_SOCKET_STATUS_CLOSED

datatype hpm_socket_run_e = HPM_SOCKET_STOPPED | HPM_SOCKET_RUNNING

datatype hpm_dev_status_e = HPM_DEV_STATUS_INIT | HPM_DEV_STATUS_ACCON | HPM_DEV_STATUS_ACCOFF | HPM_DEV_STATUS_IDLE | HPM_DEV_STATUS_WAKEUP

datatype HPM_SOCKET_ADDR_TYPE_E = HPM_SOCKET_MAIN_URL | HPM_SOCKET_MAIN_IP | HPM_SOCKET_SLAVER_URL | HPM_SOCKET_SLAVER_IP

record hpm_socket_info_t =
  so_tick :: u32
  so_status :: hpm_socket_status_e
  so_run :: hpm_socket_run_e
  so_type :: HPM_SOCKET_ADDR_TYPE_E

text \<open>\<open>sent\<close>: the frames the modem took; \<open>closes\<close>: how often it was told to close the connection.\<close>

record 'd hpm =
  hpm_session_step :: HPM_SESSION_STEP_E
  hpm_session_run_status :: hpm_session_run_e
  hpm_session_send_info :: "hpm_session_send_info_t list"
  se_seq :: hpm_seq
  se_recv :: hpm_recv
  se_store :: "'d hpm_store"
  hpm_socket_info :: hpm_socket_info_t
  hpm_dev_status :: hpm_dev_status_e
  hpm_dev_tick :: u32
  closes :: nat
  sent :: "u8 list list"

text \<open>
  What a round finds: \<open>en_buf\<close> the memory that a frame of an event is made in, if any is left, and \<open>en_send\<close> whether the modem takes that
  frame; \<open>en_recv_buf\<close> the memory for the reception, \<open>en_flash_mem\<close> and \<open>en_report_mem\<close> whether any is left for the flash store and for a report;
  \<open>en_acc\<close>, \<open>en_ms\<close>, \<open>en_interval\<close> the ignition, the clock in milliseconds and the interval of reports, \<open>en_new_report\<close> the bytes of a new report,
  unless there is no memory for it or the device is in its factory mode, and \<open>en_save_mem\<close> whether any memory is left when it is stored.
\<close>

record hpm_env =
  en_downloading :: bool
  en_device :: hpm_device
  en_tick :: u32
  en_timeout :: u32
  en_htbt :: u32
  en_recv_buf :: "u8 list option"
  en_buf :: "nat \<Rightarrow> u8 list option"
  en_send :: "nat \<Rightarrow> bool"
  en_flash_mem :: bool
  en_report_mem :: bool
  en_acc :: bool
  en_ms :: u32
  en_interval :: u32
  en_new_report :: "u8 list option"
  en_save_mem :: bool

definition hpm_session_step_set :: "HPM_SESSION_STEP_E \<Rightarrow> 'd hpm \<Rightarrow> 'd hpm" where
  "hpm_session_step_set st S = S\<lparr>hpm_session_step := st\<rparr>"

definition sender :: "nat \<Rightarrow> 'd hpm \<Rightarrow> hpm_session_send_info_t" where
  "sender e S = hpm_session_send_info S ! e"

definition set_sender :: "nat \<Rightarrow> (hpm_session_send_info_t \<Rightarrow> hpm_session_send_info_t) \<Rightarrow> 'd hpm \<Rightarrow> 'd hpm" where
  "set_sender e f S = S\<lparr>hpm_session_send_info := (hpm_session_send_info S)[e := f (sender e S)]\<rparr>"

definition with_store :: "('d hpm_store \<Rightarrow> 'd hpm_store option) \<Rightarrow> 'd hpm \<Rightarrow> 'd hpm option" where
  "with_store f S = do { D \<leftarrow> f (se_store S); Some (S\<lparr>se_store := D\<rparr>) }"

section \<open>Stopping\<close>

definition hpm_session_force_stop :: "'d hpm \<Rightarrow> 'd hpm" where
  "hpm_session_force_stop S = (hpm_session_step_set HPM_SESSION_STEP_INIT S)\<lparr>
     hpm_session_send_info := map (\<lambda>s. s\<lparr>send_state := HPM_SESSION_SEND_INIT, retry_count := 0, wait_time := 0, send_result := 0\<rparr>) (hpm_session_send_info S),
     hpm_session_run_status := HPM_SESSION_STOP,
     se_recv := hpm_data_recv_clear (se_recv S)\<rparr>"

definition if_4g_socket_close :: "'d hpm \<Rightarrow> 'd hpm" where
  "if_4g_socket_close S = S\<lparr>closes := closes S + 1\<rparr>"

definition hpm_socket_force_stop :: "'d hpm \<Rightarrow> 'd hpm" where
  "hpm_socket_force_stop S = (let
     S = (if so_status (hpm_socket_info S) \<in> {HPM_SOCKET_STATUS_CONNECTED, HPM_SOCKET_STATUS_CONNECTING} then if_4g_socket_close S else S) in
     hpm_session_force_stop (S\<lparr>hpm_socket_info := (hpm_socket_info S)\<lparr>so_status := HPM_SOCKET_STATUS_CLOSED, so_run := HPM_SOCKET_STOPPED, so_tick := 0\<rparr>\<rparr>))"

definition hpm_session_start :: "'d hpm \<Rightarrow> 'd hpm" where
  "hpm_session_start S = (if hpm_session_run_status S = HPM_SESSION_START then S else S\<lparr>hpm_session_run_status := HPM_SESSION_START\<rparr>)"

definition hpm_session_stop :: "'d hpm \<Rightarrow> 'd hpm" where
  "hpm_session_stop S = (if hpm_session_run_status S = HPM_SESSION_STOP then S else S\<lparr>hpm_session_run_status := HPM_SESSION_STOP\<rparr>)"

section \<open>Frames\<close>

text \<open>The length of a frame becomes a \<^verbatim>\<open>UINT16\<close>.\<close>

definition hpm_net_send :: "bool \<Rightarrow> u8 list \<Rightarrow> nat \<Rightarrow> 'd hpm \<Rightarrow> ('d hpm \<times> bool) option" where
  "hpm_net_send ok buf len S = (let n = unat (of_nat len :: u16) in
     if n = 0 then Some (S, False)
     else if length buf < n then None
     else Some (if ok then (S\<lparr>sent := sent S @ [take n buf]\<rparr>, True) else (S, False)))"

definition hpm_session_com_login :: "hpm_env \<Rightarrow> 'd hpm \<Rightarrow> ('d hpm \<times> bool) option" where
  "hpm_session_com_login env S = (case en_buf env HPM_SESSION_EVENT_LOGIN of
     None \<Rightarrow> Some (S, False)
   | Some buf \<Rightarrow> do {
       ((sq, buf), len) \<leftarrow> hpm_pack_login (en_device env) (se_seq S, buf);
       let S = S\<lparr>se_seq := sq\<rparr>;
       if len = 0 then Some (S, False)
       else do {
         (S, ok) \<leftarrow> hpm_net_send (en_send env HPM_SESSION_EVENT_LOGIN) buf len S;
         Some (if ok then S else hpm_session_force_stop S, True)
       }
     })"

definition hpm_session_com_logout :: "hpm_env \<Rightarrow> 'd hpm \<Rightarrow> ('d hpm \<times> bool) option" where
  "hpm_session_com_logout env S = (case en_buf env HPM_SESSION_EVENT_LOGOUT of
     None \<Rightarrow> Some (S, False)
   | Some buf \<Rightarrow> do {
       ((sq, buf), len) \<leftarrow> hpm_pack_logout (en_device env) (se_seq S, buf);
       let S = S\<lparr>se_seq := sq\<rparr>;
       if len = 0 then Some (S, False)
       else do {
         (S, ok) \<leftarrow> hpm_net_send (en_send env HPM_SESSION_EVENT_LOGOUT) buf len S;
         Some (S, True)
       }
     })"

definition hpm_session_com_heartbeat :: "hpm_env \<Rightarrow> 'd hpm \<Rightarrow> ('d hpm \<times> bool) option" where
  "hpm_session_com_heartbeat env S = (case en_buf env HPM_SESSION_EVENT_HEARTBEAT of
     None \<Rightarrow> Some (S, False)
   | Some buf \<Rightarrow> do {
       (buf, len) \<leftarrow> hpm_pack_heartbeat (en_device env) buf;
       if len = 0 then Some (S, False)
       else do {
         (S, ok) \<leftarrow> hpm_net_send (en_send env HPM_SESSION_EVENT_HEARTBEAT) buf len S;
         Some (if ok then S else hpm_session_force_stop S, True)
       }
     })"

definition hpm_session_com_report :: "'d flash_drivers \<Rightarrow> hpm_env \<Rightarrow> 'd hpm \<Rightarrow> ('d hpm \<times> bool) option" where
  "hpm_session_com_report drv env S = do {
     (D, pack) \<leftarrow> hpm_data_get_report_pack drv (en_flash_mem env) (se_store S);
     let S = S\<lparr>se_store := D\<rparr>;
     case pack of
       None \<Rightarrow> Some (S, False)
     | Some i \<Rightarrow> do {
         p \<leftarrow> rd (hpm_data_mem D) i;
         if pk_type p = 0 then do { S \<leftarrow> with_store (hpm_data_put_to_list HPM_FREE_LIST i) S; Some (S, False) }
         else if unat (pk_len p) + HPM_PARSE_POS_DATA \<ge> HPM_SESSION_MAX_SEND_LEN
         then do { S \<leftarrow> with_store (hpm_data_put_to_list HPM_FREE_LIST i) S; Some (S, False) }
         else if \<not> en_report_mem env then do { S \<leftarrow> with_store (hpm_data_put_back_report_pack i) S; Some (S, False) }
         else do {
           (buf, len) \<leftarrow> hpm_pack_report_data (en_device env) (pk_type p) (pk_len p) (pk_data p) (replicate HPM_SESSION_MAX_SEND_LEN 0);
           if len = 0 then do { S \<leftarrow> with_store (hpm_data_put_back_report_pack i) S; Some (S, False) }
           else do {
             (S, ok) \<leftarrow> hpm_net_send (en_send env HPM_SESSION_EVENT_REPORT) buf len S;
             S \<leftarrow> with_store (if ok then hpm_data_put_trans_list i else hpm_data_put_back_report_pack i) S;
             Some (S, True)
           }
         }
       }
   }"

section \<open>Senders\<close>

text \<open>The answer: whether the handler gave 0. \<open>elapsed\<close> is the difference of two tick counts.\<close>

definition elapsed :: "hpm_env \<Rightarrow> nat \<Rightarrow> 'd hpm \<Rightarrow> u32" where
  "elapsed env e S = en_tick env - wait_time (sender e S)"

definition stamp_heartbeat :: "hpm_env \<Rightarrow> 'd hpm \<Rightarrow> 'd hpm" where
  "stamp_heartbeat env = set_sender HPM_SESSION_EVENT_HEARTBEAT (\<lambda>s. s\<lparr>wait_time := en_tick env\<rparr>)"

definition hpm_session_send_login :: "hpm_env \<Rightarrow> u8 \<Rightarrow> 'd hpm \<Rightarrow> ('d hpm \<times> bool) option" where
  "hpm_session_send_login env resp S = (let e = HPM_SESSION_EVENT_LOGIN; st = send_state (sender e S); send_intv = 10 in
     if st = HPM_SESSION_SEND_INIT \<or> st = HPM_SESSION_SEND_SUCCESS then
       (if wait_time (sender e S) = 0 \<or> elapsed env e S \<ge> send_intv then do {
          (S, ok) \<leftarrow> hpm_session_com_login env S;
          Some (if ok then (stamp_heartbeat env (set_sender e (\<lambda>s. s\<lparr>send_state := HPM_SESSION_SEND_WAIT, wait_time := en_tick env\<rparr>) S), True) else (S, False))
        } else Some (S, True))
     else if st = HPM_SESSION_SEND_WAIT \<or> st = HPM_SESSION_SEND_RETRY then
       (if HPM_SESSION_LOGIN_NACK AND resp = HPM_SESSION_LOGIN_NACK
        then Some (set_sender e (\<lambda>s. s\<lparr>retry_count := 0, send_state := HPM_SESSION_SEND_SUCCESS\<rparr>) S, True)
        else if HPM_SESSION_LOGIN_ACK AND resp = HPM_SESSION_LOGIN_ACK
        then Some (set_sender e (\<lambda>s. s\<lparr>send_state := HPM_SESSION_SEND_SUCCESS, retry_count := 0, wait_time := 0\<rparr>) S, True)
        else if elapsed env e S \<ge> en_timeout env
        then Some (hpm_session_step_set HPM_SESSION_STEP_INIT (set_sender e (\<lambda>s. s\<lparr>send_state := HPM_SESSION_SEND_SUCCESS\<rparr>) S), True)
        else if elapsed env e S \<ge> send_intv then do {
          (S, ok) \<leftarrow> hpm_session_com_login env S;
          Some (if ok then (set_sender e (\<lambda>s. s\<lparr>retry_count := 0\<rparr>) (stamp_heartbeat env
            (set_sender e (\<lambda>s. s\<lparr>send_state := HPM_SESSION_SEND_WAIT, wait_time := en_tick env\<rparr>) S)), True) else (S, False))
        } else Some (S, True))
     else Some (S, True))"

definition logged_out :: "'d hpm \<Rightarrow> 'd hpm" where
  "logged_out S = hpm_session_step_set HPM_SESSION_STEP_INIT (set_sender HPM_SESSION_EVENT_LOGOUT
     (\<lambda>s. s\<lparr>send_state := HPM_SESSION_SEND_SUCCESS, retry_count := 0, wait_time := 0\<rparr>) S)"

definition hpm_session_send_logout :: "hpm_env \<Rightarrow> u8 \<Rightarrow> 'd hpm \<Rightarrow> ('d hpm \<times> bool) option" where
  "hpm_session_send_logout env resp S = (let e = HPM_SESSION_EVENT_LOGOUT; st = send_state (sender e S);
       acked = (HPM_SESSION_LOGOUT_ACK AND resp = HPM_SESSION_LOGOUT_ACK) in
     if st = HPM_SESSION_SEND_INIT \<or> st = HPM_SESSION_SEND_SUCCESS then do {
       (S, ok) \<leftarrow> hpm_session_com_logout env S;
       Some (if ok then (set_sender e (\<lambda>s. s\<lparr>send_state := HPM_SESSION_SEND_WAIT, retry_count := 0, wait_time := en_tick env\<rparr>) S, True) else (S, False))
     }
     else if st = HPM_SESSION_SEND_WAIT then
       (if acked then Some (logged_out S, True)
        else if elapsed env e S \<ge> en_timeout env then do {
          (S, ok) \<leftarrow> hpm_session_com_logout env S;
          Some (if ok then (set_sender e (\<lambda>s. s\<lparr>send_state := HPM_SESSION_SEND_WAIT, retry_count := 1, wait_time := en_tick env\<rparr>) S, True) else (S, False))
        } else Some (S, True))
     else if st = HPM_SESSION_SEND_RETRY then
       (if acked then Some (logged_out S, True)
        else if elapsed env e S \<ge> en_timeout env then
          (if retry_count (sender e S) > HPM_SESSION_RETRY_CNT
           then Some (hpm_session_step_set HPM_SESSION_STEP_INIT (set_sender e (\<lambda>s. s\<lparr>retry_count := 0, send_state := HPM_SESSION_SEND_SUCCESS\<rparr>) S), True)
           else do {
             (S, ok) \<leftarrow> hpm_session_com_logout env S;
             Some (if ok then (set_sender e (\<lambda>s. s\<lparr>retry_count := retry_count s + 1, wait_time := en_tick env\<rparr>) S, True) else (S, False))
           })
        else Some (S, True))
     else Some (S, True))"

definition hpm_session_send_heartbeat :: "hpm_env \<Rightarrow> u8 \<Rightarrow> 'd hpm \<Rightarrow> ('d hpm \<times> bool) option" where
  "hpm_session_send_heartbeat env resp S = (let e = HPM_SESSION_EVENT_HEARTBEAT; st = send_state (sender e S) in
     if (st = HPM_SESSION_SEND_INIT \<or> st = HPM_SESSION_SEND_SUCCESS) \<and> (wait_time (sender e S) = 0 \<or> elapsed env e S \<ge> en_htbt env) then do {
       (S, ok) \<leftarrow> hpm_session_com_heartbeat env S;
       Some (if ok then (set_sender e (\<lambda>s. s\<lparr>send_state := HPM_SESSION_SEND_SUCCESS, retry_count := 0, wait_time := en_tick env\<rparr>) S, True) else (S, False))
     } else Some (S, True))"

definition report_answered :: "'d hpm \<Rightarrow> 'd hpm" where
  "report_answered = set_sender HPM_SESSION_EVENT_REPORT (\<lambda>s. s\<lparr>send_state := HPM_SESSION_SEND_SUCCESS, retry_count := 0, wait_time := 0\<rparr>)"

definition hpm_session_send_report :: "'d flash_drivers \<Rightarrow> hpm_env \<Rightarrow> u8 \<Rightarrow> 'd hpm \<Rightarrow> ('d hpm \<times> bool) option" where
  "hpm_session_send_report drv env resp S = (let e = HPM_SESSION_EVENT_REPORT; st = send_state (sender e S) in
     if st = HPM_SESSION_SEND_INIT \<or> st = HPM_SESSION_SEND_SUCCESS then do {
       (S, ok) \<leftarrow> hpm_session_com_report drv env S;
       Some (if ok then stamp_heartbeat env (set_sender e (\<lambda>s. s\<lparr>wait_time := en_tick env, send_state := HPM_SESSION_SEND_WAIT\<rparr>) S) else S, True)
     }
     else if st = HPM_SESSION_SEND_WAIT then
       (if HPM_SESSION_REPORT_ACK AND resp = HPM_SESSION_REPORT_ACK
        then do { S \<leftarrow> with_store hpm_data_ack_pack (report_answered S); Some (S, True) }
        else if HPM_SESSION_REPORT_NACK AND resp = HPM_SESSION_REPORT_NACK \<or> elapsed env e S \<ge> en_timeout env
        then do { S \<leftarrow> with_store hpm_data_flush_trans_list (report_answered S); Some (hpm_socket_force_stop S, True) }
        else Some (S, True))
     else Some (S, True))"

section \<open>Steps\<close>

definition hpm_session_proc_init :: "hpm_env \<Rightarrow> 'd hpm \<Rightarrow> 'd hpm option" where
  "hpm_session_proc_init env S = (if hpm_session_run_status S = HPM_SESSION_STOP then Some S
     else do {
       (S, ok) \<leftarrow> hpm_session_send_login env 0 S;
       Some (if ok then hpm_session_step_set HPM_SESSION_STEP_LOGIN S else S)
     })"

definition recv_ack :: "'d hpm \<Rightarrow> bool" where
  "recv_ack S \<longleftrightarrow> rc_cmd (recv_info (se_recv S)) = HPM_CMD_TSP_COMMON_ACK"

definition recv_ack_of :: "u8 \<Rightarrow> 'd hpm \<Rightarrow> bool" where
  "recv_ack_of cmd S \<longleftrightarrow> recv_ack S \<and> resp_cmd (recv_info (se_recv S)) = cmd"

definition recv_ok :: "'d hpm \<Rightarrow> bool" where
  "recv_ok S \<longleftrightarrow> resp_result (recv_info (se_recv S)) = HPM_RECV_RESP_SUCCESS"

definition hpm_session_proc_login :: "hpm_env \<Rightarrow> 'd hpm \<Rightarrow> 'd hpm option" where
  "hpm_session_proc_login env S = (if hpm_session_run_status S = HPM_SESSION_STOP then Some (hpm_session_step_set HPM_SESSION_STEP_INIT S)
     else do {
       (S, resp) \<leftarrow> (if recv_ack_of HPM_CMD_LOGIN S then
           (if recv_ok S then do {
              S \<leftarrow> with_store hpm_data_flush_trans_list (hpm_session_step_set HPM_SESSION_STEP_SESSION S);
              S \<leftarrow> with_store hpm_data_flush_realtm_data S;
              Some (S, HPM_SESSION_LOGIN_ACK)
            } else Some (S, HPM_SESSION_LOGIN_NACK))
         else Some (S, 0));
       (S, ok) \<leftarrow> hpm_session_send_login env resp S;
       Some S
     })"

definition hpm_session_proc_session :: "'d flash_drivers \<Rightarrow> hpm_env \<Rightarrow> 'd hpm \<Rightarrow> 'd hpm option" where
  "hpm_session_proc_session drv env S = (if hpm_session_run_status S = HPM_SESSION_STOP then Some (hpm_session_step_set HPM_SESSION_STEP_LOGOUT S)
     else do {
       let resp = (if recv_ack S then if recv_ok S then HPM_SESSION_REPORT_ACK else HPM_SESSION_REPORT_NACK else 0);
       (S, ok) \<leftarrow> hpm_session_send_report drv env resp S;
       (S, ok) \<leftarrow> hpm_session_send_heartbeat env resp S;
       Some S
     })"

definition hpm_session_proc_logout :: "hpm_env \<Rightarrow> 'd hpm \<Rightarrow> 'd hpm option" where
  "hpm_session_proc_logout env S = do {
     let (S, resp) = (if recv_ack_of HPM_CMD_LOGOUT S
       then if recv_ok S then (hpm_session_step_set HPM_SESSION_STEP_INIT S, HPM_SESSION_LOGOUT_ACK) else (S, HPM_SESSION_LOGOUT_NACK)
       else (S, 0));
     (S, ok) \<leftarrow> hpm_session_send_logout env resp S;
     Some S
   }"

definition session_steps :: "'d flash_drivers \<Rightarrow> hpm_env \<Rightarrow> 'd hpm \<Rightarrow> 'd hpm option" where
  "session_steps drv env S = (case hpm_session_step S of
     HPM_SESSION_STEP_INIT \<Rightarrow> hpm_session_proc_init env S
   | HPM_SESSION_STEP_LOGIN \<Rightarrow> hpm_session_proc_login env S
   | HPM_SESSION_STEP_SESSION \<Rightarrow> hpm_session_proc_session drv env S
   | HPM_SESSION_STEP_LOGOUT \<Rightarrow> hpm_session_proc_logout env S)"

section \<open>Set-up, sleep\<close>

definition hpm_session_init :: "hpm_device \<Rightarrow> u8 \<Rightarrow> 'd hpm \<Rightarrow> 'd hpm option" where
  "hpm_session_init dv seq S =
     (if seq = 0 then Some (S\<lparr>se_seq := (se_seq S)\<lparr>run_info := zero_run_info\<rparr>, hpm_session_step := HPM_SESSION_STEP_INIT,
        hpm_session_run_status := HPM_SESSION_STOP\<rparr>)
      else if seq = 2 then with_store hpm_data_init (S\<lparr>se_seq := hpm_session_run_info_read dv (se_seq S)\<rparr>)
      else Some S)"

definition hpm_session_wake :: "'d hpm \<Rightarrow> 'd hpm option" where
  "hpm_session_wake S = do {
     S \<leftarrow> with_store hpm_data_flush_trans_list (hpm_session_step_set HPM_SESSION_STEP_INIT S);
     with_store hpm_data_flush_realtm_data S
   }"

definition hpm_session_sleep :: "'d flash_drivers \<Rightarrow> (nat \<Rightarrow> bool) \<Rightarrow> 'd hpm \<Rightarrow> 'd hpm option" where
  "hpm_session_sleep drv mem S = with_store (hpm_data_flush_alldata drv mem) (S\<lparr>se_seq := hpm_session_run_info_write (se_seq S)\<rparr>)"

end
