(* ===== verification/HpmControl.thy ===== *)
theory HpmControl imports HpmSession begin

text \<open>
  \<^verbatim>\<open>src/app/hpm/hpm_dev.c\<close>, the states in which reports are made, \<^verbatim>\<open>hpm_control.c\<close>, the commands of the server, and \<^verbatim>\<open>hpm_session_process\<close>.
  The bytes of a report are an argument of a round, what the configuration, the file transfer and the update answer of a command.
\<close>

section \<open>Reports of the device\<close>

definition HPM_DEV_WAIT_FIX :: u32 where "HPM_DEV_WAIT_FIX = 50"

definition hpm_dev_report :: "'d flash_drivers \<Rightarrow> hpm_env \<Rightarrow> 'd hpm \<Rightarrow> 'd hpm option" where
  "hpm_dev_report drv env S = (case en_new_report env of
     None \<Rightarrow> Some S
   | Some bs \<Rightarrow> if bs = [] then Some S
       else with_store (\<lambda>D. map_option fst (hpm_data_save_to_realtm_list drv (en_save_mem env) HPM_CMD_LIVE_DATA (Some bs) (of_nat (length bs)) D)) S)"

definition hpm_dev_handle_event :: "'d flash_drivers \<Rightarrow> hpm_env \<Rightarrow> 'd hpm \<Rightarrow> 'd hpm option" where
  "hpm_dev_handle_event drv env S = hpm_dev_report drv env (S\<lparr>hpm_dev_tick := en_ms env\<rparr>)"

definition hpm_dev_status_set :: "hpm_dev_status_e \<Rightarrow> 'd hpm \<Rightarrow> 'd hpm" where
  "hpm_dev_status_set st S = S\<lparr>hpm_dev_status := st\<rparr>"

definition dev_waited :: "hpm_env \<Rightarrow> 'd hpm \<Rightarrow> bool" where
  "dev_waited env S \<longleftrightarrow> en_ms env - hpm_dev_tick S \<ge> HPM_DEV_WAIT_FIX * 1000"

text \<open>An event is reported, and the next state is set.\<close>

definition dev_event_then :: "'d flash_drivers \<Rightarrow> hpm_env \<Rightarrow> hpm_dev_status_e \<Rightarrow> 'd hpm \<Rightarrow> 'd hpm option" where
  "dev_event_then drv env st S = do { S \<leftarrow> hpm_dev_handle_event drv env S; Some (hpm_dev_status_set st S) }"

definition hpm_dev_handle_init :: "hpm_env \<Rightarrow> 'd hpm \<Rightarrow> 'd hpm" where
  "hpm_dev_handle_init env S = (let S = (if hpm_dev_tick S = 0 then S\<lparr>hpm_dev_tick := en_ms env\<rparr> else S) in
     if en_acc env then hpm_dev_status_set HPM_DEV_STATUS_ACCON S else S)"

definition hpm_dev_handle_accon :: "'d flash_drivers \<Rightarrow> hpm_env \<Rightarrow> 'd hpm \<Rightarrow> 'd hpm option" where
  "hpm_dev_handle_accon drv env S = (if \<not> en_acc env then Some (hpm_dev_status_set HPM_DEV_STATUS_ACCOFF S)
     else if dev_waited env S then dev_event_then drv env HPM_DEV_STATUS_IDLE S else Some S)"

definition hpm_dev_handle_accoff :: "'d flash_drivers \<Rightarrow> hpm_env \<Rightarrow> 'd hpm \<Rightarrow> 'd hpm option" where
  "hpm_dev_handle_accoff drv env S = (if en_acc env then Some (hpm_dev_status_set HPM_DEV_STATUS_ACCON S)
     else if dev_waited env S then dev_event_then drv env HPM_DEV_STATUS_INIT S else Some S)"

definition hpm_dev_handle_idle :: "'d flash_drivers \<Rightarrow> hpm_env \<Rightarrow> 'd hpm \<Rightarrow> 'd hpm option" where
  "hpm_dev_handle_idle drv env S = (if \<not> en_acc env then dev_event_then drv env HPM_DEV_STATUS_INIT S
     else if en_ms env - hpm_dev_tick S + 50 \<ge> en_interval env * 1000 then hpm_dev_handle_event drv env S else Some S)"

definition hpm_dev_handle_wakeup :: "'d flash_drivers \<Rightarrow> hpm_env \<Rightarrow> 'd hpm \<Rightarrow> 'd hpm option" where
  "hpm_dev_handle_wakeup drv env S = (if en_acc env then Some (hpm_dev_status_set HPM_DEV_STATUS_ACCON S)
     else if dev_waited env S then dev_event_then drv env HPM_DEV_STATUS_INIT S else Some S)"

definition hpm_dev_process :: "'d flash_drivers \<Rightarrow> hpm_env \<Rightarrow> 'd hpm \<Rightarrow> 'd hpm option" where
  "hpm_dev_process drv env S = (case hpm_dev_status S of
     HPM_DEV_STATUS_INIT \<Rightarrow> Some (hpm_dev_handle_init env S)
   | HPM_DEV_STATUS_ACCON \<Rightarrow> hpm_dev_handle_accon drv env S
   | HPM_DEV_STATUS_ACCOFF \<Rightarrow> hpm_dev_handle_accoff drv env S
   | HPM_DEV_STATUS_IDLE \<Rightarrow> hpm_dev_handle_idle drv env S
   | HPM_DEV_STATUS_WAKEUP \<Rightarrow> hpm_dev_handle_wakeup drv env S)"

definition hpm_dev_init :: "u8 \<Rightarrow> 'd hpm \<Rightarrow> 'd hpm" where
  "hpm_dev_init seq S = (if seq = 2 then S\<lparr>hpm_dev_status := HPM_DEV_STATUS_INIT, hpm_dev_tick := 0\<rparr> else S)"

definition hpm_dev_wakeup :: "hpm_env \<Rightarrow> 'd hpm \<Rightarrow> 'd hpm" where
  "hpm_dev_wakeup env S = (hpm_dev_status_set HPM_DEV_STATUS_WAKEUP S)\<lparr>hpm_dev_tick := en_ms env\<rparr>"

definition hpm_dev_sleep :: "'d hpm \<Rightarrow> 'd hpm" where
  "hpm_dev_sleep = hpm_dev_status_set HPM_DEV_STATUS_INIT"

section \<open>Commands of the server\<close>

definition HPM_CTROL_TIME_LEN :: nat where "HPM_CTROL_TIME_LEN = 6"
definition HPM_CTROL_RES_LEN :: nat where "HPM_CTROL_RES_LEN = 512"
definition HPM_CTROL_RES_POS :: nat where "HPM_CTROL_RES_POS = 5"
definition HPM_FOTA_URL_MAX_LEN :: nat where "HPM_FOTA_URL_MAX_LEN = 128"
definition HPM_FOTA_VER_MAX_LEN :: nat where "HPM_FOTA_VER_MAX_LEN = 64"
definition HPM_FOTA_MD5_MAX_LEN :: nat where "HPM_FOTA_MD5_MAX_LEN = 16"
definition HPM_CTRL_DATA_REQ :: u8 where "HPM_CTRL_DATA_REQ = 0x01"
definition HPM_CTRL_CFG_READ :: u8 where "HPM_CTRL_CFG_READ = 0x02"
definition HPM_CTRL_CFG_SET :: u8 where "HPM_CTRL_CFG_SET = 0x03"
definition HPM_CTRL_CAN_FILE :: u8 where "HPM_CTRL_CAN_FILE = 0x0A"
definition HPM_CTRL_REBOOT :: u8 where "HPM_CTRL_REBOOT = 0x0C"
definition HPM_CTRL_UPGRADE :: u8 where "HPM_CTRL_UPGRADE = 0x0D"
definition HPM_CTRL_FOTA_TBOX :: u8 where "HPM_CTRL_FOTA_TBOX = 0"
definition HPM_CTRL_RES_NG :: u8 where "HPM_CTRL_RES_NG = 0"
definition HPM_CTRL_RES_OK :: u8 where "HPM_CTRL_RES_OK = 1"

record HPM_CTRL_FOTA_INFO_T =
  fo_seq :: u16
  fo_cmd :: u8
  fo_cmd_sub :: u8
  fo_type :: u8
  fota_url :: "u8 list"
  fota_ver :: "u8 list"
  fota_md5 :: "u8 list"

record HPM_CONTROL_INFO_T =
  ct_seq :: u16
  ct_cmd :: u8
  ct_cmd_sub :: u8
  ct_len :: u16

text \<open>
  What a command finds: whether an update is going on, the bytes of a report that is asked for, what the handlers of parameters and of the
  file transfer answer - whether they gave 0, and the bytes they wrote - the answers of the reboot and of the update, the memory of the
  response, and whether the modem takes it.
\<close>

record control_env =
  ce_upgrading :: bool
  ce_report :: "u8 list option"
  ce_get :: "u8 list \<Rightarrow> u16 \<Rightarrow> bool \<times> u8 list"
  ce_set :: "u8 list \<Rightarrow> u16 \<Rightarrow> bool \<times> u8 list"
  ce_file :: "u8 list \<Rightarrow> u16 \<Rightarrow> bool \<times> u8 list"
  ce_reboot :: bool
  ce_update :: "HPM_CTRL_FOTA_INFO_T \<Rightarrow> bool"
  ce_buf :: "u8 list option"
  ce_send :: bool

text \<open>Copying up to a zero byte; \<open>n\<close> bytes are left, and all but the last of \<open>cap\<close> can be stored.\<close>

fun copy_field :: "u8 list \<Rightarrow> nat \<Rightarrow> nat \<Rightarrow> nat \<Rightarrow> u8 list \<Rightarrow> (nat \<times> u8 list) option" where
  "copy_field bs cap 0 pos out = Some (pos, out)"
| "copy_field bs cap (Suc n) pos out = do {
     b \<leftarrow> rd bs pos;
     if b = 0 then Some (pos, out)
     else copy_field bs cap n (pos + 1) (if length out < cap - 1 then out @ [b] else out)
   }"

definition text_field :: "u8 list \<Rightarrow> nat \<Rightarrow> nat \<Rightarrow> nat \<Rightarrow> (nat \<times> u8 list) option" where
  "text_field bs cap in_len pos = do {
     (pos, out) \<leftarrow> copy_field bs cap (in_len - pos) pos [];
     Some (if pos < in_len then pos + 1 else pos, out)
   }"

text \<open>The command and whether the update started it.\<close>

definition hpm_control_upgrade :: "control_env \<Rightarrow> u8 list \<Rightarrow> u16 \<Rightarrow> HPM_CONTROL_INFO_T \<Rightarrow> (HPM_CTRL_FOTA_INFO_T option \<times> bool) option" where
  "hpm_control_upgrade ce in_data in_len info = (if ce_upgrading ce then Some (None, False)
     else do {
       type \<leftarrow> rd in_data 0;
       (pos, url) \<leftarrow> text_field in_data HPM_FOTA_URL_MAX_LEN (unat in_len) 1;
       (pos, ver) \<leftarrow> text_field in_data HPM_FOTA_VER_MAX_LEN (unat in_len) pos;
       if pos + HPM_FOTA_MD5_MAX_LEN > length in_data then None
       else let fo = \<lparr>fo_seq = ct_seq info, fo_cmd = ct_cmd info, fo_cmd_sub = ct_cmd_sub info, fo_type = type, fota_url = url, fota_ver = ver,
           fota_md5 = take HPM_FOTA_MD5_MAX_LEN (drop pos in_data)\<rparr> in
         Some (if type = HPM_CTRL_FOTA_TBOX then (Some fo, ce_update ce fo) else (None, False))
     })"

definition hpm_control_send_resp :: "hpm_env \<Rightarrow> control_env \<Rightarrow> u8 list \<Rightarrow> u16 \<Rightarrow> 'd hpm \<Rightarrow> 'd hpm option" where
  "hpm_control_send_resp env ce res res_len S = (case ce_buf ce of
     None \<Rightarrow> Some S
   | Some buf \<Rightarrow> do {
       (buf, len) \<leftarrow> hpm_pack_common_resp (en_device env) buf res res_len;
       (S, ok) \<leftarrow> hpm_net_send (ce_send ce) buf len S;
       Some (if ok then S else hpm_socket_force_stop S)
     })"

text \<open>The answer of a command: whether there is one, its result and its body.\<close>

definition control_answer :: "'d flash_drivers \<Rightarrow> hpm_env \<Rightarrow> control_env \<Rightarrow> HPM_CONTROL_INFO_T \<Rightarrow> u8 list \<Rightarrow> 'd hpm \<Rightarrow>
    ('d hpm \<times> (bool \<times> u8 list) option) option" where
  "control_answer drv env ce info data S = (let sub = ct_cmd_sub info in
     if sub = HPM_CTRL_DATA_REQ then do { S \<leftarrow> hpm_dev_handle_event drv (env\<lparr>en_new_report := ce_report ce\<rparr>) S; Some (S, None) }
     else if sub = HPM_CTRL_CFG_READ then Some (S, Some (ce_get ce data (ct_len info)))
     else if sub = HPM_CTRL_CFG_SET then Some (S, Some (ce_set ce data (ct_len info)))
     else if sub = HPM_CTRL_CAN_FILE then Some (S, Some (ce_file ce data (ct_len info)))
     else if sub = HPM_CTRL_REBOOT then Some (S, Some (ce_reboot ce, []))
     else if sub = HPM_CTRL_UPGRADE then do { _ \<leftarrow> hpm_control_upgrade ce data (ct_len info) info; Some (S, None) }
     else Some (S, None))"

definition hpm_control_cmd_handle :: "'d flash_drivers \<Rightarrow> hpm_env \<Rightarrow> control_env \<Rightarrow> u8 \<Rightarrow> u8 list \<Rightarrow> 'd hpm \<Rightarrow> 'd hpm option" where
  "hpm_control_cmd_handle drv env ce cmd data S = (if cmd \<noteq> HPM_CMD_CONTROL then Some S
     else if length data < HPM_CTROL_TIME_LEN + 5 then None
     else let be16 = \<lambda>i. push_bit 8 (ucast (data ! i)) OR ucast (data ! (i + 1));
       info = \<lparr>ct_seq = be16 6, ct_cmd = cmd, ct_cmd_sub = data ! 8, ct_len = be16 9\<rparr> in do {
       (S, ans) \<leftarrow> control_answer drv env ce info (drop 11 data) S;
       case ans of
         None \<Rightarrow> Some S
       | Some (ok, body) \<Rightarrow> do {
           res \<leftarrow> put_at HPM_CTROL_RES_POS body (replicate HPM_CTROL_RES_LEN 0);
           res \<leftarrow> put_at 0 [ucast (drop_bit 8 (ct_seq info)), ucast (ct_seq info), ct_cmd info, ct_cmd_sub info,
             if ok then HPM_CTRL_RES_OK else HPM_CTRL_RES_NG] res;
           hpm_control_send_resp env ce res (5 + of_nat (length body)) S
         }
     })"

section \<open>A round of the session\<close>

text \<open>A command that the reception found is carried out before the session looks at the rest.\<close>

definition new_command :: "hpm_recv \<Rightarrow> hpm_recv \<Rightarrow> (u8 \<times> u8 list \<times> u16) option" where
  "new_command R R' = (if length (control_calls R) < length (control_calls R') then Some (last (control_calls R')) else None)"

definition hpm_session_process :: "'d flash_drivers \<Rightarrow> hpm_env \<Rightarrow> control_env \<Rightarrow> 'd hpm \<Rightarrow> 'd hpm option" where
  "hpm_session_process drv env ce S = (if en_downloading env then Some S
     else do {
       R \<leftarrow> hpm_data_recv_process (en_recv_buf env) (se_recv S);
       S \<leftarrow> (case new_command (se_recv S) R of
           None \<Rightarrow> Some (S\<lparr>se_recv := R\<rparr>)
         | Some (cmd, data, len) \<Rightarrow> hpm_control_cmd_handle drv env ce cmd data (S\<lparr>se_recv := R\<rparr>));
       session_steps drv env S
     })"

end
