(* ===== verification/HpmSessionInv.thy ===== *)
theory HpmSessionInv imports HpmDataInv HpmRecvClaims HpmControl begin

text \<open>
  The session of \<^verbatim>\<open>hpm_session.c\<close> on memory as it should be: every round returns, and the reports are kept until the server confirms them.
\<close>

section \<open>The reception always answers\<close>

fun parser_inv :: "nat \<Rightarrow> hpm_parser \<Rightarrow> bool" where
  "parser_inv pos (step, body, p) \<longleftrightarrow> length (rc_data p) = 512 \<and>
     (unat body + 27 \<le> pos \<or> body = 0 \<and> step \<noteq> HPM_PARSE_STEP_DATA \<and> step \<noteq> HPM_PARSE_STEP_CHECKSUM)"

definition verdict_ok :: "hpm_verdict \<Rightarrow> bool" where
  "verdict_ok v \<longleftrightarrow> length (rc_data (snd (snd v))) = 512 \<and> unat (fst (snd v)) \<le> 512"

lemma unpack_step_total:
  assumes "parser_inv pos s" and "pos < n" and "n \<le> 512" and "n \<le> length data"
  shows "\<exists>r. unpack_step data pos s = Some r \<and> (case r of Inr s' \<Rightarrow> parser_inv (Suc pos) s' | Inl v \<Rightarrow> verdict_ok v)"
proof -
  obtain st body p where s: "s = (st, body, p)" by (cases s)
  have b: "unat body < 512" using assms s by auto
  then have u: "unat (body + 1) = unat body + 1" "unat (body + 4) = unat body + 4" by (simp_all add: unat_plus_if_fits)
  have w: "unat (1 + of_nat pos :: u16) = Suc pos" using assms(2,3) by (simp add: unat_plus_if_fits unat_of_nat)
  show ?thesis using assms u s b w
    by (cases st) (auto simp: rd_def wr_def verdict_ok_def HPM_PARSE_POS_CMD_def HPM_PARSE_POS_LENH_def HPM_PARSE_POS_LENL_def HPM_CHECKSUM_POS_START_def
        Let_def unat_of_nat)
qed

lemma unpack_loop_total: "parser_inv pos s \<Longrightarrow> pos + k \<le> 512 \<Longrightarrow> pos + k \<le> length data \<Longrightarrow> \<exists>v. unpack_loop data pos k s = Some v \<and> verdict_ok v"
proof (induction k arbitrary: pos s)
  case 0
  then show ?case by (cases s) (simp add: verdict_ok_def)
next
  case (Suc k)
  obtain r where r: "unpack_step data pos s = Some r" "case r of Inr s' \<Rightarrow> parser_inv (Suc pos) s' | Inl v \<Rightarrow> verdict_ok v"
    using unpack_step_total [OF Suc.prems(1), of "pos + Suc k" data] Suc.prems by auto
  show ?case using r Suc.IH [of "Suc pos"] Suc.prems by (cases r) auto
qed

definition recv_ok_state :: "hpm_recv \<Rightarrow> bool" where
  "recv_ok_state R \<longleftrightarrow> recv_inv (recv_queue R) \<and> length (rc_data (recv_info R)) = 512"

lemma clear_ok: "recv_ok_state R \<Longrightarrow> recv_ok_state (hpm_data_recv_clear R)"
  by (simp add: recv_ok_state_def recv_inv_def hpm_data_recv_clear_def zero_recv_def HPM_SESSION_RECV_MEM_SIZE_def)

lemma recv_process_total:
  assumes R: "recv_ok_state R" and m: "\<And>mem. buf = Some mem \<Longrightarrow> 512 \<le> length mem"
  shows "\<exists>R'. hpm_data_recv_process buf R = Some R' \<and> recv_ok_state R' \<and> (\<forall>cmd data len. new_command R R' = Some (cmd, data, len) \<longrightarrow> length data = 512)"
proof -
  have z: "length (rc_data zero_recv) = 512" by (simp add: zero_recv_def HPM_SESSION_RECV_MEM_SIZE_def)
  have i: "recv_inv (recv_queue R)" using R by (simp add: recv_ok_state_def)
  show ?thesis
  proof (cases "hpm_data_recv_empty R \<or> buf = None")
    case True
    then have "hpm_data_recv_process buf R = Some (R\<lparr>recv_info := zero_recv\<rparr>)"
      by (auto simp: hpm_data_recv_process_def hpm_data_recv_empty_def Let_def)
    then show ?thesis using i z by (simp add: recv_ok_state_def new_command_def)
  next
    case False
    then obtain mem where mem: "buf = Some mem" "512 \<le> length mem" using m by auto
    have ne: "recv_bytes (recv_queue R) \<noteq> []"
      using False recv_length [of "recv_queue R"] by (auto simp: hpm_data_recv_empty_def unat_eq_0)
    let ?c = "recv_bytes (recv_queue R)"
    have "\<exists>v. unpack_loop (blit mem 0 (take 512 ?c)) 0 (min 512 (length ?c)) (HPM_PARSE_STEP_PERFIX0, 0, zero_recv) = Some v \<and> verdict_ok v"
      by (rule unpack_loop_total) (use z mem(2) in simp_all)
    then obtain ret pl info where v: "unpack_loop (blit mem 0 (take 512 ?c)) 0 (min 512 (length ?c)) (HPM_PARSE_STEP_PERFIX0, 0, zero_recv) = Some (ret, pl, info)"
        "verdict_ok (ret, pl, info)"
      by (metis prod_cases3)
    have run: "hpm_data_recv_process buf R = Some (after_parse ret pl info R)"
      using round_law [OF i refl ne mem(2)] v(1) mem(1) by simp
    have q: "recv_inv (recv_queue (fst (hpm_data_recv_pop pl (R\<lparr>recv_info := info\<rparr>))))"
    proof (cases "pl = 0")
      case True
      then show ?thesis using i by (simp add: hpm_data_recv_pop_def Let_def)
    next
      case False
      then show ?thesis using pop_law [of "R\<lparr>recv_info := info\<rparr>" pl] i v(2) by (auto simp: verdict_ok_def)
    qed
    have keep: "recv_info (fst (hpm_data_recv_pop pl (R\<lparr>recv_info := info\<rparr>))) = info" "control_calls (fst (hpm_data_recv_pop pl (R\<lparr>recv_info := info\<rparr>))) = control_calls R"
      by (simp_all add: hpm_data_recv_pop_def Let_def)
    have "recv_ok_state (after_parse ret pl info R)"
      using q keep i v(2) by (simp add: after_parse_def recv_ok_state_def verdict_ok_def Let_def)
    moreover have "new_command R (after_parse ret pl info R) = Some (cmd, data, len) \<longrightarrow> length data = 512" for cmd data len
      using keep v(2) by (auto simp: after_parse_def new_command_def verdict_ok_def Let_def)
    ultimately show ?thesis using run by blast
  qed
qed

section \<open>Frames are made\<close>

definition device_ok :: "hpm_device \<Rightarrow> bool" where
  "device_ok dv \<longleftrightarrow> imei_ok dv \<and> 20 \<le> length (dv_iccid dv) \<and> (\<forall>v. dv_vin dv = Some v \<longrightarrow> 17 \<le> length v)"

lemma put_at_total: "pos + length bs \<le> length buf \<Longrightarrow> \<exists>buf'. put_at pos bs buf = Some buf' \<and> length buf' = length buf"
  by (simp add: put_at_def)

lemma header_total: "device_ok dv \<Longrightarrow> 256 \<le> length buf \<Longrightarrow> \<exists>buf'. hpm_make_header dv cmd buf = Some (buf', 25) \<and> length buf' = length buf"
  using header_law [of dv buf cmd] device_code_length [of dv] by (auto simp: device_ok_def)

lemma put_checksum_total: "unat n = m \<Longrightarrow> 27 + m = len \<Longrightarrow> len < 256 \<Longrightarrow> 256 \<le> length buf \<Longrightarrow>
    \<exists>buf'. put_checksum n len buf = Some (buf', len + 1) \<and> length buf' = length buf"
  by (simp add: put_checksum_def put_at_def HPM_UNIQUE_CODE_LENGTH_def unat_plus_if_fits Let_def)

lemma login_total:
  assumes "device_ok dv" and "256 \<le> length buf"
  shows "\<exists>sq' buf'. hpm_pack_login dv (sq, buf) = Some ((sq', buf'), 73) \<and> length buf' = length buf"
proof -
  obtain b1 where b1: "hpm_make_header dv HPM_CMD_LOGIN buf = Some (b1, 25)" "length b1 = length buf" using header_total [OF assms] by blast
  obtain sq' x y where sq: "hpm_sesion_get_login_seq dv sq = (sq', [x, y])" by (simp add: hpm_sesion_get_login_seq_def Let_def)
  obtain b2 where b2: "hpm_get_time dv 27 b1 = Some (b2, 6)" "length b2 = length b1" using b1 assms(2) by (simp add: hpm_get_time_def put_at_def Let_def)
  obtain b3 where b3: "put_at 33 [x, y] b2 = Some b3" "length b3 = length b1" using b1 b2 assms(2) by (simp add: put_at_def)
  obtain b4 where b4: "hpm_get_iccid dv 35 b3 = Some (b4, 20)" "length b4 = length b1"
    using b1 b3 assms by (simp add: hpm_get_iccid_def put_at_def device_ok_def)
  obtain b5 where b5: "hpm_get_vin dv 55 b4 = Some (b5, 17)" "length b5 = length b1"
    using b1 b4 assms by (cases "dv_vin dv") (simp_all add: hpm_get_vin_def put_at_def device_ok_def)
  have cb: "hpm_pack_login_data_cb dv 27 (sq, b1) = Some ((sq', b5), 45)"
    using b2 sq b3 b4 b5 by (simp add: hpm_pack_login_data_cb_def)
  obtain b6 where b6: "put_at 25 [ucast (drop_bit 8 (of_nat 45 :: u16)), of_nat 45] b5 = Some b6" "length b6 = length b1"
    using b1 b5 assms(2) by (simp add: put_at_def)
  obtain b7 where "put_checksum (of_nat 45) 72 b6 = Some (b7, 73)" "length b7 = length b1"
    using put_checksum_total [of "of_nat 45" 45 72 b6] b1 b6 assms(2) by auto
  then show ?thesis using b1 cb b6 by (simp add: hpm_pack_login_def hpm_pack_data_def)
qed

lemma logout_total:
  assumes "device_ok dv" and "256 \<le> length buf"
  shows "\<exists>buf'. hpm_pack_logout dv (sq, buf) = Some ((sq, buf'), 36) \<and> length buf' = length buf"
proof -
  obtain b1 where b1: "hpm_make_header dv HPM_CMD_LOGOUT buf = Some (b1, 25)" "length b1 = length buf" using header_total [OF assms] by blast
  obtain b2 where b2: "hpm_get_time dv 27 b1 = Some (b2, 6)" "length b2 = length b1" using b1 assms(2) by (simp add: hpm_get_time_def put_at_def Let_def)
  obtain b3 where b3: "put_at 33 (hpm_session_get_logout_seq sq) b2 = Some b3" "length b3 = length b1"
    using b1 b2 assms(2) by (simp add: put_at_def hpm_session_get_logout_seq_def Let_def)
  have cb: "hpm_pack_logout_data_cb dv 27 (sq, b1) = Some ((sq, b3), 8)" using b2 b3 by (simp add: hpm_pack_logout_data_cb_def)
  obtain b6 where b6: "put_at 25 [ucast (drop_bit 8 (of_nat 8 :: u16)), of_nat 8] b3 = Some b6" "length b6 = length b1"
    using b1 b3 assms(2) by (simp add: put_at_def)
  obtain b7 where "put_checksum (of_nat 8) 35 b6 = Some (b7, 36)" "length b7 = length b1"
    using put_checksum_total [of "of_nat 8" 8 35 b6] b1 b6 assms(2) by auto
  then show ?thesis using b1 cb b6 by (simp add: hpm_pack_logout_def hpm_pack_data_def)
qed

lemma heartbeat_total:
  assumes "device_ok dv" and "256 \<le> length buf"
  shows "\<exists>buf'. hpm_pack_heartbeat dv buf = Some (buf', 28) \<and> length buf' = length buf"
proof -
  obtain b1 where b1: "hpm_make_header dv HPM_CMD_HEART_BEAT buf = Some (b1, 25)" "length b1 = length buf" using header_total [OF assms] by blast
  obtain b2 where b2: "put_at 25 [0, 0] b1 = Some b2" "length b2 = length b1" using put_at_total [of 25 "[0, 0]" b1] assms(2) b1(2) by auto
  show ?thesis using b1 b2 put_checksum_total [of 0 0 27 b2] assms(2) by (simp add: hpm_pack_heartbeat_def hpm_pack_def)
qed

lemma net_send_total:
  assumes "0 < n" and "n < 65536" and "n \<le> length buf"
  shows "hpm_net_send ok buf n S = Some (if ok then (S\<lparr>sent := sent S @ [take n buf]\<rparr>, True) else (S, False))"
  using assms by (simp add: hpm_net_send_def unat_of_nat Let_def)

section \<open>The session\<close>

text \<open>The memory a round is given, and a report that fits into a frame.\<close>

definition env_ok :: "hpm_env \<Rightarrow> bool" where
  "env_ok env \<longleftrightarrow> device_ok (en_device env) \<and> (\<forall>e buf. en_buf env e = Some buf \<longrightarrow> 256 \<le> length buf) \<and>
     (\<forall>mem. en_recv_buf env = Some mem \<longrightarrow> 512 \<le> length mem) \<and> (\<forall>bs. en_new_report env = Some bs \<longrightarrow> length bs \<le> 996)"

definition session_ok :: "'d flash_drivers \<Rightarrow> ('d \<Rightarrow> nat \<Rightarrow> u8 list) \<Rightarrow> ('d \<Rightarrow> nat \<Rightarrow> bool) \<Rightarrow> 'd hpm \<Rightarrow> (addr \<Rightarrow> addr list) \<Rightarrow>
    flash_packet list \<Rightarrow> u8 list multiset \<Rightarrow> bool" where
  "session_ok drv page clean S L fl M \<longleftrightarrow> holds_reports drv page clean (se_store S) L fl M \<and> length (hpm_session_send_info S) = HPM_SESSION_EVENT_MAX \<and>
     recv_ok_state (se_recv S)"

text \<open>What does not touch the reports.\<close>

definition beside :: "'d hpm \<Rightarrow> 'd hpm \<Rightarrow> bool" where
  "beside S S' \<longleftrightarrow> se_store S' = se_store S \<and> length (hpm_session_send_info S') = length (hpm_session_send_info S) \<and>
     (recv_ok_state (se_recv S) \<longrightarrow> recv_ok_state (se_recv S'))"

lemma beside_refl [simp]: "beside S S" by (simp add: beside_def)

lemma beside_trans [trans]: "beside A B \<Longrightarrow> beside B C \<Longrightarrow> beside A C" by (simp add: beside_def)

lemma beside_ok: "session_ok drv page clean S L fl M \<Longrightarrow> beside S S' \<Longrightarrow> session_ok drv page clean S' L fl M"
  by (simp add: session_ok_def beside_def)

lemma beside_simps [simp]:
  "beside S (hpm_session_step_set st S')= beside S S'" "beside S (set_sender e f S') = beside S S'"
  "beside S (S'\<lparr>sent := x\<rparr>) = beside S S'" "beside S (S'\<lparr>se_seq := q\<rparr>) = beside S S'" "beside S (S'\<lparr>hpm_socket_info := i\<rparr>) = beside S S'"
  "beside S (if_4g_socket_close S') = beside S S'" "beside S (stamp_heartbeat env S') = beside S S'" "beside S (S'\<lparr>hpm_dev_tick := t\<rparr>) = beside S S'"
  "beside S (S'\<lparr>hpm_dev_status := ds\<rparr>) = beside S S'" "beside S (S'\<lparr>hpm_session_run_status := rs\<rparr>) = beside S S'"
  by (simp_all add: beside_def hpm_session_step_set_def set_sender_def if_4g_socket_close_def stamp_heartbeat_def)

lemma beside_force_stop: "beside S S' \<Longrightarrow> beside S (hpm_session_force_stop S')"
  by (simp add: beside_def hpm_session_force_stop_def hpm_session_step_set_def clear_ok)

lemma beside_socket_stop: "beside S S' \<Longrightarrow> beside S (hpm_socket_force_stop S')"
  unfolding hpm_socket_force_stop_def Let_def by (intro beside_force_stop) simp

lemma com_login_total: "env_ok env \<Longrightarrow> \<exists>S' ok. hpm_session_com_login env S = Some (S', ok) \<and> beside S S'"
proof (cases "en_buf env HPM_SESSION_EVENT_LOGIN")
  case (Some buf)
  assume env: "env_ok env"
  obtain sq' buf' where b: "hpm_pack_login (en_device env) (se_seq S, buf) = Some ((sq', buf'), 73)" "length buf' = length buf"
    using login_total [of "en_device env" buf "se_seq S"] env Some by (auto simp: env_ok_def)
  have "73 \<le> length buf'" using env Some b(2) by (force simp: env_ok_def)
  then show ?thesis using Some b beside_force_stop [of S "S\<lparr>se_seq := sq'\<rparr>"]
    by (cases "en_send env HPM_SESSION_EVENT_LOGIN") (simp_all add: hpm_session_com_login_def net_send_total ex_bool_eq)
qed (simp add: hpm_session_com_login_def ex_bool_eq)

lemma com_logout_total: "env_ok env \<Longrightarrow> \<exists>S' ok. hpm_session_com_logout env S = Some (S', ok) \<and> beside S S'"
proof (cases "en_buf env HPM_SESSION_EVENT_LOGOUT")
  case (Some buf)
  assume env: "env_ok env"
  obtain buf' where b: "hpm_pack_logout (en_device env) (se_seq S, buf) = Some ((se_seq S, buf'), 36)" "length buf' = length buf"
    using logout_total [of "en_device env" buf "se_seq S"] env Some by (auto simp: env_ok_def)
  have "36 \<le> length buf'" using env Some b(2) by (force simp: env_ok_def)
  then show ?thesis using Some b
    by (cases "en_send env HPM_SESSION_EVENT_LOGOUT") (simp_all add: hpm_session_com_logout_def net_send_total ex_bool_eq)
qed (simp add: hpm_session_com_logout_def ex_bool_eq)

lemma com_heartbeat_total: "env_ok env \<Longrightarrow> \<exists>S' ok. hpm_session_com_heartbeat env S = Some (S', ok) \<and> beside S S'"
proof (cases "en_buf env HPM_SESSION_EVENT_HEARTBEAT")
  case (Some buf)
  assume env: "env_ok env"
  obtain buf' where b: "hpm_pack_heartbeat (en_device env) buf = Some (buf', 28)" "length buf' = length buf"
    using heartbeat_total [of "en_device env" buf] env Some by (auto simp: env_ok_def)
  have "28 \<le> length buf'" using env Some b(2) by (force simp: env_ok_def)
  then show ?thesis using Some b beside_force_stop [of S S]
    by (cases "en_send env HPM_SESSION_EVENT_HEARTBEAT") (simp_all add: hpm_session_com_heartbeat_def net_send_total ex_bool_eq)
qed (simp add: hpm_session_com_heartbeat_def ex_bool_eq)

lemma send_login_total: "env_ok env \<Longrightarrow> \<exists>S' ok. hpm_session_send_login env resp S = Some (S', ok) \<and> beside S S'"
  using com_login_total [of env S] unfolding hpm_session_send_login_def Let_def by (auto split: if_splits)

lemma send_logout_total: "env_ok env \<Longrightarrow> \<exists>S' ok. hpm_session_send_logout env resp S = Some (S', ok) \<and> beside S S'"
  using com_logout_total [of env S] unfolding hpm_session_send_logout_def Let_def logged_out_def by (auto split: if_splits)

lemma send_heartbeat_total: "env_ok env \<Longrightarrow> \<exists>S' ok. hpm_session_send_heartbeat env resp S = Some (S', ok) \<and> beside S S'"
  using com_heartbeat_total [of env S] unfolding hpm_session_send_heartbeat_def Let_def by (auto split: if_splits)

section \<open>Reports\<close>

lemma report_frame:
  assumes "device_ok dv" and "27 + unat len < 1024" and "unat len \<le> length body"
  shows "\<exists>buf. hpm_pack_report_data dv cmd len body (replicate HPM_SESSION_MAX_SEND_LEN 0) = Some (buf, 28 + unat len) \<and> length buf = 1024"
  using assms pack_law [of dv len body "replicate HPM_SESSION_MAX_SEND_LEN 0" cmd] device_code_length [of dv]
  by (simp add: hpm_pack_report_data_def HPM_SESSION_MAX_SEND_LEN_def device_ok_def hpm_frame_length)

text \<open>One report is taken and sent, or goes back to where it was.\<close>

lemma com_report_law:
  assumes ok: "session_ok drv page clean S L fl M" and env: "env_ok env"
  shows "\<exists>S' b L' fl'. hpm_session_com_report drv env S = Some (S', b) \<and> session_ok drv page clean S' L' fl' M \<and> length fl' \<le> length fl"
proof -
  have hold: "holds_reports drv page clean (se_store S) L fl M" and rest: "length (hpm_session_send_info S) = HPM_SESSION_EVENT_MAX" "recv_ok_state (se_recv S)"
    using ok by (auto simp: session_ok_def)
  obtain D' L' fl' where fl: "length fl' \<le> length fl" and
      got: "hpm_data_get_report_pack drv (en_flash_mem env) (se_store S) = Some (D', None) \<and> holds_reports drv page clean D' L' fl' M \<or>
        (\<exists>n. hpm_data_get_report_pack drv (en_flash_mem env) (se_store S) = Some (D', Some (pack_of n)) \<and> in_hand drv page clean D' n L' fl' M)"
    using get_report_law [OF hold] by blast
  show ?thesis
  proof (cases "\<exists>n. hpm_data_get_report_pack drv (en_flash_mem env) (se_store S) = Some (D', Some (pack_of n)) \<and> in_hand drv page clean D' n L' fl' M")
    case False
    then show ?thesis using got fl rest
      by (intro exI [of _ "S\<lparr>se_store := D'\<rparr>"] exI [of _ False] exI [of _ L'] exI [of _ fl']) (auto simp: hpm_session_com_report_def session_ok_def)
  next
    case True
    then obtain n where n: "hpm_data_get_report_pack drv (en_flash_mem env) (se_store S) = Some (D', Some (pack_of n))"
        "in_hand drv page clean D' n L' fl' M" by blast
    let ?p = "pack_at D' n"
    have st: "store_ok D' {n} L'" and nl: "n \<in> links" and fit: "pk_type ?p \<noteq> 0" "unat (pk_len ?p) \<le> 996"
      using n(2) by (auto simp: in_hand_def fit_def)
    have p: "rd (hpm_data_mem D') (pack_of n) = Some ?p" by (rule read_pack [OF st nl])
    obtain Db Lb where bk: "hpm_data_put_back_report_pack (pack_of n) D' = Some Db" "holds_reports drv page clean Db Lb fl' M"
      using put_report_back(1) [OF n(2)] by blast
    obtain Dt Lt where trans: "hpm_data_put_trans_list (pack_of n) D' = Some Dt" "holds_reports drv page clean Dt Lt fl' M"
      using put_report_back(2) [OF n(2)] by blast
    obtain buf where buf: "hpm_pack_report_data (en_device env) (pk_type ?p) (pk_len ?p) (pk_data ?p) (replicate HPM_SESSION_MAX_SEND_LEN 0) =
        Some (buf, 28 + unat (pk_len ?p))" "length buf = 1024"
      using report_frame [of "en_device env" "pk_len ?p" "pk_data ?p" "pk_type ?p"] env fit data_length [OF st nl]
      by (auto simp: env_ok_def HPM_PACK_BUFF_LEN_def)
    have send: "hpm_net_send b buf (28 + unat (pk_len ?p)) T =
        Some (if b then (T\<lparr>sent := sent T @ [take (28 + unat (pk_len ?p)) buf]\<rparr>, True) else (T, False))" for b and T :: "'d hpm"
      by (rule net_send_total) (use fit buf(2) in simp_all)
    have eq: "\<exists>D'' L'' s. (D'' = Db \<and> L'' = Lb \<or> D'' = Dt \<and> L'' = Lt) \<and>
        (\<exists>b. hpm_session_com_report drv env S = Some (S\<lparr>se_store := D'', sent := s\<rparr>, b))"
    proof (cases "en_report_mem env")
      case False
      then show ?thesis using n(1) p fit bk(1)
        by (intro exI [of _ Db] exI [of _ Lb] exI [of _ "sent S"])
          (simp add: hpm_session_com_report_def with_store_def HPM_PARSE_POS_DATA_def HPM_SESSION_MAX_SEND_LEN_def ex_bool_eq)
    next
      case mem: True
      show ?thesis
      proof (cases "en_send env HPM_SESSION_EVENT_REPORT")
        case False
        then show ?thesis using n(1) p fit bk(1) buf(1) mem
          by (intro exI [of _ Db] exI [of _ Lb] exI [of _ "sent S"])
            (simp add: hpm_session_com_report_def with_store_def HPM_PARSE_POS_DATA_def HPM_SESSION_MAX_SEND_LEN_def send ex_bool_eq)
      next
        case True
        then show ?thesis using n(1) p fit trans(1) buf(1) mem
          by (intro exI [of _ Dt] exI [of _ Lt] exI [of _ "sent S @ [take (28 + unat (pk_len ?p)) buf]"])
            (simp add: hpm_session_com_report_def with_store_def HPM_PARSE_POS_DATA_def HPM_SESSION_MAX_SEND_LEN_def send ex_bool_eq)
      qed
    qed
    then show ?thesis using bk(2) trans(2) rest fl by (auto simp: session_ok_def; blast)
  qed
qed

text \<open>Operations of the store, in a session.\<close>

lemma with_store_moved:
  assumes ok: "session_ok drv page clean S L fl M" and D: "f (se_store S) = Some D'" "store_ok D' {} L'" "same_packs (se_store S) D'" "waiting L' = waiting L"
  shows "with_store f S = Some (S\<lparr>se_store := D'\<rparr>) \<and> session_ok drv page clean (S\<lparr>se_store := D'\<rparr>) L' fl M"
  using ok holds_moved [OF _ D(2-4)] D(1) by (auto simp: session_ok_def with_store_def)

lemma store_in: "session_ok drv page clean S L fl M \<Longrightarrow> store_ok (se_store S) {} L"
  by (simp add: session_ok_def holds_reports_def)

definition same_session :: "'d hpm \<Rightarrow> 'd hpm \<Rightarrow> bool" where
  "same_session S S' \<longleftrightarrow> (\<exists>D. S' = S\<lparr>se_store := D\<rparr>)"

lemma flush_trans_session:
  "session_ok drv page clean S L fl M \<Longrightarrow>
    \<exists>S' L'. with_store hpm_data_flush_trans_list S = Some S' \<and> session_ok drv page clean S' L' fl M \<and> same_session S S' \<and> L' hpm_trans_list = []"
  using flush_trans_law [OF store_in] with_store_moved [of drv page clean S L fl M hpm_data_flush_trans_list] unfolding same_session_def by metis

lemma flush_realtm_session:
  "session_ok drv page clean S L fl M \<Longrightarrow>
    \<exists>S' L'. with_store hpm_data_flush_realtm_data S = Some S' \<and> session_ok drv page clean S' L' fl M \<and> same_session S S' \<and>
      L' hpm_trans_list = L hpm_trans_list"
  using flush_realtm_law(1) [OF store_in] with_store_moved [of drv page clean S L fl M hpm_data_flush_realtm_data] unfolding same_session_def by metis

text \<open>An acknowledgement takes away the first report that was sent, and nothing else.\<close>

definition released :: "u8 list multiset \<Rightarrow> u8 list multiset \<Rightarrow> bool" where
  "released M M' \<longleftrightarrow> (\<exists>r \<in># M. M' = M - {#r#})"

lemma ack_session:
  assumes ok: "session_ok drv page clean S L fl M"
  shows "\<exists>S' L' M'. with_store hpm_data_ack_pack S = Some S' \<and> session_ok drv page clean S' L' fl M' \<and> (M' = M \<or> released M M')"
proof -
  have "holds_reports drv page clean (se_store S) L fl M" using ok by (simp add: session_ok_def)
  from ack_law [OF this] obtain D' L' where D: "hpm_data_ack_pack (se_store S) = Some D'"
      "case L hpm_trans_list of [] \<Rightarrow> holds_reports drv page clean D' L' fl M \<and> L' hpm_trans_list = []
        | n # ns \<Rightarrow> L' hpm_trans_list = ns \<and> holds_reports drv page clean D' L' fl (M - {#pay (se_store S) n#}) \<and> pay (se_store S) n \<in># M" by blast
  obtain M' where "holds_reports drv page clean D' L' fl M'" "M' = M \<or> released M M'"
    using D(2) unfolding released_def by (cases "L hpm_trans_list") auto
  then show ?thesis using D(1) ok
    by (intro exI [of _ "S\<lparr>se_store := D'\<rparr>"] exI [of _ L'] exI [of _ M']) (simp add: with_store_def session_ok_def)
qed

lemma send_report_law:
  assumes ok: "session_ok drv page clean S L fl M" and env: "env_ok env"
  shows "\<exists>S' b L' fl' M'. hpm_session_send_report drv env resp S = Some (S', b) \<and> session_ok drv page clean S' L' fl' M' \<and> length fl' \<le> length fl \<and>
    (M' = M \<or> HPM_SESSION_REPORT_ACK AND resp = HPM_SESSION_REPORT_ACK \<and> released M M')"
proof -
  let ?st = "send_state (sender HPM_SESSION_EVENT_REPORT S)"
  consider "?st = HPM_SESSION_SEND_INIT \<or> ?st = HPM_SESSION_SEND_SUCCESS" | "?st = HPM_SESSION_SEND_WAIT"
    | "?st \<noteq> HPM_SESSION_SEND_INIT" "?st \<noteq> HPM_SESSION_SEND_SUCCESS" "?st \<noteq> HPM_SESSION_SEND_WAIT" by blast
  then show ?thesis
  proof cases
    case 1
    obtain S' b L' fl' where c: "hpm_session_com_report drv env S = Some (S', b)" "session_ok drv page clean S' L' fl' M" "length fl' \<le> length fl"
      using com_report_law [OF ok env] by blast
    let ?T = "if b then stamp_heartbeat env (set_sender HPM_SESSION_EVENT_REPORT (\<lambda>s. s\<lparr>wait_time := en_tick env, send_state := HPM_SESSION_SEND_WAIT\<rparr>) S') else S'"
    have "session_ok drv page clean ?T L' fl' M" by (rule beside_ok [OF c(2)]) simp
    then show ?thesis using 1 c(1,3)
      by (intro exI [of _ ?T] exI [of _ True] exI [of _ L'] exI [of _ fl'] exI [of _ M]) (simp add: hpm_session_send_report_def Let_def)
  next
    case 2
    have w: "HPM_SESSION_SEND_WAIT \<noteq> HPM_SESSION_SEND_INIT" "HPM_SESSION_SEND_WAIT \<noteq> HPM_SESSION_SEND_SUCCESS"
      by (simp_all add: HPM_SESSION_SEND_WAIT_def HPM_SESSION_SEND_INIT_def HPM_SESSION_SEND_SUCCESS_def)
    have a: "session_ok drv page clean (report_answered S) L fl M" by (rule beside_ok [OF ok]) (simp add: report_answered_def)
    obtain S1 L1 M1 where s1: "with_store hpm_data_ack_pack (report_answered S) = Some S1" "session_ok drv page clean S1 L1 fl M1" "M1 = M \<or> released M M1"
      using ack_session [OF a] by blast
    obtain S2 L2 where s2: "with_store hpm_data_flush_trans_list (report_answered S) = Some S2" "session_ok drv page clean S2 L2 fl M"
      using flush_trans_session [OF a] by blast
    have s2': "session_ok drv page clean (hpm_socket_force_stop S2) L2 fl M" by (rule beside_ok [OF s2(2) beside_socket_stop]) simp
    show ?thesis
    proof (cases "HPM_SESSION_REPORT_ACK AND resp = HPM_SESSION_REPORT_ACK")
      case True
      then show ?thesis using 2 s1
        by (intro exI [of _ S1] exI [of _ True] exI [of _ L1] exI [of _ fl] exI [of _ M1]) (simp add: hpm_session_send_report_def Let_def w)
    next
      case nack: False
      show ?thesis
      proof (cases "HPM_SESSION_REPORT_NACK AND resp = HPM_SESSION_REPORT_NACK \<or> elapsed env HPM_SESSION_EVENT_REPORT S \<ge> en_timeout env")
        case True
        then show ?thesis using 2 nack s2(1) s2'
          by (intro exI [of _ "hpm_socket_force_stop S2"] exI [of _ True] exI [of _ L2] exI [of _ fl] exI [of _ M])
            (simp add: hpm_session_send_report_def Let_def w)
      next
        case False
        then show ?thesis using 2 nack ok
          by (intro exI [of _ S] exI [of _ True] exI [of _ L] exI [of _ fl] exI [of _ M]) (simp add: hpm_session_send_report_def Let_def w)
      qed
    qed
  next
    case 3
    then show ?thesis using ok
      by (intro exI [of _ S] exI [of _ True] exI [of _ L] exI [of _ fl] exI [of _ M]) (simp add: hpm_session_send_report_def Let_def)
  qed
qed

section \<open>Steps\<close>

definition confirmed :: "'d hpm \<Rightarrow> bool" where
  "confirmed S \<longleftrightarrow> hpm_session_step S = HPM_SESSION_STEP_SESSION \<and> recv_ack S \<and> recv_ok S"

lemma proc_init_law:
  assumes ok: "session_ok drv page clean S L fl M" and env: "env_ok env"
  shows "\<exists>S'. hpm_session_proc_init env S = Some S' \<and> session_ok drv page clean S' L fl M"
proof -
  obtain S1 b where s: "hpm_session_send_login env 0 S = Some (S1, b)" "beside S S1" using send_login_total [OF env] by blast
  have "session_ok drv page clean S1 L fl M" "session_ok drv page clean (hpm_session_step_set HPM_SESSION_STEP_LOGIN S1) L fl M"
    by (rule beside_ok [OF ok], simp add: s(2))+
  then show ?thesis using s(1) ok by (simp add: hpm_session_proc_init_def)
qed

lemma proc_login_law:
  assumes ok: "session_ok drv page clean S L fl M" and env: "env_ok env"
  shows "\<exists>S' L'. hpm_session_proc_login env S = Some S' \<and> session_ok drv page clean S' L' fl M"
proof -
  have st: "session_ok drv page clean (hpm_session_step_set st S) L fl M" for st by (rule beside_ok [OF ok]) simp
  obtain S1 L1 where s1: "with_store hpm_data_flush_trans_list (hpm_session_step_set HPM_SESSION_STEP_SESSION S) = Some S1"
      "session_ok drv page clean S1 L1 fl M" using flush_trans_session [OF st] by blast
  obtain S2 L2 where s2: "with_store hpm_data_flush_realtm_data S1 = Some S2" "session_ok drv page clean S2 L2 fl M"
    using flush_realtm_session [OF s1(2)] by blast
  have send: "\<exists>T' b. hpm_session_send_login env resp T = Some (T', b) \<and> session_ok drv page clean T' K fl M"
    if "session_ok drv page clean T K fl M" for resp T K
    using send_login_total [OF env, of resp T] beside_ok [OF that] by blast
  show ?thesis
  proof (cases "hpm_session_run_status S = HPM_SESSION_STOP")
    case True
    then show ?thesis using st by (auto simp: hpm_session_proc_login_def)
  next
    case run: False
    show ?thesis
    proof (cases "recv_ack_of HPM_CMD_LOGIN S \<and> recv_ok S")
      case True
      then show ?thesis using run s1(1) s2 send [OF s2(2), of HPM_SESSION_LOGIN_ACK] by (auto simp: hpm_session_proc_login_def)
    next
      case False
      then show ?thesis using run send [OF ok, of HPM_SESSION_LOGIN_NACK] send [OF ok, of 0]
        by (cases "recv_ack_of HPM_CMD_LOGIN S") (auto simp: hpm_session_proc_login_def)
    qed
  qed
qed

lemma proc_session_law:
  assumes ok: "session_ok drv page clean S L fl M" and env: "env_ok env"
  shows "\<exists>S' L' fl' M'. hpm_session_proc_session drv env S = Some S' \<and> session_ok drv page clean S' L' fl' M' \<and> length fl' \<le> length fl \<and>
    (M' = M \<or> recv_ack S \<and> recv_ok S \<and> released M M')"
proof (cases "hpm_session_run_status S = HPM_SESSION_STOP")
  case True
  have "session_ok drv page clean (hpm_session_step_set HPM_SESSION_STEP_LOGOUT S) L fl M" by (rule beside_ok [OF ok]) simp
  then show ?thesis using True by (auto simp: hpm_session_proc_session_def)
next
  case False
  define resp where "resp = (if recv_ack S then if recv_ok S then HPM_SESSION_REPORT_ACK else HPM_SESSION_REPORT_NACK else 0)"
  obtain S1 b L1 fl1 M1 where s1: "hpm_session_send_report drv env resp S = Some (S1, b)" "session_ok drv page clean S1 L1 fl1 M1" "length fl1 \<le> length fl"
      "M1 = M \<or> HPM_SESSION_REPORT_ACK AND resp = HPM_SESSION_REPORT_ACK \<and> released M M1"
    using send_report_law [OF ok env] by blast
  obtain S2 b2 where s2: "hpm_session_send_heartbeat env resp S1 = Some (S2, b2)" "beside S1 S2" using send_heartbeat_total [OF env] by blast
  have "HPM_SESSION_REPORT_ACK AND resp = HPM_SESSION_REPORT_ACK \<longleftrightarrow> recv_ack S \<and> recv_ok S"
    by (auto simp: resp_def HPM_SESSION_REPORT_ACK_def HPM_SESSION_REPORT_NACK_def)
  then show ?thesis using False s1 s2(1) beside_ok [OF s1(2) s2(2)]
    by (intro exI [of _ S2] exI [of _ L1] exI [of _ fl1] exI [of _ M1]) (auto simp: hpm_session_proc_session_def resp_def [symmetric] Let_def)
qed

lemma proc_logout_law:
  assumes ok: "session_ok drv page clean S L fl M" and env: "env_ok env"
  shows "\<exists>S'. hpm_session_proc_logout env S = Some S' \<and> session_ok drv page clean S' L fl M"
proof -
  have st: "session_ok drv page clean (hpm_session_step_set st S) L fl M" for st by (rule beside_ok [OF ok]) simp
  have send: "\<exists>T' b. hpm_session_send_logout env resp T = Some (T', b) \<and> session_ok drv page clean T' L fl M"
    if "session_ok drv page clean T L fl M" for resp T
    using send_logout_total [OF env, of resp T] beside_ok [OF that] by blast
  show ?thesis
    using send [OF ok, of 0] send [OF ok, of HPM_SESSION_LOGOUT_NACK] send [OF st, of HPM_SESSION_LOGOUT_ACK HPM_SESSION_STEP_INIT]
    by (cases "recv_ack_of HPM_CMD_LOGOUT S"; cases "recv_ok S") (auto simp: hpm_session_proc_logout_def)
qed

lemma steps_law:
  assumes ok: "session_ok drv page clean S L fl M" and env: "env_ok env"
  shows "\<exists>S' L' fl' M'. session_steps drv env S = Some S' \<and> session_ok drv page clean S' L' fl' M' \<and> length fl' \<le> length fl \<and>
    (M' = M \<or> confirmed S \<and> released M M')"
proof (cases "hpm_session_step S")
  case HPM_SESSION_STEP_INIT
  then show ?thesis using proc_init_law [OF ok env] by (auto simp: session_steps_def)
next
  case HPM_SESSION_STEP_LOGIN
  then show ?thesis using proc_login_law [OF ok env] by (auto simp: session_steps_def)
next
  case HPM_SESSION_STEP_SESSION
  then show ?thesis using proc_session_law [OF ok env] unfolding session_steps_def confirmed_def by simp
next
  case HPM_SESSION_STEP_LOGOUT
  then show ?thesis using proc_logout_law [OF ok env] by (auto simp: session_steps_def)
qed

end
