(* ===== verification/HpmApp.thy ===== *)
theory HpmApp imports HpmControl "HOL-Library.Sublist" begin

text \<open>
  \<^verbatim>\<open>src/app/hpm/hpm_socket.c\<close>, the connection, \<^verbatim>\<open>hpm_mgr.c\<close>, when it is wanted, and \<^verbatim>\<open>hpm.c\<close>, the round of a tenth of a second that
  drives all parts, with going to sleep and waking up. What the modem, the positioning and the ignition answer are arguments of a round.
\<close>

section \<open>Connection\<close>

definition HPM_SOCKET_WAIT_ALLOWED_TIMEOUT :: u32 where "HPM_SOCKET_WAIT_ALLOWED_TIMEOUT = 30"
definition HPM_SOCKET_CLOSE_TIMEOUT :: u32 where "HPM_SOCKET_CLOSE_TIMEOUT = 10"
definition HPM_SOCKET_STOP_TIMEOUT :: u32 where "HPM_SOCKET_STOP_TIMEOUT = 30"
definition HPM_SOCKET_RECONNECT_TIMEOUT :: u32 where "HPM_SOCKET_RECONNECT_TIMEOUT = 30"

text \<open>
  The modem: whether the network is up, the position fixed, the connection open or closed; the addresses of the configuration, if they can be
  read; whether a connection can be asked for.
\<close>

record socket_env =
  sk_network :: bool
  sk_fix :: bool
  sk_connected :: bool
  sk_disconnected :: bool
  sk_url :: "HPM_SOCKET_ADDR_TYPE_E \<Rightarrow> u8 list option"
  sk_port :: "HPM_SOCKET_ADDR_TYPE_E \<Rightarrow> u32 option"
  sk_connect :: "u8 list \<Rightarrow> u16 \<Rightarrow> bool"

definition upd_socket :: "(hpm_socket_info_t \<Rightarrow> hpm_socket_info_t) \<Rightarrow> 'd hpm \<Rightarrow> 'd hpm" where
  "upd_socket f S = S\<lparr>hpm_socket_info := f (hpm_socket_info S)\<rparr>"

definition set_socket_status :: "hpm_socket_status_e \<Rightarrow> 'd hpm \<Rightarrow> 'd hpm" where
  "set_socket_status st = upd_socket (\<lambda>i. i\<lparr>so_status := st\<rparr>)"

definition tick_down :: "'d hpm \<Rightarrow> 'd hpm" where
  "tick_down = upd_socket (\<lambda>i. if so_tick i > 0 then i\<lparr>so_tick := so_tick i - 1\<rparr> else i)"

definition hpm_socket_init :: "u8 \<Rightarrow> 'd hpm \<Rightarrow> 'd hpm" where
  "hpm_socket_init seq S = (if seq = 0
     then upd_socket (\<lambda>i. i\<lparr>so_status := HPM_SOCKET_STATUS_IDLE, so_run := HPM_SOCKET_STOPPED, so_type := HPM_SOCKET_MAIN_URL\<rparr>) S else S)"

definition hpm_socket_start :: "'d hpm \<Rightarrow> 'd hpm" where
  "hpm_socket_start S = (if so_run (hpm_socket_info S) = HPM_SOCKET_RUNNING then S else upd_socket (\<lambda>i. i\<lparr>so_run := HPM_SOCKET_RUNNING\<rparr>) S)"

definition hpm_socket_stop :: "'d hpm \<Rightarrow> 'd hpm" where
  "hpm_socket_stop S = (if so_run (hpm_socket_info S) = HPM_SOCKET_STOPPED then S else upd_socket (\<lambda>i. i\<lparr>so_run := HPM_SOCKET_STOPPED\<rparr>) S)"

definition hpm_socket_is_connected :: "'d hpm \<Rightarrow> bool" where
  "hpm_socket_is_connected S \<longleftrightarrow> so_status (hpm_socket_info S) = HPM_SOCKET_STATUS_CONNECTED"

definition hpm_socket_in_idle :: "'d hpm \<Rightarrow> bool" where
  "hpm_socket_in_idle S \<longleftrightarrow> so_status (hpm_socket_info S) = HPM_SOCKET_STATUS_IDLE \<or> so_status (hpm_socket_info S) = HPM_SOCKET_STATUS_CLOSED"

text \<open>A change of the configuration: the name of the item that changed.\<close>

definition names_one_of :: "string list \<Rightarrow> string \<Rightarrow> bool" where
  "names_one_of ns name \<longleftrightarrow> list_ex (\<lambda>n. prefix n name) ns"

definition hpm_socket_handle_msg :: "string option \<Rightarrow> 'd hpm \<Rightarrow> 'd hpm" where
  "hpm_socket_handle_msg info S = (let type = so_type (hpm_socket_info S) in (case info of
     None \<Rightarrow> S
   | Some name \<Rightarrow>
       if names_one_of [''HPMMURL'', ''HPMMIP'', ''HPMMPORT''] name \<and> type \<in> {HPM_SOCKET_MAIN_URL, HPM_SOCKET_MAIN_IP} then hpm_socket_force_stop S
       else if names_one_of [''HPMSURL'', ''HPMSIP'', ''HPMSPORT''] name \<and> type \<in> {HPM_SOCKET_SLAVER_URL, HPM_SOCKET_SLAVER_IP} then hpm_socket_force_stop S
       else S))"

definition hpm_socket_get_addr :: "socket_env \<Rightarrow> HPM_SOCKET_ADDR_TYPE_E \<Rightarrow> (u8 list \<times> u32) option" where
  "hpm_socket_get_addr sk type = (case sk_url sk type of
     None \<Rightarrow> None
   | Some url \<Rightarrow> (case sk_port sk type of
       None \<Rightarrow> None
     | Some port \<Rightarrow> if url = [] \<or> hd url = 0 \<or> port = 65535 \<or> port = 0 then None else Some (url, port)))"

fun next_type :: "HPM_SOCKET_ADDR_TYPE_E \<Rightarrow> HPM_SOCKET_ADDR_TYPE_E" where
  "next_type HPM_SOCKET_MAIN_URL = HPM_SOCKET_MAIN_IP"
| "next_type HPM_SOCKET_MAIN_IP = HPM_SOCKET_SLAVER_URL"
| "next_type HPM_SOCKET_SLAVER_URL = HPM_SOCKET_SLAVER_IP"
| "next_type HPM_SOCKET_SLAVER_IP = HPM_SOCKET_MAIN_URL"

definition other_address :: "'d hpm \<Rightarrow> 'd hpm" where
  "other_address = upd_socket (\<lambda>i. i\<lparr>so_type := next_type (so_type i)\<rparr>)"

definition hpm_socket_connect_server :: "socket_env \<Rightarrow> 'd hpm \<Rightarrow> 'd hpm \<times> bool" where
  "hpm_socket_connect_server sk S = (case hpm_socket_get_addr sk (so_type (hpm_socket_info S)) of
     None \<Rightarrow> (other_address S, False)
   | Some (url, port) \<Rightarrow> if \<not> sk_connect sk url (ucast port) then (other_address S, False) else (S, True))"

definition hpm_socket_handle_idle :: "'d hpm \<Rightarrow> 'd hpm" where
  "hpm_socket_handle_idle S = (let S = tick_down S in
     if so_run (hpm_socket_info S) = HPM_SOCKET_STOPPED then S else set_socket_status HPM_SOCKET_STATUS_WAIT_DIAL S)"

definition begin_connect :: "socket_env \<Rightarrow> 'd hpm \<Rightarrow> 'd hpm" where
  "begin_connect sk S = (let (S, ok) = hpm_socket_connect_server sk S in
     if ok then upd_socket (\<lambda>i. i\<lparr>so_tick := HPM_SOCKET_RECONNECT_TIMEOUT, so_status := HPM_SOCKET_STATUS_CONNECTING\<rparr>) S else S)"

definition hpm_socket_handle_wait_dial :: "socket_env \<Rightarrow> 'd hpm \<Rightarrow> 'd hpm" where
  "hpm_socket_handle_wait_dial sk S =
     (if so_run (hpm_socket_info S) = HPM_SOCKET_STOPPED then set_socket_status HPM_SOCKET_STATUS_IDLE S
      else if hpm_session_step S \<noteq> HPM_SESSION_STEP_INIT then hpm_session_force_stop S
      else if sk_network sk \<and> sk_fix sk then begin_connect sk S
      else let S = upd_socket (\<lambda>i. i\<lparr>so_tick := so_tick i + 1\<rparr>) S in
        if so_tick (hpm_socket_info S) \<ge> HPM_SOCKET_WAIT_ALLOWED_TIMEOUT then begin_connect sk S else S)"

definition hpm_socket_handle_connecting :: "socket_env \<Rightarrow> 'd hpm \<Rightarrow> 'd hpm" where
  "hpm_socket_handle_connecting sk S = (let S = tick_down S in
     if so_run (hpm_socket_info S) = HPM_SOCKET_STOPPED then set_socket_status HPM_SOCKET_STATUS_CLOSING (if_4g_socket_close S)
     else if sk_connected sk
     then upd_socket (\<lambda>i. i\<lparr>so_tick := 0, so_status := HPM_SOCKET_STATUS_CONNECTED\<rparr>) (hpm_session_start S)
     else if so_tick (hpm_socket_info S) = 0 then other_address (set_socket_status HPM_SOCKET_STATUS_CLOSING (if_4g_socket_close S))
     else S)"

definition clear_reception :: "'d hpm \<Rightarrow> 'd hpm" where
  "clear_reception S = S\<lparr>se_recv := hpm_data_recv_clear (se_recv S)\<rparr>"

definition hpm_socket_handle_connected :: "socket_env \<Rightarrow> 'd hpm \<Rightarrow> 'd hpm" where
  "hpm_socket_handle_connected sk S = (let S = tick_down S in
     if so_run (hpm_socket_info S) = HPM_SOCKET_STOPPED
     then upd_socket (\<lambda>i. i\<lparr>so_status := HPM_SOCKET_STATUS_STOPPING, so_tick := HPM_SOCKET_STOP_TIMEOUT\<rparr>) (hpm_session_stop S)
     else if \<not> sk_connected sk \<or> \<not> sk_network sk
     then set_socket_status HPM_SOCKET_STATUS_CLOSING (if_4g_socket_close (hpm_session_force_stop (clear_reception S)))
     else if hpm_session_step S = HPM_SESSION_STEP_INIT then hpm_session_start S
     else S)"

definition hpm_socket_handle_stopping :: "'d hpm \<Rightarrow> 'd hpm" where
  "hpm_socket_handle_stopping S = (let S = tick_down S in
     if hpm_session_step S = HPM_SESSION_STEP_INIT
     then upd_socket (\<lambda>i. i\<lparr>so_tick := if so_tick i < HPM_SOCKET_CLOSE_TIMEOUT then HPM_SOCKET_CLOSE_TIMEOUT else so_tick i,
       so_status := HPM_SOCKET_STATUS_CLOSING\<rparr>) (if_4g_socket_close (clear_reception S))
     else if so_tick (hpm_socket_info S) = 0
     then upd_socket (\<lambda>i. i\<lparr>so_tick := HPM_SOCKET_CLOSE_TIMEOUT, so_status := HPM_SOCKET_STATUS_CLOSING\<rparr>)
       (if_4g_socket_close (hpm_session_force_stop (clear_reception S)))
     else S)"

definition hpm_socket_handle_closing :: "socket_env \<Rightarrow> 'd hpm \<Rightarrow> 'd hpm" where
  "hpm_socket_handle_closing sk S = (let S = tick_down S in
     if sk_disconnected sk \<or> so_tick (hpm_socket_info S) = 0 then set_socket_status HPM_SOCKET_STATUS_CLOSED S else S)"

definition hpm_socket_handle_closed :: "'d hpm \<Rightarrow> 'd hpm" where
  "hpm_socket_handle_closed S = (if so_tick (hpm_socket_info S) > 0 then tick_down S
     else if so_run (hpm_socket_info S) = HPM_SOCKET_STOPPED then S
     else upd_socket (\<lambda>i. i\<lparr>so_status := HPM_SOCKET_STATUS_WAIT_DIAL, so_tick := HPM_SOCKET_WAIT_ALLOWED_TIMEOUT\<rparr>)
       (if hpm_session_step S \<noteq> HPM_SESSION_STEP_INIT then hpm_session_force_stop S else S))"

definition hpm_socket_process :: "socket_env \<Rightarrow> 'd hpm \<Rightarrow> 'd hpm" where
  "hpm_socket_process sk S = (case so_status (hpm_socket_info S) of
     HPM_SOCKET_STATUS_IDLE \<Rightarrow> hpm_socket_handle_idle S
   | HPM_SOCKET_STATUS_WAIT_DIAL \<Rightarrow> hpm_socket_handle_wait_dial sk S
   | HPM_SOCKET_STATUS_CONNECTING \<Rightarrow> hpm_socket_handle_connecting sk S
   | HPM_SOCKET_STATUS_CONNECTED \<Rightarrow> hpm_socket_handle_connected sk S
   | HPM_SOCKET_STATUS_STOPPING \<Rightarrow> hpm_socket_handle_stopping S
   | HPM_SOCKET_STATUS_CLOSING \<Rightarrow> hpm_socket_handle_closing sk S
   | HPM_SOCKET_STATUS_CLOSED \<Rightarrow> hpm_socket_handle_closed S)"

definition hpm_socket_wakeup :: "'d hpm \<Rightarrow> 'd hpm" where
  "hpm_socket_wakeup = upd_socket (\<lambda>i. i\<lparr>so_tick := 0, so_status := HPM_SOCKET_STATUS_IDLE\<rparr>)"

text \<open>Bytes from the modem; only those of this connection are kept.\<close>

definition hpm_net_recv_cb :: "bool \<Rightarrow> u8 list option \<Rightarrow> u16 \<Rightarrow> 'd hpm \<Rightarrow> 'd hpm option" where
  "hpm_net_recv_cb ours data len S = (if \<not> ours then Some S
     else do { (R, n) \<leftarrow> hpm_data_recv_push data len (se_recv S); Some (S\<lparr>se_recv := R\<rparr>) })"

section \<open>When a connection is wanted\<close>

datatype hpm_mgr_status_e = HPM_MGR_STATUS_INIT | HPM_MGR_STATUS_IDLE | HPM_MGR_STATUS_RUNNING | HPM_MGR_STATUS_WAIT_STOP | HPM_MGR_STATUS_STOPPED

definition HPM_MGR_ACC_OFF_STOP_COUNT :: u32 where "HPM_MGR_ACC_OFF_STOP_COUNT = 60"
definition PM_WAKE_SOURCE_RTC :: nat where "PM_WAKE_SOURCE_RTC = 2"
definition PM_WAKE_SOURCE_LIGHT :: nat where "PM_WAKE_SOURCE_LIGHT = 8"
definition PM_WAKE_SOURCE_REMOVED :: nat where "PM_WAKE_SOURCE_REMOVED = 9"

record 'd hpm_app =
  ap_hpm :: "'d hpm"
  hpm_mgr_status :: hpm_mgr_status_e
  hpm_mgr_acc_off_count :: u32
  hpm_timer_ticks :: u32

record mgr_env =
  mg_wake_source :: u32
  mg_sleep_delay :: u32

definition upd_hpm :: "('d hpm \<Rightarrow> 'd hpm) \<Rightarrow> 'd hpm_app \<Rightarrow> 'd hpm_app" where
  "upd_hpm f A = A\<lparr>ap_hpm := f (ap_hpm A)\<rparr>"

definition hpm_mgr_init :: "u8 \<Rightarrow> 'd hpm_app \<Rightarrow> 'd hpm_app" where
  "hpm_mgr_init seq A = (if seq = 0 then A\<lparr>hpm_mgr_status := HPM_MGR_STATUS_INIT, hpm_mgr_acc_off_count := 0\<rparr> else A)"

definition hpm_mgr_allow_sleep :: "'d hpm_app \<Rightarrow> bool" where
  "hpm_mgr_allow_sleep A \<longleftrightarrow> hpm_mgr_status A = HPM_MGR_STATUS_IDLE \<or> hpm_mgr_status A = HPM_MGR_STATUS_STOPPED"

definition hpm_mgr_wakeup :: "'d hpm_app \<Rightarrow> 'd hpm_app" where
  "hpm_mgr_wakeup A = A\<lparr>hpm_mgr_status := HPM_MGR_STATUS_INIT, hpm_mgr_acc_off_count := 0\<rparr>"

definition hpm_mgr_allowed_start :: "bool \<Rightarrow> mgr_env \<Rightarrow> bool" where
  "hpm_mgr_allowed_start acc mg \<longleftrightarrow> acc \<or> bit (mg_wake_source mg) PM_WAKE_SOURCE_RTC \<or> bit (mg_wake_source mg) PM_WAKE_SOURCE_REMOVED \<or>
     bit (mg_wake_source mg) PM_WAKE_SOURCE_LIGHT"

definition mgr_start :: "'d hpm_app \<Rightarrow> 'd hpm_app" where
  "mgr_start A = (upd_hpm hpm_socket_start A)\<lparr>hpm_mgr_status := HPM_MGR_STATUS_RUNNING, hpm_mgr_acc_off_count := 0\<rparr>"

definition hpm_mgr_in_init :: "bool \<Rightarrow> mgr_env \<Rightarrow> 'd hpm_app \<Rightarrow> 'd hpm_app" where
  "hpm_mgr_in_init acc mg A = (if hpm_mgr_allowed_start acc mg then mgr_start A else A\<lparr>hpm_mgr_status := HPM_MGR_STATUS_IDLE\<rparr>)"

definition hpm_mgr_in_idle :: "bool \<Rightarrow> mgr_env \<Rightarrow> 'd hpm_app \<Rightarrow> 'd hpm_app" where
  "hpm_mgr_in_idle acc mg A = (if hpm_mgr_allowed_start acc mg then mgr_start A else A)"

definition hpm_mgr_in_running :: "bool \<Rightarrow> mgr_env \<Rightarrow> 'd hpm_app \<Rightarrow> 'd hpm_app" where
  "hpm_mgr_in_running acc mg A = (let
     A = (if acc then let A = A\<lparr>hpm_mgr_acc_off_count := 0\<rparr> in if hpm_socket_in_idle (ap_hpm A) then upd_hpm hpm_socket_start A else A
          else A\<lparr>hpm_mgr_acc_off_count := hpm_mgr_acc_off_count A + 1\<rparr>) in
     if hpm_mgr_acc_off_count A \<ge> HPM_MGR_ACC_OFF_STOP_COUNT
     then (upd_hpm hpm_socket_stop A)\<lparr>hpm_mgr_acc_off_count := (if mg_sleep_delay mg \<le> HPM_MGR_ACC_OFF_STOP_COUNT then 0
         else mg_sleep_delay mg - hpm_mgr_acc_off_count A), hpm_mgr_status := HPM_MGR_STATUS_WAIT_STOP\<rparr>
     else A)"

definition hpm_mgr_in_wait_stop :: "bool \<Rightarrow> 'd hpm_app \<Rightarrow> 'd hpm_app" where
  "hpm_mgr_in_wait_stop acc A = (let A = (if acc then A\<lparr>hpm_mgr_acc_off_count := 0\<rparr> else A) in
     if hpm_mgr_acc_off_count A > 0 then A\<lparr>hpm_mgr_acc_off_count := hpm_mgr_acc_off_count A - 1\<rparr>
     else (if \<not> hpm_socket_in_idle (ap_hpm A) then upd_hpm hpm_socket_force_stop A else A)\<lparr>hpm_mgr_status := HPM_MGR_STATUS_STOPPED\<rparr>)"

definition hpm_mgr_in_stopped :: "bool \<Rightarrow> 'd hpm_app \<Rightarrow> 'd hpm_app" where
  "hpm_mgr_in_stopped acc A = (if acc then mgr_start A else A)"

definition hpm_mgr_process :: "bool \<Rightarrow> mgr_env \<Rightarrow> 'd hpm_app \<Rightarrow> 'd hpm_app" where
  "hpm_mgr_process acc mg A = (case hpm_mgr_status A of
     HPM_MGR_STATUS_INIT \<Rightarrow> hpm_mgr_in_init acc mg A
   | HPM_MGR_STATUS_IDLE \<Rightarrow> hpm_mgr_in_idle acc mg A
   | HPM_MGR_STATUS_RUNNING \<Rightarrow> hpm_mgr_in_running acc mg A
   | HPM_MGR_STATUS_WAIT_STOP \<Rightarrow> hpm_mgr_in_wait_stop acc A
   | HPM_MGR_STATUS_STOPPED \<Rightarrow> hpm_mgr_in_stopped acc A)"

section \<open>The round of the application\<close>

definition HPM_APP_CYCLE_INTV :: u32 where "HPM_APP_CYCLE_INTV = 100"

record hpm_round_env =
  rd_env :: hpm_env
  rd_control :: control_env
  rd_socket :: socket_env
  rd_mgr :: mgr_env

definition flash_upkeep :: "'d flash_drivers \<Rightarrow> 'd hpm \<Rightarrow> 'd hpm" where
  "flash_upkeep drv S = S\<lparr>se_store := (se_store S)\<lparr>store_flash := hpm_flash_period drv (store_flash (se_store S))\<rparr>\<rparr>"

text \<open>What is done once a second, of the parts that are modelled.\<close>

definition every_second :: "'d flash_drivers \<Rightarrow> hpm_round_env \<Rightarrow> 'd hpm_app \<Rightarrow> 'd hpm_app" where
  "every_second drv ev A = upd_hpm (flash_upkeep drv) (upd_hpm (hpm_socket_process (rd_socket ev))
     (hpm_mgr_process (en_acc (rd_env ev)) (rd_mgr ev) A))"

definition round_front :: "'d flash_drivers \<Rightarrow> hpm_round_env \<Rightarrow> 'd hpm_app \<Rightarrow> 'd hpm_app option" where
  "round_front drv ev A = (let
     A = A\<lparr>hpm_timer_ticks := hpm_timer_ticks A + 1\<rparr>;
     A = (if HPM_APP_CYCLE_INTV * hpm_timer_ticks A \<ge> 1000 then every_second drv ev (A\<lparr>hpm_timer_ticks := 0\<rparr>) else A) in do {
     S \<leftarrow> hpm_dev_process drv (rd_env ev) (ap_hpm A);
     Some (A\<lparr>ap_hpm := S\<rparr>)
   })"

definition hpm_handle_timer_event :: "'d flash_drivers \<Rightarrow> hpm_round_env \<Rightarrow> 'd hpm_app \<Rightarrow> 'd hpm_app option" where
  "hpm_handle_timer_event drv ev A = do {
     A \<leftarrow> round_front drv ev A;
     S \<leftarrow> hpm_session_process drv (rd_env ev) (rd_control ev) (ap_hpm A);
     Some (A\<lparr>ap_hpm := S\<rparr>)
   }"

definition hpm_init :: "'d flash_drivers \<Rightarrow> u32 option \<Rightarrow> (nat \<Rightarrow> u32 option) \<Rightarrow> hpm_device \<Rightarrow> u8 \<Rightarrow> 'd hpm_app \<Rightarrow> 'd hpm_app option" where
  "hpm_init drv sd_id nor_ids dv seq A = (let
     A = (if seq = 0 then A\<lparr>hpm_timer_ticks := 0\<rparr> else A);
     S = ap_hpm A;
     S = (if seq = 2 then S\<lparr>se_store := (se_store S)\<lparr>store_flash := hpm_flash_init drv sd_id nor_ids (store_flash (se_store S))\<rparr>\<rparr> else S);
     A = hpm_mgr_init seq (A\<lparr>ap_hpm := S\<rparr>) in do {
     S \<leftarrow> hpm_session_init dv seq (hpm_socket_init seq (ap_hpm A));
     Some (A\<lparr>ap_hpm := hpm_dev_init seq (S\<lparr>se_recv := hpm_data_recv_init seq (se_recv S)\<rparr>)\<rparr>)
   })"

definition hpm_stop :: "'d flash_drivers \<Rightarrow> (nat \<Rightarrow> bool) \<Rightarrow> 'd hpm_app \<Rightarrow> 'd hpm_app option" where
  "hpm_stop drv mem A = do {
     S \<leftarrow> hpm_session_sleep drv mem (ap_hpm A);
     let S = hpm_dev_sleep S;
     Some (A\<lparr>ap_hpm := S\<lparr>se_store := (se_store S)\<lparr>store_flash := hpm_flash_sleep drv (store_flash (se_store S))\<rparr>\<rparr>\<rparr>)
   }"

definition hpm_start :: "hpm_env \<Rightarrow> 'd hpm_app \<Rightarrow> 'd hpm_app option" where
  "hpm_start env A = (let A = hpm_mgr_wakeup (A\<lparr>hpm_timer_ticks := 0\<rparr>) in do {
     S \<leftarrow> hpm_session_wake (ap_hpm A);
     Some (A\<lparr>ap_hpm := hpm_dev_wakeup env S\<rparr>)
   })"

definition hpm_can_be_stop :: "'d hpm_app \<Rightarrow> bool" where
  "hpm_can_be_stop A = hpm_mgr_allow_sleep A"

end
