(* ===== verification/HpmRoundInv.thy ===== *)
theory HpmRoundInv imports HpmSessionInv HpmApp begin

text \<open>
  The rounds of the application: what a round adds to the reports that are kept, and what it may take away.
\<close>

section \<open>New reports\<close>

definition taken_if :: "bool \<Rightarrow> u8 list option \<Rightarrow> u8 list multiset" where
  "taken_if room b = (case b of None \<Rightarrow> {#} | Some bs \<Rightarrow> if room \<and> bs \<noteq> [] then {#bs#} else {#})"

definition small_report :: "u8 list option \<Rightarrow> bool" where
  "small_report b \<longleftrightarrow> (case b of None \<Rightarrow> True | Some bs \<Rightarrow> length bs \<le> 996)"

text \<open>The report that is there when one is made, unless it finds no place.\<close>

definition report_taken :: "hpm_env \<Rightarrow> 'd hpm \<Rightarrow> u8 list multiset" where
  "report_taken env S = taken_if (can_keep (en_save_mem env) (se_store S)) (en_new_report env)"

lemma dev_report_law:
  assumes ok: "session_ok drv page clean S L fl M" and room: "length fl < 16381" and bs: "small_report (en_new_report env)"
  shows "\<exists>S' L' fl'. hpm_dev_report drv env S = Some S' \<and> session_ok drv page clean S' L' fl' (M + report_taken env S) \<and>
    length fl' \<le> length fl + 1 \<and> same_session S S'"
proof (cases "en_new_report env = None \<or> en_new_report env = Some []")
  case True
  then have "hpm_dev_report drv env S = Some S" "report_taken env S = {#}" by (auto simp: hpm_dev_report_def report_taken_def taken_if_def)
  moreover have "same_session S S" unfolding same_session_def by (rule exI [of _ "se_store S"]) simp
  ultimately show ?thesis using ok by (intro exI [of _ S] exI [of _ L] exI [of _ fl]) simp
next
  case False
  then obtain bs where b: "en_new_report env = Some bs" "bs \<noteq> []" by (cases "en_new_report env") auto
  have hold: "holds_reports drv page clean (se_store S) L fl M" using ok by (simp add: session_ok_def)
  define a where "a = can_keep (en_save_mem env) (se_store S)"
  obtain D' L' fl' where s: "hpm_data_save_to_realtm_list drv (en_save_mem env) HPM_CMD_LIVE_DATA (Some bs) (of_nat (length bs)) (se_store S) = Some (D', a)"
      "holds_reports drv page clean D' L' fl' (if a then add_mset bs M else M)" "length fl' \<le> length fl + 1"
    using save_new_law [OF hold room, of bs HPM_CMD_LIVE_DATA "en_save_mem env"] assms(3) b(1)
    by (auto simp: small_report_def HPM_CMD_LIVE_DATA_def a_def)
  have "report_taken env S = (if a then {#bs#} else {#})" using b by (simp add: report_taken_def taken_if_def a_def)
  then have "session_ok drv page clean (S\<lparr>se_store := D'\<rparr>) L' fl' (M + report_taken env S)"
    using ok s(2) by (auto simp: session_ok_def split: if_splits)
  then show ?thesis using b s(1,3)
    by (intro exI [of _ "S\<lparr>se_store := D'\<rparr>"] exI [of _ L'] exI [of _ fl'])
      (auto simp: hpm_dev_report_def with_store_def same_session_def)
qed

text \<open>The session, the connection and what was received are as before.\<close>

definition quiet :: "'d hpm \<Rightarrow> 'd hpm \<Rightarrow> bool" where
  "quiet S S' \<longleftrightarrow> hpm_session_step S' = hpm_session_step S \<and> se_recv S' = se_recv S \<and> hpm_session_run_status S' = hpm_session_run_status S \<and>
     hpm_socket_info S' = hpm_socket_info S"

lemma quiet_refl [simp]: "quiet S S" by (simp add: quiet_def)

lemma quiet_same: "same_session S S' \<Longrightarrow> quiet S S'" by (auto simp: same_session_def quiet_def)

text \<open>What a part of a round does: the new reports \<open>N\<close> come, none goes.\<close>

definition only_adds :: "'d flash_drivers \<Rightarrow> ('d \<Rightarrow> nat \<Rightarrow> u8 list) \<Rightarrow> ('d \<Rightarrow> nat \<Rightarrow> bool) \<Rightarrow> 'd hpm option \<Rightarrow> u8 list multiset \<Rightarrow> flash_packet list \<Rightarrow>
    u8 list multiset \<Rightarrow> ('d hpm \<Rightarrow> bool) \<Rightarrow> bool" where
  "only_adds drv page clean r N fl M P \<longleftrightarrow> (\<exists>S' L' fl'. r = Some S' \<and> session_ok drv page clean S' L' fl' (M + N) \<and> length fl' \<le> length fl + 1 \<and> P S')"

lemma only_adds_none: "session_ok drv page clean S L fl M \<Longrightarrow> P S \<Longrightarrow> only_adds drv page clean (Some S) {#} fl M P"
  unfolding only_adds_def by (rule exI [of _ S], rule exI [of _ L], rule exI [of _ fl]) simp

lemma handle_event_law:
  assumes ok: "session_ok drv page clean S L fl M" and room: "length fl < 16381" and bs: "small_report (en_new_report env)"
  shows "only_adds drv page clean (hpm_dev_handle_event drv env S) (report_taken env S) fl M (quiet S)"
proof -
  have "session_ok drv page clean (S\<lparr>hpm_dev_tick := en_ms env\<rparr>) L fl M" by (rule beside_ok [OF ok]) simp
  moreover have "report_taken env (S\<lparr>hpm_dev_tick := en_ms env\<rparr>) = report_taken env S" by (simp add: report_taken_def)
  ultimately show ?thesis using dev_report_law [OF _ room bs, of drv page clean "S\<lparr>hpm_dev_tick := en_ms env\<rparr>" L M]
    unfolding only_adds_def hpm_dev_handle_event_def quiet_def same_session_def by fastforce
qed

lemma event_then_law:
  assumes "session_ok drv page clean S L fl M" and "length fl < 16381" and "small_report (en_new_report env)"
  shows "only_adds drv page clean (dev_event_then drv env st S) (report_taken env S) fl M (quiet S)"
proof -
  obtain S' L' fl' where s: "hpm_dev_handle_event drv env S = Some S'" "session_ok drv page clean S' L' fl' (M + report_taken env S)"
      "length fl' \<le> length fl + 1" "quiet S S'"
    using handle_event_law [OF assms] unfolding only_adds_def by blast
  have "session_ok drv page clean (hpm_dev_status_set st S') L' fl' (M + report_taken env S)"
    by (rule beside_ok [OF s(2)]) (simp add: hpm_dev_status_set_def)
  then show ?thesis using s unfolding only_adds_def dev_event_then_def
    by (intro exI [of _ "hpm_dev_status_set st S'"] exI [of _ L'] exI [of _ fl']) (simp add: quiet_def hpm_dev_status_set_def)
qed

text \<open>When the device makes a report by itself, and what then is new.\<close>

definition dev_event :: "hpm_env \<Rightarrow> 'd hpm \<Rightarrow> bool" where
  "dev_event env S \<longleftrightarrow> (case hpm_dev_status S of
     HPM_DEV_STATUS_INIT \<Rightarrow> False
   | HPM_DEV_STATUS_ACCON \<Rightarrow> en_acc env \<and> dev_waited env S
   | HPM_DEV_STATUS_ACCOFF \<Rightarrow> \<not> en_acc env \<and> dev_waited env S
   | HPM_DEV_STATUS_IDLE \<Rightarrow> \<not> en_acc env \<or> en_ms env - hpm_dev_tick S + 50 \<ge> en_interval env * 1000
   | HPM_DEV_STATUS_WAKEUP \<Rightarrow> \<not> en_acc env \<and> dev_waited env S)"

definition dev_taken :: "hpm_env \<Rightarrow> 'd hpm \<Rightarrow> u8 list multiset" where
  "dev_taken env S = (if dev_event env S then report_taken env S else {#})"

lemma dev_process_law:
  assumes ok: "session_ok drv page clean S L fl M" and "length fl < 16381" and "small_report (en_new_report env)"
  shows "only_adds drv page clean (hpm_dev_process drv env S) (dev_taken env S) fl M (quiet S)"
proof -
  note e = event_then_law [OF assms] handle_event_law [OF assms]
  have "session_ok drv page clean (hpm_dev_status_set st S) L fl M" for st by (rule beside_ok [OF ok]) (simp add: hpm_dev_status_set_def)
  moreover have "quiet S (hpm_dev_status_set st S)" for st by (simp add: quiet_def hpm_dev_status_set_def)
  ultimately have set: "only_adds drv page clean (Some (hpm_dev_status_set st S)) {#} fl M (quiet S)" for st
    by (rule only_adds_none)
  have init: "only_adds drv page clean (Some (hpm_dev_handle_init env S)) {#} fl M (quiet S)"
    by (rule only_adds_none [OF beside_ok [OF ok]]) (simp_all add: hpm_dev_handle_init_def hpm_dev_status_set_def quiet_def Let_def)
  show ?thesis
    by (cases "hpm_dev_status S") (simp_all add: hpm_dev_process_def init hpm_dev_handle_accon_def hpm_dev_handle_accoff_def hpm_dev_handle_idle_def
        hpm_dev_handle_wakeup_def set e only_adds_none [OF ok] dev_taken_def dev_event_def)
qed

section \<open>Commands\<close>

text \<open>The memory of a response, and answers that fit into it. No update is started: what that command reads is not bounded.\<close>

definition control_ok :: "control_env \<Rightarrow> bool" where
  "control_ok ce \<longleftrightarrow> ce_upgrading ce \<and> small_report (ce_report ce) \<and> (\<forall>buf. ce_buf ce = Some buf \<longrightarrow> 1024 \<le> length buf) \<and>
     (\<forall>d n. length (snd (ce_get ce d n)) \<le> 507 \<and> length (snd (ce_set ce d n)) \<le> 507 \<and> length (snd (ce_file ce d n)) \<le> 507)"

lemma send_resp_total:
  assumes "device_ok (en_device env)" and "\<forall>buf. ce_buf ce = Some buf \<longrightarrow> 1024 \<le> length buf" and n: "unat n \<le> length res" "unat n \<le> 512"
  shows "\<exists>S'. hpm_control_send_resp env ce res n S = Some S' \<and> beside S S' \<and> (quiet S S' \<or> hpm_session_step S' = HPM_SESSION_STEP_INIT)"
proof (cases "ce_buf ce")
  case (Some buf)
  have buf: "1024 \<le> length buf" using assms(2) Some by blast
  have dv: "imei_ok (en_device env)" using assms(1) by (simp add: device_ok_def)
  obtain buf' where p: "hpm_pack_common_resp (en_device env) buf res n = Some (buf', 28 + unat n)" "length buf' = length buf"
    using pack_law [OF dv n(1), of buf HPM_CMD_TBOX_COMMON_ACK] device_code_length [OF dv] n(2) buf
    by (simp add: hpm_pack_common_resp_def hpm_frame_length)
  have send: "hpm_net_send b buf' (28 + unat n) S =
      Some (if b then (S\<lparr>sent := sent S @ [take (28 + unat n) buf']\<rparr>, True) else (S, False))" for b
    by (rule net_send_total) (use n p(2) buf in simp_all)
  show ?thesis using Some p(1) beside_socket_stop [of S S]
    by (cases "ce_send ce") (simp_all add: hpm_control_send_resp_def send quiet_def hpm_socket_force_stop_def hpm_session_force_stop_def
        hpm_session_step_set_def Let_def)
qed (simp add: hpm_control_send_resp_def)

lemma control_answer_law:
  assumes ok: "session_ok drv page clean S L fl M" and room: "length fl < 16381" and ce: "control_ok ce"
  shows "\<exists>ans. only_adds drv page clean (map_option fst (control_answer drv env ce info data S))
      (if ct_cmd_sub info = HPM_CTRL_DATA_REQ then report_taken (env\<lparr>en_new_report := ce_report ce\<rparr>) S else {#}) fl M (quiet S) \<and>
    map_option snd (control_answer drv env ce info data S) = Some ans \<and> (\<forall>b body. ans = Some (b, body) \<longrightarrow> length body \<le> 507)"
proof -
  have same: "only_adds drv page clean (Some S) {#} fl M (quiet S)" by (rule only_adds_none [OF ok]) simp
  have new: "only_adds drv page clean (hpm_dev_handle_event drv (env\<lparr>en_new_report := ce_report ce\<rparr>) S)
      (report_taken (env\<lparr>en_new_report := ce_report ce\<rparr>) S) fl M (quiet S)"
    using handle_event_law [OF ok room, of "env\<lparr>en_new_report := ce_report ce\<rparr>"] ce by (simp add: control_ok_def)
  have up: "hpm_control_upgrade ce data (ct_len info) info = Some (None, False)" using ce by (simp add: hpm_control_upgrade_def control_ok_def)
  have len: "length (snd (ce_get ce d n)) \<le> 507" "length (snd (ce_set ce d n)) \<le> 507" "length (snd (ce_file ce d n)) \<le> 507" for d n
    using ce by (simp_all add: control_ok_def)
  show ?thesis
  proof (cases "ct_cmd_sub info = HPM_CTRL_DATA_REQ")
    case True
    then show ?thesis using new by (auto simp: control_answer_def only_adds_def; blast)
  next
    case False
    have l: "p = (b, body) \<Longrightarrow> length (snd p) \<le> 507 \<Longrightarrow> length body \<le> 507" for p :: "bool \<times> u8 list" and b body by simp
    show ?thesis using False same up l [OF _ len(1)] l [OF _ len(2)] l [OF _ len(3)] by (simp add: control_answer_def Let_def)
  qed
qed

text \<open>The report the server asks for by a command, if the command is that.\<close>

definition command_taken :: "hpm_env \<Rightarrow> control_env \<Rightarrow> u8 \<Rightarrow> u8 list \<Rightarrow> 'd hpm \<Rightarrow> u8 list multiset" where
  "command_taken env ce cmd data S = (if cmd = HPM_CMD_CONTROL \<and> data ! 8 = HPM_CTRL_DATA_REQ
     then report_taken (env\<lparr>en_new_report := ce_report ce\<rparr>) S else {#})"

lemma cmd_handle_law:
  assumes ok: "session_ok drv page clean S L fl M" and room: "length fl < 16381" and ce: "control_ok ce" and env: "env_ok env" and data: "length data = 512"
  shows "only_adds drv page clean (hpm_control_cmd_handle drv env ce cmd data S) (command_taken env ce cmd data S) fl M
    (\<lambda>S'. quiet S S' \<or> hpm_session_step S' = HPM_SESSION_STEP_INIT)"
proof (cases "cmd = HPM_CMD_CONTROL")
  case False
  have "only_adds drv page clean (Some S) {#} fl M (\<lambda>S'. quiet S S' \<or> hpm_session_step S' = HPM_SESSION_STEP_INIT)"
    by (rule only_adds_none [OF ok]) simp
  then show ?thesis using False by (simp add: hpm_control_cmd_handle_def command_taken_def)
next
  case True
  let ?N = "command_taken env ce cmd data S"
  define info where "info = \<lparr>ct_seq = push_bit 8 (ucast (data ! 6)) OR ucast (data ! (6 + 1)), ct_cmd = cmd, ct_cmd_sub = data ! 8,
    ct_len = push_bit 8 (ucast (data ! 9)) OR ucast (data ! (9 + 1))\<rparr>"
  have N: "(if ct_cmd_sub info = HPM_CTRL_DATA_REQ then report_taken (env\<lparr>en_new_report := ce_report ce\<rparr>) S else {#}) = ?N"
    using True by (simp add: command_taken_def info_def)
  obtain S1 ans L1 fl1 where a: "control_answer drv env ce info (drop 11 data) S = Some (S1, ans)" "session_ok drv page clean S1 L1 fl1 (M + ?N)"
      "length fl1 \<le> length fl + 1" "quiet S S1" "\<forall>b body. ans = Some (b, body) \<longrightarrow> length body \<le> 507"
    using control_answer_law [OF ok room ce, of env info "drop 11 data"] unfolding only_adds_def N by fastforce
  have handle: "hpm_control_cmd_handle drv env ce cmd data S = (case ans of None \<Rightarrow> Some S1 | Some (ok, body) \<Rightarrow> do {
           res \<leftarrow> put_at HPM_CTROL_RES_POS body (replicate HPM_CTROL_RES_LEN 0);
           res \<leftarrow> put_at 0 [ucast (drop_bit 8 (ct_seq info)), ucast (ct_seq info), ct_cmd info, ct_cmd_sub info,
             if ok then HPM_CTRL_RES_OK else HPM_CTRL_RES_NG] res;
           hpm_control_send_resp env ce res (5 + of_nat (length body)) S1
         })"
    unfolding hpm_control_cmd_handle_def Let_def info_def [symmetric] using True data a(1) by (simp add: HPM_CTROL_TIME_LEN_def)
  have "\<exists>S'. hpm_control_cmd_handle drv env ce cmd data S = Some S' \<and> beside S1 S' \<and> (quiet S1 S' \<or> hpm_session_step S' = HPM_SESSION_STEP_INIT)"
  proof (cases ans)
    case None
    then show ?thesis by (simp add: handle)
  next
    case (Some p)
    obtain b body where p: "ans = Some (b, body)" "length body \<le> 507" using Some a(5) by (cases p) auto
    have n: "unat (5 + of_nat (length body) :: u16) = 5 + length body" using p(2) by (simp add: unat_plus_if_fits unat_of_nat)
    obtain r1 where r1: "put_at HPM_CTROL_RES_POS body (replicate HPM_CTROL_RES_LEN 0) = Some r1" "length r1 = 512"
      using put_at_total [of HPM_CTROL_RES_POS body "replicate HPM_CTROL_RES_LEN 0"] p(2) by (auto simp: HPM_CTROL_RES_POS_def HPM_CTROL_RES_LEN_def)
    obtain r2 where r2: "put_at 0 [ucast (drop_bit 8 (ct_seq info)), ucast (ct_seq info), ct_cmd info, ct_cmd_sub info,
             if b then HPM_CTRL_RES_OK else HPM_CTRL_RES_NG] r1 = Some r2" "length r2 = 512"
      using put_at_total [of 0 "[ucast (drop_bit 8 (ct_seq info)), ucast (ct_seq info), ct_cmd info, ct_cmd_sub info,
             if b then HPM_CTRL_RES_OK else HPM_CTRL_RES_NG]" r1] r1(2) by auto
    show ?thesis using send_resp_total [of env ce "5 + of_nat (length body)" r2 S1] env ce n p(2) r2(2)
      by (simp add: handle p(1) r1(1) r2(1) env_ok_def control_ok_def)
  qed
  then obtain S' where s: "hpm_control_cmd_handle drv env ce cmd data S = Some S'" "beside S1 S'" "quiet S1 S' \<or> hpm_session_step S' = HPM_SESSION_STEP_INIT"
    by blast
  show ?thesis using s(1,3) a(3,4) beside_ok [OF a(2) s(2)] unfolding only_adds_def quiet_def by (metis (no_types, lifting))
qed

section \<open>A round of the session\<close>

text \<open>What the reception sees in this round, while the session is open: the server says that a command succeeded.\<close>

definition server_confirms :: "hpm_env \<Rightarrow> 'd hpm \<Rightarrow> bool" where
  "server_confirms env S \<longleftrightarrow> \<not> en_downloading env \<and> hpm_session_step S = HPM_SESSION_STEP_SESSION \<and>
     (case hpm_data_recv_process (en_recv_buf env) (se_recv S) of None \<Rightarrow> False
      | Some R \<Rightarrow> rc_cmd (recv_info R) = HPM_CMD_TSP_COMMON_ACK \<and> resp_result (recv_info R) = HPM_RECV_RESP_SUCCESS)"

text \<open>The report the server asks for in this round, if it does.\<close>

definition asked_taken :: "hpm_env \<Rightarrow> control_env \<Rightarrow> 'd hpm \<Rightarrow> u8 list multiset" where
  "asked_taken env ce S = (if en_downloading env then {#}
     else case hpm_data_recv_process (en_recv_buf env) (se_recv S) of None \<Rightarrow> {#}
       | Some R \<Rightarrow> (case new_command (se_recv S) R of None \<Rightarrow> {#} | Some (cmd, data, len) \<Rightarrow> command_taken env ce cmd data S))"

lemma session_process_law:
  assumes ok: "session_ok drv page clean S L fl M" and room: "length fl < 16381" and ce: "control_ok ce" and env: "env_ok env"
  shows "\<exists>S' L' fl' M'. hpm_session_process drv env ce S = Some S' \<and> session_ok drv page clean S' L' fl' M' \<and> length fl' \<le> length fl + 1 \<and>
    (M' = M + asked_taken env ce S \<or> server_confirms env S \<and> released (M + asked_taken env ce S) M')"
proof (cases "en_downloading env")
  case True
  then show ?thesis using ok
    by (intro exI [of _ S] exI [of _ L] exI [of _ fl] exI [of _ M]) (simp add: hpm_session_process_def asked_taken_def)
next
  case False
  let ?N = "asked_taken env ce S"
  have "recv_ok_state (se_recv S)" using ok by (simp add: session_ok_def)
  from recv_process_total [OF this, of "en_recv_buf env"] obtain R where R: "hpm_data_recv_process (en_recv_buf env) (se_recv S) = Some R"
      "recv_ok_state R" "\<And>cmd data len. new_command (se_recv S) R = Some (cmd, data, len) \<Longrightarrow> length data = 512"
    using env unfolding env_ok_def by blast
  let ?S = "S\<lparr>se_recv := R\<rparr>"
  let ?r = "case new_command (se_recv S) R of None \<Rightarrow> Some ?S | Some (cmd, data, len) \<Rightarrow> hpm_control_cmd_handle drv env ce cmd data ?S"
  let ?P = "\<lambda>S'. quiet ?S S' \<or> hpm_session_step S' = HPM_SESSION_STEP_INIT"
  have S: "session_ok drv page clean ?S L fl M" using ok R(2) by (simp add: session_ok_def)
  have same: "command_taken env ce cmd data ?S = command_taken env ce cmd data S" for cmd data
    by (simp add: command_taken_def report_taken_def)
  have "only_adds drv page clean ?r ?N fl M ?P"
  proof (cases "new_command (se_recv S) R")
    case None
    then have "?N = {#}" "?r = Some ?S" using False R(1) by (simp_all add: asked_taken_def)
    moreover have "only_adds drv page clean (Some ?S) {#} fl M ?P" by (rule only_adds_none [OF S]) simp
    ultimately show ?thesis by metis
  next
    case (Some c)
    obtain cmd data len where c: "c = (cmd, data, len)" by (cases c)
    have "?N = command_taken env ce cmd data ?S" "?r = hpm_control_cmd_handle drv env ce cmd data ?S"
      using False R(1) Some c by (simp_all add: asked_taken_def same)
    then show ?thesis using cmd_handle_law [OF S room ce env R(3) [OF Some [unfolded c]], of cmd] by metis
  qed
  then obtain S1 L1 fl1 where s1: "?r = Some S1" "session_ok drv page clean S1 L1 fl1 (M + ?N)"
      "length fl1 \<le> length fl + 1" "quiet ?S S1 \<or> hpm_session_step S1 = HPM_SESSION_STEP_INIT"
    unfolding only_adds_def by blast
  obtain S' L' fl' M' where s: "session_steps drv env S1 = Some S'" "session_ok drv page clean S' L' fl' M'" "length fl' \<le> length fl1"
      "M' = M + ?N \<or> confirmed S1 \<and> released (M + ?N) M'"
    using steps_law [OF s1(2) env] by blast
  have run: "hpm_session_process drv env ce S = Some S'"
    using False R(1) s1(1) s(1) by (simp add: hpm_session_process_def)
  have "confirmed S1 \<Longrightarrow> server_confirms env S"
    using s1(4) R(1) False by (auto simp: confirmed_def server_confirms_def quiet_def recv_ack_def recv_ok_def)
  then show ?thesis using run s(2-4) s1(3)
    by (intro exI [of _ S'] exI [of _ L'] exI [of _ fl'] exI [of _ M']) auto
qed

section \<open>The upkeep of the flash\<close>

text \<open>The place where the positions are kept is apart from the packets.\<close>

definition info_apart :: "'d flash_drivers \<Rightarrow> ('d \<Rightarrow> nat \<Rightarrow> u8 list) \<Rightarrow> ('d \<Rightarrow> nat \<Rightarrow> bool) \<Rightarrow> bool" where
  "info_apart drv page clean \<longleftrightarrow> (\<forall>dv \<in> set (hpm_flash_ops drv). \<forall>d i. i < 16384 \<longrightarrow>
     page (fst (op_erase dv FLASH_ADDR_HPM_MGR 1 d)) i = page d i \<and> clean (fst (op_erase dv FLASH_ADDR_HPM_MGR 1 d)) i = clean d i \<and>
     (\<forall>bs. page (fst (op_write dv FLASH_ADDR_HPM_MGR bs d)) i = page d i \<and> clean (fst (op_write dv FLASH_ADDR_HPM_MGR bs d)) i = clean d i))"

lemma flash_ok_cong:
  assumes "flash_ok drv page clean F fl" and "mgrinfo F' = mgrinfo F" and "flash_adapter F' = flash_adapter F"
    and "\<And>i. i < 16384 \<Longrightarrow> page (flash_dev F') i = page (flash_dev F) i \<and> clean (flash_dev F') i = clean (flash_dev F) i"
  shows "flash_ok drv page clean F' fl"
proof -
  have st: "stored page clean F fl" using assms(1) by (simp add: flash_ok_def)
  have w: "page_no (write_pos (mgrinfo F)) < 16384" using page_no_parts(1) storedD(3) [OF st] by blast
  have j: "j < 16384" if "j div 4 = page_no (write_pos (mgrinfo F)) div 4" for j using w that [symmetric] div_less_iff_less_mult [of 4 j 4096] div_less_iff_less_mult [of 4 "page_no (write_pos (mgrinfo F))" 4096] by simp
  have p: "page (flash_dev F') (x mod 16384) = page (flash_dev F) (x mod 16384)" for x using assms(4) by simp
  have c: "(\<forall>j. w \<le> j \<longrightarrow> j div 4 = page_no (write_pos (mgrinfo F)) div 4 \<longrightarrow> clean (flash_dev F') j) \<longleftrightarrow>
      (\<forall>j. w \<le> j \<longrightarrow> j div 4 = page_no (write_pos (mgrinfo F)) div 4 \<longrightarrow> clean (flash_dev F) j)" for w
    using assms(4) j by blast
  have "stored page clean F' fl" using st unfolding stored_def Let_def assms(2,3) p c .
  then show ?thesis using assms(1,3) by (simp add: flash_ok_def driver_of_def)
qed

lemma save_mgrinfo_law:
  assumes ok: "flash_ok drv page clean F fl" and apart: "info_apart drv page clean"
  shows "flash_ok drv page clean (fst (hpm_flash_save_mgrinfo drv F)) fl \<and> mgrinfo (fst (hpm_flash_save_mgrinfo drv F)) = mgrinfo F"
proof -
  have t: "fa_type (flash_adapter F) < HPM_FLASH_ADAPTER_TYPE_MAX" using ok storedD(1) by (auto simp: flash_ok_def)
  have dv: "driver_of drv F \<in> set (hpm_flash_ops drv)"
    unfolding driver_of_def by (rule nth_mem) (use t in \<open>simp add: hpm_flash_ops_def HPM_FLASH_ADAPTER_TYPE_MAX_def word_less_nat_alt\<close>)
  obtain d b where e: "op_erase (driver_of drv F) FLASH_ADDR_HPM_MGR 1 (flash_dev F) = (d, b)" by fastforce
  obtain d' b' where w: "op_write (driver_of drv F) FLASH_ADDR_HPM_MGR (mgr_bytes (mgrinfo F)) d = (d', b')" by fastforce
  have p: "page d i = page (flash_dev F) i \<and> clean d i = clean (flash_dev F) i \<and> page d' i = page d i \<and> clean d' i = clean d i" if "i < 16384" for i
    using apart dv e w that unfolding info_apart_def by (metis fst_conv)
  have d: "driver_of drv (F\<lparr>flash_dev := d\<rparr>) = driver_of drv F" by (simp add: driver_of_def)
  have "fst (hpm_flash_save_mgrinfo drv F) = F\<lparr>flash_dev := if b then d' else d\<rparr>"
    using t e w d by (simp add: hpm_flash_save_mgrinfo_def adapter_simps apfst_def)
  then show ?thesis using flash_ok_cong [OF ok, of "F\<lparr>flash_dev := if b then d' else d\<rparr>"] p by simp
qed

lemma flash_upkeep_law:
  assumes ok: "session_ok drv page clean S L fl M" and apart: "info_apart drv page clean"
  shows "session_ok drv page clean (flash_upkeep drv S) L fl M"
proof -
  let ?F = "store_flash (se_store S)"
  have F: "flash_ok drv page clean ?F fl" using ok by (simp add: session_ok_def holds_reports_def)
  have cong: "flash_ok drv page clean F' fl" if "mgrinfo F' = mgrinfo F" "flash_adapter F' = flash_adapter F" "flash_dev F' = flash_dev F"
      "flash_ok drv page clean F fl" for F F'
    by (rule flash_ok_cong [OF that(4,1,2)]) (simp add: that(3))
  have "flash_ok drv page clean (hpm_flash_period drv ?F) fl"
  proof (cases "flash_write_flag ?F = 1")
    case True
    obtain F1 b where s: "hpm_flash_save_mgrinfo drv ?F = (F1, b)" by fastforce
    have "flash_ok drv page clean F1 fl" using save_mgrinfo_law [OF F apart] s by simp
    then show ?thesis using True s cong [of _ F1] by (simp add: hpm_flash_period_def)
  next
    case False
    then show ?thesis by (intro cong [OF _ _ _ F]) (simp_all add: hpm_flash_period_def Let_def)
  qed
  then show ?thesis using ok by (simp add: session_ok_def holds_reports_def store_ok_def flash_upkeep_def)
qed

section \<open>A round of the application\<close>

lemma beside_parts [simp]:
  "beside S (upd_socket f S') = beside S S'" "beside S (set_socket_status st S') = beside S S'" "beside S (tick_down S') = beside S S'"
  "beside S (other_address S') = beside S S'" "beside S (hpm_session_start S') = beside S S'" "beside S (hpm_session_stop S') = beside S S'"
  "beside S (hpm_socket_start S') = beside S S'" "beside S (hpm_socket_stop S') = beside S S'"
  by (simp_all add: upd_socket_def set_socket_status_def tick_down_def other_address_def hpm_session_start_def hpm_session_stop_def hpm_socket_start_def
      hpm_socket_stop_def)

lemma beside_clear: "beside S S' \<Longrightarrow> beside S (clear_reception S')"
  by (simp add: clear_reception_def beside_def clear_ok)

lemma beside_connect: "beside S S' \<Longrightarrow> beside S (begin_connect sk S')"
  by (simp add: begin_connect_def hpm_socket_connect_server_def split: option.split prod.split)

lemma beside_connection: "beside S (hpm_socket_process sk S)"
proof -
  have "beside S (hpm_socket_handle_idle S)" "beside S (hpm_socket_handle_connecting sk S)" "beside S (hpm_socket_handle_closing sk S)"
    by (simp_all add: hpm_socket_handle_idle_def hpm_socket_handle_connecting_def hpm_socket_handle_closing_def Let_def)
  moreover have "beside S (hpm_socket_handle_wait_dial sk S)"
    by (simp add: hpm_socket_handle_wait_dial_def beside_force_stop beside_connect Let_def)
  moreover have "beside S (hpm_socket_handle_connected sk S)" "beside S (hpm_socket_handle_stopping S)"
    by (simp_all add: hpm_socket_handle_connected_def hpm_socket_handle_stopping_def beside_force_stop beside_clear Let_def)
  moreover have "beside S (hpm_socket_handle_closed S)"
    by (simp add: hpm_socket_handle_closed_def beside_force_stop)
  ultimately show ?thesis by (cases "so_status (hpm_socket_info S)") (simp_all add: hpm_socket_process_def)
qed

lemma beside_manager: "beside (ap_hpm A) (ap_hpm (hpm_mgr_process acc mg A))"
  by (cases "hpm_mgr_status A")
    (simp_all add: hpm_mgr_process_def hpm_mgr_in_init_def hpm_mgr_in_idle_def hpm_mgr_in_running_def hpm_mgr_in_wait_stop_def
      hpm_mgr_in_stopped_def mgr_start_def upd_hpm_def beside_socket_stop Let_def)

text \<open>What is known of the surroundings of a round.\<close>

definition round_ok :: "hpm_round_env \<Rightarrow> bool" where
  "round_ok ev \<longleftrightarrow> env_ok (rd_env ev) \<and> small_report (en_new_report (rd_env ev)) \<and> control_ok (rd_control ev)"

text \<open>The state after the clock of the round; every tenth round it is a second later.\<close>

definition clocked :: "'d flash_drivers \<Rightarrow> hpm_round_env \<Rightarrow> 'd hpm_app \<Rightarrow> 'd hpm_app" where
  "clocked drv ev A = (let A = A\<lparr>hpm_timer_ticks := hpm_timer_ticks A + 1\<rparr> in
     if HPM_APP_CYCLE_INTV * hpm_timer_ticks A \<ge> 1000 then every_second drv ev (A\<lparr>hpm_timer_ticks := 0\<rparr>) else A)"

lemma front_clocked: "round_front drv ev A = do {
    S \<leftarrow> hpm_dev_process drv (rd_env ev) (ap_hpm (clocked drv ev A)); Some ((clocked drv ev A)\<lparr>ap_hpm := S\<rparr>) }"
  by (simp add: round_front_def clocked_def Let_def)

text \<open>The reports that are new in a round: the one the device makes and the one the server asks for, each unless it finds no place.\<close>

definition round_taken :: "'d flash_drivers \<Rightarrow> hpm_round_env \<Rightarrow> 'd hpm_app \<Rightarrow> u8 list multiset" where
  "round_taken drv ev A = dev_taken (rd_env ev) (ap_hpm (clocked drv ev A)) +
     (case round_front drv ev A of None \<Rightarrow> {#} | Some A' \<Rightarrow> asked_taken (rd_env ev) (rd_control ev) (ap_hpm A'))"

definition round_confirms :: "'d flash_drivers \<Rightarrow> hpm_round_env \<Rightarrow> 'd hpm_app \<Rightarrow> bool" where
  "round_confirms drv ev A \<longleftrightarrow> (case round_front drv ev A of None \<Rightarrow> False | Some A' \<Rightarrow> server_confirms (rd_env ev) (ap_hpm A'))"

lemma clocked_ok:
  assumes ok: "session_ok drv page clean (ap_hpm A) L fl M" and apart: "info_apart drv page clean"
  shows "session_ok drv page clean (ap_hpm (clocked drv ev A)) L fl M"
proof -
  have b: "beside (ap_hpm A) (ap_hpm (hpm_mgr_process (en_acc (rd_env ev)) (rd_mgr ev) (A\<lparr>hpm_timer_ticks := 0\<rparr>)))"
    using beside_manager [of "A\<lparr>hpm_timer_ticks := 0\<rparr>"] by simp
  show ?thesis
    using ok flash_upkeep_law [OF beside_ok [OF ok beside_trans [OF b beside_connection [of _ "rd_socket ev"]]] apart]
    by (simp add: clocked_def Let_def every_second_def upd_hpm_def)
qed

lemma round_front_law:
  assumes ok: "session_ok drv page clean (ap_hpm A) L fl M" and room: "length fl < 16381" and ev: "round_ok ev" and apart: "info_apart drv page clean"
  shows "\<exists>S' L' fl'. round_front drv ev A = Some ((clocked drv ev A)\<lparr>ap_hpm := S'\<rparr>) \<and>
    session_ok drv page clean S' L' fl' (M + dev_taken (rd_env ev) (ap_hpm (clocked drv ev A))) \<and> length fl' \<le> length fl + 1 \<and>
    quiet (ap_hpm (clocked drv ev A)) S'"
proof -
  have "small_report (en_new_report (rd_env ev))" using ev by (simp add: round_ok_def)
  from dev_process_law [OF clocked_ok [OF ok apart] room this]
  obtain S' L' fl' where "hpm_dev_process drv (rd_env ev) (ap_hpm (clocked drv ev A)) = Some S'"
      "session_ok drv page clean S' L' fl' (M + dev_taken (rd_env ev) (ap_hpm (clocked drv ev A)))" "length fl' \<le> length fl + 1"
      "quiet (ap_hpm (clocked drv ev A)) S'"
    unfolding only_adds_def by blast
  then show ?thesis by (intro exI [of _ S'] exI [of _ L'] exI [of _ fl']) (simp add: front_clocked)
qed

lemma app_round_law:
  assumes ok: "session_ok drv page clean (ap_hpm A) L fl M" and room: "length fl < 16380" and ev: "round_ok ev" and apart: "info_apart drv page clean"
  shows "\<exists>A' L' fl' M'. hpm_handle_timer_event drv ev A = Some A' \<and> session_ok drv page clean (ap_hpm A') L' fl' M' \<and> length fl' \<le> length fl + 2 \<and>
    (M' = M + round_taken drv ev A \<or> round_confirms drv ev A \<and> released (M + round_taken drv ev A) M')"
proof -
  let ?C = "clocked drv ev A" and ?N1 = "dev_taken (rd_env ev) (ap_hpm (clocked drv ev A))"
  obtain S1 L1 fl1 where a: "round_front drv ev A = Some (?C\<lparr>ap_hpm := S1\<rparr>)" "session_ok drv page clean S1 L1 fl1 (M + ?N1)"
      "length fl1 \<le> length fl + 1"
    using round_front_law [OF ok _ ev apart] room by auto
  have r1: "length fl1 < 16381" using a(3) room by simp
  obtain S' L' fl' M' where s: "hpm_session_process drv (rd_env ev) (rd_control ev) S1 = Some S'" "session_ok drv page clean S' L' fl' M'"
      "length fl' \<le> length fl1 + 1" "M' = M + ?N1 + asked_taken (rd_env ev) (rd_control ev) S1 \<or>
        server_confirms (rd_env ev) S1 \<and> released (M + ?N1 + asked_taken (rd_env ev) (rd_control ev) S1) M'"
    using session_process_law [OF a(2) r1] ev unfolding round_ok_def by blast
  have "hpm_handle_timer_event drv ev A = Some (?C\<lparr>ap_hpm := S'\<rparr>)" using a(1) s(1) by (simp add: hpm_handle_timer_event_def)
  moreover have "round_taken drv ev A = ?N1 + asked_taken (rd_env ev) (rd_control ev) S1" using a(1) by (simp add: round_taken_def)
  ultimately show ?thesis using s(2-4) a(1,3)
    by (intro exI [of _ "?C\<lparr>ap_hpm := S'\<rparr>"] exI [of _ L'] exI [of _ fl'] exI [of _ M'])
      (simp add: round_confirms_def add.assoc)
qed

end
