(* ===== verification/HpmAppClaims.thy ===== *)
theory HpmAppClaims imports HpmRoundInv begin

text \<open>
  The application: reports are kept until the server confirms them, over any number of rounds; what counts as a confirmation; log-out,
  reconnection and sleep.
\<close>

section \<open>A device that was just started\<close>

lemma init_lists_law:
  fixes D :: "'d hpm_store"
  assumes mem: "length (hpm_data_mem D) = HPM_PACK_NUM" "\<forall>p \<in> set (hpm_data_mem D). length (pk_data p) = HPM_PACK_BUFF_LEN"
  shows "\<exists>h. init_lists D = Some (D\<lparr>store_heap := h\<rparr>) \<and> store_ok (D\<lparr>store_heap := h\<rparr>) {}
    (\<lambda>d. if d = hpm_free_list then map pack_link [0..<HPM_PACK_NUM] else [])"
proof -
  let ?L = "\<lambda>i d. if d = hpm_free_list then map pack_link [0..<i] else []"
  let ?I = "\<lambda>i h. store_ok (D\<lparr>store_heap := h\<rparr>) (links - pack_link ` {..<i}) (?L i)"
  have data: "length (pk_data (pack_at D n)) = HPM_PACK_BUFF_LEN" if "n \<in> links" for n
    using mem link_facts(2) [OF that] nth_mem [of "pack_of n" "hpm_data_mem D"] by (simp add: pack_at_def)
  obtain h0 where h0: "do { h \<leftarrow> dlist_init (store_heap D) hpm_realtm_list; h \<leftarrow> dlist_init h hpm_delay_list; h \<leftarrow> dlist_init h hpm_trans_list;
      dlist_init h hpm_free_list } = Some h0" "\<forall>d \<in> heads. dlist_at h0 d []"
    by (simp add: dlist_init_def st_next_def st_prev_def dlist_at_def heads_def NULL_def hpm_realtm_list_def hpm_delay_list_def hpm_trans_list_def
        hpm_free_list_def)
  have base: "?I 0 h0"
    using h0(2) mem(1) data by (simp add: store_ok_def lists_ok_def family_def packs_ok_def)
  have step: "\<exists>h'. dlist_add_tail h (pack_link i) hpm_free_list = Some h' \<and> ?I (Suc i) h'" if i: "i < 0 + HPM_PACK_NUM" and I: "?I i h" for i h
  proof -
    have n: "pack_link i \<in> links - pack_link ` {..<i}" using i by (auto simp: links_def pack_link_def)
    obtain h' where h': "add_tail (pack_link i) hpm_free_list (D\<lparr>store_heap := h\<rparr>) = Some (D\<lparr>store_heap := h'\<rparr>)"
        "store_ok (D\<lparr>store_heap := h'\<rparr>) (links - pack_link ` {..<i} - {pack_link i}) ((?L i)(hpm_free_list := ?L i hpm_free_list @ [pack_link i]))"
      using add_law(1) [OF I _ n, of hpm_free_list] by (auto simp: place_ok_def)
    have "links - pack_link ` {..<i} - {pack_link i} = links - pack_link ` {..<Suc i}" by (auto simp: less_Suc_eq)
    moreover have "(?L i)(hpm_free_list := ?L i hpm_free_list @ [pack_link i]) = ?L (Suc i)" by auto
    moreover have "dlist_add_tail h (pack_link i) hpm_free_list = Some h'"
      using h'(1) by (auto simp: add_tail_def split: Option.bind_splits dest: arg_cong [where f = store_heap])
    ultimately show ?thesis using h'(2) by auto
  qed
  obtain h where h: "for_up 0 HPM_PACK_NUM (\<lambda>i h. dlist_add_tail h (pack_link i) hpm_free_list) h0 = Some h" "?I (0 + HPM_PACK_NUM) h"
    using for_up_inv [of ?I 0 h0 HPM_PACK_NUM "\<lambda>i h. dlist_add_tail h (pack_link i) hpm_free_list", OF base] step by blast
  have run: "init_lists D = Some (D\<lparr>store_heap := h\<rparr>)" using h0(1) h(1) by (auto simp: init_lists_def split: Option.bind_splits)
  have "store_ok (D\<lparr>store_heap := h\<rparr>) {} (?L HPM_PACK_NUM)" using h(2) unfolding add_0 by (simp add: links_def)
  then show ?thesis using run by blast
qed

text \<open>Memory, a store and a device as they may be, on the chip of \<^verbatim>\<open>HpmFlashClaims\<close>.\<close>

definition fresh_store :: "chip hpm_store" where
  "fresh_store = \<lparr>store_heap = (\<lambda>_. \<lparr>prev = NULL, nxt = NULL\<rparr>), hpm_data_mem = replicate HPM_PACK_NUM \<lparr>pk_data = replicate HPM_PACK_BUFF_LEN 7, pk_len = 1, pk_type = 2,
     pk_seq = 0, pk_list = hpm_realtm_list\<rparr>, store_flash = chip_flash\<rparr>"

definition fresh_device :: hpm_device where
  "fresh_device = \<lparr>dv_imei = [8, 6], dv_imei_len = 2, dv_iccid = replicate 20 0x30, dv_vin = None,
     dv_time = \<lparr>tm_year = 25, tm_month = 1, tm_day = 2, tm_hour = 3, tm_min = 4, tm_sec = 5\<rparr>\<rparr>"

definition fresh_env :: hpm_env where
  "fresh_env = \<lparr>en_downloading = False, en_device = fresh_device, en_tick = 100, en_timeout = 30, en_htbt = 60, en_recv_buf = Some (replicate 512 0),
     en_buf = (\<lambda>e. Some (replicate 256 0)), en_send = (\<lambda>e. True), en_flash_mem = True, en_report_mem = True, en_acc = True, en_ms = 100000,
     en_interval = 30, en_new_report = Some [1, 2, 3], en_save_mem = True\<rparr>"

definition fresh_control :: control_env where
  "fresh_control = \<lparr>ce_upgrading = True, ce_report = None, ce_get = (\<lambda>d n. (True, [])), ce_set = (\<lambda>d n. (True, [])), ce_file = (\<lambda>d n. (False, [])),
     ce_reboot = True, ce_update = (\<lambda>i. False), ce_buf = Some (replicate 1024 0), ce_send = True\<rparr>"

definition fresh_socket :: socket_env where
  "fresh_socket = \<lparr>sk_network = True, sk_fix = True, sk_connected = True, sk_disconnected = True, sk_url = (\<lambda>t. Some [0x61]), sk_port = (\<lambda>t. Some 9000),
     sk_connect = (\<lambda>u p. True)\<rparr>"

definition fresh_round :: hpm_round_env where
  "fresh_round = \<lparr>rd_env = fresh_env, rd_control = fresh_control, rd_socket = fresh_socket, rd_mgr = \<lparr>mg_wake_source = 0, mg_sleep_delay = 120\<rparr>\<rparr>"

definition fresh_hpm :: "chip hpm_store \<Rightarrow> chip hpm" where
  "fresh_hpm D = \<lparr>hpm_session_step = HPM_SESSION_STEP_INIT, hpm_session_run_status = HPM_SESSION_STOP,
     hpm_session_send_info = replicate 4 \<lparr>retry_count = 0, send_state = 0, send_result = 0, wait_time = 0\<rparr>,
     se_seq = \<lparr>run_info = zero_run_info, kept_info = None\<rparr>,
     se_recv = \<lparr>recv_queue = \<lparr>rq_head = 0, rq_tail = 0, rq_count = 0, rq_data = replicate 1024 0\<rparr>, recv_info = zero_recv, control_calls = []\<rparr>,
     se_store = D, hpm_socket_info = \<lparr>so_tick = 0, so_status = HPM_SOCKET_STATUS_CLOSED, so_run = HPM_SOCKET_STOPPED, so_type = HPM_SOCKET_MAIN_URL\<rparr>,
     hpm_dev_status = HPM_DEV_STATUS_IDLE, hpm_dev_tick = 0, closes = 0, sent = []\<rparr>"

definition fresh_app :: "chip hpm_store \<Rightarrow> chip hpm_app" where
  "fresh_app D = \<lparr>ap_hpm = fresh_hpm D, hpm_mgr_status = HPM_MGR_STATUS_RUNNING, hpm_mgr_acc_off_count = 0, hpm_timer_ticks = 0\<rparr>"

lemma fresh_device_ok: "device_ok fresh_device"
  by (simp add: device_ok_def fresh_device_def imei_ok_def)

lemma fresh_env_ok: "env_ok fresh_env"
  by (simp add: env_ok_def fresh_env_def fresh_device_ok)

lemma fresh_round_ok: "round_ok fresh_round"
  using fresh_env_ok by (simp add: round_ok_def fresh_round_def small_report_def control_ok_def fresh_control_def) (simp add: fresh_env_def)

abbreviation chip_clean :: "chip \<Rightarrow> nat \<Rightarrow> bool" where
  "chip_clean \<equiv> (\<lambda>d i. d i = None)"

lemma chip_flash_ok: "flash_ok chip_drivers chip_page chip_clean chip_flash []"
  by (simp add: flash_ok_def chip_works chip_stored)

lemma chip_apart: "info_apart chip_drivers chip_page chip_clean"
proof -
  have i: "chip_index FLASH_ADDR_HPM_MGR = 4188160" by (simp add: chip_index_def FLASH_ADDR_HPM_MGR_def FLASH_ADDR_HPM_DATA_def)
  have "i div 4 < 4096" if "i < 16384" for i :: nat using that by (simp add: div_less_iff_less_mult)
  then show ?thesis
    by (auto simp: info_apart_def hpm_flash_ops_def chip_drivers_def chip_driver_def hpm_flash_sd_erase_def chip_page_def i)
qed

lemma fresh_store_law:
  "\<exists>D. hpm_data_init fresh_store = Some D \<and> store_flash D = chip_flash \<and> pack_at D = pack_at fresh_store \<and>
    store_ok D {} (\<lambda>d. if d = hpm_free_list then map pack_link [0..<HPM_PACK_NUM] else [])"
  using init_lists_law [of fresh_store] by (auto simp: hpm_data_init_def fresh_store_def pack_at_def fun_eq_iff)

lemma fresh_session_ok:
  assumes "holds_reports chip_drivers chip_page chip_clean D L fl M"
  shows "session_ok chip_drivers chip_page chip_clean (fresh_hpm D) L fl M"
  using assms by (simp add: session_ok_def fresh_hpm_def HPM_SESSION_EVENT_MAX_def recv_ok_state_def recv_inv_def zero_recv_def
      HPM_SESSION_RECV_MEM_SIZE_def)

lemma fresh_holds:
  "\<exists>D L. hpm_data_init fresh_store = Some D \<and> holds_reports chip_drivers chip_page chip_clean D L [] {#} \<and> L hpm_free_list \<noteq> []"
proof -
  let ?L = "\<lambda>d. if d = hpm_free_list then map pack_link [0..<HPM_PACK_NUM] else []"
  obtain D where D: "hpm_data_init fresh_store = Some D" "store_flash D = chip_flash" "store_ok D {} ?L" using fresh_store_law by blast
  have "waiting ?L = {#}" by (simp add: waiting_def)
  then have "holds_reports chip_drivers chip_page chip_clean D ?L [] {#}" using D chip_flash_ok by (simp add: holds_reports_def)
  moreover have "?L hpm_free_list \<noteq> []" by (simp add: HPM_PACK_NUM_def)
  ultimately show ?thesis using D(1) by blast
qed

section \<open>Reports are kept\<close>

text \<open>
  What happens to the application: bytes come from the modem, for its own connection or for another, or its timer goes off and a round is
  run. Over a sequence of these: the state, the reports that were new, and in how many rounds the server confirmed a command while the session was open.
\<close>

datatype app_event = Bytes_in bool "u8 list" | Timer hpm_round_env

fun app_events :: "'d flash_drivers \<Rightarrow> app_event list \<Rightarrow> 'd hpm_app \<Rightarrow> ('d hpm_app \<times> u8 list multiset \<times> nat) option" where
  "app_events drv [] A = Some (A, {#}, 0)"
| "app_events drv (Bytes_in ours bs # es) A = do {
     S \<leftarrow> hpm_net_recv_cb ours (Some bs) (of_nat (length bs)) (ap_hpm A);
     app_events drv es (A\<lparr>ap_hpm := S\<rparr>)
   }"
| "app_events drv (Timer ev # es) A = do {
     A' \<leftarrow> hpm_handle_timer_event drv ev A;
     (A'', N, n) \<leftarrow> app_events drv es A';
     Some (A'', round_taken drv ev A + N, if round_confirms drv ev A then Suc n else n)
   }"

text \<open>Lengths are of 16 bits, and the surroundings of a round are as they should be.\<close>

definition event_ok :: "app_event \<Rightarrow> bool" where
  "event_ok e \<longleftrightarrow> (case e of Bytes_in ours bs \<Rightarrow> length bs < 65536 | Timer ev \<Rightarrow> round_ok ev)"

lemma bytes_in_law:
  assumes ok: "session_ok drv page clean S L fl M" and n: "length bs < 65536"
  shows "\<exists>S'. hpm_net_recv_cb ours (Some bs) (of_nat (length bs)) S = Some S' \<and> session_ok drv page clean S' L fl M"
proof (cases ours)
  case True
  have R: "recv_inv (recv_queue (se_recv S))" "length (rc_data (recv_info (se_recv S))) = 512"
    using ok by (simp_all add: session_ok_def recv_ok_state_def)
  obtain R' k where p: "hpm_data_recv_push (Some bs) (of_nat (length bs)) (se_recv S) = Some (R', k)" "recv_inv (recv_queue R')"
    using ring_call_law [OF R(1), of "Push bs"] n by (auto simp: push_sized_def)
  have "recv_info R' = recv_info (se_recv S)"
    using p(1) by (auto simp: hpm_data_recv_push_def split: if_splits Option.bind_splits)
  then have "session_ok drv page clean (S\<lparr>se_recv := R'\<rparr>) L fl M" using ok p(2) R(2) by (simp add: session_ok_def recv_ok_state_def)
  then show ?thesis using True p(1) by (simp add: hpm_net_recv_cb_def)
qed (use ok in \<open>simp add: hpm_net_recv_cb_def\<close>)

text \<open>
  C1: the application keeps its reports. Whatever bytes come from the server, in whatever pieces and between whatever rounds, and whatever the
  modem, the positioning and the configuration do: every call returns, and the reports in the lists and in flash are those that were there and
  all that were made since (\<open>N\<close>), except for at most one for every round in which the server confirms a command. A report is
  made when the device's time or the ignition demands it or when the server asks for one, and it is kept unless it finds no place (\<open>can_keep\<close>): no
  packet is free, and there is no memory to write one into the flash or all of them have been sent and wait for their confirmation. \<open>G\<close> are the reports
  that were given up. The flash has room for two more in each round.
\<close>

theorem hpm_reports_kept:
  assumes "session_ok drv page clean (ap_hpm A) L fl M" and "length fl + 2 * length es < 16382" and "\<forall>e\<in>set es. event_ok e"
    and "info_apart drv page clean"
  shows "\<exists>A' N n L' fl' M' G. app_events drv es A = Some (A', N, n) \<and> session_ok drv page clean (ap_hpm A') L' fl' M' \<and>
    M' + G = M + N \<and> size G \<le> n"
  using assms(1-3)
proof (induction es arbitrary: A L fl M)
  case Nil
  then show ?case by (auto intro!: exI [of _ "{#}"])
next
  case (Cons e es)
  show ?case
  proof (cases e)
    case (Bytes_in ours bs)
    have n: "length bs < 65536" using Cons.prems(3) Bytes_in by (simp add: event_ok_def)
    obtain S' where b: "hpm_net_recv_cb ours (Some bs) (of_nat (length bs)) (ap_hpm A) = Some S'" "session_ok drv page clean S' L fl M"
      using bytes_in_law [OF Cons.prems(1) n] by blast
    then show ?thesis using Cons.IH [of "A\<lparr>ap_hpm := S'\<rparr>" L fl M] Cons.prems(2,3) Bytes_in by auto
  next
    case (Timer ev)
    have room: "length fl < 16380" and ev: "round_ok ev" using Cons.prems(2,3) Timer by (simp_all add: event_ok_def)
    let ?N = "round_taken drv ev A"
    obtain A1 L1 fl1 M1 where a: "hpm_handle_timer_event drv ev A = Some A1" "session_ok drv page clean (ap_hpm A1) L1 fl1 M1" "length fl1 \<le> length fl + 2"
        "M1 = M + ?N \<or> round_confirms drv ev A \<and> released (M + ?N) M1"
      using app_round_law [OF Cons.prems(1) room ev assms(4)] by auto
    obtain A' N n L' fl' M' G where r: "app_events drv es A1 = Some (A', N, n)" "session_ok drv page clean (ap_hpm A') L' fl' M'"
        "M' + G = M1 + N" "size G \<le> n"
      using Cons.IH [OF a(2)] Cons.prems(2,3) a(3) by auto
    obtain G1 where g: "M1 + G1 = M + ?N" "size G1 \<le> (if round_confirms drv ev A then 1 else 0)"
    proof (cases "M1 = M + ?N")
      case True
      then show ?thesis using that [of "{#}"] by simp
    next
      case False
      then obtain r where "round_confirms drv ev A" "r \<in># M + ?N" "M1 = M + ?N - {#r#}" using a(4) unfolding released_def by blast
      then show ?thesis using that [of "{#r#}"] by (simp add: insert_DiffM2)
    qed
    have "M' + (G + G1) = M + (?N + N)" using r(3) g(1) by (metis add.assoc add.commute)
    moreover have "size (G + G1) \<le> (if round_confirms drv ev A then Suc n else n)" using r(4) g(2) by (auto split: if_splits)
    ultimately show ?thesis using a(1) r(1,2) Timer by fastforce
  qed
qed

lemma fresh_clocked: "clocked drv fresh_round (fresh_app D) = (fresh_app D)\<lparr>hpm_timer_ticks := 1\<rparr>"
  by (simp add: clocked_def fresh_app_def HPM_APP_CYCLE_INTV_def)

lemma fresh_round_law:
  assumes D: "holds_reports chip_drivers chip_page chip_clean D L [] {#}" and "L hpm_free_list \<noteq> []"
  shows "round_taken chip_drivers fresh_round (fresh_app D) = {#[1, 2, 3]#}" and "\<not> round_confirms chip_drivers fresh_round (fresh_app D)"
proof -
  have ok: "session_ok chip_drivers chip_page chip_clean (ap_hpm (fresh_app D)) L [] {#}" using fresh_session_ok [OF D] by (simp add: fresh_app_def)
  have h: "ap_hpm (fresh_app D) = fresh_hpm D" by (simp add: fresh_app_def)
  obtain S where S: "round_front chip_drivers fresh_round (fresh_app D) = Some ((fresh_app D)\<lparr>hpm_timer_ticks := 1, ap_hpm := S\<rparr>)"
      "quiet (fresh_hpm D) S"
    using round_front_law [OF ok _ fresh_round_ok chip_apart] by (auto simp: fresh_clocked h)
  have "hpm_data_recv_empty (se_recv S)" "hpm_session_step S = HPM_SESSION_STEP_INIT"
    using S(2) by (simp_all add: quiet_def fresh_hpm_def hpm_data_recv_empty_def)
  then have "asked_taken env ce S = {#}" "\<not> server_confirms env S" for env ce
    by (auto simp: asked_taken_def server_confirms_def hpm_data_recv_process_def hpm_data_recv_empty_def new_command_def Let_def split: option.split)
  moreover have "\<not> dlist_empty (store_heap D) hpm_free_list"
    using D assms(2) list_empty_iff [of D "{}" L hpm_free_list] by (simp add: holds_reports_def)
  then have "dev_taken fresh_env (fresh_hpm D) = {#[1, 2, 3]#}"
    by (simp add: dev_taken_def dev_event_def report_taken_def taken_if_def can_keep_def fresh_env_def fresh_hpm_def)
  ultimately show "round_taken chip_drivers fresh_round (fresh_app D) = {#[1, 2, 3]#}" "\<not> round_confirms chip_drivers fresh_round (fresh_app D)"
    using S(1) by (simp_all add: round_taken_def round_confirms_def fresh_clocked) (simp_all add: fresh_app_def fresh_round_def)
qed

theorem hpm_reports_kept_witness:
  "\<exists>D A' n L' fl'. hpm_data_init fresh_store = Some D \<and>
    app_events chip_drivers [Timer fresh_round, Bytes_in True [0x23, 0x23]] (fresh_app D) = Some (A', {#[1, 2, 3]#}, n) \<and>
    session_ok chip_drivers chip_page chip_clean (ap_hpm A') L' fl' {#[1, 2, 3]#}"
proof -
  let ?es = "[Timer fresh_round, Bytes_in True [0x23, 0x23]]"
  obtain D L where D: "hpm_data_init fresh_store = Some D" "holds_reports chip_drivers chip_page chip_clean D L [] {#}" "L hpm_free_list \<noteq> []"
    using fresh_holds by blast
  have "session_ok chip_drivers chip_page chip_clean (ap_hpm (fresh_app D)) L [] {#}" using fresh_session_ok [OF D(2)] by (simp add: fresh_app_def)
  from hpm_reports_kept [OF this _ _ chip_apart, of ?es] fresh_round_ok
  obtain A' N n L' fl' M' G where r: "app_events chip_drivers ?es (fresh_app D) = Some (A', N, n)"
      "session_ok chip_drivers chip_page chip_clean (ap_hpm A') L' fl' M'" "M' + G = N" "size G \<le> n"
    by (auto simp: event_ok_def simp del: app_events.simps)
  have "N = {#[1, 2, 3]#}" "n = 0" using r(1) fresh_round_law [OF D(2,3)] by (auto split: Option.bind_splits)
  then show ?thesis using D(1) r by auto
qed

section \<open>What counts as a confirmation\<close>

text \<open>
  C9: any answer of the server releases the report that waits for its confirmation: neither the command that is answered nor its number is
  compared, so that the answer to a heartbeat gives up a report the server may never have received.
\<close>

theorem hpm_ack_of_anything:
  assumes "session_ok drv page clean S L fl M" and "env_ok env" and "hpm_session_step S = HPM_SESSION_STEP_SESSION"
    and "hpm_session_run_status S = HPM_SESSION_START" and "send_state (sender HPM_SESSION_EVENT_REPORT S) = HPM_SESSION_SEND_WAIT"
    and "L hpm_trans_list = n # ns" and "recv_ack_of cmd S" and "recv_ok S" and "cmd \<noteq> HPM_CMD_LIVE_DATA"
  shows "\<exists>S' L'. session_steps drv env S = Some S' \<and> L' hpm_trans_list = ns \<and>
    session_ok drv page clean S' L' fl (M - {#pay (se_store S) n#}) \<and> pay (se_store S) n \<in># M"
proof -
  have a: "session_ok drv page clean (report_answered S) L fl M" by (rule beside_ok [OF assms(1)]) (simp add: report_answered_def)
  then have "holds_reports drv page clean (se_store S) L fl M" using assms(1) by (simp add: session_ok_def)
  from ack_law [OF this] obtain D' L' where D: "hpm_data_ack_pack (se_store S) = Some D'" "L' hpm_trans_list = ns"
      "holds_reports drv page clean D' L' fl (M - {#pay (se_store S) n#})" "pay (se_store S) n \<in># M"
    using assms(6) by auto
  let ?T = "(report_answered S)\<lparr>se_store := D'\<rparr>"
  have T: "session_ok drv page clean ?T L' fl (M - {#pay (se_store S) n#})" using a D(3) by (simp add: session_ok_def)
  have w: "with_store hpm_data_ack_pack (report_answered S) = Some ?T"
    using D(1) by (simp add: with_store_def report_answered_def set_sender_def)
  have "hpm_session_send_report drv env HPM_SESSION_REPORT_ACK S = Some (?T, True)"
    using assms(5) w
    by (simp add: hpm_session_send_report_def HPM_SESSION_SEND_WAIT_def HPM_SESSION_SEND_INIT_def HPM_SESSION_SEND_SUCCESS_def Let_def)
  moreover obtain S2 b where "hpm_session_send_heartbeat env HPM_SESSION_REPORT_ACK ?T = Some (S2, b)" "beside ?T S2"
    using send_heartbeat_total [OF assms(2)] by blast
  moreover have "recv_ack S" using assms(7) by (simp add: recv_ack_of_def)
  ultimately have "session_steps drv env S = Some S2" "beside ?T S2"
    using assms(3,4,8) by (simp_all add: session_steps_def hpm_session_proc_session_def Let_def)
  then show ?thesis using beside_ok [OF T] D(2,4) by blast
qed

text \<open>A session in which one report waits for its confirmation, and a heartbeat is answered.\<close>

definition waiting_hpm :: "chip hpm_store \<Rightarrow> chip hpm" where
  "waiting_hpm D = (set_sender HPM_SESSION_EVENT_REPORT (\<lambda>s. s\<lparr>send_state := HPM_SESSION_SEND_WAIT\<rparr>) (fresh_hpm D))\<lparr>
     hpm_session_step := HPM_SESSION_STEP_SESSION, hpm_session_run_status := HPM_SESSION_START,
     se_recv := (se_recv (fresh_hpm D))\<lparr>recv_info := zero_recv\<lparr>rc_cmd := HPM_CMD_TSP_COMMON_ACK, rc_len := 4,
       rc_data := [0, 0, HPM_CMD_HEART_BEAT, 1] @ replicate 508 0\<rparr>\<rparr>\<rparr>"

lemma one_waits:
  "\<exists>D L n. holds_reports chip_drivers chip_page chip_clean D L [] {#[7]#} \<and> L hpm_trans_list = [n]"
proof -
  let ?L = "\<lambda>d. if d = hpm_free_list then map pack_link [0..<HPM_PACK_NUM] else []"
  obtain D where D: "store_flash D = chip_flash" "pack_at D = pack_at fresh_store" "store_ok D {} ?L" using fresh_store_law by blast
  let ?n = "pack_link 0" and ?ns = "map pack_link [1..<HPM_PACK_NUM]"
  have L: "?L hpm_free_list = ?n # ?ns" by (simp add: upt_rec HPM_PACK_NUM_def)
  obtain h where h: "store_ok (D\<lparr>store_heap := h\<rparr>) {?n} (?L(hpm_free_list := ?ns))"
    using pop_first_law(2) [OF D(3) _ L] by auto
  have p: "pack_at D ?n = \<lparr>pk_data = replicate HPM_PACK_BUFF_LEN 7, pk_len = 1, pk_type = 2, pk_seq = 0, pk_list = hpm_realtm_list\<rparr>"
    by (simp add: D(2) pack_at_def fresh_store_def pack_of_def pack_link_def HPM_PACK_NUM_def)
  let ?K = "(?L(hpm_free_list := ?ns))(hpm_trans_list := [?n])"
  obtain h' where h': "store_ok (D\<lparr>store_heap := h'\<rparr>) {} ?K"
    using add_law(1) [OF h, of hpm_trans_list ?n] p by (auto simp: place_ok_def fit_def)
  have "waiting ?K = {#?n#}" by (simp add: waiting_def)
  moreover have "pay D ?n = [7]" by (simp add: pay_def p HPM_PACK_BUFF_LEN_def)
  ultimately have "holds_reports chip_drivers chip_page chip_clean (D\<lparr>store_heap := h'\<rparr>) ?K [] {#[7]#}"
    using h' D(1) chip_flash_ok by (simp add: holds_reports_def)
  then show ?thesis by (metis fun_upd_same)
qed

theorem hpm_ack_of_anything_witness:
  "\<exists>D S' L'. recv_ack_of HPM_CMD_HEART_BEAT (waiting_hpm D) \<and> session_steps chip_drivers fresh_env (waiting_hpm D) = Some S' \<and>
    session_ok chip_drivers chip_page chip_clean S' L' [] {#}"
proof -
  obtain D L n where D: "holds_reports chip_drivers chip_page chip_clean D L [] {#[7]#}" "L hpm_trans_list = [n]" using one_waits by blast
  have ok: "session_ok chip_drivers chip_page chip_clean (waiting_hpm D) L [] {#[7]#}"
    using fresh_session_ok [OF D(1)] by (simp add: waiting_hpm_def session_ok_def set_sender_def recv_ok_state_def fresh_hpm_def)
  have ack: "recv_ack_of HPM_CMD_HEART_BEAT (waiting_hpm D)" "recv_ok (waiting_hpm D)"
    by (simp_all add: waiting_hpm_def recv_ack_of_def recv_ack_def recv_ok_def resp_cmd_def resp_result_def HPM_RECV_RESP_SUCCESS_def)
  have st: "send_state (sender HPM_SESSION_EVENT_REPORT (waiting_hpm D)) = HPM_SESSION_SEND_WAIT"
    by (simp add: waiting_hpm_def sender_def set_sender_def fresh_hpm_def HPM_SESSION_EVENT_REPORT_def)
  obtain S' L' where "session_steps chip_drivers fresh_env (waiting_hpm D) = Some S'"
      "session_ok chip_drivers chip_page chip_clean S' L' [] ({#[7]#} - {#pay (se_store (waiting_hpm D)) n#})"
      "pay (se_store (waiting_hpm D)) n \<in># {#[7]#}"
    using hpm_ack_of_anything [OF ok fresh_env_ok _ _ st D(2) ack] by (auto simp: waiting_hpm_def HPM_CMD_HEART_BEAT_def HPM_CMD_LIVE_DATA_def)
  then show ?thesis using ack(1) by auto
qed

section \<open>Log-out\<close>

fun session_rounds :: "'d flash_drivers \<Rightarrow> control_env \<Rightarrow> hpm_env list \<Rightarrow> 'd hpm \<Rightarrow> 'd hpm option" where
  "session_rounds drv ce [] S = Some S"
| "session_rounds drv ce (env # envs) S = do { S' \<leftarrow> hpm_session_process drv env ce S; session_rounds drv ce envs S' }"

definition logging_out :: "'d hpm \<Rightarrow> bool" where
  "logging_out S \<longleftrightarrow> hpm_session_step S = HPM_SESSION_STEP_LOGOUT \<and> length (hpm_session_send_info S) = HPM_SESSION_EVENT_MAX \<and>
     hpm_data_recv_empty (se_recv S) \<and>
     send_state (sender HPM_SESSION_EVENT_LOGOUT S) \<in> {HPM_SESSION_SEND_INIT, HPM_SESSION_SEND_SUCCESS, HPM_SESSION_SEND_WAIT}"

lemma net_send_frame:
  "hpm_net_send ok buf n S = Some (S', b) \<Longrightarrow> hpm_session_step S' = hpm_session_step S \<and> hpm_session_send_info S' = hpm_session_send_info S \<and>
    se_recv S' = se_recv S"
  by (auto simp: hpm_net_send_def Let_def split: if_splits)

lemma com_logout_frame:
  "hpm_session_com_logout env S = Some (S', b) \<Longrightarrow> hpm_session_step S' = hpm_session_step S \<and> hpm_session_send_info S' = hpm_session_send_info S \<and>
    se_recv S' = se_recv S"
  by (auto simp: hpm_session_com_logout_def Let_def split: option.splits if_splits Option.bind_splits prod.splits dest!: net_send_frame)

lemma logging_out_sender:
  "logging_out S \<Longrightarrow> (\<And>s. send_state (f s) = HPM_SESSION_SEND_WAIT) \<Longrightarrow> logging_out (set_sender HPM_SESSION_EVENT_LOGOUT f S)"
  by (simp add: logging_out_def set_sender_def sender_def HPM_SESSION_EVENT_LOGOUT_def HPM_SESSION_EVENT_MAX_def)

lemma quiet_logout:
  assumes out: "logging_out S" and env: "env_ok env"
  shows "\<exists>S' b. hpm_session_send_logout env 0 S = Some (S', b) \<and> logging_out S'"
proof -
  obtain S1 b where c: "hpm_session_com_logout env S = Some (S1, b)" using com_logout_total [OF env] by blast
  have S1: "logging_out S1" using com_logout_frame [OF c] out by (simp add: logging_out_def sender_def)
  note next1 = logging_out_sender [OF S1]
  have ack: "HPM_SESSION_LOGOUT_ACK \<noteq> 0" by (simp add: HPM_SESSION_LOGOUT_ACK_def)
  show ?thesis
  proof (cases "send_state (sender HPM_SESSION_EVENT_LOGOUT S) = HPM_SESSION_SEND_WAIT")
    case True
    have w: "HPM_SESSION_SEND_WAIT \<noteq> HPM_SESSION_SEND_INIT" "HPM_SESSION_SEND_WAIT \<noteq> HPM_SESSION_SEND_SUCCESS"
      by (simp_all add: HPM_SESSION_SEND_WAIT_def HPM_SESSION_SEND_INIT_def HPM_SESSION_SEND_SUCCESS_def)
    show ?thesis
      by (cases "elapsed env HPM_SESSION_EVENT_LOGOUT S \<ge> en_timeout env"; cases b)
        (simp_all add: hpm_session_send_logout_def True w ack c S1 out next1 ex_bool_eq)
  next
    case False
    then have "send_state (sender HPM_SESSION_EVENT_LOGOUT S) = HPM_SESSION_SEND_INIT \<or> send_state (sender HPM_SESSION_EVENT_LOGOUT S) = HPM_SESSION_SEND_SUCCESS"
      using out by (simp add: logging_out_def)
    then show ?thesis by (cases b) (simp_all add: hpm_session_send_logout_def c S1 next1 ex_bool_eq)
  qed
qed

lemma logout_round:
  assumes out: "logging_out S" and env: "env_ok env"
  shows "\<exists>S'. hpm_session_process drv env ce S = Some S' \<and> logging_out S'"
proof (cases "en_downloading env")
  case True
  then show ?thesis using out by (simp add: hpm_session_process_def)
next
  case False
  let ?S = "S\<lparr>se_recv := (se_recv S)\<lparr>recv_info := zero_recv\<rparr>\<rparr>"
  have S: "logging_out ?S" using out by (simp add: logging_out_def sender_def hpm_data_recv_empty_def)
  have R: "hpm_data_recv_process (en_recv_buf env) (se_recv S) = Some ((se_recv S)\<lparr>recv_info := zero_recv\<rparr>)"
    using out by (auto simp: logging_out_def hpm_data_recv_process_def hpm_data_recv_empty_def Let_def split: option.split)
  have quiet: "\<not> recv_ack_of HPM_CMD_LOGOUT ?S" by (simp add: recv_ack_of_def recv_ack_def zero_recv_def HPM_CMD_TSP_COMMON_ACK_def)
  obtain S' b where "hpm_session_send_logout env 0 ?S = Some (S', b)" "logging_out S'" using quiet_logout [OF S env] by blast
  moreover have "hpm_session_step ?S = HPM_SESSION_STEP_LOGOUT" using S by (simp add: logging_out_def)
  ultimately show ?thesis using False R quiet by (simp add: hpm_session_process_def new_command_def session_steps_def hpm_session_proc_logout_def)
qed

text \<open>
  C39: log-out never gives up by itself: while the server is silent, the session stays in its log-out step over any number of rounds and
  time-outs, since the state in which retries are counted is never entered.
\<close>

theorem hpm_logout_never_ends:
  assumes "logging_out S" and "\<forall>env\<in>set envs. env_ok env"
  shows "\<exists>S'. session_rounds drv ce envs S = Some S' \<and> hpm_session_step S' = HPM_SESSION_STEP_LOGOUT \<and>
    send_state (sender HPM_SESSION_EVENT_LOGOUT S') \<noteq> HPM_SESSION_SEND_RETRY"
  using assms
proof (induction envs arbitrary: S)
  case Nil
  then show ?case by (auto simp: logging_out_def HPM_SESSION_SEND_INIT_def HPM_SESSION_SEND_SUCCESS_def HPM_SESSION_SEND_WAIT_def HPM_SESSION_SEND_RETRY_def)
next
  case (Cons env envs)
  obtain S1 where s: "hpm_session_process drv env ce S = Some S1" "logging_out S1" using logout_round [OF Cons.prems(1), of env drv ce] Cons.prems(2) by auto
  then show ?case using Cons.IH [OF s(2)] Cons.prems(2) by simp
qed

theorem hpm_logout_never_ends_witness:
  "\<exists>S'. session_rounds chip_drivers fresh_control [fresh_env, fresh_env\<lparr>en_tick := 200\<rparr>, fresh_env\<lparr>en_tick := 300\<rparr>]
      ((fresh_hpm fresh_store)\<lparr>hpm_session_step := HPM_SESSION_STEP_LOGOUT\<rparr>) = Some S' \<and> hpm_session_step S' = HPM_SESSION_STEP_LOGOUT"
proof -
  have "logging_out ((fresh_hpm fresh_store)\<lparr>hpm_session_step := HPM_SESSION_STEP_LOGOUT\<rparr>)"
    by (simp add: logging_out_def fresh_hpm_def sender_def HPM_SESSION_EVENT_MAX_def HPM_SESSION_EVENT_LOGOUT_def hpm_data_recv_empty_def
        HPM_SESSION_SEND_INIT_def)
  moreover have "env_ok (fresh_env\<lparr>en_tick := t\<rparr>)" for t using fresh_env_ok by (simp add: env_ok_def)
  ultimately show ?thesis
    using hpm_logout_never_ends [of _ "[fresh_env, fresh_env\<lparr>en_tick := 200\<rparr>, fresh_env\<lparr>en_tick := 300\<rparr>]" chip_drivers fresh_control] fresh_env_ok
    by fastforce
qed

section \<open>Sleep\<close>

text \<open>
  C8: going to sleep puts all reports into flash: with memory for every packet, all that waited, sent or not, are in the flash afterwards,
  and nothing else is.
\<close>

theorem hpm_sleep_keeps_reports:
  assumes "session_ok drv page clean (ap_hpm A) L fl M" and "length fl + size (waiting L) < 16381" and "\<forall>i. mem i" and "info_apart drv page clean"
  shows "\<exists>A' L' fl'. hpm_stop drv mem A = Some A' \<and> session_ok drv page clean (ap_hpm A') L' fl' M \<and> mset (map snd fl') = M"
proof -
  let ?S = "ap_hpm A"
  have "holds_reports drv page clean (se_store ?S) L fl M" using assms(1) by (simp add: session_ok_def)
  from flush_all_law [OF this assms(2), of mem] obtain D' L' fl' where D: "hpm_data_flush_alldata drv mem (se_store ?S) = Some D'"
      "holds_reports drv page clean D' L' fl' M" "waiting L' = {#}"
    using assms(3) by blast
  let ?T = "hpm_dev_sleep (?S\<lparr>se_seq := hpm_session_run_info_write (se_seq ?S), se_store := D'\<rparr>)"
  let ?F = "(fst (hpm_flash_save_mgrinfo drv (store_flash D')))\<lparr>flash_tick := 0\<rparr>"
  have "flash_ok drv page clean (fst (hpm_flash_save_mgrinfo drv (store_flash D'))) fl'"
    using save_mgrinfo_law [OF _ assms(4)] D(2) by (simp add: holds_reports_def)
  then have "flash_ok drv page clean ?F fl'" by (rule flash_ok_cong) simp_all
  then have "session_ok drv page clean (?T\<lparr>se_store := D'\<lparr>store_flash := ?F\<rparr>\<rparr>) L' fl' M"
    using assms(1) D(2) by (simp add: session_ok_def holds_reports_def store_ok_def hpm_dev_sleep_def hpm_dev_status_set_def)
  moreover have "mset (map snd fl') = M" using D(2,3) by (simp add: holds_reports_def)
  moreover have "hpm_stop drv mem A = Some (A\<lparr>ap_hpm := ?T\<lparr>se_store := D'\<lparr>store_flash := ?F\<rparr>\<rparr>\<rparr>)"
    using D(1) by (simp add: hpm_stop_def hpm_session_sleep_def with_store_def hpm_flash_sleep_def hpm_dev_sleep_def hpm_dev_status_set_def Let_def)
  ultimately show ?thesis by (intro exI [of _ "A\<lparr>ap_hpm := ?T\<lparr>se_store := D'\<lparr>store_flash := ?F\<rparr>\<rparr>\<rparr>"] exI [of _ L'] exI [of _ fl']) simp
qed

theorem hpm_sleep_keeps_reports_witness:
  "\<exists>D A' L' fl'. hpm_stop chip_drivers (\<lambda>i. True) ((fresh_app D)\<lparr>ap_hpm := waiting_hpm D\<rparr>) = Some A' \<and>
    session_ok chip_drivers chip_page chip_clean (ap_hpm A') L' fl' {#[7]#} \<and> mset (map snd fl') = {#[7]#}"
proof -
  obtain D L n where D: "holds_reports chip_drivers chip_page chip_clean D L [] {#[7]#}" "L hpm_trans_list = [n]" using one_waits by blast
  have ok: "session_ok chip_drivers chip_page chip_clean (ap_hpm ((fresh_app D)\<lparr>ap_hpm := waiting_hpm D\<rparr>)) L [] {#[7]#}"
    using fresh_session_ok [OF D(1)] by (simp add: waiting_hpm_def session_ok_def set_sender_def recv_ok_state_def fresh_hpm_def)
  have "size (waiting L) \<le> 6" using waiting_size D(1) by (auto simp: holds_reports_def)
  then show ?thesis using hpm_sleep_keeps_reports [OF ok _ _ chip_apart, of "\<lambda>i. True"] by auto
qed

section \<open>The connection\<close>

text \<open>The once-a-second part of the application, over a number of seconds.\<close>

definition seconds :: "'d flash_drivers \<Rightarrow> hpm_round_env list \<Rightarrow> 'd hpm_app \<Rightarrow> 'd hpm_app" where
  "seconds drv evs A = fold (every_second drv) evs A"

text \<open>The ignition is on, and the manager is not about to stop.\<close>

definition wanted :: "hpm_round_env \<Rightarrow> 'd hpm_app \<Rightarrow> bool" where
  "wanted ev A \<longleftrightarrow> en_acc (rd_env ev) \<and> hpm_mgr_status A \<noteq> HPM_MGR_STATUS_WAIT_STOP"

text \<open>A modem that opens the connection to an address of this type.\<close>

definition modem_opens :: "hpm_round_env \<Rightarrow> HPM_SOCKET_ADDR_TYPE_E \<Rightarrow> bool" where
  "modem_opens ev type \<longleftrightarrow> sk_connected (rd_socket ev) \<and> (case hpm_socket_get_addr (rd_socket ev) type of
     None \<Rightarrow> False | Some (url, port) \<Rightarrow> sk_connect (rd_socket ev) url (ucast port))"

lemma mgr_keeps_running:
  assumes "wanted ev A" and "so_status (hpm_socket_info (ap_hpm A)) = st"
    and "st = HPM_SOCKET_STATUS_CLOSED \<or> so_run (hpm_socket_info (ap_hpm A)) = HPM_SOCKET_RUNNING"
  shows "\<exists>c. hpm_mgr_process (en_acc (rd_env ev)) mg A = (upd_hpm (upd_socket (\<lambda>i. i\<lparr>so_run := HPM_SOCKET_RUNNING\<rparr>)) A)\<lparr>hpm_mgr_status := HPM_MGR_STATUS_RUNNING,
    hpm_mgr_acc_off_count := c\<rparr>"
proof -
  have s: "hpm_socket_start S = upd_socket (\<lambda>i. i\<lparr>so_run := HPM_SOCKET_RUNNING\<rparr>) S" for S :: "'a hpm"
    by (simp add: hpm_socket_start_def upd_socket_def)
  have n: "upd_socket (\<lambda>i. i\<lparr>so_run := HPM_SOCKET_RUNNING\<rparr>) S = S" if "so_run (hpm_socket_info S) = HPM_SOCKET_RUNNING" for S :: "'a hpm"
    using that by (simp add: upd_socket_def)
  show ?thesis using assms
    by (cases "hpm_mgr_status A")
      (auto simp: wanted_def hpm_mgr_process_def hpm_mgr_in_init_def hpm_mgr_in_idle_def hpm_mgr_in_running_def hpm_mgr_in_stopped_def
        hpm_mgr_allowed_start_def mgr_start_def upd_hpm_def s n hpm_socket_in_idle_def HPM_MGR_ACC_OFF_STOP_COUNT_def Let_def intro!: exI [of _ 0])
qed

text \<open>A second in which the connection is wanted: only what \<^verbatim>\<open>hpm_socket_process\<close> does with the connection counts.\<close>

definition conn :: "'d hpm \<Rightarrow> hpm_socket_info_t \<times> HPM_SESSION_STEP_E \<times> hpm_session_run_e \<times> bool" where
  "conn S = (hpm_socket_info S, hpm_session_step S, hpm_session_run_status S, hpm_data_recv_empty (se_recv S))"

lemma second_law:
  assumes "wanted ev A" and "so_status (hpm_socket_info (ap_hpm A)) = HPM_SOCKET_STATUS_CLOSED \<or> so_run (hpm_socket_info (ap_hpm A)) = HPM_SOCKET_RUNNING"
  shows "wanted ev (every_second drv ev A)"
    and "conn (ap_hpm (every_second drv ev A)) =
      conn (hpm_socket_process (rd_socket ev) (upd_socket (\<lambda>i. i\<lparr>so_run := HPM_SOCKET_RUNNING\<rparr>) (ap_hpm A)))"
proof -
  obtain c where c: "hpm_mgr_process (en_acc (rd_env ev)) (rd_mgr ev) A =
      (upd_hpm (upd_socket (\<lambda>i. i\<lparr>so_run := HPM_SOCKET_RUNNING\<rparr>)) A)\<lparr>hpm_mgr_status := HPM_MGR_STATUS_RUNNING, hpm_mgr_acc_off_count := c\<rparr>"
    using mgr_keeps_running [OF assms(1) refl assms(2)] by blast
  have "hpm_mgr_status (every_second drv ev A) = HPM_MGR_STATUS_RUNNING" by (simp add: every_second_def c upd_hpm_def)
  then show "wanted ev (every_second drv ev A)" using assms(1) by (simp add: wanted_def)
  show "conn (ap_hpm (every_second drv ev A)) =
      conn (hpm_socket_process (rd_socket ev) (upd_socket (\<lambda>i. i\<lparr>so_run := HPM_SOCKET_RUNNING\<rparr>) (ap_hpm A)))"
    by (simp add: every_second_def c upd_hpm_def flash_upkeep_def conn_def)
qed

text \<open>The session is over, and nothing received is left.\<close>

definition session_over :: "'d hpm \<Rightarrow> bool" where
  "session_over S \<longleftrightarrow> hpm_session_step S = HPM_SESSION_STEP_INIT \<and> hpm_session_run_status S = HPM_SESSION_STOP \<and> hpm_data_recv_empty (se_recv S)"

text \<open>
  The seconds until the connection is open: three after the time it has to stay closed, and one more if the manager first has to
  notice that it need not stop.
\<close>

definition seconds_left :: "'d hpm_app \<Rightarrow> nat" where
  "seconds_left A = (let i = hpm_socket_info (ap_hpm A) in (case so_status i of
     HPM_SOCKET_STATUS_CLOSED \<Rightarrow> unat (so_tick i) + 3 +
       (if hpm_mgr_status A = HPM_MGR_STATUS_WAIT_STOP \<and> so_tick i = 0 \<and> so_run i = HPM_SOCKET_STOPPED then 1 else 0)
   | HPM_SOCKET_STATUS_WAIT_DIAL \<Rightarrow> 2
   | _ \<Rightarrow> 1))"

definition reopening :: "HPM_SOCKET_ADDR_TYPE_E \<Rightarrow> 'd hpm_app \<Rightarrow> bool" where
  "reopening type A \<longleftrightarrow> session_over (ap_hpm A) \<and> (let i = hpm_socket_info (ap_hpm A) in so_type i = type \<and>
     (so_status i = HPM_SOCKET_STATUS_CLOSED \<or>
      hpm_mgr_status A \<noteq> HPM_MGR_STATUS_WAIT_STOP \<and> so_run i = HPM_SOCKET_RUNNING \<and>
        (so_status i = HPM_SOCKET_STATUS_WAIT_DIAL \<and> so_tick i = HPM_SOCKET_WAIT_ALLOWED_TIMEOUT \<or> so_status i = HPM_SOCKET_STATUS_CONNECTING)))"

lemma closed_second:
  assumes "wanted ev A" and "so_status (hpm_socket_info (ap_hpm A)) = HPM_SOCKET_STATUS_CLOSED" and "reopening type A"
  shows "reopening type (every_second drv ev A) \<and> Suc (seconds_left (every_second drv ev A)) = seconds_left A"
proof -
  note c = second_law(2) [OF assms(1), of drv, unfolded conn_def prod.inject] and w = second_law(1) [OF assms(1), of drv]
  show ?thesis
  proof (cases "so_tick (hpm_socket_info (ap_hpm A)) = 0")
    case True
    then show ?thesis using c w assms
      by (auto simp: reopening_def session_over_def seconds_left_def wanted_def hpm_socket_process_def hpm_socket_handle_closed_def upd_socket_def Let_def)
  next
    case False
    then have "Suc (unat (so_tick (hpm_socket_info (ap_hpm A)) - 1)) = unat (so_tick (hpm_socket_info (ap_hpm A)))"
      by (metis unat_minus_one Suc_pred' unat_gt_0)
    then show ?thesis using False c w assms
      by (auto simp: reopening_def session_over_def seconds_left_def wanted_def hpm_socket_process_def hpm_socket_handle_closed_def tick_down_def upd_socket_def
          word_neq_0_conv Let_def)
  qed
qed

lemma dial_second:
  assumes "wanted ev A" and "modem_opens ev type" and "so_status (hpm_socket_info (ap_hpm A)) = HPM_SOCKET_STATUS_WAIT_DIAL" and "reopening type A"
  shows "reopening type (every_second drv ev A) \<and> Suc (seconds_left (every_second drv ev A)) = seconds_left A"
proof -
  have o: "so_run (hpm_socket_info (ap_hpm A)) = HPM_SOCKET_RUNNING" "so_tick (hpm_socket_info (ap_hpm A)) = HPM_SOCKET_WAIT_ALLOWED_TIMEOUT"
      "so_type (hpm_socket_info (ap_hpm A)) = type" "session_over (ap_hpm A)"
    using assms(3,4) by (auto simp: reopening_def Let_def)
  obtain url port where u: "hpm_socket_get_addr (rd_socket ev) type = Some (url, port)" "sk_connect (rd_socket ev) url (ucast port)"
    using assms(2) by (auto simp: modem_opens_def split: option.splits)
  have n: "(hpm_socket_info (ap_hpm A))\<lparr>so_run := HPM_SOCKET_RUNNING\<rparr> = hpm_socket_info (ap_hpm A)"
    using o(1) by (cases "hpm_socket_info (ap_hpm A)") simp
  have "upd_socket (\<lambda>i. i\<lparr>so_run := HPM_SOCKET_RUNNING\<rparr>) (ap_hpm A) = ap_hpm A" by (simp add: upd_socket_def n)
  then have "conn (ap_hpm (every_second drv ev A)) = conn (begin_connect (rd_socket ev)
      (if sk_network (rd_socket ev) \<and> sk_fix (rd_socket ev) then ap_hpm A else upd_socket (\<lambda>i. i\<lparr>so_tick := so_tick i + 1\<rparr>) (ap_hpm A)))"
    using second_law(2) [OF assms(1), of drv] assms(3) o
    by (simp add: hpm_socket_process_def hpm_socket_handle_wait_dial_def HPM_SOCKET_WAIT_ALLOWED_TIMEOUT_def session_over_def Let_def) (simp add: upd_socket_def)
  then show ?thesis using u o assms(3) second_law(1) [OF assms(1), of drv]
    by (auto simp: conn_def begin_connect_def hpm_socket_connect_server_def upd_socket_def reopening_def session_over_def seconds_left_def wanted_def Let_def
        split: if_splits)
qed

text \<open>The manager is in its stop delay: with the ignition on it gives that up.\<close>

lemma wait_stop_second:
  assumes "en_acc (rd_env ev)" and "hpm_mgr_status A = HPM_MGR_STATUS_WAIT_STOP" and "reopening type A"
  shows "reopening type (every_second drv ev A) \<and> Suc (seconds_left (every_second drv ev A)) = seconds_left A"
proof -
  have o: "so_status (hpm_socket_info (ap_hpm A)) = HPM_SOCKET_STATUS_CLOSED" using assms(2,3) by (auto simp: reopening_def Let_def)
  have "hpm_mgr_process True (rd_mgr ev) A = A\<lparr>hpm_mgr_acc_off_count := 0, hpm_mgr_status := HPM_MGR_STATUS_STOPPED\<rparr>"
    using assms(2) o by (simp add: hpm_mgr_process_def hpm_mgr_in_wait_stop_def hpm_socket_in_idle_def)
  then have e: "conn (ap_hpm (every_second drv ev A)) = conn (hpm_socket_handle_closed (ap_hpm A))"
      "hpm_mgr_status (every_second drv ev A) = HPM_MGR_STATUS_STOPPED"
    using assms(1) o by (simp_all add: every_second_def upd_hpm_def flash_upkeep_def conn_def hpm_socket_process_def)
  let ?i = "hpm_socket_info (ap_hpm A)"
  show ?thesis
  proof (cases "so_tick ?i = 0")
    case True
    then show ?thesis using e o assms(2,3)
      by (cases "so_run ?i") (auto simp: conn_def reopening_def session_over_def seconds_left_def hpm_socket_handle_closed_def upd_socket_def Let_def)
  next
    case False
    then have "Suc (unat (so_tick ?i - 1)) = unat (so_tick ?i)" by (metis unat_minus_one Suc_pred' unat_gt_0)
    then show ?thesis using False e o assms(2,3)
      by (auto simp: conn_def reopening_def session_over_def seconds_left_def hpm_socket_handle_closed_def tick_down_def upd_socket_def word_neq_0_conv Let_def)
  qed
qed

lemma opening_second:
  assumes "en_acc (rd_env ev)" and "modem_opens ev type" and "reopening type A" and "1 < seconds_left A"
  shows "reopening type (every_second drv ev A) \<and> Suc (seconds_left (every_second drv ev A)) = seconds_left A"
proof (cases "hpm_mgr_status A = HPM_MGR_STATUS_WAIT_STOP")
  case True
  then show ?thesis using wait_stop_second [OF assms(1) _ assms(3)] by blast
next
  case False
  then have w: "wanted ev A" using assms(1) by (simp add: wanted_def)
  have "so_status (hpm_socket_info (ap_hpm A)) \<in> {HPM_SOCKET_STATUS_CLOSED, HPM_SOCKET_STATUS_WAIT_DIAL}"
    using assms(3,4) by (auto simp: reopening_def seconds_left_def Let_def)
  then show ?thesis using closed_second [OF w _ assms(3)] dial_second [OF w assms(2) _ assms(3)] by blast
qed

lemma last_second:
  assumes "en_acc (rd_env ev)" and "modem_opens ev type" and "reopening type A" and "seconds_left A = 1"
  shows "hpm_socket_is_connected (ap_hpm (every_second drv ev A)) \<and> hpm_session_step (ap_hpm (every_second drv ev A)) = HPM_SESSION_STEP_INIT \<and>
    hpm_session_run_status (ap_hpm (every_second drv ev A)) = HPM_SESSION_START \<and> hpm_data_recv_empty (se_recv (ap_hpm (every_second drv ev A)))"
proof -
  have c: "so_status (hpm_socket_info (ap_hpm A)) = HPM_SOCKET_STATUS_CONNECTING" "so_run (hpm_socket_info (ap_hpm A)) = HPM_SOCKET_RUNNING" "wanted ev A"
    using assms by (auto simp: reopening_def seconds_left_def wanted_def Let_def split: hpm_socket_status_e.splits)
  then show ?thesis using second_law(2) [OF c(3), of drv] assms(2,3)
    by (auto simp: conn_def hpm_socket_process_def hpm_socket_handle_connecting_def hpm_socket_is_connected_def tick_down_def upd_socket_def modem_opens_def
        reopening_def session_over_def hpm_session_start_def Let_def split: if_splits)
qed

text \<open>Whole rounds. While the session is over, a round does to the connection what its clock does.\<close>

fun timer_rounds :: "'d flash_drivers \<Rightarrow> hpm_round_env list \<Rightarrow> 'd hpm_app \<Rightarrow> 'd hpm_app option" where
  "timer_rounds drv [] A = Some A"
| "timer_rounds drv (ev # evs) A = do { A' \<leftarrow> hpm_handle_timer_event drv ev A; timer_rounds drv evs A' }"

lemma timer_rounds_append: "timer_rounds drv (xs @ ys) A = do { A' \<leftarrow> timer_rounds drv xs A; timer_rounds drv ys A' }"
proof (induction xs arbitrary: A)
  case (Cons x xs)
  then show ?case by (cases "hpm_handle_timer_event drv x A") simp_all
qed simp

definition same_link :: "'d hpm_app \<Rightarrow> 'd hpm_app \<Rightarrow> bool" where
  "same_link A B \<longleftrightarrow> conn (ap_hpm A) = conn (ap_hpm B) \<and> hpm_mgr_status A = hpm_mgr_status B"

lemma same_link_opening: "same_link A B \<Longrightarrow> reopening type A = reopening type B \<and> seconds_left A = seconds_left B"
  by (simp add: same_link_def conn_def reopening_def session_over_def seconds_left_def Let_def split: hpm_socket_status_e.split)

lemma ticks_beside: "same_link (A\<lparr>hpm_timer_ticks := t\<rparr>) A" by (simp add: same_link_def)

lemma over_process:
  assumes "session_over S"
  shows "\<exists>S'. hpm_session_process drv env ce S = Some S' \<and> conn S' = conn S"
proof (cases "en_downloading env")
  case False
  have "hpm_data_recv_process (en_recv_buf env) (se_recv S) = Some ((se_recv S)\<lparr>recv_info := zero_recv\<rparr>)"
    using assms by (auto simp: session_over_def hpm_data_recv_process_def hpm_data_recv_empty_def Let_def split: option.split)
  then show ?thesis using False assms
    by (simp add: hpm_session_process_def new_command_def session_steps_def hpm_session_proc_init_def session_over_def conn_def hpm_data_recv_empty_def)
qed (simp add: hpm_session_process_def)

lemma round_over:
  assumes ok: "session_ok drv page clean (ap_hpm A) L fl M" "length fl < 16380" "round_ok ev" "info_apart drv page clean"
    and o: "session_over (ap_hpm (clocked drv ev A))"
  shows "\<exists>A' L' fl' M'. hpm_handle_timer_event drv ev A = Some A' \<and> session_ok drv page clean (ap_hpm A') L' fl' M' \<and> length fl' \<le> length fl + 2 \<and>
    same_link (clocked drv ev A) A' \<and> hpm_timer_ticks A' = hpm_timer_ticks (clocked drv ev A)"
proof -
  obtain A' L' fl' M' where a: "hpm_handle_timer_event drv ev A = Some A'" "session_ok drv page clean (ap_hpm A') L' fl' M'" "length fl' \<le> length fl + 2"
    using app_round_law [OF ok] by blast
  obtain S where S: "round_front drv ev A = Some ((clocked drv ev A)\<lparr>ap_hpm := S\<rparr>)" "quiet (ap_hpm (clocked drv ev A)) S"
    using round_front_law [OF ok(1) _ ok(3,4)] ok(2) by auto
  have c: "conn S = conn (ap_hpm (clocked drv ev A))" using S(2) by (simp add: conn_def quiet_def)
  then have "session_over S" using o by (simp add: conn_def session_over_def)
  then obtain S' where "hpm_session_process drv (rd_env ev) (rd_control ev) S = Some S'" "conn S' = conn S" using over_process by blast
  then have "A' = (clocked drv ev A)\<lparr>ap_hpm := S'\<rparr>" "conn S' = conn (ap_hpm (clocked drv ev A))"
    using a(1) S(1) c by (simp_all add: hpm_handle_timer_event_def)
  then show ?thesis using a by (auto simp: same_link_def)
qed

text \<open>The rounds before a second is over.\<close>

lemma small_ticks: "unat (t :: u32) < 9 \<Longrightarrow> unat (t + 1) = unat t + 1 \<and> \<not> 1000 \<le> HPM_APP_CYCLE_INTV * (t + 1)"
  by (simp add: HPM_APP_CYCLE_INTV_def unat_plus_if_fits word_le_nat_alt unat_word_ariths)

lemma before_second:
  "session_ok drv page clean (ap_hpm A) L fl M \<Longrightarrow> length fl + 2 * length evs < 16380 \<Longrightarrow> \<forall>ev\<in>set evs. round_ok ev \<Longrightarrow> info_apart drv page clean \<Longrightarrow>
   session_over (ap_hpm A) \<Longrightarrow> unat (hpm_timer_ticks A) + length evs < 10 \<Longrightarrow>
   \<exists>A' L' fl' M'. timer_rounds drv evs A = Some A' \<and> session_ok drv page clean (ap_hpm A') L' fl' M' \<and> length fl' \<le> length fl + 2 * length evs \<and>
     same_link A A' \<and> unat (hpm_timer_ticks A') = unat (hpm_timer_ticks A) + length evs"
proof (induction evs arbitrary: A L fl M)
  case Nil
  then show ?case by (auto simp: same_link_def)
next
  case (Cons ev evs)
  have t: "unat (hpm_timer_ticks A + 1) = unat (hpm_timer_ticks A) + 1" "\<not> 1000 \<le> HPM_APP_CYCLE_INTV * (hpm_timer_ticks A + 1)"
    using small_ticks [of "hpm_timer_ticks A"] Cons.prems(6) by simp_all
  have c: "clocked drv ev A = A\<lparr>hpm_timer_ticks := hpm_timer_ticks A + 1\<rparr>" using t(2) by (simp add: clocked_def Let_def)
  have r: "length fl < 16380" "round_ok ev" "session_over (ap_hpm (clocked drv ev A))" using Cons.prems by (simp_all add: c)
  obtain A1 L1 fl1 M1 where a: "hpm_handle_timer_event drv ev A = Some A1" "session_ok drv page clean (ap_hpm A1) L1 fl1 M1" "length fl1 \<le> length fl + 2"
      "same_link (clocked drv ev A) A1" "hpm_timer_ticks A1 = hpm_timer_ticks (clocked drv ev A)"
    using round_over [OF Cons.prems(1) r(1,2) Cons.prems(4) r(3)] by blast
  have k: "unat (hpm_timer_ticks A1) = unat (hpm_timer_ticks A) + 1" using a(5) t(1) by (simp add: c)
  have "session_over (ap_hpm A1)" using a(4) Cons.prems(5) by (simp add: c same_link_def conn_def session_over_def)
  then obtain A' L' fl' M' where "timer_rounds drv evs A1 = Some A'" "session_ok drv page clean (ap_hpm A') L' fl' M'" "length fl' \<le> length fl1 + 2 * length evs"
      "same_link A1 A'" "unat (hpm_timer_ticks A') = unat (hpm_timer_ticks A1) + length evs"
    using Cons.IH [OF a(2)] Cons.prems a(3) k by auto
  moreover have "same_link A A1" using a(4) by (simp add: c same_link_def)
  ultimately show ?case using a(1,3) k by (intro exI [of _ A'] exI [of _ L'] exI [of _ fl'] exI [of _ M']) (auto simp: same_link_def)
qed

lemma ninth_clocked: "unat (hpm_timer_ticks A) = 9 \<Longrightarrow> clocked drv ev A = every_second drv ev (A\<lparr>hpm_timer_ticks := 0\<rparr>)"
proof -
  assume "unat (hpm_timer_ticks A) = 9"
  then have "unat (hpm_timer_ticks A) = unat (9 :: u32)" by simp
  then have "hpm_timer_ticks A = 9" by (simp only: unsigned_word_eqI)
  then show ?thesis by (simp add: clocked_def HPM_APP_CYCLE_INTV_def)
qed

lemma every_ticks: "hpm_timer_ticks (every_second drv ev (A\<lparr>hpm_timer_ticks := 0\<rparr>)) = 0"
  by (cases "hpm_mgr_status A") (simp_all add: every_second_def upd_hpm_def hpm_mgr_process_def hpm_mgr_in_init_def hpm_mgr_in_idle_def hpm_mgr_in_running_def
    hpm_mgr_in_wait_stop_def hpm_mgr_in_stopped_def mgr_start_def Let_def)

text \<open>The log-in is sent in the round in which the connection is open.\<close>

lemma com_login_frame:
  assumes "env_ok env" and "en_buf env HPM_SESSION_EVENT_LOGIN \<noteq> None"
  shows "\<exists>S'. hpm_session_com_login env S = Some (S', True) \<and> hpm_socket_info S' = hpm_socket_info S"
proof -
  obtain buf where b: "en_buf env HPM_SESSION_EVENT_LOGIN = Some buf" "256 \<le> length buf" using assms by (auto simp: env_ok_def)
  obtain sq buf' where p: "hpm_pack_login (en_device env) (se_seq S, buf) = Some ((sq, buf'), 73)" "length buf' = length buf"
    using login_total [of "en_device env" buf "se_seq S"] assms(1) b(2) by (auto simp: env_ok_def)
  show ?thesis using b p
    by (cases "en_send env HPM_SESSION_EVENT_LOGIN")
      (simp_all add: hpm_session_com_login_def net_send_total hpm_session_force_stop_def hpm_session_step_set_def Let_def)
qed

lemma send_login_frame:
  assumes "env_ok env" and "en_buf env HPM_SESSION_EVENT_LOGIN \<noteq> None"
  shows "\<exists>S'. hpm_session_send_login env 0 S = Some (S', True) \<and> hpm_socket_info S' = hpm_socket_info S"
proof -
  obtain S1 where "hpm_session_com_login env S = Some (S1, True)" "hpm_socket_info S1 = hpm_socket_info S" using com_login_frame [OF assms] by blast
  then show ?thesis
    by (simp add: hpm_session_send_login_def stamp_heartbeat_def set_sender_def hpm_session_step_set_def Let_def)
qed

lemma round_opens:
  assumes ok: "session_ok drv page clean (ap_hpm A) L fl M" "length fl < 16380" "round_ok ev" "info_apart drv page clean"
    and "unat (hpm_timer_ticks A) = 9" and op: "en_acc (rd_env ev)" "modem_opens ev type" "reopening type A" "seconds_left A = 1"
    and buf: "en_buf (rd_env ev) HPM_SESSION_EVENT_LOGIN \<noteq> None"
  shows "\<exists>A'. hpm_handle_timer_event drv ev A = Some A' \<and> hpm_socket_is_connected (ap_hpm A') \<and>
    (\<not> en_downloading (rd_env ev) \<longrightarrow> hpm_session_step (ap_hpm A') = HPM_SESSION_STEP_LOGIN)"
proof -
  let ?C = "ap_hpm (clocked drv ev A)"
  have o: "reopening type (A\<lparr>hpm_timer_ticks := 0\<rparr>)" "seconds_left (A\<lparr>hpm_timer_ticks := 0\<rparr>) = 1"
    using op(3,4) by (simp_all add: same_link_opening [OF ticks_beside])
  obtain S where S: "round_front drv ev A = Some ((clocked drv ev A)\<lparr>ap_hpm := S\<rparr>)" "quiet ?C S"
    using round_front_law [OF ok(1) _ ok(3,4)] ok(2) by auto
  have l: "hpm_socket_is_connected S" "hpm_session_step S = HPM_SESSION_STEP_INIT" "hpm_session_run_status S = HPM_SESSION_START" "hpm_data_recv_empty (se_recv S)"
    using last_second [OF op(1,2) o, of drv] S(2) by (simp_all add: ninth_clocked [OF assms(5)] quiet_def hpm_socket_is_connected_def)
  show ?thesis
  proof (cases "en_downloading (rd_env ev)")
    case True
    then show ?thesis using S(1) l(1) by (simp add: hpm_handle_timer_event_def hpm_session_process_def)
  next
    case False
    let ?S = "S\<lparr>se_recv := (se_recv S)\<lparr>recv_info := zero_recv\<rparr>\<rparr>"
    have R: "hpm_data_recv_process (en_recv_buf (rd_env ev)) (se_recv S) = Some ((se_recv S)\<lparr>recv_info := zero_recv\<rparr>)"
      using l(4) by (auto simp: hpm_data_recv_process_def hpm_data_recv_empty_def Let_def split: option.split)
    have "env_ok (rd_env ev)" using ok(3) by (simp add: round_ok_def)
    from send_login_frame [OF this buf, of ?S] obtain S' where s: "hpm_session_send_login (rd_env ev) 0 ?S = Some (S', True)" "hpm_socket_info S' = hpm_socket_info S"
      by auto
    have "hpm_session_process drv (rd_env ev) (rd_control ev) S = Some (hpm_session_step_set HPM_SESSION_STEP_LOGIN S')"
      using False R s(1) l(2,3) by (simp add: hpm_session_process_def new_command_def session_steps_def hpm_session_proc_init_def)
    then show ?thesis using S(1) s(2) l(1) by (simp add: hpm_handle_timer_event_def hpm_session_step_set_def hpm_socket_is_connected_def)
  qed
qed

lemma rounds_after: "n = 10 * m - t \<Longrightarrow> n = 9 - t + 1 + r \<Longrightarrow> t < 10 \<Longrightarrow> Suc k = m \<Longrightarrow> r = 10 * k" for n :: nat
  by (simp add: numeral_eq_Suc)

lemma opening_rounds:
  "session_ok drv page clean (ap_hpm A) L fl M \<Longrightarrow> length fl + 2 * length evs < 16380 \<Longrightarrow> \<forall>ev\<in>set evs. round_ok ev \<and> en_acc (rd_env ev) \<and> modem_opens ev type \<Longrightarrow>
   info_apart drv page clean \<Longrightarrow> reopening type A \<Longrightarrow> unat (hpm_timer_ticks A) < 10 \<Longrightarrow> length evs = 10 * seconds_left A - unat (hpm_timer_ticks A) \<Longrightarrow>
   en_buf (rd_env (last evs)) HPM_SESSION_EVENT_LOGIN \<noteq> None \<Longrightarrow>
   \<exists>A'. timer_rounds drv evs A = Some A' \<and> hpm_socket_is_connected (ap_hpm A') \<and>
     (\<not> en_downloading (rd_env (last evs)) \<longrightarrow> hpm_session_step (ap_hpm A') = HPM_SESSION_STEP_LOGIN)"
proof (induction "seconds_left A" arbitrary: A L fl M evs rule: less_induct)
  case less
  let ?k = "9 - unat (hpm_timer_ticks A)"
  have pos: "0 < seconds_left A" by (simp add: seconds_left_def Let_def split: hpm_socket_status_e.split)
  then have long: "?k < length evs" using less.prems(6,7) by simp
  then obtain ev rest where evs: "evs = take ?k evs @ ev # rest" by (metis id_take_nth_drop)
  have ev: "round_ok ev" "en_acc (rd_env ev)" "modem_opens ev type" using less.prems(3) by (subst (asm) evs, simp)+
  have len: "length (take ?k evs) = ?k" using long by simp
  have ok: "\<forall>ev\<in>set (take ?k evs). round_ok ev" using less.prems(3) by (blast dest: in_set_takeD)
  have over: "session_over (ap_hpm A)" using less.prems(5) by (simp add: reopening_def)
  obtain A1 L1 fl1 M1 where a: "timer_rounds drv (take ?k evs) A = Some A1" "session_ok drv page clean (ap_hpm A1) L1 fl1 M1" "length fl1 \<le> length fl + 2 * ?k"
      "same_link A A1" "unat (hpm_timer_ticks A1) = 9"
    using before_second [OF less.prems(1), of "take ?k evs"] less.prems(2-4,6) over long ok by auto
  have o1: "reopening type A1" "seconds_left A1 = seconds_left A" using same_link_opening [OF a(4), of type] less.prems(5) by simp_all
  have split: "timer_rounds drv evs A = do { A' \<leftarrow> hpm_handle_timer_event drv ev A1; timer_rounds drv rest A' }"
    using a(1) by (subst evs) (simp add: timer_rounds_append)
  have sum: "length evs = ?k + 1 + length rest" using arg_cong [OF evs, of length] len by simp
  have room: "length fl1 < 16380" "length fl1 + 2 + 2 * length rest < 16380" using less.prems(2) a(3) sum by simp_all
  show ?case
  proof (cases "seconds_left A = 1")
    case True
    then have "length rest = 0" using sum [unfolded less.prems(7) True] less.prems(6) by arith
    then have "rest = []" by simp
    then have "last evs = ev" by (subst evs) simp
    then show ?thesis using round_opens [OF a(2) room(1) ev(1) less.prems(4) a(5) ev(2,3) o1(1)] o1(2) True less.prems(8) split \<open>rest = []\<close> by auto
  next
    case False
    let ?C = "every_second drv ev (A1\<lparr>hpm_timer_ticks := 0\<rparr>)"
    have "reopening type (A1\<lparr>hpm_timer_ticks := 0\<rparr>)" "seconds_left (A1\<lparr>hpm_timer_ticks := 0\<rparr>) = seconds_left A"
      using o1 by (simp_all add: same_link_opening [OF ticks_beside])
    then have c: "reopening type ?C" "Suc (seconds_left ?C) = seconds_left A"
      using opening_second [OF ev(2,3), of "A1\<lparr>hpm_timer_ticks := 0\<rparr>" drv] False pos by auto
    have "session_over (ap_hpm (clocked drv ev A1))" using c(1) by (simp add: ninth_clocked [OF a(5)] reopening_def)
    from round_over [OF a(2) room(1) ev(1) less.prems(4) this] obtain A2 L2 fl2 M2 where b: "hpm_handle_timer_event drv ev A1 = Some A2"
        "session_ok drv page clean (ap_hpm A2) L2 fl2 M2" "length fl2 \<le> length fl1 + 2" "same_link ?C A2" "hpm_timer_ticks A2 = 0"
      by (auto simp: ninth_clocked [OF a(5)] every_ticks)
    have o2: "reopening type A2" "Suc (seconds_left A2) = seconds_left A" using same_link_opening [OF b(4), of type] c by simp_all
    have n: "length rest = 10 * seconds_left A2" by (rule rounds_after [OF less.prems(7) sum less.prems(6) o2(2)])
    have "0 < seconds_left A2" by (simp add: seconds_left_def Let_def split: hpm_socket_status_e.split)
    then have "rest \<noteq> []" using n by auto
    then have le: "last evs = last rest" using arg_cong [OF evs, of last] by simp
    have lt: "seconds_left A2 < seconds_left A" and rm: "length fl2 + 2 * length rest < 16380" and tk: "unat (hpm_timer_ticks A2) < 10"
      and lg: "length rest = 10 * seconds_left A2 - unat (hpm_timer_ticks A2)"
      using o2(2) b(3,5) room(2) n by simp_all
    have all: "\<forall>ev\<in>set rest. round_ok ev \<and> en_acc (rd_env ev) \<and> modem_opens ev type" using less.prems(3) by (subst (asm) evs) simp
    have bf: "en_buf (rd_env (last rest)) HPM_SESSION_EVENT_LOGIN \<noteq> None" using less.prems(8) le by simp
    from less.hyps [OF lt b(2) rm all less.prems(4) o2(1) tk lg bf] show ?thesis by (simp add: split b(1) le)
  qed
qed

text \<open>
  C10: a closed connection comes back. When the connection is closed and the session over, the ignition is on, there is an address in the configuration and
  the modem opens it, then after the rounds of \<open>seconds_left\<close> seconds - three after the time it has to stay closed, in whatever state the manager is; one
  more if the manager was in its stop delay, has stopped the connection and no time is left - every round has returned, the connection is open, and with
  memory for it the log-in has been made. Neither the network nor the position is waited for. The rounds are whole rounds of a tenth of a second, with the
  reports, the session and the flash.
\<close>

theorem hpm_reconnects:
  assumes "session_ok drv page clean (ap_hpm A) L fl M" and "length fl + 2 * length evs < 16380" and "info_apart drv page clean"
    and "so_status (hpm_socket_info (ap_hpm A)) = HPM_SOCKET_STATUS_CLOSED" and "session_over (ap_hpm A)" and "unat (hpm_timer_ticks A) < 10"
    and "\<forall>ev\<in>set evs. round_ok ev \<and> en_acc (rd_env ev) \<and> modem_opens ev (so_type (hpm_socket_info (ap_hpm A)))"
    and "length evs = 10 * seconds_left A - unat (hpm_timer_ticks A)" and "en_buf (rd_env (last evs)) HPM_SESSION_EVENT_LOGIN \<noteq> None"
  shows "\<exists>A'. timer_rounds drv evs A = Some A' \<and> hpm_socket_is_connected (ap_hpm A') \<and>
    (\<not> en_downloading (rd_env (last evs)) \<longrightarrow> hpm_session_step (ap_hpm A') = HPM_SESSION_STEP_LOGIN)"
  by (rule opening_rounds [OF assms(1,2,7,3) _ assms(6,8,9)]) (use assms(4,5) in \<open>simp add: reopening_def\<close>)

theorem hpm_reconnects_witness:
  "\<exists>D A'. timer_rounds chip_drivers (replicate 40 fresh_round) ((fresh_app D)\<lparr>hpm_mgr_status := HPM_MGR_STATUS_WAIT_STOP\<rparr>) = Some A' \<and>
    hpm_socket_is_connected (ap_hpm A') \<and> hpm_session_step (ap_hpm A') = HPM_SESSION_STEP_LOGIN"
proof -
  obtain D L where D: "holds_reports chip_drivers chip_page chip_clean D L [] {#}" using fresh_holds by blast
  let ?A = "(fresh_app D)\<lparr>hpm_mgr_status := HPM_MGR_STATUS_WAIT_STOP\<rparr>"
  have ok: "session_ok chip_drivers chip_page chip_clean (ap_hpm ?A) L [] {#}" using fresh_session_ok [OF D] by (simp add: fresh_app_def)
  have o: "session_over (ap_hpm ?A)" "so_status (hpm_socket_info (ap_hpm ?A)) = HPM_SOCKET_STATUS_CLOSED" "seconds_left ?A = 4"
    by (simp_all add: fresh_app_def fresh_hpm_def session_over_def seconds_left_def hpm_data_recv_empty_def)
  have "round_ok fresh_round \<and> en_acc (rd_env fresh_round) \<and> modem_opens fresh_round (so_type (hpm_socket_info (ap_hpm ?A)))"
    using fresh_round_ok by (simp add: modem_opens_def fresh_app_def fresh_hpm_def fresh_round_def fresh_env_def fresh_socket_def hpm_socket_get_addr_def)
  then show ?thesis
    using hpm_reconnects [OF ok _ chip_apart o(2,1), of "replicate 40 fresh_round"] o(3)
    by (auto simp: fresh_app_def fresh_round_def fresh_env_def)
qed

text \<open>Broken off, and the manager knows nothing of it.\<close>

definition broken_off :: "'d hpm_app \<Rightarrow> bool" where
  "broken_off A \<longleftrightarrow> so_status (hpm_socket_info (ap_hpm A)) = HPM_SOCKET_STATUS_CLOSED \<and> so_run (hpm_socket_info (ap_hpm A)) = HPM_SOCKET_STOPPED \<and>
     hpm_mgr_status A \<in> {HPM_MGR_STATUS_RUNNING, HPM_MGR_STATUS_WAIT_STOP, HPM_MGR_STATUS_STOPPED}"

lemma broken_second:
  assumes "broken_off A" and "\<not> en_acc (rd_env ev)"
  shows "broken_off (every_second drv ev A)"
proof -
  let ?A = "hpm_mgr_process False (rd_mgr ev) A"
  have m: "broken_off ?A"
    using assms(1) by (cases "hpm_mgr_status A")
      (auto simp: broken_off_def hpm_mgr_process_def hpm_mgr_in_running_def hpm_mgr_in_wait_stop_def hpm_mgr_in_stopped_def upd_hpm_def
        hpm_socket_stop_def hpm_socket_in_idle_def Let_def)
  then have "hpm_socket_process (rd_socket ev) (ap_hpm ?A) \<in> {ap_hpm ?A, tick_down (ap_hpm ?A)}"
    by (simp add: broken_off_def hpm_socket_process_def hpm_socket_handle_closed_def)
  then have "broken_off (upd_hpm (hpm_socket_process (rd_socket ev)) ?A)"
    using m by (auto simp: broken_off_def upd_hpm_def tick_down_def upd_socket_def)
  then show ?thesis using assms(2) by (simp add: every_second_def broken_off_def upd_hpm_def flash_upkeep_def)
qed

text \<open>
  C38: without the ignition nothing reopens it: a connection that was broken off - the session does so when a report is not confirmed in time -
  stays closed however long, while the manager believes it is running.
\<close>

theorem hpm_stays_closed:
  assumes "broken_off A" and "\<forall>ev\<in>set evs. \<not> en_acc (rd_env ev)"
  shows "broken_off (seconds drv evs A)"
  using assms by (induction evs arbitrary: A) (simp_all add: seconds_def broken_second)

theorem hpm_stays_closed_witness:
  "broken_off (seconds chip_drivers (replicate 1000 (fresh_round\<lparr>rd_env := fresh_env\<lparr>en_acc := False\<rparr>\<rparr>)) (fresh_app fresh_store))"
  by (rule hpm_stays_closed) (simp_all add: broken_off_def fresh_app_def fresh_hpm_def)

section \<open>The update command\<close>

lemma copy_field_beyond:
  "pos \<le> length bs \<Longrightarrow> 0 \<notin> set (drop pos bs) \<Longrightarrow> length bs < pos + n \<Longrightarrow> copy_field bs cap n pos out = None"
proof (induction n arbitrary: pos out)
  case (Suc n)
  show ?case
  proof (cases "pos < length bs")
    case True
    then have d: "drop pos bs = bs ! pos # drop (pos + 1) bs" by (simp add: Cons_nth_drop_Suc)
    then have "bs ! pos \<noteq> 0" "0 \<notin> set (drop (pos + 1) bs)" using Suc.prems(2) by auto
    then show ?thesis using Suc.IH [of "pos + 1"] Suc.prems(3) True by (simp add: rd_def)
  next
    case False
    then show ?thesis by (simp add: rd_def)
  qed
qed simp

text \<open>
  C40: the update command trusts the length in the message: when it announces more bytes than the buffer of the reception holds and its text
  has no end there, the address is read on behind the buffer.
\<close>

theorem hpm_upgrade_reads_beyond:
  assumes "\<not> ce_upgrading ce" and "in_data \<noteq> []" and "0 \<notin> set (tl in_data)" and "length in_data < unat in_len"
  shows "hpm_control_upgrade ce in_data in_len info = None"
proof -
  have "copy_field in_data HPM_FOTA_URL_MAX_LEN (unat in_len - 1) 1 [] = None"
    by (rule copy_field_beyond) (use assms(2-4) in \<open>auto simp: drop_Suc Suc_le_eq\<close>)
  moreover have "rd in_data 0 = Some (in_data ! 0)" using assms(2) by (simp add: rd_def)
  ultimately show ?thesis using assms(1) by (simp add: hpm_control_upgrade_def text_field_def)
qed

theorem hpm_upgrade_reads_beyond_witness:
  "hpm_control_upgrade (fresh_control\<lparr>ce_upgrading := False\<rparr>) (replicate 501 0x41) 502 \<lparr>ct_seq = 1, ct_cmd = HPM_CMD_CONTROL, ct_cmd_sub = 0x0D, ct_len = 502\<rparr> = None"
  by (rule hpm_upgrade_reads_beyond) (simp_all add: fresh_control_def)

end
