(* ===== verification/Spec2Isabelle.thy ===== *)
theory Spec2Isabelle imports Checksum Cobs CQueue DList DataQueue ErrorCodes HashMap J1939Claims STimerClaims MemPoolClaims TaskClaims MsgBusClaims SuperviseClaims LogClaims Core HpmRecvClaims HpmAppClaims HpmFlashClaims begin

text \<open>
  This library models the firmware of a telematics box (\<^verbatim>\<open>src/src\<close>), a set of modules over a small message-passing core on
  FreeRTOS, and states what its parts promise to each other. This theory imports all others; every theory opens with what it holds.

  The program and its theories, from the bottom up.

  \<^item> Common code (\<^verbatim>\<open>src/common\<close>): checksums (\<open>Checksum\<close>: \<^verbatim>\<open>checksum.c\<close>), byte stuffing (\<open>Cobs\<close>: \<^verbatim>\<open>cobs.c\<close>), the byte queue
    (\<open>CQueue\<close>: \<^verbatim>\<open>cqueue.c\<close>), intrusive lists (\<open>DList\<close>: \<^verbatim>\<open>tbox_dlist.c\<close>, over a heap of nodes), the queue of framed elements and the
    slices of the cellular socket (\<open>DataQueue\<close>: \<^verbatim>\<open>data_queue.c\<close>), the hash map (\<open>HashMap\<close>: \<^verbatim>\<open>tbox_hashmap.c\<close>), error codes
    (\<open>ErrorCodes\<close>: \<^verbatim>\<open>tbox_type.h\<close>). What the rings share is in \<open>Ring\<close>, what lists share in \<open>NodeLists\<close>, what queues of frames share
    in \<open>Frames\<close>, the layout of integers as bytes in \<open>Bytes\<close>.
  \<^item> The core (\<^verbatim>\<open>src/core\<close>): memory pools (\<open>MemPool\<close>: \<^verbatim>\<open>tbox_mp.c\<close>, \<^verbatim>\<open>tbox_memory.c\<close>), message tasks and their queues
    (\<open>Task\<close>: \<^verbatim>\<open>tbox_task.c\<close>), the registry of message names (\<open>Message\<close>: \<^verbatim>\<open>tbox_message.c\<close>), the module manager (\<open>Module\<close>:
    \<^verbatim>\<open>tbox_module.c\<close>), sending and publishing over all of these (\<open>MsgBus\<close>), the supervisor (\<open>Supervise\<close>: \<^verbatim>\<open>tbox_supervise.c\<close>), the log
    (\<open>Log\<close>: \<^verbatim>\<open>tbox_log.c\<close>) and their start-up and shut-down (\<open>Core\<close>: \<^verbatim>\<open>tbox_core.c\<close>). \<open>Notify\<close> is the notification word by which
    tasks wake each other.
  \<^item> Services (\<^verbatim>\<open>src/service\<close>): software timers (\<open>STimer\<close>: \<^verbatim>\<open>timer/stimer.c\<close>), and the J1939 stack with its queues, group filter, layers
    and service task (\<open>J1939List\<close>, \<open>J1939Pgn\<close>, \<open>J1939State\<close>, \<open>J1939Al\<close>, \<open>J1939Tl\<close>, \<open>J1939Dl\<close>, \<open>J1939Stack\<close>: \<^verbatim>\<open>j1939/*.c\<close>).
  \<^item> The application (\<^verbatim>\<open>src/app/hpm\<close>): frames (\<open>HpmPack\<close>: \<^verbatim>\<open>hpm_pack.c\<close>), the reception (\<open>HpmRecv\<close>: \<^verbatim>\<open>hpm_data_recv.c\<close>), the flash
    store (\<open>HpmFlash\<close>: \<^verbatim>\<open>hpm_flash.c\<close>, \<^verbatim>\<open>hpm_flash_adapter.c\<close>), the lists of reports (\<open>HpmData\<close>: \<^verbatim>\<open>hpm_data.c\<close>), the session with the
    server (\<open>HpmSession\<close>: \<^verbatim>\<open>hpm_session.c\<close>), the states in which reports are made and the commands of the server (\<open>HpmControl\<close>:
    \<^verbatim>\<open>hpm_dev.c\<close>, \<^verbatim>\<open>hpm_control.c\<close>), the connection, its manager and the round of the application (\<open>HpmApp\<close>: \<^verbatim>\<open>hpm_socket.c\<close>,
    \<^verbatim>\<open>hpm_net.c\<close>, \<^verbatim>\<open>hpm_mgr.c\<close>, \<^verbatim>\<open>hpm.c\<close>).

  How they interact: a timer of the application sends a message through the bus; its task takes the message out of its queue and calls the
  handler, \<open>hpm_handle_timer_event\<close>. Once a second this runs manager, connection and the upkeep of the flash, and each time the device and
  the session. The device makes reports and puts them into the lists; the session logs in, takes reports from the lists or from flash,
  packs them into frames, sends them, and releases one when the reception finds an answer; commands of the server are carried out
  from the reception. When the connection is lost or the device goes to sleep, what was not confirmed goes back to the lists or to flash.

  Conventions. A structure is a record with the fields of the code, an enumeration a datatype or its constants, a C integer a word of its
  width. A static variable is a field of the state; a function takes the state and returns it. \<open>None\<close> is an access outside an array, a loop
  that never ends, or a failed assertion of the code; errors the code reports are values, booleans or \<open>TBOX_ERROR_CODE\<close>. Memory is split by
  type: a heap of list nodes, one of items, the bytes of the pools. A critical section is one step, and the interleavings of tasks are
  sequences of such steps. What comes from outside - the kernel, the modem, the drivers of the flash, the clock, the configuration,
  memory that was not initialised, call-backs - is an argument of the functions that use it, for the application gathered in records such
  as \<open>hpm_env\<close>, \<open>socket_env\<close> and \<open>control_env\<close>, one for each round. Output of text is not in the state, but the lines of the log are.

  What the lemmas show.

  \<^item> Common code: \<open>crc32\<close> is polynomial division; the rings are bounded queues of bytes or elements under any sequence of calls, the
    lists keep their families apart, the hash map refines a finite map.
  \<^item> Memory (\<open>MemPoolInv\<close>, \<open>MemPoolOps\<close>, \<open>MemPoolClaims\<close>): pointers never overlap, allocation refuses only when no chunk fits, a release
    takes away one pointer. \<open>Allocator\<close> states this as the interface of the layers above.
  \<^item> Tasks, messages, modules, bus (\<open>TaskRef\<close>, \<open>TaskSup\<close>, \<open>MessageRef\<close> and the theories with \<open>Claims\<close>): accepted messages are handled in
    order under any interleaving; the registry refines a map from names to topics, and its memory is accounted for; no two modules
    share a task over set-ups and shut-downs (call-backs may change anything but who has which task, \<open>loyal\<close>), and the rounds of initialisation,
    start and stop call the modules in order, where each call-back may set the state of its own module as those of the repository do
    (\<open>behaved\<close>); publishing reaches every subscriber, and every outcome of sending is stated for any registry, modules, tasks and pool.
  \<^item> Supervisor and log (\<open>SuperviseClaims\<close>, \<open>LogClaims\<close>): reports and lines come out in the order they went in; what is
    printed is written in the buffer that was taken and leaves the other buffers alone.
  \<^item> Timers (\<open>STimerRef\<close>, \<open>STimerClaims\<close>): the wheel refines a set of timers that are idle, waiting or due;
    the one call that breaks the lists, triggering a timer that is not started, is shown to break them and is excluded from the interleavings.
  \<^item> J1939 (\<open>J1939Inv\<close>, \<open>J1939Transfer\<close>, \<open>J1939Claims\<close>): an invariant under which every call returns, the delivery of broadcasts and
    messages, and the requests that hang the stack.
  \<^item> Application: \<open>HpmRecvClaims\<close>: frames come out whole and in order in whatever pieces they arrive and whenever the reception looks, and what blocks it;
    \<open>HpmFlashClaims\<close>: on a device that works (\<open>device_works\<close>) the store is a queue; \<open>HpmDataInv\<close>: each packet is in one list or in
    hand, and the multiset of the reports in the lists and in flash is changed by each operation as it should be; \<open>HpmSessionInv\<close> and
    \<open>HpmRoundInv\<close>: every step of the session and every round returns on memory as it should be, and takes at most one report away;
    \<open>HpmAppClaims\<close>: over any sequence of arriving bytes and rounds a new report is kept unless it finds no place (\<open>can_keep\<close>) and reports are
    lost only to confirmations of the server, any positive answer counts as one, sleep puts all into flash, connections come back over whole
    rounds while the ignition is on and do not while it is off, log-out never gives up,
    and the update command reads behind its buffer.

  Interfaces are locales, interpreted on the code's own definitions: \<open>stream_buffer\<close> (byte queue), \<open>element_queue\<close> (framed queue and J1939
  queues), \<open>node_lists\<close> (intrusive lists, used by pool, timers and reports), \<open>allocator\<close> (memory of the core), \<open>key_contract\<close> and
  \<open>prefix_free\<close> (keys of the hash map).

  Bounds. Loops over arrays are recursion on the number of rounds; loops over lists, and those of the transport layer and of the session's
  store, are \<open>partial_function (option)\<close>, and that they return is proved from the length of the list or the number of reports that wait.
  No other function needs fuel. The flash store holds 16383 packets; the theorems about reports suppose room for those that the
  rounds can add, two in each, since a full store drops its oldest by design. Reports are supposed to be at most 996 bytes long, the
  longest that is sent; the session drops longer ones. The update command is left out of the rounds (\<open>control_ok\<close>), because what it reads is not
  bounded.

  Not modelled, and why: the FreeRTOS kernel, FlashDB, the UDS client, MD5 and the hierarchical state machine are third-party code; the
  chip support package is generated register access; the drivers of peripherals and flash are sequences of bus commands with no state beyond
  the device; the modem, its sockets beyond the slicing of data, positioning, firmware update and security element are conversations
  with devices or libraries that are not in the repository; configuration, power, CAN, time, health, mode, LED, battery, analog and sensor
  services are periodic jobs and tables over these; of the application, the contents of reports, the tables of parameters, the file
  transfer, the update and the status display, which change none of the state that is modelled; shell, factory test and self test.
\<close>

end
